(* ===== verification/Prelude.thy ===== *)
theory Prelude
  imports Main "HOL-Library.Word" "HOL-Library.Multiset"
begin

text \<open>
  Shared vocabulary of the development: names for the C++ integer types, the
  \<open>named_theorems\<close> collections the component proofs draw on, and generic lemmas on lists,
  folds and words.

  Machine integers are words of their width (\<open>uint8_t\<close> is \<open>u8\<close> and so on), so every
  addition and subtraction of the code wraps as it does there.  A C pointer that the code only
  stores and compares is a \<open>ptr\<close>, with 0 for \<open>nullptr\<close>.
\<close>

unbundle bit_operations_syntax

type_synonym u8 = "8 word"
type_synonym u16 = "16 word"
type_synonym u32 = "32 word"
type_synonym u64 = "64 word"
type_synonym ptr = "64 word"

abbreviation nullptr :: ptr where
  "nullptr \<equiv> 0"

abbreviation UINT64_MAX :: u64 where
  "UINT64_MAX \<equiv> 18446744073709551615"

named_theorems frame_simps \<open>which record fields an operation leaves alone\<close>
named_theorems codec_simps \<open>reading back what a writer produced\<close>

section \<open>Lists and folds\<close>

lemma fold_inv:
  assumes "P s" and "\<And>x s. x \<in> set xs \<Longrightarrow> P s \<Longrightarrow> P (f x s)"
  shows "P (fold f xs s)"
  using assms by (induction xs arbitrary: s) auto

lemma fold_frame:
  assumes "\<And>x s. g (f x s) = g s"
  shows "g (fold f xs s) = g s"
  using assms by (induction xs arbitrary: s) auto

lemma nth_list_update_if:
  "i < length xs \<Longrightarrow> xs[j := x] ! i = (if i = j then x else xs ! i)"
  by simp

lemma filter_update_mset:
  assumes "i < length xs"
  shows "mset (filter P (xs[i := y])) + (if P (xs ! i) then {#xs ! i#} else {#})
       = mset (filter P xs) + (if P y then {#y#} else {#})"
  using assms
proof (induction xs arbitrary: i)
  case Nil
  then show ?case by simp
next
  case (Cons x xs)
  show ?case
  proof (cases i)
    case 0
    then show ?thesis by simp
  next
    case (Suc j)
    with Cons.prems have "j < length xs" by simp
    from Cons.IH [OF this] Suc show ?thesis by (auto split: if_splits)
  qed
qed

section \<open>Unsigned comparison\<close>

lemma le_UINT64_MAX [simp]: "(x :: u64) \<le> UINT64_MAX"
proof -
  have "unat x < 2 ^ 64" using unsigned_less [of x] by simp
  then show ?thesis by (simp add: word_le_nat_alt)
qed

lemma word_less_min:
  fixes a b c :: "'a::len word"
  shows "a < min b c \<longleftrightarrow> a < b \<and> a < c"
  by auto

lemma unat_of_nat_u32: "n < 4294967296 \<Longrightarrow> unat (of_nat n :: u32) = n"
  by (simp add: unat_of_nat)

end
