(* ===== verification/Elp_Types.thy ===== *)
theory Elp_Types
  imports Prelude
begin

text \<open>
  Data of the event-level-parallel simulator, \<^verbatim>\<open>contrib/cuda/model/cuda-elp-simulator.h\<close>:
  the constants, the device-side and host-side event structures, the scheduler's event and key,
  and the state of \<^verbatim>\<open>CudaELPSimulator\<close>.

  The class \<^verbatim>\<open>Scheduler\<close> (and \<^verbatim>\<open>EventId\<close>) belongs to the ns-3 core module, which is not
  in this repository: its operations are the argument \<open>sched_ops\<close> of the simulator's
  operations, and \<open>sched_laws\<close> states the documented behaviour of that class (a priority queue
  of events ordered by time stamp and then by unique id).
\<close>

section \<open>Constants\<close>

definition DEVICE_QUEUE_LENGTH :: nat where
  "DEVICE_QUEUE_LENGTH = 4096"

definition EVENT_KINDS :: nat where
  "EVENT_KINDS = 4"

definition MAX_NEW_EVENTS :: nat where
  "MAX_NEW_EVENTS = 4"

definition DEVICE_EV_ID_OFFSET :: u32 where
  "DEVICE_EV_ID_OFFSET = 1000000"

definition TPB :: nat where
  "TPB = 128"

definition WARP_SIZE :: nat where
  "WARP_SIZE = 32"

section \<open>Events\<close>

text \<open>
  \<^verbatim>\<open>struct DeviceEvent\<close>.  The member \<^verbatim>\<open>next\<close> is always null in the code and \<^verbatim>\<open>context\<close> is an
  \<^verbatim>\<open>int\<close> that only ever holds the bits of a \<^verbatim>\<open>uint32_t\<close> context.
\<close>

record DeviceEvent =
  ev_impl :: ptr
  ev_ts :: u64
  ev_context :: u32
  ev_uid :: u32
  ev_type :: int
  ev_lookahead :: u64
  ev_valid :: bool
  ev_payload :: ptr

record HostEvent =
  he_obj :: ptr
  he_type :: int
  he_lookahead :: u64
  he_payload :: ptr

text \<open>
  \<^verbatim>\<open>Scheduler::Event::impl\<close> is an \<^verbatim>\<open>EventImpl*\<close>: either a real event of the CPU (an object whose
  \<^verbatim>\<open>Invoke\<close> runs user code, named by its address) or a \<^verbatim>\<open>HostEvent*\<close> cast to it.
\<close>

datatype event_impl = CpuImpl ptr | GpuImpl HostEvent

record EventKey =
  k_ts :: u64
  k_uid :: u32
  k_context :: u32

record SchedEvent =
  se_impl :: event_impl
  se_key :: EventKey

abbreviation se_ts :: "SchedEvent \<Rightarrow> u64" where
  "se_ts e \<equiv> k_ts (se_key e)"

abbreviation se_uid :: "SchedEvent \<Rightarrow> u32" where
  "se_uid e \<equiv> k_uid (se_key e)"

text \<open>An \<^verbatim>\<open>EventId\<close> of the core module, as the simulator reads it: \<open>None\<close> is a null implementation.\<close>

record EventId =
  id_impl :: "ptr option"
  id_ts :: u64
  id_context :: u32
  id_uid :: u32

record EventWithContext =
  wc_context :: u32
  wc_timestamp :: u64
  wc_event :: ptr

section \<open>The scheduler, a parameter\<close>

record 'q sched_ops =
  uid_INVALID :: u32
  uid_DESTROY :: u32
  uid_VALID :: u32
  sch_Insert :: "SchedEvent \<Rightarrow> 'q \<Rightarrow> 'q"
  sch_IsEmpty :: "'q \<Rightarrow> bool"
  sch_PeekNext :: "'q \<Rightarrow> SchedEvent"
  sch_RemoveNext :: "'q \<Rightarrow> SchedEvent \<times> 'q"
  sch_Remove :: "SchedEvent \<Rightarrow> 'q \<Rightarrow> 'q"

definition key_le :: "EventKey \<Rightarrow> EventKey \<Rightarrow> bool" where
  "key_le a b \<longleftrightarrow> k_ts a < k_ts b \<or> (k_ts a = k_ts b \<and> k_uid a \<le> k_uid b)"

text \<open>
  The documented contract of \<^verbatim>\<open>ns3::Scheduler\<close>, over the multiset \<open>q_abs q\<close> of events a scheduler
  holds: insertion adds, \<^verbatim>\<open>PeekNext\<close> is an earliest event, \<^verbatim>\<open>RemoveNext\<close> takes that same event out,
  \<^verbatim>\<open>Remove\<close> takes the named event out (and changes nothing when it is not there).  The last conjunct is about
  \<^verbatim>\<open>EventId::UID::VALID\<close>, the first id of ordinary events (4 in ns-3).
\<close>

definition sched_laws :: "'q sched_ops \<Rightarrow> ('q \<Rightarrow> SchedEvent multiset) \<Rightarrow> bool" where
  "sched_laws ops q_abs \<longleftrightarrow>
     (\<forall>e q. q_abs (sch_Insert ops e q) = add_mset e (q_abs q)) \<and>
     (\<forall>q. sch_IsEmpty ops q \<longleftrightarrow> q_abs q = {#}) \<and>
     (\<forall>q. q_abs q \<noteq> {#} \<longrightarrow>
        sch_PeekNext ops q \<in># q_abs q \<and>
        (\<forall>e\<in>#q_abs q. key_le (se_key (sch_PeekNext ops q)) (se_key e)) \<and>
        fst (sch_RemoveNext ops q) = sch_PeekNext ops q \<and>
        q_abs (snd (sch_RemoveNext ops q)) = q_abs q - {#sch_PeekNext ops q#}) \<and>
     (\<forall>e q. q_abs (sch_Remove ops e q) = q_abs q - {#e#}) \<and>
     uid_VALID ops < DEVICE_EV_ID_OFFSET"

section \<open>State of the simulator\<close>

text \<open>
  The simulator keeps two copies (ping-pong) of each shared buffer, with a flag and, for the safe
  buffers, a time stamp.  A member that is a pointer to one of a pair is the name of that copy.
\<close>

datatype bufsel = Buf1 | Buf2

fun other :: "bufsel \<Rightarrow> bufsel" where
  "other Buf1 = Buf2"
| "other Buf2 = Buf1"

lemma other_other [simp]: "other (other b) = b"
  by (cases b) simp_all

lemma other_neq [simp]: "other b \<noteq> b" "b \<noteq> other b"
  by (cases b, simp_all)+

lemma neq_other_iff: "b' \<noteq> b \<longleftrightarrow> b' = other b"
  by (cases b; cases b') simp_all

text \<open>The arguments of one call of \<^verbatim>\<open>d_insert\<close> made by device code.\<close>

record DevCall =
  dc_impl :: ptr
  dc_ts :: u64
  dc_context :: u32
  dc_type :: int
  dc_lookahead :: u64
  dc_payload :: ptr

text \<open>
  \<open>k_buf\<close>, \<open>k_todo\<close> and \<open>k_active\<close> describe the kernel on \<^verbatim>\<open>streamK\<close>: the buffer the last launch
  of \<^verbatim>\<open>SingleBufKernel\<close> was given, the indices of it that no thread has visited yet, and the
  indices whose event a thread is executing, each with the calls of \<^verbatim>\<open>d_insert\<close> its handler has
  still to make.  \<open>cancelled\<close> holds the CPU events on which \<^verbatim>\<open>EventImpl::Cancel\<close> has been called.
\<close>

record 'q elp =
  m_stop :: bool
  m_events :: 'q
  m_uid :: u32
  m_currentUid :: u32
  m_currentTs :: u64
  m_currentContext :: u32
  m_eventCount :: u64
  m_unscheduledEvents :: int
  m_eventsWithContext :: "EventWithContext list"
  m_eventsWithContextEmpty :: bool
  m_destroyEvents :: "EventId list"
  cancelled :: "ptr list"
  h_safeEventQueue :: "bufsel \<Rightarrow> DeviceEvent list"
  d_nextEventQueue :: "bufsel \<Rightarrow> DeviceEvent list"
  h_bufrdy :: "bufsel \<Rightarrow> bool"
  d_bufrdy :: "bufsel \<Rightarrow> bool"
  d_safe_tss :: "bufsel \<Rightarrow> u64"
  h_curHostBuf :: bufsel
  h_curDevBuf :: bufsel
  d_curDevBuf :: bufsel
  h_curHostBufRdy :: bufsel
  d_curHostBufRdy :: bufsel
  h_curDevBufRdy :: bufsel
  d_curDevBufRdy :: bufsel
  h_insertIndex :: nat
  safe_ts :: u64
  h_safe_ts :: bufsel
  d_safe_ts :: bufsel
  d_uid :: u32
  warp_index :: "nat list"
  warp_thread_index :: "nat list"
  next_avail_warp :: nat
  parallelism :: nat
  mp :: nat
  k_buf :: bufsel
  k_todo :: "nat list"
  k_active :: "(nat \<times> DevCall list) list"

definition no_event :: DeviceEvent where
  "no_event = \<lparr>ev_impl = nullptr, ev_ts = 0, ev_context = 0, ev_uid = 0, ev_type = 0,
     ev_lookahead = 0, ev_valid = False, ev_payload = nullptr\<rparr>"

section \<open>The host side of the simulator\<close>

text \<open>
  The operations of \<^verbatim>\<open>CudaELPSimulator\<close>
  (\<^verbatim>\<open>contrib/cuda/model/cuda-elp-simulator.cu\<close>) on the state \<open>elp\<close>: scheduling, the
  ping-pong buffers between host and device, the safe time stamp and the main loop
  \<^verbatim>\<open>ELP_RunSK\<close>, whose iterations interleave with the threads of \<^verbatim>\<open>SingleBufKernel\<close> in the step
  relation \<open>elp_step\<close>.

  Time is in nanoseconds, the resolution the code assumes, so \<^verbatim>\<open>Time\<close> conversions keep the 64
  bits.  \<^verbatim>\<open>NS_ASSERT\<close> is compiled out in the optimised build the repository describes and is not
  modelled.
\<close>

section \<open>Construction\<close>

text \<open>
  The constructor and \<^verbatim>\<open>ELP_Init\<close>.  \<^verbatim>\<open>cudaMallocManaged\<close> memory is taken as zeroed, as the code
  does when it reads the \<^verbatim>\<open>valid\<close> flags of buffers it never wrote; \<open>smcount\<close> is the device's
  number of multiprocessors, doubled into \<open>mp\<close> (\<^verbatim>\<open>BPSM\<close>).
\<close>

definition ELP_Init :: "'q sched_ops \<Rightarrow> 'q \<Rightarrow> nat \<Rightarrow> 'q elp" where
  "ELP_Init ops q smcount =
     \<lparr>m_stop = False, m_events = q, m_uid = uid_VALID ops, m_currentUid = uid_INVALID ops,
      m_currentTs = 0, m_currentContext = 0xFFFFFFFF, m_eventCount = 0,
      m_unscheduledEvents = 0, m_eventsWithContext = [], m_eventsWithContextEmpty = True,
      m_destroyEvents = [], cancelled = [],
      h_safeEventQueue = (\<lambda>_. replicate DEVICE_QUEUE_LENGTH no_event),
      d_nextEventQueue = (\<lambda>_. replicate (DEVICE_QUEUE_LENGTH * MAX_NEW_EVENTS) no_event),
      h_bufrdy = (\<lambda>_. False), d_bufrdy = (\<lambda>_. False), d_safe_tss = (\<lambda>_. UINT64_MAX),
      h_curHostBuf = Buf1, h_curDevBuf = Buf1, d_curDevBuf = Buf1,
      h_curHostBufRdy = Buf1, d_curHostBufRdy = Buf1, h_curDevBufRdy = Buf1,
      d_curDevBufRdy = Buf1, h_insertIndex = 0, safe_ts = UINT64_MAX,
      h_safe_ts = Buf1, d_safe_ts = Buf1, d_uid = DEVICE_EV_ID_OFFSET,
      warp_index = [0..<EVENT_KINDS], warp_thread_index = replicate EVENT_KINDS 0,
      next_avail_warp = EVENT_KINDS, parallelism = 0, mp = smcount * 2,
      k_buf = Buf2, k_todo = [], k_active = []\<rparr>"

section \<open>Scheduling on the host\<close>

text \<open>\<^verbatim>\<open>m_uid++\<close> with the reset below the device's range of ids.\<close>

definition next_uid :: "'q sched_ops \<Rightarrow> u32 \<Rightarrow> u32" where
  "next_uid ops u = (if u + 1 \<ge> DEVICE_EV_ID_OFFSET then uid_VALID ops else u + 1)"

definition insert_event :: "'q sched_ops \<Rightarrow> SchedEvent \<Rightarrow> 'q elp \<Rightarrow> 'q elp" where
  "insert_event ops e s =
     s\<lparr>m_unscheduledEvents := m_unscheduledEvents s + 1, m_events := sch_Insert ops e (m_events s)\<rparr>"

definition ScheduleWithContext :: "'q sched_ops \<Rightarrow> u32 \<Rightarrow> u64 \<Rightarrow> ptr \<Rightarrow> 'q elp \<Rightarrow> 'q elp" where
  "ScheduleWithContext ops context delay event s =
     (let key = \<lparr>k_ts = delay + m_currentTs s, k_uid = m_uid s, k_context = context\<rparr>
      in insert_event ops \<lparr>se_impl = CpuImpl event, se_key = key\<rparr>
           (s\<lparr>m_uid := next_uid ops (m_uid s)\<rparr>))"

definition ScheduleWithContext_other_thread ::
  "u32 \<Rightarrow> u64 \<Rightarrow> ptr \<Rightarrow> 'q elp \<Rightarrow> 'q elp" where
  "ScheduleWithContext_other_thread context delay event s =
     s\<lparr>m_eventsWithContext := m_eventsWithContext s @
           [\<lparr>wc_context = context, wc_timestamp = delay, wc_event = event\<rparr>],
       m_eventsWithContextEmpty := False\<rparr>"

definition Schedule :: "'q sched_ops \<Rightarrow> u64 \<Rightarrow> ptr \<Rightarrow> 'q elp \<Rightarrow> EventId \<times> 'q elp" where
  "Schedule ops delay event s =
     (let key = \<lparr>k_ts = delay + m_currentTs s, k_uid = m_uid s, k_context = m_currentContext s\<rparr>
      in (\<lparr>id_impl = Some event, id_ts = k_ts key, id_context = k_context key, id_uid = k_uid key\<rparr>,
          insert_event ops \<lparr>se_impl = CpuImpl event, se_key = key\<rparr>
            (s\<lparr>m_uid := next_uid ops (m_uid s)\<rparr>)))"

definition ScheduleNow :: "'q sched_ops \<Rightarrow> ptr \<Rightarrow> 'q elp \<Rightarrow> EventId \<times> 'q elp" where
  "ScheduleNow ops event s = Schedule ops 0 event s"

definition ScheduleDestroy :: "'q sched_ops \<Rightarrow> ptr \<Rightarrow> 'q elp \<Rightarrow> EventId \<times> 'q elp" where
  "ScheduleDestroy ops event s =
     (let i = \<lparr>id_impl = Some event, id_ts = m_currentTs s, id_context = 0xFFFFFFFF, id_uid = 2\<rparr>
      in (i, s\<lparr>m_destroyEvents := m_destroyEvents s @ [i], m_uid := next_uid ops (m_uid s)\<rparr>))"

text \<open>
  \<^verbatim>\<open>ELP_Schedule\<close>: the host puts an event that device code asked for into the scheduler, under a
  device id and with an absolute time stamp.
\<close>

definition ELP_Schedule ::
  "'q sched_ops \<Rightarrow> u32 \<Rightarrow> u64 \<Rightarrow> ptr \<Rightarrow> int \<Rightarrow> u64 \<Rightarrow> ptr \<Rightarrow> 'q elp \<Rightarrow> 'q elp" where
  "ELP_Schedule ops context ts obj type lookahead payload s =
     (let h_ev = \<lparr>he_obj = obj, he_type = type, he_lookahead = lookahead, he_payload = payload\<rparr>;
          key = \<lparr>k_ts = ts, k_uid = d_uid s, k_context = context\<rparr>
      in insert_event ops \<lparr>se_impl = GpuImpl h_ev, se_key = key\<rparr>
           (s\<lparr>d_uid := d_uid s + 1\<rparr>))"

definition Stop :: "'q elp \<Rightarrow> 'q elp" where
  "Stop s = s\<lparr>m_stop := True\<rparr>"

section \<open>Event identifiers\<close>

definition is_cancelled :: "'q elp \<Rightarrow> ptr \<Rightarrow> bool" where
  "is_cancelled s p \<longleftrightarrow> p \<in> set (cancelled s)"

definition IsExpired :: "'q sched_ops \<Rightarrow> 'q elp \<Rightarrow> EventId \<Rightarrow> bool" where
  "IsExpired ops s i =
     (if id_uid i = uid_DESTROY ops then
        (case id_impl i of
           None \<Rightarrow> True
         | Some p \<Rightarrow> if is_cancelled s p then True else i \<notin> set (m_destroyEvents s))
      else
        (case id_impl i of
           None \<Rightarrow> True
         | Some p \<Rightarrow> id_ts i < m_currentTs s \<or>
             (id_ts i = m_currentTs s \<and> id_uid i \<le> m_currentUid s) \<or> is_cancelled s p))"

definition Cancel :: "'q sched_ops \<Rightarrow> EventId \<Rightarrow> 'q elp \<Rightarrow> 'q elp" where
  "Cancel ops i s =
     (if \<not> IsExpired ops s i then
        (case id_impl i of None \<Rightarrow> s | Some p \<Rightarrow> s\<lparr>cancelled := p # cancelled s\<rparr>)
      else s)"

definition Remove :: "'q sched_ops \<Rightarrow> EventId \<Rightarrow> 'q elp \<Rightarrow> 'q elp" where
  "Remove ops i s =
     (if id_uid i = uid_DESTROY ops then
        s\<lparr>m_destroyEvents := remove1 i (m_destroyEvents s)\<rparr>
      else if IsExpired ops s i then s
      else (case id_impl i of
          None \<Rightarrow> s
        | Some p \<Rightarrow>
            s\<lparr>m_events := sch_Remove ops
                 \<lparr>se_impl = CpuImpl p,
                  se_key = \<lparr>k_ts = id_ts i, k_uid = id_uid i, k_context = id_context i\<rparr>\<rparr>
                 (m_events s),
              cancelled := p # cancelled s,
              m_unscheduledEvents := m_unscheduledEvents s - 1\<rparr>))"

definition GetDelayLeft :: "'q sched_ops \<Rightarrow> 'q elp \<Rightarrow> EventId \<Rightarrow> u64" where
  "GetDelayLeft ops s i = (if IsExpired ops s i then 0 else id_ts i - m_currentTs s)"

definition IsFinished :: "'q sched_ops \<Rightarrow> 'q elp \<Rightarrow> bool" where
  "IsFinished ops s \<longleftrightarrow> sch_IsEmpty ops (m_events s) \<or> m_stop s"

text \<open>\<^verbatim>\<open>SetScheduler\<close> moves every event of the old scheduler to the new one, earliest first.\<close>

partial_function (option) transfer_events :: "'q sched_ops \<Rightarrow> 'q sched_ops \<Rightarrow> 'q \<Rightarrow> 'q \<Rightarrow> 'q option"
  where
  "transfer_events old new q q' =
     (if sch_IsEmpty old q then Some q'
      else transfer_events old new (snd (sch_RemoveNext old q))
             (sch_Insert new (fst (sch_RemoveNext old q)) q'))"

section \<open>CPU events\<close>

text \<open>
  What the code of an event may do to the simulator while \<^verbatim>\<open>Invoke\<close> runs it: calls of the
  simulator's interface, executed in order.
\<close>

datatype sim_call =
    CSchedule u64 ptr
  | CScheduleWithContext u32 u64 ptr
  | CScheduleNow ptr
  | CScheduleDestroy ptr
  | CCancel EventId
  | CRemove EventId
  | CStop
  | CELP_Schedule u32 u64 ptr int u64 ptr

fun exec_call :: "'q sched_ops \<Rightarrow> sim_call \<Rightarrow> 'q elp \<Rightarrow> 'q elp" where
  "exec_call ops (CSchedule d e) s = snd (Schedule ops d e s)"
| "exec_call ops (CScheduleWithContext c d e) s = ScheduleWithContext ops c d e s"
| "exec_call ops (CScheduleNow e) s = snd (ScheduleNow ops e s)"
| "exec_call ops (CScheduleDestroy e) s = snd (ScheduleDestroy ops e s)"
| "exec_call ops (CCancel i) s = Cancel ops i s"
| "exec_call ops (CRemove i) s = Remove ops i s"
| "exec_call ops CStop s = Stop s"
| "exec_call ops (CELP_Schedule c t obj type la payload) s =
     ELP_Schedule ops c t obj type la payload s"

text \<open>
  \<^verbatim>\<open>EventImpl::Invoke\<close>: nothing happens for a cancelled event; \<open>invoke\<close> is the simulated program's
  code, a parameter.
\<close>

type_synonym 'q user_code = "ptr \<Rightarrow> 'q elp \<Rightarrow> sim_call list"

definition Invoke :: "'q sched_ops \<Rightarrow> 'q user_code \<Rightarrow> ptr \<Rightarrow> 'q elp \<Rightarrow> 'q elp" where
  "Invoke ops invoke p s =
     (if is_cancelled s p then s else fold (exec_call ops) (invoke p s) s)"

definition process_with_context :: "'q sched_ops \<Rightarrow> EventWithContext \<Rightarrow> 'q elp \<Rightarrow> 'q elp" where
  "process_with_context ops event s =
     (let key = \<lparr>k_ts = m_currentTs s + wc_timestamp event, k_uid = m_uid s,
                 k_context = wc_context event\<rparr>
      in insert_event ops \<lparr>se_impl = CpuImpl (wc_event event), se_key = key\<rparr>
           (s\<lparr>m_uid := next_uid ops (m_uid s)\<rparr>))"

definition ProcessEventsWithContext :: "'q sched_ops \<Rightarrow> 'q elp \<Rightarrow> 'q elp" where
  "ProcessEventsWithContext ops s =
     (if m_eventsWithContextEmpty s then s
      else fold (process_with_context ops) (m_eventsWithContext s)
             (s\<lparr>m_eventsWithContext := [], m_eventsWithContextEmpty := True\<rparr>))"

text \<open>
  \<open>None\<close> is the virtual call \<^verbatim>\<open>Invoke\<close> on an \<^verbatim>\<open>impl\<close> that is really a \<^verbatim>\<open>HostEvent\<close>: it has no
  defined behaviour.
\<close>

definition ProcessOneEvent :: "'q sched_ops \<Rightarrow> 'q user_code \<Rightarrow> 'q elp \<Rightarrow> 'q elp option" where
  "ProcessOneEvent ops invoke s =
     (let (nxt, q) = sch_RemoveNext ops (m_events s);
          s1 = s\<lparr>m_events := q,
                 m_unscheduledEvents := m_unscheduledEvents s - 1,
                 m_eventCount := m_eventCount s + 1,
                 m_currentTs := se_ts nxt,
                 m_currentContext := k_context (se_key nxt),
                 m_currentUid := se_uid nxt\<rparr>
      in case se_impl nxt of
           CpuImpl p \<Rightarrow> Some (ProcessEventsWithContext ops (Invoke ops invoke p s1))
         | GpuImpl h \<Rightarrow> None)"

end
