(* ===== verification/Elp_Kernel.thy ===== *)
theory Elp_Kernel
  imports Elp_Types
begin

text \<open>
  The shared buffers of \<^verbatim>\<open>CudaELPSimulator\<close> and the two sides that use them: the host's
  \<^verbatim>\<open>is_safe\<close>, \<^verbatim>\<open>h_insert_sort\<close>, \<^verbatim>\<open>ChangeHostQueue\<close>, \<^verbatim>\<open>ELP_ScheduleDevEvent\<close> and one iteration of
  \<^verbatim>\<open>ELP_RunSK\<close>, and the device's \<^verbatim>\<open>SingleBufKernel\<close> and \<^verbatim>\<open>d_insert\<close>.  The step relation \<open>elp_step\<close>
  interleaves host iterations with single moves of the kernel's threads (\<open>kernel_step\<close>).
\<close>

section \<open>Safe time stamp\<close>

definition ev_lookahead_of :: "SchedEvent \<Rightarrow> u64" where
  "ev_lookahead_of e =
     (if se_uid e < DEVICE_EV_ID_OFFSET then UINT64_MAX
      else (case se_impl e of GpuImpl h \<Rightarrow> he_lookahead h | CpuImpl p \<Rightarrow> UINT64_MAX))"

text \<open>\<^verbatim>\<open>is_safe\<close>: the answer, and the state with \<^verbatim>\<open>*safe_ts\<close> possibly lowered.\<close>

definition is_safe :: "SchedEvent \<Rightarrow> 'q elp \<Rightarrow> bool \<times> 'q elp" where
  "is_safe ev s =
     (let ts = se_ts ev; lookahead = ev_lookahead_of ev
      in if ts < safe_ts s then
           (if lookahead \<noteq> UINT64_MAX \<and> ts + lookahead < safe_ts s
            then (True, s\<lparr>safe_ts := ts + lookahead\<rparr>) else (True, s))
         else (False, s))"

definition lower_safe_ts :: "u64 \<Rightarrow> u64 \<Rightarrow> 'q elp \<Rightarrow> 'q elp" where
  "lower_safe_ts ts lookahead s =
     (let s1 = (if lookahead \<noteq> UINT64_MAX \<and> ts + lookahead < safe_ts s
                then s\<lparr>safe_ts := ts + lookahead\<rparr> else s)
      in if lookahead \<noteq> UINT64_MAX \<and> ts + lookahead < d_safe_tss s1 (h_safe_ts s1)
         then s1\<lparr>d_safe_tss := (d_safe_tss s1)(h_safe_ts s1 := ts + lookahead)\<rparr> else s1)"

section \<open>Changing buffers\<close>

definition ChangeDevQueue :: "'q elp \<Rightarrow> 'q elp" where
  "ChangeDevQueue s =
     (let b = (if d_curDevBuf s = Buf2 then Buf1 else Buf2)
      in s\<lparr>d_bufrdy := (d_bufrdy s)(d_curDevBufRdy s := True),
           d_curDevBuf := b,
           d_curDevBufRdy := (if b = Buf2 then Buf2 else Buf1)\<rparr>)"

definition kernel_idle :: "'q elp \<Rightarrow> bool" where
  "kernel_idle s \<longleftrightarrow> k_todo s = [] \<and> k_active s = []"

text \<open>
  \<^verbatim>\<open>ChangeHostQueue\<close>.  \<open>None\<close> is \<^verbatim>\<open>cudaEventSynchronize(eventK)\<close> not returning yet, because the
  kernel launched before is still running.
\<close>

definition ChangeHostQueue :: "'q elp \<Rightarrow> 'q elp option" where
  "ChangeHostQueue s =
     (if \<not> kernel_idle s then None
      else
        let count = next_avail_warp s * WARP_SIZE;
            s1 = ChangeDevQueue (s\<lparr>parallelism := max count (parallelism s)\<rparr>);
            dr = (if h_curHostBuf s1 = Buf1 then Buf2 else Buf1);
            s2 = s1\<lparr>d_curHostBufRdy := dr, h_bufrdy := (h_bufrdy s1)(dr := False)\<rparr>;
            ds = (if h_curHostBuf s2 = Buf1 then Buf2 else Buf1);
            s3 = s2\<lparr>d_safe_ts := ds, d_safe_tss := (d_safe_tss s2)(ds := UINT64_MAX),
                    h_bufrdy := (h_bufrdy s2)(h_curHostBufRdy s2 := True)\<rparr>;
            s4 = s3\<lparr>k_buf := h_curHostBuf s3, k_todo := [0..<DEVICE_QUEUE_LENGTH]\<rparr>;
            hb = (if h_curHostBuf s4 = Buf2 then Buf1 else Buf2)
        in Some (s4\<lparr>h_curHostBuf := hb,
                    h_curHostBufRdy := (if hb = Buf2 then Buf2 else Buf1),
                    h_safe_ts := (if hb = Buf2 then Buf2 else Buf1),
                    warp_index := [0..<EVENT_KINDS],
                    warp_thread_index := replicate EVENT_KINDS 0,
                    next_avail_warp := EVENT_KINDS,
                    h_insertIndex := 0\<rparr>))"

section \<open>Handing events to the device\<close>

text \<open>
  \<^verbatim>\<open>h_insert_sort\<close> writes the slot \<^verbatim>\<open>h_insertIndex\<close> and moves the event kind on to a fresh warp when
  its warp is full.  \<open>None\<close> is the busy wait on the buffer's ready flag.
\<close>

definition h_insert_sort ::
  "ptr \<Rightarrow> u64 \<Rightarrow> u32 \<Rightarrow> u32 \<Rightarrow> nat \<Rightarrow> u64 \<Rightarrow> ptr \<Rightarrow> 'q elp \<Rightarrow> 'q elp option" where
  "h_insert_sort impl ts context UID type lookahead payload s =
     (if h_bufrdy s (h_curHostBufRdy s) then None
      else
        let index = h_insertIndex s;
            e = \<lparr>ev_impl = impl, ev_ts = ts, ev_context = context, ev_uid = UID,
                 ev_type = int type, ev_lookahead = lookahead, ev_valid = True,
                 ev_payload = payload\<rparr>;
            s1 = s\<lparr>h_safeEventQueue := (h_safeEventQueue s)
                     (h_curHostBuf s := (h_safeEventQueue s (h_curHostBuf s))[index := e])\<rparr>;
            s2 = (if warp_thread_index s1 ! type = WARP_SIZE
                  then s1\<lparr>warp_thread_index := (warp_thread_index s1)[type := 0],
                          warp_index := (warp_index s1)[type := next_avail_warp s1],
                          next_avail_warp := next_avail_warp s1 + 1\<rparr>
                  else s1)
        in Some (lower_safe_ts ts lookahead s2))"

text \<open>The slot of the next event of a kind, and the increment of its thread index.\<close>

definition take_slot :: "nat \<Rightarrow> 'q elp \<Rightarrow> 'q elp" where
  "take_slot type s =
     s\<lparr>h_insertIndex := warp_index s ! type * WARP_SIZE + warp_thread_index s ! type,
       warp_thread_index := (warp_thread_index s)[type := warp_thread_index s ! type + 1]\<rparr>"

text \<open>
  \<^verbatim>\<open>ELP_ProcessOneEvent\<close>.  Besides waiting, \<open>None\<close> stands for the two uses without defined behaviour:
  an event that is not a \<^verbatim>\<open>HostEvent\<close>, and an event kind outside the arrays of warps.
\<close>

definition ELP_ProcessOneEvent :: "'q sched_ops \<Rightarrow> 'q elp \<Rightarrow> 'q elp option" where
  "ELP_ProcessOneEvent ops s =
     (let (nxt, q) = sch_RemoveNext ops (m_events s);
          s1 = s\<lparr>m_events := q,
                 m_unscheduledEvents := m_unscheduledEvents s - 1,
                 m_eventCount := m_eventCount s + 1,
                 m_currentTs := (if se_ts nxt > m_currentTs s then se_ts nxt else m_currentTs s),
                 m_currentContext := k_context (se_key nxt)\<rparr>
      in case se_impl nxt of
           CpuImpl p \<Rightarrow> None
         | GpuImpl h \<Rightarrow>
             let type = nat (he_type h);
                 s2 = take_slot type s1
             in if he_type h < 0 \<or> int EVENT_KINDS \<le> he_type h then None
                else Option.bind
                  (if h_insertIndex s2 \<ge> DEVICE_QUEUE_LENGTH
                   then map_option (take_slot type) (ChangeHostQueue s2) else Some s2)
                  (h_insert_sort (he_obj h) (se_ts nxt) (k_context (se_key nxt)) (se_uid nxt)
                     type (he_lookahead h) (he_payload h)))"

section \<open>Taking events from the device\<close>

definition schedule_dev :: "'q sched_ops \<Rightarrow> DeviceEvent \<Rightarrow> 'q elp \<Rightarrow> 'q elp" where
  "schedule_dev ops ev s =
     ELP_Schedule ops (ev_context ev) (ev_ts ev) (ev_impl ev) (ev_type ev) (ev_lookahead ev)
       (ev_payload ev) s"

definition drain_slot :: "'q sched_ops \<Rightarrow> bufsel \<Rightarrow> nat \<Rightarrow> 'q elp \<Rightarrow> 'q elp" where
  "drain_slot ops b k s =
     (let cur = d_nextEventQueue s b ! k
      in if ev_valid cur then
           (schedule_dev ops cur s)\<lparr>d_nextEventQueue :=
              (d_nextEventQueue s)(b := (d_nextEventQueue s b)[k := cur\<lparr>ev_valid := False\<rparr>])\<rparr>
         else s)"

definition drain_row :: "'q sched_ops \<Rightarrow> bufsel \<Rightarrow> nat \<Rightarrow> 'q elp \<Rightarrow> 'q elp" where
  "drain_row ops b i s =
     (let index = i * MAX_NEW_EVENTS
      in if ev_valid (d_nextEventQueue s b ! index)
         then fold (\<lambda>j. drain_slot ops b (index + j)) [0..<MAX_NEW_EVENTS]
                (drain_slot ops b index s)
         else s)"

definition drain_buffer :: "'q sched_ops \<Rightarrow> bufsel \<Rightarrow> 'q elp \<Rightarrow> 'q elp" where
  "drain_buffer ops b s = fold (drain_row ops b) [0..<DEVICE_QUEUE_LENGTH] s"

definition ELP_ScheduleDevEvent :: "'q sched_ops \<Rightarrow> 'q elp \<Rightarrow> 'q elp" where
  "ELP_ScheduleDevEvent ops s =
     (if \<not> d_bufrdy s Buf1 \<and> \<not> d_bufrdy s Buf2 then s
      else
        let r = (if d_bufrdy s Buf1 then Buf1 else Buf2);
            s1 = s\<lparr>h_curDevBufRdy := r, h_curDevBuf := (if r = Buf1 then Buf1 else Buf2)\<rparr>;
            s2 = (if d_bufrdy s1 (h_curDevBufRdy s1) then drain_buffer ops (h_curDevBuf s1) s1 else s1);
            s3 = s2\<lparr>d_bufrdy := (d_bufrdy s2)(h_curDevBufRdy s2 := False)\<rparr>;
            b = (if h_curDevBuf s3 = Buf1 then Buf2 else Buf1);
            s4 = s3\<lparr>h_curDevBuf := b, h_curDevBufRdy := (if b = Buf1 then Buf1 else Buf2)\<rparr>
        in if d_bufrdy s4 (h_curDevBufRdy s4)
           then (let s5 = drain_buffer ops (h_curDevBuf s4) s4
                 in s5\<lparr>d_bufrdy := (d_bufrdy s5)(h_curDevBufRdy s5 := False)\<rparr>)
           else s4)"

section \<open>The main loop\<close>

text \<open>
  One iteration of the loop of \<^verbatim>\<open>ELP_RunSK\<close>; \<open>None\<close> where the iteration has to wait for the kernel
  (or the event at its head has no defined behaviour).
\<close>

definition runsk_iter :: "'q sched_ops \<Rightarrow> 'q user_code \<Rightarrow> 'q elp \<Rightarrow> 'q elp option" where
  "runsk_iter ops invoke s =
     (let old = safe_ts s;
          s1 = ELP_ScheduleDevEvent ops s;
          nxt = sch_PeekNext ops (m_events s1);
          (safe, s2) = is_safe nxt s1
      in if \<not> safe then
           let safe_ts1 = d_safe_tss s2 Buf1;
               safe_ts2 = d_safe_tss s2 Buf2;
               s3 = s2\<lparr>safe_ts := (if safe_ts1 < safe_ts2 then safe_ts1 else safe_ts2)\<rparr>
           in if old = safe_ts s3 then ChangeHostQueue s3 else Some s3
         else if se_uid nxt \<ge> DEVICE_EV_ID_OFFSET then ELP_ProcessOneEvent ops s2
         else ProcessOneEvent ops invoke s2)"

section \<open>The kernel\<close>

text \<open>
  \<^verbatim>\<open>d_insert\<close> looks for the first free slot among the \<^verbatim>\<open>MAX_NEW_EVENTS\<close> slots of the calling thread;
  when there is none it changes the device buffer and tries again, which here is a further step.
  The atomic \<^verbatim>\<open>d_changeQueueLock\<close> makes the change of buffer one step.
\<close>

function d_probe :: "DeviceEvent list \<Rightarrow> nat \<Rightarrow> nat \<Rightarrow> nat option" where
  "d_probe buf index limit =
     (if limit \<le> index then None
      else if ev_valid (buf ! index) then d_probe buf (index + 1) limit
      else Some index)"
  by pat_completeness auto
termination
  by (relation "measure (\<lambda>(buf, index, limit). limit - index)") auto

declare d_probe.simps [simp del]

definition d_insert_try :: "nat \<Rightarrow> DevCall \<Rightarrow> 'q elp \<Rightarrow> bool \<times> 'q elp" where
  "d_insert_try tid c s =
     (let ini_index = tid * MAX_NEW_EVENTS;
          limit = ini_index + MAX_NEW_EVENTS;
          b = d_curDevBuf s
      in case d_probe (d_nextEventQueue s b) ini_index limit of
           None \<Rightarrow> (False, ChangeDevQueue s)
         | Some k \<Rightarrow>
             (True, s\<lparr>d_nextEventQueue := (d_nextEventQueue s)
                (b := (d_nextEventQueue s b)
                   [k := \<lparr>ev_impl = dc_impl c, ev_ts = dc_ts c, ev_context = dc_context c,
                          ev_uid = 3, ev_type = dc_type c, ev_lookahead = dc_lookahead c,
                          ev_valid = True, ev_payload = dc_payload c\<rparr>])\<rparr>))"

definition totalThreads :: "'q elp \<Rightarrow> nat" where
  "totalThreads s = mp s * TPB"

text \<open>
  \<^verbatim>\<open>cuda_ProcessOneEvent\<close> clears \<^verbatim>\<open>valid\<close> for the event types it knows once the handler returned.
\<close>

definition known_type :: "int \<Rightarrow> bool" where
  "known_type t \<longleftrightarrow> t = -1 \<or> t = 0 \<or> t = 1 \<or> t = 2"

definition retire :: "nat \<Rightarrow> 'q elp \<Rightarrow> 'q elp" where
  "retire i s =
     (let ev = h_safeEventQueue s (k_buf s) ! i
      in if known_type (ev_type ev)
         then s\<lparr>h_safeEventQueue := (h_safeEventQueue s)
                 (k_buf s := (h_safeEventQueue s (k_buf s))[i := ev\<lparr>ev_valid := False\<rparr>])\<rparr>
         else s)"

text \<open>
  \<open>dev_exec ev calls\<close>: the handler of event \<open>ev\<close> (\<^verbatim>\<open>ProcessType0\<close>, \<open>1\<close>, \<open>2\<close>) can make the calls
  \<open>calls\<close> of \<^verbatim>\<open>d_insert\<close>, in that order.

  A thread visits the indices \<open>tid\<close>, \<open>tid + totalThreads\<close>, \dots of the buffer in increasing order,
  one at a time (\<open>thread_next\<close>); threads are not ordered among each other.
\<close>

definition thread_next :: "'q elp \<Rightarrow> nat \<Rightarrow> bool" where
  "thread_next s i \<longleftrightarrow>
     i \<in> set (k_todo s) \<and>
     (\<forall>j\<in>set (k_todo s). j mod totalThreads s = i mod totalThreads s \<longrightarrow> i \<le> j) \<and>
     (\<forall>(j, cs)\<in>set (k_active s). j mod totalThreads s \<noteq> i mod totalThreads s)"

inductive kernel_step ::
  "(DeviceEvent \<Rightarrow> DevCall list \<Rightarrow> bool) \<Rightarrow> 'q elp \<Rightarrow> 'q elp \<Rightarrow> bool"
  for dev_exec :: "DeviceEvent \<Rightarrow> DevCall list \<Rightarrow> bool"
where
  kernel_start: "thread_next s i \<Longrightarrow>
     ev_valid (h_safeEventQueue s (k_buf s) ! i) \<Longrightarrow>
     dev_exec (h_safeEventQueue s (k_buf s) ! i) calls \<Longrightarrow>
     kernel_step dev_exec s
       (s\<lparr>k_todo := remove1 i (k_todo s), k_active := (i, calls) # k_active s\<rparr>)"
| kernel_skip: "thread_next s i \<Longrightarrow>
     \<not> ev_valid (h_safeEventQueue s (k_buf s) ! i) \<Longrightarrow>
     kernel_step dev_exec s (s\<lparr>k_todo := remove1 i (k_todo s)\<rparr>)"
| kernel_insert: "(i, c # calls) \<in> set (k_active s) \<Longrightarrow>
     d_insert_try (i mod totalThreads s) c s = (True, s') \<Longrightarrow>
     kernel_step dev_exec s
       (s'\<lparr>k_active := (i, calls) # remove1 (i, c # calls) (k_active s')\<rparr>)"
| kernel_redo: "(i, c # calls) \<in> set (k_active s) \<Longrightarrow>
     d_insert_try (i mod totalThreads s) c s = (False, s') \<Longrightarrow>
     kernel_step dev_exec s s'"
| kernel_retire: "(i, []) \<in> set (k_active s) \<Longrightarrow>
     kernel_step dev_exec s
       ((retire i s)\<lparr>k_active := remove1 (i, []) (k_active s)\<rparr>)"

inductive elp_step ::
  "'q sched_ops \<Rightarrow> 'q user_code \<Rightarrow> (DeviceEvent \<Rightarrow> DevCall list \<Rightarrow> bool) \<Rightarrow> 'q elp \<Rightarrow> 'q elp \<Rightarrow> bool"
  for ops :: "'q sched_ops" and invoke :: "'q user_code"
    and dev_exec :: "DeviceEvent \<Rightarrow> DevCall list \<Rightarrow> bool"
where
  host_iter: "\<not> sch_IsEmpty ops (m_events s) \<Longrightarrow> \<not> m_stop s \<Longrightarrow> runsk_iter ops invoke s = Some s' \<Longrightarrow>
     elp_step ops invoke dev_exec s s'"
| other_thread: "elp_step ops invoke dev_exec s (ScheduleWithContext_other_thread c d e s)"
| kernel: "kernel_step dev_exec s s' \<Longrightarrow> elp_step ops invoke dev_exec s s'"

inductive elp_reachable ::
  "'q sched_ops \<Rightarrow> 'q user_code \<Rightarrow> (DeviceEvent \<Rightarrow> DevCall list \<Rightarrow> bool) \<Rightarrow> 'q elp \<Rightarrow> 'q elp \<Rightarrow> bool"
  for ops :: "'q sched_ops" and invoke :: "'q user_code"
    and dev_exec :: "DeviceEvent \<Rightarrow> DevCall list \<Rightarrow> bool" and s0 :: "'q elp"
where
  reach_start: "elp_reachable ops invoke dev_exec s0 s0"
| reach_step: "elp_reachable ops invoke dev_exec s0 s \<Longrightarrow> elp_step ops invoke dev_exec s s' \<Longrightarrow>
     elp_reachable ops invoke dev_exec s0 s'"

end
