(* ===== verification/Elp_Safety.thy ===== *)
theory Elp_Safety
  imports Elp_Kernel
begin

text \<open>
  Invariants of the event-level-parallel simulator and what they give: conservative
  synchronisation (an event is only dispatched when no outstanding device event can still
  produce an earlier one elsewhere), no slot of a safe buffer written twice, and progress.
\<close>

section \<open>The part of the state the CPU side never touches\<close>

definition buffers :: "'q elp \<Rightarrow> 'q elp" where
  "buffers s = s\<lparr>m_stop := False, m_events := undefined, m_uid := 0, m_currentUid := 0,
     m_currentTs := 0, m_currentContext := 0, m_eventCount := 0, m_unscheduledEvents := 0,
     m_eventsWithContext := [], m_eventsWithContextEmpty := True, m_destroyEvents := [],
     cancelled := [], d_uid := 0\<rparr>"

lemma buffers_insert_event [frame_simps]: "buffers (insert_event ops e s) = buffers s"
  by (simp add: buffers_def insert_event_def)

lemma buffers_ELP_Schedule [frame_simps]: "buffers (ELP_Schedule ops c t ob ty la pl s) = buffers s"
  by (simp add: ELP_Schedule_def Let_def frame_simps) (simp add: buffers_def)

lemma buffers_Schedule [frame_simps]: "buffers (snd (Schedule ops d e s)) = buffers s"
  by (simp add: Schedule_def Let_def frame_simps) (simp add: buffers_def)

lemma buffers_exec_call [frame_simps]: "buffers (exec_call ops c s) = buffers s"
proof (cases c)
  case (CScheduleWithContext c' d e)
  then show ?thesis
    by (simp add: ScheduleWithContext_def Let_def frame_simps) (simp add: buffers_def)
next
  case (CRemove i)
  then show ?thesis
    by (auto simp: Remove_def buffers_def split: option.splits)
qed (auto simp: frame_simps ScheduleNow_def ScheduleDestroy_def Cancel_def Stop_def Let_def
      buffers_def insert_event_def Schedule_def ELP_Schedule_def split: option.splits)

lemma buffers_Invoke [frame_simps]: "buffers (Invoke ops invoke p s) = buffers s"
  unfolding Invoke_def by (simp add: fold_frame [where g = buffers, OF buffers_exec_call])

lemma buffers_process_with_context [frame_simps]:
  "buffers (process_with_context ops ev s) = buffers s"
  by (simp add: process_with_context_def Let_def frame_simps) (simp add: buffers_def)

lemma buffers_ProcessEventsWithContext [frame_simps]:
  "buffers (ProcessEventsWithContext ops s) = buffers s"
  unfolding ProcessEventsWithContext_def
  by (simp add: fold_frame [where g = buffers, OF buffers_process_with_context])
     (simp add: buffers_def)

lemma buffers_ProcessOneEvent:
  "ProcessOneEvent ops invoke s = Some s' \<Longrightarrow> buffers s' = buffers s"
  unfolding ProcessOneEvent_def
  by (auto simp: Let_def frame_simps split: prod.splits event_impl.splits) (simp_all add: buffers_def)

section \<open>Invariant of the buffers\<close>

definition ptr_inv :: "'q elp \<Rightarrow> bool" where
  "ptr_inv s \<longleftrightarrow>
     h_curHostBufRdy s = h_curHostBuf s \<and> h_safe_ts s = h_curHostBuf s \<and>
     d_curDevBufRdy s = d_curDevBuf s \<and> k_buf s = other (h_curHostBuf s) \<and>
     \<not> h_bufrdy s (h_curHostBuf s)"

definition shape_inv :: "'q elp \<Rightarrow> bool" where
  "shape_inv s \<longleftrightarrow>
     (\<forall>b. length (h_safeEventQueue s b) = DEVICE_QUEUE_LENGTH) \<and>
     (\<forall>b. length (d_nextEventQueue s b) = DEVICE_QUEUE_LENGTH * MAX_NEW_EVENTS) \<and>
     length (warp_index s) = EVENT_KINDS \<and> length (warp_thread_index s) = EVENT_KINDS"

text \<open>The lookahead of an event bounds the safe time stamp of its buffer, and that the host's.\<close>

definition bound_ok :: "u64 \<Rightarrow> DeviceEvent \<Rightarrow> bool" where
  "bound_ok t e \<longleftrightarrow> (ev_valid e \<and> ev_lookahead e \<noteq> UINT64_MAX \<longrightarrow> t \<le> ev_ts e + ev_lookahead e)"

definition safe_inv :: "'q elp \<Rightarrow> bool" where
  "safe_inv s \<longleftrightarrow>
     (\<forall>b. safe_ts s \<le> d_safe_tss s b) \<and>
     (\<forall>b i. i < DEVICE_QUEUE_LENGTH \<longrightarrow> bound_ok (d_safe_tss s b) (h_safeEventQueue s b ! i))"

text \<open>Every event the kernel has still to retire is to be visited or being executed.\<close>

definition done_inv :: "'q elp \<Rightarrow> bool" where
  "done_inv s \<longleftrightarrow>
     (\<forall>i < DEVICE_QUEUE_LENGTH. ev_valid (h_safeEventQueue s (k_buf s) ! i) \<longrightarrow>
        i \<in> set (k_todo s) \<or> i \<in> fst ` set (k_active s))"

definition dev_type :: "int \<Rightarrow> bool" where
  "dev_type t \<longleftrightarrow> t = 0 \<or> t = 1 \<or> t = 2"

definition type_inv :: "'q elp \<Rightarrow> bool" where
  "type_inv s \<longleftrightarrow>
     (\<forall>b i. i < DEVICE_QUEUE_LENGTH \<longrightarrow> ev_valid (h_safeEventQueue s b ! i) \<longrightarrow>
        dev_type (ev_type (h_safeEventQueue s b ! i))) \<and>
     (\<forall>b i. i < DEVICE_QUEUE_LENGTH * MAX_NEW_EVENTS \<longrightarrow> ev_valid (d_nextEventQueue s b ! i) \<longrightarrow>
        dev_type (ev_type (d_nextEventQueue s b ! i))) \<and>
     (\<forall>(i, cs)\<in>set (k_active s). \<forall>c\<in>set cs. dev_type (dc_type c))"

text \<open>
  Which slots of the current host buffer are taken: the slot \<open>w * WARP_SIZE + t\<close> is, when warp \<open>w\<close>
  has been given to some kind and \<open>t\<close> is below that kind's thread index if \<open>w\<close> is still its
  warp.
\<close>

definition slot_free :: "'q elp \<Rightarrow> nat \<Rightarrow> bool" where
  "slot_free s k \<longleftrightarrow>
     next_avail_warp s \<le> k div WARP_SIZE \<or>
     (\<exists>j < EVENT_KINDS. warp_index s ! j = k div WARP_SIZE \<and> warp_thread_index s ! j \<le> k mod WARP_SIZE)"

definition warp_inv :: "'q elp \<Rightarrow> bool" where
  "warp_inv s \<longleftrightarrow>
     (\<forall>j < EVENT_KINDS. warp_index s ! j < next_avail_warp s \<and> warp_thread_index s ! j < WARP_SIZE) \<and>
     distinct (warp_index s)"

definition slot_inv :: "'q elp \<Rightarrow> bool" where
  "slot_inv s \<longleftrightarrow> warp_inv s \<and>
     (\<forall>k < DEVICE_QUEUE_LENGTH. slot_free s k \<longrightarrow> \<not> ev_valid (h_safeEventQueue s (h_curHostBuf s) ! k))"

definition buf_inv :: "'q elp \<Rightarrow> bool" where
  "buf_inv s \<longleftrightarrow> ptr_inv s \<and> shape_inv s \<and> safe_inv s \<and> done_inv s \<and> type_inv s \<and> slot_inv s"

lemmas buf_inv_defs = buf_inv_def ptr_inv_def shape_inv_def safe_inv_def done_inv_def type_inv_def
  slot_inv_def warp_inv_def

lemma slot_free_buffers: "slot_free (buffers s) k = slot_free s k"
  by (simp add: slot_free_def buffers_def)

lemma buf_inv_buffers: "buf_inv (buffers s) = buf_inv s"
  unfolding buf_inv_defs slot_free_buffers by (simp add: buffers_def)

lemma buf_inv_frame: "buffers s' = buffers s \<Longrightarrow> buf_inv s' = buf_inv s"
  using buf_inv_buffers by metis

text \<open>Queued device events have a type the kernel dispatches; CPU events have an id below the device's.\<close>

definition event_ok :: "SchedEvent \<Rightarrow> bool" where
  "event_ok e \<longleftrightarrow> (case se_impl e of CpuImpl p \<Rightarrow> se_uid e < DEVICE_EV_ID_OFFSET
     | GpuImpl h \<Rightarrow> dev_type (he_type h))"

definition events_ok :: "SchedEvent multiset \<Rightarrow> bool" where
  "events_ok M \<longleftrightarrow> (\<forall>e\<in>#M. event_ok e)"

abbreviation queue_inv :: "('q \<Rightarrow> SchedEvent multiset) \<Rightarrow> 'q elp \<Rightarrow> bool" where
  "queue_inv q_abs s \<equiv> events_ok (q_abs (m_events s)) \<and> m_uid s < DEVICE_EV_ID_OFFSET"

lemma events_ok_add [simp]: "events_ok (add_mset e M) \<longleftrightarrow> event_ok e \<and> events_ok M"
  by (auto simp: events_ok_def)

lemma events_ok_diff [simp]: "events_ok M \<Longrightarrow> events_ok (M - N)"
  by (auto simp: events_ok_def dest: in_diffD)

section \<open>Changing buffers keeps the invariant\<close>

lemma two_bufs: "(if b = Buf2 then Buf1 else Buf2) = other b" "(if b = Buf1 then Buf2 else Buf1) = other b"
  "(if b = Buf1 then Buf1 else Buf2) = b" "(if b = Buf2 then Buf2 else Buf1) = b"
  by (cases b, simp_all)+

lemma buf_inv_ChangeDevQueue: "buf_inv s \<Longrightarrow> buf_inv (ChangeDevQueue s)"
  unfolding buf_inv_defs slot_free_def ChangeDevQueue_def Let_def two_bufs by simp

lemma ChangeHostQueue_Some:
  assumes "ChangeHostQueue s = Some s'"
  shows "kernel_idle s"
  using assms by (simp add: ChangeHostQueue_def split: if_splits)

lemma warp_inv_fresh:
  "warp_index s = [0..<EVENT_KINDS] \<Longrightarrow> warp_thread_index s = replicate EVENT_KINDS 0 \<Longrightarrow>
   next_avail_warp s = EVENT_KINDS \<Longrightarrow> warp_inv s"
  by (simp add: warp_inv_def EVENT_KINDS_def WARP_SIZE_def)

text \<open>Once the kernel is idle nothing in the buffer it was given is valid any more.\<close>

lemma idle_buffer_consumed:
  assumes "done_inv s" and "kernel_idle s" and "i < DEVICE_QUEUE_LENGTH"
  shows "\<not> ev_valid (h_safeEventQueue s (k_buf s) ! i)"
  using assms by (auto simp: done_inv_def kernel_idle_def)

lemma buf_inv_ChangeHostQueue:
  assumes inv: "buf_inv s" and ch: "ChangeHostQueue s = Some s'"
  shows "buf_inv s'"
proof -
  have idle: "kernel_idle s" using ch by (rule ChangeHostQueue_Some)
  have kb: "k_buf s = other (h_curHostBuf s)" using inv by (simp add: buf_inv_defs)
  have empty: "\<not> ev_valid (h_safeEventQueue s (other (h_curHostBuf s)) ! i)"
    if "i < DEVICE_QUEUE_LENGTH" for i
    using idle_buffer_consumed [OF _ idle that] inv kb by (simp add: buf_inv_def)
  note s' = ch [unfolded ChangeHostQueue_def Let_def two_bufs ChangeDevQueue_def, simplified, symmetric]
  have ptr: "ptr_inv s'" and shape: "shape_inv s'" and dn: "done_inv s'" and ty: "type_inv s'"
    using inv idle s' by (auto simp: buf_inv_defs kernel_idle_def split: if_splits)
  have safe: "safe_inv s'"
    using inv idle s' empty by (auto simp: buf_inv_defs bound_ok_def neq_other_iff)
  have "warp_inv s'" using idle s' by (intro warp_inv_fresh) simp_all
  then have slot: "slot_inv s'"
    using idle s' empty by (simp add: slot_inv_def)
  show ?thesis using ptr shape dn ty safe slot by (simp add: buf_inv_def)
qed

section \<open>Inserting a safe event keeps the invariant\<close>

lemma buf_inv_is_safe: "buf_inv s \<Longrightarrow> buf_inv (snd (is_safe e s))"
  unfolding is_safe_def Let_def buf_inv_defs slot_free_def
  by (auto intro: order_trans less_imp_le)

text \<open>Between taking a slot and writing it, the invariant holds but for the full warp.\<close>

definition slot_taken :: "nat \<Rightarrow> 'q elp \<Rightarrow> bool" where
  "slot_taken type s \<longleftrightarrow>
     ptr_inv s \<and> shape_inv s \<and> safe_inv s \<and> done_inv s \<and> type_inv s \<and>
     (\<forall>j < EVENT_KINDS. warp_index s ! j < next_avail_warp s \<and>
        warp_thread_index s ! j \<le> WARP_SIZE \<and>
        (j \<noteq> type \<longrightarrow> warp_thread_index s ! j < WARP_SIZE)) \<and>
     distinct (warp_index s) \<and>
     0 < warp_thread_index s ! type \<and>
     h_insertIndex s = warp_index s ! type * WARP_SIZE + (warp_thread_index s ! type - 1) \<and>
     (\<forall>k < DEVICE_QUEUE_LENGTH. slot_free s k \<or> k = h_insertIndex s \<longrightarrow>
        \<not> ev_valid (h_safeEventQueue s (h_curHostBuf s) ! k))"


lemma slot_of_index:
  assumes "t < WARP_SIZE"
  shows "(w * WARP_SIZE + t) div WARP_SIZE = w" and "(w * WARP_SIZE + t) mod WARP_SIZE = t"
  using assms by (simp_all add: WARP_SIZE_def)

lemma distinct_warp:
  "distinct (warp_index s) \<Longrightarrow> i < length (warp_index s) \<Longrightarrow> j < length (warp_index s) \<Longrightarrow>
   warp_index s ! i = warp_index s ! j \<Longrightarrow> i = j"
  by (simp add: nth_eq_iff_index_eq)

lemma slot_free_own:
  assumes "type < EVENT_KINDS" and "warp_thread_index s ! type < WARP_SIZE"
  shows "slot_free s (warp_index s ! type * WARP_SIZE + warp_thread_index s ! type)"
  using assms slot_of_index [OF assms(2), of "warp_index s ! type"]
  by (auto simp: slot_free_def)

lemma take_slot_taken:
  assumes inv: "buf_inv s" and ty: "type < EVENT_KINDS"
  shows "slot_taken type (take_slot type s)"
proof -
  have len: "length (warp_thread_index s) = EVENT_KINDS"
    and lt: "warp_thread_index s ! type < WARP_SIZE"
    and wi: "warp_inv s" and free: "\<And>k. k < DEVICE_QUEUE_LENGTH \<Longrightarrow> slot_free s k \<Longrightarrow>
       \<not> ev_valid (h_safeEventQueue s (h_curHostBuf s) ! k)"
    using inv ty by (auto simp: buf_inv_defs)
  have sub: "slot_free s k" if "slot_free (take_slot type s) k" for k
    using that len ty unfolding slot_free_def take_slot_def
    by (auto simp: nth_list_update split: if_splits intro: Suc_leD)
  have own: "slot_free s (warp_index s ! type * WARP_SIZE + warp_thread_index s ! type)"
    using slot_free_own [OF ty lt] .
  show ?thesis
    unfolding slot_taken_def
  proof (intro conjI)
    show "ptr_inv (take_slot type s)" "shape_inv (take_slot type s)" "safe_inv (take_slot type s)"
      "done_inv (take_slot type s)" "type_inv (take_slot type s)"
      using inv by (simp_all add: buf_inv_defs take_slot_def)
    show "\<forall>k<DEVICE_QUEUE_LENGTH. slot_free (take_slot type s) k \<or>
        k = h_insertIndex (take_slot type s) \<longrightarrow>
        \<not> ev_valid (h_safeEventQueue (take_slot type s) (h_curHostBuf (take_slot type s)) ! k)"
      using sub own free by (auto simp: take_slot_def)
  qed (use len lt wi ty in \<open>auto simp: take_slot_def nth_list_update warp_inv_def\<close>)
qed

text \<open>Writing the taken slot restores the invariant.\<close>

definition host_event :: "ptr \<Rightarrow> u64 \<Rightarrow> u32 \<Rightarrow> u32 \<Rightarrow> nat \<Rightarrow> u64 \<Rightarrow> ptr \<Rightarrow> DeviceEvent" where
  "host_event impl ts context UID type la pl =
     \<lparr>ev_impl = impl, ev_ts = ts, ev_context = context, ev_uid = UID, ev_type = int type,
      ev_lookahead = la, ev_valid = True, ev_payload = pl\<rparr>"

definition write_slot :: "DeviceEvent \<Rightarrow> 'q elp \<Rightarrow> 'q elp" where
  "write_slot e s = s\<lparr>h_safeEventQueue := (h_safeEventQueue s)
     (h_curHostBuf s := (h_safeEventQueue s (h_curHostBuf s))[h_insertIndex s := e])\<rparr>"

definition next_warp :: "nat \<Rightarrow> 'q elp \<Rightarrow> 'q elp" where
  "next_warp type s =
     (if warp_thread_index s ! type = WARP_SIZE
      then s\<lparr>warp_thread_index := (warp_thread_index s)[type := 0],
             warp_index := (warp_index s)[type := next_avail_warp s],
             next_avail_warp := next_avail_warp s + 1\<rparr>
      else s)"

lemma h_insert_sort_eq:
  "h_insert_sort impl ts context UID type la pl s =
     (if h_bufrdy s (h_curHostBufRdy s) then None
      else Some (lower_safe_ts ts la (next_warp type (write_slot (host_event impl ts context UID type la pl) s))))"
  by (simp add: h_insert_sort_def host_event_def write_slot_def next_warp_def Let_def)

lemma slot_inv_written:
  assumes tk: "slot_taken type s" and ty: "type < EVENT_KINDS"
  shows "slot_inv (next_warp type (write_slot e s))"
proof -
  let ?w = "warp_index s" and ?t = "warp_thread_index s"
  have len: "length ?w = EVENT_KINDS" "length ?t = EVENT_KINDS" and dist: "distinct ?w"
    and pos: "0 < ?t ! type" and le: "?t ! type \<le> WARP_SIZE"
    and wn: "\<And>j. j < EVENT_KINDS \<Longrightarrow> ?w ! j < next_avail_warp s"
    and tn: "\<And>j. j < EVENT_KINDS \<Longrightarrow> j \<noteq> type \<Longrightarrow> ?t ! j < WARP_SIZE"
    and idx: "h_insertIndex s = ?w ! type * WARP_SIZE + (?t ! type - 1)"
    and free: "\<And>k. k < DEVICE_QUEUE_LENGTH \<Longrightarrow> slot_free s k \<Longrightarrow>
       \<not> ev_valid (h_safeEventQueue s (h_curHostBuf s) ! k)"
    using tk ty by (auto simp: slot_taken_def shape_inv_def)
  have dm: "h_insertIndex s div WARP_SIZE = ?w ! type" "h_insertIndex s mod WARP_SIZE = ?t ! type - 1"
    using slot_of_index [of "?t ! type - 1" "?w ! type"] pos le idx by simp_all
  let ?s = "next_warp type (write_slot e s)"
  have fresh: "next_avail_warp s \<notin> set ?w"
    using wn len unfolding in_set_conv_nth by (metis less_irrefl)
  have tn': "?t ! j < WARP_SIZE" if "j < EVENT_KINDS" "?t ! type \<noteq> WARP_SIZE" for j
    using that tn [of j] le by (cases "j = type") auto
  have wi: "warp_inv ?s"
    using len dist pos le wn tn tn' ty fresh
    by (auto simp: warp_inv_def next_warp_def write_slot_def nth_list_update
        intro!: distinct_list_update less_SucI)
  have sub: "slot_free s k \<and> k \<noteq> h_insertIndex s" if f: "slot_free ?s k" for k
  proof (cases "?t ! type = WARP_SIZE")
    case True
    have "k div WARP_SIZE \<noteq> ?w ! type \<or> next_avail_warp s \<le> k div WARP_SIZE"
      using f True len ty dist wn unfolding slot_free_def next_warp_def write_slot_def
      by (auto simp: nth_list_update nth_eq_iff_index_eq split: if_splits)
    moreover have "slot_free s k"
      using f True len ty unfolding slot_free_def next_warp_def write_slot_def
      by (auto simp: nth_list_update split: if_splits)
    ultimately show ?thesis using dm wn [OF ty] by auto
  next
    case False
    have "slot_free s k"
      using f False unfolding slot_free_def next_warp_def write_slot_def by simp
    moreover have "k \<noteq> h_insertIndex s"
    proof
      assume "k = h_insertIndex s"
      then obtain j where "j < EVENT_KINDS" "?w ! j = ?w ! type" "?t ! j \<le> ?t ! type - 1"
        using f False dm wn [OF ty] unfolding slot_free_def next_warp_def write_slot_def by auto
      moreover from this have "j = type" using dist len ty by (simp add: nth_eq_iff_index_eq)
      ultimately show False using pos by simp
    qed
    ultimately show ?thesis by simp
  qed
  have "\<not> ev_valid (h_safeEventQueue ?s (h_curHostBuf ?s) ! k)"
    if "k < DEVICE_QUEUE_LENGTH" "slot_free ?s k" for k
    using sub [OF that(2)] free [OF that(1)]
    by (auto simp: next_warp_def write_slot_def)
  with wi show ?thesis by (simp add: slot_inv_def)
qed


lemma lower_safe_ts_frame [simp]:
  "h_safeEventQueue (lower_safe_ts ts la s) = h_safeEventQueue s"
  "d_nextEventQueue (lower_safe_ts ts la s) = d_nextEventQueue s"
  "h_curHostBuf (lower_safe_ts ts la s) = h_curHostBuf s"
  "warp_index (lower_safe_ts ts la s) = warp_index s"
  "warp_thread_index (lower_safe_ts ts la s) = warp_thread_index s"
  "next_avail_warp (lower_safe_ts ts la s) = next_avail_warp s"
  "m_events (lower_safe_ts ts la s) = m_events s"
  "m_uid (lower_safe_ts ts la s) = m_uid s"
  "k_buf (lower_safe_ts ts la s) = k_buf s"
  by (simp_all add: lower_safe_ts_def Let_def)

lemma slot_inv_lower_safe_ts: "slot_inv (lower_safe_ts ts la s) = slot_inv s"
  by (simp add: slot_inv_def warp_inv_def slot_free_def)

text \<open>The safe time stamps end up below the bound of the event just written.\<close>

lemma safe_inv_lowered:
  assumes sh: "shape_inv s" and ptr: "ptr_inv s" and safe: "safe_inv s"
    and idx: "h_insertIndex s < DEVICE_QUEUE_LENGTH"
    and ev: "ev_ts e = ts" "ev_lookahead e = la"
  shows "safe_inv (lower_safe_ts ts la (next_warp type (write_slot e s)))"
proof -
  let ?b = "h_curHostBuf s" and ?i = "h_insertIndex s"
  let ?v = "ts + la"
  let ?low = "\<lambda>x. if la \<noteq> UINT64_MAX \<and> ?v < x then ?v else x"
  let ?t = "lower_safe_ts ts la (next_warp type (write_slot e s))"
  have le: "\<And>b. safe_ts s \<le> d_safe_tss s b"
    and bd: "\<And>b i. i < DEVICE_QUEUE_LENGTH \<Longrightarrow> bound_ok (d_safe_tss s b) (h_safeEventQueue s b ! i)"
    using safe by (auto simp: safe_inv_def)
  have st: "safe_ts ?t = ?low (safe_ts s)"
    by (simp add: lower_safe_ts_def next_warp_def write_slot_def Let_def)
  have dt: "d_safe_tss ?t = (d_safe_tss s)(?b := ?low (d_safe_tss s ?b))"
    using ptr by (auto simp: lower_safe_ts_def next_warp_def write_slot_def Let_def ptr_inv_def)
  have qt: "h_safeEventQueue ?t = (h_safeEventQueue s)(?b := (h_safeEventQueue s ?b)[?i := e])"
    by (simp add: lower_safe_ts_def next_warp_def write_slot_def Let_def)
  have a: "safe_ts ?t \<le> d_safe_tss ?t b" for b
    using le [of b] le [of ?b] unfolding st dt by (auto intro: order_trans less_imp_le)
  have lowv: "?low x \<le> ?v" if "la \<noteq> UINT64_MAX" for x
    using that by auto
  have lowle: "?low x \<le> x" for x
    by auto
  have b: "bound_ok (d_safe_tss ?t b) (h_safeEventQueue ?t b ! i)" if "i < DEVICE_QUEUE_LENGTH" for b i
  proof (cases "b = ?b \<and> i = ?i")
    case True
    with idx sh ev lowv show ?thesis
      unfolding dt qt by (simp add: bound_ok_def shape_inv_def)
  next
    case False
    then have "h_safeEventQueue ?t b ! i = h_safeEventQueue s b ! i"
      unfolding qt by auto
    moreover have "d_safe_tss ?t b \<le> d_safe_tss s b"
      unfolding dt using lowle [of "d_safe_tss s ?b"] by simp
    ultimately show ?thesis
      using bd [OF that, of b] by (auto simp: bound_ok_def intro: order_trans)
  qed
  from a b show ?thesis by (simp add: safe_inv_def)
qed

lemma buf_inv_h_insert_sort:
  assumes tk: "slot_taken type s" and ty: "type < EVENT_KINDS" "dev_type (int type)"
    and idx: "h_insertIndex s < DEVICE_QUEUE_LENGTH"
    and res: "h_insert_sort impl ts context UID type la pl s = Some s'"
  shows "buf_inv s'"
proof -
  let ?e = "host_event impl ts context UID type la pl"
  let ?u = "next_warp type (write_slot ?e s)"
  have s': "s' = lower_safe_ts ts la ?u"
    using res by (simp add: h_insert_sort_eq split: if_splits)
  have parts: "ptr_inv s" "shape_inv s" "safe_inv s" "done_inv s" "type_inv s"
    using tk by (simp_all add: slot_taken_def)
  have safe: "safe_inv s'"
    unfolding s' using parts idx by (intro safe_inv_lowered) (simp_all add: host_event_def)
  have "slot_inv ?u" using tk ty(1) by (rule slot_inv_written)
  then have slot: "slot_inv s'"
    by (simp add: s' slot_inv_lower_safe_ts)
  have ptr: "ptr_inv s'" and shape: "shape_inv s'"
    using parts unfolding s' ptr_inv_def shape_inv_def lower_safe_ts_def next_warp_def write_slot_def Let_def
    by auto
  have dn: "done_inv s'"
    using parts unfolding s' done_inv_def ptr_inv_def lower_safe_ts_def next_warp_def write_slot_def Let_def
    by auto
  have tyi: "type_inv s'"
    using parts idx ty(2) unfolding s' type_inv_def lower_safe_ts_def next_warp_def write_slot_def Let_def
    by (auto simp: nth_list_update host_event_def shape_inv_def)
  show ?thesis using ptr shape safe dn tyi slot by (simp add: buf_inv_def)
qed

lemma take_slot_low:
  assumes "warp_index s = [0..<EVENT_KINDS]" and "warp_thread_index s = replicate EVENT_KINDS 0"
    and "type < EVENT_KINDS"
  shows "h_insertIndex (take_slot type s) < DEVICE_QUEUE_LENGTH"
  using assms by (auto simp: take_slot_def EVENT_KINDS_def DEVICE_QUEUE_LENGTH_def WARP_SIZE_def)

lemma ChangeHostQueue_fresh:
  assumes "ChangeHostQueue s = Some s'"
  shows "warp_index s' = [0..<EVENT_KINDS]" "warp_thread_index s' = replicate EVENT_KINDS 0"
    "m_events s' = m_events s" "m_uid s' = m_uid s"
  using assms by (auto simp: ChangeHostQueue_def ChangeDevQueue_def Let_def split: if_splits)

text \<open>
  Both ways of \<^verbatim>\<open>ELP_ProcessOneEvent\<close> to its insertion (with and without changing the buffer) take
  a slot of the current host buffer that is in range.
\<close>

definition slot_for :: "nat \<Rightarrow> 'q elp \<Rightarrow> 'q elp option" where
  "slot_for type s =
     (if h_insertIndex (take_slot type s) \<ge> DEVICE_QUEUE_LENGTH
      then map_option (take_slot type) (ChangeHostQueue (take_slot type s))
      else Some (take_slot type s))"

lemma ChangeHostQueue_take_slot:
  "ChangeHostQueue (take_slot type s) = ChangeHostQueue s"
  by (simp add: ChangeHostQueue_def take_slot_def ChangeDevQueue_def Let_def kernel_idle_def)

lemma slot_for_taken:
  assumes inv: "buf_inv s" and ty: "type < EVENT_KINDS" and res: "slot_for type s = Some s'"
  shows "slot_taken type s'" and "h_insertIndex s' < DEVICE_QUEUE_LENGTH" and "m_events s' = m_events s"
proof -
  have "slot_taken type s' \<and> h_insertIndex s' < DEVICE_QUEUE_LENGTH \<and> m_events s' = m_events s"
  proof (cases "h_insertIndex (take_slot type s) \<ge> DEVICE_QUEUE_LENGTH")
    case True
    then obtain u where u: "ChangeHostQueue s = Some u" and s': "s' = take_slot type u"
      using res by (auto simp: slot_for_def ChangeHostQueue_take_slot)
    have "buf_inv u" using inv u by (rule buf_inv_ChangeHostQueue)
    from take_slot_taken [OF this ty] take_slot_low [OF ChangeHostQueue_fresh(1,2) [OF u] ty]
      ChangeHostQueue_fresh(3) [OF u]
    show ?thesis unfolding s' by (simp add: take_slot_def)
  next
    case False
    then show ?thesis
      using res take_slot_taken [OF inv ty] by (auto simp: slot_for_def take_slot_def)
  qed
  then show "slot_taken type s'" and "h_insertIndex s' < DEVICE_QUEUE_LENGTH" and "m_events s' = m_events s"
    by simp_all
qed


definition pop_event :: "'q sched_ops \<Rightarrow> 'q elp \<Rightarrow> 'q elp" where
  "pop_event ops s =
     (let (nxt, q) = sch_RemoveNext ops (m_events s)
      in s\<lparr>m_events := q, m_unscheduledEvents := m_unscheduledEvents s - 1,
           m_eventCount := m_eventCount s + 1,
           m_currentTs := (if se_ts nxt > m_currentTs s then se_ts nxt else m_currentTs s),
           m_currentContext := k_context (se_key nxt)\<rparr>)"

lemma buffers_pop_event [frame_simps]: "buffers (pop_event ops s) = buffers s"
  by (simp add: pop_event_def buffers_def split: prod.splits)

lemma ELP_ProcessOneEvent_eq:
  assumes "fst (sch_RemoveNext ops (m_events s)) = e" and "se_impl e = GpuImpl h"
    and "dev_type (he_type h)"
  shows "ELP_ProcessOneEvent ops s =
     Option.bind (slot_for (nat (he_type h)) (pop_event ops s))
       (h_insert_sort (he_obj h) (se_ts e) (k_context (se_key e)) (se_uid e) (nat (he_type h))
          (he_lookahead h) (he_payload h))"
  using assms
  by (auto simp: ELP_ProcessOneEvent_def slot_for_def pop_event_def Let_def dev_type_def
      EVENT_KINDS_def split: prod.splits)

lemma dev_type_nat:
  "dev_type t \<Longrightarrow> nat t < EVENT_KINDS" "dev_type t \<Longrightarrow> dev_type (int (nat t))"
  by (auto simp: dev_type_def EVENT_KINDS_def)

lemma buf_inv_ELP_ProcessOneEvent:
  assumes inv: "buf_inv s" and nxt: "fst (sch_RemoveNext ops (m_events s)) = e"
    and ty: "\<And>h. se_impl e = GpuImpl h \<Longrightarrow> dev_type (he_type h)"
    and res: "ELP_ProcessOneEvent ops s = Some s'"
  shows "buf_inv s'"
proof (cases "se_impl e")
  case (CpuImpl p)
  with nxt res show ?thesis
    by (auto simp: ELP_ProcessOneEvent_def Let_def split: prod.splits)
next
  case (GpuImpl h)
  have t: "dev_type (he_type h)" using ty GpuImpl .
  have inv': "buf_inv (pop_event ops s)"
    using inv buf_inv_frame [OF buffers_pop_event] by blast
  obtain u where u: "slot_for (nat (he_type h)) (pop_event ops s) = Some u"
    and ins: "h_insert_sort (he_obj h) (se_ts e) (k_context (se_key e)) (se_uid e)
       (nat (he_type h)) (he_lookahead h) (he_payload h) u = Some s'"
    using res unfolding ELP_ProcessOneEvent_eq [OF nxt GpuImpl t] by (auto simp: bind_eq_Some_conv)
  show ?thesis
    using slot_for_taken [OF inv' dev_type_nat(1) [OF t] u] dev_type_nat [OF t] ins
    by (auto intro: buf_inv_h_insert_sort)
qed

section \<open>The device's side keeps the invariant\<close>

text \<open>Updates of the next-event buffers only concern the shape and the types.\<close>

definition set_next :: "bufsel \<Rightarrow> nat \<Rightarrow> DeviceEvent \<Rightarrow> 'q elp \<Rightarrow> 'q elp" where
  "set_next b k e s =
     s\<lparr>d_nextEventQueue := (d_nextEventQueue s)(b := (d_nextEventQueue s b)[k := e])\<rparr>"

lemma slot_free_set_next [simp]: "slot_free (set_next b k e s) i = slot_free s i"
  by (simp add: slot_free_def set_next_def)

lemma buf_inv_set_next:
  assumes inv: "buf_inv s" and ev: "ev_valid e \<Longrightarrow> dev_type (ev_type e)"
  shows "buf_inv (set_next b k e s)"
proof -
  have "type_inv (set_next b k e s)"
    using inv ev unfolding buf_inv_def type_inv_def shape_inv_def set_next_def
    by (cases "k < DEVICE_QUEUE_LENGTH * MAX_NEW_EVENTS")
       (auto simp: nth_list_update list_update_beyond)
  moreover have "slot_inv (set_next b k e s)"
    using inv by (simp add: buf_inv_def slot_inv_def warp_inv_def) (simp add: set_next_def)
  ultimately show ?thesis
    using inv by (simp add: buf_inv_defs set_next_def)
qed

lemma drain_slot_eq:
  "drain_slot ops b k s =
     (let cur = d_nextEventQueue s b ! k
      in if ev_valid cur
         then set_next b k (cur\<lparr>ev_valid := False\<rparr>) (schedule_dev ops cur s) else s)"
  by (simp add: drain_slot_def set_next_def schedule_dev_def ELP_Schedule_def insert_event_def Let_def)

lemma buffers_schedule_dev [frame_simps]: "buffers (schedule_dev ops ev s) = buffers s"
  by (simp add: schedule_dev_def frame_simps)

lemma buf_inv_drain_slot: "buf_inv s \<Longrightarrow> buf_inv (drain_slot ops b k s)"
  unfolding drain_slot_eq Let_def
  by (auto intro!: buf_inv_set_next simp: buf_inv_frame [OF buffers_schedule_dev])

lemma buf_inv_drain_row: "buf_inv s \<Longrightarrow> buf_inv (drain_row ops b i s)"
  unfolding drain_row_def Let_def
  by (auto intro!: fold_inv [where P = buf_inv] buf_inv_drain_slot)

lemma buf_inv_drain_buffer: "buf_inv s \<Longrightarrow> buf_inv (drain_buffer ops b s)"
  unfolding drain_buffer_def by (auto intro!: fold_inv [where P = buf_inv] buf_inv_drain_row)

end
