(* ===== verification/Elp_Reach.thy ===== *)
theory Elp_Reach
  imports Elp_Safety
begin

text \<open>
  The invariant of \<open>Elp_Safety\<close> together with the types of the queued events, shown to hold in
  every reachable state of \<open>elp_step\<close> by rule induction.
\<close>

section \<open>Scheduler facts\<close>

lemma sched_lawsD:
  assumes "sched_laws ops q_abs"
  shows sched_Insert: "q_abs (sch_Insert ops e q) = add_mset e (q_abs q)"
    and sched_IsEmpty: "sch_IsEmpty ops q \<longleftrightarrow> q_abs q = {#}"
    and sched_PeekNext: "q_abs q \<noteq> {#} \<Longrightarrow> sch_PeekNext ops q \<in># q_abs q"
    and sched_min: "q_abs q \<noteq> {#} \<Longrightarrow> x \<in># q_abs q \<Longrightarrow> key_le (se_key (sch_PeekNext ops q)) (se_key x)"
    and sched_fst: "q_abs q \<noteq> {#} \<Longrightarrow> fst (sch_RemoveNext ops q) = sch_PeekNext ops q"
    and sched_snd: "q_abs q \<noteq> {#} \<Longrightarrow>
      q_abs (snd (sch_RemoveNext ops q)) = q_abs q - {#sch_PeekNext ops q#}"
    and sched_Remove: "q_abs (sch_Remove ops e q) = q_abs q - {#e#}"
    and sched_VALID: "uid_VALID ops < DEVICE_EV_ID_OFFSET"
  using assms by (simp_all add: sched_laws_def)

definition user_ok :: "'q user_code \<Rightarrow> bool" where
  "user_ok invoke \<longleftrightarrow>
     (\<forall>p s. \<forall>c\<in>set (invoke p s). \<forall>ctx t obj ty la pl.
        c = CELP_Schedule ctx t obj ty la pl \<longrightarrow> dev_type ty)"

definition dev_ok :: "(DeviceEvent \<Rightarrow> DevCall list \<Rightarrow> bool) \<Rightarrow> bool" where
  "dev_ok dev_exec \<longleftrightarrow> (\<forall>e cs. dev_exec e cs \<longrightarrow> (\<forall>c\<in>set cs. dev_type (dc_type c)))"

lemma m_events_insert_event:
  assumes "sched_laws ops q_abs"
  shows "q_abs (m_events (insert_event ops e s)) = add_mset e (q_abs (m_events s))"
  using assms by (simp add: insert_event_def sched_Insert)

lemma m_uid_insert_event [simp]: "m_uid (insert_event ops e s) = m_uid s"
  by (simp add: insert_event_def)

lemma next_uid_below:
  assumes "sched_laws ops q_abs"
  shows "next_uid ops u < DEVICE_EV_ID_OFFSET"
  using sched_VALID [OF assms] by (simp add: next_uid_def not_le)

lemma queue_inv_exec_call:
  assumes L: "sched_laws ops q_abs" and q: "queue_inv q_abs s"
    and ty: "\<And>ctx t obj ty la pl. c = CELP_Schedule ctx t obj ty la pl \<Longrightarrow> dev_type ty"
  shows "queue_inv q_abs (exec_call ops c s)"
proof (cases c)
  case (CRemove i)
  with q show ?thesis
    by (simp add: Remove_def sched_Remove [OF L] split: option.split)
next
  case (CELP_Schedule ctx t obj ty' la pl)
  then show ?thesis
    using q ty [OF CELP_Schedule] by (simp add: ELP_Schedule_def Let_def m_events_insert_event [OF L] event_ok_def)
next
  case (CCancel i)
  with q show ?thesis by (simp add: Cancel_def split: option.split)
qed (use q in \<open>simp_all add: Schedule_def ScheduleWithContext_def ScheduleNow_def Let_def
      ScheduleDestroy_def Stop_def m_events_insert_event [OF L] event_ok_def next_uid_below [OF L]\<close>)

lemma queue_inv_Invoke:
  assumes L: "sched_laws ops q_abs" and q: "queue_inv q_abs s" and u: "user_ok invoke"
  shows "queue_inv q_abs (Invoke ops invoke p s)"
proof -
  have "queue_inv q_abs (fold (exec_call ops) (invoke p s) s)"
    by (rule fold_inv [where P = "queue_inv q_abs"], rule q, rule queue_inv_exec_call [OF L])
       (use u in \<open>auto simp: user_ok_def\<close>)
  with q show ?thesis by (simp add: Invoke_def)
qed

lemma queue_inv_ProcessEventsWithContext:
  assumes L: "sched_laws ops q_abs" and q: "queue_inv q_abs s"
  shows "queue_inv q_abs (ProcessEventsWithContext ops s)"
proof -
  have step: "queue_inv q_abs (process_with_context ops ev t)" if "queue_inv q_abs t" for ev t
    using that by (simp add: process_with_context_def Let_def m_events_insert_event [OF L] event_ok_def
        next_uid_below [OF L])
  have "queue_inv q_abs (fold (process_with_context ops) xs t)" if "queue_inv q_abs t" for xs t
    by (rule fold_inv [where P = "queue_inv q_abs"], rule that, rule step)
  with q show ?thesis by (simp add: ProcessEventsWithContext_def)
qed

lemma queue_inv_ProcessOneEvent:
  assumes L: "sched_laws ops q_abs" and q: "queue_inv q_abs s" and u: "user_ok invoke"
    and ne: "q_abs (m_events s) \<noteq> {#}" and res: "ProcessOneEvent ops invoke s = Some s'"
  shows "queue_inv q_abs s'"
proof -
  obtain nxt r where r: "sch_RemoveNext ops (m_events s) = (nxt, r)" by (cases "sch_RemoveNext ops (m_events s)")
  have "events_ok (q_abs r) \<and> m_uid s < DEVICE_EV_ID_OFFSET" using q sched_snd [OF L ne] r by simp
  moreover obtain p where "se_impl nxt = CpuImpl p"
    using res by (auto simp: ProcessOneEvent_def r split: event_impl.splits)
  ultimately show ?thesis
    using res queue_inv_ProcessEventsWithContext [OF L queue_inv_Invoke [OF L _ u]]
    by (auto simp: ProcessOneEvent_def r Let_def)
qed

section \<open>Draining device events\<close>

abbreviation elp_inv :: "('q \<Rightarrow> SchedEvent multiset) \<Rightarrow> 'q elp \<Rightarrow> bool" where
  "elp_inv q_abs s \<equiv> buf_inv s \<and> queue_inv q_abs s"

lemma elp_inv_drain_slot:
  assumes L: "sched_laws ops q_abs" and inv: "elp_inv q_abs s"
    and k: "k < DEVICE_QUEUE_LENGTH * MAX_NEW_EVENTS"
  shows "elp_inv q_abs (drain_slot ops b k s)"
proof -
  have ty: "ev_valid (d_nextEventQueue s b ! k) \<Longrightarrow> dev_type (ev_type (d_nextEventQueue s b ! k))"
    using inv k by (simp add: buf_inv_def type_inv_def)
  have "queue_inv q_abs (drain_slot ops b k s)"
    using inv ty by (simp add: drain_slot_eq Let_def schedule_dev_def ELP_Schedule_def set_next_def
        m_events_insert_event [OF L] event_ok_def)
  with inv show ?thesis by (simp add: buf_inv_drain_slot)
qed

lemma elp_inv_drain_row:
  assumes L: "sched_laws ops q_abs" and inv: "elp_inv q_abs s" and i: "i < DEVICE_QUEUE_LENGTH"
  shows "elp_inv q_abs (drain_row ops b i s)"
proof -
  have bound: "i * MAX_NEW_EVENTS + j < DEVICE_QUEUE_LENGTH * MAX_NEW_EVENTS" if "j < MAX_NEW_EVENTS" for j
    using i that by (simp add: MAX_NEW_EVENTS_def)
  have "elp_inv q_abs (fold (\<lambda>j. drain_slot ops b (i * MAX_NEW_EVENTS + j)) [0..<MAX_NEW_EVENTS]
      (drain_slot ops b (i * MAX_NEW_EVENTS) s))"
  proof (rule fold_inv [where P = "elp_inv q_abs"])
    show "elp_inv q_abs (drain_slot ops b (i * MAX_NEW_EVENTS) s)"
      using bound [of 0] by (intro elp_inv_drain_slot [OF L inv]) (simp add: MAX_NEW_EVENTS_def)
  next
    fix j t
    assume "j \<in> set [0..<MAX_NEW_EVENTS]" and "elp_inv q_abs t"
    then show "elp_inv q_abs (drain_slot ops b (i * MAX_NEW_EVENTS + j) t)"
      using bound [of j] by (intro elp_inv_drain_slot [OF L]) simp_all
  qed
  with inv show ?thesis by (simp add: drain_row_def Let_def)
qed

lemma elp_inv_drain_buffer:
  assumes L: "sched_laws ops q_abs" and inv: "elp_inv q_abs s"
  shows "elp_inv q_abs (drain_buffer ops b s)"
  unfolding drain_buffer_def
  by (rule fold_inv [where P = "elp_inv q_abs"], rule inv, rule elp_inv_drain_row [OF L]) simp_all

text \<open>What draining leaves alone, as one projection.\<close>

definition undrained :: "'q elp \<Rightarrow> _" where
  "undrained s = (h_curDevBuf s, h_curDevBufRdy s, d_bufrdy s, m_stop s, m_uid s, safe_ts s,
     d_safe_tss s, h_safeEventQueue s, k_todo s, k_active s)"

lemma undrained_slot: "undrained (drain_slot ops b k s) = undrained s"
  by (simp add: undrained_def drain_slot_def schedule_dev_def ELP_Schedule_def insert_event_def Let_def)

lemma undrained_row: "undrained (drain_row ops b i s) = undrained s"
  by (simp add: drain_row_def Let_def undrained_slot fold_frame [where g = undrained])

lemma undrained_buffer: "undrained (drain_buffer ops b s) = undrained s"
  unfolding drain_buffer_def by (rule fold_frame) (rule undrained_row)

lemma drain_buffer_frame [simp]:
  "h_curDevBuf (drain_buffer ops b s) = h_curDevBuf s"
  "h_curDevBufRdy (drain_buffer ops b s) = h_curDevBufRdy s"
  "d_bufrdy (drain_buffer ops b s) = d_bufrdy s"
  "m_stop (drain_buffer ops b s) = m_stop s"
  "m_uid (drain_buffer ops b s) = m_uid s"
  "safe_ts (drain_buffer ops b s) = safe_ts s"
  "d_safe_tss (drain_buffer ops b s) = d_safe_tss s"
  "h_safeEventQueue (drain_buffer ops b s) = h_safeEventQueue s"
  "k_todo (drain_buffer ops b s) = k_todo s"
  "k_active (drain_buffer ops b s) = k_active s"
  using undrained_buffer [of ops b s] by (simp_all add: undrained_def)

text \<open>\<^verbatim>\<open>ELP_ScheduleDevEvent\<close> drains the first ready buffer, then the other one if it is ready.\<close>

definition drain_ready :: "'q sched_ops \<Rightarrow> bufsel \<Rightarrow> 'q elp \<Rightarrow> 'q elp" where
  "drain_ready ops b s =
     (if d_bufrdy s b
      then (drain_buffer ops b s)\<lparr>d_bufrdy := (d_bufrdy s)(b := False)\<rparr> else s)"

definition point_dev :: "bufsel \<Rightarrow> 'q elp \<Rightarrow> 'q elp" where
  "point_dev b s = s\<lparr>h_curDevBufRdy := b, h_curDevBuf := b\<rparr>"

lemma ELP_ScheduleDevEvent_eq:
  "ELP_ScheduleDevEvent ops s =
     (if \<not> d_bufrdy s Buf1 \<and> \<not> d_bufrdy s Buf2 then s
      else let r = (if d_bufrdy s Buf1 then Buf1 else Buf2)
           in drain_ready ops (other r) (point_dev (other r) (drain_ready ops r (point_dev r s))))"
proof -
  have swap: "t\<lparr>h_curDevBuf := b, h_curDevBufRdy := c\<rparr> = t\<lparr>h_curDevBufRdy := c, h_curDevBuf := b\<rparr>"
    for t :: "'a elp" and b c
    by (cases t) simp
  show ?thesis
    by (cases "d_bufrdy s Buf1"; cases "d_bufrdy s Buf2")
       (simp_all add: ELP_ScheduleDevEvent_def drain_ready_def point_dev_def Let_def swap)
qed

lemma elp_inv_drain_ready:
  assumes L: "sched_laws ops q_abs" and inv: "elp_inv q_abs s"
  shows "elp_inv q_abs (drain_ready ops b s)"
proof -
  have flag: "buf_inv (t\<lparr>d_bufrdy := f\<rparr>) = buf_inv t" for t :: "'a elp" and f
    by (simp add: buf_inv_defs slot_free_def)
  show ?thesis unfolding drain_ready_def using elp_inv_drain_buffer [OF L inv] inv flag by simp
qed

lemma elp_inv_point_dev: "elp_inv q_abs (point_dev b s) = elp_inv q_abs s"
  by (simp add: buf_inv_defs slot_free_def point_dev_def)

lemma elp_inv_ScheduleDevEvent:
  assumes L: "sched_laws ops q_abs" and inv: "elp_inv q_abs s"
  shows "elp_inv q_abs (ELP_ScheduleDevEvent ops s)"
  using inv elp_inv_drain_ready [OF L] elp_inv_point_dev
  unfolding ELP_ScheduleDevEvent_eq Let_def by (simp split: if_split) blast

lemma ScheduleDevEvent_frame [simp]:
  "safe_ts (ELP_ScheduleDevEvent ops s) = safe_ts s"
  "d_safe_tss (ELP_ScheduleDevEvent ops s) = d_safe_tss s"
  "h_safeEventQueue (ELP_ScheduleDevEvent ops s) = h_safeEventQueue s"
  "k_todo (ELP_ScheduleDevEvent ops s) = k_todo s"
  "k_active (ELP_ScheduleDevEvent ops s) = k_active s"
  by (simp_all add: ELP_ScheduleDevEvent_eq drain_ready_def point_dev_def Let_def)


section \<open>One iteration of the main loop\<close>

lemma ChangeDevQueue_events [simp]:
  "m_events (ChangeDevQueue s) = m_events s" "m_uid (ChangeDevQueue s) = m_uid s"
  by (simp_all add: ChangeDevQueue_def Let_def)

lemma queue_inv_ELP_ProcessOneEvent:
  assumes L: "sched_laws ops q_abs" and q: "queue_inv q_abs s"
    and ne: "q_abs (m_events s) \<noteq> {#}" and res: "ELP_ProcessOneEvent ops s = Some s'"
  shows "queue_inv q_abs s'"
proof -
  obtain nxt r where r: "sch_RemoveNext ops (m_events s) = (nxt, r)" by (cases "sch_RemoveNext ops (m_events s)")
  have "events_ok (q_abs r)" using q sched_snd [OF L ne] r by simp
  moreover have "m_events s' = r"
    using res r unfolding ELP_ProcessOneEvent_def Let_def h_insert_sort_eq
    by (auto simp: bind_eq_Some_conv take_slot_def next_warp_def write_slot_def
        split: event_impl.splits if_splits dest!: ChangeHostQueue_fresh(3))
  moreover have "m_uid s' = m_uid s"
    using res r unfolding ELP_ProcessOneEvent_def Let_def h_insert_sort_eq
    by (auto simp: bind_eq_Some_conv take_slot_def next_warp_def write_slot_def
        split: event_impl.splits if_splits dest!: ChangeHostQueue_fresh(4))
  ultimately show ?thesis using q by simp
qed

lemma buf_inv_sync_safe_ts:
  assumes "buf_inv s"
  shows "buf_inv (s\<lparr>safe_ts := (if d_safe_tss s Buf1 < d_safe_tss s Buf2
                          then d_safe_tss s Buf1 else d_safe_tss s Buf2)\<rparr>)"
proof -
  have "(if d_safe_tss s Buf1 < d_safe_tss s Buf2 then d_safe_tss s Buf1 else d_safe_tss s Buf2)
      \<le> d_safe_tss s b" for b
    by (cases b) auto
  with assms show ?thesis by (simp add: buf_inv_defs slot_free_def)
qed

lemma is_safe_events [simp]: "m_events (snd (is_safe e s)) = m_events s"
    "m_uid (snd (is_safe e s)) = m_uid s"
  by (simp_all add: is_safe_def Let_def)

lemma elp_inv_runsk_iter:
  assumes L: "sched_laws ops q_abs" and inv: "elp_inv q_abs s" and u: "user_ok invoke"
    and ne: "q_abs (m_events (ELP_ScheduleDevEvent ops s)) \<noteq> {#}"
    and res: "runsk_iter ops invoke s = Some s'"
  shows "elp_inv q_abs s'"
proof -
  define s1 where "s1 = ELP_ScheduleDevEvent ops s"
  define nxt where "nxt = sch_PeekNext ops (m_events s1)"
  obtain safe s2 where sf: "is_safe nxt s1 = (safe, s2)" by (cases "is_safe nxt s1")
  have inv1: "elp_inv q_abs s1"
    unfolding s1_def by (rule elp_inv_ScheduleDevEvent [OF L inv])
  have ev: "m_events s2 = m_events s1" "m_uid s2 = m_uid s1" using is_safe_events [of nxt s1] sf by simp_all
  have inv2: "elp_inv q_abs s2"
    using inv1 buf_inv_is_safe [of s1 nxt] sf ev by simp
  have ne2: "q_abs (m_events s2) \<noteq> {#}" using ne ev by (simp add: s1_def)
  note res' = res [unfolded runsk_iter_def Let_def s1_def [symmetric] nxt_def [symmetric] sf prod.case]
  show ?thesis
  proof (cases safe)
    case False
    let ?s3 = "s2\<lparr>safe_ts := (if d_safe_tss s2 Buf1 < d_safe_tss s2 Buf2
                          then d_safe_tss s2 Buf1 else d_safe_tss s2 Buf2)\<rparr>"
    have b3: "buf_inv ?s3" using inv2 by (intro buf_inv_sync_safe_ts) simp
    have "ChangeHostQueue ?s3 = Some s' \<or> s' = ?s3"
      using False res' by (simp split: if_splits)
    then show ?thesis
    proof
      assume c: "ChangeHostQueue ?s3 = Some s'"
      have "m_events s' = m_events s2" "m_uid s' = m_uid s2" using ChangeHostQueue_fresh(3,4) [OF c] by simp_all
      with buf_inv_ChangeHostQueue [OF b3 c] inv2 show ?thesis by simp
    next
      assume "s' = ?s3"
      moreover have "m_events ?s3 = m_events s2" "m_uid ?s3 = m_uid s2" by simp_all
      ultimately show ?thesis using b3 inv2 by simp
    qed
  next
    case True
    have fst: "fst (sch_RemoveNext ops (m_events s2)) = nxt"
      using sched_fst [OF L ne2] ev by (simp add: nxt_def)
    have mem: "event_ok nxt"
      using sched_PeekNext [OF L ne2] inv2 ev by (simp add: nxt_def events_ok_def)
    show ?thesis
    proof (cases "se_uid nxt \<ge> DEVICE_EV_ID_OFFSET")
      case gpu: True
      with res' \<open>safe\<close> have r: "ELP_ProcessOneEvent ops s2 = Some s'" by simp
      have "buf_inv s'"
        by (rule buf_inv_ELP_ProcessOneEvent [OF _ fst _ r]) (use inv2 mem in \<open>simp_all add: event_ok_def\<close>)
      with queue_inv_ELP_ProcessOneEvent [OF L _ ne2 r] inv2 show ?thesis by simp
    next
      case False
      with res' \<open>safe\<close> have r: "ProcessOneEvent ops invoke s2 = Some s'" by simp
      from inv2 queue_inv_ProcessOneEvent [OF L _ u ne2 r] show ?thesis
        by (simp add: buf_inv_frame [OF buffers_ProcessOneEvent [OF r]])
    qed
  qed
qed

text \<open>Draining only adds events, so the loop's emptiness test carries over.\<close>

lemma drain_slot_grows:
  assumes L: "sched_laws ops q_abs"
  shows "q_abs (m_events s) \<subseteq># q_abs (m_events (drain_slot ops b k s))"
  by (simp add: drain_slot_def schedule_dev_def ELP_Schedule_def Let_def m_events_insert_event [OF L])

lemma fold_grows:
  assumes "\<And>x t. M t \<subseteq># M (f x t)"
  shows "M s \<subseteq># M (fold f xs s)"
  using assms by (induction xs arbitrary: s) (auto intro: subset_mset.order_trans)

lemma drain_buffer_grows:
  assumes L: "sched_laws ops q_abs"
  shows "q_abs (m_events s) \<subseteq># q_abs (m_events (drain_buffer ops b s))"
  unfolding drain_buffer_def
proof (rule fold_grows)
  fix i and t :: "'a elp"
  show "q_abs (m_events t) \<subseteq># q_abs (m_events (drain_row ops b i t))"
    unfolding drain_row_def Let_def
    by (auto intro: subset_mset.order_trans [OF drain_slot_grows [OF L]]
        fold_grows [where M = "\<lambda>t. q_abs (m_events t)", OF drain_slot_grows [OF L]])
qed

lemma ScheduleDevEvent_grows:
  assumes L: "sched_laws ops q_abs"
  shows "q_abs (m_events s) \<subseteq># q_abs (m_events (ELP_ScheduleDevEvent ops s))"
proof -
  have p: "m_events (point_dev b t) = m_events t" for b and t :: "'a elp"
    by (simp add: point_dev_def)
  have r: "q_abs (m_events t) \<subseteq># q_abs (m_events (drain_ready ops b t))" for b and t :: "'a elp"
    by (simp add: drain_ready_def drain_buffer_grows [OF L])
  have "q_abs (m_events s) \<subseteq># q_abs (m_events (drain_ready ops b' (point_dev b' (drain_ready ops b (point_dev b s)))))"
    for b b'
    using r [of "point_dev b s" b] r [of "point_dev b' (drain_ready ops b (point_dev b s))" b']
    unfolding p by (rule subset_mset.order_trans)
  then show ?thesis by (simp add: ELP_ScheduleDevEvent_eq Let_def)
qed


section \<open>Moves of the kernel\<close>

lemma d_probe_Some:
  "d_probe buf index limit = Some k \<Longrightarrow>
     index \<le> k \<and> k < limit \<and> \<not> ev_valid (buf ! k) \<and> (\<forall>j. index \<le> j \<and> j < k \<longrightarrow> ev_valid (buf ! j))"
proof (induction buf index limit rule: d_probe.induct)
  case (1 buf index limit)
  show ?case
  proof (cases "limit \<le> index \<or> \<not> ev_valid (buf ! index)")
    case True
    with "1.prems" show ?thesis by (auto simp: d_probe.simps [of buf index limit] split: if_splits)
  next
    case False
    with "1.prems" have "d_probe buf (index + 1) limit = Some k"
      by (simp add: d_probe.simps [of buf index limit])
    with "1.IH" False have "index + 1 \<le> k \<and> k < limit \<and> \<not> ev_valid (buf ! k) \<and>
        (\<forall>j. index + 1 \<le> j \<and> j < k \<longrightarrow> ev_valid (buf ! j))"
      by simp
    with False show ?thesis by (metis Suc_eq_plus1 Suc_leD linorder_not_le not_less_eq_eq order_antisym)
  qed
qed

lemma d_probe_None:
  "d_probe buf index limit = None \<Longrightarrow> index \<le> j \<Longrightarrow> j < limit \<Longrightarrow> ev_valid (buf ! j)"
proof (induction buf index limit rule: d_probe.induct)
  case (1 buf index limit)
  then have v: "ev_valid (buf ! index)" and "d_probe buf (index + 1) limit = None"
    by (auto simp: d_probe.simps [of buf index limit] split: if_splits)
  with "1.IH" "1.prems" show ?case by (cases "j = index") auto
qed

definition new_event :: "DevCall \<Rightarrow> DeviceEvent" where
  "new_event c = \<lparr>ev_impl = dc_impl c, ev_ts = dc_ts c, ev_context = dc_context c, ev_uid = 3,
     ev_type = dc_type c, ev_lookahead = dc_lookahead c, ev_valid = True,
     ev_payload = dc_payload c\<rparr>"

lemma d_insert_try_eq:
  "d_insert_try tid c s =
     (case d_probe (d_nextEventQueue s (d_curDevBuf s)) (tid * MAX_NEW_EVENTS)
             (tid * MAX_NEW_EVENTS + MAX_NEW_EVENTS) of
        None \<Rightarrow> (False, ChangeDevQueue s)
      | Some k \<Rightarrow> (True, set_next (d_curDevBuf s) k (new_event c) s))"
  unfolding d_insert_try_def set_next_def new_event_def Let_def by (rule refl)

text \<open>Only the bookkeeping of the kernel changes: what is left to check is \<open>done_inv\<close> and the types.\<close>

definition set_kernel :: "nat list \<Rightarrow> (nat \<times> DevCall list) list \<Rightarrow> 'q elp \<Rightarrow> 'q elp" where
  "set_kernel td ac s = s\<lparr>k_todo := td, k_active := ac\<rparr>"

lemma set_kernel_fold:
  "s\<lparr>k_todo := td, k_active := ac\<rparr> = set_kernel td ac s"
  "s\<lparr>k_todo := td\<rparr> = set_kernel td (k_active s) s"
  "s\<lparr>k_active := ac\<rparr> = set_kernel (k_todo s) ac s"
  by (cases s, simp add: set_kernel_def)+

lemma m_events_set_kernel [simp]:
  "m_events (set_kernel td ac s) = m_events s" "m_uid (set_kernel td ac s) = m_uid s"
  by (simp_all add: set_kernel_def)

lemma buf_inv_set_kernel:
  assumes inv: "buf_inv s"
    and dn: "\<And>i. i < DEVICE_QUEUE_LENGTH \<Longrightarrow> ev_valid (h_safeEventQueue s (k_buf s) ! i) \<Longrightarrow>
       i \<in> set td \<or> i \<in> fst ` set ac"
    and ty: "\<And>i cs c. (i, cs) \<in> set ac \<Longrightarrow> c \<in> set cs \<Longrightarrow> dev_type (dc_type c)"
  shows "buf_inv (set_kernel td ac s)"
proof -
  have "slot_free (set_kernel td ac s) k = slot_free s k" for k
    by (simp add: slot_free_def set_kernel_def)
  moreover have "done_inv (set_kernel td ac s)"
    using dn by (simp add: done_inv_def set_kernel_def)
  moreover have "type_inv (set_kernel td ac s)"
    using inv ty by (auto simp: buf_inv_def type_inv_def set_kernel_def)
  ultimately show ?thesis
    using inv unfolding buf_inv_def ptr_inv_def shape_inv_def safe_inv_def slot_inv_def warp_inv_def
    by (simp add: set_kernel_def)
qed

lemma done_invD:
  "buf_inv s \<Longrightarrow> i < DEVICE_QUEUE_LENGTH \<Longrightarrow> ev_valid (h_safeEventQueue s (k_buf s) ! i) \<Longrightarrow>
   i \<in> set (k_todo s) \<or> i \<in> fst ` set (k_active s)"
  by (simp add: buf_inv_def done_inv_def)

lemma active_type:
  "buf_inv s \<Longrightarrow> (i, cs) \<in> set (k_active s) \<Longrightarrow> c \<in> set cs \<Longrightarrow> dev_type (dc_type c)"
  by (auto simp: buf_inv_def type_inv_def)

lemma fst_remove1:
  assumes "j \<in> fst ` set xs" and "j \<noteq> fst x"
  shows "j \<in> fst ` set (remove1 x xs)"
  using assms by (metis (no_types, lifting) image_iff in_set_remove1)

lemma buf_inv_start:
  assumes inv: "buf_inv s" and ty: "\<forall>c\<in>set calls. dev_type (dc_type c)"
  shows "buf_inv (set_kernel (remove1 i (k_todo s)) ((i, calls) # k_active s) s)"
proof (rule buf_inv_set_kernel [OF inv])
  fix j
  assume "j < DEVICE_QUEUE_LENGTH" and "ev_valid (h_safeEventQueue s (k_buf s) ! j)"
  from done_invD [OF inv this]
  show "j \<in> set (remove1 i (k_todo s)) \<or> j \<in> fst ` set ((i, calls) # k_active s)"
    by (cases "j = i") (auto simp: in_set_remove1)
qed (use active_type [OF inv] ty in auto)

lemma buf_inv_skip:
  assumes inv: "buf_inv s" and nv: "\<not> ev_valid (h_safeEventQueue s (k_buf s) ! i)"
  shows "buf_inv (set_kernel (remove1 i (k_todo s)) (k_active s) s)"
proof (rule buf_inv_set_kernel [OF inv])
  fix j
  assume "j < DEVICE_QUEUE_LENGTH" and v: "ev_valid (h_safeEventQueue s (k_buf s) ! j)"
  from done_invD [OF inv this] nv v
  show "j \<in> set (remove1 i (k_todo s)) \<or> j \<in> fst ` set (k_active s)"
    by (cases "j = i") (auto simp: in_set_remove1)
qed (use active_type [OF inv] in auto)

lemma buf_inv_advance:
  assumes inv: "buf_inv s" and a: "(i, c # calls) \<in> set (k_active s)"
  shows "buf_inv (set_kernel (k_todo s) ((i, calls) # remove1 (i, c # calls) (k_active s)) s)"
proof (rule buf_inv_set_kernel [OF inv])
  fix j
  assume "j < DEVICE_QUEUE_LENGTH" and "ev_valid (h_safeEventQueue s (k_buf s) ! j)"
  from done_invD [OF inv this]
  show "j \<in> set (k_todo s) \<or> j \<in> fst ` set ((i, calls) # remove1 (i, c # calls) (k_active s))"
    by (cases "j = i") (auto intro: fst_remove1)
next
  fix j cs c'
  assume "(j, cs) \<in> set ((i, calls) # remove1 (i, c # calls) (k_active s))" and "c' \<in> set cs"
  then show "dev_type (dc_type c')"
    using active_type [OF inv a] active_type [OF inv, of j cs c'] set_remove1_subset [THEN subsetD]
    by fastforce
qed

lemma buf_inv_retire:
  assumes inv: "buf_inv s" and a: "(i, []) \<in> set (k_active s)" 
  shows "buf_inv (set_kernel (k_todo s) (remove1 (i, []) (k_active s)) (retire i s))"
proof -
  let ?q = "h_safeEventQueue s (k_buf s)"
  let ?e = "(?q ! i)\<lparr>ev_valid := False\<rparr>"
  let ?t = "retire i s"
  have len: "length ?q = DEVICE_QUEUE_LENGTH" and kb: "k_buf s \<noteq> h_curHostBuf s"
    using inv by (simp_all add: buf_inv_def shape_inv_def ptr_inv_def)
  have known: "known_type (ev_type (?q ! i))" if "ev_valid (?q ! i)" "i < DEVICE_QUEUE_LENGTH"
    using inv that by (force simp: buf_inv_def type_inv_def dev_type_def known_type_def)
  have nth: "h_safeEventQueue ?t b ! j =
      (if b = k_buf s \<and> j = i \<and> known_type (ev_type (?q ! i)) then ?e else h_safeEventQueue s b ! j)"
    if "j < DEVICE_QUEUE_LENGTH" for b j
    using that len by (simp add: retire_def Let_def)
  have "(\<forall>b. length (h_safeEventQueue ?t b) = DEVICE_QUEUE_LENGTH) =
      (\<forall>b. length (h_safeEventQueue s b) = DEVICE_QUEUE_LENGTH)"
    by (rule all_cong1) (simp add: retire_def Let_def)
  then have shp: "shape_inv ?t = shape_inv s"
    unfolding shape_inv_def by (simp add: retire_def Let_def)
  have fr: "slot_free ?t k = slot_free s k" "ptr_inv ?t = ptr_inv s" "warp_inv ?t = warp_inv s"
    "k_buf ?t = k_buf s" "h_curHostBuf ?t = h_curHostBuf s"
    "d_safe_tss ?t = d_safe_tss s" "safe_ts ?t = safe_ts s" "k_todo ?t = k_todo s"
    "k_active ?t = k_active s" "d_nextEventQueue ?t = d_nextEventQueue s" for k
    by (simp_all add: retire_def Let_def slot_free_def ptr_inv_def warp_inv_def)
  have inv_t: "buf_inv ?t"
    using inv unfolding buf_inv_def slot_inv_def safe_inv_def done_inv_def type_inv_def fr shp
    by (auto simp: nth bound_ok_def)
  show ?thesis
  proof (rule buf_inv_set_kernel [OF inv_t])
    fix j
    assume j: "j < DEVICE_QUEUE_LENGTH" and v: "ev_valid (h_safeEventQueue ?t (k_buf ?t) ! j)"
    have "j \<noteq> i" using v known j by (auto simp: fr nth split: if_splits)
    with done_invD [OF inv_t j v] show "j \<in> set (k_todo s) \<or> j \<in> fst ` set (remove1 (i, []) (k_active s))"
      by (auto simp: fr intro: fst_remove1)
  qed (use active_type [OF inv] in \<open>auto dest: set_remove1_subset [THEN subsetD]\<close>)
qed


section \<open>Every step, every reachable state\<close>

lemma buf_inv_insert_step:
  assumes inv: "buf_inv s" and a: "(i, c # calls) \<in> set (k_active s)"
    and d: "d_insert_try tid c s = (True, s')"
  shows "buf_inv (set_kernel (k_todo s') ((i, calls) # remove1 (i, c # calls) (k_active s')) s')"
    and "m_events s' = m_events s" and "m_uid s' = m_uid s"
proof -
  obtain k where s': "s' = set_next (d_curDevBuf s) k (new_event c) s"
    using d by (auto simp: d_insert_try_eq split: option.splits)
  have act: "k_active s' = k_active s" and "m_events s' = m_events s \<and> m_uid s' = m_uid s"
    unfolding s' by (simp_all add: set_next_def)
  then show "m_events s' = m_events s" and "m_uid s' = m_uid s" by simp_all
  have "buf_inv s'"
    unfolding s' by (rule buf_inv_set_next [OF inv]) (use active_type [OF inv a] in \<open>simp add: new_event_def\<close>)
  from buf_inv_advance [OF this, of i c calls] a act
  show "buf_inv (set_kernel (k_todo s') ((i, calls) # remove1 (i, c # calls) (k_active s')) s')" by simp
qed

lemma elp_inv_kernel_step:
  assumes d: "dev_ok dev_exec" and step: "kernel_step dev_exec s s'" and inv: "elp_inv q_abs s"
  shows "elp_inv q_abs s'"
  using step
proof (cases rule: kernel_step.cases)
  case (kernel_start i calls)
  have "\<forall>c\<in>set calls. dev_type (dc_type c)" using d kernel_start(4) by (auto simp: dev_ok_def)
  from buf_inv_start [OF conjunct1 [OF inv] this] inv show ?thesis
    unfolding kernel_start(1) set_kernel_fold(1) by simp
next
  case (kernel_skip i)
  from buf_inv_skip [OF conjunct1 [OF inv] kernel_skip(3)] inv show ?thesis
    unfolding kernel_skip(1) set_kernel_fold by simp
next
  case (kernel_insert i c calls t)
  from buf_inv_insert_step [OF conjunct1 [OF inv] kernel_insert(2,3)] inv show ?thesis
    unfolding kernel_insert(1) set_kernel_fold by simp
next
  case (kernel_redo i c calls)
  then have "s' = ChangeDevQueue s"
    by (auto simp: d_insert_try_eq split: option.splits)
  with inv show ?thesis by (simp add: buf_inv_ChangeDevQueue)
next
  case (kernel_retire i)
  have "k_todo (retire i s) = k_todo s" "m_events (retire i s) = m_events s" "m_uid (retire i s) = m_uid s"
    by (simp_all add: retire_def Let_def)
  with buf_inv_retire [OF conjunct1 [OF inv] kernel_retire(2)] inv show ?thesis
    unfolding kernel_retire(1) set_kernel_fold by simp
qed

lemma elp_inv_step:
  assumes L: "sched_laws ops q_abs" and u: "user_ok invoke" and d: "dev_ok dev_exec"
    and step: "elp_step ops invoke dev_exec s s'" and inv: "elp_inv q_abs s"
  shows "elp_inv q_abs s'"
  using step
proof (cases rule: elp_step.cases)
  case host_iter
  have "q_abs (m_events s) \<noteq> {#}" using host_iter(1) sched_IsEmpty [OF L] by blast
  with ScheduleDevEvent_grows [OF L, of s] have "q_abs (m_events (ELP_ScheduleDevEvent ops s)) \<noteq> {#}"
    by auto
  with elp_inv_runsk_iter [OF L inv u] host_iter(3) show ?thesis by blast
next
  case (other_thread c t e)
  have "buffers s' = buffers s" unfolding other_thread by (simp add: ScheduleWithContext_other_thread_def buffers_def)
  from buf_inv_frame [OF this] inv show ?thesis
    unfolding other_thread by (simp add: ScheduleWithContext_other_thread_def)
next
  case kernel
  from elp_inv_kernel_step [where q_abs = q_abs, OF d this inv] show ?thesis .
qed

lemma elp_inv_reachable:
  assumes L: "sched_laws ops q_abs" and u: "user_ok invoke" and d: "dev_ok dev_exec"
    and reach: "elp_reachable ops invoke dev_exec s0 s" and inv: "elp_inv q_abs s0"
  shows "elp_inv q_abs s"
  using reach
proof (induction rule: elp_reachable.induct)
  case reach_start
  show ?case using inv .
next
  case (reach_step s s')
  from elp_inv_step [OF L u d reach_step.hyps(2) reach_step.IH] show ?case .
qed

lemma elp_inv_ELP_Init:
  assumes L: "sched_laws ops q_abs" and "events_ok (q_abs q)"
  shows "elp_inv q_abs (ELP_Init ops q n)"
proof -
  have w: "warp_inv (ELP_Init ops q n)" by (rule warp_inv_fresh) (simp_all add: ELP_Init_def)
  have "buf_inv (ELP_Init ops q n)"
    unfolding buf_inv_def slot_inv_def using w
    by (simp add: ptr_inv_def shape_inv_def safe_inv_def done_inv_def type_inv_def bound_ok_def
        ELP_Init_def no_event_def)
  with assms show ?thesis by (simp add: ELP_Init_def sched_VALID [OF L])
qed

end
