(* ===== verification/Elp_Drain.thy ===== *)
theory Elp_Drain
  imports Elp_Reach
begin

text \<open>
  \<^verbatim>\<open>ELP_ScheduleDevEvent\<close> looks only at the first slot of a thread's row before it drains the
  row.  Because \<^verbatim>\<open>d_insert\<close> fills a row from its first slot, that finds every event: the drained
  buffer's valid events are scheduled in order, each once, and the buffer is left empty.
\<close>

definition clear :: "DeviceEvent \<Rightarrow> DeviceEvent" where
  "clear e = e\<lparr>ev_valid := False\<rparr>"

lemma clear_invalid [simp]: "\<not> ev_valid (clear e)"
  by (simp add: clear_def)

lemma clear_id: "\<not> ev_valid e \<Longrightarrow> clear e = e"
  by (cases e) (simp add: clear_def)

definition set_next_queue :: "bufsel \<Rightarrow> DeviceEvent list \<Rightarrow> 'q elp \<Rightarrow> 'q elp" where
  "set_next_queue b q s = s\<lparr>d_nextEventQueue := (d_nextEventQueue s)(b := q)\<rparr>"

lemma set_next_queue_same [simp]: "set_next_queue b (d_nextEventQueue s b) s = s"
  by (cases s) (simp add: set_next_queue_def)

lemma set_next_queue_twice [simp]: "set_next_queue b q (set_next_queue b q' s) = set_next_queue b q s"
  by (simp add: set_next_queue_def)

lemma next_queue_set [simp]: "d_nextEventQueue (set_next_queue b q s) = (d_nextEventQueue s)(b := q)"
  by (simp add: set_next_queue_def)

lemma schedule_dev_set_next:
  "schedule_dev ops e (set_next_queue b q s) = set_next_queue b q (schedule_dev ops e s)"
  by (simp add: schedule_dev_def ELP_Schedule_def insert_event_def set_next_queue_def Let_def)

lemma schedule_dev_next [simp]: "d_nextEventQueue (schedule_dev ops e s) = d_nextEventQueue s"
  by (simp add: schedule_dev_def ELP_Schedule_def insert_event_def Let_def)

lemma fold_schedule_next [simp]: "d_nextEventQueue (fold (schedule_dev ops) es s) = d_nextEventQueue s"
  by (rule fold_frame) simp

lemma fold_schedule_set_next:
  "fold (schedule_dev ops) es (set_next_queue b q s) = set_next_queue b q (fold (schedule_dev ops) es s)"
  by (induction es arbitrary: s) (simp_all add: schedule_dev_set_next)

lemma drain_slot_set:
  "drain_slot ops b k s =
     (let buf = d_nextEventQueue s b
      in if ev_valid (buf ! k)
         then set_next_queue b (buf[k := clear (buf ! k)]) (schedule_dev ops (buf ! k) s) else s)"
  by (simp add: drain_slot_def set_next_queue_def clear_def Let_def schedule_dev_def ELP_Schedule_def
      insert_event_def)

section \<open>A run of slots\<close>

lemma map_clear_step:
  assumes "n < length buf"
  shows "(map clear (take n buf) @ drop n buf)[n := clear (buf ! n)] =
         map clear (take (Suc n) buf) @ drop (Suc n) buf"
proof -
  have d: "drop n buf = buf ! n # drop (Suc n) buf"
    using assms by (rule Cons_nth_drop_Suc [symmetric])
  have "length (map clear (take n buf)) = n" using assms by simp
  then show ?thesis
    using assms unfolding d by (simp add: list_update_append take_Suc_conv_app_nth)
qed

lemma drain_slots:
  assumes "n \<le> length (d_nextEventQueue s b)"
  shows "fold (drain_slot ops b) [0..<n] s =
     (let buf = d_nextEventQueue s b
      in set_next_queue b (map clear (take n buf) @ drop n buf)
           (fold (schedule_dev ops) (filter ev_valid (take n buf)) s))"
  using assms
proof (induction n)
  case 0
  show ?case by (simp add: Let_def)
next
  case (Suc n)
  let ?buf = "d_nextEventQueue s b"
  let ?t = "set_next_queue b (map clear (take n ?buf) @ drop n ?buf)
           (fold (schedule_dev ops) (filter ev_valid (take n ?buf)) s)"
  have n: "n < length ?buf" using Suc.prems by simp
  have IH: "fold (drain_slot ops b) [0..<n] s = ?t" using Suc by (simp add: Let_def)
  have at: "d_nextEventQueue ?t b ! n = ?buf ! n" using n by (simp add: nth_append)
  have "drain_slot ops b n ?t =
      set_next_queue b (map clear (take (Suc n) ?buf) @ drop (Suc n) ?buf)
        (fold (schedule_dev ops) (filter ev_valid (take (Suc n) ?buf)) s)"
  proof (cases "ev_valid (?buf ! n)")
    case True
    then show ?thesis
      unfolding drain_slot_set Let_def at
      using n by (simp add: map_clear_step schedule_dev_set_next take_Suc_conv_app_nth)
  next
    case False
    have "map clear (take (Suc n) ?buf) @ drop (Suc n) ?buf = map clear (take n ?buf) @ drop n ?buf"
      using n False by (simp add: take_Suc_conv_app_nth clear_id Cons_nth_drop_Suc)
    with False show ?thesis
      unfolding drain_slot_set Let_def at
      using n by (simp add: take_Suc_conv_app_nth)
  qed
  with IH show ?case by (simp add: Let_def)
qed

section \<open>Rows\<close>

definition row_head :: "DeviceEvent list \<Rightarrow> bool" where
  "row_head buf \<longleftrightarrow>
     (\<forall>r < DEVICE_QUEUE_LENGTH. \<forall>j < MAX_NEW_EVENTS.
        ev_valid (buf ! (r * MAX_NEW_EVENTS + j)) \<longrightarrow> ev_valid (buf ! (r * MAX_NEW_EVENTS)))"

lemma drain_slot_idle: "\<not> ev_valid (d_nextEventQueue s b ! k) \<Longrightarrow> drain_slot ops b k s = s"
  by (simp add: drain_slot_set Let_def)

lemma drain_slot_clears:
  "k < length (d_nextEventQueue s b) \<Longrightarrow> \<not> ev_valid (d_nextEventQueue (drain_slot ops b k s) b ! k)"
  by (simp add: drain_slot_set Let_def)

lemma drain_slot_twice:
  "k < length (d_nextEventQueue s b) \<Longrightarrow> drain_slot ops b k (drain_slot ops b k s) = drain_slot ops b k s"
  by (simp add: drain_slot_idle drain_slot_clears)

lemma row_slots: "[r * MAX_NEW_EVENTS..<Suc r * MAX_NEW_EVENTS] =
   map (\<lambda>j. r * MAX_NEW_EVENTS + j) [0..<MAX_NEW_EVENTS]"
  by (simp add: MAX_NEW_EVENTS_def upt_rec numeral_eq_Suc)

lemma drain_row_slots:
  assumes len: "r * MAX_NEW_EVENTS < length (d_nextEventQueue s b)"
    and head: "\<And>j. j < MAX_NEW_EVENTS \<Longrightarrow> ev_valid (d_nextEventQueue s b ! (r * MAX_NEW_EVENTS + j)) \<Longrightarrow>
       ev_valid (d_nextEventQueue s b ! (r * MAX_NEW_EVENTS))"
  shows "drain_row ops b r s = fold (drain_slot ops b) [r * MAX_NEW_EVENTS..<Suc r * MAX_NEW_EVENTS] s"
proof (cases "ev_valid (d_nextEventQueue s b ! (r * MAX_NEW_EVENTS))")
  case True
  have "[0..<MAX_NEW_EVENTS] = 0 # [1..<MAX_NEW_EVENTS]"
    by (simp add: MAX_NEW_EVENTS_def upt_rec)
  with True len show ?thesis
    unfolding row_slots fold_map comp_def
    by (simp add: drain_row_def Let_def drain_slot_twice)
next
  case False
  then have "\<not> ev_valid (d_nextEventQueue s b ! (r * MAX_NEW_EVENTS + j))" if "j < MAX_NEW_EVENTS" for j
    using head that by blast
  then have "fold (\<lambda>j. drain_slot ops b (r * MAX_NEW_EVENTS + j)) js s = s"
    if "\<forall>j\<in>set js. j < MAX_NEW_EVENTS" for js
    using that by (induction js) (simp_all add: drain_slot_idle)
  from this [of "[0..<MAX_NEW_EVENTS]"] False show ?thesis
    unfolding row_slots fold_map comp_def by (simp add: drain_row_def Let_def)
qed

lemma drain_rows:
  assumes len: "length (d_nextEventQueue s b) = DEVICE_QUEUE_LENGTH * MAX_NEW_EVENTS"
    and head: "row_head (d_nextEventQueue s b)" and n: "n \<le> DEVICE_QUEUE_LENGTH"
  shows "fold (drain_row ops b) [0..<n] s = fold (drain_slot ops b) [0..<n * MAX_NEW_EVENTS] s"
  using n
proof (induction n)
  case 0
  show ?case by simp
next
  case (Suc n)
  let ?buf = "d_nextEventQueue s b"
  let ?t = "fold (drain_slot ops b) [0..<n * MAX_NEW_EVENTS] s"
  have le: "n * MAX_NEW_EVENTS \<le> length ?buf" using len Suc.prems by simp
  have same: "d_nextEventQueue ?t b ! k = ?buf ! k" if "n * MAX_NEW_EVENTS \<le> k" "k < length ?buf" for k
    using that le by (simp add: drain_slots [OF le] Let_def nth_append)
  have lt: "length (d_nextEventQueue ?t b) = length ?buf"
    using le by (simp add: drain_slots [OF le] Let_def)
  have bound: "n * MAX_NEW_EVENTS + j < length ?buf" if "j < MAX_NEW_EVENTS" for j
    using that len Suc.prems by (simp add: MAX_NEW_EVENTS_def)
  have "drain_row ops b n ?t =
      fold (drain_slot ops b) [n * MAX_NEW_EVENTS..<Suc n * MAX_NEW_EVENTS] ?t"
  proof (rule drain_row_slots)
    show "n * MAX_NEW_EVENTS < length (d_nextEventQueue ?t b)"
      using bound [of 0] lt by (simp add: MAX_NEW_EVENTS_def)
    fix j
    assume j: "j < MAX_NEW_EVENTS" and v: "ev_valid (d_nextEventQueue ?t b ! (n * MAX_NEW_EVENTS + j))"
    have "ev_valid (?buf ! (n * MAX_NEW_EVENTS))"
      using head Suc.prems j v same [of "n * MAX_NEW_EVENTS + j"] bound [OF j]
      by (auto simp: row_head_def)
    then show "ev_valid (d_nextEventQueue ?t b ! (n * MAX_NEW_EVENTS))"
      using same [of "n * MAX_NEW_EVENTS"] bound [of 0] by (simp add: MAX_NEW_EVENTS_def)
  qed
  moreover have "[0..<Suc n * MAX_NEW_EVENTS] =
      [0..<n * MAX_NEW_EVENTS] @ [n * MAX_NEW_EVENTS..<Suc n * MAX_NEW_EVENTS]"
  proof -
    have "Suc n * MAX_NEW_EVENTS = n * MAX_NEW_EVENTS + MAX_NEW_EVENTS" by simp
    then show ?thesis by (simp only:) (rule upt_add_eq_append, simp)
  qed
  ultimately show ?case using Suc by simp
qed

lemma drain_buffer_eq:
  assumes len: "length (d_nextEventQueue s b) = DEVICE_QUEUE_LENGTH * MAX_NEW_EVENTS"
    and head: "row_head (d_nextEventQueue s b)"
  shows "drain_buffer ops b s =
     set_next_queue b (map clear (d_nextEventQueue s b))
       (fold (schedule_dev ops) (filter ev_valid (d_nextEventQueue s b)) s)"
  unfolding drain_buffer_def drain_rows [OF len head order_refl]
  using drain_slots [of "DEVICE_QUEUE_LENGTH * MAX_NEW_EVENTS" s b ops] len by (simp add: Let_def)


section \<open>Rows are filled from the front\<close>

definition head_inv :: "'q elp \<Rightarrow> bool" where
  "head_inv s \<longleftrightarrow> (\<forall>b. row_head (d_nextEventQueue s b))"

lemma head_inv_cong: "d_nextEventQueue s' = d_nextEventQueue s \<Longrightarrow> head_inv s' = head_inv s"
  by (simp add: head_inv_def)

lemma row_head_clear:
  assumes "length buf = DEVICE_QUEUE_LENGTH * MAX_NEW_EVENTS"
  shows "row_head (map clear buf)"
proof -
  have "\<not> ev_valid (map clear buf ! (r * MAX_NEW_EVENTS + j))"
    if "r < DEVICE_QUEUE_LENGTH" "j < MAX_NEW_EVENTS" for r j
  proof -
    have "r * MAX_NEW_EVENTS + j < length buf"
      using that assms by (simp add: MAX_NEW_EVENTS_def)
    then show ?thesis by simp
  qed
  then show ?thesis by (simp add: row_head_def)
qed

text \<open>\<^verbatim>\<open>d_insert\<close> writes the first free slot of its thread's row.\<close>

lemma row_head_insert:
  assumes len: "length buf = DEVICE_QUEUE_LENGTH * MAX_NEW_EVENTS" and head: "row_head buf"
    and pr: "d_probe buf (tid * MAX_NEW_EVENTS) (tid * MAX_NEW_EVENTS + MAX_NEW_EVENTS) = Some k"
    and v: "ev_valid e"
  shows "row_head (buf[k := e])"
proof -
  note p = d_probe_Some [OF pr]
  have "ev_valid (buf[k := e] ! (r * MAX_NEW_EVENTS))"
    if r: "r < DEVICE_QUEUE_LENGTH" and j: "j < MAX_NEW_EVENTS"
      and vj: "ev_valid (buf[k := e] ! (r * MAX_NEW_EVENTS + j))" for r j
  proof -
    have b: "r * MAX_NEW_EVENTS + j < length buf" using r j len by (simp add: MAX_NEW_EVENTS_def)
    show ?thesis
    proof (cases "k = r * MAX_NEW_EVENTS + j")
      case True
      then have "tid = r" using p j by (simp add: MAX_NEW_EVENTS_def)
      then show ?thesis using True p v b by (cases "j = 0") (auto simp: nth_list_update)
    next
      case False
      then have "ev_valid (buf ! (r * MAX_NEW_EVENTS + j))" using vj by simp
      then have "ev_valid (buf ! (r * MAX_NEW_EVENTS))" using head r j by (auto simp: row_head_def)
      then show ?thesis using b v by (cases "k = r * MAX_NEW_EVENTS") auto
    qed
  qed
  then show ?thesis by (simp add: row_head_def)
qed

lemma shape_len:
  "buf_inv s \<Longrightarrow> length (d_nextEventQueue s b) = DEVICE_QUEUE_LENGTH * MAX_NEW_EVENTS"
  by (simp add: buf_inv_def shape_inv_def)

lemma drain_ready_eq:
  assumes "length (d_nextEventQueue s b) = DEVICE_QUEUE_LENGTH * MAX_NEW_EVENTS"
    and "row_head (d_nextEventQueue s b)"
  shows "drain_ready ops b s =
     (if d_bufrdy s b then
        (set_next_queue b (map clear (d_nextEventQueue s b))
          (fold (schedule_dev ops) (filter ev_valid (d_nextEventQueue s b)) s))
            \<lparr>d_bufrdy := (d_bufrdy s)(b := False)\<rparr>
      else s)"
  by (simp add: drain_ready_def drain_buffer_eq [OF assms])


text \<open>The events \<^verbatim>\<open>ELP_ScheduleDevEvent\<close> finds: the valid ones of the ready buffers.\<close>

definition ready_events :: "'q elp \<Rightarrow> DeviceEvent list" where
  "ready_events s =
     (if d_bufrdy s Buf1 then filter ev_valid (d_nextEventQueue s Buf1) else []) @
     (if d_bufrdy s Buf2 then filter ev_valid (d_nextEventQueue s Buf2) else [])"

text \<open>The scheduler side of the state: what scheduling an event reads and writes.\<close>

definition sched_side :: "'q elp \<Rightarrow> _" where
  "sched_side s = (m_events s, d_uid s, m_unscheduledEvents s)"

lemma sched_side_schedule:
  assumes "sched_side s = sched_side t"
  shows "sched_side (fold (schedule_dev ops) es s) = sched_side (fold (schedule_dev ops) es t)"
  using assms
proof (induction es arbitrary: s t)
  case Nil
  then show ?case by simp
next
  case (Cons e es)
  have "sched_side (schedule_dev ops e s) = sched_side (schedule_dev ops e t)"
    using Cons.prems by (simp add: sched_side_def schedule_dev_def ELP_Schedule_def insert_event_def Let_def)
  from Cons.IH [OF this] show ?case by simp
qed

lemma sched_side_frames:
  "sched_side (s\<lparr>d_bufrdy := f\<rparr>) = sched_side s"
  "sched_side (set_next_queue b q s) = sched_side s"
  "sched_side (point_dev b s) = sched_side s"
  by (simp_all add: sched_side_def set_next_queue_def point_dev_def)

lemma drain_ready_sched_side:
  assumes "length (d_nextEventQueue s b) = DEVICE_QUEUE_LENGTH * MAX_NEW_EVENTS"
    and "row_head (d_nextEventQueue s b)"
  shows "sched_side (drain_ready ops b s) =
     sched_side (fold (schedule_dev ops) (if d_bufrdy s b then filter ev_valid (d_nextEventQueue s b) else []) s)"
    and "d_nextEventQueue (drain_ready ops b s) =
      (if d_bufrdy s b then (d_nextEventQueue s)(b := map clear (d_nextEventQueue s b)) else d_nextEventQueue s)"
    and "d_bufrdy (drain_ready ops b s) = (d_bufrdy s)(b := False)"
  by (auto simp: drain_ready_eq [OF assms] sched_side_frames fun_eq_iff)

lemma ScheduleDevEvent_spec:
  assumes len: "\<And>b. length (d_nextEventQueue s b) = DEVICE_QUEUE_LENGTH * MAX_NEW_EVENTS"
    and head: "head_inv s"
  shows "sched_side (ELP_ScheduleDevEvent ops s) = sched_side (fold (schedule_dev ops) (ready_events s) s)"
    and "d_nextEventQueue (ELP_ScheduleDevEvent ops s) b =
      (if d_bufrdy s b then map clear (d_nextEventQueue s b) else d_nextEventQueue s b)"
    and "\<not> d_bufrdy (ELP_ScheduleDevEvent ops s) b"
proof -
  have hd: "row_head (d_nextEventQueue s b)" for b using head by (simp add: head_inv_def)
  have pd: "d_nextEventQueue (point_dev b t) = d_nextEventQueue t" "d_bufrdy (point_dev b t) = d_bufrdy t"
    for b and t :: "'a elp"
    by (simp_all add: point_dev_def)
  define r where "r = (if d_bufrdy s Buf1 then Buf1 else Buf2)"
  define t where "t = drain_ready ops r (point_dev r s)"
  define u where "u = drain_ready ops (other r) (point_dev (other r) t)"
  let ?ev = "\<lambda>b. if d_bufrdy s b then filter ev_valid (d_nextEventQueue s b) else []"
  have T: "sched_side t = sched_side (fold (schedule_dev ops) (?ev r) s)"
    "d_nextEventQueue t = (if d_bufrdy s r then (d_nextEventQueue s)(r := map clear (d_nextEventQueue s r))
       else d_nextEventQueue s)" "d_bufrdy t = (d_bufrdy s)(r := False)"
    unfolding t_def using drain_ready_sched_side [of "point_dev r s" r ops] len hd
    by (auto simp: pd intro!: sched_side_schedule sched_side_frames)
  have o: "d_nextEventQueue t (other r) = d_nextEventQueue s (other r)" "d_bufrdy t (other r) = d_bufrdy s (other r)"
    by (simp_all add: T)
  have U: "sched_side u = sched_side (fold (schedule_dev ops) (?ev (other r)) t)"
    "d_nextEventQueue u = (if d_bufrdy s (other r)
       then (d_nextEventQueue t)(other r := map clear (d_nextEventQueue s (other r)))
       else d_nextEventQueue t)" "d_bufrdy u = (d_bufrdy t)(other r := False)"
    unfolding u_def using drain_ready_sched_side [of "point_dev (other r) t" "other r" ops] len hd o
    by (auto simp: pd intro!: sched_side_schedule sched_side_frames)
  have su: "sched_side u = sched_side (fold (schedule_dev ops) (?ev r @ ?ev (other r)) s)"
    using U(1) sched_side_schedule [OF T(1), of ops "?ev (other r)"] by simp
  have evs: "?ev r @ ?ev (other r) = ready_events s"
    by (auto simp: r_def ready_events_def)
  have eq: "ELP_ScheduleDevEvent ops s = (if \<not> d_bufrdy s Buf1 \<and> \<not> d_bufrdy s Buf2 then s else u)"
    by (simp add: ELP_ScheduleDevEvent_eq u_def t_def r_def Let_def)
  show "sched_side (ELP_ScheduleDevEvent ops s) = sched_side (fold (schedule_dev ops) (ready_events s) s)"
    using su unfolding evs eq by (auto simp: ready_events_def)
  show "d_nextEventQueue (ELP_ScheduleDevEvent ops s) b =
      (if d_bufrdy s b then map clear (d_nextEventQueue s b) else d_nextEventQueue s b)"
    by (cases b; cases r) (auto simp: eq U T)
  show "\<not> d_bufrdy (ELP_ScheduleDevEvent ops s) b"
    by (cases b; cases r) (auto simp: eq U T)
qed

end
