(* ===== verification/Elp_Props.thy ===== *)
theory Elp_Props
  imports Elp_Drain
begin

text \<open>
  The properties of the event-level-parallel simulator over its reachable states.
\<close>

section \<open>Reachable states keep rows filled from the front\<close>

lemma next_queue_ChangeHostQueue:
  "ChangeHostQueue s = Some s' \<Longrightarrow> d_nextEventQueue s' = d_nextEventQueue s \<and> h_safeEventQueue s' = h_safeEventQueue s"
  by (auto simp: ChangeHostQueue_def ChangeDevQueue_def Let_def split: if_splits)

lemma slot_for_frame:
  assumes "slot_for type s = Some s'"
  shows "d_nextEventQueue s' = d_nextEventQueue s" "h_safeEventQueue s' = h_safeEventQueue s"
  using assms by (auto simp: slot_for_def take_slot_def split: if_splits dest!: next_queue_ChangeHostQueue)

lemma pop_event_frame [simp]:
  "d_nextEventQueue (pop_event ops s) = d_nextEventQueue s"
  "h_safeEventQueue (pop_event ops s) = h_safeEventQueue s"
  by (simp_all add: pop_event_def split: prod.split)

lemma next_queue_ProcessOneEvent:
  assumes "ProcessOneEvent ops invoke s = Some s'"
  shows "d_nextEventQueue s' = d_nextEventQueue s"
proof -
  have "d_nextEventQueue (buffers t) = d_nextEventQueue t" for t :: "'a elp"
    by (simp add: buffers_def)
  with buffers_ProcessOneEvent [OF assms] show ?thesis by metis
qed

lemma next_queue_ELP_ProcessOneEvent:
  assumes "ELP_ProcessOneEvent ops s = Some s'"
  shows "d_nextEventQueue s' = d_nextEventQueue s"
  using assms unfolding ELP_ProcessOneEvent_def Let_def h_insert_sort_eq
  by (auto simp: bind_eq_Some_conv take_slot_def next_warp_def write_slot_def
      split: event_impl.splits if_splits prod.splits dest!: next_queue_ChangeHostQueue)

lemma next_queue_is_safe [simp]: "d_nextEventQueue (snd (is_safe e s)) = d_nextEventQueue s"
  by (simp add: is_safe_def Let_def)

lemma next_queue_runsk_iter:
  assumes "runsk_iter ops invoke s = Some s'"
  shows "d_nextEventQueue s' = d_nextEventQueue (ELP_ScheduleDevEvent ops s)"
proof -
  let ?s1 = "ELP_ScheduleDevEvent ops s"
  obtain safe s2 where sf: "is_safe (sch_PeekNext ops (m_events ?s1)) ?s1 = (safe, s2)"
    by (cases "is_safe (sch_PeekNext ops (m_events ?s1)) ?s1")
  have "d_nextEventQueue s2 = d_nextEventQueue ?s1"
    using next_queue_is_safe [of "sch_PeekNext ops (m_events ?s1)" ?s1] sf by simp
  with assms sf show ?thesis
    by (auto simp: runsk_iter_def Let_def
        dest: next_queue_ProcessOneEvent next_queue_ELP_ProcessOneEvent next_queue_ChangeHostQueue split: if_splits)
qed

lemma head_inv_ScheduleDevEvent:
  assumes "buf_inv s" and "head_inv s"
  shows "head_inv (ELP_ScheduleDevEvent ops s)"
  using assms ScheduleDevEvent_spec(2) [OF shape_len [OF assms(1)] assms(2)]
  by (simp add: head_inv_def row_head_clear shape_len)

lemma head_inv_kernel_step:
  assumes step: "kernel_step dev_exec s s'" and inv: "buf_inv s" "head_inv s"
  shows "head_inv s'"
  using step
proof (cases rule: kernel_step.cases)
  case (kernel_insert i c calls t)
  from kernel_insert(3) obtain k where
    k: "d_probe (d_nextEventQueue s (d_curDevBuf s)) (i mod totalThreads s * MAX_NEW_EVENTS)
          (i mod totalThreads s * MAX_NEW_EVENTS + MAX_NEW_EVENTS) = Some k"
    and t: "t = set_next (d_curDevBuf s) k (new_event c) s"
    by (auto simp: d_insert_try_eq split: option.splits)
  have "row_head (d_nextEventQueue s (d_curDevBuf s))" using inv by (simp add: head_inv_def)
  from row_head_insert [OF shape_len [OF inv(1)] this k, of "new_event c"] inv(2)
  show ?thesis unfolding kernel_insert(1) t by (simp add: head_inv_def set_next_def new_event_def)
next
  case (kernel_redo i c calls)
  then have "s' = ChangeDevQueue s" by (auto simp: d_insert_try_eq split: option.splits)
  with inv show ?thesis by (simp add: head_inv_def ChangeDevQueue_def Let_def)
qed (use inv in \<open>simp_all add: head_inv_def retire_def Let_def\<close>)

lemma head_inv_step:
  assumes step: "elp_step ops invoke dev_exec s s'" and inv: "buf_inv s" "head_inv s"
  shows "head_inv s'"
  using step
proof (cases rule: elp_step.cases)
  case host_iter
  then show ?thesis
    using head_inv_ScheduleDevEvent [OF inv] next_queue_runsk_iter head_inv_cong by blast
next
  case other_thread
  with inv show ?thesis by (simp add: head_inv_def ScheduleWithContext_other_thread_def)
next
  case kernel
  from head_inv_kernel_step [OF this inv] show ?thesis .
qed

definition elp_ok :: "('q \<Rightarrow> SchedEvent multiset) \<Rightarrow> 'q elp \<Rightarrow> bool" where
  "elp_ok q_abs s \<longleftrightarrow> elp_inv q_abs s \<and> head_inv s"

lemma elp_ok_reachable:
  assumes L: "sched_laws ops q_abs" and u: "user_ok invoke" and d: "dev_ok dev_exec"
    and q: "events_ok (q_abs q)"
    and reach: "elp_reachable ops invoke dev_exec (ELP_Init ops q n) s"
  shows "elp_ok q_abs s"
  using reach
proof (induction rule: elp_reachable.induct)
  case reach_start
  have "head_inv (ELP_Init ops q n)"
    by (simp add: head_inv_def row_head_def ELP_Init_def no_event_def MAX_NEW_EVENTS_def)
  with elp_inv_ELP_Init [where q_abs = q_abs, OF L, of q n] q show ?case by (simp add: elp_ok_def)
next
  case (reach_step s s')
  then show ?case
    using elp_inv_step [OF L u d reach_step.hyps(2)] head_inv_step [OF reach_step.hyps(2)]
    by (simp add: elp_ok_def)
qed

section \<open>Dispatch\<close>

lemma dispatch_bound:
  assumes "buf_inv s" and "fst (is_safe nxt (ELP_ScheduleDevEvent ops s))"
    and "i < DEVICE_QUEUE_LENGTH" and "ev_valid (h_safeEventQueue s b ! i)"
    and "ev_lookahead (h_safeEventQueue s b ! i) \<noteq> UINT64_MAX"
  shows "se_ts nxt < ev_ts (h_safeEventQueue s b ! i) + ev_lookahead (h_safeEventQueue s b ! i)"
proof -
  have "se_ts nxt < safe_ts s"
    using assms(2) by (simp add: is_safe_def Let_def split: if_splits)
  also have "\<dots> \<le> d_safe_tss s b" using assms(1) by (simp add: buf_inv_def safe_inv_def)
  also have "\<dots> \<le> ev_ts (h_safeEventQueue s b ! i) + ev_lookahead (h_safeEventQueue s b ! i)"
    using assms by (simp add: buf_inv_def safe_inv_def bound_ok_def)
  finally show ?thesis .
qed

lemma slot_taken_free:
  "slot_taken type s \<Longrightarrow> h_insertIndex s < DEVICE_QUEUE_LENGTH \<Longrightarrow>
   \<not> ev_valid (h_safeEventQueue s (h_curHostBuf s) ! h_insertIndex s)"
  unfolding slot_taken_def by blast

lemma insert_writes_free_slot:
  assumes inv: "buf_inv s" and e: "fst (sch_RemoveNext ops (m_events s)) = e" "se_impl e = GpuImpl h"
    and ty: "dev_type (he_type h)" and res: "ELP_ProcessOneEvent ops s = Some s'"
  shows "\<exists>b k. k < DEVICE_QUEUE_LENGTH \<and> \<not> ev_valid (h_safeEventQueue s b ! k) \<and>
     h_safeEventQueue s' = (h_safeEventQueue s)(b := (h_safeEventQueue s b)
       [k := host_event (he_obj h) (se_ts e) (k_context (se_key e)) (se_uid e) (nat (he_type h))
               (he_lookahead h) (he_payload h)])"
proof -
  have inv': "buf_inv (pop_event ops s)" using inv buf_inv_frame [OF buffers_pop_event] by blast
  obtain u where u: "slot_for (nat (he_type h)) (pop_event ops s) = Some u"
    and ins: "h_insert_sort (he_obj h) (se_ts e) (k_context (se_key e)) (se_uid e)
       (nat (he_type h)) (he_lookahead h) (he_payload h) u = Some s'"
    using res unfolding ELP_ProcessOneEvent_eq [OF e ty] by (auto simp: bind_eq_Some_conv)
  note tk = slot_for_taken [OF inv' dev_type_nat(1) [OF ty] u]
  have "h_safeEventQueue u = h_safeEventQueue s" using slot_for_frame [OF u] by simp
  moreover have "\<not> ev_valid (h_safeEventQueue u (h_curHostBuf u) ! h_insertIndex u)"
    using tk(1,2) by (rule slot_taken_free)
  moreover have "h_safeEventQueue s' = (h_safeEventQueue u)(h_curHostBuf u :=
      (h_safeEventQueue u (h_curHostBuf u))[h_insertIndex u :=
        host_event (he_obj h) (se_ts e) (k_context (se_key e)) (se_uid e) (nat (he_type h))
               (he_lookahead h) (he_payload h)])"
    using ins by (auto simp: h_insert_sort_eq next_warp_def write_slot_def split: if_splits)
  ultimately show ?thesis using tk(2) by metis
qed


section \<open>Progress\<close>

lemma ELP_ProcessOneEvent_returns:
  assumes inv: "buf_inv s" and e: "fst (sch_RemoveNext ops (m_events s)) = e" "se_impl e = GpuImpl h"
    and ty: "dev_type (he_type h)" and idle: "kernel_idle s"
  shows "\<exists>s'. ELP_ProcessOneEvent ops s = Some s'"
proof -
  have inv': "buf_inv (pop_event ops s)" using inv buf_inv_frame [OF buffers_pop_event] by blast
  have "kernel_idle (pop_event ops s)"
    using idle by (simp add: kernel_idle_def pop_event_def split: prod.split)
  then have "\<exists>u. slot_for (nat (he_type h)) (pop_event ops s) = Some u"
    by (simp add: slot_for_def ChangeHostQueue_take_slot) (simp add: ChangeHostQueue_def Let_def)
  then obtain u where u: "slot_for (nat (he_type h)) (pop_event ops s) = Some u" by blast
  have "\<not> h_bufrdy u (h_curHostBufRdy u)"
    using slot_for_taken(1) [OF inv' dev_type_nat(1) [OF ty] u] by (simp add: slot_taken_def ptr_inv_def)
  then show ?thesis
    unfolding ELP_ProcessOneEvent_eq [OF e ty] u by (simp add: h_insert_sort_eq)
qed

text \<open>
  The events the device asked for keep ids of the device's range as long as the 32-bit counter
  \<^verbatim>\<open>d_uid\<close> has not wrapped.
\<close>

definition device_ids_ok :: "SchedEvent multiset \<Rightarrow> bool" where
  "device_ids_ok M \<longleftrightarrow>
     (\<forall>e\<in>#M. case se_impl e of CpuImpl p \<Rightarrow> True | GpuImpl h \<Rightarrow> DEVICE_EV_ID_OFFSET \<le> se_uid e)"

lemma runsk_iter_returns:
  assumes L: "sched_laws ops q_abs" and inv: "elp_inv q_abs s" and ne: "q_abs (m_events s) \<noteq> {#}"
    and idle: "kernel_idle s" and ids: "device_ids_ok (q_abs (m_events (ELP_ScheduleDevEvent ops s)))"
  shows "\<exists>s'. runsk_iter ops invoke s = Some s'"
proof -
  define s1 where "s1 = ELP_ScheduleDevEvent ops s"
  define nxt where "nxt = sch_PeekNext ops (m_events s1)"
  obtain safe s2 where sf: "is_safe nxt s1 = (safe, s2)" by (cases "is_safe nxt s1")
  have ne1: "q_abs (m_events s1) \<noteq> {#}" using ScheduleDevEvent_grows [OF L, of s] ne by (auto simp: s1_def)
  have inv1: "elp_inv q_abs s1" unfolding s1_def by (rule elp_inv_ScheduleDevEvent [OF L inv])
  have s2: "buf_inv s2" "m_events s2 = m_events s1" "kernel_idle s2"
    using buf_inv_is_safe [of s1 nxt] inv1 is_safe_events [of nxt s1] sf idle
    by (auto simp: kernel_idle_def s1_def is_safe_def Let_def split: if_splits)
  have ok: "event_ok nxt" using sched_PeekNext [OF L ne1] inv1 by (simp add: nxt_def events_ok_def)
  have fst: "fst (sch_RemoveNext ops (m_events s2)) = nxt" using sched_fst [OF L ne1] s2 by (simp add: nxt_def)
  have ch: "\<exists>s'. ChangeHostQueue t = Some s'" if "kernel_idle t" for t :: "'a elp"
    using that by (simp add: ChangeHostQueue_def Let_def)
  have gpu: "\<exists>s'. ELP_ProcessOneEvent ops s2 = Some s'" if u: "se_uid nxt \<ge> DEVICE_EV_ID_OFFSET"
  proof (cases "se_impl nxt")
    case (CpuImpl p)
    with ok u show ?thesis by (simp add: event_ok_def)
  next
    case (GpuImpl h)
    with ok have "dev_type (he_type h)" by (simp add: event_ok_def)
    from ELP_ProcessOneEvent_returns [OF s2(1) fst GpuImpl this s2(3)] show ?thesis .
  qed
  have cpu: "\<exists>s'. ProcessOneEvent ops invoke s2 = Some s'" if u: "\<not> se_uid nxt \<ge> DEVICE_EV_ID_OFFSET"
  proof -
    have "nxt \<in># q_abs (m_events s1)" using sched_PeekNext [OF L ne1] by (simp add: nxt_def)
    with ids u have "\<exists>p. se_impl nxt = CpuImpl p"
      by (cases "se_impl nxt") (auto simp: device_ids_ok_def s1_def)
    with fst show ?thesis by (auto simp: ProcessOneEvent_def Let_def split: prod.split)
  qed
  have ki: "kernel_idle (s2\<lparr>safe_ts := x\<rparr>)" for x using s2(3) by (simp add: kernel_idle_def)
  show ?thesis
    unfolding runsk_iter_def Let_def s1_def [symmetric] nxt_def [symmetric] sf prod.case
    using gpu cpu ch [OF ki] by auto
qed

lemma kernel_moves:
  assumes busy: "\<not> kernel_idle s"
    and tot: "\<And>e. ev_valid e \<Longrightarrow> \<exists>cs. dev_exec e cs"
  shows "\<exists>s'. kernel_step dev_exec s s'"
proof (cases "k_active s")
  case (Cons a as)
  obtain i cs where a: "(i, cs) \<in> set (k_active s)" using Cons by (cases a) auto
  show ?thesis
  proof (cases cs)
    case Nil
    with a show ?thesis by (auto intro: kernel_step.kernel_retire)
  next
    case (Cons c calls)
    obtain ok t where "d_insert_try (i mod totalThreads s) c s = (ok, t)"
      by (cases "d_insert_try (i mod totalThreads s) c s")
    then show ?thesis using a Cons
      by (cases ok) (auto intro: kernel_step.kernel_insert kernel_step.kernel_redo)
  qed
next
  case Nil
  with busy have ne: "k_todo s \<noteq> []" by (simp add: kernel_idle_def)
  define i where "i = Min (set (k_todo s))"
  have "thread_next s i"
    using ne Nil by (simp add: thread_next_def i_def)
  then show ?thesis
    using tot [of "h_safeEventQueue s (k_buf s) ! i"]
    by (cases "ev_valid (h_safeEventQueue s (k_buf s) ! i)")
       (auto intro: kernel_step.kernel_start kernel_step.kernel_skip)
qed

text \<open>
  The work a kernel has left: indices to visit, then calls and retirements of the running threads.
\<close>

definition kernel_work :: "'q elp \<Rightarrow> nat \<times> nat" where
  "kernel_work s = (length (k_todo s), (\<Sum>(i, cs)\<leftarrow>k_active s. Suc (length cs)))"

lemma sum_list_remove1:
  "x \<in> set xs \<Longrightarrow> sum_list (map f (remove1 x xs)) + f x = sum_list (map f xs)" for f :: "_ \<Rightarrow> nat"
  by (induction xs) auto

lemma length_remove1_less: "x \<in> set xs \<Longrightarrow> length (remove1 x xs) < length xs"
  using length_pos_if_in_set by (force simp: length_remove1)

lemma kernel_step_work:
  assumes step: "kernel_step dev_exec s s'" and new: "s' \<noteq> ChangeDevQueue s"
  shows "(kernel_work s', kernel_work s) \<in> less_than <*lex*> less_than"
  using step
proof (cases rule: kernel_step.cases)
  case (kernel_start i calls)
  then show ?thesis by (simp add: kernel_work_def thread_next_def length_remove1_less)
next
  case (kernel_skip i)
  then show ?thesis by (simp add: kernel_work_def thread_next_def length_remove1_less)
next
  case (kernel_insert i c calls t)
  have t: "k_todo t = k_todo s" "k_active t = k_active s"
    using kernel_insert(3) by (auto simp: d_insert_try_eq set_next_def split: option.splits)
  have "sum_list (map (\<lambda>(i, cs). Suc (length cs)) (remove1 (i, c # calls) (k_active s))) + Suc (Suc (length calls))
      = sum_list (map (\<lambda>(i, cs). Suc (length cs)) (k_active s))"
    using sum_list_remove1 [OF kernel_insert(2), of "\<lambda>(i, cs). Suc (length cs)"] by simp
  with t show ?thesis unfolding kernel_insert(1) by (simp add: kernel_work_def)
next
  case (kernel_redo i c calls)
  then have "s' = ChangeDevQueue s" by (auto simp: d_insert_try_eq split: option.splits)
  with new show ?thesis by blast
next
  case (kernel_retire i)
  have "k_todo (retire i s) = k_todo s" by (simp add: retire_def Let_def)
  with sum_list_remove1 [OF kernel_retire(2), of "\<lambda>(i, cs). Suc (length cs)"]
  show ?thesis unfolding kernel_retire(1) by (simp add: kernel_work_def)
qed

section \<open>A scheduler that satisfies the contract\<close>

text \<open>The contract of the scheduler has a model: the events in a list, inserted in key order.\<close>

fun insert_key_list :: "SchedEvent \<Rightarrow> SchedEvent list \<Rightarrow> SchedEvent list" where
  "insert_key_list e [] = [e]"
| "insert_key_list e (x # xs) =
     (if key_le (se_key x) (se_key e) then x # insert_key_list e xs else e # x # xs)"

definition min_event :: "SchedEvent list \<Rightarrow> SchedEvent" where
  "min_event q = foldr (\<lambda>x m. if key_le (se_key x) (se_key m) then x else m) (tl q) (hd q)"

definition list_sched :: "SchedEvent list sched_ops" where
  "list_sched =
     \<lparr>uid_INVALID = 0, uid_DESTROY = 2, uid_VALID = 4,
      sch_Insert = insert_key_list, sch_IsEmpty = (\<lambda>q. q = []),
      sch_PeekNext = min_event,
      sch_RemoveNext = (\<lambda>q. (min_event q, remove1 (min_event q) q)),
      sch_Remove = remove1\<rparr>"

lemma key_le_trans: "key_le a b \<Longrightarrow> key_le b c \<Longrightarrow> key_le a c"
  by (auto simp: key_le_def)

lemma key_le_total: "key_le a b \<or> key_le b a"
  by (auto simp: key_le_def)

lemma mset_insert_key_list: "mset (insert_key_list e q) = add_mset e (mset q)"
  by (induction q) auto

lemma key_le_refl: "key_le a a"
  by (simp add: key_le_def)

lemma min_event_min:
  "foldr (\<lambda>x m. if key_le (se_key x) (se_key m) then x else m) xs y \<in> set (y # xs) \<and>
   (\<forall>e\<in>set (y # xs).
      key_le (se_key (foldr (\<lambda>x m. if key_le (se_key x) (se_key m) then x else m) xs y)) (se_key e))"
proof (induction xs)
  case Nil
  show ?case by (simp add: key_le_refl)
next
  case (Cons x xs)
  define m where "m = foldr (\<lambda>x m. if key_le (se_key x) (se_key m) then x else m) xs y"
  have m: "m \<in> set (y # xs)" "\<And>e. e \<in> set (y # xs) \<Longrightarrow> key_le (se_key m) (se_key e)"
    using Cons.IH unfolding m_def [symmetric] by blast+
  show ?case
  proof (cases "key_le (se_key x) (se_key m)")
    case True
    then have "key_le (se_key x) (se_key e)" if "e \<in> set (y # xs)" for e
      using m(2) [OF that] key_le_trans by blast
    with True show ?thesis
      by (simp add: m_def [symmetric] key_le_refl)
  next
    case False
    then have "key_le (se_key m) (se_key x)" using key_le_total by blast
    with False m show ?thesis
      by (auto simp: m_def [symmetric])
  qed
qed

lemma list_sched_laws: "sched_laws list_sched mset"
proof -
  have "min_event q \<in> set q \<and> (\<forall>e\<in>set q. key_le (se_key (min_event q)) (se_key e))" if "q \<noteq> []" for q
    using that min_event_min [of "tl q" "hd q"] by (simp add: min_event_def)
  then show ?thesis
    by (simp add: sched_laws_def list_sched_def mset_insert_key_list DEVICE_EV_ID_OFFSET_def)
qed

end
