(* ===== verification/Elp_Claims.thy ===== *)
theory Elp_Claims
  imports Elp_Props
begin

text \<open>
  The properties of the event-level-parallel simulator, each with a witness on a concrete simulator
  that uses a list as its scheduler.
\<close>

section \<open>A concrete run\<close>

definition demo_event :: "u64 \<Rightarrow> u32 \<Rightarrow> SchedEvent" where
  "demo_event t u = \<lparr>se_impl = GpuImpl \<lparr>he_obj = 1, he_type = 0, he_lookahead = 5, he_payload = 2\<rparr>,
     se_key = \<lparr>k_ts = t, k_uid = u, k_context = 7\<rparr>\<rparr>"

definition demo0 :: "SchedEvent list elp" where
  "demo0 = ELP_Init list_sched [demo_event 10 1000000, demo_event 12 1000001] 1"

definition demo_user :: "SchedEvent list user_code" where
  "demo_user p s = []"

definition demo_dev :: "DeviceEvent \<Rightarrow> DevCall list \<Rightarrow> bool" where
  "demo_dev e cs \<longleftrightarrow> cs = []"

definition demo_elp :: "SchedEvent list elp" where
  "demo_elp = the (runsk_iter list_sched demo_user demo0)"

lemma demo_ok:
  "user_ok demo_user" "dev_ok demo_dev"
  "events_ok (mset [demo_event 10 1000000, demo_event 12 1000001])"
  by (simp_all add: user_ok_def demo_user_def dev_ok_def demo_dev_def events_ok_def event_ok_def
      demo_event_def dev_type_def)

lemma queue_length_pos: "DEVICE_QUEUE_LENGTH \<noteq> 0" "0 < DEVICE_QUEUE_LENGTH"
  by (simp_all add: DEVICE_QUEUE_LENGTH_def)

lemma demo0_drained: "ELP_ScheduleDevEvent list_sched demo0 = demo0"
  by (simp add: ELP_ScheduleDevEvent_def demo0_def ELP_Init_def)

lemma demo_event_sel [simp]:
  "se_impl (demo_event t u) = GpuImpl \<lparr>he_obj = 1, he_type = 0, he_lookahead = 5, he_payload = 2\<rparr>"
  "se_key (demo_event t u) = \<lparr>k_ts = t, k_uid = u, k_context = 7\<rparr>"
  "demo_event t u = demo_event t' u' \<longleftrightarrow> t = t' \<and> u = u'"
  by (simp_all add: demo_event_def)

lemma demo_min [simp]:
  "min_event [demo_event 10 1000000, demo_event 12 1000001] = demo_event 10 1000000"
  "min_event [demo_event 12 1000001] = demo_event 12 1000001"
  by (simp_all add: min_event_def key_le_def)

lemma list_sched_sel [simp]:
  "sch_PeekNext list_sched = min_event" "sch_RemoveNext list_sched q = (min_event q, remove1 (min_event q) q)"
  "sch_IsEmpty list_sched q = (q = [])" "sch_Insert list_sched = insert_key_list"
  "uid_VALID list_sched = 4" "uid_INVALID list_sched = 0" "uid_DESTROY list_sched = 2"
  by (simp_all add: list_sched_def)

lemmas demo_defs = demo0_def ELP_Init_def
  ev_lookahead_of_def DEVICE_EV_ID_OFFSET_def EVENT_KINDS_def take_slot_def h_insert_sort_def
  queue_length_pos lower_safe_ts_def WARP_SIZE_def

lemma demo0_sel [simp]: "m_events demo0 = [demo_event 10 1000000, demo_event 12 1000001]"
  "safe_ts demo0 = UINT64_MAX"
  by (simp_all add: demo0_def ELP_Init_def)

lemma demo1_eq:
  "runsk_iter list_sched demo_user demo0 = ELP_ProcessOneEvent list_sched (demo0\<lparr>safe_ts := 15\<rparr>)"
  by (simp add: runsk_iter_def demo0_drained Let_def is_safe_def ev_lookahead_of_def DEVICE_EV_ID_OFFSET_def)

lemma demo1_some:
  "ELP_ProcessOneEvent list_sched (demo0\<lparr>safe_ts := 15\<rparr>) = Some demo_elp"
  unfolding demo_elp_def demo1_eq
  by (simp add: ELP_ProcessOneEvent_def Let_def) (simp add: demo_defs Let_def)

lemma demo1_fields:
  "m_events demo_elp = [demo_event 12 1000001]"
  "safe_ts demo_elp = 15" "d_bufrdy demo_elp = (\<lambda>_. False)"
  "h_safeEventQueue demo_elp Buf1 = (replicate DEVICE_QUEUE_LENGTH no_event)[0 := host_event 1 10 7 1000000 0 5 2]"
  unfolding demo_elp_def demo1_eq
  by (simp_all add: ELP_ProcessOneEvent_def Let_def) (simp_all add: demo_defs host_event_def Let_def)

lemma demo1_idle: "kernel_idle demo_elp"
  unfolding demo_elp_def demo1_eq kernel_idle_def
  by (simp add: ELP_ProcessOneEvent_def Let_def) (simp add: demo_defs Let_def)

lemma demo1_reachable:
  "elp_reachable list_sched demo_user demo_dev
     (ELP_Init list_sched [demo_event 10 1000000, demo_event 12 1000001] 1) demo_elp"
proof -
  have "elp_step list_sched demo_user demo_dev demo0 demo_elp"
    by (rule elp_step.host_iter [OF _ _ demo1_eq [unfolded demo1_some]]) (simp_all add: demo0_def ELP_Init_def)
  then show ?thesis unfolding demo0_def by (rule elp_reachable.reach_step [OF elp_reachable.reach_start])
qed

section \<open>Properties\<close>

lemma reachable_ok:
  assumes "sched_laws ops q_abs" and "user_ok invoke" and "dev_ok dev_exec" and "events_ok (q_abs q)"
    and "elp_reachable ops invoke dev_exec (ELP_Init ops q n) s"
  shows "buf_inv s" "elp_inv q_abs s" "head_inv s"
    "\<And>b. length (d_nextEventQueue s b) = DEVICE_QUEUE_LENGTH * MAX_NEW_EVENTS"
  using elp_ok_reachable [OF assms] shape_len by (auto simp: elp_ok_def)

text \<open>
  C1: the dispatch of an event is conservative.  In every reachable state, when \<^verbatim>\<open>is_safe\<close> lets the
  host process an event, its time stamp lies strictly below time stamp plus lookahead of every event
  with a lookahead that the device has not retired yet, in either safe buffer: no outstanding
  device event can still cause an event earlier than the one processed.
\<close>

theorem dispatch_is_conservative:
  assumes "sched_laws ops q_abs" and "user_ok invoke" and "dev_ok dev_exec" and "events_ok (q_abs q)"
    and "elp_reachable ops invoke dev_exec (ELP_Init ops q n) s"
    and "fst (is_safe nxt (ELP_ScheduleDevEvent ops s))"
    and "e \<in> set (h_safeEventQueue s b)" and "ev_valid e" and "ev_lookahead e \<noteq> UINT64_MAX"
  shows "se_ts nxt < ev_ts e + ev_lookahead e"
proof -
  note ok = reachable_ok [OF assms(1-5)]
  obtain i where "i < DEVICE_QUEUE_LENGTH" "h_safeEventQueue s b ! i = e"
    using ok(1) assms(7) by (auto simp: buf_inv_def shape_inv_def in_set_conv_nth)
  with dispatch_bound [OF ok(1) assms(6), of i b] assms(8,9) show ?thesis by simp
qed

lemma dispatch_is_conservative_witness:
  "se_ts (demo_event 12 1000001) < ev_ts (host_event 1 10 7 1000000 0 5 2)
     + ev_lookahead (host_event 1 10 7 1000000 0 5 2)"
proof (rule dispatch_is_conservative [OF list_sched_laws demo_ok demo1_reachable])
  show "fst (is_safe (demo_event 12 1000001) (ELP_ScheduleDevEvent list_sched demo_elp))"
    by (simp add: ELP_ScheduleDevEvent_def demo1_fields is_safe_def Let_def)
  show "host_event 1 10 7 1000000 0 5 2 \<in> set (h_safeEventQueue demo_elp Buf1)"
    by (simp add: demo1_fields set_update_memI queue_length_pos)
qed (simp_all add: host_event_def)

text \<open>
  Handing an event to the device loses none.  In every reachable state, \<^verbatim>\<open>ELP_ProcessOneEvent\<close>
  on a device event writes that event into exactly one slot of a safe buffer, inside the
  buffer, and the slot held no pending event; all other slots of both buffers are unchanged.
\<close>

theorem process_device_event_uses_free_slot:
  assumes "sched_laws ops q_abs" and "user_ok invoke" and "dev_ok dev_exec" and "events_ok (q_abs q)"
    and "elp_reachable ops invoke dev_exec (ELP_Init ops q n) s"
    and "q_abs (m_events s) \<noteq> {#}" and "sch_PeekNext ops (m_events s) = e" and "se_impl e = GpuImpl h"
    and "ELP_ProcessOneEvent ops s = Some s'"
  shows "\<exists>b k. k < DEVICE_QUEUE_LENGTH \<and> \<not> ev_valid (h_safeEventQueue s b ! k) \<and>
     h_safeEventQueue s' = (h_safeEventQueue s)(b := (h_safeEventQueue s b)
       [k := host_event (he_obj h) (se_ts e) (k_context (se_key e)) (se_uid e) (nat (he_type h))
               (he_lookahead h) (he_payload h)])"
proof (rule insert_writes_free_slot [OF reachable_ok(1) [OF assms(1-5)] _ assms(8) _ assms(9)])
  show "fst (sch_RemoveNext ops (m_events s)) = e" using sched_fst [OF assms(1,6)] assms(7) by simp
  have "event_ok e"
    using sched_PeekNext [OF assms(1,6)] reachable_ok(2) [OF assms(1-5)] assms(7) by (auto simp: events_ok_def)
  then show "dev_type (he_type h)" using assms(8) by (simp add: event_ok_def)
qed

lemma demo_reach0: "elp_reachable list_sched demo_user demo_dev
     (ELP_Init list_sched [demo_event 10 1000000, demo_event 12 1000001] 1) demo0"
  unfolding demo0_def by (rule elp_reachable.reach_start)

lemma demo0_process: "\<exists>s'. ELP_ProcessOneEvent list_sched demo0 = Some s'"
  by (rule ELP_ProcessOneEvent_returns [where e = "demo_event 10 1000000"
       and h = "\<lparr>he_obj = 1, he_type = 0, he_lookahead = 5, he_payload = 2\<rparr>"])
     (use reachable_ok(1) [OF list_sched_laws demo_ok demo_reach0] in
       \<open>simp_all add: dev_type_def kernel_idle_def demo0_def ELP_Init_def\<close>)

lemma process_device_event_uses_free_slot_witness:
  "\<exists>s' b k. k < DEVICE_QUEUE_LENGTH \<and> ELP_ProcessOneEvent list_sched demo0 = Some s' \<and>
     h_safeEventQueue s' = (h_safeEventQueue demo0)(b := (h_safeEventQueue demo0 b)
       [k := host_event 1 10 7 1000000 0 5 2])"
proof -
  obtain s' where s': "ELP_ProcessOneEvent list_sched demo0 = Some s'" using demo0_process by blast
  from process_device_event_uses_free_slot [OF list_sched_laws demo_ok demo_reach0 _ _ _ s',
      of "demo_event 10 1000000"] s'
  show ?thesis by simp blast
qed

text \<open>
  Collecting device events.  In every reachable state \<^verbatim>\<open>ELP_ScheduleDevEvent\<close> puts every event of
  every ready device buffer into the scheduler, exactly once and in buffer order (first
  buffer first), with consecutive device ids; it leaves the ready buffers with no valid event, the
  other buffer untouched, and no buffer marked ready.
\<close>

theorem device_events_scheduled_once:
  assumes "sched_laws ops q_abs" and "user_ok invoke" and "dev_ok dev_exec" and "events_ok (q_abs q)"
    and "elp_reachable ops invoke dev_exec (ELP_Init ops q n) s"
  shows "sched_side (ELP_ScheduleDevEvent ops s) = sched_side (fold (schedule_dev ops) (ready_events s) s) \<and>
    (\<forall>b. d_nextEventQueue (ELP_ScheduleDevEvent ops s) b =
      (if d_bufrdy s b then map clear (d_nextEventQueue s b) else d_nextEventQueue s b)) \<and>
    (\<forall>b. \<not> d_bufrdy (ELP_ScheduleDevEvent ops s) b)"
  using ScheduleDevEvent_spec [OF reachable_ok(4,3) [OF assms]] by blast

lemma device_events_scheduled_once_witness:
  "sched_side (ELP_ScheduleDevEvent list_sched demo_elp) =
     sched_side (fold (schedule_dev list_sched) (ready_events demo_elp) demo_elp)"
  using device_events_scheduled_once [OF list_sched_laws demo_ok demo1_reachable] by blast




text \<open>
  Changing the host buffer.  In every reachable state, \<^verbatim>\<open>ChangeHostQueue\<close> gives the kernel the
  buffer the host has been filling, as it was, with every index of it to visit, and leaves the host
  with the other buffer, which holds no pending event; the buffer the device was filling is marked
  ready for the host.
\<close>

theorem change_host_queue_hands_over:
  assumes "sched_laws ops q_abs" and "user_ok invoke" and "dev_ok dev_exec" and "events_ok (q_abs q)"
    and "elp_reachable ops invoke dev_exec (ELP_Init ops q n) s"
    and "ChangeHostQueue s = Some s'"
  shows "k_buf s' = h_curHostBuf s \<and> h_curHostBuf s' \<noteq> h_curHostBuf s \<and>
    h_safeEventQueue s' = h_safeEventQueue s \<and>
    (\<forall>e\<in>set (h_safeEventQueue s' (h_curHostBuf s')). \<not> ev_valid e) \<and>
    k_todo s' = [0..<length (h_safeEventQueue s' (k_buf s'))] \<and>
    d_bufrdy s' (d_curDevBuf s) \<and> d_curDevBuf s' \<noteq> d_curDevBuf s"
proof -
  note inv = reachable_ok(1) [OF assms(1-5)]
  have idle: "kernel_idle s" using assms(6) by (rule ChangeHostQueue_Some)
  have len: "length (h_safeEventQueue s b) = DEVICE_QUEUE_LENGTH" for b
    using inv by (simp add: buf_inv_def shape_inv_def)
  have p: "k_buf s = other (h_curHostBuf s)" "d_curDevBufRdy s = d_curDevBuf s"
    using inv by (simp_all add: buf_inv_def ptr_inv_def)
  have "\<not> ev_valid e" if "e \<in> set (h_safeEventQueue s (other (h_curHostBuf s)))" for e
    using that idle_buffer_consumed [OF _ idle] inv p len by (auto simp: buf_inv_def in_set_conv_nth)
  with assms(6) [unfolded ChangeHostQueue_def Let_def two_bufs ChangeDevQueue_def, symmetric] idle len p
  show ?thesis by (auto simp: two_bufs)
qed

lemma change_host_queue_hands_over_witness:
  "\<exists>s'. ChangeHostQueue demo_elp = Some s' \<and> k_buf s' = h_curHostBuf demo_elp"
proof -
  obtain s' where s': "ChangeHostQueue demo_elp = Some s'"
    using demo1_idle by (auto simp: ChangeHostQueue_def Let_def)
  from change_host_queue_hands_over [OF list_sched_laws demo_ok demo1_reachable s'] s' show ?thesis by blast
qed

text \<open>
  Cancelling.  Cancelling a pending event expires its id, leaves no delay, and when the
  scheduler reaches the event its code is not run; cancelling or removing an expired id of an
  ordinary event changes nothing.
\<close>

theorem cancelled_event_never_runs:
  assumes "\<not> IsExpired ops s i" and "id_impl i = Some p"
  shows "IsExpired ops (Cancel ops i s) i \<and> GetDelayLeft ops (Cancel ops i s) i = 0 \<and>
    Invoke ops invoke p (Cancel ops i s) = Cancel ops i s \<and>
    Cancel ops i (Cancel ops i s) = Cancel ops i s \<and>
    (id_uid i \<noteq> uid_DESTROY ops \<longrightarrow> Remove ops i (Cancel ops i s) = Cancel ops i s)"
proof -
  have c: "Cancel ops i s = s\<lparr>cancelled := p # cancelled s\<rparr>" using assms by (simp add: Cancel_def)
  then have x: "IsExpired ops (Cancel ops i s) i"
    using assms by (auto simp: IsExpired_def is_cancelled_def split: if_splits)
  then have "Cancel ops i (Cancel ops i s) = Cancel ops i s"
    "id_uid i \<noteq> uid_DESTROY ops \<longrightarrow> Remove ops i (Cancel ops i s) = Cancel ops i s"
    "GetDelayLeft ops (Cancel ops i s) i = 0"
    by (simp_all add: Cancel_def [of ops i "Cancel ops i s"] Remove_def GetDelayLeft_def)
  with x show ?thesis by (simp add: Invoke_def c is_cancelled_def)
qed

lemma cancelled_event_never_runs_witness:
  "let (i, s) = Schedule list_sched 3 9 demo0 in
     \<not> IsExpired list_sched s i \<and> IsExpired list_sched (Cancel list_sched i s) i"
proof -
  define r where "r = Schedule list_sched 3 9 demo0"
  have u: "\<not> IsExpired list_sched (snd r) (fst r)" "id_impl (fst r) = Some 9"
    by (simp_all add: r_def Schedule_def Let_def IsExpired_def insert_event_def is_cancelled_def
        demo0_def ELP_Init_def)
  from cancelled_event_never_runs [OF u] u show ?thesis
    unfolding r_def [symmetric] by (simp add: case_prod_beta)
qed

text \<open>
  Device ids wrap.  The 32-bit counter \<^verbatim>\<open>d_uid\<close> is not reset below the device's range the way \<^verbatim>\<open>m_uid\<close>
  is reset above: after the id 4294967295 the next device event gets the id 0, which
  the main loop takes for a CPU event.  When that event is the next one, the loop has no defined
  continuation: it would call \<^verbatim>\<open>Invoke\<close> on a \<^verbatim>\<open>HostEvent\<close>.
\<close>

theorem device_id_wrap_is_undefined:
  assumes "sched_laws ops q_abs" and "q_abs (m_events s) = {#}" and "d_uid s = 0xFFFFFFFF"
    and "\<not> d_bufrdy s Buf1" and "\<not> d_bufrdy s Buf2" and "ts' < safe_ts s" and "ts' < ts"
  shows "runsk_iter ops invoke
    (ELP_Schedule ops c' ts' obj' ty' la' pl' (ELP_Schedule ops c ts obj ty la pl s)) = None"
proof -
  define t where "t = ELP_Schedule ops c' ts' obj' ty' la' pl' (ELP_Schedule ops c ts obj ty la pl s)"
  define e where "e = \<lparr>se_impl = GpuImpl \<lparr>he_obj = obj', he_type = ty', he_lookahead = la', he_payload = pl'\<rparr>,
     se_key = \<lparr>k_ts = ts', k_uid = 0, k_context = c'\<rparr>\<rparr>"
  define e0 where "e0 = \<lparr>se_impl = GpuImpl \<lparr>he_obj = obj, he_type = ty, he_lookahead = la, he_payload = pl\<rparr>,
     se_key = \<lparr>k_ts = ts, k_uid = 0xFFFFFFFF, k_context = c\<rparr>\<rparr>"
  have q: "q_abs (m_events t) = {#e, e0#}"
    using assms(2,3) sched_Insert [OF assms(1)]
    by (simp add: t_def e_def e0_def ELP_Schedule_def Let_def insert_event_def)
  have d: "ELP_ScheduleDevEvent ops t = t" "safe_ts t = safe_ts s"
    using assms(4,5) by (simp_all add: ELP_ScheduleDevEvent_def t_def ELP_Schedule_def Let_def insert_event_def)
  have "key_le (se_key (sch_PeekNext ops (m_events t))) (se_key e)"
    "sch_PeekNext ops (m_events t) = e \<or> sch_PeekNext ops (m_events t) = e0"
    using sched_min [OF assms(1), of "m_events t" e] sched_PeekNext [OF assms(1), of "m_events t"]
    by (simp_all add: q)
  then have pk: "sch_PeekNext ops (m_events t) = e"
    using assms(7) by (auto simp: key_le_def e_def e0_def)
  then have rm: "fst (sch_RemoveNext ops (m_events t)) = e"
    using sched_fst [OF assms(1), of "m_events t"] q by simp
  have off: "0 < DEVICE_EV_ID_OFFSET" by (simp add: DEVICE_EV_ID_OFFSET_def)
  have "is_safe e t = (True, t)"
    using assms(6) d(2) off by (simp add: is_safe_def ev_lookahead_of_def e_def not_le)
  moreover have "ProcessOneEvent ops invoke t = None"
    using rm by (auto simp: ProcessOneEvent_def Let_def e_def split: prod.split)
  moreover have "\<not> DEVICE_EV_ID_OFFSET \<le> se_uid e" using off by (simp add: e_def not_le)
  ultimately show ?thesis
    unfolding t_def [symmetric] by (simp add: runsk_iter_def d pk Let_def)
qed

lemma device_id_wrap_is_undefined_witness:
  "runsk_iter list_sched demo_user
    (ELP_Schedule list_sched 7 3 1 0 5 2
      (ELP_Schedule list_sched 7 4 1 0 5 2 ((ELP_Init list_sched [] 1)\<lparr>d_uid := 0xFFFFFFFF\<rparr>))) = None"
  by (rule device_id_wrap_is_undefined [OF list_sched_laws]) (simp_all add: ELP_Init_def)

definition row_full :: "nat \<Rightarrow> 'q elp \<Rightarrow> bufsel \<Rightarrow> bool" where
  "row_full tid s b \<longleftrightarrow>
     (\<forall>j < MAX_NEW_EVENTS. ev_valid (d_nextEventQueue s b ! (tid * MAX_NEW_EVENTS + j)))"

lemma row_full_probe:
  "row_full tid s b \<longleftrightarrow>
     d_probe (d_nextEventQueue s b) (tid * MAX_NEW_EVENTS) (tid * MAX_NEW_EVENTS + MAX_NEW_EVENTS) = None"
  (is "_ \<longleftrightarrow> ?p = None")
proof
  assume f: "row_full tid s b"
  show "?p = None"
  proof (cases ?p)
    case (Some k)
    from d_probe_Some [OF this] f show ?thesis
      by (auto simp: row_full_def dest!: spec [where x = "k - tid * MAX_NEW_EVENTS"])
  qed
next
  assume "?p = None"
  from d_probe_None [OF this] show "row_full tid s b" by (simp add: row_full_def)
qed

text \<open>
  A full row.  \<^verbatim>\<open>d_insert\<close> puts the event into the first free slot of the calling thread's row of
  the current device buffer; when all slots of that row hold pending events in both buffers, the
  call never succeeds, however often it changes buffers: only the host can free a slot, and while the
  thread runs the host may be waiting for the kernel in \<^verbatim>\<open>ChangeHostQueue\<close>.
\<close>

theorem d_insert_needs_free_slot:
  assumes "row_full tid s (d_curDevBuf s)"
  shows "d_insert_try tid c s = (False, ChangeDevQueue s) \<and>
    ((\<forall>b. row_full tid s b) \<longrightarrow>
      (\<forall>n. \<not> fst (d_insert_try tid c ((ChangeDevQueue ^^ n) s))) \<and>
      (\<forall>n. \<not> kernel_idle s \<longrightarrow> ChangeHostQueue ((ChangeDevQueue ^^ n) s) = None))"
proof -
  have it: "d_nextEventQueue ((ChangeDevQueue ^^ n) s) = d_nextEventQueue s \<and>
      kernel_idle ((ChangeDevQueue ^^ n) s) = kernel_idle s" for n
    by (induction n) (simp_all add: ChangeDevQueue_def Let_def kernel_idle_def)
  have "\<not> fst (d_insert_try tid c ((ChangeDevQueue ^^ n) s))" if "\<forall>b. row_full tid s b" for n
    using that it [of n] by (auto simp: d_insert_try_eq row_full_probe)
  with it assms show ?thesis
    by (simp add: d_insert_try_eq row_full_probe ChangeHostQueue_def)
qed

definition demo_full :: "SchedEvent list elp" where
  "demo_full = demo0\<lparr>d_nextEventQueue := (\<lambda>_. replicate MAX_NEW_EVENTS (host_event 1 10 7 1000000 0 5 2))\<rparr>"

lemma d_insert_needs_free_slot_witness: "\<forall>c. \<not> fst (d_insert_try 0 c demo_full)"
proof
  fix c
  show "\<not> fst (d_insert_try 0 c demo_full)"
    using d_insert_needs_free_slot [of 0 demo_full c]
    by (simp add: row_full_def demo_full_def host_event_def)
qed

text \<open>
  The order of simultaneous events.  Of two CPU events scheduled one after the other for the same
  time, the first is the next to run, except when the id counter is reset between them (it
  had reached the last id below the device's range): then the second one is.
\<close>

theorem simultaneous_order_lost_at_reset:
  assumes "sched_laws ops q_abs" and "q_abs (m_events s) = {#}"
    and "uid_VALID ops = 4" and "m_uid s < DEVICE_EV_ID_OFFSET"
  shows "se_impl (sch_PeekNext ops (m_events (snd (Schedule ops d e2 (snd (Schedule ops d e1 s)))))) =
    CpuImpl (if m_uid s = 999999 then e2 else e1)"
proof -
  define ev where "ev e u = \<lparr>se_impl = CpuImpl e,
     se_key = \<lparr>k_ts = d + m_currentTs s, k_uid = u, k_context = m_currentContext s\<rparr>\<rparr>" for e u
  define q where "q = m_events (snd (Schedule ops d e2 (snd (Schedule ops d e1 s))))"
  let ?u = "m_uid s" and ?v = "next_uid ops (m_uid s)"
  have M: "q_abs q = {#ev e2 ?v, ev e1 ?u#}"
    using assms(2) sched_Insert [OF assms(1)]
    by (simp add: q_def ev_def Schedule_def Let_def insert_event_def)
  have lt: "?u < 1000000" using assms(4) by (simp add: DEVICE_EV_ID_OFFSET_def)
  have v: "?v < ?u" if "?u = 999999"
    using that assms(3) by (simp add: next_uid_def DEVICE_EV_ID_OFFSET_def)
  have v': "?u < ?v" if "?u \<noteq> 999999"
  proof -
    have "unat ?u < 999999"
      using lt that by (simp add: word_less_nat_alt word_unat_eq_iff)
    then have "unat (?u + 1) = unat ?u + 1" by (subst unat_plus_if_size) (simp add: word_size)
    with \<open>unat ?u < 999999\<close> show ?thesis
      by (simp add: next_uid_def DEVICE_EV_ID_OFFSET_def word_less_nat_alt word_le_nat_alt)
  qed
  have pk: "sch_PeekNext ops q = ev e2 ?v \<or> sch_PeekNext ops q = ev e1 ?u"
    using sched_PeekNext [OF assms(1), of q] by (simp add: M)
  have "key_le (se_key (sch_PeekNext ops q)) (se_key (ev e2 ?v))"
    "key_le (se_key (sch_PeekNext ops q)) (se_key (ev e1 ?u))"
    using sched_min [OF assms(1), of q] by (simp_all add: M)
  then show ?thesis
    unfolding q_def [symmetric] using pk v v' by (auto simp: key_le_def ev_def)
qed

lemma simultaneous_order_lost_at_reset_witness:
  "se_impl (min_event (m_events (snd (Schedule list_sched 3 22 (snd (Schedule list_sched 3 11
     ((ELP_Init list_sched [] 1)\<lparr>m_uid := 999999\<rparr>))))))) = CpuImpl 22"
  using simultaneous_order_lost_at_reset [OF list_sched_laws,
      of "(ELP_Init list_sched [] 1)\<lparr>m_uid := 999999\<rparr>" 3 22 11]
  by (simp add: ELP_Init_def DEVICE_EV_ID_OFFSET_def)

end
