(* ===== verification/Buffer_Iterator.thy ===== *)
theory Buffer_Iterator
  imports Prelude "HOL-Library.Monad_Syntax"
begin

text \<open>
  \<^verbatim>\<open>Buffer::Iterator\<close> (\<^verbatim>\<open>network/model/buffer.h\<close>, \<^verbatim>\<open>buffer.cc\<close>): the cursor every header is
  written and read with.

  An iterator is the window \<^verbatim>\<open>m_dataStart .. m_dataEnd\<close> split at \<^verbatim>\<open>m_current\<close>: the bytes before the
  cursor and the bytes from it on.  The zero area of a buffer is a representation of zero bytes and
  does not show here; \<open>None\<close> is an access outside the window, which the code guards by assertions
  only.  Operations that move the cursor return the iterator; those that write return
  it with the written bytes, so \<open>i = start\<close> after writing through \<open>i\<close> is \<open>rewind start i\<close>.
\<close>

section \<open>The iterator\<close>

record Iterator =
  it_before :: "u8 list"
  it_after :: "u8 list"

definition Begin :: "u8 list \<Rightarrow> Iterator" where
  "Begin bytes = \<lparr>it_before = [], it_after = bytes\<rparr>"

definition End :: "u8 list \<Rightarrow> Iterator" where
  "End bytes = \<lparr>it_before = bytes, it_after = []\<rparr>"

definition window :: "Iterator \<Rightarrow> u8 list" where
  "window i = it_before i @ it_after i"

definition GetSize :: "Iterator \<Rightarrow> nat" where
  "GetSize i = length (it_before i) + length (it_after i)"

definition GetRemainingSize :: "Iterator \<Rightarrow> nat" where
  "GetRemainingSize i = length (it_after i)"

definition IsEnd :: "Iterator \<Rightarrow> bool" where
  "IsEnd i \<longleftrightarrow> it_after i = []"

definition IsStart :: "Iterator \<Rightarrow> bool" where
  "IsStart i \<longleftrightarrow> it_before i = []"

text \<open>\<^verbatim>\<open>i = start\<close>: the position of \<open>start\<close> with the bytes as they are now.\<close>

definition rewind :: "Iterator \<Rightarrow> Iterator \<Rightarrow> Iterator" where
  "rewind start i = \<lparr>it_before = take (length (it_before start)) (window i),
     it_after = drop (length (it_before start)) (window i)\<rparr>"

definition Next :: "nat \<Rightarrow> Iterator \<Rightarrow> Iterator option" where
  "Next delta i =
     (if length (it_after i) < delta then None
      else Some \<lparr>it_before = it_before i @ take delta (it_after i), it_after = drop delta (it_after i)\<rparr>)"

definition Prev :: "nat \<Rightarrow> Iterator \<Rightarrow> Iterator option" where
  "Prev delta i =
     (let n = length (it_before i) - delta
      in if length (it_before i) < delta then None
         else Some \<lparr>it_before = take n (it_before i), it_after = drop n (it_before i) @ it_after i\<rparr>)"

section \<open>Writing\<close>

definition WriteU8 :: "u8 \<Rightarrow> Iterator \<Rightarrow> Iterator option" where
  "WriteU8 data i =
     (case it_after i of
        [] \<Rightarrow> None
      | _ # bytes \<Rightarrow> Some \<lparr>it_before = it_before i @ [data], it_after = bytes\<rparr>)"

definition Write :: "u8 list \<Rightarrow> Iterator \<Rightarrow> Iterator option" where
  "Write bytes i =
     (if length (it_after i) < length bytes then None
      else Some \<lparr>it_before = it_before i @ bytes, it_after = drop (length bytes) (it_after i)\<rparr>)"

definition WriteU8s :: "u8 \<Rightarrow> nat \<Rightarrow> Iterator \<Rightarrow> Iterator option" where
  "WriteU8s data len i = Write (replicate len data) i"

text \<open>Byte \<open>k\<close> of a word: \<^verbatim>\<open>(data >> 8 * k) & 0xff\<close>.\<close>

definition byte_of :: "nat \<Rightarrow> 'a::len word \<Rightarrow> u8" where
  "byte_of k data = ucast (drop_bit (8 * k) data AND 0xff)"

definition WriteU16 :: "u16 \<Rightarrow> Iterator \<Rightarrow> Iterator option" where
  "WriteU16 data i = do {
     i \<leftarrow> WriteU8 (ucast (data AND 0xff)) i;
     let data = drop_bit 8 data;
     WriteU8 (ucast (data AND 0xff)) i }"

definition WriteU32 :: "u32 \<Rightarrow> Iterator \<Rightarrow> Iterator option" where
  "WriteU32 data i = do {
     i \<leftarrow> WriteU8 (ucast (data AND 0xff)) i;
     let data = drop_bit 8 data;
     i \<leftarrow> WriteU8 (ucast (data AND 0xff)) i;
     let data = drop_bit 8 data;
     i \<leftarrow> WriteU8 (ucast (data AND 0xff)) i;
     let data = drop_bit 8 data;
     WriteU8 (ucast (data AND 0xff)) i }"

definition WriteU64 :: "u64 \<Rightarrow> Iterator \<Rightarrow> Iterator option" where
  "WriteU64 data i = do {
     i \<leftarrow> WriteU8 (ucast (data AND 0xff)) i;
     let data = drop_bit 8 data;
     i \<leftarrow> WriteU8 (ucast (data AND 0xff)) i;
     let data = drop_bit 8 data;
     i \<leftarrow> WriteU8 (ucast (data AND 0xff)) i;
     let data = drop_bit 8 data;
     i \<leftarrow> WriteU8 (ucast (data AND 0xff)) i;
     let data = drop_bit 8 data;
     i \<leftarrow> WriteU8 (ucast (data AND 0xff)) i;
     let data = drop_bit 8 data;
     i \<leftarrow> WriteU8 (ucast (data AND 0xff)) i;
     let data = drop_bit 8 data;
     i \<leftarrow> WriteU8 (ucast (data AND 0xff)) i;
     let data = drop_bit 8 data;
     WriteU8 (ucast (data AND 0xff)) i }"

definition WriteHtonU16 :: "u16 \<Rightarrow> Iterator \<Rightarrow> Iterator option" where
  "WriteHtonU16 data i = Write [byte_of 1 data, byte_of 0 data] i"

definition WriteHtonU32 :: "u32 \<Rightarrow> Iterator \<Rightarrow> Iterator option" where
  "WriteHtonU32 data i = Write [byte_of 3 data, byte_of 2 data, byte_of 1 data, byte_of 0 data] i"

definition WriteHtonU64 :: "u64 \<Rightarrow> Iterator \<Rightarrow> Iterator option" where
  "WriteHtonU64 data i = do {
     i \<leftarrow> WriteU8 (byte_of 7 data) i;
     i \<leftarrow> WriteU8 (byte_of 6 data) i;
     i \<leftarrow> WriteU8 (byte_of 5 data) i;
     i \<leftarrow> WriteU8 (byte_of 4 data) i;
     i \<leftarrow> WriteU8 (byte_of 3 data) i;
     i \<leftarrow> WriteU8 (byte_of 2 data) i;
     i \<leftarrow> WriteU8 (byte_of 1 data) i;
     WriteU8 (byte_of 0 data) i }"

definition WriteHtolsbU16 :: "u16 \<Rightarrow> Iterator \<Rightarrow> Iterator option" where
  "WriteHtolsbU16 data i = do {
     i \<leftarrow> WriteU8 (byte_of 0 data) i;
     WriteU8 (byte_of 1 data) i }"

definition WriteHtolsbU32 :: "u32 \<Rightarrow> Iterator \<Rightarrow> Iterator option" where
  "WriteHtolsbU32 data i = do {
     i \<leftarrow> WriteU8 (byte_of 0 data) i;
     i \<leftarrow> WriteU8 (byte_of 1 data) i;
     i \<leftarrow> WriteU8 (byte_of 2 data) i;
     WriteU8 (byte_of 3 data) i }"

definition WriteHtolsbU64 :: "u64 \<Rightarrow> Iterator \<Rightarrow> Iterator option" where
  "WriteHtolsbU64 data i = do {
     i \<leftarrow> WriteU8 (byte_of 0 data) i;
     i \<leftarrow> WriteU8 (byte_of 1 data) i;
     i \<leftarrow> WriteU8 (byte_of 2 data) i;
     i \<leftarrow> WriteU8 (byte_of 3 data) i;
     i \<leftarrow> WriteU8 (byte_of 4 data) i;
     i \<leftarrow> WriteU8 (byte_of 5 data) i;
     i \<leftarrow> WriteU8 (byte_of 6 data) i;
     WriteU8 (byte_of 7 data) i }"

section \<open>Reading\<close>

definition PeekU8 :: "Iterator \<Rightarrow> u8 option" where
  "PeekU8 i = (case it_after i of [] \<Rightarrow> None | b # _ \<Rightarrow> Some b)"

definition ReadU8 :: "Iterator \<Rightarrow> (u8 \<times> Iterator) option" where
  "ReadU8 i = do {
     ret \<leftarrow> PeekU8 i;
     i \<leftarrow> Next 1 i;
     Some (ret, i) }"

fun Read :: "nat \<Rightarrow> Iterator \<Rightarrow> (u8 list \<times> Iterator) option" where
  "Read 0 i = Some ([], i)"
| "Read (Suc n) i = do {
     (b, i) \<leftarrow> ReadU8 i;
     (bs, i) \<leftarrow> Read n i;
     Some (b # bs, i) }"

text \<open>\<^verbatim>\<open>retval <<= 8; retval |= b\<close>\<close>

definition shift_in :: "'a::len word \<Rightarrow> u8 \<Rightarrow> 'a word" where
  "shift_in retval b = push_bit 8 retval OR ucast b"

definition ReadU16 :: "Iterator \<Rightarrow> (u16 \<times> Iterator) option" where
  "ReadU16 i = do {
     (byte0, i) \<leftarrow> ReadU8 i;
     (byte1, i) \<leftarrow> ReadU8 i;
     Some (shift_in (ucast byte1) byte0, i) }"

definition ReadU32 :: "Iterator \<Rightarrow> (u32 \<times> Iterator) option" where
  "ReadU32 i = do {
     (byte0, i) \<leftarrow> ReadU8 i;
     (byte1, i) \<leftarrow> ReadU8 i;
     (byte2, i) \<leftarrow> ReadU8 i;
     (byte3, i) \<leftarrow> ReadU8 i;
     Some (shift_in (shift_in (shift_in (ucast byte3) byte2) byte1) byte0, i) }"

definition ReadU64 :: "Iterator \<Rightarrow> (u64 \<times> Iterator) option" where
  "ReadU64 i = do {
     (byte0, i) \<leftarrow> ReadU8 i;
     (byte1, i) \<leftarrow> ReadU8 i;
     (byte2, i) \<leftarrow> ReadU8 i;
     (byte3, i) \<leftarrow> ReadU8 i;
     (byte4, i) \<leftarrow> ReadU8 i;
     (byte5, i) \<leftarrow> ReadU8 i;
     (byte6, i) \<leftarrow> ReadU8 i;
     (byte7, i) \<leftarrow> ReadU8 i;
     Some (shift_in (shift_in (shift_in (shift_in (shift_in (shift_in (shift_in
       (ucast byte7) byte6) byte5) byte4) byte3) byte2) byte1) byte0, i) }"

text \<open>
  \<^verbatim>\<open>ReadNtohU16\<close> and \<^verbatim>\<open>ReadNtohU32\<close> with their slow paths over the zero area, which return the same.
\<close>

definition ReadNtohU16 :: "Iterator \<Rightarrow> (u16 \<times> Iterator) option" where
  "ReadNtohU16 i = do {
     (b0, i) \<leftarrow> ReadU8 i;
     (b1, i) \<leftarrow> ReadU8 i;
     Some (shift_in (shift_in 0 b0) b1, i) }"

definition ReadNtohU32 :: "Iterator \<Rightarrow> (u32 \<times> Iterator) option" where
  "ReadNtohU32 i = do {
     (b0, i) \<leftarrow> ReadU8 i;
     (b1, i) \<leftarrow> ReadU8 i;
     (b2, i) \<leftarrow> ReadU8 i;
     (b3, i) \<leftarrow> ReadU8 i;
     Some (shift_in (shift_in (shift_in (shift_in 0 b0) b1) b2) b3, i) }"

definition ReadNtohU64 :: "Iterator \<Rightarrow> (u64 \<times> Iterator) option" where
  "ReadNtohU64 i = do {
     (b0, i) \<leftarrow> ReadU8 i;
     (b1, i) \<leftarrow> ReadU8 i;
     (b2, i) \<leftarrow> ReadU8 i;
     (b3, i) \<leftarrow> ReadU8 i;
     (b4, i) \<leftarrow> ReadU8 i;
     (b5, i) \<leftarrow> ReadU8 i;
     (b6, i) \<leftarrow> ReadU8 i;
     (b7, i) \<leftarrow> ReadU8 i;
     Some (shift_in (shift_in (shift_in (shift_in (shift_in (shift_in (shift_in (shift_in
       0 b0) b1) b2) b3) b4) b5) b6) b7, i) }"

definition ReadLsbtohU16 :: "Iterator \<Rightarrow> (u16 \<times> Iterator) option" where
  "ReadLsbtohU16 i = ReadU16 i"

definition ReadLsbtohU32 :: "Iterator \<Rightarrow> (u32 \<times> Iterator) option" where
  "ReadLsbtohU32 i = ReadU32 i"

definition ReadLsbtohU64 :: "Iterator \<Rightarrow> (u64 \<times> Iterator) option" where
  "ReadLsbtohU64 i = ReadU64 i"

section \<open>Writers are \<open>Write\<close>\<close>

lemma Write_Nil [simp]: "Write [] i = Some i"
  by (simp add: Write_def)

lemma Write_append [codec_simps]: "Option.bind (Write bs i) (Write cs) = Write (bs @ cs) i"
  by (auto simp: Write_def drop_drop ac_simps)

lemma Write_bind [codec_simps]: "Option.bind (Write bs i) (\<lambda>i. Option.bind (Write cs i) k) = Option.bind (Write (bs @ cs) i) k"
  by (simp add: Write_append [symmetric])

lemma WriteU8_Write [codec_simps]: "WriteU8 = (\<lambda>b. Write [b])"
  by (auto simp: WriteU8_def Write_def fun_eq_iff split: list.split)

definition le_bytes :: "nat \<Rightarrow> 'a::len word \<Rightarrow> u8 list" where
  "le_bytes n x = map (\<lambda>k. byte_of k x) [0..<n]"

definition be_bytes :: "nat \<Rightarrow> 'a::len word \<Rightarrow> u8 list" where
  "be_bytes n x = rev (le_bytes n x)"

lemma length_bytes [simp]: "length (le_bytes n x) = n" "length (be_bytes n x) = n"
  by (simp_all add: le_bytes_def be_bytes_def)

lemma le_bytes_numeral:
  "le_bytes 2 x = [byte_of 0 x, byte_of 1 x]"
  "le_bytes 4 x = [byte_of 0 x, byte_of 1 x, byte_of 2 x, byte_of 3 x]"
  "le_bytes 8 x = [byte_of 0 x, byte_of 1 x, byte_of 2 x, byte_of 3 x, byte_of 4 x, byte_of 5 x,
     byte_of 6 x, byte_of 7 x]"
  by (simp_all add: le_bytes_def upt_rec eval_nat_numeral)

lemma byte_of_shift: "byte_of k (drop_bit n x) = byte_of (k + n div 8) x" if "8 dvd n"
  using that by (simp add: byte_of_def algebra_simps)

lemma byte_of_0: "ucast (x AND 0xff) = byte_of 0 x"
  by (simp add: byte_of_def)

lemma Write_le [codec_simps]:
  "WriteU16 d = Write (le_bytes 2 d)" "WriteU32 e = Write (le_bytes 4 e)"
  "WriteU64 f = Write (le_bytes 8 f)"
  by (simp_all add: fun_eq_iff WriteU16_def WriteU32_def WriteU64_def le_bytes_numeral WriteU8_Write
      Write_bind Write_append Let_def byte_of_0 byte_of_shift numeral_2_eq_2 [symmetric])

lemma Write_be [codec_simps]:
  "WriteHtonU16 d = Write (be_bytes 2 d)" "WriteHtonU32 e = Write (be_bytes 4 e)"
  "WriteHtonU64 f = Write (be_bytes 8 f)"
  by (simp_all add: fun_eq_iff WriteHtonU16_def WriteHtonU32_def WriteHtonU64_def be_bytes_def
      le_bytes_numeral WriteU8_Write Write_bind Write_append)

lemma Write_lsb [codec_simps]:
  "WriteHtolsbU16 d = Write (le_bytes 2 d)" "WriteHtolsbU32 e = Write (le_bytes 4 e)"
  "WriteHtolsbU64 f = Write (le_bytes 8 f)"
  by (simp_all add: fun_eq_iff WriteHtolsbU16_def WriteHtolsbU32_def WriteHtolsbU64_def
      le_bytes_numeral WriteU8_Write Write_bind Write_append)

lemma Write_Begin:
  "length bs \<le> length w \<Longrightarrow> Write bs (Begin w) = Some \<lparr>it_before = bs, it_after = drop (length bs) w\<rparr>"
  by (simp add: Write_def Begin_def)

section \<open>Reading back\<close>

lemma ReadU8_Cons [codec_simps]:
  "ReadU8 \<lparr>it_before = pre, it_after = b # suf\<rparr> = Some (b, \<lparr>it_before = pre @ [b], it_after = suf\<rparr>)"
  by (simp add: ReadU8_def PeekU8_def Next_def)

lemma Read_append [codec_simps]:
  "length bs = n \<Longrightarrow>
   Read n \<lparr>it_before = pre, it_after = bs @ suf\<rparr> = Some (bs, \<lparr>it_before = pre @ bs, it_after = suf\<rparr>)"
proof (induction n arbitrary: bs pre)
  case 0
  then show ?case by simp
next
  case (Suc n)
  then obtain b cs where "bs = b # cs" "length cs = n" by (cases bs) auto
  with Suc.IH [of cs "pre @ [b]"] show ?case by (simp add: ReadU8_Cons)
qed

lemma test_bit_byte_of: "bit (byte_of k x) n \<longleftrightarrow> n < 8 \<and> bit x (8 * k + n)"
proof -
  have "bit (0xff :: 'a word) n" if "n < 8" "n < LENGTH('a)"
  proof -
    have "(0xff :: 'a word) = mask 8" by (simp add: mask_eq_exp_minus_1)
    moreover have "bit (mask 8 :: 'a word) n" unfolding bit_mask_iff using that by simp
    ultimately show ?thesis by metis
  qed
  moreover have "bit x (8 * k + n) \<Longrightarrow> n < LENGTH('a)" for n
    using bit_imp_le_length by fastforce
  ultimately show ?thesis
    by (auto simp: byte_of_def bit_simps)
qed

lemma shift_in_bit: "bit (shift_in r b) n \<longleftrightarrow> (if n < 8 then bit b n else bit r (n - 8)) \<and> n < LENGTH('a)"
  for r :: "'a::len word"
  using bit_imp_le_length [of b n] by (auto simp: shift_in_def bit_simps not_less)

lemma shift_in_byte_of:
  fixes x :: "'a::len word"
  assumes "n = 8 * k + 8"
  shows "shift_in (drop_bit n x) (byte_of k x) = drop_bit (8 * k) x"
proof (rule bit_word_eqI)
  fix m
  assume "m < LENGTH('a)"
  then show "bit (shift_in (drop_bit n x) (byte_of k x)) m = bit (drop_bit (8 * k) x) m"
    using assms by (auto simp: shift_in_bit test_bit_byte_of bit_simps)
qed

lemma shift_in_first:
  fixes x :: "'a::len word"
  assumes "LENGTH('a) = 8 * k + 8"
  shows "shift_in 0 (byte_of k x) = drop_bit (8 * k) x"
proof (rule bit_word_eqI)
  fix m
  assume "m < LENGTH('a)"
  then show "bit (shift_in 0 (byte_of k x) :: 'a word) m = bit (drop_bit (8 * k) x) m"
    using assms by (auto simp: shift_in_bit test_bit_byte_of bit_simps dest: bit_imp_le_length)
qed

lemma top_byte: "ucast (byte_of k x) = drop_bit (8 * k) x" if "LENGTH('a) = 8 * k + 8" for x :: "'a::len word"
proof (rule bit_word_eqI)
  fix m
  assume "m < LENGTH('a)"
  then show "bit (ucast (byte_of k x) :: 'a word) m = bit (drop_bit (8 * k) x) m"
    using that by (auto simp: test_bit_byte_of bit_simps dest: bit_imp_le_length)
qed

lemma join_le [codec_simps]:
  "shift_in (ucast (byte_of (Suc 0) d)) (byte_of 0 d) = (d :: u16)"
  "shift_in (shift_in (shift_in (ucast (byte_of 3 e)) (byte_of 2 e)) (byte_of (Suc 0) e)) (byte_of 0 e) = (e :: u32)"
  "shift_in (shift_in (shift_in (shift_in (shift_in (shift_in (shift_in (ucast (byte_of 7 f))
     (byte_of 6 f)) (byte_of 5 f)) (byte_of 4 f)) (byte_of 3 f)) (byte_of 2 f)) (byte_of (Suc 0) f))
     (byte_of 0 f) = (f :: u64)"
  by (simp_all add: top_byte shift_in_byte_of)

lemma join_be [codec_simps]:
  "shift_in (shift_in 0 (byte_of (Suc 0) d)) (byte_of 0 d) = (d :: u16)"
  "shift_in (shift_in (shift_in (shift_in 0 (byte_of 3 e)) (byte_of 2 e)) (byte_of (Suc 0) e)) (byte_of 0 e) = (e :: u32)"
  "shift_in (shift_in (shift_in (shift_in (shift_in (shift_in (shift_in (shift_in 0 (byte_of 7 f))
     (byte_of 6 f)) (byte_of 5 f)) (byte_of 4 f)) (byte_of 3 f)) (byte_of 2 f)) (byte_of (Suc 0) f))
     (byte_of 0 f) = (f :: u64)"
  by (simp_all add: shift_in_first shift_in_byte_of)

lemma Read_be [codec_simps]:
  "ReadNtohU16 \<lparr>it_before = pre, it_after = be_bytes 2 d @ suf\<rparr> =
     Some (d, \<lparr>it_before = pre @ be_bytes 2 d, it_after = suf\<rparr>)"
  "ReadNtohU32 \<lparr>it_before = pre, it_after = be_bytes 4 e @ suf\<rparr> =
     Some (e, \<lparr>it_before = pre @ be_bytes 4 e, it_after = suf\<rparr>)"
  "ReadNtohU64 \<lparr>it_before = pre, it_after = be_bytes 8 f @ suf\<rparr> =
     Some (f, \<lparr>it_before = pre @ be_bytes 8 f, it_after = suf\<rparr>)"
  by (simp_all only: be_bytes_def le_bytes_numeral rev.simps append.simps append_assoc)
     (simp_all add: ReadNtohU16_def ReadNtohU32_def ReadNtohU64_def ReadU8_Cons join_be)

lemma Read_le [codec_simps]:
  "ReadU16 \<lparr>it_before = pre, it_after = le_bytes 2 d @ suf\<rparr> =
     Some (d, \<lparr>it_before = pre @ le_bytes 2 d, it_after = suf\<rparr>)"
  "ReadU32 \<lparr>it_before = pre, it_after = le_bytes 4 e @ suf\<rparr> =
     Some (e, \<lparr>it_before = pre @ le_bytes 4 e, it_after = suf\<rparr>)"
  "ReadU64 \<lparr>it_before = pre, it_after = le_bytes 8 f @ suf\<rparr> =
     Some (f, \<lparr>it_before = pre @ le_bytes 8 f, it_after = suf\<rparr>)"
  by (simp_all only: le_bytes_numeral append.simps append_assoc)
     (simp_all add: ReadU16_def ReadU32_def ReadU64_def ReadU8_Cons join_le)

lemma Next_append [codec_simps]:
  "length bs = n \<Longrightarrow>
   Next n \<lparr>it_before = pre, it_after = bs @ suf\<rparr> = Some \<lparr>it_before = pre @ bs, it_after = suf\<rparr>"
  by (simp add: Next_def)

end
