(* ===== verification/Header_Codec.thy ===== *)
theory Header_Codec
  imports Buffer_Iterator
begin

text \<open>
  The contract between \<^verbatim>\<open>Packet\<close> and \<^verbatim>\<open>Header\<close> (\<^verbatim>\<open>network/model/packet.cc\<close>, \<^verbatim>\<open>header.h\<close>): a packet
  makes room for \<^verbatim>\<open>GetSerializedSize\<close> bytes in front of its buffer and lets the header \<^verbatim>\<open>Serialize\<close>
  itself there; to remove a header it lets one \<^verbatim>\<open>Deserialize\<close> itself from the front and drops
  as many bytes as that reports.

  The locale \<open>header_codec\<close> states what a header promises to the packet; the lemmas about packets
  are proved once inside it, and every header type of the development interprets it.
\<close>

section \<open>Packets\<close>

text \<open>
  Of a packet only the bytes are modelled here (tags and metadata do not touch them).  \<open>fresh\<close> stands
  for the bytes that \<^verbatim>\<open>Buffer::AddAtStart\<close> makes room for, which it leaves uninitialised.
\<close>

record Packet =
  m_buffer :: "u8 list"

definition allocates :: "(nat \<Rightarrow> u8 list) \<Rightarrow> bool" where
  "allocates fresh \<longleftrightarrow> (\<forall>n. length (fresh n) = n)"

definition AddHeader ::
  "('h \<Rightarrow> nat) \<Rightarrow> ('h \<Rightarrow> Iterator \<Rightarrow> Iterator option) \<Rightarrow> (nat \<Rightarrow> u8 list) \<Rightarrow> 'h \<Rightarrow> Packet \<Rightarrow> Packet option" where
  "AddHeader GetSerializedSize Serialize fresh header p =
     (let len = GetSerializedSize header;
          p = p\<lparr>m_buffer := fresh len @ m_buffer p\<rparr>
      in do {
        i \<leftarrow> Serialize header (Begin (m_buffer p));
        Some (p\<lparr>m_buffer := window i\<rparr>) })"

definition PeekHeader ::
  "('h \<Rightarrow> Iterator \<Rightarrow> ('h \<times> nat) option) \<Rightarrow> 'h \<Rightarrow> Packet \<Rightarrow> ('h \<times> nat) option" where
  "PeekHeader Deserialize header p = Deserialize header (Begin (m_buffer p))"

definition RemoveHeader ::
  "('h \<Rightarrow> Iterator \<Rightarrow> ('h \<times> nat) option) \<Rightarrow> 'h \<Rightarrow> Packet \<Rightarrow> ('h \<times> nat \<times> Packet) option" where
  "RemoveHeader Deserialize header p = do {
     (header, deserialized) \<leftarrow> Deserialize header (Begin (m_buffer p));
     Some (header, deserialized, p\<lparr>m_buffer := drop deserialized (m_buffer p)\<rparr>) }"

section \<open>The contract of a header\<close>

text \<open>
  \<open>ok h pl\<close>: the header may be written in front of the payload \<open>pl\<close>.  \<open>into h0 h\<close>: the object \<open>h0\<close> may
  read it back.  \<open>reads h0 h pl\<close>: what \<open>h0\<close> has become then.
\<close>

locale header_codec =
  fixes GetSerializedSize :: "'h \<Rightarrow> nat"
    and Serialize :: "'h \<Rightarrow> Iterator \<Rightarrow> Iterator option"
    and Deserialize :: "'h \<Rightarrow> Iterator \<Rightarrow> ('h \<times> nat) option"
    and ok :: "'h \<Rightarrow> u8 list \<Rightarrow> bool"
    and into :: "'h \<Rightarrow> 'h \<Rightarrow> bool"
    and reads :: "'h \<Rightarrow> 'h \<Rightarrow> u8 list \<Rightarrow> 'h"
  assumes serialize: "ok h pl \<Longrightarrow> length junk = GetSerializedSize h \<Longrightarrow>
      \<exists>bs i. Serialize h (Begin (junk @ pl)) = Some i \<and> window i = bs @ pl \<and>
        length bs = GetSerializedSize h \<and>
        (\<forall>h0. into h0 h \<longrightarrow> Deserialize h0 (Begin (bs @ pl)) = Some (reads h0 h pl, GetSerializedSize h))"
begin

abbreviation "Add \<equiv> AddHeader GetSerializedSize Serialize"
abbreviation "Remove \<equiv> RemoveHeader Deserialize"

lemma Add_some:
  assumes "ok h (m_buffer p)" and "allocates fresh"
  obtains q bs where "Add fresh h p = Some q" and "m_buffer q = bs @ m_buffer p"
    and "length bs = GetSerializedSize h"
    and "\<And>h0. into h0 h \<Longrightarrow> Deserialize h0 (Begin (bs @ m_buffer p)) =
      Some (reads h0 h (m_buffer p), GetSerializedSize h)"
proof -
  obtain bs i where "Serialize h (Begin (fresh (GetSerializedSize h) @ m_buffer p)) = Some i"
    "window i = bs @ m_buffer p" "length bs = GetSerializedSize h"
    "\<forall>h0. into h0 h \<longrightarrow> Deserialize h0 (Begin (bs @ m_buffer p)) =
       Some (reads h0 h (m_buffer p), GetSerializedSize h)"
    using serialize [of h "m_buffer p" "fresh (GetSerializedSize h)"] assms by (auto simp: allocates_def)
  with that show thesis by (simp add: AddHeader_def)
qed

text \<open>Removing the header just added gives the header and the packet back.\<close>

lemma Remove_Add:
  assumes "ok h (m_buffer p)" and "allocates fresh" and "into h0 h"
  shows "Option.bind (Add fresh h p) (Remove h0) = Some (reads h0 h (m_buffer p), GetSerializedSize h, p)"
proof -
  obtain q bs where "Add fresh h p = Some q" "m_buffer q = bs @ m_buffer p"
    "length bs = GetSerializedSize h" "Deserialize h0 (Begin (m_buffer q)) =
      Some (reads h0 h (m_buffer p), GetSerializedSize h)"
    using Add_some [OF assms(1,2)] assms(3) by metis
  then show ?thesis by (simp add: RemoveHeader_def)
qed

lemma Add_size:
  assumes "ok h (m_buffer p)" and "allocates fresh"
  shows "\<exists>q. Add fresh h p = Some q \<and> length (m_buffer q) = GetSerializedSize h + length (m_buffer p)"
  using Add_some [OF assms] by (metis length_append)

end

text \<open>The law from a header that writes a fixed sequence of bytes and reads it back.\<close>

lemma codec_of_bytes:
  assumes "\<And>i. Serialize h i = Write bs i" and "length bs = n" and "length junk = n"
    and "\<And>h0. into h0 h \<Longrightarrow> Deserialize h0 \<lparr>it_before = [], it_after = bs @ pl\<rparr> = Some (reads h0 h pl, n)"
  shows "\<exists>bs i. Serialize h (Begin (junk @ pl)) = Some i \<and> window i = bs @ pl \<and> length bs = n \<and>
    (\<forall>h0. into h0 h \<longrightarrow> Deserialize h0 (Begin (bs @ pl)) = Some (reads h0 h pl, n))"
  using assms by (intro exI [of _ bs]) (auto simp: Write_def Begin_def window_def)

section \<open>Two headers, one inside the other\<close>

locale header_stack =
  inner: header_codec isize iser ides iok iinto ireads +
  outer: header_codec osize oser odes ook ointo oreads
  for isize :: "'h \<Rightarrow> nat" and iser ides iok iinto ireads
    and osize :: "'g \<Rightarrow> nat" and oser odes ook ointo oreads
begin

lemma decapsulate:
  assumes "iok h (m_buffer p)" and "allocates fresh" and "iinto h0 h"
    and "\<And>pl. length pl = isize h + length (m_buffer p) \<Longrightarrow> ook g pl" and "ointo g0 g"
  shows "\<exists>g1. do {
      p1 \<leftarrow> AddHeader isize iser fresh h p;
      p2 \<leftarrow> AddHeader osize oser fresh g p1;
      (g', n, p3) \<leftarrow> RemoveHeader odes g0 p2;
      (h', m, p4) \<leftarrow> RemoveHeader ides h0 p3;
      Some (g', n, h', m, p4) } =
    Some (g1, osize g, ireads h0 h (m_buffer p), isize h, p)"
proof -
  obtain q where q: "AddHeader isize iser fresh h p = Some q"
      "length (m_buffer q) = isize h + length (m_buffer p)"
    using inner.Add_size [OF assms(1,2)] by blast
  have rq: "RemoveHeader ides h0 q = Some (ireads h0 h (m_buffer p), isize h, p)"
    using inner.Remove_Add [OF assms(1-3)] q by simp
  from outer.Remove_Add [OF assms(4) [OF q(2)] assms(2,5)]
  obtain r where "AddHeader osize oser fresh g q = Some r"
    "RemoveHeader odes g0 r = Some (oreads g0 g (m_buffer q), osize g, q)"
    by (auto simp: bind_eq_Some_conv)
  with q rq show ?thesis by simp
qed

end

end
