(* ===== verification/Link_Headers.thy ===== *)
theory Link_Headers
  imports Header_Codec
begin

text \<open>
  Headers of the link layers and of the applications, each a record with the operations of its
  class and an interpretation of \<open>header_codec\<close>: \<^verbatim>\<open>PppHeader\<close>
  (\<^verbatim>\<open>point-to-point/model/ppp-header.cc\<close>), \<^verbatim>\<open>LlcSnapHeader\<close>, \<^verbatim>\<open>EthernetHeader\<close>, \<^verbatim>\<open>SllHeader\<close>
  (\<^verbatim>\<open>network/utils\<close>), \<^verbatim>\<open>SeqTsHeader\<close>, \<^verbatim>\<open>SeqTsSizeHeader\<close>, \<^verbatim>\<open>SeqTsEchoHeader\<close>
  (\<^verbatim>\<open>applications/model\<close>).
\<close>

section \<open>PppHeader\<close>

record PppHeader =
  ppp_protocol :: u16

definition PppHeader_GetSerializedSize :: "PppHeader \<Rightarrow> nat" where
  "PppHeader_GetSerializedSize h = 2"

definition PppHeader_Serialize :: "PppHeader \<Rightarrow> Iterator \<Rightarrow> Iterator option" where
  "PppHeader_Serialize h start = WriteHtonU16 (ppp_protocol h) start"

definition PppHeader_Deserialize :: "PppHeader \<Rightarrow> Iterator \<Rightarrow> (PppHeader \<times> nat) option" where
  "PppHeader_Deserialize h start = do {
     (v, start) \<leftarrow> ReadNtohU16 start;
     let h = h\<lparr>ppp_protocol := v\<rparr>;
     Some (h, PppHeader_GetSerializedSize h) }"

text \<open>
  \<^verbatim>\<open>PointToPointNetDevice::PppToEther\<close> and \<^verbatim>\<open>EtherToPpp\<close>: 0 for the protocols that an assertion excludes.
\<close>

definition PppToEther :: "u16 \<Rightarrow> u16" where
  "PppToEther proto =
     (if proto = 0x0021 then 0x0800
      else if proto = 0x0057 then 0x86DD
      else 0)"

definition EtherToPpp :: "u16 \<Rightarrow> u16" where
  "EtherToPpp proto =
     (if proto = 0x0800 then 0x0021
      else if proto = 0x86DD then 0x0057
      else 0)"

interpretation ppp: header_codec PppHeader_GetSerializedSize PppHeader_Serialize PppHeader_Deserialize
  "\<lambda>h pl. True" "\<lambda>h0 h. True" "\<lambda>h0 h pl. h0\<lparr>ppp_protocol := ppp_protocol h\<rparr>"
proof (unfold_locales, rule codec_of_bytes [where bs = "be_bytes 2 (ppp_protocol h)" for h])
  fix h h0 :: PppHeader and pl
  show "PppHeader_Deserialize h0 \<lparr>it_before = [], it_after = be_bytes 2 (ppp_protocol h) @ pl\<rparr> =
    Some (h0\<lparr>ppp_protocol := ppp_protocol h\<rparr>, PppHeader_GetSerializedSize h)"
    by (simp add: PppHeader_Deserialize_def PppHeader_GetSerializedSize_def codec_simps)
qed (simp_all add: PppHeader_Serialize_def PppHeader_GetSerializedSize_def codec_simps)

section \<open>LlcSnapHeader\<close>

record LlcSnapHeader =
  llc_etherType :: u16

definition LLC_SNAP_HEADER_LENGTH :: nat where
  "LLC_SNAP_HEADER_LENGTH = 8"

definition LlcSnapHeader_GetSerializedSize :: "LlcSnapHeader \<Rightarrow> nat" where
  "LlcSnapHeader_GetSerializedSize h = LLC_SNAP_HEADER_LENGTH"

definition LlcSnapHeader_Serialize :: "LlcSnapHeader \<Rightarrow> Iterator \<Rightarrow> Iterator option" where
  "LlcSnapHeader_Serialize h start = do {
     i \<leftarrow> Write [0xaa, 0xaa, 0x03, 0, 0, 0] start;
     WriteHtonU16 (llc_etherType h) i }"

definition LlcSnapHeader_Deserialize :: "LlcSnapHeader \<Rightarrow> Iterator \<Rightarrow> (LlcSnapHeader \<times> nat) option" where
  "LlcSnapHeader_Deserialize h start = do {
     i \<leftarrow> Next (5 + 1) start;
     (v, i) \<leftarrow> ReadNtohU16 i;
     let h = h\<lparr>llc_etherType := v\<rparr>;
     Some (h, LlcSnapHeader_GetSerializedSize h) }"

interpretation llc: header_codec LlcSnapHeader_GetSerializedSize LlcSnapHeader_Serialize
  LlcSnapHeader_Deserialize "\<lambda>h pl. True" "\<lambda>h0 h. True" "\<lambda>h0 h pl. h0\<lparr>llc_etherType := llc_etherType h\<rparr>"
proof (unfold_locales, rule codec_of_bytes
    [where bs = "[0xaa, 0xaa, 0x03, 0, 0, 0] @ be_bytes 2 (llc_etherType h)" for h])
  fix h h0 :: LlcSnapHeader and pl
  show "LlcSnapHeader_Deserialize h0
      \<lparr>it_before = [], it_after = ([0xaa, 0xaa, 0x03, 0, 0, 0] @ be_bytes 2 (llc_etherType h)) @ pl\<rparr> =
    Some (h0\<lparr>llc_etherType := llc_etherType h\<rparr>, LlcSnapHeader_GetSerializedSize h)"
    using Next_append [of "[0xaa, 0xaa, 0x03, 0, 0, 0]" "6" "[]" "be_bytes 2 (llc_etherType h) @ pl"]
    by (simp add: LlcSnapHeader_Deserialize_def LlcSnapHeader_GetSerializedSize_def codec_simps)
qed (simp_all add: LlcSnapHeader_Serialize_def LlcSnapHeader_GetSerializedSize_def
      LLC_SNAP_HEADER_LENGTH_def codec_simps)

section \<open>EthernetHeader\<close>

text \<open>A \<^verbatim>\<open>Mac48Address\<close> is its six bytes.\<close>

type_synonym Mac48Address = "u8 list"

definition WriteTo_Mac48 :: "Mac48Address \<Rightarrow> Iterator \<Rightarrow> Iterator option" where
  "WriteTo_Mac48 ad i = Write (take 6 ad) i"

definition ReadFrom_Mac48 :: "Iterator \<Rightarrow> (Mac48Address \<times> Iterator) option" where
  "ReadFrom_Mac48 i = Read 6 i"

record EthernetHeader =
  m_enPreambleSfd :: bool
  m_preambleSfd :: u64
  m_lengthType :: u16
  eth_source :: Mac48Address
  eth_destination :: Mac48Address

definition PREAMBLE_SIZE :: nat where "PREAMBLE_SIZE = 8"
definition LENGTH_SIZE :: nat where "LENGTH_SIZE = 2"
definition MAC_ADDR_SIZE :: nat where "MAC_ADDR_SIZE = 6"

definition EthernetHeader_GetSerializedSize :: "EthernetHeader \<Rightarrow> nat" where
  "EthernetHeader_GetSerializedSize h =
     (if m_enPreambleSfd h then PREAMBLE_SIZE + LENGTH_SIZE + 2 * MAC_ADDR_SIZE
      else LENGTH_SIZE + 2 * MAC_ADDR_SIZE)"

definition EthernetHeader_Serialize :: "EthernetHeader \<Rightarrow> Iterator \<Rightarrow> Iterator option" where
  "EthernetHeader_Serialize h start = do {
     i \<leftarrow> (if m_enPreambleSfd h then WriteU64 (m_preambleSfd h) start else Some start);
     i \<leftarrow> WriteTo_Mac48 (eth_destination h) i;
     i \<leftarrow> WriteTo_Mac48 (eth_source h) i;
     WriteHtonU16 (m_lengthType h) i }"

text \<open>The code stores the 64 bits it reads for the preamble in the flag \<^verbatim>\<open>m_enPreambleSfd\<close>.\<close>

definition EthernetHeader_Deserialize :: "EthernetHeader \<Rightarrow> Iterator \<Rightarrow> (EthernetHeader \<times> nat) option" where
  "EthernetHeader_Deserialize h start = do {
     (h, i) \<leftarrow> (if m_enPreambleSfd h then do {
         (v, i) \<leftarrow> ReadU64 start;
         Some (h\<lparr>m_enPreambleSfd := v \<noteq> 0\<rparr>, i) }
       else Some (h, start));
     (d, i) \<leftarrow> ReadFrom_Mac48 i;
     (s, i) \<leftarrow> ReadFrom_Mac48 i;
     (v, i) \<leftarrow> ReadNtohU16 i;
     let h = h\<lparr>eth_destination := d, eth_source := s, m_lengthType := v\<rparr>;
     Some (h, EthernetHeader_GetSerializedSize h) }"

definition ethernet_ok :: "EthernetHeader \<Rightarrow> bool" where
  "ethernet_ok h \<longleftrightarrow> length (eth_source h) = 6 \<and> length (eth_destination h) = 6"

definition ethernet_bytes :: "EthernetHeader \<Rightarrow> u8 list" where
  "ethernet_bytes h = (if m_enPreambleSfd h then le_bytes 8 (m_preambleSfd h) else []) @
     eth_destination h @ eth_source h @ be_bytes 2 (m_lengthType h)"

lemma ethernet_serialize: "ethernet_ok h \<Longrightarrow> EthernetHeader_Serialize h i = Write (ethernet_bytes h) i"
  by (simp add: EthernetHeader_Serialize_def ethernet_bytes_def ethernet_ok_def WriteTo_Mac48_def codec_simps)

lemma ethernet_length: "ethernet_ok h \<Longrightarrow> length (ethernet_bytes h) = EthernetHeader_GetSerializedSize h"
  by (simp add: EthernetHeader_GetSerializedSize_def ethernet_bytes_def ethernet_ok_def PREAMBLE_SIZE_def
      LENGTH_SIZE_def MAC_ADDR_SIZE_def)

text \<open>What the reader really gets, with or without a preamble.\<close>

lemma ethernet_deserialize:
  assumes "ethernet_ok h" and "m_enPreambleSfd h0 = m_enPreambleSfd h"
  shows "EthernetHeader_Deserialize h0 \<lparr>it_before = [], it_after = ethernet_bytes h @ pl\<rparr> =
    (let h1 = h0\<lparr>m_enPreambleSfd := m_enPreambleSfd h \<and> m_preambleSfd h \<noteq> 0,
                 eth_destination := eth_destination h, eth_source := eth_source h,
                 m_lengthType := m_lengthType h\<rparr>
     in Some (h1, EthernetHeader_GetSerializedSize h1))"
  using assms
  by (cases h0) (simp add: EthernetHeader_Deserialize_def ethernet_bytes_def ethernet_ok_def
      ReadFrom_Mac48_def codec_simps Let_def EthernetHeader_GetSerializedSize_def)

text \<open>Without a preamble, which is how the simulator uses it, the header keeps the contract.\<close>

interpretation ethernet: header_codec EthernetHeader_GetSerializedSize EthernetHeader_Serialize
  EthernetHeader_Deserialize "\<lambda>h pl. ethernet_ok h \<and> \<not> m_enPreambleSfd h" "\<lambda>h0 h. \<not> m_enPreambleSfd h0"
  "\<lambda>h0 h pl. h0\<lparr>eth_destination := eth_destination h, eth_source := eth_source h,
     m_lengthType := m_lengthType h\<rparr>"
  by (unfold_locales, rule_tac bs = "ethernet_bytes h" in codec_of_bytes)
     (auto simp: ethernet_serialize ethernet_length ethernet_deserialize Let_def
      EthernetHeader_GetSerializedSize_def)

section \<open>SllHeader\<close>

datatype PacketType =
    UNICAST_FROM_PEER_TO_ME | BROADCAST_BY_PEER | MULTICAST_BY_PEER | INTERCEPTED_PACKET | SENT_BY_US
  | OTHER_TYPE u16

text \<open>The enumerators and their numbers; a cast keeps numbers that no enumerator has.\<close>

fun PacketType_number :: "PacketType \<Rightarrow> u16" where
  "PacketType_number UNICAST_FROM_PEER_TO_ME = 0"
| "PacketType_number BROADCAST_BY_PEER = 1"
| "PacketType_number MULTICAST_BY_PEER = 2"
| "PacketType_number INTERCEPTED_PACKET = 3"
| "PacketType_number SENT_BY_US = 4"
| "PacketType_number (OTHER_TYPE n) = n"

definition PacketType_cast :: "u16 \<Rightarrow> PacketType" where
  "PacketType_cast n =
     (if n = 0 then UNICAST_FROM_PEER_TO_ME else if n = 1 then BROADCAST_BY_PEER
      else if n = 2 then MULTICAST_BY_PEER else if n = 3 then INTERCEPTED_PACKET
      else if n = 4 then SENT_BY_US else OTHER_TYPE n)"

record SllHeader =
  sll_packetType :: PacketType
  sll_arphdType :: u16
  sll_addressLength :: u16
  sll_address :: u64
  sll_protocolType :: u16

definition SllHeader_GetSerializedSize :: "SllHeader \<Rightarrow> nat" where
  "SllHeader_GetSerializedSize h = 2 + 2 + 2 + 8 + 2"

definition SllHeader_Serialize :: "SllHeader \<Rightarrow> Iterator \<Rightarrow> Iterator option" where
  "SllHeader_Serialize h start = do {
     i \<leftarrow> WriteHtonU16 (PacketType_number (sll_packetType h)) start;
     i \<leftarrow> WriteHtonU16 (sll_arphdType h) i;
     i \<leftarrow> WriteHtonU16 (sll_addressLength h) i;
     i \<leftarrow> WriteHtonU64 (sll_address h) i;
     WriteHtonU16 (sll_protocolType h) i }"

definition SllHeader_Deserialize :: "SllHeader \<Rightarrow> Iterator \<Rightarrow> (SllHeader \<times> nat) option" where
  "SllHeader_Deserialize h start = do {
     (t, i) \<leftarrow> ReadNtohU16 start;
     (a, i) \<leftarrow> ReadNtohU16 i;
     (l, i) \<leftarrow> ReadNtohU16 i;
     (d, i) \<leftarrow> ReadNtohU64 i;
     (p, i) \<leftarrow> ReadNtohU16 i;
     let h = h\<lparr>sll_packetType := PacketType_cast t, sll_arphdType := a, sll_addressLength := l,
               sll_address := d, sll_protocolType := p\<rparr>;
     Some (h, SllHeader_GetSerializedSize h) }"

definition sll_bytes :: "SllHeader \<Rightarrow> u8 list" where
  "sll_bytes h = be_bytes 2 (PacketType_number (sll_packetType h)) @ be_bytes 2 (sll_arphdType h) @
     be_bytes 2 (sll_addressLength h) @ be_bytes 8 (sll_address h) @ be_bytes 2 (sll_protocolType h)"

lemma PacketType_cast_number:
  "(\<forall>n. t = OTHER_TYPE n \<longrightarrow> 4 < n) \<Longrightarrow> PacketType_cast (PacketType_number t) = t"
  by (cases t) (auto simp: PacketType_cast_def)

interpretation sll: header_codec SllHeader_GetSerializedSize SllHeader_Serialize SllHeader_Deserialize
  "\<lambda>h pl. \<forall>n. sll_packetType h = OTHER_TYPE n \<longrightarrow> 4 < n" "\<lambda>h0 h. True" "\<lambda>h0 h pl. h"
  by (unfold_locales, rule_tac bs = "sll_bytes h" in codec_of_bytes)
     (simp_all add: SllHeader_Serialize_def SllHeader_Deserialize_def SllHeader_GetSerializedSize_def
      sll_bytes_def codec_simps PacketType_cast_number)

section \<open>SeqTsHeader, SeqTsSizeHeader, SeqTsEchoHeader\<close>

text \<open>\<^verbatim>\<open>Time::GetTimeStep\<close> and \<^verbatim>\<open>TimeStep\<close> are the 64 bits of the time.\<close>

record SeqTsHeader =
  seq_seq :: u32
  seq_ts :: u64

definition SeqTsHeader_GetSerializedSize :: "'a SeqTsHeader_scheme \<Rightarrow> nat" where
  "SeqTsHeader_GetSerializedSize h = 4 + 8"

definition SeqTsHeader_Serialize :: "'a SeqTsHeader_scheme \<Rightarrow> Iterator \<Rightarrow> Iterator option" where
  "SeqTsHeader_Serialize h start = do {
     i \<leftarrow> WriteHtonU32 (seq_seq h) start;
     WriteHtonU64 (seq_ts h) i }"

definition SeqTsHeader_Deserialize ::
  "'a SeqTsHeader_scheme \<Rightarrow> Iterator \<Rightarrow> ('a SeqTsHeader_scheme \<times> nat) option" where
  "SeqTsHeader_Deserialize h start = do {
     (s, i) \<leftarrow> ReadNtohU32 start;
     (t, i) \<leftarrow> ReadNtohU64 i;
     let h = h\<lparr>seq_seq := s, seq_ts := t\<rparr>;
     Some (h, SeqTsHeader_GetSerializedSize h) }"

text \<open>\<^verbatim>\<open>SeqTsSizeHeader\<close> extends \<^verbatim>\<open>SeqTsHeader\<close> and puts its size in front.\<close>

record SeqTsSizeHeader = SeqTsHeader +
  seq_size :: u64

definition SeqTsSizeHeader_GetSerializedSize :: "SeqTsSizeHeader \<Rightarrow> nat" where
  "SeqTsSizeHeader_GetSerializedSize h = SeqTsHeader_GetSerializedSize h + 8"

definition SeqTsSizeHeader_Serialize :: "SeqTsSizeHeader \<Rightarrow> Iterator \<Rightarrow> Iterator option" where
  "SeqTsSizeHeader_Serialize h start = do {
     i \<leftarrow> WriteHtonU64 (seq_size h) start;
     SeqTsHeader_Serialize h i }"

definition SeqTsSizeHeader_Deserialize ::
  "SeqTsSizeHeader \<Rightarrow> Iterator \<Rightarrow> (SeqTsSizeHeader \<times> nat) option" where
  "SeqTsSizeHeader_Deserialize h start = do {
     (n, i) \<leftarrow> ReadNtohU64 start;
     let h = h\<lparr>seq_size := n\<rparr>;
     (h, _) \<leftarrow> SeqTsHeader_Deserialize h i;
     Some (h, SeqTsSizeHeader_GetSerializedSize h) }"

record SeqTsEchoHeader =
  echo_seq :: u32
  echo_tsValue :: u64
  echo_tsEchoReply :: u64

definition SeqTsEchoHeader_GetSerializedSize :: "SeqTsEchoHeader \<Rightarrow> nat" where
  "SeqTsEchoHeader_GetSerializedSize h = 4 + 8 + 8"

definition SeqTsEchoHeader_Serialize :: "SeqTsEchoHeader \<Rightarrow> Iterator \<Rightarrow> Iterator option" where
  "SeqTsEchoHeader_Serialize h start = do {
     i \<leftarrow> WriteHtonU32 (echo_seq h) start;
     i \<leftarrow> WriteHtonU64 (echo_tsValue h) i;
     WriteHtonU64 (echo_tsEchoReply h) i }"

definition SeqTsEchoHeader_Deserialize ::
  "SeqTsEchoHeader \<Rightarrow> Iterator \<Rightarrow> (SeqTsEchoHeader \<times> nat) option" where
  "SeqTsEchoHeader_Deserialize h start = do {
     (s, i) \<leftarrow> ReadNtohU32 start;
     (t, i) \<leftarrow> ReadNtohU64 i;
     (e, i) \<leftarrow> ReadNtohU64 i;
     let h = h\<lparr>echo_seq := s, echo_tsValue := t, echo_tsEchoReply := e\<rparr>;
     Some (h, SeqTsEchoHeader_GetSerializedSize h) }"

interpretation seqts: header_codec "SeqTsHeader_GetSerializedSize :: SeqTsHeader \<Rightarrow> nat"
  SeqTsHeader_Serialize SeqTsHeader_Deserialize "\<lambda>h pl. True" "\<lambda>h0 h. True" "\<lambda>h0 h pl. h"
  by (unfold_locales, rule_tac bs = "be_bytes 4 (seq_seq h) @ be_bytes 8 (seq_ts h)" in codec_of_bytes)
     (simp_all add: SeqTsHeader_Serialize_def SeqTsHeader_Deserialize_def
      SeqTsHeader_GetSerializedSize_def codec_simps)

interpretation seqtssize: header_codec SeqTsSizeHeader_GetSerializedSize SeqTsSizeHeader_Serialize
  SeqTsSizeHeader_Deserialize "\<lambda>h pl. True" "\<lambda>h0 h. True" "\<lambda>h0 h pl. h"
  by (unfold_locales, rule_tac bs = "be_bytes 8 (seq_size h) @ be_bytes 4 (seq_seq h) @ be_bytes 8 (seq_ts h)"
        in codec_of_bytes)
     (simp_all add: SeqTsSizeHeader_Serialize_def SeqTsSizeHeader_Deserialize_def
      SeqTsSizeHeader_GetSerializedSize_def SeqTsHeader_Serialize_def SeqTsHeader_Deserialize_def
      SeqTsHeader_GetSerializedSize_def codec_simps)

interpretation seqtsecho: header_codec SeqTsEchoHeader_GetSerializedSize SeqTsEchoHeader_Serialize
  SeqTsEchoHeader_Deserialize "\<lambda>h pl. True" "\<lambda>h0 h. True" "\<lambda>h0 h pl. h"
  by (unfold_locales, rule_tac bs = "be_bytes 4 (echo_seq h) @ be_bytes 8 (echo_tsValue h) @
        be_bytes 8 (echo_tsEchoReply h)" in codec_of_bytes)
     (simp_all add: SeqTsEchoHeader_Serialize_def SeqTsEchoHeader_Deserialize_def
      SeqTsEchoHeader_GetSerializedSize_def codec_simps)

end
