(* ===== verification/Net_Address.thy ===== *)
theory Net_Address
  imports Buffer_Iterator
begin

text \<open>
  The polymorphic \<^verbatim>\<open>Address\<close> of \<^verbatim>\<open>network/model/address.cc\<close> and its transfer to and from an iterator
  (\<^verbatim>\<open>network/utils/address-utils.cc\<close>).  \<^verbatim>\<open>m_len\<close> is the length of \<open>a_data\<close>; the object has room for
  \<^verbatim>\<open>MAX_SIZE\<close> bytes.
\<close>

definition MAX_SIZE :: nat where
  "MAX_SIZE = 20"

record Address =
  a_type :: u8
  a_data :: "u8 list"

type_synonym Ipv4Address = u32

definition GetLength :: "Address \<Rightarrow> nat" where
  "GetLength a = length (a_data a)"

definition IsInvalid :: "Address \<Rightarrow> bool" where
  "IsInvalid a \<longleftrightarrow> GetLength a = 0 \<and> a_type a = 0"

text \<open>\<open>None\<close> where the code would copy more than \<^verbatim>\<open>MAX_SIZE\<close> bytes into the object.\<close>

definition CopyFrom :: "u8 list \<Rightarrow> Address \<Rightarrow> Address option" where
  "CopyFrom buffer a = (if MAX_SIZE < length buffer then None else Some (a\<lparr>a_data := buffer\<rparr>))"

definition CopyAllTo :: "Address \<Rightarrow> u8 list" where
  "CopyAllTo a = [a_type a, of_nat (GetLength a)] @ a_data a"

definition CopyAllFrom :: "u8 list \<Rightarrow> Address option" where
  "CopyAllFrom buffer =
     (case buffer of
        t # l # bytes \<Rightarrow>
          if MAX_SIZE < unat l \<or> length bytes < unat l then None
          else Some \<lparr>a_type = t, a_data = take (unat l) bytes\<rparr>
      | _ \<Rightarrow> None)"

definition CheckCompatible :: "Address \<Rightarrow> u8 \<Rightarrow> nat \<Rightarrow> bool" where
  "CheckCompatible a type len \<longleftrightarrow>
     (GetLength a = len \<and> a_type a = type) \<or> (GetLength a \<ge> len \<and> a_type a = 0)"

definition IsMatchingType :: "Address \<Rightarrow> u8 \<Rightarrow> bool" where
  "IsMatchingType a type \<longleftrightarrow> a_type a = type"

text \<open>\<^verbatim>\<open>operator ==\<close>: a type of zero is compatible with every type.\<close>

definition Address_eq :: "Address \<Rightarrow> Address \<Rightarrow> bool" where
  "Address_eq a b \<longleftrightarrow>
     (if a_type a \<noteq> a_type b \<and> a_type a \<noteq> 0 \<and> a_type b \<noteq> 0 then False
      else if GetLength a \<noteq> GetLength b then False
      else a_data a = a_data b)"

text \<open>\<^verbatim>\<open>operator <\<close>: by type, then length, then the bytes from the first.\<close>

fun bytes_less :: "u8 list \<Rightarrow> u8 list \<Rightarrow> bool" where
  "bytes_less (a # as) (b # bs) =
     (if a < b then True else if b < a then False else bytes_less as bs)"
| "bytes_less _ _ = False"

definition Address_less :: "Address \<Rightarrow> Address \<Rightarrow> bool" where
  "Address_less a b =
     (if a_type a < a_type b then True
      else if a_type b < a_type a then False
      else if GetLength a < GetLength b then True
      else if GetLength b < GetLength a then False
      else bytes_less (a_data a) (a_data b))"

definition WriteTo_Ipv4 :: "Ipv4Address \<Rightarrow> Iterator \<Rightarrow> Iterator option" where
  "WriteTo_Ipv4 ad i = WriteHtonU32 ad i"

definition ReadFrom_Ipv4 :: "Iterator \<Rightarrow> (Ipv4Address \<times> Iterator) option" where
  "ReadFrom_Ipv4 i = ReadNtohU32 i"

definition WriteTo_Address :: "Address \<Rightarrow> Iterator \<Rightarrow> Iterator option" where
  "WriteTo_Address ad i = Write (a_data ad) i"

text \<open>
  \<^verbatim>\<open>ReadFrom\<close> reads into an array of \<^verbatim>\<open>MAX_SIZE\<close> bytes on the stack before it fills the address: \<open>None\<close>
  is the overflow of that array.
\<close>

definition ReadFrom_Address :: "nat \<Rightarrow> Address \<Rightarrow> Iterator \<Rightarrow> (Address \<times> Iterator) option" where
  "ReadFrom_Address len ad i =
     (if MAX_SIZE < len then None
      else do {
        (mac, i) \<leftarrow> Read len i;
        ad \<leftarrow> CopyFrom mac ad;
        Some (ad, i) })"

section \<open>Properties\<close>

lemma ReadFrom_Address_append [codec_simps]:
  "length bs = n \<Longrightarrow> n \<le> MAX_SIZE \<Longrightarrow>
   ReadFrom_Address n ad \<lparr>it_before = pre, it_after = bs @ suf\<rparr> =
     Some (ad\<lparr>a_data := bs\<rparr>, \<lparr>it_before = pre @ bs, it_after = suf\<rparr>)"
  by (simp add: ReadFrom_Address_def CopyFrom_def codec_simps)

lemma CopyAll_roundtrip:
  assumes "GetLength a \<le> MAX_SIZE"
  shows "CopyAllFrom (CopyAllTo a @ rest) = Some a"
proof -
  have "unat (of_nat (GetLength a) :: u8) = GetLength a"
    using assms by (simp add: unat_of_nat MAX_SIZE_def)
  with assms show ?thesis by (simp add: CopyAllFrom_def CopyAllTo_def GetLength_def)
qed

lemma bytes_less_antisym: "length as = length bs \<Longrightarrow> bytes_less as bs \<Longrightarrow> \<not> bytes_less bs as"
  by (induction as bs rule: bytes_less.induct) (auto split: if_splits)

lemma bytes_less_trans:
  "length as = length bs \<Longrightarrow> length bs = length cs \<Longrightarrow> bytes_less as bs \<Longrightarrow> bytes_less bs cs \<Longrightarrow>
   bytes_less as cs"
proof (induction as bs arbitrary: cs rule: bytes_less.induct)
  case (1 a as b bs)
  then show ?case by (cases cs) (auto split: if_splits dest: less_trans order.asym)
qed auto

lemma bytes_less_total:
  "length as = length bs \<Longrightarrow> as \<noteq> bs \<Longrightarrow> bytes_less as bs \<or> bytes_less bs as"
proof (induction as bs rule: bytes_less.induct)
  case (1 a as b bs)
  then show ?case by (cases "a = b") (auto simp: neq_iff)
qed auto

text \<open>\<^verbatim>\<open>operator <\<close> is a strict total order, as the containers keyed by addresses need.\<close>

lemma Address_less_irrefl: "\<not> Address_less a a"
  using bytes_less_antisym [of "a_data a" "a_data a"] by (auto simp: Address_less_def)

lemma Address_less_total: "a \<noteq> b \<Longrightarrow> Address_less a b \<or> Address_less b a" for a b :: Address
  using bytes_less_total [of "a_data a" "a_data b"]
  by (cases a; cases b) (auto simp: Address_less_def GetLength_def)

lemma Address_less_trans: "Address_less a b \<Longrightarrow> Address_less b c \<Longrightarrow> Address_less a c"
  using bytes_less_trans [of "a_data a" "a_data b" "a_data c"]
  by (auto simp: Address_less_def GetLength_def split: if_splits)

text \<open>
  \<open>==\<close> is not transitive: an address of unknown type equals addresses of two types that differ
  from each other.
\<close>

lemma Address_eq_not_transitive:
  "\<exists>a b c. Address_eq a b \<and> Address_eq b c \<and> \<not> Address_eq a c"
  by (rule exI [of _ "\<lparr>a_type = 1, a_data = [7]\<rparr>"], rule exI [of _ "\<lparr>a_type = 0, a_data = [7]\<rparr>"],
      rule exI [of _ "\<lparr>a_type = 2, a_data = [7]\<rparr>"]) (simp add: Address_eq_def GetLength_def)

end
