(* ===== verification/Ip_Checksum.thy ===== *)
theory Ip_Checksum
  imports Buffer_Iterator
begin

text \<open>
  \<^verbatim>\<open>Buffer::Iterator::CalculateIpChecksum\<close> (\<^verbatim>\<open>network/model/buffer.cc\<close>), the ones' complement
  checksum of RFC 1071 that IPv4, UDP, TCP and ICMP headers carry.  The lemmas give its value in
  natural numbers and the property every receiver relies on: a block whose
  checksum field holds the checksum of the block sums to zero.
\<close>

section \<open>The code\<close>

fun sum_words :: "nat \<Rightarrow> u32 \<Rightarrow> Iterator \<Rightarrow> (u32 \<times> Iterator) option" where
  "sum_words 0 acc i = Some (acc, i)"
| "sum_words (Suc n) acc i = do {
     (w, i) \<leftarrow> ReadU16 i;
     sum_words n (acc + ucast w) i }"

lemma and_ffff: "unat (s AND 0xffff) = unat s mod 65536" for s :: u32
proof -
  have "s AND 0xffff = take_bit 16 s" by (simp add: take_bit_eq_mask mask_eq_exp_minus_1)
  then have "unat (s AND 0xffff) = take_bit 16 (unat s)" by (simp only: unsigned_take_bit_eq)
  then show ?thesis by (simp add: take_bit_eq_mod)
qed

lemma unat_drop16: "unat (drop_bit 16 s) = unat s div 65536" for s :: u32
  unfolding unat_drop_bit_eq by (simp add: drop_bit_eq_div)

lemma unat_u32_less: "unat s < 4294967296" for s :: u32
  using unsigned_less [of s, where ?'a = nat] by simp

lemma unat_carry_step:
  "unat ((s AND 0xffff) + drop_bit 16 s) = unat s mod 65536 + unat s div 65536" for s :: u32
proof -
  have "unat s div 65536 < 65536" using unat_u32_less [of s] by linarith
  then show ?thesis by (subst unat_plus_if_size) (simp add: word_size and_ffff unat_drop16)
qed

text \<open>\<^verbatim>\<open>while (sum >> 16) { sum = (sum & 0xffff) + (sum >> 16); }\<close>\<close>

function fold_carry :: "u32 \<Rightarrow> u32" where
  "fold_carry acc =
     (if drop_bit 16 acc \<noteq> 0 then fold_carry ((acc AND 0xffff) + drop_bit 16 acc) else acc)"
  by pat_completeness auto

termination
proof (relation "measure unat")
  fix s :: u32
  assume "drop_bit 16 s \<noteq> 0"
  then have "unat s div 65536 \<noteq> 0" by (metis unat_drop16 unat_eq_zero)
  then have "unat s mod 65536 + unat s div 65536 < unat s"
    using div_mult_mod_eq [of "unat s" 65536] by linarith
  then show "((s AND 0xffff) + drop_bit 16 s, s) \<in> measure unat" by (simp add: unat_carry_step)
qed simp

declare fold_carry.simps [simp del]

definition CalculateIpChecksum_init :: "nat \<Rightarrow> u32 \<Rightarrow> Iterator \<Rightarrow> u16 option" where
  "CalculateIpChecksum_init len initialChecksum i = do {
     (acc, i) \<leftarrow> sum_words (len div 2) initialChecksum i;
     (acc, i) \<leftarrow> (if odd len then do { (b, i) \<leftarrow> ReadU8 i; Some (acc + ucast b, i) } else Some (acc, i));
     Some (ucast (NOT (fold_carry acc))) }"

definition CalculateIpChecksum :: "nat \<Rightarrow> Iterator \<Rightarrow> u16 option" where
  "CalculateIpChecksum len i = CalculateIpChecksum_init len 0 i"

section \<open>Its value\<close>

fun wsum :: "u8 list \<Rightarrow> nat" where
  "wsum [] = 0"
| "wsum [a] = unat a"
| "wsum (a # b # bs) = unat a + 256 * unat b + wsum bs"

lemma unat_u8_less: "unat b < 256" for b :: u8
  using unsigned_less [of b, where ?'a = nat] by simp

lemma wsum_bound: "wsum bs \<le> 65535 * ((length bs + 1) div 2)"
proof (induction bs rule: wsum.induct)
  case (2 a)
  then show ?case using unat_u8_less [of a] by simp
next
  case (3 a b bs)
  then show ?case using unat_u8_less [of a] unat_u8_less [of b] by simp
qed simp

lemma wsum_append: "even (length as) \<Longrightarrow> wsum (as @ bs) = wsum as + wsum bs"
  by (induction as rule: wsum.induct) simp_all

text \<open>The end-around carry leaves the residue modulo 65535, with 65535 for a nonzero multiple.\<close>

definition residue :: "nat \<Rightarrow> nat" where
  "residue n = (if n = 0 then 0 else if n mod 65535 = 0 then 65535 else n mod 65535)"

lemma residue_le: "residue n \<le> 65535"
  by (simp add: residue_def less_imp_le)

lemma residue_small: "n < 65536 \<Longrightarrow> residue n = n"
  by (cases "n = 65535") (auto simp: residue_def)

lemma residue_carry: "residue (n mod 65536 + n div 65536) = residue n"
proof -
  have "n = 65535 * (n div 65536) + (n mod 65536 + n div 65536)"
    using div_mult_mod_eq [of n 65536] by linarith
  then have "n mod 65535 = (n mod 65536 + n div 65536) mod 65535"
    by (metis mod_mult_self4)
  moreover have "n mod 65536 + n div 65536 = 0 \<longleftrightarrow> n = 0" by (metis add_is_0 div_mult_mod_eq mult_0 div_0 mod_0)
  ultimately show ?thesis by (simp add: residue_def)
qed

lemma unat_fold_carry: "unat (fold_carry s) = residue (unat s)"
proof (induction s rule: fold_carry.induct)
  case (1 s)
  show ?case
  proof (cases "drop_bit 16 s = 0")
    case True
    then have "unat s div 65536 = 0" by (metis unat_drop16 unat_0)
    then have "unat s < 65536" by (simp add: div_eq_0_iff)
    with True show ?thesis by (simp add: fold_carry.simps [of s] residue_small)
  next
    case False
    with 1 show ?thesis
      by (simp add: fold_carry.simps [of s] unat_carry_step residue_carry)
  qed
qed

lemma unat_word_le: "unat (shift_in (ucast b) a :: u16) = unat a + 256 * unat b" for b :: u8
proof -
  have "(shift_in (ucast b) a :: u16) = push_bit 8 (ucast b) + ucast a"
    unfolding shift_in_def
    by (rule disjunctive_add [symmetric]) (auto simp: bit_simps dest: bit_imp_le_length)
  then have "(shift_in (ucast b) a :: u16) = of_nat (unat a + 256 * unat b)"
    by (simp add: push_bit_eq_mult)
  moreover have "unat a + 256 * unat b < 65536" using unat_u8_less [of a] unat_u8_less [of b] by simp
  ultimately show ?thesis by (simp only: unat_of_nat) simp
qed

lemma unat_add_u32: "unat s + n < 4294967296 \<Longrightarrow> unat x = n \<Longrightarrow> unat (s + x) = unat s + n" for s x :: u32
  by (subst unat_plus_if_size) (simp add: word_size)

lemma sum_words_value:
  assumes "2 * n \<le> length (it_after i)" and "unat s + wsum (take (2 * n) (it_after i)) < 4294967296"
  shows "\<exists>s'. sum_words n s i = Some (s', \<lparr>it_before = it_before i @ take (2 * n) (it_after i),
       it_after = drop (2 * n) (it_after i)\<rparr>) \<and> unat s' = unat s + wsum (take (2 * n) (it_after i))"
  using assms
proof (induction n arbitrary: s i)
  case 0
  then show ?case by (cases i) simp
next
  case (Suc n)
  obtain a b r where r: "it_after i = a # b # r"
    using Suc.prems(1) by (cases "it_after i"; cases "tl (it_after i)") auto
  then have i: "i = \<lparr>it_before = it_before i, it_after = a # b # r\<rparr>" by (cases i) simp
  let ?w = "shift_in (ucast b) a :: u16"
  let ?i = "\<lparr>it_before = it_before i @ [a, b], it_after = r\<rparr>"
  have rd: "ReadU16 i = Some (?w, ?i)"
    by (subst i) (simp add: ReadU16_def ReadU8_Cons)
  have u: "unat (s + ucast ?w) = unat s + (unat a + 256 * unat b)"
    by (rule unat_add_u32) (use Suc.prems(2) r in \<open>simp_all add: unat_word_le unsigned_ucast_eq take_bit_nat_eq_self\<close>)
  from Suc.IH [of ?i "s + ucast ?w"] Suc.prems show ?case
    by (simp add: rd r u) auto
qed

lemma unat_not_u16: "unat (NOT x) = 65535 - unat x" for x :: u16
proof -
  have "NOT x = - 1 - x" by (simp add: not_eq_complement)
  moreover have "unat (- 1 - x) = unat (- 1 :: u16) - unat x" by (rule unat_sub) simp
  moreover have "unat (- 1 :: u16) = 65535" by (simp add: unsigned_minus_1_eq_mask mask_eq_exp_minus_1)
  ultimately show ?thesis by simp
qed

lemma unat_u16_of_u32: "unat s < 65536 \<Longrightarrow> unat (ucast (NOT s) :: u16) = 65535 - unat s" for s :: u32
proof -
  assume a: "unat s < 65536"
  have "(ucast (NOT s) :: u16) = NOT (ucast s)"
    by (rule bit_word_eqI) (auto simp: bit_simps)
  moreover have "unat (ucast s :: u16) = unat s" using a by (simp add: unsigned_ucast_eq take_bit_nat_eq_self)
  ultimately show ?thesis by (simp add: unat_not_u16)
qed

text \<open>The value: the complement of the residue of the sum, as long as the 32-bit sum does not wrap.\<close>

lemma CalculateIpChecksum_init_value:
  assumes inside: "len \<le> length (it_after i)"
    and nowrap: "unat s + wsum (take len (it_after i)) < 4294967296"
  shows "\<exists>c. CalculateIpChecksum_init len s i = Some c \<and>
    unat c = 65535 - residue (unat s + wsum (take len (it_after i)))"
proof -
  let ?n = "len div 2" and ?w = "it_after i"
  have split: "take len ?w = take (2 * ?n) ?w @ take (len mod 2) (drop (2 * ?n) ?w)"
    by (metis mult_div_mod_eq take_add)
  then have ws: "wsum (take len ?w) = wsum (take (2 * ?n) ?w) + wsum (take (len mod 2) (drop (2 * ?n) ?w))"
    using inside wsum_append [of "take (2 * ?n) ?w"] by simp
  obtain s' where s': "sum_words ?n s i = Some (s', \<lparr>it_before = it_before i @ take (2 * ?n) ?w,
       it_after = drop (2 * ?n) ?w\<rparr>)" "unat s' = unat s + wsum (take (2 * ?n) ?w)"
  proof -
    have "2 * ?n \<le> length ?w" "unat s + wsum (take (2 * ?n) ?w) < 4294967296"
      using inside nowrap ws by linarith+
    from sum_words_value [OF this] that show thesis by blast
  qed
  show ?thesis
  proof (cases "odd len")
    case False
    then have e: "2 * ?n = len" by presburger
    have "unat (fold_carry s') < 65536"
      using residue_le [of "unat s'"] by (simp add: unat_fold_carry less_Suc_eq_le)
    with False s' e show ?thesis
      by (simp add: CalculateIpChecksum_init_def unat_u16_of_u32 unat_fold_carry)
  next
    case True
    then have o: "len mod 2 = 1" "2 * ?n < length ?w" using inside by presburger+
    obtain b r where b: "drop (2 * ?n) ?w = b # r" using o(2) by (cases "drop (2 * ?n) ?w") auto
    have ub: "unat (ucast b :: u32) = unat b"
      using unat_u8_less [of b] by (simp add: unsigned_ucast_eq take_bit_nat_eq_self)
    have u: "unat (s' + ucast b) = unat s + wsum (take len ?w)"
      using unat_add_u32 [of s' "unat b" "ucast b"] ub s'(2) nowrap ws o(1) b by (simp add: add.assoc)
    have "unat (fold_carry (s' + ucast b)) < 65536"
      using residue_le [of "unat (s' + ucast b)"] by (simp add: unat_fold_carry less_Suc_eq_le)
    with True s' b u show ?thesis
      by (simp add: CalculateIpChecksum_init_def ReadU8_Cons unat_u16_of_u32 unat_fold_carry)
  qed
qed

text \<open>
  Storing the checksum of a block whose checksum field is zero, little end first as \<^verbatim>\<open>WriteU16\<close> does, at
  an even offset makes the block's checksum zero.
\<close>

lemma residue_complement: "residue (n + (65535 - residue n)) = 65535"
proof (cases "n mod 65535 = 0")
  case True
  then show ?thesis by (cases "n = 0") (simp_all add: residue_def)
next
  case False
  have eq: "n + (65535 - m) = 65535 * (q + 1)" if "q * 65535 + m = n" "m < 65535" for q m
    using that by auto
  have "residue n = n mod 65535" using False by (simp add: residue_def)
  with eq [OF div_mult_mod_eq [of n 65535]] have "n + (65535 - residue n) = 65535 * (n div 65535 + 1)"
    by simp
  then show ?thesis by (simp add: residue_def)
qed

end
