(* ===== verification/Ip_Headers.thy ===== *)
theory Ip_Headers
  imports Header_Codec Net_Address Ip_Checksum
begin

text \<open>
  Headers of the network and transport layers: \<^verbatim>\<open>ArpHeader\<close>, \<^verbatim>\<open>UdpHeader\<close> and \<^verbatim>\<open>Ipv4Header\<close>
  (\<^verbatim>\<open>internet/model\<close>), with the checksums the last two carry.
\<close>

section \<open>ArpHeader\<close>

record ArpHeader =
  arp_type :: u16
  arp_macSource :: Address
  arp_macDest :: Address
  arp_ipv4Source :: Ipv4Address
  arp_ipv4Dest :: Ipv4Address

definition ARP_TYPE_REQUEST :: u16 where "ARP_TYPE_REQUEST = 1"
definition ARP_TYPE_REPLY :: u16 where "ARP_TYPE_REPLY = 2"

definition SetRequest :: "Address \<Rightarrow> Ipv4Address \<Rightarrow> Address \<Rightarrow> Ipv4Address \<Rightarrow> ArpHeader \<Rightarrow> ArpHeader" where
  "SetRequest sha spa dha dpa h =
     h\<lparr>arp_type := ARP_TYPE_REQUEST, arp_macSource := sha, arp_macDest := dha,
       arp_ipv4Source := spa, arp_ipv4Dest := dpa\<rparr>"

definition SetReply :: "Address \<Rightarrow> Ipv4Address \<Rightarrow> Address \<Rightarrow> Ipv4Address \<Rightarrow> ArpHeader \<Rightarrow> ArpHeader" where
  "SetReply sha spa dha dpa h =
     h\<lparr>arp_type := ARP_TYPE_REPLY, arp_macSource := sha, arp_macDest := dha,
       arp_ipv4Source := spa, arp_ipv4Dest := dpa\<rparr>"

definition IsRequest :: "ArpHeader \<Rightarrow> bool" where
  "IsRequest h \<longleftrightarrow> arp_type h = ARP_TYPE_REQUEST"

definition IsReply :: "ArpHeader \<Rightarrow> bool" where
  "IsReply h \<longleftrightarrow> arp_type h = ARP_TYPE_REPLY"

definition ArpHeader_GetSerializedSize :: "ArpHeader \<Rightarrow> nat" where
  "ArpHeader_GetSerializedSize h = 16 + GetLength (arp_macSource h) * 2"

definition ArpHeader_Serialize :: "ArpHeader \<Rightarrow> Iterator \<Rightarrow> Iterator option" where
  "ArpHeader_Serialize h start = do {
     i \<leftarrow> WriteHtonU16 0x0001 start;
     i \<leftarrow> WriteHtonU16 0x0800 i;
     i \<leftarrow> WriteU8 (of_nat (GetLength (arp_macSource h))) i;
     i \<leftarrow> WriteU8 4 i;
     i \<leftarrow> WriteHtonU16 (arp_type h) i;
     i \<leftarrow> WriteTo_Address (arp_macSource h) i;
     i \<leftarrow> WriteTo_Ipv4 (arp_ipv4Source h) i;
     i \<leftarrow> WriteTo_Address (arp_macDest h) i;
     WriteTo_Ipv4 (arp_ipv4Dest h) i }"

definition ArpHeader_Deserialize :: "ArpHeader \<Rightarrow> Iterator \<Rightarrow> (ArpHeader \<times> nat) option" where
  "ArpHeader_Deserialize h start = do {
     i \<leftarrow> Next 2 start;
     (protocolType, i) \<leftarrow> ReadNtohU16 i;
     (hardwareAddressLen, i) \<leftarrow> ReadU8 i;
     (protocolAddressLen, i) \<leftarrow> ReadU8 i;
     if protocolType \<noteq> 0x800 \<or> protocolAddressLen \<noteq> 4 then Some (h, 0)
     else do {
       (t, i) \<leftarrow> ReadNtohU16 i;
       let h = h\<lparr>arp_type := t\<rparr>;
       (sha, i) \<leftarrow> ReadFrom_Address (unat hardwareAddressLen) (arp_macSource h) i;
       (spa, i) \<leftarrow> ReadFrom_Ipv4 i;
       (tha, i) \<leftarrow> ReadFrom_Address (unat hardwareAddressLen) (arp_macDest h) i;
       (tpa, i) \<leftarrow> ReadFrom_Ipv4 i;
       let h = h\<lparr>arp_macSource := sha, arp_ipv4Source := spa, arp_macDest := tha,
                 arp_ipv4Dest := tpa\<rparr>;
       Some (h, ArpHeader_GetSerializedSize h) } }"

definition arp_bytes :: "ArpHeader \<Rightarrow> u8 list" where
  "arp_bytes h = be_bytes 2 (0x0001 :: u16) @ be_bytes 2 (0x0800 :: u16) @
     [of_nat (GetLength (arp_macSource h)), 4] @ be_bytes 2 (arp_type h) @
     a_data (arp_macSource h) @ be_bytes 4 (arp_ipv4Source h) @ a_data (arp_macDest h) @
     be_bytes 4 (arp_ipv4Dest h)"

definition arp_ok :: "ArpHeader \<Rightarrow> bool" where
  "arp_ok h \<longleftrightarrow> GetLength (arp_macSource h) \<le> MAX_SIZE \<and>
     GetLength (arp_macDest h) = GetLength (arp_macSource h)"

text \<open>What is read back: everything but the types of the hardware addresses, which ARP does not carry.\<close>

definition arp_reads :: "ArpHeader \<Rightarrow> ArpHeader \<Rightarrow> u8 list \<Rightarrow> ArpHeader" where
  "arp_reads h0 h pl = h\<lparr>arp_macSource := (arp_macSource h0)\<lparr>a_data := a_data (arp_macSource h)\<rparr>,
     arp_macDest := (arp_macDest h0)\<lparr>a_data := a_data (arp_macDest h)\<rparr>\<rparr>"

lemma unat_length_byte: "n \<le> MAX_SIZE \<Longrightarrow> unat (of_nat n :: u8) = n"
  by (simp add: unat_of_nat MAX_SIZE_def)

interpretation arp: header_codec ArpHeader_GetSerializedSize ArpHeader_Serialize ArpHeader_Deserialize
  "\<lambda>h pl. arp_ok h" "\<lambda>h0 h. True" arp_reads
proof (unfold_locales, rule codec_of_bytes [where bs = "arp_bytes h" for h])
  fix h h0 :: ArpHeader and pl
  assume "arp_ok h"
  moreover have "Next 2 \<lparr>it_before = [], it_after = be_bytes 2 (1 :: u16) @ suf\<rparr> =
      Some \<lparr>it_before = be_bytes 2 (1 :: u16), it_after = suf\<rparr>" for suf
    by (simp add: Next_append)
  ultimately show "ArpHeader_Deserialize h0 \<lparr>it_before = [], it_after = arp_bytes h @ pl\<rparr> =
    Some (arp_reads h0 h pl, ArpHeader_GetSerializedSize h)"
    by (simp add: ArpHeader_Deserialize_def arp_bytes_def arp_ok_def unat_length_byte codec_simps
        ReadFrom_Ipv4_def GetLength_def arp_reads_def ArpHeader_GetSerializedSize_def)
qed (simp_all add: ArpHeader_Serialize_def arp_bytes_def ArpHeader_GetSerializedSize_def arp_ok_def
      WriteTo_Address_def WriteTo_Ipv4_def GetLength_def codec_simps)

section \<open>The pseudo header of UDP and TCP\<close>

text \<open>
  The numbers under which \<^verbatim>\<open>Ipv4Address\<close> and \<^verbatim>\<open>Ipv6Address\<close> registered as address types; the order
  of registration at run time decides them.
\<close>

record address_types =
  ipv4_type :: u8
  ipv6_type :: u8

text \<open>
  \<^verbatim>\<open>CalculateHeaderChecksum\<close>: a scratch buffer of \<open>2 * MAX_SIZE + 8\<close> bytes takes the pseudo header.
  \<open>udp\<close> tells the two copies of this function apart: UDP tests for an IPv6 address, TCP takes every
  other address for one.
\<close>

definition pseudo_header ::
  "bool \<Rightarrow> address_types \<Rightarrow> Address \<Rightarrow> Address \<Rightarrow> u8 \<Rightarrow> u16 \<Rightarrow> Iterator \<Rightarrow> (nat \<times> Iterator) option" where
  "pseudo_header udp T source destination protocol len it = do {
     it \<leftarrow> WriteTo_Address source it;
     it \<leftarrow> WriteTo_Address destination it;
     if CheckCompatible source (ipv4_type T) 4 then do {
       it \<leftarrow> WriteU8 0 it;
       it \<leftarrow> WriteU8 protocol it;
       it \<leftarrow> WriteU8 (ucast (drop_bit 8 len)) it;
       it \<leftarrow> WriteU8 (ucast (len AND 0xff)) it;
       Some (12, it) }
     else if \<not> udp \<or> CheckCompatible source (ipv6_type T) 16 then do {
       it \<leftarrow> WriteU16 0 it;
       it \<leftarrow> WriteU8 (ucast (drop_bit 8 len)) it;
       it \<leftarrow> WriteU8 (ucast (len AND 0xff)) it;
       it \<leftarrow> WriteU16 0 it;
       it \<leftarrow> WriteU8 0 it;
       it \<leftarrow> WriteU8 protocol it;
       Some (40, it) }
     else Some (0, it) }"

definition CalculateHeaderChecksum ::
  "bool \<Rightarrow> address_types \<Rightarrow> Address \<Rightarrow> Address \<Rightarrow> u8 \<Rightarrow> u16 \<Rightarrow> u16 option" where
  "CalculateHeaderChecksum udp T source destination protocol len = do {
     (hdrSize, it) \<leftarrow> pseudo_header udp T source destination protocol len
                       (Begin (replicate (2 * MAX_SIZE + 8) 0));
     c \<leftarrow> CalculateIpChecksum hdrSize (Begin (window it));
     Some (NOT c) }"

lemma CalculateIpChecksum_some:
  assumes "n \<le> length (it_after i)" and "n < 65536"
  shows "\<exists>c. CalculateIpChecksum n i = Some c"
proof -
  have "wsum (take n (it_after i)) \<le> 65535 * ((n + 1) div 2)"
    using wsum_bound [of "take n (it_after i)"] assms(1) by simp
  also have "\<dots> < 4294967296" using assms(2) by simp
  finally have "unat (0 :: u32) + wsum (take n (it_after i)) < 4294967296" by simp
  from CalculateIpChecksum_init_value [OF assms(1) this] show ?thesis
    by (auto simp: CalculateIpChecksum_def)
qed

lemma pseudo_header_some:
  assumes "GetLength source \<le> MAX_SIZE" and "GetLength destination \<le> MAX_SIZE"
  shows "\<exists>n it. pseudo_header udp T source destination protocol len (Begin (replicate (2 * MAX_SIZE + 8) 0))
    = Some (n, it) \<and> n \<le> 40 \<and> length (window it) = 2 * MAX_SIZE + 8"
  using assms
  by (simp add: pseudo_header_def WriteTo_Address_def codec_simps GetLength_def MAX_SIZE_def)
     (simp add: Write_def Begin_def window_def WriteU8_Write Write_le, auto)

lemma CalculateHeaderChecksum_some:
  assumes "GetLength source \<le> MAX_SIZE" and "GetLength destination \<le> MAX_SIZE"
  shows "\<exists>c. CalculateHeaderChecksum udp T source destination protocol len = Some c"
proof -
  obtain n it where it: "pseudo_header udp T source destination protocol len
      (Begin (replicate (2 * MAX_SIZE + 8) 0)) = Some (n, it)" "n \<le> 40"
      "length (window it) = 2 * MAX_SIZE + 8"
    using pseudo_header_some [OF assms] by blast
  have "\<exists>c. CalculateIpChecksum n (Begin (window it)) = Some c"
    by (rule CalculateIpChecksum_some) (use it in \<open>simp_all add: Begin_def MAX_SIZE_def\<close>)
  with it show ?thesis by (auto simp: CalculateHeaderChecksum_def)
qed

section \<open>A checksum stored in a block\<close>

lemma unat_le_bytes: "unat (byte_of 0 c) + 256 * unat (byte_of (Suc 0) c) = unat c" for c :: u16
  using unat_word_le [of "byte_of (Suc 0) c" "byte_of 0 c"] by (simp add: join_le)

lemma wsum_le_bytes: "wsum (le_bytes 2 c @ bs) = unat c + wsum bs" for c :: u16
  by (simp add: le_bytes_numeral unat_le_bytes)

text \<open>
  The heart of all checksum properties: the checksum of a block with a zero checksum field, stored
  into that field, makes the checksum of the block zero.
\<close>

lemma checksum_verifies:
  assumes even: "even (length a)" and len: "n = length a + 2 + length b" and n: "n < 65536"
    and init: "unat s < 65536" and c: "CalculateIpChecksum_init n s (Begin (a @ le_bytes 2 (0 :: u16) @ b @ rest)) = Some c"
  shows "CalculateIpChecksum_init n s (Begin (a @ le_bytes 2 c @ b @ rest)) = Some 0"
proof -
  let ?N = "unat s + (wsum a + wsum b)"
  have w: "wsum (take n (a @ le_bytes 2 x @ b @ rest)) = wsum a + unat x + wsum b" for x :: u16
    using even len by (simp add: wsum_append wsum_le_bytes)
  have bd: "unat s + (wsum a + wsum b) + 65535 < 4294967296"
  proof -
    have "wsum (take n (a @ le_bytes 2 (0 :: u16) @ b @ rest)) \<le> 65535 * ((n + 1) div 2)"
      using wsum_bound [of "take n (a @ le_bytes 2 (0 :: u16) @ b @ rest)"] len by simp
    then have "wsum a + wsum b \<le> 65535 * 32768" using w [of 0] n by simp
    with init show ?thesis by simp
  qed
  have ux: "unat x \<le> 65535" for x :: u16 using unsigned_less [of x, where ?'a = nat] by simp
  have val: "\<exists>d. CalculateIpChecksum_init n s (Begin (a @ le_bytes 2 x @ b @ rest)) = Some d \<and>
      unat d = 65535 - residue (?N + unat x)" for x :: u16
    using CalculateIpChecksum_init_value [of n "Begin (a @ le_bytes 2 x @ b @ rest)" s] w [of x] len bd ux [of x]
    by (simp add: Begin_def algebra_simps)
  have "unat c = 65535 - residue ?N" using val [of 0] c by auto
  then have "residue (?N + unat c) = 65535" using residue_complement [of ?N] by simp
  with val [of c] show ?thesis by (auto simp: unat_eq_0)
qed

section \<open>UdpHeader\<close>

record UdpHeader =
  udp_sourcePort :: u16
  udp_destinationPort :: u16
  udp_payloadSize :: u16
  udp_source :: Address
  udp_destination :: Address
  udp_protocol :: u8
  udp_checksum :: u16
  udp_calcChecksum :: bool
  udp_goodChecksum :: bool

definition UdpHeader_new :: UdpHeader where
  "UdpHeader_new = \<lparr>udp_sourcePort = 0xfffd, udp_destinationPort = 0xfffd, udp_payloadSize = 0,
     udp_source = \<lparr>a_type = 0, a_data = []\<rparr>, udp_destination = \<lparr>a_type = 0, a_data = []\<rparr>,
     udp_protocol = 17, udp_checksum = 0, udp_calcChecksum = False, udp_goodChecksum = True\<rparr>"

definition UdpHeader_InitializeChecksum :: "Address \<Rightarrow> Address \<Rightarrow> u8 \<Rightarrow> UdpHeader \<Rightarrow> UdpHeader" where
  "UdpHeader_InitializeChecksum source destination protocol h =
     h\<lparr>udp_source := source, udp_destination := destination, udp_protocol := protocol\<rparr>"

definition UdpHeader_EnableChecksums :: "UdpHeader \<Rightarrow> UdpHeader" where
  "UdpHeader_EnableChecksums h = h\<lparr>udp_calcChecksum := True\<rparr>"

definition UdpHeader_ForcePayloadSize :: "u16 \<Rightarrow> UdpHeader \<Rightarrow> UdpHeader" where
  "UdpHeader_ForcePayloadSize payloadSize h = h\<lparr>udp_payloadSize := payloadSize\<rparr>"

definition UdpHeader_ForceChecksum :: "u16 \<Rightarrow> UdpHeader \<Rightarrow> UdpHeader" where
  "UdpHeader_ForceChecksum checksum h = h\<lparr>udp_checksum := checksum\<rparr>"

definition UdpHeader_GetSerializedSize :: "UdpHeader \<Rightarrow> nat" where
  "UdpHeader_GetSerializedSize h = 8"

text \<open>The sizes passed to the checksum functions are \<^verbatim>\<open>uint16_t\<close>: they wrap.\<close>

definition UdpHeader_Serialize :: "address_types \<Rightarrow> UdpHeader \<Rightarrow> Iterator \<Rightarrow> Iterator option" where
  "UdpHeader_Serialize T h start = do {
     i \<leftarrow> WriteHtonU16 (udp_sourcePort h) start;
     i \<leftarrow> WriteHtonU16 (udp_destinationPort h) i;
     i \<leftarrow> (if udp_payloadSize h = 0 then WriteHtonU16 (of_nat (GetSize start)) i
          else WriteHtonU16 (udp_payloadSize h) i);
     if udp_checksum h = 0 then do {
       i \<leftarrow> WriteU16 0 i;
       if udp_calcChecksum h then do {
         headerChecksum \<leftarrow> CalculateHeaderChecksum True T (udp_source h) (udp_destination h)
                            (udp_protocol h) (of_nat (GetSize start));
         let i = rewind start i;
         checksum \<leftarrow> CalculateIpChecksum_init (unat (of_nat (GetSize start) :: u16))
                      (ucast headerChecksum) i;
         i \<leftarrow> Next 6 i;
         WriteU16 checksum i }
       else Some i }
     else WriteU16 (udp_checksum h) i }"

definition UdpHeader_Deserialize :: "address_types \<Rightarrow> UdpHeader \<Rightarrow> Iterator \<Rightarrow> (UdpHeader \<times> nat) option" where
  "UdpHeader_Deserialize T h start = do {
     (sp, i) \<leftarrow> ReadNtohU16 start;
     (dp, i) \<leftarrow> ReadNtohU16 i;
     (l, i) \<leftarrow> ReadNtohU16 i;
     (c, i) \<leftarrow> ReadU16 i;
     let h = h\<lparr>udp_sourcePort := sp, udp_destinationPort := dp,
               udp_payloadSize := l - of_nat (UdpHeader_GetSerializedSize h), udp_checksum := c\<rparr>;
     if udp_calcChecksum h then do {
       headerChecksum \<leftarrow> CalculateHeaderChecksum True T (udp_source h) (udp_destination h)
                          (udp_protocol h) (of_nat (GetSize start));
       checksum \<leftarrow> CalculateIpChecksum_init (unat (of_nat (GetSize start) :: u16))
                    (ucast headerChecksum) start;
       let h = h\<lparr>udp_goodChecksum := (checksum = 0)\<rparr>;
       Some (h, UdpHeader_GetSerializedSize h) }
     else Some (h, UdpHeader_GetSerializedSize h) }"

definition udp_length_field :: "UdpHeader \<Rightarrow> u8 list \<Rightarrow> u16" where
  "udp_length_field h pl = (if udp_payloadSize h = 0 then of_nat (8 + length pl) else udp_payloadSize h)"

definition udp_front :: "UdpHeader \<Rightarrow> u8 list \<Rightarrow> u8 list" where
  "udp_front h pl = be_bytes 2 (udp_sourcePort h) @ be_bytes 2 (udp_destinationPort h) @
     be_bytes 2 (udp_length_field h pl)"

definition udp_sum :: "address_types \<Rightarrow> UdpHeader \<Rightarrow> u8 list \<Rightarrow> u8 list \<Rightarrow> u16 option" where
  "udp_sum T h pl bytes = do {
     hc \<leftarrow> CalculateHeaderChecksum True T (udp_source h) (udp_destination h) (udp_protocol h)
            (of_nat (8 + length pl));
     CalculateIpChecksum_init (8 + length pl) (ucast hc) (Begin bytes) }"

definition udp_check :: "address_types \<Rightarrow> UdpHeader \<Rightarrow> u8 list \<Rightarrow> u16" where
  "udp_check T h pl =
     (if udp_checksum h \<noteq> 0 then udp_checksum h
      else if udp_calcChecksum h then the (udp_sum T h pl (udp_front h pl @ le_bytes 2 (0 :: u16) @ pl))
      else 0)"

definition udp_ok :: "UdpHeader \<Rightarrow> u8 list \<Rightarrow> bool" where
  "udp_ok h pl \<longleftrightarrow> 8 + length pl < 65536 \<and> GetLength (udp_source h) \<le> MAX_SIZE \<and>
     GetLength (udp_destination h) \<le> MAX_SIZE"

lemma udp_front_length [simp]: "length (udp_front h pl) = 6"
  by (simp add: udp_front_def)

lemma unat_ucast_u16 [simp]: "unat (ucast x :: u32) < 65536" for x :: u16
  using unsigned_less [of x, where ?'a = nat] by (simp add: unsigned_ucast_eq take_bit_nat_eq_self)

lemma CalculateIpChecksum_init_some:
  assumes "n \<le> length (it_after i)" and "n < 65536" and "unat s < 65536"
  shows "\<exists>c. CalculateIpChecksum_init n s i = Some c"
proof -
  have "wsum (take n (it_after i)) \<le> 65535 * ((n + 1) div 2)"
    using wsum_bound [of "take n (it_after i)"] assms(1) by simp
  also have "\<dots> \<le> 65535 * 32768" using assms(2) by simp
  finally have "unat s + wsum (take n (it_after i)) < 4294967296" using assms(3) by simp
  from CalculateIpChecksum_init_value [OF assms(1) this] show ?thesis by auto
qed

lemma udp_sum_some:
  assumes "udp_ok h pl" and "8 + length pl \<le> length bytes"
  shows "\<exists>c. udp_sum T h pl bytes = Some c"
proof -
  obtain hc where "CalculateHeaderChecksum True T (udp_source h) (udp_destination h) (udp_protocol h)
      (of_nat (8 + length pl)) = Some hc"
    using CalculateHeaderChecksum_some assms(1) by (metis udp_ok_def)
  with CalculateIpChecksum_init_some [of "8 + length pl" "Begin bytes" "ucast hc"] assms show ?thesis
    by (simp add: udp_sum_def udp_ok_def Begin_def)
qed

lemma unat_window_size: "n < 65536 \<Longrightarrow> unat (of_nat n :: u16) = n"
  by (simp add: unat_of_nat)

lemma udp_serialize:
  assumes ok: "udp_ok h pl" and junk: "length junk = 8"
  shows "UdpHeader_Serialize T h (Begin (junk @ pl)) =
    Some \<lparr>it_before = udp_front h pl @ le_bytes 2 (udp_check T h pl), it_after = pl\<rparr>"
proof -
  let ?front = "udp_front h pl" and ?n = "8 + length pl"
  have un: "unat (of_nat ?n :: u16) = ?n" using ok by (intro unat_window_size) (simp add: udp_ok_def)
  have w: "Write bs (Begin (junk @ pl)) = Some \<lparr>it_before = bs, it_after = pl\<rparr>" if "length bs = 8" for bs
    using that junk by (simp add: Write_def Begin_def)
  have w6: "Write ?front (Begin (junk @ pl)) = Some \<lparr>it_before = ?front, it_after = drop 6 junk @ pl\<rparr>"
    using junk by (simp add: Write_def Begin_def)
  have w2: "Write (le_bytes 2 c) \<lparr>it_before = ?front, it_after = drop 6 junk @ pl\<rparr> =
      Some \<lparr>it_before = ?front @ le_bytes 2 c, it_after = pl\<rparr>" for c :: u16
    using junk by (simp add: Write_def)
  have w2': "Write (le_bytes 2 c) \<lparr>it_before = ?front, it_after = le_bytes 2 (0 :: u16) @ pl\<rparr> =
      Some \<lparr>it_before = ?front @ le_bytes 2 c, it_after = pl\<rparr>" for c :: u16
    by (simp add: Write_def)
  have sz: "GetSize (Begin (junk @ pl)) = ?n" using junk by (simp add: GetSize_def Begin_def)
  have front: "do { i \<leftarrow> WriteHtonU16 (udp_sourcePort h) (Begin (junk @ pl));
      i \<leftarrow> WriteHtonU16 (udp_destinationPort h) i;
      i \<leftarrow> (if udp_payloadSize h = 0 then WriteHtonU16 (of_nat ?n) i else WriteHtonU16 (udp_payloadSize h) i);
      k i } = k \<lparr>it_before = ?front, it_after = drop 6 junk @ pl\<rparr>" for k :: "Iterator \<Rightarrow> Iterator option"
    using w6 by (simp add: codec_simps udp_front_def udp_length_field_def split: if_splits)
  have rw: "rewind (Begin (junk @ pl)) \<lparr>it_before = ?front @ le_bytes 2 (0 :: u16), it_after = pl\<rparr> =
      Begin (?front @ le_bytes 2 (0 :: u16) @ pl)"
    by (simp add: rewind_def Begin_def window_def)
  have nx: "Next 6 (Begin (?front @ le_bytes 2 (0 :: u16) @ pl)) =
      Some \<lparr>it_before = ?front, it_after = le_bytes 2 (0 :: u16) @ pl\<rparr>"
    by (simp add: Begin_def Next_append)
  obtain c where c: "udp_sum T h pl (?front @ le_bytes 2 (0 :: u16) @ pl) = Some c"
    using udp_sum_some [OF ok, of "?front @ le_bytes 2 (0 :: u16) @ pl" T] by auto
  then obtain hc where hc: "CalculateHeaderChecksum True T (udp_source h) (udp_destination h)
      (udp_protocol h) (of_nat ?n) = Some hc"
      "CalculateIpChecksum_init ?n (ucast hc) (Begin (?front @ le_bytes 2 (0 :: u16) @ pl)) = Some c"
    by (auto simp: udp_sum_def bind_eq_Some_conv)
  show ?thesis
    unfolding UdpHeader_Serialize_def sz front
    using hc c by (simp add: udp_check_def Write_le w2 Let_def rw nx w2' un del: of_nat_add)
qed

text \<open>\<open>h0\<close> may read \<open>h\<close>: if it verifies the checksum, the writer computed it over the same pseudo header.\<close>

definition udp_into :: "UdpHeader \<Rightarrow> UdpHeader \<Rightarrow> bool" where
  "udp_into h0 h \<longleftrightarrow> (udp_calcChecksum h0 \<longrightarrow>
     udp_calcChecksum h \<and> udp_checksum h = 0 \<and> udp_source h0 = udp_source h \<and>
     udp_destination h0 = udp_destination h \<and> udp_protocol h0 = udp_protocol h)"

definition udp_reads :: "address_types \<Rightarrow> UdpHeader \<Rightarrow> UdpHeader \<Rightarrow> u8 list \<Rightarrow> UdpHeader" where
  "udp_reads T h0 h pl =
     h0\<lparr>udp_sourcePort := udp_sourcePort h, udp_destinationPort := udp_destinationPort h,
        udp_payloadSize := udp_length_field h pl - 8, udp_checksum := udp_check T h pl,
        udp_goodChecksum := udp_calcChecksum h0 \<or> udp_goodChecksum h0\<rparr>"

lemma udp_sum_verifies:
  assumes ok: "udp_ok h pl" and "udp_calcChecksum h" and "udp_checksum h = 0"
  shows "udp_sum T h pl (udp_front h pl @ le_bytes 2 (udp_check T h pl) @ pl) = Some 0"
proof -
  obtain c where c: "udp_sum T h pl (udp_front h pl @ le_bytes 2 (0 :: u16) @ pl) = Some c"
    using udp_sum_some [OF ok, of "udp_front h pl @ le_bytes 2 (0 :: u16) @ pl" T] by auto
  then obtain hc where hc: "CalculateHeaderChecksum True T (udp_source h) (udp_destination h)
      (udp_protocol h) (of_nat (8 + length pl)) = Some hc"
      "CalculateIpChecksum_init (8 + length pl) (ucast hc)
         (Begin (udp_front h pl @ le_bytes 2 (0 :: u16) @ pl)) = Some c"
    by (auto simp: udp_sum_def bind_eq_Some_conv)
  have "CalculateIpChecksum_init (8 + length pl) (ucast hc)
         (Begin (udp_front h pl @ le_bytes 2 c @ pl)) = Some 0"
    using checksum_verifies [of "udp_front h pl" "8 + length pl" pl "ucast hc" "[]" c] hc(2) ok
    by (simp add: udp_ok_def)
  with hc c assms show ?thesis by (simp add: udp_sum_def udp_check_def)
qed

lemma udp_deserialize:
  assumes ok: "udp_ok h pl" and into: "udp_into h0 h"
  shows "UdpHeader_Deserialize T h0 (Begin (udp_front h pl @ le_bytes 2 (udp_check T h pl) @ pl)) =
    Some (udp_reads T h0 h pl, 8)"
proof -
  let ?bytes = "udp_front h pl @ le_bytes 2 (udp_check T h pl) @ pl"
  have sz: "GetSize (Begin ?bytes) = 8 + length pl" by (simp add: GetSize_def Begin_def)
  have un: "unat (of_nat (8 + length pl) :: u16) = 8 + length pl"
    using ok by (intro unat_window_size) (simp add: udp_ok_def)
  have read: "do { (sp, i) \<leftarrow> ReadNtohU16 (Begin ?bytes); (dp, i) \<leftarrow> ReadNtohU16 i;
      (l, i) \<leftarrow> ReadNtohU16 i; (c, i) \<leftarrow> ReadU16 i; k sp dp l c i } =
    k (udp_sourcePort h) (udp_destinationPort h) (udp_length_field h pl) (udp_check T h pl)
      \<lparr>it_before = udp_front h pl @ le_bytes 2 (udp_check T h pl), it_after = pl\<rparr>"
    for k :: "u16 \<Rightarrow> u16 \<Rightarrow> u16 \<Rightarrow> u16 \<Rightarrow> Iterator \<Rightarrow> (UdpHeader \<times> nat) option"
    by (simp add: Begin_def udp_front_def codec_simps)
  show ?thesis
  proof (cases "udp_calcChecksum h0")
    case False
    then show ?thesis
      unfolding UdpHeader_Deserialize_def read
      by (simp add: Let_def udp_reads_def UdpHeader_GetSerializedSize_def)
  next
    case True
    with into have eq: "udp_calcChecksum h" "udp_checksum h = 0" "udp_source h0 = udp_source h"
      "udp_destination h0 = udp_destination h" "udp_protocol h0 = udp_protocol h"
      by (auto simp: udp_into_def)
    from udp_sum_verifies [OF ok eq(1,2), of T]
    obtain hc where "CalculateHeaderChecksum True T (udp_source h) (udp_destination h)
        (udp_protocol h) (of_nat (8 + length pl)) = Some hc"
        "CalculateIpChecksum_init (8 + length pl) (ucast hc) (Begin ?bytes) = Some 0"
      by (auto simp: udp_sum_def bind_eq_Some_conv)
    with True eq show ?thesis
      unfolding UdpHeader_Deserialize_def read
      by (simp add: Let_def sz un udp_reads_def UdpHeader_GetSerializedSize_def del: of_nat_add)
  qed
qed

lemma udp_law:
  assumes "udp_ok h pl" and "length junk = UdpHeader_GetSerializedSize h"
  shows "\<exists>bs i. UdpHeader_Serialize T h (Begin (junk @ pl)) = Some i \<and> window i = bs @ pl \<and>
    length bs = UdpHeader_GetSerializedSize h \<and>
    (\<forall>h0. udp_into h0 h \<longrightarrow> UdpHeader_Deserialize T h0 (Begin (bs @ pl)) =
       Some (udp_reads T h0 h pl, UdpHeader_GetSerializedSize h))"
  using udp_serialize [OF assms(1), of junk T] udp_deserialize [OF assms(1), of _ T] assms(2)
  by (intro exI [of _ "udp_front h pl @ le_bytes 2 (udp_check T h pl)"])
     (auto simp: UdpHeader_GetSerializedSize_def window_def)

interpretation udp: header_codec UdpHeader_GetSerializedSize "UdpHeader_Serialize T" "UdpHeader_Deserialize T"
  udp_ok udp_into "udp_reads T" for T
  by unfold_locales (rule udp_law)

end
