(* ===== verification/Ipv4_Header.thy ===== *)
theory Ipv4_Header
  imports Ip_Headers
begin

text \<open>
  \<^verbatim>\<open>Ipv4Header\<close> (\<^verbatim>\<open>internet/model/ipv4-header.cc\<close>): the fields with their accessors, and the
  header's contract with its checksum, its flags and its fragment offset in units of eight bytes.
\<close>

section \<open>The header\<close>

record Ipv4Header =
  ip_calcChecksum :: bool
  ip_payloadSize :: u16
  ip_identification :: u16
  ip_tos :: u8
  ip_ttl :: u8
  ip_protocol :: u8
  ip_flags :: "3 word"
  ip_fragmentOffset :: u16
  ip_source :: Ipv4Address
  ip_destination :: Ipv4Address
  ip_checksum :: u16
  ip_goodChecksum :: bool
  ip_headerSize :: u16

definition DONT_FRAGMENT :: "3 word" where "DONT_FRAGMENT = 1"
definition MORE_FRAGMENTS :: "3 word" where "MORE_FRAGMENTS = 2"

definition Ipv4Header_new :: Ipv4Header where
  "Ipv4Header_new = \<lparr>ip_calcChecksum = False, ip_payloadSize = 0, ip_identification = 0, ip_tos = 0,
     ip_ttl = 0, ip_protocol = 0, ip_flags = 0, ip_fragmentOffset = 0, ip_source = 0x66666666,
     ip_destination = 0x66666666, ip_checksum = 0, ip_goodChecksum = True, ip_headerSize = 20\<rparr>"

definition SetDscp :: "u8 \<Rightarrow> Ipv4Header \<Rightarrow> Ipv4Header" where
  "SetDscp dscp h =
     (let h = h\<lparr>ip_tos := ip_tos h AND 0x3\<rparr>
      in h\<lparr>ip_tos := ip_tos h OR push_bit 2 dscp\<rparr>)"

definition SetEcn :: "u8 \<Rightarrow> Ipv4Header \<Rightarrow> Ipv4Header" where
  "SetEcn ecn h =
     (let h = h\<lparr>ip_tos := ip_tos h AND 0xFC\<rparr>
      in h\<lparr>ip_tos := ip_tos h OR ecn\<rparr>)"

definition GetDscp :: "Ipv4Header \<Rightarrow> u8" where
  "GetDscp h = drop_bit 2 (ip_tos h AND 0xFC)"

definition GetEcn :: "Ipv4Header \<Rightarrow> u8" where
  "GetEcn h = ip_tos h AND 0x3"

definition SetMoreFragments :: "Ipv4Header \<Rightarrow> Ipv4Header" where
  "SetMoreFragments h = h\<lparr>ip_flags := ip_flags h OR MORE_FRAGMENTS\<rparr>"

definition SetLastFragment :: "Ipv4Header \<Rightarrow> Ipv4Header" where
  "SetLastFragment h = h\<lparr>ip_flags := ip_flags h AND NOT MORE_FRAGMENTS\<rparr>"

definition IsLastFragment :: "Ipv4Header \<Rightarrow> bool" where
  "IsLastFragment h \<longleftrightarrow> ip_flags h AND MORE_FRAGMENTS = 0"

definition SetDontFragment :: "Ipv4Header \<Rightarrow> Ipv4Header" where
  "SetDontFragment h = h\<lparr>ip_flags := ip_flags h OR DONT_FRAGMENT\<rparr>"

definition SetMayFragment :: "Ipv4Header \<Rightarrow> Ipv4Header" where
  "SetMayFragment h = h\<lparr>ip_flags := ip_flags h AND NOT DONT_FRAGMENT\<rparr>"

definition IsDontFragment :: "Ipv4Header \<Rightarrow> bool" where
  "IsDontFragment h \<longleftrightarrow> ip_flags h AND DONT_FRAGMENT \<noteq> 0"

text \<open>\<open>None\<close> is the abort on an offset that is not a multiple of eight.\<close>

definition SetFragmentOffset :: "u16 \<Rightarrow> Ipv4Header \<Rightarrow> Ipv4Header option" where
  "SetFragmentOffset offsetBytes h =
     (if offsetBytes AND 0x7 \<noteq> 0 then None else Some (h\<lparr>ip_fragmentOffset := offsetBytes\<rparr>))"

definition Ipv4Header_GetSerializedSize :: "Ipv4Header \<Rightarrow> nat" where
  "Ipv4Header_GetSerializedSize h = unat (ip_headerSize h)"

definition ip_flagsFrag :: "Ipv4Header \<Rightarrow> u32 \<Rightarrow> u8" where
  "ip_flagsFrag h fragmentOffset =
     (let flagsFrag = ucast (drop_bit 8 fragmentOffset AND 0x1f);
          flagsFrag = (if ip_flags h AND DONT_FRAGMENT \<noteq> 0 then flagsFrag OR push_bit 6 1 else flagsFrag)
      in if ip_flags h AND MORE_FRAGMENTS \<noteq> 0 then flagsFrag OR push_bit 5 1 else flagsFrag)"

definition Ipv4Header_Serialize :: "Ipv4Header \<Rightarrow> Iterator \<Rightarrow> Iterator option" where
  "Ipv4Header_Serialize h start = do {
     i \<leftarrow> WriteU8 (push_bit 4 4 OR 5) start;
     i \<leftarrow> WriteU8 (ip_tos h) i;
     i \<leftarrow> WriteHtonU16 (ip_payloadSize h + 5 * 4) i;
     i \<leftarrow> WriteHtonU16 (ip_identification h) i;
     let fragmentOffset = ucast (ip_fragmentOffset h) div 8;
     i \<leftarrow> WriteU8 (ip_flagsFrag h fragmentOffset) i;
     i \<leftarrow> WriteU8 (ucast (fragmentOffset AND 0xff)) i;
     i \<leftarrow> WriteU8 (ip_ttl h) i;
     i \<leftarrow> WriteU8 (ip_protocol h) i;
     i \<leftarrow> WriteHtonU16 0 i;
     i \<leftarrow> WriteHtonU32 (ip_source h) i;
     i \<leftarrow> WriteHtonU32 (ip_destination h) i;
     if ip_calcChecksum h then do {
       let i = rewind start i;
       checksum \<leftarrow> CalculateIpChecksum 20 i;
       i \<leftarrow> Next 10 i;
       WriteU16 checksum i }
     else Some i }"

definition ip_read_flags :: "u8 \<Rightarrow> 3 word" where
  "ip_read_flags flags =
     (let m_flags = 0;
          m_flags = (if flags AND push_bit 6 1 \<noteq> 0 then m_flags OR DONT_FRAGMENT else m_flags)
      in if flags AND push_bit 5 1 \<noteq> 0 then m_flags OR MORE_FRAGMENTS else m_flags)"

definition Ipv4Header_Deserialize :: "Ipv4Header \<Rightarrow> Iterator \<Rightarrow> (Ipv4Header \<times> nat) option" where
  "Ipv4Header_Deserialize h start = do {
     (verIhl, i) \<leftarrow> ReadU8 start;
     let ihl = verIhl AND 0x0f;
     let headerSize = ucast ihl * 4;
     if drop_bit 4 verIhl \<noteq> 4 then Some (h, 0)
     else do {
       (tos, i) \<leftarrow> ReadU8 i;
       (len, i) \<leftarrow> ReadNtohU16 i;
       (ident, i) \<leftarrow> ReadNtohU16 i;
       (flags, i) \<leftarrow> ReadU8 i;
       i \<leftarrow> Prev 1 i;
       (f1, i) \<leftarrow> ReadU8 i;
       let frag = (ucast (f1 AND 0x1f) :: u16);
       let frag = push_bit 8 frag;
       (f2, i) \<leftarrow> ReadU8 i;
       let frag = push_bit 3 (frag OR ucast f2);
       (ttl, i) \<leftarrow> ReadU8 i;
       (protocol, i) \<leftarrow> ReadU8 i;
       (c, i) \<leftarrow> ReadU16 i;
       (source, i) \<leftarrow> ReadNtohU32 i;
       (destination, i) \<leftarrow> ReadNtohU32 i;
       let h = h\<lparr>ip_tos := tos, ip_payloadSize := len - headerSize, ip_identification := ident,
                 ip_flags := ip_read_flags flags, ip_fragmentOffset := frag, ip_ttl := ttl,
                 ip_protocol := protocol, ip_checksum := c, ip_source := source,
                 ip_destination := destination, ip_headerSize := headerSize\<rparr>;
       if ip_calcChecksum h then do {
         checksum \<leftarrow> CalculateIpChecksum (unat headerSize) start;
         let h = h\<lparr>ip_goodChecksum := (checksum = 0)\<rparr>;
         Some (h, Ipv4Header_GetSerializedSize h) }
       else Some (h, Ipv4Header_GetSerializedSize h) } }"

section \<open>Bits\<close>

lemma bit_int_const:
  "bit (0x3 :: int) n \<longleftrightarrow> n < 2" "bit (0x7 :: int) n \<longleftrightarrow> n < 3" "bit (0xf :: int) n \<longleftrightarrow> n < 4"
  "bit (0x1f :: int) n \<longleftrightarrow> n < 5" "bit (0xff :: int) n \<longleftrightarrow> n < 8" "bit (0x3f :: int) n \<longleftrightarrow> n < 6"
  "bit (0x40 :: int) n \<longleftrightarrow> n = 6" "bit (0x20 :: int) n \<longleftrightarrow> n = 5" "bit (0xFC :: int) n \<longleftrightarrow> 2 \<le> n \<and> n < 8"
proof -
  have m: "(0x3 :: int) = mask 2" "(0x7 :: int) = mask 3" "(0xf :: int) = mask 4"
    "(0x1f :: int) = mask 5" "(0xff :: int) = mask 8" "(0x3f :: int) = mask 6"
    by (simp_all add: mask_eq_exp_minus_1)
  show "bit (0x3 :: int) n \<longleftrightarrow> n < 2" unfolding m bit_mask_iff by simp
  show "bit (0x7 :: int) n \<longleftrightarrow> n < 3" unfolding m bit_mask_iff by simp
  show "bit (0xf :: int) n \<longleftrightarrow> n < 4" unfolding m bit_mask_iff by simp
  show "bit (0x1f :: int) n \<longleftrightarrow> n < 5" unfolding m bit_mask_iff by simp
  show "bit (0xff :: int) n \<longleftrightarrow> n < 8" unfolding m bit_mask_iff by simp
  show "bit (0x3f :: int) n \<longleftrightarrow> n < 6" unfolding m bit_mask_iff by simp
  have e: "(0x40 :: int) = 2 ^ 6" "(0x20 :: int) = 2 ^ 5" by simp_all
  show "bit (0x40 :: int) n \<longleftrightarrow> n = 6" unfolding e bit_exp_iff by auto
  show "bit (0x20 :: int) n \<longleftrightarrow> n = 5" unfolding e bit_exp_iff by auto
  have f: "(0xFC :: int) = push_bit 2 (mask 6)" by (simp add: mask_eq_exp_minus_1 push_bit_eq_mult)
  show "bit (0xFC :: int) n \<longleftrightarrow> 2 \<le> n \<and> n < 8" unfolding f bit_push_bit_iff bit_mask_iff by auto
qed

lemmas bit_const = bit_simps bit_int_const

lemma and_bit: "x AND 0x40 = 0 \<longleftrightarrow> \<not> bit x 6" "x AND 0x20 = 0 \<longleftrightarrow> \<not> bit x 5"
    "x AND 1 = 0 \<longleftrightarrow> \<not> bit x 0" "x AND 2 = 0 \<longleftrightarrow> \<not> bit x 1" for x :: "'a::len word"
  using and_exp_eq_0_iff_not_bit [of x 6] and_exp_eq_0_iff_not_bit [of x 5]
    and_exp_eq_0_iff_not_bit [of x 0] and_exp_eq_0_iff_not_bit [of x 1] by simp_all

lemma and_flags: "x AND DONT_FRAGMENT = 0 \<longleftrightarrow> \<not> bit x 0" "x AND MORE_FRAGMENTS = 0 \<longleftrightarrow> \<not> bit x 1"
  by (simp_all add: and_bit DONT_FRAGMENT_def MORE_FRAGMENTS_def)

lemma bit_flagsFrag:
  "bit (ip_flagsFrag h f) n \<longleftrightarrow>
     (n < 5 \<and> bit f (8 + n)) \<or> (n = 6 \<and> bit (ip_flags h) 0) \<or> (n = 5 \<and> bit (ip_flags h) 1)"
  by (auto simp: ip_flagsFrag_def Let_def and_flags bit_const)

lemma flags_roundtrip:
  assumes "\<not> bit (ip_flags h) 2"
  shows "ip_read_flags (ip_flagsFrag h f) = ip_flags h"
proof (rule bit_word_eqI)
  fix n
  assume "n < LENGTH(3)"
  then have "n = 0 \<or> n = 1 \<or> n = 2" by auto
  with assms show "bit (ip_read_flags (ip_flagsFrag h f)) n = bit (ip_flags h) n"
    by (auto simp: ip_read_flags_def Let_def and_bit bit_flagsFrag DONT_FRAGMENT_def MORE_FRAGMENTS_def
        bit_const)
qed

lemma offset_roundtrip:
  fixes off :: u16
  assumes "off AND 0x7 = 0" and "f = ucast off div 8"
  shows "push_bit 3 (push_bit 8 (ucast (ip_flagsFrag h f AND 0x1f)) OR ucast (ucast (f AND 0xff) :: u8)) = off"
proof (rule bit_word_eqI)
  fix n
  assume n: "n < LENGTH(16)"
  have f: "bit f k \<longleftrightarrow> bit off (k + 3)" for k
  proof -
    have "f = drop_bit 3 (ucast off)" using assms(2) by (simp add: drop_bit_eq_div)
    moreover have "bit off (k + 3) \<Longrightarrow> k + 3 < 16" using bit_imp_le_length [of off "k + 3"] by simp
    ultimately show ?thesis by (auto simp: bit_simps add.commute)
  qed
  have low: "\<not> bit off n" if "n < 3"
  proof -
    have "\<not> bit (off AND 0x7) n" using assms(1) by simp
    with that show ?thesis by (simp add: bit_const)
  qed
  have hi: "bit off k \<Longrightarrow> k < 16" for k using bit_imp_le_length [of off k] by simp
  let ?r = "push_bit 3 (push_bit 8 (ucast (ip_flagsFrag h f AND 0x1f)) OR
      ucast (ucast (f AND 0xff) :: u8)) :: u16"
  consider "n < 3" | m where "n = m + 3" "m < 8" | m where "n = m + 11" "m < 5"
  proof -
    have "n < 3 \<or> n = (n - 3) + 3 \<and> n - 3 < 8 \<or> n = (n - 11) + 11 \<and> n - 11 < 5" using n by auto
    with that show thesis by blast
  qed
  then show "bit ?r n = bit off n"
  proof cases
    case 1
    with low show ?thesis by (simp add: bit_simps)
  next
    case (2 m)
    then show ?thesis by (auto simp: bit_const bit_flagsFrag f)
  next
    case (3 m)
    then show ?thesis by (auto simp: bit_const bit_flagsFrag f add.commute)
  qed
qed

text \<open>The DSCP and ECN parts of the TOS byte do not disturb each other.\<close>

lemma dscp_ecn:
  assumes "dscp < 64" and "ecn < 4"
  shows "GetDscp (SetDscp dscp h) = dscp" and "GetEcn (SetDscp dscp h) = GetEcn h"
    and "GetEcn (SetEcn ecn h) = ecn" and "GetDscp (SetEcn ecn h) = GetDscp h"
proof -
  have less_word: "take_bit m x = x" if "unat x < 2 ^ m" for x :: u8 and m
    using that by (simp add: word_unat_eq_iff unsigned_take_bit_eq take_bit_nat_eq_self)
  have d: "bit dscp n \<Longrightarrow> n < 6" for n
  proof -
    have "take_bit 6 dscp = dscp" using assms(1) by (simp add: less_word word_less_nat_alt)
    then show "bit dscp n \<Longrightarrow> n < 6" by (metis bit_take_bit_iff)
  qed
  have e: "bit ecn n \<Longrightarrow> n < 2" for n
  proof -
    have "take_bit 2 ecn = ecn" using assms(2) by (simp add: less_word word_less_nat_alt)
    then show "bit ecn n \<Longrightarrow> n < 2" by (metis bit_take_bit_iff)
  qed
  show "GetDscp (SetDscp dscp h) = dscp"
    by (rule bit_word_eqI) (auto simp: GetDscp_def SetDscp_def Let_def bit_const dest: d)
  show "GetEcn (SetDscp dscp h) = GetEcn h"
    by (rule bit_word_eqI) (auto simp: GetEcn_def SetDscp_def Let_def bit_const)
  show "GetEcn (SetEcn ecn h) = ecn"
    by (rule bit_word_eqI) (auto simp: GetEcn_def SetEcn_def Let_def bit_const dest: e)
  show "GetDscp (SetEcn ecn h) = GetDscp h"
    by (rule bit_word_eqI) (auto simp: GetDscp_def SetEcn_def Let_def bit_const dest: e)
qed

section \<open>The contract\<close>

definition ip_ok :: "Ipv4Header \<Rightarrow> bool" where
  "ip_ok h \<longleftrightarrow> ip_fragmentOffset h AND 0x7 = 0 \<and> \<not> bit (ip_flags h) 2 \<and> ip_headerSize h = 20"

definition ip_into :: "Ipv4Header \<Rightarrow> Ipv4Header \<Rightarrow> bool" where
  "ip_into h0 h \<longleftrightarrow> (ip_calcChecksum h0 \<longrightarrow> ip_calcChecksum h)"

abbreviation ip_frag :: "Ipv4Header \<Rightarrow> u32" where
  "ip_frag h \<equiv> ucast (ip_fragmentOffset h) div 8"

definition ip_front :: "Ipv4Header \<Rightarrow> u8 list" where
  "ip_front h = [push_bit 4 4 OR 5, ip_tos h] @ be_bytes 2 (ip_payloadSize h + 20) @
     be_bytes 2 (ip_identification h) @
     [ip_flagsFrag h (ip_frag h), ucast (ip_frag h AND 0xff), ip_ttl h, ip_protocol h]"

definition ip_back :: "Ipv4Header \<Rightarrow> u8 list" where
  "ip_back h = be_bytes 4 (ip_source h) @ be_bytes 4 (ip_destination h)"

definition ip_check :: "Ipv4Header \<Rightarrow> u16" where
  "ip_check h =
     (if ip_calcChecksum h
      then the (CalculateIpChecksum 20 (Begin (ip_front h @ le_bytes 2 (0 :: u16) @ ip_back h))) else 0)"

definition ip_reads :: "Ipv4Header \<Rightarrow> Ipv4Header \<Rightarrow> u8 list \<Rightarrow> Ipv4Header" where
  "ip_reads h0 h pl = h\<lparr>ip_calcChecksum := ip_calcChecksum h0, ip_checksum := ip_check h,
     ip_goodChecksum := ip_calcChecksum h0 \<or> ip_goodChecksum h0\<rparr>"

lemma ip_lengths [simp]: "length (ip_front h) = 10" "length (ip_back h) = 8"
  by (simp_all add: ip_front_def ip_back_def)

lemma CalculateIpChecksum_prefix:
  assumes "n \<le> length bs" and "n < 65536"
  shows "CalculateIpChecksum n (Begin (bs @ pl)) = CalculateIpChecksum n (Begin bs)"
proof -
  have v: "\<exists>c. CalculateIpChecksum n (Begin cs) = Some c \<and> unat c = 65535 - residue (wsum (take n cs))"
    if "n \<le> length cs" for cs
  proof -
    have "wsum (take n cs) \<le> 65535 * ((n + 1) div 2)" using wsum_bound [of "take n cs"] that by simp
    then have "unat (0 :: u32) + wsum (take n cs) < 4294967296" using assms(2) by simp
    with CalculateIpChecksum_init_value [of n "Begin cs" 0] that show ?thesis
      by (simp add: CalculateIpChecksum_def Begin_def)
  qed
  obtain c d where "CalculateIpChecksum n (Begin (bs @ pl)) = Some c"
    "CalculateIpChecksum n (Begin bs) = Some d" "unat c = unat d"
    using v [of "bs @ pl"] v [of bs] assms(1) by auto
  then show ?thesis by (simp add: word_unat_eq_iff)
qed

lemma ip_check_value:
  "CalculateIpChecksum 20 (Begin (ip_front h @ le_bytes 2 (0 :: u16) @ ip_back h @ pl)) =
   Some (the (CalculateIpChecksum 20 (Begin (ip_front h @ le_bytes 2 (0 :: u16) @ ip_back h))))"
proof -
  let ?b = "ip_front h @ le_bytes 2 (0 :: u16) @ ip_back h"
  obtain c where "CalculateIpChecksum 20 (Begin ?b) = Some c"
    using CalculateIpChecksum_some [of 20 "Begin ?b"] by (auto simp: Begin_def)
  with CalculateIpChecksum_prefix [of 20 ?b pl] show ?thesis by simp
qed

lemma ip_serialize:
  assumes "length junk = 20"
  shows "\<exists>i. Ipv4Header_Serialize h (Begin (junk @ pl)) = Some i \<and>
    window i = (ip_front h @ le_bytes 2 (ip_check h) @ ip_back h) @ pl"
proof -
  let ?z = "be_bytes 2 (0 :: u16)"
  have z: "?z = le_bytes 2 (0 :: u16)" by (simp add: be_bytes_def le_bytes_numeral byte_of_def)
  have w: "Write (ip_front h @ ?z @ ip_back h) (Begin (junk @ pl)) =
      Some \<lparr>it_before = ip_front h @ ?z @ ip_back h, it_after = pl\<rparr>"
    using assms by (simp add: Write_def Begin_def)
  have front: "do {
     i \<leftarrow> WriteU8 (push_bit 4 4 OR 5) (Begin (junk @ pl));
     i \<leftarrow> WriteU8 (ip_tos h) i;
     i \<leftarrow> WriteHtonU16 (ip_payloadSize h + 5 * 4) i;
     i \<leftarrow> WriteHtonU16 (ip_identification h) i;
     let fragmentOffset = ip_frag h;
     i \<leftarrow> WriteU8 (ip_flagsFrag h fragmentOffset) i;
     i \<leftarrow> WriteU8 (ucast (fragmentOffset AND 0xff)) i;
     i \<leftarrow> WriteU8 (ip_ttl h) i;
     i \<leftarrow> WriteU8 (ip_protocol h) i;
     i \<leftarrow> WriteHtonU16 0 i;
     i \<leftarrow> WriteHtonU32 (ip_source h) i;
     i \<leftarrow> WriteHtonU32 (ip_destination h) i;
     k i } = k \<lparr>it_before = ip_front h @ ?z @ ip_back h, it_after = pl\<rparr>" for k :: "Iterator \<Rightarrow> Iterator option"
    using w by (simp add: codec_simps Let_def ip_front_def ip_back_def)
  have rw: "rewind (Begin (junk @ pl)) \<lparr>it_before = ip_front h @ ?z @ ip_back h, it_after = pl\<rparr> =
      Begin (ip_front h @ le_bytes 2 (0 :: u16) @ ip_back h @ pl)"
    by (simp add: rewind_def Begin_def window_def z)
  have nx: "Next 10 (Begin (ip_front h @ le_bytes 2 (0 :: u16) @ ip_back h @ pl)) =
      Some \<lparr>it_before = ip_front h, it_after = le_bytes 2 (0 :: u16) @ ip_back h @ pl\<rparr>"
    by (simp add: Begin_def Next_append)
  have w2: "Write (le_bytes 2 c) \<lparr>it_before = ip_front h, it_after = le_bytes 2 (0 :: u16) @ ip_back h @ pl\<rparr> =
      Some \<lparr>it_before = ip_front h @ le_bytes 2 c, it_after = ip_back h @ pl\<rparr>" for c :: u16
    by (simp add: Write_def)
  show ?thesis
    unfolding Ipv4Header_Serialize_def front
    by (simp add: Let_def rw [unfolded z] ip_check_value nx Write_le w2 ip_check_def window_def z)
qed

lemma ip_verifies:
  assumes "ip_calcChecksum h"
  shows "CalculateIpChecksum 20 (Begin (ip_front h @ le_bytes 2 (ip_check h) @ ip_back h @ pl)) = Some 0"
  unfolding CalculateIpChecksum_def
  by (rule checksum_verifies) (use assms ip_check_value [of h pl] in \<open>simp_all add: ip_check_def CalculateIpChecksum_def\<close>)

lemma ip_deserialize:
  assumes ok: "ip_ok h" and into: "ip_into h0 h"
  shows "Ipv4Header_Deserialize h0 (Begin ((ip_front h @ le_bytes 2 (ip_check h) @ ip_back h) @ pl)) =
    Some (ip_reads h0 h pl, 20)"
proof -
  have v: "push_bit 4 4 OR 5 = (0x45 :: u8)" by simp
  have off: "push_bit 3 (push_bit 8 (ucast (ip_flagsFrag h (ip_frag h) AND 0x1f)) OR
      ucast (ucast (ip_frag h AND 0xff) :: u8)) = ip_fragmentOffset h"
    using ok by (intro offset_roundtrip) (simp_all add: ip_ok_def)
  have fl: "ip_read_flags (ip_flagsFrag h (ip_frag h)) = ip_flags h"
    using ok by (intro flags_roundtrip) (simp add: ip_ok_def)
  have c: "CalculateIpChecksum 20 (Begin ((ip_front h @ le_bytes 2 (ip_check h) @ ip_back h) @ pl)) = Some 0"
    if "ip_calcChecksum h0"
    using that into ip_verifies [of h pl] by (simp add: ip_into_def)
  let ?start = "Begin ((ip_front h @ le_bytes 2 (ip_check h) @ ip_back h) @ pl)"
  have start: "?start = \<lparr>it_before = [], it_after = 0x45 # ip_tos h # be_bytes 2 (ip_payloadSize h + 20) @
     be_bytes 2 (ip_identification h) @ ip_flagsFrag h (ip_frag h) # ucast (ip_frag h AND 0xff) #
     ip_ttl h # ip_protocol h # le_bytes 2 (ip_check h) @ be_bytes 4 (ip_source h) @
     be_bytes 4 (ip_destination h) @ pl\<rparr>"
    by (simp add: Begin_def ip_front_def ip_back_def)
  have "Ipv4Header_Deserialize h0 ?start = (let h1 = h0\<lparr>ip_tos := ip_tos h, ip_payloadSize := ip_payloadSize h,
      ip_identification := ip_identification h, ip_flags := ip_flags h,
      ip_fragmentOffset := ip_fragmentOffset h, ip_ttl := ip_ttl h, ip_protocol := ip_protocol h,
      ip_checksum := ip_check h, ip_source := ip_source h, ip_destination := ip_destination h,
      ip_headerSize := 20\<rparr> in
      if ip_calcChecksum h0 then do {
        checksum \<leftarrow> CalculateIpChecksum 20 ?start;
        Some (h1\<lparr>ip_goodChecksum := (checksum = 0)\<rparr>, 20) } else Some (h1, 20))"
    unfolding Ipv4Header_Deserialize_def start
    by (simp add: codec_simps Prev_def Let_def off off [simplified] fl Ipv4Header_GetSerializedSize_def)
  with c ok show ?thesis
    by (cases h0; cases h) (simp add: Let_def ip_reads_def ip_ok_def)
qed

lemma ip_law:
  assumes "ip_ok h" and "length junk = Ipv4Header_GetSerializedSize h"
  shows "\<exists>bs i. Ipv4Header_Serialize h (Begin (junk @ pl)) = Some i \<and> window i = bs @ pl \<and>
    length bs = Ipv4Header_GetSerializedSize h \<and>
    (\<forall>h0. ip_into h0 h \<longrightarrow> Ipv4Header_Deserialize h0 (Begin (bs @ pl)) =
       Some (ip_reads h0 h pl, Ipv4Header_GetSerializedSize h))"
proof -
  have "Ipv4Header_GetSerializedSize h = 20" using assms(1) by (simp add: Ipv4Header_GetSerializedSize_def ip_ok_def)
  with assms ip_serialize [of junk h pl] ip_deserialize [OF assms(1), of _ pl] show ?thesis
    by (intro exI [of _ "ip_front h @ le_bytes 2 (ip_check h) @ ip_back h"]) auto
qed

interpretation ipv4: header_codec Ipv4Header_GetSerializedSize Ipv4Header_Serialize Ipv4Header_Deserialize
  "\<lambda>h pl. ip_ok h" ip_into ip_reads
  by unfold_locales (rule ip_law)

interpretation udp_over_ipv4: header_stack UdpHeader_GetSerializedSize "UdpHeader_Serialize T"
  "UdpHeader_Deserialize T" udp_ok udp_into "udp_reads T"
  Ipv4Header_GetSerializedSize Ipv4Header_Serialize Ipv4Header_Deserialize "\<lambda>h pl. ip_ok h" ip_into ip_reads
  for T ..

end
