(* ===== verification/Tcp_Header.thy ===== *)
theory Tcp_Header
  imports Ip_Headers
begin

text \<open>
  \<^verbatim>\<open>TcpHeader\<close> (\<^verbatim>\<open>internet/model/tcp-header.cc\<close>) and the TCP options (\<^verbatim>\<open>tcp-option*.cc\<close>): the option
  list with its length bookkeeping, serialisation with padding and checksum, and the option
  loop of \<^verbatim>\<open>Deserialize\<close>, with fuel because it need not end.
\<close>

section \<open>Options\<close>

text \<open>The subclasses of \<^verbatim>\<open>TcpOption\<close>; an unknown option keeps kind, size and content.\<close>

datatype TcpOption =
    OptEnd
  | OptNOP
  | OptMSS u16
  | OptWinScale u8
  | OptSackPermitted
  | OptSack "(u32 \<times> u32) list"
  | OptTS u32 u32
  | OptUnknown u8 nat "u8 list"

definition KIND_END :: u8 where "KIND_END = 0"
definition KIND_NOP :: u8 where "KIND_NOP = 1"
definition KIND_MSS :: u8 where "KIND_MSS = 2"
definition KIND_WINSCALE :: u8 where "KIND_WINSCALE = 3"
definition KIND_SACKPERMITTED :: u8 where "KIND_SACKPERMITTED = 4"
definition KIND_SACK :: u8 where "KIND_SACK = 5"
definition KIND_TS :: u8 where "KIND_TS = 8"
definition KIND_UNKNOWN :: u8 where "KIND_UNKNOWN = 255"

lemmas kind_defs = KIND_END_def KIND_NOP_def KIND_MSS_def KIND_WINSCALE_def KIND_SACKPERMITTED_def
  KIND_SACK_def KIND_TS_def KIND_UNKNOWN_def

definition IsKindKnown :: "u8 \<Rightarrow> bool" where
  "IsKindKnown kind \<longleftrightarrow> kind = KIND_END \<or> kind = KIND_NOP \<or> kind = KIND_MSS \<or> kind = KIND_WINSCALE \<or>
     kind = KIND_SACKPERMITTED \<or> kind = KIND_SACK \<or> kind = KIND_TS"

definition CreateOption :: "u8 \<Rightarrow> TcpOption" where
  "CreateOption kind =
     (if kind = KIND_END then OptEnd
      else if kind = KIND_MSS then OptMSS 1460
      else if kind = KIND_NOP then OptNOP
      else if kind = KIND_TS then OptTS 0 0
      else if kind = KIND_WINSCALE then OptWinScale 0
      else if kind = KIND_SACKPERMITTED then OptSackPermitted
      else if kind = KIND_SACK then OptSack []
      else OptUnknown 0xFF 0 [])"

fun GetKind :: "TcpOption \<Rightarrow> u8" where
  "GetKind OptEnd = KIND_END"
| "GetKind OptNOP = KIND_NOP"
| "GetKind (OptMSS mss) = KIND_MSS"
| "GetKind (OptWinScale scale) = KIND_WINSCALE"
| "GetKind OptSackPermitted = KIND_SACKPERMITTED"
| "GetKind (OptSack sackList) = KIND_SACK"
| "GetKind (OptTS timestamp echo) = KIND_TS"
| "GetKind (OptUnknown kind sz content) = kind"

fun TcpOption_GetSerializedSize :: "TcpOption \<Rightarrow> nat" where
  "TcpOption_GetSerializedSize OptEnd = 1"
| "TcpOption_GetSerializedSize OptNOP = 1"
| "TcpOption_GetSerializedSize (OptMSS mss) = 4"
| "TcpOption_GetSerializedSize (OptWinScale scale) = 3"
| "TcpOption_GetSerializedSize OptSackPermitted = 2"
| "TcpOption_GetSerializedSize (OptSack sackList) = 2 + length sackList * 8"
| "TcpOption_GetSerializedSize (OptTS timestamp echo) = 10"
| "TcpOption_GetSerializedSize (OptUnknown kind sz content) = sz"

fun write_blocks :: "(u32 \<times> u32) list \<Rightarrow> Iterator \<Rightarrow> Iterator option" where
  "write_blocks [] i = Some i"
| "write_blocks ((leftEdge, rightEdge) # blocks) i = do {
     i \<leftarrow> WriteHtonU32 leftEdge i;
     i \<leftarrow> WriteHtonU32 rightEdge i;
     write_blocks blocks i }"

definition TcpOptionEnd_Serialize :: "Iterator \<Rightarrow> Iterator option" where
  "TcpOptionEnd_Serialize start = WriteU8 KIND_END start"

definition TcpOptionNOP_Serialize :: "Iterator \<Rightarrow> Iterator option" where
  "TcpOptionNOP_Serialize start = WriteU8 KIND_NOP start"

definition TcpOptionMSS_Serialize :: "u16 \<Rightarrow> Iterator \<Rightarrow> Iterator option" where
  "TcpOptionMSS_Serialize mss start = do {
     i \<leftarrow> WriteU8 KIND_MSS start;
     i \<leftarrow> WriteU8 4 i;
     WriteHtonU16 mss i }"

definition TcpOptionWinScale_Serialize :: "u8 \<Rightarrow> Iterator \<Rightarrow> Iterator option" where
  "TcpOptionWinScale_Serialize scale start = do {
     i \<leftarrow> WriteU8 KIND_WINSCALE start;
     i \<leftarrow> WriteU8 3 i;
     WriteU8 scale i }"

definition TcpOptionSackPermitted_Serialize :: "Iterator \<Rightarrow> Iterator option" where
  "TcpOptionSackPermitted_Serialize start = do {
     i \<leftarrow> WriteU8 KIND_SACKPERMITTED start;
     WriteU8 2 i }"

definition TcpOptionSack_Serialize :: "(u32 \<times> u32) list \<Rightarrow> Iterator \<Rightarrow> Iterator option" where
  "TcpOptionSack_Serialize sackList start = do {
     i \<leftarrow> WriteU8 KIND_SACK start;
     i \<leftarrow> WriteU8 (of_nat (length sackList * 8 + 2)) i;
     write_blocks sackList i }"

definition TcpOptionTS_Serialize :: "u32 \<Rightarrow> u32 \<Rightarrow> Iterator \<Rightarrow> Iterator option" where
  "TcpOptionTS_Serialize timestamp echo start = do {
     i \<leftarrow> WriteU8 KIND_TS start;
     i \<leftarrow> WriteU8 10 i;
     i \<leftarrow> WriteHtonU32 timestamp i;
     WriteHtonU32 echo i }"

definition TcpOptionUnknown_Serialize :: "u8 \<Rightarrow> nat \<Rightarrow> u8 list \<Rightarrow> Iterator \<Rightarrow> Iterator option" where
  "TcpOptionUnknown_Serialize kind sz content start =
     (if sz = 0 then Some start
      else if sz < 2 then None
      else do {
        i \<leftarrow> WriteU8 kind start;
        i \<leftarrow> WriteU8 (of_nat sz) i;
        Write (take (sz - 2) content) i })"

lemmas option_serialize_defs [simp] = TcpOptionEnd_Serialize_def TcpOptionNOP_Serialize_def TcpOptionMSS_Serialize_def 
  TcpOptionWinScale_Serialize_def TcpOptionSackPermitted_Serialize_def TcpOptionSack_Serialize_def
  TcpOptionTS_Serialize_def TcpOptionUnknown_Serialize_def

text \<open>The virtual call.\<close>

fun TcpOption_Serialize :: "TcpOption \<Rightarrow> Iterator \<Rightarrow> Iterator option" where
  "TcpOption_Serialize OptEnd start = TcpOptionEnd_Serialize start"
| "TcpOption_Serialize OptNOP start = TcpOptionNOP_Serialize start"
| "TcpOption_Serialize (OptMSS mss) start = TcpOptionMSS_Serialize mss start"
| "TcpOption_Serialize (OptWinScale scale) start = TcpOptionWinScale_Serialize scale start"
| "TcpOption_Serialize OptSackPermitted start = TcpOptionSackPermitted_Serialize start"
| "TcpOption_Serialize (OptSack sackList) start = TcpOptionSack_Serialize sackList start"
| "TcpOption_Serialize (OptTS timestamp echo) start = TcpOptionTS_Serialize timestamp echo start"
| "TcpOption_Serialize (OptUnknown kind sz content) start = TcpOptionUnknown_Serialize kind sz content start"

fun read_blocks :: "nat \<Rightarrow> Iterator \<Rightarrow> ((u32 \<times> u32) list \<times> Iterator) option" where
  "read_blocks 0 i = Some ([], i)"
| "read_blocks (Suc n) i = do {
     (leftEdge, i) \<leftarrow> ReadNtohU32 i;
     (rightEdge, i) \<leftarrow> ReadNtohU32 i;
     (blocks, i) \<leftarrow> read_blocks n i;
     Some ((leftEdge, rightEdge) # blocks, i) }"

text \<open>
  The option after reading and the size it reports, 0 for a malformed one.  The abort on a wrong
  length of the MSS option is \<open>None\<close>.
\<close>

definition TcpOptionEnd_Deserialize :: "Iterator \<Rightarrow> (TcpOption \<times> nat) option" where
  "TcpOptionEnd_Deserialize start = do {
     (readKind, i) \<leftarrow> ReadU8 start;
     if readKind \<noteq> KIND_END then Some (OptEnd, 0) else Some (OptEnd, 1) }"

definition TcpOptionNOP_Deserialize :: "Iterator \<Rightarrow> (TcpOption \<times> nat) option" where
  "TcpOptionNOP_Deserialize start = do {
     (readKind, i) \<leftarrow> ReadU8 start;
     if readKind \<noteq> KIND_NOP then Some (OptNOP, 0) else Some (OptNOP, 1) }"

definition TcpOptionMSS_Deserialize :: "u16 \<Rightarrow> Iterator \<Rightarrow> (TcpOption \<times> nat) option" where
  "TcpOptionMSS_Deserialize mss start = do {
     (readKind, i) \<leftarrow> ReadU8 start;
     if readKind \<noteq> KIND_MSS then Some (OptMSS mss, 0)
     else do {
       (len, i) \<leftarrow> ReadU8 i;
       if len \<noteq> 4 then None
       else do {
         (mss, i) \<leftarrow> ReadNtohU16 i;
         Some (OptMSS mss, 4) } } }"

definition TcpOptionWinScale_Deserialize :: "u8 \<Rightarrow> Iterator \<Rightarrow> (TcpOption \<times> nat) option" where
  "TcpOptionWinScale_Deserialize scale start = do {
     (readKind, i) \<leftarrow> ReadU8 start;
     if readKind \<noteq> KIND_WINSCALE then Some (OptWinScale scale, 0)
     else do {
       (len, i) \<leftarrow> ReadU8 i;
       if len \<noteq> 3 then Some (OptWinScale scale, 0)
       else do {
         (scale, i) \<leftarrow> ReadU8 i;
         Some (OptWinScale scale, 3) } } }"

definition TcpOptionSackPermitted_Deserialize :: "Iterator \<Rightarrow> (TcpOption \<times> nat) option" where
  "TcpOptionSackPermitted_Deserialize start = do {
     (readKind, i) \<leftarrow> ReadU8 start;
     if readKind \<noteq> KIND_SACKPERMITTED then Some (OptSackPermitted, 0)
     else do {
       (len, i) \<leftarrow> ReadU8 i;
       if len \<noteq> 2 then Some (OptSackPermitted, 0) else Some (OptSackPermitted, 2) } }"

definition TcpOptionSack_Deserialize :: "(u32 \<times> u32) list \<Rightarrow> Iterator \<Rightarrow> (TcpOption \<times> nat) option" where
  "TcpOptionSack_Deserialize sackList start = do {
     (readKind, i) \<leftarrow> ReadU8 start;
     if readKind \<noteq> KIND_SACK then Some (OptSack sackList, 0)
     else do {
       (len, i) \<leftarrow> ReadU8 i;
       let sackCount = (unat len - 2) div 8;
       (blocks, i) \<leftarrow> read_blocks sackCount i;
       Some (OptSack blocks, 2 + length blocks * 8) } }"

definition TcpOptionTS_Deserialize :: "u32 \<Rightarrow> u32 \<Rightarrow> Iterator \<Rightarrow> (TcpOption \<times> nat) option" where
  "TcpOptionTS_Deserialize timestamp echo start = do {
     (readKind, i) \<leftarrow> ReadU8 start;
     if readKind \<noteq> KIND_TS then Some (OptTS timestamp echo, 0)
     else do {
       (len, i) \<leftarrow> ReadU8 i;
       if len \<noteq> 10 then Some (OptTS timestamp echo, 0)
       else do {
         (timestamp, i) \<leftarrow> ReadNtohU32 i;
         (echo, i) \<leftarrow> ReadNtohU32 i;
         Some (OptTS timestamp echo, 10) } } }"

definition TcpOptionUnknown_Deserialize :: "u8 \<Rightarrow> nat \<Rightarrow> u8 list \<Rightarrow> Iterator \<Rightarrow> (TcpOption \<times> nat) option" where
  "TcpOptionUnknown_Deserialize kind sz content start = do {
     (kind, i) \<leftarrow> ReadU8 start;
     (len, i) \<leftarrow> ReadU8 i;
     let sz = unat len;
     if sz < 2 \<or> sz > 40 then Some (OptUnknown kind sz content, 0)
     else do {
       (content, i) \<leftarrow> Read (sz - 2) i;
       Some (OptUnknown kind sz content, sz) } }"

lemmas option_deserialize_defs [simp] = TcpOptionEnd_Deserialize_def TcpOptionNOP_Deserialize_def TcpOptionMSS_Deserialize_def 
  TcpOptionWinScale_Deserialize_def TcpOptionSackPermitted_Deserialize_def TcpOptionSack_Deserialize_def
  TcpOptionTS_Deserialize_def TcpOptionUnknown_Deserialize_def

text \<open>The virtual call.\<close>

fun TcpOption_Deserialize :: "TcpOption \<Rightarrow> Iterator \<Rightarrow> (TcpOption \<times> nat) option" where
  "TcpOption_Deserialize OptEnd start = TcpOptionEnd_Deserialize start"
| "TcpOption_Deserialize OptNOP start = TcpOptionNOP_Deserialize start"
| "TcpOption_Deserialize (OptMSS mss) start = TcpOptionMSS_Deserialize mss start"
| "TcpOption_Deserialize (OptWinScale scale) start = TcpOptionWinScale_Deserialize scale start"
| "TcpOption_Deserialize OptSackPermitted start = TcpOptionSackPermitted_Deserialize start"
| "TcpOption_Deserialize (OptSack sackList) start = TcpOptionSack_Deserialize sackList start"
| "TcpOption_Deserialize (OptTS timestamp echo) start = TcpOptionTS_Deserialize timestamp echo start"
| "TcpOption_Deserialize (OptUnknown kind sz content) start = TcpOptionUnknown_Deserialize kind sz content start"

section \<open>The header\<close>

record TcpHeader =
  tcp_sourcePort :: u16
  tcp_destinationPort :: u16
  tcp_sequenceNumber :: u32
  tcp_ackNumber :: u32
  tcp_length :: u8
  tcp_flags :: u8
  tcp_windowSize :: u16
  tcp_urgentPointer :: u16
  tcp_source :: Address
  tcp_destination :: Address
  tcp_protocol :: u8
  tcp_calcChecksum :: bool
  tcp_goodChecksum :: bool
  tcp_options :: "TcpOption list"
  tcp_optionsLen :: u8

definition m_maxOptionsLen :: nat where "m_maxOptionsLen = 40"

definition TcpHeader_new :: TcpHeader where
  "TcpHeader_new = \<lparr>tcp_sourcePort = 0, tcp_destinationPort = 0, tcp_sequenceNumber = 0,
     tcp_ackNumber = 0, tcp_length = 5, tcp_flags = 0, tcp_windowSize = 0xffff, tcp_urgentPointer = 0,
     tcp_source = \<lparr>a_type = 0, a_data = []\<rparr>, tcp_destination = \<lparr>a_type = 0, a_data = []\<rparr>,
     tcp_protocol = 6, tcp_calcChecksum = False, tcp_goodChecksum = True, tcp_options = [],
     tcp_optionsLen = 0\<rparr>"

definition options_size :: "TcpOption list \<Rightarrow> nat" where
  "options_size os = sum_list (map TcpOption_GetSerializedSize os)"

definition CalculateHeaderLength :: "TcpHeader \<Rightarrow> u8" where
  "CalculateHeaderLength h =
     (let len = 20 + options_size (tcp_options h);
          len = (if len mod 4 \<noteq> 0 then len + (4 - len mod 4) else len)
      in of_nat (len div 4))"

definition TcpHeader_GetSerializedSize :: "TcpHeader \<Rightarrow> nat" where
  "TcpHeader_GetSerializedSize h = unat (CalculateHeaderLength h) * 4"

definition AppendOption :: "TcpOption \<Rightarrow> TcpHeader \<Rightarrow> bool \<times> TcpHeader" where
  "AppendOption opt h =
     (if unat (tcp_optionsLen h) + TcpOption_GetSerializedSize opt \<le> m_maxOptionsLen then
        (if \<not> IsKindKnown (GetKind opt) then (False, h)
         else if GetKind opt \<noteq> KIND_END then
           (let h = h\<lparr>tcp_options := tcp_options h @ [opt],
                      tcp_optionsLen := tcp_optionsLen h + of_nat (TcpOption_GetSerializedSize opt)\<rparr>;
                totalLen = 20 + 3 + unat (tcp_optionsLen h)
            in (True, h\<lparr>tcp_length := of_nat (totalLen div 4)\<rparr>))
         else (True, h))
      else (False, h))"

definition GetOption :: "u8 \<Rightarrow> TcpHeader \<Rightarrow> TcpOption option" where
  "GetOption kind h = find (\<lambda>op. GetKind op = kind) (tcp_options h)"

definition HasOption :: "u8 \<Rightarrow> TcpHeader \<Rightarrow> bool" where
  "HasOption kind h \<longleftrightarrow> (\<exists>op\<in>set (tcp_options h). GetKind op = kind)"

section \<open>Serialize\<close>

text \<open>Each option writes at the cursor, which then moves on by the option's size.\<close>

fun write_options :: "TcpOption list \<Rightarrow> nat \<Rightarrow> Iterator \<Rightarrow> (nat \<times> Iterator) option" where
  "write_options [] optionLen i = Some (optionLen, i)"
| "write_options (op # ops) optionLen i = do {
     j \<leftarrow> TcpOption_Serialize op i;
     i \<leftarrow> Next (TcpOption_GetSerializedSize op) (rewind i j);
     write_options ops (optionLen + TcpOption_GetSerializedSize op) i }"

function write_padding :: "nat \<Rightarrow> Iterator \<Rightarrow> Iterator option" where
  "write_padding optionLen i =
     (if optionLen mod 4 \<noteq> 0 then do {
        i \<leftarrow> WriteU8 KIND_END i;
        write_padding (optionLen + 1) i }
      else Some i)"
  by pat_completeness auto
termination
proof (relation "measure (\<lambda>(n, i). (4 - n mod 4) mod 4)")
  fix n :: nat and i j :: Iterator
  assume "n mod 4 \<noteq> 0"
  moreover have "n mod 4 = 0 \<or> n mod 4 = 1 \<or> n mod 4 = 2 \<or> n mod 4 = 3" by linarith
  ultimately show "((n + 1, j), n, i) \<in> measure (\<lambda>(n, i). (4 - n mod 4) mod 4)"
    by (auto simp: mod_Suc)
qed simp

declare write_padding.simps [simp del]

definition TcpHeader_Serialize :: "address_types \<Rightarrow> TcpHeader \<Rightarrow> Iterator \<Rightarrow> Iterator option" where
  "TcpHeader_Serialize T h start = do {
     i \<leftarrow> WriteHtonU16 (tcp_sourcePort h) start;
     i \<leftarrow> WriteHtonU16 (tcp_destinationPort h) i;
     i \<leftarrow> WriteHtonU32 (tcp_sequenceNumber h) i;
     i \<leftarrow> WriteHtonU32 (tcp_ackNumber h) i;
     i \<leftarrow> WriteHtonU16 (push_bit 12 (ucast (tcp_length h)) OR ucast (tcp_flags h)) i;
     i \<leftarrow> WriteHtonU16 (tcp_windowSize h) i;
     i \<leftarrow> WriteHtonU16 0 i;
     i \<leftarrow> WriteHtonU16 (tcp_urgentPointer h) i;
     (optionLen, i) \<leftarrow> write_options (tcp_options h) 0 i;
     i \<leftarrow> write_padding optionLen i;
     if tcp_calcChecksum h then do {
       headerChecksum \<leftarrow> CalculateHeaderChecksum False T (tcp_source h) (tcp_destination h)
                          (tcp_protocol h) (of_nat (GetSize start));
       let i = rewind start i;
       checksum \<leftarrow> CalculateIpChecksum_init (unat (of_nat (GetSize start) :: u16))
                    (ucast headerChecksum) i;
       i \<leftarrow> Next 16 i;
       WriteU16 checksum i }
     else Some i }"

section \<open>Deserialize\<close>

text \<open>How a run of the option loop can end.\<close>

datatype 'a run = OutOfFuel | Undefined | Returned 'a

fun of_option :: "'a option \<Rightarrow> ('a \<Rightarrow> 'b run) \<Rightarrow> 'b run" where
  "of_option None f = Undefined"
| "of_option (Some x) f = f x"

fun read_options :: "nat \<Rightarrow> nat \<Rightarrow> Iterator \<Rightarrow> TcpOption list \<Rightarrow> u8 \<Rightarrow> (TcpOption list \<times> u8) run" where
  "read_options fuel 0 i opts optsLen = Returned (opts, optsLen)"
| "read_options 0 (Suc optionLen) i opts optsLen = OutOfFuel"
| "read_options (Suc fuel) (Suc n) i opts optsLen =
     (let optionLen = Suc n in
      of_option (PeekU8 i) (\<lambda>kind.
      of_option (TcpOption_Deserialize
          (if IsKindKnown kind then CreateOption kind else CreateOption KIND_UNKNOWN) i) (\<lambda>(op, optionSize).
        if optionSize \<noteq> TcpOption_GetSerializedSize op then Returned (opts, optsLen)
        else if optionLen \<ge> optionSize then
          of_option (Next optionSize i) (\<lambda>i.
            let optionLen = optionLen - optionSize;
                opts = opts @ [op];
                optsLen = optsLen + of_nat optionSize
            in if GetKind op = KIND_END then
                 of_option (Next optionLen i) (\<lambda>i.
                   read_options fuel 0 i opts (optsLen + of_nat optionLen))
               else read_options fuel optionLen i opts optsLen)
        else Returned (opts, optsLen))))"

text \<open>\<^verbatim>\<open>uint32_t optionLen = (m_length - 5) * 4\<close>: a length below five words wraps.\<close>

definition tcp_optionSpace :: "TcpHeader \<Rightarrow> nat" where
  "tcp_optionSpace h = unat ((ucast (tcp_length h) - 5) * 4 :: u32)"

definition TcpHeader_Deserialize ::
  "nat \<Rightarrow> address_types \<Rightarrow> TcpHeader \<Rightarrow> Iterator \<Rightarrow> (TcpHeader \<times> nat) run" where
  "TcpHeader_Deserialize fuel T h start =
     of_option (do {
       (sp, i) \<leftarrow> ReadNtohU16 start;
       (dp, i) \<leftarrow> ReadNtohU16 i;
       (sn, i) \<leftarrow> ReadNtohU32 i;
       (an, i) \<leftarrow> ReadNtohU32 i;
       (field, i) \<leftarrow> ReadNtohU16 i;
       (ws, i) \<leftarrow> ReadNtohU16 i;
       i \<leftarrow> Next 2 i;
       (up, i) \<leftarrow> ReadNtohU16 i;
       Some (h\<lparr>tcp_optionsLen := 0, tcp_sourcePort := sp, tcp_destinationPort := dp,
               tcp_sequenceNumber := sn, tcp_ackNumber := an, tcp_flags := ucast (field AND 0xFF),
               tcp_length := ucast (drop_bit 12 field), tcp_windowSize := ws,
               tcp_urgentPointer := up, tcp_options := []\<rparr>, i) })
     (\<lambda>(h, i).
       let optionLen = tcp_optionSpace h in
       if optionLen > m_maxOptionsLen then Returned (h, 20)
       else case read_options fuel optionLen i [] 0 of
           OutOfFuel \<Rightarrow> OutOfFuel
         | Undefined \<Rightarrow> Undefined
         | Returned (opts, optsLen) \<Rightarrow>
             let h = h\<lparr>tcp_options := opts, tcp_optionsLen := optsLen\<rparr> in
             if tcp_calcChecksum h then
               of_option (do {
                 headerChecksum \<leftarrow> CalculateHeaderChecksum False T (tcp_source h) (tcp_destination h)
                                    (tcp_protocol h) (of_nat (GetSize start));
                 CalculateIpChecksum_init (unat (of_nat (GetSize start) :: u16))
                   (ucast headerChecksum) start })
               (\<lambda>checksum.
                 let h = h\<lparr>tcp_goodChecksum := (checksum = 0)\<rparr>
                 in Returned (h, TcpHeader_GetSerializedSize h))
             else Returned (h, TcpHeader_GetSerializedSize h))"

section \<open>Options as bytes\<close>

fun block_bytes :: "(u32 \<times> u32) list \<Rightarrow> u8 list" where
  "block_bytes [] = []"
| "block_bytes ((l, r) # bs) = be_bytes 4 l @ be_bytes 4 r @ block_bytes bs"

fun opt_bytes :: "TcpOption \<Rightarrow> u8 list" where
  "opt_bytes OptEnd = [KIND_END]"
| "opt_bytes OptNOP = [KIND_NOP]"
| "opt_bytes (OptMSS mss) = [KIND_MSS, 4] @ be_bytes 2 mss"
| "opt_bytes (OptWinScale scale) = [KIND_WINSCALE, 3, scale]"
| "opt_bytes OptSackPermitted = [KIND_SACKPERMITTED, 2]"
| "opt_bytes (OptSack bs) = [KIND_SACK, of_nat (length bs * 8 + 2)] @ block_bytes bs"
| "opt_bytes (OptTS t e) = [KIND_TS, 10] @ be_bytes 4 t @ be_bytes 4 e"
| "opt_bytes (OptUnknown k sz c) = [k, of_nat sz] @ take (sz - 2) c"

text \<open>The options a header can hold for sending: known, not \<^verbatim>\<open>END\<close>, and short enough for the length byte.\<close>

definition opt_ok :: "TcpOption \<Rightarrow> bool" where
  "opt_ok op \<longleftrightarrow> IsKindKnown (GetKind op) \<and> GetKind op \<noteq> KIND_END \<and>
     (\<forall>k sz c. op \<noteq> OptUnknown k sz c) \<and> TcpOption_GetSerializedSize op \<le> m_maxOptionsLen"

lemma length_block_bytes [simp]: "length (block_bytes bs) = length bs * 8"
  by (induction bs rule: block_bytes.induct) simp_all

lemma length_opt_bytes: "opt_ok op \<Longrightarrow> length (opt_bytes op) = TcpOption_GetSerializedSize op"
  by (cases op) (simp_all add: opt_ok_def)

lemma write_blocks_Write: "write_blocks bs = Write (block_bytes bs)"
proof (induction bs rule: block_bytes.induct)
  case (2 l r bs)
  show ?case by (rule ext) (simp add: 2 codec_simps)
qed (simp add: fun_eq_iff)

lemma TcpOption_Serialize_Write: "opt_ok op \<Longrightarrow> TcpOption_Serialize op i = Write (opt_bytes op) i"
  by (cases op) (simp_all add: opt_ok_def codec_simps write_blocks_Write)

lemma Write_rewind_Next:
  "Write bs i = Some j \<Longrightarrow> length bs = n \<Longrightarrow> Next n (rewind i j) = Some j"
  by (auto simp: Write_def Next_def rewind_def window_def split: if_splits)

lemma write_options_Write:
  assumes "\<forall>op\<in>set os. opt_ok op"
  shows "write_options os n i =
    map_option (\<lambda>j. (n + options_size os, j)) (Write (concat (map opt_bytes os)) i)"
  using assms
proof (induction os arbitrary: n i)
  case Nil
  then show ?case by (simp add: options_size_def)
next
  case (Cons op os)
  then have ok: "opt_ok op" by simp
  show ?case
  proof (cases "Write (opt_bytes op) i")
    case None
    then have "Write (opt_bytes op @ concat (map opt_bytes os)) i = None"
      by (simp add: Write_append [symmetric])
    with None show ?thesis by (simp add: TcpOption_Serialize_Write [OF ok])
  next
    case (Some j)
    then have "Write (opt_bytes op @ concat (map opt_bytes os)) i = Write (concat (map opt_bytes os)) j"
      by (simp add: Write_append [symmetric])
    with Some Cons Write_rewind_Next [OF Some length_opt_bytes [OF ok]] show ?thesis
      by (simp add: TcpOption_Serialize_Write [OF ok] options_size_def add.assoc)
  qed
qed

definition pad_size :: "nat \<Rightarrow> nat" where
  "pad_size n = (4 - n mod 4) mod 4"

lemma write_padding_Write: "write_padding n i = Write (replicate (pad_size n) 0) i"
proof (induction n i rule: write_padding.induct)
  case (1 n i)
  show ?case
  proof (cases "n mod 4 = 0")
    case True
    then show ?thesis by (simp add: write_padding.simps [of n] pad_size_def)
  next
    case False
    have "n mod 4 = 0 \<or> n mod 4 = 1 \<or> n mod 4 = 2 \<or> n mod 4 = 3" by linarith
    with False have p: "pad_size n = Suc (pad_size (n + 1))" by (auto simp: pad_size_def mod_Suc)
    have "write_padding n i = Option.bind (Write [0] i) (Write (replicate (pad_size (n + 1)) 0))"
      unfolding write_padding.simps [of n i] using False 1
      by (cases "WriteU8 KIND_END i") (simp_all add: WriteU8_Write KIND_END_def)
    then show ?thesis by (simp add: p Write_append)
  qed
qed

lemma pad_size_mod: "(n + pad_size n) mod 4 = 0"
proof -
  have "n mod 4 = 0 \<or> n mod 4 = 1 \<or> n mod 4 = 2 \<or> n mod 4 = 3" by linarith
  then show ?thesis by (auto simp: pad_size_def mod_add_eq [of n 4, symmetric])
qed

lemma pad_size_less: "pad_size n < 4"
  by (simp add: pad_size_def)

lemma pad_size_Suc: "pad_size n \<noteq> 0 \<Longrightarrow> Suc n + pad_size (Suc n) = n + pad_size n"
proof -
  assume "pad_size n \<noteq> 0"
  moreover have "n mod 4 = 0 \<or> n mod 4 = 1 \<or> n mod 4 = 2 \<or> n mod 4 = 3" by linarith
  ultimately show ?thesis by (auto simp: pad_size_def mod_Suc)
qed

section \<open>Reading options back\<close>

lemma read_blocks_append:
  "read_blocks (length bs) \<lparr>it_before = pre, it_after = block_bytes bs @ suf\<rparr> =
     Some (bs, \<lparr>it_before = pre @ block_bytes bs, it_after = suf\<rparr>)"
proof (induction bs arbitrary: pre rule: block_bytes.induct)
  case 1
  then show ?case by simp
next
  case (2 l r bs)
  from 2 [of "pre @ be_bytes 4 l @ be_bytes 4 r"] show ?case by (simp add: codec_simps)
qed

lemma unat_sack_length: "length bs \<le> 4 \<Longrightarrow> unat (of_nat (length bs * 8 + 2) :: u8) = length bs * 8 + 2"
  by (subst unat_of_nat) simp

lemma PeekU8_option:
  "opt_ok op \<Longrightarrow> PeekU8 \<lparr>it_before = pre, it_after = opt_bytes op @ suf\<rparr> = Some (GetKind op)"
  by (cases op) (simp_all add: PeekU8_def opt_ok_def)

lemma TcpOption_Deserialize_bytes:
  assumes "opt_ok op"
  shows "TcpOption_Deserialize (CreateOption (GetKind op)) \<lparr>it_before = pre, it_after = opt_bytes op @ suf\<rparr> =
    Some (op, TcpOption_GetSerializedSize op)"
proof (cases op)
  case (OptSack bs)
  with assms have "length bs \<le> 4" by (simp add: opt_ok_def m_maxOptionsLen_def)
  with unat_sack_length [OF this] OptSack show ?thesis
    using read_blocks_append [of bs "pre @ [KIND_SACK, of_nat (length bs * 8 + 2)]" suf]
    by (simp add: CreateOption_def kind_defs ReadU8_Cons)
qed (use assms in \<open>simp_all add: CreateOption_def kind_defs codec_simps opt_ok_def\<close>)

lemma read_options_bytes:
  assumes "\<forall>op\<in>set os. opt_ok op" and "length os + 2 \<le> fuel" and "p < 4"
  shows "read_options fuel (options_size os + p)
      \<lparr>it_before = pre, it_after = concat (map opt_bytes os) @ replicate p 0 @ suf\<rparr> opts optsLen =
    Returned (opts @ os @ (if p = 0 then [] else [OptEnd]), optsLen + of_nat (options_size os + p))"
  using assms(1,2)
proof (induction os arbitrary: fuel pre opts optsLen)
  case Nil
  show ?case
  proof (cases p)
    case 0
    then show ?thesis by (simp add: options_size_def)
  next
    case (Suc q)
    have "fuel = Suc (Suc (fuel - 2))" using Nil.prems(2) by simp
    then obtain f where "fuel = Suc (Suc f)" by blast
    with Suc show ?thesis
      by (simp add: options_size_def PeekU8_def IsKindKnown_def CreateOption_def kind_defs ReadU8_Cons
          Next_def algebra_simps)
  qed
next
  case (Cons op os)
  then have ok: "opt_ok op" by simp
  obtain f where f: "fuel = Suc f" "length os + 2 \<le> f" using Cons.prems(2) by (cases fuel) auto
  have pos: "0 < TcpOption_GetSerializedSize op" using ok by (cases op) (simp_all add: opt_ok_def)
  have sz: "options_size (op # os) + p = Suc (TcpOption_GetSerializedSize op - 1 + (options_size os + p))"
    using pos by (simp add: options_size_def)
  have nx: "Next (TcpOption_GetSerializedSize op) \<lparr>it_before = pre, it_after = opt_bytes op @ r\<rparr> =
      Some \<lparr>it_before = pre @ opt_bytes op, it_after = r\<rparr>" for r
    by (rule Next_append) (rule length_opt_bytes [OF ok])
  have k: "IsKindKnown (GetKind op)" "GetKind op \<noteq> KIND_END" using ok by (simp_all add: opt_ok_def)
  have left: "Suc (TcpOption_GetSerializedSize op - 1 + (options_size os + p)) -
      TcpOption_GetSerializedSize op = options_size os + p"
    using pos by simp
  have ws: "of_nat (TcpOption_GetSerializedSize op) =
      (1 + of_nat (TcpOption_GetSerializedSize op - Suc 0) :: u8)"
    using pos by (cases "TcpOption_GetSerializedSize op") simp_all
  have le: "TcpOption_GetSerializedSize op \<le> Suc (TcpOption_GetSerializedSize op - 1 + (options_size os + p))"
    by simp
  from Cons.IH [OF _ f(2), of "pre @ opt_bytes op" "opts @ [op]"
      "optsLen + of_nat (TcpOption_GetSerializedSize op)"] Cons.prems(1) show ?case
    unfolding sz f(1) read_options.simps Let_def
    by (simp only: list.map concat.simps append_assoc PeekU8_option [OF ok] of_option.simps k if_True
        TcpOption_Deserialize_bytes [OF ok] prod.case left le nx if_False simp_thms)
       (use ws in \<open>simp add: options_size_def algebra_simps\<close>)
qed

section \<open>The contract\<close>

definition opts_len :: "TcpHeader \<Rightarrow> nat" where
  "opts_len h = options_size (tcp_options h) + pad_size (options_size (tcp_options h))"

definition tcp_ok :: "TcpHeader \<Rightarrow> u8 list \<Rightarrow> bool" where
  "tcp_ok h pl \<longleftrightarrow> (\<forall>op\<in>set (tcp_options h). opt_ok op) \<and> options_size (tcp_options h) \<le> m_maxOptionsLen \<and>
     tcp_length h = CalculateHeaderLength h \<and> 60 + length pl < 65536 \<and>
     GetLength (tcp_source h) \<le> MAX_SIZE \<and> GetLength (tcp_destination h) \<le> MAX_SIZE"

definition tcp_into :: "TcpHeader \<Rightarrow> TcpHeader \<Rightarrow> bool" where
  "tcp_into h0 h \<longleftrightarrow> (tcp_calcChecksum h0 \<longrightarrow>
     tcp_calcChecksum h \<and> tcp_source h0 = tcp_source h \<and> tcp_destination h0 = tcp_destination h \<and>
     tcp_protocol h0 = tcp_protocol h)"

text \<open>The options come back with one \<^verbatim>\<open>END\<close> for the padding, if there was any.\<close>

definition tcp_reads :: "TcpHeader \<Rightarrow> TcpHeader \<Rightarrow> u8 list \<Rightarrow> TcpHeader" where
  "tcp_reads h0 h pl =
     h0\<lparr>tcp_sourcePort := tcp_sourcePort h, tcp_destinationPort := tcp_destinationPort h,
        tcp_sequenceNumber := tcp_sequenceNumber h, tcp_ackNumber := tcp_ackNumber h,
        tcp_length := tcp_length h, tcp_flags := tcp_flags h, tcp_windowSize := tcp_windowSize h,
        tcp_urgentPointer := tcp_urgentPointer h,
        tcp_options := tcp_options h @
          (if pad_size (options_size (tcp_options h)) = 0 then [] else [OptEnd]),
        tcp_optionsLen := of_nat (opts_len h),
        tcp_goodChecksum := tcp_calcChecksum h0 \<or> tcp_goodChecksum h0\<rparr>"

definition tcp_field :: "TcpHeader \<Rightarrow> u16" where
  "tcp_field h = push_bit 12 (ucast (tcp_length h)) OR ucast (tcp_flags h)"

definition tcp_front :: "TcpHeader \<Rightarrow> u8 list" where
  "tcp_front h = be_bytes 2 (tcp_sourcePort h) @ be_bytes 2 (tcp_destinationPort h) @
     be_bytes 4 (tcp_sequenceNumber h) @ be_bytes 4 (tcp_ackNumber h) @ be_bytes 2 (tcp_field h) @
     be_bytes 2 (tcp_windowSize h)"

definition tcp_back :: "TcpHeader \<Rightarrow> u8 list" where
  "tcp_back h = be_bytes 2 (tcp_urgentPointer h) @ concat (map opt_bytes (tcp_options h)) @
     replicate (pad_size (options_size (tcp_options h))) 0"

definition tcp_sum :: "address_types \<Rightarrow> TcpHeader \<Rightarrow> nat \<Rightarrow> u8 list \<Rightarrow> u16 option" where
  "tcp_sum T h n bytes = do {
     hc \<leftarrow> CalculateHeaderChecksum False T (tcp_source h) (tcp_destination h) (tcp_protocol h) (of_nat n);
     CalculateIpChecksum_init n (ucast hc) (Begin bytes) }"

definition tcp_check :: "address_types \<Rightarrow> TcpHeader \<Rightarrow> u8 list \<Rightarrow> u16" where
  "tcp_check T h pl =
     (if tcp_calcChecksum h
      then the (tcp_sum T h (20 + opts_len h + length pl) (tcp_front h @ le_bytes 2 (0 :: u16) @ tcp_back h @ pl))
      else 0)"

lemma pad_add: "n \<le> 40 \<Longrightarrow> n + pad_size n \<le> 40"
proof -
  assume n: "n \<le> 40"
  have "(n + pad_size n) mod 4 = 0" by (rule pad_size_mod)
  with n pad_size_less [of n] show ?thesis by presburger
qed

lemma round_up: "(let len = 20 + n; len = (if len mod 4 \<noteq> 0 then len + (4 - len mod 4) else len) in len div 4) =
    (20 + (n + pad_size n)) div 4"
proof -
  have "n mod 4 = 0 \<or> n mod 4 = 1 \<or> n mod 4 = 2 \<or> n mod 4 = 3" by linarith
  moreover have "(20 + n) mod 4 = n mod 4" by presburger
  ultimately show ?thesis unfolding pad_size_def Let_def by (elim disjE) simp_all
qed

lemma CalculateHeaderLength_eq: "CalculateHeaderLength h = of_nat ((20 + opts_len h) div 4)"
  using arg_cong [OF round_up [of "options_size (tcp_options h)"], of "of_nat :: nat \<Rightarrow> u8"]
  by (simp add: CalculateHeaderLength_def opts_len_def Let_def split: if_splits)

lemma tcp_ok_length:
  assumes "tcp_ok h pl"
  shows "opts_len h \<le> 40" and "4 dvd opts_len h" and "unat (tcp_length h) * 4 = 20 + opts_len h"
    and "unat (tcp_length h) < 16" and "TcpHeader_GetSerializedSize h = 20 + opts_len h"
proof -
  show a: "opts_len h \<le> 40" using assms pad_add by (simp add: tcp_ok_def opts_len_def m_maxOptionsLen_def)
  show d: "4 dvd opts_len h" using pad_size_mod by (simp add: opts_len_def mod_0_imp_dvd)
  have "(20 + opts_len h) div 4 < 256" using a by simp
  then have u: "unat (tcp_length h) = (20 + opts_len h) div 4"
    using assms by (simp add: tcp_ok_def CalculateHeaderLength_eq unat_of_nat)
  with d show m: "unat (tcp_length h) * 4 = 20 + opts_len h" by presburger
  from u a show "unat (tcp_length h) < 16" by simp
  from m assms show "TcpHeader_GetSerializedSize h = 20 + opts_len h"
    by (simp add: TcpHeader_GetSerializedSize_def tcp_ok_def)
qed

lemma length_options: "\<forall>op\<in>set os. opt_ok op \<Longrightarrow> length (concat (map opt_bytes os)) = options_size os"
  by (induction os) (simp_all add: options_size_def length_opt_bytes)

lemma tcp_lengths:
  "length (tcp_front h) = 16" "tcp_ok h pl \<Longrightarrow> length (tcp_back h) = 2 + opts_len h"
  by (simp_all add: tcp_front_def tcp_back_def length_options tcp_ok_def opts_len_def)

lemma tcp_sum_some:
  assumes "tcp_ok h pl" and "n \<le> length bytes" and "n < 65536"
  shows "\<exists>c. tcp_sum T h n bytes = Some c"
proof -
  obtain hc where "CalculateHeaderChecksum False T (tcp_source h) (tcp_destination h) (tcp_protocol h)
      (of_nat n) = Some hc"
    using CalculateHeaderChecksum_some assms(1) by (metis tcp_ok_def)
  with CalculateIpChecksum_init_some [of n "Begin bytes" "ucast hc"] assms show ?thesis
    by (simp add: tcp_sum_def Begin_def)
qed

lemma tcp_serialize:
  assumes ok: "tcp_ok h pl" and junk: "length junk = 20 + opts_len h"
  shows "\<exists>i. TcpHeader_Serialize T h (Begin (junk @ pl)) = Some i \<and>
    window i = (tcp_front h @ le_bytes 2 (tcp_check T h pl) @ tcp_back h) @ pl"
proof -
  let ?z = "be_bytes 2 (0 :: u16)" and ?n = "20 + opts_len h + length pl"
  have z: "?z = le_bytes 2 (0 :: u16)" by (simp add: be_bytes_def le_bytes_numeral byte_of_def)
  have os: "\<forall>op\<in>set (tcp_options h). opt_ok op" using ok by (simp add: tcp_ok_def)
  have len: "length (tcp_back h) = 2 + opts_len h" by (rule tcp_lengths(2) [OF ok])
  have w: "Write (tcp_front h @ ?z @ tcp_back h) (Begin (junk @ pl)) =
      Some \<lparr>it_before = tcp_front h @ ?z @ tcp_back h, it_after = pl\<rparr>"
    using junk len by (simp add: Write_def Begin_def tcp_lengths(1))
  have opts: "Option.bind (write_options (tcp_options h) 0 i) (\<lambda>(optionLen, i).
      Option.bind (write_padding optionLen i) k) =
    Option.bind (Write (concat (map opt_bytes (tcp_options h)) @
      replicate (pad_size (options_size (tcp_options h))) 0) i) k" for i and k :: "Iterator \<Rightarrow> Iterator option"
    by (cases "Write (concat (map opt_bytes (tcp_options h))) i")
       (simp_all add: write_options_Write [OF os] write_padding_Write Write_append [symmetric])
  have front: "do {
     i \<leftarrow> WriteHtonU16 (tcp_sourcePort h) (Begin (junk @ pl));
     i \<leftarrow> WriteHtonU16 (tcp_destinationPort h) i;
     i \<leftarrow> WriteHtonU32 (tcp_sequenceNumber h) i;
     i \<leftarrow> WriteHtonU32 (tcp_ackNumber h) i;
     i \<leftarrow> WriteHtonU16 (push_bit 12 (ucast (tcp_length h)) OR ucast (tcp_flags h)) i;
     i \<leftarrow> WriteHtonU16 (tcp_windowSize h) i;
     i \<leftarrow> WriteHtonU16 0 i;
     i \<leftarrow> WriteHtonU16 (tcp_urgentPointer h) i;
     (optionLen, i) \<leftarrow> write_options (tcp_options h) 0 i;
     i \<leftarrow> write_padding optionLen i;
     k i } = k \<lparr>it_before = tcp_front h @ ?z @ tcp_back h, it_after = pl\<rparr>" for k :: "Iterator \<Rightarrow> Iterator option"
    using w by (simp add: opts codec_simps tcp_front_def tcp_back_def tcp_field_def)
  have rw: "rewind (Begin (junk @ pl)) \<lparr>it_before = tcp_front h @ le_bytes 2 (0 :: u16) @ tcp_back h,
      it_after = pl\<rparr> = Begin (tcp_front h @ le_bytes 2 (0 :: u16) @ tcp_back h @ pl)"
    by (simp add: rewind_def Begin_def window_def)
  have nx: "Next 16 (Begin (tcp_front h @ le_bytes 2 (0 :: u16) @ tcp_back h @ pl)) =
      Some \<lparr>it_before = tcp_front h, it_after = le_bytes 2 (0 :: u16) @ tcp_back h @ pl\<rparr>"
    by (simp add: Begin_def Next_append tcp_lengths(1))
  have w2: "Write (le_bytes 2 c) \<lparr>it_before = tcp_front h, it_after = le_bytes 2 (0 :: u16) @ tcp_back h @ pl\<rparr> =
      Some \<lparr>it_before = tcp_front h @ le_bytes 2 c, it_after = tcp_back h @ pl\<rparr>" for c :: u16
    by (simp add: Write_def)
  have sz: "GetSize (Begin (junk @ pl)) = ?n" using junk by (simp add: GetSize_def Begin_def)
  have n: "?n < 65536" using ok tcp_ok_length(1) [OF ok] by (simp add: tcp_ok_def)
  have un: "unat (of_nat ?n :: u16) = ?n" by (rule unat_window_size) (rule n)
  obtain c where c: "tcp_sum T h ?n (tcp_front h @ le_bytes 2 (0 :: u16) @ tcp_back h @ pl) = Some c"
    using tcp_sum_some [OF ok, of ?n "tcp_front h @ le_bytes 2 (0 :: u16) @ tcp_back h @ pl" T] n len
    by (auto simp: tcp_lengths(1))
  then obtain hc where hc: "CalculateHeaderChecksum False T (tcp_source h) (tcp_destination h)
      (tcp_protocol h) (of_nat ?n) = Some hc"
      "CalculateIpChecksum_init ?n (ucast hc) (Begin (tcp_front h @ le_bytes 2 (0 :: u16) @ tcp_back h @ pl)) = Some c"
    by (auto simp: tcp_sum_def bind_eq_Some_conv)
  show ?thesis
    unfolding TcpHeader_Serialize_def front z
    using hc c by (simp add: Let_def rw sz un nx Write_le w2 tcp_check_def window_def del: of_nat_add)
qed

lemma tcp_sum_verifies:
  assumes ok: "tcp_ok h pl" and calc: "tcp_calcChecksum h"
  shows "tcp_sum T h (20 + opts_len h + length pl)
    (tcp_front h @ le_bytes 2 (tcp_check T h pl) @ tcp_back h @ pl) = Some 0"
proof -
  let ?n = "20 + opts_len h + length pl"
  have n: "?n < 65536" using ok tcp_ok_length(1) [OF ok] by (simp add: tcp_ok_def)
  have len: "length (tcp_back h) = 2 + opts_len h" by (rule tcp_lengths(2) [OF ok])
  obtain c where c: "tcp_sum T h ?n (tcp_front h @ le_bytes 2 (0 :: u16) @ tcp_back h @ pl) = Some c"
    using tcp_sum_some [OF ok, of ?n "tcp_front h @ le_bytes 2 (0 :: u16) @ tcp_back h @ pl" T] n len
    by (auto simp: tcp_lengths(1))
  then obtain hc where hc: "CalculateHeaderChecksum False T (tcp_source h) (tcp_destination h)
      (tcp_protocol h) (of_nat ?n) = Some hc"
      "CalculateIpChecksum_init ?n (ucast hc) (Begin (tcp_front h @ le_bytes 2 (0 :: u16) @ tcp_back h @ pl)) = Some c"
    by (auto simp: tcp_sum_def bind_eq_Some_conv)
  have "CalculateIpChecksum_init ?n (ucast hc) (Begin (tcp_front h @ le_bytes 2 c @ tcp_back h @ pl)) = Some 0"
    using checksum_verifies [of "tcp_front h" ?n "tcp_back h @ pl" "ucast hc" "[]" c] hc(2) n len
    by (simp add: tcp_lengths(1))
  with hc c calc show ?thesis by (simp add: tcp_sum_def tcp_check_def)
qed

lemma field_parts:
  assumes "unat l < 16"
  shows "ucast ((push_bit 12 (ucast l) OR ucast f :: u16) AND 0xFF) = (f :: u8)"
    and "ucast (drop_bit 12 (push_bit 12 (ucast l) OR ucast f :: u16)) = (l :: u8)"
proof -
  have "take_bit 4 l = l" using assms by (simp add: word_unat_eq_iff unsigned_take_bit_eq take_bit_nat_eq_self)
  then have l: "bit l n \<Longrightarrow> n < 4" for n by (metis bit_take_bit_iff)
  have ff: "bit (255 :: int) n \<longleftrightarrow> n < 8" for n
  proof -
    have m: "(255 :: int) = mask 8" by (simp add: mask_eq_exp_minus_1)
    show ?thesis unfolding m bit_mask_iff by simp
  qed
  have f: "bit f n \<Longrightarrow> n < 8" for n using bit_imp_le_length [of f n] by simp
  show "ucast ((push_bit 12 (ucast l) OR ucast f :: u16) AND 0xFF) = (f :: u8)"
    by (rule bit_word_eqI) (auto simp: bit_simps ff)
  show "ucast (drop_bit 12 (push_bit 12 (ucast l) OR ucast f :: u16)) = (l :: u8)"
    by (rule bit_word_eqI) (auto simp: bit_simps dest: l f)
qed

lemma option_area:
  assumes "tcp_ok h pl"
  shows "tcp_length h1 = tcp_length h \<Longrightarrow> tcp_optionSpace h1 = opts_len h"
proof -
  have m: "unat (tcp_length h) * 4 = 20 + opts_len h" "unat (tcp_length h) < 16"
    using tcp_ok_length [OF assms] by simp_all
  have u: "unat (ucast (tcp_length h) :: u32) = unat (tcp_length h)"
    using m(2) by (simp add: unsigned_ucast_eq take_bit_nat_eq_self)
  have "(5 :: u32) \<le> ucast (tcp_length h)" using m u by (simp add: word_le_nat_alt)
  then have "unat (ucast (tcp_length h) - 5 :: u32) = unat (tcp_length h) - 5"
    using u by (simp add: unat_sub)
  moreover from this m(2) have "unat ((ucast (tcp_length h) - 5) * 4 :: u32) =
      unat (ucast (tcp_length h) - 5 :: u32) * 4"
    by (subst unat_mult_lem [THEN iffD1]) simp_all
  ultimately show "tcp_length h1 = tcp_length h \<Longrightarrow> tcp_optionSpace h1 = opts_len h"
    unfolding tcp_optionSpace_def using m(1) by simp
qed

definition tcp_fuel :: nat where "tcp_fuel = 42"

lemma tcp_options_count:
  assumes "\<forall>op\<in>set os. opt_ok op"
  shows "length os \<le> options_size os"
  using assms
proof (induction os)
  case (Cons op os)
  then have "1 \<le> TcpOption_GetSerializedSize op" by (cases op) (simp_all add: opt_ok_def)
  with Cons show ?case by (simp add: options_size_def)
qed simp

lemma tcp_deserialize:
  assumes ok: "tcp_ok h pl" and into: "tcp_into h0 h"
  shows "TcpHeader_Deserialize tcp_fuel T h0 (Begin ((tcp_front h @ le_bytes 2 (tcp_check T h pl) @ tcp_back h) @ pl)) =
    Returned (tcp_reads h0 h pl, 20 + opts_len h)"
proof -
  let ?c = "tcp_check T h pl" and ?n = "20 + opts_len h + length pl"
  let ?os = "tcp_options h" and ?pad = "pad_size (options_size (tcp_options h))"
  let ?bytes = "tcp_front h @ le_bytes 2 ?c @ tcp_back h @ pl"
  have start: "Begin ((tcp_front h @ le_bytes 2 ?c @ tcp_back h) @ pl) = Begin ?bytes" by simp
  have os: "\<forall>op\<in>set ?os. opt_ok op" using ok by (simp add: tcp_ok_def)
  have n: "?n < 65536" using ok tcp_ok_length(1) [OF ok] by (simp add: tcp_ok_def)
  have un: "unat (of_nat ?n :: u16) = ?n" by (rule unat_window_size) (rule n)
  have sz: "GetSize (Begin ?bytes) = ?n"
    by (simp add: GetSize_def Begin_def tcp_lengths(1) tcp_lengths(2) [OF ok])
  note parts = field_parts [OF tcp_ok_length(4) [OF ok], of "tcp_flags h"]
  have read: "do {
       (sp, i) \<leftarrow> ReadNtohU16 (Begin ?bytes);
       (dp, i) \<leftarrow> ReadNtohU16 i;
       (sn, i) \<leftarrow> ReadNtohU32 i;
       (an, i) \<leftarrow> ReadNtohU32 i;
       (field, i) \<leftarrow> ReadNtohU16 i;
       (ws, i) \<leftarrow> ReadNtohU16 i;
       i \<leftarrow> Next 2 i;
       (up, i) \<leftarrow> ReadNtohU16 i;
       Some (h0\<lparr>tcp_optionsLen := 0, tcp_sourcePort := sp, tcp_destinationPort := dp,
               tcp_sequenceNumber := sn, tcp_ackNumber := an, tcp_flags := ucast (field AND 0xFF),
               tcp_length := ucast (drop_bit 12 field), tcp_windowSize := ws,
               tcp_urgentPointer := up, tcp_options := []\<rparr>, i) } =
    Some (h0\<lparr>tcp_optionsLen := 0, tcp_sourcePort := tcp_sourcePort h,
        tcp_destinationPort := tcp_destinationPort h, tcp_sequenceNumber := tcp_sequenceNumber h,
        tcp_ackNumber := tcp_ackNumber h, tcp_flags := tcp_flags h, tcp_length := tcp_length h,
        tcp_windowSize := tcp_windowSize h, tcp_urgentPointer := tcp_urgentPointer h, tcp_options := []\<rparr>,
      \<lparr>it_before = tcp_front h @ le_bytes 2 ?c @ be_bytes 2 (tcp_urgentPointer h),
       it_after = concat (map opt_bytes ?os) @ replicate ?pad 0 @ pl\<rparr>)"
    using parts by (simp add: Begin_def tcp_front_def tcp_back_def codec_simps tcp_field_def)
  have "length ?os + 2 \<le> tcp_fuel"
    using tcp_options_count [OF os] ok by (simp add: tcp_fuel_def tcp_ok_def m_maxOptionsLen_def)
  note opts = read_options_bytes [OF os this pad_size_less, of "options_size ?os"
      "tcp_front h @ le_bytes 2 ?c @ be_bytes 2 (tcp_urgentPointer h)" pl "[]" 0, folded opts_len_def]
  have sum: "do {
      hc \<leftarrow> CalculateHeaderChecksum False T (tcp_source h0) (tcp_destination h0) (tcp_protocol h0) (of_nat ?n);
      CalculateIpChecksum_init ?n (ucast hc) (Begin ?bytes) } = Some 0" if "tcp_calcChecksum h0"
    using tcp_sum_verifies [OF ok, of T] that into by (simp add: tcp_into_def tcp_sum_def)
  have size: "TcpHeader_GetSerializedSize h1 = 20 + opts_len h"
    if "tcp_options h1 = ?os @ (if ?pad = 0 then [] else [OptEnd])" for h1
  proof -
    have "options_size (tcp_options h1) = (if ?pad = 0 then options_size ?os else Suc (options_size ?os))"
      using that by (simp add: options_size_def)
    then have "opts_len h1 = opts_len h"
      using pad_size_Suc [of "options_size ?os"] by (simp add: opts_len_def)
    then have "CalculateHeaderLength h1 = CalculateHeaderLength h" by (simp add: CalculateHeaderLength_eq)
    then show ?thesis
      using tcp_ok_length(5) [OF ok] by (simp add: TcpHeader_GetSerializedSize_def)
  qed
  have area: "\<not> opts_len h > m_maxOptionsLen" using tcp_ok_length(1) [OF ok] by (simp add: m_maxOptionsLen_def)
  show ?thesis
  proof (cases "tcp_calcChecksum h0")
    case False
    with area opts show ?thesis
      unfolding start TcpHeader_Deserialize_def read
      by (simp add: Let_def option_area [OF ok] tcp_reads_def size)
  next
    case True
    from sum [OF this] area opts True show ?thesis
      unfolding start TcpHeader_Deserialize_def read
      by (simp add: Let_def option_area [OF ok] tcp_reads_def size sz un del: of_nat_add)
  qed
qed

fun returned :: "'a run \<Rightarrow> 'a option" where
  "returned (Returned x) = Some x"
| "returned _ = None"

lemma tcp_law:
  assumes "tcp_ok h pl" and "length junk = TcpHeader_GetSerializedSize h"
  shows "\<exists>bs i. TcpHeader_Serialize T h (Begin (junk @ pl)) = Some i \<and> window i = bs @ pl \<and>
    length bs = TcpHeader_GetSerializedSize h \<and>
    (\<forall>h0. tcp_into h0 h \<longrightarrow> returned (TcpHeader_Deserialize tcp_fuel T h0 (Begin (bs @ pl))) =
       Some (tcp_reads h0 h pl, TcpHeader_GetSerializedSize h))"
  using tcp_serialize [OF assms(1), of junk T] tcp_deserialize [OF assms(1), of _ T] assms(2)
    tcp_ok_length(5) [OF assms(1)] tcp_lengths(2) [OF assms(1)]
  by (intro exI [of _ "tcp_front h @ le_bytes 2 (tcp_check T h pl) @ tcp_back h"])
     (auto simp: tcp_lengths(1))

interpretation tcp: header_codec TcpHeader_GetSerializedSize "TcpHeader_Serialize T"
  "\<lambda>h i. returned (TcpHeader_Deserialize tcp_fuel T h i)" tcp_ok tcp_into tcp_reads for T
  by unfold_locales (rule tcp_law)

section \<open>Building a header\<close>

text \<open>\<^verbatim>\<open>AppendOption\<close> keeps the bookkeeping of a header that starts without options.\<close>

definition tcp_built :: "TcpHeader \<Rightarrow> bool" where
  "tcp_built h \<longleftrightarrow> (\<forall>op\<in>set (tcp_options h). IsKindKnown (GetKind op) \<and> GetKind op \<noteq> KIND_END) \<and>
     unat (tcp_optionsLen h) = options_size (tcp_options h) \<and>
     options_size (tcp_options h) \<le> m_maxOptionsLen \<and> tcp_length h = CalculateHeaderLength h"

lemma round_up': "(20 + (n + pad_size n)) div 4 = (20 + 3 + n) div 4"
proof -
  have "n mod 4 = 0 \<or> n mod 4 = 1 \<or> n mod 4 = 2 \<or> n mod 4 = 3" by linarith
  then show ?thesis unfolding pad_size_def by (elim disjE; simp; presburger)
qed

lemma tcp_built_new: "tcp_built TcpHeader_new"
  by (simp add: tcp_built_def TcpHeader_new_def options_size_def CalculateHeaderLength_def)

lemma tcp_built_AppendOption:
  assumes "tcp_built h"
  shows "tcp_built (snd (AppendOption opt h))"
proof (cases "unat (tcp_optionsLen h) + TcpOption_GetSerializedSize opt \<le> m_maxOptionsLen \<and>
    IsKindKnown (GetKind opt) \<and> GetKind opt \<noteq> KIND_END")
  case True
  have n: "options_size (tcp_options h) + TcpOption_GetSerializedSize opt \<le> 40"
    using True assms by (simp add: tcp_built_def m_maxOptionsLen_def)
  have u: "unat (tcp_optionsLen h + of_nat (TcpOption_GetSerializedSize opt)) =
      options_size (tcp_options h) + TcpOption_GetSerializedSize opt"
  proof -
    have "unat (of_nat (TcpOption_GetSerializedSize opt) :: u8) = TcpOption_GetSerializedSize opt"
      using n by (subst unat_of_nat) simp
    then show ?thesis using n assms by (subst unat_plus_if_size) (simp add: word_size tcp_built_def)
  qed
  from True assms n u show ?thesis
    by (simp add: AppendOption_def Let_def tcp_built_def CalculateHeaderLength_eq opts_len_def
        options_size_def round_up' m_maxOptionsLen_def)
next
  case False
  with assms show ?thesis by (auto simp: AppendOption_def Let_def)
qed

section \<open>Termination of the option loop\<close>

text \<open>An option of unknown kind with a length byte of zero makes no progress: the loop never ends.\<close>

lemma read_options_stuck:
  assumes "\<not> IsKindKnown k"
  shows "read_options fuel (Suc n) \<lparr>it_before = pre, it_after = k # 0 # rest\<rparr> opts optsLen = OutOfFuel"
proof (induction fuel arbitrary: opts optsLen)
  case 0
  show ?case by simp
next
  case (Suc fuel)
  have "k \<noteq> KIND_END" using assms by (auto simp: IsKindKnown_def)
  with assms Suc show ?case
    by (simp add: PeekU8_def CreateOption_def kind_defs ReadU8_Cons Next_def Let_def)
qed

end
