(* ===== verification/Header_Claims.thy ===== *)
theory Header_Claims
  imports Link_Headers Ipv4_Header Tcp_Header
begin

text \<open>
  The properties of the packet headers: encapsulation round trips through \<^verbatim>\<open>Packet\<close> for every
  header type, checksums, the option list of TCP, and the inputs on which a \<^verbatim>\<open>Deserialize\<close> does not
  do what its \<^verbatim>\<open>Serialize\<close> promises.
\<close>

section \<open>Encapsulation\<close>


definition demo_address :: "u8 list \<Rightarrow> Address" where
  "demo_address bs = \<lparr>a_type = 1, a_data = bs\<rparr>"

definition demo_types :: address_types where
  "demo_types = \<lparr>ipv4_type = 1, ipv6_type = 2\<rparr>"

definition demo_udp :: UdpHeader where
  "demo_udp = (UdpHeader_EnableChecksums (UdpHeader_InitializeChecksum (demo_address [10, 0, 0, 1])
     (demo_address [10, 0, 0, 2]) 17 UdpHeader_new))\<lparr>udp_sourcePort := 9, udp_destinationPort := 7\<rparr>"


text \<open>
  C40: TCP.  A header whose options are known ones, with the length \<^verbatim>\<open>AppendOption\<close> computes, comes back
  from the packet with every field and option, one \<^verbatim>\<open>END\<close> option standing for the padding, with
  a good checksum, and the packet is what it was.
\<close>

theorem tcp_roundtrip:
  assumes "tcp_ok h (m_buffer p)" and "allocates fresh" and "tcp_into h0 h"
  shows "Option.bind (AddHeader TcpHeader_GetSerializedSize (TcpHeader_Serialize T) fresh h p)
      (RemoveHeader (\<lambda>h i. returned (TcpHeader_Deserialize tcp_fuel T h i)) h0) =
    Some (tcp_reads h0 h (m_buffer p), TcpHeader_GetSerializedSize h, p)"
  by (rule tcp.Remove_Add [OF assms])

definition demo_tcp :: TcpHeader where
  "demo_tcp = snd (AppendOption (OptTS 3 4) (snd (AppendOption (OptMSS 1460)
     (TcpHeader_new\<lparr>tcp_calcChecksum := True\<rparr>))))"

lemma tcp_roundtrip_witness:
  "\<exists>r. Option.bind (AddHeader TcpHeader_GetSerializedSize (TcpHeader_Serialize demo_types) (\<lambda>n. replicate n 1) demo_tcp
       \<lparr>m_buffer = [1, 2, 3]\<rparr>)
     (RemoveHeader (\<lambda>h i. returned (TcpHeader_Deserialize tcp_fuel demo_types h i)) demo_tcp) = Some r"
proof -
  have "tcp_ok demo_tcp [1, 2, 3]"
    by (simp add: tcp_ok_def demo_tcp_def AppendOption_def TcpHeader_new_def m_maxOptionsLen_def Let_def
        IsKindKnown_def kind_defs opt_ok_def options_size_def CalculateHeaderLength_def GetLength_def)
  then show ?thesis
    using tcp_roundtrip [of demo_tcp "\<lparr>m_buffer = [1, 2, 3]\<rparr>" "\<lambda>n. replicate n 1" demo_tcp demo_types]
    by (simp add: allocates_def tcp_into_def)
qed

text \<open>
  Every header that \<^verbatim>\<open>AppendOption\<close> builds from a new one is well formed: the option bytes it counts
  are those of its options, at most 40, and its length field is the length of header and options
  rounded up to words.
\<close>

theorem append_option_well_formed:
  "tcp_built (fold (\<lambda>opt h. snd (AppendOption opt h)) opts TcpHeader_new)"
proof -
  have "tcp_built h \<Longrightarrow> tcp_built (fold (\<lambda>opt h. snd (AppendOption opt h)) opts h)" for h
    by (induction opts arbitrary: h) (simp_all add: tcp_built_AppendOption)
  then show ?thesis using tcp_built_new by blast
qed

text \<open>
  The checksum of RFC 1071.  When the checksum of a block that has zero in its checksum
  field is stored in that field, at an even offset and low byte first as the headers do, the checksum
  computed over the block is zero.  This is for blocks of less than 65536 bytes, even or odd,
  with any folded pseudo header.
\<close>

theorem stored_checksum_verifies:
  assumes "even (length a)" and "n = length a + 2 + length b" and "n < 65536" and "unat s < 65536"
    and "CalculateIpChecksum_init n s (Begin (a @ le_bytes 2 (0 :: u16) @ b @ rest)) = Some c"
  shows "CalculateIpChecksum_init n s (Begin (a @ le_bytes 2 c @ b @ rest)) = Some 0"
  by (rule checksum_verifies [OF assms])

lemma stored_checksum_verifies_witness:
  "\<exists>c :: u16. CalculateIpChecksum_init 5 7 (Begin ([1, 2] @ le_bytes 2 c @ [3] @ [])) = Some 0"
proof -
  obtain c where c: "CalculateIpChecksum_init 5 7 (Begin ([1, 2] @ le_bytes 2 (0 :: u16) @ [3] @ [])) = Some c"
    using CalculateIpChecksum_init_some [of 5 "Begin ([1, 2] @ le_bytes 2 (0 :: u16) @ [3] @ [])" 7]
    by (auto simp: Begin_def)
  from stored_checksum_verifies [OF _ _ _ _ c] show ?thesis by auto
qed

text \<open>
  ARP.  A request or reply comes back from the packet with its operation, addresses and
  hardware addresses; a message whose protocol is not IPv4 is refused with 0 bytes consumed; and a
  hardware address length above 20 is outside what \<^verbatim>\<open>ReadFrom\<close> can hold: it would write past the
  array of \<^verbatim>\<open>MAX_SIZE\<close> bytes it reads into.
\<close>

theorem arp_roundtrip:
  assumes "arp_ok h" and "allocates fresh"
  shows "Option.bind (AddHeader ArpHeader_GetSerializedSize ArpHeader_Serialize fresh h p)
      (RemoveHeader ArpHeader_Deserialize h0) =
    Some (arp_reads h0 h (m_buffer p), ArpHeader_GetSerializedSize h, p) \<and>
    (pro \<noteq> 0x800 \<longrightarrow> ArpHeader_Deserialize h0 (Begin ([0, 1] @ be_bytes 2 (pro :: u16) @ [hln, pln] @ rest)) = Some (h0, 0)) \<and>
    (20 < hln \<longrightarrow> ArpHeader_Deserialize h0
       (Begin ([0, 1] @ be_bytes 2 (0x800 :: u16) @ [hln, 4] @ be_bytes 2 (op :: u16) @ rest)) = None)"
proof -
  have nx: "Next 2 \<lparr>it_before = [], it_after = [0, 1] @ r\<rparr> = Some \<lparr>it_before = [0, 1], it_after = r\<rparr>" for r
    by (simp add: Next_def)
  have "20 < hln \<Longrightarrow> MAX_SIZE < unat hln" by (simp add: word_less_nat_alt MAX_SIZE_def)
  then have "20 < hln \<longrightarrow> ArpHeader_Deserialize h0
       (Begin ([0, 1] @ be_bytes 2 (0x800 :: u16) @ [hln, 4] @ be_bytes 2 (op :: u16) @ rest)) = None"
    unfolding Begin_def ArpHeader_Deserialize_def nx
    by (simp add: codec_simps ReadFrom_Address_def Let_def)
  moreover have "pro \<noteq> 0x800 \<longrightarrow>
      ArpHeader_Deserialize h0 (Begin ([0, 1] @ be_bytes 2 pro @ [hln, pln] @ rest)) = Some (h0, 0)"
    unfolding Begin_def ArpHeader_Deserialize_def nx by (simp add: codec_simps)
  ultimately show ?thesis using arp.Remove_Add [OF assms] by blast
qed

lemma arp_roundtrip_witness:
  "let h = SetRequest (demo_address [1, 2, 3, 4, 5, 6]) 5 (demo_address [7, 7, 7, 7, 7, 7]) 6
     \<lparr>arp_type = 0, arp_macSource = demo_address [], arp_macDest = demo_address [], arp_ipv4Source = 0,
      arp_ipv4Dest = 0\<rparr>
   in Option.bind (AddHeader ArpHeader_GetSerializedSize ArpHeader_Serialize (\<lambda>n. replicate n 1) h
        \<lparr>m_buffer = [1]\<rparr>) (RemoveHeader ArpHeader_Deserialize h) = Some (h, 28, \<lparr>m_buffer = [1]\<rparr>)"
proof -
  define h where "h = SetRequest (demo_address [1, 2, 3, 4, 5, 6]) 5 (demo_address [7, 7, 7, 7, 7, 7]) 6
     \<lparr>arp_type = 0, arp_macSource = demo_address [], arp_macDest = demo_address [], arp_ipv4Source = 0,
      arp_ipv4Dest = 0\<rparr>"
  have "arp_ok h" by (simp add: h_def SetRequest_def arp_ok_def demo_address_def GetLength_def MAX_SIZE_def)
  from arp_roundtrip [OF this, of "\<lambda>n. replicate n 1" "\<lparr>m_buffer = [1]\<rparr>" h 0 0 0 "[]" 0]
  have "Option.bind (AddHeader ArpHeader_GetSerializedSize ArpHeader_Serialize (\<lambda>n. replicate n 1) h
        \<lparr>m_buffer = [1]\<rparr>) (RemoveHeader ArpHeader_Deserialize h) =
      Some (arp_reads h h [1], ArpHeader_GetSerializedSize h, \<lparr>m_buffer = [1]\<rparr>)"
    by (simp add: allocates_def)
  moreover have "arp_reads h h [1] = h" "ArpHeader_GetSerializedSize h = 28"
    by (simp_all add: arp_reads_def h_def SetRequest_def demo_address_def ArpHeader_GetSerializedSize_def GetLength_def)
  ultimately show ?thesis unfolding h_def [symmetric] by simp
qed

section \<open>Where reading and writing part\<close>

text \<open>The bytes of a TCP segment, by field.\<close>

definition tcp_segment :: "u16 \<Rightarrow> u16 \<Rightarrow> u32 \<Rightarrow> u32 \<Rightarrow> u16 \<Rightarrow> u16 \<Rightarrow> u16 \<Rightarrow> u16 \<Rightarrow> u8 list \<Rightarrow> u8 list" where
  "tcp_segment sp dp sn an field ws ck up rest =
     be_bytes 2 sp @ be_bytes 2 dp @ be_bytes 4 sn @ be_bytes 4 an @ be_bytes 2 field @ be_bytes 2 ws @
     be_bytes 2 ck @ be_bytes 2 up @ rest"

definition tcp_read_front :: "TcpHeader \<Rightarrow> u16 \<Rightarrow> u16 \<Rightarrow> u32 \<Rightarrow> u32 \<Rightarrow> u16 \<Rightarrow> u16 \<Rightarrow> u16 \<Rightarrow> TcpHeader" where
  "tcp_read_front h sp dp sn an field ws up =
     h\<lparr>tcp_optionsLen := 0, tcp_sourcePort := sp, tcp_destinationPort := dp,
       tcp_sequenceNumber := sn, tcp_ackNumber := an, tcp_flags := ucast (field AND 0xFF),
       tcp_length := ucast (drop_bit 12 field), tcp_windowSize := ws,
       tcp_urgentPointer := up, tcp_options := []\<rparr>"

lemma tcp_segment_read:
  "\<exists>pre. do {
       (sp, i) \<leftarrow> ReadNtohU16 (Begin (tcp_segment sp dp sn an field ws ck up rest));
       (dp, i) \<leftarrow> ReadNtohU16 i;
       (sn, i) \<leftarrow> ReadNtohU32 i;
       (an, i) \<leftarrow> ReadNtohU32 i;
       (field, i) \<leftarrow> ReadNtohU16 i;
       (ws, i) \<leftarrow> ReadNtohU16 i;
       i \<leftarrow> Next 2 i;
       (up, i) \<leftarrow> ReadNtohU16 i;
       Some (h\<lparr>tcp_optionsLen := 0, tcp_sourcePort := sp, tcp_destinationPort := dp,
               tcp_sequenceNumber := sn, tcp_ackNumber := an, tcp_flags := ucast (field AND 0xFF),
               tcp_length := ucast (drop_bit 12 field), tcp_windowSize := ws,
               tcp_urgentPointer := up, tcp_options := []\<rparr>, i) } =
    Some (tcp_read_front h sp dp sn an field ws up, \<lparr>it_before = pre, it_after = rest\<rparr>)"
  by (simp add: Begin_def tcp_segment_def tcp_read_front_def codec_simps)

lemma tcp_read_front_checksum [simp]:
  "tcp_calcChecksum (tcp_read_front h sp dp sn an field ws up) = tcp_calcChecksum h"
  by (simp add: tcp_read_front_def)

lemma unat_ucast_small:
  assumes "unat w < n" and "n \<le> 2 ^ LENGTH('b)"
  shows "unat (ucast (w :: 'a::len word) :: 'b::len word) = unat w"
  using assms unfolding unsigned_ucast_eq by (intro take_bit_nat_eq_self) simp

lemma tcp_read_front_space:
  assumes "5 \<le> unat (drop_bit 12 field)"
  shows "tcp_optionSpace (tcp_read_front h sp dp sn an field ws up) = (unat (drop_bit 12 field) - 5) * 4"
    and "unat (drop_bit 12 field) < 16"
proof -
  show lt: "unat (drop_bit 12 field) < 16"
  proof -
    have "unat (drop_bit 12 field) = unat field div 4096"
      unfolding unat_drop_bit_eq by (simp add: drop_bit_eq_div)
    with unsigned_less [of field, where ?'a = nat] show ?thesis by simp
  qed
  let ?l = "ucast (ucast (drop_bit 12 field) :: u8) :: u32"
  have u8: "unat (ucast (drop_bit 12 field) :: u8) = unat (drop_bit 12 field)"
    using lt by (intro unat_ucast_small [of _ 16]) simp_all
  have u: "unat ?l = unat (drop_bit 12 field)"
    unfolding u8 [symmetric] using lt u8 by (intro unat_ucast_small [of _ 16]) simp_all
  have "(5 :: u32) \<le> ?l" using assms u by (simp add: word_le_nat_alt)
  then have s: "unat (?l - 5) = unat (drop_bit 12 field) - 5" using u by (simp add: unat_sub)
  have "unat ((?l - 5) * 4) = unat (?l - 5) * 4"
    using s lt by (subst unat_mult_lem [THEN iffD1]) simp_all
  moreover have "tcp_length (tcp_read_front h sp dp sn an field ws up) = ucast (drop_bit 12 field)"
    by (simp add: tcp_read_front_def)
  ultimately show "tcp_optionSpace (tcp_read_front h sp dp sn an field ws up) = (unat (drop_bit 12 field) - 5) * 4"
    using s by (simp only: tcp_optionSpace_def)
qed

text \<open>
  A TCP segment can hang the receiver.  When the header announces options and the first
  option has an unknown kind and the length 0, \<^verbatim>\<open>TcpHeader::Deserialize\<close> never returns: with no amount of
  fuel does its option loop end.
\<close>

theorem tcp_zero_length_option_hangs:
  assumes "\<not> IsKindKnown k" and "6 \<le> unat (drop_bit 12 field)"
  shows "TcpHeader_Deserialize fuel T h (Begin (tcp_segment sp dp sn an field ws ck up (k # 0 # rest))) =
    OutOfFuel"
proof -
  obtain pre where read: "do {
       (sp, i) \<leftarrow> ReadNtohU16 (Begin (tcp_segment sp dp sn an field ws ck up (k # 0 # rest)));
       (dp, i) \<leftarrow> ReadNtohU16 i;
       (sn, i) \<leftarrow> ReadNtohU32 i;
       (an, i) \<leftarrow> ReadNtohU32 i;
       (field, i) \<leftarrow> ReadNtohU16 i;
       (ws, i) \<leftarrow> ReadNtohU16 i;
       i \<leftarrow> Next 2 i;
       (up, i) \<leftarrow> ReadNtohU16 i;
       Some (h\<lparr>tcp_optionsLen := 0, tcp_sourcePort := sp, tcp_destinationPort := dp,
               tcp_sequenceNumber := sn, tcp_ackNumber := an, tcp_flags := ucast (field AND 0xFF),
               tcp_length := ucast (drop_bit 12 field), tcp_windowSize := ws,
               tcp_urgentPointer := up, tcp_options := []\<rparr>, i) } =
    Some (tcp_read_front h sp dp sn an field ws up, \<lparr>it_before = pre, it_after = k # 0 # rest\<rparr>)"
    using tcp_segment_read by blast
  define n where "n = (unat (drop_bit 12 field) - 5) * 4"
  have sp: "tcp_optionSpace (tcp_read_front h sp dp sn an field ws up) = n"
    and n: "\<not> n > m_maxOptionsLen" and pos: "n = Suc (n - 1)"
    using tcp_read_front_space [of field] assms(2) by (simp_all add: n_def m_maxOptionsLen_def)
  have "read_options fuel n \<lparr>it_before = pre, it_after = k # 0 # rest\<rparr> [] 0 = OutOfFuel"
    by (subst pos) (rule read_options_stuck [OF assms(1)])
  then show ?thesis
    unfolding TcpHeader_Deserialize_def read by (simp add: sp n)
qed

lemma tcp_zero_length_option_hangs_witness:
  "\<forall>fuel. TcpHeader_Deserialize fuel \<lparr>ipv4_type = 1, ipv6_type = 2\<rparr> TcpHeader_new
     (Begin (tcp_segment 1 2 3 4 0x6010 5 6 0 [30, 0, 0, 0])) = OutOfFuel"
proof -
  have "\<not> IsKindKnown 30" "6 \<le> unat (drop_bit 12 (0x6010 :: u16))"
    by (simp_all add: IsKindKnown_def kind_defs)
  from tcp_zero_length_option_hangs [OF this, of _ "\<lparr>ipv4_type = 1, ipv6_type = 2\<rparr>" TcpHeader_new 1 2 3 4 5 6 0 "[0, 0]"]
  show ?thesis by simp
qed

text \<open>
  An option area that ends early is not consumed.  When the options are closed by \<^verbatim>\<open>END\<close> and the
  rest of the area, as RFC 793 allows, is zero bytes, \<^verbatim>\<open>TcpHeader::Deserialize\<close> reports one word of options
  only, whatever length the header announces: the rest of the area stays in front of the payload.
\<close>

theorem tcp_long_padding_left_in_payload:
  assumes "6 \<le> unat (drop_bit 12 field)" and "\<not> tcp_calcChecksum h"
    and "pad = replicate ((unat (drop_bit 12 field) - 5) * 4) 0"
  shows "\<exists>h'. RemoveHeader (\<lambda>h i. returned (TcpHeader_Deserialize tcp_fuel T h i)) h
      \<lparr>m_buffer = tcp_segment sp dp sn an field ws ck up (pad @ payload)\<rparr> =
    Some (h', 24, \<lparr>m_buffer = drop 4 pad @ payload\<rparr>)"
proof -
  obtain pre where read: "do {
       (sp, i) \<leftarrow> ReadNtohU16 (Begin (tcp_segment sp dp sn an field ws ck up (pad @ payload)));
       (dp, i) \<leftarrow> ReadNtohU16 i;
       (sn, i) \<leftarrow> ReadNtohU32 i;
       (an, i) \<leftarrow> ReadNtohU32 i;
       (field, i) \<leftarrow> ReadNtohU16 i;
       (ws, i) \<leftarrow> ReadNtohU16 i;
       i \<leftarrow> Next 2 i;
       (up, i) \<leftarrow> ReadNtohU16 i;
       Some (h\<lparr>tcp_optionsLen := 0, tcp_sourcePort := sp, tcp_destinationPort := dp,
               tcp_sequenceNumber := sn, tcp_ackNumber := an, tcp_flags := ucast (field AND 0xFF),
               tcp_length := ucast (drop_bit 12 field), tcp_windowSize := ws,
               tcp_urgentPointer := up, tcp_options := []\<rparr>, i) } =
    Some (tcp_read_front h sp dp sn an field ws up, \<lparr>it_before = pre, it_after = pad @ payload\<rparr>)"
    using tcp_segment_read by blast
  define n where "n = (unat (drop_bit 12 field) - 5) * 4"
  have sp: "tcp_optionSpace (tcp_read_front h sp dp sn an field ws up) = n"
    and n: "\<not> n > m_maxOptionsLen" and pos: "n = Suc (n - 1)" "4 \<le> n"
    using tcp_read_front_space [of field] assms(1) by (simp_all add: n_def m_maxOptionsLen_def)
  have pad: "pad @ payload = 0 # replicate (n - 1) 0 @ payload"
    using assms(3) pos(1) by (metis append_Cons n_def replicate_Suc)
  have "read_options tcp_fuel (Suc (n - 1)) \<lparr>it_before = pre, it_after = pad @ payload\<rparr> [] 0 =
      Returned ([OptEnd], 1 + of_nat (n - 1))"
    unfolding pad by (simp add: tcp_fuel_def eval_nat_numeral PeekU8_def IsKindKnown_def CreateOption_def
        kind_defs ReadU8_Cons Next_def Let_def)
  then have "read_options tcp_fuel n \<lparr>it_before = pre, it_after = pad @ payload\<rparr> [] 0 =
      Returned ([OptEnd], 1 + of_nat (n - 1))"
    using pos(1) by simp
  moreover have "TcpHeader_GetSerializedSize h' = 24" if "tcp_options h' = [OptEnd]" for h'
    using that by (simp add: TcpHeader_GetSerializedSize_def CalculateHeaderLength_def options_size_def Let_def)
  ultimately have "\<exists>h'. TcpHeader_Deserialize tcp_fuel T h
      (Begin (tcp_segment sp dp sn an field ws ck up (pad @ payload))) = Returned (h', 24)"
    unfolding TcpHeader_Deserialize_def read
    using assms(2) by (simp add: sp n Let_def)
  moreover have "drop 24 (tcp_segment sp dp sn an field ws ck up (pad @ payload)) = drop 4 pad @ payload"
    using assms(3) pos(2) by (simp add: tcp_segment_def n_def)
  ultimately show ?thesis by (auto simp: RemoveHeader_def)
qed

lemma tcp_long_padding_left_in_payload_witness:
  "\<exists>h'. RemoveHeader (\<lambda>h i. returned (TcpHeader_Deserialize tcp_fuel \<lparr>ipv4_type = 1, ipv6_type = 2\<rparr> h i)) TcpHeader_new
      \<lparr>m_buffer = tcp_segment 1 2 3 4 0x7010 5 6 0 (replicate 8 0 @ [9])\<rparr> =
    Some (h', 24, \<lparr>m_buffer = [0, 0, 0, 0, 9]\<rparr>)"
proof -
  have "6 \<le> unat (drop_bit 12 (0x7010 :: u16))" "\<not> tcp_calcChecksum TcpHeader_new"
    "replicate 8 (0 :: u8) = replicate ((unat (drop_bit 12 (0x7010 :: u16)) - 5) * 4) 0"
    by (simp_all add: TcpHeader_new_def)
  from tcp_long_padding_left_in_payload [OF this, of "\<lparr>ipv4_type = 1, ipv6_type = 2\<rparr>" 1 2 3 4 5 6 0 "[9]"]
  show ?thesis by (simp add: eval_nat_numeral)
qed

text \<open>
  An Ethernet preamble is not read back.  \<^verbatim>\<open>EthernetHeader::Deserialize\<close> stores the eight bytes it
  reads for the preamble in the flag that says whether there is one: \<^verbatim>\<open>m_preambleSfd\<close> keeps its old
  value, and a preamble of zero bits turns the flag off, so that 14 bytes are removed of the 22 the
  header occupies and the last eight of them stay in front of the payload.
\<close>

theorem ethernet_preamble_lost:
  assumes "ethernet_ok h" and "m_enPreambleSfd h" and "m_enPreambleSfd h0" and "allocates fresh"
  shows "\<exists>q h1 n r.
      AddHeader EthernetHeader_GetSerializedSize EthernetHeader_Serialize fresh h p = Some q \<and>
      length (m_buffer q) = 22 + length (m_buffer p) \<and>
      RemoveHeader EthernetHeader_Deserialize h0 q = Some (h1, n, r) \<and>
      m_preambleSfd h1 = m_preambleSfd h0 \<and> m_lengthType h1 = m_lengthType h \<and>
      eth_source h1 = eth_source h \<and> eth_destination h1 = eth_destination h \<and>
      (m_preambleSfd h \<noteq> 0 \<longrightarrow> n = 22 \<and> r = p) \<and>
      (m_preambleSfd h = 0 \<longrightarrow> n = 14 \<and> \<not> m_enPreambleSfd h1 \<and>
         m_buffer r = drop 14 (ethernet_bytes h) @ m_buffer p)"
proof -
  have len: "length (ethernet_bytes h) = 22"
    using assms(1,2) by (simp add: ethernet_bytes_def ethernet_ok_def)
  have sz: "EthernetHeader_GetSerializedSize h' = (if m_enPreambleSfd h' then 22 else 14)" for h'
    by (simp add: EthernetHeader_GetSerializedSize_def PREAMBLE_SIZE_def LENGTH_SIZE_def MAC_ADDR_SIZE_def)
  have add: "AddHeader EthernetHeader_GetSerializedSize EthernetHeader_Serialize fresh h p =
      Some (p\<lparr>m_buffer := ethernet_bytes h @ m_buffer p\<rparr>)"
    using assms(1,2,4) len
    by (simp add: AddHeader_def ethernet_serialize Write_def Begin_def window_def sz allocates_def Let_def)
  have "EthernetHeader_Deserialize h0 (Begin (ethernet_bytes h @ m_buffer p)) =
    (let h1 = h0\<lparr>m_enPreambleSfd := m_preambleSfd h \<noteq> 0, eth_destination := eth_destination h,
                 eth_source := eth_source h, m_lengthType := m_lengthType h\<rparr>
     in Some (h1, EthernetHeader_GetSerializedSize h1))"
    using ethernet_deserialize [OF assms(1), of h0 "m_buffer p"] assms(2,3) by (simp add: Begin_def)
  with add len show ?thesis by (simp add: RemoveHeader_def sz Let_def)
qed

lemma ethernet_preamble_lost_witness:
  "\<exists>q h1 r. AddHeader EthernetHeader_GetSerializedSize EthernetHeader_Serialize (\<lambda>n. replicate n 1)
      \<lparr>m_enPreambleSfd = True, m_preambleSfd = 0, m_lengthType = 0x800, eth_source = replicate 6 1,
       eth_destination = replicate 6 2\<rparr> \<lparr>m_buffer = [5]\<rparr> = Some q \<and>
    RemoveHeader EthernetHeader_Deserialize \<lparr>m_enPreambleSfd = True, m_preambleSfd = 7, m_lengthType = 0,
       eth_source = replicate 6 0, eth_destination = replicate 6 0\<rparr> q = Some (h1, 14, r) \<and>
    m_preambleSfd h1 = 7 \<and> length (m_buffer r) = 9"
proof -
  let ?h = "\<lparr>m_enPreambleSfd = True, m_preambleSfd = 0, m_lengthType = 0x800, eth_source = replicate 6 1,
       eth_destination = replicate 6 2\<rparr>"
  let ?rd = "\<lparr>m_enPreambleSfd = True, m_preambleSfd = 7, m_lengthType = 0,
       eth_source = replicate 6 0, eth_destination = replicate 6 0\<rparr>"
  have "ethernet_ok ?h" "allocates (\<lambda>n. replicate n (1 :: u8))"
    by (simp_all add: ethernet_ok_def allocates_def)
  from ethernet_preamble_lost [OF this(1) _ _ this(2), of ?rd "\<lparr>m_buffer = [5]\<rparr>"] show ?thesis
    by (auto simp: ethernet_bytes_def)
qed

text \<open>
  Forwarding a UDP header changes its length.  The header keeps the payload size it read, that
  is the length field less 8, but \<^verbatim>\<open>Serialize\<close> writes that number as the length field: a header that
  was written for a non-empty payload, read, and written again in front of the same payload carries
  a length field that is 8 too small.
\<close>

theorem udp_length_shrinks_when_rewritten:
  assumes "udp_ok h (m_buffer p)" and "udp_into h0 h" and "allocates fresh" and "udp_payloadSize h = 0"
    and "m_buffer p \<noteq> []" and "GetLength (udp_source h0) \<le> MAX_SIZE" and "GetLength (udp_destination h0) \<le> MAX_SIZE"
  shows "\<exists>q q' h1. AddHeader UdpHeader_GetSerializedSize (UdpHeader_Serialize T) fresh h p = Some q \<and>
      RemoveHeader (UdpHeader_Deserialize T) h0 q = Some (h1, 8, p) \<and>
      AddHeader UdpHeader_GetSerializedSize (UdpHeader_Serialize T) fresh h1 p = Some q' \<and>
      take 2 (drop 4 (m_buffer q)) = be_bytes 2 (of_nat (8 + length (m_buffer p)) :: u16) \<and>
      take 2 (drop 4 (m_buffer q')) = be_bytes 2 (of_nat (length (m_buffer p)) :: u16)"
proof -
  let ?pl = "m_buffer p" and ?h1 = "udp_reads T h0 h (m_buffer p)"
  have add: "AddHeader UdpHeader_GetSerializedSize (UdpHeader_Serialize T) fresh h' p =
      Some (p\<lparr>m_buffer := udp_front h' ?pl @ le_bytes 2 (udp_check T h' ?pl) @ ?pl\<rparr>)"
    if "udp_ok h' ?pl" for h'
    using udp_serialize [OF that, of "fresh 8" T] assms(3)
    by (simp add: AddHeader_def UdpHeader_GetSerializedSize_def allocates_def window_def Let_def)
  have ok1: "udp_ok ?h1 ?pl"
    using assms(1,6,7) by (simp add: udp_ok_def udp_reads_def)
  have "unat (of_nat (length ?pl) :: u16) = length ?pl"
    using assms(1) by (intro unat_window_size) (simp add: udp_ok_def)
  then have "(of_nat (length ?pl) :: u16) \<noteq> 0"
    using assms(5) by (metis length_0_conv unat_0)
  then have "udp_length_field ?h1 ?pl = of_nat (length ?pl)"
    using assms(4) by (simp add: udp_length_field_def udp_reads_def)
  moreover have "udp_length_field h ?pl = of_nat (8 + length ?pl)"
    using assms(4) by (simp add: udp_length_field_def)
  moreover have "RemoveHeader (UdpHeader_Deserialize T) h0
      (p\<lparr>m_buffer := udp_front h ?pl @ le_bytes 2 (udp_check T h ?pl) @ ?pl\<rparr>) = Some (?h1, 8, p)"
    using udp_deserialize [OF assms(1,2), of T] by (simp add: RemoveHeader_def)
  ultimately show ?thesis
    using add [OF assms(1)] add [OF ok1] by (simp add: udp_front_def)
qed

lemma udp_length_shrinks_when_rewritten_witness:
  "\<exists>q q' h1. AddHeader UdpHeader_GetSerializedSize (UdpHeader_Serialize demo_types) (\<lambda>n. replicate n 1) demo_udp
        \<lparr>m_buffer = [1, 2, 3]\<rparr> = Some q \<and>
      RemoveHeader (UdpHeader_Deserialize demo_types) demo_udp q = Some (h1, 8, \<lparr>m_buffer = [1, 2, 3]\<rparr>) \<and>
      AddHeader UdpHeader_GetSerializedSize (UdpHeader_Serialize demo_types) (\<lambda>n. replicate n 1) h1
        \<lparr>m_buffer = [1, 2, 3]\<rparr> = Some q' \<and>
      take 2 (drop 4 (m_buffer q)) = [0, 11] \<and> take 2 (drop 4 (m_buffer q')) = [0, 3]"
proof -
  let ?p = "\<lparr>m_buffer = [1, 2, 3]\<rparr>"
  have "udp_ok demo_udp (m_buffer ?p)" "udp_into demo_udp demo_udp" "allocates (\<lambda>n. replicate n (1 :: u8))"
    "udp_payloadSize demo_udp = 0" "m_buffer ?p \<noteq> []" "GetLength (udp_source demo_udp) \<le> MAX_SIZE"
    "GetLength (udp_destination demo_udp) \<le> MAX_SIZE"
    by (simp_all add: udp_ok_def udp_into_def demo_udp_def UdpHeader_new_def UdpHeader_EnableChecksums_def
        UdpHeader_InitializeChecksum_def demo_address_def GetLength_def MAX_SIZE_def allocates_def)
  moreover have "be_bytes 2 (11 :: u16) = [0, 11]" "be_bytes 2 (3 :: u16) = [0, 3]"
    by code_simp+
  ultimately show ?thesis
    using udp_length_shrinks_when_rewritten [of demo_udp ?p demo_udp "\<lambda>n. replicate n 1" demo_types] by simp
qed

end
