(* ===== verification/Buffer_Store.thy ===== *)
theory Buffer_Store
  imports Buffer_Iterator Header_Codec
begin

text \<open>
  \<^verbatim>\<open>Buffer\<close> as it is implemented (\<^verbatim>\<open>network/model/buffer.cc\<close>, \<^verbatim>\<open>buffer.h\<close>): reference-counted blocks of
  bytes that several \<^verbatim>\<open>Buffer\<close> objects share, a virtual area of zero bytes in the middle of each object that
  occupies no memory, the \<open>dirty area\<close> of a block that decides when an operation may extend a shared block in
  place, and the free list of blocks.

  A block is a \<open>Data\<close> at an address of the heap; an object is a \<open>Buf\<close>.  Offsets are natural numbers; where the code's
  32-bit arithmetic wraps for arguments in reach it is written out (\<open>wrap32\<close>).  \<open>None\<close> is an access to a
  block that is not allocated or outside its bytes.  \<open>fresh n\<close> stands for the bytes \<^verbatim>\<open>new\<close> leaves in a block of
  size \<open>n\<close>.
\<close>

section \<open>Blocks and the heap\<close>

record Data =
  d_count :: nat
  d_dirtyStart :: nat
  d_dirtyEnd :: nat
  d_bytes :: "u8 list"

abbreviation d_size :: "Data \<Rightarrow> nat" where
  "d_size d \<equiv> length (d_bytes d)"

text \<open>The head of \<open>g_freeList\<close> is the back of the vector; \<open>m_nextAddr\<close> is an address \<^verbatim>\<open>new\<close> has not returned yet.\<close>

record memory =
  m_heap :: "nat \<Rightarrow> Data option"
  m_nextAddr :: nat
  g_freeList :: "nat list"
  g_maxSize :: nat
  g_recommendedStart :: nat

record Buf =
  b_data :: nat
  b_maxZeroAreaStart :: nat
  b_zeroAreaStart :: nat
  b_zeroAreaEnd :: nat
  b_start :: nat
  b_end :: nat

definition wrap32 :: "int \<Rightarrow> nat" where
  "wrap32 x = nat (x mod 4294967296)"

definition put_data :: "nat \<Rightarrow> Data \<Rightarrow> memory \<Rightarrow> memory" where
  "put_data a d s = s\<lparr>m_heap := (m_heap s)(a \<mapsto> d)\<rparr>"

text \<open>\<^verbatim>\<open>memcpy\<close> out of and into a block; copying nothing touches no memory.\<close>

definition load :: "nat \<Rightarrow> nat \<Rightarrow> nat \<Rightarrow> memory \<Rightarrow> u8 list option" where
  "load a off n s = do {
     d \<leftarrow> m_heap s a;
     if n = 0 \<or> off + n \<le> d_size d then Some (take n (drop off (d_bytes d))) else None }"

definition splice :: "nat \<Rightarrow> u8 list \<Rightarrow> u8 list \<Rightarrow> u8 list" where
  "splice off bs xs = take off xs @ bs @ drop (off + length bs) xs"

definition store :: "nat \<Rightarrow> nat \<Rightarrow> u8 list \<Rightarrow> memory \<Rightarrow> memory option" where
  "store a off bs s = do {
     d \<leftarrow> m_heap s a;
     if bs = [] \<or> off + length bs \<le> d_size d then Some (put_data a (d\<lparr>d_bytes := splice off bs (d_bytes d)\<rparr>) s)
     else None }"

definition Allocate :: "(nat \<Rightarrow> u8 list) \<Rightarrow> nat \<Rightarrow> memory \<Rightarrow> nat \<times> memory" where
  "Allocate fresh reqSize s =
     (let reqSize = (if reqSize = 0 then 1 else reqSize);
          a = m_nextAddr s
      in (a, (put_data a \<lparr>d_count = 1, d_dirtyStart = 0, d_dirtyEnd = 0, d_bytes = fresh reqSize\<rparr> s)
               \<lparr>m_nextAddr := a + 1\<rparr>))"

definition Deallocate :: "nat \<Rightarrow> memory \<Rightarrow> memory" where
  "Deallocate a s = s\<lparr>m_heap := (m_heap s)(a := None)\<rparr>"

definition Recycle :: "nat \<Rightarrow> memory \<Rightarrow> memory option" where
  "Recycle a s = do {
     d \<leftarrow> m_heap s a;
     let s = s\<lparr>g_maxSize := max (g_maxSize s) (d_size d)\<rparr>;
     if d_size d < g_maxSize s \<or> 1000 < length (g_freeList s) then Some (Deallocate a s)
     else Some (s\<lparr>g_freeList := a # g_freeList s\<rparr>) }"

text \<open>\<^verbatim>\<open>Create\<close> pops the free list until a block is large enough, and frees the blocks that are not.\<close>

fun Create_loop :: "(nat \<Rightarrow> u8 list) \<Rightarrow> nat \<Rightarrow> nat list \<Rightarrow> memory \<Rightarrow> (nat \<times> memory) option" where
  "Create_loop fresh dataSize [] s = Some (Allocate fresh dataSize s)"
| "Create_loop fresh dataSize (a # as) s = do {
     let s = s\<lparr>g_freeList := as\<rparr>;
     d \<leftarrow> m_heap s a;
     if dataSize \<le> d_size d then Some (a, put_data a (d\<lparr>d_count := 1\<rparr>) s)
     else Create_loop fresh dataSize as (Deallocate a s) }"

definition Create :: "(nat \<Rightarrow> u8 list) \<Rightarrow> nat \<Rightarrow> memory \<Rightarrow> (nat \<times> memory) option" where
  "Create fresh dataSize s = Create_loop fresh dataSize (g_freeList s) s"

text \<open>\<^verbatim>\<open>m_count--\<close>, and back to the free list when that was the last reference.\<close>

definition release :: "nat \<Rightarrow> memory \<Rightarrow> memory option" where
  "release a s = do {
     d \<leftarrow> m_heap s a;
     let s = put_data a (d\<lparr>d_count := d_count d - 1\<rparr>) s;
     if d_count d - 1 = 0 then Recycle a s else Some s }"

definition retain :: "nat \<Rightarrow> memory \<Rightarrow> memory option" where
  "retain a s = do {
     d \<leftarrow> m_heap s a;
     Some (put_data a (d\<lparr>d_count := d_count d + 1\<rparr>) s) }"

section \<open>Objects\<close>

definition Initialize :: "(nat \<Rightarrow> u8 list) \<Rightarrow> nat \<Rightarrow> memory \<Rightarrow> (Buf \<times> memory) option" where
  "Initialize fresh zeroSize s = do {
     (a, s) \<leftarrow> Create fresh 0 s;
     d \<leftarrow> m_heap s a;
     let start = min (d_size d) (g_recommendedStart s);
     Some (\<lparr>b_data = a, b_maxZeroAreaStart = start, b_zeroAreaStart = start,
            b_zeroAreaEnd = start + zeroSize, b_start = start, b_end = start + zeroSize\<rparr>,
           put_data a (d\<lparr>d_dirtyStart := start, d_dirtyEnd := start + zeroSize\<rparr>) s) }"

text \<open>The copy constructor, \<^verbatim>\<open>operator =\<close> and the destructor.\<close>

definition CopyBuffer :: "Buf \<Rightarrow> memory \<Rightarrow> (Buf \<times> memory) option" where
  "CopyBuffer src s = do {
     s \<leftarrow> retain (b_data src) s;
     Some (src\<lparr>b_maxZeroAreaStart := b_zeroAreaStart src\<rparr>, s) }"

definition AssignBuffer :: "Buf \<Rightarrow> Buf \<Rightarrow> memory \<Rightarrow> (Buf \<times> memory) option" where
  "AssignBuffer b src s = do {
     s \<leftarrow> (if b_data b \<noteq> b_data src then do {
              s \<leftarrow> release (b_data b) s;
              retain (b_data src) s }
           else Some s);
     Some (src, s\<lparr>g_recommendedStart := max (g_recommendedStart s) (b_maxZeroAreaStart b)\<rparr>) }"

definition DestroyBuffer :: "Buf \<Rightarrow> memory \<Rightarrow> memory option" where
  "DestroyBuffer b s =
     release (b_data b) (s\<lparr>g_recommendedStart := max (g_recommendedStart s) (b_maxZeroAreaStart b)\<rparr>)"

definition Buffer_GetSize :: "Buf \<Rightarrow> nat" where
  "Buffer_GetSize b = b_end b - b_start b"

definition GetInternalSize :: "Buf \<Rightarrow> nat" where
  "GetInternalSize b = b_zeroAreaStart b - b_start b + b_end b - b_zeroAreaEnd b"

definition GetInternalEnd :: "Buf \<Rightarrow> nat" where
  "GetInternalEnd b = b_end b - (b_zeroAreaEnd b - b_zeroAreaStart b)"

text \<open>The check in the branch of \<^verbatim>\<open>CheckInternalState\<close> that is compiled out.\<close>

definition CheckInternalState :: "Buf \<Rightarrow> memory \<Rightarrow> bool" where
  "CheckInternalState b s =
     (case m_heap s (b_data b) of
        None \<Rightarrow> False
      | Some d \<Rightarrow>
          (let offsetsOk = (b_start b \<le> b_zeroAreaStart b \<and> b_zeroAreaStart b \<le> b_zeroAreaEnd b \<and>
                 b_zeroAreaEnd b \<le> b_end b);
               dirtyOk = (b_start b \<ge> d_dirtyStart d \<and> b_end b \<le> d_dirtyEnd d);
               internalSizeOk = (b_end b - (b_zeroAreaEnd b - b_zeroAreaStart b) \<le> d_size d \<and>
                 b_start b \<le> d_size d \<and> b_zeroAreaStart b \<le> d_size d)
           in d_count d > 0 \<and> offsetsOk \<and> dirtyOk \<and> internalSizeOk))"

definition raise_maxZero :: "Buf \<Rightarrow> Buf" where
  "raise_maxZero b = b\<lparr>b_maxZeroAreaStart := max (b_maxZeroAreaStart b) (b_zeroAreaStart b)\<rparr>"

section \<open>Adding room\<close>

definition AddAtStart :: "(nat \<Rightarrow> u8 list) \<Rightarrow> nat \<Rightarrow> Buf \<Rightarrow> memory \<Rightarrow> (Buf \<times> memory) option" where
  "AddAtStart fresh start b s = do {
     d \<leftarrow> m_heap s (b_data b);
     let isDirty = (d_count d > 1 \<and> b_start b > d_dirtyStart d);
     if b_start b \<ge> start \<and> \<not> isDirty then
       Some (raise_maxZero (b\<lparr>b_start := b_start b - start\<rparr>),
             put_data (b_data b) (d\<lparr>d_dirtyStart := b_start b - start\<rparr>) s)
     else do {
       let newSize = GetInternalSize b + start;
       (a, s) \<leftarrow> Create fresh newSize s;
       bytes \<leftarrow> load (b_data b) (b_start b) (GetInternalSize b) s;
       s \<leftarrow> store a start bytes s;
       s \<leftarrow> release (b_data b) s;
       let b = b\<lparr>b_data := a, b_start := 0,
                 b_zeroAreaStart := start + (b_zeroAreaStart b - b_start b),
                 b_zeroAreaEnd := start + (b_zeroAreaEnd b - b_start b),
                 b_end := start + (b_end b - b_start b)\<rparr>;
       d \<leftarrow> m_heap s a;
       Some (raise_maxZero b, put_data a (d\<lparr>d_dirtyStart := b_start b, d_dirtyEnd := b_end b\<rparr>) s) } }"

definition AddAtEnd :: "(nat \<Rightarrow> u8 list) \<Rightarrow> nat \<Rightarrow> Buf \<Rightarrow> memory \<Rightarrow> (Buf \<times> memory) option" where
  "AddAtEnd fresh end b s = do {
     d \<leftarrow> m_heap s (b_data b);
     let isDirty = (d_count d > 1 \<and> b_end b < d_dirtyEnd d);
     if GetInternalEnd b + end \<le> d_size d \<and> \<not> isDirty then
       Some (raise_maxZero (b\<lparr>b_end := b_end b + end\<rparr>),
             put_data (b_data b) (d\<lparr>d_dirtyEnd := b_end b + end\<rparr>) s)
     else do {
       let newSize = GetInternalSize b + end;
       (a, s) \<leftarrow> Create fresh newSize s;
       bytes \<leftarrow> load (b_data b) (b_start b) (GetInternalSize b) s;
       s \<leftarrow> store a 0 bytes s;
       s \<leftarrow> release (b_data b) s;
       let b = b\<lparr>b_data := a, b_start := 0,
                 b_zeroAreaStart := b_zeroAreaStart b - b_start b,
                 b_zeroAreaEnd := b_zeroAreaEnd b - b_start b,
                 b_end := b_end b - b_start b + end\<rparr>;
       d \<leftarrow> m_heap s a;
       Some (raise_maxZero b, put_data a (d\<lparr>d_dirtyStart := b_start b, d_dirtyEnd := b_end b\<rparr>) s) } }"

section \<open>Removing bytes\<close>

definition RemoveAtStart :: "nat \<Rightarrow> Buf \<Rightarrow> Buf" where
  "RemoveAtStart start b =
     (let newStart = wrap32 (int (b_start b) + int start)
      in raise_maxZero
        (if newStart \<le> b_zeroAreaStart b then b\<lparr>b_start := newStart\<rparr>
         else if newStart \<le> b_zeroAreaEnd b then
           (let delta = newStart - b_zeroAreaStart b
            in b\<lparr>b_start := b_zeroAreaStart b, b_zeroAreaEnd := b_zeroAreaEnd b - delta,
                 b_end := b_end b - delta\<rparr>)
         else if newStart \<le> b_end b then
           (let zeroSize = b_zeroAreaEnd b - b_zeroAreaStart b;
                start = newStart - zeroSize
            in b\<lparr>b_start := start, b_end := b_end b - zeroSize, b_zeroAreaStart := start,
                 b_zeroAreaEnd := start\<rparr>)
         else
           (let end = b_end b - (b_zeroAreaEnd b - b_zeroAreaStart b)
            in b\<lparr>b_end := end, b_start := end, b_zeroAreaEnd := end, b_zeroAreaStart := end\<rparr>)))"

definition RemoveAtEnd :: "nat \<Rightarrow> Buf \<Rightarrow> Buf" where
  "RemoveAtEnd end b =
     (let newEnd = b_end b - min end (b_end b - b_start b)
      in raise_maxZero
        (if newEnd > b_zeroAreaEnd b then b\<lparr>b_end := newEnd\<rparr>
         else if newEnd > b_zeroAreaStart b then b\<lparr>b_end := newEnd, b_zeroAreaEnd := newEnd\<rparr>
         else if newEnd > b_start b then
           b\<lparr>b_end := newEnd, b_zeroAreaEnd := newEnd, b_zeroAreaStart := newEnd\<rparr>
         else
           b\<lparr>b_end := b_start b, b_zeroAreaEnd := b_start b, b_zeroAreaStart := b_start b\<rparr>))"

definition CreateFragment :: "nat \<Rightarrow> nat \<Rightarrow> Buf \<Rightarrow> memory \<Rightarrow> (Buf \<times> memory) option" where
  "CreateFragment start len b s = do {
     (tmp, s) \<leftarrow> CopyBuffer b s;
     let tmp = RemoveAtStart start tmp;
     Some (RemoveAtEnd (wrap32 (int (Buffer_GetSize b) - int (wrap32 (int start + int len)))) tmp, s) }"

section \<open>Iterators over a block\<close>

text \<open>The members of \<^verbatim>\<open>Buffer::Iterator\<close>; \<open>i_data\<close> is the block.  Positions count the zero area.\<close>

record BufIter =
  i_zeroStart :: nat
  i_zeroEnd :: nat
  i_dataStart :: nat
  i_dataEnd :: nat
  i_current :: nat
  i_data :: nat

definition Construct :: "Buf \<Rightarrow> nat \<Rightarrow> BufIter" where
  "Construct b current = \<lparr>i_zeroStart = b_zeroAreaStart b, i_zeroEnd = b_zeroAreaEnd b,
     i_dataStart = b_start b, i_dataEnd = b_end b, i_current = current, i_data = b_data b\<rparr>"

definition Buffer_Begin :: "Buf \<Rightarrow> BufIter" where
  "Buffer_Begin b = Construct b (b_start b)"

definition Buffer_End :: "Buf \<Rightarrow> BufIter" where
  "Buffer_End b = Construct b (b_end b)"

definition Iter_Next :: "nat \<Rightarrow> BufIter \<Rightarrow> BufIter" where
  "Iter_Next delta i = i\<lparr>i_current := i_current i + delta\<rparr>"

definition Iter_Prev :: "nat \<Rightarrow> BufIter \<Rightarrow> BufIter" where
  "Iter_Prev delta i = i\<lparr>i_current := i_current i - delta\<rparr>"

definition Iter_WriteU8 :: "u8 \<Rightarrow> BufIter \<Rightarrow> memory \<Rightarrow> (BufIter \<times> memory) option" where
  "Iter_WriteU8 data i s = do {
     s \<leftarrow> store (i_data i)
            (if i_current i < i_zeroStart i then i_current i
             else i_current i - (i_zeroEnd i - i_zeroStart i)) [data] s;
     Some (i\<lparr>i_current := i_current i + 1\<rparr>, s) }"

definition Iter_Write :: "u8 list \<Rightarrow> BufIter \<Rightarrow> memory \<Rightarrow> (BufIter \<times> memory) option" where
  "Iter_Write buffer i s = do {
     s \<leftarrow> store (i_data i)
            (if i_current i \<le> i_zeroStart i then i_current i
             else i_current i - (i_zeroEnd i - i_zeroStart i)) buffer s;
     Some (i\<lparr>i_current := i_current i + length buffer\<rparr>, s) }"

definition Iter_WriteU8s :: "u8 \<Rightarrow> nat \<Rightarrow> BufIter \<Rightarrow> memory \<Rightarrow> (BufIter \<times> memory) option" where
  "Iter_WriteU8s data len i s = Iter_Write (replicate len data) i s"

text \<open>
  \<^verbatim>\<open>Write (Iterator start, Iterator end)\<close> copies what is between two iterators of another buffer.  Unlike
  the other writers it uses \<^verbatim>\<open>m_current\<close> as an index of the block without taking off the zero area of
  the buffer it writes to.
\<close>

definition Iter_Write_range :: "BufIter \<Rightarrow> BufIter \<Rightarrow> BufIter \<Rightarrow> memory \<Rightarrow> (BufIter \<times> memory) option" where
  "Iter_Write_range start end i s = do {
     let len = i_current end - i_current start;
     (start, i, len, s) \<leftarrow>
       (if i_current start \<le> i_zeroStart start then do {
          let toCopy = min len (i_zeroStart start - i_current start);
          bytes \<leftarrow> load (i_data start) (i_current start) toCopy s;
          s \<leftarrow> store (i_data i) (i_current i) bytes s;
          Some (Iter_Next toCopy start, Iter_Next toCopy i, len - toCopy, s) }
        else Some (start, i, len, s));
     (start, i, len, s) \<leftarrow>
       (if i_current start \<le> i_zeroEnd start then do {
          let toCopy = min len (i_zeroEnd start - i_current start);
          s \<leftarrow> store (i_data i) (i_current i) (replicate toCopy 0) s;
          Some (Iter_Next toCopy start, Iter_Next toCopy i, len - toCopy, s) }
        else Some (start, i, len, s));
     let toCopy = min len (i_dataEnd start - i_current start);
     bytes \<leftarrow> load (i_data start) (i_current start - (i_zeroEnd start - i_zeroStart start)) toCopy s;
     s \<leftarrow> store (i_data i) (i_current i) bytes s;
     Some (Iter_Next toCopy i, s) }"

definition Iter_PeekU8 :: "BufIter \<Rightarrow> memory \<Rightarrow> u8 option" where
  "Iter_PeekU8 i s =
     (if i_current i < i_zeroStart i then map_option hd (load (i_data i) (i_current i) 1 s)
      else if i_current i < i_zeroEnd i then Some 0
      else map_option hd (load (i_data i) (i_current i - (i_zeroEnd i - i_zeroStart i)) 1 s))"

definition Iter_ReadU8 :: "BufIter \<Rightarrow> memory \<Rightarrow> (u8 \<times> BufIter) option" where
  "Iter_ReadU8 i s = do {
     v \<leftarrow> Iter_PeekU8 i s;
     Some (v, i\<lparr>i_current := i_current i + 1\<rparr>) }"

fun Iter_Read :: "nat \<Rightarrow> BufIter \<Rightarrow> memory \<Rightarrow> (u8 list \<times> BufIter) option" where
  "Iter_Read 0 i s = Some ([], i)"
| "Iter_Read (Suc n) i s = do {
     (v, i) \<leftarrow> Iter_ReadU8 i s;
     (vs, i) \<leftarrow> Iter_Read n i s;
     Some (v # vs, i) }"

section \<open>Copies\<close>

text \<open>
  \<^verbatim>\<open>CreateFullCopy\<close>: the same bytes with the zero area as real bytes, or a plain copy when there is none.
\<close>

definition CreateFullCopy :: "(nat \<Rightarrow> u8 list) \<Rightarrow> Buf \<Rightarrow> memory \<Rightarrow> (Buf \<times> memory) option" where
  "CreateFullCopy fresh b s =
     (if b_zeroAreaEnd b - b_zeroAreaStart b \<noteq> 0 then do {
        (tmp, s) \<leftarrow> Initialize fresh 0 s;
        (tmp, s) \<leftarrow> AddAtStart fresh (b_zeroAreaEnd b - b_zeroAreaStart b) tmp s;
        (i, s) \<leftarrow> Iter_WriteU8s 0 (b_zeroAreaEnd b - b_zeroAreaStart b) (Buffer_Begin tmp) s;
        let dataStart = b_zeroAreaStart b - b_start b;
        (tmp, s) \<leftarrow> AddAtStart fresh dataStart tmp s;
        bytes \<leftarrow> load (b_data b) (b_start b) dataStart s;
        (i, s) \<leftarrow> Iter_Write bytes (Buffer_Begin tmp) s;
        let dataEnd = b_end b - b_zeroAreaEnd b;
        (tmp, s) \<leftarrow> AddAtEnd fresh dataEnd tmp s;
        let i = Iter_Prev dataEnd (Buffer_End tmp);
        bytes \<leftarrow> load (b_data b) (b_zeroAreaStart b) dataEnd s;
        (i, s) \<leftarrow> Iter_Write bytes i s;
        Some (tmp, s) }
      else CopyBuffer b s)"

text \<open>\<^verbatim>\<open>*this = CreateFullCopy ()\<close>, with the temporary destroyed after the assignment.\<close>

definition TransformIntoRealBuffer :: "(nat \<Rightarrow> u8 list) \<Rightarrow> Buf \<Rightarrow> memory \<Rightarrow> (Buf \<times> memory) option" where
  "TransformIntoRealBuffer fresh b s = do {
     (tmp, s) \<leftarrow> CreateFullCopy fresh b s;
     (b, s) \<leftarrow> AssignBuffer b tmp s;
     s \<leftarrow> DestroyBuffer tmp s;
     Some (b, s) }"

definition AddAtEnd_Buffer :: "(nat \<Rightarrow> u8 list) \<Rightarrow> Buf \<Rightarrow> Buf \<Rightarrow> memory \<Rightarrow> (Buf \<times> memory) option" where
  "AddAtEnd_Buffer fresh src b s = do {
     d \<leftarrow> m_heap s (b_data b);
     if d_count d = 1 \<and> (b_end b = b_zeroAreaEnd b \<or> b_zeroAreaStart b = b_zeroAreaEnd b) \<and>
        b_end b = d_dirtyEnd d \<and> b_start src = b_zeroAreaStart src \<and>
        b_zeroAreaEnd src - b_zeroAreaStart src > 0
     then do {
       let b = (if b_zeroAreaStart b = b_zeroAreaEnd b then b\<lparr>b_zeroAreaStart := b_end b\<rparr> else b);
       let zeroSize = b_zeroAreaEnd src - b_zeroAreaStart src;
       let b = b\<lparr>b_zeroAreaEnd := b_end b + zeroSize, b_end := b_end b + zeroSize\<rparr>;
       let s = put_data (b_data b) (d\<lparr>d_dirtyEnd := b_zeroAreaEnd b\<rparr>) s;
       let endData = b_end src - b_zeroAreaEnd src;
       (b, s) \<leftarrow> AddAtEnd fresh endData b s;
       let dst = Iter_Prev endData (Buffer_End b);
       let from = Iter_Prev endData (Buffer_End src);
       (dst, s) \<leftarrow> Iter_Write_range from (Buffer_End src) dst s;
       Some (b, s) }
     else do {
       (b, s) \<leftarrow> TransformIntoRealBuffer fresh b s;
       (b, s) \<leftarrow> AddAtEnd fresh (Buffer_GetSize src) b s;
       let destStart = Iter_Prev (Buffer_GetSize src) (Buffer_End b);
       (destStart, s) \<leftarrow> Iter_Write_range (Buffer_Begin src) (Buffer_End src) destStart s;
       Some (b, s) } }"

text \<open>\<^verbatim>\<open>PeekData\<close>: the bytes from \<^verbatim>\<open>m_start\<close> on, after the zero area was made real.\<close>

definition PeekData :: "(nat \<Rightarrow> u8 list) \<Rightarrow> Buf \<Rightarrow> memory \<Rightarrow> (u8 list \<times> Buf \<times> memory) option" where
  "PeekData fresh b s = do {
     (b, s) \<leftarrow> TransformIntoRealBuffer fresh b s;
     d \<leftarrow> m_heap s (b_data b);
     Some (drop (b_start b) (d_bytes d), b, s) }"

text \<open>\<^verbatim>\<open>CopyData (uint8_t*, uint32_t)\<close>: the bytes copied.\<close>

definition CopyData :: "nat \<Rightarrow> Buf \<Rightarrow> memory \<Rightarrow> u8 list option" where
  "CopyData len b s =
     (if len > 0 then do {
        let tmpsize = min (b_zeroAreaStart b - b_start b) len;
        part1 \<leftarrow> load (b_data b) (b_start b) tmpsize s;
        let len = len - tmpsize;
        if len > 0 then do {
          let tmpsize = min (b_zeroAreaEnd b - b_zeroAreaStart b) len;
          let part2 = replicate tmpsize 0;
          let len = len - tmpsize;
          if len > 0 then do {
            let tmpsize = min (b_end b - b_zeroAreaEnd b) len;
            part3 \<leftarrow> load (b_data b) (b_zeroAreaStart b) tmpsize s;
            Some (part1 @ part2 @ part3) }
          else Some (part1 @ part2) }
        else Some part1 }
      else Some [])"

end
