(* ===== verification/Buffer_Heap.thy ===== *)
theory Buffer_Heap
  imports Buffer_Store
begin

text \<open>
  The heap of blocks under a table \<open>R\<close> of references: how many pointers, in \<^verbatim>\<open>Buffer\<close> objects or in local
  variables, refer to each address.  \<open>heap_ok\<close> ties the counts and the free list to \<open>R\<close>; the lemmas state what
  \<^verbatim>\<open>Create\<close>, \<open>release\<close>, \<open>retain\<close> and \<open>store\<close> do to it and that they leave every other
  referenced block alone.
\<close>

definition heap_ok :: "memory \<Rightarrow> (nat \<Rightarrow> nat) \<Rightarrow> bool" where
  "heap_ok s R \<longleftrightarrow>
     (\<forall>a d. m_heap s a = Some d \<longrightarrow> d_count d = R a) \<and>
     (\<forall>a. m_heap s a = None \<longrightarrow> R a = 0) \<and>
     (\<forall>a. a \<in> set (g_freeList s) \<longleftrightarrow> m_heap s a \<noteq> None \<and> R a = 0) \<and>
     distinct (g_freeList s) \<and>
     (\<forall>a \<ge> m_nextAddr s. m_heap s a = None)"

lemma heap_okD:
  assumes "heap_ok s R"
  shows "m_heap s a = Some d \<Longrightarrow> d_count d = R a"
    and "R a \<noteq> 0 \<Longrightarrow> \<exists>d. m_heap s a = Some d"
    and "a \<in> set (g_freeList s) \<Longrightarrow> R a = 0"
    and "m_nextAddr s \<le> a \<Longrightarrow> m_heap s a = None"
  using assms by (auto simp: heap_ok_def)

lemma put_data_simps [simp]:
  "m_heap (put_data a d s) = (m_heap s)(a \<mapsto> d)"
  "m_nextAddr (put_data a d s) = m_nextAddr s"
  "g_freeList (put_data a d s) = g_freeList s"
  "g_maxSize (put_data a d s) = g_maxSize s"
  "g_recommendedStart (put_data a d s) = g_recommendedStart s"
  by (simp_all add: put_data_def)

lemma heap_ok_put_data:
  assumes "heap_ok s R" and "m_heap s a = Some d" and "d_count d' = d_count d"
  shows "heap_ok (put_data a d' s) R"
  using assms unfolding heap_ok_def by (auto simp: not_less)

lemma heap_ok_cong:
  assumes "m_heap s' = m_heap s" "g_freeList s' = g_freeList s" "m_nextAddr s' = m_nextAddr s"
  shows "heap_ok s' R = heap_ok s R"
  using assms by (simp add: heap_ok_def)

section \<open>Taking a block\<close>

text \<open>What the caller of \<^verbatim>\<open>Create\<close> knows of the block \<open>a\<close> it gets.\<close>

definition created :: "(nat \<Rightarrow> nat) \<Rightarrow> nat \<Rightarrow> memory \<Rightarrow> nat \<Rightarrow> memory \<Rightarrow> bool" where
  "created R n s a s' \<longleftrightarrow>
     R a = 0 \<and> heap_ok s' (R(a := 1)) \<and> (\<exists>d. m_heap s' a = Some d \<and> n \<le> d_size d) \<and>
     (\<forall>a'. R a' \<noteq> 0 \<longrightarrow> m_heap s' a' = m_heap s a') \<and> g_recommendedStart s' = g_recommendedStart s"

lemma Allocate_created:
  assumes "heap_ok s R" and "allocates fresh" and "g_freeList s = []"
  shows "created R n s (fst (Allocate fresh n s)) (snd (Allocate fresh n s))"
proof -
  have "R (m_nextAddr s) = 0" using assms(1) by (auto simp: heap_ok_def)
  with assms show ?thesis
    by (auto simp: created_def Allocate_def Let_def heap_ok_def allocates_def split: if_splits)
qed

lemma Create_loop_created:
  assumes "heap_ok s R" and "allocates fresh" and "g_freeList s = as"
  shows "\<exists>a s'. Create_loop fresh n as s = Some (a, s') \<and> created R n s a s'"
  using assms(1,3)
proof (induction as arbitrary: s)
  case Nil
  then have "created R n s (fst (Allocate fresh n s)) (snd (Allocate fresh n s))"
    by (intro Allocate_created assms(2))
  then show ?case by (auto simp: prod_eq_iff)
next
  case (Cons a as)
  then have ra: "R a = 0" "a \<notin> set as" "distinct as" by (auto simp: heap_ok_def)
  have "a \<in> set (g_freeList s) \<Longrightarrow> m_heap s a \<noteq> None"
    using Cons.prems(1) unfolding heap_ok_def by blast
  then obtain d where d: "m_heap s a = Some d" using Cons.prems(2) by auto
  show ?case
  proof (cases "n \<le> d_size d")
    case True
    have "heap_ok (put_data a (d\<lparr>d_count := 1\<rparr>) (s\<lparr>g_freeList := as\<rparr>)) (R(a := 1))"
      using Cons.prems ra d unfolding heap_ok_def by (auto simp: not_less)
    with True ra d show ?thesis by (auto simp: created_def Let_def)
  next
    case False
    let ?s = "Deallocate a (s\<lparr>g_freeList := as\<rparr>)"
    have "heap_ok ?s R" "g_freeList ?s = as"
      using Cons.prems ra d unfolding heap_ok_def Deallocate_def by (auto split: if_splits)
    from Cons.IH [OF this] obtain b s' where "Create_loop fresh n as ?s = Some (b, s')" "created R n ?s b s'"
      by auto
    moreover from this(2) ra have "created R n s b s'"
      by (auto simp: created_def Deallocate_def)
    ultimately show ?thesis using False d by (auto simp: Let_def)
  qed
qed

lemma Create_created:
  assumes "heap_ok s R" and "allocates fresh"
  obtains a s' where "Create fresh n s = Some (a, s')" and "created R n s a s'"
  using Create_loop_created [OF assms refl, of n] by (auto simp: Create_def)

section \<open>References\<close>

lemma release_ok:
  assumes "heap_ok s R" and "R a \<noteq> 0"
  obtains s' where "release a s = Some s'" and "heap_ok s' (R(a := R a - 1))"
    and "\<And>a'. R a' \<noteq> 0 \<Longrightarrow> a' \<noteq> a \<Longrightarrow> m_heap s' a' = m_heap s a'"
    and "\<And>d. m_heap s a = Some d \<Longrightarrow> R a \<noteq> 1 \<Longrightarrow> m_heap s' a = Some (d\<lparr>d_count := R a - 1\<rparr>)"
    and "g_recommendedStart s' = g_recommendedStart s"
proof -
  obtain d where d: "m_heap s a = Some d" "d_count d = R a"
    using assms by (cases "m_heap s a") (auto simp: heap_ok_def)
  have free: "a \<notin> set (g_freeList s)" using assms by (auto simp: heap_ok_def)
  let ?s = "put_data a (d\<lparr>d_count := R a - 1\<rparr>) s"
  show thesis
  proof (cases "R a = 1")
    case False
    have "heap_ok ?s (R(a := R a - 1))"
      using assms d free False unfolding heap_ok_def by (auto simp: not_less)
    with False d assms(2) show thesis by (intro that [of ?s]) (auto simp: release_def Let_def)
  next
    case True
    obtain s' where s': "Recycle a ?s = Some s'"
      by (cases "Recycle a ?s") (auto simp: Recycle_def Let_def split: if_splits)
    have "heap_ok s' (R(a := 0))"
      using assms d free True s' unfolding heap_ok_def Recycle_def Deallocate_def
      by (auto simp: Let_def not_less split: if_splits)
    moreover have "a' \<noteq> a \<Longrightarrow> m_heap s' a' = m_heap s a'" for a'
      using s' by (auto simp: Recycle_def Deallocate_def Let_def split: if_splits)
    moreover have "g_recommendedStart s' = g_recommendedStart s"
      using s' by (auto simp: Recycle_def Deallocate_def Let_def split: if_splits)
    ultimately show thesis
      using True d s' by (intro that [of s']) (auto simp: release_def Let_def)
  qed
qed

lemma retain_ok:
  assumes "heap_ok s R" and "R a \<noteq> 0"
  obtains d where "m_heap s a = Some d"
    and "retain a s = Some (put_data a (d\<lparr>d_count := R a + 1\<rparr>) s)"
    and "heap_ok (put_data a (d\<lparr>d_count := R a + 1\<rparr>) s) (R(a := R a + 1))"
proof -
  obtain d where d: "m_heap s a = Some d" "d_count d = R a"
    using assms by (cases "m_heap s a") (auto simp: heap_ok_def)
  moreover have "a \<notin> set (g_freeList s)" using assms by (auto simp: heap_ok_def)
  moreover from calculation have "heap_ok (put_data a (d\<lparr>d_count := R a + 1\<rparr>) s) (R(a := R a + 1))"
    using assms unfolding heap_ok_def by (auto simp: not_less)
  ultimately show thesis by (intro that) (auto simp: retain_def)
qed

section \<open>Bytes\<close>

lemma length_splice [simp]: "off + length bs \<le> length xs \<Longrightarrow> length (splice off bs xs) = length xs"
  by (simp add: splice_def)

lemma load_some:
  "m_heap s a = Some d \<Longrightarrow> off + n \<le> d_size d \<Longrightarrow> load a off n s = Some (take n (drop off (d_bytes d)))"
  by (simp add: load_def)

lemma store_some:
  "m_heap s a = Some d \<Longrightarrow> off + length bs \<le> d_size d \<Longrightarrow>
   store a off bs s = Some (put_data a (d\<lparr>d_bytes := splice off bs (d_bytes d)\<rparr>) s)"
  by (simp add: store_def)

text \<open>The part of a list that starts at \<open>p\<close> and has length \<open>n\<close>.\<close>

abbreviation part :: "nat \<Rightarrow> nat \<Rightarrow> 'a list \<Rightarrow> 'a list" where
  "part p n xs \<equiv> take n (drop p xs)"

lemma part_splice_before: "p + n \<le> off \<Longrightarrow> off + length bs \<le> length xs \<Longrightarrow> part p n (splice off bs xs) = part p n xs"
  by (rule nth_equalityI) (auto simp: splice_def nth_append)

lemma part_splice_after: "off + length bs \<le> p \<Longrightarrow> off + length bs \<le> length xs \<Longrightarrow> part p n (splice off bs xs) = part p n xs"
  by (simp add: splice_def)

lemma part_splice_at: "off + length bs \<le> length xs \<Longrightarrow> part off (length bs) (splice off bs xs) = bs"
  by (simp add: splice_def)

lemma part_append: "part p (m + n) xs = part p m xs @ part (p + m) n xs"
  by (simp add: take_add add.commute)

section \<open>The invariant of the heap\<close>

text \<open>
  The invariant of the live \<^verbatim>\<open>Buffer\<close> objects of a program, a multiset since two objects may be equal, and
  the bytes an object stands for.  The invariant is the check the code has in \<^verbatim>\<open>CheckInternalState\<close>
  (compiled out there), the reference counts, and what makes extending a shared block in place sound: the dirty area
  covers every object of the block, also at its end, where the objects of one block may count positions
  with zero areas of different sizes.
\<close>

section \<open>What an object stands for\<close>

definition bytes_of :: "u8 list \<Rightarrow> Buf \<Rightarrow> u8 list" where
  "bytes_of xs b = part (b_start b) (b_zeroAreaStart b - b_start b) xs @
     replicate (b_zeroAreaEnd b - b_zeroAreaStart b) 0 @
     part (b_zeroAreaStart b) (b_end b - b_zeroAreaEnd b) xs"

definition contents :: "memory \<Rightarrow> Buf \<Rightarrow> u8 list" where
  "contents s b = (case m_heap s (b_data b) of None \<Rightarrow> [] | Some d \<Rightarrow> bytes_of (d_bytes d) b)"

abbreviation zeros :: "Buf \<Rightarrow> nat" where
  "zeros b \<equiv> b_zeroAreaEnd b - b_zeroAreaStart b"

text \<open>\<^verbatim>\<open>CheckInternalState\<close>.\<close>

definition fits :: "Data \<Rightarrow> Buf \<Rightarrow> bool" where
  "fits d b \<longleftrightarrow> b_start b \<le> b_zeroAreaStart b \<and> b_zeroAreaStart b \<le> b_zeroAreaEnd b \<and>
     b_zeroAreaEnd b \<le> b_end b \<and> GetInternalEnd b \<le> d_size d \<and> d_dirtyStart d \<le> b_start b"

definition shared_ok :: "Data \<Rightarrow> Buf multiset \<Rightarrow> bool" where
  "shared_ok d B \<longleftrightarrow> (\<forall>b\<in>#B. fits d b) \<and>
     (\<exists>I Z. d_dirtyEnd d = I + Z \<and> (\<forall>b\<in>#B. GetInternalEnd b \<le> I \<and> zeros b \<le> Z))"

definition refs :: "Buf multiset \<Rightarrow> nat \<Rightarrow> nat" where
  "refs B = count (image_mset b_data B)"

abbreviation sharing :: "nat \<Rightarrow> Buf multiset \<Rightarrow> Buf multiset" where
  "sharing a B \<equiv> {#b \<in># B. b_data b = a#}"

definition store_inv :: "memory \<Rightarrow> Buf multiset \<Rightarrow> bool" where
  "store_inv s B \<longleftrightarrow> heap_ok s (refs B) \<and> (\<forall>a d. m_heap s a = Some d \<longrightarrow> shared_ok d (sharing a B))"

definition unchanged :: "Buf multiset \<Rightarrow> memory \<Rightarrow> memory \<Rightarrow> bool" where
  "unchanged B s s' \<longleftrightarrow> (\<forall>b\<in>#B. contents s' b = contents s b)"

text \<open>No object of \<open>B\<close> has bytes at the positions \<open>p\<close> to \<open>q\<close> of the block of \<open>b\<close>.\<close>

definition excl :: "Buf multiset \<Rightarrow> Buf \<Rightarrow> nat \<Rightarrow> nat \<Rightarrow> bool" where
  "excl B b p q \<longleftrightarrow> (\<forall>c\<in>#B. b_data c = b_data b \<longrightarrow> q \<le> b_start c \<or> GetInternalEnd c \<le> p)"

section \<open>Generic facts\<close>

lemma refs_add: "refs (add_mset b B) = (refs B)(b_data b := refs B (b_data b) + 1)"
  by (rule ext) (simp add: refs_def)

lemma refs_empty [simp]: "refs {#} = (\<lambda>a. 0)"
  by (rule ext) (simp add: refs_def)

lemma refs_sharing: "refs B a = size (sharing a B)"
  by (induction B) (auto simp: refs_add)

lemma refs_0_iff: "refs B a = 0 \<longleftrightarrow> sharing a B = {#}"
  by (simp add: refs_sharing)

lemma refs_mem: "b \<in># B \<Longrightarrow> refs B (b_data b) \<noteq> 0"
  unfolding refs_def count_eq_zero_iff by auto

lemma raise_maxZero_simps [simp]:
  "b_data (raise_maxZero b) = b_data b" "b_zeroAreaStart (raise_maxZero b) = b_zeroAreaStart b"
  "b_zeroAreaEnd (raise_maxZero b) = b_zeroAreaEnd b" "b_start (raise_maxZero b) = b_start b"
  "b_end (raise_maxZero b) = b_end b"
  by (simp_all add: raise_maxZero_def)

text \<open>The offsets are all that matters of an object.\<close>

lemma same_offsets:
  assumes "b_data b' = b_data b" "b_zeroAreaStart b' = b_zeroAreaStart b" "b_zeroAreaEnd b' = b_zeroAreaEnd b"
    "b_start b' = b_start b" "b_end b' = b_end b"
  shows "contents s b' = contents s b" and "fits d b' = fits d b" and "GetInternalEnd b' = GetInternalEnd b"
    and "GetInternalSize b' = GetInternalSize b" and "Buffer_GetSize b' = Buffer_GetSize b"
  using assms by (simp_all add: contents_def bytes_of_def fits_def 
      GetInternalEnd_def GetInternalSize_def Buffer_GetSize_def split: option.split)

lemmas raise_maxZero_offsets [simp] = same_offsets [OF raise_maxZero_simps]

lemma length_bytes_of: "fits d b \<Longrightarrow> length (bytes_of (d_bytes d) b) = Buffer_GetSize b"
  by (auto simp: bytes_of_def fits_def GetInternalEnd_def Buffer_GetSize_def)

lemma bytes_of_cong:
  assumes "part (b_start b) (GetInternalEnd b - b_start b) xs = part (b_start b) (GetInternalEnd b - b_start b) ys"
    and "b_start b \<le> b_zeroAreaStart b" "b_zeroAreaStart b \<le> b_zeroAreaEnd b" "b_zeroAreaEnd b \<le> b_end b"
  shows "bytes_of xs b = bytes_of ys b"
proof -
  let ?m = "b_zeroAreaStart b - b_start b" and ?n = "b_end b - b_zeroAreaEnd b"
  have n: "GetInternalEnd b - b_start b = ?m + ?n" and z: "b_start b + ?m = b_zeroAreaStart b"
    using assms(2-4) by (simp_all add: GetInternalEnd_def)
  let ?us = "part (b_start b) (?m + ?n) xs" and ?vs = "part (b_start b) (?m + ?n) ys"
  have eq: "?us = ?vs" using assms(1) unfolding n .
  have "part (b_start b) ?m xs = part (b_start b) ?m ys"
    using arg_cong [OF eq, of "take ?m"] by (simp add: min_def)
  moreover have "part (b_zeroAreaStart b) ?n zs = drop ?m (part (b_start b) (?m + ?n) zs)" for zs :: "u8 list"
    using z by (simp add: drop_take add.commute)
  ultimately show ?thesis using eq by (simp add: bytes_of_def)
qed

lemma store_invD:
  assumes "store_inv s (add_mset b B)"
  obtains d where "m_heap s (b_data b) = Some d" and "fits d b"
    and "d_count d = Suc (size (sharing (b_data b) B))"
    and "shared_ok d (add_mset b (sharing (b_data b) B))"
proof -
  have "refs (add_mset b B) (b_data b) \<noteq> 0" by (simp add: refs_add)
  then obtain d where d: "m_heap s (b_data b) = Some d"
    using assms heap_okD(2) [of s "refs (add_mset b B)" "b_data b"] by (auto simp: store_inv_def)
  moreover have "shared_ok d (sharing (b_data b) (add_mset b B))"
    using assms d by (simp only: store_inv_def)
  then have "shared_ok d (add_mset b (sharing (b_data b) B))" by simp
  moreover have "d_count d = refs (add_mset b B) (b_data b)"
    using assms d heap_okD(1) by (auto simp: store_inv_def)
  ultimately show thesis by (intro that) (auto simp: shared_ok_def refs_sharing)
qed

lemma contents_some: "m_heap s (b_data b) = Some d \<Longrightarrow> contents s b = bytes_of (d_bytes d) b"
  by (simp add: contents_def)

lemma length_contents: "store_inv s (add_mset b B) \<Longrightarrow> length (contents s b) = Buffer_GetSize b"
  by (erule store_invD) (simp add: contents_some length_bytes_of)

lemma unchanged_refl [simp]: "unchanged B s s"
  by (simp add: unchanged_def)

lemma unchanged_trans: "unchanged B s s' \<Longrightarrow> unchanged B s' s'' \<Longrightarrow> unchanged B s s''"
  by (simp add: unchanged_def)

section \<open>Changing one object and its block in place\<close>

lemma store_inv_replace:
  assumes inv: "store_inv s (add_mset b B)" and d: "m_heap s (b_data b) = Some d"
    and b': "b_data b' = b_data b" and d': "d_count d' = d_count d"
    and ok: "shared_ok d' (add_mset b' (sharing (b_data b) B))"
  shows "store_inv (put_data (b_data b) d' s) (add_mset b' B)"
proof -
  have "heap_ok (put_data (b_data b) d' s) (refs (add_mset b' B))"
    using inv d d' b' by (intro heap_ok_put_data) (simp_all add: store_inv_def refs_add)
  moreover have "shared_ok e (sharing a B)" if "m_heap s a = Some e" "a \<noteq> b_data b" for a e
  proof -
    have "shared_ok e (sharing a (add_mset b B))" using inv that(1) by (simp add: store_inv_def)
    with that(2) show ?thesis by simp
  qed
  ultimately show ?thesis using ok b' unfolding store_inv_def by auto
qed

lemma store_inv_object:
  assumes inv: "store_inv s (add_mset b B)" and b': "b_data b' = b_data b"
    and ok: "\<And>d. m_heap s (b_data b) = Some d \<Longrightarrow> shared_ok d (add_mset b (sharing (b_data b) B)) \<Longrightarrow>
      shared_ok d (add_mset b' (sharing (b_data b) B))"
  shows "store_inv s (add_mset b' B)"
proof -
  obtain d where d: "m_heap s (b_data b) = Some d" "shared_ok d (add_mset b (sharing (b_data b) B))"
    using inv by (rule store_invD)
  have "put_data (b_data b) d s = s" using d by (simp add: put_data_def fun_upd_idem)
  with store_inv_replace [OF inv d(1) b' refl ok [OF d]] show ?thesis by simp
qed

lemma unchanged_same_bytes:
  assumes "m_heap s a = Some d" and "d_bytes d' = d_bytes d"
  shows "unchanged B s (put_data a d' s)"
  using assms by (auto simp: unchanged_def contents_def)

text \<open>Writing bytes of the block that no other object has.\<close>

lemma store_excl:
  assumes inv: "store_inv s (add_mset b B)" and d: "m_heap s (b_data b) = Some d"
    and off: "off + length bs \<le> d_size d" and ex: "excl B b off (off + length bs)"
  shows "store (b_data b) off bs s = Some (put_data (b_data b) (d\<lparr>d_bytes := splice off bs (d_bytes d)\<rparr>) s)"
    and "store_inv (put_data (b_data b) (d\<lparr>d_bytes := splice off bs (d_bytes d)\<rparr>) s) (add_mset b B)"
    and "unchanged B s (put_data (b_data b) (d\<lparr>d_bytes := splice off bs (d_bytes d)\<rparr>) s)"
proof -
  let ?d = "d\<lparr>d_bytes := splice off bs (d_bytes d)\<rparr>"
  show "store (b_data b) off bs s = Some (put_data (b_data b) ?d s)" using d off by (rule store_some)
  have len: "d_size ?d = d_size d" using off by simp
  obtain e where "m_heap s (b_data b) = Some e" "shared_ok e (add_mset b (sharing (b_data b) B))"
    using inv by (rule store_invD)
  then have sh: "shared_ok d (add_mset b (sharing (b_data b) B))" using d by simp
  then show "store_inv (put_data (b_data b) ?d s) (add_mset b B)"
    using len by (intro store_inv_replace [OF inv d]) (simp_all add: shared_ok_def fits_def)
  show "unchanged B s (put_data (b_data b) ?d s)"
    unfolding unchanged_def
  proof
    fix c assume c: "c \<in># B"
    show "contents (put_data (b_data b) ?d s) c = contents s c"
    proof (cases "b_data c = b_data b")
      case False
      then show ?thesis by (simp add: contents_def)
    next
      case True
      then have "fits d c" using sh c by (auto simp: shared_ok_def)
      moreover have "off + length bs \<le> b_start c \<or> GetInternalEnd c \<le> off"
        using ex c True by (auto simp: excl_def)
      ultimately have "bytes_of (d_bytes ?d) c = bytes_of (d_bytes d) c"
        using off by (intro bytes_of_cong)
          (auto simp: fits_def part_splice_before part_splice_after GetInternalEnd_def)
      with True d show ?thesis by (simp add: contents_def)
    qed
  qed
qed

end
