(* ===== verification/Buffer_Refine.thy ===== *)
theory Buffer_Refine
  imports Buffer_Heap
begin

text \<open>
  Every operation of \<^verbatim>\<open>Buffer\<close> does to the bytes of its object what its name says, keeps the invariant, and leaves
  the bytes of every other object as they are, whether it works in place or moves to a new block.
\<close>

section \<open>Blocks and sets of objects\<close>

lemma shared_ok_sub: "shared_ok d (add_mset b S) \<Longrightarrow> shared_ok d S"
  by (auto simp: shared_ok_def)

lemma shared_okI:
  assumes "d_dirtyEnd d = I + Z" and "\<And>b. b \<in># S \<Longrightarrow> GetInternalEnd b \<le> I"
    and "\<And>b. b \<in># S \<Longrightarrow> zeros b \<le> Z" and "\<And>b. b \<in># S \<Longrightarrow> fits d b"
  shows "shared_ok d S"
  using assms unfolding shared_ok_def by blast

text \<open>An object may be replaced by one that shows no more of the block.\<close>

lemma shared_ok_shrink:
  assumes "shared_ok d (add_mset b S)" and "fits d b'" and "GetInternalEnd b' \<le> GetInternalEnd b"
    and "zeros b' \<le> zeros b"
  shows "shared_ok d (add_mset b' S)"
proof -
  obtain I Z where "d_dirtyEnd d = I + Z"
    "\<forall>c\<in>#add_mset b S. GetInternalEnd c \<le> I \<and> zeros c \<le> Z \<and> fits d c"
    using assms(1) unfolding shared_ok_def by blast
  then show ?thesis
    using assms(2-4) by (intro shared_okI [of d I Z]) (auto intro: order_trans)
qed

lemma shared_ok_copy:
  assumes "shared_ok d (add_mset b S)" and "fits d b'" and "GetInternalEnd b' \<le> GetInternalEnd b"
    and "zeros b' \<le> zeros b"
  shows "shared_ok d (add_mset b' (add_mset b S))"
proof -
  obtain I Z where "d_dirtyEnd d = I + Z"
    "\<forall>c\<in>#add_mset b S. GetInternalEnd c \<le> I \<and> zeros c \<le> Z \<and> fits d c"
    using assms(1) unfolding shared_ok_def by blast
  then show ?thesis
    using assms(2-4) by (intro shared_okI [of d I Z]) (auto intro: order_trans)
qed

text \<open>
  An object at the end of the dirty area ends where every other object of the block ends or later, although the
  dirty area is measured with its zero bytes and the others may have fewer of them.
\<close>

lemma frontier_end:
  assumes "shared_ok d (add_mset b S)" and "d_dirtyEnd d \<le> b_end b" and "c \<in># S"
  shows "GetInternalEnd c \<le> GetInternalEnd b" and "zeros c \<le> zeros b"
proof -
  obtain I Z where IZ: "d_dirtyEnd d = I + Z"
    "\<forall>c\<in>#add_mset b S. GetInternalEnd c \<le> I \<and> zeros c \<le> Z \<and> fits d c"
    using assms(1) unfolding shared_ok_def by blast
  have "b_end b = GetInternalEnd b + zeros b" using IZ(2) by (auto simp: fits_def GetInternalEnd_def)
  moreover have "GetInternalEnd b \<le> I" "zeros b \<le> Z" using IZ(2) by simp_all
  ultimately have "GetInternalEnd b = I" "zeros b = Z" using assms(2) IZ(1) by linarith+
  with IZ(2) assms(3) show "GetInternalEnd c \<le> GetInternalEnd b" "zeros c \<le> zeros b" by auto
qed

section \<open>Removing bytes\<close>

lemma wrap32_id: "0 \<le> x \<Longrightarrow> x < 4294967296 \<Longrightarrow> wrap32 x = nat x"
  by (simp add: wrap32_def)

lemma wrap32_add: "m + n < 4294967296 \<Longrightarrow> wrap32 (int m + int n) = m + n"
  by (simp add: wrap32_id nat_add_distrib)

lemma RemoveAtStart_data [simp]: "b_data (RemoveAtStart n b) = b_data b"
  by (simp add: RemoveAtStart_def Let_def)

lemma RemoveAtEnd_data [simp]: "b_data (RemoveAtEnd n b) = b_data b"
  by (simp add: RemoveAtEnd_def Let_def)

lemma drop_part: "drop k (part p n xs) = part (p + k) (n - k) xs"
  by (simp add: drop_take add.commute)

lemma take_part: "take k (part p n xs) = part p (min k n) xs"
  by (simp add: min_def)

lemma length_part: "p + n \<le> length xs \<Longrightarrow> length (part p n xs) = n"
  by simp

lemma RemoveAtStart_ok:
  assumes "fits d b" and "b_start b + n < 4294967296"
  shows "fits d (RemoveAtStart n b)" and "GetInternalEnd (RemoveAtStart n b) = GetInternalEnd b"
    and "zeros (RemoveAtStart n b) \<le> zeros b"
    and "bytes_of (d_bytes d) (RemoveAtStart n b) = drop n (bytes_of (d_bytes d) b)"
proof -
  have w: "wrap32 (int (b_start b) + int n) = b_start b + n" using assms(2) by (rule wrap32_add)
  note defs = RemoveAtStart_def w Let_def fits_def GetInternalEnd_def
  show "fits d (RemoveAtStart n b)" using assms(1) by (auto simp: defs)
  show "GetInternalEnd (RemoveAtStart n b) = GetInternalEnd b" using assms(1) by (auto simp: defs)
  show "zeros (RemoveAtStart n b) \<le> zeros b" using assms(1) by (auto simp: defs)
  let ?m = "b_zeroAreaStart b - b_start b" and ?e = "b_end b - b_zeroAreaEnd b"
  have len: "length (part (b_start b) ?m (d_bytes d)) = ?m"
    using assms(1) by (intro length_part) (auto simp: fits_def GetInternalEnd_def)
  have "drop n (bytes_of (d_bytes d) b) = part (b_start b + n) (?m - n) (d_bytes d) @
      replicate (zeros b - (n - ?m)) 0 @ part (b_zeroAreaStart b + (n - ?m - zeros b)) (?e - (n - ?m - zeros b)) (d_bytes d)"
    unfolding bytes_of_def drop_append len drop_part drop_replicate length_replicate ..
  also have "\<dots> = bytes_of (d_bytes d) (RemoveAtStart n b)"
  proof -
    consider "b_start b + n \<le> b_zeroAreaStart b"
      | "b_zeroAreaStart b < b_start b + n" "b_start b + n \<le> b_zeroAreaEnd b"
      | "b_zeroAreaEnd b < b_start b + n" "b_start b + n \<le> b_end b" | "b_end b < b_start b + n"
      by linarith
    then show ?thesis
      using assms(1) unfolding RemoveAtStart_def w
      by cases (simp_all add: Let_def fits_def bytes_of_def add.commute)
  qed
  finally show "bytes_of (d_bytes d) (RemoveAtStart n b) = drop n (bytes_of (d_bytes d) b)" ..
qed

lemma RemoveAtEnd_ok:
  assumes "fits d b"
  shows "fits d (RemoveAtEnd n b)" and "GetInternalEnd (RemoveAtEnd n b) \<le> GetInternalEnd b"
    and "zeros (RemoveAtEnd n b) \<le> zeros b"
    and "bytes_of (d_bytes d) (RemoveAtEnd n b) =
      take (Buffer_GetSize b - n) (bytes_of (d_bytes d) b)"
proof -
  note defs = RemoveAtEnd_def Let_def fits_def GetInternalEnd_def
  show "fits d (RemoveAtEnd n b)" using assms by (auto simp: defs)
  show "GetInternalEnd (RemoveAtEnd n b) \<le> GetInternalEnd b" using assms by (auto simp: defs)
  show "zeros (RemoveAtEnd n b) \<le> zeros b" using assms by (auto simp: defs)
  let ?m = "b_zeroAreaStart b - b_start b" and ?e = "b_end b - b_zeroAreaEnd b"
  define k where "k = Buffer_GetSize b - n"
  have len: "length (part (b_start b) ?m (d_bytes d)) = ?m"
    using assms by (intro length_part) (auto simp: fits_def GetInternalEnd_def)
  have "take k (bytes_of (d_bytes d) b) = part (b_start b) (min k ?m) (d_bytes d) @
      replicate (min (k - ?m) (zeros b)) 0 @ part (b_zeroAreaStart b) (min (k - ?m - zeros b) ?e) (d_bytes d)"
    unfolding bytes_of_def take_append len take_part take_replicate length_replicate ..
  also have "\<dots> = bytes_of (d_bytes d) (RemoveAtEnd n b)"
  proof -
    have newEnd: "b_end b - min n (b_end b - b_start b) = b_start b + k"
      using assms by (auto simp: fits_def Buffer_GetSize_def k_def)
    have k: "k \<le> b_end b - b_start b" by (simp add: k_def Buffer_GetSize_def)
    consider "b_zeroAreaEnd b < b_start b + k"
      | "b_zeroAreaStart b < b_start b + k" "b_start b + k \<le> b_zeroAreaEnd b"
      | "0 < k" "b_start b + k \<le> b_zeroAreaStart b" | "k = 0"
      by linarith
    then show ?thesis
    proof cases
      case 1
      then have "min k ?m = ?m" "min (k - ?m) (zeros b) = zeros b"
        "min (k - ?m - zeros b) ?e = b_start b + k - b_zeroAreaEnd b"
        using assms k by (auto simp: fits_def)
      note m = this
      show ?thesis unfolding RemoveAtEnd_def newEnd m using 1 by (simp add: bytes_of_def)
    next
      case 2
      then show ?thesis using assms k unfolding RemoveAtEnd_def newEnd
        by (simp add: Let_def fits_def bytes_of_def min_absorb1 min_absorb2 add.commute)
    next
      case 3
      then show ?thesis using assms k unfolding RemoveAtEnd_def newEnd
        by (simp add: Let_def fits_def bytes_of_def min_absorb1 min_absorb2 add.commute)
    next
      case 4
      then show ?thesis using assms k unfolding RemoveAtEnd_def newEnd
        by (simp add: Let_def fits_def bytes_of_def min_absorb1 min_absorb2 add.commute)
    qed
  qed
  finally show "bytes_of (d_bytes d) (RemoveAtEnd n b) = take (Buffer_GetSize b - n) (bytes_of (d_bytes d) b)"
    by (simp add: k_def)
qed

section \<open>The operations on objects\<close>

lemma RemoveAtStart_inv:
  assumes "store_inv s (add_mset b B)" and "b_start b + n < 4294967296"
  shows "store_inv s (add_mset (RemoveAtStart n b) B)"
    and "contents s (RemoveAtStart n b) = drop n (contents s b)"
proof -
  obtain d where d: "m_heap s (b_data b) = Some d" "fits d b" using assms(1) by (rule store_invD)
  note ok = RemoveAtStart_ok [OF d(2) assms(2)]
  show "store_inv s (add_mset (RemoveAtStart n b) B)"
    using assms(1) by (rule store_inv_object) (use d ok in \<open>auto intro: shared_ok_shrink\<close>)
  show "contents s (RemoveAtStart n b) = drop n (contents s b)"
    using d ok by (simp add: contents_def)
qed

lemma RemoveAtEnd_inv:
  assumes "store_inv s (add_mset b B)"
  shows "store_inv s (add_mset (RemoveAtEnd n b) B)"
    and "contents s (RemoveAtEnd n b) = take (length (contents s b) - n) (contents s b)"
proof -
  obtain d where d: "m_heap s (b_data b) = Some d" "fits d b" using assms(1) by (rule store_invD)
  note ok = RemoveAtEnd_ok [OF d(2)]
  show "store_inv s (add_mset (RemoveAtEnd n b) B)"
    using assms(1) by (rule store_inv_object) (use d ok in \<open>auto intro: shared_ok_shrink\<close>)
  show "contents s (RemoveAtEnd n b) = take (length (contents s b) - n) (contents s b)"
    using d ok length_bytes_of [OF d(2)] by (simp add: contents_def)
qed

lemma store_inv_block: "store_inv s B \<Longrightarrow> m_heap s a = Some d \<Longrightarrow> shared_ok d (sharing a B)"
  unfolding store_inv_def by blast

lemma retain_inv:
  assumes inv: "store_inv s (add_mset b B)" and b': "b_data b' = b_data b" and fit: "\<And>d. fits d b' = fits d b"
    and le: "GetInternalEnd b' = GetInternalEnd b" "zeros b' = zeros b"
  obtains s' where "retain (b_data b) s = Some s'" and "store_inv s' (add_mset b' (add_mset b B))"
    and "\<And>C. unchanged C s s'" and "g_recommendedStart s' = g_recommendedStart s"
proof -
  let ?a = "b_data b" and ?R = "refs (add_mset b B)"
  have ok: "heap_ok s ?R" and nz: "?R ?a \<noteq> 0" using inv by (simp_all add: store_inv_def refs_add)
  obtain d where d: "m_heap s ?a = Some d" "retain ?a s = Some (put_data ?a (d\<lparr>d_count := ?R ?a + 1\<rparr>) s)"
    "heap_ok (put_data ?a (d\<lparr>d_count := ?R ?a + 1\<rparr>) s) (?R(?a := ?R ?a + 1))"
    using retain_ok [OF ok nz] by blast
  let ?d = "d\<lparr>d_count := ?R ?a + 1\<rparr>" and ?s = "put_data ?a (d\<lparr>d_count := ?R ?a + 1\<rparr>) s"
  have "heap_ok ?s (refs (add_mset b' (add_mset b B)))"
    using d(3) b' by (simp add: refs_add)
  moreover have "shared_ok e (sharing a (add_mset b' (add_mset b B)))" if "m_heap ?s a = Some e" for a e
  proof (cases "a = ?a")
    case False
    then have "shared_ok e (sharing a (add_mset b B))" using that store_inv_block [OF inv, of a e] by simp
    with False b' show ?thesis by simp
  next
    case True
    obtain d' where "m_heap s ?a = Some d'" "fits d' b" "shared_ok d' (add_mset b (sharing ?a B))"
      using inv by (rule store_invD)
    then have "shared_ok d (add_mset b' (add_mset b (sharing ?a B)))"
      using d(1) fit le by (intro shared_ok_copy) simp_all
    moreover have "e = ?d" using True that by simp
    ultimately show ?thesis using True b' by (simp add: shared_ok_def fits_def)
  qed
  ultimately have "store_inv ?s (add_mset b' (add_mset b B))" by (simp add: store_inv_def)
  moreover have "unchanged C s ?s" for C using d by (intro unchanged_same_bytes) simp_all
  ultimately show thesis by (intro that [OF d(2)]) simp_all
qed

lemma CopyBuffer_inv:
  assumes inv: "store_inv s (add_mset b B)"
  obtains b' s' where "CopyBuffer b s = Some (b', s')" and "store_inv s' (add_mset b' (add_mset b B))"
    and "contents s' b' = contents s b" and "unchanged (add_mset b B) s s'" and "zeros b' = zeros b"
    and "Buffer_GetSize b' = Buffer_GetSize b" and "b_start b' = b_start b"
proof -
  let ?b = "b\<lparr>b_maxZeroAreaStart := b_zeroAreaStart b\<rparr>"
  have off: "contents s ?b = contents s b" "fits d ?b = fits d b" "GetInternalEnd ?b = GetInternalEnd b"
    "Buffer_GetSize ?b = Buffer_GetSize b" for s d
    by (rule same_offsets; simp)+
  have p: "b_data ?b = b_data b" "zeros ?b = zeros b" by simp_all
  obtain s' where s': "retain (b_data b) s = Some s'" "store_inv s' (add_mset ?b (add_mset b B))"
    "\<And>C. unchanged C s s'"
    using retain_inv [OF inv p(1) off(2,3) p(2)] by blast
  have "contents s' ?b = contents s b"
    using s'(3) [of "{#b#}"] off(1) by (simp add: unchanged_def)
  with s' off(4) show thesis by (intro that [of ?b s']) (simp_all add: CopyBuffer_def)
qed

lemma release_inv:
  assumes "store_inv s (add_mset b B)"
  obtains s' where "release (b_data b) s = Some s'" and "store_inv s' B" and "unchanged B s s'"
    and "g_recommendedStart s' = g_recommendedStart s"
proof -
  let ?a = "b_data b" and ?R = "refs (add_mset b B)"
  have ok: "heap_ok s ?R" and nz: "?R ?a \<noteq> 0" using assms by (simp_all add: store_inv_def refs_add)
  obtain s' where s': "release ?a s = Some s'" "heap_ok s' (?R(?a := ?R ?a - 1))"
    "\<And>a. ?R a \<noteq> 0 \<Longrightarrow> a \<noteq> ?a \<Longrightarrow> m_heap s' a = m_heap s a"
    "\<And>d. m_heap s ?a = Some d \<Longrightarrow> ?R ?a \<noteq> 1 \<Longrightarrow> m_heap s' ?a = Some (d\<lparr>d_count := ?R ?a - 1\<rparr>)"
    "g_recommendedStart s' = g_recommendedStart s"
    using release_ok [OF ok nz] by blast
  obtain d where d: "m_heap s ?a = Some d" "shared_ok d (add_mset b (sharing ?a B))"
    using assms by (rule store_invD)
  have un: "m_heap s' (b_data c) = m_heap s (b_data c) \<or>
      b_data c = ?a \<and> m_heap s' ?a = Some (d\<lparr>d_count := ?R ?a - 1\<rparr>)" if "c \<in># B" for c
  proof (cases "b_data c = ?a")
    case True
    then have "?R ?a \<noteq> 1" using refs_mem [OF that] by (simp add: refs_add)
    with True s'(4) d show ?thesis by simp
  next
    case False
    then show ?thesis using s'(3) refs_mem [OF that] by (simp add: refs_add)
  qed
  have "unchanged B s s'" unfolding unchanged_def
  proof
    fix c assume "c \<in># B"
    from un [OF this] d show "contents s' c = contents s c" by (auto simp: contents_def)
  qed
  moreover have "shared_ok e (sharing a B)" if e: "m_heap s' a = Some e" for a e
  proof (cases "sharing a B = {#}")
    case True
    then show ?thesis by (intro shared_okI [of e "d_dirtyEnd e" 0]) auto
  next
    case False
    then obtain c where "c \<in># sharing a B" by (rule multiset_nonemptyE)
    then have c: "c \<in># B" "b_data c = a" by simp_all
    consider "m_heap s a = Some e" "a \<noteq> ?a" | "a = ?a" "d_bytes e = d_bytes d"
        "d_dirtyStart e = d_dirtyStart d" "d_dirtyEnd e = d_dirtyEnd d"
      using un [OF c(1)] e d(1) c(2) by (cases "a = ?a") auto
    then show ?thesis
    proof cases
      case 1
      then have "shared_ok e (sharing a (add_mset b B))" using store_inv_block [OF assms, of a e] by simp
      with 1 show ?thesis by simp
    next
      case 2
      then show ?thesis using shared_ok_sub [OF d(2)] by (simp add: shared_ok_def fits_def)
    qed
  qed
  ultimately show thesis
    using s' by (intro that [of s']) (simp_all add: store_inv_def refs_add)
qed

end
