(* ===== verification/Buffer_Grow.thy ===== *)
theory Buffer_Grow
  imports Buffer_Refine
begin

text \<open>
  Adding room to an object, in place or in a new block, and writing the bytes that go there.
\<close>

section \<open>Moving to a new block\<close>

lemma GetInternalSize_end:
  "fits d b \<Longrightarrow> b_start b + GetInternalSize b = GetInternalEnd b"
  by (auto simp: fits_def GetInternalSize_def GetInternalEnd_def)

text \<open>
  The part of \<^verbatim>\<open>AddAtStart\<close> and \<^verbatim>\<open>AddAtEnd\<close> that copies the object to position \<open>off\<close> of a new block of
  \<open>newSize\<close> bytes and gives up the old one.
\<close>

lemma move_block:
  assumes inv: "store_inv s (add_mset b B)" and fresh: "allocates fresh"
    and off: "off + GetInternalSize b \<le> newSize"
    and d0: "m_heap s (b_data b) = Some d0"
  obtains a s1 s2 s3 d where "Create fresh newSize s = Some (a, s1)"
    and "load (b_data b) (b_start b) (GetInternalSize b) s1 =
      Some (part (b_start b) (GetInternalSize b) (d_bytes d0))"
    and "store a off (part (b_start b) (GetInternalSize b) (d_bytes d0)) s1 = Some s2"
    and "release (b_data b) s2 = Some s3" and "m_heap s3 a = Some d" and "newSize \<le> d_size d"
    and "part off (GetInternalSize b) (d_bytes d) = part (b_start b) (GetInternalSize b) (d_bytes d0)"
    and "sharing a B = {#}"
    and "\<And>d' b'. d_bytes d' = d_bytes d \<Longrightarrow> d_count d' = d_count d \<Longrightarrow> b_data b' = a \<Longrightarrow>
      shared_ok d' {#b'#} \<Longrightarrow>
      store_inv (put_data a d' s3) (add_mset b' B) \<and> unchanged B s (put_data a d' s3)"
proof -
  let ?n = "GetInternalSize b" and ?R = "refs (add_mset b B)"
  let ?bytes = "part (b_start b) ?n (d_bytes d0)"
  have fits0: "fits d0 b" using inv d0 by (auto elim: store_invD)
  then have n: "b_start b + ?n \<le> d_size d0"
    using GetInternalSize_end [OF fits0] by (simp add: fits_def)
  have hok: "heap_ok s ?R" using inv by (simp add: store_inv_def)
  obtain a s1 where cr: "Create fresh newSize s = Some (a, s1)" "created ?R newSize s a s1"
    using Create_created [OF hok fresh] by blast
  then obtain d1 where d1: "m_heap s1 a = Some d1" "newSize \<le> d_size d1" and ra: "?R a = 0"
    and ok1: "heap_ok s1 (?R(a := 1))" and frame1: "\<And>a'. ?R a' \<noteq> 0 \<Longrightarrow> m_heap s1 a' = m_heap s a'"
    by (auto simp: created_def)
  have ab: "a \<noteq> b_data b" and sh: "sharing a B = {#}" and rB: "refs B a = 0"
    using ra refs_0_iff by (auto simp: refs_add split: if_splits)
  have s1b: "m_heap s1 (b_data b) = Some d0" using frame1 d0 by (simp add: refs_add)
  let ?d2 = "d1\<lparr>d_bytes := splice off ?bytes (d_bytes d1)\<rparr>"
  let ?s2 = "put_data a ?d2 s1"
  have len: "length ?bytes = ?n" using n by simp
  have st: "store a off ?bytes s1 = Some ?s2" using d1 off len by (intro store_some) simp_all
  have ok2: "heap_ok ?s2 (?R(a := 1))" using heap_ok_put_data [OF ok1 d1(1)] by simp
  have nz: "(?R(a := 1)) (b_data b) \<noteq> 0" using ab by (simp add: refs_add)
  obtain s3 where s3: "release (b_data b) ?s2 = Some s3"
    "heap_ok s3 ((?R(a := 1))(b_data b := (?R(a := 1)) (b_data b) - 1))"
    "\<And>a'. (?R(a := 1)) a' \<noteq> 0 \<Longrightarrow> a' \<noteq> b_data b \<Longrightarrow> m_heap s3 a' = m_heap ?s2 a'"
    "\<And>d. m_heap ?s2 (b_data b) = Some d \<Longrightarrow> (?R(a := 1)) (b_data b) \<noteq> 1 \<Longrightarrow>
      m_heap s3 (b_data b) = Some (d\<lparr>d_count := (?R(a := 1)) (b_data b) - 1\<rparr>)"
    using release_ok [OF ok2 nz] by blast
  have s3a: "m_heap s3 a = Some ?d2" using s3(3) [of a] ab by simp
  have eqR: "(?R(a := 1))(b_data b := (?R(a := 1)) (b_data b) - 1) = (refs B)(a := 1)"
    using ab by (rule_tac ext) (simp add: refs_add)
  have ok3: "heap_ok s3 ((refs B)(a := 1))" using s3(2) unfolding eqR .
  have other: "m_heap s3 c = m_heap s c \<or> (c = b_data b \<and> m_heap s3 c = Some (d0\<lparr>d_count := refs B c\<rparr>))"
    if "refs B c \<noteq> 0" for c
  proof (cases "c = b_data b")
    case True
    then show ?thesis using s3(4) [of d0] s1b ab that by (simp add: refs_add)
  next
    case False
    moreover have "c \<noteq> a" using that rB by auto
    ultimately show ?thesis using s3(3) [of c] frame1 [of c] that by (simp add: refs_add)
  qed
  have result: "store_inv (put_data a d' s3) (add_mset b' B) \<and> unchanged B s (put_data a d' s3)"
    if d': "d_bytes d' = d_bytes ?d2" "d_count d' = d_count ?d2" and b': "b_data b' = a"
      and shok: "shared_ok d' {#b'#}" for d' b'
  proof
    have "heap_ok (put_data a d' s3) (refs (add_mset b' B))"
      using heap_ok_put_data [OF ok3 s3a d'(2)] b' rB by (simp add: refs_add)
    moreover have "shared_ok e (sharing c (add_mset b' B))" if e: "m_heap (put_data a d' s3) c = Some e" for c e
    proof (cases "c = a")
      case True
      then have "sharing c (add_mset b' B) = {#b'#}" using sh b' by (simp only: filter_mset_add_mset simp_thms if_True)
      with True e shok show ?thesis by simp
    next
      case False
      show ?thesis
      proof (cases "refs B c = 0")
        case True
        then have "sharing c (add_mset b' B) = {#}" using False b' refs_0_iff by simp
        then show ?thesis by (intro shared_okI [of e "d_dirtyEnd e" 0]) auto
      next
        case nz: False
        have e': "m_heap s3 c = Some e" using e False by simp
        have "m_heap s c = Some e \<or> (m_heap s c = Some d0 \<and> e = d0\<lparr>d_count := refs B c\<rparr>)"
          using other [OF nz] d0 unfolding e' by auto
        then obtain d'' where "m_heap s c = Some d''" "d_bytes e = d_bytes d''"
          "d_dirtyStart e = d_dirtyStart d''" "d_dirtyEnd e = d_dirtyEnd d''"
          by auto
        moreover from this(1) have "shared_ok d'' (sharing c (add_mset b B))"
          by (rule store_inv_block [OF inv])
        then have "shared_ok d'' (sharing c B)"
          by (cases "b_data b = c") (simp_all add: shared_ok_sub)
        ultimately show ?thesis using False b' by (simp add: shared_ok_def fits_def)
      qed
    qed
    ultimately show "store_inv (put_data a d' s3) (add_mset b' B)" by (simp add: store_inv_def)
    show "unchanged B s (put_data a d' s3)"
      unfolding unchanged_def
    proof
      fix c assume "c \<in># B"
      then have "refs B (b_data c) \<noteq> 0" by (rule refs_mem)
      from other [OF this] this rB d0 show "contents (put_data a d' s3) c = contents s c"
        by (auto simp: contents_def)
    qed
  qed
  show thesis
  proof (rule that [OF cr(1) _ st s3(1) s3a _ _ sh result])
    show "load (b_data b) (b_start b) ?n s1 = Some ?bytes" using s1b n by (intro load_some)
    show "newSize \<le> d_size ?d2" using d1(2) off len by simp
    show "part off ?n (d_bytes ?d2) = ?bytes"
      using part_splice_at [of off ?bytes "d_bytes d1"] d1(2) off len by simp
  qed
qed

section \<open>AddAtStart\<close>

lemma bytes_of_grow_start:
  assumes "b_start b' + n \<le> b_zeroAreaStart b" and "b_start b = b_start b' + n"
    and "b_zeroAreaStart b' = b_zeroAreaStart b" "b_zeroAreaEnd b' = b_zeroAreaEnd b" "b_end b' = b_end b"
  shows "bytes_of xs b' = part (b_start b') n xs @ bytes_of xs b"
proof -
  have eq: "b_zeroAreaStart b' - b_start b' = n + (b_zeroAreaStart b - b_start b)" using assms by simp
  have "part (b_start b') (b_zeroAreaStart b' - b_start b') xs =
      part (b_start b') n xs @ part (b_start b) (b_zeroAreaStart b - b_start b) xs"
    unfolding eq part_append using assms(2) by simp
  then show ?thesis using assms(3-5) by (simp add: bytes_of_def)
qed

text \<open>
  The object gets \<open>n\<close> bytes in front of what it had; nobody else has bytes at their place, so writing them
  touches no other object.
\<close>

lemma AddAtStart_inv:
  assumes inv: "store_inv s (add_mset b B)" and fresh: "allocates fresh"
  obtains b' s' d room where "AddAtStart fresh n b s = Some (b', s')" and "store_inv s' (add_mset b' B)"
    and "unchanged B s s'" and "contents s' b' = room @ contents s b" and "length room = n"
    and "excl B b' (b_start b') (b_start b' + n)" and "zeros b' = zeros b"
    and "b_start b' + n \<le> b_zeroAreaStart b'" and "b_zeroAreaStart b' - b_start b' = n + (b_zeroAreaStart b - b_start b)"
    and "b_end b' - b_zeroAreaEnd b' = b_end b - b_zeroAreaEnd b"
proof -
  obtain d where d: "m_heap s (b_data b) = Some d" and fit: "fits d b"
    and cnt: "d_count d = Suc (size (sharing (b_data b) B))"
    and shok: "shared_ok d (add_mset b (sharing (b_data b) B))"
    using inv by (rule store_invD)
  let ?dirty = "d_count d > 1 \<and> b_start b > d_dirtyStart d"
  show thesis
  proof (cases "b_start b \<ge> n \<and> \<not> ?dirty")
    case True
    let ?b = "raise_maxZero (b\<lparr>b_start := b_start b - n\<rparr>)" and ?d = "d\<lparr>d_dirtyStart := b_start b - n\<rparr>"
    let ?s = "put_data (b_data b) ?d s"
    have others: "d_dirtyStart ?d \<le> b_start c \<and> b_start b \<le> b_start c" if "c \<in># sharing (b_data b) B" for c
    proof -
      have "sharing (b_data b) B \<noteq> {#}" using that by auto
      then have "1 < d_count d" using cnt by (cases "size (sharing (b_data b) B)") auto
      then have "b_start b \<le> d_dirtyStart d" using True by simp
      moreover have "fits d c" using shok that by (simp add: shared_ok_def)
      ultimately show ?thesis by (auto simp: fits_def)
    qed
    have "fits ?d ?b" using fit True by (auto simp: fits_def GetInternalEnd_def)
    moreover obtain I Z where "d_dirtyEnd d = I + Z"
      "\<forall>c\<in>#add_mset b (sharing (b_data b) B). GetInternalEnd c \<le> I \<and> zeros c \<le> Z \<and> fits d c"
      using shok unfolding shared_ok_def by blast
    ultimately have "shared_ok ?d (add_mset ?b (sharing (b_data b) B))"
      using others by (intro shared_okI [of ?d I Z]) (auto simp: fits_def GetInternalEnd_def)
    then have "store_inv ?s (add_mset ?b B)" by (intro store_inv_replace [OF inv d]) simp_all
    moreover have "unchanged B s ?s" using d by (intro unchanged_same_bytes) simp_all
    moreover have "contents ?s ?b = part (b_start b - n) n (d_bytes d) @ contents s b"
      using d True fit bytes_of_grow_start [of ?b n b "d_bytes d"] by (simp add: contents_def fits_def)
    moreover have "length (part (b_start b - n) n (d_bytes d)) = n"
      using fit True by (auto simp: fits_def GetInternalEnd_def)
    moreover have "excl B ?b (b_start ?b) (b_start ?b + n)"
      using others True by (auto simp: excl_def)
    moreover have "AddAtStart fresh n b s = Some (?b, ?s)"
      using True d by (simp add: AddAtStart_def Let_def)
    ultimately show thesis
      using True fit by (intro that [of ?b ?s "part (b_start b - n) n (d_bytes d)"]) (auto simp: fits_def)
  next
    case False
    let ?n = "GetInternalSize b"
    obtain a s1 s2 s3 d1 where m: "Create fresh (?n + n) s = Some (a, s1)"
      "load (b_data b) (b_start b) ?n s1 = Some (part (b_start b) ?n (d_bytes d))"
      "store a n (part (b_start b) ?n (d_bytes d)) s1 = Some s2"
      "release (b_data b) s2 = Some s3" "m_heap s3 a = Some d1" "?n + n \<le> d_size d1"
      "part n ?n (d_bytes d1) = part (b_start b) ?n (d_bytes d)" "sharing a B = {#}"
      and r: "\<And>d' b'. d_bytes d' = d_bytes d1 \<Longrightarrow> d_count d' = d_count d1 \<Longrightarrow> b_data b' = a \<Longrightarrow>
        shared_ok d' {#b'#} \<Longrightarrow>
        store_inv (put_data a d' s3) (add_mset b' B) \<and> unchanged B s (put_data a d' s3)"
      using move_block [OF inv fresh _ d, of n "?n + n"] by (metis add.commute order_refl)
    define b1 where "b1 = raise_maxZero (b\<lparr>b_data := a, b_start := 0,
       b_zeroAreaStart := n + (b_zeroAreaStart b - b_start b),
       b_zeroAreaEnd := n + (b_zeroAreaEnd b - b_start b), b_end := n + (b_end b - b_start b)\<rparr>)"
    let ?d = "d1\<lparr>d_dirtyStart := 0, d_dirtyEnd := b_end b1\<rparr>"
    have b1: "b_data b1 = a" "b_start b1 = 0" "b_zeroAreaStart b1 = n + (b_zeroAreaStart b - b_start b)"
      "b_zeroAreaEnd b1 = n + (b_zeroAreaEnd b - b_start b)" "b_end b1 = n + (b_end b - b_start b)"
      by (simp_all add: b1_def)
    have "fits ?d b1"
      using fit m(6) by (auto simp: fits_def b1 GetInternalEnd_def GetInternalSize_def)
    then have "shared_ok ?d {#b1#}"
      by (intro shared_okI [of _ "GetInternalEnd b1" "zeros b1"]) (auto simp: fits_def GetInternalEnd_def)
    from r [of ?d b1, OF _ _ b1(1) this]
    have "store_inv (put_data a ?d s3) (add_mset b1 B)" "unchanged B s (put_data a ?d s3)" by simp_all
    moreover have "bytes_of (d_bytes d1) b1 = part 0 n (d_bytes d1) @ bytes_of (d_bytes d) b"
    proof -
      let ?b0 = "b1\<lparr>b_start := n\<rparr>"
      have "bytes_of (d_bytes d1) b1 = part 0 n (d_bytes d1) @ bytes_of (d_bytes d1) ?b0"
        using bytes_of_grow_start [of b1 n ?b0 "d_bytes d1"] by (simp add: b1)
      also have "bytes_of (d_bytes d1) ?b0 = bytes_of (d_bytes d) b"
      proof -
        let ?u = "b_zeroAreaStart b - b_start b" and ?v = "b_end b - b_zeroAreaEnd b"
        have nn: "?n = ?u + ?v" using fit by (auto simp: fits_def GetInternalSize_def)
        have "part n ?u (d_bytes d1) = part (b_start b) ?u (d_bytes d)"
          "part (n + ?u) ?v (d_bytes d1) = part (b_zeroAreaStart b) ?v (d_bytes d)"
          using arg_cong [OF m(7), of "take ?u"] arg_cong [OF m(7), of "drop ?u"] fit
          unfolding nn by (simp_all add: take_part drop_part fits_def)
        then show ?thesis using fit by (auto simp: bytes_of_def b1 fits_def)
      qed
      finally show ?thesis .
    qed
    moreover have "AddAtStart fresh n b s = Some (b1, put_data a ?d s3)"
      using False d m unfolding AddAtStart_def by (auto simp: Let_def b1_def)
    ultimately show thesis
      using m(6,8) d fit b1
      by (intro that [of b1 "put_data a ?d s3" "part 0 n (d_bytes d1)"])
        (auto simp: contents_def excl_def fits_def filter_mset_eq_mempty_iff)
  qed
qed

section \<open>AddAtEnd\<close>

lemma bytes_of_grow_end:
  assumes "b_end b' = b_end b + n" and "b_zeroAreaEnd b \<le> b_end b" "b_zeroAreaStart b \<le> b_zeroAreaEnd b"
    and "b_start b' = b_start b" "b_zeroAreaStart b' = b_zeroAreaStart b" "b_zeroAreaEnd b' = b_zeroAreaEnd b"
  shows "bytes_of xs b' = bytes_of xs b @ part (GetInternalEnd b) n xs"
proof -
  have "b_end b' - b_zeroAreaEnd b' = (b_end b - b_zeroAreaEnd b) + n"
    and "b_zeroAreaStart b + (b_end b - b_zeroAreaEnd b) = GetInternalEnd b"
    using assms by (simp_all add: GetInternalEnd_def)
  with assms(4-6) show ?thesis by (simp add: bytes_of_def part_append)
qed

lemma AddAtEnd_inv:
  assumes inv: "store_inv s (add_mset b B)" and fresh: "allocates fresh"
  obtains b' s' room where "AddAtEnd fresh n b s = Some (b', s')" and "store_inv s' (add_mset b' B)"
    and "unchanged B s s'" and "contents s' b' = contents s b @ room" and "length room = n"
    and "excl B b' (GetInternalEnd b' - n) (GetInternalEnd b')" and "zeros b' = zeros b"
    and "b_zeroAreaStart b' - b_start b' = b_zeroAreaStart b - b_start b"
    and "b_end b' - b_zeroAreaEnd b' = n + (b_end b - b_zeroAreaEnd b)"
proof -
  obtain d where d: "m_heap s (b_data b) = Some d" and fit: "fits d b"
    and cnt: "d_count d = Suc (size (sharing (b_data b) B))"
    and shok: "shared_ok d (add_mset b (sharing (b_data b) B))"
    using inv by (rule store_invD)
  let ?dirty = "d_count d > 1 \<and> b_end b < d_dirtyEnd d"
  show thesis
  proof (cases "GetInternalEnd b + n \<le> d_size d \<and> \<not> ?dirty")
    case True
    let ?b = "raise_maxZero (b\<lparr>b_end := b_end b + n\<rparr>)" and ?d = "d\<lparr>d_dirtyEnd := b_end b + n\<rparr>"
    let ?s = "put_data (b_data b) ?d s"
    have others: "GetInternalEnd c \<le> GetInternalEnd b \<and> zeros c \<le> zeros b \<and> fits d c"
      if "c \<in># sharing (b_data b) B" for c
    proof -
      have "sharing (b_data b) B \<noteq> {#}" using that by auto
      then have "1 < d_count d" using cnt by (cases "size (sharing (b_data b) B)") auto
      then have "d_dirtyEnd d \<le> b_end b" using True by simp
      from frontier_end [OF shok this that] show ?thesis using shok that by (simp add: shared_ok_def)
    qed
    have ie: "GetInternalEnd ?b = GetInternalEnd b + n" and en: "b_end b = GetInternalEnd b + zeros b"
      using fit by (auto simp: fits_def GetInternalEnd_def)
    have "fits ?d ?b" using fit True ie by (simp add: fits_def)
    then have "shared_ok ?d (add_mset ?b (sharing (b_data b) B))"
      using others ie en
      by (intro shared_okI [of ?d "GetInternalEnd b + n" "zeros b"]) (auto simp: fits_def intro: trans_le_add1)
    then have "store_inv ?s (add_mset ?b B)" by (intro store_inv_replace [OF inv d]) simp_all
    moreover have "unchanged B s ?s" using d by (intro unchanged_same_bytes) simp_all
    moreover have "contents ?s ?b = contents s b @ part (GetInternalEnd b) n (d_bytes d)"
      using d fit bytes_of_grow_end [of ?b b n "d_bytes d"] by (simp add: contents_def fits_def)
    moreover have "length (part (GetInternalEnd b) n (d_bytes d)) = n"
      using True by (intro length_part) simp
    moreover have "excl B ?b (GetInternalEnd ?b - n) (GetInternalEnd ?b)"
      using others ie by (auto simp: excl_def)
    moreover have "AddAtEnd fresh n b s = Some (?b, ?s)"
      using True d by (simp add: AddAtEnd_def Let_def)
    ultimately show thesis
      using fit by (intro that [of ?b ?s "part (GetInternalEnd b) n (d_bytes d)"]) (auto simp: fits_def)
  next
    case False
    let ?n = "GetInternalSize b"
    obtain a s1 s2 s3 d1 where m: "Create fresh (?n + n) s = Some (a, s1)"
      "load (b_data b) (b_start b) ?n s1 = Some (part (b_start b) ?n (d_bytes d))"
      "store a 0 (part (b_start b) ?n (d_bytes d)) s1 = Some s2"
      "release (b_data b) s2 = Some s3" "m_heap s3 a = Some d1" "?n + n \<le> d_size d1"
      "part 0 ?n (d_bytes d1) = part (b_start b) ?n (d_bytes d)" "sharing a B = {#}"
      and r: "\<And>d' b'. d_bytes d' = d_bytes d1 \<Longrightarrow> d_count d' = d_count d1 \<Longrightarrow> b_data b' = a \<Longrightarrow>
        shared_ok d' {#b'#} \<Longrightarrow>
        store_inv (put_data a d' s3) (add_mset b' B) \<and> unchanged B s (put_data a d' s3)"
      using move_block [OF inv fresh _ d, of 0 "?n + n"] by (metis add_0 le_add1)
    define b0 where "b0 = b\<lparr>b_data := a, b_start := 0, b_zeroAreaStart := b_zeroAreaStart b - b_start b,
       b_zeroAreaEnd := b_zeroAreaEnd b - b_start b, b_end := b_end b - b_start b\<rparr>"
    define b1 where "b1 = raise_maxZero (b0\<lparr>b_end := b_end b - b_start b + n\<rparr>)"
    let ?d = "d1\<lparr>d_dirtyStart := 0, d_dirtyEnd := b_end b1\<rparr>"
    have b0: "b_data b0 = a" "b_start b0 = 0" "b_zeroAreaStart b0 = b_zeroAreaStart b - b_start b"
      "b_zeroAreaEnd b0 = b_zeroAreaEnd b - b_start b" "b_end b0 = b_end b - b_start b"
      by (simp_all add: b0_def)
    have b1: "b_data b1 = a" "b_start b1 = 0" "b_zeroAreaStart b1 = b_zeroAreaStart b0"
      "b_zeroAreaEnd b1 = b_zeroAreaEnd b0" "b_end b1 = b_end b0 + n"
      by (simp_all add: b1_def b0)
    have ie: "GetInternalEnd b0 = ?n" "GetInternalEnd b1 = ?n + n"
      using fit by (auto simp: fits_def b1 b0 GetInternalEnd_def GetInternalSize_def)
    have "fits ?d b1"
      using fit m(6) ie by (auto simp: fits_def b1 b0)
    then have "shared_ok ?d {#b1#}"
      by (intro shared_okI [of _ "GetInternalEnd b1" "zeros b1"]) (auto simp: fits_def GetInternalEnd_def)
    from r [of ?d b1, OF _ _ b1(1) this]
    have "store_inv (put_data a ?d s3) (add_mset b1 B)" "unchanged B s (put_data a ?d s3)" by simp_all
    moreover have "bytes_of (d_bytes d1) b1 = bytes_of (d_bytes d) b @ part ?n n (d_bytes d1)"
    proof -
      have "bytes_of (d_bytes d1) b1 = bytes_of (d_bytes d1) b0 @ part ?n n (d_bytes d1)"
        unfolding ie(1) [symmetric] using fit by (intro bytes_of_grow_end) (auto simp: b1 b0 fits_def)
      also have "bytes_of (d_bytes d1) b0 = bytes_of (d_bytes d) b"
      proof -
        let ?u = "b_zeroAreaStart b - b_start b" and ?v = "b_end b - b_zeroAreaEnd b"
        have nn: "?n = ?u + ?v" using fit by (auto simp: fits_def GetInternalSize_def)
        have "part 0 (min ?u ?n) (d_bytes d1) = part (b_start b) (min ?u ?n) (d_bytes d)"
          "part (0 + ?u) (?n - ?u) (d_bytes d1) = part (b_start b + ?u) (?n - ?u) (d_bytes d)"
          using arg_cong [OF m(7), of "take ?u"] arg_cong [OF m(7), of "drop ?u"]
          unfolding take_part drop_part .
        then have "part 0 ?u (d_bytes d1) = part (b_start b) ?u (d_bytes d)"
          "part ?u ?v (d_bytes d1) = part (b_zeroAreaStart b) ?v (d_bytes d)"
          using fit unfolding nn by (simp_all add: fits_def)
        then show ?thesis using fit by (auto simp: bytes_of_def b0 fits_def)
      qed
      finally show ?thesis .
    qed
    moreover have "AddAtEnd fresh n b s = Some (b1, put_data a ?d s3)"
      using False d m unfolding AddAtEnd_def by (auto simp: Let_def b1_def b0_def)
    ultimately show thesis
      using m(6,8) d fit b1 b0 ie m(5)
      by (intro that [of b1 "put_data a ?d s3" "part ?n n (d_bytes d1)"])
        (auto simp: contents_def excl_def fits_def filter_mset_eq_mempty_iff)
  qed
qed

section \<open>Writing the room\<close>

text \<open>
  Overwriting the bytes at position \<open>k\<close> of an object, outside its zero area and where no other object has bytes.
\<close>

lemma write_before_zeros:
  assumes inv: "store_inv s (add_mset b B)" and k: "k + length bs \<le> b_zeroAreaStart b - b_start b"
    and ex: "excl B b (b_start b + k) (b_start b + k + length bs)"
  obtains s' where "store (b_data b) (b_start b + k) bs s = Some s'" and "store_inv s' (add_mset b B)"
    and "unchanged B s s'" and "contents s' b = splice k bs (contents s b)"
proof -
  obtain d where d: "m_heap s (b_data b) = Some d" and fit: "fits d b"
    using inv by (rule store_invD)
  let ?u = "b_zeroAreaStart b - b_start b"
  have le: "b_start b + ?u \<le> d_size d" using fit by (auto simp: fits_def GetInternalEnd_def)
  have off: "b_start b + k + length bs \<le> d_size d" using k le by simp
  note st = store_excl [OF inv d off ex]
  let ?xs = "splice (b_start b + k) bs (d_bytes d)"
  have "part (b_start b) ?u ?xs = splice k bs (part (b_start b) ?u (d_bytes d))"
    using k off le by (intro nth_equalityI) (auto simp: splice_def nth_append)
  moreover have "part (b_zeroAreaStart b) m ?xs = part (b_zeroAreaStart b) m (d_bytes d)" for m
    using k off fit by (intro part_splice_after) (auto simp: fits_def)
  moreover have "splice k bs (us @ vs) = splice k bs us @ vs" if "k + length bs \<le> length us" for us vs :: "u8 list"
    using that by (simp add: splice_def)
  ultimately have eq: "bytes_of ?xs b = splice k bs (bytes_of (d_bytes d) b)"
    using k le by (simp add: bytes_of_def)
  show thesis
    by (rule that [OF st]) (simp add: contents_def d eq)
qed

lemma write_after_zeros:
  assumes inv: "store_inv s (add_mset b B)" and k: "k + length bs \<le> b_end b - b_zeroAreaEnd b"
    and ex: "excl B b (b_zeroAreaStart b + k) (b_zeroAreaStart b + k + length bs)"
  obtains s' where "store (b_data b) (b_zeroAreaStart b + k) bs s = Some s'" and "store_inv s' (add_mset b B)"
    and "unchanged B s s'"
    and "contents s' b = splice (b_zeroAreaEnd b - b_start b + k) bs (contents s b)"
proof -
  obtain d where d: "m_heap s (b_data b) = Some d" and fit: "fits d b"
    using inv by (rule store_invD)
  let ?u = "b_zeroAreaStart b - b_start b" and ?v = "b_end b - b_zeroAreaEnd b"
  have le: "b_zeroAreaStart b + ?v \<le> d_size d" using fit by (auto simp: fits_def GetInternalEnd_def)
  have off: "b_zeroAreaStart b + k + length bs \<le> d_size d" using k le by simp
  note st = store_excl [OF inv d off ex]
  let ?xs = "splice (b_zeroAreaStart b + k) bs (d_bytes d)"
  have "part (b_zeroAreaStart b) ?v ?xs = splice k bs (part (b_zeroAreaStart b) ?v (d_bytes d))"
    using k off le by (intro nth_equalityI) (auto simp: splice_def nth_append)
  moreover have "part (b_start b) ?u ?xs = part (b_start b) ?u (d_bytes d)"
    using off fit by (intro part_splice_before) (auto simp: fits_def)
  moreover have "splice (length us + k) bs (us @ vs) = us @ splice k bs vs" for us vs :: "u8 list"
    by (simp add: splice_def)
  moreover have "length (part (b_start b) ?u (d_bytes d) @ replicate (zeros b) (0 :: u8)) = b_zeroAreaEnd b - b_start b"
    using fit by (auto simp: fits_def GetInternalEnd_def)
  ultimately have eq: "bytes_of ?xs b = splice (b_zeroAreaEnd b - b_start b + k) bs (bytes_of (d_bytes d) b)"
    unfolding bytes_of_def append_assoc [symmetric] by metis
  show thesis
    by (rule that [OF st]) (simp add: contents_def d eq)
qed

end
