(* ===== verification/Buffer_Copy.thy ===== *)
theory Buffer_Copy
  imports Buffer_Grow
begin

text \<open>
  Creating, assigning, copying and appending whole \<^verbatim>\<open>Buffer\<close> objects, and reading their bytes.
\<close>

section \<open>Objects come and go\<close>

lemma store_inv_recommended [simp]:
  "store_inv (s\<lparr>g_recommendedStart := r\<rparr>) B = store_inv s B"
  "contents (s\<lparr>g_recommendedStart := r\<rparr>) b = contents s b"
  "unchanged B t (s\<lparr>g_recommendedStart := r\<rparr>) = unchanged B t s"
  "unchanged B (s\<lparr>g_recommendedStart := r\<rparr>) t = unchanged B s t"
  by (simp_all add: store_inv_def heap_ok_def contents_def unchanged_def)

lemma Initialize_inv:
  assumes inv: "store_inv s B" and fresh: "allocates fresh"
  obtains b s' where "Initialize fresh z s = Some (b, s')" and "store_inv s' (add_mset b B)"
    and "unchanged B s s'" and "contents s' b = replicate z 0" and "zeros b = z"
    and "b_zeroAreaStart b = b_start b" and "b_end b = b_zeroAreaEnd b"
proof -
  have hok: "heap_ok s (refs B)" using inv by (simp add: store_inv_def)
  obtain a s1 where cr: "Create fresh 0 s = Some (a, s1)" "created (refs B) 0 s a s1"
    using Create_created [OF hok fresh] by blast
  then obtain d where d: "m_heap s1 a = Some d" and ra: "refs B a = 0"
    and ok1: "heap_ok s1 ((refs B)(a := 1))" and frame: "\<And>a'. refs B a' \<noteq> 0 \<Longrightarrow> m_heap s1 a' = m_heap s a'"
    by (auto simp: created_def)
  define start where "start = min (d_size d) (g_recommendedStart s1)"
  define b where "b = \<lparr>b_data = a, b_maxZeroAreaStart = start, b_zeroAreaStart = start,
     b_zeroAreaEnd = start + z, b_start = start, b_end = start + z\<rparr>"
  let ?d = "d\<lparr>d_dirtyStart := start, d_dirtyEnd := start + z\<rparr>"
  let ?s = "put_data a ?d s1"
  have sh: "sharing a B = {#}" using ra refs_0_iff by simp
  have "shared_ok ?d {#b#}"
    by (intro shared_okI [of _ start z]) (auto simp: b_def fits_def GetInternalEnd_def start_def)
  moreover have "sharing a (add_mset b B) = {#b#}" using sh by (simp add: b_def)
  ultimately have new: "shared_ok ?d (sharing a (add_mset b B))" by simp
  have "heap_ok ?s (refs (add_mset b B))"
    using heap_ok_put_data [OF ok1 d, of ?d] ra by (simp add: refs_add b_def)
  moreover have "shared_ok e (sharing c (add_mset b B))" if e: "m_heap ?s c = Some e" for c e
  proof (cases "c = a")
    case True
    with e new show ?thesis by simp
  next
    case False
    show ?thesis
    proof (cases "refs B c = 0")
      case True
      then have "sharing c (add_mset b B) = {#}" using False refs_0_iff by (simp add: b_def)
      then show ?thesis by (intro shared_okI [of e "d_dirtyEnd e" 0]) auto
    next
      case nz: False
      then have "m_heap s c = Some e" using e False frame by simp
      from store_inv_block [OF inv this] False show ?thesis by (simp add: b_def)
    qed
  qed
  ultimately have "store_inv ?s (add_mset b B)" by (simp add: store_inv_def)
  moreover have "unchanged B s ?s"
    unfolding unchanged_def
  proof
    fix c assume "c \<in># B"
    then have "refs B (b_data c) \<noteq> 0" by (rule refs_mem)
    with frame ra show "contents ?s c = contents s c" by (auto simp: contents_def)
  qed
  ultimately show thesis
    using cr d by (intro that [of b ?s])
      (auto simp: Initialize_def Let_def b_def start_def contents_def bytes_of_def)
qed

lemma DestroyBuffer_inv:
  assumes inv: "store_inv s (add_mset b B)"
  obtains s' where "DestroyBuffer b s = Some s'" and "store_inv s' B" and "unchanged B s s'"
proof -
  let ?s = "s\<lparr>g_recommendedStart := max (g_recommendedStart s) (b_maxZeroAreaStart b)\<rparr>"
  have i: "store_inv ?s (add_mset b B)" using inv by simp
  obtain s' where s': "release (b_data b) ?s = Some s'" "store_inv s' B" "unchanged B ?s s'"
    using release_inv [OF i] by blast
  then show thesis by (intro that [of s']) (simp_all add: DestroyBuffer_def)
qed

lemma AssignBuffer_inv:
  assumes inv: "store_inv s (add_mset b (add_mset src B))"
  obtains s' where "AssignBuffer b src s = Some (src, s')" and "store_inv s' (add_mset src (add_mset src B))"
    and "unchanged (add_mset src B) s s'"
proof (cases "b_data b = b_data src")
  case True
  let ?s = "s\<lparr>g_recommendedStart := max (g_recommendedStart s) (b_maxZeroAreaStart b)\<rparr>"
  have "store_inv s (add_mset src (add_mset src B))"
  proof (rule store_inv_object [OF inv])
    fix d assume "shared_ok d (add_mset b (sharing (b_data b) (add_mset src B)))"
    then show "shared_ok d (add_mset src (sharing (b_data b) (add_mset src B)))"
      using True by (auto simp: shared_ok_def)
  qed (simp add: True)
  then show thesis using True by (intro that [of ?s]) (simp_all add: AssignBuffer_def)
next
  case False
  obtain s1 where s1: "release (b_data b) s = Some s1" "store_inv s1 (add_mset src B)"
    "unchanged (add_mset src B) s s1"
    using release_inv [OF inv] by blast
  obtain s2 where s2: "retain (b_data src) s1 = Some s2" "store_inv s2 (add_mset src (add_mset src B))"
    "\<And>C. unchanged C s1 s2"
    using retain_inv [OF s1(2) refl refl refl refl] by blast
  let ?s = "s2\<lparr>g_recommendedStart := max (g_recommendedStart s2) (b_maxZeroAreaStart b)\<rparr>"
  have "AssignBuffer b src s = Some (src, ?s)"
    using False s1(1) s2(1) by (simp add: AssignBuffer_def)
  with s1 s2 show thesis using unchanged_trans by (intro that [of ?s]) auto
qed

section \<open>Writing the room just made\<close>

lemma excl_sub: "excl B b p q \<Longrightarrow> p \<le> p' \<Longrightarrow> q' \<le> q \<Longrightarrow> excl B b p' q'"
  unfolding excl_def by (meson order_trans)

lemma unchanged_mem: "unchanged B s s' \<Longrightarrow> b \<in># B \<Longrightarrow> contents s' b = contents s b"
  by (simp add: unchanged_def)

text \<open>\<^verbatim>\<open>AddAtStart\<close> and a write at \<^verbatim>\<open>Begin\<close>: the bytes are put in front.\<close>

lemma prepend_inv:
  assumes inv: "store_inv s (add_mset b B)" and fresh: "allocates fresh"
  obtains b' s1 i s' where "AddAtStart fresh (length bs) b s = Some (b', s1)"
    and "store_inv s1 (add_mset b' B)" and "unchanged B s s1"
    and "Iter_Write bs (Buffer_Begin b') s1 = Some (i, s')" and "store_inv s' (add_mset b' B)"
    and "unchanged B s s'" and "contents s' b' = bs @ contents s b" and "zeros b' = zeros b"
    and "b_zeroAreaStart b' - b_start b' = length bs + (b_zeroAreaStart b - b_start b)"
    and "b_end b' - b_zeroAreaEnd b' = b_end b - b_zeroAreaEnd b"
    and "b_start b' \<le> b_zeroAreaStart b'"
proof -
  obtain b' s1 room where a: "AddAtStart fresh (length bs) b s = Some (b', s1)" "store_inv s1 (add_mset b' B)"
    "unchanged B s s1" "contents s1 b' = room @ contents s b" "length room = length bs"
    "excl B b' (b_start b') (b_start b' + length bs)" "zeros b' = zeros b"
    "b_start b' + length bs \<le> b_zeroAreaStart b'"
    "b_zeroAreaStart b' - b_start b' = length bs + (b_zeroAreaStart b - b_start b)"
    "b_end b' - b_zeroAreaEnd b' = b_end b - b_zeroAreaEnd b"
    using AddAtStart_inv [OF inv fresh] by metis
  have k: "0 + length bs \<le> b_zeroAreaStart b' - b_start b'" using a(8) by simp
  have ex: "excl B b' (b_start b' + 0) (b_start b' + 0 + length bs)" using a(6) by simp
  obtain s2 where w: "store (b_data b') (b_start b' + 0) bs s1 = Some s2" "store_inv s2 (add_mset b' B)"
    "unchanged B s1 s2" "contents s2 b' = splice 0 bs (contents s1 b')"
    using write_before_zeros [OF a(2) k ex] by blast
  have "Iter_Write bs (Buffer_Begin b') s1 =
      Some ((Buffer_Begin b')\<lparr>i_current := b_start b' + length bs\<rparr>, s2)"
    using w(1) a(8) by (simp add: Iter_Write_def Buffer_Begin_def Construct_def)
  moreover have "contents s2 b' = bs @ contents s b"
    using w(4) a(4,5) by (simp add: splice_def)
  moreover have "unchanged B s s2" using unchanged_trans [OF a(3) w(3)] .
  ultimately show thesis using a w(2) by (intro that [of b' s1 _ s2]) simp_all
qed

text \<open>A write at \<open>k\<close> bytes into the part after the zero area, as \<^verbatim>\<open>Write (const uint8_t*, uint32_t)\<close> addresses it.\<close>

lemma Iter_Write_after:
  assumes "b_zeroAreaStart b \<le> b_zeroAreaEnd b" and "i_current i = b_zeroAreaEnd b + k"
    and "i_zeroStart i = b_zeroAreaStart b" "i_zeroEnd i = b_zeroAreaEnd b" "i_data i = b_data b"
    and "store (b_data b) (b_zeroAreaStart b + k) bs s = Some s'"
  shows "Iter_Write bs i s = Some (i\<lparr>i_current := i_current i + length bs\<rparr>, s')"
proof -
  have "(if i_current i \<le> i_zeroStart i then i_current i else i_current i - (i_zeroEnd i - i_zeroStart i)) =
      b_zeroAreaStart b + k"
    using assms(1-4) by auto
  with assms(5,6) show ?thesis by (simp add: Iter_Write_def)
qed

text \<open>\<^verbatim>\<open>AddAtEnd\<close> and a write at \<open>End () - n\<close>: the bytes are put behind.\<close>

lemma append_inv:
  assumes inv: "store_inv s (add_mset b B)" and fresh: "allocates fresh"
  obtains b' s1 i s' where "AddAtEnd fresh (length bs) b s = Some (b', s1)"
    and "store_inv s1 (add_mset b' B)" and "unchanged B s s1"
    and "Iter_Write bs (Iter_Prev (length bs) (Buffer_End b')) s1 = Some (i, s')"
    and "store_inv s' (add_mset b' B)" and "unchanged B s s'" and "contents s' b' = contents s b @ bs"
    and "zeros b' = zeros b"
proof -
  let ?n = "length bs"
  obtain b' s1 room where a: "AddAtEnd fresh ?n b s = Some (b', s1)" "store_inv s1 (add_mset b' B)"
    "unchanged B s s1" "contents s1 b' = contents s b @ room" "length room = ?n"
    "excl B b' (GetInternalEnd b' - ?n) (GetInternalEnd b')" "zeros b' = zeros b"
    "b_zeroAreaStart b' - b_start b' = b_zeroAreaStart b - b_start b"
    "b_end b' - b_zeroAreaEnd b' = ?n + (b_end b - b_zeroAreaEnd b)"
    using AddAtEnd_inv [OF inv fresh] by metis
  define k where "k = b_end b - b_zeroAreaEnd b"
  obtain d where "m_heap s1 (b_data b') = Some d" "fits d b'" using a(2) by (rule store_invD)
  then have f: "b_start b' \<le> b_zeroAreaStart b'" "b_zeroAreaStart b' \<le> b_zeroAreaEnd b'"
    "b_zeroAreaEnd b' \<le> b_end b'" by (simp_all add: fits_def)
  have en: "b_end b' = b_zeroAreaEnd b' + (?n + k)" using a(9) f by (simp add: k_def)
  then have ie: "GetInternalEnd b' = b_zeroAreaStart b' + (?n + k)" using f by (simp add: GetInternalEnd_def)
  have kn: "k + ?n \<le> b_end b' - b_zeroAreaEnd b'" using en by simp
  have ex: "excl B b' (b_zeroAreaStart b' + k) (b_zeroAreaStart b' + k + ?n)"
    using a(6) unfolding ie by (simp add: add.commute add.left_commute)
  obtain s2 where w: "store (b_data b') (b_zeroAreaStart b' + k) bs s1 = Some s2" "store_inv s2 (add_mset b' B)"
    "unchanged B s1 s2" "contents s2 b' = splice (b_zeroAreaEnd b' - b_start b' + k) bs (contents s1 b')"
    using write_after_zeros [OF a(2) kn ex] by blast
  have "length (contents s1 b') = b_end b' - b_start b'"
    using length_contents [OF a(2)] by (simp add: Buffer_GetSize_def)
  then have "length (contents s b) = b_zeroAreaEnd b' - b_start b' + k"
    using a(4,5) en f by simp
  then have c: "contents s2 b' = contents s b @ bs"
    using w(4) a(4,5) by (simp add: splice_def)
  show thesis
  proof (rule that [OF a(1-3) _ w(2) unchanged_trans [OF a(3) w(3)] c a(7)])
    show "Iter_Write bs (Iter_Prev ?n (Buffer_End b')) s1 =
        Some ((Iter_Prev ?n (Buffer_End b'))\<lparr>i_current := i_current (Iter_Prev ?n (Buffer_End b')) + ?n\<rparr>, s2)"
      using f(2) _ _ _ _ w(1)
      by (rule Iter_Write_after) (simp_all add: Iter_Prev_def Buffer_End_def Construct_def en)
  qed
qed

section \<open>Reading the bytes of an object out of its block\<close>

lemma store_inv_mem:
  assumes "store_inv s B" and "b \<in># B"
  obtains d where "m_heap s (b_data b) = Some d" and "fits d b"
proof -
  obtain C where "B = add_mset b C" using assms(2) by (metis insert_DiffM)
  then show thesis using assms(1) store_invD that by blast
qed

lemma load_head:
  assumes "store_inv s B" and "b \<in># B"
  shows "load (b_data b) (b_start b) (b_zeroAreaStart b - b_start b) s =
    Some (take (b_zeroAreaStart b - b_start b) (contents s b))"
proof -
  obtain d where d: "m_heap s (b_data b) = Some d" "fits d b" using assms by (rule store_inv_mem)
  have len: "length (part (b_start b) (b_zeroAreaStart b - b_start b) (d_bytes d)) = b_zeroAreaStart b - b_start b"
    using d(2) by (intro length_part) (auto simp: fits_def GetInternalEnd_def)
  show ?thesis
    using d load_some [OF d(1), of "b_start b" "b_zeroAreaStart b - b_start b"] len
    by (auto simp: contents_def bytes_of_def fits_def GetInternalEnd_def)
qed

lemma load_tail:
  assumes "store_inv s B" and "b \<in># B"
  shows "load (b_data b) (b_zeroAreaStart b) (b_end b - b_zeroAreaEnd b) s =
    Some (drop (b_zeroAreaEnd b - b_start b) (contents s b))"
proof -
  obtain d where d: "m_heap s (b_data b) = Some d" "fits d b" using assms by (rule store_inv_mem)
  have "length (part (b_start b) (b_zeroAreaStart b - b_start b) (d_bytes d) @ replicate (zeros b) (0 :: u8)) =
      b_zeroAreaEnd b - b_start b"
    using d(2) by (auto simp: fits_def GetInternalEnd_def)
  then have "drop (b_zeroAreaEnd b - b_start b) (contents s b) =
      part (b_zeroAreaStart b) (b_end b - b_zeroAreaEnd b) (d_bytes d)"
    using d(1) unfolding contents_def bytes_of_def by (simp flip: append_assoc)
  with d show ?thesis
    by (intro trans [OF load_some [OF d(1)]]) (auto simp: fits_def GetInternalEnd_def)
qed

lemma contents_split:
  assumes "store_inv s B" and "b \<in># B"
  shows "contents s b = take (b_zeroAreaStart b - b_start b) (contents s b) @ replicate (zeros b) 0 @
    drop (b_zeroAreaEnd b - b_start b) (contents s b)"
proof -
  obtain d where d: "m_heap s (b_data b) = Some d" "fits d b" using assms by (rule store_inv_mem)
  have len: "length (part (b_start b) (b_zeroAreaStart b - b_start b) (d_bytes d)) = b_zeroAreaStart b - b_start b"
    using d(2) by (intro length_part) (auto simp: fits_def GetInternalEnd_def)
  moreover have "b_zeroAreaEnd b - b_start b = b_zeroAreaStart b - b_start b + zeros b"
    using d(2) by (auto simp: fits_def)
  ultimately show ?thesis using d(1) unfolding contents_def bytes_of_def by simp
qed

section \<open>Full copies\<close>

lemma CreateFullCopy_inv:
  assumes inv: "store_inv s (add_mset b B)" and fresh: "allocates fresh"
  obtains t s' where "CreateFullCopy fresh b s = Some (t, s')" and "store_inv s' (add_mset t (add_mset b B))"
    and "unchanged (add_mset b B) s s'" and "contents s' t = contents s b" and "zeros t = 0"
proof (cases "zeros b = 0")
  case True
  obtain t s' where "CopyBuffer b s = Some (t, s')" "store_inv s' (add_mset t (add_mset b B))"
    "contents s' t = contents s b" "unchanged (add_mset b B) s s'" "zeros t = zeros b"
    using CopyBuffer_inv [OF inv] by metis
  with True show thesis by (intro that [of t s']) (simp_all add: CreateFullCopy_def)
next
  case False
  let ?B = "add_mset b B" and ?z = "zeros b" and ?u = "b_zeroAreaStart b - b_start b"
  have b: "b \<in># ?B" by simp
  obtain t0 s0 where i: "Initialize fresh 0 s = Some (t0, s0)" "store_inv s0 (add_mset t0 ?B)" "unchanged ?B s s0"
    "contents s0 t0 = replicate 0 0" "zeros t0 = 0"
    using Initialize_inv [OF inv fresh, of 0] by metis
  let ?zs = "replicate ?z (0 :: u8)"
  obtain t1 s1' i1 s1 where p1: "AddAtStart fresh (length ?zs) t0 s0 = Some (t1, s1')"
    "Iter_Write ?zs (Buffer_Begin t1) s1' = Some (i1, s1)" "store_inv s1 (add_mset t1 ?B)" "unchanged ?B s0 s1"
    "contents s1 t1 = ?zs @ contents s0 t0" "zeros t1 = zeros t0"
    using prepend_inv [OF i(2) fresh, of ?zs] by metis
  have c1: "contents s1 b = contents s b"
    using unchanged_mem [OF unchanged_trans [OF i(3) p1(4)] b] .
  let ?hd = "take ?u (contents s b)" and ?tl = "drop (b_zeroAreaEnd b - b_start b) (contents s b)"
  have lenb: "length (contents s b) = b_end b - b_start b"
    using length_contents [OF inv] by (simp add: Buffer_GetSize_def)
  obtain d where "m_heap s (b_data b) = Some d" "fits d b" using inv by (rule store_invD)
  then have f: "b_start b \<le> b_zeroAreaStart b" "b_zeroAreaStart b \<le> b_zeroAreaEnd b" "b_zeroAreaEnd b \<le> b_end b"
    by (simp_all add: fits_def)
  have lens: "length ?hd = ?u" "length ?tl = b_end b - b_zeroAreaEnd b" using lenb f by simp_all
  obtain t2 s2' i2 s2 where p2: "AddAtStart fresh (length ?hd) t1 s1 = Some (t2, s2')"
    "store_inv s2' (add_mset t2 ?B)" "unchanged ?B s1 s2'"
    "Iter_Write ?hd (Buffer_Begin t2) s2' = Some (i2, s2)" "store_inv s2 (add_mset t2 ?B)" "unchanged ?B s1 s2"
    "contents s2 t2 = ?hd @ contents s1 t1" "zeros t2 = zeros t1"
    using prepend_inv [OF p1(3) fresh, of ?hd] by metis
  have l2: "load (b_data b) (b_start b) ?u s2' = Some ?hd"
    using load_head [OF p2(2), of b] unchanged_mem [OF p2(3) b] c1 by simp
  obtain t3 s3' i3 s3 where p3: "AddAtEnd fresh (length ?tl) t2 s2 = Some (t3, s3')"
    "store_inv s3' (add_mset t3 ?B)" "unchanged ?B s2 s3'"
    "Iter_Write ?tl (Iter_Prev (length ?tl) (Buffer_End t3)) s3' = Some (i3, s3)" "store_inv s3 (add_mset t3 ?B)"
    "unchanged ?B s2 s3" "contents s3 t3 = contents s2 t2 @ ?tl" "zeros t3 = zeros t2"
    using append_inv [OF p2(5) fresh, of ?tl] by metis
  have l3: "load (b_data b) (b_zeroAreaStart b) (b_end b - b_zeroAreaEnd b) s3' = Some ?tl"
    using load_tail [OF p3(2), of b] unchanged_mem [OF p3(3) b] unchanged_mem [OF p2(6) b] c1 by simp
  have "contents s3 t3 = contents s b"
    using contents_split [OF inv b] p3(7) p2(7) p1(5) i(4) by simp
  moreover have "unchanged ?B s s3"
    using unchanged_trans [OF unchanged_trans [OF unchanged_trans [OF i(3) p1(4)] p2(6)] p3(6)] .
  moreover have "CreateFullCopy fresh b s = Some (t3, s3)"
    using False i(1) p1(1,2) p2(1,4) p3(1,4) l2 l3
    unfolding CreateFullCopy_def lens length_replicate Iter_WriteU8s_def by (simp add: Let_def)
  ultimately show thesis using p3 p2 p1 i by (intro that [of t3 s3]) simp_all
qed

lemma TransformIntoRealBuffer_inv:
  assumes inv: "store_inv s (add_mset b B)" and fresh: "allocates fresh"
  obtains b' s' where "TransformIntoRealBuffer fresh b s = Some (b', s')" and "store_inv s' (add_mset b' B)"
    and "unchanged B s s'" and "contents s' b' = contents s b" and "zeros b' = 0"
proof -
  obtain t s1 where c: "CreateFullCopy fresh b s = Some (t, s1)" "store_inv s1 (add_mset t (add_mset b B))"
    "unchanged (add_mset b B) s s1" "contents s1 t = contents s b" "zeros t = 0"
    using CreateFullCopy_inv [OF inv fresh] by metis
  have i1: "store_inv s1 (add_mset b (add_mset t B))" using c(2) by (simp add: add_mset_commute)
  obtain s2 where a: "AssignBuffer b t s1 = Some (t, s2)" "store_inv s2 (add_mset t (add_mset t B))"
    "unchanged (add_mset t B) s1 s2"
    using AssignBuffer_inv [OF i1] by blast
  obtain s3 where d: "DestroyBuffer t s2 = Some s3" "store_inv s3 (add_mset t B)" "unchanged (add_mset t B) s2 s3"
    using DestroyBuffer_inv [OF a(2)] by blast
  have "contents s3 t = contents s b"
    using a(3) d(3) c(4) by (simp add: unchanged_def)
  moreover have "unchanged B s s3" using a(3) d(3) c(3) by (simp add: unchanged_def)
  ultimately show thesis
    using c a d by (intro that [of t s3]) (simp_all add: TransformIntoRealBuffer_def)
qed

section \<open>Appending a buffer\<close>

text \<open>
  Appending one \<^verbatim>\<open>Buffer\<close> to another, copying bytes out, and the iterator operations on a real buffer as
  operations on the window of bytes the headers use.
\<close>

section \<open>Copying a range of another buffer\<close>

lemma splice_splice:
  "off + length xs + length ys \<le> length zs \<Longrightarrow>
   splice (off + length xs) ys (splice off xs zs) = splice off (xs @ ys) zs"
  by (simp add: splice_def ac_simps)

lemma Iter_Write_range_inv:
  assumes inv: "store_inv s (add_mset b B)" and src: "src \<in># B" and z0: "zeros b = 0"
    and i: "i_data i = b_data b" "i_current i = b_zeroAreaStart b + k"
    and k: "k + Buffer_GetSize src \<le> b_end b - b_zeroAreaEnd b"
    and ex: "excl B b (b_zeroAreaStart b + k) (b_zeroAreaStart b + k + Buffer_GetSize src)"
  obtains i' s' where "Iter_Write_range (Buffer_Begin src) (Buffer_End src) i s = Some (i', s')"
    and "store_inv s' (add_mset b B)" and "unchanged B s s'"
    and "contents s' b = splice (b_zeroAreaEnd b - b_start b + k) (contents s src) (contents s b)"
proof -
  let ?u = "b_zeroAreaStart src - b_start src" and ?z = "zeros src" and ?v = "b_end src - b_zeroAreaEnd src"
  let ?hd = "take ?u (contents s src)" and ?zs = "replicate ?z (0 :: u8)"
    and ?tl = "drop (b_zeroAreaEnd src - b_start src) (contents s src)"
  let ?m = "b_zeroAreaEnd b - b_start b"
  have srcB: "src \<in># add_mset b B" using src by simp
  obtain d where "m_heap s (b_data src) = Some d" "fits d src" using inv srcB by (rule store_inv_mem)
  then have f: "b_start src \<le> b_zeroAreaStart src" "b_zeroAreaStart src \<le> b_zeroAreaEnd src"
    "b_zeroAreaEnd src \<le> b_end src" and lsrc: "length (contents s src) = b_end src - b_start src"
    using length_bytes_of by (simp_all add: fits_def contents_def Buffer_GetSize_def)
  obtain d' where "m_heap s (b_data b) = Some d'" "fits d' b" using inv by (rule store_invD)
  then have fb: "b_start b \<le> b_zeroAreaStart b" "b_zeroAreaStart b \<le> b_zeroAreaEnd b" "b_zeroAreaEnd b \<le> b_end b"
    by (simp_all add: fits_def)
  have lens: "length ?hd = ?u" "length ?tl = ?v" "length ?zs = ?z" "Buffer_GetSize src = ?u + ?z + ?v"
    using lsrc f by (simp_all add: Buffer_GetSize_def)
  have lb: "length (contents s b) = b_end b - b_start b"
    using length_contents [OF inv] by (simp add: Buffer_GetSize_def)
  have step: "\<exists>s'. store (b_data b) (b_zeroAreaStart b + (k + j)) bs t = Some s' \<and> store_inv s' (add_mset b B) \<and>
      unchanged B t s' \<and> contents s' b = splice (?m + k + j) bs (contents t b)"
    if t: "store_inv t (add_mset b B)" and j: "j + length bs \<le> Buffer_GetSize src" for t j bs
  proof -
    have kj: "k + j + length bs \<le> b_end b - b_zeroAreaEnd b" using k j by simp
    have exj: "excl B b (b_zeroAreaStart b + (k + j)) (b_zeroAreaStart b + (k + j) + length bs)"
      using j by (intro excl_sub [OF ex]) simp_all
    from write_after_zeros [OF t kj exj] show ?thesis by (metis add.assoc)
  qed
  obtain s1 where s1: "store (b_data b) (b_zeroAreaStart b + k) ?hd s = Some s1" "store_inv s1 (add_mset b B)"
    "unchanged B s s1" "contents s1 b = splice (?m + k) ?hd (contents s b)"
    using step [OF inv, of 0 ?hd] lens by auto
  obtain s2 where s2: "store (b_data b) (b_zeroAreaStart b + (k + ?u)) ?zs s1 = Some s2"
    "store_inv s2 (add_mset b B)" "unchanged B s1 s2" "contents s2 b = splice (?m + k + ?u) ?zs (contents s1 b)"
    using step [OF s1(2), of ?u ?zs] lens by auto
  have csrc: "contents s2 src = contents s src"
    using unchanged_mem [OF unchanged_trans [OF s1(3) s2(3)] src] .
  obtain s3 where s3: "store (b_data b) (b_zeroAreaStart b + (k + (?u + ?z))) ?tl s2 = Some s3"
    "store_inv s3 (add_mset b B)" "unchanged B s2 s3"
    "contents s3 b = splice (?m + k + (?u + ?z)) ?tl (contents s2 b)"
    using step [OF s2(2), of "?u + ?z" ?tl] lens by auto
  have tl: "load (b_data src) (b_zeroAreaStart src) ?v s2 = Some ?tl"
    using load_tail [OF s2(2), of src] csrc src by simp
  have hd: "load (b_data src) (b_start src) ?u s = Some ?hd" using load_head [OF inv srcB] .
  have mins: "min (b_end src - b_start src) ?u = ?u" "min (b_end src - b_start src - ?u) ?z = ?z"
    "min (b_end src - b_start src - ?u - ?z) (b_end src - (b_start src + ?u + ?z)) = ?v"
    using f by auto
  have pos: "b_start src + ?u = b_zeroAreaStart src" "b_zeroAreaStart src + ?z = b_zeroAreaEnd src"
    using f by simp_all
  have "Iter_Write_range (Buffer_Begin src) (Buffer_End src) i s =
      Some (Iter_Next ?v (Iter_Next ?z (Iter_Next ?u i)), s3)"
    using hd tl s1(1) s2(1) s3(1) f
    by (simp add: Iter_Write_range_def Buffer_Begin_def Buffer_End_def Construct_def Iter_Next_def i mins pos
        Let_def add.assoc min_absorb2)
  moreover have "contents s3 b = splice (?m + k) (contents s src) (contents s b)"
  proof -
    have room: "?m + k + (?u + ?z + ?v) \<le> length (contents s b)" using lb k lens(4) fb by linarith
    have "contents s3 b = splice (?m + k) (?hd @ ?zs @ ?tl) (contents s b)"
      using splice_splice [of "?m + k" ?hd ?zs "contents s b"] splice_splice [of "?m + k" "?hd @ ?zs" ?tl "contents s b"]
        s3(4) s2(4) s1(4) room lens by (simp add: add.assoc)
    then show ?thesis using contents_split [OF inv srcB] by simp
  qed
  moreover have "unchanged B s s3"
    using unchanged_trans [OF unchanged_trans [OF s1(3) s2(3)] s3(3)] .
  ultimately show thesis using s3(2) by (intro that)
qed

section \<open>AddAtEnd of a buffer\<close>

text \<open>When the optimisation for adjacent zero areas applies.\<close>

definition joins_zeros :: "Buf \<Rightarrow> Buf \<Rightarrow> memory \<Rightarrow> bool" where
  "joins_zeros src b s \<longleftrightarrow>
     (case m_heap s (b_data b) of None \<Rightarrow> False | Some d \<Rightarrow>
        d_count d = 1 \<and> (b_end b = b_zeroAreaEnd b \<or> b_zeroAreaStart b = b_zeroAreaEnd b) \<and>
        b_end b = d_dirtyEnd d \<and> b_start src = b_zeroAreaStart src \<and>
        b_zeroAreaEnd src - b_zeroAreaStart src > 0)"

lemma AddAtEnd_Buffer_general:
  assumes inv: "store_inv s (add_mset b B)" and fresh: "allocates fresh" and src: "src \<in># B"
    and "\<not> joins_zeros src b s"
  obtains b' s' where "AddAtEnd_Buffer fresh src b s = Some (b', s')" and "store_inv s' (add_mset b' B)"
    and "unchanged B s s'" and "contents s' b' = contents s b @ contents s src"
proof -
  obtain d where d: "m_heap s (b_data b) = Some d" using inv by (rule store_invD)
  obtain b1 s1 where t: "TransformIntoRealBuffer fresh b s = Some (b1, s1)" "store_inv s1 (add_mset b1 B)"
    "unchanged B s s1" "contents s1 b1 = contents s b" "zeros b1 = 0"
    using TransformIntoRealBuffer_inv [OF inv fresh] by metis
  let ?n = "Buffer_GetSize src"
  obtain b2 s2 room where a: "AddAtEnd fresh ?n b1 s1 = Some (b2, s2)" "store_inv s2 (add_mset b2 B)"
    "unchanged B s1 s2" "contents s2 b2 = contents s1 b1 @ room" "length room = ?n"
    "excl B b2 (GetInternalEnd b2 - ?n) (GetInternalEnd b2)" "zeros b2 = zeros b1"
    "b_end b2 - b_zeroAreaEnd b2 = ?n + (b_end b1 - b_zeroAreaEnd b1)"
    using AddAtEnd_inv [OF t(2) fresh] by metis
  define k where "k = b_end b1 - b_zeroAreaEnd b1"
  obtain d2 where "m_heap s2 (b_data b2) = Some d2" "fits d2 b2" using a(2) by (rule store_invD)
  then have f: "b_start b2 \<le> b_zeroAreaStart b2" "b_zeroAreaStart b2 = b_zeroAreaEnd b2" "b_zeroAreaEnd b2 \<le> b_end b2"
    using a(7) t(5) by (simp_all add: fits_def)
  have en: "b_end b2 = b_zeroAreaStart b2 + k + ?n" using a(8) f by (simp add: k_def)
  have ie: "GetInternalEnd b2 = b_zeroAreaStart b2 + k + ?n" using f en by (simp add: GetInternalEnd_def)
  let ?i = "Iter_Prev ?n (Buffer_End b2)"
  have i: "i_data ?i = b_data b2" "i_current ?i = b_zeroAreaStart b2 + k"
    by (simp_all add: Iter_Prev_def Buffer_End_def Construct_def en)
  have kn: "k + ?n \<le> b_end b2 - b_zeroAreaEnd b2" using en f by simp
  have ex: "excl B b2 (b_zeroAreaStart b2 + k) (b_zeroAreaStart b2 + k + ?n)" using a(6) unfolding ie by simp
  have z2: "zeros b2 = 0" using a(7) t(5) by simp
  obtain i' s3 where w: "Iter_Write_range (Buffer_Begin src) (Buffer_End src) ?i s2 = Some (i', s3)"
    "store_inv s3 (add_mset b2 B)" "unchanged B s2 s3"
    "contents s3 b2 = splice (b_zeroAreaEnd b2 - b_start b2 + k) (contents s2 src) (contents s2 b2)"
    using Iter_Write_range_inv [OF a(2) src z2 i kn ex] by metis
  have csrc: "contents s2 src = contents s src"
    using unchanged_mem [OF unchanged_trans [OF t(3) a(3)] src] .
  have "src \<in># add_mset b B" using src by simp
  with inv obtain ds where "m_heap s (b_data src) = Some ds" "fits ds src" by (rule store_inv_mem)
  then have ls: "length (contents s src) = ?n" by (simp add: contents_def length_bytes_of)
  have "length (contents s2 b2) = b_end b2 - b_start b2"
    using length_contents [OF a(2)] by (simp add: Buffer_GetSize_def)
  then have "length (contents s1 b1) = b_zeroAreaEnd b2 - b_start b2 + k"
    using a(4,5) en f by simp
  then have "contents s3 b2 = contents s b @ contents s src"
    using w(4) a(4,5) t(4) csrc ls by (simp add: splice_def)
  moreover have "unchanged B s s3"
    using unchanged_trans [OF unchanged_trans [OF t(3) a(3)] w(3)] .
  moreover have "AddAtEnd_Buffer fresh src b s = Some (b2, s3)"
    using assms(4) d t(1) a(1) w(1) by (auto simp: AddAtEnd_Buffer_def joins_zeros_def Let_def)
  ultimately show thesis using w(2) by (intro that)
qed

lemma Iter_Write_range_empty:
  assumes "i_current start = i_current end" "m_heap s (i_data start) = Some d" "m_heap s (i_data i) = Some e"
  shows "Iter_Write_range start end i s = Some (i, s)"
proof -
  have "(m_heap s)(i_data i \<mapsto> e) = m_heap s" using assms(3) by (simp add: fun_upd_idem)
  then have st: "store (i_data i) off [] s = Some s" for off
    using assms(3) by (simp add: store_def splice_def put_data_def)
  have "load (i_data start) off 0 s = Some []" for off using assms(2) by (simp add: load_def)
  with st show ?thesis using assms(1) by (simp add: Iter_Write_range_def Iter_Next_def)
qed

text \<open>The object after the two zero areas were joined, and the block it then has.\<close>

definition joined :: "Buf \<Rightarrow> Buf \<Rightarrow> Buf" where
  "joined src b =
     (let b = (if b_zeroAreaStart b = b_zeroAreaEnd b then b\<lparr>b_zeroAreaStart := b_end b\<rparr> else b);
          z = b_zeroAreaEnd src - b_zeroAreaStart src
      in b\<lparr>b_zeroAreaEnd := b_end b + z, b_end := b_end b + z\<rparr>)"

lemma joined_inv:
  assumes inv: "store_inv s (add_mset b B)" and d: "m_heap s (b_data b) = Some d" and j: "joins_zeros src b s"
  defines "s' \<equiv> put_data (b_data b) (d\<lparr>d_dirtyEnd := b_zeroAreaEnd (joined src b)\<rparr>) s"
  shows "store_inv s' (add_mset (joined src b) B)" and "unchanged B s s'"
    and "contents s' (joined src b) = contents s b @ replicate (zeros src) 0"
    and "GetInternalEnd (joined src b) = GetInternalEnd b" and "b_data (joined src b) = b_data b"
proof -
  obtain d' where "m_heap s (b_data b) = Some d'" "fits d' b" "d_count d' = Suc (size (sharing (b_data b) B))"
    using inv by (rule store_invD)
  then have f: "fits d b" and none: "sharing (b_data b) B = {#}"
    using d j by (auto simp: joins_zeros_def)
  have e: "b_end b = b_zeroAreaEnd b \<or> zeros b = 0" using j by (auto simp: joins_zeros_def split: option.splits)
  show data: "b_data (joined src b) = b_data b" by (simp add: joined_def Let_def)
  show ie: "GetInternalEnd (joined src b) = GetInternalEnd b"
    using e f by (auto simp: joined_def Let_def GetInternalEnd_def fits_def)
  have sh: "shared_ok (d\<lparr>d_dirtyEnd := b_zeroAreaEnd (joined src b)\<rparr>) {#joined src b#}"
    using f e ie by (intro shared_okI [of _ "b_zeroAreaStart (joined src b)" "zeros (joined src b)"])
      (auto simp: joined_def Let_def fits_def GetInternalEnd_def)
  show "store_inv s' (add_mset (joined src b) B)"
    unfolding s'_def by (rule store_inv_replace [OF inv d data]) (simp, unfold none, rule sh)
  show "unchanged B s s'" unfolding s'_def using d by (rule unchanged_same_bytes) simp
  have "bytes_of xs (joined src b) = bytes_of xs b @ replicate (zeros src) 0" for xs
  proof (cases "b_zeroAreaStart b = b_zeroAreaEnd b")
    case True
    have e1: "b_end b - b_start b = (b_zeroAreaStart b - b_start b) + (b_end b - b_zeroAreaEnd b)"
      and e2: "b_start b + (b_zeroAreaStart b - b_start b) = b_zeroAreaStart b"
      using f True by (auto simp: fits_def)
    have "part (b_start b) (b_end b - b_start b) xs =
        part (b_start b) (b_zeroAreaStart b - b_start b) xs @ part (b_zeroAreaStart b) (b_end b - b_zeroAreaEnd b) xs"
      by (subst e1, subst part_append, subst e2, rule refl)
    with True show ?thesis by (simp add: bytes_of_def joined_def Let_def)
  next
    case False
    then have "b_end b = b_zeroAreaEnd b" "b_zeroAreaStart b \<le> b_zeroAreaEnd b" using e f by (auto simp: fits_def)
    then have "zeros (joined src b) = zeros b + zeros src"
      using False by (simp add: joined_def Let_def)
    with False \<open>b_end b = b_zeroAreaEnd b\<close> show ?thesis
      by (simp add: bytes_of_def joined_def Let_def replicate_add)
  qed
  then show "contents s' (joined src b) = contents s b @ replicate (zeros src) 0"
    using d data by (simp add: contents_def s'_def)
qed

lemma AddAtEnd_Buffer_joins:
  assumes d: "m_heap s (b_data b) = Some d" and j: "joins_zeros src b s"
  shows "AddAtEnd_Buffer fresh src b s = do {
    (b, s) \<leftarrow> AddAtEnd fresh (b_end src - b_zeroAreaEnd src) (joined src b)
       (put_data (b_data b) (d\<lparr>d_dirtyEnd := b_zeroAreaEnd (joined src b)\<rparr>) s);
    (dst, s) \<leftarrow> Iter_Write_range (Iter_Prev (b_end src - b_zeroAreaEnd src) (Buffer_End src)) (Buffer_End src)
       (Iter_Prev (b_end src - b_zeroAreaEnd src) (Buffer_End b)) s;
    Some (b, s) }"
  using d j by (auto simp: AddAtEnd_Buffer_def joins_zeros_def joined_def Let_def)

text \<open>A buffer of zeros alone is joined.\<close>

lemma AddAtEnd_Buffer_zeros:
  assumes inv: "store_inv s (add_mset b B)" and fresh: "allocates fresh" and src: "src \<in># B"
    and j: "joins_zeros src b s" and v: "b_end src = b_zeroAreaEnd src"
  obtains b' s' where "AddAtEnd_Buffer fresh src b s = Some (b', s')" and "store_inv s' (add_mset b' B)"
    and "unchanged B s s'" and "contents s' b' = contents s b @ contents s src"
proof -
  obtain d where d: "m_heap s (b_data b) = Some d" using inv by (rule store_invD)
  note ji = joined_inv [OF inv d j]
  obtain b2 s2 room where a: "AddAtEnd fresh 0 (joined src b)
      (put_data (b_data b) (d\<lparr>d_dirtyEnd := b_zeroAreaEnd (joined src b)\<rparr>) s) = Some (b2, s2)"
    "store_inv s2 (add_mset b2 B)"
    "unchanged B (put_data (b_data b) (d\<lparr>d_dirtyEnd := b_zeroAreaEnd (joined src b)\<rparr>) s) s2"
    "contents s2 b2 = contents (put_data (b_data b) (d\<lparr>d_dirtyEnd := b_zeroAreaEnd (joined src b)\<rparr>) s)
       (joined src b) @ room" "length room = 0"
    using AddAtEnd_inv [OF ji(1) fresh, of 0] by metis
  have src2: "src \<in># add_mset b2 B" using src by simp
  obtain e where e: "m_heap s2 (b_data src) = Some e" using a(2) src2 by (rule store_inv_mem)
  obtain e' where e': "m_heap s2 (b_data b2) = Some e'" using a(2) by (rule store_invD)
  have w: "Iter_Write_range (Iter_Prev 0 (Buffer_End src)) (Buffer_End src) (Iter_Prev 0 (Buffer_End b2)) s2 =
      Some (Iter_Prev 0 (Buffer_End b2), s2)"
    using e e' by (intro Iter_Write_range_empty) (simp_all add: Iter_Prev_def Buffer_End_def Construct_def)
  have "src \<in># add_mset b B" using src by simp
  with inv obtain ds where ds: "m_heap s (b_data src) = Some ds" "fits ds src" by (rule store_inv_mem)
  have "b_start src = b_zeroAreaStart src" using j by (auto simp: joins_zeros_def split: option.splits)
  then have "contents s src = replicate (zeros src) 0" using ds v by (simp add: contents_def bytes_of_def)
  then have "contents s2 b2 = contents s b @ contents s src" using a(4,5) ji(3) by simp
  moreover have "AddAtEnd_Buffer fresh src b s = Some (b2, s2)"
    using AddAtEnd_Buffer_joins [OF d j, of fresh] a(1) w v by simp
  moreover have "unchanged B s s2" using unchanged_trans [OF ji(2) a(3)] .
  ultimately show thesis using a(2) by (intro that)
qed

text \<open>
  With bytes behind the zeros, the write that follows takes the position of the destination for an index of
  its block: it is off by the size of the zero area.
\<close>

lemma AddAtEnd_Buffer_outside:
  assumes inv: "store_inv s (add_mset b B)" and src: "src \<in># B" and d: "m_heap s (b_data b) = Some d"
    and j: "joins_zeros src b s" and v: "b_zeroAreaEnd src < b_end src"
    and room: "GetInternalEnd b + (b_end src - b_zeroAreaEnd src) \<le> d_size d"
    and small: "d_size d < b_end b + Buffer_GetSize src"
  shows "AddAtEnd_Buffer fresh src b s = None"
proof -
  define v where "v = b_end src - b_zeroAreaEnd src"
  let ?s = "put_data (b_data b) (d\<lparr>d_dirtyEnd := b_zeroAreaEnd (joined src b)\<rparr>) s"
  note ji = joined_inv [OF inv d j]
  have cnt: "d_count d = 1" and st: "b_start src = b_zeroAreaStart src"
    using d j by (simp_all add: joins_zeros_def)
  have je: "b_end (joined src b) = b_end b + zeros src" by (simp add: joined_def Let_def)
  define b2 s2 where "b2 = raise_maxZero ((joined src b)\<lparr>b_end := b_end (joined src b) + v\<rparr>)"
    and "s2 = put_data (b_data b) (d\<lparr>d_dirtyEnd := b_end (joined src b) + v\<rparr>) s"
  have a: "AddAtEnd fresh v (joined src b) ?s = Some (b2, s2)"
    using cnt room ji(4,5) by (simp add: AddAtEnd_def Let_def v_def b2_def s2_def put_data_def)
  have "src \<in># add_mset b B" using src by simp
  with inv obtain ds where ds: "m_heap s (b_data src) = Some ds" "fits ds src" by (rule store_inv_mem)
  have f: "b_zeroAreaStart src \<le> b_zeroAreaEnd src" using ds(2) by (simp add: fits_def)
  have vpos: "0 < v" using v by (simp add: v_def)
  let ?i = "Iter_Prev v (Buffer_End b2)"
  have i: "i_data ?i = b_data b" "i_current ?i = b_end b + zeros src"
    by (simp_all add: Iter_Prev_def Buffer_End_def Construct_def b2_def ji(5) je)
  have dsz: "m_heap s2 (b_data b) = Some (d\<lparr>d_dirtyEnd := b_end (joined src b) + v\<rparr>)" by (simp add: s2_def)
  have bad: "store (b_data b) (b_end b + zeros src) bs s2 = None" if "length bs = v" for bs
    using that dsz small vpos st f v by (auto simp: store_def Buffer_GetSize_def v_def)
  have cur: "i_current (Iter_Prev v (Buffer_End src)) = b_zeroAreaEnd src"
    using v by (simp add: Iter_Prev_def Buffer_End_def Construct_def v_def)
  have "store (b_data b) (b_end b + zeros src) [] s2 = Some s2"
    using dsz by (auto simp: store_def splice_def put_data_def s2_def)
  moreover have zp: "b_zeroAreaStart src < b_zeroAreaEnd src" using d j by (simp add: joins_zeros_def)
  moreover have ve: "b_end src - b_zeroAreaEnd src = v" by (simp add: v_def)
  moreover have "length bs = v" if "load (b_data src) off v t = Some bs" for bs off t
    using that vpos by (auto simp: load_def split: if_splits option.splits bind_splits)
  ultimately have "Iter_Write_range (Iter_Prev v (Buffer_End src)) (Buffer_End src) ?i s2 = None"
    using i cur f bad vpos
    by (cases "load (b_data src) (b_zeroAreaStart src) v s2")
       (simp_all add: Iter_Write_range_def Buffer_End_def Construct_def Iter_Next_def Iter_Prev_def Let_def)
  with a show ?thesis
    using AddAtEnd_Buffer_joins [OF d j, of fresh] by (simp add: v_def)
qed

end
