(* ===== verification/Buffer_Serial.thy ===== *)
theory Buffer_Serial
  imports Buffer_Copy
begin

text \<open>
  \<^verbatim>\<open>Buffer::Serialize\<close> and \<^verbatim>\<open>Deserialize\<close> (\<^verbatim>\<open>network/model/buffer.cc\<close>), which carry a packet between the
  processes of a distributed simulation, the readers of \<^verbatim>\<open>Buffer::Iterator\<close> over a block, and the round trip.
  The 32-bit words are little-endian, as on the hosts the code runs on.
\<close>

section \<open>Serialisation\<close>

text \<open>\<^verbatim>\<open>(n + 3) & ~3\<close>\<close>

definition align4 :: "nat \<Rightarrow> nat" where
  "align4 n = (n + 3) div 4 * 4"

definition GetSerializedSize :: "Buf \<Rightarrow> nat" where
  "GetSerializedSize b =
     (let dataStart = align4 (b_zeroAreaStart b - b_start b);
          dataEnd = align4 (b_end b - b_zeroAreaEnd b)
      in 4 + 4 + dataStart + 4 + dataEnd)"

text \<open>Stores through \<^verbatim>\<open>p\<close> into the caller's memory \<open>out\<close>, and loads through it.\<close>

definition put_bytes :: "nat \<Rightarrow> u8 list \<Rightarrow> u8 list \<Rightarrow> u8 list option" where
  "put_bytes p bs out = (if bs = [] \<or> p + length bs \<le> length out then Some (splice p bs out) else None)"

definition put32 :: "nat \<Rightarrow> nat \<Rightarrow> u8 list \<Rightarrow> u8 list option" where
  "put32 p n out = put_bytes p (le_bytes 4 (of_nat n :: u32)) out"

definition get_bytes :: "nat \<Rightarrow> nat \<Rightarrow> u8 list \<Rightarrow> u8 list option" where
  "get_bytes p n inp = (if n = 0 \<or> p + n \<le> length inp then Some (take n (drop p inp)) else None)"

definition get32 :: "nat \<Rightarrow> u8 list \<Rightarrow> nat option" where
  "get32 p inp = do {
     (v, _) \<leftarrow> ReadU32 (Begin (drop p inp));
     Some (unat v) }"

definition Buffer_Serialize :: "Buf \<Rightarrow> memory \<Rightarrow> u8 list \<Rightarrow> nat \<Rightarrow> (nat \<times> u8 list) option" where
  "Buffer_Serialize b s out maxSize =
     (let sz = 0; p = 0 in
      if sz + 4 \<le> maxSize then do {
        let sz = sz + 4;
        out \<leftarrow> put32 p (b_zeroAreaEnd b - b_zeroAreaStart b) out;
        let p = p + 4;
        let dataStartLength = b_zeroAreaStart b - b_start b;
        if sz + 4 \<le> maxSize then do {
          let sz = sz + 4;
          out \<leftarrow> put32 p dataStartLength out;
          let p = p + 4;
          if sz + align4 dataStartLength \<le> maxSize then do {
            let sz = sz + align4 dataStartLength;
            bytes \<leftarrow> load (b_data b) (b_start b) dataStartLength s;
            out \<leftarrow> put_bytes p bytes out;
            let p = p + align4 dataStartLength;
            let dataEndLength = b_end b - b_zeroAreaEnd b;
            if sz + 4 \<le> maxSize then do {
              let sz = sz + 4;
              out \<leftarrow> put32 p dataEndLength out;
              let p = p + 4;
              if sz + align4 dataEndLength \<le> maxSize then do {
                bytes \<leftarrow> load (b_data b) (b_zeroAreaStart b) dataEndLength s;
                out \<leftarrow> put_bytes p bytes out;
                Some (1, out) }
              else Some (0, out) }
            else Some (0, out) }
          else Some (0, out) }
        else Some (0, out) }
      else Some (0, out))"

text \<open>\<^verbatim>\<open>Deserialize\<close> of an object that holds no block yet; the assertions are compiled out.\<close>

definition Buffer_Deserialize :: "(nat \<Rightarrow> u8 list) \<Rightarrow> u8 list \<Rightarrow> u32 \<Rightarrow> memory \<Rightarrow> (nat \<times> Buf \<times> memory) option" where
  "Buffer_Deserialize fresh inp sz s = do {
     let sizeCheck = sz - 4;
     let p = 0;
     zeroDataLength \<leftarrow> get32 p inp;
     let p = p + 4;
     let sizeCheck = sizeCheck - 4;
     (b, s) \<leftarrow> Initialize fresh zeroDataLength s;
     dataStartLength \<leftarrow> get32 p inp;
     let p = p + 4;
     let sizeCheck = sizeCheck - 4;
     (b, s) \<leftarrow> AddAtStart fresh dataStartLength b s;
     bytes \<leftarrow> get_bytes p dataStartLength inp;
     (i, s) \<leftarrow> Iter_Write bytes (Buffer_Begin b) s;
     let p = p + align4 dataStartLength;
     let sizeCheck = sizeCheck - of_nat (align4 dataStartLength);
     dataEndLength \<leftarrow> get32 p inp;
     let p = p + 4;
     let sizeCheck = sizeCheck - 4;
     (b, s) \<leftarrow> AddAtEnd fresh dataEndLength b s;
     bytes \<leftarrow> get_bytes p dataEndLength inp;
     (i, s) \<leftarrow> Iter_Write bytes (Iter_Prev dataEndLength (Buffer_End b)) s;
     let sizeCheck = sizeCheck - of_nat (align4 dataEndLength);
     Some (if sizeCheck \<noteq> 0 then 0 else 1, b, s) }"

section \<open>What is written where\<close>

lemma align4_bounds: "n \<le> align4 n" "align4 n < n + 4"
  unfolding align4_def by presburger+

lemma put_bytes_at:
  assumes "length pre = p" and "length bs \<le> length rest"
  shows "put_bytes p bs (pre @ rest) = Some (pre @ bs @ drop (length bs) rest)"
  using assms by (auto simp: put_bytes_def splice_def)

lemma put32_at:
  assumes "length pre = p" and "4 \<le> length rest"
  shows "put32 p n (pre @ rest) = Some (pre @ le_bytes 4 (of_nat n :: u32) @ drop 4 rest)"
  using put_bytes_at [OF assms(1), of "le_bytes 4 (of_nat n :: u32)" rest] assms(2) by (simp add: put32_def)

lemma get32_at:
  assumes "length pre = p" and "n < 2 ^ 32"
  shows "get32 p (pre @ le_bytes 4 (of_nat n :: u32) @ suf) = Some n"
  using assms Read_le(2) [of "[]" "of_nat n" suf] by (simp add: get32_def Begin_def unat_of_nat)

lemma get_bytes_at:
  assumes "length pre = p" and "length bs = n"
  shows "get_bytes p n (pre @ bs @ suf) = Some bs"
  using assms by (auto simp: get_bytes_def)

lemma Serialize_layout:
  assumes inv: "store_inv s B" and b: "b \<in># B" and room: "GetSerializedSize b \<le> length out"
    and size: "GetSerializedSize b \<le> maxSize"
  obtains g1 g2 where "Buffer_Serialize b s out maxSize = Some (1,
      le_bytes 4 (of_nat (zeros b) :: u32) @ le_bytes 4 (of_nat (b_zeroAreaStart b - b_start b) :: u32) @
      take (b_zeroAreaStart b - b_start b) (contents s b) @ g1 @
      le_bytes 4 (of_nat (b_end b - b_zeroAreaEnd b) :: u32) @
      drop (b_zeroAreaEnd b - b_start b) (contents s b) @ g2)"
    and "b_zeroAreaStart b - b_start b + length g1 = align4 (b_zeroAreaStart b - b_start b)"
proof -
  define u v where "u = b_zeroAreaStart b - b_start b" and "v = b_end b - b_zeroAreaEnd b"
  define hd tl where "hd = take u (contents s b)" and "tl = drop (b_zeroAreaEnd b - b_start b) (contents s b)"
  obtain d where d: "m_heap s (b_data b) = Some d" "fits d b" using inv b by (rule store_inv_mem)
  then have len: "length (contents s b) = b_end b - b_start b"
    using length_bytes_of [OF d(2)] by (simp add: contents_def Buffer_GetSize_def)
  have lens: "length hd = u" "length tl = v"
    using d(2) len by (auto simp: hd_def tl_def u_def v_def fits_def)
  let ?w = "\<lambda>n. le_bytes 4 (of_nat n :: u32)"
  have sz: "12 + align4 u + align4 v \<le> length out" "12 + align4 u + align4 v \<le> maxSize"
    using room size by (simp_all add: GetSerializedSize_def u_def v_def Let_def)
  let ?r1 = "drop 4 out" let ?r2 = "drop 4 ?r1" let ?r3 = "drop u ?r2"
  let ?g1 = "take (align4 u - u) ?r3" let ?r4 = "drop (align4 u - u) ?r3"
  let ?p = "?w (zeros b) @ ?w u @ hd @ ?g1"
  note al = align4_bounds [of u] align4_bounds [of v]
  have g1: "u + length ?g1 = align4 u" using sz al by simp
  have s1: "put32 0 (zeros b) out = Some (?w (zeros b) @ ?r1)"
    using put32_at [of "[]" 0 out "zeros b"] sz by simp
  have s2: "put32 4 u (?w (zeros b) @ ?r1) = Some (?w (zeros b) @ ?w u @ ?r2)"
    using put32_at [of "?w (zeros b)" 4 ?r1 u] sz by simp
  have "put_bytes 8 hd ((?w (zeros b) @ ?w u) @ ?r2) = Some ((?w (zeros b) @ ?w u) @ hd @ drop (length hd) ?r2)"
    using sz lens al by (intro put_bytes_at) simp_all
  then have s3: "put_bytes 8 hd (?w (zeros b) @ ?w u @ ?r2) = Some (?p @ ?r4)"
    by (simp only: append_assoc append_take_drop_id lens)
  have lp: "length ?p = 8 + align4 u" using g1 lens by simp
  have s4: "put32 (8 + align4 u) v (?p @ ?r4) = Some (?p @ ?w v @ drop 4 ?r4)"
    using sz al by (intro put32_at [OF lp]) simp
  have s5: "put_bytes (8 + align4 u + 4) tl ((?p @ ?w v) @ drop 4 ?r4) =
      Some ((?p @ ?w v) @ tl @ drop (length tl) (drop 4 ?r4))"
    using sz al lens lp by (intro put_bytes_at) simp_all
  have l1: "load (b_data b) (b_start b) u s = Some hd" and l2: "load (b_data b) (b_zeroAreaStart b) v s = Some tl"
    using load_head [OF inv b] load_tail [OF inv b] by (simp_all add: u_def v_def hd_def tl_def)
  have "Buffer_Serialize b s out maxSize = Some (1, (?p @ ?w v) @ tl @ drop (length tl) (drop 4 ?r4))"
    using s1 s2 s3 s4 s5 l1 l2 sz(2)
    unfolding Buffer_Serialize_def u_def [symmetric] v_def [symmetric] by (simp add: Let_def)
  then show thesis
    using g1 by (intro that [of ?g1]) (simp_all add: u_def v_def hd_def tl_def)
qed

text \<open>\<^verbatim>\<open>Packet::Deserialize\<close> passes the size it was told, which counts the word that holds it.\<close>

lemma Deserialize_Serialize:
  assumes inv: "store_inv s (add_mset b B)" and fresh: "allocates fresh"
    and room: "GetSerializedSize b \<le> length out" and size: "GetSerializedSize b \<le> maxSize"
    and small: "Buffer_GetSize b < 2 ^ 32"
  obtains out' t s' where "Buffer_Serialize b s out maxSize = Some (1, out')"
    and "Buffer_Deserialize fresh out' (of_nat (GetSerializedSize b) + 4) s = Some (1, t, s')"
    and "store_inv s' (add_mset t (add_mset b B))" and "unchanged (add_mset b B) s s'"
    and "contents s' t = contents s b"
proof -
  define u v where "u = b_zeroAreaStart b - b_start b" and "v = b_end b - b_zeroAreaEnd b"
  define hd tl where "hd = take u (contents s b)" and "tl = drop (b_zeroAreaEnd b - b_start b) (contents s b)"
  let ?B = "add_mset b B" and ?w = "\<lambda>n. le_bytes 4 (of_nat n :: u32)"
  have b: "b \<in># ?B" by simp
  obtain d where d: "m_heap s (b_data b) = Some d" "fits d b" using inv by (rule store_invD)
  have lens: "length hd = u" "length tl = v" and lt: "zeros b < 2 ^ 32" "u < 2 ^ 32" "v < 2 ^ 32"
    using d(2) length_contents [OF inv] small
    by (auto simp: hd_def tl_def u_def v_def fits_def Buffer_GetSize_def)
  obtain g1 g2 where ser: "Buffer_Serialize b s out maxSize =
      Some (1, ?w (zeros b) @ ?w u @ hd @ g1 @ ?w v @ tl @ g2)" and g1: "u + length g1 = align4 u"
    using Serialize_layout [OF inv b room size] unfolding u_def v_def hd_def tl_def by metis
  let ?o = "?w (zeros b) @ ?w u @ hd @ g1 @ ?w v @ tl @ g2"
  have r1: "get32 0 ?o = Some (zeros b)" using get32_at [of "[]" 0 "zeros b"] lt by simp
  have r2: "get32 4 ?o = Some u" using get32_at [of "?w (zeros b)" 4 u] lt by simp
  have r3: "get_bytes 8 u ?o = Some hd"
    using get_bytes_at [of "?w (zeros b) @ ?w u" 8 hd u] lens by simp
  have r4: "get32 (8 + align4 u) ?o = Some v"
    using get32_at [of "?w (zeros b) @ ?w u @ hd @ g1" "8 + align4 u" v] lens g1 lt by simp
  have r5: "get_bytes (8 + align4 u + 4) v ?o = Some tl"
    using get_bytes_at [of "?w (zeros b) @ ?w u @ hd @ g1 @ ?w v" "8 + align4 u + 4" tl v] lens g1 by simp
  obtain t0 s0 where i: "Initialize fresh (zeros b) s = Some (t0, s0)" "store_inv s0 (add_mset t0 ?B)"
    "unchanged ?B s s0" "contents s0 t0 = replicate (zeros b) 0"
    using Initialize_inv [OF inv fresh, of "zeros b"] by metis
  obtain t1 s1' i1 s1 where p1: "AddAtStart fresh (length hd) t0 s0 = Some (t1, s1')"
    "Iter_Write hd (Buffer_Begin t1) s1' = Some (i1, s1)" "store_inv s1 (add_mset t1 ?B)" "unchanged ?B s0 s1"
    "contents s1 t1 = hd @ contents s0 t0"
    using prepend_inv [OF i(2) fresh, of hd] by metis
  obtain t2 s2' i2 s2 where p2: "AddAtEnd fresh (length tl) t1 s1 = Some (t2, s2')"
    "Iter_Write tl (Iter_Prev (length tl) (Buffer_End t2)) s2' = Some (i2, s2)" "store_inv s2 (add_mset t2 ?B)"
    "unchanged ?B s1 s2" "contents s2 t2 = contents s1 t1 @ tl"
    using append_inv [OF p1(3) fresh, of tl] by metis
  have sz: "(of_nat (GetSerializedSize b) :: u32) = of_nat (align4 u) + of_nat (align4 v) + 12"
    by (simp add: GetSerializedSize_def Let_def u_def v_def)
  have "Buffer_Deserialize fresh ?o (of_nat (GetSerializedSize b) + 4) s = Some (1, t2, s2)"
    using r1 r2 r3 r4 r5 i(1) p1(1,2) p2(1,2) lens
    unfolding Buffer_Deserialize_def sz by (simp add: Let_def)
  moreover have "contents s2 t2 = contents s b"
    using contents_split [OF inv b] p2(5) p1(5) i(4) by (simp add: hd_def tl_def u_def)
  moreover have "unchanged ?B s s2" using unchanged_trans [OF unchanged_trans [OF i(3) p1(4)] p2(4)] .
  ultimately show thesis using ser p2(3) by (intro that)
qed

section \<open>Reading through an iterator\<close>

text \<open>The iterator of the header code at \<open>k\<close> bytes into the object.\<close>

definition abs_iter :: "memory \<Rightarrow> Buf \<Rightarrow> nat \<Rightarrow> Iterator" where
  "abs_iter s b k = \<lparr>it_before = take k (contents s b), it_after = drop k (contents s b)\<rparr>"

lemma Iter_PeekU8_contents:
  assumes inv: "store_inv s B" and b: "b \<in># B" and k: "k < Buffer_GetSize b"
  shows "Iter_PeekU8 (Construct b (b_start b + k)) s = Some (contents s b ! k)"
proof -
  obtain d where d: "m_heap s (b_data b) = Some d" "fits d b" using inv b by (rule store_inv_mem)
  let ?u = "b_zeroAreaStart b - b_start b"
  note f = d(2) [unfolded fits_def GetInternalEnd_def] k [unfolded Buffer_GetSize_def]
  have len: "length (part (b_start b) ?u (d_bytes d)) = ?u" using f by (intro length_part) auto
  have nth: "part p n (d_bytes d) ! j = d_bytes d ! (p + j)" if "j < n" "p + j < d_size d" for p n j
    using that by simp
  have ld: "load (b_data b) q 1 s = Some [d_bytes d ! q]" if "q < d_size d" for q
    using that d(1) by (simp add: load_some take_Suc hd_drop_conv_nth)
  consider "k < ?u" | "?u \<le> k" "k < ?u + zeros b" | "?u + zeros b \<le> k" by linarith
  then show ?thesis
  proof cases
    case 1
    then show ?thesis
      using d(1) f len ld [of "b_start b + k"]
      by (auto simp: Iter_PeekU8_def Construct_def contents_def bytes_of_def nth_append)
  next
    case 2
    then show ?thesis
      using d(1) f len by (auto simp: Iter_PeekU8_def Construct_def contents_def bytes_of_def nth_append)
  next
    case 3
    define j where "j = k - ?u - zeros b"
    have q: "b_start b + k - zeros b = b_zeroAreaStart b + j" "k = ?u + (zeros b + j)" "j < b_end b - b_zeroAreaEnd b"
      using 3 f by (auto simp: j_def)
    then have lt: "b_zeroAreaStart b + j < d_size d" using f by auto
    have "contents s b ! k = part (b_zeroAreaStart b) (b_end b - b_zeroAreaEnd b) (d_bytes d) ! j"
      unfolding contents_def bytes_of_def q(2) using d(1) len by (simp add: nth_append)
    also have "\<dots> = d_bytes d ! (b_zeroAreaStart b + j)" using q(3) lt by (rule nth)
    finally have c: "contents s b ! k = d_bytes d ! (b_zeroAreaStart b + j)" .
    have "\<not> b_start b + k < b_zeroAreaStart b" "\<not> b_start b + k < b_zeroAreaEnd b" using 3 f by auto
    then show ?thesis using ld [OF lt] c q(1) by (simp add: Iter_PeekU8_def Construct_def)
  qed
qed

lemma Iter_Read_abs:
  assumes inv: "store_inv s B" and b: "b \<in># B" and k: "k + n \<le> Buffer_GetSize b"
  shows "Iter_Read n (Construct b (b_start b + k)) s =
      Some (take n (drop k (contents s b)), Construct b (b_start b + (k + n)))"
    and "Read n (abs_iter s b k) = Some (take n (drop k (contents s b)), abs_iter s b (k + n))"
proof -
  obtain d where d: "m_heap s (b_data b) = Some d" "fits d b" using inv b by (rule store_inv_mem)
  then have len: "length (contents s b) = Buffer_GetSize b"
    using length_bytes_of [OF d(2)] by (simp add: contents_def)
  show "Iter_Read n (Construct b (b_start b + k)) s =
      Some (take n (drop k (contents s b)), Construct b (b_start b + (k + n)))"
    using k
  proof (induction n arbitrary: k)
    case 0
    then show ?case by simp
  next
    case (Suc n)
    have "Iter_ReadU8 (Construct b (b_start b + k)) s =
        Some (contents s b ! k, Construct b (b_start b + Suc k))"
      using Iter_PeekU8_contents [OF inv b, of k] Suc.prems by (simp add: Iter_ReadU8_def Construct_def)
    moreover have "drop k (contents s b) = contents s b ! k # drop (Suc k) (contents s b)"
      using Suc.prems len by (intro Cons_nth_drop_Suc [symmetric]) simp
    ultimately show ?case using Suc.IH [of "Suc k"] Suc.prems by simp
  qed
  have "Read n (abs_iter s b k) =
      Read n \<lparr>it_before = take k (contents s b),
        it_after = take n (drop k (contents s b)) @ drop (k + n) (contents s b)\<rparr>"
    by (simp add: abs_iter_def add.commute [of k n] flip: drop_drop)
  also have "\<dots> = Some (take n (drop k (contents s b)), abs_iter s b (k + n))"
    using k len by (subst Read_append) (simp_all add: abs_iter_def take_add)
  finally show "Read n (abs_iter s b k) = Some (take n (drop k (contents s b)), abs_iter s b (k + n))" .
qed

end
