(* ===== verification/Buffer_Steps.thy ===== *)
theory Buffer_Steps
  imports Buffer_Copy Buffer_Serial
begin

text \<open>
  A program over \<^verbatim>\<open>Buffer\<close> objects as a transition system: the memory with the live objects, and one step per
  public operation.  The invariant holds in every reachable state.
\<close>

section \<open>Writes of any kind keep the blocks\<close>

lemma store_write_inv:
  assumes inv: "store_inv s B" and st: "store a off bs s = Some s'"
  shows "store_inv s' B"
proof -
  obtain d where d: "m_heap s a = Some d"
    and s': "s' = put_data a (d\<lparr>d_bytes := splice off bs (d_bytes d)\<rparr>) s"
    and len: "bs = [] \<or> off + length bs \<le> d_size d"
    using st by (auto simp: store_def split: if_splits bind_splits)
  have sz: "length (splice off bs (d_bytes d)) = d_size d"
    using len by (auto simp: splice_def)
  have "heap_ok s' (refs B)"
    unfolding s' using inv d by (intro heap_ok_put_data) (simp_all add: store_inv_def)
  moreover have "shared_ok e (sharing c B)" if "m_heap s' c = Some e" for c e
  proof (cases "c = a")
    case True
    then have "e = d\<lparr>d_bytes := splice off bs (d_bytes d)\<rparr>" using that by (simp add: s')
    then have "shared_ok e (sharing c B) = shared_ok d (sharing c B)"
      using sz by (simp add: shared_ok_def fits_def)
    then show ?thesis using store_inv_block [OF inv, of c d] d True by simp
  next
    case False
    then show ?thesis using that store_inv_block [OF inv, of c e] by (simp add: s')
  qed
  ultimately show ?thesis by (simp add: store_inv_def)
qed

lemma Iter_Write_keeps: "store_inv s B \<Longrightarrow> Iter_Write bs i s = Some (i', s') \<Longrightarrow> store_inv s' B"
  by (auto simp: Iter_Write_def split: bind_splits if_splits intro: store_write_inv)

text \<open>\<open>P\<close> holds of what a computation returns, if it returns.\<close>

definition post :: "('a \<Rightarrow> bool) \<Rightarrow> 'a option \<Rightarrow> bool" where
  "post P m \<longleftrightarrow> (\<forall>x. m = Some x \<longrightarrow> P x)"

lemma post_Some [simp]: "post P (Some x) = P x"
  by (simp add: post_def)

lemma post_bind: "post Q m \<Longrightarrow> (\<And>x. Q x \<Longrightarrow> post P (f x)) \<Longrightarrow> post P (Option.bind m f)"
  by (auto simp: post_def split: bind_splits)

lemma post_load: "(\<And>x. post P (f x)) \<Longrightarrow> post P (Option.bind (load a off n s) f)"
  by (auto simp: post_def split: bind_splits)

lemma post_store: "store_inv s B \<Longrightarrow> post (\<lambda>s'. store_inv s' B) (store a off bs s)"
  by (auto simp: post_def intro: store_write_inv)

lemma Iter_Write_range_keeps:
  assumes inv: "store_inv s B" and r: "Iter_Write_range start end i s = Some (i', s')"
  shows "store_inv s' B"
proof -
  let ?Q = "\<lambda>(a :: BufIter, b :: BufIter, c :: nat, t). store_inv t B"
  have st: "post P (Option.bind (store a off bs t) f)"
    if "store_inv t B" and "\<And>t'. store_inv t' B \<Longrightarrow> post P (f t')"
    for a off bs t and P :: "'x \<Rightarrow> bool" and f
    using post_store [OF that(1)] that(2) by (rule post_bind)
  have "post (\<lambda>(i', s'). store_inv s' B) (Iter_Write_range start end i s)"
    unfolding Iter_Write_range_def Let_def
  proof (rule post_bind [of ?Q], goal_cases)
    case 1
    show ?case using inv by (auto intro!: post_load st)
  next
    case (2 x)
    then obtain a b c t where x: "x = (a, b, c, t)" and t: "store_inv t B" by (cases x) auto
    show ?case unfolding x prod.case
    proof (rule post_bind [of ?Q], goal_cases)
      case 1
      show ?case using t by (auto intro!: st)
    next
      case (2 y)
      then obtain a' b' c' t' where y: "y = (a', b', c', t')" and t': "store_inv t' B" by (cases y) auto
      show ?case unfolding y prod.case using t' by (auto intro!: post_load st)
    qed
  qed
  with r show ?thesis by (simp add: post_def)
qed

lemma AddAtEnd_Buffer_keeps:
  assumes inv: "store_inv s (add_mset b B)" and fresh: "allocates fresh" and src: "src \<in># B"
    and r: "AddAtEnd_Buffer fresh src b s = Some (b', s')"
  shows "store_inv s' (add_mset b' B)"
proof (cases "joins_zeros src b s")
  case False
  from AddAtEnd_Buffer_general [OF inv fresh src this] r show ?thesis by (metis option.inject prod.inject)
next
  case True
  obtain d where d: "m_heap s (b_data b) = Some d" using inv by (rule store_invD)
  let ?v = "b_end src - b_zeroAreaEnd src" and ?s = "put_data (b_data b) (d\<lparr>d_dirtyEnd := b_zeroAreaEnd (joined src b)\<rparr>) s"
  obtain b2 s2 where a: "AddAtEnd fresh ?v (joined src b) ?s = Some (b2, s2)" "store_inv s2 (add_mset b2 B)"
    using AddAtEnd_inv [OF joined_inv(1) [OF inv d True] fresh, of ?v] by metis
  with r show ?thesis
    by (auto simp: AddAtEnd_Buffer_joins [OF d True] split: bind_splits dest: Iter_Write_range_keeps)
qed

section \<open>Steps\<close>

inductive buffer_step :: "(nat \<Rightarrow> u8 list) \<Rightarrow> memory \<times> Buf multiset \<Rightarrow> memory \<times> Buf multiset \<Rightarrow> bool"
  for fresh where
  create: "Initialize fresh n s = Some (b, s') \<Longrightarrow> buffer_step fresh (s, B) (s', add_mset b B)"
| copy: "CopyBuffer b s = Some (b', s') \<Longrightarrow>
    buffer_step fresh (s, add_mset b B) (s', add_mset b' (add_mset b B))"
| assign: "AssignBuffer b src s = Some (b', s') \<Longrightarrow>
    buffer_step fresh (s, add_mset b (add_mset src B)) (s', add_mset b' (add_mset src B))"
| destroy: "DestroyBuffer b s = Some s' \<Longrightarrow> buffer_step fresh (s, add_mset b B) (s', B)"
| add_start: "AddAtStart fresh n b s = Some (b', s') \<Longrightarrow> buffer_step fresh (s, add_mset b B) (s', add_mset b' B)"
| add_end: "AddAtEnd fresh n b s = Some (b', s') \<Longrightarrow> buffer_step fresh (s, add_mset b B) (s', add_mset b' B)"
| append: "src \<in># B \<Longrightarrow> AddAtEnd_Buffer fresh src b s = Some (b', s') \<Longrightarrow>
    buffer_step fresh (s, add_mset b B) (s', add_mset b' B)"
| remove_start: "b_start b + n < 2 ^ 32 \<Longrightarrow>
    buffer_step fresh (s, add_mset b B) (s, add_mset (RemoveAtStart n b) B)"
| remove_end: "buffer_step fresh (s, add_mset b B) (s, add_mset (RemoveAtEnd n b) B)"
| fragment: "b_start b + n < 2 ^ 32 \<Longrightarrow> CreateFragment n len b s = Some (b', s') \<Longrightarrow>
    buffer_step fresh (s, add_mset b B) (s', add_mset b' (add_mset b B))"
| full_copy: "CreateFullCopy fresh b s = Some (b', s') \<Longrightarrow>
    buffer_step fresh (s, add_mset b B) (s', add_mset b' (add_mset b B))"
| real: "TransformIntoRealBuffer fresh b s = Some (b', s') \<Longrightarrow>
    buffer_step fresh (s, add_mset b B) (s', add_mset b' B)"
| write_bytes: "Iter_Write bs i s = Some (i', s') \<Longrightarrow> buffer_step fresh (s, B) (s', B)"
| write_range: "Iter_Write_range i j k s = Some (k', s') \<Longrightarrow> buffer_step fresh (s, B) (s', B)"

text \<open>Before \<^verbatim>\<open>main\<close>: no block and no object.\<close>

definition no_memory :: memory where
  "no_memory = \<lparr>m_heap = Map.empty, m_nextAddr = 0, g_freeList = [], g_maxSize = 0, g_recommendedStart = 0\<rparr>"

inductive buffer_reachable :: "(nat \<Rightarrow> u8 list) \<Rightarrow> memory \<times> Buf multiset \<Rightarrow> bool" for fresh where
  start: "buffer_reachable fresh (no_memory, {#})"
| step: "buffer_reachable fresh x \<Longrightarrow> buffer_step fresh x y \<Longrightarrow> buffer_reachable fresh y"

section \<open>The invariant is kept\<close>

lemma CreateFragment_inv:
  assumes inv: "store_inv s (add_mset b B)" and n: "b_start b + n < 2 ^ 32"
  obtains b' s' where "CreateFragment n len b s = Some (b', s')" and "store_inv s' (add_mset b' (add_mset b B))"
    and "unchanged (add_mset b B) s s'"
    and "contents s' b' = take (length (drop n (contents s b)) -
      wrap32 (int (Buffer_GetSize b) - int (wrap32 (int n + int len)))) (drop n (contents s b))"
proof -
  obtain t s' where c: "CopyBuffer b s = Some (t, s')" "store_inv s' (add_mset t (add_mset b B))"
    "contents s' t = contents s b" "unchanged (add_mset b B) s s'" "b_start t = b_start b"
    using CopyBuffer_inv [OF inv] by metis
  have n': "b_start t + n < 4294967296" using n c(5) by simp
  note r1 = RemoveAtStart_inv [OF c(2) n']
  let ?k = "wrap32 (int (Buffer_GetSize b) - int (wrap32 (int n + int len)))"
  note r2 = RemoveAtEnd_inv [OF r1(1), of ?k]
  show thesis
    by (rule that [OF _ r2(1) c(4)]) (simp_all add: CreateFragment_def c(1,3) r1(2) r2(2))
qed

lemma store_inv_no_memory: "store_inv no_memory {#}"
  by (simp add: store_inv_def heap_ok_def no_memory_def)

lemma buffer_step_inv:
  assumes "buffer_step fresh x y" and "allocates fresh" and "store_inv (fst x) (snd x)"
  shows "store_inv (fst y) (snd y)"
  using assms(1,3)
proof cases
  case (create n s b s' B)
  with assms(3) Initialize_inv [OF _ assms(2), of s B n] show ?thesis
    by (metis fst_conv snd_conv option.inject prod.inject)
next
  case (copy b s b' s' B)
  with assms(3) CopyBuffer_inv [of s b B] show ?thesis by (metis fst_conv snd_conv option.inject prod.inject)
next
  case (assign b src s b' s' B)
  with assms(3) AssignBuffer_inv [of s b src B] show ?thesis
    by (metis fst_conv snd_conv option.inject prod.inject)
next
  case (destroy b s s' B)
  with assms(3) DestroyBuffer_inv [of s b B] show ?thesis by (metis fst_conv snd_conv option.inject)
next
  case (add_start n b s b' s' B)
  with assms(3) AddAtStart_inv [OF _ assms(2), of s b B n] show ?thesis
    by (metis fst_conv snd_conv option.inject prod.inject)
next
  case (add_end n b s b' s' B)
  with assms(3) AddAtEnd_inv [OF _ assms(2), of s b B n] show ?thesis
    by (metis fst_conv snd_conv option.inject prod.inject)
next
  case (append src B b s b' s')
  with assms(3) AddAtEnd_Buffer_keeps [OF _ assms(2)] show ?thesis by simp
next
  case (remove_start b n s B)
  with assms(3) RemoveAtStart_inv(1) [of s b B n] show ?thesis by simp
next
  case (remove_end s b B n)
  with assms(3) RemoveAtEnd_inv(1) [of s b B n] show ?thesis by simp
next
  case (fragment b n len s b' s' B)
  with assms(3) CreateFragment_inv [of s b B n len] show ?thesis
    by (metis fst_conv snd_conv option.inject prod.inject)
next
  case (full_copy b s b' s' B)
  with assms(3) CreateFullCopy_inv [OF _ assms(2), of s b B] show ?thesis
    by (metis fst_conv snd_conv option.inject prod.inject)
next
  case (real b s b' s' B)
  with assms(3) TransformIntoRealBuffer_inv [OF _ assms(2), of s b B] show ?thesis
    by (metis fst_conv snd_conv option.inject prod.inject)
next
  case (write_bytes bs i s i' s' B)
  with assms(3) Iter_Write_keeps show ?thesis by simp
next
  case (write_range i j k s k' s' B)
  with assms(3) Iter_Write_range_keeps show ?thesis by simp
qed

lemma buffer_reachable_inv:
  assumes "buffer_reachable fresh x" and "allocates fresh"
  shows "store_inv (fst x) (snd x)"
  using assms(1) by induction (simp_all add: store_inv_no_memory buffer_step_inv [OF _ assms(2)])

lemma store_inv_CheckInternalState:
  assumes inv: "store_inv s B" and b: "b \<in># B"
  shows "CheckInternalState b s"
proof -
  obtain d where d: "m_heap s (b_data b) = Some d" "fits d b" using inv b by (rule store_inv_mem)
  have "shared_ok d (sharing (b_data b) B)" using store_inv_block [OF inv d(1)] .
  then obtain I Z where "d_dirtyEnd d = I + Z" "GetInternalEnd b \<le> I" "zeros b \<le> Z"
    using b by (auto simp: shared_ok_def)
  then have "b_end b \<le> d_dirtyEnd d" using d(2) by (auto simp: fits_def GetInternalEnd_def)
  moreover have "d_count d > 0"
    using inv d(1) refs_mem [OF b] by (auto simp: store_inv_def heap_ok_def)
  ultimately show ?thesis
    using d by (auto simp: CheckInternalState_def fits_def GetInternalEnd_def)
qed

end
