(* ===== verification/Buffer_Claims.thy ===== *)
theory Buffer_Claims
  imports Buffer_Steps
begin

text \<open>
  The properties of \<^verbatim>\<open>Buffer\<close>: in every reachable state the reference counts and the free list are right, and an
  operation changes the bytes of its own object as if they were not shared and had no virtual zeros.
\<close>

section \<open>Copying out\<close>

lemma load_prefix:
  assumes "load a off n s = Some bs" and "m \<le> n"
  shows "load a off m s = Some (take m bs)"
proof -
  obtain d where "m_heap s a = Some d" "n = 0 \<or> off + n \<le> d_size d" "bs = take n (drop off (d_bytes d))"
    using assms(1) by (auto simp: load_def split: bind_splits if_splits)
  with assms(2) show ?thesis by (auto simp: load_def min_def)
qed

lemma CopyData_contents:
  assumes inv: "store_inv s B" and b: "b \<in># B"
  shows "CopyData n b s = Some (take n (contents s b))"
proof -
  define u v where "u = b_zeroAreaStart b - b_start b" and "v = b_end b - b_zeroAreaEnd b"
  define hd tl where "hd = take u (contents s b)" and "tl = drop (b_zeroAreaEnd b - b_start b) (contents s b)"
  obtain d where d: "m_heap s (b_data b) = Some d" "fits d b" using inv b by (rule store_inv_mem)
  then have "length (contents s b) = b_end b - b_start b"
    using length_bytes_of [OF d(2)] by (simp add: contents_def Buffer_GetSize_def)
  then have lens: "length hd = u" "length tl = v"
    using d(2) by (auto simp: hd_def tl_def u_def v_def fits_def)
  have c: "contents s b = hd @ replicate (zeros b) 0 @ tl"
    using contents_split [OF inv b] unfolding hd_def tl_def u_def .
  have l1: "load (b_data b) (b_start b) k s = Some (take k hd)" if "k \<le> u" for k
    using load_prefix [OF load_head [OF inv b]] that unfolding hd_def u_def by blast
  have l2: "load (b_data b) (b_zeroAreaStart b) k s = Some (take k tl)" if "k \<le> v" for k
    using load_prefix [OF load_tail [OF inv b]] that unfolding tl_def v_def by blast
  show ?thesis
    unfolding CopyData_def u_def [symmetric] v_def [symmetric] c
    using lens by (auto simp: Let_def l1 l2 min_def)
qed

section \<open>A small program\<close>

definition demo_fresh :: "nat \<Rightarrow> u8 list" where
  "demo_fresh n = replicate n 0"

lemma allocates_demo: "allocates demo_fresh"
  by (simp add: allocates_def demo_fresh_def)

text \<open>Two objects of two and three zeros; the second one gets a byte 7 at its end.\<close>

definition demo1 :: "Buf \<times> memory" where
  "demo1 = the (Initialize demo_fresh 2 no_memory)"

definition demo2 :: "Buf \<times> memory" where
  "demo2 = the (Initialize demo_fresh 3 (snd demo1))"

definition demo3 :: "Buf \<times> memory" where
  "demo3 = the (AddAtEnd demo_fresh 1 (fst demo2) (snd demo2))"

lemmas demo_simps = demo3_def demo2_def demo1_def no_memory_def Initialize_def Create_def Allocate_def
  demo_fresh_def AddAtEnd_def GetInternalEnd_def GetInternalSize_def raise_maxZero_def Let_def

lemma demo_steps:
  "Initialize demo_fresh 2 no_memory = Some demo1"
  "Initialize demo_fresh 3 (snd demo1) = Some demo2"
  "AddAtEnd demo_fresh 1 (fst demo2) (snd demo2) = Some demo3"
  by (simp_all add: demo_simps)

lemma demo_reachable: "buffer_reachable demo_fresh (snd demo3, add_mset (fst demo1) {#fst demo3#})"
proof -
  have "buffer_reachable demo_fresh (snd demo1, {#fst demo1#})"
    using buffer_reachable.start by (rule buffer_reachable.step) (rule create [where n = 2], simp add: demo_steps)
  then have "buffer_reachable demo_fresh (snd demo2, add_mset (fst demo2) {#fst demo1#})"
    by (rule buffer_reachable.step) (rule create [where n = 3], simp add: demo_steps)
  then have "buffer_reachable demo_fresh (snd demo3, add_mset (fst demo3) {#fst demo1#})"
    by (rule buffer_reachable.step) (rule add_end [where n = 1], simp only: demo_steps prod.collapse)
  then show ?thesis by (simp add: add_mset_commute)
qed

section \<open>Properties\<close>





text \<open>
  \<^verbatim>\<open>AddAtEnd\<close> followed by a write that many bytes before \<^verbatim>\<open>End\<close> always succeeds, puts the bytes behind
  the object, and leaves every other object as it was.
\<close>

theorem buffer_append:
  assumes "buffer_reachable fresh (s, add_mset b B)" and "allocates fresh"
  shows "\<exists>b' s1 i s'. AddAtEnd fresh (length bs) b s = Some (b', s1) \<and>
    Iter_Write bs (Iter_Prev (length bs) (Buffer_End b')) s1 = Some (i, s') \<and>
    contents s' b' = contents s b @ bs \<and> (\<forall>c\<in>#B. contents s' c = contents s c)"
  using append_inv [OF _ assms(2), of s b B bs] buffer_reachable_inv [OF assms]
  by (simp add: unchanged_def) metis

theorem buffer_append_witness:
  "\<exists>b' s1 i s'. AddAtEnd demo_fresh (length [1, 2 :: u8]) (fst demo1) (snd demo3) = Some (b', s1) \<and>
    Iter_Write [1, 2] (Iter_Prev (length [1, 2 :: u8]) (Buffer_End b')) s1 = Some (i, s') \<and>
    contents s' b' = contents (snd demo3) (fst demo1) @ [1, 2] \<and>
    (\<forall>c\<in>#{#fst demo3#}. contents s' c = contents (snd demo3) c)"
  by (rule buffer_append [OF demo_reachable allocates_demo])

text \<open>
  \<^verbatim>\<open>CreateFragment\<close> gives the bytes \<open>start\<close> to \<open>start + len\<close> of the object without copying one and without
  changing an object; when the range ends behind the object, the 32-bit difference in it wraps
  and the fragment is empty.
\<close>

theorem buffer_fragment:
  assumes "buffer_reachable fresh (s, add_mset b B)" and "allocates fresh"
    and "b_start b + start < 2 ^ 32" and "start + len < 2 ^ 32" and "Buffer_GetSize b < 2 ^ 31"
    and "start + len < 2 ^ 31"
  shows "\<exists>b' s'. CreateFragment start len b s = Some (b', s') \<and> b_data b' = b_data b \<and>
    contents s' b' = (if start + len \<le> Buffer_GetSize b then take len (drop start (contents s b)) else []) \<and>
    (\<forall>c\<in>#add_mset b B. contents s' c = contents s c)"
proof -
  have inv: "store_inv s (add_mset b B)" using buffer_reachable_inv [OF assms(1,2)] by simp
  let ?w = "wrap32 (int (Buffer_GetSize b) - int (wrap32 (int start + int len)))"
  obtain b' s' where f: "CreateFragment start len b s = Some (b', s')" "unchanged (add_mset b B) s s'"
    "contents s' b' = take (length (drop start (contents s b)) - ?w) (drop start (contents s b))"
    using CreateFragment_inv [OF inv assms(3)] by metis
  have data: "b_data b' = b_data b"
    using f(1) by (auto simp: CreateFragment_def CopyBuffer_def split: bind_splits)
  have len: "length (contents s b) = Buffer_GetSize b" using inv by (rule length_contents)
  have w1: "wrap32 (int start + int len) = start + len" using assms(4) by (intro wrap32_add) simp
  have "contents s' b' = (if start + len \<le> Buffer_GetSize b then take len (drop start (contents s b)) else [])"
  proof (cases "start + len \<le> Buffer_GetSize b")
    case True
    then have "?w = Buffer_GetSize b - (start + len)"
      using assms(5) by (simp only: w1) (subst wrap32_id; simp)
    then have "length (drop start (contents s b)) - ?w = len" using len True by simp
    with f(3) True show ?thesis by simp
  next
    case False
    then have "int ?w = int (Buffer_GetSize b) - int (start + len) + 4294967296"
      using assms(5,6) unfolding w1 wrap32_def
      by (subst mod_add_self2 [symmetric], subst mod_pos_pos_trivial) auto
    moreover have "int (start + len) < 2147483648" using assms(6) by simp
    ultimately have "Buffer_GetSize b \<le> ?w" by linarith
    with f(3) False len show ?thesis by simp
  qed
  with f data show ?thesis by (auto simp: unchanged_def)
qed

theorem buffer_fragment_witness:
  "\<exists>b' s'. CreateFragment 1 1 (fst demo1) (snd demo3) = Some (b', s') \<and> b_data b' = b_data (fst demo1) \<and>
    contents s' b' = (if 1 + 1 \<le> Buffer_GetSize (fst demo1) then take 1 (drop 1 (contents (snd demo3) (fst demo1))) else []) \<and>
    (\<forall>c\<in>#add_mset (fst demo1) {#fst demo3#}. contents s' c = contents (snd demo3) c)"
  by (rule buffer_fragment [OF demo_reachable allocates_demo]) (simp_all add: demo_simps Buffer_GetSize_def)

text \<open>
  Appending one buffer to another gives the bytes of both and changes no other object, unless the
  optimisation for adjacent zero areas applies and bytes follow the zeros of the appended buffer.
\<close>

theorem buffer_append_buffer:
  assumes "buffer_reachable fresh (s, add_mset b B)" and "allocates fresh" and "src \<in># B"
    and "\<not> (joins_zeros src b s \<and> b_zeroAreaEnd src < b_end src)"
  shows "\<exists>b' s'. AddAtEnd_Buffer fresh src b s = Some (b', s') \<and> contents s' b' = contents s b @ contents s src \<and>
    (\<forall>c\<in>#B. contents s' c = contents s c)"
proof -
  have inv: "store_inv s (add_mset b B)" using buffer_reachable_inv [OF assms(1,2)] by simp
  have "src \<in># add_mset b B" using assms(3) by simp
  with inv obtain d where "m_heap s (b_data src) = Some d" "fits d src" by (rule store_inv_mem)
  then have "b_zeroAreaEnd src \<le> b_end src" by (simp add: fits_def)
  then consider "\<not> joins_zeros src b s" | "joins_zeros src b s" "b_end src = b_zeroAreaEnd src"
    using assms(4) by linarith
  then show ?thesis
  proof cases
    case 1
    show ?thesis by (rule AddAtEnd_Buffer_general [OF inv assms(2,3) 1]) (auto simp: unchanged_def)
  next
    case 2
    show ?thesis by (rule AddAtEnd_Buffer_zeros [OF inv assms(2,3) 2]) (auto simp: unchanged_def)
  qed
qed

theorem buffer_append_buffer_witness:
  "\<exists>b' s'. AddAtEnd_Buffer demo_fresh (fst demo1) (fst demo3) (snd demo3) = Some (b', s') \<and>
    contents s' b' = contents (snd demo3) (fst demo3) @ contents (snd demo3) (fst demo1) \<and>
    (\<forall>c\<in>#{#fst demo1#}. contents s' c = contents (snd demo3) c)"
  using demo_reachable
  by (intro buffer_append_buffer [OF _ allocates_demo])
     (simp_all add: add_mset_commute demo_simps joins_zeros_def)

text \<open>
  When that optimisation applies and bytes follow the zeros, the write uses the position of the destination as
  an index of its block without taking off the zero area: with a block that has room for the bytes
  but not for the zeros as well, it is a write outside the block.
\<close>

theorem buffer_append_joined_zeros_overflows:
  assumes "buffer_reachable fresh (s, add_mset b B)" and "allocates fresh" and "src \<in># B"
    and "m_heap s (b_data b) = Some d" and "joins_zeros src b s" and "b_zeroAreaEnd src < b_end src"
    and "GetInternalEnd b + (b_end src - b_zeroAreaEnd src) \<le> d_size d"
    and "d_size d < b_end b + Buffer_GetSize src"
  shows "AddAtEnd_Buffer fresh src b s = None"
  using buffer_reachable_inv [OF assms(1,2)] assms by (intro AddAtEnd_Buffer_outside) simp_all

theorem buffer_append_joined_zeros_overflows_witness:
  "AddAtEnd_Buffer demo_fresh (fst demo3) (fst demo1) (snd demo3) = None"
  by (rule buffer_append_joined_zeros_overflows [OF demo_reachable allocates_demo,
        where d = "the (m_heap (snd demo3) (b_data (fst demo1)))"])
     (simp_all add: demo_simps joins_zeros_def Buffer_GetSize_def)

text \<open>
  \<^verbatim>\<open>CopyData\<close> returns the first bytes of the object, and reading through an iterator reads what the iterator of
  the header code reads from the bytes the object stands for, over the virtual zeros as well.
\<close>

theorem buffer_reads_refine:
  assumes "buffer_reachable fresh (s, add_mset b B)" and "allocates fresh" and "k + n \<le> Buffer_GetSize b"
  shows "CopyData m b s = Some (take m (contents s b)) \<and>
    Iter_Read n (Construct b (b_start b + k)) s =
      map_option (\<lambda>(bs, i). (bs, Construct b (b_start b + length (it_before i)))) (Read n (abs_iter s b k))"
proof -
  have inv: "store_inv s (add_mset b B)" using buffer_reachable_inv [OF assms(1,2)] by simp
  have "length (it_before (abs_iter s b (k + n))) = k + n"
    using length_contents [OF inv] assms(3) by (simp add: abs_iter_def)
  then show ?thesis
    using CopyData_contents [OF inv, of b m] Iter_Read_abs [OF inv, of b k n] assms(3) by simp
qed

theorem buffer_reads_refine_witness:
  "CopyData 1 (fst demo1) (snd demo3) = Some (take 1 (contents (snd demo3) (fst demo1))) \<and>
   Iter_Read 1 (Construct (fst demo1) (b_start (fst demo1) + 1)) (snd demo3) =
     map_option (\<lambda>(bs, i). (bs, Construct (fst demo1) (b_start (fst demo1) + length (it_before i))))
       (Read 1 (abs_iter (snd demo3) (fst demo1) 1))"
  by (rule buffer_reads_refine [OF demo_reachable allocates_demo]) (simp add: demo_simps Buffer_GetSize_def)

text \<open>
  A buffer written by \<^verbatim>\<open>Serialize\<close> into enough memory and read by \<^verbatim>\<open>Deserialize\<close> with the size that
  \<^verbatim>\<open>Packet::Deserialize\<close> passes is complete and has the same bytes, and no object changed.
\<close>

theorem buffer_serialize_roundtrip:
  assumes "buffer_reachable fresh (s, add_mset b B)" and "allocates fresh"
    and "GetSerializedSize b \<le> length out" and "GetSerializedSize b \<le> maxSize" and "Buffer_GetSize b < 2 ^ 32"
  shows "\<exists>out' t s'. Buffer_Serialize b s out maxSize = Some (1, out') \<and>
    Buffer_Deserialize fresh out' (of_nat (GetSerializedSize b) + 4) s = Some (1, t, s') \<and>
    contents s' t = contents s b \<and> (\<forall>c\<in>#add_mset b B. contents s' c = contents s c)"
  using Deserialize_Serialize [OF _ assms(2-5), of s B] buffer_reachable_inv [OF assms(1,2)]
  by (simp add: unchanged_def) metis

theorem buffer_serialize_roundtrip_witness:
  "\<exists>out' t s'. Buffer_Serialize (fst demo1) (snd demo3) (replicate 12 0) 12 = Some (1, out') \<and>
    Buffer_Deserialize demo_fresh out' (of_nat (GetSerializedSize (fst demo1)) + 4) (snd demo3) = Some (1, t, s') \<and>
    contents s' t = contents (snd demo3) (fst demo1) \<and>
    (\<forall>c\<in>#add_mset (fst demo1) {#fst demo3#}. contents s' c = contents (snd demo3) c)"
  by (rule buffer_serialize_roundtrip [OF demo_reachable allocates_demo])
     (simp_all add: demo_simps GetSerializedSize_def align4_def Buffer_GetSize_def)

end
