(* ===== verification/Gpu_Tables.thy ===== *)
theory Gpu_Tables
  imports Prelude
begin

text \<open>
  The tables of the GPU stack, fixed arrays with a count of live entries: the routes of
  \<^verbatim>\<open>CudaIpv4StaticRouting\<close>, the entries of \<^verbatim>\<open>CudaArpCache\<close>, the learned addresses of \<^verbatim>\<open>CudaBridgeNetDevice\<close>
  (all in \<^verbatim>\<open>contrib/cuda/model\<close>), and \<^verbatim>\<open>LookaheadTable\<close> of \<^verbatim>\<open>cuda-elp-simulator.h\<close>.

  A search \<^verbatim>\<open>for (i = 0; i < size; i++) if (P) return\<close> is \<open>first_index\<close>.
\<close>

definition first_index :: "(nat \<Rightarrow> bool) \<Rightarrow> nat \<Rightarrow> nat option" where
  "first_index P n = find P [0..<n]"

section \<open>Static routes\<close>

record RouteEntry =
  r_network :: u32
  r_netmask :: u32
  r_netdevIndex :: u32
  r_priority :: u32

record CudaIpv4StaticRouting =
  rt_routes :: "RouteEntry list"
  rt_size :: nat
  rt_capacity :: nat

definition MAX_ROUTE_ENTRIES :: nat where
  "MAX_ROUTE_ENTRIES = 32"

definition StaticRouting_new :: "nat \<Rightarrow> CudaIpv4StaticRouting" where
  "StaticRouting_new capacity = \<lparr>
     rt_routes = replicate capacity \<lparr>r_network = 0, r_netmask = 0, r_netdevIndex = 0, r_priority = 0\<rparr>,
     rt_size = 0, rt_capacity = capacity\<rparr>"

definition applyNetmask :: "u32 \<Rightarrow> u32 \<Rightarrow> u32" where
  "applyNetmask address netmask = address AND netmask"

text \<open>The loop \<^verbatim>\<open>for (int i = 31; i >= 0; i--)\<close>, called with \<open>i + 1\<close>.\<close>

fun getPrefixLength_loop :: "nat \<Rightarrow> u32 \<Rightarrow> nat \<Rightarrow> nat" where
  "getPrefixLength_loop 0 netmask cnt = cnt"
| "getPrefixLength_loop (Suc i) netmask cnt =
     (if drop_bit i netmask AND 1 \<noteq> 0 then getPrefixLength_loop i netmask (cnt + 1) else cnt)"

definition getPrefixLength :: "u32 \<Rightarrow> nat" where
  "getPrefixLength netmask = getPrefixLength_loop 32 netmask 0"

definition AddRoute :: "u32 \<Rightarrow> u32 \<Rightarrow> u32 \<Rightarrow> u32 \<Rightarrow> CudaIpv4StaticRouting \<Rightarrow> bool \<times> CudaIpv4StaticRouting" where
  "AddRoute network netmask netdevIndex priority t =
     (let network = applyNetmask network netmask;
          m_routes = rt_routes t
      in case first_index (\<lambda>i. r_network (m_routes ! i) = network \<and> r_netmask (m_routes ! i) = netmask) (rt_size t) of
           Some i \<Rightarrow> (True, t\<lparr>rt_routes := m_routes
             [i := (m_routes ! i)\<lparr>r_netdevIndex := netdevIndex, r_priority := priority\<rparr>]\<rparr>)
         | None \<Rightarrow>
             if rt_size t < rt_capacity t then
               (let idx = rt_size t; t = t\<lparr>rt_size := rt_size t + 1\<rparr>
                in if idx < rt_capacity t then
                     (True, t\<lparr>rt_routes := m_routes[idx := \<lparr>r_network = network, r_netmask = netmask,
                        r_netdevIndex = netdevIndex, r_priority = priority\<rparr>]\<rparr>)
                   else (False, t\<lparr>rt_size := rt_size t - 1\<rparr>))
             else (False, t))"

text \<open>\<open>Some (index, prefix length, priority)\<close> is the best match so far.\<close>

definition better_match :: "u32 \<Rightarrow> RouteEntry list \<Rightarrow> nat \<Rightarrow> (nat \<times> nat \<times> u32) option \<Rightarrow> (nat \<times> nat \<times> u32) option" where
  "better_match destIp m_routes i best =
     (let maskedDest = applyNetmask destIp (r_netmask (m_routes ! i))
      in if maskedDest = r_network (m_routes ! i) then
           (let prefixLen = getPrefixLength (r_netmask (m_routes ! i));
                priority = r_priority (m_routes ! i)
            in case best of
                 None \<Rightarrow> Some (i, prefixLen, priority)
               | Some (bestMatchIndex, bestMatchPrefixLen, bestMatchPriority) \<Rightarrow>
                   if prefixLen > bestMatchPrefixLen \<or>
                      prefixLen = bestMatchPrefixLen \<and> priority > bestMatchPriority
                   then Some (i, prefixLen, priority) else best)
         else best)"

definition LookupRoute :: "u32 \<Rightarrow> CudaIpv4StaticRouting \<Rightarrow> u32 option" where
  "LookupRoute destIp t =
     (case fold (better_match destIp (rt_routes t)) [0..<rt_size t] None of
        None \<Rightarrow> None
      | Some (bestMatchIndex, _) \<Rightarrow> Some (r_netdevIndex (rt_routes t ! bestMatchIndex)))"

definition RemoveRoute :: "u32 \<Rightarrow> u32 \<Rightarrow> CudaIpv4StaticRouting \<Rightarrow> bool \<times> CudaIpv4StaticRouting" where
  "RemoveRoute network netmask t =
     (let network = applyNetmask network netmask;
          m_routes = rt_routes t
      in case first_index (\<lambda>i. r_network (m_routes ! i) = network \<and> r_netmask (m_routes ! i) = netmask) (rt_size t) of
           Some i \<Rightarrow>
             (let m_routes = (if i < rt_size t - 1 then m_routes[i := m_routes ! (rt_size t - 1)] else m_routes)
              in (True, t\<lparr>rt_routes := m_routes, rt_size := rt_size t - 1\<rparr>))
         | None \<Rightarrow> (False, t))"

definition routing_size :: "CudaIpv4StaticRouting \<Rightarrow> nat" where
  "routing_size t = rt_size t"

definition routing_clear :: "CudaIpv4StaticRouting \<Rightarrow> CudaIpv4StaticRouting" where
  "routing_clear t = t\<lparr>rt_size := 0\<rparr>"

definition getRouteAtIndex :: "nat \<Rightarrow> CudaIpv4StaticRouting \<Rightarrow> RouteEntry option" where
  "getRouteAtIndex index t = (if index \<ge> rt_size t then None else Some (rt_routes t ! index))"

definition addDefaultRoute :: "u32 \<Rightarrow> u32 \<Rightarrow> CudaIpv4StaticRouting \<Rightarrow> bool \<times> CudaIpv4StaticRouting" where
  "addDefaultRoute netdevIndex priority t = AddRoute 0 0 netdevIndex priority t"

section \<open>ARP cache\<close>

text \<open>The six bytes of a \<^verbatim>\<open>MACAddress\<close>.\<close>

type_synonym mac = "u8 list"

definition MAX_CACHE_SIZE :: nat where
  "MAX_CACHE_SIZE = 16"

record ArpEntry =
  ae_ip :: u32
  ae_mac :: mac

record CudaArpCache =
  ac_entries :: "ArpEntry list"
  ac_count :: nat

definition ArpCache_new :: CudaArpCache where
  "ArpCache_new = \<lparr>ac_entries = replicate MAX_CACHE_SIZE \<lparr>ae_ip = 0, ae_mac = replicate 6 0\<rparr>, ac_count = 0\<rparr>"

definition AddEntry :: "u32 \<Rightarrow> mac \<Rightarrow> CudaArpCache \<Rightarrow> CudaArpCache" where
  "AddEntry ip mac c =
     (if ac_count c < MAX_CACHE_SIZE then
        c\<lparr>ac_entries := (ac_entries c)[ac_count c := \<lparr>ae_ip = ip, ae_mac = mac\<rparr>], ac_count := ac_count c + 1\<rparr>
      else c)"

definition Lookup :: "u32 \<Rightarrow> CudaArpCache \<Rightarrow> mac option" where
  "Lookup ip c = map_option (\<lambda>i. ae_mac (ac_entries c ! i))
     (first_index (\<lambda>i. ae_ip (ac_entries c ! i) = ip) (ac_count c))"

definition RemoveEntry :: "u32 \<Rightarrow> CudaArpCache \<Rightarrow> CudaArpCache" where
  "RemoveEntry ip c =
     (case first_index (\<lambda>i. ae_ip (ac_entries c ! i) = ip) (ac_count c) of
        None \<Rightarrow> c
      | Some i \<Rightarrow>
          c\<lparr>ac_entries := fold (\<lambda>j es. es[j := es ! (j + 1)]) [i..<ac_count c - 1] (ac_entries c),
            ac_count := ac_count c - 1\<rparr>)"

definition Arp_Clear :: "CudaArpCache \<Rightarrow> CudaArpCache" where
  "Arp_Clear c = c\<lparr>ac_count := 0\<rparr>"

section \<open>Learned addresses of a bridge\<close>

definition MAX_MAC_ENTRIES :: nat where
  "MAX_MAC_ENTRIES = 16"

record LearnedState =
  ls_mac :: mac
  ls_associatedPort :: ptr

record learning =
  m_enableLearning :: bool
  m_learningTable :: "LearnedState list"
  tableSize :: nat

definition learning_new :: learning where
  "learning_new = \<lparr>m_enableLearning = True,
     m_learningTable = replicate MAX_MAC_ENTRIES \<lparr>ls_mac = replicate 6 0, ls_associatedPort = nullptr\<rparr>, tableSize = 0\<rparr>"

definition Learn :: "mac \<Rightarrow> ptr \<Rightarrow> learning \<Rightarrow> learning" where
  "Learn source port l =
     (if m_enableLearning l then
        if tableSize l \<ge> MAX_MAC_ENTRIES then l
        else case first_index (\<lambda>i. ls_mac (m_learningTable l ! i) = source) (tableSize l) of
          Some i \<Rightarrow> l\<lparr>m_learningTable := (m_learningTable l)
            [i := (m_learningTable l ! i)\<lparr>ls_associatedPort := port\<rparr>]\<rparr>
        | None \<Rightarrow> l\<lparr>m_learningTable := (m_learningTable l)
            [tableSize l := \<lparr>ls_mac = source, ls_associatedPort = port\<rparr>], tableSize := tableSize l + 1\<rparr>
      else l)"

definition GetLearnedState :: "mac \<Rightarrow> learning \<Rightarrow> ptr" where
  "GetLearnedState source l =
     (case first_index (\<lambda>i. ls_mac (m_learningTable l ! i) = source) (tableSize l) of
        Some i \<Rightarrow> ls_associatedPort (m_learningTable l ! i)
      | None \<Rightarrow> nullptr)"

section \<open>Lookahead table\<close>

text \<open>
  The outer map is keyed by \<^verbatim>\<open>makeKey\<close>, which is the source.  \<open>Inl ()\<close> is the \<^verbatim>\<open>std::out_of_range\<close> of \<^verbatim>\<open>getValue\<close>.
\<close>

type_synonym LookaheadTable = "u32 \<Rightarrow> (u32 \<Rightarrow> u64 list option) option"

definition makeKey :: "u32 \<Rightarrow> u32 \<Rightarrow> u32" where
  "makeKey source destination = source"

definition addValue :: "u32 \<Rightarrow> u32 \<Rightarrow> u64 \<Rightarrow> LookaheadTable \<Rightarrow> LookaheadTable" where
  "addValue source destination value t =
     (let key = makeKey source destination;
          inner = (case t key of None \<Rightarrow> Map.empty | Some m \<Rightarrow> m);
          values = (case inner destination of None \<Rightarrow> [] | Some vs \<Rightarrow> vs)
      in t(key \<mapsto> inner(destination \<mapsto> values @ [value])))"

definition getValues :: "u32 \<Rightarrow> u32 \<Rightarrow> LookaheadTable \<Rightarrow> u64 list" where
  "getValues source destination t =
     (case t (makeKey source destination) of
        None \<Rightarrow> []
      | Some srcIt \<Rightarrow> (case srcIt destination of None \<Rightarrow> [] | Some values \<Rightarrow> values))"

definition getValue :: "u32 \<Rightarrow> u32 \<Rightarrow> nat \<Rightarrow> LookaheadTable \<Rightarrow> unit + u64" where
  "getValue source destination index t =
     (let values = getValues source destination t
      in if index \<ge> length values then Inl () else Inr (values ! index))"

definition hasConnection :: "u32 \<Rightarrow> u32 \<Rightarrow> LookaheadTable \<Rightarrow> bool" where
  "hasConnection source destination t =
     (case t (makeKey source destination) of None \<Rightarrow> False | Some srcIt \<Rightarrow> srcIt destination \<noteq> None)"

definition countValues :: "u32 \<Rightarrow> u32 \<Rightarrow> LookaheadTable \<Rightarrow> nat" where
  "countValues source destination t = length (getValues source destination t)"

section \<open>Searching\<close>

lemma first_index_Some:
  "first_index P n = Some i \<longleftrightarrow> i < n \<and> P i \<and> (\<forall>j<i. \<not> P j)"
  by (force simp: first_index_def find_Some_iff)

lemma first_index_None: "first_index P n = None \<longleftrightarrow> (\<forall>i<n. \<not> P i)"
  by (auto simp: first_index_def find_None_iff)

lemma first_index_cong: "(\<And>i. i < n \<Longrightarrow> P i = Q i) \<Longrightarrow> first_index P n = first_index Q n"
  unfolding first_index_def by (rule find_cong) auto

lemma first_index_Suc:
  "first_index P (Suc n) = (case first_index P n of Some i \<Rightarrow> Some i | None \<Rightarrow> if P n then Some n else None)"
proof -
  have "find P (xs @ ys) = (case find P xs of None \<Rightarrow> find P ys | Some x \<Rightarrow> Some x)" for xs ys :: "nat list"
    by (induction xs) auto
  then show ?thesis by (auto simp: first_index_def split: option.splits)
qed

lemmas first_index_simps = first_index_Some first_index_None

section \<open>The bits of a netmask\<close>

text \<open>\<open>getPrefixLength\<close> counts the leading ones.\<close>

lemma getPrefixLength_loop_eq:
  "getPrefixLength_loop i m c = c + length (takeWhile (bit m) (rev [0..<i]))"
  by (induction i arbitrary: c) (simp_all add: bit_iff_and_drop_bit_eq_1 and_one_eq odd_iff_mod_2_eq_one)

lemma getPrefixLength_eq: "getPrefixLength m = length (takeWhile (bit m) (rev [0..<32]))"
  by (simp only: getPrefixLength_def getPrefixLength_loop_eq add_0)

end
