(* ===== verification/Gpu_Routing.thy ===== *)
theory Gpu_Routing
  imports Gpu_Tables
begin

text \<open>
  \<^verbatim>\<open>CudaIpv4StaticRouting\<close> as a finite map from network and netmask to device and priority, which \<^verbatim>\<open>AddRoute\<close>
  updates and \<^verbatim>\<open>RemoveRoute\<close> deletes from, and \<^verbatim>\<open>LookupRoute\<close> as the choice of the longest prefix.
\<close>

section \<open>The map a table stands for\<close>

definition live :: "CudaIpv4StaticRouting \<Rightarrow> RouteEntry list" where
  "live t = take (rt_size t) (rt_routes t)"

definition route_key :: "RouteEntry \<Rightarrow> u32 \<times> u32" where
  "route_key r = (r_network r, r_netmask r)"

definition route_val :: "RouteEntry \<Rightarrow> u32 \<times> u32" where
  "route_val r = (r_netdevIndex r, r_priority r)"

definition route_pair :: "RouteEntry \<Rightarrow> (u32 \<times> u32) \<times> (u32 \<times> u32)" where
  "route_pair r = (route_key r, route_val r)"

definition rt_map :: "CudaIpv4StaticRouting \<Rightarrow> u32 \<times> u32 \<Rightarrow> (u32 \<times> u32) option" where
  "rt_map t = map_of (map route_pair (live t))"

definition rt_inv :: "CudaIpv4StaticRouting \<Rightarrow> bool" where
  "rt_inv t \<longleftrightarrow> rt_size t \<le> rt_capacity t \<and> length (rt_routes t) = rt_capacity t \<and>
     distinct (map route_key (live t)) \<and> (\<forall>r\<in>set (live t). r_network r AND r_netmask r = r_network r)"

inductive routing_reachable :: "nat \<Rightarrow> CudaIpv4StaticRouting \<Rightarrow> bool" for capacity where
  new: "routing_reachable capacity (StaticRouting_new capacity)"
| add: "routing_reachable capacity t \<Longrightarrow> routing_reachable capacity (snd (AddRoute n m i p t))"
| remove: "routing_reachable capacity t \<Longrightarrow> routing_reachable capacity (snd (RemoveRoute n m t))"
| clear: "routing_reachable capacity t \<Longrightarrow> routing_reachable capacity (routing_clear t)"

section \<open>Association lists\<close>

lemma fst_route_pair [simp]: "fst (route_pair r) = route_key r" "fst \<circ> route_pair = route_key"
  by (auto simp: route_pair_def)

lemma map_of_list_update:
  assumes "distinct (map fst xs)" and "i < length xs" and "fst x = fst (xs ! i)"
  shows "map_of (xs[i := x]) = (map_of xs)(fst x \<mapsto> snd x)"
  using assms
proof (induction xs arbitrary: i)
  case Nil
  then show ?case by simp
next
  case (Cons y ys)
  show ?case
  proof (cases i)
    case 0
    with Cons.prems show ?thesis by (cases y; cases x) auto
  next
    case (Suc j)
    with Cons.prems have "fst x \<in> fst ` set ys" by simp
    then have "fst y \<noteq> fst x" using Cons.prems(1) by (metis distinct.simps(2) list.simps(9) set_map)
    with Cons Suc show ?thesis by (cases y; cases x) (auto simp: fun_upd_twist)
  qed
qed

lemma mset_swap_remove:
  assumes "i < length xs"
  shows "mset (butlast (xs[i := last xs])) = mset xs - {#xs ! i#}"
proof -
  obtain ys z where xs: "xs = ys @ [z]" using assms by (cases xs rule: rev_cases) auto
  then show ?thesis using assms
    by (cases "i = length ys") (auto simp: nth_append list_update_append mset_update butlast_append)
qed

lemma take_swap_remove:
  assumes "i < n" and "n \<le> length rs"
  shows "take (n - 1) (if i < n - 1 then rs[i := rs ! (n - 1)] else rs) = butlast ((take n rs)[i := last (take n rs)])"
proof -
  have last: "last (take n rs) = rs ! (n - 1)" using assms by (subst last_conv_nth) auto
  show ?thesis
    using assms by (intro nth_equalityI) (auto simp: nth_butlast last nth_list_update)
qed

lemma map_of_remove_mset:
  assumes "distinct (map fst xs)" and "mset ys = mset xs - {#x#}" and "x \<in> set xs"
  shows "map_of ys = (map_of xs)(fst x := None)" and "distinct (map fst ys)"
proof -
  have m: "mset xs = mset (x # ys)" using assms(2,3) by simp
  then have set: "set xs = set (x # ys)" by (metis set_mset_mset)
  have "mset (map fst xs) = mset (map fst (x # ys))" using arg_cong [OF m] by (simp only: mset_map)
  then have d: "distinct (map fst (x # ys))" using assms(1) by (metis mset_eq_imp_distinct_iff)
  then show "distinct (map fst ys)" by simp
  have "map_of xs = map_of (x # ys)" using map_of_inject_set [OF assms(1) d] set by simp
  moreover have "map_of ys (fst x) = None" using d by (simp add: map_of_eq_None_iff)
  ultimately show "map_of ys = (map_of xs)(fst x := None)" by (cases x) (auto simp: fun_eq_iff)
qed

section \<open>Adding and removing\<close>

lemma live_length: "rt_inv t \<Longrightarrow> length (live t) = rt_size t"
  by (simp add: live_def rt_inv_def)

lemma live_nth: "i < rt_size t \<Longrightarrow> live t ! i = rt_routes t ! i"
  by (simp add: live_def)

lemma live_set: "rt_inv t \<Longrightarrow> set (live t) = (!) (rt_routes t) ` {..<rt_size t}"
  using live_length live_nth by (force simp: set_conv_nth)

lemma rt_search:
  assumes "rt_inv t"
  shows "first_index (\<lambda>i. r_network (rt_routes t ! i) = n \<and> r_netmask (rt_routes t ! i) = m) (rt_size t) = Some i \<Longrightarrow>
      i < length (live t) \<and> route_key (live t ! i) = (n, m)"
    and "first_index (\<lambda>i. r_network (rt_routes t ! i) = n \<and> r_netmask (rt_routes t ! i) = m) (rt_size t) = None \<Longrightarrow>
      (n, m) \<notin> set (map route_key (live t))"
  unfolding set_map live_set [OF assms] using live_length [OF assms] live_nth
  by (auto simp: first_index_simps route_key_def)

lemma rt_map_None: "rt_map t k = None \<longleftrightarrow> k \<notin> set (map route_key (live t))"
  by (simp add: rt_map_def map_of_eq_None_iff image_image)

lemma masked: "(n AND m) AND m = n AND (m :: u32)"
  by (simp add: and.assoc)

lemma AddRoute_spec:
  assumes inv: "rt_inv t"
  shows "fst (AddRoute n m i p t) \<longleftrightarrow> rt_map t (n AND m, m) \<noteq> None \<or> rt_size t < rt_capacity t"
    and "rt_map (snd (AddRoute n m i p t)) =
      (if fst (AddRoute n m i p t) then (rt_map t)((n AND m, m) \<mapsto> (i, p)) else rt_map t)"
    and "rt_inv (snd (AddRoute n m i p t))"
proof -
  let ?s = "first_index (\<lambda>i. r_network (rt_routes t ! i) = n AND m \<and> r_netmask (rt_routes t ! i) = m) (rt_size t)"
  have d: "distinct (map fst (map route_pair (live t)))" using inv by (simp add: rt_inv_def)
  have "(fst (AddRoute n m i p t) \<longleftrightarrow> rt_map t (n AND m, m) \<noteq> None \<or> rt_size t < rt_capacity t) \<and>
    rt_map (snd (AddRoute n m i p t)) =
      (if fst (AddRoute n m i p t) then (rt_map t)((n AND m, m) \<mapsto> (i, p)) else rt_map t) \<and>
    rt_inv (snd (AddRoute n m i p t))"
  proof (cases ?s)
    case (Some k)
    let ?r = "(rt_routes t ! k)\<lparr>r_netdevIndex := i, r_priority := p\<rparr>"
    let ?t = "t\<lparr>rt_routes := (rt_routes t)[k := ?r]\<rparr>"
    have k: "k < length (live t)" "route_key (live t ! k) = (n AND m, m)" using rt_search(1) [OF inv Some] by auto
    then have ks: "k < rt_size t" using live_length [OF inv] by simp
    have r: "route_pair ?r = ((n AND m, m), (i, p))" and rk: "route_key ?r = route_key (live t ! k)"
      using k live_nth [OF ks] by (simp_all add: route_pair_def route_key_def route_val_def)
    have live': "live ?t = (live t)[k := ?r]" by (simp add: live_def take_update_swap)
    have add: "AddRoute n m i p t = (True, ?t)" using Some by (simp add: AddRoute_def applyNetmask_def Let_def)
    have "rt_map ?t = (rt_map t)((n AND m, m) \<mapsto> (i, p))"
      using map_of_list_update [OF d, of k "route_pair ?r"] k r by (simp add: rt_map_def live' map_update)
    moreover have "rt_inv ?t"
    proof -
      have "map route_key (live ?t) = map route_key (live t)"
        unfolding live' map_update rk using k by (metis list_update_id nth_map)
      moreover have "\<forall>r\<in>set (live ?t). r_network r AND r_netmask r = r_network r"
        using inv r masked unfolding live' rt_inv_def
        by (auto simp: route_pair_def route_key_def dest!: set_update_subset_insert [THEN subsetD])
      ultimately show ?thesis using inv by (simp add: rt_inv_def)
    qed
    moreover have "rt_map t (n AND m, m) \<noteq> None"
      using k by (auto simp: rt_map_None) (metis imageI nth_mem)
    ultimately show ?thesis using add by simp
  next
    case None
    note none = rt_search(2) [OF inv None]
    show ?thesis
    proof (cases "rt_size t < rt_capacity t")
      case False
      then have "AddRoute n m i p t = (False, t)" using None by (simp add: AddRoute_def applyNetmask_def Let_def)
      then show ?thesis using False none inv by (simp add: rt_map_None)
    next
      case True
      let ?r = "\<lparr>r_network = n AND m, r_netmask = m, r_netdevIndex = i, r_priority = p\<rparr>"
      let ?t = "t\<lparr>rt_size := Suc (rt_size t), rt_routes := (rt_routes t)[rt_size t := ?r]\<rparr>"
      have add: "AddRoute n m i p t = (True, ?t)"
        using None True by (simp add: AddRoute_def applyNetmask_def Let_def)
      have "rt_size t < length (rt_routes t)" using inv True by (simp add: rt_inv_def)
      then have live': "live ?t = live t @ [?r]"
        by (simp add: live_def take_Suc_conv_app_nth)
      have r: "route_pair ?r = ((n AND m, m), (i, p))" "route_key ?r = (n AND m, m)"
        by (simp_all add: route_pair_def route_key_def route_val_def)
      have none': "map_of (map route_pair (live t)) (n AND m, m) = None"
        using none rt_map_None [of t] by (simp add: rt_map_def)
      then have "rt_map ?t = (rt_map t)((n AND m, m) \<mapsto> (i, p))"
        using r by (auto simp: rt_map_def live' map_add_def fun_eq_iff split: option.splits)
      moreover have "rt_inv ?t"
        using inv True r none masked by (auto simp: rt_inv_def live')
      ultimately show ?thesis using add True by simp
    qed
  qed
  then show "fst (AddRoute n m i p t) \<longleftrightarrow> rt_map t (n AND m, m) \<noteq> None \<or> rt_size t < rt_capacity t"
    and "rt_map (snd (AddRoute n m i p t)) =
      (if fst (AddRoute n m i p t) then (rt_map t)((n AND m, m) \<mapsto> (i, p)) else rt_map t)"
    and "rt_inv (snd (AddRoute n m i p t))" by blast+
qed

lemma RemoveRoute_spec:
  assumes inv: "rt_inv t"
  shows "fst (RemoveRoute n m t) \<longleftrightarrow> rt_map t (n AND m, m) \<noteq> None"
    and "rt_map (snd (RemoveRoute n m t)) = (rt_map t)((n AND m, m) := None)"
    and "rt_inv (snd (RemoveRoute n m t))"
proof -
  let ?s = "first_index (\<lambda>i. r_network (rt_routes t ! i) = n AND m \<and> r_netmask (rt_routes t ! i) = m) (rt_size t)"
  have d: "distinct (map fst (map route_pair (live t)))" using inv by (simp add: rt_inv_def)
  have "(fst (RemoveRoute n m t) \<longleftrightarrow> rt_map t (n AND m, m) \<noteq> None) \<and>
    rt_map (snd (RemoveRoute n m t)) = (rt_map t)((n AND m, m) := None) \<and> rt_inv (snd (RemoveRoute n m t))"
  proof (cases ?s)
    case None
    then have "RemoveRoute n m t = (False, t)" by (simp add: RemoveRoute_def applyNetmask_def Let_def)
    moreover have "rt_map t (n AND m, m) = None" using rt_search(2) [OF inv None] by (simp add: rt_map_None)
    ultimately show ?thesis using inv by (simp add: fun_upd_idem)
  next
    case (Some k)
    let ?n = "rt_size t" and ?rs = "rt_routes t"
    let ?rs' = "if k < ?n - 1 then ?rs[k := ?rs ! (?n - 1)] else ?rs"
    let ?t = "t\<lparr>rt_routes := ?rs', rt_size := ?n - 1\<rparr>"
    have k: "k < length (live t)" "route_key (live t ! k) = (n AND m, m)" using rt_search(1) [OF inv Some] by auto
    then have ks: "k < ?n" using live_length [OF inv] by simp
    have rem: "RemoveRoute n m t = (True, ?t)" using Some by (simp add: RemoveRoute_def applyNetmask_def Let_def)
    have "?n \<le> length ?rs" using inv by (simp add: rt_inv_def)
    from take_swap_remove [OF ks this] have live': "live ?t = butlast ((live t)[k := last (live t)])"
      by (simp add: live_def)
    then have ms: "mset (live ?t) = mset (live t) - {#live t ! k#}" using mset_swap_remove [OF k(1)] by simp
    then have ms': "mset (map route_pair (live ?t)) = mset (map route_pair (live t)) - {#route_pair (live t ! k)#}"
      using k(1) by (simp add: image_mset_Diff)
    have mem: "route_pair (live t ! k) \<in> set (map route_pair (live t))" using k(1) by simp
    note mr = map_of_remove_mset [OF d ms' mem]
    have "rt_map ?t = (rt_map t)((n AND m, m) := None)" using mr(1) k(2) by (simp add: rt_map_def)
    moreover have "set (live ?t) \<subseteq> set (live t)" using ms by (metis diff_subset_eq_self set_mset_mono set_mset_mset)
    then have "rt_inv ?t" using inv mr(2) by (auto simp: rt_inv_def)
    moreover have "rt_map t (n AND m, m) \<noteq> None"
      using k by (auto simp: rt_map_None) (metis imageI nth_mem)
    ultimately show ?thesis using rem by simp
  qed
  then show "fst (RemoveRoute n m t) \<longleftrightarrow> rt_map t (n AND m, m) \<noteq> None"
    and "rt_map (snd (RemoveRoute n m t)) = (rt_map t)((n AND m, m) := None)"
    and "rt_inv (snd (RemoveRoute n m t))" by blast+
qed

lemma routing_reachable_inv: "routing_reachable capacity t \<Longrightarrow> rt_inv t"
proof (induction rule: routing_reachable.induct)
  case new
  then show ?case by (simp add: rt_inv_def StaticRouting_new_def live_def)
next
  case (clear t)
  then show ?case by (simp add: rt_inv_def routing_clear_def live_def)
qed (simp_all add: AddRoute_spec(3) RemoveRoute_spec(3))

section \<open>Longest prefix\<close>

definition route_matches :: "u32 \<Rightarrow> RouteEntry \<Rightarrow> bool" where
  "route_matches d r \<longleftrightarrow> d AND r_netmask r = r_network r"

text \<open>\<open>r\<close> is at least as good a match as \<open>r'\<close>.\<close>

definition as_good :: "RouteEntry \<Rightarrow> RouteEntry \<Rightarrow> bool" where
  "as_good r r' \<longleftrightarrow> getPrefixLength (r_netmask r') < getPrefixLength (r_netmask r) \<or>
     getPrefixLength (r_netmask r') = getPrefixLength (r_netmask r) \<and> r_priority r' \<le> r_priority r"

lemma as_good_refl [simp]: "as_good r r"
  by (simp add: as_good_def)

lemma as_good_trans: "as_good a b \<Longrightarrow> as_good b c \<Longrightarrow> as_good a c"
  by (auto simp: as_good_def)

lemma as_good_total: "as_good a b \<or> as_good b a"
  by (auto simp: as_good_def)

definition best_upto :: "u32 \<Rightarrow> RouteEntry list \<Rightarrow> nat \<Rightarrow> (nat \<times> nat \<times> u32) option \<Rightarrow> bool" where
  "best_upto d rs k best \<longleftrightarrow>
     (case best of
        None \<Rightarrow> \<forall>j<k. \<not> route_matches d (rs ! j)
      | Some (i, l, p) \<Rightarrow> i < k \<and> route_matches d (rs ! i) \<and> l = getPrefixLength (r_netmask (rs ! i)) \<and>
          p = r_priority (rs ! i) \<and> (\<forall>j<k. route_matches d (rs ! j) \<longrightarrow> as_good (rs ! i) (rs ! j)))"

lemma better_match_step:
  assumes "best_upto d rs k best"
  shows "best_upto d rs (Suc k) (better_match d rs k best)"
proof (cases best)
  case None
  with assms show ?thesis
    by (auto simp: best_upto_def better_match_def applyNetmask_def route_matches_def Let_def less_Suc_eq)
next
  case (Some b)
  then obtain i l p where b: "best = Some (i, l, p)" by (cases b) auto
  let ?better = "getPrefixLength (r_netmask (rs ! k)) > l \<or> getPrefixLength (r_netmask (rs ! k)) = l \<and> r_priority (rs ! k) > p"
  show ?thesis
  proof (cases "route_matches d (rs ! k)")
    case False
    with assms b show ?thesis
      by (auto simp: best_upto_def better_match_def applyNetmask_def route_matches_def Let_def less_Suc_eq)
  next
    case True
    show ?thesis
    proof (cases ?better)
      case better: True
      have "as_good (rs ! k) (rs ! i)" using better assms b by (auto simp: as_good_def best_upto_def)
      then have "\<forall>j<Suc k. route_matches d (rs ! j) \<longrightarrow> as_good (rs ! k) (rs ! j)"
        using assms b as_good_trans by (auto simp: best_upto_def less_Suc_eq)
      with True better b show ?thesis
        by (auto simp: best_upto_def better_match_def applyNetmask_def route_matches_def Let_def)
    next
      case worse: False
      have "as_good (rs ! i) (rs ! k)" using worse assms b by (auto simp: as_good_def best_upto_def not_less)
      with assms b True worse show ?thesis
        by (auto simp: best_upto_def better_match_def applyNetmask_def route_matches_def Let_def less_Suc_eq)
    qed
  qed
qed

lemma better_match_fold: "best_upto d rs k (fold (better_match d rs) [0..<k] None)"
  by (induction k) (simp_all add: best_upto_def [of d rs 0] better_match_step)

lemma LookupRoute_spec:
  "case LookupRoute d t of
     None \<Rightarrow> \<forall>j<rt_size t. \<not> route_matches d (rt_routes t ! j)
   | Some n \<Rightarrow> \<exists>i<rt_size t. r_netdevIndex (rt_routes t ! i) = n \<and> route_matches d (rt_routes t ! i) \<and>
       (\<forall>j<rt_size t. route_matches d (rt_routes t ! j) \<longrightarrow> as_good (rt_routes t ! i) (rt_routes t ! j))"
  using better_match_fold [of d "rt_routes t" "rt_size t"]
  by (auto simp: LookupRoute_def best_upto_def split: option.splits)

text \<open>The route found, as an entry of the map.\<close>

lemma LookupRoute_map:
  assumes "rt_inv t"
  shows "LookupRoute d t = None \<longleftrightarrow> (\<forall>net m. d AND m = net \<longrightarrow> rt_map t (net, m) = None)"
    and "LookupRoute d t = Some dev \<Longrightarrow> \<exists>m p. rt_map t (d AND m, m) = Some (dev, p) \<and>
      (\<forall>m' dev' p'. rt_map t (d AND m', m') = Some (dev', p') \<longrightarrow>
        getPrefixLength m' < getPrefixLength m \<or> getPrefixLength m' = getPrefixLength m \<and> p' \<le> p)"
proof -
  have d: "distinct (map fst (map route_pair (live t)))" using assms by (simp add: rt_inv_def)
  have entry: "rt_map t (net, m) = Some (dev, p) \<longleftrightarrow> (\<exists>i<rt_size t. route_pair (rt_routes t ! i) = ((net, m), (dev, p)))"
    for net m dev p
    using map_of_eq_Some_iff [OF d] live_set [OF assms]
    by (auto simp: rt_map_def image_iff eq_commute)
  have pair: "route_pair r = ((net, m), (dev, p)) \<longleftrightarrow>
      r_network r = net \<and> r_netmask r = m \<and> r_netdevIndex r = dev \<and> r_priority r = p" for r net m dev p
    by (auto simp: route_pair_def route_key_def route_val_def)
  show "LookupRoute d t = None \<longleftrightarrow> (\<forall>net m. d AND m = net \<longrightarrow> rt_map t (net, m) = None)"
  proof
    assume "LookupRoute d t = None"
    then have "\<forall>j<rt_size t. \<not> route_matches d (rt_routes t ! j)" using LookupRoute_spec [where d = d and t = t] by simp
    then have "rt_map t (d AND m, m) \<noteq> Some v" for m v
      by (cases v) (auto simp: entry pair route_matches_def)
    then show "\<forall>net m. d AND m = net \<longrightarrow> rt_map t (net, m) = None" by (metis not_None_eq)
  next
    assume none: "\<forall>net m. d AND m = net \<longrightarrow> rt_map t (net, m) = None"
    show "LookupRoute d t = None"
    proof (rule ccontr)
      assume "LookupRoute d t \<noteq> None"
      then obtain i where i: "i < rt_size t" "route_matches d (rt_routes t ! i)"
        using LookupRoute_spec [where d = d and t = t] by (auto split: option.splits)
      then have "\<exists>v. rt_map t (r_network (rt_routes t ! i), r_netmask (rt_routes t ! i)) = Some v"
        using entry pair by (metis surj_pair)
      with none i(2) show False by (metis option.distinct(1) route_matches_def)
    qed
  qed
  assume "LookupRoute d t = Some dev"
  then obtain i where i: "i < rt_size t" "r_netdevIndex (rt_routes t ! i) = dev" "route_matches d (rt_routes t ! i)"
    "\<forall>j<rt_size t. route_matches d (rt_routes t ! j) \<longrightarrow> as_good (rt_routes t ! i) (rt_routes t ! j)"
    using LookupRoute_spec [where d = d and t = t] by auto
  let ?m = "r_netmask (rt_routes t ! i)" and ?p = "r_priority (rt_routes t ! i)"
  have "rt_map t (d AND ?m, ?m) = Some (dev, ?p)"
    using i by (auto simp: entry pair route_matches_def)
  moreover have "getPrefixLength m' < getPrefixLength ?m \<or> getPrefixLength m' = getPrefixLength ?m \<and> p' \<le> ?p"
    if e: "rt_map t (d AND m', m') = Some (dev', p')" for m' dev' p'
  proof -
    obtain j where "j < rt_size t" "route_pair (rt_routes t ! j) = ((d AND m', m'), (dev', p'))"
      using e by (auto simp: entry)
    then show ?thesis using i(4) by (auto simp: pair route_matches_def as_good_def)
  qed
  ultimately show "\<exists>m p. rt_map t (d AND m, m) = Some (dev, p) \<and>
      (\<forall>m' dev' p'. rt_map t (d AND m', m') = Some (dev', p') \<longrightarrow>
        getPrefixLength m' < getPrefixLength m \<or> getPrefixLength m' = getPrefixLength m \<and> p' \<le> p)" by blast
qed

section \<open>Lookup\<close>

text \<open>
  \<^verbatim>\<open>CudaArpCache\<close> as the list of its live entries, \<^verbatim>\<open>CudaBridgeNetDevice\<close>'s learning table as a finite map, and
  \<^verbatim>\<open>LookaheadTable\<close> as a map from pairs to lists.
\<close>

section \<open>ARP cache\<close>

definition arp_list :: "CudaArpCache \<Rightarrow> ArpEntry list" where
  "arp_list c = take (ac_count c) (ac_entries c)"

definition arp_inv :: "CudaArpCache \<Rightarrow> bool" where
  "arp_inv c \<longleftrightarrow> length (ac_entries c) = MAX_CACHE_SIZE \<and> ac_count c \<le> MAX_CACHE_SIZE"

text \<open>Without the first entry of an address.\<close>

fun drop_first :: "u32 \<Rightarrow> ArpEntry list \<Rightarrow> ArpEntry list" where
  "drop_first ip [] = []"
| "drop_first ip (e # es) = (if ae_ip e = ip then es else e # drop_first ip es)"

lemma arp_list_length [simp]: "arp_inv c \<Longrightarrow> length (arp_list c) = ac_count c"
  by (simp add: arp_list_def arp_inv_def)

lemma search_live:
  assumes "n \<le> length xs"
  shows "first_index (\<lambda>i. P (xs ! i)) n = first_index (\<lambda>i. P (take n xs ! i)) n"
  by (rule first_index_cong) simp

text \<open>The search of an array is the search of the list of live entries.\<close>

lemma first_index_find:
  assumes "n \<le> length xs"
  shows "map_option (\<lambda>i. f (xs ! i)) (first_index (\<lambda>i. P (xs ! i)) n) = map_option f (find P (take n xs))"
proof (cases "first_index (\<lambda>i. P (xs ! i)) n")
  case None
  then have "\<forall>x\<in>set (take n xs). \<not> P x" using assms by (auto simp: first_index_None in_set_conv_nth)
  then have "find P (take n xs) = None" by (simp add: find_None_iff)
  with None show ?thesis by simp
next
  case (Some i)
  then have "i < length (take n xs)" "P (take n xs ! i)" "\<forall>j<i. \<not> P (take n xs ! j)"
    using assms by (auto simp: first_index_Some)
  moreover have "xs ! i = take n xs ! i" using \<open>i < length (take n xs)\<close> by simp
  ultimately have "find P (take n xs) = Some (xs ! i)" unfolding find_Some_iff by blast
  with Some show ?thesis by simp
qed

lemma arp_search:
  assumes "arp_inv c"
  shows "first_index (\<lambda>i. ae_ip (ac_entries c ! i) = ip) (ac_count c) =
    first_index (\<lambda>i. ae_ip (arp_list c ! i) = ip) (ac_count c)"
  unfolding arp_list_def using assms by (intro search_live) (simp add: arp_inv_def)

lemma Lookup_list:
  assumes "arp_inv c"
  shows "Lookup ip c = map_option ae_mac (find (\<lambda>e. ae_ip e = ip) (arp_list c))"
  unfolding Lookup_def arp_list_def using assms
  by (intro first_index_find [where P = "\<lambda>e. ae_ip e = ip"]) (simp add: arp_inv_def)

lemma AddEntry_list:
  assumes "arp_inv c"
  shows "arp_list (AddEntry ip mac c) =
      (if ac_count c < MAX_CACHE_SIZE then arp_list c @ [\<lparr>ae_ip = ip, ae_mac = mac\<rparr>] else arp_list c)"
    and "arp_inv (AddEntry ip mac c)"
  using assms by (auto simp: AddEntry_def arp_list_def arp_inv_def take_Suc_conv_app_nth)

lemma shift_down:
  assumes "i \<le> n" and "n < length xs"
  shows "fold (\<lambda>j es. es[j := es ! (j + 1)]) [i..<n] xs = take i xs @ take (n - i) (drop (Suc i) xs) @ drop n xs"
  using assms
proof (induction n)
  case 0
  then show ?case by simp
next
  case (Suc n)
  show ?case
  proof (cases "i = Suc n")
    case True
    then show ?thesis by simp
  next
    case False
    then have i: "i \<le> n" and n: "n < length xs" using Suc.prems by simp_all
    have d: "drop n xs = xs ! n # drop (Suc n) xs" and d': "drop (Suc n) xs = xs ! Suc n # drop (Suc (Suc n)) xs"
      using Suc.prems by (simp_all add: Cons_nth_drop_Suc)
    let ?a = "take i xs @ take (n - i) (drop (Suc i) xs)"
    have la: "length ?a = n" using i n Suc.prems by simp
    have ih: "fold (\<lambda>j es. es[j := es ! (j + 1)]) [i..<n] xs = ?a @ xs ! n # xs ! Suc n # drop (Suc (Suc n)) xs"
      using Suc.IH i n d d' by simp
    have nth: "(?a @ xs ! n # xs ! Suc n # drop (Suc (Suc n)) xs) ! (n + 1) = xs ! Suc n"
      using la by (metis Suc_eq_plus1 append.assoc append_Cons append_Nil length_append_singleton nth_append_length)
    have upd: "(?a @ xs ! n # xs ! Suc n # drop (Suc (Suc n)) xs)[n := xs ! Suc n] =
        ?a @ xs ! Suc n # xs ! Suc n # drop (Suc (Suc n)) xs"
      using la by (metis list_update_length)
    have t: "take (Suc n - i) (drop (Suc i) xs) = take (n - i) (drop (Suc i) xs) @ [xs ! Suc n]"
      using i Suc.prems by (simp add: Suc_diff_le take_Suc_conv_app_nth)
    have "fold (\<lambda>j es. es[j := es ! (j + 1)]) [i..<Suc n] xs =
        ?a @ xs ! Suc n # xs ! Suc n # drop (Suc (Suc n)) xs"
      using i by (simp only: upt_Suc_append fold_append o_apply fold_simps ih nth upd)
    then show ?thesis using t d' by simp
  qed
qed

lemma drop_first_nth:
  assumes "i < length es" and "ae_ip (es ! i) = ip" and "\<forall>j<i. ae_ip (es ! j) \<noteq> ip"
  shows "drop_first ip es = take i es @ drop (Suc i) es"
  using assms
proof (induction es arbitrary: i)
  case Nil
  then show ?case by simp
next
  case (Cons e es)
  show ?case
  proof (cases i)
    case 0
    with Cons.prems show ?thesis by simp
  next
    case (Suc k)
    then have "ae_ip e \<noteq> ip" using Cons.prems(3) by (metis nth_Cons_0 zero_less_Suc)
    moreover have "drop_first ip es = take k es @ drop (Suc k) es"
      using Cons.prems Suc by (intro Cons.IH) auto
    ultimately show ?thesis using Suc by simp
  qed
qed

lemma drop_first_none: "\<forall>e\<in>set es. ae_ip e \<noteq> ip \<Longrightarrow> drop_first ip es = es"
  by (induction es) auto

lemma RemoveEntry_list:
  assumes "arp_inv c"
  shows "arp_list (RemoveEntry ip c) = drop_first ip (arp_list c)" and "arp_inv (RemoveEntry ip c)"
proof -
  have "arp_list (RemoveEntry ip c) = drop_first ip (arp_list c) \<and> arp_inv (RemoveEntry ip c)"
  proof (cases "first_index (\<lambda>i. ae_ip (ac_entries c ! i) = ip) (ac_count c)")
    case None
    then have "\<forall>e\<in>set (arp_list c). ae_ip e \<noteq> ip"
      using assms unfolding arp_search [OF assms] first_index_None by (auto simp: in_set_conv_nth)
    then show ?thesis using None assms by (simp add: RemoveEntry_def drop_first_none)
  next
    case (Some i)
    let ?n = "ac_count c - 1" and ?es = "ac_entries c"
    have i: "i < ac_count c" and "ae_ip (arp_list c ! i) = ip" "\<forall>j<i. ae_ip (arp_list c ! j) \<noteq> ip"
      using Some assms unfolding arp_search [OF assms] by (simp_all add: first_index_Some)
    then have d: "drop_first ip (arp_list c) = take i (arp_list c) @ drop (Suc i) (arp_list c)"
      using assms by (intro drop_first_nth) simp_all
    have len: "i \<le> ?n" "?n < length ?es" using i assms unfolding arp_inv_def by linarith+
    note s = shift_down [OF len]
    have "take ?n (fold (\<lambda>j es. es[j := es ! (j + 1)]) [i..<?n] ?es) = take i ?es @ take (?n - i) (drop (Suc i) ?es)"
      using len unfolding s by simp
    also have "\<dots> = take i (arp_list c) @ drop (Suc i) (arp_list c)"
      using i by (simp add: arp_list_def drop_take)
    finally have "arp_list (RemoveEntry ip c) = drop_first ip (arp_list c)"
      using Some d by (simp add: RemoveEntry_def arp_list_def)
    moreover have "length (fold (\<lambda>j es. es[j := es ! (j + 1)]) [i..<?n] ?es) = length ?es"
      using len unfolding s by simp
    moreover have "ac_count c - 1 \<le> MAX_CACHE_SIZE" using assms unfolding arp_inv_def by linarith
    ultimately show ?thesis using Some assms by (simp add: RemoveEntry_def arp_inv_def)
  qed
  then show "arp_list (RemoveEntry ip c) = drop_first ip (arp_list c)" and "arp_inv (RemoveEntry ip c)" by simp_all
qed

lemma ArpCache_new_inv: "arp_inv ArpCache_new" "arp_list ArpCache_new = []"
  by (simp_all add: arp_inv_def arp_list_def ArpCache_new_def)

lemma find_append_if: "find P (xs @ ys) = (case find P xs of None \<Rightarrow> find P ys | Some x \<Rightarrow> Some x)"
  by (induction xs) auto

lemma find_drop_first_other: "ip' \<noteq> ip \<Longrightarrow>
    find (\<lambda>e. ae_ip e = ip') (drop_first ip es) = find (\<lambda>e. ae_ip e = ip') es"
  by (induction es) auto

lemma Lookup_AddEntry:
  assumes "arp_inv c"
  shows "Lookup ip' (AddEntry ip mac c) =
    (if Lookup ip' c = None \<and> ip' = ip \<and> ac_count c < MAX_CACHE_SIZE then Some mac else Lookup ip' c)"
  using assms by (auto simp: Lookup_list AddEntry_list find_append_if split: option.splits)

lemma Lookup_RemoveEntry:
  assumes "arp_inv c" and "ip' \<noteq> ip"
  shows "Lookup ip' (RemoveEntry ip c) = Lookup ip' c"
  using assms by (simp add: Lookup_list RemoveEntry_list find_drop_first_other)

inductive arp_reachable :: "CudaArpCache \<Rightarrow> bool" where
  new: "arp_reachable ArpCache_new"
| add: "arp_reachable c \<Longrightarrow> arp_reachable (AddEntry ip mac c)"
| remove: "arp_reachable c \<Longrightarrow> arp_reachable (RemoveEntry ip c)"
| clear: "arp_reachable c \<Longrightarrow> arp_reachable (Arp_Clear c)"

lemma arp_reachable_inv: "arp_reachable c \<Longrightarrow> arp_inv c"
  by (induction rule: arp_reachable.induct)
    (simp_all add: ArpCache_new_inv AddEntry_list RemoveEntry_list, simp add: arp_inv_def Arp_Clear_def)

section \<open>Learned addresses\<close>

definition learn_inv :: "learning \<Rightarrow> bool" where
  "learn_inv l \<longleftrightarrow> length (m_learningTable l) = MAX_MAC_ENTRIES \<and> tableSize l \<le> MAX_MAC_ENTRIES"

definition known :: "learning \<Rightarrow> mac set" where
  "known l = ls_mac ` set (take (tableSize l) (m_learningTable l))"

lemma learn_search:
  assumes "learn_inv l"
  shows "first_index (\<lambda>i. ls_mac (m_learningTable l ! i) = source) (tableSize l) = None \<longleftrightarrow> source \<notin> known l"
proof -
  have n: "tableSize l \<le> length (m_learningTable l)" using assms by (simp add: learn_inv_def)
  have "map_option (\<lambda>_. ()) (first_index (\<lambda>i. ls_mac (m_learningTable l ! i) = source) (tableSize l)) =
      map_option (\<lambda>_. ()) (find (\<lambda>e. ls_mac e = source) (take (tableSize l) (m_learningTable l)))"
    by (rule first_index_find [OF n])
  moreover have "find (\<lambda>e. ls_mac e = source) (take (tableSize l) (m_learningTable l)) = None \<longleftrightarrow> source \<notin> known l"
    by (auto simp: find_None_iff known_def)
  ultimately show ?thesis by (metis map_option_is_None)
qed

lemma Learn_inv: "learn_inv l \<Longrightarrow> learn_inv (Learn source port l)"
  by (auto simp: learn_inv_def Learn_def split: option.splits)

lemma Learn_full: "MAX_MAC_ENTRIES \<le> tableSize l \<Longrightarrow> Learn source port l = l"
  by (simp add: Learn_def)

lemma Learn_lookup:
  assumes "learn_inv l" and "m_enableLearning l" and "tableSize l < MAX_MAC_ENTRIES"
  shows "GetLearnedState mac (Learn source port l) = (if mac = source then port else GetLearnedState mac l)"
proof -
  let ?t = "m_learningTable l"
  show ?thesis
  proof (cases "first_index (\<lambda>i. ls_mac (?t ! i) = source) (tableSize l)")
    case None
    let ?t' = "?t[tableSize l := \<lparr>ls_mac = source, ls_associatedPort = port\<rparr>]"
    have e: "Learn source port l = l\<lparr>m_learningTable := ?t', tableSize := tableSize l + 1\<rparr>"
      using assms None by (simp add: Learn_def)
    have new: "?t' ! tableSize l = \<lparr>ls_mac = source, ls_associatedPort = port\<rparr>"
      using assms by (simp add: learn_inv_def)
    have "first_index (\<lambda>i. ls_mac (?t' ! i) = mac) (tableSize l) = first_index (\<lambda>i. ls_mac (?t ! i) = mac) (tableSize l)"
      by (rule first_index_cong) simp
    then have search: "first_index (\<lambda>i. ls_mac (?t' ! i) = mac) (Suc (tableSize l)) =
        (case first_index (\<lambda>i. ls_mac (?t ! i) = mac) (tableSize l) of
           Some i \<Rightarrow> Some i | None \<Rightarrow> if mac = source then Some (tableSize l) else None)"
      unfolding first_index_Suc using new by (auto split: option.splits)
    show ?thesis
    proof (cases "first_index (\<lambda>i. ls_mac (?t ! i) = mac) (tableSize l)")
      case none: None
      then show ?thesis using search new by (simp add: e GetLearnedState_def)
    next
      case (Some k)
      then have "mac \<noteq> source" using None by auto
      moreover have "k \<noteq> tableSize l" using Some by (simp add: first_index_Some)
      ultimately show ?thesis using search Some by (simp add: e GetLearnedState_def)
    qed
  next
    case (Some i)
    let ?t' = "?t[i := (?t ! i)\<lparr>ls_associatedPort := port\<rparr>]"
    have e: "Learn source port l = l\<lparr>m_learningTable := ?t'\<rparr>" using assms Some by (simp add: Learn_def)
    have i: "i < tableSize l" "ls_mac (?t ! i) = source" using Some by (simp_all add: first_index_Some)
    then have il: "i < length ?t" using assms by (simp add: learn_inv_def)
    have same: "ls_mac (?t' ! j) = ls_mac (?t ! j)" for j using il by (cases "j = i") auto
    have search: "first_index (\<lambda>i. ls_mac (?t' ! i) = mac) (tableSize l) = first_index (\<lambda>i. ls_mac (?t ! i) = mac) (tableSize l)"
      by (simp only: same)
    show ?thesis
    proof (cases "mac = source")
      case True
      then show ?thesis using Some il search by (simp add: e GetLearnedState_def)
    next
      case False
      then have "k \<noteq> i" if "first_index (\<lambda>i. ls_mac (?t ! i) = mac) (tableSize l) = Some k" for k
        using that i by (auto simp: first_index_Some)
      then show ?thesis using False search by (auto simp: e GetLearnedState_def split: option.splits)
    qed
  qed
qed

lemma GetLearnedState_unknown: "learn_inv l \<Longrightarrow> source \<notin> known l \<Longrightarrow> GetLearnedState source l = nullptr"
  using learn_search [of l source] by (simp add: GetLearnedState_def)

lemma learning_new_inv: "learn_inv learning_new" "tableSize learning_new = 0" "m_enableLearning learning_new"
  by (simp_all add: learn_inv_def learning_new_def)

inductive learn_reachable :: "learning \<Rightarrow> bool" where
  new: "learn_reachable learning_new"
| learn: "learn_reachable l \<Longrightarrow> learn_reachable (Learn source port l)"

lemma Learn_enabled [simp]: "m_enableLearning (Learn source port l) = m_enableLearning l"
  by (simp add: Learn_def split: option.splits)

lemma learn_reachable_inv: "learn_reachable l \<Longrightarrow> learn_inv l \<and> m_enableLearning l"
  by (induction rule: learn_reachable.induct) (simp_all add: learning_new_inv Learn_inv)

text \<open>Station \<open>i\<close> learned on port \<open>i\<close>, for 16 stations.\<close>

definition full_table :: learning where
  "full_table = fold (\<lambda>i. Learn [0, 0, 0, 0, 0, of_nat i] (of_nat i)) [1..<17] learning_new"

lemma full_table_reachable: "learn_reachable full_table"
proof -
  have "learn_reachable (fold (\<lambda>i. Learn (f i) (g i)) xs l)" if "learn_reachable l" for f :: "nat \<Rightarrow> mac" and g xs l
    using that by (induction xs arbitrary: l) (simp_all add: learn_reachable.learn)
  then show ?thesis unfolding full_table_def by (simp add: learn_reachable.new)
qed

section \<open>Lookahead table\<close>

lemma getValues_addValue:
  "getValues s d (addValue s' d' v t) = (if s = s' \<and> d = d' then getValues s d t @ [v] else getValues s d t)"
  by (auto simp: getValues_def addValue_def makeKey_def Let_def split: option.splits)

lemma getValue_first:
  "getValue s d 0 t = (case getValues s d t of [] \<Rightarrow> Inl () | v # _ \<Rightarrow> Inr v)"
  by (auto simp: getValue_def Let_def split: list.splits)

lemma hasConnection_addValue: "hasConnection s d (addValue s d v t)"
  by (simp add: hasConnection_def addValue_def makeKey_def Let_def)

end
