(* ===== verification/Queue_Spec.thy ===== *)
theory Queue_Spec
  imports Prelude
begin

text \<open>
  What the devices of both stacks need of a transmit queue.  The rings of the GPU stack (\<open>Gpu_Ring\<close>) and
  \<^verbatim>\<open>DropTailQueue\<close> of ns-3 (\<open>Drop_Tail\<close>) interpret these locales.
\<close>

section \<open>A bounded queue\<close>

text \<open>\<open>good x\<close>: the queue may hold \<open>x\<close>.  A queue that refuses an item may change otherwise, such as count it as dropped.\<close>

locale bounded_queue =
  fixes enq :: "'a \<Rightarrow> 'q \<Rightarrow> bool \<times> 'q" and deq :: "'q \<Rightarrow> 'a option \<times> 'q"
    and list :: "'q \<Rightarrow> 'a list" and invar :: "'q \<Rightarrow> bool" and cap :: nat and good :: "'a \<Rightarrow> bool"
  assumes enq_room: "invar q \<Longrightarrow> good x \<Longrightarrow> length (list q) < cap \<Longrightarrow>
      fst (enq x q) \<and> list (snd (enq x q)) = list q @ [x] \<and> invar (snd (enq x q))"
    and enq_drop: "invar q \<Longrightarrow> good x \<Longrightarrow> cap \<le> length (list q) \<Longrightarrow>
      \<not> fst (enq x q) \<and> list (snd (enq x q)) = list q \<and> invar (snd (enq x q))"
    and deq_none: "invar q \<Longrightarrow> list q = [] \<Longrightarrow>
      fst (deq q) = None \<and> list (snd (deq q)) = [] \<and> invar (snd (deq q))"
    and deq_Cons: "invar q \<Longrightarrow> list q = x # xs \<Longrightarrow>
      fst (deq q) = Some x \<and> list (snd (deq q)) = xs \<and> invar (snd (deq q))"
begin

fun enq_all :: "'a list \<Rightarrow> 'q \<Rightarrow> bool list \<times> 'q" where
  "enq_all [] q = ([], q)"
| "enq_all (x # xs) q = (let (b, q) = enq x q; (bs, q) = enq_all xs q in (b # bs, q))"

fun deq_n :: "nat \<Rightarrow> 'q \<Rightarrow> 'a option list \<times> 'q" where
  "deq_n 0 q = ([], q)"
| "deq_n (Suc n) q = (let (x, q) = deq q; (xs, q) = deq_n n q in (x # xs, q))"

lemma enq_all_spec:
  assumes "invar q" and "\<forall>x\<in>set xs. good x"
  shows "list (snd (enq_all xs q)) = list q @ take (cap - length (list q)) xs \<and> invar (snd (enq_all xs q))"
  using assms
proof (induction xs arbitrary: q)
  case Nil
  then show ?case by simp
next
  case (Cons x xs)
  show ?case
  proof (cases "length (list q) < cap")
    case True
    then have e: "fst (enq x q) \<and> list (snd (enq x q)) = list q @ [x] \<and> invar (snd (enq x q))"
      using Cons.prems by (intro enq_room) auto
    have "cap - length (list q) = Suc (cap - Suc (length (list q)))" using True by simp
    then have "take (cap - length (list q)) (x # xs) = x # take (cap - Suc (length (list q))) xs" by simp
    with Cons.IH [of "snd (enq x q)"] Cons.prems e show ?thesis
      by (simp add: split_beta Let_def)
  next
    case False
    then have "\<not> fst (enq x q) \<and> list (snd (enq x q)) = list q \<and> invar (snd (enq x q))"
      using Cons.prems by (intro enq_drop) auto
    with Cons.IH [of "snd (enq x q)"] Cons.prems False show ?thesis by (simp add: split_beta Let_def)
  qed
qed

lemma deq_n_spec:
  assumes "invar q"
  shows "fst (deq_n n q) = map Some (take n (list q)) @ replicate (n - length (list q)) None \<and>
    list (snd (deq_n n q)) = drop n (list q) \<and> invar (snd (deq_n n q))"
  using assms
proof (induction n arbitrary: q)
  case 0
  then show ?case by simp
next
  case (Suc n)
  show ?case
  proof (cases "list q")
    case Nil
    then have "fst (deq q) = None \<and> list (snd (deq q)) = [] \<and> invar (snd (deq q))"
      using Suc.prems by (intro deq_none)
    with Suc.IH [of "snd (deq q)"] Nil show ?thesis by (simp add: split_beta Let_def)
  next
    case (Cons x xs)
    then have "fst (deq q) = Some x \<and> list (snd (deq q)) = xs \<and> invar (snd (deq q))"
      using Suc.prems by (intro deq_Cons)
    with Suc.IH [of "snd (deq q)"] Cons show ?thesis by (simp add: split_beta Let_def)
  qed
qed

text \<open>What is put into an empty queue comes out in order; what does not fit is refused.\<close>

lemma in_order:
  assumes "invar q" and "list q = []" and "\<forall>x\<in>set xs. good x"
  shows "fst (deq_n (length xs) (snd (enq_all xs q))) =
    map Some (take cap xs) @ replicate (length xs - cap) None"
proof -
  have "list (snd (enq_all xs q)) = take cap xs" and "invar (snd (enq_all xs q))"
    using enq_all_spec [OF assms(1,3)] assms(2) by simp_all
  then show ?thesis
    using deq_n_spec [of "snd (enq_all xs q)" "length xs"] by (cases "length xs \<le> cap") simp_all
qed

end

section \<open>A queue that a refusal leaves alone\<close>

locale fifo =
  fixes enq :: "'a \<Rightarrow> 'q \<Rightarrow> bool \<times> 'q" and deq :: "'q \<Rightarrow> 'a option \<times> 'q"
    and list :: "'q \<Rightarrow> 'a list" and invar :: "'q \<Rightarrow> bool" and cap :: nat and good :: "'a \<Rightarrow> bool"
  assumes room: "invar q \<Longrightarrow> good x \<Longrightarrow> length (list q) < cap \<Longrightarrow>
      fst (enq x q) \<and> list (snd (enq x q)) = list q @ [x] \<and> invar (snd (enq x q))"
    and enq_full: "invar q \<Longrightarrow> cap \<le> length (list q) \<Longrightarrow> enq x q = (False, q)"
    and deq_empty: "invar q \<Longrightarrow> list q = [] \<Longrightarrow> deq q = (None, q)"
    and next_item: "invar q \<Longrightarrow> list q = x # xs \<Longrightarrow>
      fst (deq q) = Some x \<and> list (snd (deq q)) = xs \<and> invar (snd (deq q))"

sublocale fifo \<subseteq> bounded_queue enq deq list invar cap good
  by unfold_locales (use room enq_full deq_empty next_item in simp_all)

end
