(* ===== verification/Gpu_Ring.thy ===== *)
theory Gpu_Ring
  imports Queue_Spec
begin

text \<open>
  The two rings of packet pointers of the GPU stack, which hand out positions by compare-and-swap on 32-bit counters:
  the transmit queue of \<^verbatim>\<open>CudaNetDevice\<close> (\<^verbatim>\<open>EnqueuePacket\<close>, \<^verbatim>\<open>DequeuePacket\<close> in
  \<^verbatim>\<open>contrib/cuda/model/cuda-net-device.cu\<close>) and \<^verbatim>\<open>Cuda_PairList\<close> (\<^verbatim>\<open>contrib/cuda/helper/cuda-helper.h\<close>), the
  delivery queue of a socket.  The operations are given here as one thread runs them, where the
  compare-and-swap succeeds at the first try; interleavings of threads are in \<open>Gpu_Race\<close>.

  Both rings interpret the locale \<open>fifo\<close> of \<open>Queue_Spec\<close>, with the counters wrapping around.
\<close>

section \<open>The transmit queue of a device\<close>

record tx_queue =
  d_packetQueue :: "ptr list"
  d_queueFront :: u32
  d_queueRear :: u32
  m_queueSize :: u32

definition tx_queue_new :: tx_queue where
  "tx_queue_new = \<lparr>d_packetQueue = replicate 2048 nullptr, d_queueFront = 0, d_queueRear = 0, m_queueSize = 2048\<rparr>"

definition EnqueuePacket :: "ptr \<Rightarrow> tx_queue \<Rightarrow> bool \<times> tx_queue" where
  "EnqueuePacket packet q =
     (let rear = d_queueRear q; front = d_queueFront q
      in if rear - front \<ge> m_queueSize q then (False, q)
         else
           (let q = q\<lparr>d_queueRear := rear + 1\<rparr>;
                pos = unat (rear AND (m_queueSize q - 1))
            in (True, q\<lparr>d_packetQueue := (d_packetQueue q)[pos := packet]\<rparr>)))"

text \<open>\<open>ready p\<close>: \<^verbatim>\<open>p->ready\<close> is not 0.  \<^verbatim>\<open>rear - front <= 0\<close> compares signed.\<close>

definition DequeuePacket :: "(ptr \<Rightarrow> bool) \<Rightarrow> tx_queue \<Rightarrow> ptr option \<times> tx_queue" where
  "DequeuePacket ready q =
     (let rear = d_queueRear q; front = d_queueFront q
      in if sint (rear - front) \<le> 0 then (None, q)
         else
           (let q = q\<lparr>d_queueFront := front + 1\<rparr>;
                pos = unat (front AND (m_queueSize q - 1));
                packet = d_packetQueue q ! pos
            in if packet = nullptr \<or> \<not> ready packet then (None, q)
               else (Some packet, q\<lparr>d_packetQueue := (d_packetQueue q)[pos := nullptr]\<rparr>)))"

section \<open>The delivery queue of a socket\<close>

text \<open>\<^verbatim>\<open>m_size\<close> of the list is set to 0 by the constructor and never changed.\<close>

record pair_list =
  pair_elements :: "(ptr \<times> u32) list"
  pl_front :: u32
  pl_rear :: u32
  pl_size :: int
  pl_capacity :: int

definition pair_list_new :: "nat \<Rightarrow> pair_list" where
  "pair_list_new capacity = \<lparr>pair_elements = replicate capacity (nullptr, 0), pl_front = 0, pl_rear = 0,
     pl_size = 0, pl_capacity = int capacity\<rparr>"

definition PairList_Add :: "ptr \<times> u32 \<Rightarrow> pair_list \<Rightarrow> bool \<times> pair_list" where
  "PairList_Add e l =
     (if pl_size l < pl_capacity l then
        (let rear_val = pl_rear l; front_val = pl_front l
         in if rear_val - front_val \<ge> of_int (pl_capacity l) then (False, l)
            else
              (let l = l\<lparr>pl_rear := rear_val + 1\<rparr>;
                   t_rear = unat (rear_val AND (of_int (pl_capacity l) - 1))
               in (True, l\<lparr>pair_elements := (pair_elements l)[t_rear := e]\<rparr>)))
      else (False, l))"

definition PairList_empty :: "pair_list \<Rightarrow> bool" where
  "PairList_empty l \<longleftrightarrow> pl_front l = pl_rear l"

definition PairList_pop_front :: "pair_list \<Rightarrow> (ptr \<times> u32) \<times> pair_list" where
  "PairList_pop_front l =
     (let rear_val = pl_rear l; front_val = pl_front l
      in if rear_val - front_val = 0 then ((nullptr, 0), l)
         else
           (let l = l\<lparr>pl_front := front_val + 1\<rparr>;
                t_front = unat (front_val AND (of_int (pl_capacity l) - 1))
            in (pair_elements l ! t_front, l)))"

text \<open>How \<^verbatim>\<open>CudaRecv\<close> takes from it.\<close>

definition PairList_take :: "pair_list \<Rightarrow> (ptr \<times> u32) option \<times> pair_list" where
  "PairList_take l =
     (if PairList_empty l then (None, l) else (let (e, l) = PairList_pop_front l in (Some e, l)))"

section \<open>Positions of a ring\<close>

text \<open>The entries from counter \<open>f\<close> on, of a ring whose size is a power of two.\<close>

definition ring_list :: "'a list \<Rightarrow> u32 \<Rightarrow> nat \<Rightarrow> 'a list" where
  "ring_list xs f n = map (\<lambda>k. xs ! ((unat f + k) mod length xs)) [0..<n]"

lemma unat_and_mask:
  assumes "k < 32"
  shows "unat ((x :: u32) AND (2 ^ k - 1)) = unat x mod 2 ^ k"
proof -
  have "x AND (2 ^ k - 1) = take_bit k x" by (simp only: take_bit_eq_mask mask_eq_exp_minus_1)
  then have "unat (x AND (2 ^ k - 1)) = take_bit k (unat x)" by (simp only: unsigned_take_bit_eq)
  then show ?thesis by (simp only: take_bit_eq_mod)
qed

lemma ring_pos:
  assumes "k < 32" and "m = 2 ^ k"
  shows "unat (((f :: u32) + of_nat n) AND (2 ^ k - 1)) = (unat f + n) mod m"
proof -
  have dvd: "m dvd 2 ^ 32" unfolding assms(2) using assms(1) by (intro le_imp_power_dvd) simp
  have "unat (f + of_nat n) = (unat f + n) mod 2 ^ 32"
    by (simp add: unat_word_ariths unat_of_nat mod_simps)
  then show ?thesis using unat_and_mask [OF assms(1), of "f + of_nat n"] mod_mod_cancel [OF dvd] assms(2) by simp
qed

lemma ring_list_length [simp]: "length (ring_list xs f n) = n"
  by (simp add: ring_list_def)

lemma ring_list_0 [simp]: "ring_list xs f 0 = []"
  by (simp add: ring_list_def)

lemma mod_add_neq:
  assumes "(a + j) mod n = (a + k) mod (n :: nat)" and "j < n" and "k < n"
  shows "j = k"
proof -
  have "(int a + int j) mod int n = (int a + int k) mod int n"
    using assms(1) by (metis of_nat_add of_nat_mod)
  then have "int n dvd int j - int k" by (metis add_diff_cancel_left mod_eq_dvd_iff)
  then obtain q where q: "int j - int k = int n * q" by (auto elim: dvdE)
  then have "\<bar>int n * q\<bar> < int n" using assms(2,3) by (simp flip: q)
  then have "q = 0" using assms(2) by (simp add: abs_mult)
  then show ?thesis using q by simp
qed

lemma ring_list_snoc:
  assumes "n < length xs" and "pos = (unat f + n) mod length xs"
  shows "ring_list (xs[pos := x]) f (Suc n) = ring_list xs f n @ [x]"
proof -
  have pos: "pos < length xs" using assms by (metis mod_less_divisor neq0_conv not_less0)
  have "(unat f + k) mod length xs \<noteq> pos" if "k < n" for k
    using mod_add_neq [of "unat f" k "length xs" n] that assms by auto
  then have ne: "pos \<noteq> (unat f + k) mod length xs" if "k < n" for k
    using that by metis
  have "ring_list (xs[pos := x]) f n = ring_list xs f n"
    using ne by (intro nth_equalityI) (simp_all add: ring_list_def)
  moreover have "ring_list (xs[pos := x]) f (Suc n) = ring_list (xs[pos := x]) f n @ [x]"
    using pos assms(2) by (simp add: ring_list_def)
  ultimately show ?thesis by simp
qed

lemma ring_shift:
  assumes "m = 2 ^ k" and "k < 32"
  shows "(unat (f + 1 :: u32) + j) mod m = (unat f + Suc j) mod m"
proof -
  have dvd: "m dvd 2 ^ 32" unfolding assms(1) using assms(2) by (intro le_imp_power_dvd) simp
  have "unat (f + 1) = (unat f + 1) mod 2 ^ 32" by (simp add: unat_word_ariths(1))
  then have "unat (f + 1) mod m = (unat f + 1) mod m" by (simp only: mod_mod_cancel [OF dvd])
  then have "(unat (f + 1) + j) mod m = (unat f + 1 + j) mod m" by (rule mod_add_cong) (rule refl)
  then show ?thesis by simp
qed

lemma ring_list_Suc:
  assumes "length xs = 2 ^ k" and "k < 32"
  shows "ring_list xs f (Suc n) = xs ! (unat f mod length xs) # ring_list xs (f + 1) n"
proof (rule nth_equalityI)
  fix i
  assume "i < length (ring_list xs f (Suc n))"
  then show "ring_list xs f (Suc n) ! i = (xs ! (unat f mod length xs) # ring_list xs (f + 1) n) ! i"
    unfolding ring_list_def ring_shift [OF assms] by (cases i) (simp_all del: upt_Suc)
qed simp

lemma ring_list_clear:
  assumes "n < length xs" and "length xs = 2 ^ k" and "k < 32"
  shows "ring_list (xs[unat f mod length xs := x]) (f + 1) n = ring_list xs (f + 1) n"
proof (rule nth_equalityI)
  fix j
  assume "j < length (ring_list (xs[unat f mod length xs := x]) (f + 1) n)"
  then have j: "j < n" by simp
  have "(unat f + Suc j) mod length xs \<noteq> (unat f + 0) mod length xs"
  proof
    assume "(unat f + Suc j) mod length xs = (unat f + 0) mod length xs"
    then have "Suc j = 0" by (rule mod_add_neq) (use j assms(1) in linarith)+
    then show False by simp
  qed
  then have "unat f mod length xs \<noteq> (unat f + Suc j) mod length xs" by (simp add: eq_commute)
  then show "ring_list (xs[unat f mod length xs := x]) (f + 1) n ! j = ring_list xs (f + 1) n ! j"
    using j unfolding ring_list_def length_list_update ring_shift [OF assms(2,3)] by simp
qed simp

lemma counter_Suc:
  assumes "unat (r - f) < 2 ^ 32 - 1"
  shows "unat (r + 1 - f :: u32) = Suc (unat (r - f))"
proof -
  have e: "r + 1 - f = 1 + (r - f)" by simp
  have "1 + (r - f) \<noteq> 0"
  proof
    assume "1 + (r - f) = 0"
    then have "r - f = - 1" by (metis add.commute eq_neg_iff_add_eq_0)
    then show False using assms by (simp add: unsigned_minus_1_eq_mask mask_eq_exp_minus_1)
  qed
  then show ?thesis unfolding e by (rule unatSuc)
qed

lemma counter_pred:
  assumes "0 < unat (r - f)"
  shows "unat (r - (f + 1) :: u32) = unat (r - f) - 1"
proof -
  have "r - (f + 1) = (r - f) - 1" by simp
  then show ?thesis using assms unat_minus_one by (metis neq0_conv unat_0 less_irrefl)
qed

section \<open>Both rings are queues\<close>

definition tx_list :: "tx_queue \<Rightarrow> ptr list" where
  "tx_list q = ring_list (d_packetQueue q) (d_queueFront q) (unat (d_queueRear q - d_queueFront q))"

definition tx_good :: "(ptr \<Rightarrow> bool) \<Rightarrow> ptr \<Rightarrow> bool" where
  "tx_good ready p \<longleftrightarrow> p \<noteq> nullptr \<and> ready p"

definition tx_invar :: "(ptr \<Rightarrow> bool) \<Rightarrow> tx_queue \<Rightarrow> bool" where
  "tx_invar ready q \<longleftrightarrow> length (d_packetQueue q) = 2048 \<and> m_queueSize q = 2048 \<and>
     unat (d_queueRear q - d_queueFront q) \<le> 2048 \<and> (\<forall>p\<in>set (tx_list q). tx_good ready p)"

lemma mask_11: "(2048 :: u32) - 1 = 2 ^ 11 - 1" "(2 :: nat) ^ 11 = 2048"
  by simp_all

lemma tx_pos: "unat ((f + of_nat n) AND ((2048 :: u32) - 1)) = (unat f + n) mod 2048"
  using ring_pos [of 11 2048 f n] by simp

lemma rear_as_front: "r = f + of_nat (unat (r - f))" for r f :: u32
  by simp

lemma sint_pos:
  assumes "unat (x :: u32) \<le> 2048"
  shows "sint x = int (unat x)"
proof -
  have small: "signed_take_bit 31 (int n) = int n" if "n \<le> 2048" for n
    using that by (intro signed_take_bit_int_eq_self) simp_all
  have "sint x = signed_take_bit 31 (int (unat x))" by (simp add: sint_uint)
  then show ?thesis by (simp only: small [OF assms])
qed

interpretation txq: fifo EnqueuePacket "DequeuePacket ready" tx_list "tx_invar ready" 2048 "tx_good ready"
  for ready
proof (unfold_locales, goal_cases)
  case (1 q x)
  let ?n = "unat (d_queueRear q - d_queueFront q)" and ?xs = "d_packetQueue q"
  let ?pos = "(unat (d_queueFront q) + ?n) mod 2048"
  have l: "length ?xs = 2048" "m_queueSize q = 2048" "?n < 2048" using 1 by (simp_all add: tx_invar_def tx_list_def)
  have pos: "unat (d_queueRear q AND ((2048 :: u32) - 1)) = ?pos"
    unfolding tx_pos [symmetric] rear_as_front [symmetric] ..
  have e: "EnqueuePacket x q = (True, q\<lparr>d_queueRear := d_queueRear q + 1, d_packetQueue := ?xs[?pos := x]\<rparr>)"
    using l pos by (simp add: EnqueuePacket_def Let_def word_le_nat_alt)
  have n: "unat (d_queueRear q + 1 - d_queueFront q) = Suc ?n" using l by (intro counter_Suc) simp
  have "tx_list (snd (EnqueuePacket x q)) = tx_list q @ [x]"
    using ring_list_snoc [of ?n ?xs ?pos "d_queueFront q" x] l n by (simp add: e tx_list_def)
  then show ?case using 1 l n by (auto simp: e tx_invar_def)
next
  case (2 q x)
  then show ?case by (simp add: tx_invar_def tx_list_def EnqueuePacket_def Let_def word_le_nat_alt)
next
  case (3 q)
  then have "unat (d_queueRear q - d_queueFront q) = 0" by (metis ring_list_length list.size(3) tx_list_def)
  then show ?case using sint_pos [of "d_queueRear q - d_queueFront q"] by (simp add: DequeuePacket_def)
next
  case (4 q x xs)
  let ?f = "d_queueFront q" and ?ps = "d_packetQueue q"
  have l: "length ?ps = 2048" "m_queueSize q = 2048" "unat (d_queueRear q - ?f) \<le> 2048"
    and good: "tx_good ready x" and gs: "\<forall>p\<in>set xs. tx_good ready p"
    using 4 by (simp_all add: tx_invar_def)
  obtain n where n: "unat (d_queueRear q - ?f) = Suc n"
    using 4(2) by (metis ring_list_length tx_list_def length_Cons)
  have split: "tx_list q = ?ps ! (unat ?f mod 2048) # ring_list ?ps (?f + 1) n"
    using ring_list_Suc [of ?ps 11 ?f n] l n by (simp add: tx_list_def)
  have pos: "unat (?f AND ((2048 :: u32) - 1)) = unat ?f mod 2048" using tx_pos [of ?f 0] by simp
  have s: "0 < sint (d_queueRear q - ?f)" using sint_pos [OF l(3)] n by simp
  have d: "DequeuePacket ready q = (Some x, q\<lparr>d_queueFront := ?f + 1,
      d_packetQueue := ?ps[unat ?f mod 2048 := nullptr]\<rparr>)"
    using split 4(2) good pos s l by (simp add: DequeuePacket_def Let_def tx_good_def)
  have n': "unat (d_queueRear q - (?f + 1)) = n" using counter_pred [of "d_queueRear q" ?f] n by simp
  have "tx_list (snd (DequeuePacket ready q)) = xs"
    using ring_list_clear [of n ?ps 11 ?f nullptr] l n n' split 4(2) by (simp add: d tx_list_def)
  then show ?case using l n n' gs by (auto simp: d tx_invar_def)
qed

definition pl_list :: "pair_list \<Rightarrow> (ptr \<times> u32) list" where
  "pl_list l = ring_list (pair_elements l) (pl_front l) (unat (pl_rear l - pl_front l))"

definition pl_invar :: "pair_list \<Rightarrow> bool" where
  "pl_invar l \<longleftrightarrow> length (pair_elements l) = 1024 \<and> pl_capacity l = 1024 \<and> pl_size l = 0 \<and>
     unat (pl_rear l - pl_front l) \<le> 1024"

lemma pl_pos: "unat ((f + of_nat n) AND ((1024 :: u32) - 1)) = (unat f + n) mod 1024"
  using ring_pos [of 10 1024 f n] by simp

interpretation plq: fifo PairList_Add PairList_take pl_list pl_invar 1024 "\<lambda>_. True"
proof (unfold_locales, goal_cases)
  case (1 l x)
  let ?n = "unat (pl_rear l - pl_front l)" and ?xs = "pair_elements l"
  let ?pos = "(unat (pl_front l) + ?n) mod 1024"
  have l: "length ?xs = 1024" "pl_capacity l = 1024" "pl_size l = 0" "?n < 1024"
    using 1 by (simp_all add: pl_invar_def pl_list_def)
  have pos: "unat (pl_rear l AND ((1024 :: u32) - 1)) = ?pos"
    unfolding pl_pos [symmetric] rear_as_front [symmetric] ..
  have e: "PairList_Add x l = (True, l\<lparr>pl_rear := pl_rear l + 1, pair_elements := ?xs[?pos := x]\<rparr>)"
    using l pos by (simp add: PairList_Add_def Let_def word_le_nat_alt)
  have n: "unat (pl_rear l + 1 - pl_front l) = Suc ?n" using l by (intro counter_Suc) simp
  have "pl_list (snd (PairList_Add x l)) = pl_list l @ [x]"
    using ring_list_snoc [of ?n ?xs ?pos "pl_front l" x] l n by (simp add: e pl_list_def)
  then show ?case using l n by (simp add: e pl_invar_def)
next
  case (2 l x)
  then show ?case by (simp add: pl_invar_def pl_list_def PairList_Add_def Let_def word_le_nat_alt)
next
  case (3 l)
  then have "unat (pl_rear l - pl_front l) = 0" by (metis ring_list_length list.size(3) pl_list_def)
  then have "pl_front l = pl_rear l" by (simp add: unat_eq_zero)
  then show ?case by (simp add: PairList_take_def PairList_empty_def)
next
  case (4 l x xs)
  let ?f = "pl_front l" and ?ps = "pair_elements l"
  have l: "length ?ps = 1024" "pl_capacity l = 1024" "pl_size l = 0" "unat (pl_rear l - ?f) \<le> 1024"
    using 4 by (simp_all add: pl_invar_def)
  obtain n where n: "unat (pl_rear l - ?f) = Suc n"
    using 4(2) by (metis ring_list_length pl_list_def length_Cons)
  have split: "pl_list l = ?ps ! (unat ?f mod 1024) # ring_list ?ps (?f + 1) n"
    using ring_list_Suc [of ?ps 10 ?f n] l n by (simp add: pl_list_def)
  have pos: "unat (?f AND ((1024 :: u32) - 1)) = unat ?f mod 1024" using pl_pos [of ?f 0] by simp
  have ne: "?f \<noteq> pl_rear l" using n by auto
  then have ne': "pl_rear l - ?f \<noteq> 0" by simp
  have d: "PairList_take l = (Some x, l\<lparr>pl_front := ?f + 1\<rparr>)"
    using split 4(2) pos ne ne' l by (simp add: PairList_take_def PairList_empty_def PairList_pop_front_def Let_def)
  have n': "unat (pl_rear l - (?f + 1)) = n" using counter_pred [of "pl_rear l" ?f] n by simp
  then show ?case using split 4(2) l n by (simp add: d pl_list_def pl_invar_def)
qed

section \<open>The transmit ring access by access\<close>

text \<open>
  \<^verbatim>\<open>EnqueuePacket\<close> and \<^verbatim>\<open>DequeuePacket\<close> of \<^verbatim>\<open>contrib/cuda/model/cuda-net-device.cu\<close> cut into their accesses to the shared
  queue, one \<open>thread_step\<close> per access, so that threads of the GPU interleave.  A program counter holds what the
  thread has read so far.
\<close>

datatype thread =
    EnqStart ptr | EnqRear ptr u32 | EnqTry ptr u32 u32 | EnqSlot ptr u32 | EnqDone bool
  | DeqStart | DeqRear u32 | DeqTry u32 u32 | DeqSlot u32 | DeqClear u32 ptr | DeqDone "ptr option"

fun thread_step :: "(ptr \<Rightarrow> bool) \<Rightarrow> thread \<Rightarrow> tx_queue \<Rightarrow> thread \<times> tx_queue" where
  "thread_step ready (EnqStart p) q = (EnqRear p (d_queueRear q), q)"
| "thread_step ready (EnqRear p rear) q =
     (let front = d_queueFront q
      in (if rear - front \<ge> m_queueSize q then EnqDone False else EnqTry p rear front, q))"
| "thread_step ready (EnqTry p rear front) q =
     (if d_queueRear q = rear then (EnqSlot p rear, q\<lparr>d_queueRear := rear + 1\<rparr>) else (EnqStart p, q))"
| "thread_step ready (EnqSlot p rear) q =
     (EnqDone True, q\<lparr>d_packetQueue := (d_packetQueue q)[unat (rear AND (m_queueSize q - 1)) := p]\<rparr>)"
| "thread_step ready (EnqDone b) q = (EnqDone b, q)"
| "thread_step ready DeqStart q = (DeqRear (d_queueRear q), q)"
| "thread_step ready (DeqRear rear) q =
     (let front = d_queueFront q
      in (if sint (rear - front) \<le> 0 then DeqDone None else DeqTry rear front, q))"
| "thread_step ready (DeqTry rear front) q =
     (if d_queueFront q = front then (DeqSlot front, q\<lparr>d_queueFront := front + 1\<rparr>) else (DeqStart, q))"
| "thread_step ready (DeqSlot front) q =
     (let packet = d_packetQueue q ! unat (front AND (m_queueSize q - 1))
      in (if packet = nullptr \<or> \<not> ready packet then DeqDone None else DeqClear front packet, q))"
| "thread_step ready (DeqClear front packet) q =
     (DeqDone (Some packet), q\<lparr>d_packetQueue := (d_packetQueue q)[unat (front AND (m_queueSize q - 1)) := nullptr]\<rparr>)"
| "thread_step ready (DeqDone r) q = (DeqDone r, q)"

text \<open>A schedule names the thread that makes the next access.\<close>

fun run_threads :: "(ptr \<Rightarrow> bool) \<Rightarrow> nat list \<Rightarrow> thread list \<times> tx_queue \<Rightarrow> thread list \<times> tx_queue" where
  "run_threads ready [] s = s"
| "run_threads ready (i # is) (ts, q) =
     (if i < length ts then (let (t, q) = thread_step ready (ts ! i) q in run_threads ready is (ts[i := t], q))
      else run_threads ready is (ts, q))"

text \<open>Threads that run one after the other are the operations of \<open>Gpu_Ring\<close>.\<close>

lemma run_enqueue:
  "run_threads ready [0, 0, 0, 0] ([EnqStart p], q) =
    (let (b, q') = EnqueuePacket p q in ([EnqDone b], q'))"
  by (simp add: EnqueuePacket_def Let_def)

lemma run_dequeue:
  "run_threads ready [0, 0, 0, 0, 0] ([DeqStart], q) =
    (let (r, q') = DequeuePacket ready q in ([DeqDone r], q'))"
  by (simp add: DequeuePacket_def Let_def)

section \<open>A slot claimed but not written\<close>

definition empty_queue :: "u32 \<Rightarrow> tx_queue" where
  "empty_queue c = tx_queue_new\<lparr>d_queueFront := c, d_queueRear := c\<rparr>"

definition lost_queue :: "ptr \<Rightarrow> u32 \<Rightarrow> tx_queue" where
  "lost_queue p c = \<lparr>d_packetQueue = (replicate 2048 nullptr)[unat (c AND 2047) := p],
     d_queueFront = c + 1, d_queueRear = c + 1, m_queueSize = 2048\<rparr>"

lemma and_2047: "unat ((c :: u32) AND 2047) < 2048"
proof -
  have "unat (c AND 2047) = unat c mod 2048" using unat_and_mask [of 11 c] by simp
  also have "\<dots> < 2048" by (rule mod_less_divisor) simp
  finally show ?thesis .
qed

lemma racing_run:
  "run_threads ready [0, 0, 0, 1, 1, 1, 1, 0] ([EnqStart p, DeqStart], empty_queue c) =
    ([EnqDone True, DeqDone None], lost_queue p c)"
proof -
  have one: "c + 1 - c = 1" by simp
  have null: "replicate 2048 nullptr ! unat (c AND 2047) = nullptr" using and_2047 by simp
  show ?thesis
    by (simp add: empty_queue_def tx_queue_new_def lost_queue_def Let_def one null)
qed

lemma lost_queue_inv: "tx_invar ready (lost_queue p c)" "tx_list (lost_queue p c) = []"
  by (simp_all add: tx_invar_def tx_list_def lost_queue_def)

end
