(* ===== verification/Gpu_Claims.thy ===== *)
theory Gpu_Claims
  imports Gpu_Routing Gpu_Ring
begin

text \<open>
  What the tables and queues of the GPU stack promise: routes as a finite map with longest-prefix lookup, the
  transmit ring as a queue and the packet it loses when its users race, the ARP cache and the learning table.
\<close>

section \<open>Routes\<close>

text \<open>
  C10: A table of \<^verbatim>\<open>CudaIpv4StaticRouting\<close> built by \<^verbatim>\<open>AddRoute\<close>, \<^verbatim>\<open>RemoveRoute\<close> and \<^verbatim>\<open>clear\<close> stands for a finite
  map from masked network and netmask to device and priority: adding updates the map, and is refused exactly when
  the route is new and the table full; removing deletes from it, and reports whether there was such a route.
\<close>

theorem routing_refines_map:
  assumes "routing_reachable capacity t"
  shows "(fst (AddRoute n m i p t) \<longleftrightarrow> rt_map t (n AND m, m) \<noteq> None \<or> rt_size t < rt_capacity t) \<and>
    rt_map (snd (AddRoute n m i p t)) =
      (if fst (AddRoute n m i p t) then (rt_map t)((n AND m, m) \<mapsto> (i, p)) else rt_map t) \<and>
    (fst (RemoveRoute n m t) \<longleftrightarrow> rt_map t (n AND m, m) \<noteq> None) \<and>
    rt_map (snd (RemoveRoute n m t)) = (rt_map t)((n AND m, m) := None) \<and>
    rt_map (routing_clear t) = Map.empty"
proof -
  note inv = routing_reachable_inv [OF assms]
  have "rt_map (routing_clear t) = Map.empty" by (simp add: rt_map_def live_def routing_clear_def)
  with AddRoute_spec [OF inv] RemoveRoute_spec [OF inv] show ?thesis by blast
qed

text \<open>Two routes, to 10.0.0.0/8 by device 1 and to 10.1.0.0/16 by device 2.\<close>

definition two_routes :: CudaIpv4StaticRouting where
  "two_routes = snd (AddRoute 0x0A010203 0xFFFF0000 2 0
     (snd (AddRoute 0x0A000000 0xFF000000 1 7 (StaticRouting_new 4))))"

lemma two_routes_reachable: "routing_reachable 4 two_routes"
  unfolding two_routes_def by (intro routing_reachable.intros)

theorem routing_refines_map_witness:
  "fst (AddRoute 0x0AFF0000 0xFF000000 3 9 two_routes) \<and>
   rt_map (snd (AddRoute 0x0AFF0000 0xFF000000 3 9 two_routes)) (0x0A000000, 0xFF000000) = Some (3, 9)"
proof -
  have f: "fst (AddRoute 0x0AFF0000 0xFF000000 3 9 two_routes)" by code_simp
  have "rt_map (snd (AddRoute 0x0AFF0000 0xFF000000 3 9 two_routes)) =
      (rt_map two_routes)((0x0AFF0000 AND 0xFF000000, 0xFF000000) \<mapsto> (3, 9))"
    using routing_refines_map [OF two_routes_reachable, where n = "0x0AFF0000" and m = "0xFF000000" and i = 3 and p = 9] f
    by presburger
  then show ?thesis using f by simp
qed

text \<open>
  \<^verbatim>\<open>LookupRoute\<close> on such a table fails exactly when no route matches the destination, and otherwise gives the
  device of a matching route whose prefix is longest and whose priority is highest among those.
\<close>

theorem LookupRoute_longest_prefix:
  assumes "routing_reachable capacity t"
  shows "(LookupRoute d t = None \<longleftrightarrow> (\<forall>m. rt_map t (d AND m, m) = None)) \<and>
    (\<forall>dev. LookupRoute d t = Some dev \<longrightarrow>
       (\<exists>m p. rt_map t (d AND m, m) = Some (dev, p) \<and>
         (\<forall>m' dev' p'. rt_map t (d AND m', m') = Some (dev', p') \<longrightarrow>
            getPrefixLength m' < getPrefixLength m \<or> getPrefixLength m' = getPrefixLength m \<and> p' \<le> p)))"
  using LookupRoute_map [OF routing_reachable_inv [OF assms], where d = d] by (intro conjI allI impI) auto

theorem LookupRoute_longest_prefix_witness:
  "LookupRoute 0x0A010505 two_routes = Some 2 \<and> (\<exists>m p. rt_map two_routes (0x0A010505 AND m, m) = Some (2, p))"
proof -
  have l: "LookupRoute 0x0A010505 two_routes = Some 2" by code_simp
  then show ?thesis using LookupRoute_longest_prefix [OF two_routes_reachable, where d = "0x0A010505"] by blast
qed

section \<open>The transmit ring\<close>



text \<open>
  C18: When a thread that dequeues runs between the moment another has claimed a slot of the ring and the moment it
  writes the packet there, \<^verbatim>\<open>EnqueuePacket\<close> reports success, \<^verbatim>\<open>DequeuePacket\<close> reports an empty queue, and the packet
  is gone: whatever is queued afterwards comes out, the packet does not.
\<close>

theorem racing_enqueue_loses_packet:
  assumes "\<forall>p\<in>set ps. p \<noteq> nullptr \<and> ready p" and "length ps \<le> 2048"
  shows "\<exists>schedule q. run_threads ready schedule ([EnqStart packet, DeqStart], empty_queue c) =
      ([EnqDone True, DeqDone None], q) \<and>
    fst (bounded_queue.deq_n (DequeuePacket ready) (length ps + n) (snd (bounded_queue.enq_all EnqueuePacket ps q))) =
      map Some ps @ replicate n None"
proof -
  have inv: "tx_invar ready (lost_queue packet c)" "tx_list (lost_queue packet c) = []"
    by (rule lost_queue_inv)+
  have e: "tx_list (snd (bounded_queue.enq_all EnqueuePacket ps (lost_queue packet c))) = ps"
    and i: "tx_invar ready (snd (bounded_queue.enq_all EnqueuePacket ps (lost_queue packet c)))"
    using txq.enq_all_spec [OF inv(1), of ps] inv(2) assms by (simp_all add: tx_good_def)
  have "fst (bounded_queue.deq_n (DequeuePacket ready) (length ps + n)
      (snd (bounded_queue.enq_all EnqueuePacket ps (lost_queue packet c)))) = map Some ps @ replicate n None"
    using txq.deq_n_spec [OF i, of "length ps + n"] e by simp
  then show ?thesis using racing_run [of ready packet c] by blast
qed

theorem racing_enqueue_loses_packet_witness:
  "\<exists>schedule q. run_threads (\<lambda>_. True) schedule ([EnqStart 77, DeqStart], empty_queue 0) =
      ([EnqDone True, DeqDone None], q) \<and>
    fst (bounded_queue.deq_n (DequeuePacket (\<lambda>_. True)) (length [5, 6 :: ptr] + 3) (snd (bounded_queue.enq_all EnqueuePacket [5, 6] q))) =
      [Some 5, Some 6, None, None, None]"
  using racing_enqueue_loses_packet [where ps = "[5, 6]" and ready = "\<lambda>_. True" and packet = 77 and c = 0 and n = 3]
  by (simp add: numeral_3_eq_3)

section \<open>ARP and learning\<close>

text \<open>
  An ARP cache built from the empty one answers with the oldest entry of an address: adding gives an answer
  only to an address that had none, and only while fewer than 16 entries are kept; removing changes the answer for no
  other address.
\<close>

theorem arp_oldest_entry_wins:
  assumes "arp_reachable c"
  shows "Lookup ip' (AddEntry ip mac c) =
      (if Lookup ip' c = None \<and> ip' = ip \<and> ac_count c < 16 then Some mac else Lookup ip' c) \<and>
    (ip' \<noteq> ip \<longrightarrow> Lookup ip' (RemoveEntry ip c) = Lookup ip' c) \<and> ac_count (AddEntry ip mac c) \<le> 16"
  using Lookup_AddEntry [OF arp_reachable_inv [OF assms]] Lookup_RemoveEntry [OF arp_reachable_inv [OF assms]]
    AddEntry_list(2) [OF arp_reachable_inv [OF assms], of ip mac]
  by (simp add: arp_inv_def MAX_CACHE_SIZE_def)

theorem arp_oldest_entry_wins_witness:
  "Lookup 3 (AddEntry 3 [9, 9, 9, 9, 9, 9] (AddEntry 3 [1, 2, 3, 4, 5, 6] ArpCache_new)) = Some [1, 2, 3, 4, 5, 6]"
proof -
  have r: "arp_reachable (AddEntry 3 [1, 2, 3, 4, 5, 6] ArpCache_new)" by (intro arp_reachable.intros)
  have "Lookup 3 (AddEntry 3 [1, 2, 3, 4, 5, 6] ArpCache_new) = Some [1, 2, 3, 4, 5, 6]" by code_simp
  then show ?thesis using arp_oldest_entry_wins [OF r, where ip = 3 and ip' = 3 and mac = "[9, 9, 9, 9, 9, 9]"] by simp
qed

text \<open>
  A learning bridge with room in its table answers with the port it has just learned for an address and leaves
  every other answer alone; once 16 addresses are known nothing is learned any more, so a known station that moves
  to another port is still sent to the old one.
\<close>

theorem bridge_learning:
  assumes "learn_reachable l"
  shows "(tableSize l < 16 \<longrightarrow>
      GetLearnedState mac (Learn source port l) = (if mac = source then port else GetLearnedState mac l)) \<and>
    (tableSize l = 16 \<longrightarrow> GetLearnedState mac (Learn source port l) = GetLearnedState mac l) \<and>
    (source \<notin> known l \<longrightarrow> GetLearnedState source l = nullptr)"
  using learn_reachable_inv [OF assms] Learn_lookup [of l mac source port] Learn_full [of l source port]
    GetLearnedState_unknown [of l source]
  by (simp add: MAX_MAC_ENTRIES_def)

theorem bridge_learning_witness:
  "GetLearnedState [0, 0, 0, 0, 0, 2] (Learn [0, 0, 0, 0, 0, 2] 99 full_table) = 2 \<and>
   GetLearnedState [0, 0, 0, 0, 0, 2] (Learn [0, 0, 0, 0, 0, 2] 99 (Learn [0, 0, 0, 0, 0, 2] 2 learning_new)) = 99"
proof
  have t: "tableSize full_table = 16" and g: "GetLearnedState [0, 0, 0, 0, 0, 2] full_table = 2" by code_simp+
  show "GetLearnedState [0, 0, 0, 0, 0, 2] (Learn [0, 0, 0, 0, 0, 2] 99 full_table) = 2"
    using bridge_learning [OF full_table_reachable, where mac = "[0, 0, 0, 0, 0, 2]"] t g by simp
  have r: "learn_reachable (Learn [0, 0, 0, 0, 0, 2] 2 learning_new)" by (intro learn_reachable.intros)
  have "tableSize (Learn [0, 0, 0, 0, 0, 2] 2 learning_new) < 16" by code_simp
  then show "GetLearnedState [0, 0, 0, 0, 0, 2] (Learn [0, 0, 0, 0, 0, 2] 99 (Learn [0, 0, 0, 0, 0, 2] 2 learning_new)) = 99"
    using bridge_learning [OF r, where mac = "[0, 0, 0, 0, 0, 2]"] by simp
qed

end
