(* ===== verification/Gpu_Packet.thy ===== *)
theory Gpu_Packet
  imports Prelude "HOL-Library.Monad_Syntax"
begin

text \<open>
  \<^verbatim>\<open>CudaPacket\<close> (\<^verbatim>\<open>contrib/cuda/model/cuda-packet.cu\<close>): a packet whose payload lies at the end of its buffer, so
  that headers are written in front of it.

  Memory is a map from the address of a buffer to its bytes; a packet's buffer is named by \<^verbatim>\<open>m_data\<close>.  \<open>None\<close> is an
  access outside the buffer (a null buffer is empty).  Sizes and offsets are 32-bit words, as in the code.
\<close>

type_synonym gmem = "ptr \<Rightarrow> u8 list"

record CudaPacket =
  pk_data :: ptr
  pk_offset :: u32
  pk_ready :: u32
  pk_crc :: u32
  pk_uid :: u32
  pk_size :: u32
  pk_capacity :: u32

definition MAX_PACKET_SIZE :: u32 where
  "MAX_PACKET_SIZE = 2048"

section \<open>Operations\<close>

text \<open>
  The constructor, which leaves \<^verbatim>\<open>ready\<close> as it finds it, with the next value of \<^verbatim>\<open>g_packetUidCounter\<close>.
\<close>

definition Packet_new :: "u32 \<Rightarrow> CudaPacket \<Rightarrow> CudaPacket" where
  "Packet_new uid p = p\<lparr>pk_data := nullptr, pk_size := 0, pk_capacity := MAX_PACKET_SIZE, pk_crc := 0,
     pk_offset := MAX_PACKET_SIZE, pk_uid := uid\<rparr>"

text \<open>\<open>a\<close>: what \<^verbatim>\<open>cudaMalloc\<close> stores, \<open>nullptr\<close> when it fails.\<close>

definition Packet_Allocate :: "ptr \<Rightarrow> u32 \<Rightarrow> CudaPacket \<Rightarrow> CudaPacket" where
  "Packet_Allocate a n p =
     (if n > pk_capacity p then p
      else (if pk_data p = nullptr then p\<lparr>pk_data := a\<rparr> else p)\<lparr>pk_size := n\<rparr>)"

definition Packet_Free :: "CudaPacket \<Rightarrow> CudaPacket" where
  "Packet_Free p = (if pk_data p \<noteq> nullptr then p\<lparr>pk_data := nullptr\<rparr> else p)\<lparr>pk_size := 0\<rparr>"

text \<open>The bytes of a buffer from \<open>off\<close> on, read and overwritten.\<close>

definition read_at :: "nat \<Rightarrow> nat \<Rightarrow> u8 list \<Rightarrow> u8 list option" where
  "read_at off n xs = (if off + n \<le> length xs then Some (take n (drop off xs)) else None)"

definition write_at :: "nat \<Rightarrow> u8 list \<Rightarrow> u8 list \<Rightarrow> u8 list option" where
  "write_at off bs xs =
     (if off + length bs \<le> length xs then Some (take off xs @ bs @ drop (off + length bs) xs) else None)"

text \<open>\<^verbatim>\<open>operator=\<close> on distinct packets, into the buffer \<open>a\<close> that \<^verbatim>\<open>cudaMalloc\<close> returns.\<close>

definition Packet_assign :: "ptr \<Rightarrow> CudaPacket \<Rightarrow> CudaPacket \<Rightarrow> gmem \<Rightarrow> (CudaPacket \<times> gmem) option" where
  "Packet_assign a p q mem = do {
     let p = p\<lparr>pk_size := pk_size q, pk_capacity := pk_capacity q, pk_crc := pk_crc q, pk_uid := pk_uid q, pk_data := a\<rparr>;
     bs \<leftarrow> read_at 0 (unat (pk_size p)) (mem (pk_data q));
     xs \<leftarrow> write_at 0 bs (mem a);
     Some (p, mem(a := xs)) }"

text \<open>The two loops of \<^verbatim>\<open>Packet_AddHeader\<close>: four bytes at a time, and the remaining bytes one by one.\<close>

function copy_words :: "nat \<Rightarrow> u8 list \<Rightarrow> nat \<Rightarrow> u8 list \<Rightarrow> (nat \<times> u8 list) option" where
  "copy_words dst src i xs =
     (if i + 4 \<le> length src then do {
        xs \<leftarrow> write_at (dst + i) (take 4 (drop i src)) xs;
        copy_words dst src (i + 4) xs }
      else Some (i, xs))"
  by pat_completeness auto
termination
  by (relation "measure (\<lambda>(_, src, i, _). length src - i)") auto

function copy_bytes :: "nat \<Rightarrow> u8 list \<Rightarrow> nat \<Rightarrow> u8 list \<Rightarrow> u8 list option" where
  "copy_bytes dst src i xs =
     (if i < length src then do {
        xs \<leftarrow> write_at (dst + i) [src ! i] xs;
        copy_bytes dst src (i + 1) xs }
      else Some xs)"
  by pat_completeness auto
termination
  by (relation "measure (\<lambda>(_, src, i, _). length src - i)") auto

declare copy_words.simps [simp del] copy_bytes.simps [simp del]

text \<open>\<open>src\<close> is the address of the header, whose bytes are \<open>header\<close>.\<close>

definition Packet_AddHeader :: "ptr \<Rightarrow> u8 list \<Rightarrow> CudaPacket \<Rightarrow> gmem \<Rightarrow> (CudaPacket \<times> gmem) option" where
  "Packet_AddHeader src header p mem =
     (let headerSize = of_nat (length header)
      in if headerSize + pk_size p > pk_capacity p then Some (p, mem)
         else do {
           let p = p\<lparr>pk_offset := pk_offset p - headerSize\<rparr>;
           let dst = unat (pk_offset p);
           (i, xs) \<leftarrow> (if ((pk_data p + ucast (pk_offset p)) OR src) AND 3 = 0
                        then copy_words dst header 0 (mem (pk_data p)) else Some (0, mem (pk_data p)));
           xs \<leftarrow> copy_bytes dst header i xs;
           Some (p, mem(pk_data p := xs)) })"

definition AddTrailer :: "u8 list \<Rightarrow> CudaPacket \<Rightarrow> gmem \<Rightarrow> gmem option" where
  "AddTrailer trailer p mem =
     (if pk_size p + of_nat (length trailer) > pk_capacity p then Some mem
      else map_option (\<lambda>xs. mem(pk_data p := xs)) (write_at (unat (pk_size p)) trailer (mem (pk_data p))))"

text \<open>The bytes of \<^verbatim>\<open>dstBuffer\<close> afterwards.\<close>

definition ExtractPayload :: "u8 list \<Rightarrow> u32 \<Rightarrow> u32 \<Rightarrow> CudaPacket \<Rightarrow> gmem \<Rightarrow> u8 list option" where
  "ExtractPayload dstBuffer off len p mem =
     (if off + len > pk_size p then Some dstBuffer
      else map_option (\<lambda>bs. bs @ drop (unat len) dstBuffer)
        (read_at (unat (pk_offset p) + unat off) (unat len) (mem (pk_data p))))"

definition Packet_RemoveHeader :: "u32 \<Rightarrow> CudaPacket \<Rightarrow> CudaPacket" where
  "Packet_RemoveHeader headerSize p =
     (if headerSize > pk_size p then p else p\<lparr>pk_offset := pk_offset p + headerSize\<rparr>)"

definition Packet_SetSize :: "u32 \<Rightarrow> CudaPacket \<Rightarrow> CudaPacket" where
  "Packet_SetSize n p =
     (if n > pk_capacity p then p else p\<lparr>pk_size := n, pk_offset := pk_capacity p - n\<rparr>)"

definition Packet_GetSize :: "CudaPacket \<Rightarrow> u32" where
  "Packet_GetSize p = pk_size p"

definition Packet_GetUid :: "CudaPacket \<Rightarrow> u32" where
  "Packet_GetUid p = pk_uid p"

definition Packet_GetData :: "CudaPacket \<Rightarrow> ptr" where
  "Packet_GetData p = pk_data p + ucast (pk_offset p)"

definition ComputeCRC :: "CudaPacket \<Rightarrow> gmem \<Rightarrow> CudaPacket option" where
  "ComputeCRC p mem =
     map_option (\<lambda>bs. p\<lparr>pk_crc := fold (\<lambda>b c. c XOR ucast b) bs 0\<rparr>)
       (read_at 0 (unat (pk_size p)) (mem (pk_data p)))"

section \<open>Copying a header\<close>

lemma write_at_append:
  assumes "write_at off as xs = Some ys" and "write_at (off + length as) bs ys = Some zs"
  shows "write_at off (as @ bs) xs = Some zs"
  using assms by (auto simp: write_at_def ac_simps split: if_splits)

lemma write_at_nil: "off \<le> length xs \<Longrightarrow> write_at off [] xs = Some xs"
  by (simp add: write_at_def)

text \<open>A loop that has copied \<open>i\<close> bytes.\<close>

lemma write_at_take_add:
  assumes "i + n \<le> length src" and "off + length src \<le> length xs"
    and "write_at off (take i src) xs = Some ys"
  obtains zs where "write_at (off + i) (take n (drop i src)) ys = Some zs"
    and "write_at off (take (i + n) src) xs = Some zs"
proof -
  have y: "ys = take off xs @ take i src @ drop (off + i) xs"
    using assms by (auto simp: write_at_def split: if_splits)
  have "off + i + n \<le> length ys" using assms(1,2) unfolding y by simp
  then obtain zs where z: "write_at (off + i) (take n (drop i src)) ys = Some zs"
    using assms(1) by (simp add: write_at_def)
  moreover have "write_at off (take (i + n) src) xs = Some zs"
    using write_at_append [OF assms(3), of "take n (drop i src)" zs] z assms(1) by (simp add: take_add)
  ultimately show ?thesis using that by blast
qed

lemma copy_words_spec:
  assumes "off + length src \<le> length xs" and "write_at off (take i src) xs = Some ys" and "i \<le> length src"
  shows "\<exists>j zs. copy_words off src i ys = Some (j, zs) \<and> j \<le> length src \<and> write_at off (take j src) xs = Some zs"
  using assms(2,3)
proof (induction "length src - i" arbitrary: i ys rule: less_induct)
  case less
  show ?case
  proof (cases "i + 4 \<le> length src")
    case True
    obtain zs where z: "write_at (off + i) (take 4 (drop i src)) ys = Some zs"
      and t: "write_at off (take (i + 4) src) xs = Some zs"
      using write_at_take_add [OF True assms(1) less.prems(1)] by blast
    have "\<exists>j zs'. copy_words off src (i + 4) zs = Some (j, zs') \<and> j \<le> length src \<and> write_at off (take j src) xs = Some zs'"
      using True by (intro less.hyps t) simp_all
    then show ?thesis using True z by (simp add: copy_words.simps [of off src i])
  next
    case False
    then show ?thesis using less.prems by (simp add: copy_words.simps [of off src i])
  qed
qed

lemma copy_bytes_spec:
  assumes "off + length src \<le> length xs" and "write_at off (take i src) xs = Some ys" and "i \<le> length src"
  shows "copy_bytes off src i ys = write_at off src xs"
  using assms(2,3)
proof (induction "length src - i" arbitrary: i ys rule: less_induct)
  case less
  show ?case
  proof (cases "i < length src")
    case True
    then have "i + 1 \<le> length src" by simp
    from write_at_take_add [OF this assms(1) less.prems(1)] obtain zs
      where z: "write_at (off + i) [src ! i] ys = Some zs" and t: "write_at off (take (i + 1) src) xs = Some zs"
      using True by (metis One_nat_def hd_drop_conv_nth take_Suc take_eq_Nil drop_eq_Nil not_le take0)
    have "copy_bytes off src (i + 1) zs = write_at off src xs"
      using True by (intro less.hyps t) simp_all
    then show ?thesis using True z by (simp add: copy_bytes.simps [of off src i])
  next
    case False
    then have "i = length src" using less.prems(2) by simp
    then show ?thesis using less.prems(1) by (simp add: copy_bytes.simps [of off src "length src"])
  qed
qed

text \<open>Whatever the alignment, the header is copied in front of what was there.\<close>

lemma AddHeader_fits:
  assumes "unat (pk_size p) + length header \<le> unat (pk_capacity p)" and "unat (pk_capacity p) < 2 ^ 31"
    and "length header \<le> unat (pk_offset p)" and "unat (pk_offset p) \<le> length (mem (pk_data p))"
  shows "Packet_AddHeader src header p mem =
    Some (p\<lparr>pk_offset := pk_offset p - of_nat (length header)\<rparr>,
      mem(pk_data p := take (unat (pk_offset p) - length header) (mem (pk_data p)) @ header @
        drop (unat (pk_offset p)) (mem (pk_data p))))"
proof -
  let ?n = "of_nat (length header) :: u32" and ?xs = "mem (pk_data p)"
  have n: "unat ?n = length header" using assms(1,2) by (intro unat_of_nat_u32) simp
  have off: "unat (pk_offset p - ?n) = unat (pk_offset p) - length header"
    using assms(3) n by (simp add: unat_sub word_le_nat_alt)
  have "unat (?n + pk_size p) = length header + unat (pk_size p)"
    using assms(1,2) n by (subst unat_add_lem [THEN iffD1]) simp_all
  then have g: "\<not> ?n + pk_size p > pk_capacity p" using assms(1) by (simp add: word_less_nat_alt)
  let ?dst = "unat (pk_offset p) - length header"
  have room: "?dst + length header \<le> length ?xs" using assms(3,4) by simp
  have w0: "write_at ?dst (take 0 header) ?xs = Some ?xs" using room by (simp add: write_at_nil)
  have w: "write_at ?dst header ?xs = Some (take ?dst ?xs @ header @ drop (unat (pk_offset p)) ?xs)"
    using room assms(3) by (simp add: write_at_def)
  obtain j zs where j: "copy_words ?dst header 0 ?xs = Some (j, zs)" "copy_bytes ?dst header j zs = write_at ?dst header ?xs"
    using copy_words_spec [OF room w0] copy_bytes_spec [OF room] by blast
  have b: "copy_bytes ?dst header 0 ?xs = write_at ?dst header ?xs" by (rule copy_bytes_spec [OF room w0]) simp
  show ?thesis using g off j b w by (simp add: Packet_AddHeader_def Let_def)
qed

lemma AddHeader_refused:
  "of_nat (length header) + pk_size p > pk_capacity p \<Longrightarrow> Packet_AddHeader src header p mem = Some (p, mem)"
  by (simp add: Packet_AddHeader_def Let_def)

lemma AddHeader_outside:
  assumes "\<not> of_nat (length header) + pk_size p > pk_capacity p" and "header \<noteq> []"
    and "length (mem (pk_data p)) < unat (pk_offset p - of_nat (length header)) + length header"
    and "length (mem (pk_data p)) \<le> unat (pk_offset p - of_nat (length header))"
  shows "Packet_AddHeader src header p mem = None"
proof -
  let ?dst = "unat (pk_offset p - of_nat (length header))" and ?xs = "mem (pk_data p)"
  have b: "copy_bytes ?dst header 0 ?xs = None"
    using assms by (simp add: copy_bytes.simps [of ?dst header 0] write_at_def)
  have "copy_words ?dst header 0 ?xs = None \<or> copy_words ?dst header 0 ?xs = Some (0, ?xs)"
    using assms by (simp add: copy_words.simps [of ?dst header 0] write_at_def)
  with b assms(1) show ?thesis by (auto simp: Packet_AddHeader_def Let_def split: if_splits)
qed

section \<open>What a packet holds\<close>

text \<open>The bytes from the offset on.\<close>

definition pk_view :: "CudaPacket \<Rightarrow> gmem \<Rightarrow> u8 list" where
  "pk_view p mem = drop (unat (pk_offset p)) (mem (pk_data p))"

text \<open>A packet as the senders of the stack build it: payload and headers end at the end of the buffer.\<close>

definition pk_wf :: "CudaPacket \<Rightarrow> gmem \<Rightarrow> bool" where
  "pk_wf p mem \<longleftrightarrow> pk_capacity p = 2048 \<and> length (mem (pk_data p)) = 2048 \<and> unat (pk_offset p) \<le> 2048 \<and>
     unat (pk_size p) \<le> 2048"

lemma pk_view_length: "pk_wf p mem \<Longrightarrow> length (pk_view p mem) = 2048 - unat (pk_offset p)"
  by (simp add: pk_view_def pk_wf_def)

lemma AddHeader_view:
  assumes "pk_wf p mem" and "unat (pk_size p) + length header \<le> 2048" and "length header \<le> unat (pk_offset p)"
  obtains q mem' where "Packet_AddHeader src header p mem = Some (q, mem')" and "pk_wf q mem'"
    and "pk_view q mem' = header @ pk_view p mem" and "q = p\<lparr>pk_offset := pk_offset p - of_nat (length header)\<rparr>"
    and "\<forall>a. a \<noteq> pk_data p \<longrightarrow> mem' a = mem a" and "unat (pk_offset q) = unat (pk_offset p) - length header"
proof -
  let ?q = "p\<lparr>pk_offset := pk_offset p - of_nat (length header)\<rparr>"
  let ?xs = "mem (pk_data p)"
  let ?mem = "mem(pk_data p := take (unat (pk_offset p) - length header) ?xs @ header @ drop (unat (pk_offset p)) ?xs)"
  have "unat (of_nat (length header) :: u32) = length header"
    using assms(2) by (intro unat_of_nat_u32) simp
  then have off: "unat (pk_offset ?q) = unat (pk_offset p) - length header"
    using assms(3) by (simp add: unat_sub word_le_nat_alt)
  have add: "Packet_AddHeader src header p mem = Some (?q, ?mem)"
    using assms by (intro AddHeader_fits) (simp_all add: pk_wf_def)
  have le: "unat (pk_offset p) \<le> 2048" "unat (pk_offset p) - length header \<le> 2048"
    using assms(1) unfolding pk_wf_def by linarith+
  from this assms(1,3) off have "pk_wf ?q ?mem" unfolding pk_wf_def by (simp add: min.absorb2)
  moreover have "pk_view ?q ?mem = header @ pk_view p mem"
    unfolding pk_view_def off using assms(1,3) le by (simp add: pk_wf_def min.absorb2)
  ultimately show ?thesis using that [OF add _ _ refl _ off] by simp
qed

lemma RemoveHeader_view:
  assumes "pk_wf p mem" and "n \<le> pk_size p" and "unat (pk_offset p) + unat n \<le> 2048"
  shows "pk_wf (Packet_RemoveHeader n p) mem" and "pk_view (Packet_RemoveHeader n p) mem = drop (unat n) (pk_view p mem)"
    and "unat (pk_offset (Packet_RemoveHeader n p)) = unat (pk_offset p) + unat n"
proof -
  have "unat (pk_offset p + n) = unat (pk_offset p) + unat n"
    using assms(3) by (subst unat_add_lem [THEN iffD1]) simp_all
  then have off: "unat (pk_offset (Packet_RemoveHeader n p)) = unat (pk_offset p) + unat n"
    using assms(2) by (simp add: Packet_RemoveHeader_def leD)
  have d: "pk_data (Packet_RemoveHeader n p) = pk_data p" "pk_capacity (Packet_RemoveHeader n p) = pk_capacity p"
    "pk_size (Packet_RemoveHeader n p) = pk_size p" by (simp_all add: Packet_RemoveHeader_def)
  show "pk_wf (Packet_RemoveHeader n p) mem" using assms off d by (simp add: pk_wf_def)
  show "pk_view (Packet_RemoveHeader n p) mem = drop (unat n) (pk_view p mem)"
    unfolding pk_view_def off d by (simp add: add.commute)
  show "unat (pk_offset (Packet_RemoveHeader n p)) = unat (pk_offset p) + unat n" by (rule off)
qed

lemma RemoveHeader_refused: "pk_size p < n \<Longrightarrow> Packet_RemoveHeader n p = p"
  by (simp add: Packet_RemoveHeader_def)

lemma ExtractPayload_view:
  assumes "pk_wf p mem" and "unat off + unat n \<le> unat (pk_size p)" and "unat (pk_offset p) + unat off + unat n \<le> 2048"
  shows "ExtractPayload dst off n p mem = Some (take (unat n) (drop (unat off) (pk_view p mem)) @ drop (unat n) dst)"
proof -
  have "unat (off + n) = unat off + unat n"
    using assms(1,2) by (subst unat_add_lem [THEN iffD1]) (simp_all add: pk_wf_def)
  then have "\<not> off + n > pk_size p" using assms(2) by (simp add: word_less_nat_alt)
  then show ?thesis using assms(1,3)
    by (simp add: ExtractPayload_def read_at_def pk_wf_def pk_view_def add.commute)
qed

lemma SetSize_view:
  assumes "pk_capacity p = 2048" and "length (mem (pk_data p)) = 2048" and "n \<le> 2048"
  shows "pk_wf (Packet_SetSize n p) mem" and "unat (pk_offset (Packet_SetSize n p)) = 2048 - unat n"
    and "pk_size (Packet_SetSize n p) = n"
proof -
  have fits: "\<not> n > pk_capacity p" using assms by (simp add: leD)
  show off: "unat (pk_offset (Packet_SetSize n p)) = 2048 - unat n"
    using assms fits by (simp add: Packet_SetSize_def unat_sub)
  show sz: "pk_size (Packet_SetSize n p) = n" using fits by (simp add: Packet_SetSize_def)
  have "unat n \<le> 2048" using assms(3) by (simp add: word_le_nat_alt)
  then show "pk_wf (Packet_SetSize n p) mem"
    using assms fits off sz unfolding pk_wf_def by (simp add: Packet_SetSize_def)
qed

end
