(* ===== verification/Gpu_Float.thy ===== *)
theory Gpu_Float
  imports Complex_Main Prelude
begin

text \<open>
  The floating-point arithmetic the GPU stack computes times with (\<^verbatim>\<open>CudaNetDevice::TransmitStart\<close>,
  \<^verbatim>\<open>CudaP2PChannel::TransmitStart\<close>, \<^verbatim>\<open>CudaUdpClient::CalculateLookAhead\<close> in \<^verbatim>\<open>contrib/cuda/model\<close>): rational numbers
  rounded to the nearest with 53 (\<^verbatim>\<open>double\<close>) or 24 (\<^verbatim>\<open>float\<close>) significant bits, ties to even.  The numbers here
  are not negative and stay far from the largest and the smallest ones, so exponents are unbounded in the model.
  Division by a bit rate of 0 is not modelled (it is 0 here).
\<close>

section \<open>Rounding\<close>

function bitlen :: "int \<Rightarrow> int" where
  "bitlen n = (if n \<le> 0 then 0 else 1 + bitlen (n div 2))"
  by pat_completeness auto
termination
  by (relation "measure nat") auto

declare bitlen.simps [simp del]

definition round_even :: "rat \<Rightarrow> int" where
  "round_even y =
     (let f = \<lfloor>y\<rfloor>; r = y - of_int f
      in if r < 1 / 2 then f else if r > 1 / 2 then f + 1 else if even f then f else f + 1)"

text \<open>The power of two \<open>e\<close> with \<open>2 ^ e \<le> x < 2 ^ (e + 1)\<close>, for positive \<open>x\<close>.\<close>

definition exponent :: "rat \<Rightarrow> int" where
  "exponent x =
     (let (a, b) = quotient_of x; e = bitlen a - bitlen b
      in if x < 2 powi e then e - 1 else e)"

definition fl :: "nat \<Rightarrow> rat \<Rightarrow> rat" where
  "fl p x =
     (if x = 0 then 0 else (let e = exponent x - int p + 1 in of_int (round_even (x / 2 powi e)) * 2 powi e))"

abbreviation double :: "rat \<Rightarrow> rat" where
  "double \<equiv> fl 53"

abbreviation single :: "rat \<Rightarrow> rat" where
  "single \<equiv> fl 24"

abbreviation rat_of_word :: "'a::len word \<Rightarrow> rat" where
  "rat_of_word w \<equiv> of_int (uint w)"

definition u64_of :: "rat \<Rightarrow> u64" where
  "u64_of x = of_int \<lfloor>x\<rfloor>"

section \<open>The times of the stack\<close>

text \<open>\<^verbatim>\<open>(uint64_t)((double)(packet->GetSize() * 8) / d_bps * 1e9)\<close>\<close>

definition tx_interval :: "u32 \<Rightarrow> u64 \<Rightarrow> u64" where
  "tx_interval n bps =
     (let TxTime = double (double (rat_of_word (n * 8)) / double (rat_of_word bps))
      in u64_of (double (TxTime * 1000000000)))"

text \<open>\<^verbatim>\<open>*currentTs + txTime + d_delay\<close>, where \<^verbatim>\<open>d_delay\<close> is a \<^verbatim>\<open>double\<close>.\<close>

definition arrival_time :: "u64 \<Rightarrow> u64 \<Rightarrow> u64 \<Rightarrow> u64" where
  "arrival_time currentTs txTime d_delay =
     u64_of (double (double (rat_of_word (currentTs + txTime)) + double (rat_of_word d_delay)))"

text \<open>\<^verbatim>\<open>*currentTs + d_interval\<close>, where \<^verbatim>\<open>d_interval\<close> is a \<^verbatim>\<open>double\<close>.\<close>

definition next_time :: "u64 \<Rightarrow> u64 \<Rightarrow> u64" where
  "next_time currentTs d_interval = u64_of (double (double (rat_of_word currentTs) + double (rat_of_word d_interval)))"

text \<open>\<^verbatim>\<open>((float)(mtu * 8) / bandwidth) * 1e9 + d_delay\<close>\<close>

definition mtu_lookahead :: "u16 \<Rightarrow> u64 \<Rightarrow> u64 \<Rightarrow> u64" where
  "mtu_lookahead mtu bandwidth d_delay =
     u64_of (double (double (single (single (of_int (uint mtu * 8)) / single (rat_of_word bandwidth)) * 1000000000)
       + double (rat_of_word d_delay)))"

text \<open>\<^verbatim>\<open>lookahead += ((float)(m_size * 8) / bandwidth) * 1e9\<close>\<close>

definition send_lookahead :: "u64 \<Rightarrow> u32 \<Rightarrow> u64 \<Rightarrow> u64" where
  "send_lookahead lookahead m_size bandwidth =
     u64_of (double (double (rat_of_word lookahead) +
       double (single (single (rat_of_word (m_size * 8)) / single (rat_of_word bandwidth)) * 1000000000)))"

section \<open>Exact results\<close>

lemma bitlen_nonneg: "0 \<le> bitlen n"
proof (induction n rule: bitlen.induct)
  case (1 n)
  then show ?case by (cases "n \<le> 0") (simp_all add: bitlen.simps [of n])
qed

lemma bitlen_le: "n < 2 ^ k \<longleftrightarrow> bitlen n \<le> int k"
proof (induction n arbitrary: k rule: bitlen.induct)
  case (1 n)
  show ?case
  proof (cases "n \<le> 0")
    case True
    then have "n < 2 ^ k" by (rule order.strict_trans1) simp
    then show ?thesis using True by (simp add: bitlen.simps [of n])
  next
    case False
    show ?thesis
    proof (cases k)
      case 0
      then show ?thesis using False bitlen_nonneg [of "n div 2"] by (simp add: bitlen.simps [of n])
    next
      case (Suc j)
      have "n < 2 ^ Suc j \<longleftrightarrow> n div 2 < 2 ^ j" by auto
      then show ?thesis using 1 [OF False, of j] False Suc by (simp add: bitlen.simps [of n])
    qed
  qed
qed

lemma exponent_of_int:
  assumes "0 < n"
  shows "exponent (of_int n) = bitlen n - 1"
proof -
  have q: "quotient_of (of_int n) = (n, 1)" by (simp add: of_int_rat quotient_of_Fract)
  have one: "bitlen 1 = 1" by (simp add: bitlen.simps [of 1] bitlen.simps [of 0])
  obtain k where k: "bitlen n = int k" using bitlen_nonneg [of n] by (metis nonneg_int_cases)
  then have "0 < k" using assms bitlen_nonneg [of "n div 2"] by (simp add: bitlen.simps [of n])
  then have "\<not> n < 2 ^ (k - 1)" using bitlen_le [of n "k - 1"] k by simp
  moreover have "(2 :: rat) powi (int k - 1) = of_int (2 ^ (k - 1))"
    using \<open>0 < k\<close> by (simp flip: power_int_of_nat add: of_nat_diff)
  ultimately have "\<not> (of_int n :: rat) < 2 powi (int k - 1)" by (metis of_int_less_iff)
  then show ?thesis using q k one by (simp add: exponent_def Let_def)
qed

lemma round_even_of_int [simp]: "round_even (of_int i) = i"
  by (simp add: round_even_def)

lemma fl_of_int:
  assumes "0 \<le> n" and "n < 2 ^ p"
  shows "fl p (of_int n) = of_int n"
proof (cases "n = 0")
  case True
  then show ?thesis by (simp add: fl_def)
next
  case False
  let ?e = "bitlen n - int p"
  obtain k where k: "bitlen n = int k" using bitlen_nonneg [of n] by (metis nonneg_int_cases)
  have "k \<le> p" using assms(2) k by (simp add: bitlen_le)
  then have e: "?e = - int (p - k)" using k by simp
  have x: "(of_int n :: rat) / 2 powi ?e = of_int (n * 2 ^ (p - k))"
    unfolding e by (simp add: power_int_minus field_simps)
  have "fl p (of_int n) = of_int (round_even (of_int n / 2 powi ?e)) * 2 powi ?e"
    using False assms(1) by (simp add: fl_def exponent_of_int Let_def algebra_simps)
  also have "\<dots> = of_int n / 2 powi ?e * 2 powi ?e"
    unfolding x round_even_of_int ..
  finally show ?thesis by simp
qed

text \<open>Arrival times are exact below \<open>2 ^ 53\<close> nanoseconds, about 104 days.\<close>

lemma arrival_time_exact:
  assumes "uint t + uint x + uint d < 2 ^ 53"
  shows "uint (arrival_time t x d) = uint t + uint x + uint d"
proof -
  have pos: "0 \<le> uint t" "0 \<le> uint x" "0 \<le> uint d" by simp_all
  have "uint t + uint x \<le> uint t + uint x + uint d" by simp
  from this assms have "uint t + uint x < 2 ^ 53" by (rule order.strict_trans1)
  then have "uint t + uint x < 2 ^ 64" by (rule order.strict_trans) simp
  then have tx: "uint (t + x) = uint t + uint x" by (intro uint_add_lem [THEN iffD1]) simp
  have "double (of_int (uint (t + x))) = of_int (uint t + uint x)"
    unfolding tx by (intro fl_of_int \<open>uint t + uint x < 2 ^ 53\<close>) simp
  moreover have "uint d \<le> uint t + uint x + uint d" by simp
  then have "uint d < 2 ^ 53" using assms by (rule order.strict_trans1)
  then have "double (of_int (uint d)) = of_int (uint d)" by (intro fl_of_int) simp_all
  moreover have "double (of_int (uint t + uint x) + of_int (uint d)) = of_int (uint t + uint x + uint d)"
    using fl_of_int [of "uint t + uint x + uint d" 53] assms pos by (simp only: of_int_add)
  ultimately have "arrival_time t x d = of_int (uint t + uint x + uint d)"
    unfolding arrival_time_def u64_of_def by (simp only: floor_of_int)
  then have "uint (arrival_time t x d) = (uint t + uint x + uint d) mod 2 ^ 64" by (simp only: uint_word_of_int) simp
  then show ?thesis using assms pos by simp
qed

lemma next_time_exact:
  assumes "uint t + uint d < 2 ^ 53"
  shows "uint (next_time t d) = uint t + uint d"
  using arrival_time_exact [of t 0 d] assms by (simp add: arrival_time_def next_time_def)

end
