(* ===== verification/Gpu_State.thy ===== *)
theory Gpu_State
  imports Elp_Types Gpu_Tables Gpu_Ring Gpu_Packet Gpu_Float
begin

text \<open>
  The objects of the GPU stack (\<^verbatim>\<open>contrib/cuda/model\<close>): devices, channels, bridges, interfaces, IP, UDP, sockets,
  server and client, in a store that names each by its address, and the updates of the store.  The code reaches
  objects only through pointers that set-up functions have filled in; a pointer the code itself compares with null
  is compared here, other null pointers are not modelled.  Members that the modelled operations never read
  (\<^verbatim>\<open>m_stream\<close>, \<^verbatim>\<open>m_rxCallback\<close>, \<^verbatim>\<open>expirationTime\<close> and the like) are left out.

  \<open>inserted\<close> collects the calls of \<^verbatim>\<open>CudaELPSimulator::d_insert\<close> the handlers make, the latest last.
\<close>

section \<open>Devices and channels\<close>

datatype TxMachineState = READY | BUSY

record CudaNetDevice =
  nd_macAddress :: mac
  nd_linkUp :: bool
  nd_txMachineState :: TxMachineState
  nd_queue :: tx_queue
  nd_bps :: u64
  nd_mtu :: u32
  nd_NodeID :: u32
  nd_rxCB_enable :: bool
  nd_bridge :: ptr
  nd_ipv4 :: ptr
  nd_channel :: ptr
  nd_lookahead :: u64

datatype WireState = INITIALIZING | IDLE | TRANSMITTING | PROPAGATING

record Link =
  l_state :: WireState
  l_src :: ptr
  l_dst :: ptr

text \<open>\<open>ch_delay\<close>: the nanoseconds that the \<^verbatim>\<open>double\<close> \<^verbatim>\<open>d_delay\<close> holds.\<close>

record CudaP2PChannel =
  ch_link :: "Link list"
  ch_nDevices :: nat
  ch_delay :: u64
  ch_NodeID :: u32
  ch_dst_NodeID :: u32

record CudaBridgeNetDevice =
  br_ports :: "ptr list"
  br_portCnt :: nat
  br_learning :: learning

section \<open>Internet stack\<close>

record CudaIpv4Interface =
  if_device :: ptr
  if_rawAddress :: u32
  if_isUp :: bool
  if_arp :: CudaArpCache

record CudaIpv4L3Protocol =
  l3_interfaces :: "ptr list"
  l3_interfaceCount :: nat
  l3_routing :: CudaIpv4StaticRouting
  l3_udp :: ptr

record CudaIpv4EndPoint =
  ep_localAddress :: u32
  ep_localPort :: u16
  ep_peerAddress :: u32
  ep_peerPort :: u16
  ep_boundNetDevice :: ptr
  ep_rxEnabled :: bool
  ep_socket :: ptr

record CudaUdpL4Protocol =
  udp_endPoints :: "CudaIpv4EndPoint list"
  udp_index :: nat
  udp_ipv4 :: ptr

text \<open>\<open>so_endPoint\<close>: the index of the end point in \<^verbatim>\<open>m_endPoints\<close> of the socket's UDP object.\<close>

record CudaSocket =
  so_endPoint :: "nat option"
  so_udp :: ptr
  so_boundnetdevice :: ptr
  so_defaultAddress :: u32
  so_defaultPort :: u16
  so_shutdownSend :: bool
  so_shutdownRecv :: bool
  so_connected :: bool
  so_rxAvailable :: u32
  so_rcvBufSize :: u32
  so_deliveryQueue :: pair_list
  so_server :: ptr

record CudaUdpServer =
  sv_received :: u64

record CudaUdpClient =
  cl_stop :: bool
  cl_sent :: u32
  cl_totalTx :: u64
  cl_count :: u32
  cl_size :: u32
  cl_interval :: u64
  cl_NodeID :: u32
  cl_lookahead :: u64
  cl_socket :: ptr

section \<open>The store\<close>

record gpu =
  packets :: "ptr \<Rightarrow> CudaPacket"
  gbuffers :: gmem
  devices :: "ptr \<Rightarrow> CudaNetDevice"
  channels :: "ptr \<Rightarrow> CudaP2PChannel"
  bridges :: "ptr \<Rightarrow> CudaBridgeNetDevice"
  interfaces :: "ptr \<Rightarrow> CudaIpv4Interface"
  l3s :: "ptr \<Rightarrow> CudaIpv4L3Protocol"
  udps :: "ptr \<Rightarrow> CudaUdpL4Protocol"
  sockets :: "ptr \<Rightarrow> CudaSocket"
  servers :: "ptr \<Rightarrow> CudaUdpServer"
  clients :: "ptr \<Rightarrow> CudaUdpClient"
  packetUid :: u32
  inserted :: "DevCall list"

text \<open>
  What the compiled program fixes and the source leaves open: the address of a header on a thread's stack, the bytes of
  variables that are read before they are written (a MAC address, the IP checksum), the value of
  \<^verbatim>\<open>CudaUdpL4Protocol::OptimizeSend\<close>, which has no return statement, and the addresses of the arrays of packets.
\<close>

record gpu_env =
  stack_addr :: ptr
  no_mac :: mac
  no_checksum :: u16
  no_result :: int
  threadBuf :: ptr
  packetRawBuf :: ptr
  env_pitch :: u64

definition set_packet :: "ptr \<Rightarrow> CudaPacket \<Rightarrow> gpu \<Rightarrow> gpu" where
  "set_packet p x g = g\<lparr>packets := (packets g)(p := x)\<rparr>"

definition set_device :: "ptr \<Rightarrow> CudaNetDevice \<Rightarrow> gpu \<Rightarrow> gpu" where
  "set_device d x g = g\<lparr>devices := (devices g)(d := x)\<rparr>"

definition set_socket :: "ptr \<Rightarrow> CudaSocket \<Rightarrow> gpu \<Rightarrow> gpu" where
  "set_socket a x g = g\<lparr>sockets := (sockets g)(a := x)\<rparr>"

text \<open>\<^verbatim>\<open>packet->ready = 0\<close>\<close>

definition release_packet :: "ptr \<Rightarrow> gpu \<Rightarrow> gpu" where
  "release_packet p g = set_packet p ((packets g p)\<lparr>pk_ready := 0\<rparr>) g"

definition d_insert :: "DevCall \<Rightarrow> gpu \<Rightarrow> gpu" where
  "d_insert c g = g\<lparr>inserted := inserted g @ [c]\<rparr>"

text \<open>\<^verbatim>\<open>p->ready\<close> as the dequeuing thread sees it.\<close>

definition packet_ready :: "gpu \<Rightarrow> ptr \<Rightarrow> bool" where
  "packet_ready g p \<longleftrightarrow> pk_ready (packets g p) \<noteq> 0"

definition packet_AddHeader :: "gpu_env \<Rightarrow> u8 list \<Rightarrow> ptr \<Rightarrow> gpu \<Rightarrow> gpu option" where
  "packet_AddHeader env header p g =
     map_option (\<lambda>(x, mem). (set_packet p x g)\<lparr>gbuffers := mem\<rparr>)
       (Packet_AddHeader (stack_addr env) header (packets g p) (gbuffers g))"

definition packet_RemoveHeader :: "u32 \<Rightarrow> ptr \<Rightarrow> gpu \<Rightarrow> gpu" where
  "packet_RemoveHeader n p g = set_packet p (Packet_RemoveHeader n (packets g p)) g"

definition packet_Extract :: "u8 list \<Rightarrow> u32 \<Rightarrow> u32 \<Rightarrow> ptr \<Rightarrow> gpu \<Rightarrow> u8 list option" where
  "packet_Extract dst off len p g = ExtractPayload dst off len (packets g p) (gbuffers g)"

lemma set_packet_frame [simp]:
  "gbuffers (set_packet p x g) = gbuffers g" "devices (set_packet p x g) = devices g"
  "channels (set_packet p x g) = channels g" "bridges (set_packet p x g) = bridges g"
  "interfaces (set_packet p x g) = interfaces g" "l3s (set_packet p x g) = l3s g" "udps (set_packet p x g) = udps g"
  "sockets (set_packet p x g) = sockets g" "servers (set_packet p x g) = servers g"
  "clients (set_packet p x g) = clients g" "packetUid (set_packet p x g) = packetUid g"
  "inserted (set_packet p x g) = inserted g" "packets (set_packet p x g) = (packets g)(p := x)"
  by (simp_all add: set_packet_def)

lemma set_device_frame [simp]:
  "packets (set_device d x g) = packets g" "gbuffers (set_device d x g) = gbuffers g"
  "channels (set_device d x g) = channels g" "bridges (set_device d x g) = bridges g"
  "interfaces (set_device d x g) = interfaces g" "l3s (set_device d x g) = l3s g" "udps (set_device d x g) = udps g"
  "sockets (set_device d x g) = sockets g" "servers (set_device d x g) = servers g"
  "clients (set_device d x g) = clients g" "packetUid (set_device d x g) = packetUid g"
  "inserted (set_device d x g) = inserted g" "devices (set_device d x g) = (devices g)(d := x)"
  by (simp_all add: set_device_def)

lemma set_socket_frame [simp]:
  "packets (set_socket d x g) = packets g" "gbuffers (set_socket d x g) = gbuffers g"
  "channels (set_socket d x g) = channels g" "bridges (set_socket d x g) = bridges g"
  "interfaces (set_socket d x g) = interfaces g" "l3s (set_socket d x g) = l3s g" "udps (set_socket d x g) = udps g"
  "devices (set_socket d x g) = devices g" "servers (set_socket d x g) = servers g"
  "clients (set_socket d x g) = clients g" "packetUid (set_socket d x g) = packetUid g"
  "inserted (set_socket d x g) = inserted g" "sockets (set_socket d x g) = (sockets g)(d := x)"
  by (simp_all add: set_socket_def)

lemma d_insert_frame [simp]:
  "packets (d_insert c g) = packets g" "gbuffers (d_insert c g) = gbuffers g" "devices (d_insert c g) = devices g"
  "channels (d_insert c g) = channels g" "bridges (d_insert c g) = bridges g"
  "interfaces (d_insert c g) = interfaces g" "l3s (d_insert c g) = l3s g" "udps (d_insert c g) = udps g"
  "sockets (d_insert c g) = sockets g" "servers (d_insert c g) = servers g" "clients (d_insert c g) = clients g"
  "packetUid (d_insert c g) = packetUid g" "inserted (d_insert c g) = inserted g @ [c]"
  by (simp_all add: d_insert_def)

lemma release_frame [simp]:
  "gbuffers (release_packet p g) = gbuffers g" "devices (release_packet p g) = devices g"
  "channels (release_packet p g) = channels g" "bridges (release_packet p g) = bridges g"
  "interfaces (release_packet p g) = interfaces g" "l3s (release_packet p g) = l3s g" "udps (release_packet p g) = udps g"
  "sockets (release_packet p g) = sockets g" "servers (release_packet p g) = servers g"
  "clients (release_packet p g) = clients g" "packetUid (release_packet p g) = packetUid g"
  "inserted (release_packet p g) = inserted g" "packets (release_packet p g) = (packets g)(p := (packets g p)\<lparr>pk_ready := 0\<rparr>)"
  by (simp_all add: release_packet_def)

end
