(* ===== verification/Gpu_Device.thy ===== *)
theory Gpu_Device
  imports Gpu_State
begin

text \<open>
  The link layer of the GPU stack: \<^verbatim>\<open>CudaNetDevice\<close> (\<^verbatim>\<open>cuda-net-device.cu\<close>), \<^verbatim>\<open>CudaP2PChannel\<close>
  (\<^verbatim>\<open>cuda-p2p-channel.cu\<close>) and \<^verbatim>\<open>CudaBridgeNetDevice\<close> (\<^verbatim>\<open>cuda-bridge-net-device.cu\<close>), as one thread runs them.
  The \<^verbatim>\<open>cb_data\<close> argument is null on every path from an event of the simulator and left out.
\<close>

section \<open>Channel\<close>

definition Channel_new :: "u64 \<Rightarrow> CudaP2PChannel" where
  "Channel_new delay = \<lparr>ch_link = replicate 2 \<lparr>l_state = INITIALIZING, l_src = nullptr, l_dst = nullptr\<rparr>,
     ch_nDevices = 0, ch_delay = delay, ch_NodeID = 0, ch_dst_NodeID = 0\<rparr>"

text \<open>\<open>None\<close>: a third device is written outside \<^verbatim>\<open>m_link\<close>.  \<open>node d\<close> is the id of the node of device \<open>d\<close>.\<close>

definition Channel_Attach :: "(ptr \<Rightarrow> u32) \<Rightarrow> ptr \<Rightarrow> CudaP2PChannel \<Rightarrow> CudaP2PChannel option" where
  "Channel_Attach node device c =
     (if 2 \<le> ch_nDevices c then None
      else
        let ls = (ch_link c)[ch_nDevices c := (ch_link c ! ch_nDevices c)\<lparr>l_src := device\<rparr>];
            c = c\<lparr>ch_link := ls, ch_nDevices := ch_nDevices c + 1\<rparr>
        in if ch_nDevices c = 2 then
             (let s0 = l_src (ls ! 0); s1 = l_src (ls ! 1)
              in Some (c\<lparr>ch_link := [\<lparr>l_state = IDLE, l_src = s0, l_dst = s1\<rparr>, \<lparr>l_state = IDLE, l_src = s1, l_dst = s0\<rparr>],
                     ch_NodeID := node s0, ch_dst_NodeID := node s1\<rparr>))
           else Some c)"

definition wire_of :: "ptr \<Rightarrow> CudaP2PChannel \<Rightarrow> nat" where
  "wire_of src c = (if src = l_src (ch_link c ! 0) then 0 else 1)"

definition GetDstDev :: "ptr \<Rightarrow> CudaP2PChannel \<Rightarrow> ptr" where
  "GetDstDev src c = l_dst (ch_link c ! wire_of src c)"

text \<open>\<^verbatim>\<open>CudaP2PChannel::TransmitStart\<close>\<close>

definition Channel_TransmitStart :: "ptr \<Rightarrow> ptr \<Rightarrow> ptr \<Rightarrow> u64 \<Rightarrow> u64 \<Rightarrow> gpu \<Rightarrow> bool \<times> gpu" where
  "Channel_TransmitStart ch d_packet src txTime currentTs g =
     (let c = channels g ch
      in if l_state (ch_link c ! 0) = INITIALIZING \<or> l_state (ch_link c ! 1) = INITIALIZING then (False, g)
         else
           let wire = wire_of src c;
               context = (if wire = 0 then ch_dst_NodeID c else ch_NodeID c);
               m_dst = l_dst (ch_link c ! wire);
               m_src = l_src (ch_link c ! wire);
               lookahead = (if nd_rxCB_enable (devices g m_dst)
                 then mtu_lookahead (ucast (nd_mtu (devices g m_src))) (nd_bps (devices g m_src)) (ch_delay c)
                 else UINT64_MAX)
           in (True, d_insert \<lparr>dc_impl = m_dst, dc_ts = arrival_time currentTs txTime (ch_delay c),
                 dc_context = context, dc_type = 2, dc_lookahead = lookahead, dc_payload = d_packet\<rparr> g))"

section \<open>Device\<close>

definition dev_Enqueue :: "ptr \<Rightarrow> ptr \<Rightarrow> gpu \<Rightarrow> bool \<times> gpu" where
  "dev_Enqueue d packet g =
     (let (b, q) = EnqueuePacket packet (nd_queue (devices g d))
      in (b, set_device d ((devices g d)\<lparr>nd_queue := q\<rparr>) g))"

definition dev_Dequeue :: "ptr \<Rightarrow> gpu \<Rightarrow> ptr option \<times> gpu" where
  "dev_Dequeue d g =
     (let (r, q) = DequeuePacket (packet_ready g) (nd_queue (devices g d))
      in (r, set_device d ((devices g d)\<lparr>nd_queue := q\<rparr>) g))"

definition set_tx_state :: "ptr \<Rightarrow> TxMachineState \<Rightarrow> gpu \<Rightarrow> gpu" where
  "set_tx_state d st g = set_device d ((devices g d)\<lparr>nd_txMachineState := st\<rparr>) g"

text \<open>\<^verbatim>\<open>if(EnqueuePacket(packet) == false) packet->ready = 0;\<close>\<close>

definition enqueue_or_release :: "ptr \<Rightarrow> ptr \<Rightarrow> gpu \<Rightarrow> gpu" where
  "enqueue_or_release d packet g =
     (let (b, g) = dev_Enqueue d packet g in if b then g else release_packet packet g)"

definition TransmitStart :: "ptr \<Rightarrow> ptr \<Rightarrow> u64 \<Rightarrow> gpu \<Rightarrow> bool \<times> gpu" where
  "TransmitStart d packet currentTs g =
     (if nd_txMachineState (devices g d) \<noteq> READY then (False, enqueue_or_release d packet g)
      else
        let g = set_tx_state d BUSY g;
            d_interval = tx_interval (pk_size (packets g packet)) (nd_bps (devices g d));
            g = d_insert \<lparr>dc_impl = d, dc_ts = currentTs + d_interval, dc_context = nd_NodeID (devices g d),
                  dc_type = 1, dc_lookahead = nd_lookahead (devices g d), dc_payload = nullptr\<rparr> g
        in Channel_TransmitStart (nd_channel (devices g d)) packet d d_interval currentTs g)"

definition D_TransmitComplete :: "ptr \<Rightarrow> u64 \<Rightarrow> gpu \<Rightarrow> gpu" where
  "D_TransmitComplete d currentTs g =
     (if nd_txMachineState (devices g d) \<noteq> BUSY then g
      else
        let g = set_tx_state d READY g
        in case dev_Dequeue d g of
             (None, g) \<Rightarrow> g
           | (Some packet, g) \<Rightarrow> snd (TransmitStart d packet currentTs g))"

text \<open>The bytes of the \<^verbatim>\<open>uint32_t\<close> \<^verbatim>\<open>ethertype_padded = 0x0800\<close> on a little-endian machine.\<close>

definition ethertype_padded :: "u8 list" where
  "ethertype_padded = [0x00, 0x08, 0x00, 0x00]"

definition send_or_queue :: "ptr \<Rightarrow> ptr \<Rightarrow> u64 \<Rightarrow> gpu \<Rightarrow> gpu" where
  "send_or_queue d packet currentTs g =
     (if nd_txMachineState (devices g d) = READY then snd (TransmitStart d packet currentTs g)
      else enqueue_or_release d packet g)"

text \<open>A link that is down is only reported.\<close>

definition SendFrom :: "gpu_env \<Rightarrow> ptr \<Rightarrow> ptr \<Rightarrow> mac \<Rightarrow> mac \<Rightarrow> u64 \<Rightarrow> gpu \<Rightarrow> gpu option" where
  "SendFrom env d packet src dst currentTs g = do {
     g \<leftarrow> packet_AddHeader env ethertype_padded packet g;
     g \<leftarrow> packet_AddHeader env src packet g;
     g \<leftarrow> packet_AddHeader env dst packet g;
     Some (send_or_queue d packet currentTs g) }"

definition dev_Send :: "gpu_env \<Rightarrow> ptr \<Rightarrow> ptr \<Rightarrow> mac \<Rightarrow> u64 \<Rightarrow> gpu \<Rightarrow> gpu option" where
  "dev_Send env d packet destination currentTs g =
     SendFrom env d packet (nd_macAddress (devices g d)) destination currentTs g"

definition d_GetBroadcast :: mac where
  "d_GetBroadcast = replicate 6 0xFF"

definition d_NeedsArp :: bool where
  "d_NeedsArp = True"

section \<open>Bridge\<close>

definition bridge_learn :: "ptr \<Rightarrow> mac \<Rightarrow> ptr \<Rightarrow> gpu \<Rightarrow> gpu" where
  "bridge_learn b source port g =
     g\<lparr>bridges := (bridges g)(b := (bridges g b)\<lparr>br_learning := Learn source port (br_learning (bridges g b))\<rparr>)\<rparr>"

text \<open>The loop over the ports.\<close>

fun flood :: "gpu_env \<Rightarrow> ptr list \<Rightarrow> ptr \<Rightarrow> ptr \<Rightarrow> mac \<Rightarrow> mac \<Rightarrow> u64 \<Rightarrow> gpu \<Rightarrow> gpu option" where
  "flood env [] incomingPort packet src dst currentTs g = Some g"
| "flood env (port # ports) incomingPort packet src dst currentTs g =
     (if port \<noteq> incomingPort then
        Option.bind (SendFrom env port packet src dst currentTs g) (flood env ports incomingPort packet src dst currentTs)
      else flood env ports incomingPort packet src dst currentTs g)"

definition ForwardUnicast :: "gpu_env \<Rightarrow> ptr \<Rightarrow> ptr \<Rightarrow> ptr \<Rightarrow> mac \<Rightarrow> mac \<Rightarrow> u64 \<Rightarrow> gpu \<Rightarrow> gpu option" where
  "ForwardUnicast env b incomingPort packet src dst currentTs g =
     (let g = bridge_learn b src incomingPort g;
          outgoingPort = GetLearnedState dst (br_learning (bridges g b))
      in if outgoingPort \<noteq> nullptr then SendFrom env outgoingPort packet src dst currentTs g
         else flood env (take (br_portCnt (bridges g b)) (br_ports (bridges g b))) incomingPort packet src dst currentTs g)"

datatype CudaPacketType = PACKET_HOST | PACKET_BROADCAST | PACKET_MULTICAST | PACKET_OTHERHOST

fun ReceiveFromDevice :: "gpu_env \<Rightarrow> ptr \<Rightarrow> ptr \<Rightarrow> ptr \<Rightarrow> mac \<Rightarrow> mac \<Rightarrow> CudaPacketType \<Rightarrow> u64 \<Rightarrow> gpu \<Rightarrow> gpu option" where
  "ReceiveFromDevice env b device packet source destination PACKET_HOST currentTs g =
     ForwardUnicast env b device packet source destination currentTs g"
| "ReceiveFromDevice env b device packet source destination PACKET_BROADCAST currentTs g =
     ForwardUnicast env b device packet source destination currentTs g"
| "ReceiveFromDevice env b device packet source destination PACKET_MULTICAST currentTs g =
     ForwardUnicast env b device packet source destination currentTs g"
| "ReceiveFromDevice env b device packet source destination PACKET_OTHERHOST currentTs g =
     ForwardUnicast env b device packet source destination currentTs g"

text \<open>
  \<open>Inl ()\<close> is \<^verbatim>\<open>NS_FATAL_ERROR\<close>: too many ports.  The device remembers its bridge.  The checks of \<^verbatim>\<open>m_ports\<close>,
  the address type and \<^verbatim>\<open>SupportsSendFrom\<close> cannot fail here (the array is allocated by the constructor, every
  \<^verbatim>\<open>CudaNetDevice\<close> has a \<^verbatim>\<open>Mac48Address\<close> and supports \<^verbatim>\<open>SendFrom\<close>).
\<close>

definition AddBridgePort :: "ptr \<Rightarrow> ptr \<Rightarrow> gpu \<Rightarrow> unit + gpu" where
  "AddBridgePort b devicePtr g =
     (let x = bridges g b
      in if br_portCnt x \<ge> MAX_MAC_ENTRIES then Inl ()
         else
           let g = set_device devicePtr ((devices g devicePtr)\<lparr>nd_rxCB_enable := True, nd_bridge := b\<rparr>) g
           in Inr (g\<lparr>bridges := (bridges g)(b := x\<lparr>br_ports := (br_ports x)[br_portCnt x := devicePtr],
                br_portCnt := br_portCnt x + 1\<rparr>)\<rparr>))"

section \<open>Runs of one device\<close>

text \<open>
  The transmitter of a device over a run of sends and completions: a device is busy exactly while one completion
  event is outstanding, an idle device has an empty queue, and the packets go out in the order they were sent.
\<close>

section \<open>One operation\<close>

abbreviation queue_of :: "ptr \<Rightarrow> gpu \<Rightarrow> tx_queue" where
  "queue_of d g \<equiv> nd_queue (devices g d)"

definition channel_up :: "ptr \<Rightarrow> gpu \<Rightarrow> bool" where
  "channel_up d g \<longleftrightarrow> (let c = channels g (nd_channel (devices g d))
     in l_state (ch_link c ! 0) \<noteq> INITIALIZING \<and> l_state (ch_link c ! 1) \<noteq> INITIALIZING)"

definition completion_call :: "ptr \<Rightarrow> ptr \<Rightarrow> u64 \<Rightarrow> gpu \<Rightarrow> DevCall" where
  "completion_call d p t g = \<lparr>dc_impl = d,
     dc_ts = t + tx_interval (pk_size (packets g p)) (nd_bps (devices g d)), dc_context = nd_NodeID (devices g d),
     dc_type = 1, dc_lookahead = nd_lookahead (devices g d), dc_payload = nullptr\<rparr>"

definition arrival_call :: "ptr \<Rightarrow> ptr \<Rightarrow> u64 \<Rightarrow> gpu \<Rightarrow> DevCall" where
  "arrival_call d p t g =
     (let c = channels g (nd_channel (devices g d)); w = wire_of d c; e = l_dst (ch_link c ! w); s = l_src (ch_link c ! w)
      in \<lparr>dc_impl = e,
          dc_ts = arrival_time t (tx_interval (pk_size (packets g p)) (nd_bps (devices g d))) (ch_delay c),
          dc_context = (if w = 0 then ch_dst_NodeID c else ch_NodeID c), dc_type = 2,
          dc_lookahead = (if nd_rxCB_enable (devices g e)
             then mtu_lookahead (ucast (nd_mtu (devices g s))) (nd_bps (devices g s)) (ch_delay c) else UINT64_MAX),
          dc_payload = p\<rparr>)"

lemma set_tx_state_frame [simp]:
  "packets (set_tx_state d st g) = packets g" "channels (set_tx_state d st g) = channels g"
  "inserted (set_tx_state d st g) = inserted g" "gbuffers (set_tx_state d st g) = gbuffers g"
  "devices (set_tx_state d st g) = (devices g)(d := (devices g d)\<lparr>nd_txMachineState := st\<rparr>)"
  by (simp_all add: set_tx_state_def)

lemma channel_up_state [simp]: "channel_up d (set_tx_state d st g) = channel_up d g"
  by (simp add: channel_up_def)

lemma TransmitStart_ready:
  assumes "nd_txMachineState (devices g d) = READY" and "channel_up d g"
  shows "TransmitStart d p t g =
    (True, d_insert (arrival_call d p t g) (d_insert (completion_call d p t g) (set_tx_state d BUSY g)))"
proof -
  let ?g = "set_tx_state d BUSY g"
  have e: "nd_rxCB_enable (devices ?g x) = nd_rxCB_enable (devices g x)"
    "nd_mtu (devices ?g x) = nd_mtu (devices g x)" "nd_bps (devices ?g x) = nd_bps (devices g x)"
    "nd_NodeID (devices ?g x) = nd_NodeID (devices g x)" "nd_lookahead (devices ?g x) = nd_lookahead (devices g x)"
    "nd_channel (devices ?g x) = nd_channel (devices g x)" for x
    by simp_all
  define c where "c = channels g (nd_channel (devices g d))"
  have up: "(l_state (ch_link c ! 0) = INITIALIZING \<or> l_state (ch_link c ! 1) = INITIALIZING) = False"
    using assms(2) by (simp add: channel_up_def c_def Let_def)
  have "TransmitStart d p t g = Channel_TransmitStart (nd_channel (devices g d)) p d
      (tx_interval (pk_size (packets g p)) (nd_bps (devices g d))) t (d_insert (completion_call d p t g) ?g)"
    by (simp only: TransmitStart_def assms(1) Let_def e set_tx_state_frame(1) completion_call_def d_insert_frame not_True_eq_False
        simp_thms if_False)
  also have "\<dots> = (True, d_insert (arrival_call d p t g) (d_insert (completion_call d p t g) ?g))"
    by (simp only: Channel_TransmitStart_def arrival_call_def Let_def d_insert_frame set_tx_state_frame(2) e
        c_def [symmetric] up if_False)
  finally show ?thesis .
qed

lemma TransmitStart_busy:
  "nd_txMachineState (devices g d) = BUSY \<Longrightarrow> TransmitStart d p t g = (False, enqueue_or_release d p g)"
  by (simp add: TransmitStart_def)

lemma send_or_queue_cases:
  assumes "channel_up d g"
  shows "send_or_queue d p t g = (case nd_txMachineState (devices g d) of
      READY \<Rightarrow> d_insert (arrival_call d p t g) (d_insert (completion_call d p t g) (set_tx_state d BUSY g))
    | BUSY \<Rightarrow> enqueue_or_release d p g)"
  using TransmitStart_ready [OF _ assms] by (simp add: send_or_queue_def split: TxMachineState.splits)

section \<open>Runs\<close>

definition completions :: "ptr \<Rightarrow> gpu \<Rightarrow> nat" where
  "completions d g = length (filter (\<lambda>c. dc_type c = 1 \<and> dc_impl c = d) (inserted g))"

definition transmitted :: "gpu \<Rightarrow> ptr list" where
  "transmitted g = map dc_payload (filter (\<lambda>c. dc_type c = 2) (inserted g))"

definition accepts :: "ptr \<Rightarrow> gpu \<Rightarrow> bool" where
  "accepts d g \<longleftrightarrow> nd_txMachineState (devices g d) = READY \<or> length (tx_list (queue_of d g)) < 2048"

text \<open>
  \<open>device_run d ps k g\<close>: device \<open>d\<close> was given the packets \<open>ps\<close>, refused ones not counted, and \<open>k\<close> of its completion
  events have been handled.  Between its operations other code may run that leaves the device, its channel and the
  readiness of the packets it has queued alone.
\<close>

inductive device_run :: "ptr \<Rightarrow> ptr list \<Rightarrow> nat \<Rightarrow> gpu \<Rightarrow> bool" for d where
  start: "nd_txMachineState (devices g d) = READY \<Longrightarrow> tx_invar (packet_ready g) (queue_of d g) \<Longrightarrow>
     tx_list (queue_of d g) = [] \<Longrightarrow> inserted g = [] \<Longrightarrow> channel_up d g \<Longrightarrow> device_run d [] 0 g"
| send: "device_run d ps k g \<Longrightarrow> p \<noteq> nullptr \<Longrightarrow> packet_ready g p \<Longrightarrow> p \<notin> set (tx_list (queue_of d g)) \<Longrightarrow>
     device_run d (if accepts d g then ps @ [p] else ps) k (send_or_queue d p t g)"
| complete: "device_run d ps k g \<Longrightarrow> k < completions d g \<Longrightarrow> device_run d ps (Suc k) (D_TransmitComplete d t g)"
| others: "device_run d ps k g \<Longrightarrow> devices g' d = devices g d \<Longrightarrow> channel_up d g' \<Longrightarrow> inserted g' = inserted g \<Longrightarrow>
     \<forall>p\<in>set (tx_list (queue_of d g)). packet_ready g' p \<Longrightarrow> device_run d ps k g'"

definition device_inv :: "ptr \<Rightarrow> ptr list \<Rightarrow> nat \<Rightarrow> gpu \<Rightarrow> bool" where
  "device_inv d ps k g \<longleftrightarrow>
     tx_invar (packet_ready g) (queue_of d g) \<and> channel_up d g \<and> transmitted g @ tx_list (queue_of d g) = ps \<and>
     (case nd_txMachineState (devices g d) of
        READY \<Rightarrow> completions d g = k \<and> tx_list (queue_of d g) = [] | BUSY \<Rightarrow> completions d g = Suc k)"

lemma transmitted_insert [simp]:
  "transmitted (d_insert c g) = (if dc_type c = 2 then transmitted g @ [dc_payload c] else transmitted g)"
  "completions d (d_insert c g) = (if dc_type c = 1 \<and> dc_impl c = d then Suc (completions d g) else completions d g)"
  by (simp_all add: transmitted_def completions_def)

lemma transmitted_cong: "inserted g' = inserted g \<Longrightarrow> transmitted g' = transmitted g"
  "inserted g' = inserted g \<Longrightarrow> completions d g' = completions d g"
  by (simp_all add: transmitted_def completions_def)

lemma call_types [simp]:
  "dc_type (arrival_call d p t g) = 2" "dc_payload (arrival_call d p t g) = p"
  "dc_type (completion_call d p t g) = 1" "dc_impl (completion_call d p t g) = d"
  by (simp_all add: arrival_call_def completion_call_def Let_def)

lemma tx_invar_cong:
  assumes "tx_invar r q" and "\<forall>p\<in>set (tx_list q). r' p"
  shows "tx_invar r' q"
  using assms by (simp add: tx_invar_def tx_good_def)

lemma channel_up_cong: "channels g' = channels g \<Longrightarrow> nd_channel (devices g' d) = nd_channel (devices g d) \<Longrightarrow>
    channel_up d g' = channel_up d g"
  by (simp add: channel_up_def)

lemma packet_ready_cong: "packets g' = packets g \<Longrightarrow> packet_ready g' = packet_ready g"
  by (simp add: packet_ready_def fun_eq_iff)

lemma transmit_inv:
  assumes "nd_txMachineState (devices g d) = READY" and "channel_up d g"
    and "tx_invar (packet_ready g) (queue_of d g)" and "completions d g = k"
    and "transmitted g @ p # tx_list (queue_of d g) = ps"
  shows "device_inv d ps k
    (d_insert (arrival_call d p t g) (d_insert (completion_call d p t g) (set_tx_state d BUSY g)))" (is "device_inv d ps k ?g")
proof -
  have "transmitted (set_tx_state d BUSY g) = transmitted g" "completions d (set_tx_state d BUSY g) = completions d g"
    by (rule transmitted_cong, simp)+
  moreover have "packet_ready ?g = packet_ready g" by (rule packet_ready_cong) simp
  moreover have "channel_up d ?g = channel_up d g" by (rule channel_up_cong) simp_all
  ultimately show ?thesis using assms by (simp add: device_inv_def)
qed

lemma send_inv:
  assumes inv: "device_inv d ps k g" and p: "p \<noteq> nullptr" "packet_ready g p" "p \<notin> set (tx_list (queue_of d g))"
  shows "device_inv d (if accepts d g then ps @ [p] else ps) k (send_or_queue d p t g)"
proof (cases "nd_txMachineState (devices g d)")
  case READY
  then have "tx_list (queue_of d g) = []" "transmitted g = ps" using inv by (auto simp: device_inv_def)
  with READY have "device_inv d (ps @ [p]) k
      (d_insert (arrival_call d p t g) (d_insert (completion_call d p t g) (set_tx_state d BUSY g)))"
    using inv by (intro transmit_inv) (simp_all add: device_inv_def)
  then show ?thesis using READY inv by (simp add: send_or_queue_cases accepts_def device_inv_def)
next
  case BUSY
  let ?q = "queue_of d g" and ?r = "packet_ready g"
  have i: "tx_invar ?r ?q" "channel_up d g" using inv by (simp_all add: device_inv_def)
  have s: "send_or_queue d p t g = enqueue_or_release d p g" using BUSY send_or_queue_cases [OF i(2)] by simp
  show ?thesis
  proof (cases "length (tx_list ?q) < 2048")
    case True
    have e: "fst (EnqueuePacket p ?q)" "tx_list (snd (EnqueuePacket p ?q)) = tx_list ?q @ [p]"
      "tx_invar ?r (snd (EnqueuePacket p ?q))"
      using txq.enq_room [OF i(1) _ True, of p] p by (simp_all add: tx_good_def)
    let ?g = "set_device d ((devices g d)\<lparr>nd_queue := snd (EnqueuePacket p ?q)\<rparr>) g"
    have g: "send_or_queue d p t g = ?g"
      unfolding s enqueue_or_release_def dev_Enqueue_def using e(1) by (simp add: split_beta)
    have "packet_ready ?g = ?r" by (rule packet_ready_cong) simp
    moreover have "channel_up d ?g = channel_up d g" by (rule channel_up_cong) simp_all
    moreover have "transmitted ?g = transmitted g" "completions d ?g = completions d g" by (rule transmitted_cong, simp)+
    ultimately show ?thesis using inv e BUSY True unfolding g by (auto simp: device_inv_def accepts_def)
  next
    case False
    then have e: "EnqueuePacket p ?q = (False, ?q)" using i by (intro txq.enq_full) auto
    have g: "send_or_queue d p t g = release_packet p g"
      unfolding s enqueue_or_release_def dev_Enqueue_def using e by (simp add: set_device_def)
    have "\<forall>x\<in>set (tx_list ?q). packet_ready (release_packet p g) x"
      using i(1) p(3) by (auto simp: tx_invar_def tx_good_def packet_ready_def)
    then have "tx_invar (packet_ready (release_packet p g)) ?q" by (rule tx_invar_cong [OF i(1)])
    moreover have "channel_up d (release_packet p g) = channel_up d g" by (rule channel_up_cong) simp_all
    moreover have "transmitted (release_packet p g) = transmitted g" "completions d (release_packet p g) = completions d g"
      by (rule transmitted_cong, simp)+
    ultimately show ?thesis using inv BUSY False unfolding g by (simp add: device_inv_def accepts_def)
  qed
qed

lemma complete_inv:
  assumes inv: "device_inv d ps k g" and k: "k < completions d g"
  shows "device_inv d ps (Suc k) (D_TransmitComplete d t g)"
proof -
  let ?q = "queue_of d g" and ?g = "set_tx_state d READY g"
  have busy: "nd_txMachineState (devices g d) = BUSY" "completions d g = Suc k"
    using inv k by (auto simp: device_inv_def split: TxMachineState.splits)
  have i: "tx_invar (packet_ready ?g) ?q" "channel_up d g"
    using inv packet_ready_cong [of ?g g] by (simp_all add: device_inv_def)
  have c: "transmitted ?g = transmitted g" "completions d ?g = completions d g" by (rule transmitted_cong, simp)+
  have q: "queue_of d ?g = ?q" by simp
  show ?thesis
  proof (cases "tx_list ?q")
    case Nil
    then have "DequeuePacket (packet_ready ?g) ?q = (None, ?q)" by (rule txq.deq_empty [OF i(1)])
    then have "D_TransmitComplete d t g = ?g"
      using busy q by (simp add: D_TransmitComplete_def dev_Dequeue_def set_device_def set_tx_state_def)
    then show ?thesis using inv i c busy Nil q by (simp add: device_inv_def)
  next
    case (Cons p ps')
    let ?q' = "snd (DequeuePacket (packet_ready ?g) ?q)"
    let ?h = "set_device d ((devices ?g d)\<lparr>nd_queue := ?q'\<rparr>) ?g"
    have e: "fst (DequeuePacket (packet_ready ?g) ?q) = Some p" "tx_list ?q' = ps'" "tx_invar (packet_ready ?g) ?q'"
      using txq.deq_Cons [OF i(1) Cons] by simp_all
    have dq: "dev_Dequeue d ?g = (Some p, ?h)" using e(1) q by (simp add: dev_Dequeue_def split_beta)
    have up: "channel_up d ?h" using i(2) channel_up_cong [of ?h g d] by simp
    have rd: "nd_txMachineState (devices ?h d) = READY" by simp
    have D: "D_TransmitComplete d t g =
        d_insert (arrival_call d p t ?h) (d_insert (completion_call d p t ?h) (set_tx_state d BUSY ?h))"
      using busy(1) TransmitStart_ready [OF rd up, of p t] by (simp add: D_TransmitComplete_def dq)
    have h: "transmitted ?h = transmitted g" "completions d ?h = completions d g" by (rule transmitted_cong, simp)+
    have "tx_invar (packet_ready ?h) (queue_of d ?h)" using e(3) packet_ready_cong [of ?h ?g] by simp
    moreover have "transmitted ?h @ p # tx_list (queue_of d ?h) = ps" using inv Cons h e(2) by (simp add: device_inv_def)
    ultimately show ?thesis unfolding D using rd up h busy(2) by (intro transmit_inv) simp_all
  qed
qed

lemma device_run_inv: "device_run d ps k g \<Longrightarrow> device_inv d ps k g"
proof (induction rule: device_run.induct)
  case (start g)
  then show ?case by (simp add: device_inv_def transmitted_def completions_def)
next
  case (send ps k g p t)
  then show ?case by (intro send_inv)
next
  case (complete ps k g t)
  then show ?case by (intro complete_inv)
next
  case (others ps k g g')
  then have "tx_invar (packet_ready g') (queue_of d g)" by (auto simp: device_inv_def intro: tx_invar_cong)
  moreover have "queue_of d g' = queue_of d g" "nd_txMachineState (devices g' d) = nd_txMachineState (devices g d)"
    using others.hyps(2) by simp_all
  ultimately show ?case
    using others.IH others.hyps(3) transmitted_cong [OF others.hyps(4)]
    by (simp add: device_inv_def split: TxMachineState.splits)
qed

end
