(* ===== verification/Gpu_Stack.thy ===== *)
theory Gpu_Stack
  imports Gpu_Device
begin

text \<open>
  The internet stack and the applications of the GPU: \<^verbatim>\<open>CudaIpv4Interface\<close>, \<^verbatim>\<open>CudaIpv4L3Protocol\<close>,
  \<^verbatim>\<open>CudaUdpL4Protocol\<close>, \<^verbatim>\<open>CudaSocket\<close>, \<^verbatim>\<open>CudaUdpServer\<close> and \<^verbatim>\<open>CudaUdpClient\<close> (\<^verbatim>\<open>contrib/cuda/model\<close>), and the
  dispatch of an event to its handler (\<^verbatim>\<open>cuda-elp-simulator.cu\<close>).  Checksums are compiled out
  (\<^verbatim>\<open>CHECKSUM_ENABLED\<close> is not defined).
\<close>

section \<open>IP\<close>

definition SetUp :: "CudaIpv4Interface \<Rightarrow> CudaIpv4Interface" where
  "SetUp i = i\<lparr>if_isUp := True\<rparr>"

definition SetDown :: "CudaIpv4Interface \<Rightarrow> CudaIpv4Interface" where
  "SetDown i = i\<lparr>if_isUp := False\<rparr>"

text \<open>An ARP miss is only reported.\<close>

definition Interface_OptimizeSend :: "gpu_env \<Rightarrow> ptr \<Rightarrow> ptr \<Rightarrow> ptr \<Rightarrow> u32 \<Rightarrow> u64 \<Rightarrow> gpu \<Rightarrow> gpu option" where
  "Interface_OptimizeSend env i device d_packet destination currentTs g =
     (let mac = d_GetBroadcast
      in if d_NeedsArp then
           (case Lookup destination (if_arp (interfaces g i)) of
              None \<Rightarrow> Some g
            | Some mac \<Rightarrow> dev_Send env device d_packet mac currentTs g)
         else dev_Send env device d_packet mac currentTs g)"

text \<open>\<open>None\<close>: an eleventh interface is written outside \<^verbatim>\<open>m_ipv4Interface\<close>.\<close>

definition AddIpv4Interface :: "ptr \<Rightarrow> CudaIpv4L3Protocol \<Rightarrow> (nat \<times> CudaIpv4L3Protocol) option" where
  "AddIpv4Interface interface l3 =
     (if 10 \<le> l3_interfaceCount l3 then None
      else Some (l3_interfaceCount l3,
        l3\<lparr>l3_interfaces := (l3_interfaces l3)[l3_interfaceCount l3 := interface],
          l3_interfaceCount := l3_interfaceCount l3 + 1\<rparr>))"

definition GetInterface :: "u32 \<Rightarrow> CudaIpv4L3Protocol \<Rightarrow> ptr" where
  "GetInterface interfaceIndex l3 =
     (if unat interfaceIndex < l3_interfaceCount l3 then l3_interfaces l3 ! unat interfaceIndex else nullptr)"

definition GetInterfaceForDevice :: "ptr \<Rightarrow> ptr \<Rightarrow> gpu \<Rightarrow> nat option" where
  "GetInterfaceForDevice l3 device g =
     first_index (\<lambda>i. if_device (interfaces g (l3_interfaces (l3s g l3) ! i)) = device) (l3_interfaceCount (l3s g l3))"

definition L3_OptimizeSend :: "gpu_env \<Rightarrow> ptr \<Rightarrow> ptr \<Rightarrow> u32 \<Rightarrow> u64 \<Rightarrow> gpu \<Rightarrow> gpu option" where
  "L3_OptimizeSend env l3 d_packet destination currentTs g =
     (let outInterfaceIndex = (case LookupRoute destination (l3_routing (l3s g l3)) of None \<Rightarrow> 0 | Some i \<Rightarrow> i);
          outInterface = GetInterface outInterfaceIndex (l3s g l3)
      in if outInterface = nullptr then Some g
         else if \<not> if_isUp (interfaces g outInterface) then Some g
         else
           (let device = if_device (interfaces g outInterface)
            in case GetInterfaceForDevice l3 device g of
                 None \<Rightarrow> Some g
               | Some _ \<Rightarrow> Interface_OptimizeSend env outInterface device d_packet destination currentTs g))"

section \<open>Headers\<close>

record CudaUdpHeader =
  uh_sport :: u16
  uh_dport :: u16
  uh_length :: u16
  uh_checksum :: u16

record CudaIpv4Header =
  ih_version_ihl :: u8
  ih_dscp_ecn :: u8
  ih_total_length :: u16
  ih_identification :: u16
  ih_flags_fragment_offset :: u16
  ih_ttl :: u8
  ih_protocol :: u8
  ih_header_checksum :: u16
  ih_saddr :: u32
  ih_daddr :: u32

text \<open>The structs as they lie in the memory of a little-endian machine; neither has padding.\<close>

definition le16 :: "u16 \<Rightarrow> u8 list" where
  "le16 w = [ucast w, ucast (drop_bit 8 w)]"

definition le32 :: "u32 \<Rightarrow> u8 list" where
  "le32 w = [ucast w, ucast (drop_bit 8 w), ucast (drop_bit 16 w), ucast (drop_bit 24 w)]"

definition udp_bytes :: "CudaUdpHeader \<Rightarrow> u8 list" where
  "udp_bytes h = le16 (uh_sport h) @ le16 (uh_dport h) @ le16 (uh_length h) @ le16 (uh_checksum h)"

definition ip_bytes :: "CudaIpv4Header \<Rightarrow> u8 list" where
  "ip_bytes h = [ih_version_ihl h, ih_dscp_ecn h] @ le16 (ih_total_length h) @ le16 (ih_identification h) @
     le16 (ih_flags_fragment_offset h) @ [ih_ttl h, ih_protocol h] @ le16 (ih_header_checksum h) @
     le32 (ih_saddr h) @ le32 (ih_daddr h)"

definition L4_PrepareHeader :: "u32 \<Rightarrow> u32 \<Rightarrow> u16 \<Rightarrow> u16 \<Rightarrow> u16 \<Rightarrow> CudaUdpHeader \<times> u16" where
  "L4_PrepareHeader saddr daddr sport dport len =
     (\<lparr>uh_sport = sport, uh_dport = dport, uh_length = len, uh_checksum = 0\<rparr>, len)"

definition L3_PrepareHeader :: "gpu_env \<Rightarrow> u32 \<Rightarrow> u32 \<Rightarrow> u8 \<Rightarrow> u16 \<Rightarrow> CudaIpv4Header" where
  "L3_PrepareHeader env source destination protocol len =
     \<lparr>ih_version_ihl = 0x05, ih_dscp_ecn = 0x45, ih_total_length = len, ih_identification = 0,
      ih_flags_fragment_offset = 0, ih_ttl = 64, ih_protocol = protocol, ih_header_checksum = no_checksum env,
      ih_saddr = source, ih_daddr = destination\<rparr>"

section \<open>UDP\<close>

definition endPoint_new :: CudaIpv4EndPoint where
  "endPoint_new = \<lparr>ep_localAddress = 0, ep_localPort = 0, ep_peerAddress = 0, ep_peerPort = 0,
     ep_boundNetDevice = nullptr, ep_rxEnabled = False, ep_socket = nullptr\<rparr>"

text \<open>
  The five overloads of \<^verbatim>\<open>Allocate\<close> differ in what they store in the end point first (\<open>f\<close>).  \<open>None\<close>: an eleventh
  end point is outside \<^verbatim>\<open>m_endPoints\<close>.
\<close>

definition udp_Allocate :: "(CudaIpv4EndPoint \<Rightarrow> CudaIpv4EndPoint) \<Rightarrow> CudaUdpL4Protocol \<Rightarrow> (nat \<times> CudaUdpL4Protocol) option" where
  "udp_Allocate f u =
     (if 10 \<le> udp_index u then None
      else Some (udp_index u, u\<lparr>udp_endPoints := (udp_endPoints u)[udp_index u := f (udp_endPoints u ! udp_index u)],
        udp_index := udp_index u + 1\<rparr>))"

text \<open>
  The arguments are passed as the code passes them: \<^verbatim>\<open>PrepareHeader\<close> is declared with the length last (\<open>len\<close>) and
  called with it first.
\<close>

definition UDP_headers :: "gpu_env \<Rightarrow> u32 \<Rightarrow> u32 \<Rightarrow> u32 \<Rightarrow> u16 \<Rightarrow> u16 \<Rightarrow> u8 list" where
  "UDP_headers env n saddr daddr sport dport =
     (let udp_length = (ucast (n + 8) :: u16);
          (udp, udpTotalLength) = L4_PrepareHeader (ucast udp_length) saddr (ucast daddr) sport dport;
          ip = L3_PrepareHeader env (ucast udpTotalLength) saddr (ucast daddr) 17
      in ip_bytes ip @ udp_bytes udp)"

definition UDP_OptimizeSend :: "gpu_env \<Rightarrow> ptr \<Rightarrow> ptr \<Rightarrow> u32 \<Rightarrow> u32 \<Rightarrow> u16 \<Rightarrow> u16 \<Rightarrow> u64 \<Rightarrow> gpu \<Rightarrow> gpu option" where
  "UDP_OptimizeSend env u d_packet saddr daddr sport dport currentTs g = do {
     let combined_headers = UDP_headers env (pk_size (packets g d_packet)) saddr daddr sport dport;
     g \<leftarrow> packet_AddHeader env combined_headers d_packet g;
     L3_OptimizeSend env (udp_ipv4 (udps g u)) d_packet daddr currentTs g }"

section \<open>Sockets and server\<close>

definition Bind_any :: "ptr \<Rightarrow> gpu \<Rightarrow> (int \<times> gpu) option" where
  "Bind_any a g =
     (let s = sockets g a
      in case udp_Allocate (\<lambda>e. e) (udps g (so_udp s)) of
           None \<Rightarrow> None
         | Some (k, u) \<Rightarrow>
             (let e = udp_endPoints u ! k;
                  e = (if so_boundnetdevice s \<noteq> nullptr then e\<lparr>ep_boundNetDevice := so_boundnetdevice s\<rparr> else e);
                  e = e\<lparr>ep_socket := a\<rparr>;
                  g = g\<lparr>udps := (udps g)(so_udp s := u\<lparr>udp_endPoints := (udp_endPoints u)[k := e]\<rparr>)\<rparr>
              in Some (0, set_socket a (s\<lparr>so_endPoint := Some k\<rparr>) g)))"

text \<open>\<open>address\<close> and \<open>port\<close>: those of an \<^verbatim>\<open>InetSocketAddress\<close>; 0 is \<^verbatim>\<open>Ipv4Address::GetAny\<close>.\<close>

definition Bind_address :: "ptr \<Rightarrow> u32 \<Rightarrow> u16 \<Rightarrow> gpu \<Rightarrow> (int \<times> gpu) option" where
  "Bind_address a address port g =
     (let s = sockets g a; bound = so_boundnetdevice s;
          f = (if address = 0 \<and> port = 0 then (\<lambda>e. e)
               else if address = 0 then (\<lambda>e. e\<lparr>ep_boundNetDevice := bound, ep_localPort := port\<rparr>)
               else if port = 0 then (\<lambda>e. e\<lparr>ep_localAddress := address\<rparr>)
               else (\<lambda>e. e\<lparr>ep_boundNetDevice := bound, ep_localAddress := address, ep_localPort := port\<rparr>))
      in case udp_Allocate f (udps g (so_udp s)) of
           None \<Rightarrow> None
         | Some (k, u) \<Rightarrow>
             (let e = udp_endPoints u ! k;
                  e = (if bound \<noteq> nullptr then e\<lparr>ep_boundNetDevice := bound\<rparr> else e);
                  e = e\<lparr>ep_socket := a\<rparr>;
                  g = g\<lparr>udps := (udps g)(so_udp s := u\<lparr>udp_endPoints := (udp_endPoints u)[k := e]\<rparr>)\<rparr>
              in Some (0, set_socket a (s\<lparr>so_endPoint := Some k\<rparr>) g)))"

text \<open>\<open>None\<close>: the address is not an \<^verbatim>\<open>InetSocketAddress\<close>.\<close>

definition Connect :: "(u32 \<times> u16) option \<Rightarrow> CudaSocket \<Rightarrow> int \<times> CudaSocket" where
  "Connect address s =
     (case address of
        Some (ip, port) \<Rightarrow> (0, s\<lparr>so_defaultAddress := ip, so_defaultPort := port, so_connected := True\<rparr>)
      | None \<Rightarrow> (-1, s))"

definition Socket_Close :: "CudaSocket \<Rightarrow> int \<times> CudaSocket" where
  "Socket_Close s = (0, s\<lparr>so_shutdownRecv := True, so_shutdownSend := True\<rparr>)"

definition ShutdownRecv :: "CudaSocket \<Rightarrow> int \<times> CudaSocket" where
  "ShutdownRecv s = (0, s\<lparr>so_shutdownRecv := True\<rparr>)"

definition ShutdownSend :: "CudaSocket \<Rightarrow> int \<times> CudaSocket" where
  "ShutdownSend s = (0, s\<lparr>so_shutdownSend := True\<rparr>)"

definition DoSendTo :: "gpu_env \<Rightarrow> ptr \<Rightarrow> ptr \<Rightarrow> u32 \<Rightarrow> u16 \<Rightarrow> u64 \<Rightarrow> gpu \<Rightarrow> (int \<times> gpu) option" where
  "DoSendTo env a d_packet dest port currentTs g =
     (let s = sockets g a
      in if so_endPoint s = None then Some (-1, g)
         else if pk_size (packets g d_packet) > 65507 then Some (-1, g)
         else if so_shutdownSend s then Some (-1, g)
         else map_option (\<lambda>g. (no_result env, g)) (UDP_OptimizeSend env (so_udp s) d_packet 0 dest 0 port currentTs g))"

definition Socket_Send :: "gpu_env \<Rightarrow> ptr \<Rightarrow> ptr \<Rightarrow> u64 \<Rightarrow> gpu \<Rightarrow> (int \<times> gpu) option" where
  "Socket_Send env a d_packet currentTs g =
     DoSendTo env a d_packet (so_defaultAddress (sockets g a)) (so_defaultPort (sockets g a)) currentTs g"

text \<open>\<open>nullptr\<close>: nothing received.\<close>

definition CudaRecv :: "ptr \<Rightarrow> u32 \<Rightarrow> gpu \<Rightarrow> ptr \<times> gpu" where
  "CudaRecv a maxSize g =
     (let s = sockets g a
      in case PairList_take (so_deliveryQueue s) of
           (None, _) \<Rightarrow> (nullptr, g)
         | (Some (d_packet, _), q) \<Rightarrow>
             (let s = s\<lparr>so_deliveryQueue := q\<rparr>
              in if d_packet = nullptr then (nullptr, set_socket a s g)
                 else if pk_size (packets g d_packet) < maxSize then
                   (d_packet, set_socket a (s\<lparr>so_rxAvailable := so_rxAvailable s - pk_size (packets g d_packet)\<rparr>) g)
                 else (nullptr, set_socket a s g)))"

definition HandleRead :: "ptr \<Rightarrow> ptr \<Rightarrow> gpu \<Rightarrow> gpu" where
  "HandleRead server a g =
     (let (packet, g) = CudaRecv a 0xFFFFFFFF g
      in if packet \<noteq> nullptr then
           (let g = (if pk_size (packets g packet) > 0
                then g\<lparr>servers := (servers g)(server := \<lparr>sv_received = sv_received (servers g server) + 1\<rparr>)\<rparr> else g)
            in release_packet packet g)
         else g)"

definition ForwardPacket :: "ptr \<Rightarrow> ptr \<Rightarrow> gpu \<Rightarrow> gpu" where
  "ForwardPacket a d_packet g =
     (let s = sockets g a; n = pk_size (packets g d_packet)
      in if so_shutdownRecv s then g
         else if so_rxAvailable s + n \<le> so_rcvBufSize s then
           (case PairList_Add (d_packet, 0) (so_deliveryQueue s) of
              (False, q) \<Rightarrow> release_packet d_packet (set_socket a (s\<lparr>so_deliveryQueue := q\<rparr>) g)
            | (True, q) \<Rightarrow>
                HandleRead (so_server s) a
                  (set_socket a (s\<lparr>so_deliveryQueue := q, so_rxAvailable := so_rxAvailable s + n\<rparr>) g))
         else g)"

section \<open>Receiving\<close>

definition UDP_Receive :: "ptr \<Rightarrow> ptr \<Rightarrow> gpu \<Rightarrow> gpu option" where
  "UDP_Receive u packet g = do {
     _ \<leftarrow> packet_Extract (replicate 8 0) 0 8 packet g;
     let g = packet_RemoveHeader 8 packet g;
     Some (ForwardPacket (ep_socket (udp_endPoints (udps g u) ! 0)) packet g) }"

definition d_LocalDeliver :: "ptr \<Rightarrow> ptr \<Rightarrow> gpu \<Rightarrow> gpu option" where
  "d_LocalDeliver l3 packet g = (let g = packet_RemoveHeader 20 packet g in UDP_Receive (l3_udp (l3s g l3)) packet g)"

text \<open>\<open>None\<close>: a device that has no interface gives the index -1, and then a null interface.\<close>

definition L3_d_Receive :: "ptr \<Rightarrow> ptr \<Rightarrow> ptr \<Rightarrow> gpu \<Rightarrow> gpu option" where
  "L3_d_Receive l3 device packet g =
     (case GetInterfaceForDevice l3 device g of
        None \<Rightarrow> None
      | Some i \<Rightarrow>
          if \<not> if_isUp (interfaces g (l3_interfaces (l3s g l3) ! i)) then Some g else d_LocalDeliver l3 packet g)"

text \<open>\<^verbatim>\<open>CudaNetDevice::d_Receive\<close>\<close>

definition d_Receive :: "gpu_env \<Rightarrow> ptr \<Rightarrow> ptr \<Rightarrow> u64 \<Rightarrow> gpu \<Rightarrow> gpu option" where
  "d_Receive env d packet currentTs g =
     (if pk_ready (packets g packet) = 0 then Some g
      else do {
        dst \<leftarrow> packet_Extract (no_mac env) 0 6 packet g;
        let g = packet_RemoveHeader 6 packet g;
        src \<leftarrow> packet_Extract (no_mac env) 0 6 packet g;
        let g = packet_RemoveHeader 6 packet g;
        _ \<leftarrow> packet_Extract (replicate 4 0) 0 4 packet g;
        let g = packet_RemoveHeader 4 packet g;
        if nd_rxCB_enable (devices g d)
        then ReceiveFromDevice env (nd_bridge (devices g d)) d packet src dst PACKET_OTHERHOST currentTs g
        else L3_d_Receive (nd_ipv4 (devices g d)) d packet g })"

section \<open>Client\<close>

definition MAX_PACKET_PER_THREAD :: nat where
  "MAX_PACKET_PER_THREAD = 16"

text \<open>The addresses of the packets and of their buffers; \<^verbatim>\<open>sizeof(CudaPacket)\<close> is 32.\<close>

definition slot_packet :: "gpu_env \<Rightarrow> nat \<Rightarrow> ptr" where
  "slot_packet env index = threadBuf env + of_nat index * 32"

definition slot_data :: "gpu_env \<Rightarrow> nat \<Rightarrow> ptr" where
  "slot_data env index = packetRawBuf env + of_nat index * env_pitch env"

text \<open>The slot the search of \<^verbatim>\<open>ELP_Send\<close> claims; \<open>None\<close>: all are taken, and it goes round until another thread frees one.\<close>

definition claim_slot :: "gpu_env \<Rightarrow> nat \<Rightarrow> gpu \<Rightarrow> nat option" where
  "claim_slot env tid g =
     first_index (\<lambda>i. pk_ready (packets g (slot_packet env (tid * MAX_PACKET_PER_THREAD + i))) = 0) MAX_PACKET_PER_THREAD"

text \<open>Claiming the slot, the constructor in place, the buffer of the slot, and the size.\<close>

definition fresh_packet :: "gpu_env \<Rightarrow> nat \<Rightarrow> u32 \<Rightarrow> gpu \<Rightarrow> gpu" where
  "fresh_packet env index n g =
     (let cuda_packet = slot_packet env index;
          x = Packet_new (packetUid g) ((packets g cuda_packet)\<lparr>pk_ready := 1\<rparr>);
          x = Packet_SetSize n (x\<lparr>pk_data := slot_data env index\<rparr>)
      in (set_packet cuda_packet x g)\<lparr>packetUid := packetUid g + 1\<rparr>)"

definition count_sent :: "int \<Rightarrow> u32 \<Rightarrow> CudaUdpClient \<Rightarrow> CudaUdpClient" where
  "count_sent r n c = (if r \<ge> 0 then c\<lparr>cl_sent := cl_sent c + 1, cl_totalTx := cl_totalTx c + ucast n\<rparr> else c)"

definition ELP_Send :: "gpu_env \<Rightarrow> nat \<Rightarrow> ptr \<Rightarrow> u64 \<Rightarrow> gpu \<Rightarrow> gpu option" where
  "ELP_Send env tid cl currentTs g =
     (let c = clients g cl
      in if cl_stop c then Some g
         else if cl_sent c \<ge> cl_count c then Some g
         else do {
           i \<leftarrow> claim_slot env tid g;
           let index = tid * MAX_PACKET_PER_THREAD + i;
           let cuda_packet = slot_packet env index;
           (r, g) \<leftarrow> Socket_Send env (cl_socket c) cuda_packet currentTs (fresh_packet env index (cl_size c) g);
           let g = g\<lparr>clients := (clients g)(cl := count_sent r (pk_size (packets g cuda_packet)) c)\<rparr>;
           Some (d_insert \<lparr>dc_impl = cl, dc_ts = next_time currentTs (cl_interval c), dc_context = cl_NodeID c, dc_type = 0,
             dc_lookahead = cl_lookahead c, dc_payload = nullptr\<rparr> g) })"

section \<open>Events\<close>

text \<open>\<^verbatim>\<open>cuda_ProcessOneEvent\<close>, without the reset of \<^verbatim>\<open>valid\<close>, which is \<open>retire\<close> of the simulator's model.\<close>

definition handle_event :: "gpu_env \<Rightarrow> nat \<Rightarrow> DeviceEvent \<Rightarrow> gpu \<Rightarrow> gpu option" where
  "handle_event env tid ev g =
     (if ev_type ev = 0 then ELP_Send env tid (ev_impl ev) (ev_ts ev) g
      else if ev_type ev = 1 then Some (D_TransmitComplete (ev_impl ev) (ev_ts ev) g)
      else if ev_type ev = 2 then d_Receive env (ev_impl ev) (ev_payload ev) (ev_ts ev) g
      else Some g)"

end
