(* ===== verification/Gpu_Path.thy ===== *)
theory Gpu_Path
  imports Gpu_Device Gpu_Stack
begin

text \<open>
  A packet on its way: the headers the sender's layers put in front of the payload, the calls the device makes, and
  what the receiver's layers take off again.
\<close>

section \<open>Headers on the way down\<close>

text \<open>\<open>g\<close> with packet \<open>p\<close> at offset \<open>off\<close> and other bytes in memory.\<close>

definition repack :: "ptr \<Rightarrow> u32 \<Rightarrow> gmem \<Rightarrow> gpu \<Rightarrow> gpu" where
  "repack p off mem g = g\<lparr>packets := (packets g)(p := (packets g p)\<lparr>pk_offset := off\<rparr>), gbuffers := mem\<rparr>"

definition packet_wf :: "ptr \<Rightarrow> gpu \<Rightarrow> bool" where
  "packet_wf p g \<longleftrightarrow> pk_wf (packets g p) (gbuffers g)"

definition packet_view :: "ptr \<Rightarrow> gpu \<Rightarrow> u8 list" where
  "packet_view p g = pk_view (packets g p) (gbuffers g)"

abbreviation packet_offset :: "ptr \<Rightarrow> gpu \<Rightarrow> nat" where
  "packet_offset p g \<equiv> unat (pk_offset (packets g p))"

abbreviation packet_size :: "ptr \<Rightarrow> gpu \<Rightarrow> nat" where
  "packet_size p g \<equiv> unat (pk_size (packets g p))"

lemma repack_frame [simp]:
  "devices (repack p off mem g) = devices g" "channels (repack p off mem g) = channels g"
  "bridges (repack p off mem g) = bridges g" "interfaces (repack p off mem g) = interfaces g"
  "l3s (repack p off mem g) = l3s g" "udps (repack p off mem g) = udps g" "sockets (repack p off mem g) = sockets g"
  "servers (repack p off mem g) = servers g" "clients (repack p off mem g) = clients g"
  "packetUid (repack p off mem g) = packetUid g" "inserted (repack p off mem g) = inserted g"
  "packets (repack p off mem g) = (packets g)(p := (packets g p)\<lparr>pk_offset := off\<rparr>)"
  "gbuffers (repack p off mem g) = mem" "repack p off' mem' (repack p off mem g) = repack p off' mem' g"
  by (simp_all add: repack_def)

lemma header_view:
  assumes "packet_wf p g" and "packet_size p g + length h \<le> 2048" and "length h \<le> packet_offset p g"
  obtains off mem where "packet_AddHeader env h p g = Some (repack p off mem g)"
    and "packet_wf p (repack p off mem g)" and "packet_view p (repack p off mem g) = h @ packet_view p g"
    and "unat off = packet_offset p g - length h"
    and "\<forall>a. a \<noteq> pk_data (packets g p) \<longrightarrow> mem a = gbuffers g a"
proof -
  obtain q mem where q: "Packet_AddHeader (stack_addr env) h (packets g p) (gbuffers g) = Some (q, mem)" "pk_wf q mem"
    "pk_view q mem = h @ pk_view (packets g p) (gbuffers g)"
    "q = (packets g p)\<lparr>pk_offset := pk_offset (packets g p) - of_nat (length h)\<rparr>"
    "\<forall>a. a \<noteq> pk_data (packets g p) \<longrightarrow> mem a = gbuffers g a" "unat (pk_offset q) = packet_offset p g - length h"
    by (rule AddHeader_view [OF assms(1) [unfolded packet_wf_def] assms(2,3), where src = "stack_addr env"])
  have "packet_AddHeader env h p g = Some (repack p (pk_offset q) mem g)"
    using q(1,4) by (simp add: packet_AddHeader_def repack_def set_packet_def)
  then show ?thesis
    using that [of "pk_offset q" mem] q by (simp add: packet_wf_def packet_view_def)
qed

section \<open>Sending\<close>

text \<open>What a device whose transmitter is free does with a packet.\<close>

definition sent :: "ptr \<Rightarrow> ptr \<Rightarrow> u64 \<Rightarrow> gpu \<Rightarrow> gpu" where
  "sent d p t g = d_insert (arrival_call d p t g) (d_insert (completion_call d p t g) (set_tx_state d BUSY g))"

lemma calls_repack [simp]:
  "arrival_call d p t (repack p off mem g) = arrival_call d p t g"
  "completion_call d p t (repack p off mem g) = completion_call d p t g"
  by (simp_all add: arrival_call_def completion_call_def Let_def)

lemma set_tx_state_rest [simp]:
  "bridges (set_tx_state d st g) = bridges g" "interfaces (set_tx_state d st g) = interfaces g"
  "l3s (set_tx_state d st g) = l3s g" "udps (set_tx_state d st g) = udps g" "sockets (set_tx_state d st g) = sockets g"
  "servers (set_tx_state d st g) = servers g" "clients (set_tx_state d st g) = clients g"
  "packetUid (set_tx_state d st g) = packetUid g"
  by (simp_all add: set_tx_state_def)

lemma sent_frame [simp]:
  "packets (sent d p t g) = packets g" "gbuffers (sent d p t g) = gbuffers g" "channels (sent d p t g) = channels g"
  "bridges (sent d p t g) = bridges g" "interfaces (sent d p t g) = interfaces g" "l3s (sent d p t g) = l3s g"
  "udps (sent d p t g) = udps g" "sockets (sent d p t g) = sockets g" "servers (sent d p t g) = servers g"
  "clients (sent d p t g) = clients g" "packetUid (sent d p t g) = packetUid g"
  "inserted (sent d p t g) = inserted g @ [completion_call d p t g, arrival_call d p t g]"
  "devices (sent d p t g) = (devices g)(d := (devices g d)\<lparr>nd_txMachineState := BUSY\<rparr>)"
  by (simp_all add: sent_def)

lemma SendFrom_ready:
  assumes wf: "packet_wf p g" and room: "packet_size p g + 6 \<le> 2048" "16 \<le> packet_offset p g"
    and macs: "length src = 6" "length dst = 6"
    and d: "nd_txMachineState (devices g d) = READY" "channel_up d g"
  obtains off mem where "SendFrom env d p src dst t g = Some (sent d p t (repack p off mem g))"
    and "packet_wf p (repack p off mem g)"
    and "packet_view p (repack p off mem g) = dst @ src @ ethertype_padded @ packet_view p g"
    and "unat off = packet_offset p g - 16"
    and "\<forall>a. a \<noteq> pk_data (packets g p) \<longrightarrow> mem a = gbuffers g a"
proof -
  have e: "length ethertype_padded = 4" by (simp add: ethertype_padded_def)
  obtain o1 m1 where h1: "packet_AddHeader env ethertype_padded p g = Some (repack p o1 m1 g)"
      "packet_wf p (repack p o1 m1 g)" "packet_view p (repack p o1 m1 g) = ethertype_padded @ packet_view p g"
      "unat o1 = packet_offset p g - 4" "\<forall>a. a \<noteq> pk_data (packets g p) \<longrightarrow> m1 a = gbuffers g a"
    using header_view [OF wf, of ethertype_padded env] room e by auto
  have l1: "6 \<le> packet_offset p g - 4" "6 \<le> packet_offset p g - 10" using room(2) by linarith+
  obtain o2 m2 where h2: "packet_AddHeader env src p (repack p o1 m1 g) = Some (repack p o2 m2 g)"
      "packet_wf p (repack p o2 m2 g)" "packet_view p (repack p o2 m2 g) = src @ ethertype_padded @ packet_view p g"
      "unat o2 = packet_offset p g - 10" "\<forall>a. a \<noteq> pk_data (packets g p) \<longrightarrow> m2 a = m1 a"
    using header_view [OF h1(2), of src env] room macs h1(3,4) l1 by auto
  obtain o3 m3 where h3: "packet_AddHeader env dst p (repack p o2 m2 g) = Some (repack p o3 m3 g)"
      "packet_wf p (repack p o3 m3 g)" "packet_view p (repack p o3 m3 g) = dst @ src @ ethertype_padded @ packet_view p g"
      "unat o3 = packet_offset p g - 16" "\<forall>a. a \<noteq> pk_data (packets g p) \<longrightarrow> m3 a = m2 a"
    using header_view [OF h2(2), of dst env] room macs h2(3,4) l1 by auto
  have up: "channel_up d (repack p o3 m3 g)" using d(2) by (simp add: channel_up_def)
  have "SendFrom env d p src dst t g = Some (sent d p t (repack p o3 m3 g))"
    using h1(1) h2(1) h3(1) d(1) by (simp add: SendFrom_def send_or_queue_cases [OF up] sent_def)
  then show ?thesis using that [OF _ h3(2,3,4)] h3(5) h2(5) h1(5) by metis
qed

text \<open>The route, interface and ARP entry a packet to \<open>dest\<close> takes, by device \<open>d\<close> to \<open>mac\<close>.\<close>

definition goes_to :: "ptr \<Rightarrow> u32 \<Rightarrow> ptr \<Rightarrow> mac \<Rightarrow> gpu \<Rightarrow> bool" where
  "goes_to l3 dest d mac g \<longleftrightarrow>
     (let i = GetInterface (case LookupRoute dest (l3_routing (l3s g l3)) of None \<Rightarrow> 0 | Some i \<Rightarrow> i) (l3s g l3)
      in i \<noteq> nullptr \<and> if_isUp (interfaces g i) \<and> if_device (interfaces g i) = d \<and>
         GetInterfaceForDevice l3 d g \<noteq> None \<and> Lookup dest (if_arp (interfaces g i)) = Some mac)"

lemma L3_OptimizeSend_goes:
  assumes "goes_to l3 dest d mac g"
  shows "L3_OptimizeSend env l3 p dest t g = dev_Send env d p mac t g"
  using assms by (auto simp: goes_to_def L3_OptimizeSend_def Interface_OptimizeSend_def d_NeedsArp_def Let_def
      split: option.splits)

lemma goes_to_repack [simp]: "goes_to l3 dest d mac (repack p off mem g) = goes_to l3 dest d mac g"
  by (simp add: goes_to_def GetInterfaceForDevice_def)

lemma UDP_headers_length [simp]: "length (UDP_headers env n saddr daddr sport dport) = 28"
  by (simp add: UDP_headers_def Let_def L4_PrepareHeader_def ip_bytes_def udp_bytes_def le16_def le32_def)

definition frame_of :: "gpu_env \<Rightarrow> ptr \<Rightarrow> mac \<Rightarrow> u32 \<Rightarrow> u16 \<Rightarrow> u32 \<Rightarrow> gpu \<Rightarrow> u8 list" where
  "frame_of env d mac dest port n g =
     mac @ nd_macAddress (devices g d) @ ethertype_padded @ UDP_headers env n 0 dest 0 port"

lemma Socket_Send_ready:
  assumes wf: "packet_wf p g" and room: "packet_size p g + 44 \<le> 2048" "44 \<le> packet_offset p g"
    and sock: "so_endPoint (sockets g a) \<noteq> None" "\<not> so_shutdownSend (sockets g a)"
    and to: "goes_to (udp_ipv4 (udps g (so_udp (sockets g a)))) (so_defaultAddress (sockets g a)) d mac g"
    and macs: "length (nd_macAddress (devices g d)) = 6" "length mac = 6"
    and d: "nd_txMachineState (devices g d) = READY" "channel_up d g"
  obtains off mem where "Socket_Send env a p t g = Some (no_result env, sent d p t (repack p off mem g))"
    and "packet_wf p (repack p off mem g)" and "packet_view p (repack p off mem g) =
      frame_of env d mac (so_defaultAddress (sockets g a)) (so_defaultPort (sockets g a)) (pk_size (packets g p)) g
        @ packet_view p g"
    and "unat off = packet_offset p g - 44"
    and "\<forall>a. a \<noteq> pk_data (packets g p) \<longrightarrow> mem a = gbuffers g a"
proof -
  let ?s = "sockets g a"
  let ?h = "UDP_headers env (pk_size (packets g p)) 0 (so_defaultAddress ?s) 0 (so_defaultPort ?s)"
  obtain o1 m1 where h1: "packet_AddHeader env ?h p g = Some (repack p o1 m1 g)"
      "packet_wf p (repack p o1 m1 g)" "packet_view p (repack p o1 m1 g) = ?h @ packet_view p g"
      "unat o1 = packet_offset p g - 28" "\<forall>a. a \<noteq> pk_data (packets g p) \<longrightarrow> m1 a = gbuffers g a"
    using header_view [OF wf, of ?h env] room by auto
  have up: "channel_up d (repack p o1 m1 g)" using d(2) by (simp add: channel_up_def)
  have l1: "16 \<le> packet_offset p g - 28" using room(2) by linarith
  obtain off mem where h2: "SendFrom env d p (nd_macAddress (devices g d)) mac t (repack p o1 m1 g) =
        Some (sent d p t (repack p off mem g))"
      "packet_wf p (repack p off mem g)" "packet_view p (repack p off mem g) =
        mac @ nd_macAddress (devices g d) @ ethertype_padded @ ?h @ packet_view p g"
      "unat off = packet_offset p g - 44" "\<forall>a. a \<noteq> pk_data (packets g p) \<longrightarrow> mem a = m1 a"
    using SendFrom_ready [OF h1(2), of "nd_macAddress (devices g d)" mac d env t] room macs d(1) up h1(3,4) l1 by auto
  obtain k where k: "so_endPoint ?s = Some k" using sock(1) by blast
  have "\<not> pk_size (packets g p) > 65507" using room(1) by (simp add: word_less_nat_alt)
  then have "Socket_Send env a p t g = Some (no_result env, sent d p t (repack p off mem g))"
    using k sock(2) to h1(1) h2(1) by (simp add: Socket_Send_def DoSendTo_def UDP_OptimizeSend_def L3_OptimizeSend_goes dev_Send_def Let_def)
  then show ?thesis using that [OF _ h2(2) _ h2(4)] h2(3,5) h1(5) by (simp add: frame_of_def)
qed

section \<open>Delivery\<close>

text \<open>
  The whole way of a packet, from the client's event on one node to the server on another, and the packet sizes for
  which it goes wrong.
\<close>

section \<open>The client\<close>

lemma fresh_packet_fields:
  assumes "p = slot_packet env index" and "n \<le> 2048"
  shows "packets (fresh_packet env index n g) =
      (packets g)(p := \<lparr>pk_data = slot_data env index, pk_offset = 2048 - n, pk_ready = 1, pk_crc = 0,
        pk_uid = packetUid g, pk_size = n, pk_capacity = 2048\<rparr>)"
proof -
  have "\<not> n > MAX_PACKET_SIZE" using assms(2) by (simp add: MAX_PACKET_SIZE_def leD)
  then have "Packet_SetSize n ((Packet_new (packetUid g) ((packets g p)\<lparr>pk_ready := 1\<rparr>))\<lparr>pk_data := slot_data env index\<rparr>) =
      \<lparr>pk_data = slot_data env index, pk_offset = 2048 - n, pk_ready = 1, pk_crc = 0,
        pk_uid = packetUid g, pk_size = n, pk_capacity = 2048\<rparr>"
    by (intro CudaPacket.equality) (simp_all add: Packet_new_def Packet_SetSize_def MAX_PACKET_SIZE_def)
  then show ?thesis using assms(1) by (simp add: fresh_packet_def Let_def)
qed

lemma fresh_packet_frame [simp]:
  "gbuffers (fresh_packet env index n g) = gbuffers g" "devices (fresh_packet env index n g) = devices g"
  "channels (fresh_packet env index n g) = channels g" "bridges (fresh_packet env index n g) = bridges g"
  "interfaces (fresh_packet env index n g) = interfaces g" "l3s (fresh_packet env index n g) = l3s g"
  "udps (fresh_packet env index n g) = udps g" "sockets (fresh_packet env index n g) = sockets g"
  "servers (fresh_packet env index n g) = servers g" "clients (fresh_packet env index n g) = clients g"
  "inserted (fresh_packet env index n g) = inserted g"
  by (simp_all add: fresh_packet_def Let_def)

text \<open>
  \<open>can_send\<close>: the client may send, a slot is free, its socket is bound and open, and the way to the peer leads through a
  device whose transmitter is free.
\<close>

definition can_send :: "gpu_env \<Rightarrow> nat \<Rightarrow> ptr \<Rightarrow> nat \<Rightarrow> ptr \<Rightarrow> mac \<Rightarrow> gpu \<Rightarrow> bool" where
  "can_send env tid cl i d mac g \<longleftrightarrow>
     (let c = clients g cl; s = sockets g (cl_socket c) in
      \<not> cl_stop c \<and> cl_sent c < cl_count c \<and> claim_slot env tid g = Some i \<and>
      length (gbuffers g (slot_data env (tid * MAX_PACKET_PER_THREAD + i))) = 2048 \<and>
      so_endPoint s \<noteq> None \<and> \<not> so_shutdownSend s \<and>
      goes_to (udp_ipv4 (udps g (so_udp s))) (so_defaultAddress s) d mac g \<and>
      length (nd_macAddress (devices g d)) = 6 \<and> length mac = 6 \<and>
      nd_txMachineState (devices g d) = READY \<and> channel_up d g)"

definition next_send :: "ptr \<Rightarrow> u64 \<Rightarrow> gpu \<Rightarrow> DevCall" where
  "next_send cl t g = \<lparr>dc_impl = cl, dc_ts = next_time t (cl_interval (clients g cl)), dc_context = cl_NodeID (clients g cl),
     dc_type = 0, dc_lookahead = cl_lookahead (clients g cl), dc_payload = nullptr\<rparr>"

lemma goes_to_cong:
  "l3s g' = l3s g \<Longrightarrow> interfaces g' = interfaces g \<Longrightarrow> goes_to l3 dest d mac g' = goes_to l3 dest d mac g"
  by (simp add: goes_to_def GetInterfaceForDevice_def)

lemma ELP_Send_sends:
  assumes can: "can_send env tid cl i d mac g" and n: "unat (cl_size (clients g cl)) \<le> 2004"
    and p: "p = slot_packet env (tid * MAX_PACKET_PER_THREAD + i)" and a: "a = slot_data env (tid * MAX_PACKET_PER_THREAD + i)"
  obtains off mem where
    "ELP_Send env tid cl t g = Some (d_insert (next_send cl t g)
      ((sent d p t (repack p off mem (fresh_packet env (tid * MAX_PACKET_PER_THREAD + i) (cl_size (clients g cl)) g)))
        \<lparr>clients := (clients g)(cl := count_sent (no_result env) (cl_size (clients g cl)) (clients g cl))\<rparr>))"
    and "packet_wf p (repack p off mem (fresh_packet env (tid * MAX_PACKET_PER_THREAD + i) (cl_size (clients g cl)) g))"
    and "packet_view p (repack p off mem (fresh_packet env (tid * MAX_PACKET_PER_THREAD + i) (cl_size (clients g cl)) g)) =
      frame_of env d mac (so_defaultAddress (sockets g (cl_socket (clients g cl))))
        (so_defaultPort (sockets g (cl_socket (clients g cl)))) (cl_size (clients g cl)) g
        @ drop (2048 - unat (cl_size (clients g cl))) (gbuffers g a)"
    and "unat off = 2004 - unat (cl_size (clients g cl))"
proof -
  let ?c = "clients g cl" and ?n = "cl_size (clients g cl)" and ?index = "tid * MAX_PACKET_PER_THREAD + i"
  let ?F = "fresh_packet env ?index ?n g" and ?s = "sockets g (cl_socket (clients g cl))"
  have le: "?n \<le> 2048" using n by (simp add: word_le_nat_alt)
  note P = fresh_packet_fields [OF p le, of g]
  have off: "unat (2048 - ?n) = 2048 - unat ?n" using le by (simp add: unat_sub)
  have wf: "packet_wf p ?F"
    unfolding packet_wf_def pk_wf_def P using can n le off a by (simp add: can_send_def Let_def)
  have view: "packet_view p ?F = drop (2048 - unat ?n) (gbuffers g a)"
    unfolding packet_view_def pk_view_def P using off a by simp
  have up: "channel_up d ?F" using can by (simp add: can_send_def channel_up_def Let_def)
  have to: "goes_to (udp_ipv4 (udps ?F (so_udp (sockets ?F (cl_socket ?c))))) (so_defaultAddress (sockets ?F (cl_socket ?c))) d mac ?F"
    using can by (simp add: can_send_def Let_def goes_to_cong [of ?F g])
  have room: "packet_size p ?F + 44 \<le> 2048" "44 \<le> packet_offset p ?F" using n off by (simp_all add: P)
  obtain o1 mem where s: "Socket_Send env (cl_socket ?c) p t ?F = Some (no_result env, sent d p t (repack p o1 mem ?F))"
    "packet_wf p (repack p o1 mem ?F)" "packet_view p (repack p o1 mem ?F) =
      frame_of env d mac (so_defaultAddress (sockets ?F (cl_socket ?c))) (so_defaultPort (sockets ?F (cl_socket ?c)))
        (pk_size (packets ?F p)) ?F @ packet_view p ?F"
    "unat o1 = packet_offset p ?F - 44"
    by (rule Socket_Send_ready [OF wf room _ _ to, where env = env and t = t])
      (use can up in \<open>simp_all add: can_send_def Let_def\<close>)
  have f: "frame_of env d mac x y z ?F = frame_of env d mac x y z g" for x y z by (simp add: frame_of_def)
  have sz: "pk_size (packets ?F p) = ?n" by (simp add: P)
  have "ELP_Send env tid cl t g = Some (d_insert (next_send cl t g)
      ((sent d p t (repack p o1 mem ?F))\<lparr>clients := (clients g)(cl := count_sent (no_result env) ?n ?c)\<rparr>))"
    using can s(1) p sz not_le [of "cl_count ?c" "cl_sent ?c", THEN iffD2]
    unfolding ELP_Send_def Let_def can_send_def next_send_def by simp
  then show ?thesis using that [of o1 mem] s view f sz off by (simp add: P)
qed

section \<open>The receiver\<close>

lemma RemoveHeader_repack:
  assumes "n \<le> pk_size (packets g p)"
  shows "packet_RemoveHeader n p g = repack p (pk_offset (packets g p) + n) (gbuffers g) g"
  using assms by (simp add: packet_RemoveHeader_def Packet_RemoveHeader_def repack_def set_packet_def leD)

lemma RemoveHeader_kept:
  assumes "pk_size (packets g p) < n"
  shows "packet_RemoveHeader n p g = g"
  using assms by (simp add: packet_RemoveHeader_def Packet_RemoveHeader_def set_packet_def)

lemma repack_same: "repack p (pk_offset (packets g p)) (gbuffers g) g = g"
  by (simp add: repack_def)

lemma extract_ok:
  assumes "packet_wf p g" and "unat n \<le> packet_size p g" and "packet_offset p g + unat n \<le> 2048"
  shows "packet_Extract dst 0 n p g = Some (take (unat n) (packet_view p g) @ drop (unat n) dst)"
  using ExtractPayload_view [of "packets g p" "gbuffers g" 0 n dst] assms
  by (simp add: packet_Extract_def packet_wf_def packet_view_def)

text \<open>The bytes \<^verbatim>\<open>Packet_RemoveHeader\<close> takes off a received packet: the IP header stays when the payload is shorter than it.\<close>

definition stripped :: "u32 \<Rightarrow> u32" where
  "stripped n = (if n < 20 then 24 else 44)"

definition receives :: "ptr \<Rightarrow> ptr \<Rightarrow> gpu \<Rightarrow> bool" where
  "receives d a g \<longleftrightarrow>
     (let l3 = nd_ipv4 (devices g d) in
      \<not> nd_rxCB_enable (devices g d) \<and>
      (\<exists>i. GetInterfaceForDevice l3 d g = Some i \<and> if_isUp (interfaces g (l3_interfaces (l3s g l3) ! i))) \<and>
      ep_socket (udp_endPoints (udps g (l3_udp (l3s g l3))) ! 0) = a)"

lemma wf_repack: "packet_wf p g \<Longrightarrow> unat off \<le> 2048 \<Longrightarrow> packet_wf p (repack p off (gbuffers g) g)"
  by (simp add: packet_wf_def pk_wf_def)

lemma d_Receive_up:
  assumes wf: "packet_wf p g" and rdy: "pk_ready (packets g p) \<noteq> 0" and n: "12 \<le> pk_size (packets g p)"
    and room: "packet_offset p g + 44 \<le> 2048" and rcv: "receives d a g"
  shows "d_Receive env d p t g =
    Some (ForwardPacket a p (repack p (pk_offset (packets g p) + stripped (pk_size (packets g p))) (gbuffers g) g))"
proof -
  let ?n = "pk_size (packets g p)" and ?o = "pk_offset (packets g p)"
  have nn: "12 \<le> unat ?n" using n by (simp add: word_le_nat_alt)
  have small: "k \<le> ?n" if "unat k \<le> 12" for k :: u32
    using that nn by (simp add: word_le_nat_alt)
  have off: "unat (?o + k) = unat ?o + unat k" if "unat k \<le> 44" for k :: u32
    using that room by (subst unat_add_lem [THEN iffD1]) simp_all
  have r: "packet_RemoveHeader k p (repack p (?o + j) (gbuffers g) g) = repack p (?o + (j + k)) (gbuffers g) g"
    if "unat k \<le> 12" for j k
    using RemoveHeader_repack [of k "repack p (?o + j) (gbuffers g) g" p] small [OF that] by (simp add: add.assoc)
  have r0: "packet_RemoveHeader 6 p g = repack p (?o + 6) (gbuffers g) g"
    using RemoveHeader_repack [OF small, of 6] by simp
  have w: "packet_wf p (repack p (?o + k) (gbuffers g) g)" if "unat k \<le> 44" for k
    using off [OF that] that room by (intro wf_repack [OF wf]) simp
  have x0: "\<exists>y. packet_Extract dst 0 6 p g = Some y" for dst
    using extract_ok [OF wf, of 6] nn room by simp
  have x: "\<exists>y. packet_Extract dst 0 k p (repack p (?o + j) (gbuffers g) g) = Some y"
    if "unat j \<le> 36" "unat k \<le> 8" for dst j k
    using extract_ok [OF w, of j k] off [of j] that nn room by simp
  let ?g = "repack p (?o + 16) (gbuffers g) g"
  have link: "d_Receive env d p t g = L3_d_Receive (nd_ipv4 (devices g d)) d p ?g"
    using rdy rcv x0 [of "no_mac env"] x [of 6 6 "no_mac env"] x [of 12 4 "replicate 4 0"]
    by (auto simp: d_Receive_def receives_def Let_def r0 r)
  obtain i where i: "GetInterfaceForDevice (nd_ipv4 (devices g d)) d ?g = Some i"
    "if_isUp (interfaces ?g (l3_interfaces (l3s ?g (nd_ipv4 (devices g d))) ! i))"
    using rcv by (auto simp: receives_def Let_def GetInterfaceForDevice_def)
  have ip: "packet_RemoveHeader 20 p ?g = repack p (?o + (if ?n < 20 then 16 else 36)) (gbuffers g) g"
    using RemoveHeader_repack [of 20 ?g p] RemoveHeader_kept [of ?g p 20] by (auto simp: add.assoc not_less)
  have "L3_d_Receive (nd_ipv4 (devices g d)) d p ?g =
      Some (ForwardPacket a p (repack p (?o + ((if ?n < 20 then 16 else 36) + 8)) (gbuffers g) g))"
    using i rcv x [of "if ?n < 20 then 16 else 36" 8 "replicate 8 0"]
    by (auto simp: L3_d_Receive_def d_LocalDeliver_def UDP_Receive_def Let_def ip r receives_def)
  moreover have "(if ?n < 20 then 16 else 36) + 8 = stripped ?n" by (simp add: stripped_def)
  ultimately show ?thesis using link by simp
qed

text \<open>A socket with room whose queue is empty hands the packet straight to its server, which frees it.\<close>

lemma ForwardPacket_delivers:
  assumes "\<not> so_shutdownRecv (sockets g a)" and "so_rxAvailable (sockets g a) + pk_size (packets g p) \<le> so_rcvBufSize (sockets g a)"
    and "pl_invar (so_deliveryQueue (sockets g a))" and "pl_list (so_deliveryQueue (sockets g a)) = []"
    and "p \<noteq> nullptr" and "0 < pk_size (packets g p)" and "pk_size (packets g p) < 0xFFFFFFFF"
  obtains q where "pl_invar q" and "pl_list q = []" and "ForwardPacket a p g =
    release_packet p ((set_socket a ((sockets g a)\<lparr>so_deliveryQueue := q\<rparr>) g)\<lparr>servers := (servers g)
      (so_server (sockets g a) := \<lparr>sv_received = sv_received (servers g (so_server (sockets g a))) + 1\<rparr>)\<rparr>)"
proof -
  let ?s = "sockets g a" and ?n = "pk_size (packets g p)"
  obtain q1 where q1: "PairList_Add (p, 0) (so_deliveryQueue ?s) = (True, q1)" "pl_list q1 = [(p, 0)]" "pl_invar q1"
    using plq.enq_room [OF assms(3), of "(p, 0)"] assms(4) by (cases "PairList_Add (p, 0) (so_deliveryQueue ?s)") simp
  obtain q2 where q2: "PairList_take q1 = (Some (p, 0), q2)" "pl_list q2 = []" "pl_invar q2"
    using plq.deq_Cons [OF q1(3,2)] by (cases "PairList_take q1") simp
  let ?s1 = "?s\<lparr>so_deliveryQueue := q1, so_rxAvailable := so_rxAvailable ?s + ?n\<rparr>"
  let ?g1 = "set_socket a ?s1 g"
  have "CudaRecv a 0xFFFFFFFF ?g1 = (p, set_socket a (?s\<lparr>so_deliveryQueue := q2\<rparr>) g)"
    using q2(1) assms(5,7) by (simp add: CudaRecv_def set_socket_def)
  then have "HandleRead (so_server ?s) a ?g1 =
      release_packet p ((set_socket a (?s\<lparr>so_deliveryQueue := q2\<rparr>) g)\<lparr>servers := (servers g)
        (so_server ?s := \<lparr>sv_received = sv_received (servers g (so_server ?s)) + 1\<rparr>)\<rparr>)"
    using assms(5,6) by (simp add: HandleRead_def)
  then have "ForwardPacket a p g = release_packet p ((set_socket a (?s\<lparr>so_deliveryQueue := q2\<rparr>) g)\<lparr>servers := (servers g)
        (so_server ?s := \<lparr>sv_received = sv_received (servers g (so_server ?s)) + 1\<rparr>)\<rparr>)"
    using assms(1,2) q1(1) by (simp add: ForwardPacket_def Let_def)
  then show ?thesis using that [OF q2(3,2)] by blast
qed

section \<open>From client to server\<close>

definition has_room :: "ptr \<Rightarrow> u32 \<Rightarrow> gpu \<Rightarrow> bool" where
  "has_room a n g \<longleftrightarrow> (let s = sockets g a in
     \<not> so_shutdownRecv s \<and> so_rxAvailable s + n \<le> so_rcvBufSize s \<and>
     pl_invar (so_deliveryQueue s) \<and> pl_list (so_deliveryQueue s) = [])"

lemma stripped_le: "unat (stripped n) \<le> 44"
  by (simp add: stripped_def)

lemma receives_cong:
  assumes "nd_ipv4 (devices g' d) = nd_ipv4 (devices g d)" and "nd_rxCB_enable (devices g' d) = nd_rxCB_enable (devices g d)"
    and "l3s g' = l3s g" and "interfaces g' = interfaces g" and "udps g' = udps g"
  shows "receives d a g' = receives d a g"
  using assms by (simp add: receives_def GetInterfaceForDevice_def)

lemma d_Receive_delivers:
  assumes wf: "packet_wf p g" and rdy: "pk_ready (packets g p) \<noteq> 0" and n: "12 \<le> pk_size (packets g p)"
    and room: "packet_offset p g + 44 \<le> 2048" and rcv: "receives d a g" and p: "p \<noteq> nullptr"
    and sock: "has_room a (pk_size (packets g p)) g"
  shows "\<exists>g'. d_Receive env d p t g = Some g' \<and> inserted g' = inserted g \<and> pk_ready (packets g' p) = 0 \<and>
    sv_received (servers g' (so_server (sockets g a))) = sv_received (servers g (so_server (sockets g a))) + 1 \<and>
    packet_view p g' = drop (unat (stripped (pk_size (packets g p)))) (packet_view p g)"
proof -
  let ?n = "pk_size (packets g p)" and ?o = "pk_offset (packets g p)"
  let ?g = "repack p (?o + stripped ?n) (gbuffers g) g"
  have "unat (?o + stripped ?n) = unat ?o + unat (stripped ?n)"
    using room stripped_le [of ?n] by (subst unat_add_lem [THEN iffD1]) simp_all
  then have v: "packet_view p ?g = drop (unat (stripped ?n)) (packet_view p g)"
    by (simp add: packet_view_def pk_view_def add.commute)
  have "unat ?n \<le> 2048" using wf by (simp add: packet_wf_def pk_wf_def)
  then have big: "pk_size (packets ?g p) < 0xFFFFFFFF" by (simp add: word_less_nat_alt)
  have "0 < unat ?n" using n by (simp add: word_le_nat_alt)
  then have pos: "0 < pk_size (packets ?g p)" by (simp add: word_less_nat_alt)
  obtain q where f: "ForwardPacket a p ?g =
    release_packet p ((set_socket a ((sockets ?g a)\<lparr>so_deliveryQueue := q\<rparr>) ?g)\<lparr>servers := (servers ?g)
      (so_server (sockets ?g a) := \<lparr>sv_received = sv_received (servers ?g (so_server (sockets ?g a))) + 1\<rparr>)\<rparr>)"
    by (rule ForwardPacket_delivers [where a = a and g = ?g, OF _ _ _ _ p pos big])
      (use sock in \<open>simp_all add: has_room_def Let_def\<close>)
  have "packet_view p (ForwardPacket a p ?g) = packet_view p ?g" by (simp add: f packet_view_def pk_view_def)
  then show ?thesis
    unfolding d_Receive_up [OF wf rdy n room rcv] v [symmetric] by (simp add: f)
qed

text \<open>The events of a packet: the client's, and the one the channel inserts for the other end.\<close>

lemma send_then_receive:
  assumes can: "can_send env tid cl i d mac g" and n: "12 \<le> cl_size (clients g cl)" "unat (cl_size (clients g cl)) \<le> 2004"
    and p: "p = slot_packet env (tid * MAX_PACKET_PER_THREAD + i)" "p \<noteq> nullptr"
    and rcv: "receives (GetDstDev d (channels g (nd_channel (devices g d)))) a g"
    and sock: "has_room a (cl_size (clients g cl)) g"
    and ev: "ev_type ev = 0" "ev_impl ev = cl" "ev_ts ev = t"
    and ev': "ev_type ev' = 2" "ev_impl ev' = GetDstDev d (channels g (nd_channel (devices g d)))" "ev_payload ev' = p"
  shows "\<exists>g1 g2. handle_event env tid ev g = Some g1 \<and>
    map (\<lambda>c. (dc_type c, dc_impl c, dc_ts c, dc_payload c)) (drop (length (inserted g)) (inserted g1)) =
      [(1, d, t + tx_interval (cl_size (clients g cl)) (nd_bps (devices g d)), nullptr),
       (2, GetDstDev d (channels g (nd_channel (devices g d))),
        arrival_time t (tx_interval (cl_size (clients g cl)) (nd_bps (devices g d))) (ch_delay (channels g (nd_channel (devices g d)))), p),
       (0, cl, next_time t (cl_interval (clients g cl)), nullptr)] \<and>
    handle_event env tid' ev' g1 = Some g2 \<and>
    sv_received (servers g2 (so_server (sockets g a))) = sv_received (servers g (so_server (sockets g a))) + 1 \<and>
    pk_ready (packets g2 p) = 0 \<and>
    packet_view p g2 = drop (unat (stripped (cl_size (clients g cl))))
      (frame_of env d mac (so_defaultAddress (sockets g (cl_socket (clients g cl))))
        (so_defaultPort (sockets g (cl_socket (clients g cl)))) (cl_size (clients g cl)) g
       @ drop (2048 - unat (cl_size (clients g cl))) (gbuffers g (slot_data env (tid * MAX_PACKET_PER_THREAD + i))))"
proof -
  let ?n = "cl_size (clients g cl)" and ?index = "tid * MAX_PACKET_PER_THREAD + i" and ?e = "GetDstDev d (channels g (nd_channel (devices g d)))"
  let ?F = "fresh_packet env ?index ?n g"
  have le: "?n \<le> 2048" using n(2) by (simp add: word_le_nat_alt)
  note P = fresh_packet_fields [OF p(1) le, of g]
  let ?frame = "frame_of env d mac (so_defaultAddress (sockets g (cl_socket (clients g cl))))
        (so_defaultPort (sockets g (cl_socket (clients g cl)))) ?n g @ drop (2048 - unat ?n) (gbuffers g (slot_data env ?index))"
  obtain off mem where s: "ELP_Send env tid cl t g = Some (d_insert (next_send cl t g)
      ((sent d p t (repack p off mem ?F))\<lparr>clients := (clients g)(cl := count_sent (no_result env) ?n (clients g cl))\<rparr>))"
    "packet_wf p (repack p off mem ?F)" "packet_view p (repack p off mem ?F) = ?frame" "unat off = 2004 - unat ?n"
    by (rule ELP_Send_sends [OF can n(2) p(1) refl, where t = t])
  let ?R = "repack p off mem ?F"
  let ?g1 = "d_insert (next_send cl t g) ((sent d p t ?R)\<lparr>clients := (clients g)(cl := count_sent (no_result env) ?n (clients g cl))\<rparr>)"
  have same: "packets ?g1 = packets ?R" "gbuffers ?g1 = gbuffers ?R" by simp_all
  have v: "packet_view p ?g1 = ?frame" and wf: "packet_wf p ?g1"
    using s(2,3) by (simp_all only: packet_view_def packet_wf_def same)
  have x: "packets ?g1 p = \<lparr>pk_data = slot_data env ?index, pk_offset = off, pk_ready = 1, pk_crc = 0,
        pk_uid = packetUid g, pk_size = ?n, pk_capacity = 2048\<rparr>"
    by (simp add: P)
  have r: "receives ?e a ?g1" using rcv by (subst receives_cong [of _ ?e g]) simp_all
  have "has_room a ?n ?g1" using sock by (simp add: has_room_def)
  then obtain g2 where g2: "d_Receive env ?e p (ev_ts ev') ?g1 = Some g2" "pk_ready (packets g2 p) = 0"
    "sv_received (servers g2 (so_server (sockets ?g1 a))) = sv_received (servers ?g1 (so_server (sockets ?g1 a))) + 1"
    "packet_view p g2 = drop (unat (stripped ?n)) (packet_view p ?g1)"
    using d_Receive_delivers [OF wf _ _ _ r p(2), where env = env and t = "ev_ts ev'"] n s(4) unfolding x by auto
  have calls: "drop (length (inserted g)) (inserted ?g1) = [completion_call d p t ?R, arrival_call d p t ?R, next_send cl t g]"
    by simp
  have cc: "completion_call d p t ?R = completion_call d p t ?F" "arrival_call d p t ?R = arrival_call d p t ?F" by simp_all
  have "map (\<lambda>c. (dc_type c, dc_impl c, dc_ts c, dc_payload c)) (drop (length (inserted g)) (inserted ?g1)) =
      [(1, d, t + tx_interval ?n (nd_bps (devices g d)), nullptr),
       (2, ?e, arrival_time t (tx_interval ?n (nd_bps (devices g d))) (ch_delay (channels g (nd_channel (devices g d)))), p),
       (0, cl, next_time t (cl_interval (clients g cl)), nullptr)]"
    unfolding calls cc by (simp add: completion_call_def arrival_call_def next_send_def GetDstDev_def P Let_def)
  then show ?thesis using s(1) g2 v ev ev' by (intro exI [of _ ?g1] exI [of _ g2]) (simp add: handle_event_def)
qed

end
