(* ===== verification/Gpu_Faults.thy ===== *)
theory Gpu_Faults
  imports Gpu_Path Gpu_Routing
begin

text \<open>
  Where the stack does not do what it means to: packets too long for the buffer, the header of a packet flooded to
  several ports, a forwarded packet that arrives before the lookahead of its event, and the fields of the UDP and IP
  headers.
\<close>

section \<open>Headers that do not fit\<close>

lemma header_outside:
  assumes wf: "packet_wf p g" and room: "packet_size p g + length h \<le> 2048"
    and small: "packet_offset p g < length h"
  shows "packet_AddHeader env h p g = None"
proof -
  let ?n = "of_nat (length h) :: u32" and ?x = "packets g p"
  have n: "unat ?n = length h" using room by (intro unat_of_nat_u32) simp
  have "unat (?n + pk_size ?x) = length h + packet_size p g"
    using room n by (subst unat_add_lem [THEN iffD1]) simp_all
  then have guard: "\<not> ?n + pk_size ?x > pk_capacity ?x"
    using room wf by (simp add: packet_wf_def pk_wf_def word_less_nat_alt)
  have "unat (pk_offset ?x - ?n) = packet_offset p g + 2 ^ 32 - length h"
    using small n room by (subst unat_sub_if') (simp add: word_le_nat_alt)
  then have far: "2048 \<le> unat (pk_offset ?x - ?n)" using room by simp
  have "Packet_AddHeader (stack_addr env) h ?x (gbuffers g) = None"
    using guard small far wf by (intro AddHeader_outside) (auto simp: packet_wf_def pk_wf_def)
  then show ?thesis by (simp add: packet_AddHeader_def)
qed

lemma SendFrom_outside:
  assumes wf: "packet_wf p g" and room: "packet_size p g + 6 \<le> 2048" "packet_offset p g < 16"
    and macs: "length src = 6" "length dst = 6"
  shows "SendFrom env d p src dst t g = None"
proof (cases "packet_offset p g < 4")
  case True
  then have "packet_AddHeader env ethertype_padded p g = None"
    using room by (intro header_outside [OF wf]) (simp_all add: ethertype_padded_def)
  then show ?thesis by (simp add: SendFrom_def)
next
  case False
  have e: "length ethertype_padded = 4" by (simp add: ethertype_padded_def)
  obtain o1 m1 where h1: "packet_AddHeader env ethertype_padded p g = Some (repack p o1 m1 g)"
      "packet_wf p (repack p o1 m1 g)" "unat o1 = packet_offset p g - 4"
    by (rule header_view [OF wf, where h = ethertype_padded and env = env]) (use room e False in simp_all)
  show ?thesis
  proof (cases "unat o1 < 6")
    case True
    then have "packet_AddHeader env src p (repack p o1 m1 g) = None"
      using room macs by (intro header_outside [OF h1(2)]) simp_all
    then show ?thesis using h1(1) by (simp add: SendFrom_def)
  next
    case False
    obtain o2 m2 where h2: "packet_AddHeader env src p (repack p o1 m1 g) = Some (repack p o2 m2 g)"
        "packet_wf p (repack p o2 m2 g)" "unat o2 = packet_offset p g - 10"
      by (rule header_view [OF h1(2), where h = src and env = env]) (use room macs h1(3) False in simp_all)
    then have "packet_AddHeader env dst p (repack p o2 m2 g) = None"
      using room macs by (intro header_outside [OF h2(2)]) simp_all
    then show ?thesis using h1(1) h2(1) by (simp add: SendFrom_def)
  qed
qed

lemma ELP_Send_outside:
  assumes can: "can_send env tid cl i d mac g"
    and n: "2004 < unat (cl_size (clients g cl))" "unat (cl_size (clients g cl)) \<le> 2020"
  shows "ELP_Send env tid cl t g = None"
proof -
  let ?c = "clients g cl" and ?n = "cl_size (clients g cl)" and ?index = "tid * MAX_PACKET_PER_THREAD + i"
  let ?p = "slot_packet env ?index" and ?F = "fresh_packet env ?index ?n g" and ?s = "sockets g (cl_socket ?c)"
  have le: "?n \<le> 2048" using n by (simp add: word_le_nat_alt)
  note P = fresh_packet_fields [OF refl le, of env ?index g]
  have off: "unat (2048 - ?n) = 2048 - unat ?n" using le by (simp add: unat_sub)
  have wf: "packet_wf ?p ?F"
    unfolding packet_wf_def pk_wf_def P using can n le off by (simp add: can_send_def Let_def)
  let ?h = "UDP_headers env (pk_size (packets ?F ?p)) 0 (so_defaultAddress ?s) 0 (so_defaultPort ?s)"
  obtain o1 m1 where h1: "packet_AddHeader env ?h ?p ?F = Some (repack ?p o1 m1 ?F)" "packet_wf ?p (repack ?p o1 m1 ?F)"
      "unat o1 = 2020 - unat ?n"
    by (rule header_view [OF wf, where h = ?h and env = env]) (use n off in \<open>simp_all add: P\<close>)
  have sf: "SendFrom env d ?p (nd_macAddress (devices g d)) mac t (repack ?p o1 m1 ?F) = None"
    using can n h1(3) by (intro SendFrom_outside [OF h1(2)]) (simp_all add: can_send_def Let_def P)
  have to: "goes_to (udp_ipv4 (udps g (so_udp ?s))) (so_defaultAddress ?s) d mac (repack ?p o1 m1 ?F)"
    using can by (simp add: can_send_def Let_def goes_to_cong [of ?F g])
  obtain k where k: "so_endPoint ?s = Some k" using can by (auto simp: can_send_def Let_def)
  have "\<not> pk_size (packets ?F ?p) > 65507" using n by (simp add: P word_less_nat_alt)
  then have "Socket_Send env (cl_socket ?c) ?p t ?F = None"
    using k can h1(1) sf L3_OptimizeSend_goes [OF to, of env ?p t]
    by (simp add: Socket_Send_def DoSendTo_def UDP_OptimizeSend_def dev_Send_def Let_def can_send_def)
  then show ?thesis
    using can not_le [of "cl_count ?c" "cl_sent ?c", THEN iffD2]
    unfolding ELP_Send_def Let_def can_send_def by simp
qed

section \<open>Bridges\<close>

text \<open>A packet arriving at a port of bridge \<open>b\<close>, without its Ethernet header.\<close>

lemma d_Receive_bridge:
  assumes wf: "packet_wf p g" and rdy: "pk_ready (packets g p) \<noteq> 0" and n: "6 \<le> pk_size (packets g p)"
    and room: "packet_offset p g + 16 \<le> 2048" and br: "nd_rxCB_enable (devices g d)"
    and view: "packet_view p g = dst @ src @ rest" and macs: "length dst = 6" "length src = 6"
    and nomac: "length (no_mac env) = 6"
  shows "d_Receive env d p t g = ForwardUnicast env (nd_bridge (devices g d)) d p src dst t
      (repack p (pk_offset (packets g p) + 16) (gbuffers g) g)"
    and "packet_wf p (repack p (pk_offset (packets g p) + 16) (gbuffers g) g)"
    and "unat (pk_offset (packets g p) + 16) = packet_offset p g + 16"
proof -
  let ?n = "pk_size (packets g p)" and ?o = "pk_offset (packets g p)"
  have nn: "6 \<le> unat ?n" using n by (simp add: word_le_nat_alt)
  have small: "k \<le> ?n" if "unat k \<le> 6" for k :: u32
    using that nn by (simp add: word_le_nat_alt)
  have off: "unat (?o + k) = unat ?o + unat k" if "unat k \<le> 16" for k :: u32
    using that room by (subst unat_add_lem [THEN iffD1]) simp_all
  have r: "packet_RemoveHeader k p (repack p (?o + j) (gbuffers g) g) = repack p (?o + (j + k)) (gbuffers g) g"
    if "unat k \<le> 6" for j k
    using RemoveHeader_repack [of k "repack p (?o + j) (gbuffers g) g" p] small [OF that] by (simp add: add.assoc)
  have r0: "packet_RemoveHeader 6 p g = repack p (?o + 6) (gbuffers g) g"
    using RemoveHeader_repack [OF small, of 6] by simp
  have w: "packet_wf p (repack p (?o + k) (gbuffers g) g)" if "unat k \<le> 16" for k
    using off [OF that] that room by (intro wf_repack [OF wf]) simp
  have v: "packet_view p (repack p (?o + k) (gbuffers g) g) = drop (unat k) (packet_view p g)" if "unat k \<le> 16" for k
    using off [OF that] by (simp add: packet_view_def pk_view_def add.commute)
  have x1: "packet_Extract (no_mac env) 0 6 p g = Some dst"
    using extract_ok [OF wf, of 6 "no_mac env"] nn room view macs nomac by simp
  have x2: "packet_Extract (no_mac env) 0 6 p (repack p (?o + 6) (gbuffers g) g) = Some src"
    using extract_ok [OF w, of 6 6 "no_mac env"] nn room off [of 6] v [of 6] view macs nomac by simp
  have x3: "\<exists>y. packet_Extract (replicate 4 0) 0 4 p (repack p (?o + 12) (gbuffers g) g) = Some y"
    using extract_ok [OF w, of 12 4 "replicate 4 0"] nn room off [of 12] by simp
  show "d_Receive env d p t g = ForwardUnicast env (nd_bridge (devices g d)) d p src dst t
      (repack p (?o + 16) (gbuffers g) g)"
    using rdy br x1 x2 x3 by (auto simp: d_Receive_def Let_def r0 r)
  show "packet_wf p (repack p (?o + 16) (gbuffers g) g)" by (rule w) simp
  show "unat (?o + 16) = unat ?o + 16" using off [of 16] by simp
qed

lemma bridge_learn_frame [simp]:
  "packets (bridge_learn b src p g) = packets g" "gbuffers (bridge_learn b src p g) = gbuffers g"
  "devices (bridge_learn b src p g) = devices g" "channels (bridge_learn b src p g) = channels g"
  "inserted (bridge_learn b src p g) = inserted g"
  "bridges (bridge_learn b src p g) = (bridges g)(b := (bridges g b)\<lparr>br_learning := Learn src p (br_learning (bridges g b))\<rparr>)"
  by (simp_all add: bridge_learn_def)

lemma cong_view:
  assumes "packets g' = packets g" and "gbuffers g' = gbuffers g"
  shows "packet_wf p g' = packet_wf p g" and "packet_view p g' = packet_view p g"
  using assms by (simp_all add: packet_wf_def packet_view_def)

lemma call_cong:
  assumes "packets g' = packets g" and "devices g' = devices g" and "channels g' = channels g"
  shows "arrival_call d p t g' = arrival_call d p t g" and "completion_call d p t g' = completion_call d p t g"
    and "channel_up d g' = channel_up d g"
  using assms by (simp_all add: arrival_call_def completion_call_def channel_up_def Let_def)

text \<open>To a port that is known and free.\<close>

lemma forward_known:
  assumes wf: "packet_wf p g" and rdy: "pk_ready (packets g p) \<noteq> 0" and n: "6 \<le> pk_size (packets g p)"
    "packet_size p g + 6 \<le> 2048"
    and room: "packet_offset p g + 16 \<le> 2048" and br: "nd_rxCB_enable (devices g d)"
    and view: "packet_view p g = dst @ src @ rest" and macs: "length dst = 6" "length src = 6"
    and nomac: "length (no_mac env) = 6"
    and port: "GetLearnedState dst (Learn src d (br_learning (bridges g (nd_bridge (devices g d))))) = out" "out \<noteq> nullptr"
    and free: "nd_txMachineState (devices g out) = READY" "channel_up out g"
  shows "\<exists>g'. d_Receive env d p t g = Some g' \<and>
    inserted g' = inserted g @ [completion_call out p t g, arrival_call out p t g]"
proof -
  let ?g = "repack p (pk_offset (packets g p) + 16) (gbuffers g) g"
  let ?h = "bridge_learn (nd_bridge (devices g d)) src d ?g"
  note b = d_Receive_bridge [OF wf rdy n(1) room br view macs nomac]
  have wfh: "packet_wf p ?h" using b(2) cong_view [of ?h ?g] by simp
  have calls: "arrival_call out p t ?h = arrival_call out p t g" "completion_call out p t ?h = completion_call out p t g"
    "channel_up out ?h = channel_up out g"
    using call_cong [of ?h ?g out] by simp_all (simp add: channel_up_def)
  obtain off mem where s: "SendFrom env out p src dst t ?h = Some (sent out p t (repack p off mem ?h))"
    by (rule SendFrom_ready [OF wfh, where src = src and dst = dst and d = out and env = env and t = t])
      (use n room b(3) macs free calls in simp_all)
  have "ForwardUnicast env (nd_bridge (devices g d)) d p src dst t ?g = SendFrom env out p src dst t ?h"
    using port by (simp add: ForwardUnicast_def Let_def)
  then show ?thesis using b(1) s calls by simp
qed

text \<open>Flooding to two free ports puts the header on twice.\<close>

lemma flood_two:
  assumes wf: "packet_wf p g" and room: "packet_size p g + 6 \<le> 2048" "32 \<le> packet_offset p g"
    and macs: "length src = 6" "length dst = 6"
    and ports: "x \<noteq> inc" "y \<noteq> inc" "x \<noteq> y"
    and free: "nd_txMachineState (devices g x) = READY" "channel_up x g" "nd_txMachineState (devices g y) = READY" "channel_up y g"
  shows "\<exists>g'. flood env [x, y] inc p src dst t g = Some g' \<and>
    packet_view p g' = (dst @ src @ ethertype_padded) @ (dst @ src @ ethertype_padded) @ packet_view p g \<and>
    map dc_payload (filter (\<lambda>c. dc_type c = 2) (drop (length (inserted g)) (inserted g'))) = [p, p]"
proof -
  obtain o1 m1 where s1: "SendFrom env x p src dst t g = Some (sent x p t (repack p o1 m1 g))"
    "packet_wf p (repack p o1 m1 g)" "packet_view p (repack p o1 m1 g) = dst @ src @ ethertype_padded @ packet_view p g"
    "unat o1 = packet_offset p g - 16"
    by (rule SendFrom_ready [OF wf, where src = src and dst = dst and d = x and env = env and t = t])
      (use room macs free in simp_all)
  let ?g = "sent x p t (repack p o1 m1 g)"
  have wf': "packet_wf p ?g" "packet_view p ?g = dst @ src @ ethertype_padded @ packet_view p g"
    using s1(2,3) cong_view [of ?g "repack p o1 m1 g"] by simp_all
  have up: "channel_up y ?g" using free(4) ports(3) by (simp add: channel_up_def)
  have l1: "16 \<le> packet_offset p g - 16" using room by linarith
  obtain o2 m2 where s2: "SendFrom env y p src dst t ?g = Some (sent y p t (repack p o2 m2 ?g))"
    "packet_view p (repack p o2 m2 ?g) = dst @ src @ ethertype_padded @ packet_view p ?g"
    by (rule SendFrom_ready [OF wf'(1), where src = src and dst = dst and d = y and env = env and t = t])
      (use room macs free ports l1 s1(4) up in simp_all)
  have "packet_view p (sent y p t (repack p o2 m2 ?g)) = packet_view p (repack p o2 m2 ?g)"
    by (rule cong_view) simp_all
  then show ?thesis using s1(1) s2 wf'(2) ports by simp
qed

section \<open>Header fields\<close>

lemma UDP_headers_bytes:
  "UDP_headers env n saddr daddr sport dport =
     [0x05, 0x45] @ le16 17 @ [0, 0, 0, 0, 64, ucast daddr] @ le16 (no_checksum env) @
     le32 (ucast dport) @ le32 saddr @
     le16 (ucast daddr) @ le16 sport @ le16 dport @ [0, 0]"
  by (simp add: UDP_headers_def L4_PrepareHeader_def L3_PrepareHeader_def ip_bytes_def udp_bytes_def Let_def)
    (simp add: le16_def)

end
