(* ===== verification/Gpu_Calls.thy ===== *)
theory Gpu_Calls
  imports Gpu_Stack Elp_Reach
begin

text \<open>
  What the handlers of the GPU stack ask of the simulator: every call of \<^verbatim>\<open>d_insert\<close> is of an event type the simulator
  handles, and none is for a time before the event being handled, as long as no time overflows.
\<close>

section \<open>Calls appended by an operation\<close>

text \<open>The packet sizes that can occur from \<open>g\<close> on.\<close>

definition sizes :: "gpu \<Rightarrow> u32 set" where
  "sizes g = insert 0 (range (\<lambda>p. pk_size (packets g p)) \<union> range (\<lambda>c. cl_size (clients g c)))"

definition times_ok :: "u64 \<Rightarrow> gpu \<Rightarrow> bool" where
  "times_ok t g \<longleftrightarrow>
     (\<forall>n\<in>sizes g. \<forall>d ch. uint t + uint (tx_interval n (nd_bps (devices g d))) + uint (ch_delay (channels g ch)) < 2 ^ 53) \<and>
     (\<forall>c. uint t + uint (cl_interval (clients g c)) < 2 ^ 53)"

text \<open>With \<open>T\<close>, the calls are not before \<open>t\<close>.\<close>

definition call_ok :: "bool \<Rightarrow> u64 \<Rightarrow> DevCall \<Rightarrow> bool" where
  "call_ok T t c \<longleftrightarrow> dc_type c \<in> {0, 1, 2} \<and> (T \<longrightarrow> t \<le> dc_ts c)"

text \<open>The members no handler changes.\<close>

definition same_setup :: "gpu \<Rightarrow> gpu \<Rightarrow> bool" where
  "same_setup g g' \<longleftrightarrow> sizes g' \<subseteq> sizes g \<and> (\<forall>d. nd_bps (devices g' d) = nd_bps (devices g d)) \<and>
     channels g' = channels g \<and> (\<forall>c. cl_interval (clients g' c) = cl_interval (clients g c))"

definition appends :: "bool \<Rightarrow> u64 \<Rightarrow> gpu \<Rightarrow> gpu \<Rightarrow> bool" where
  "appends T t g g' \<longleftrightarrow> (\<exists>cs. inserted g' = inserted g @ cs \<and> (\<forall>c\<in>set cs. call_ok T t c)) \<and> same_setup g g'"

lemma appends_refl [intro, simp]: "appends T t g g"
  by (simp add: appends_def same_setup_def)

lemma appends_trans [trans]:
  assumes "appends T t g g'" and "appends T t g' g''"
  shows "appends T t g g''"
proof -
  from assms obtain cs cs' where "inserted g' = inserted g @ cs" "\<forall>c\<in>set cs. call_ok T t c"
    "inserted g'' = inserted g' @ cs'" "\<forall>c\<in>set cs'. call_ok T t c" by (auto simp: appends_def)
  then have "inserted g'' = inserted g @ (cs @ cs') \<and> (\<forall>c\<in>set (cs @ cs'). call_ok T t c)" by auto
  moreover have "same_setup g g''" using assms by (auto simp: appends_def same_setup_def)
  ultimately show ?thesis unfolding appends_def by blast
qed

lemma times_ok_appends: "times_ok t g \<Longrightarrow> appends T t g g' \<Longrightarrow> times_ok t g'"
  unfolding times_ok_def appends_def same_setup_def by (metis subsetD)

text \<open>An operation that inserts nothing.\<close>

lemma appends_quiet:
  assumes "inserted g' = inserted g" and "same_setup g g'"
  shows "appends T t g g'"
  using assms by (simp add: appends_def)

lemma appends_insert: "appends T t g g' \<Longrightarrow> call_ok T t c \<Longrightarrow> appends T t g (d_insert c g')"
  by (auto simp: appends_def same_setup_def sizes_def)

section \<open>Quiet operations\<close>

lemma sizes_packet:
  assumes "pk_size x \<in> sizes g"
  shows "sizes (set_packet p x g) \<subseteq> sizes g"
proof -
  have "range (\<lambda>q. pk_size (packets (set_packet p x g) q)) \<subseteq> insert (pk_size x) (range (\<lambda>q. pk_size (packets g q)))"
    by auto
  then show ?thesis using assms unfolding sizes_def by auto
qed

lemma same_setup_packet: "pk_size x \<in> sizes g \<Longrightarrow> same_setup g (set_packet p x g)"
  using sizes_packet by (simp add: same_setup_def)

lemma size_in_sizes [simp]: "pk_size (packets g p) \<in> sizes g" "cl_size (clients g c) \<in> sizes g" "0 \<in> sizes g"
  by (auto simp: sizes_def)

lemma release_quiet [intro]: "appends T t g (release_packet p g)"
  unfolding release_packet_def by (intro appends_quiet same_setup_packet) simp_all

lemma same_setup_device: "nd_bps x = nd_bps (devices g d) \<Longrightarrow> same_setup g (set_device d x g)"
  by (simp add: same_setup_def sizes_def)

lemma same_setup_cong:
  assumes "packets g' = packets g" and "devices g' = devices g" and "channels g' = channels g" and "clients g' = clients g"
  shows "same_setup g g'"
  using assms by (simp add: same_setup_def sizes_def)

lemma AddHeader_size: "Packet_AddHeader src h p mem = Some (q, mem') \<Longrightarrow> pk_size q = pk_size p"
  by (auto simp: Packet_AddHeader_def Let_def split: if_splits bind_splits)

lemma packet_AddHeader_quiet: "packet_AddHeader env h p g = Some g' \<Longrightarrow> appends T t g g'"
proof -
  assume "packet_AddHeader env h p g = Some g'"
  then obtain q mem where q: "Packet_AddHeader (stack_addr env) h (packets g p) (gbuffers g) = Some (q, mem)"
    and g: "g' = (set_packet p q g)\<lparr>gbuffers := mem\<rparr>" by (auto simp: packet_AddHeader_def)
  have "same_setup g (set_packet p q g)" using AddHeader_size [OF q] by (intro same_setup_packet) simp
  then have "same_setup g g'" unfolding g by (simp add: same_setup_def sizes_def)
  then show ?thesis unfolding g by (intro appends_quiet) simp_all
qed

lemma packet_RemoveHeader_quiet [intro]: "appends T t g (packet_RemoveHeader n p g)"
  unfolding packet_RemoveHeader_def
  by (intro appends_quiet same_setup_packet) (simp_all add: Packet_RemoveHeader_def)

lemma set_socket_quiet [intro]: "appends T t g (set_socket a x g)"
  by (intro appends_quiet same_setup_cong) simp_all

lemma bridge_learn_quiet [intro]: "appends T t g (bridge_learn b src p g)"
  by (intro appends_quiet same_setup_cong) (simp_all add: bridge_learn_def)

section \<open>Transmitting\<close>

lemma dev_type_012 [simp]: "dev_type 0" "dev_type 1" "dev_type 2"
  by (simp_all add: dev_type_def)

lemma u64_le_uint: "uint (a :: u64) \<le> uint b \<Longrightarrow> a \<le> b"
  by (simp add: word_le_def)

lemma interval_call:
  assumes "times_ok t g" and "n \<in> sizes g"
  shows "t \<le> t + tx_interval n (nd_bps (devices g d))"
    and "t \<le> arrival_time t (tx_interval n (nd_bps (devices g d))) (ch_delay (channels g ch))"
proof -
  let ?x = "tx_interval n (nd_bps (devices g d))" and ?d = "ch_delay (channels g ch)"
  have sum: "uint t + uint ?x + uint ?d < 2 ^ 53" using assms by (auto simp: times_ok_def)
  have "uint t + uint ?x \<le> uint t + uint ?x + uint ?d" by simp
  from this sum have "uint t + uint ?x < 2 ^ 53" by (rule order.strict_trans1)
  then have "uint t + uint ?x < 2 ^ 64" by (rule order.strict_trans) simp
  then have "uint (t + ?x) = uint t + uint ?x" by (intro uint_add_lem [THEN iffD1]) simp
  then show "t \<le> t + ?x" by (intro u64_le_uint) simp
  show "t \<le> arrival_time t ?x ?d"
    unfolding word_le_def arrival_time_exact [OF sum] by simp
qed

lemma Channel_TransmitStart_appends:
  assumes "T \<longrightarrow> times_ok t g" and "n \<in> sizes g"
  shows "appends T t g (snd (Channel_TransmitStart ch p src (tx_interval n (nd_bps (devices g d))) t g))"
  using interval_call(2) [OF _ assms(2), of t] assms(1)
  by (auto simp: Channel_TransmitStart_def Let_def call_ok_def intro!: appends_insert)

lemma dev_Enqueue_quiet: "appends T t g (snd (dev_Enqueue d p g))"
  by (intro appends_quiet) (auto simp: dev_Enqueue_def split_beta intro!: same_setup_device)

lemma dev_Dequeue_quiet: "appends T t g (snd (dev_Dequeue d g))"
  by (intro appends_quiet) (auto simp: dev_Dequeue_def split_beta intro!: same_setup_device)

lemma enqueue_or_release_quiet: "appends T t g (enqueue_or_release d p g)"
  using dev_Enqueue_quiet [of T t g d p] release_quiet [of T t "snd (dev_Enqueue d p g)" p]
  by (auto simp: enqueue_or_release_def split_beta intro: appends_trans)

lemma set_tx_state_quiet: "appends T t g (set_tx_state d st g)"
  unfolding set_tx_state_def by (intro appends_quiet same_setup_device) simp_all

lemma TransmitStart_appends:
  assumes "T \<longrightarrow> times_ok t g"
  shows "appends T t g (snd (TransmitStart d p t g))"
proof (cases "nd_txMachineState (devices g d) = READY")
  case True
  let ?x = "tx_interval (pk_size (packets g p)) (nd_bps (devices g d))"
  let ?c = "\<lparr>dc_impl = d, dc_ts = t + ?x, dc_context = nd_NodeID (devices g d), dc_type = 1,
    dc_lookahead = nd_lookahead (devices g d), dc_payload = nullptr\<rparr>"
  let ?g = "d_insert ?c (set_tx_state d BUSY g)"
  have "T \<longrightarrow> t \<le> t + ?x" using assms interval_call(1) [where t = t and g = g and d = d] by simp
  then have a: "appends T t g ?g"
    by (intro appends_insert set_tx_state_quiet) (simp add: call_ok_def)
  have e: "packets (set_tx_state d BUSY g) = packets g" "nd_bps (devices (set_tx_state d BUSY g) d) = nd_bps (devices g d)"
    "nd_NodeID (devices (set_tx_state d BUSY g) d) = nd_NodeID (devices g d)"
    "nd_lookahead (devices (set_tx_state d BUSY g) d) = nd_lookahead (devices g d)"
    "nd_channel (devices (set_tx_state d BUSY g) d) = nd_channel (devices g d)"
    by (simp_all add: set_tx_state_def)
  have n: "pk_size (packets g p) \<in> sizes ?g" using size_in_sizes(1) [of ?g p] by (simp add: e)
  have "snd (TransmitStart d p t g) = snd (Channel_TransmitStart (nd_channel (devices g d)) p d ?x t ?g)"
    unfolding TransmitStart_def Let_def using True by (simp only: e not_True_eq_False if_False simp_thms d_insert_frame)
  moreover have "appends T t ?g (snd (Channel_TransmitStart (nd_channel (devices g d)) p d ?x t ?g))"
  proof -
    have "T \<longrightarrow> times_ok t ?g" using assms times_ok_appends [OF _ a] by blast
    from Channel_TransmitStart_appends [OF this n, of "nd_channel (devices g d)" p d d] show ?thesis
      by (simp only: d_insert_frame e)
  qed
  ultimately show ?thesis using a by (auto intro: appends_trans)
next
  case False
  then show ?thesis using enqueue_or_release_quiet by (simp add: TransmitStart_def)
qed

lemma send_or_queue_appends: "T \<longrightarrow> times_ok t g \<Longrightarrow> appends T t g (send_or_queue d p t g)"
  using TransmitStart_appends enqueue_or_release_quiet by (simp add: send_or_queue_def)

lemma D_TransmitComplete_appends:
  assumes "T \<longrightarrow> times_ok t g"
  shows "appends T t g (D_TransmitComplete d t g)"
proof -
  let ?g = "set_tx_state d READY g"
  let ?h = "snd (dev_Dequeue d ?g)"
  have h: "appends T t g ?h" using set_tx_state_quiet dev_Dequeue_quiet by (rule appends_trans)
  then have "T \<longrightarrow> times_ok t ?h" using assms times_ok_appends by blast
  from TransmitStart_appends [OF this] have "appends T t g (snd (TransmitStart d p t ?h))" for p
    using h by (blast intro: appends_trans)
  with h show ?thesis by (auto simp: D_TransmitComplete_def Let_def split: prod.splits option.splits)
qed

lemma SendFrom_appends:
  assumes "T \<longrightarrow> times_ok t g" and "SendFrom env d p src dst t g = Some g'"
  shows "appends T t g g'"
proof -
  from assms(2) obtain g1 g2 g3 where a: "packet_AddHeader env ethertype_padded p g = Some g1"
    "packet_AddHeader env src p g1 = Some g2" "packet_AddHeader env dst p g2 = Some g3"
    and g': "g' = send_or_queue d p t g3"
    by (auto simp: SendFrom_def split: bind_splits)
  have "appends T t g g3" using a [THEN packet_AddHeader_quiet] by (blast intro: appends_trans)
  moreover from this have "T \<longrightarrow> times_ok t g3" using assms(1) times_ok_appends by blast
  ultimately show ?thesis unfolding g' using send_or_queue_appends by (blast intro: appends_trans)
qed

section \<open>Receiving and sending\<close>

text \<open>A step after which times are still in range.\<close>

lemma appends_step:
  assumes "T \<longrightarrow> times_ok t g" and "appends T t g g1" and "T \<longrightarrow> times_ok t g1 \<Longrightarrow> appends T t g1 g2"
  shows "appends T t g g2"
  using assms times_ok_appends by (blast intro: appends_trans)

lemma flood_appends:
  "T \<longrightarrow> times_ok t g \<Longrightarrow> flood env ports inc p src dst t g = Some g' \<Longrightarrow> appends T t g g'"
proof (induction ports arbitrary: g)
  case Nil
  then show ?case by simp
next
  case (Cons port ports)
  show ?case
  proof (cases "port = inc")
    case True
    with Cons show ?thesis by simp
  next
    case False
    then obtain g1 where s: "SendFrom env port p src dst t g = Some g1" and f: "flood env ports inc p src dst t g1 = Some g'"
      using Cons.prems(2) by (auto split: bind_splits)
    show ?thesis using Cons.prems(1) SendFrom_appends [OF Cons.prems(1) s] Cons.IH [OF _ f] by (rule appends_step)
  qed
qed

lemma ForwardUnicast_appends:
  assumes "T \<longrightarrow> times_ok t g" and "ForwardUnicast env b inc p src dst t g = Some g'"
  shows "appends T t g g'"
  using assms(1) bridge_learn_quiet
proof (rule appends_step)
  assume "T \<longrightarrow> times_ok t (bridge_learn b src inc g)"
  then show "appends T t (bridge_learn b src inc g) g'"
    using assms(2) SendFrom_appends flood_appends by (fastforce simp: ForwardUnicast_def Let_def split: if_splits)
qed

lemma ReceiveFromDevice_forwards: "ReceiveFromDevice env b d p src dst ty t g = ForwardUnicast env b d p src dst t g"
  by (cases ty) simp_all

lemma L3_OptimizeSend_appends:
  assumes "T \<longrightarrow> times_ok t g" and "L3_OptimizeSend env l3 p dest t g = Some g'"
  shows "appends T t g g'"
  using assms SendFrom_appends
  by (auto simp: L3_OptimizeSend_def Interface_OptimizeSend_def dev_Send_def d_NeedsArp_def Let_def
      split: if_splits option.splits)

lemma UDP_OptimizeSend_appends:
  assumes "T \<longrightarrow> times_ok t g" and "UDP_OptimizeSend env u p saddr daddr sport dport t g = Some g'"
  shows "appends T t g g'"
proof -
  from assms(2) obtain g1 where
    h: "packet_AddHeader env (UDP_headers env (pk_size (packets g p)) saddr daddr sport dport) p g = Some g1"
    and l: "L3_OptimizeSend env (udp_ipv4 (udps g1 u)) p daddr t g1 = Some g'"
    by (auto simp: UDP_OptimizeSend_def Let_def split: bind_splits)
  show ?thesis using assms(1) packet_AddHeader_quiet [OF h] L3_OptimizeSend_appends [OF _ l] by (rule appends_step)
qed

lemma Socket_Send_appends:
  assumes "T \<longrightarrow> times_ok t g" and "Socket_Send env a p t g = Some (r, g')"
  shows "appends T t g g'"
  using assms UDP_OptimizeSend_appends
  by (auto simp: Socket_Send_def DoSendTo_def Let_def split: if_splits)

lemma CudaRecv_quiet: "appends T t g (snd (CudaRecv a n g))"
  by (auto simp: CudaRecv_def Let_def split: prod.splits option.splits)

lemmas release_after = appends_trans [OF _ release_quiet]
lemmas set_socket_after = appends_trans [OF _ set_socket_quiet]
lemmas RemoveHeader_after = appends_trans [OF _ packet_RemoveHeader_quiet]

lemma servers_after: "appends T t g x \<Longrightarrow> appends T t g (x\<lparr>servers := f\<rparr>)"
  by (erule appends_trans) (intro appends_quiet same_setup_cong, simp_all)

lemma HandleRead_quiet: "appends T t g (HandleRead sv a g)"
  using CudaRecv_quiet [of T t g a "0xFFFFFFFF"]
  by (auto simp: HandleRead_def Let_def split_beta intro!: release_after servers_after)

lemmas HandleRead_after = appends_trans [OF _ HandleRead_quiet]

lemma ForwardPacket_quiet: "appends T t g (ForwardPacket a p g)"
  by (auto simp: ForwardPacket_def Let_def split: prod.splits bool.splits
      intro!: release_after set_socket_after HandleRead_after)

lemmas ForwardPacket_after = appends_trans [OF _ ForwardPacket_quiet]

lemma UDP_Receive_after: "appends T t g x \<Longrightarrow> UDP_Receive u p x = Some g' \<Longrightarrow> appends T t g g'"
  by (auto simp: UDP_Receive_def Let_def split: bind_splits intro!: RemoveHeader_after ForwardPacket_after)

lemma L3_d_Receive_quiet: "L3_d_Receive l3 d p g = Some g' \<Longrightarrow> appends T t g g'"
  by (auto simp: L3_d_Receive_def d_LocalDeliver_def Let_def split: option.splits if_splits
      intro: UDP_Receive_after [OF RemoveHeader_after])

lemma d_Receive_appends:
  assumes "T \<longrightarrow> times_ok t g" and "d_Receive env d p t g = Some g'"
  shows "appends T t g g'"
proof (cases "pk_ready (packets g p) = 0")
  case True
  with assms show ?thesis by (simp add: d_Receive_def)
next
  case False
  let ?g = "packet_RemoveHeader 4 p (packet_RemoveHeader 6 p (packet_RemoveHeader 6 p g))"
  have a: "appends T t g ?g" using packet_RemoveHeader_quiet by (blast intro: appends_trans)
  from assms(2) False obtain src dst where
    r: "(if nd_rxCB_enable (devices ?g d)
      then ReceiveFromDevice env (nd_bridge (devices ?g d)) d p src dst PACKET_OTHERHOST t ?g
      else L3_d_Receive (nd_ipv4 (devices ?g d)) d p ?g) = Some g'"
    by (auto simp: d_Receive_def Let_def split: bind_splits)
  show ?thesis using assms(1) a
  proof (rule appends_step)
    assume "T \<longrightarrow> times_ok t ?g"
    then show "appends T t ?g g'"
      using r ForwardUnicast_appends L3_d_Receive_quiet unfolding ReceiveFromDevice_forwards by (auto split: if_splits)
  qed
qed

lemma fresh_packet_quiet: "appends T t g (fresh_packet env index (cl_size (clients g cl)) g)"
proof -
  let ?g = "fresh_packet env index (cl_size (clients g cl)) g"
  obtain x where x: "?g = (set_packet (slot_packet env index) x g)\<lparr>packetUid := packetUid g + 1\<rparr>"
    and sz: "pk_size x = 0 \<or> pk_size x = cl_size (clients g cl)"
    by (auto simp: fresh_packet_def Let_def Packet_SetSize_def Packet_new_def)
  from sz have "pk_size x \<in> sizes g" by auto
  then have "same_setup g (set_packet (slot_packet env index) x g)" by (rule same_setup_packet)
  then have "same_setup g ?g" unfolding x by (simp add: same_setup_def sizes_def)
  then show ?thesis unfolding x by (intro appends_quiet) simp_all
qed

lemma ELP_Send_appends:
  assumes T: "T \<longrightarrow> times_ok t g" and s: "ELP_Send env tid cl t g = Some g'"
  shows "appends T t g g'"
proof (cases "cl_stop (clients g cl) \<or> cl_sent (clients g cl) \<ge> cl_count (clients g cl)")
  case True
  with s have "g' = g" unfolding ELP_Send_def Let_def by (simp split: if_splits)
  then show ?thesis by simp
next
  case False
  let ?c = "clients g cl"
  from s False obtain i where i: "claim_slot env tid g = Some i" by (auto simp: ELP_Send_def Let_def split: bind_splits)
  let ?index = "tid * MAX_PACKET_PER_THREAD + i"
  let ?g = "fresh_packet env ?index (cl_size ?c) g"
  from s False i obtain r g1 where snd: "Socket_Send env (cl_socket ?c) (slot_packet env ?index) t ?g = Some (r, g1)"
    and g': "g' = d_insert \<lparr>dc_impl = cl, dc_ts = next_time t (cl_interval ?c), dc_context = cl_NodeID ?c, dc_type = 0,
        dc_lookahead = cl_lookahead ?c, dc_payload = nullptr\<rparr>
      (g1\<lparr>clients := (clients g1)(cl := count_sent r (pk_size (packets g1 (slot_packet env ?index))) ?c)\<rparr>)"
    by (auto simp: ELP_Send_def Let_def split: bind_splits)
  have a: "appends T t g ?g" by (rule fresh_packet_quiet)
  then have b: "appends T t g g1" using T Socket_Send_appends [OF _ snd] by (blast intro: appends_step)
  let ?c' = "count_sent r (pk_size (packets g1 (slot_packet env ?index))) ?c"
  have c: "cl_interval ?c' = cl_interval ?c" "cl_size ?c' = cl_size ?c" by (simp_all add: count_sent_def)
  have "sizes (g1\<lparr>clients := (clients g1)(cl := ?c')\<rparr>) \<subseteq> insert (cl_size ?c') (sizes g1)" by (auto simp: sizes_def)
  then have "same_setup g (g1\<lparr>clients := (clients g1)(cl := ?c')\<rparr>)"
    using b c by (auto simp: appends_def same_setup_def)
  then have d: "appends T t g (g1\<lparr>clients := (clients g1)(cl := ?c')\<rparr>)" using b by (simp add: appends_def)
  have "T \<longrightarrow> t \<le> next_time t (cl_interval ?c)"
  proof
    assume T
    then have "uint t + uint (cl_interval ?c) < 2 ^ 53" using assms(1) by (simp add: times_ok_def)
    then show "t \<le> next_time t (cl_interval ?c)" using next_time_exact [of t "cl_interval ?c"] by (intro u64_le_uint) simp
  qed
  then show ?thesis unfolding g' using d by (intro appends_insert) (simp_all add: call_ok_def)
qed

lemma handle_event_appends:
  assumes "T \<longrightarrow> times_ok (ev_ts ev) g" and "handle_event env tid ev g = Some g'"
  shows "appends T (ev_ts ev) g g'"
  using assms ELP_Send_appends D_TransmitComplete_appends d_Receive_appends
  by (auto simp: handle_event_def split: if_splits)

section \<open>The handlers as the simulator's device code\<close>

text \<open>What the simulator's model asks of device code, for the handlers of the stack in any state of the stack.\<close>

definition gpu_exec :: "gpu_env \<Rightarrow> DeviceEvent \<Rightarrow> DevCall list \<Rightarrow> bool" where
  "gpu_exec env ev cs \<longleftrightarrow>
     (\<exists>tid g g'. handle_event env tid ev g = Some g' \<and> inserted g' = inserted g @ cs)"

lemma gpu_exec_ok: "dev_ok (gpu_exec env)"
  unfolding dev_ok_def gpu_exec_def
proof (intro allI impI ballI, elim exE conjE)
  fix ev cs c tid g g'
  assume "handle_event env tid ev g = Some g'" and "inserted g' = inserted g @ cs" and "c \<in> set cs"
  then show "dev_type (dc_type c)"
    using handle_event_appends [of False ev g env tid g'] by (fastforce simp: appends_def call_ok_def)
qed

end
