(* ===== verification/Gpu_Stack_Claims.thy ===== *)
theory Gpu_Stack_Claims
  imports Gpu_Faults Gpu_Calls
begin

text \<open>
  The properties of the GPU stack: packets, devices, bridges, the way from client to server, and the contract between
  the handlers and the simulator.  Each has a witness in a network of two nodes joined by a channel.
\<close>

section \<open>Two nodes\<close>

text \<open>
  Client 1, socket 2, UDP 3, IP 4, interface 5 and device 6 on one node, server 11, socket 12, UDP 13, IP 14, interface
  15 and device 16 on the other; the payload has \<open>n\<close> bytes.
\<close>

definition demo_env :: gpu_env where
  "demo_env = \<lparr>stack_addr = 0, no_mac = replicate 6 0, no_checksum = 0, no_result = 0, threadBuf = 1000,
     packetRawBuf = 100000, env_pitch = 2048\<rparr>"

definition demo_mac :: "ptr \<Rightarrow> mac" where
  "demo_mac d = [0, 0, 0, 0, 0, ucast d]"

definition demo_device :: "ptr \<Rightarrow> CudaNetDevice" where
  "demo_device d = \<lparr>nd_macAddress = demo_mac d, nd_linkUp = True, nd_txMachineState = READY, nd_queue = tx_queue_new,
     nd_bps = 5000000, nd_mtu = 1500, nd_NodeID = 0, nd_rxCB_enable = d = 40, nd_bridge = 30,
     nd_ipv4 = (if d = 6 then 4 else 14), nd_channel = 7, nd_lookahead = 0\<rparr>"

definition demo_channel :: CudaP2PChannel where
  "demo_channel = \<lparr>ch_link = [\<lparr>l_state = IDLE, l_src = 6, l_dst = 16\<rparr>, \<lparr>l_state = IDLE, l_src = 16, l_dst = 6\<rparr>],
     ch_nDevices = 2, ch_delay = 2000000, ch_NodeID = 0, ch_dst_NodeID = 1\<rparr>"

definition demo_socket :: "ptr \<Rightarrow> CudaSocket" where
  "demo_socket s = \<lparr>so_endPoint = Some 0, so_udp = (if s = 2 then 3 else 13), so_boundnetdevice = nullptr,
     so_defaultAddress = 0x0A000002, so_defaultPort = 9, so_shutdownSend = False, so_shutdownRecv = False,
     so_connected = True, so_rxAvailable = 0, so_rcvBufSize = 262144, so_deliveryQueue = pair_list_new 1024,
     so_server = 11\<rparr>"

definition demo_packet :: "u32 \<Rightarrow> CudaPacket" where
  "demo_packet n = \<lparr>pk_data = 100000, pk_offset = 2048 - n, pk_ready = 0, pk_crc = 0, pk_uid = 0, pk_size = n, pk_capacity = 2048\<rparr>"

definition demo_l3 :: "ptr \<Rightarrow> CudaIpv4L3Protocol" where
  "demo_l3 l = \<lparr>l3_interfaces = replicate 10 (if l = 4 then 5 else 15), l3_interfaceCount = 1,
     l3_routing = snd (AddRoute 0x0A000000 0xFF000000 0 0 (StaticRouting_new 32)), l3_udp = (if l = 4 then 3 else 13)\<rparr>"

definition two_nodes :: "u32 \<Rightarrow> gpu" where
  "two_nodes n = \<lparr>packets = (\<lambda>_. demo_packet n), gbuffers = (\<lambda>_. replicate 2048 7), devices = demo_device,
     channels = (\<lambda>_. demo_channel),
     bridges = (\<lambda>_. \<lparr>br_ports = [40, 6, 16], br_portCnt = 3, br_learning = Learn (demo_mac 9) 6 learning_new\<rparr>),
     interfaces = (\<lambda>i. \<lparr>if_device = (if i = 5 then 6 else 16), if_rawAddress = 0x0A000001, if_isUp = True,
       if_arp = AddEntry 0x0A000002 (demo_mac 16) ArpCache_new\<rparr>),
     l3s = demo_l3,
     udps = (\<lambda>u. \<lparr>udp_endPoints = replicate 10 (endPoint_new\<lparr>ep_socket := if u = 3 then 2 else 12\<rparr>), udp_index = 1,
       udp_ipv4 = (if u = 3 then 4 else 14)\<rparr>),
     sockets = demo_socket, servers = (\<lambda>_. \<lparr>sv_received = 0\<rparr>),
     clients = (\<lambda>_. \<lparr>cl_stop = False, cl_sent = 0, cl_totalTx = 0, cl_count = 10, cl_size = n, cl_interval = 1000000,
       cl_NodeID = 0, cl_lookahead = 3638400, cl_socket = 2\<rparr>),
     packetUid = 0, inserted = []\<rparr>"

lemma two_nodes_sel [simp]:
  "packets (two_nodes n) p = demo_packet n" "gbuffers (two_nodes n) a = replicate 2048 7"
  "devices (two_nodes n) = demo_device" "channels (two_nodes n) c = demo_channel" "l3s (two_nodes n) = demo_l3"
  "sockets (two_nodes n) = demo_socket" "inserted (two_nodes n) = []" "cl_size (clients (two_nodes n) c) = n"
  "cl_socket (clients (two_nodes n) c) = 2" "cl_interval (clients (two_nodes n) c) = 1000000"
  "cl_stop (clients (two_nodes n) c) = False" "cl_sent (clients (two_nodes n) c) < cl_count (clients (two_nodes n) c)"
  "servers (two_nodes n) s = \<lparr>sv_received = 0\<rparr>"
  by (simp_all add: two_nodes_def)

lemma demo_sel [simp]:
  "nd_txMachineState (demo_device d) = READY" "nd_bps (demo_device d) = 5000000" "nd_channel (demo_device d) = 7"
  "nd_macAddress (demo_device d) = demo_mac d" "nd_queue (demo_device d) = tx_queue_new" "nd_mtu (demo_device d) = 1500"
  "nd_rxCB_enable (demo_device d) \<longleftrightarrow> d = 40" "nd_bridge (demo_device d) = 30"
  "ch_link demo_channel = [\<lparr>l_state = IDLE, l_src = 6, l_dst = 16\<rparr>, \<lparr>l_state = IDLE, l_src = 16, l_dst = 6\<rparr>]"
  "ch_delay demo_channel = 2000000" "length (demo_mac d) = 6" "slot_packet demo_env 0 = 1000" "slot_data demo_env 0 = 100000"
  by (simp_all add: demo_device_def demo_channel_def demo_mac_def slot_packet_def slot_data_def demo_env_def)

lemma demo_up: "channel_up d (two_nodes n)"
  by (simp add: channel_up_def Let_def)

lemma demo_lookups:
  "LookupRoute 0x0A000002 (l3_routing (demo_l3 4)) = Some 0" "Lookup 0x0A000002 (AddEntry 0x0A000002 (demo_mac 16) ArpCache_new) = Some (demo_mac 16)"
  by code_simp+

lemma demo_goes: "goes_to 4 0x0A000002 6 (demo_mac 16) (two_nodes n)"
proof -
  have "GetInterface 0 (demo_l3 4) = 5" by (simp add: GetInterface_def demo_l3_def)
  moreover have "GetInterfaceForDevice 4 6 (two_nodes n) = Some 0"
    by (simp add: GetInterfaceForDevice_def demo_l3_def first_index_def two_nodes_def)
  ultimately show ?thesis using demo_lookups by (simp add: goes_to_def) (simp add: two_nodes_def)
qed

lemma demo_can: "can_send demo_env 0 1 0 6 (demo_mac 16) (two_nodes n)"
proof -
  have "claim_slot demo_env 0 (two_nodes n) = Some 0"
    by (simp add: claim_slot_def first_index_def MAX_PACKET_PER_THREAD_def demo_packet_def upt_conv_Cons)
  moreover have "udp_ipv4 (udps (two_nodes n) 3) = 4" by (simp add: two_nodes_def)
  ultimately show ?thesis using demo_goes demo_up by (simp add: can_send_def demo_socket_def)
qed

lemma demo_dst: "GetDstDev 6 demo_channel = 16"
  by (simp add: GetDstDev_def wire_of_def)

lemma demo_receives: "receives 16 12 (two_nodes n)"
proof -
  have "GetInterfaceForDevice 14 16 (two_nodes n) = Some 0"
    by (simp add: GetInterfaceForDevice_def demo_l3_def first_index_def two_nodes_def)
  then show ?thesis by (simp add: receives_def demo_device_def) (simp add: demo_l3_def two_nodes_def)
qed

lemma demo_room: "n \<le> 2048 \<Longrightarrow> has_room 12 n (two_nodes n)"
  by (simp add: has_room_def demo_socket_def pl_invar_def pl_list_def pair_list_new_def word_le_nat_alt)

definition demo_ev :: "int \<Rightarrow> ptr \<Rightarrow> ptr \<Rightarrow> u64 \<Rightarrow> u64 \<Rightarrow> DeviceEvent" where
  "demo_ev ty obj p t la = \<lparr>ev_impl = obj, ev_ts = t, ev_context = 0, ev_uid = 0, ev_type = ty, ev_lookahead = la,
     ev_valid = True, ev_payload = p\<rparr>"

lemma demo_ev_sel [simp]: "ev_impl (demo_ev ty obj p t la) = obj" "ev_ts (demo_ev ty obj p t la) = t"
  "ev_type (demo_ev ty obj p t la) = ty" "ev_payload (demo_ev ty obj p t la) = p" "ev_lookahead (demo_ev ty obj p t la) = la"
  by (simp_all add: demo_ev_def)

section \<open>Properties\<close>

text \<open>
  Whatever the alignment of the header and the packet, \<^verbatim>\<open>Packet_AddHeader\<close> puts the header in front of what the packet
  held and touches no other buffer, when the header fits; reading it back with \<^verbatim>\<open>ExtractPayload\<close> gives the header, and
  \<^verbatim>\<open>Packet_RemoveHeader\<close> restores what the packet held, provided the header is not longer than \<^verbatim>\<open>m_size\<close>.
\<close>

theorem header_roundtrip:
  assumes "pk_wf p mem" and "unat (pk_size p) + length header \<le> 2048" and "length header \<le> unat (pk_offset p)"
    and "n = of_nat (length header)" and "n \<le> pk_size p"
  shows "\<exists>q mem'. Packet_AddHeader src header p mem = Some (q, mem') \<and> pk_view q mem' = header @ pk_view p mem \<and>
    (\<forall>a. a \<noteq> pk_data p \<longrightarrow> mem' a = mem a) \<and>
    ExtractPayload dst 0 n q mem' = Some (header @ drop (length header) dst) \<and>
    pk_view (Packet_RemoveHeader n q) mem' = pk_view p mem"
proof -
  have n: "unat n = length header" unfolding assms(4) using assms(2) by (intro unat_of_nat_u32) simp
  obtain q mem' where q: "Packet_AddHeader src header p mem = Some (q, mem')" "pk_wf q mem'"
    "pk_view q mem' = header @ pk_view p mem" "q = p\<lparr>pk_offset := pk_offset p - of_nat (length header)\<rparr>"
    "\<forall>a. a \<noteq> pk_data p \<longrightarrow> mem' a = mem a" "unat (pk_offset q) = unat (pk_offset p) - length header"
    by (rule AddHeader_view [OF assms(1-3), where src = src])
  have sz: "n \<le> pk_size q" "unat n \<le> unat (pk_size q)" using assms(5) q(4) by (simp_all add: word_le_nat_alt)
  have off: "unat (pk_offset q) + unat n \<le> 2048" using q(6) n assms(1,3) by (simp add: pk_wf_def)
  have "ExtractPayload dst 0 n q mem' = Some (header @ drop (length header) dst)"
    using ExtractPayload_view [OF q(2), of 0 n dst] sz off n q(3) by simp
  moreover have "pk_view (Packet_RemoveHeader n q) mem' = pk_view p mem"
    using RemoveHeader_view(2) [OF q(2) sz(1) off] n q(3) by simp
  ultimately show ?thesis using q(1,3,5) by blast
qed

theorem header_roundtrip_witness:
  "\<exists>q mem'. Packet_AddHeader 2 [1, 2, 3, 4, 5] (demo_packet 100) (\<lambda>_. replicate 2048 7) = Some (q, mem') \<and>
    ExtractPayload [] 0 5 q mem' = Some [1, 2, 3, 4, 5]"
  using header_roundtrip [where p = "demo_packet 100" and mem = "\<lambda>_. replicate 2048 7" and header = "[1, 2, 3, 4, 5]"
      and src = 2 and dst = "[]" and n = 5]
  by (auto simp: pk_wf_def demo_packet_def)


definition ready_nodes :: gpu where
  "ready_nodes = (two_nodes 100)\<lparr>packets := \<lambda>_. (demo_packet 100)\<lparr>pk_ready := 1\<rparr>\<rparr>"

lemma ready_run: "device_run 6 [] 0 ready_nodes"
  by (rule device_run.start)
    (use demo_up [of 6 100] in \<open>simp_all add: ready_nodes_def channel_up_def tx_invar_def tx_list_def tx_queue_new_def\<close>)




text \<open>
  With a payload of 12 to 19 bytes, sizes the attribute \<^verbatim>\<open>PacketSize\<close> allows, the receiver does not take the IP
  header off, because \<^verbatim>\<open>Packet_RemoveHeader\<close> compares the 20 bytes of the header with the size of the payload: what it
  leaves in the packet is 20 bytes of headers and the payload.
\<close>

theorem short_payload_keeps_ip_header:
  assumes "can_send env tid cl i d mac g" and "n = cl_size (clients g cl)" and "12 \<le> unat n" and "unat n < 20"
    and "p = slot_packet env (tid * MAX_PACKET_PER_THREAD + i)" and "p \<noteq> nullptr"
    and "c = channels g (nd_channel (devices g d))"
    and "receives (GetDstDev d c) a g" and "has_room a n g"
    and "ev_type ev = 0" and "ev_impl ev = cl" and "ev_ts ev = t"
    and "ev_type ev' = 2" and "ev_impl ev' = GetDstDev d c" and "ev_payload ev' = p"
    and "length (gbuffers g (slot_data env (tid * MAX_PACKET_PER_THREAD + i))) = 2048"
  shows "\<exists>g1 g2 hdr. handle_event env tid ev g = Some g1 \<and> handle_event env tid' ev' g1 = Some g2 \<and>
    length hdr = 20 \<and>
    packet_view p g2 = hdr @ drop (2048 - unat n) (gbuffers g (slot_data env (tid * MAX_PACKET_PER_THREAD + i)))"
proof -
  have "n < 20" "12 \<le> cl_size (clients g cl)" using assms(2-4) by (simp_all add: word_less_nat_alt word_le_nat_alt)
  then have st: "unat (stripped n) = 24" by (simp add: stripped_def)
  have n: "unat (cl_size (clients g cl)) \<le> 2004" using assms(2,4) by simp
  let ?f = "frame_of env d mac (so_defaultAddress (sockets g (cl_socket (clients g cl))))
    (so_defaultPort (sockets g (cl_socket (clients g cl)))) n g"
  have "length mac = 6" "length (nd_macAddress (devices g d)) = 6"
    using assms(1) by (simp_all add: can_send_def Let_def)
  then have fr: "length ?f = 44" by (simp add: frame_of_def ethertype_padded_def)
  obtain g1 g2 where "handle_event env tid ev g = Some g1" "handle_event env tid' ev' g1 = Some g2"
    "packet_view p g2 = drop 24 (?f @ drop (2048 - unat n) (gbuffers g (slot_data env (tid * MAX_PACKET_PER_THREAD + i))))"
    using send_then_receive [OF assms(1) \<open>12 \<le> cl_size (clients g cl)\<close> n assms(5,6) assms(8) [unfolded assms(7)]
        assms(9) [unfolded assms(2)] assms(10-13) assms(14) [unfolded assms(7)] assms(15), where tid' = tid']
    unfolding assms(2) [symmetric] st by blast
  then show ?thesis using fr by (intro exI [of _ g1] exI [of _ g2] exI [of _ "drop 24 ?f"]) simp
qed

theorem short_payload_keeps_ip_header_witness:
  "\<exists>g1 g2 hdr. handle_event demo_env 0 (demo_ev 0 1 0 5 0) (two_nodes 12) = Some g1 \<and>
    handle_event demo_env 0 (demo_ev 2 16 1000 2019205 0) g1 = Some g2 \<and> length hdr = 20 \<and>
    packet_view 1000 g2 = hdr @ replicate 12 7"
proof -
  have "\<exists>g1 g2 hdr. handle_event demo_env 0 (demo_ev 0 1 0 5 0) (two_nodes 12) = Some g1 \<and>
    handle_event demo_env 0 (demo_ev 2 16 1000 2019205 0) g1 = Some g2 \<and> length hdr = 20 \<and>
    packet_view 1000 g2 = hdr @ drop (2048 - unat (12 :: u32)) (gbuffers (two_nodes 12) (slot_data demo_env (0 * MAX_PACKET_PER_THREAD + 0)))"
    by (rule short_payload_keeps_ip_header [OF demo_can, where a = 12 and c = demo_channel])
      (simp_all add: demo_dst demo_receives demo_room)
  then show ?thesis by auto
qed

text \<open>
  With a payload of 2005 to 2020 bytes the headers do not fit in front of it, but \<^verbatim>\<open>Packet_AddHeader\<close>, which compares
  with the size of the payload alone, does not refuse them: its offset wraps around and the handler writes outside the
  packet's buffer.
\<close>

theorem long_payload_writes_outside:
  assumes "can_send env tid cl i d mac g" and "2004 < unat (cl_size (clients g cl))" and "unat (cl_size (clients g cl)) \<le> 2020"
    and "ev_type ev = 0" and "ev_impl ev = cl"
  shows "handle_event env tid ev g = None"
  using ELP_Send_outside [OF assms(1-3)] assms(4,5) by (simp add: handle_event_def)

theorem long_payload_writes_outside_witness: "handle_event demo_env 0 (demo_ev 0 1 0 5 0) (two_nodes 2010) = None"
  by (rule long_payload_writes_outside [OF demo_can]) simp_all

text \<open>
  The headers \<^verbatim>\<open>CudaUdpL4Protocol::OptimizeSend\<close> writes, byte by byte: because the length is passed first to the
  two \<^verbatim>\<open>PrepareHeader\<close> functions, which take it last, the IP total length is always 17, the IP addresses are the
  destination port and the source address, the protocol is the low byte of the destination address, and the UDP ports and length
  are the low half of the destination address and the two ports.
\<close>

theorem header_fields_shifted:
  "UDP_headers env n saddr daddr sport dport =
     [0x05, 0x45] @ le16 17 @ [0, 0, 0, 0, 64, ucast daddr] @ le16 (no_checksum env) @
     le32 (ucast dport) @ le32 saddr @
     le16 (ucast daddr) @ le16 sport @ le16 dport @ [0, 0]"
  by (rule UDP_headers_bytes)

text \<open>
  A packet flooded to two free ports of a bridge is one packet, not a copy for each: both ports put an Ethernet
  header on it and both arrivals carry it, so the first receiver finds a second Ethernet header where it expects the
  IP header.
\<close>

theorem flooding_stacks_headers:
  assumes "packet_wf p g" and "packet_size p g + 6 \<le> 2048" and "32 \<le> packet_offset p g"
    and "length src = 6" and "length dst = 6" and "x \<noteq> inc" and "y \<noteq> inc" and "x \<noteq> y"
    and "nd_txMachineState (devices g x) = READY" and "channel_up x g"
    and "nd_txMachineState (devices g y) = READY" and "channel_up y g"
  shows "\<exists>g'. flood env [x, y] inc p src dst t g = Some g' \<and>
    packet_view p g' = (dst @ src @ ethertype_padded) @ (dst @ src @ ethertype_padded) @ packet_view p g \<and>
    map dc_payload (filter (\<lambda>c. dc_type c = 2) (drop (length (inserted g)) (inserted g'))) = [p, p]"
  by (rule flood_two [OF assms])

theorem flooding_stacks_headers_witness:
  "\<exists>g'. flood demo_env [6, 16] 40 1000 (demo_mac 9) (demo_mac 8) 5 (two_nodes 100) = Some g' \<and>
    map dc_payload (filter (\<lambda>c. dc_type c = 2) (inserted g')) = [1000, 1000]"
proof -
  have w: "packet_wf 1000 (two_nodes 100)" by (simp add: packet_wf_def pk_wf_def demo_packet_def)
  have "\<exists>g'. flood demo_env [6, 16] 40 1000 (demo_mac 9) (demo_mac 8) 5 (two_nodes 100) = Some g' \<and>
    packet_view 1000 g' = (demo_mac 8 @ demo_mac 9 @ ethertype_padded) @ (demo_mac 8 @ demo_mac 9 @ ethertype_padded) @
      packet_view 1000 (two_nodes 100) \<and>
    map dc_payload (filter (\<lambda>c. dc_type c = 2) (drop (length (inserted (two_nodes 100))) (inserted g'))) = [1000, 1000]"
    by (rule flooding_stacks_headers [OF w]) (simp_all add: demo_up demo_packet_def)
  then show ?thesis by auto
qed


text \<open>A packet of 1024 bytes at bridge port 40, for a station behind port 6, with the lookahead its channel gives it.\<close>

definition bridged :: gpu where
  "bridged = (two_nodes 1024)\<lparr>packets := \<lambda>_. (demo_packet 1024)\<lparr>pk_ready := 1, pk_offset := 980\<rparr>,
     gbuffers := \<lambda>_. replicate 980 7 @ demo_mac 9 @ demo_mac 8 @ replicate 1056 7\<rparr>"

lemma demo_mtu: "mtu_lookahead 1500 5000000 2000000 = 4400000" "tx_interval 1024 5000000 = 1638400"
  by code_simp+

lemma demo_learned: "GetLearnedState (demo_mac 9) (Learn (demo_mac 8) 40 (Learn (demo_mac 9) 6 learning_new)) = 6"
  by code_simp


text \<open>
  C6: The handlers of the stack meet the simulator's contract: whatever the state of the stack, every call of \<^verbatim>\<open>d_insert\<close> they make is
  of a kind the simulator handles, and, as long as no time exceeds what a \<^verbatim>\<open>double\<close> represents exactly, none is for a time
  before the event being handled; so the simulator's properties hold with these handlers as its device code.
\<close>

theorem handlers_meet_contract:
  assumes "handle_event env tid ev g = Some g'"
  shows "\<exists>cs. inserted g' = inserted g @ cs \<and>
    (\<forall>c\<in>set cs. dc_type c \<in> {0, 1, 2} \<and> (times_ok (ev_ts ev) g \<longrightarrow> ev_ts ev \<le> dc_ts c)) \<and>
    gpu_exec env ev cs \<and> dev_ok (gpu_exec env)"
proof -
  obtain cs where cs: "inserted g' = inserted g @ cs" "\<forall>c\<in>set cs. call_ok (times_ok (ev_ts ev) g) (ev_ts ev) c"
    using handle_event_appends [OF _ assms, of "times_ok (ev_ts ev) g"] by (auto simp: appends_def)
  then show ?thesis using assms gpu_exec_ok by (intro exI [of _ cs]) (auto simp: call_ok_def gpu_exec_def)
qed

lemma demo_times: "times_ok 5 (two_nodes 1024)"
proof -
  have "tx_interval 0 5000000 = 0" by code_simp
  moreover have "sizes (two_nodes 1024) = {0, 1024}" by (auto simp: sizes_def demo_packet_def)
  ultimately show ?thesis by (simp add: times_ok_def demo_mtu)
qed

theorem handlers_meet_contract_witness:
  "\<exists>g' cs. handle_event demo_env 0 (demo_ev 0 1 0 5 0) (two_nodes 1024) = Some g' \<and>
    inserted g' = cs \<and> length cs = 3 \<and> (\<forall>c\<in>set cs. 5 \<le> dc_ts c) \<and> dev_ok (gpu_exec demo_env)"
proof -
  have n: "unat (cl_size (clients (two_nodes 1024) 1)) \<le> 2004" by simp
  obtain off mem where s: "ELP_Send demo_env 0 1 5 (two_nodes 1024) = Some (d_insert (next_send 1 5 (two_nodes 1024))
      ((sent 6 1000 5 (repack 1000 off mem (fresh_packet demo_env (0 * MAX_PACKET_PER_THREAD + 0) (cl_size (clients (two_nodes 1024) 1)) (two_nodes 1024))))
        \<lparr>clients := (clients (two_nodes 1024))(1 := count_sent (no_result demo_env) (cl_size (clients (two_nodes 1024) 1)) (clients (two_nodes 1024) 1))\<rparr>))"
    by (rule ELP_Send_sends [OF demo_can n _ refl, where p = 1000 and t = 5]) simp_all
  then obtain g' where g': "handle_event demo_env 0 (demo_ev 0 1 0 5 0) (two_nodes 1024) = Some g'" "length (inserted g') = 3"
    by (simp add: handle_event_def)
  show ?thesis using handlers_meet_contract [OF g'(1)] g' demo_times by auto
qed

end
