(* ===== verification/Gpu_System.thy ===== *)
theory Gpu_System
  imports Gpu_Calls Gpu_Device Elp_Props Gpu_Stack_Claims Elp_Claims
begin

text \<open>
  The simulator and the stack as one system: the state is that of \<^verbatim>\<open>CudaELPSimulator\<close> beside the objects of the stack,
  and a thread of the kernel that takes an event runs its handler on those objects.  A handler changes the objects
  in one step, when its thread starts on the event; its calls of \<^verbatim>\<open>d_insert\<close> follow one by one, between steps of the
  host and of other threads.
\<close>

section \<open>Interfaces\<close>

text \<open>
  What the simulator asks of the three parts it does not contain: the scheduler of ns-3 core, the host events, and the
  code its kernel runs.
\<close>

locale event_scheduler =
  fixes ops :: "'q sched_ops" and q_abs :: "'q \<Rightarrow> SchedEvent multiset"
  assumes scheduler: "sched_laws ops q_abs"

locale host_events =
  fixes invoke :: "'q user_code"
  assumes host_ok: "user_ok invoke"

locale device_code =
  fixes dev_exec :: "DeviceEvent \<Rightarrow> DevCall list \<Rightarrow> bool"
  assumes device_ok: "dev_ok dev_exec"

locale elp_system = event_scheduler ops q_abs + host_events invoke + device_code dev_exec
  for ops :: "'q sched_ops" and q_abs and invoke :: "'q user_code" and dev_exec
begin

abbreviation "reachable q n \<equiv> elp_reachable ops invoke dev_exec (ELP_Init ops q n)"

lemma reachable_inv:
  assumes "events_ok (q_abs q)" and "reachable q n s"
  shows "elp_inv q_abs s" and "head_inv s"
  using elp_ok_reachable [OF scheduler host_ok device_ok assms] by (simp_all add: elp_ok_def)

lemma dispatch:
  assumes "events_ok (q_abs q)" and "reachable q n s" and "fst (is_safe nxt (ELP_ScheduleDevEvent ops s))"
    and "e \<in> set (h_safeEventQueue s b)" and "ev_valid e" and "ev_lookahead e \<noteq> UINT64_MAX"
  shows "se_ts nxt < ev_ts e + ev_lookahead e"
proof -
  have inv: "buf_inv s" using reachable_inv(1) [OF assms(1,2)] by simp
  then obtain i where "i < DEVICE_QUEUE_LENGTH" "h_safeEventQueue s b ! i = e"
    using assms(4) by (auto simp: buf_inv_def shape_inv_def in_set_conv_nth)
  with dispatch_bound [OF inv assms(3), of i b] assms(5,6) show ?thesis by simp
qed

lemma iteration_returns:
  assumes "events_ok (q_abs q)" and "reachable q n s" and "kernel_idle s" and "q_abs (m_events s) \<noteq> {#}"
    and "device_ids_ok (q_abs (m_events (ELP_ScheduleDevEvent ops s)))"
  shows "\<exists>s'. runsk_iter ops invoke s = Some s'"
  by (rule runsk_iter_returns [OF scheduler reachable_inv(1) [OF assms(1,2)] assms(4,3,5)])

end

interpretation list_scheduler: event_scheduler list_sched mset
  by unfold_locales (rule list_sched_laws)

interpretation handlers: device_code "gpu_exec env" for env
  by unfold_locales (rule gpu_exec_ok)

text \<open>Host events that leave the simulator alone, such as traces, over the ordered list.\<close>

interpretation quiet_host: host_events "\<lambda>_ _. []"
  by unfold_locales (simp add: user_ok_def)

interpretation gpu_simulation: elp_system list_sched mset "\<lambda>_ _. []" "gpu_exec env" for env
  by unfold_locales

lemma handlers_system: "sched_laws ops q_abs \<Longrightarrow> user_ok invoke \<Longrightarrow> elp_system ops q_abs invoke (gpu_exec env)"
  by (simp add: elp_system_def event_scheduler_def host_events_def handlers.device_code_axioms)

section \<open>The system\<close>

text \<open>
  \<open>simulator\<close> is any step of the simulator but the start of a handler.  The thread of index \<open>i\<close> of the buffer has
  the global index \<open>i mod totalThreads\<close>.
\<close>

inductive system_step ::
  "'q sched_ops \<Rightarrow> 'q user_code \<Rightarrow> gpu_env \<Rightarrow> 'q elp \<times> gpu \<Rightarrow> 'q elp \<times> gpu \<Rightarrow> bool"
  for ops :: "'q sched_ops" and invoke :: "'q user_code" and env :: gpu_env
where
  simulator: "elp_step ops invoke (\<lambda>_ _. False) s s' \<Longrightarrow> system_step ops invoke env (s, g) (s', g)"
| handler: "thread_next s i \<Longrightarrow> e = h_safeEventQueue s (k_buf s) ! i \<Longrightarrow> ev_valid e \<Longrightarrow>
     handle_event env (i mod totalThreads s) e g = Some g' \<Longrightarrow> inserted g' = inserted g @ calls \<Longrightarrow>
     system_step ops invoke env (s, g)
       (s\<lparr>k_todo := remove1 i (k_todo s), k_active := (i, calls) # k_active s\<rparr>, g')"

inductive system_run ::
  "'q sched_ops \<Rightarrow> 'q user_code \<Rightarrow> gpu_env \<Rightarrow> 'q elp \<times> gpu \<Rightarrow> 'q elp \<times> gpu \<Rightarrow> bool"
  for ops :: "'q sched_ops" and invoke :: "'q user_code" and env :: gpu_env and s0 :: "'q elp \<times> gpu"
where
  run_start: "system_run ops invoke env s0 s0"
| run_step: "system_run ops invoke env s0 s \<Longrightarrow> system_step ops invoke env s s' \<Longrightarrow> system_run ops invoke env s0 s'"

inductive_cases system_stepE: "system_step ops invoke env (s, g) (s', g')"

lemma kernel_step_mono:
  assumes "kernel_step d s s'" and "\<And>e cs. d e cs \<Longrightarrow> d' e cs"
  shows "kernel_step d' s s'"
  using assms(1) by (cases rule: kernel_step.cases) (auto intro: kernel_step.intros assms(2))

lemma elp_step_mono:
  assumes "elp_step ops invoke d s s'" and "\<And>e cs. d e cs \<Longrightarrow> d' e cs"
  shows "elp_step ops invoke d' s s'"
  using assms(1) by (cases rule: elp_step.cases) (auto intro: elp_step.intros kernel_step_mono assms(2))

text \<open>Every step of the system is a step of the simulator with the handlers as its device code.\<close>

lemma simulator_elp:
  assumes "elp_step ops invoke (\<lambda>_ _. False) s s'"
  shows "elp_step ops invoke (gpu_exec env) s s'"
  using assms by (rule elp_step_mono) simp

lemma handler_elp:
  assumes "thread_next s i" and "ev_valid (h_safeEventQueue s (k_buf s) ! i)"
    and "handle_event env t (h_safeEventQueue s (k_buf s) ! i) g = Some g'" and "inserted g' = inserted g @ calls"
  shows "elp_step ops invoke (gpu_exec env) s (s\<lparr>k_todo := remove1 i (k_todo s), k_active := (i, calls) # k_active s\<rparr>)"
proof (rule elp_step.kernel [OF kernel_step.kernel_start [OF assms(1,2)]])
  show "gpu_exec env (h_safeEventQueue s (k_buf s) ! i) calls" using assms(3,4) by (auto simp: gpu_exec_def)
qed

lemma system_step_elp:
  assumes "system_step ops invoke env (s, g) (s', g')"
  shows "elp_step ops invoke (gpu_exec env) s s'"
  using assms by (rule system_stepE) (blast intro: simulator_elp handler_elp)+

lemma system_run_elp:
  assumes "system_run ops invoke env c c'"
  shows "elp_reachable ops invoke (gpu_exec env) (fst c) (fst c')"
  using assms
proof (induction rule: system_run.induct)
  case run_start
  show ?case by (rule elp_reachable.reach_start)
next
  case (run_step c' c'')
  then have "elp_step ops invoke (gpu_exec env) (fst c') (fst c'')"
    using system_step_elp [of ops invoke env "fst c'" "snd c'" "fst c''" "snd c''"] by simp
  with run_step.IH show ?case by (rule elp_reachable.reach_step)
qed

lemma kernel_can_move:
  assumes busy: "\<not> kernel_idle s"
    and ok: "\<And>i. i \<in> set (k_todo s) \<Longrightarrow> ev_valid (h_safeEventQueue s (k_buf s) ! i) \<Longrightarrow>
      handle_event env (i mod totalThreads s) (h_safeEventQueue s (k_buf s) ! i) g \<noteq> None"
  shows "\<exists>c. system_step ops invoke env (s, g) c"
proof -
  let ?d = "\<lambda>e (cs :: DevCall list). True"
  obtain s' where "kernel_step ?d s s'" using kernel_moves [OF busy, of ?d] by auto
  then show ?thesis
  proof (cases rule: kernel_step.cases)
    case (kernel_start i cs)
    then have "i \<in> set (k_todo s)" by (simp add: thread_next_def)
    then obtain g' where g': "handle_event env (i mod totalThreads s) (h_safeEventQueue s (k_buf s) ! i) g = Some g'"
      using ok kernel_start(3) by blast
    then obtain cs where "inserted g' = inserted g @ cs"
      using handle_event_appends [of False, OF _ g'] by (auto simp: appends_def)
    with kernel_start g' show ?thesis by (blast intro: system_step.handler)
  next
    case (kernel_skip i)
    then have "kernel_step (\<lambda>_ _. False) s s'" by (blast intro: kernel_step.kernel_skip)
    then show ?thesis by (blast intro: system_step.simulator elp_step.kernel)
  next
    case (kernel_insert i c calls u)
    then have "kernel_step (\<lambda>_ _. False) s s'" by (blast intro: kernel_step.kernel_insert)
    then show ?thesis by (blast intro: system_step.simulator elp_step.kernel)
  next
    case (kernel_redo i c calls)
    then have "kernel_step (\<lambda>_ _. False) s s'" by (blast intro: kernel_step.kernel_redo)
    then show ?thesis by (blast intro: system_step.simulator elp_step.kernel)
  next
    case (kernel_retire i)
    then have "kernel_step (\<lambda>_ _. False) s s'" by (blast intro: kernel_step.kernel_retire)
    then show ?thesis by (blast intro: system_step.simulator elp_step.kernel)
  qed
qed

section \<open>Properties of the system\<close>

text \<open>
  Properties that need the simulator and the stack together: dispatch and progress of the whole system, and a packet
  that leaves its device before it was sent.
\<close>

section \<open>The whole system\<close>

lemma demo_system:
  "system_run list_sched demo_user demo_env
     (ELP_Init list_sched [demo_event 10 1000000, demo_event 12 1000001] 1, two_nodes 1024) (demo_elp, two_nodes 1024)"
proof -
  have "elp_step list_sched demo_user (\<lambda>_ _. False) demo0 demo_elp"
    by (rule elp_step.host_iter [OF _ _ demo1_eq [unfolded demo1_some]]) (simp_all add: demo0_def ELP_Init_def)
  then show ?thesis unfolding demo0_def
    by (intro system_run.run_step [OF system_run.run_start] system_step.simulator)
qed

text \<open>
  C3: The simulator running the handlers of the stack, from any state of the stack, with host iterations, kernel
  threads and other host threads interleaved.  The host finds an event safe only if it is earlier than time
  stamp plus lookahead of every event still in a buffer; while the kernel has work some part of it can move, unless
  a handler runs into undefined behaviour or an endless search; the calls its threads still have to make are of
  the kinds the simulator handles.
\<close>

theorem system_is_conservative:
  assumes "sched_laws ops q_abs" and "user_ok invoke" and "events_ok (q_abs q)"
    and "system_run ops invoke env (ELP_Init ops q n, g0) (s, g)"
  shows "(\<forall>nxt b. \<forall>e\<in>set (h_safeEventQueue s b). fst (is_safe nxt (ELP_ScheduleDevEvent ops s)) \<and> ev_valid e \<and>
        ev_lookahead e \<noteq> UINT64_MAX \<longrightarrow> se_ts nxt < ev_ts e + ev_lookahead e) \<and>
    (\<not> kernel_idle s \<and> (\<forall>i\<in>set (k_todo s). ev_valid (h_safeEventQueue s (k_buf s) ! i) \<longrightarrow>
        handle_event env (i mod totalThreads s) (h_safeEventQueue s (k_buf s) ! i) g \<noteq> None) \<longrightarrow>
      (\<exists>c. system_step ops invoke env (s, g) c)) \<and>
    (\<forall>(i, cs)\<in>set (k_active s). \<forall>c\<in>set cs. dev_type (dc_type c))"
proof -
  note sys = handlers_system [OF assms(1,2), of env]
  have r: "elp_reachable ops invoke (gpu_exec env) (ELP_Init ops q n) s" using system_run_elp [OF assms(4)] by simp
  have "dev_type (dc_type c)" if "(i, cs) \<in> set (k_active s)" "c \<in> set cs" for i cs c
    using elp_system.reachable_inv(1) [OF sys assms(3) r] that by (auto simp: buf_inv_def type_inv_def)
  then show ?thesis
    using elp_system.dispatch [OF sys assms(3) r] kernel_can_move [of s env g] by (intro conjI allI ballI impI) auto
qed

theorem system_is_conservative_witness:
  "fst (is_safe (demo_event 12 1000001) (ELP_ScheduleDevEvent list_sched demo_elp)) \<and>
   se_ts (demo_event 12 1000001) < ev_ts (host_event 1 10 7 1000000 0 5 2) + ev_lookahead (host_event 1 10 7 1000000 0 5 2)"
proof -
  have f: "fst (is_safe (demo_event 12 1000001) (ELP_ScheduleDevEvent list_sched demo_elp))"
    by (simp add: ELP_ScheduleDevEvent_def demo1_fields is_safe_def Let_def)
  have "host_event 1 10 7 1000000 0 5 2 \<in> set (h_safeEventQueue demo_elp Buf1)"
    by (simp add: demo1_fields set_update_memI queue_length_pos)
  then show ?thesis
    using system_is_conservative [OF list_sched_laws demo_ok(1,3) demo_system] f by (auto simp: host_event_def)
qed

section \<open>Leaving before being sent\<close>

lemma complete_next:
  assumes inv: "device_inv d ps k g" and busy: "nd_txMachineState (devices g d) = BUSY"
    and q: "tx_list (queue_of d g) = p # rest"
  obtains h where "D_TransmitComplete d t g = d_insert (arrival_call d p t h) (d_insert (completion_call d p t h) (set_tx_state d BUSY h))"
    and "packets h = packets g" and "channels h = channels g" and "inserted h = inserted g"
    and "nd_bps (devices h d) = nd_bps (devices g d)" and "nd_channel (devices h d) = nd_channel (devices g d)"
proof -
  let ?g = "set_tx_state d READY g"
  let ?h = "set_device d ((devices ?g d)\<lparr>nd_queue := snd (DequeuePacket (packet_ready ?g) (queue_of d g))\<rparr>) ?g"
  have i: "tx_invar (packet_ready ?g) (queue_of d g)" "channel_up d ?g"
    using inv packet_ready_cong [of ?g g] by (simp_all add: device_inv_def)
  have "fst (DequeuePacket (packet_ready ?g) (queue_of d g)) = Some p" using txq.deq_Cons [OF i(1) q] by simp
  then have dq: "dev_Dequeue d ?g = (Some p, ?h)" by (simp add: dev_Dequeue_def split_beta)
  have "channel_up d ?h" using i(2) channel_up_cong [of ?h g d] by simp
  then have "D_TransmitComplete d t g =
      d_insert (arrival_call d p t ?h) (d_insert (completion_call d p t ?h) (set_tx_state d BUSY ?h))"
    using busy TransmitStart_ready [of ?h d p t] by (simp add: D_TransmitComplete_def dq)
  then show thesis by (rule that) simp_all
qed

text \<open>
  A packet can leave its device before it was sent.  A send at \<open>t0\<close> on a free device keeps it busy until
  \<open>t1 = t0\<close> plus the transmission time, but the simulator dispatches any event earlier than \<open>t0\<close> plus the
  lookahead of the send, which includes the propagation delay.  So a second send on the device at a time \<open>t2\<close> between the two
  is dispatched and handled before the completion: its packet is queued, and the completion transmits it with the clock at \<open>t1\<close>.  It
  arrives earlier than a packet transmitted at \<open>t2\<close> can.
\<close>

theorem queued_packet_leaves_early:
  assumes "device_run d ps k g" and "nd_txMachineState (devices g d) = READY"
    and "p \<noteq> nullptr" and "packet_ready g p" and "p' \<noteq> nullptr" and "packet_ready g p'"
    and "bps = nd_bps (devices g d)" and "c = channels g (nd_channel (devices g d))"
    and "t1 = t0 + tx_interval (pk_size (packets g p)) bps" and "x = tx_interval (pk_size (packets g p')) bps"
    and "t1 < t2" and "t2 < t0 + L" and "uint t2 + uint x + uint (ch_delay c) < 2 ^ 53"
    and "safe_ts s = t0 + L" and "se_ts nxt = t2"
  shows "fst (is_safe nxt s) \<and>
    (\<exists>a b. inserted (D_TransmitComplete d t1 (send_or_queue d p' t2 (send_or_queue d p t0 g))) =
        inserted (send_or_queue d p t0 g) @ [a, b] \<and>
      dc_type b = 2 \<and> dc_payload b = p' \<and> dc_ts b = arrival_time t1 x (ch_delay c) \<and>
      dc_ts b < arrival_time t2 x (ch_delay c))"
proof -
  note inv = device_run_inv [OF assms(1)]
  let ?g1 = "send_or_queue d p t0 g" and ?g2 = "send_or_queue d p' t2 (send_or_queue d p t0 g)"
  have up: "channel_up d g" and q: "tx_list (queue_of d g) = []" using inv assms(2) by (simp_all add: device_inv_def)
  have g1: "?g1 = sent d p t0 g" by (simp add: send_or_queue_cases [OF up] assms(2) sent_def)
  have i1: "device_inv d (ps @ [p]) k ?g1"
    using send_inv [OF inv assms(3,4), of t0] q assms(2) by (simp add: accepts_def)
  have q1: "tx_list (queue_of d ?g1) = []" and b1: "nd_txMachineState (devices ?g1 d) = BUSY"
    and r1: "packet_ready ?g1 p'" using q assms(6) unfolding g1 by (simp_all add: packet_ready_def)
  have e: "fst (EnqueuePacket p' (queue_of d ?g1))" "tx_list (snd (EnqueuePacket p' (queue_of d ?g1))) = [p']"
    using txq.enq_room [of "packet_ready ?g1" "queue_of d ?g1" p'] q1 i1 r1 assms(5) by (simp_all add: tx_good_def device_inv_def)
  have g2: "?g2 = set_device d ((devices ?g1 d)\<lparr>nd_queue := snd (EnqueuePacket p' (queue_of d ?g1))\<rparr>) ?g1"
    using e(1) b1 by (simp add: send_or_queue_def enqueue_or_release_def dev_Enqueue_def split_beta)
  have i2: "device_inv d (ps @ [p] @ [p']) k ?g2"
    using send_inv [OF i1 assms(5) r1, of t2] q1 by (simp add: accepts_def)
  have b2: "nd_txMachineState (devices ?g2 d) = BUSY" and q2: "tx_list (queue_of d ?g2) = p' # []"
    using b1 e(2) unfolding g2 by simp_all
  obtain h where h: "D_TransmitComplete d t1 ?g2 =
      d_insert (arrival_call d p' t1 h) (d_insert (completion_call d p' t1 h) (set_tx_state d BUSY h))"
    "packets h = packets ?g2" "channels h = channels ?g2" "inserted h = inserted ?g2"
    "nd_bps (devices h d) = nd_bps (devices ?g2 d)" "nd_channel (devices h d) = nd_channel (devices ?g2 d)"
    by (rule complete_next [OF i2 b2 q2])
  have same: "packets ?g2 = packets g" "channels ?g2 = channels g" "inserted ?g2 = inserted ?g1"
    "nd_bps (devices ?g2 d) = bps" "nd_channel (devices ?g2 d) = nd_channel (devices g d)"
    unfolding g2 by (simp_all add: g1 assms(7))
  have ts: "dc_ts (arrival_call d p' t1 h) = arrival_time t1 x (ch_delay c)"
    by (simp add: arrival_call_def Let_def h same assms(8,10))
  have u: "uint t1 + uint x + uint (ch_delay c) < uint t2 + uint x + uint (ch_delay c)"
    using assms(11) by (simp add: word_less_def)
  then have "uint t1 + uint x + uint (ch_delay c) < 2 ^ 53" using assms(13) by (rule order.strict_trans)
  then have "arrival_time t1 x (ch_delay c) < arrival_time t2 x (ch_delay c)"
    using u by (simp only: word_less_def arrival_time_exact assms(13))
  moreover have "fst (is_safe nxt s)" using assms(12,14,15) by (simp add: is_safe_def Let_def)
  ultimately show ?thesis using h(1,4) ts by (simp add: same)
qed

lemma demo_interval: "tx_interval 100 5000000 = 160000"
  by code_simp

theorem queued_packet_leaves_early_witness:
  "fst (is_safe (demo_event 200000 1000001) (demo0\<lparr>safe_ts := 2160005\<rparr>)) \<and>
   (\<exists>a b. inserted (D_TransmitComplete 6 160005 (send_or_queue 6 51 200000 (send_or_queue 6 50 5 ready_nodes))) =
        inserted (send_or_queue 6 50 5 ready_nodes) @ [a, b] \<and>
      dc_payload b = 51 \<and> dc_ts b < arrival_time 200000 160000 2000000)"
proof -
  have "fst (is_safe (demo_event 200000 1000001) (demo0\<lparr>safe_ts := 2160005\<rparr>)) \<and>
   (\<exists>a b. inserted (D_TransmitComplete 6 160005 (send_or_queue 6 51 200000 (send_or_queue 6 50 5 ready_nodes))) =
        inserted (send_or_queue 6 50 5 ready_nodes) @ [a, b] \<and>
      dc_type b = 2 \<and> dc_payload b = 51 \<and> dc_ts b = arrival_time 160005 160000 (ch_delay demo_channel) \<and>
      dc_ts b < arrival_time 200000 160000 (ch_delay demo_channel))"
    by (rule queued_packet_leaves_early [OF ready_run, where L = 2160000 and bps = 5000000])
      (simp_all add: ready_nodes_def packet_ready_def, simp_all add: demo_packet_def demo_interval)
  then show ?thesis by auto
qed

end
