(* ===== verification/Drop_Tail.thy ===== *)
theory Drop_Tail
  imports Queue_Spec
begin

text \<open>
  The queues of ns-3: \<^verbatim>\<open>QueueSize\<close> (\<^verbatim>\<open>network/utils/queue-size.cc\<close>), \<^verbatim>\<open>QueueBase\<close> and \<^verbatim>\<open>Queue\<close>
  (\<^verbatim>\<open>queue.cc\<close>, \<^verbatim>\<open>queue.h\<close>) and \<^verbatim>\<open>DropTailQueue\<close> (\<^verbatim>\<open>drop-tail-queue.h\<close>).  An item is anything with a size
  (\<open>isize\<close>, the \<^verbatim>\<open>GetSize\<close> of a packet or queue item).  Counters are 32 bits wide and wrap around.
\<close>

section \<open>Sizes\<close>

datatype QueueSizeUnit = PACKETS | BYTES

record QueueSize =
  qs_unit :: QueueSizeUnit
  qs_value :: u32

text \<open>The comparisons abort on different units: \<open>None\<close>.\<close>

definition compare_sizes :: "(u32 \<Rightarrow> u32 \<Rightarrow> bool) \<Rightarrow> QueueSize \<Rightarrow> QueueSize \<Rightarrow> bool option" where
  "compare_sizes cmp a b = (if qs_unit a \<noteq> qs_unit b then None else Some (cmp (qs_value a) (qs_value b)))"

definition size_less :: "QueueSize \<Rightarrow> QueueSize \<Rightarrow> bool option" where
  "size_less = compare_sizes (<)"

definition size_less_eq :: "QueueSize \<Rightarrow> QueueSize \<Rightarrow> bool option" where
  "size_less_eq = compare_sizes (\<le>)"

definition size_greater :: "QueueSize \<Rightarrow> QueueSize \<Rightarrow> bool option" where
  "size_greater = compare_sizes (>)"

definition size_greater_eq :: "QueueSize \<Rightarrow> QueueSize \<Rightarrow> bool option" where
  "size_greater_eq = compare_sizes (\<ge>)"

definition size_equal :: "QueueSize \<Rightarrow> QueueSize \<Rightarrow> bool option" where
  "size_equal = compare_sizes (=)"

definition size_not_equal :: "QueueSize \<Rightarrow> QueueSize \<Rightarrow> bool option" where
  "size_not_equal = compare_sizes (\<noteq>)"

text \<open>\<^verbatim>\<open>operator+ (const QueueSize&, const Ptr<Item>&)\<close>\<close>

definition size_plus :: "QueueSize \<Rightarrow> u32 \<Rightarrow> QueueSize" where
  "size_plus lhs n = (case qs_unit lhs of
     PACKETS \<Rightarrow> \<lparr>qs_unit = PACKETS, qs_value = qs_value lhs + 1\<rparr>
   | BYTES \<Rightarrow> \<lparr>qs_unit = BYTES, qs_value = qs_value lhs + n\<rparr>)"

section \<open>Queue\<close>

record 'i Queue =
  m_packets :: "'i list"
  m_nBytes :: u32
  m_nTotalReceivedBytes :: u32
  m_nPackets :: u32
  m_nTotalReceivedPackets :: u32
  m_nTotalDroppedBytes :: u32
  m_nTotalDroppedBytesBeforeEnqueue :: u32
  m_nTotalDroppedBytesAfterDequeue :: u32
  m_nTotalDroppedPackets :: u32
  m_nTotalDroppedPacketsBeforeEnqueue :: u32
  m_nTotalDroppedPacketsAfterDequeue :: u32
  m_maxSize :: QueueSize

definition Queue_new :: "'i Queue" where
  "Queue_new = \<lparr>m_packets = [], m_nBytes = 0, m_nTotalReceivedBytes = 0, m_nPackets = 0, m_nTotalReceivedPackets = 0,
     m_nTotalDroppedBytes = 0, m_nTotalDroppedBytesBeforeEnqueue = 0, m_nTotalDroppedBytesAfterDequeue = 0,
     m_nTotalDroppedPackets = 0, m_nTotalDroppedPacketsBeforeEnqueue = 0, m_nTotalDroppedPacketsAfterDequeue = 0,
     m_maxSize = \<lparr>qs_unit = PACKETS, qs_value = 0xFFFFFFFF\<rparr>\<rparr>"

definition IsEmpty :: "'i Queue \<Rightarrow> bool" where
  "IsEmpty q \<longleftrightarrow> m_nPackets q = 0"

definition GetCurrentSize :: "'i Queue \<Rightarrow> QueueSize" where
  "GetCurrentSize q = (case qs_unit (m_maxSize q) of
     PACKETS \<Rightarrow> \<lparr>qs_unit = PACKETS, qs_value = m_nPackets q\<rparr>
   | BYTES \<Rightarrow> \<lparr>qs_unit = BYTES, qs_value = m_nBytes q\<rparr>)"

definition ResetStatistics :: "'i Queue \<Rightarrow> 'i Queue" where
  "ResetStatistics q = q\<lparr>m_nTotalReceivedBytes := 0, m_nTotalReceivedPackets := 0, m_nTotalDroppedBytes := 0,
     m_nTotalDroppedBytesBeforeEnqueue := 0, m_nTotalDroppedBytesAfterDequeue := 0, m_nTotalDroppedPackets := 0,
     m_nTotalDroppedPacketsBeforeEnqueue := 0, m_nTotalDroppedPacketsAfterDequeue := 0\<rparr>"

text \<open>\<open>None\<close>: the new size is below the current one, and the code aborts.\<close>

definition SetMaxSize :: "QueueSize \<Rightarrow> 'i Queue \<Rightarrow> 'i Queue option" where
  "SetMaxSize n q =
     (if qs_value n = 0 then Some q
      else let q = q\<lparr>m_maxSize := n\<rparr> in if size_less n (GetCurrentSize q) = Some False then Some q else None)"

definition WouldOverflow :: "u32 \<Rightarrow> u32 \<Rightarrow> 'i Queue \<Rightarrow> bool" where
  "WouldOverflow nPackets nBytes q = (case qs_unit (m_maxSize q) of
     PACKETS \<Rightarrow> m_nPackets q + nPackets > qs_value (m_maxSize q)
   | BYTES \<Rightarrow> m_nBytes q + nBytes > qs_value (m_maxSize q))"

definition DropBeforeEnqueue :: "('i \<Rightarrow> u32) \<Rightarrow> 'i \<Rightarrow> 'i Queue \<Rightarrow> 'i Queue" where
  "DropBeforeEnqueue isize item q = q\<lparr>
     m_nTotalDroppedPackets := m_nTotalDroppedPackets q + 1,
     m_nTotalDroppedPacketsBeforeEnqueue := m_nTotalDroppedPacketsBeforeEnqueue q + 1,
     m_nTotalDroppedBytes := m_nTotalDroppedBytes q + isize item,
     m_nTotalDroppedBytesBeforeEnqueue := m_nTotalDroppedBytesBeforeEnqueue q + isize item\<rparr>"

definition DropAfterDequeue :: "('i \<Rightarrow> u32) \<Rightarrow> 'i \<Rightarrow> 'i Queue \<Rightarrow> 'i Queue" where
  "DropAfterDequeue isize item q = q\<lparr>
     m_nTotalDroppedPackets := m_nTotalDroppedPackets q + 1,
     m_nTotalDroppedPacketsAfterDequeue := m_nTotalDroppedPacketsAfterDequeue q + 1,
     m_nTotalDroppedBytes := m_nTotalDroppedBytes q + isize item,
     m_nTotalDroppedBytesAfterDequeue := m_nTotalDroppedBytesAfterDequeue q + isize item\<rparr>"

text \<open>\<open>pos\<close> is the number of items in front of the iterator.\<close>

definition DoEnqueue :: "('i \<Rightarrow> u32) \<Rightarrow> nat \<Rightarrow> 'i \<Rightarrow> 'i Queue \<Rightarrow> bool \<times> 'i Queue" where
  "DoEnqueue isize pos item q =
     (if size_greater (size_plus (GetCurrentSize q) (isize item)) (m_maxSize q) = Some True
      then (False, DropBeforeEnqueue isize item q)
      else
        let ret = take pos (m_packets q) @ item # drop pos (m_packets q); n = isize item
        in (True, q\<lparr>m_packets := ret, m_nBytes := m_nBytes q + n,
             m_nTotalReceivedBytes := m_nTotalReceivedBytes q + n, m_nPackets := m_nPackets q + 1,
             m_nTotalReceivedPackets := m_nTotalReceivedPackets q + 1\<rparr>))"

definition erase :: "('i \<Rightarrow> u32) \<Rightarrow> nat \<Rightarrow> 'i Queue \<Rightarrow> 'i Queue" where
  "erase isize pos q = q\<lparr>m_packets := take pos (m_packets q) @ drop (Suc pos) (m_packets q),
     m_nBytes := m_nBytes q - isize (m_packets q ! pos), m_nPackets := m_nPackets q - 1\<rparr>"

text \<open>The iterator points at an item, as long as \<^verbatim>\<open>m_nPackets\<close> counts the items (lemma \<open>Dequeue_defined\<close>).\<close>

definition DoDequeue :: "('i \<Rightarrow> u32) \<Rightarrow> nat \<Rightarrow> 'i Queue \<Rightarrow> 'i option \<times> 'i Queue" where
  "DoDequeue isize pos q = (if m_nPackets q = 0 then (None, q) else (Some (m_packets q ! pos), erase isize pos q))"

definition DoRemove :: "('i \<Rightarrow> u32) \<Rightarrow> nat \<Rightarrow> 'i Queue \<Rightarrow> 'i option \<times> 'i Queue" where
  "DoRemove isize pos q =
     (if m_nPackets q = 0 then (None, q)
      else (Some (m_packets q ! pos), DropAfterDequeue isize (m_packets q ! pos) (erase isize pos q)))"

definition DoPeek :: "nat \<Rightarrow> 'i Queue \<Rightarrow> 'i option" where
  "DoPeek pos q = (if m_nPackets q = 0 then None else Some (m_packets q ! pos))"

section \<open>Drop tail\<close>

definition Enqueue :: "('i \<Rightarrow> u32) \<Rightarrow> 'i \<Rightarrow> 'i Queue \<Rightarrow> bool \<times> 'i Queue" where
  "Enqueue isize item q = DoEnqueue isize (length (m_packets q)) item q"

definition Dequeue :: "('i \<Rightarrow> u32) \<Rightarrow> 'i Queue \<Rightarrow> 'i option \<times> 'i Queue" where
  "Dequeue isize q = DoDequeue isize 0 q"

definition Queue_Remove :: "('i \<Rightarrow> u32) \<Rightarrow> 'i Queue \<Rightarrow> 'i option \<times> 'i Queue" where
  "Queue_Remove isize q = DoRemove isize 0 q"

definition Peek :: "'i Queue \<Rightarrow> 'i option" where
  "Peek q = DoPeek 0 q"

text \<open>The loop of \<^verbatim>\<open>Flush\<close> runs once for each packet \<^verbatim>\<open>m_nPackets\<close> counts.\<close>

fun flush_loop :: "nat \<Rightarrow> ('i \<Rightarrow> u32) \<Rightarrow> 'i Queue \<Rightarrow> 'i Queue" where
  "flush_loop 0 isize q = q"
| "flush_loop (Suc n) isize q = (if IsEmpty q then q else flush_loop n isize (snd (Queue_Remove isize q)))"

definition Flush :: "('i \<Rightarrow> u32) \<Rightarrow> 'i Queue \<Rightarrow> 'i Queue" where
  "Flush isize q = flush_loop (unat (m_nPackets q)) isize q"

section \<open>Accounting\<close>

text \<open>
  \<^verbatim>\<open>DropTailQueue\<close> keeps its counters true to its contents and is a bounded queue; what goes in, comes out and is
  dropped over any sequence of operations.
\<close>

section \<open>Invariant\<close>

definition total :: "('i \<Rightarrow> u32) \<Rightarrow> 'i list \<Rightarrow> nat" where
  "total isize xs = sum_list (map (\<lambda>x. unat (isize x)) xs)"

lemma total_simps [simp]:
  "total isize [] = 0" "total isize (x # xs) = unat (isize x) + total isize xs"
  "total isize (xs @ ys) = total isize xs + total isize ys"
  by (simp_all add: total_def)

text \<open>Limits and items for which the sum compared with the limit does not wrap around.\<close>

definition good_item :: "('i \<Rightarrow> u32) \<Rightarrow> QueueSize \<Rightarrow> 'i \<Rightarrow> bool" where
  "good_item isize L x \<longleftrightarrow> (case qs_unit L of
     PACKETS \<Rightarrow> qs_value L \<noteq> 0xFFFFFFFF
   | BYTES \<Rightarrow> 0 < isize x \<and> unat (qs_value L) + unat (isize x) < 2 ^ 32)"

definition used :: "('i \<Rightarrow> u32) \<Rightarrow> QueueSize \<Rightarrow> 'i list \<Rightarrow> nat" where
  "used isize L xs = (case qs_unit L of PACKETS \<Rightarrow> length xs | BYTES \<Rightarrow> total isize xs)"

definition dt_inv :: "('i \<Rightarrow> u32) \<Rightarrow> QueueSize \<Rightarrow> 'i Queue \<Rightarrow> bool" where
  "dt_inv isize L q \<longleftrightarrow> m_maxSize q = L \<and> m_nPackets q = of_nat (length (m_packets q)) \<and>
     length (m_packets q) < 2 ^ 32 \<and> m_nBytes q = of_nat (total isize (m_packets q)) \<and>
     used isize L (m_packets q) \<le> unat (qs_value L) \<and> (qs_unit L = BYTES \<longrightarrow> (\<forall>x\<in>set (m_packets q). 0 < isize x))"

lemma dt_inv_new: "dt_inv isize L (Queue_new\<lparr>m_maxSize := L\<rparr>)"
  by (simp add: dt_inv_def Queue_new_def used_def split: QueueSizeUnit.splits)

lemma nPackets_zero:
  assumes "dt_inv isize L q"
  shows "m_nPackets q = 0 \<longleftrightarrow> m_packets q = []"
proof -
  have "unat (m_nPackets q) = length (m_packets q)" using assms by (simp add: dt_inv_def unat_of_nat_u32)
  then show ?thesis by (metis length_0_conv unat_eq_zero)
qed

text \<open>The iterator of \<^verbatim>\<open>Dequeue\<close>, \<^verbatim>\<open>Remove\<close> and \<^verbatim>\<open>Peek\<close> is dereferenced only when there is an item.\<close>

lemma Dequeue_defined: "dt_inv isize L q \<Longrightarrow> m_nPackets q \<noteq> 0 \<Longrightarrow> 0 < length (m_packets q)"
  by (simp add: nPackets_zero)

lemma full_iff:
  assumes inv: "dt_inv isize L q" and g: "good_item isize L x"
  shows "size_greater (size_plus (GetCurrentSize q) (isize x)) (m_maxSize q) = Some True \<longleftrightarrow>
    unat (qs_value L) < used isize L (m_packets q @ [x])"
proof (cases "qs_unit L")
  case PACKETS
  let ?n = "length (m_packets q)"
  have n: "?n \<le> unat (qs_value L)" using inv PACKETS by (simp add: dt_inv_def used_def)
  have "unat (qs_value L) \<noteq> unat (0xFFFFFFFF :: u32)" using g PACKETS by (simp add: good_item_def word_unat_eq_iff)
  moreover have "unat (qs_value L) < 2 ^ 32" using unsigned_less [of "qs_value L", where 'a = nat] by simp
  ultimately have "Suc (unat (qs_value L)) < 2 ^ 32" by simp
  then have "Suc ?n < 2 ^ 32" using n by simp
  then have u: "unat (of_nat (Suc ?n) :: u32) = Suc ?n" by (intro unat_of_nat_u32) simp
  have "size_greater (size_plus (GetCurrentSize q) (isize x)) (m_maxSize q) = Some (qs_value L < of_nat (Suc ?n))"
    using inv PACKETS by (simp add: dt_inv_def GetCurrentSize_def size_plus_def size_greater_def compare_sizes_def add.commute)
  then show ?thesis using PACKETS u by (simp add: used_def word_less_nat_alt del: of_nat_Suc)
next
  case BYTES
  let ?n = "total isize (m_packets q)"
  have "?n + unat (isize x) < 2 ^ 32" using inv g BYTES by (simp add: dt_inv_def used_def good_item_def)
  then have u: "unat (of_nat (?n + unat (isize x)) :: u32) = ?n + unat (isize x)" by (intro unat_of_nat_u32) simp
  have "size_greater (size_plus (GetCurrentSize q) (isize x)) (m_maxSize q) =
      Some (qs_value L < of_nat (?n + unat (isize x)))"
    using inv BYTES by (simp add: dt_inv_def GetCurrentSize_def size_plus_def size_greater_def compare_sizes_def)
  then show ?thesis using BYTES u by (simp add: used_def word_less_nat_alt del: of_nat_add)
qed

section \<open>Operations\<close>

lemma Enqueue_spec:
  assumes inv: "dt_inv isize L q" and g: "good_item isize L x"
  shows "fst (Enqueue isize x q) \<longleftrightarrow> used isize L (m_packets q @ [x]) \<le> unat (qs_value L)"
    and "m_packets (snd (Enqueue isize x q)) = (if fst (Enqueue isize x q) then m_packets q @ [x] else m_packets q)"
    and "dt_inv isize L (snd (Enqueue isize x q))"
proof -
  show f: "fst (Enqueue isize x q) \<longleftrightarrow> used isize L (m_packets q @ [x]) \<le> unat (qs_value L)"
    using full_iff [OF assms] by (auto simp: Enqueue_def DoEnqueue_def Let_def)
  show p: "m_packets (snd (Enqueue isize x q)) = (if fst (Enqueue isize x q) then m_packets q @ [x] else m_packets q)"
    by (simp add: Enqueue_def DoEnqueue_def DropBeforeEnqueue_def Let_def)
  show "dt_inv isize L (snd (Enqueue isize x q))"
  proof (cases "fst (Enqueue isize x q)")
    case True
    have l: "length (m_packets q @ [x]) < 2 ^ 32"
    proof (cases "qs_unit L")
      case PACKETS
      then have "length (m_packets q @ [x]) \<le> unat (qs_value L)" using True f by (simp add: used_def)
      then show ?thesis using unsigned_less [of "qs_value L", where 'a = nat] by simp
    next
      case BYTES
      then have "total isize (m_packets q @ [x]) \<le> unat (qs_value L)" "\<forall>y\<in>set (m_packets q @ [x]). 0 < isize y"
        using True f inv g by (auto simp: used_def dt_inv_def good_item_def)
      moreover have "length ys \<le> total isize ys" if "\<forall>y\<in>set ys. 0 < isize y" for ys
        using that by (induction ys) (auto simp: word_less_nat_alt)
      ultimately show ?thesis using unsigned_less [of "qs_value L", where 'a = nat] by fastforce
    qed
    then show ?thesis using True f p inv g
      by (auto simp: dt_inv_def good_item_def Enqueue_def DoEnqueue_def DropBeforeEnqueue_def Let_def split: QueueSizeUnit.splits)
  next
    case False
    then show ?thesis using inv
      by (auto simp: dt_inv_def Enqueue_def DoEnqueue_def DropBeforeEnqueue_def Let_def split: if_splits)
  qed
qed

lemma erase_head:
  assumes "dt_inv isize L q" and "m_packets q = x # xs"
  shows "dt_inv isize L (erase isize 0 q)" and "m_packets (erase isize 0 q) = xs"
  using assms by (auto simp: dt_inv_def erase_def used_def split: QueueSizeUnit.splits)

lemma Dequeue_spec:
  assumes inv: "dt_inv isize L q"
  shows "fst (Dequeue isize q) = (case m_packets q of [] \<Rightarrow> None | x # xs \<Rightarrow> Some x)"
    and "m_packets (snd (Dequeue isize q)) = tl (m_packets q)" and "dt_inv isize L (snd (Dequeue isize q))"
  using nPackets_zero [OF inv] erase_head [OF inv] inv
  by (cases "m_packets q"; simp add: Dequeue_def DoDequeue_def)+

lemma DropAfterDequeue_inv [simp]:
  "dt_inv isize L (DropAfterDequeue isize x q) = dt_inv isize L q" "m_packets (DropAfterDequeue isize x q) = m_packets q"
  by (simp_all add: dt_inv_def DropAfterDequeue_def)

lemma Remove_spec:
  assumes inv: "dt_inv isize L q"
  shows "fst (Queue_Remove isize q) = (case m_packets q of [] \<Rightarrow> None | x # xs \<Rightarrow> Some x)"
    and "m_packets (snd (Queue_Remove isize q)) = tl (m_packets q)" and "dt_inv isize L (snd (Queue_Remove isize q))"
  using nPackets_zero [OF inv] erase_head [OF inv] inv
  by (cases "m_packets q"; simp add: Queue_Remove_def DoRemove_def)+

lemma Peek_spec: "dt_inv isize L q \<Longrightarrow> Peek q = fst (Dequeue isize q)"
  by (simp add: Peek_def DoPeek_def Dequeue_def DoDequeue_def)

lemma Flush_empty:
  assumes "dt_inv isize L q"
  shows "m_packets (Flush isize q) = [] \<and> dt_inv isize L (Flush isize q)"
proof -
  have "dt_inv isize L p \<Longrightarrow> n = length (m_packets p) \<Longrightarrow>
      m_packets (flush_loop n isize p) = [] \<and> dt_inv isize L (flush_loop n isize p)" for n p
  proof (induction n arbitrary: p)
    case 0
    then show ?case by simp
  next
    case (Suc n)
    then have "\<not> IsEmpty p" using nPackets_zero by (fastforce simp: IsEmpty_def)
    then show ?case using Suc.IH [of "snd (Queue_Remove isize p)"] Remove_spec [OF Suc.prems(1)] Suc.prems(2) [symmetric] by simp
  qed
  moreover have "unat (m_nPackets q) = length (m_packets q)" using assms by (simp add: dt_inv_def unat_of_nat_u32)
  ultimately show ?thesis using assms by (simp add: Flush_def)
qed

text \<open>With a limit in packets the queue is bounded by it.\<close>

interpretation drop_tail: bounded_queue "Enqueue isize" "Dequeue isize" m_packets
    "dt_inv isize \<lparr>qs_unit = PACKETS, qs_value = N\<rparr>" "unat N" "\<lambda>_. N \<noteq> 0xFFFFFFFF"
  for isize N
proof (unfold_locales, goal_cases)
  case (1 q x)
  then have "good_item isize \<lparr>qs_unit = PACKETS, qs_value = N\<rparr> x" by (simp add: good_item_def)
  from Enqueue_spec [OF 1(1) this] 1 show ?case by (simp add: used_def)
next
  case (2 q x)
  then have "good_item isize \<lparr>qs_unit = PACKETS, qs_value = N\<rparr> x" by (simp add: good_item_def)
  from Enqueue_spec [OF 2(1) this] 2 show ?case by (simp add: used_def)
qed (use Dequeue_spec in \<open>fastforce\<close>)+

section \<open>History\<close>

text \<open>
  The items accepted, taken out (by \<^verbatim>\<open>Dequeue\<close> or \<^verbatim>\<open>Remove\<close>), refused and removed, each in order.
\<close>

inductive queue_history ::
  "('i \<Rightarrow> u32) \<Rightarrow> QueueSize \<Rightarrow> 'i list \<Rightarrow> 'i list \<Rightarrow> 'i list \<Rightarrow> 'i list \<Rightarrow> 'i Queue \<Rightarrow> bool"
  for isize L
where
  start: "queue_history isize L [] [] [] [] (Queue_new\<lparr>m_maxSize := L\<rparr>)"
| enqueue: "queue_history isize L ins outs refused removed q \<Longrightarrow> good_item isize L x \<Longrightarrow> Enqueue isize x q = (b, q') \<Longrightarrow>
     queue_history isize L (if b then ins @ [x] else ins) outs (if b then refused else refused @ [x]) removed q'"
| dequeue: "queue_history isize L ins outs refused removed q \<Longrightarrow> Dequeue isize q = (r, q') \<Longrightarrow>
     queue_history isize L ins (outs @ (case r of None \<Rightarrow> [] | Some x \<Rightarrow> [x])) refused removed q'"
| remove: "queue_history isize L ins outs refused removed q \<Longrightarrow> Queue_Remove isize q = (r, q') \<Longrightarrow>
     queue_history isize L ins (outs @ (case r of None \<Rightarrow> [] | Some x \<Rightarrow> [x])) refused
       (removed @ (case r of None \<Rightarrow> [] | Some x \<Rightarrow> [x])) q'"

definition counts :: "('i \<Rightarrow> u32) \<Rightarrow> 'i list \<Rightarrow> 'i list \<Rightarrow> 'i list \<Rightarrow> 'i Queue \<Rightarrow> bool" where
  "counts isize ins refused removed q \<longleftrightarrow>
     m_nTotalReceivedPackets q = of_nat (length ins) \<and> m_nTotalReceivedBytes q = of_nat (total isize ins) \<and>
     m_nTotalDroppedPacketsBeforeEnqueue q = of_nat (length refused) \<and>
     m_nTotalDroppedBytesBeforeEnqueue q = of_nat (total isize refused) \<and>
     m_nTotalDroppedPacketsAfterDequeue q = of_nat (length removed) \<and>
     m_nTotalDroppedBytesAfterDequeue q = of_nat (total isize removed) \<and>
     m_nTotalDroppedPackets q = of_nat (length refused + length removed) \<and>
     m_nTotalDroppedBytes q = of_nat (total isize refused + total isize removed)"

lemma history_inv:
  assumes "queue_history isize L ins outs refused removed q"
  shows "dt_inv isize L q \<and> ins = outs @ m_packets q \<and> counts isize ins refused removed q"
  using assms
proof (induction rule: queue_history.induct)
  case start
  show ?case by (simp add: dt_inv_new) (simp add: counts_def Queue_new_def)
next
  case (enqueue ins outs refused removed q x b q')
  then have inv: "dt_inv isize L q" by simp
  have "counts isize (if b then ins @ [x] else ins) (if b then refused else refused @ [x]) removed q'"
    using enqueue by (auto simp: counts_def Enqueue_def DoEnqueue_def DropBeforeEnqueue_def Let_def split: if_splits)
  then show ?case using Enqueue_spec [OF inv enqueue.hyps(2)] enqueue by simp
next
  case (dequeue ins outs refused removed q r q')
  then have inv: "dt_inv isize L q" by simp
  have "counts isize ins refused removed q'"
    using dequeue by (auto simp: counts_def Dequeue_def DoDequeue_def erase_def split: if_splits)
  then show ?case using Dequeue_spec [OF inv] dequeue by (cases "m_packets q") simp_all
next
  case (remove ins outs refused removed q r q')
  then have inv: "dt_inv isize L q" by simp
  have "counts isize ins refused (removed @ (case r of None \<Rightarrow> [] | Some x \<Rightarrow> [x])) q'"
    using remove by (auto simp: counts_def Queue_Remove_def DoRemove_def erase_def DropAfterDequeue_def split: if_splits)
  then show ?case using Remove_spec [OF inv] remove by (cases "m_packets q") simp_all
qed

end
