(* ===== verification/Crc32.thy ===== *)
theory Crc32
  imports Header_Codec
begin

text \<open>
  The frame check sequence of Ethernet: \<^verbatim>\<open>CRC32Calculate\<close> (\<^verbatim>\<open>network/utils/crc32.cc\<close>), \<^verbatim>\<open>EthernetTrailer\<close>
  (\<^verbatim>\<open>ethernet-trailer.cc\<close>) and the trailers of \<^verbatim>\<open>Packet\<close> (\<^verbatim>\<open>network/model/packet.cc\<close>).  A frame with
  its check sequence behind it leaves a fixed remainder in the register, and changing up to four consecutive bytes
  changes the register: every such change is found.
\<close>

section \<open>The code\<close>

definition crc32table :: "u32 list" where
  "crc32table = [
     0x00000000, 0x77073096, 0xEE0E612C, 0x990951BA, 0x076DC419, 0x706AF48F, 0xE963A535, 0x9E6495A3,
     0x0EDB8832, 0x79DCB8A4, 0xE0D5E91E, 0x97D2D988, 0x09B64C2B, 0x7EB17CBD, 0xE7B82D07, 0x90BF1D91,
     0x1DB71064, 0x6AB020F2, 0xF3B97148, 0x84BE41DE, 0x1ADAD47D, 0x6DDDE4EB, 0xF4D4B551, 0x83D385C7,
     0x136C9856, 0x646BA8C0, 0xFD62F97A, 0x8A65C9EC, 0x14015C4F, 0x63066CD9, 0xFA0F3D63, 0x8D080DF5,
     0x3B6E20C8, 0x4C69105E, 0xD56041E4, 0xA2677172, 0x3C03E4D1, 0x4B04D447, 0xD20D85FD, 0xA50AB56B,
     0x35B5A8FA, 0x42B2986C, 0xDBBBC9D6, 0xACBCF940, 0x32D86CE3, 0x45DF5C75, 0xDCD60DCF, 0xABD13D59,
     0x26D930AC, 0x51DE003A, 0xC8D75180, 0xBFD06116, 0x21B4F4B5, 0x56B3C423, 0xCFBA9599, 0xB8BDA50F,
     0x2802B89E, 0x5F058808, 0xC60CD9B2, 0xB10BE924, 0x2F6F7C87, 0x58684C11, 0xC1611DAB, 0xB6662D3D,
     0x76DC4190, 0x01DB7106, 0x98D220BC, 0xEFD5102A, 0x71B18589, 0x06B6B51F, 0x9FBFE4A5, 0xE8B8D433,
     0x7807C9A2, 0x0F00F934, 0x9609A88E, 0xE10E9818, 0x7F6A0DBB, 0x086D3D2D, 0x91646C97, 0xE6635C01,
     0x6B6B51F4, 0x1C6C6162, 0x856530D8, 0xF262004E, 0x6C0695ED, 0x1B01A57B, 0x8208F4C1, 0xF50FC457,
     0x65B0D9C6, 0x12B7E950, 0x8BBEB8EA, 0xFCB9887C, 0x62DD1DDF, 0x15DA2D49, 0x8CD37CF3, 0xFBD44C65,
     0x4DB26158, 0x3AB551CE, 0xA3BC0074, 0xD4BB30E2, 0x4ADFA541, 0x3DD895D7, 0xA4D1C46D, 0xD3D6F4FB,
     0x4369E96A, 0x346ED9FC, 0xAD678846, 0xDA60B8D0, 0x44042D73, 0x33031DE5, 0xAA0A4C5F, 0xDD0D7CC9,
     0x5005713C, 0x270241AA, 0xBE0B1010, 0xC90C2086, 0x5768B525, 0x206F85B3, 0xB966D409, 0xCE61E49F,
     0x5EDEF90E, 0x29D9C998, 0xB0D09822, 0xC7D7A8B4, 0x59B33D17, 0x2EB40D81, 0xB7BD5C3B, 0xC0BA6CAD,
     0xEDB88320, 0x9ABFB3B6, 0x03B6E20C, 0x74B1D29A, 0xEAD54739, 0x9DD277AF, 0x04DB2615, 0x73DC1683,
     0xE3630B12, 0x94643B84, 0x0D6D6A3E, 0x7A6A5AA8, 0xE40ECF0B, 0x9309FF9D, 0x0A00AE27, 0x7D079EB1,
     0xF00F9344, 0x8708A3D2, 0x1E01F268, 0x6906C2FE, 0xF762575D, 0x806567CB, 0x196C3671, 0x6E6B06E7,
     0xFED41B76, 0x89D32BE0, 0x10DA7A5A, 0x67DD4ACC, 0xF9B9DF6F, 0x8EBEEFF9, 0x17B7BE43, 0x60B08ED5,
     0xD6D6A3E8, 0xA1D1937E, 0x38D8C2C4, 0x4FDFF252, 0xD1BB67F1, 0xA6BC5767, 0x3FB506DD, 0x48B2364B,
     0xD80D2BDA, 0xAF0A1B4C, 0x36034AF6, 0x41047A60, 0xDF60EFC3, 0xA867DF55, 0x316E8EEF, 0x4669BE79,
     0xCB61B38C, 0xBC66831A, 0x256FD2A0, 0x5268E236, 0xCC0C7795, 0xBB0B4703, 0x220216B9, 0x5505262F,
     0xC5BA3BBE, 0xB2BD0B28, 0x2BB45A92, 0x5CB36A04, 0xC2D7FFA7, 0xB5D0CF31, 0x2CD99E8B, 0x5BDEAE1D,
     0x9B64C2B0, 0xEC63F226, 0x756AA39C, 0x026D930A, 0x9C0906A9, 0xEB0E363F, 0x72076785, 0x05005713,
     0x95BF4A82, 0xE2B87A14, 0x7BB12BAE, 0x0CB61B38, 0x92D28E9B, 0xE5D5BE0D, 0x7CDCEFB7, 0x0BDBDF21,
     0x86D3D2D4, 0xF1D4E242, 0x68DDB3F8, 0x1FDA836E, 0x81BE16CD, 0xF6B9265B, 0x6FB077E1, 0x18B74777,
     0x88085AE6, 0xFF0F6A70, 0x66063BCA, 0x11010B5C, 0x8F659EFF, 0xF862AE69, 0x616BFFD3, 0x166CCF45,
     0xA00AE278, 0xD70DD2EE, 0x4E048354, 0x3903B3C2, 0xA7672661, 0xD06016F7, 0x4969474D, 0x3E6E77DB,
     0xAED16A4A, 0xD9D65ADC, 0x40DF0B66, 0x37D83BF0, 0xA9BCAE53, 0xDEBB9EC5, 0x47B2CF7F, 0x30B5FFE9,
     0xBDBDF21C, 0xCABAC28A, 0x53B39330, 0x24B4A3A6, 0xBAD03605, 0xCDD70693, 0x54DE5729, 0x23D967BF,
     0xB3667A2E, 0xC4614AB8, 0x5D681B02, 0x2A6F2B94, 0xB40BBE37, 0xC30C8EA1, 0x5A05DF1B, 0x2D02EF8D]"

definition crc_step :: "u32 \<Rightarrow> u8 \<Rightarrow> u32" where
  "crc_step crc data = drop_bit 8 crc XOR crc32table ! unat ((crc AND 0xFF) XOR ucast data)"

definition CRC32Calculate :: "u8 list \<Rightarrow> u32" where
  "CRC32Calculate data = NOT (foldl crc_step 0xFFFFFFFF data)"

section \<open>One step\<close>

lemma table_tops: "map (\<lambda>w. uint (drop_bit 24 w)) crc32table = [
     0, 119, 238, 153, 7, 112, 233, 158, 14, 121, 224, 151, 9, 126, 231, 144,
     29, 106, 243, 132, 26, 109, 244, 131, 19, 100, 253, 138, 20, 99, 250, 141,
     59, 76, 213, 162, 60, 75, 210, 165, 53, 66, 219, 172, 50, 69, 220, 171,
     38, 81, 200, 191, 33, 86, 207, 184, 40, 95, 198, 177, 47, 88, 193, 182,
     118, 1, 152, 239, 113, 6, 159, 232, 120, 15, 150, 225, 127, 8, 145, 230,
     107, 28, 133, 242, 108, 27, 130, 245, 101, 18, 139, 252, 98, 21, 140, 251,
     77, 58, 163, 212, 74, 61, 164, 211, 67, 52, 173, 218, 68, 51, 170, 221,
     80, 39, 190, 201, 87, 32, 185, 206, 94, 41, 176, 199, 89, 46, 183, 192,
     237, 154, 3, 116, 234, 157, 4, 115, 227, 148, 13, 122, 228, 147, 10, 125,
     240, 135, 30, 105, 247, 128, 25, 110, 254, 137, 16, 103, 249, 142, 23, 96,
     214, 161, 56, 79, 209, 166, 63, 72, 216, 175, 54, 65, 223, 168, 49, 70,
     203, 188, 37, 82, 204, 187, 34, 85, 197, 178, 43, 92, 194, 181, 44, 91,
     155, 236, 117, 2, 156, 235, 114, 5, 149, 226, 123, 12, 146, 229, 124, 11,
     134, 241, 104, 31, 129, 246, 111, 24, 136, 255, 102, 17, 143, 248, 97, 22,
     160, 215, 78, 57, 167, 208, 73, 62, 174, 217, 64, 55, 169, 222, 71, 48,
     189, 202, 83, 36, 186, 205, 84, 35, 179, 196, 93, 42, 180, 195, 90, 45]"
  by (simp add: crc32table_def)

lemma table_distinct: "distinct (map (\<lambda>w. uint (drop_bit 24 w)) crc32table)"
  unfolding table_tops by simp

lemma table_length [simp]: "length crc32table = 256"
  using arg_cong [OF table_tops, of length] by simp

text \<open>The top byte of an entry tells its index.\<close>

lemma table_index:
  assumes "drop_bit 24 (crc32table ! i) = drop_bit 24 (crc32table ! j)" and "i < 256" and "j < 256"
  shows "i = j"
proof -
  have "map (\<lambda>w. uint (drop_bit 24 w)) crc32table ! i = map (\<lambda>w. uint (drop_bit 24 w)) crc32table ! j"
    using assms by simp
  then show ?thesis using nth_eq_iff_index_eq [OF table_distinct, of i j] assms(2,3) by simp
qed

abbreviation index_of :: "u32 \<Rightarrow> u8 \<Rightarrow> u32" where
  "index_of crc b \<equiv> (crc AND 0xFF) XOR ucast b"

lemma index_eq: "index_of crc b = ucast (ucast crc XOR b :: u8)"
  by (rule bit_word_eqI) (auto simp: bit_simps bit_numeral_rec numeral_eq_Suc less_Suc_eq)

lemma index_small: "unat (index_of crc b) < 256"
proof -
  have "unat (ucast crc XOR b :: u8) < 2 ^ 8" using unsigned_less [of "ucast crc XOR b :: u8", where 'a = nat] by simp
  then show ?thesis unfolding index_eq by (simp add: unsigned_ucast_eq take_bit_nat_eq_self)
qed

lemma step_top: "drop_bit 24 (crc_step crc b) = drop_bit 24 (crc32table ! unat (index_of crc b))"
proof -
  have "drop_bit 24 (drop_bit 8 crc) = 0" by (rule bit_word_eqI) (simp add: bit_simps)
  then show ?thesis by (simp add: crc_step_def drop_bit_xor)
qed

text \<open>Registers that agree from bit \<open>8 j\<close> on.\<close>

definition agree :: "nat \<Rightarrow> u32 \<Rightarrow> u32 \<Rightarrow> bool" where
  "agree j c d \<longleftrightarrow> drop_bit (8 * j) c = drop_bit (8 * j) d"

lemma agree_top:
  assumes "agree j c d" and "j \<le> 3"
  shows "drop_bit 24 c = drop_bit 24 d"
proof -
  have e: "24 - 8 * j + 8 * j = 24" using assms(2) by simp
  have "drop_bit 24 w = drop_bit (24 - 8 * j) (drop_bit (8 * j) w)" for w :: u32
    by (simp only: drop_bit_drop_bit e)
  then show ?thesis using assms(1) by (simp only: agree_def)
qed

lemma xor_cancel:
  fixes a b c :: "'a::len word"
  shows "a XOR c = b XOR c \<longleftrightarrow> a = b" and "c XOR a = c XOR b \<longleftrightarrow> a = b"
proof -
  have "a = b" if "a XOR c = b XOR c" for a b c :: "'a::len word"
    using arg_cong [OF that, of "\<lambda>w. w XOR c"] by (simp add: xor.assoc)
  then show "a XOR c = b XOR c \<longleftrightarrow> a = b" "c XOR a = c XOR b \<longleftrightarrow> a = b" by (auto simp: xor.commute [of c])
qed

lemma ucast_byte: "ucast (ucast (x :: u8) :: u32) = x"
  by (rule bit_word_eqI) (simp add: bit_simps)

lemma step_back:
  assumes "agree j (crc_step c b) (crc_step d e)" and "j \<le> 3"
  shows "index_of c b = index_of d e" and "agree (Suc j) c d"
proof -
  have "drop_bit 24 (crc32table ! unat (index_of c b)) = drop_bit 24 (crc32table ! unat (index_of d e))"
    using agree_top [OF assms] by (simp only: step_top)
  then have i: "unat (index_of c b) = unat (index_of d e)" by (rule table_index) (rule index_small)+
  then show "index_of c b = index_of d e" by (simp only: word_unat_eq_iff)
  have "drop_bit (8 * j) (drop_bit 8 c) XOR drop_bit (8 * j) (crc32table ! unat (index_of d e)) =
      drop_bit (8 * j) (drop_bit 8 d) XOR drop_bit (8 * j) (crc32table ! unat (index_of d e))"
    using assms(1) i by (simp only: agree_def crc_step_def drop_bit_xor)
  then have "drop_bit (8 * j) (drop_bit 8 c) = drop_bit (8 * j) (drop_bit 8 d)" by (simp only: xor_cancel)
  then show "agree (Suc j) c d" by (simp add: agree_def add.commute)
qed

lemma index_inj:
  assumes "index_of c b = index_of c e"
  shows "b = e"
proof -
  have "(ucast (ucast c XOR b :: u8) :: u32) = ucast (ucast c XOR e :: u8)" using assms by (simp only: index_eq)
  then have "ucast c XOR b = ucast c XOR e" by (metis ucast_byte)
  then show ?thesis by (simp only: xor_cancel)
qed

section \<open>Changes that are found\<close>

text \<open>A register and the next four bytes can be told from the register after them.\<close>

lemma burst:
  assumes "length bs = length es" and "length bs + j \<le> 4" and "agree j (foldl crc_step c bs) (foldl crc_step d es)"
  shows "agree (length bs + j) c d \<and> (c = d \<longrightarrow> bs = es)"
  using assms
proof (induction bs es arbitrary: c d rule: list_induct2)
  case Nil
  then show ?case by simp
next
  case (Cons b bs e es)
  have ih: "agree (length bs + j) (crc_step c b) (crc_step d e)" "crc_step c b = crc_step d e \<longrightarrow> bs = es"
    using Cons.IH [of "crc_step c b" "crc_step d e"] Cons.prems by simp_all
  then have b: "index_of c b = index_of d e" "agree (Suc (length bs + j)) c d"
    using step_back [OF ih(1)] Cons.prems by simp_all
  moreover have "b # bs = e # es" if "c = d"
  proof -
    have "b = e" using b(1) that index_inj by blast
    then show ?thesis using ih(2) that by simp
  qed
  ultimately show ?case by simp
qed

lemma foldl_inj: "foldl crc_step c ys = foldl crc_step d ys \<Longrightarrow> c = d"
proof (induction ys arbitrary: c d)
  case Nil
  then show ?case by simp
next
  case (Cons y ys)
  then have "crc_step c y = crc_step d y" by simp
  then have a: "index_of c y = index_of d y" "agree 1 c d" using step_back [of 0 c y d y] by (simp_all add: agree_def)
  have "c AND 0xFF = d AND 0xFF" using a(1) by (simp only: xor_cancel)
  then have "take_bit 8 c = take_bit 8 d" by (simp add: take_bit_eq_mask mask_eq_exp_minus_1)
  moreover have "drop_bit 8 c = drop_bit 8 d" using a(2) by (simp add: agree_def)
  ultimately have "c = d" using bits_ident [of 8 c] bits_ident [of 8 d] by metis
  then show ?case .
qed

lemma register_burst:
  assumes "length bs = length es" and "length bs \<le> 4" and "bs \<noteq> es"
  shows "foldl crc_step c (xs @ bs @ ys) \<noteq> foldl crc_step c (xs @ es @ ys)"
proof
  assume "foldl crc_step c (xs @ bs @ ys) = foldl crc_step c (xs @ es @ ys)"
  then have "foldl crc_step (foldl crc_step (foldl crc_step c xs) bs) ys =
      foldl crc_step (foldl crc_step (foldl crc_step c xs) es) ys" by simp
  then have "foldl crc_step (foldl crc_step c xs) bs = foldl crc_step (foldl crc_step c xs) es" by (rule foldl_inj)
  then show False using burst [of bs es 0 "foldl crc_step c xs" "foldl crc_step c xs"] assms by (simp add: agree_def)
qed

section \<open>The trailer\<close>

text \<open>
  The trailers of \<^verbatim>\<open>Packet\<close> (\<^verbatim>\<open>network/model/packet.cc\<close>) and \<^verbatim>\<open>EthernetTrailer\<close>
  (\<^verbatim>\<open>network/utils/ethernet-trailer.cc\<close>).  The locale \<open>trailer_codec\<close> is the contract between a packet and a
  trailer.  A frame is accepted by \<^verbatim>\<open>CheckFcs\<close> exactly if it leaves a fixed remainder, so that every change
  of up to four consecutive bytes, in the data or in the check sequence, is found.
\<close>

section \<open>Trailers of a packet\<close>

text \<open>\<open>fresh\<close>: the bytes \<^verbatim>\<open>Buffer::AddAtEnd\<close> makes room for, not initialised.\<close>

definition Packet_AddTrailer ::
  "('t \<Rightarrow> nat) \<Rightarrow> ('t \<Rightarrow> Iterator \<Rightarrow> Iterator option) \<Rightarrow> (nat \<Rightarrow> u8 list) \<Rightarrow> 't \<Rightarrow> Packet \<Rightarrow> Packet option" where
  "Packet_AddTrailer GetSerializedSize Serialize fresh trailer p =
     (let len = GetSerializedSize trailer;
          p = p\<lparr>m_buffer := m_buffer p @ fresh len\<rparr>
      in do {
        i \<leftarrow> Serialize trailer (End (m_buffer p));
        Some (p\<lparr>m_buffer := window i\<rparr>) })"

definition Packet_PeekTrailer :: "('t \<Rightarrow> Iterator \<Rightarrow> ('t \<times> nat) option) \<Rightarrow> 't \<Rightarrow> Packet \<Rightarrow> ('t \<times> nat) option" where
  "Packet_PeekTrailer Deserialize trailer p = Deserialize trailer (End (m_buffer p))"

definition Packet_RemoveTrailer ::
  "('t \<Rightarrow> Iterator \<Rightarrow> ('t \<times> nat) option) \<Rightarrow> 't \<Rightarrow> Packet \<Rightarrow> ('t \<times> nat \<times> Packet) option" where
  "Packet_RemoveTrailer Deserialize trailer p = do {
     (trailer, deserialized) \<leftarrow> Deserialize trailer (End (m_buffer p));
     Some (trailer, deserialized, p\<lparr>m_buffer := take (length (m_buffer p) - deserialized) (m_buffer p)\<rparr>) }"

locale trailer_codec =
  fixes GetSerializedSize :: "'t \<Rightarrow> nat"
    and Serialize :: "'t \<Rightarrow> Iterator \<Rightarrow> Iterator option"
    and Deserialize :: "'t \<Rightarrow> Iterator \<Rightarrow> ('t \<times> nat) option"
    and bytes :: "'t \<Rightarrow> u8 list" and reads :: "'t \<Rightarrow> 't \<Rightarrow> 't"
  assumes bytes_length: "length (bytes t) = GetSerializedSize t"
    and serialize_end: "length junk = GetSerializedSize t \<Longrightarrow>
      \<exists>i. Serialize t (End (pl @ junk)) = Some i \<and> window i = pl @ bytes t"
    and deserialize_end: "Deserialize t0 (End (pl @ bytes t)) = Some (reads t0 t, GetSerializedSize t)"
begin

lemma Add_bytes:
  assumes "allocates fresh"
  shows "Packet_AddTrailer GetSerializedSize Serialize fresh t p = Some (p\<lparr>m_buffer := m_buffer p @ bytes t\<rparr>)"
  using serialize_end [of "fresh (GetSerializedSize t)" t "m_buffer p"] assms by (auto simp: Packet_AddTrailer_def allocates_def)

lemma Remove_bytes:
  assumes "m_buffer p = pl @ bytes t"
  shows "Packet_RemoveTrailer Deserialize t0 p = Some (reads t0 t, GetSerializedSize t, p\<lparr>m_buffer := pl\<rparr>)"
  using deserialize_end [of t0 pl t] assms by (simp add: Packet_RemoveTrailer_def bytes_length)

lemma Remove_Add_trailer:
  assumes "allocates fresh"
  shows "Option.bind (Packet_AddTrailer GetSerializedSize Serialize fresh t p) (Packet_RemoveTrailer Deserialize t0) =
    Some (reads t0 t, GetSerializedSize t, p)"
  using Remove_bytes [of "p\<lparr>m_buffer := m_buffer p @ bytes t\<rparr>"] by (simp add: Add_bytes [OF assms])

end

section \<open>EthernetTrailer\<close>

record EthernetTrailer =
  m_calcFcs :: bool
  m_fcs :: u32

definition EthernetTrailer_new :: EthernetTrailer where
  "EthernetTrailer_new = \<lparr>m_calcFcs = False, m_fcs = 0\<rparr>"

definition EnableFcs :: "bool \<Rightarrow> EthernetTrailer \<Rightarrow> EthernetTrailer" where
  "EnableFcs enable t = t\<lparr>m_calcFcs := enable\<rparr>"

definition CheckFcs :: "Packet \<Rightarrow> EthernetTrailer \<Rightarrow> bool" where
  "CheckFcs p t = (if \<not> m_calcFcs t then True else m_fcs t = CRC32Calculate (m_buffer p))"

definition CalcFcs :: "Packet \<Rightarrow> EthernetTrailer \<Rightarrow> EthernetTrailer" where
  "CalcFcs p t = (if \<not> m_calcFcs t then t else t\<lparr>m_fcs := CRC32Calculate (m_buffer p)\<rparr>)"

definition SetFcs :: "u32 \<Rightarrow> EthernetTrailer \<Rightarrow> EthernetTrailer" where
  "SetFcs fcs t = t\<lparr>m_fcs := fcs\<rparr>"

definition EthernetTrailer_GetSerializedSize :: "EthernetTrailer \<Rightarrow> nat" where
  "EthernetTrailer_GetSerializedSize t = 4"

definition EthernetTrailer_Serialize :: "EthernetTrailer \<Rightarrow> Iterator \<Rightarrow> Iterator option" where
  "EthernetTrailer_Serialize t i_end = do {
     i \<leftarrow> Prev (EthernetTrailer_GetSerializedSize t) i_end;
     WriteU32 (m_fcs t) i }"

definition EthernetTrailer_Deserialize :: "EthernetTrailer \<Rightarrow> Iterator \<Rightarrow> (EthernetTrailer \<times> nat) option" where
  "EthernetTrailer_Deserialize t i_end = do {
     let n = EthernetTrailer_GetSerializedSize t;
     i \<leftarrow> Prev n i_end;
     (v, i) \<leftarrow> ReadU32 i;
     Some (t\<lparr>m_fcs := v\<rparr>, n) }"

lemma Prev_End: "length bs = n \<Longrightarrow> Prev n (End (pl @ bs)) = Some \<lparr>it_before = pl, it_after = bs\<rparr>"
  by (auto simp: Prev_def End_def)

interpretation fcs: trailer_codec EthernetTrailer_GetSerializedSize EthernetTrailer_Serialize
  EthernetTrailer_Deserialize "\<lambda>t. le_bytes 4 (m_fcs t)" "\<lambda>t0 t. t0\<lparr>m_fcs := m_fcs t\<rparr>"
proof (unfold_locales, goal_cases)
  case (1 t)
  show ?case by (simp add: EthernetTrailer_GetSerializedSize_def)
next
  case (2 junk t pl)
  then show ?case
    by (simp add: EthernetTrailer_Serialize_def EthernetTrailer_GetSerializedSize_def Prev_End Write_le Write_def window_def)
next
  case (3 t0 pl t)
  show ?case
    using Read_le(2) [of pl "m_fcs t" "[]"]
    by (simp add: EthernetTrailer_Deserialize_def EthernetTrailer_GetSerializedSize_def Prev_End Let_def)
qed

section \<open>The remainder\<close>

text \<open>Feeding a byte of a word into the register is feeding a zero into the register combined with the word.\<close>

lemma step_xor: "crc_step c (byte_of 0 w) XOR drop_bit 8 w = crc_step (c XOR w) 0"
proof -
  have "index_of c (byte_of 0 w) = index_of (c XOR w) 0"
    by (rule bit_word_eqI) (auto simp: bit_simps test_bit_byte_of bit_numeral_rec numeral_eq_Suc less_Suc_eq)
  then show ?thesis by (simp add: crc_step_def drop_bit_xor ac_simps)
qed

lemma step_bytes: "crc_step c (byte_of 0 w) = crc_step (c XOR w) 0 XOR drop_bit 8 w"
  unfolding step_xor [symmetric] by (simp add: xor.assoc)

lemma feed_word: "foldl crc_step c (le_bytes 4 w) = foldl crc_step (c XOR w) [0, 0, 0, 0]"
proof -
  have s: "crc_step (d XOR v) (byte_of 0 v) = crc_step d 0 XOR drop_bit 8 v" for d v
    using step_bytes [of "d XOR v" v] by (simp add: xor.assoc)
  have b: "byte_of k w = byte_of 0 (drop_bit (8 * k) w)" for k
    by (simp add: byte_of_def)
  have "drop_bit 32 w = 0" by (rule bit_word_eqI) (auto simp: bit_simps)
  then show ?thesis
    using s [of "c XOR w" w] s [of "crc_step (c XOR w) 0" "drop_bit 8 w"]
      s [of "crc_step (crc_step (c XOR w) 0) 0" "drop_bit 16 w"]
      s [of "crc_step (crc_step (crc_step (c XOR w) 0) 0) 0" "drop_bit 24 w"] b [of 1] b [of 2] b [of 3]
    by (simp add: le_bytes_numeral xor.assoc)
qed

definition residue :: u32 where
  "residue = foldl crc_step 0xFFFFFFFF [0, 0, 0, 0]"

lemma check_residue:
  "foldl crc_step 0xFFFFFFFF (data @ le_bytes 4 fcs) = residue \<longleftrightarrow> fcs = CRC32Calculate data"
proof -
  let ?c = "foldl crc_step 0xFFFFFFFF data"
  have "foldl crc_step 0xFFFFFFFF (data @ le_bytes 4 fcs) = residue \<longleftrightarrow> ?c XOR fcs = 0xFFFFFFFF"
    using foldl_inj [of "?c XOR fcs" "[0, 0, 0, 0]" "0xFFFFFFFF"] by (auto simp: feed_word residue_def)
  also have "\<dots> \<longleftrightarrow> ?c XOR fcs = ?c XOR NOT ?c"
  proof -
    have "(0xFFFFFFFF :: u32) = - 1" by simp
    moreover have "?c XOR NOT ?c = - 1" by (rule bit_word_eqI) (simp add: bit_simps)
    ultimately show ?thesis by (simp only:)
  qed
  also have "\<dots> \<longleftrightarrow> fcs = NOT ?c" by (rule xor_cancel)
  finally show ?thesis by (simp add: CRC32Calculate_def)
qed

text \<open>Every list of four bytes is the check sequence of some trailer.\<close>

lemma four_bytes:
  assumes "length bs = 4"
  shows "\<exists>w :: u32. bs = le_bytes 4 w"
proof -
  obtain a b c d where bs: "bs = [a, b, c, d]" using assms by (auto simp: length_Suc_conv numeral_eq_Suc)
  let ?w = "shift_in (shift_in (shift_in (ucast d) c) b) a :: u32"
  have "byte_of 0 ?w = a" "byte_of (Suc 0) ?w = b" "byte_of 2 ?w = c" "byte_of 3 ?w = d"
    by (rule bit_word_eqI; auto simp: test_bit_byte_of shift_in_bit bit_simps)+
  then have "bs = le_bytes 4 ?w" using bs by (simp add: le_bytes_numeral)
  then show ?thesis ..
qed

text \<open>What a receiver that checks does with the bytes of a frame.\<close>

definition frame_good :: "u8 list \<Rightarrow> bool" where
  "frame_good bytes \<longleftrightarrow> foldl crc_step 0xFFFFFFFF bytes = residue"

lemma burst_found:
  assumes "frame_good (xs @ bs @ ys)" and "length bs = length es" and "length bs \<le> 4" and "bs \<noteq> es"
  shows "\<not> frame_good (xs @ es @ ys)"
  using register_burst [OF assms(2-4), of "0xFFFFFFFF" xs ys] assms(1) by (auto simp: frame_good_def)

lemma remove_and_check:
  assumes "length (m_buffer p) = n + 4"
  obtains fcs where "m_buffer p = take n (m_buffer p) @ le_bytes 4 fcs"
    and "Packet_RemoveTrailer EthernetTrailer_Deserialize t p = Some (t\<lparr>m_fcs := fcs\<rparr>, 4, p\<lparr>m_buffer := take n (m_buffer p)\<rparr>)"
    and "CheckFcs (p\<lparr>m_buffer := take n (m_buffer p)\<rparr>) (EnableFcs True (t\<lparr>m_fcs := fcs\<rparr>)) = frame_good (m_buffer p)"
proof -
  have "length (drop n (m_buffer p)) = 4" using assms by simp
  then obtain fcs :: u32 where f: "drop n (m_buffer p) = le_bytes 4 fcs" using four_bytes by blast
  have b: "m_buffer p = take n (m_buffer p) @ le_bytes 4 fcs" unfolding f [symmetric] by simp
  have "Packet_RemoveTrailer EthernetTrailer_Deserialize t p = Some (t\<lparr>m_fcs := fcs\<rparr>, 4, p\<lparr>m_buffer := take n (m_buffer p)\<rparr>)"
    using fcs.Remove_bytes [of p "take n (m_buffer p)" "t\<lparr>m_fcs := fcs\<rparr>" t] b
    by (simp add: EthernetTrailer_GetSerializedSize_def)
  moreover have "frame_good (m_buffer p) \<longleftrightarrow> fcs = CRC32Calculate (take n (m_buffer p))"
    using check_residue [of "take n (m_buffer p)" fcs] b by (simp add: frame_good_def)
  ultimately show thesis using that b by (simp add: CheckFcs_def EnableFcs_def)
qed

end
