(* ===== verification/P2p_Device.thy ===== *)
theory P2p_Device
  imports Drop_Tail Crc32 Link_Headers
begin

text \<open>
  The point-to-point links of the CPU stack: \<^verbatim>\<open>BridgedPointToPointNetDevice\<close> and \<^verbatim>\<open>BridgedP2PChannel\<close>
  (\<^verbatim>\<open>contrib/cuda/model/bridged-p2p-net-device.cc\<close>, \<^verbatim>\<open>bridged-p2p-channel.cc\<close>), and \<^verbatim>\<open>PointToPointNetDevice\<close>
  and \<^verbatim>\<open>PointToPointChannel\<close> (\<^verbatim>\<open>point-to-point/model\<close>) they were made from.  The two classes differ in how they
  frame a packet (Ethernet with a check sequence, or PPP) and share the machine that transmits.

  A device and a channel are numbers; the state has all devices, all channels, the clock, the pending events in the
  order the simulator runs them, and the calls made to the layer above.  \<open>None\<close> is a failed assertion or a null pointer.
\<close>

section \<open>State\<close>

datatype DeviceClass = PointToPointNetDevice | BridgedPointToPointNetDevice

datatype P2pTxMachineState = P2P_READY | P2P_BUSY

datatype P2pWireState = LINK_INITIALIZING | LINK_IDLE | LINK_TRANSMITTING | LINK_PROPAGATING

record P2pLink =
  link_state :: P2pWireState
  link_src :: "nat option"
  link_dst :: "nat option"

record P2pChannel =
  chan_delay :: nat
  chan_nDevices :: nat
  chan_link :: "P2pLink list"

definition P2pChannel_new :: "nat \<Rightarrow> P2pChannel" where
  "P2pChannel_new delay = \<lparr>chan_delay = delay, chan_nDevices = 0,
     chan_link = [\<lparr>link_state = LINK_INITIALIZING, link_src = None, link_dst = None\<rparr>,
                  \<lparr>link_state = LINK_INITIALIZING, link_src = None, link_dst = None\<rparr>]\<rparr>"

record P2pDevice =
  dev_class :: DeviceClass
  dev_address :: Mac48Address
  dev_txMachineState :: P2pTxMachineState
  dev_tInterframeGap :: nat
  dev_channel :: "nat option"
  dev_queue :: "Packet Queue"
  dev_promisc :: bool
  dev_linkUp :: bool
  dev_currentPkt :: "Packet option"

text \<open>\<open>dev_promisc\<close>: a promiscuous callback is set.\<close>

definition P2pDevice_new :: "DeviceClass \<Rightarrow> Mac48Address \<Rightarrow> nat \<Rightarrow> Packet Queue \<Rightarrow> P2pDevice" where
  "P2pDevice_new cls ad gap q = \<lparr>dev_class = cls, dev_address = ad, dev_txMachineState = P2P_READY,
     dev_tInterframeGap = gap, dev_channel = None, dev_queue = q, dev_promisc = False, dev_linkUp = False,
     dev_currentPkt = None\<rparr>"

datatype NetDevicePacketType = PT_HOST | PT_BROADCAST | PT_MULTICAST | PT_OTHERHOST

datatype Upcall =
    PromiscCallback nat Packet u16 Mac48Address Mac48Address NetDevicePacketType
  | RxCallback nat Packet u16 Mac48Address

datatype P2pEvent = CompleteEvent nat | ReceiveEvent nat Packet

record P2pNet =
  net_now :: nat
  net_events :: "(nat \<times> P2pEvent) list"
  net_devices :: "nat \<Rightarrow> P2pDevice"
  net_channels :: "nat \<Rightarrow> P2pChannel"
  net_upcalls :: "Upcall list"

text \<open>
  What the model does not fix: the time \<^verbatim>\<open>DataRate::CalculateBitsTxTime\<close> gives for a device, the bytes
  \<^verbatim>\<open>Buffer\<close> leaves uninitialised, the global value \<^verbatim>\<open>ChecksumEnabled\<close>, and the scheduler of the simulator core.
\<close>

record p2p_env =
  BitsTxTime :: "nat \<Rightarrow> u32 \<Rightarrow> nat"
  alloc :: "nat \<Rightarrow> u8 list"
  ChecksumEnabled :: bool
  Insert :: "nat \<Rightarrow> P2pEvent \<Rightarrow> (nat \<times> P2pEvent) list \<Rightarrow> (nat \<times> P2pEvent) list"

text \<open>
  What the links rely on: buffers have the size asked for, and the scheduler puts an event behind those of the
  same or an earlier time and before those of a later one.
\<close>

definition in_time_order :: "(nat \<Rightarrow> 'e \<Rightarrow> (nat \<times> 'e) list \<Rightarrow> (nat \<times> 'e) list) \<Rightarrow> bool" where
  "in_time_order ins \<longleftrightarrow> (\<forall>t e es. sorted (map fst es) \<longrightarrow> (\<exists>xs ys. es = xs @ ys \<and> ins t e es = xs @ (t, e) # ys \<and>
     (\<forall>x\<in>set xs. fst x \<le> t) \<and> (\<forall>y\<in>set ys. t < fst y)))"

definition env_ok :: "p2p_env \<Rightarrow> bool" where
  "env_ok env \<longleftrightarrow> allocates (alloc env) \<and> in_time_order (Insert env)"

definition set_device :: "nat \<Rightarrow> P2pDevice \<Rightarrow> P2pNet \<Rightarrow> P2pNet" where
  "set_device d x net = net\<lparr>net_devices := (net_devices net)(d := x)\<rparr>"

definition Schedule_event :: "p2p_env \<Rightarrow> nat \<Rightarrow> P2pEvent \<Rightarrow> P2pNet \<Rightarrow> P2pNet" where
  "Schedule_event env delay e net = net\<lparr>net_events := Insert env (net_now net + delay) e (net_events net)\<rparr>"

definition P2pPacket_GetSize :: "Packet \<Rightarrow> u32" where
  "P2pPacket_GetSize p = of_nat (length (m_buffer p))"

definition CalculateBytesTxTime :: "p2p_env \<Rightarrow> nat \<Rightarrow> u32 \<Rightarrow> nat" where
  "CalculateBytesTxTime env d bytes = BitsTxTime env d (bytes * 8)"

section \<open>Channel\<close>

definition P2p_Channel_Attach :: "nat \<Rightarrow> P2pChannel \<Rightarrow> P2pChannel option" where
  "P2p_Channel_Attach d ch =
     (if 2 \<le> chan_nDevices ch then None
      else let i = chan_nDevices ch;
               ls = (chan_link ch)[i := (chan_link ch ! i)\<lparr>link_src := Some d\<rparr>];
               n = i + 1
           in Some (ch\<lparr>chan_nDevices := n, chan_link :=
                (if n = 2 then [(ls ! 0)\<lparr>link_dst := link_src (ls ! 1), link_state := LINK_IDLE\<rparr>,
                                (ls ! 1)\<lparr>link_dst := link_src (ls ! 0), link_state := LINK_IDLE\<rparr>]
                 else ls)\<rparr>))"

definition P2p_Channel_TransmitStart :: "p2p_env \<Rightarrow> nat \<Rightarrow> Packet \<Rightarrow> nat \<Rightarrow> nat \<Rightarrow> P2pNet \<Rightarrow> (bool \<times> P2pNet) option" where
  "P2p_Channel_TransmitStart env c p src txTime net =
     (let ch = net_channels net c; l0 = chan_link ch ! 0; l1 = chan_link ch ! 1
      in if link_state l0 = LINK_INITIALIZING \<or> link_state l1 = LINK_INITIALIZING then None
         else let wire = (if link_src l0 = Some src then l0 else l1)
              in case link_dst wire of
                   None \<Rightarrow> None
                 | Some dst \<Rightarrow> Some (True, Schedule_event env (txTime + chan_delay ch) (ReceiveEvent dst p) net))"

text \<open>\<^verbatim>\<open>GetRemote\<close>: the loop over the two devices of the channel returns the first that is not this one.\<close>

definition P2p_GetRemote :: "nat \<Rightarrow> P2pNet \<Rightarrow> Mac48Address option" where
  "P2p_GetRemote d net = do {
     c \<leftarrow> dev_channel (net_devices net d);
     let ch = net_channels net c;
     if chan_nDevices ch \<noteq> 2 then None
     else do {
       a \<leftarrow> link_src (chan_link ch ! 0);
       b \<leftarrow> link_src (chan_link ch ! 1);
       if a \<noteq> d then Some (dev_address (net_devices net a))
       else if b \<noteq> d then Some (dev_address (net_devices net b))
       else None } }"

section \<open>Transmitter\<close>

definition P2p_Attach :: "nat \<Rightarrow> nat \<Rightarrow> P2pNet \<Rightarrow> P2pNet option" where
  "P2p_Attach d c net = do {
     let net = set_device d (net_devices net d \<lparr>dev_channel := Some c\<rparr>) net;
     ch \<leftarrow> P2p_Channel_Attach d (net_channels net c);
     let net = net\<lparr>net_channels := (net_channels net)(c := ch)\<rparr>;
     Some (set_device d (net_devices net d \<lparr>dev_linkUp := True\<rparr>) net) }"

definition P2p_TransmitStart :: "p2p_env \<Rightarrow> nat \<Rightarrow> Packet \<Rightarrow> P2pNet \<Rightarrow> (bool \<times> P2pNet) option" where
  "P2p_TransmitStart env d p net =
     (if dev_txMachineState (net_devices net d) \<noteq> P2P_READY then None
      else do {
        let dev = net_devices net d \<lparr>dev_txMachineState := P2P_BUSY, dev_currentPkt := Some p\<rparr>;
        let net = set_device d dev net;
        let txTime = CalculateBytesTxTime env d (P2pPacket_GetSize p);
        let txCompleteTime = txTime + dev_tInterframeGap dev;
        let net = Schedule_event env txCompleteTime (CompleteEvent d) net;
        c \<leftarrow> dev_channel dev;
        P2p_Channel_TransmitStart env c p d txTime net })"

definition P2p_TransmitComplete :: "p2p_env \<Rightarrow> nat \<Rightarrow> P2pNet \<Rightarrow> P2pNet option" where
  "P2p_TransmitComplete env d net =
     (let dev = net_devices net d
      in if dev_txMachineState dev \<noteq> P2P_BUSY \<or> dev_currentPkt dev = None then None
         else let dev = dev\<lparr>dev_txMachineState := P2P_READY, dev_currentPkt := None\<rparr>
              in case Dequeue P2pPacket_GetSize (dev_queue dev) of
                   (None, q) \<Rightarrow> Some (set_device d (dev\<lparr>dev_queue := q\<rparr>) net)
                 | (Some p, q) \<Rightarrow> map_option snd (P2p_TransmitStart env d p (set_device d (dev\<lparr>dev_queue := q\<rparr>) net)))"

text \<open>The end of \<^verbatim>\<open>Send\<close> and \<^verbatim>\<open>SendFrom\<close>: queue the frame, and take one from the queue if the transmitter is ready.\<close>

definition P2p_EnqueueAndStart :: "p2p_env \<Rightarrow> nat \<Rightarrow> Packet \<Rightarrow> P2pNet \<Rightarrow> (bool \<times> P2pNet) option" where
  "P2p_EnqueueAndStart env d packet net =
     (case Enqueue P2pPacket_GetSize packet (dev_queue (net_devices net d)) of
        (False, q) \<Rightarrow> Some (False, set_device d (net_devices net d \<lparr>dev_queue := q\<rparr>) net)
      | (True, q) \<Rightarrow>
          if dev_txMachineState (net_devices net d) = P2P_READY
          then (case Dequeue P2pPacket_GetSize q of
                  (None, q) \<Rightarrow> None
                | (Some p, q) \<Rightarrow> P2p_TransmitStart env d p (set_device d (net_devices net d \<lparr>dev_queue := q\<rparr>) net))
          else Some (True, set_device d (net_devices net d \<lparr>dev_queue := q\<rparr>) net))"

section \<open>PPP frames\<close>

definition Ppp_AddHeader :: "p2p_env \<Rightarrow> u16 \<Rightarrow> Packet \<Rightarrow> Packet option" where
  "Ppp_AddHeader env protocolNumber p =
     (if protocolNumber \<notin> {0x0800, 0x86DD} then None
      else AddHeader PppHeader_GetSerializedSize PppHeader_Serialize (alloc env)
        \<lparr>ppp_protocol = EtherToPpp protocolNumber\<rparr> p)"

definition Ppp_ProcessHeader :: "Packet \<Rightarrow> (u16 \<times> Packet) option" where
  "Ppp_ProcessHeader p = do {
     (ppp, _, p) \<leftarrow> RemoveHeader PppHeader_Deserialize \<lparr>ppp_protocol = 0\<rparr> p;
     if ppp_protocol ppp \<notin> {0x0021, 0x0057} then None else Some (PppToEther (ppp_protocol ppp), p) }"

definition PointToPoint_Send :: "p2p_env \<Rightarrow> nat \<Rightarrow> Packet \<Rightarrow> u16 \<Rightarrow> P2pNet \<Rightarrow> (bool \<times> P2pNet) option" where
  "PointToPoint_Send env d packet protocolNumber net =
     (if \<not> dev_linkUp (net_devices net d) then Some (False, net)
      else do {
        packet \<leftarrow> Ppp_AddHeader env protocolNumber packet;
        P2p_EnqueueAndStart env d packet net })"

text \<open>\<open>em\<close>: the answer of the receive error model to this packet, which it may also change.\<close>

definition PointToPoint_Receive :: "(Packet \<Rightarrow> bool \<times> Packet) \<Rightarrow> nat \<Rightarrow> Packet \<Rightarrow> P2pNet \<Rightarrow> P2pNet option" where
  "PointToPoint_Receive em d packet net =
     (let (corrupt, packet) = em packet
      in if corrupt then Some net
         else do {
           (protocol, p) \<leftarrow> Ppp_ProcessHeader packet;
           remote \<leftarrow> P2p_GetRemote d net;
           let dev = net_devices net d;
           Some (net\<lparr>net_upcalls := net_upcalls net @
             (if dev_promisc dev then [PromiscCallback d p protocol remote (dev_address dev) PT_HOST] else []) @
             [RxCallback d p protocol remote]\<rparr>) })"

section \<open>Ethernet frames\<close>

definition EthernetHeader_new :: "bool \<Rightarrow> EthernetHeader" where
  "EthernetHeader_new hasPreamble = \<lparr>m_enPreambleSfd = hasPreamble, m_preambleSfd = 0, m_lengthType = 0,
     eth_source = replicate 6 0, eth_destination = replicate 6 0\<rparr>"

definition Bridged_AddHeader ::
  "p2p_env \<Rightarrow> Mac48Address \<Rightarrow> Mac48Address \<Rightarrow> u16 \<Rightarrow> Packet \<Rightarrow> Packet option" where
  "Bridged_AddHeader env source dest protocolNumber p = do {
     let header = EthernetHeader_new False;
     let header = header\<lparr>eth_source := source\<rparr>;
     let header = header\<lparr>eth_destination := dest\<rparr>;
     let trailer = EthernetTrailer_new;
     let header = header\<lparr>m_lengthType := protocolNumber\<rparr>;
     p \<leftarrow> AddHeader EthernetHeader_GetSerializedSize EthernetHeader_Serialize (alloc env) header p;
     let trailer = (if ChecksumEnabled env then EnableFcs True trailer else trailer);
     let trailer = CalcFcs p trailer;
     Packet_AddTrailer EthernetTrailer_GetSerializedSize EthernetTrailer_Serialize (alloc env) trailer p }"

definition Bridged_SendFrom ::
  "p2p_env \<Rightarrow> nat \<Rightarrow> Packet \<Rightarrow> Mac48Address \<Rightarrow> Mac48Address \<Rightarrow> u16 \<Rightarrow> P2pNet \<Rightarrow> (bool \<times> P2pNet) option" where
  "Bridged_SendFrom env d packet src dest protocolNumber net =
     (if \<not> dev_linkUp (net_devices net d) then None
      else do {
        packet \<leftarrow> Bridged_AddHeader env src dest protocolNumber packet;
        P2p_EnqueueAndStart env d packet net })"

definition Bridged_Send ::
  "p2p_env \<Rightarrow> nat \<Rightarrow> Packet \<Rightarrow> Mac48Address \<Rightarrow> u16 \<Rightarrow> P2pNet \<Rightarrow> (bool \<times> P2pNet) option" where
  "Bridged_Send env d packet dest protocolNumber net =
     Bridged_SendFrom env d packet (dev_address (net_devices net d)) dest protocolNumber net"

definition Mac48_IsBroadcast :: "Mac48Address \<Rightarrow> bool" where
  "Mac48_IsBroadcast a \<longleftrightarrow> a = replicate 6 0xFF"

definition Mac48_IsGroup :: "Mac48Address \<Rightarrow> bool" where
  "Mac48_IsGroup a \<longleftrightarrow> a ! 0 AND 0x01 = 0x01"

definition packet_type :: "Mac48Address \<Rightarrow> Mac48Address \<Rightarrow> NetDevicePacketType" where
  "packet_type ad dest =
     (if Mac48_IsBroadcast dest then PT_BROADCAST
      else if Mac48_IsGroup dest then PT_MULTICAST
      else if dest = ad then PT_HOST
      else PT_OTHERHOST)"

definition Bridged_Receive ::
  "p2p_env \<Rightarrow> (Packet \<Rightarrow> bool \<times> Packet) \<Rightarrow> nat \<Rightarrow> Packet \<Rightarrow> P2pNet \<Rightarrow> P2pNet option" where
  "Bridged_Receive env em d packet net =
     (let (corrupt, packet) = em packet
      in if corrupt then Some net
         else do {
           (trailer, _, p) \<leftarrow> Packet_RemoveTrailer EthernetTrailer_Deserialize EthernetTrailer_new packet;
           let trailer = (if ChecksumEnabled env then EnableFcs True trailer else trailer);
           let crcGood = CheckFcs p trailer;
           if \<not> crcGood then Some net
           else do {
             (header, _, p) \<leftarrow> RemoveHeader EthernetHeader_Deserialize (EthernetHeader_new False) p;
             let protocol = m_lengthType header;
             let dev = net_devices net d;
             let packetType = packet_type (dev_address dev) (eth_destination header);
             remote \<leftarrow> P2p_GetRemote d net;
             Some (net\<lparr>net_upcalls := net_upcalls net @
               (if dev_promisc dev
                then [PromiscCallback d p protocol (eth_source header) (eth_destination header) packetType] else []) @
               [RxCallback d p protocol remote]\<rparr>) } })"

section \<open>Events\<close>

definition P2p_Receive ::
  "p2p_env \<Rightarrow> (Packet \<Rightarrow> bool \<times> Packet) \<Rightarrow> nat \<Rightarrow> Packet \<Rightarrow> P2pNet \<Rightarrow> P2pNet option" where
  "P2p_Receive env em d packet net =
     (case dev_class (net_devices net d) of
        PointToPointNetDevice \<Rightarrow> PointToPoint_Receive em d packet net
      | BridgedPointToPointNetDevice \<Rightarrow> Bridged_Receive env em d packet net)"

fun invoke_event :: "p2p_env \<Rightarrow> (Packet \<Rightarrow> bool \<times> Packet) \<Rightarrow> P2pEvent \<Rightarrow> P2pNet \<Rightarrow> P2pNet option" where
  "invoke_event env em (CompleteEvent d) net = P2p_TransmitComplete env d net"
| "invoke_event env em (ReceiveEvent d p) net = P2p_Receive env em d p net"

text \<open>The main loop of the simulator, for at most \<open>n\<close> events.\<close>

fun run_events :: "nat \<Rightarrow> p2p_env \<Rightarrow> (Packet \<Rightarrow> bool \<times> Packet) \<Rightarrow> P2pNet \<Rightarrow> P2pNet option" where
  "run_events 0 env em net = Some net"
| "run_events (Suc n) env em net =
     (case net_events net of
        [] \<Rightarrow> Some net
      | (t, e) # es \<Rightarrow>
          Option.bind (invoke_event env em e (net\<lparr>net_now := t, net_events := es\<rparr>)) (run_events n env em))"

section \<open>Frames\<close>

text \<open>
  What a device puts on the wire for a packet, and what the device at the other end passes up for it.  \<open>wire_frame\<close> says
  it in bytes; both classes of device are shown to produce it and to take it apart again.
\<close>

section \<open>Frames in bytes\<close>

type_synonym request = "Mac48Address \<times> Mac48Address \<times> u16 \<times> Packet"

definition eth_bytes :: "Mac48Address \<Rightarrow> Mac48Address \<Rightarrow> u16 \<Rightarrow> u8 list" where
  "eth_bytes src dst proto = dst @ src @ be_bytes 2 proto"

fun wire_bytes :: "p2p_env \<Rightarrow> DeviceClass \<Rightarrow> request \<Rightarrow> u8 list" where
  "wire_bytes env PointToPointNetDevice (src, dst, proto, p) = be_bytes 2 (EtherToPpp proto) @ m_buffer p"
| "wire_bytes env BridgedPointToPointNetDevice (src, dst, proto, p) =
     (let bs = eth_bytes src dst proto @ m_buffer p
      in bs @ le_bytes 4 (if ChecksumEnabled env then CRC32Calculate bs else 0))"

definition wire_frame :: "p2p_env \<Rightarrow> DeviceClass \<Rightarrow> request \<Rightarrow> Packet" where
  "wire_frame env cls req = \<lparr>m_buffer = wire_bytes env cls req\<rparr>"

fun valid_request :: "DeviceClass \<Rightarrow> request \<Rightarrow> bool" where
  "valid_request PointToPointNetDevice (src, dst, proto, p) \<longleftrightarrow> proto = 0x0800 \<or> proto = 0x86DD"
| "valid_request BridgedPointToPointNetDevice (src, dst, proto, p) \<longleftrightarrow> length src = 6 \<and> length dst = 6"

text \<open>The call of a device a request stands for; PPP has no use for the addresses.\<close>

definition P2p_Send :: "p2p_env \<Rightarrow> nat \<Rightarrow> request \<Rightarrow> P2pNet \<Rightarrow> (bool \<times> P2pNet) option" where
  "P2p_Send env d req net = (case req of (src, dst, proto, p) \<Rightarrow>
     (case dev_class (net_devices net d) of
        PointToPointNetDevice \<Rightarrow> PointToPoint_Send env d p proto net
      | BridgedPointToPointNetDevice \<Rightarrow> Bridged_SendFrom env d p src dst proto net))"

section \<open>Sending\<close>

lemma packet_eq: "p\<lparr>m_buffer := bs\<rparr> = \<lparr>m_buffer = bs\<rparr>"
  by (cases p) simp

lemma Ppp_AddHeader_frame:
  assumes "valid_request PointToPointNetDevice (src, dst, proto, p)" and "allocates (alloc env)"
  shows "Ppp_AddHeader env proto p = Some (wire_frame env PointToPointNetDevice (src, dst, proto, p))"
  using assms by (auto simp: Ppp_AddHeader_def AddHeader_def PppHeader_Serialize_def PppHeader_GetSerializedSize_def
      allocates_def Write_be Write_Begin wire_frame_def window_def packet_eq)

lemma Bridged_AddHeader_frame:
  assumes "valid_request BridgedPointToPointNetDevice (src, dst, proto, p)" and "allocates (alloc env)"
  shows "Bridged_AddHeader env src dst proto p = Some (wire_frame env BridgedPointToPointNetDevice (src, dst, proto, p))"
proof -
  define h where "h = EthernetHeader_new False\<lparr>eth_source := src, eth_destination := dst, m_lengthType := proto\<rparr>"
  have ok: "ethernet_ok h" using assms(1) by (simp add: h_def ethernet_ok_def)
  have b: "ethernet_bytes h = eth_bytes src dst proto" by (simp add: h_def ethernet_bytes_def eth_bytes_def EthernetHeader_new_def)
  have "length (alloc env (EthernetHeader_GetSerializedSize h)) = length (ethernet_bytes h)"
    using assms(2) ethernet_length [OF ok] by (simp add: allocates_def)
  then have "AddHeader EthernetHeader_GetSerializedSize EthernetHeader_Serialize (alloc env) h p =
      Some \<lparr>m_buffer = eth_bytes src dst proto @ m_buffer p\<rparr>"
    by (simp add: AddHeader_def Let_def ethernet_serialize [OF ok] Write_Begin window_def packet_eq b)
  then show ?thesis
    by (simp add: Bridged_AddHeader_def Let_def h_def [symmetric] fcs.Add_bytes [OF assms(2)] wire_frame_def packet_eq)
      (simp add: h_def [symmetric] CalcFcs_def EnableFcs_def EthernetTrailer_new_def)
qed

lemma P2p_Send_frame:
  assumes "valid_request (dev_class (net_devices net d)) req" and "env_ok env" and "dev_linkUp (net_devices net d)"
  shows "P2p_Send env d req net = P2p_EnqueueAndStart env d (wire_frame env (dev_class (net_devices net d)) req) net"
proof -
  obtain src dst proto p where req: "req = (src, dst, proto, p)" by (cases req)
  show ?thesis
  proof (cases "dev_class (net_devices net d)")
    case PointToPointNetDevice
    with assms req show ?thesis by (simp add: P2p_Send_def PointToPoint_Send_def Ppp_AddHeader_frame env_ok_def)
  next
    case BridgedPointToPointNetDevice
    with assms req show ?thesis by (simp add: P2p_Send_def Bridged_SendFrom_def Bridged_AddHeader_frame env_ok_def)
  qed
qed

section \<open>Receiving\<close>

text \<open>The calls device \<open>d\<close> makes for an intact frame.\<close>

fun upcalls_of :: "nat \<Rightarrow> P2pDevice \<Rightarrow> Mac48Address \<Rightarrow> request \<Rightarrow> Upcall list" where
  "upcalls_of d dev remote (src, dst, proto, p) =
     (if dev_promisc dev
      then [case dev_class dev of
              PointToPointNetDevice \<Rightarrow> PromiscCallback d p proto remote (dev_address dev) PT_HOST
            | BridgedPointToPointNetDevice \<Rightarrow> PromiscCallback d p proto src dst (packet_type (dev_address dev) dst)]
      else []) @ [RxCallback d p proto remote]"

lemma Ppp_ProcessHeader_frame:
  assumes "valid_request PointToPointNetDevice (src, dst, proto, p)"
  shows "Ppp_ProcessHeader (wire_frame env PointToPointNetDevice (src, dst, proto, p)) = Some (proto, p)"
proof -
  have "RemoveHeader PppHeader_Deserialize \<lparr>ppp_protocol = 0\<rparr> \<lparr>m_buffer = be_bytes 2 (EtherToPpp proto) @ m_buffer p\<rparr> =
      Some (\<lparr>ppp_protocol = EtherToPpp proto\<rparr>, 2, p)"
    by (cases p) (simp add: RemoveHeader_def PppHeader_Deserialize_def PppHeader_GetSerializedSize_def Begin_def codec_simps)
  then show ?thesis using assms
    by (auto simp: Ppp_ProcessHeader_def wire_frame_def EtherToPpp_def PppToEther_def)
qed

lemma remove_ethernet:
  assumes "length src = 6" and "length dst = 6"
  shows "RemoveHeader EthernetHeader_Deserialize (EthernetHeader_new False) \<lparr>m_buffer = eth_bytes src dst proto @ pl\<rparr> =
    Some (EthernetHeader_new False\<lparr>eth_source := src, eth_destination := dst, m_lengthType := proto\<rparr>, 14, \<lparr>m_buffer = pl\<rparr>)"
proof -
  define h where "h = EthernetHeader_new False\<lparr>eth_source := src, eth_destination := dst, m_lengthType := proto\<rparr>"
  have ok: "ethernet_ok h" and b: "ethernet_bytes h = eth_bytes src dst proto" and p: "\<not> m_enPreambleSfd h"
    using assms by (simp_all add: h_def ethernet_ok_def ethernet_bytes_def eth_bytes_def EthernetHeader_new_def)
  have "EthernetHeader_Deserialize (EthernetHeader_new False) (Begin (eth_bytes src dst proto @ pl)) = Some (h, 14)"
    using ethernet_deserialize [OF ok, of "EthernetHeader_new False" pl] p unfolding b
    by (simp add: Begin_def Let_def EthernetHeader_GetSerializedSize_def EthernetHeader_new_def LENGTH_SIZE_def
        MAC_ADDR_SIZE_def h_def)
  moreover have "length (eth_bytes src dst proto) = 14" using assms by (simp add: eth_bytes_def)
  ultimately show ?thesis by (simp add: RemoveHeader_def h_def)
qed

lemma remove_fcs:
  "Packet_RemoveTrailer EthernetTrailer_Deserialize EthernetTrailer_new \<lparr>m_buffer = bs @ le_bytes 4 v\<rparr> =
    Some (EthernetTrailer_new\<lparr>m_fcs := v\<rparr>, 4, \<lparr>m_buffer = bs\<rparr>)"
  using fcs.Remove_bytes [of "\<lparr>m_buffer = bs @ le_bytes 4 v\<rparr>" bs "EthernetTrailer_new\<lparr>m_fcs := v\<rparr>" EthernetTrailer_new]
  by (simp add: EthernetTrailer_GetSerializedSize_def)

lemma Receive_frame:
  assumes "valid_request (dev_class (net_devices net d)) req" and "P2p_GetRemote d net = Some remote"
    and "em (wire_frame env (dev_class (net_devices net d)) req) = (False, wire_frame env (dev_class (net_devices net d)) req)"
  shows "P2p_Receive env em d (wire_frame env (dev_class (net_devices net d)) req) net =
    Some (net\<lparr>net_upcalls := net_upcalls net @ upcalls_of d (net_devices net d) remote req\<rparr>)"
proof -
  obtain src dst proto p where req: "req = (src, dst, proto, p)" by (cases req)
  show ?thesis
  proof (cases "dev_class (net_devices net d)")
    case PointToPointNetDevice
    then show ?thesis using assms req
      by (simp add: P2p_Receive_def PointToPoint_Receive_def Ppp_ProcessHeader_frame)
  next
    case BridgedPointToPointNetDevice
    define bs where "bs = eth_bytes src dst proto @ m_buffer p"
    define v where "v = (if ChecksumEnabled env then CRC32Calculate bs else 0)"
    have f: "wire_frame env BridgedPointToPointNetDevice req = \<lparr>m_buffer = bs @ le_bytes 4 v\<rparr>"
      by (simp add: wire_frame_def req Let_def bs_def v_def)
    have l: "length src = 6" "length dst = 6" using assms(1) BridgedPointToPointNetDevice req by simp_all
    have h: "RemoveHeader EthernetHeader_Deserialize (EthernetHeader_new False) \<lparr>m_buffer = bs\<rparr> =
        Some (EthernetHeader_new False\<lparr>eth_source := src, eth_destination := dst, m_lengthType := proto\<rparr>, 14, p)"
      unfolding bs_def by (simp add: remove_ethernet [OF l])
    have c: "CheckFcs \<lparr>m_buffer = bs\<rparr> (if ChecksumEnabled env then EnableFcs True (EthernetTrailer_new\<lparr>m_fcs := v\<rparr>)
        else EthernetTrailer_new\<lparr>m_fcs := v\<rparr>)"
      by (simp add: CheckFcs_def EnableFcs_def EthernetTrailer_new_def v_def)
    show ?thesis using assms(2,3) c BridgedPointToPointNetDevice
      by (simp add: P2p_Receive_def Bridged_Receive_def f [unfolded req] remove_fcs h req)
  qed
qed

lemma Receive_lost:
  assumes "em p = (True, p')"
  shows "P2p_Receive env em d p net = Some net"
  using assms by (simp add: P2p_Receive_def PointToPoint_Receive_def Bridged_Receive_def split: DeviceClass.splits)

section \<open>Damage\<close>

lemma wire_frame_good:
  assumes "ChecksumEnabled env"
  shows "frame_good (wire_bytes env BridgedPointToPointNetDevice req)"
  using assms check_residue by (cases req) (simp add: frame_good_def Let_def del: append_assoc foldl_append)

text \<open>A frame that the check finds is dropped without a call to the layer above.\<close>

lemma Receive_bad:
  assumes "ChecksumEnabled env" and "dev_class (net_devices net d) = BridgedPointToPointNetDevice"
    and "em p = (False, p')" and "4 \<le> length (m_buffer p')" and "\<not> frame_good (m_buffer p')"
  shows "P2p_Receive env em d p net = Some net"
proof -
  obtain fcs where "Packet_RemoveTrailer EthernetTrailer_Deserialize EthernetTrailer_new p' =
      Some (EthernetTrailer_new\<lparr>m_fcs := fcs\<rparr>, 4, p'\<lparr>m_buffer := take (length (m_buffer p') - 4) (m_buffer p')\<rparr>)"
    and "CheckFcs (p'\<lparr>m_buffer := take (length (m_buffer p') - 4) (m_buffer p')\<rparr>)
      (EnableFcs True (EthernetTrailer_new\<lparr>m_fcs := fcs\<rparr>)) = frame_good (m_buffer p')"
    using remove_and_check [of p' "length (m_buffer p') - 4" EthernetTrailer_new] assms(4) by auto
  then show ?thesis using assms by (simp add: P2p_Receive_def Bridged_Receive_def)
qed

end
