(* ===== verification/P2p_Link.thy ===== *)
theory P2p_Link
  imports P2p_Device
begin

text \<open>
  Devices and channels at work: \<open>p2p_run\<close> puts up links, sends packets and runs events in any order the simulator
  allows.  The invariant says that what a device accepted is, in order, what the other end has received, what is on its way and what is
  queued.
\<close>

section \<open>Events\<close>

text \<open>The scheduler in time order, as a function on sorted lists.\<close>

fun insert_at :: "nat \<Rightarrow> 'e \<Rightarrow> (nat \<times> 'e) list \<Rightarrow> (nat \<times> 'e) list" where
  "insert_at t e [] = [(t, e)]"
| "insert_at t e ((u, f) # es) = (if u \<le> t then (u, f) # insert_at t e es else (t, e) # (u, f) # es)"

lemma insert_at_parts:
  "(\<forall>x\<in>set xs. fst x \<le> t) \<Longrightarrow> (\<forall>y\<in>set ys. t < fst y) \<Longrightarrow> insert_at t e (xs @ ys) = xs @ (t, e) # ys"
proof (induction xs)
  case Nil
  then show ?case by (cases ys) auto
qed auto

lemma in_time_order_insert_at: "in_time_order insert_at"
proof -
  have "\<exists>xs ys. es = xs @ ys \<and> insert_at t e es = xs @ (t, e) # ys \<and> (\<forall>x\<in>set xs. fst x \<le> t) \<and> (\<forall>y\<in>set ys. t < fst y)"
    if "sorted (map fst es)" for t e and es :: "(nat \<times> 'a) list"
  proof -
    let ?xs = "takeWhile (\<lambda>x. fst x \<le> t) es" and ?ys = "dropWhile (\<lambda>x. fst x \<le> t) es"
    have x: "\<forall>x\<in>set ?xs. fst x \<le> t" by (auto dest: set_takeWhileD)
    have y: "\<forall>y\<in>set ?ys. t < fst y"
    proof (cases ?ys)
      case (Cons y ys)
      then have "\<not> fst y \<le> t" by (metis hd_dropWhile list.discI list.sel(1))
      moreover have "sorted (map fst ?ys)" using that by (metis sorted_append map_append takeWhile_dropWhile_id)
      ultimately show ?thesis using Cons by fastforce
    next
      case Nil
      show ?thesis unfolding Nil by simp
    qed
    show ?thesis using insert_at_parts [OF x y, of e] x y by (intro exI [of _ ?xs] exI [of _ ?ys]) simp
  qed
  then show ?thesis unfolding in_time_order_def by blast
qed

lemma Insert_eq:
  assumes "env_ok env" and "sorted (map fst es)"
  shows "Insert env t e es = insert_at t e es"
proof -
  obtain xs ys where "es = xs @ ys" "Insert env t e es = xs @ (t, e) # ys" "\<forall>x\<in>set xs. fst x \<le> t" "\<forall>y\<in>set ys. t < fst y"
    using assms unfolding env_ok_def in_time_order_def by metis
  then show ?thesis using insert_at_parts by metis
qed

fun in_flight :: "nat \<Rightarrow> (nat \<times> P2pEvent) list \<Rightarrow> Packet list" where
  "in_flight r [] = []"
| "in_flight r ((t, CompleteEvent d) # es) = in_flight r es"
| "in_flight r ((t, ReceiveEvent d p) # es) = (if d = r then p # in_flight r es else in_flight r es)"

definition completions :: "nat \<Rightarrow> (nat \<times> P2pEvent) list \<Rightarrow> nat" where
  "completions d es = length (filter (\<lambda>e. snd e = CompleteEvent d) es)"

lemma completions_simps [simp]:
  "completions d [] = 0" "completions d ((t, e) # es) = (if e = CompleteEvent d then 1 else 0) + completions d es"
  by (simp_all add: completions_def)

lemma insert_at_set [simp]: "set (insert_at t e es) = insert (t, e) (set es)"
  by (induction t e es rule: insert_at.induct) auto

lemma insert_at_sorted: "sorted (map fst es) \<Longrightarrow> sorted (map fst (insert_at t e es))"
  by (induction t e es rule: insert_at.induct) auto

lemma insert_at_completions [simp]:
  "completions d (insert_at t e es) = (if e = CompleteEvent d then 1 else 0) + completions d es"
  by (induction t e es rule: insert_at.induct) auto

lemma in_flight_Cons:
  "in_flight r (x # es) = (case snd x of CompleteEvent d \<Rightarrow> [] | ReceiveEvent d p \<Rightarrow> if d = r then [p] else []) @ in_flight r es"
  by (cases x; cases "snd x") auto

lemma in_flight_insert_other:
  assumes "\<forall>p. e \<noteq> ReceiveEvent r p"
  shows "in_flight r (insert_at t e es) = in_flight r es"
  using assms by (induction t e es rule: insert_at.induct) (auto simp: in_flight_Cons simp del: in_flight.simps(2,3) split: P2pEvent.splits)

lemma in_flight_none: "(\<forall>t p. (t, ReceiveEvent r p) \<notin> set es) \<Longrightarrow> in_flight r es = []"
proof (induction es)
  case (Cons x es)
  then show ?case by (cases x; cases "snd x") auto
qed simp

lemma in_flight_insert_last:
  assumes "sorted (map fst es)" and "\<forall>u q. (u, ReceiveEvent r q) \<in> set es \<longrightarrow> u \<le> t"
  shows "in_flight r (insert_at t (ReceiveEvent r p) es) = in_flight r es @ [p]"
  using assms
proof (induction es)
  case Nil
  then show ?case by simp
next
  case (Cons x es)
  obtain u f where x: "x = (u, f)" by (cases x)
  show ?case
  proof (cases "u \<le> t")
    case True
    then show ?thesis using Cons x by (cases f) auto
  next
    case False
    then have "\<forall>s q. (s, ReceiveEvent r q) \<notin> set (x # es)" using Cons.prems x by fastforce
    then have "in_flight r (x # es) = []" by (rule in_flight_none)
    then show ?thesis using x False by simp
  qed
qed

lemma completions_none: "completions d es = 0 \<longleftrightarrow> (\<forall>t. (t, CompleteEvent d) \<notin> set es)"
  by (force simp: completions_def filter_empty_conv)

section \<open>Topology\<close>

definition half :: "nat \<Rightarrow> nat \<Rightarrow> P2pLink" where
  "half a b = \<lparr>link_state = LINK_IDLE, link_src = Some a, link_dst = Some b\<rparr>"

definition linked :: "P2pNet \<Rightarrow> nat \<Rightarrow> nat \<Rightarrow> bool" where
  "linked net d r \<longleftrightarrow> d \<noteq> r \<and> dev_class (net_devices net d) = dev_class (net_devices net r) \<and>
     (\<exists>c. dev_channel (net_devices net d) = Some c \<and> dev_channel (net_devices net r) = Some c \<and>
        chan_nDevices (net_channels net c) = 2 \<and>
        (chan_link (net_channels net c) = [half d r, half r d] \<or> chan_link (net_channels net c) = [half r d, half d r]))"

definition chan_of :: "P2pNet \<Rightarrow> nat \<Rightarrow> P2pChannel" where
  "chan_of net d = net_channels net (the (dev_channel (net_devices net d)))"

lemma linked_sym: "linked net d r \<Longrightarrow> linked net r d"
  by (auto simp: linked_def)

lemma linked_fun: "linked net d r \<Longrightarrow> linked net d r' \<Longrightarrow> r = r'"
  by (auto simp: linked_def half_def)

lemma linked_inj: "linked net d r \<Longrightarrow> linked net d' r \<Longrightarrow> d = d'"
  using linked_fun linked_sym by blast

lemma linked_remote: "linked net d r \<Longrightarrow> P2p_GetRemote d net = Some (dev_address (net_devices net r))"
  by (auto simp: linked_def P2p_GetRemote_def half_def)

text \<open>Channels, and of the devices what neither sending nor events change.\<close>

definition same_wiring :: "P2pNet \<Rightarrow> P2pNet \<Rightarrow> bool" where
  "same_wiring net' net \<longleftrightarrow> net_channels net' = net_channels net \<and> (\<forall>d.
     dev_class (net_devices net' d) = dev_class (net_devices net d) \<and>
     dev_channel (net_devices net' d) = dev_channel (net_devices net d) \<and>
     dev_address (net_devices net' d) = dev_address (net_devices net d) \<and>
     dev_linkUp (net_devices net' d) = dev_linkUp (net_devices net d) \<and>
     dev_promisc (net_devices net' d) = dev_promisc (net_devices net d))"

lemma wiring_device:
  assumes "same_wiring net' net"
  shows "net_channels net' = net_channels net" "dev_class (net_devices net' d) = dev_class (net_devices net d)"
    "dev_channel (net_devices net' d) = dev_channel (net_devices net d)"
    "dev_address (net_devices net' d) = dev_address (net_devices net d)"
    "dev_linkUp (net_devices net' d) = dev_linkUp (net_devices net d)"
    "dev_promisc (net_devices net' d) = dev_promisc (net_devices net d)"
    "linked net' d r = linked net d r" "chan_of net' d = chan_of net d"
  using assms by (simp_all add: same_wiring_def linked_def chan_of_def)

lemma same_wiring_trans: "same_wiring a b \<Longrightarrow> same_wiring b c \<Longrightarrow> same_wiring a c"
  by (simp add: same_wiring_def)

section \<open>Invariant\<close>

text \<open>
  \<open>hand d\<close>: frames that device \<open>d\<close> has taken from its queue and not begun to transmit, as in the middle of a step.
\<close>

definition tx_ok :: "(nat \<Rightarrow> QueueSize) \<Rightarrow> (nat \<Rightarrow> Packet list) \<Rightarrow> P2pNet \<Rightarrow> nat \<Rightarrow> bool" where
  "tx_ok L hand net d \<longleftrightarrow> (let dev = net_devices net d in
     dt_inv P2pPacket_GetSize (L d) (dev_queue dev) \<and>
     (dev_currentPkt dev = None \<longleftrightarrow> dev_txMachineState dev = P2P_READY) \<and>
     completions d (net_events net) = (if dev_txMachineState dev = P2P_READY then 0 else 1) \<and>
     (dev_txMachineState dev = P2P_READY \<and> hand d = [] \<longrightarrow> m_packets (dev_queue dev) = []) \<and>
     (dev_txMachineState dev = P2P_BUSY \<longrightarrow> hand d = []) \<and>
     (dev_linkUp dev \<longleftrightarrow> (\<exists>r. linked net d r)) \<and> (dev_linkUp dev \<longleftrightarrow> dev_channel dev \<noteq> None) \<and>
     (dev_txMachineState dev = P2P_BUSY \<longrightarrow> dev_linkUp dev))"

definition time_ok :: "P2pNet \<Rightarrow> bool" where
  "time_ok net \<longleftrightarrow> sorted (map fst (net_events net)) \<and> (\<forall>e\<in>set (net_events net). net_now net \<le> fst e)"

text \<open>No frame on its way to \<open>r\<close> arrives after one that \<open>d\<close> begins to transmit next.\<close>

definition order_ok :: "P2pNet \<Rightarrow> nat \<Rightarrow> nat \<Rightarrow> bool" where
  "order_ok net d r \<longleftrightarrow> (\<forall>t p. (t, ReceiveEvent r p) \<in> set (net_events net) \<longrightarrow>
     (\<forall>u. (u, CompleteEvent d) \<in> set (net_events net) \<longrightarrow> t \<le> u + chan_delay (chan_of net d)) \<and>
     (dev_txMachineState (net_devices net d) = P2P_READY \<longrightarrow> t \<le> net_now net + chan_delay (chan_of net d)))"

definition flow_ok ::
  "p2p_env \<Rightarrow> (nat \<Rightarrow> request list) \<Rightarrow> (nat \<Rightarrow> Packet list) \<Rightarrow> (nat \<Rightarrow> Packet list) \<Rightarrow> P2pNet \<Rightarrow> nat \<Rightarrow> nat \<Rightarrow> bool" where
  "flow_ok env acc rcv hand net d r \<longleftrightarrow>
     map (wire_frame env (dev_class (net_devices net d))) (acc d) =
       rcv r @ in_flight r (net_events net) @ hand d @ m_packets (dev_queue (net_devices net d))"

definition p2p_inv ::
  "p2p_env \<Rightarrow> (nat \<Rightarrow> QueueSize) \<Rightarrow> (nat \<Rightarrow> request list) \<Rightarrow> (nat \<Rightarrow> Packet list) \<Rightarrow> (nat \<Rightarrow> Packet list) \<Rightarrow> P2pNet \<Rightarrow> bool"
  where
  "p2p_inv env L acc rcv hand net \<longleftrightarrow> time_ok net \<and> (\<forall>d. tx_ok L hand net d) \<and>
     (\<forall>d r. linked net d r \<longrightarrow> order_ok net d r \<and> flow_ok env acc rcv hand net d r) \<and>
     (\<forall>t r p. (t, ReceiveEvent r p) \<in> set (net_events net) \<longrightarrow> (\<exists>d. linked net d r)) \<and>
     (\<forall>d. (\<not> dev_linkUp (net_devices net d) \<longrightarrow> acc d = [] \<and> rcv d = [])) \<and>
     (\<forall>d. \<forall>req\<in>set (acc d). valid_request (dev_class (net_devices net d)) req)"

abbreviation nothing :: "nat \<Rightarrow> 'b list" where
  "nothing \<equiv> \<lambda>_. []"

section \<open>Beginning to transmit\<close>

lemma TransmitStart_eq:
  assumes "dev_txMachineState (net_devices net d) = P2P_READY" and "linked net d r"
  shows "P2p_TransmitStart env d p net =
    (let tx = CalculateBytesTxTime env d (P2pPacket_GetSize p) in
     Some (True, Schedule_event env (tx + chan_delay (chan_of net d)) (ReceiveEvent r p)
       (Schedule_event env (tx + dev_tInterframeGap (net_devices net d)) (CompleteEvent d)
          (set_device d (net_devices net d\<lparr>dev_txMachineState := P2P_BUSY, dev_currentPkt := Some p\<rparr>) net))))"
  using assms
  by (auto simp: P2p_TransmitStart_def linked_def P2p_Channel_TransmitStart_def Let_def half_def Schedule_event_def
      set_device_def chan_of_def)

lemma TransmitStart_some:
  assumes "dev_txMachineState (net_devices net d) = P2P_READY" and "linked net d r" and "env_ok env" and "time_ok net"
  obtains net' tx where "P2p_TransmitStart env d p net = Some (True, net')"
    and "net_events net' = insert_at (net_now net + (tx + chan_delay (chan_of net d))) (ReceiveEvent r p)
      (insert_at (net_now net + (tx + dev_tInterframeGap (net_devices net d))) (CompleteEvent d) (net_events net))"
    and "net_devices net' =
      (net_devices net)(d := net_devices net d\<lparr>dev_txMachineState := P2P_BUSY, dev_currentPkt := Some p\<rparr>)"
    and "net_now net' = net_now net" and "same_wiring net' net" and "net_upcalls net' = net_upcalls net"
proof (rule that, unfold TransmitStart_eq [OF assms(1,2)] Let_def, rule refl)
qed (use assms(4) in \<open>simp_all add: Schedule_event_def set_device_def same_wiring_def Insert_eq [OF assms(3)] time_ok_def
      insert_at_sorted\<close>)

lemma order_start:
  assumes o: "order_ok net a b" and ab: "linked net a b" and lk: "linked net d r"
    and st: "dev_txMachineState (net_devices net d) = P2P_READY" and nc: "\<And>u. (u, CompleteEvent d) \<notin> set (net_events net)"
    and ev: "net_events net' = insert_at (net_now net + (tx + chan_delay (chan_of net d))) (ReceiveEvent r p)
      (insert_at (net_now net + (tx + gap)) (CompleteEvent d) (net_events net))"
    and dev: "net_devices net' =
      (net_devices net)(d := net_devices net d\<lparr>dev_txMachineState := P2P_BUSY, dev_currentPkt := Some p\<rparr>)"
    and now: "net_now net' = net_now net" and w: "same_wiring net' net"
  shows "order_ok net' a b"
proof (cases "a = d")
  case True
  then have b: "b = r" using linked_fun lk ab by blast
  have "t \<le> net_now net + chan_delay (chan_of net d)" if "(t, ReceiveEvent r q) \<in> set (net_events net)" for t q
    using o st True b that by (auto simp: order_ok_def)
  then show ?thesis using nc True b unfolding order_ok_def wiring_device [OF w] by (fastforce simp: ev dev)
next
  case False
  then have "b \<noteq> r" using linked_inj lk ab by blast
  then show ?thesis using o False unfolding order_ok_def wiring_device [OF w] by (simp add: ev dev now)
qed

lemma start_inv:
  assumes inv: "p2p_inv env L acc rcv (nothing(d := [p])) net" and lk: "linked net d r"
    and st: "dev_txMachineState (net_devices net d) = P2P_READY" and ok: "env_ok env"
  shows "\<exists>net'. P2p_TransmitStart env d p net = Some (True, net') \<and> p2p_inv env L acc rcv nothing net' \<and>
    same_wiring net' net \<and> net_upcalls net' = net_upcalls net"
proof -
  obtain net' tx where eq: "P2p_TransmitStart env d p net = Some (True, net')"
    and ev: "net_events net' = insert_at (net_now net + (tx + chan_delay (chan_of net d))) (ReceiveEvent r p)
      (insert_at (net_now net + (tx + dev_tInterframeGap (net_devices net d))) (CompleteEvent d) (net_events net))"
    and dev: "net_devices net' =
      (net_devices net)(d := net_devices net d\<lparr>dev_txMachineState := P2P_BUSY, dev_currentPkt := Some p\<rparr>)"
    and now: "net_now net' = net_now net" and w: "same_wiring net' net" and up: "net_upcalls net' = net_upcalls net"
    using TransmitStart_some [OF st lk ok, of p] inv unfolding p2p_inv_def by metis
  note S = wiring_device [OF w]
  have t: "time_ok net" and x: "tx_ok L (nothing(d := [p])) net e" for e using inv by (simp_all add: p2p_inv_def)
  have nc: "(u, CompleteEvent d) \<notin> set (net_events net)" for u
    using x [of d] st completions_none [of d "net_events net"] by (auto simp: tx_ok_def Let_def)
  have o: "order_ok net a b" "flow_ok env acc rcv (nothing(d := [p])) net a b" if "linked net a b" for a b
    using inv that by (simp_all add: p2p_inv_def)
  have t': "time_ok net'" using t unfolding time_ok_def ev now by (auto intro!: insert_at_sorted)
  have x': "tx_ok L nothing net' e" for e
    using x [of e] st lk unfolding tx_ok_def S Let_def by (auto simp: ev dev)
  have o': "order_ok net' a b" if "linked net a b" for a b
    using order_start [OF o(1) [OF that] that lk st nc ev dev now w] .
  have f': "flow_ok env acc rcv nothing net' a b" if ab: "linked net a b" for a b
  proof (cases "a = d")
    case True
    then have b: "b = r" using linked_fun lk ab by blast
    have "in_flight r (net_events net') = in_flight r (insert_at
        (net_now net + (tx + dev_tInterframeGap (net_devices net d))) (CompleteEvent d) (net_events net)) @ [p]"
      unfolding ev
    proof (rule in_flight_insert_last)
      show "sorted (map fst (insert_at (net_now net + (tx + dev_tInterframeGap (net_devices net d))) (CompleteEvent d)
          (net_events net)))"
        using t by (simp add: time_ok_def insert_at_sorted)
      have "u \<le> net_now net + chan_delay (chan_of net d)" if "(u, ReceiveEvent r q) \<in> set (net_events net)" for u q
        using o(1) [OF lk] st that by (auto simp: order_ok_def)
      then show "\<forall>u q. (u, ReceiveEvent r q) \<in> set (insert_at (net_now net + (tx + dev_tInterframeGap (net_devices net d)))
          (CompleteEvent d) (net_events net)) \<longrightarrow> u \<le> net_now net + (tx + chan_delay (chan_of net d))" by fastforce
    qed
    then have "in_flight r (net_events net') = in_flight r (net_events net) @ [p]" by (simp add: in_flight_insert_other)
    then show ?thesis using o(2) [OF lk] True b unfolding flow_ok_def S by (simp add: dev)
  next
    case False
    then have "b \<noteq> r" using linked_inj lk ab by blast
    then have "in_flight b (net_events net') = in_flight b (net_events net)" unfolding ev by (simp add: in_flight_insert_other)
    then show ?thesis using o(2) [OF ab] False unfolding flow_ok_def S by (simp add: dev)
  qed
  have e': "\<exists>d. linked net d b" if "(u, ReceiveEvent b q) \<in> set (net_events net')" for u b q
  proof (cases "(u, ReceiveEvent b q) \<in> set (net_events net)")
    case True
    then show ?thesis using inv unfolding p2p_inv_def by blast
  next
    case False
    then show ?thesis using lk that by (auto simp: ev)
  qed
  have "p2p_inv env L acc rcv nothing net'"
    unfolding p2p_inv_def S using inv t' x' o' f' e' by (auto simp: p2p_inv_def)
  then show ?thesis using eq w up by blast
qed

section \<open>Preservation\<close>

text \<open>
  Runs of the links: devices are attached in pairs, packets are sent at any time, and the pending events are run in
  order.  Every step keeps the invariant of \<open>P2p_Link\<close>, and none fails.
\<close>

section \<open>Sending\<close>

lemma queue_update_inv:
  assumes inv: "p2p_inv env L acc rcv nothing net" and q: "dt_inv P2pPacket_GetSize (L d) q"
    and qs: "m_packets (dev_queue (net_devices net d)) @ map (wire_frame env (dev_class (net_devices net d))) reqs =
      h @ m_packets q"
    and ready: "dev_txMachineState (net_devices net d) = P2P_READY \<Longrightarrow> h = [] \<Longrightarrow> m_packets q = []"
    and busy: "dev_txMachineState (net_devices net d) = P2P_BUSY \<Longrightarrow> h = []"
    and up: "dev_linkUp (net_devices net d)" and v: "\<forall>req\<in>set reqs. valid_request (dev_class (net_devices net d)) req"
    and net': "net' = set_device d (net_devices net d\<lparr>dev_queue := q\<rparr>) net"
  shows "p2p_inv env L (acc(d := acc d @ reqs)) rcv (nothing(d := h)) net'" and "same_wiring net' net"
proof -
  show w: "same_wiring net' net" by (simp add: same_wiring_def net' set_device_def)
  have dev: "net_devices net' = (net_devices net)(d := net_devices net d\<lparr>dev_queue := q\<rparr>)"
    and ev: "net_events net' = net_events net" and now: "net_now net' = net_now net"
    by (simp_all add: net' set_device_def)
  note S = wiring_device [OF w]
  have x: "tx_ok L (nothing(d := h)) net' e" for e
  proof -
    have "tx_ok L nothing net e" using inv by (simp add: p2p_inv_def)
    then show ?thesis using q ready busy unfolding tx_ok_def S Let_def by (auto simp: dev ev)
  qed
  have "order_ok net' a b" if "linked net a b" for a b
  proof -
    have "order_ok net a b" using inv that by (simp add: p2p_inv_def)
    then show ?thesis unfolding order_ok_def S by (auto simp: dev ev now)
  qed
  moreover have "flow_ok env (acc(d := acc d @ reqs)) rcv (nothing(d := h)) net' a b" if "linked net a b" for a b
  proof -
    have "flow_ok env acc rcv nothing net a b" using inv that by (simp add: p2p_inv_def)
    then show ?thesis unfolding flow_ok_def S using qs by (auto simp: dev ev)
  qed
  moreover have "time_ok net'" using inv by (simp add: p2p_inv_def time_ok_def ev now)
  ultimately show "p2p_inv env L (acc(d := acc d @ reqs)) rcv (nothing(d := h)) net'"
    using x inv v up unfolding p2p_inv_def S by (auto simp: ev)
qed

lemma EnqueueAndStart_inv:
  assumes ok: "env_ok env" and inv: "p2p_inv env L acc rcv nothing net" and up: "dev_linkUp (net_devices net d)"
    and v: "valid_request (dev_class (net_devices net d)) req"
    and g: "good_item P2pPacket_GetSize (L d) (wire_frame env (dev_class (net_devices net d)) req)"
  shows "\<exists>b net'. P2p_EnqueueAndStart env d (wire_frame env (dev_class (net_devices net d)) req) net = Some (b, net') \<and>
    p2p_inv env L (if b then acc(d := acc d @ [req]) else acc) rcv nothing net' \<and> same_wiring net' net \<and>
    net_upcalls net' = net_upcalls net"
proof -
  let ?dev = "net_devices net d"
  let ?f = "wire_frame env (dev_class ?dev) req"
  have x: "tx_ok L nothing net d" using inv by (simp add: p2p_inv_def)
  then have dt: "dt_inv P2pPacket_GetSize (L d) (dev_queue ?dev)"
    and idle: "dev_txMachineState ?dev = P2P_READY \<Longrightarrow> m_packets (dev_queue ?dev) = []"
    by (simp_all add: tx_ok_def Let_def)
  obtain b q where e: "Enqueue P2pPacket_GetSize ?f (dev_queue ?dev) = (b, q)" by force
  note spec = Enqueue_spec [OF dt g, unfolded e fst_conv snd_conv]
  let ?net1 = "set_device d (?dev\<lparr>dev_queue := q\<rparr>) net"
  show ?thesis
  proof (cases b)
    case False
    have "p2p_inv env L (acc(d := acc d @ [])) rcv (nothing(d := [])) ?net1" and w: "same_wiring ?net1 net"
      using queue_update_inv [OF inv spec(3), where reqs = "[]" and h = "[]"] spec(2) False idle up by simp_all
    then have "p2p_inv env L acc rcv nothing ?net1" by (simp add: fun_upd_idem)
    then show ?thesis using False w e
      by (intro exI [of _ False] exI [of _ ?net1]) (simp add: P2p_EnqueueAndStart_def set_device_def)
  next
    case True
    show ?thesis
    proof (cases "dev_txMachineState ?dev")
      case P2P_READY
      then have q: "m_packets q = [?f]" using spec(2) True idle by simp
      obtain r q2 where d: "Dequeue P2pPacket_GetSize q = (r, q2)" by force
      have dq: "r = Some ?f" "m_packets q2 = []" "dt_inv P2pPacket_GetSize (L d) q2"
        using Dequeue_spec [OF spec(3)] q d by simp_all
      let ?net2 = "set_device d (?dev\<lparr>dev_queue := q2\<rparr>) net"
      have i2: "p2p_inv env L (acc(d := acc d @ [req])) rcv (nothing(d := [?f])) ?net2" and w: "same_wiring ?net2 net"
        using queue_update_inv [OF inv dq(3), where reqs = "[req]" and h = "[?f]"] dq(2) P2P_READY idle up v by simp_all
      obtain r' where "linked net d r'" using x up by (auto simp: tx_ok_def Let_def)
      then have lk: "linked ?net2 d r'" using wiring_device(7) [OF w] by simp
      have "dev_txMachineState (net_devices ?net2 d) = P2P_READY" using P2P_READY by (simp add: set_device_def)
      from start_inv [OF i2 lk this ok] obtain net' where "P2p_TransmitStart env d ?f ?net2 = Some (True, net')"
        "p2p_inv env L (acc(d := acc d @ [req])) rcv nothing net'" "same_wiring net' ?net2" "net_upcalls net' = net_upcalls ?net2"
        by blast
      moreover have "P2p_EnqueueAndStart env d ?f net = P2p_TransmitStart env d ?f ?net2"
        using e True P2P_READY d dq(1) by (simp add: P2p_EnqueueAndStart_def)
      moreover have "net_upcalls ?net2 = net_upcalls net" by (simp add: set_device_def)
      ultimately show ?thesis using w same_wiring_trans by (intro exI [of _ True] exI [of _ net']) auto
    next
      case P2P_BUSY
      have i: "p2p_inv env L (acc(d := acc d @ [req])) rcv (nothing(d := [])) ?net1" and w: "same_wiring ?net1 net"
        using queue_update_inv [OF inv spec(3), where reqs = "[req]" and h = "[]"] spec(2) True P2P_BUSY up v by simp_all
      moreover have "p2p_inv env L (acc(d := acc d @ [req])) rcv nothing ?net1" using i by (simp add: fun_upd_idem)
      ultimately show ?thesis using e True P2P_BUSY
        by (intro exI [of _ True] exI [of _ ?net1]) (simp add: P2p_EnqueueAndStart_def set_device_def)
    qed
  qed
qed

section \<open>Events\<close>

lemma p2p_complete_inv:
  assumes ok: "env_ok env" and inv: "p2p_inv env L acc rcv nothing net" and e: "net_events net = (t, CompleteEvent d) # es"
  shows "\<exists>net'. P2p_TransmitComplete env d (net\<lparr>net_now := t, net_events := es\<rparr>) = Some net' \<and>
    p2p_inv env L acc rcv nothing net' \<and> same_wiring net' net \<and> net_upcalls net' = net_upcalls net"
proof -
  let ?dev = "net_devices net d" and ?net0 = "net\<lparr>net_now := t, net_events := es\<rparr>"
  have x: "tx_ok L nothing net c" for c using inv by (simp add: p2p_inv_def)
  have busy: "dev_txMachineState ?dev = P2P_BUSY" "dev_currentPkt ?dev \<noteq> None" and up: "dev_linkUp ?dev"
    and dt: "dt_inv P2pPacket_GetSize (L d) (dev_queue ?dev)" and cs: "completions d es = 0"
    using x [of d] e by (cases "dev_txMachineState ?dev"; auto simp: tx_ok_def Let_def)+
  obtain r where lk: "linked net d r" using x [of d] up by (auto simp: tx_ok_def Let_def)
  obtain h q where dq: "Dequeue P2pPacket_GetSize (dev_queue ?dev) = (h, q)" by force
  note spec = Dequeue_spec [OF dt, unfolded dq fst_conv snd_conv]
  let ?hs = "case h of None \<Rightarrow> [] | Some p \<Rightarrow> [p]"
  have qs: "m_packets (dev_queue ?dev) = ?hs @ m_packets q" and qe: "?hs = [] \<Longrightarrow> m_packets q = []"
    using spec by (auto split: list.splits)
  define net1 where "net1 = set_device d (?dev\<lparr>dev_txMachineState := P2P_READY, dev_currentPkt := None, dev_queue := q\<rparr>) ?net0"
  have w: "same_wiring net1 net" by (simp add: same_wiring_def net1_def set_device_def)
  note S = wiring_device [OF w]
  have dev: "net_devices net1 = (net_devices net)(d := ?dev\<lparr>dev_txMachineState := P2P_READY, dev_currentPkt := None, dev_queue := q\<rparr>)"
    and ev: "net_events net1 = es" and now: "net_now net1 = t" and upc: "net_upcalls net1 = net_upcalls net"
    by (simp_all add: net1_def set_device_def)
  have tm: "time_ok net" using inv by (simp add: p2p_inv_def)
  then have tn: "net_now net \<le> t" by (simp add: time_ok_def e)
  have x1: "tx_ok L (nothing(d := ?hs)) net1 c" for c
    using x [of c] spec(3) cs qe unfolding tx_ok_def S Let_def by (auto simp: dev ev e split: if_splits)
  have o1: "order_ok net1 a b" if "linked net a b" for a b
  proof -
    have "order_ok net a b" using inv that by (simp add: p2p_inv_def)
    then show ?thesis unfolding order_ok_def S using tn by (fastforce simp: dev ev e now)
  qed
  have f1: "flow_ok env acc rcv (nothing(d := ?hs)) net1 a b" if "linked net a b" for a b
  proof -
    have "flow_ok env acc rcv nothing net a b" using inv that by (simp add: p2p_inv_def)
    then show ?thesis unfolding flow_ok_def S using qs by (simp add: dev ev e)
  qed
  have "time_ok net1" using tm by (auto simp: time_ok_def e ev now)
  then have i1: "p2p_inv env L acc rcv (nothing(d := ?hs)) net1"
    using x1 o1 f1 inv unfolding p2p_inv_def S by (auto simp: ev e)
  show ?thesis
  proof (cases h)
    case None
    then have "P2p_TransmitComplete env d ?net0 = Some net1"
      using busy dq by (simp add: P2p_TransmitComplete_def net1_def Let_def)
    moreover have "nothing(d := ?hs) = nothing" using None by auto
    ultimately show ?thesis using i1 w upc by simp
  next
    case (Some p)
    have "P2p_TransmitComplete env d ?net0 = map_option snd (P2p_TransmitStart env d p net1)"
      using busy dq Some by (auto simp: P2p_TransmitComplete_def net1_def Let_def)
    moreover have "linked net1 d r" "dev_txMachineState (net_devices net1 d) = P2P_READY"
      using lk by (simp_all add: S dev)
    moreover have "p2p_inv env L acc rcv (nothing(d := [p])) net1" using i1 Some by simp
    ultimately show ?thesis using start_inv [of env L acc rcv d p net1 r, OF _ _ _ ok] same_wiring_trans [OF _ w] upc by fastforce
  qed
qed

lemma Receive_frame_only:
  assumes "P2p_Receive env em d p net = Some net'"
  obtains us where "net' = net\<lparr>net_upcalls := us\<rparr>"
proof -
  have "net = net\<lparr>net_upcalls := net_upcalls net\<rparr>" by simp
  then have same: "\<exists>us. net = net\<lparr>net_upcalls := us\<rparr>" ..
  have "\<exists>us. net' = net\<lparr>net_upcalls := us\<rparr>" if "PointToPoint_Receive em d p net = Some net'"
    using that same by (auto simp: PointToPoint_Receive_def Let_def bind_eq_Some_conv split: prod.splits if_splits)
  moreover have "\<exists>us. net' = net\<lparr>net_upcalls := us\<rparr>" if "Bridged_Receive env em d p net = Some net'"
    using that same by (auto simp: Bridged_Receive_def Let_def bind_eq_Some_conv split: prod.splits if_splits)
  ultimately show thesis using assms that by (auto simp: P2p_Receive_def split: DeviceClass.splits)
qed

lemma receive_inv:
  assumes inv: "p2p_inv env L acc rcv nothing net" and e: "net_events net = (t, ReceiveEvent r p) # es"
  shows "p2p_inv env L acc (rcv(r := rcv r @ [p])) nothing (net\<lparr>net_now := t, net_events := es, net_upcalls := us\<rparr>)"
    and "same_wiring (net\<lparr>net_now := t, net_events := es, net_upcalls := us\<rparr>) net"
proof -
  let ?net' = "net\<lparr>net_now := t, net_events := es, net_upcalls := us\<rparr>"
  show w: "same_wiring ?net' net" by (simp add: same_wiring_def)
  note S = wiring_device [OF w]
  obtain d where lk: "linked net d r" using inv e unfolding p2p_inv_def by fastforce
  have tm: "time_ok net" using inv by (simp add: p2p_inv_def)
  then have tn: "net_now net \<le> t" by (simp add: time_ok_def e)
  have "tx_ok L nothing net r" using inv by (simp add: p2p_inv_def)
  then have up: "dev_linkUp (net_devices net r)" using linked_sym [OF lk] by (auto simp: tx_ok_def Let_def)
  have "tx_ok L nothing ?net' c" for c
  proof -
    have "tx_ok L nothing net c" using inv by (simp add: p2p_inv_def)
    then show ?thesis unfolding tx_ok_def S Let_def by (auto simp: e)
  qed
  moreover have "order_ok ?net' a b" if "linked net a b" for a b
  proof -
    have "order_ok net a b" using inv that by (simp add: p2p_inv_def)
    then show ?thesis unfolding order_ok_def S using tn by (fastforce simp: e)
  qed
  moreover have "flow_ok env acc (rcv(r := rcv r @ [p])) nothing ?net' a b" if "linked net a b" for a b
  proof -
    have "flow_ok env acc rcv nothing net a b" using inv that by (simp add: p2p_inv_def)
    then show ?thesis unfolding flow_ok_def S by (simp add: e)
  qed
  moreover have "time_ok ?net'" using tm by (auto simp: time_ok_def e)
  ultimately show "p2p_inv env L acc (rcv(r := rcv r @ [p])) nothing ?net'"
    using inv up unfolding p2p_inv_def S by (auto simp: e)
qed

section \<open>Attaching\<close>

text \<open>A channel has both its devices or none.\<close>

definition chans_ok :: "P2pNet \<Rightarrow> bool" where
  "chans_ok net \<longleftrightarrow> (\<forall>c. chan_nDevices (net_channels net c) = 2 \<or>
     chan_nDevices (net_channels net c) = 0 \<and> length (chan_link (net_channels net c)) = 2 \<and>
     (\<forall>d. dev_channel (net_devices net d) \<noteq> Some c))"

lemma attach_both:
  assumes ch: "chan_nDevices (net_channels net c) = 0" "length (chan_link (net_channels net c)) = 2" and ne: "d \<noteq> r"
    and run: "Option.bind (P2p_Attach d c net) (P2p_Attach r c) = Some net'"
  shows "net' = net\<lparr>
      net_channels := (net_channels net)(c := net_channels net c\<lparr>chan_nDevices := 2, chan_link := [half d r, half r d]\<rparr>),
      net_devices := (net_devices net)(d := net_devices net d\<lparr>dev_channel := Some c, dev_linkUp := True\<rparr>,
        r := net_devices net r\<lparr>dev_channel := Some c, dev_linkUp := True\<rparr>)\<rparr>"
proof -
  obtain l0 l1 where l: "chan_link (net_channels net c) = [l0, l1]"
    using ch(2) by (auto simp: length_Suc_conv numeral_2_eq_2)
  show ?thesis using run ne ch(1) l
    by (cases l0; cases l1) (auto simp: numeral_2_eq_2 P2p_Attach_def P2p_Channel_Attach_def set_device_def Let_def half_def fun_upd_twist bind_eq_Some_conv)
qed

lemma attach_inv:
  assumes inv: "p2p_inv env L acc rcv nothing net" and co: "chans_ok net" and ne: "d \<noteq> r"
    and cls: "dev_class (net_devices net d) = dev_class (net_devices net r)"
    and down: "\<not> dev_linkUp (net_devices net d)" "\<not> dev_linkUp (net_devices net r)"
    and ch: "chan_nDevices (net_channels net c) = 0"
    and run: "Option.bind (P2p_Attach d c net) (P2p_Attach r c) = Some net'"
  shows "p2p_inv env L acc rcv nothing net'" and "chans_ok net'"
proof -
  have free: "length (chan_link (net_channels net c)) = 2" "dev_channel (net_devices net x) \<noteq> Some c" for x
    using co [unfolded chans_ok_def, THEN spec, of c] ch by auto
  note eq = attach_both [OF ch free(1) ne run]
  have dev: "net_devices net' = (net_devices net)(d := net_devices net d\<lparr>dev_channel := Some c, dev_linkUp := True\<rparr>,
      r := net_devices net r\<lparr>dev_channel := Some c, dev_linkUp := True\<rparr>)"
    and chn: "net_channels net' = (net_channels net)(c := net_channels net c\<lparr>chan_nDevices := 2, chan_link := [half d r, half r d]\<rparr>)"
    and ev: "net_events net' = net_events net" and now: "net_now net' = net_now net"
    by (simp_all add: eq)
  have x: "tx_ok L nothing net a" for a using inv by (simp add: p2p_inv_def)
  have none: "\<not> linked net a b" "\<not> linked net b a" if "a = d \<or> a = r" for a b
    using x [of a] x [of b] down that linked_sym by (auto simp: tx_ok_def Let_def)
  have lk: "linked net' a b \<longleftrightarrow> linked net a b \<or> (a = d \<and> b = r) \<or> (a = r \<and> b = d)" for a b
  proof (cases "a = d \<or> a = r \<or> b = d \<or> b = r")
    case True
    then have "\<not> linked net a b" using none by blast
    then show ?thesis using True ne free(2) cls by (auto simp: linked_def dev chn half_def)
  next
    case False
    then have "linked net' a b = linked net a b" using free(2) [of a] unfolding linked_def dev chn by fastforce
    then show ?thesis using False by blast
  qed
  have quiet: "(t, ReceiveEvent a p) \<notin> set (net_events net)" if "a = d \<or> a = r" for t a p
    using inv none(2) [OF that] unfolding p2p_inv_def by blast
  have idle: "m_packets (dev_queue (net_devices net a)) = []" "acc a = []" "rcv a = []" if "a = d \<or> a = r" for a
    using x [of a] down that inv by (cases "dev_txMachineState (net_devices net a)"; auto simp: tx_ok_def Let_def p2p_inv_def)+
  have x': "tx_ok L nothing net' a" for a
    using x [of a] down unfolding tx_ok_def Let_def by (auto simp: dev ev lk)
  have co': "chan_of net' a = chan_of net a" if "linked net a b" for a b
    using that none free(2) by (auto simp: chan_of_def dev chn linked_def)
  have o': "order_ok net' a b \<and> flow_ok env acc rcv nothing net' a b" if "linked net' a b" for a b
  proof (cases "linked net a b")
    case True
    then have "order_ok net a b" "flow_ok env acc rcv nothing net a b" "a \<noteq> d" "a \<noteq> r"
      using inv none by (auto simp: p2p_inv_def)
    then show ?thesis using co' [OF True] unfolding order_ok_def flow_ok_def by (simp add: dev ev now)
  next
    case False
    then have ab: "(a = d \<and> b = r) \<or> (a = r \<and> b = d)" using that lk by blast
    then have "in_flight b (net_events net) = []" using quiet in_flight_none by blast
    then show ?thesis using quiet idle ab ne unfolding order_ok_def flow_ok_def by (auto simp: dev ev)
  qed
  have "time_ok net'" using inv by (simp add: p2p_inv_def time_ok_def ev now)
  then show "p2p_inv env L acc rcv nothing net'"
    using x' o' inv unfolding p2p_inv_def ev by (intro conjI; (simp add: dev lk)?; blast?)
  show "chans_ok net'" using co free(2) unfolding chans_ok_def by (auto simp: dev chn)
qed

end
