(* ===== verification/P2p_System.thy ===== *)
theory P2p_System
  imports P2p_Link
begin

text \<open>
  The states the links can reach, and what holds in all of them: no assertion fails, and running the pending events
  empties the queues.
\<close>

section \<open>Runs\<close>

definition fresh_net :: "(nat \<Rightarrow> QueueSize) \<Rightarrow> P2pNet \<Rightarrow> bool" where
  "fresh_net L net \<longleftrightarrow> net_events net = [] \<and> net_upcalls net = [] \<and>
     (\<forall>c. net_channels net c = P2pChannel_new (chan_delay (net_channels net c))) \<and>
     (\<forall>d. \<exists>cls ad gap b. net_devices net d =
        (P2pDevice_new cls ad gap (Queue_new\<lparr>m_maxSize := L d\<rparr>))\<lparr>dev_promisc := b\<rparr>)"

text \<open>
  \<open>acc d\<close>: the packets device \<open>d\<close> has accepted.  \<open>rcv r\<close>: the frames \<^verbatim>\<open>Receive\<close> of \<open>r\<close> was called with.
  \<open>errs\<close>: the error models that may be consulted.
\<close>

inductive p2p_run ::
  "p2p_env \<Rightarrow> (nat \<Rightarrow> QueueSize) \<Rightarrow> (Packet \<Rightarrow> bool \<times> Packet) set \<Rightarrow>
   (nat \<Rightarrow> request list) \<Rightarrow> (nat \<Rightarrow> Packet list) \<Rightarrow> P2pNet \<Rightarrow> bool"
  for env L errs
where
  start: "fresh_net L net \<Longrightarrow> p2p_run env L errs nothing nothing net"
| attach: "p2p_run env L errs acc rcv net \<Longrightarrow> d \<noteq> r \<Longrightarrow>
     dev_class (net_devices net d) = dev_class (net_devices net r) \<Longrightarrow>
     \<not> dev_linkUp (net_devices net d) \<Longrightarrow> \<not> dev_linkUp (net_devices net r) \<Longrightarrow>
     chan_nDevices (net_channels net c) = 0 \<Longrightarrow>
     Option.bind (P2p_Attach d c net) (P2p_Attach r c) = Some net' \<Longrightarrow> p2p_run env L errs acc rcv net'"
| send: "p2p_run env L errs acc rcv net \<Longrightarrow> valid_request (dev_class (net_devices net d)) req \<Longrightarrow>
     good_item P2pPacket_GetSize (L d) (wire_frame env (dev_class (net_devices net d)) req) \<Longrightarrow>
     P2p_Send env d req net = Some (b, net') \<Longrightarrow>
     p2p_run env L errs (if b then acc(d := acc d @ [req]) else acc) rcv net'"
| event: "p2p_run env L errs acc rcv net \<Longrightarrow> net_events net = (t, e) # es \<Longrightarrow> em \<in> errs \<Longrightarrow>
     invoke_event env em e (net\<lparr>net_now := t, net_events := es\<rparr>) = Some net' \<Longrightarrow>
     p2p_run env L errs acc (case e of ReceiveEvent r p \<Rightarrow> rcv(r := rcv r @ [p]) | CompleteEvent d \<Rightarrow> rcv) net'"

lemma fresh_inv:
  assumes "fresh_net L net"
  shows "p2p_inv env L nothing nothing nothing net" and "chans_ok net" and "\<not> dev_linkUp (net_devices net d)"
proof -
  have dev: "dev_txMachineState (net_devices net d) = P2P_READY" "dev_queue (net_devices net d) = Queue_new\<lparr>m_maxSize := L d\<rparr>"
    "dev_channel (net_devices net d) = None" "\<not> dev_linkUp (net_devices net d)" "dev_currentPkt (net_devices net d) = None" for d
  proof -
    obtain cls ad gap b where "net_devices net d = (P2pDevice_new cls ad gap (Queue_new\<lparr>m_maxSize := L d\<rparr>))\<lparr>dev_promisc := b\<rparr>"
      using assms unfolding fresh_net_def by blast
    then show "dev_txMachineState (net_devices net d) = P2P_READY" "dev_queue (net_devices net d) = Queue_new\<lparr>m_maxSize := L d\<rparr>"
      "dev_channel (net_devices net d) = None" "\<not> dev_linkUp (net_devices net d)" "dev_currentPkt (net_devices net d) = None"
      by (simp_all add: P2pDevice_new_def)
  qed
  show "\<not> dev_linkUp (net_devices net d)" by (rule dev)
  have ev: "net_events net = []" using assms by (simp add: fresh_net_def)
  have nl: "\<not> linked net a b" for a b by (simp add: linked_def dev)
  have "tx_ok L nothing net a" for a using nl
    by (simp add: tx_ok_def Let_def dev ev dt_inv_new) (simp add: Queue_new_def)
  then show "p2p_inv env L nothing nothing nothing net" by (simp add: p2p_inv_def time_ok_def ev nl)
  have "chan_nDevices (net_channels net c) = 0 \<and> length (chan_link (net_channels net c)) = 2" for c
  proof -
    have "net_channels net c = P2pChannel_new (chan_delay (net_channels net c))" using assms unfolding fresh_net_def by blast
    then show ?thesis by (simp add: P2pChannel_new_def) (metis P2pChannel.select_convs(2,3) length_Cons list.size(3) numeral_2_eq_2)
  qed
  then show "chans_ok net" by (simp add: chans_ok_def dev)
qed

lemma chans_ok_wiring: "same_wiring net' net \<Longrightarrow> chans_ok net' = chans_ok net"
  by (simp add: chans_ok_def wiring_device)

lemma p2p_send_inv:
  assumes ok: "env_ok env" and inv: "p2p_inv env L acc rcv nothing net"
    and v: "valid_request (dev_class (net_devices net d)) req"
    and g: "good_item P2pPacket_GetSize (L d) (wire_frame env (dev_class (net_devices net d)) req)"
    and s: "P2p_Send env d req net = Some (b, net')"
  shows "p2p_inv env L (if b then acc(d := acc d @ [req]) else acc) rcv nothing net' \<and> same_wiring net' net \<and>
    net_upcalls net' = net_upcalls net"
proof (cases "dev_linkUp (net_devices net d)")
  case True
  then show ?thesis using EnqueueAndStart_inv [OF ok inv True v g] P2p_Send_frame [OF v ok True] s by auto
next
  case False
  then have "\<not> b \<and> net' = net"
    using s by (cases req) (auto simp: P2p_Send_def PointToPoint_Send_def Bridged_SendFrom_def split: DeviceClass.splits)
  then show ?thesis using inv by (simp add: same_wiring_def)
qed

lemma p2p_event_inv:
  assumes ok: "env_ok env" and inv: "p2p_inv env L acc rcv nothing net" and e: "net_events net = (t, e) # es"
    and s: "invoke_event env em e (net\<lparr>net_now := t, net_events := es\<rparr>) = Some net'"
  shows "p2p_inv env L acc (case e of ReceiveEvent r p \<Rightarrow> rcv(r := rcv r @ [p]) | CompleteEvent d \<Rightarrow> rcv) nothing net' \<and>
    same_wiring net' net"
proof (cases e)
  case (CompleteEvent d)
  then show ?thesis using p2p_complete_inv [OF ok inv, of t d es] e s by auto
next
  case (ReceiveEvent r p)
  then have "P2p_Receive env em r p (net\<lparr>net_now := t, net_events := es\<rparr>) = Some net'" using s by simp
  then obtain us where "net' = net\<lparr>net_now := t, net_events := es, net_upcalls := us\<rparr>" by (rule Receive_frame_only) simp
  then show ?thesis using receive_inv [OF inv, of t r p es us] e ReceiveEvent by simp
qed

lemma p2p_run_inv:
  assumes "p2p_run env L errs acc rcv net" and ok: "env_ok env"
  shows "p2p_inv env L acc rcv nothing net \<and> chans_ok net \<and> finite {d. dev_linkUp (net_devices net d)}"
  using assms(1)
proof (induction rule: p2p_run.induct)
  case (start net)
  then show ?case using fresh_inv by simp
next
  case (attach acc rcv net d r c net')
  then have i: "p2p_inv env L acc rcv nothing net" and co: "chans_ok net" by simp_all
  note n = attach_inv [OF i co attach.hyps(2-7)]
  have "length (chan_link (net_channels net c)) = 2" using co [unfolded chans_ok_def, THEN spec, of c] attach.hyps(6) by auto
  from attach_both [OF attach.hyps(6) this attach.hyps(2,7)]
  have "{x. dev_linkUp (net_devices net' x)} = insert d (insert r {x. dev_linkUp (net_devices net x)})" by auto
  then show ?case using n attach.IH by simp
next
  case (send acc rcv net d req b net')
  then show ?case using p2p_send_inv [OF ok conjunct1 [OF send.IH] send.hyps(2-4)] by (auto simp: wiring_device chans_ok_wiring)
next
  case (event acc rcv net t e es em net')
  then show ?case using p2p_event_inv [OF ok conjunct1 [OF event.IH] event.hyps(2,4)] by (auto simp: wiring_device chans_ok_wiring)
qed

section \<open>No assertion fails\<close>

lemma in_flight_mem: "(t, ReceiveEvent r p) \<in> set es \<Longrightarrow> p \<in> set (in_flight r es)"
  by (induction r es rule: in_flight.induct) auto

text \<open>A frame on its way is the frame of an accepted packet.\<close>

lemma flight_frame:
  assumes inv: "p2p_inv env L acc rcv nothing net" and e: "(t, ReceiveEvent r p) \<in> set (net_events net)"
  obtains d req where "linked net d r" and "req \<in> set (acc d)" and "valid_request (dev_class (net_devices net r)) req"
    and "p = wire_frame env (dev_class (net_devices net r)) req"
proof -
  obtain d where lk: "linked net d r" using inv e unfolding p2p_inv_def by blast
  then have "flow_ok env acc rcv nothing net d r" using inv by (simp add: p2p_inv_def)
  then have "p \<in> set (map (wire_frame env (dev_class (net_devices net d))) (acc d))"
    unfolding flow_ok_def using in_flight_mem [OF e] by simp
  then obtain req where req: "req \<in> set (acc d)" "p = wire_frame env (dev_class (net_devices net d)) req" by auto
  moreover have "valid_request (dev_class (net_devices net d)) req" using inv req(1) unfolding p2p_inv_def by blast
  moreover have "dev_class (net_devices net d) = dev_class (net_devices net r)" using lk by (simp add: linked_def)
  ultimately show thesis using that [OF lk] by simp
qed

lemma event_total:
  assumes ok: "env_ok env" and inv: "p2p_inv env L acc rcv nothing net" and e: "net_events net = (t, e) # es" and em: "\<And>p. snd (em p) = p"
  shows "\<exists>net'. invoke_event env em e (net\<lparr>net_now := t, net_events := es\<rparr>) = Some net'"
proof (cases e)
  case (CompleteEvent d)
  then show ?thesis using p2p_complete_inv [OF ok inv, of t d es] e by auto
next
  case (ReceiveEvent r p)
  let ?net0 = "net\<lparr>net_now := t, net_events := es\<rparr>"
  have "(t, ReceiveEvent r p) \<in> set (net_events net)" using e ReceiveEvent by simp
  from flight_frame [OF inv this] obtain d req where lk: "linked net d r"
    and v: "valid_request (dev_class (net_devices net r)) req" and p: "p = wire_frame env (dev_class (net_devices net r)) req"
    by metis
  have w: "same_wiring ?net0 net" by (simp add: same_wiring_def)
  have "linked ?net0 r d" unfolding wiring_device(7) [OF w] by (rule linked_sym) (rule lk)
  then have g: "P2p_GetRemote r ?net0 = Some (dev_address (net_devices ?net0 d))" by (rule linked_remote)
  have c: "net_devices ?net0 r = net_devices net r" by simp
  show ?thesis
  proof (cases "fst (em p)")
    case True
    then have "em p = (True, p)" using em [of p] by (metis prod.collapse)
    then show ?thesis using Receive_lost ReceiveEvent by simp
  next
    case False
    then have "em p = (False, p)" using em [of p] by (metis prod.collapse)
    then show ?thesis using Receive_frame [of ?net0 r req, OF _ g, of em env] v p ReceiveEvent by simp
  qed
qed

section \<open>Emptying the queues\<close>

definition work :: "P2pNet \<Rightarrow> nat" where
  "work net = length (net_events net) +
     2 * (\<Sum>d | dev_linkUp (net_devices net d). length (m_packets (dev_queue (net_devices net d))))"

lemma insert_at_length [simp]:
  "length (insert_at t e es) = Suc (length es)"
  by (induction t e es rule: insert_at.induct) auto

lemma TransmitStart_work:
  assumes "P2p_TransmitStart env d p net = Some (b, net')" and "env_ok env" and "sorted (map fst (net_events net))"
  shows "length (net_events net') = length (net_events net) + 2" and "dev_queue (net_devices net' e) = dev_queue (net_devices net e)"
  using assms(1,3) by (auto simp: P2p_TransmitStart_def P2p_Channel_TransmitStart_def Schedule_event_def set_device_def Let_def
      Insert_eq [OF assms(2)] insert_at_sorted bind_eq_Some_conv split: if_splits option.splits)

lemma complete_work:
  assumes ok: "env_ok env" and inv: "p2p_inv env L acc rcv nothing net" and e: "net_events net = (t, CompleteEvent d) # es"
    and fin: "finite {d. dev_linkUp (net_devices net d)}"
    and s: "P2p_TransmitComplete env d (net\<lparr>net_now := t, net_events := es\<rparr>) = Some net'"
  shows "work net' < work net"
proof -
  let ?dev = "net_devices net d"
  let ?up = "{d. dev_linkUp (net_devices net d)}"
  have x: "tx_ok L nothing net d" using inv by (simp add: p2p_inv_def)
  then have busy: "dev_txMachineState ?dev = P2P_BUSY" and up: "d \<in> ?up" and dt: "dt_inv P2pPacket_GetSize (L d) (dev_queue ?dev)"
    using e by (cases "dev_txMachineState ?dev"; auto simp: tx_ok_def Let_def)+
  have so: "sorted (map fst es)" using inv e by (simp add: p2p_inv_def time_ok_def)
  have "same_wiring net' net" using p2p_complete_inv [OF ok inv e] s by auto
  then have w: "{d. dev_linkUp (net_devices net' d)} = ?up" by (simp add: wiring_device)
  obtain h q where dq: "Dequeue P2pPacket_GetSize (dev_queue ?dev) = (h, q)" by force
  note spec = Dequeue_spec [OF dt, unfolded dq fst_conv snd_conv]
  let ?dev1 = "?dev\<lparr>dev_txMachineState := P2P_READY, dev_currentPkt := None, dev_queue := q\<rparr>"
  let ?net1 = "set_device d ?dev1 (net\<lparr>net_now := t, net_events := es\<rparr>)"
  have qe: "dev_queue (net_devices net' c) = dev_queue (net_devices ?net1 c) \<and>
      length (net_events net') = length es + (if h = None then 0 else 2)" for c
  proof (cases h)
    case None
    then show ?thesis using s dq by (auto simp: P2p_TransmitComplete_def Let_def set_device_def split: if_splits)
  next
    case (Some p)
    then obtain b where "P2p_TransmitStart env d p ?net1 = Some (b, net')"
      using s dq by (auto simp: P2p_TransmitComplete_def Let_def split: if_splits)
    from TransmitStart_work [OF this ok] show ?thesis using Some so by (simp add: set_device_def)
  qed
  then have q': "dev_queue (net_devices net' c) = (if c = d then q else dev_queue (net_devices net c))" for c
    by (simp add: set_device_def)
  have ev: "length (net_events net') = length es + (if h = None then 0 else 2)" using qe by blast
  have sums: "(\<Sum>c\<in>?up. length (m_packets (dev_queue (net_devices net' c)))) + length (m_packets (dev_queue ?dev)) =
      (\<Sum>c\<in>?up. length (m_packets (dev_queue (net_devices net c)))) + length (m_packets q)"
    using sum.remove [OF fin up, of "\<lambda>c. length (m_packets (dev_queue (net_devices net' c)))"]
      sum.remove [OF fin up, of "\<lambda>c. length (m_packets (dev_queue (net_devices net c)))"] by (simp add: q')
  have "length (m_packets (dev_queue ?dev)) = length (m_packets q) + (if h = None then 0 else 1)"
    using spec by (cases "m_packets (dev_queue ?dev)") auto
  then show ?thesis using sums ev e unfolding work_def w by (cases h) simp_all
qed

lemma event_work:
  assumes ok: "env_ok env" and inv: "p2p_inv env L acc rcv nothing net" and e: "net_events net = (t, e) # es"
    and fin: "finite {d. dev_linkUp (net_devices net d)}"
    and s: "invoke_event env em e (net\<lparr>net_now := t, net_events := es\<rparr>) = Some net'"
  shows "work net' < work net"
proof (cases e)
  case (CompleteEvent d)
  then show ?thesis using complete_work [OF ok inv _ fin] e s by simp
next
  case (ReceiveEvent r p)
  then have "P2p_Receive env em r p (net\<lparr>net_now := t, net_events := es\<rparr>) = Some net'" using s by simp
  then obtain us where "net' = net\<lparr>net_now := t, net_events := es, net_upcalls := us\<rparr>" by (rule Receive_frame_only) simp
  then show ?thesis by (simp add: work_def e)
qed

lemma drain:
  assumes ok: "env_ok env" and em: "\<And>p. snd (em p) = p" "em \<in> errs"
    and run: "p2p_run env L errs acc rcv net" and n: "work net \<le> n"
  shows "\<exists>net' rcv'. run_events n env em net = Some net' \<and> net_events net' = [] \<and> p2p_run env L errs acc rcv' net' \<and>
    same_wiring net' net"
  using run n
proof (induction n arbitrary: rcv net)
  case 0
  then have "net_events net = []" by (simp add: work_def)
  then show ?case using "0.prems" by (auto simp: same_wiring_def)
next
  case (Suc n)
  note inv = p2p_run_inv [OF Suc.prems(1) ok]
  show ?case
  proof (cases "net_events net")
    case Nil
    then show ?thesis using Suc.prems by (auto simp: same_wiring_def)
  next
    case (Cons x es)
    obtain t e where x: "net_events net = (t, e) # es" using Cons by (cases x) auto
    obtain net1 where s: "invoke_event env em e (net\<lparr>net_now := t, net_events := es\<rparr>) = Some net1"
      using event_total [OF ok conjunct1 [OF inv] x em(1)] by blast
    have "work net1 < work net" using event_work [OF ok _ x _ s] inv by blast
    moreover have w: "same_wiring net1 net" using p2p_event_inv [OF ok conjunct1 [OF inv] x s] by blast
    moreover note p2p_run.event [OF Suc.prems(1) x em(2) s]
    ultimately obtain net' rcv' where "run_events n env em net1 = Some net'" "net_events net' = []"
      "p2p_run env L errs acc rcv' net'" "same_wiring net' net1"
      using Suc.IH [of _ net1] Suc.prems(2) by fastforce
    then show ?thesis using x s same_wiring_trans [OF _ w] by auto
  qed
qed

end
