(* ===== verification/P2p_Claims.thy ===== *)
theory P2p_Claims
  imports P2p_System
begin

text \<open>
  The properties of the queues, frames and links of the CPU stack, with a network of two devices that witnesses them.
\<close>

section \<open>Reliable links\<close>

definition intact :: "(Packet \<Rightarrow> bool \<times> Packet) set" where
  "intact = {\<lambda>p. (False, p)}"

text \<open>What the layer above is given by device \<open>r\<close>.\<close>

fun given_to :: "nat \<Rightarrow> Upcall list \<Rightarrow> (Packet \<times> u16 \<times> Mac48Address) list" where
  "given_to r [] = []"
| "given_to r (PromiscCallback d p proto src dst ty # us) = given_to r us"
| "given_to r (RxCallback d p proto remote # us) = (if d = r then (p, proto, remote) # given_to r us else given_to r us)"

lemma given_to_append [simp]: "given_to r (us @ vs) = given_to r us @ given_to r vs"
  by (induction r us rule: given_to.induct) auto

lemma given_to_upcalls [simp]:
  "given_to r (upcalls_of d dev remote (src, dst, proto, p)) = (if d = r then [(p, proto, remote)] else [])"
  by (simp split: DeviceClass.splits)

definition payload :: "Mac48Address \<Rightarrow> request \<Rightarrow> Packet \<times> u16 \<times> Mac48Address" where
  "payload ad req = (case req of (src, dst, proto, p) \<Rightarrow> (p, proto, ad))"

lemma flow_next:
  assumes inv: "p2p_inv env L acc rcv nothing net" and lk: "linked net d r" and e: "net_events net = (t, ReceiveEvent r p) # es"
  shows "length (rcv r) < length (acc d)" and "p = wire_frame env (dev_class (net_devices net r)) (acc d ! length (rcv r))"
    and "valid_request (dev_class (net_devices net r)) (acc d ! length (rcv r))"
proof -
  have f: "flow_ok env acc rcv nothing net d r" and v: "\<forall>req\<in>set (acc d). valid_request (dev_class (net_devices net d)) req"
    using inv lk unfolding p2p_inv_def by blast+
  have cls: "dev_class (net_devices net d) = dev_class (net_devices net r)" using lk by (simp add: linked_def)
  let ?m = "map (wire_frame env (dev_class (net_devices net d))) (acc d)"
  have m: "?m = rcv r @ p # in_flight r es @ m_packets (dev_queue (net_devices net d))" using f e by (simp add: flow_ok_def)
  show l: "length (rcv r) < length (acc d)" using arg_cong [OF m, of length] by simp
  have "?m ! length (rcv r) = p" unfolding m by simp
  then show "p = wire_frame env (dev_class (net_devices net r)) (acc d ! length (rcv r))" using l cls by simp
  show "valid_request (dev_class (net_devices net r)) (acc d ! length (rcv r))" using v l cls by simp
qed

definition given_ok :: "(nat \<Rightarrow> request list) \<Rightarrow> (nat \<Rightarrow> Packet list) \<Rightarrow> P2pNet \<Rightarrow> bool" where
  "given_ok acc rcv net \<longleftrightarrow>
     (\<forall>d r. linked net d r \<longrightarrow> given_to r (net_upcalls net) =
        map (payload (dev_address (net_devices net d))) (take (length (rcv r)) (acc d))) \<and>
     (\<forall>r. \<not> dev_linkUp (net_devices net r) \<longrightarrow> given_to r (net_upcalls net) = [])"

lemma given_attach:
  assumes g: "given_ok acc rcv net" and inv: "p2p_inv env L acc rcv nothing net" and co: "chans_ok net" and ne: "d \<noteq> r"
    and cls: "dev_class (net_devices net d) = dev_class (net_devices net r)"
    and down: "\<not> dev_linkUp (net_devices net d)" "\<not> dev_linkUp (net_devices net r)"
    and ch: "chan_nDevices (net_channels net c) = 0"
    and run: "Option.bind (P2p_Attach d c net) (P2p_Attach r c) = Some net'"
  shows "given_ok acc rcv net'"
proof -
  have free: "length (chan_link (net_channels net c)) = 2" "dev_channel (net_devices net x) \<noteq> Some c" for x
    using co [unfolded chans_ok_def, THEN spec, of c] ch by auto
  note eq = attach_both [OF ch free(1) ne run]
  have x: "dev_linkUp (net_devices net a) \<longleftrightarrow> (\<exists>b. linked net a b)" for a
    using inv unfolding p2p_inv_def tx_ok_def Let_def by blast
  have "given_to b (net_upcalls net') = map (payload (dev_address (net_devices net' a))) (take (length (rcv b)) (acc a))"
    if "linked net' a b" for a b
  proof (cases "b = d \<or> b = r")
    case True
    then have "given_to b (net_upcalls net) = []" "rcv b = []"
      using g inv down unfolding given_ok_def p2p_inv_def by blast+
    then show ?thesis by (simp add: eq)
  next
    case False
    then have "linked net a b" using that free(2) [of b] unfolding linked_def eq
      by (cases "a = d \<or> a = r") (auto simp: half_def split: if_splits)
    moreover have "a \<noteq> d" "a \<noteq> r" using x down calculation by blast+
    ultimately show ?thesis using g unfolding given_ok_def by (simp add: eq)
  qed
  moreover have "given_to a (net_upcalls net') = []" if "\<not> dev_linkUp (net_devices net' a)" for a
    using that g unfolding given_ok_def by (auto simp: eq split: if_splits)
  ultimately show ?thesis unfolding given_ok_def by blast
qed

lemma given_inv:
  assumes "p2p_run env L intact acc rcv net" and ok: "env_ok env"
  shows "given_ok acc rcv net"
  using assms(1)
proof (induction rule: p2p_run.induct)
  case (start net)
  then show ?case by (simp add: fresh_net_def given_ok_def)
next
  case (attach acc rcv net d r c net')
  then show ?case using given_attach [OF attach.IH _ _ attach.hyps(2-7)] p2p_run_inv [OF attach.hyps(1) ok] by blast
next
  case (send acc rcv net a req b net')
  note inv = p2p_run_inv [OF send.hyps(1) ok]
  have s: "same_wiring net' net" "net_upcalls net' = net_upcalls net"
    using p2p_send_inv [OF ok conjunct1 [OF inv] send.hyps(2-4)] by simp_all
  have "take (length (rcv r)) ((if b then acc(a := acc a @ [req]) else acc) d) = take (length (rcv r)) (acc d)"
    if "linked net d r" for d r
  proof -
    have "flow_ok env acc rcv nothing net d r" using inv that by (simp add: p2p_inv_def)
    from arg_cong [OF this [unfolded flow_ok_def], of length] have "length (rcv r) \<le> length (acc d)" by simp
    then show ?thesis by auto
  qed
  then show ?case using send.IH s by (auto simp: given_ok_def wiring_device)
next
  case (event acc rcv net t e es em net')
  note inv = p2p_run_inv [OF event.hyps(1) ok]
  have em: "em = (\<lambda>p. (False, p))" using event.hyps(3) by (simp add: intact_def)
  have w: "same_wiring net' net" using p2p_event_inv [OF ok conjunct1 [OF inv] event.hyps(2,4)] by simp
  show ?case
  proof (cases e)
    case (CompleteEvent c)
    then have "net_upcalls net' = net_upcalls net"
      using p2p_complete_inv [OF ok conjunct1 [OF inv], of t c es] event.hyps(2,4) by auto
    then show ?thesis using event.IH w CompleteEvent by (simp add: given_ok_def wiring_device)
  next
    case (ReceiveEvent c p)
    let ?net0 = "net\<lparr>net_now := t, net_events := es\<rparr>"
    obtain a where lc: "linked net a c" using inv event.hyps(2) ReceiveEvent unfolding p2p_inv_def by fastforce
    note n = flow_next [OF conjunct1 [OF inv] lc event.hyps(2) [unfolded ReceiveEvent]]
    let ?req = "acc a ! length (rcv c)"
    obtain src dst proto q where req: "?req = (src, dst, proto, q)" by (cases ?req)
    have w0: "same_wiring ?net0 net" by (simp add: same_wiring_def)
    have "linked ?net0 c a" unfolding wiring_device(7) [OF w0] by (rule linked_sym) (rule lc)
    then have "P2p_GetRemote c ?net0 = Some (dev_address (net_devices net a))" using linked_remote by fastforce
    from Receive_frame [OF _ this, of ?req em env] n
    have "net' = ?net0\<lparr>net_upcalls := net_upcalls ?net0 @ upcalls_of c (net_devices net c) (dev_address (net_devices net a)) ?req\<rparr>"
      using event.hyps(4) ReceiveEvent em by simp
    then have u: "given_to r (net_upcalls net') = given_to r (net_upcalls net) @
        (if c = r then [payload (dev_address (net_devices net a)) ?req] else [])" for r
      unfolding req by (simp add: payload_def del: upcalls_of.simps)
    have up: "dev_linkUp (net_devices net c)"
      using inv linked_sym [OF lc] unfolding p2p_inv_def tx_ok_def Let_def by blast
    have "given_to r (net_upcalls net') = map (payload (dev_address (net_devices net d)))
        (take (length ((rcv(c := rcv c @ [p])) r)) (acc d))" if lk: "linked net d r" for d r
    proof (cases "c = r")
      case True
      then have "a = d" using linked_inj lc lk by blast
      then show ?thesis using u True n(1) event.IH lk by (simp add: take_Suc_conv_app_nth given_ok_def)
    next
      case False
      then show ?thesis using u event.IH lk by (simp add: given_ok_def)
    qed
    then show ?thesis using up u event.IH w ReceiveEvent by (auto simp: given_ok_def wiring_device)
  qed
qed

section \<open>Two devices\<close>

definition demo_p2p_env :: p2p_env where
  "demo_p2p_env = \<lparr>BitsTxTime = \<lambda>d n. unat n, alloc = \<lambda>n. replicate n 0, ChecksumEnabled = True,
     Insert = insert_at\<rparr>"

definition demo_limit :: "nat \<Rightarrow> QueueSize" where
  "demo_limit d = \<lparr>qs_unit = PACKETS, qs_value = 100\<rparr>"

definition demo_device :: "nat \<Rightarrow> P2pDevice" where
  "demo_device d = (P2pDevice_new PointToPointNetDevice [0, 0, 0, 0, 0, of_nat d] 1 (Queue_new\<lparr>m_maxSize := demo_limit d\<rparr>))
     \<lparr>dev_promisc := False\<rparr>"

definition demo_p2p_start :: P2pNet where
  "demo_p2p_start = \<lparr>net_now = 0, net_events = [], net_devices = demo_device, net_channels = \<lambda>_. P2pChannel_new 5,
     net_upcalls = []\<rparr>"

definition demo_linked :: P2pNet where
  "demo_linked = demo_p2p_start\<lparr>
     net_channels := (net_channels demo_p2p_start)(7 := \<lparr>chan_delay = 5, chan_nDevices = 2, chan_link = [half 0 1, half 1 0]\<rparr>),
     net_devices := (net_devices demo_p2p_start)(0 := demo_device 0\<lparr>dev_channel := Some 7, dev_linkUp := True\<rparr>,
        1 := demo_device 1\<lparr>dev_channel := Some 7, dev_linkUp := True\<rparr>)\<rparr>"

definition demo_packet :: request where
  "demo_packet = ([], [], 0x0800, \<lparr>m_buffer = [1, 2, 3]\<rparr>)"

lemma demo_env: "env_ok demo_p2p_env"
  by (simp add: env_ok_def allocates_def in_time_order_insert_at demo_p2p_env_def)

lemma demo_link: "linked demo_linked 0 1"
  by (simp add: linked_def demo_linked_def demo_p2p_start_def demo_device_def P2pDevice_new_def)

lemma demo_p2p_up: "p2p_run demo_p2p_env demo_limit intact nothing nothing demo_linked"
proof -
  have "fresh_net demo_limit demo_p2p_start"
    unfolding fresh_net_def by (auto simp: demo_p2p_start_def demo_device_def P2pChannel_new_def)
  then have s: "p2p_run demo_p2p_env demo_limit intact nothing nothing demo_p2p_start" by (rule p2p_run.start)
  show "p2p_run demo_p2p_env demo_limit intact nothing nothing demo_linked"
    by (rule p2p_run.attach [OF s, of 0 1 7]; simp add: demo_p2p_start_def demo_device_def P2pDevice_new_def P2pChannel_new_def
        P2p_Attach_def P2p_Channel_Attach_def set_device_def demo_linked_def half_def Let_def numeral_2_eq_2 fun_upd_twist)
qed

lemma demo_sent:
  obtains net where "p2p_run demo_p2p_env demo_limit intact (nothing(0 := [demo_packet])) nothing net" and "linked net 0 1"
    and "dev_address (net_devices net 0) = [0, 0, 0, 0, 0, 0]" and "dev_class (net_devices net 0) = PointToPointNetDevice"
proof -
  note inv = p2p_run_inv [OF demo_p2p_up demo_env]
  have d: "dev_class (net_devices demo_linked 0) = PointToPointNetDevice" "dev_linkUp (net_devices demo_linked 0)"
      "dev_address (net_devices demo_linked 0) = [0, 0, 0, 0, 0, 0]"
    by (simp_all add: demo_linked_def demo_p2p_start_def demo_device_def P2pDevice_new_def)
  have v: "valid_request (dev_class (net_devices demo_linked 0)) demo_packet" by (simp add: d demo_packet_def)
  have g: "good_item P2pPacket_GetSize (demo_limit 0) (wire_frame demo_p2p_env (dev_class (net_devices demo_linked 0)) demo_packet)"
    by (simp add: good_item_def demo_limit_def)
  obtain b net where s: "P2p_EnqueueAndStart demo_p2p_env 0
      (wire_frame demo_p2p_env (dev_class (net_devices demo_linked 0)) demo_packet) demo_linked = Some (b, net)"
    and w: "same_wiring net demo_linked"
    using EnqueueAndStart_inv [OF demo_env conjunct1 [OF inv] d(2) v g] by blast
  have b: b using s d(1)
    by (simp add: P2p_EnqueueAndStart_def demo_linked_def demo_p2p_start_def demo_device_def P2pDevice_new_def Queue_new_def
        demo_limit_def Enqueue_def DoEnqueue_def GetCurrentSize_def size_plus_def size_greater_def compare_sizes_def
        Dequeue_def DoDequeue_def P2p_TransmitStart_def P2p_Channel_TransmitStart_def set_device_def half_def Schedule_event_def
        Let_def split: prod.splits if_splits)
  have "P2p_Send demo_p2p_env 0 demo_packet demo_linked = Some (b, net)" unfolding P2p_Send_frame [OF v demo_env d(2)] by (rule s)
  from p2p_run.send [OF demo_p2p_up v g this] b have "p2p_run demo_p2p_env demo_limit intact (nothing(0 := [demo_packet])) nothing net"
    by simp
  then show thesis using that w demo_link d by (simp add: wiring_device)
qed

section \<open>Properties\<close>

text \<open>
  C12: a link loses, duplicates and reorders nothing: in every state that attaching, sending and running events can
  reach, with any error models, the frames of the packets a device has accepted are, in order, those \<^verbatim>\<open>Receive\<close> of the
  other end was called with, those on their way, and those in the device's queue.  A device transmits exactly while one
  completion is pending for it, and an idle device has nothing queued.
\<close>

theorem link_in_order:
  assumes "p2p_run env L errs acc rcv net" and "env_ok env" and "linked net d r"
  shows "map (wire_frame env (dev_class (net_devices net d))) (acc d) =
      rcv r @ in_flight r (net_events net) @ m_packets (dev_queue (net_devices net d)) \<and>
    completions d (net_events net) = (if dev_txMachineState (net_devices net d) = P2P_BUSY then 1 else 0) \<and>
    (dev_txMachineState (net_devices net d) = P2P_READY \<longrightarrow> m_packets (dev_queue (net_devices net d)) = [])"
proof -
  have inv: "p2p_inv env L acc rcv nothing net" using p2p_run_inv [OF assms(1,2)] by blast
  then have "flow_ok env acc rcv nothing net d r" and x: "tx_ok L nothing net d" using assms(3) unfolding p2p_inv_def by blast+
  then show ?thesis by (cases "dev_txMachineState (net_devices net d)") (simp_all add: flow_ok_def tx_ok_def Let_def)
qed

theorem link_in_order_witness:
  "\<exists>net :: P2pNet. wire_frame demo_p2p_env PointToPointNetDevice demo_packet \<in> set (in_flight 1 (net_events net)) \<or>
     wire_frame demo_p2p_env PointToPointNetDevice demo_packet \<in> set (m_packets (dev_queue (net_devices net 0)))"
proof -
  obtain net where n: "p2p_run demo_p2p_env demo_limit intact (nothing(0 := [demo_packet])) nothing net" "linked net 0 1"
    "dev_class (net_devices net 0) = PointToPointNetDevice" using demo_sent by metis
  from arg_cong [OF conjunct1 [OF link_in_order [OF n(1) demo_env n(2)]], of set] n(3) show ?thesis by (intro exI [of _ net]) auto
qed



text \<open>
  C13: a link delivers: with an error model that may drop packets but not change them, as many events as there is work
  (one for each pending event and two for each queued frame) bring the links to rest, and then \<^verbatim>\<open>Receive\<close> has been
  called with the frame of every accepted packet.
\<close>

theorem link_delivers_all:
  assumes "p2p_run env L errs acc rcv net" and "env_ok env" and "em \<in> errs" and "\<forall>p. snd (em p) = p"
    and "work net \<le> n"
  shows "\<exists>net' rcv'. run_events n env em net = Some net' \<and> net_events net' = [] \<and> p2p_run env L errs acc rcv' net' \<and>
    (\<forall>d r. linked net d r \<longrightarrow> rcv' r = map (wire_frame env (dev_class (net_devices net d))) (acc d))"
proof -
  obtain net' rcv' where n: "run_events n env em net = Some net'" "net_events net' = []" "p2p_run env L errs acc rcv' net'"
      "same_wiring net' net"
    using drain [OF assms(2) _ assms(3,1,5)] assms(4) by blast
  have "rcv' r = map (wire_frame env (dev_class (net_devices net d))) (acc d)" if "linked net d r" for d r
  proof -
    have "linked net' d r" using that n(4) by (simp add: wiring_device)
    moreover have "p2p_inv env L acc rcv' nothing net'" using p2p_run_inv [OF n(3) assms(2)] by blast
    ultimately have f: "flow_ok env acc rcv' nothing net' d r" and x: "tx_ok L nothing net' d" unfolding p2p_inv_def by blast+
    have "m_packets (dev_queue (net_devices net' d)) = []"
      using x n(2) by (cases "dev_txMachineState (net_devices net' d)") (simp_all add: tx_ok_def Let_def)
    then show ?thesis using f n(2,4) by (simp add: flow_ok_def wiring_device)
  qed
  then show ?thesis using n by blast
qed

theorem link_delivers_all_witness:
  "\<exists>net net' n. run_events n demo_p2p_env (\<lambda>p. (False, p)) net = Some net' \<and> net_events net' = [] \<and>
     (\<exists>rcv. rcv 1 = [wire_frame demo_p2p_env PointToPointNetDevice demo_packet] \<and>
        p2p_run demo_p2p_env demo_limit intact (nothing(0 := [demo_packet])) rcv net')"
proof -
  obtain net where n: "p2p_run demo_p2p_env demo_limit intact (nothing(0 := [demo_packet])) nothing net" "linked net 0 1"
    "dev_class (net_devices net 0) = PointToPointNetDevice" using demo_sent by metis
  from link_delivers_all [OF n(1) demo_env, of "\<lambda>p. (False, p)" "work net"] n(2,3) show ?thesis
    by (fastforce simp: intact_def)
qed

text \<open>
  Over links without errors the layer above is given, at each end, exactly the first packets the other end has
  accepted, in order, each with its protocol number and the address of the sender's device; frames come off again as they went on.
\<close>

theorem reliable_link:
  assumes "p2p_run env L intact acc rcv net" and "env_ok env" and "linked net d r"
  shows "given_to r (net_upcalls net) = map (payload (dev_address (net_devices net d))) (take (length (rcv r)) (acc d))"
  using given_inv [OF assms(1,2)] assms(3) by (simp add: given_ok_def)

theorem reliable_link_witness:
  "\<exists>net :: P2pNet. given_to 1 (net_upcalls net) = [(\<lparr>m_buffer = [1, 2, 3]\<rparr>, 0x0800, [0, 0, 0, 0, 0, 0])]"
proof -
  obtain net where n: "p2p_run demo_p2p_env demo_limit intact (nothing(0 := [demo_packet])) nothing net" "linked net 0 1"
    "dev_class (net_devices net 0) = PointToPointNetDevice" "dev_address (net_devices net 0) = [0, 0, 0, 0, 0, 0]"
    using demo_sent by metis
  have "(\<lambda>p. (False, p)) \<in> intact" by (simp add: intact_def)
  from drain [OF demo_env _ this n(1) order_refl] obtain net' rcv where
    r: "net_events net' = []" "p2p_run demo_p2p_env demo_limit intact (nothing(0 := [demo_packet])) rcv net'" "same_wiring net' net"
    by auto
  have lk: "linked net' 0 1" using n(2) r(3) by (simp add: wiring_device)
  have x: "tx_ok demo_limit nothing net' 0" and f: "flow_ok demo_p2p_env (nothing(0 := [demo_packet])) rcv nothing net' 0 1"
    using p2p_run_inv [OF r(2) demo_env] lk unfolding p2p_inv_def by blast+
  have "m_packets (dev_queue (net_devices net' 0)) = []"
    using x r(1) by (cases "dev_txMachineState (net_devices net' 0)") (simp_all add: tx_ok_def Let_def)
  then have "length (rcv 1) = 1" using arg_cong [OF f [unfolded flow_ok_def], of length] r(1) by simp
  then show ?thesis using reliable_link [OF r(2) demo_env lk] n(4) r(3)
    by (intro exI [of _ net']) (simp add: wiring_device payload_def demo_packet_def)
qed

text \<open>
  What \<^verbatim>\<open>AddHeader\<close> of the bridged device makes of a packet, \<^verbatim>\<open>Receive\<close> takes apart again, with checksums on
  or off: the layer above is given the packet as it was, its protocol number, both addresses and, from the
  destination, the type of the packet.
\<close>

theorem bridged_frame_roundtrip:
  assumes "allocates (alloc env)" and "length src = 6" and "length dst = 6"
    and "dev_class (net_devices net d) = BridgedPointToPointNetDevice" and "P2p_GetRemote d net = Some remote"
  shows "\<exists>f. Bridged_AddHeader env src dst proto p = Some f \<and>
    Bridged_Receive env (\<lambda>q. (False, q)) d f net = Some (net\<lparr>net_upcalls := net_upcalls net @
      (if dev_promisc (net_devices net d)
       then [PromiscCallback d p proto src dst (packet_type (dev_address (net_devices net d)) dst)] else []) @
      [RxCallback d p proto remote]\<rparr>)"
proof -
  have v: "valid_request BridgedPointToPointNetDevice (src, dst, proto, p)" using assms by simp
  show ?thesis
    using Receive_frame [of net d "(src, dst, proto, p)" remote "\<lambda>q. (False, q)" env] assms(4,5) v
      Bridged_AddHeader_frame [OF v assms(1)]
    by (simp add: P2p_Receive_def)
qed

definition demo_bridged :: P2pNet where
  "demo_bridged = demo_linked\<lparr>net_devices := \<lambda>d. (net_devices demo_linked d)\<lparr>dev_class := BridgedPointToPointNetDevice\<rparr>\<rparr>"

lemma demo_bridged_remote: "P2p_GetRemote 1 demo_bridged = Some [0, 0, 0, 0, 0, 0]"
  by (simp add: P2p_GetRemote_def demo_bridged_def demo_linked_def demo_p2p_start_def demo_device_def P2pDevice_new_def half_def)

theorem bridged_frame_roundtrip_witness:
  "\<exists>f net. Bridged_AddHeader demo_p2p_env [0, 0, 0, 0, 0, 0] [0, 0, 0, 0, 0, 1] 0x0800 \<lparr>m_buffer = [1, 2, 3]\<rparr> = Some f \<and>
     Bridged_Receive demo_p2p_env (\<lambda>q. (False, q)) 1 f demo_bridged = Some net \<and>
     RxCallback 1 \<lparr>m_buffer = [1, 2, 3]\<rparr> 0x0800 [0, 0, 0, 0, 0, 0] \<in> set (net_upcalls net)"
proof -
  have "dev_class (net_devices demo_bridged 1) = BridgedPointToPointNetDevice" by (simp add: demo_bridged_def)
  from bridged_frame_roundtrip [OF _ _ _ this demo_bridged_remote, of demo_p2p_env "[0, 0, 0, 0, 0, 0]" "[0, 0, 0, 0, 0, 1]"
      "0x0800" "\<lparr>m_buffer = [1, 2, 3]\<rparr>"]
  show ?thesis using demo_env [unfolded env_ok_def] by fastforce
qed

text \<open>
  C15: with checksums on, a bridged device drops every frame in which up to four consecutive bytes, anywhere in header,
  payload or check sequence, were changed: nothing is passed up.
\<close>

theorem damaged_frame_dropped:
  assumes "ChecksumEnabled env" and "dev_class (net_devices net d) = BridgedPointToPointNetDevice"
    and "wire_bytes env BridgedPointToPointNetDevice req = xs @ bs @ ys"
    and "length es = length bs" and "length bs \<le> 4" and "es \<noteq> bs"
    and "em (wire_frame env BridgedPointToPointNetDevice req) = (False, \<lparr>m_buffer = xs @ es @ ys\<rparr>)"
  shows "P2p_Receive env em d (wire_frame env BridgedPointToPointNetDevice req) net = Some net"
proof (rule Receive_bad [where em = em and p = "wire_frame env BridgedPointToPointNetDevice req", OF assms(1,2,7)])
  have "length (xs @ es @ ys) = length (wire_bytes env BridgedPointToPointNetDevice req)" using assms(3,4) by simp
  also have "4 \<le> \<dots>" by (cases req) (simp add: Let_def)
  finally show "4 \<le> length (m_buffer \<lparr>m_buffer = xs @ es @ ys\<rparr>)" by simp
  have "frame_good (xs @ bs @ ys)" using wire_frame_good [OF assms(1), of req] assms(3) by simp
  from burst_found [OF this] assms(4-6) show "\<not> frame_good (m_buffer \<lparr>m_buffer = xs @ es @ ys\<rparr>)" by simp
qed

theorem damaged_frame_dropped_witness:
  "\<exists>ys. wire_bytes demo_p2p_env BridgedPointToPointNetDevice ([1, 2, 3, 4, 5, 6], [7, 8, 9, 10, 11, 12], 0x0800, \<lparr>m_buffer = []\<rparr>) =
       7 # 8 # ys \<and>
     P2p_Receive demo_p2p_env (\<lambda>_. (False, \<lparr>m_buffer = 7 # 0 # ys\<rparr>)) 1 (wire_frame demo_p2p_env BridgedPointToPointNetDevice
       ([1, 2, 3, 4, 5, 6], [7, 8, 9, 10, 11, 12], 0x0800, \<lparr>m_buffer = []\<rparr>)) demo_bridged = Some demo_bridged"
proof -
  let ?req = "([1, 2, 3, 4, 5, 6], [7, 8, 9, 10, 11, 12], 0x0800, \<lparr>m_buffer = []\<rparr>) :: request"
  obtain ys where w: "wire_bytes demo_p2p_env BridgedPointToPointNetDevice ?req = [7] @ [8] @ ys"
    by (simp add: eth_bytes_def Let_def)
  have "ChecksumEnabled demo_p2p_env" "dev_class (net_devices demo_bridged 1) = BridgedPointToPointNetDevice"
    by (simp_all add: demo_p2p_env_def demo_bridged_def)
  from damaged_frame_dropped [OF this w, of "[0]"] w show ?thesis by (intro exI [of _ ys]) simp
qed

text \<open>
  C16: over any sequence of \<^verbatim>\<open>Enqueue\<close>, \<^verbatim>\<open>Dequeue\<close> and \<^verbatim>\<open>Remove\<close> on a drop-tail queue, what was accepted is in order what was taken out
  followed by what is queued; every statistic counts the packets and the bytes it is meant to; and the queue is within its limit, in
  packets or in bytes.
\<close>

theorem drop_tail_accounting:
  assumes "queue_history isize L ins outs refused removed q"
  shows "ins = outs @ m_packets q \<and> counts isize ins refused removed q \<and> m_nPackets q = of_nat (length (m_packets q)) \<and>
    m_nBytes q = of_nat (total isize (m_packets q)) \<and> used isize L (m_packets q) \<le> unat (qs_value L)"
  using history_inv [OF assms] by (auto simp: dt_inv_def)

theorem drop_tail_accounting_witness:
  "\<exists>q. queue_history (\<lambda>x. x) \<lparr>qs_unit = BYTES, qs_value = 100\<rparr> [60, 40] [60] [70] [60 :: u32] q \<and> m_packets q = [40] \<and>
     m_nTotalDroppedBytes q = 130"
proof -
  let ?L = "\<lparr>qs_unit = BYTES, qs_value = 100\<rparr>"
  let ?q0 = "Queue_new\<lparr>m_maxSize := ?L\<rparr> :: u32 Queue"
  let ?q1 = "snd (Enqueue (\<lambda>x. x) 60 ?q0)"
  let ?q2 = "snd (Enqueue (\<lambda>x. x) 70 ?q1)"
  let ?q3 = "snd (Enqueue (\<lambda>x. x) 40 ?q2)"
  let ?q4 = "snd (Queue_Remove (\<lambda>x. x) ?q3)"
  note sims = Enqueue_def DoEnqueue_def Queue_new_def GetCurrentSize_def size_plus_def size_greater_def compare_sizes_def
    DropBeforeEnqueue_def Queue_Remove_def DoRemove_def erase_def DropAfterDequeue_def
  have e1: "Enqueue (\<lambda>x. x) 60 ?q0 = (True, ?q1)" by (simp add: sims Let_def)
  have e2: "Enqueue (\<lambda>x. x) 70 ?q1 = (False, ?q2)" by (simp add: sims Let_def)
  have e3: "Enqueue (\<lambda>x. x) 40 ?q2 = (True, ?q3)" by (simp add: sims Let_def)
  have e4: "Queue_Remove (\<lambda>x. x) ?q3 = (Some 60, ?q4)" by (simp add: sims Let_def)
  have g: "good_item (\<lambda>x. x) ?L (60 :: u32)" "good_item (\<lambda>x. x) ?L (70 :: u32)" "good_item (\<lambda>x. x) ?L (40 :: u32)"
    by (simp_all add: good_item_def)
  note h1 = queue_history.enqueue [OF queue_history.start g(1) e1]
  note h2 = queue_history.enqueue [OF h1 g(2) e2]
  note h3 = queue_history.enqueue [OF h2 g(3) e3]
  have h4: "queue_history (\<lambda>x. x) ?L [60, 40] [60] [70] [60 :: u32] ?q4" using queue_history.remove [OF h3 e4] by simp
  from drop_tail_accounting [OF this] h4 show ?thesis
    by (intro exI [of _ ?q4]) (simp add: counts_def)
qed

end
