(* ===== verification/Sequence_Number.thy ===== *)
theory Sequence_Number
  imports Prelude
begin

text \<open>
  \<^verbatim>\<open>SequenceNumber32\<close> (\<^verbatim>\<open>network/utils/sequence-number.h\<close>): 32-bit numbers compared around the circle.  The
  comparison is an order only between numbers that are less than half the circle apart.
\<close>

definition halfMaxValue :: u32 where
  "halfMaxValue = 0x7FFFFFFF"

definition seq_gt :: "u32 \<Rightarrow> u32 \<Rightarrow> bool" where
  "seq_gt a b \<longleftrightarrow> (a > b \<and> a - b \<le> halfMaxValue) \<or> (b > a \<and> b - a > halfMaxValue)"

definition seq_le :: "u32 \<Rightarrow> u32 \<Rightarrow> bool" where
  "seq_le a b \<longleftrightarrow> \<not> seq_gt a b"

definition seq_ge :: "u32 \<Rightarrow> u32 \<Rightarrow> bool" where
  "seq_ge a b \<longleftrightarrow> seq_gt a b \<or> a = b"

definition seq_lt :: "u32 \<Rightarrow> u32 \<Rightarrow> bool" where
  "seq_lt a b \<longleftrightarrow> \<not> seq_gt a b \<and> a \<noteq> b"

text \<open>\<^verbatim>\<open>operator-\<close> of two numbers gives an \<^verbatim>\<open>int32_t\<close>: its 32 bits, each branch as the code computes it.\<close>

definition seq_minus :: "u32 \<Rightarrow> u32 \<Rightarrow> u32" where
  "seq_minus a b =
     (if a > b
      then let diff = a - b in if diff < halfMaxValue then diff else - (0xFFFFFFFF - a + 1 + b)
      else let diff = b - a in if diff < halfMaxValue then - diff else 0xFFFFFFFF - b + 1 + a)"

text \<open>All four branches are the same subtraction modulo \<open>2\<^sup>3\<^sup>2\<close>.\<close>

lemma seq_minus_eq: "seq_minus a b = a - b"
proof -
  have m: "(0xFFFFFFFF :: u32) = - 1" by simp
  show ?thesis unfolding seq_minus_def m by (simp add: Let_def)
qed

lemma unat_neg:
  fixes w :: u32
  assumes "w \<noteq> 0"
  shows "unat (- w) = 2 ^ 32 - unat w"
proof -
  have r: "0 < uint w" "uint w < 2 ^ 32" using assms unsigned_less [of w, where 'a = int] by (simp_all add: order_less_le uint_0_iff)
  have "uint (- w) = (- uint w) mod 2 ^ 32" by (simp add: uint_word_ariths)
  also have "\<dots> = 2 ^ 32 - uint w" using r by (simp add: zmod_zminus1_eq_if)
  finally have "uint (- w) = 2 ^ 32 - uint w" .
  then have "nat (uint (- w)) = nat (2 ^ 32) - nat (uint w)" using r by (simp add: nat_diff_distrib)
  then show ?thesis by simp
qed

lemma seq_gt_diff: "seq_gt a b \<longleftrightarrow> (a > b \<and> unat (a - b) < 2 ^ 31) \<or> (b > a \<and> unat (a - b) \<le> 2 ^ 31)"
proof -
  have h: "unat halfMaxValue = 2 ^ 31 - 1" by (simp add: halfMaxValue_def)
  have "unat (a - b) + unat (b - a) = 2 ^ 32" if "b > a"
  proof -
    have "b - a \<noteq> 0" using that by simp
    then have "unat (- (b - a)) = 2 ^ 32 - unat (b - a)" by (rule unat_neg)
    moreover have "unat (b - a) < 2 ^ 32" using unsigned_less [of "b - a", where 'a = nat] by simp
    ultimately show ?thesis by simp
  qed
  then show ?thesis unfolding seq_gt_def word_le_nat_alt [of "a - b"] word_less_nat_alt [of halfMaxValue] h by auto
qed

section \<open>Positions in a stream\<close>

definition seq_of :: "u32 \<Rightarrow> nat \<Rightarrow> u32" where
  "seq_of iss x = iss + of_nat x"

lemma seq_of_add: "seq_of iss x + of_nat n = seq_of iss (x + n)"
  by (simp add: seq_of_def add.assoc)

lemma seq_of_diff:
  assumes "x \<le> y" and "y - x < 2 ^ 32"
  shows "unat (seq_of iss y - seq_of iss x) = y - x"
proof -
  have "seq_of iss y - seq_of iss x = of_nat (y - x)" using assms(1) by (simp add: seq_of_def of_nat_diff)
  then show ?thesis using assms(2) by (simp add: unat_of_nat_u32)
qed

lemma seq_of_inj:
  assumes "x < y + 2 ^ 31" and "y < x + 2 ^ 31" and "seq_of iss x = seq_of iss y"
  shows "x = y"
proof (cases "x \<le> y")
  case True
  then have "unat (seq_of iss y - seq_of iss x) = y - x" using assms by (intro seq_of_diff) auto
  then show ?thesis using assms(3) True by simp
next
  case False
  then have "unat (seq_of iss x - seq_of iss y) = x - y" using assms by (intro seq_of_diff) auto
  then show ?thesis using assms(3) False by simp
qed

lemma seq_gt_of:
  assumes "x < y + 2 ^ 31" and "y < x + 2 ^ 31"
  shows "seq_gt (seq_of iss x) (seq_of iss y) \<longleftrightarrow> y < x"
proof (cases "y < x")
  case True
  then have d: "unat (seq_of iss x - seq_of iss y) = x - y" using assms by (intro seq_of_diff) auto
  have "seq_of iss x \<noteq> seq_of iss y" using seq_of_inj [OF assms] True by blast
  moreover have "x - y < 2 ^ 31" using assms by simp
  ultimately show ?thesis using True unfolding seq_gt_diff d by auto
next
  case False
  have "\<not> seq_gt (seq_of iss x) (seq_of iss y)"
  proof (cases "x = y")
    case True
    then show ?thesis by (simp add: seq_gt_def)
  next
    case neq: False
    let ?d = "seq_of iss x - seq_of iss y"
    have e: "unat (seq_of iss y - seq_of iss x) = y - x" using assms False by (intro seq_of_diff) auto
    have p: "0 < y - x" "y - x < 2 ^ 31" using assms False neq by auto
    have "seq_of iss y - seq_of iss x \<noteq> 0" using seq_of_inj [OF assms, of iss] neq by auto
    then have "unat (- (seq_of iss y - seq_of iss x)) = 2 ^ 32 - (y - x)" unfolding e [symmetric] by (rule unat_neg)
    then have "unat ?d = 2 ^ 32 - (y - x)" by simp
    then have "2 ^ 31 < unat ?d" using p by simp
    then show ?thesis unfolding seq_gt_diff by auto
  qed
  then show ?thesis using False by blast
qed

text \<open>Inside a window of half the circle the comparisons are those of the positions.\<close>

lemma seq_compare:
  assumes "x < y + 2 ^ 31" and "y < x + 2 ^ 31"
  shows "seq_gt (seq_of iss x) (seq_of iss y) \<longleftrightarrow> y < x" "seq_le (seq_of iss x) (seq_of iss y) \<longleftrightarrow> x \<le> y"
    "seq_ge (seq_of iss x) (seq_of iss y) \<longleftrightarrow> y \<le> x" "seq_lt (seq_of iss x) (seq_of iss y) \<longleftrightarrow> x < y"
    "seq_of iss x = seq_of iss y \<longleftrightarrow> x = y"
proof -
  show e: "seq_of iss x = seq_of iss y \<longleftrightarrow> x = y" using seq_of_inj [OF assms] by blast
  show g: "seq_gt (seq_of iss x) (seq_of iss y) \<longleftrightarrow> y < x" by (rule seq_gt_of [OF assms])
  show "seq_le (seq_of iss x) (seq_of iss y) \<longleftrightarrow> x \<le> y" "seq_ge (seq_of iss x) (seq_of iss y) \<longleftrightarrow> y \<le> x"
    "seq_lt (seq_of iss x) (seq_of iss y) \<longleftrightarrow> x < y"
    unfolding seq_le_def seq_ge_def seq_lt_def e g by auto
qed

end
