(* ===== verification/Tcp_Rx_Buffer.thy ===== *)
theory Tcp_Rx_Buffer
  imports Sequence_Number "HOL-Library.Monad_Syntax"
begin

text \<open>
  \<^verbatim>\<open>TcpRxBuffer\<close> (\<^verbatim>\<open>internet/model/tcp-rx-buffer.cc\<close>): the receive buffer of a TCP socket, which puts segments that arrive
  out of order, twice or overlapping together again, and keeps the blocks to report in selective acknowledgements.

  \<^verbatim>\<open>m_data\<close>, a \<^verbatim>\<open>std::map\<close> ordered by \<^verbatim>\<open>SequenceNumber32\<close>, is the list of its entries in that order; a packet is its
  bytes.  \<open>None\<close> is an assertion that fails.
\<close>

type_synonym SackBlock = "u32 \<times> u32"

record TcpRxBuffer =
  rx_sackList :: "SackBlock list"
  rx_nextRxSeq :: u32
  rx_finSeq :: u32
  rx_gotFin :: bool
  rx_size :: u32
  rx_maxBuffer :: u32
  rx_availBytes :: u32
  rx_data :: "(u32 \<times> u8 list) list"

definition TcpRxBuffer_new :: "u32 \<Rightarrow> TcpRxBuffer" where
  "TcpRxBuffer_new n = \<lparr>rx_sackList = [], rx_nextRxSeq = n, rx_finSeq = 0, rx_gotFin = False, rx_size = 0,
     rx_maxBuffer = 32768, rx_availBytes = 0, rx_data = []\<rparr>"

definition pkt_size :: "u8 list \<Rightarrow> u32" where
  "pkt_size p = of_nat (length p)"

definition SetMaxBufferSize :: "u32 \<Rightarrow> TcpRxBuffer \<Rightarrow> TcpRxBuffer" where
  "SetMaxBufferSize s b = b\<lparr>rx_maxBuffer := s\<rparr>"

definition SetNextRxSequence :: "u32 \<Rightarrow> TcpRxBuffer \<Rightarrow> TcpRxBuffer" where
  "SetNextRxSequence s b = b\<lparr>rx_nextRxSeq := s\<rparr>"

definition IncNextRxSequence :: "TcpRxBuffer \<Rightarrow> TcpRxBuffer option" where
  "IncNextRxSequence b = (if rx_size b \<noteq> 0 then None else Some (b\<lparr>rx_nextRxSeq := rx_nextRxSeq b + 1\<rparr>))"

definition MaxRxSequence :: "TcpRxBuffer \<Rightarrow> u32" where
  "MaxRxSequence b =
     (if rx_gotFin b then rx_finSeq b
      else case rx_data b of
             (k, _) # _ \<Rightarrow> if seq_gt (rx_nextRxSeq b) k then k + rx_maxBuffer b else rx_nextRxSeq b + rx_maxBuffer b
           | [] \<Rightarrow> rx_nextRxSeq b + rx_maxBuffer b)"

definition SetFinSequence :: "u32 \<Rightarrow> TcpRxBuffer \<Rightarrow> TcpRxBuffer" where
  "SetFinSequence s b =
     (let b = b\<lparr>rx_gotFin := True, rx_finSeq := s\<rparr>
      in if rx_nextRxSeq b = rx_finSeq b then b\<lparr>rx_nextRxSeq := rx_nextRxSeq b + 1\<rparr> else b)"

definition Finished :: "TcpRxBuffer \<Rightarrow> bool" where
  "Finished b \<longleftrightarrow> rx_gotFin b \<and> seq_lt (rx_finSeq b) (rx_nextRxSeq b)"

section \<open>Blocks of selective acknowledgements\<close>

text \<open>
  The loop of \<^verbatim>\<open>UpdateSackList\<close>: \<open>begin\<close> is the first block, \<open>passed\<close> those between it and the iterator.  After a merge
  the iterator goes back to the first block.
\<close>

function sack_merge :: "SackBlock \<Rightarrow> SackBlock list \<Rightarrow> SackBlock list \<Rightarrow> SackBlock list option" where
  "sack_merge first passed [] = Some (first # passed)"
| "sack_merge first passed (current # rest) =
     (if fst first = snd current then
        if \<not> seq_lt (fst current) (snd first) then None
        else sack_merge (fst current, snd first) [] (passed @ rest)
      else if snd first = fst current then
        if \<not> seq_lt (fst first) (snd current) then None
        else sack_merge (fst first, snd current) [] (passed @ rest)
      else sack_merge first (passed @ [current]) rest)"
  by pat_completeness auto
termination
  by (relation "measures [\<lambda>(b, ps, rs). length ps + length rs, \<lambda>(b, ps, rs). length rs]") auto

definition UpdateSackList :: "u32 \<Rightarrow> u32 \<Rightarrow> u32 \<Rightarrow> SackBlock list \<Rightarrow> SackBlock list option" where
  "UpdateSackList next head tail sackList =
     (if \<not> seq_gt head next then None
      else do {
        sackList \<leftarrow> sack_merge (head, tail) [] sackList;
        Some (if 4 < length sackList then butlast sackList else sackList) })"

definition ClearSackList :: "u32 \<Rightarrow> SackBlock list \<Rightarrow> SackBlock list option" where
  "ClearSackList seq sackList =
     (if list_all (\<lambda>block. seq_lt (fst block) (snd block)) sackList
      then Some (filter (\<lambda>block. \<not> seq_le (snd block) seq) sackList) else None)"

section \<open>Adding a segment\<close>

text \<open>Trimming to the window: below the next sequence number, and above the limit counted from the first stored byte.\<close>

definition trim_window :: "TcpRxBuffer \<Rightarrow> u32 \<Rightarrow> u32 \<Rightarrow> u32 \<times> u32" where
  "trim_window b headSeq tailSeq =
     (let headSeq = (if seq_lt headSeq (rx_nextRxSeq b) then rx_nextRxSeq b else headSeq)
      in case rx_data b of
           [] \<Rightarrow> (headSeq, tailSeq)
         | (k, _) # _ \<Rightarrow>
             let maxSeq = k + rx_maxBuffer b;
                 tailSeq = (if seq_lt maxSeq tailSeq then maxSeq else tailSeq);
                 headSeq = (if seq_lt tailSeq headSeq then tailSeq else headSeq)
             in (headSeq, tailSeq))"

text \<open>The loop over stored packets: it gives head, tail, \<^verbatim>\<open>m_size\<close> and \<^verbatim>\<open>m_data\<close> after it.\<close>

fun remove_overlap :: "u32 \<Rightarrow> u32 \<Rightarrow> u32 \<Rightarrow> (u32 \<times> u8 list) list \<Rightarrow> u32 \<times> u32 \<times> u32 \<times> (u32 \<times> u8 list) list" where
  "remove_overlap headSeq tailSeq n [] = (headSeq, tailSeq, n, [])"
| "remove_overlap headSeq tailSeq n ((k, p) # data) =
     (if \<not> seq_le k tailSeq then (headSeq, tailSeq, n, (k, p) # data)
      else let lastByteSeq = k + pkt_size p
           in if seq_gt lastByteSeq headSeq
              then if seq_gt k headSeq \<and> seq_lt lastByteSeq tailSeq
                   then remove_overlap headSeq tailSeq (n - pkt_size p) data
                   else let headSeq' = (if seq_le k headSeq then lastByteSeq else headSeq);
                            tailSeq' = (if seq_ge lastByteSeq tailSeq then k else tailSeq);
                            (h, t, n, data) = remove_overlap headSeq' tailSeq' n data
                        in (h, t, n, (k, p) # data)
              else let (h, t, n, data) = remove_overlap headSeq tailSeq n data
                   in (h, t, n, (k, p) # data))"

text \<open>\<^verbatim>\<open>m_data[key] = p\<close>\<close>

fun insert_data :: "u32 \<Rightarrow> u8 list \<Rightarrow> (u32 \<times> u8 list) list \<Rightarrow> (u32 \<times> u8 list) list" where
  "insert_data key p [] = [(key, p)]"
| "insert_data key p ((k, q) # data) =
     (if seq_lt key k then (key, p) # (k, q) # data
      else if key = k then (k, p) # data
      else (k, q) # insert_data key p data)"

fun advance :: "u32 \<Rightarrow> u32 \<Rightarrow> SackBlock list \<Rightarrow> (u32 \<times> u8 list) list \<Rightarrow> (u32 \<times> u32 \<times> SackBlock list) option" where
  "advance next avail sackList [] = Some (next, avail, sackList)"
| "advance next avail sackList ((k, p) # data) =
     (if seq_lt k next then advance next avail sackList data
      else if seq_gt k next then Some (next, avail, sackList)
      else do {
        let next = k + pkt_size p;
        let avail = avail + pkt_size p;
        sackList \<leftarrow> ClearSackList next sackList;
        advance next avail sackList data })"

text \<open>\<open>seqno\<close>: the sequence number of the header.\<close>

definition TcpRxBuffer_Add :: "u8 list \<Rightarrow> u32 \<Rightarrow> TcpRxBuffer \<Rightarrow> (bool \<times> TcpRxBuffer) option" where
  "TcpRxBuffer_Add p seqno b =
     (let pktSize = pkt_size p;
          (headSeq, tailSeq) = trim_window b seqno (seqno + pktSize);
          (headSeq, tailSeq, n, data) = remove_overlap headSeq tailSeq (rx_size b) (rx_data b);
          b = b\<lparr>rx_size := n, rx_data := data\<rparr>
      in if seq_ge headSeq tailSeq then Some (False, b)
         else let start = unat (seq_minus headSeq seqno); len = unat (seq_minus tailSeq headSeq)
              in if length p < start + len then None
                 else let p = take len (drop start p)
                      in if headSeq \<in> fst ` set data then None
                         else do {
                           let data = insert_data headSeq p data;
                           sackList \<leftarrow> (if seq_gt headSeq (rx_nextRxSeq b)
                             then UpdateSackList (rx_nextRxSeq b) headSeq tailSeq (rx_sackList b) else Some (rx_sackList b));
                           let n = n + pkt_size p;
                           (next, avail, sackList) \<leftarrow> advance (rx_nextRxSeq b) (rx_availBytes b) sackList data;
                           let next = (if rx_gotFin b \<and> next = rx_finSeq b then next + 1 else next);
                           Some (True, b\<lparr>rx_data := data, rx_size := n, rx_sackList := sackList, rx_nextRxSeq := next,
                             rx_availBytes := avail\<rparr>) })"

section \<open>Taking data out\<close>

fun extract_loop ::
  "u32 \<Rightarrow> u32 \<Rightarrow> u8 list \<Rightarrow> u32 \<Rightarrow> u32 \<Rightarrow> (u32 \<times> u8 list) list \<Rightarrow> (u8 list \<times> u32 \<times> u32 \<times> (u32 \<times> u8 list) list) option" where
  "extract_loop extractSize next outPkt n avail data =
     (if extractSize = 0 then Some (outPkt, n, avail, data)
      else case data of
             [] \<Rightarrow> None
           | (k, p) # rest \<Rightarrow>
               if \<not> seq_le k next then None
               else if pkt_size p \<le> extractSize
                    then extract_loop (extractSize - pkt_size p) next (outPkt @ p) (n - pkt_size p) (avail - pkt_size p) rest
                    else Some (outPkt @ take (unat extractSize) p, n - extractSize, avail - extractSize,
                           filter (\<lambda>e. fst e \<noteq> k)
                             (insert_data (k + extractSize) (drop (unat extractSize) p) data)))"

definition TcpRxBuffer_Extract :: "u32 \<Rightarrow> TcpRxBuffer \<Rightarrow> (u8 list option \<times> TcpRxBuffer) option" where
  "TcpRxBuffer_Extract maxSize b =
     (let extractSize = min maxSize (rx_availBytes b)
      in if extractSize = 0 then Some (None, b)
         else do {
           (outPkt, n, avail, data) \<leftarrow> extract_loop extractSize (rx_nextRxSeq b) [] (rx_size b) (rx_availBytes b) (rx_data b);
           let b = b\<lparr>rx_size := n, rx_availBytes := avail, rx_data := data\<rparr>;
           Some (if outPkt = [] then None else Some outPkt, b) })"

end
