(* ===== verification/Tcp_Tx_Buffer.thy ===== *)
theory Tcp_Tx_Buffer
  imports Tcp_Rx_Buffer
begin

text \<open>
  \<^verbatim>\<open>TcpTxBuffer\<close> (\<^verbatim>\<open>internet/model/tcp-tx-buffer.cc\<close>): the send buffer of a TCP socket with the scoreboard of what was
  sent, retransmitted, selectively acknowledged or lost.

  The items of \<^verbatim>\<open>m_sentList\<close> and \<^verbatim>\<open>m_appList\<close> are lists of records; a packet is its bytes.  An iterator of \<^verbatim>\<open>m_sentList\<close> is
  the number of its list node, \<open>None\<close> is \<^verbatim>\<open>end()\<close>.  The value of \<^verbatim>\<open>Simulator::Now\<close> is an argument.  The result \<open>None\<close> is an
  assertion or a fatal error, an access through a null pointer or an iterator that is not valid, or a call that does not return.
\<close>

record TcpTxItem =
  ti_node :: nat
  ti_startSeq :: u32
  ti_packet :: "u8 list"
  ti_lost :: bool
  ti_retrans :: bool
  ti_sacked :: bool
  ti_lastSent :: int

definition Time_Max :: int where
  "Time_Max = 2 ^ 63 - 1"

definition TcpTxItem_new :: "nat \<Rightarrow> TcpTxItem" where
  "TcpTxItem_new node = \<lparr>ti_node = node, ti_startSeq = 0, ti_packet = [], ti_lost = False, ti_retrans = False, ti_sacked = False,
     ti_lastSent = Time_Max\<rparr>"

definition item_size :: "TcpTxItem \<Rightarrow> u32" where
  "item_size t = pkt_size (ti_packet t)"

record TcpTxBuffer =
  tx_appList :: "TcpTxItem list"
  tx_sentList :: "TcpTxItem list"
  tx_maxBuffer :: u32
  tx_size :: u32
  tx_sentSize :: u32
  tx_firstByteSeq :: u32
  tx_highestSack :: "nat option \<times> u32"
  tx_lostOut :: u32
  tx_sackedOut :: u32
  tx_retrans :: u32
  tx_dupAckThresh :: u32
  tx_segmentSize :: u32
  tx_renoSack :: bool
  tx_sackEnabled :: bool
  tx_nodes :: nat

text \<open>The constructor leaves the iterator of \<^verbatim>\<open>m_highestSack\<close> singular: it is no node of the list.\<close>

definition TcpTxBuffer_new :: "u32 \<Rightarrow> TcpTxBuffer" where
  "TcpTxBuffer_new n = \<lparr>tx_appList = [], tx_sentList = [], tx_maxBuffer = 32768, tx_size = 0, tx_sentSize = 0, tx_firstByteSeq = n,
     tx_highestSack = (Some 0, 0), tx_lostOut = 0, tx_sackedOut = 0, tx_retrans = 0, tx_dupAckThresh = 0, tx_segmentSize = 0,
     tx_renoSack = False, tx_sackEnabled = True, tx_nodes = 1\<rparr>"

section \<open>Sizes and settings\<close>

definition TailSequence :: "TcpTxBuffer \<Rightarrow> u32" where
  "TailSequence b = tx_firstByteSeq b + tx_size b"

definition Tx_SetMaxBufferSize :: "u32 \<Rightarrow> TcpTxBuffer \<Rightarrow> TcpTxBuffer" where
  "Tx_SetMaxBufferSize n b = b\<lparr>tx_maxBuffer := n\<rparr>"

definition SetSackEnabled :: "bool \<Rightarrow> TcpTxBuffer \<Rightarrow> TcpTxBuffer" where
  "SetSackEnabled enabled b = b\<lparr>tx_sackEnabled := enabled\<rparr>"

definition SetDupAckThresh :: "u32 \<Rightarrow> TcpTxBuffer \<Rightarrow> TcpTxBuffer" where
  "SetDupAckThresh n b = b\<lparr>tx_dupAckThresh := n\<rparr>"

definition SetSegmentSize :: "u32 \<Rightarrow> TcpTxBuffer \<Rightarrow> TcpTxBuffer" where
  "SetSegmentSize n b = b\<lparr>tx_segmentSize := n\<rparr>"

definition Tx_Available :: "TcpTxBuffer \<Rightarrow> u32" where
  "Tx_Available b = tx_maxBuffer b - tx_size b"

definition SetHeadSequence :: "u32 \<Rightarrow> TcpTxBuffer \<Rightarrow> TcpTxBuffer option" where
  "SetHeadSequence seq b =
     (if tx_sentList b \<noteq> [] then None else Some (b\<lparr>tx_firstByteSeq := seq, tx_highestSack := (None, 0)\<rparr>))"

definition Tx_Add :: "u8 list \<Rightarrow> TcpTxBuffer \<Rightarrow> bool \<times> TcpTxBuffer" where
  "Tx_Add p b =
     (if pkt_size p \<le> Tx_Available b then
        (True, if pkt_size p > 0
               then b\<lparr>tx_appList := tx_appList b @ [(TcpTxItem_new (tx_nodes b))\<lparr>ti_packet := p\<rparr>], tx_size := tx_size b + pkt_size p,
                      tx_nodes := tx_nodes b + 1\<rparr>
               else b)
      else (False, b))"

definition SizeFromSequence :: "u32 \<Rightarrow> TcpTxBuffer \<Rightarrow> u32" where
  "SizeFromSequence seq b = (let lastSeq = TailSequence b in if seq_ge lastSeq seq then seq_minus lastSeq seq else 0)"

text \<open>What \<^verbatim>\<open>ConsistencyCheck\<close> would check if it were enabled.\<close>

definition marked_size :: "(TcpTxItem \<Rightarrow> bool) \<Rightarrow> TcpTxItem list \<Rightarrow> u32" where
  "marked_size p ts = sum_list (map item_size (filter p ts))"

definition ConsistencyCheck :: "TcpTxBuffer \<Rightarrow> bool" where
  "ConsistencyCheck b \<longleftrightarrow> marked_size ti_sacked (tx_sentList b) = tx_sackedOut b \<and> marked_size ti_lost (tx_sentList b) = tx_lostOut b \<and>
     marked_size ti_retrans (tx_sentList b) = tx_retrans b"

section \<open>Splitting and merging items\<close>

text \<open>The new item \<open>t1\<close> takes the first bytes of \<open>t2\<close>.\<close>

definition SplitItems :: "TcpTxItem \<Rightarrow> TcpTxItem \<Rightarrow> u32 \<Rightarrow> TcpTxItem \<times> TcpTxItem" where
  "SplitItems t1 t2 n =
     (t1\<lparr>ti_packet := take (unat n) (ti_packet t2), ti_startSeq := ti_startSeq t2, ti_sacked := ti_sacked t2, ti_lastSent := ti_lastSent t2,
         ti_retrans := ti_retrans t2, ti_lost := ti_lost t2\<rparr>,
      t2\<lparr>ti_packet := drop (unat n) (ti_packet t2), ti_startSeq := ti_startSeq t2 + n\<rparr>)"

text \<open>It gives \<open>t1\<close> and \<^verbatim>\<open>m_retrans\<close>; every caller deletes \<open>t2\<close>.\<close>

definition MergeItems :: "TcpTxItem \<Rightarrow> TcpTxItem \<Rightarrow> u32 \<Rightarrow> (TcpTxItem \<times> u32) option" where
  "MergeItems t1 t2 retrans =
     (if ti_sacked t1 \<noteq> ti_sacked t2 \<or> ti_lost t1 \<noteq> ti_lost t2 then None
      else let (t1, retrans) =
                 (if ti_retrans t1 \<noteq> ti_retrans t2
                  then if ti_retrans t1 then (t1\<lparr>ti_retrans := False\<rparr>, retrans - item_size t1) else (t1, retrans - item_size t2)
                  else (t1, retrans));
               t1 = (if ti_lastSent t1 < ti_lastSent t2 then t1\<lparr>ti_lastSent := ti_lastSent t2\<rparr> else t1)
           in Some (t1\<lparr>ti_packet := ti_packet t1 @ ti_packet t2\<rparr>, retrans))"

text \<open>
  \<^verbatim>\<open>GetPacketFromList\<close>: \<open>passed\<close> are the items behind the iterator, \<open>sent\<close> says that the list is \<^verbatim>\<open>m_sentList\<close>.  The result is
  the list split at the item.  In the branch for an end at the end of the current packet the code compares the current item with
  \<^verbatim>\<open>outItem\<close>, which are always the same there.
\<close>

partial_function (option) GetPacketFromList ::
  "bool \<Rightarrow> u32 \<Rightarrow> u32 \<Rightarrow> u32 \<Rightarrow> TcpTxItem list \<Rightarrow> u32 \<Rightarrow> TcpTxItem list \<Rightarrow> TcpTxBuffer \<Rightarrow>
   (TcpTxItem list \<times> TcpTxItem \<times> TcpTxItem list \<times> TcpTxBuffer) option" where
  "GetPacketFromList sent listStartFrom numBytes seq passed beginOfCurrentPacket list b =
     (case list of
        [] \<Rightarrow> None
      | currentItem # rest \<Rightarrow>
          if sent \<and> \<not> seq_ge (ti_startSeq currentItem) (tx_firstByteSeq b) then None
          else if seq_lt seq (beginOfCurrentPacket + item_size currentItem) then
            if seq = beginOfCurrentPacket then
              if seq_le (seq + numBytes) (beginOfCurrentPacket + item_size currentItem) then
                if numBytes = item_size currentItem then Some (passed, currentItem, rest, b)
                else if numBytes < item_size currentItem then
                  let (firstPart, currentItem) = SplitItems (TcpTxItem_new (tx_nodes b)) currentItem numBytes
                  in Some (passed, firstPart, currentItem # rest, b\<lparr>tx_nodes := tx_nodes b + 1\<rparr>)
                else None
              else
                (case rest of
                   [] \<Rightarrow> Some (passed, currentItem, [], b)
                 | next # rest \<Rightarrow> do {
                     (currentItem, retrans) \<leftarrow> MergeItems currentItem next (tx_retrans b);
                     GetPacketFromList sent listStartFrom numBytes seq [] listStartFrom (passed @ currentItem # rest) (b\<lparr>tx_retrans := retrans\<rparr>) })
            else if seq_gt seq beginOfCurrentPacket then
              let (firstPart, currentItem) = SplitItems (TcpTxItem_new (tx_nodes b)) currentItem (seq_minus seq beginOfCurrentPacket)
              in GetPacketFromList sent listStartFrom numBytes seq [] listStartFrom (passed @ firstPart # currentItem # rest)
                   (b\<lparr>tx_nodes := tx_nodes b + 1\<rparr>)
            else None
          else GetPacketFromList sent listStartFrom numBytes seq (passed @ [currentItem]) (beginOfCurrentPacket + item_size currentItem) rest b)"

section \<open>Taking out segments\<close>

definition GetNewSegment :: "u32 \<Rightarrow> TcpTxBuffer \<Rightarrow> (TcpTxItem \<times> TcpTxBuffer) option" where
  "GetNewSegment numBytes b = do {
     let startOfAppList = tx_firstByteSeq b + tx_sentSize b;
     (before, item, behind, b) \<leftarrow> GetPacketFromList False startOfAppList numBytes startOfAppList [] startOfAppList (tx_appList b) b;
     let item = item\<lparr>ti_startSeq := startOfAppList, ti_node := tx_nodes b\<rparr>;
     Some (item, b\<lparr>tx_appList := before @ behind, tx_sentList := tx_sentList b @ [item], tx_sentSize := tx_sentSize b + item_size item,
       tx_nodes := tx_nodes b + 1\<rparr>) }"

text \<open>The loop that finds how much may be merged.\<close>

fun merge_size :: "u32 \<Rightarrow> u32 \<Rightarrow> TcpTxItem list \<Rightarrow> u32" where
  "merge_size seq s [] = s"
| "merge_size seq s (it # rest) =
     (if ti_startSeq it = seq then
        (case rest of
           next # _ \<Rightarrow>
             if \<not> ti_sacked next \<and> ti_lost it = ti_lost next then min s (item_size it + item_size next) else min s (item_size it)
         | [] \<Rightarrow> min s (item_size it))
      else merge_size seq s rest)"

definition GetTransmittedSegment :: "u32 \<Rightarrow> u32 \<Rightarrow> TcpTxBuffer \<Rightarrow> (TcpTxItem list \<times> TcpTxItem \<times> TcpTxItem list \<times> TcpTxBuffer) option" where
  "GetTransmittedSegment numBytes seq b =
     (if \<not> seq_ge seq (tx_firstByteSeq b) \<or> \<not> numBytes \<le> tx_sentSize b \<or> tx_sentList b = [] then None
      else do {
        let s = merge_size seq numBytes (tx_sentList b);
        (before, item, behind, b) \<leftarrow> GetPacketFromList True (tx_firstByteSeq b) s seq [] (tx_firstByteSeq b) (tx_sentList b) b;
        let b = (if \<not> ti_retrans item then b\<lparr>tx_retrans := tx_retrans b + item_size item\<rparr> else b);
        let item = item\<lparr>ti_retrans := True\<rparr>;
        Some (before, item, behind, b\<lparr>tx_sentList := before @ item # behind\<rparr>) })"

text \<open>\<^verbatim>\<open>CopyFromSequence\<close>; it gives the item, or \<open>None\<close> for \<^verbatim>\<open>nullptr\<close>.\<close>

partial_function (option) CopyFromSequence :: "int \<Rightarrow> u32 \<Rightarrow> u32 \<Rightarrow> TcpTxBuffer \<Rightarrow> (TcpTxItem option \<times> TcpTxBuffer) option" where
  "CopyFromSequence Now numBytes seq b =
     (if seq_gt (tx_firstByteSeq b) seq then None
      else let s = min numBytes (SizeFromSequence seq b)
           in if s = 0 then Some (None, b)
              else if seq_ge (tx_firstByteSeq b + tx_sentSize b) (seq + s) then do {
                (before, outItem, behind, b) \<leftarrow> GetTransmittedSegment s seq b;
                if ti_sacked outItem then None
                else do {
                  let outItem = outItem\<lparr>ti_lastSent := Now\<rparr>;
                  if \<not> seq_ge (ti_startSeq outItem) (tx_firstByteSeq b) then None
                  else Some (Some outItem, b\<lparr>tx_sentList := before @ outItem # behind\<rparr>) } }
              else if seq_le (tx_firstByteSeq b + tx_sentSize b) seq then
                if tx_firstByteSeq b + tx_sentSize b \<noteq> seq then None
                else do {
                  (outItem, b) \<leftarrow> GetNewSegment s b;
                  if ti_retrans outItem then None
                  else do {
                    let outItem = outItem\<lparr>ti_lastSent := Now\<rparr>;
                    if \<not> seq_ge (ti_startSeq outItem) (tx_firstByteSeq b) then None
                    else Some (Some outItem, b\<lparr>tx_sentList := butlast (tx_sentList b) @ [outItem]\<rparr>) } }
              else if tx_firstByteSeq b + tx_sentSize b > seq \<and> tx_firstByteSeq b + tx_sentSize b < seq + s then
                CopyFromSequence Now ((tx_firstByteSeq b + tx_sentSize b) - seq) seq b
              else None)"

section \<open>The scoreboard\<close>

definition MarkHeadAsLost :: "TcpTxBuffer \<Rightarrow> TcpTxBuffer" where
  "MarkHeadAsLost b =
     (case tx_sentList b of
        [] \<Rightarrow> b
      | h # rest \<Rightarrow>
          let sackedOut = (if ti_sacked h then tx_sackedOut b - item_size h else tx_sackedOut b);
              retrans = (if ti_retrans h then tx_retrans b - item_size h else tx_retrans b);
              lostOut = (if \<not> ti_lost h then tx_lostOut b + item_size h else tx_lostOut b)
          in b\<lparr>tx_sentList := h\<lparr>ti_sacked := False, ti_retrans := False, ti_lost := True\<rparr> # rest,
               tx_sackedOut := sackedOut, tx_retrans := retrans, tx_lostOut := lostOut\<rparr>)"

text \<open>The first item behind the head that is not marked as acknowledged: items in front of it, itself, items behind it.\<close>

fun split_unsacked :: "TcpTxItem list \<Rightarrow> (TcpTxItem list \<times> TcpTxItem \<times> TcpTxItem list) option" where
  "split_unsacked [] = None"
| "split_unsacked (it # rest) =
     (if ti_sacked it then map_option (\<lambda>(before, t, behind). (it # before, t, behind)) (split_unsacked rest) else Some ([], it, rest))"

definition AddRenoSack :: "TcpTxBuffer \<Rightarrow> TcpTxBuffer option" where
  "AddRenoSack b =
     (if \<not> (if tx_sackEnabled b then length (tx_sentList b) > 1 else length (tx_sentList b) > 0) then None
      else let b = b\<lparr>tx_renoSack := True\<rparr>
           in case split_unsacked (tl (tx_sentList b)) of
                None \<Rightarrow> Some b
              | Some (before, it, behind) \<Rightarrow>
                  Some (b\<lparr>tx_sentList := hd (tx_sentList b) # before @ it\<lparr>ti_sacked := True\<rparr> # behind,
                    tx_sackedOut := tx_sackedOut b + item_size it, tx_highestSack := (Some (ti_node it), ti_startSeq it)\<rparr>))"

definition ResetRenoSack :: "TcpTxBuffer \<Rightarrow> TcpTxBuffer" where
  "ResetRenoSack b = b\<lparr>tx_sackedOut := 0, tx_sentList := map (\<lambda>it. it\<lparr>ti_sacked := False\<rparr>) (tx_sentList b), tx_highestSack := (None, 0)\<rparr>"

definition RemoveFromCounts :: "TcpTxItem \<Rightarrow> u32 \<Rightarrow> TcpTxBuffer \<Rightarrow> TcpTxBuffer option" where
  "RemoveFromCounts item n b =
     (if ti_sacked item \<and> \<not> tx_sackedOut b \<ge> n \<or> ti_retrans item \<and> \<not> tx_retrans b \<ge> n \<or> ti_lost item \<and> \<not> tx_lostOut b \<ge> n then None
      else Some (b\<lparr>tx_sackedOut := (if ti_sacked item then tx_sackedOut b - n else tx_sackedOut b),
        tx_retrans := (if ti_retrans item then tx_retrans b - n else tx_retrans b),
        tx_lostOut := (if ti_lost item then tx_lostOut b - n else tx_lostOut b)\<rparr>))"

text \<open>
  The loop of \<^verbatim>\<open>DiscardUpTo\<close>, whose iterator is always at the first item.  \<open>deleted\<close> are the items \<^verbatim>\<open>beforeDelCb\<close> was called with.
\<close>

partial_function (option) discard_loop :: "int \<Rightarrow> u32 \<Rightarrow> TcpTxItem list \<Rightarrow> TcpTxBuffer \<Rightarrow> (TcpTxItem list \<times> TcpTxBuffer) option" where
  "discard_loop Now offset deleted b =
     (if \<not> (tx_size b > 0 \<and> offset > 0) then Some (deleted, b)
      else do {
        b \<leftarrow> (if tx_sentList b = [] then do {
                (p, b) \<leftarrow> CopyFromSequence Now offset (tx_firstByteSeq b) b;
                if p = None \<or> tx_sentList b = [] then None else Some b }
              else Some b);
        let item = hd (tx_sentList b);
        let pktSize = item_size item;
        if ti_startSeq item \<noteq> tx_firstByteSeq b then None
        else if offset \<ge> pktSize then do {
          b \<leftarrow> RemoveFromCounts item pktSize
            (b\<lparr>tx_size := tx_size b - pktSize, tx_sentSize := tx_sentSize b - pktSize, tx_firstByteSeq := tx_firstByteSeq b + pktSize\<rparr>);
          discard_loop Now (offset - pktSize) (deleted @ [item]) (b\<lparr>tx_sentList := tl (tx_sentList b)\<rparr>) }
        else do {
          let item' = item\<lparr>ti_packet := take (unat (pktSize - offset)) (drop (unat offset) (ti_packet item)), ti_startSeq := ti_startSeq item + offset\<rparr>;
          b \<leftarrow> RemoveFromCounts item' offset
            (b\<lparr>tx_size := tx_size b - offset, tx_sentSize := tx_sentSize b - offset, tx_firstByteSeq := tx_firstByteSeq b + offset,
               tx_sentList := item' # tl (tx_sentList b)\<rparr>);
          Some (deleted, b) } })"

definition DiscardUpTo :: "int \<Rightarrow> u32 \<Rightarrow> TcpTxBuffer \<Rightarrow> (TcpTxItem list \<times> TcpTxBuffer) option" where
  "DiscardUpTo Now seq b =
     (if seq_ge (tx_firstByteSeq b) seq then Some ([], b)
      else do {
        (deleted, b) \<leftarrow> discard_loop Now (seq_minus seq (tx_firstByteSeq b)) [] b;
        let b = (if tx_size b = 0 then b\<lparr>tx_firstByteSeq := seq\<rparr> else b);
        b \<leftarrow> (case tx_sentList b of
                [] \<Rightarrow> Some b
              | h # rest \<Rightarrow> do {
                  b \<leftarrow> (if ti_sacked h then
                          if ti_lost h then None
                          else map_option MarkHeadAsLost
                            (AddRenoSack (b\<lparr>tx_sentList := h\<lparr>ti_sacked := False\<rparr> # rest, tx_sackedOut := tx_sackedOut b - item_size h\<rparr>))
                        else Some b);
                  if ti_startSeq h = seq then Some b else None });
        let b = (if seq_le (snd (tx_highestSack b)) (tx_firstByteSeq b) then b\<lparr>tx_highestSack := (None, 0)\<rparr> else b);
        if \<not> seq_ge (tx_firstByteSeq b) seq \<or> \<not> tx_sentSize b \<ge> tx_sackedOut b + tx_lostOut b then None
        else Some (deleted, b) })"

definition IsRetransmittedDataAcked :: "u32 \<Rightarrow> TcpTxBuffer \<Rightarrow> bool" where
  "IsRetransmittedDataAcked ack b \<longleftrightarrow>
     list_ex (\<lambda>item. ti_startSeq item + item_size item = ack \<and> \<not> ti_sacked item \<and> ti_retrans item) (tx_sentList b)"

definition FindHighestSacked :: "TcpTxBuffer \<Rightarrow> nat option \<times> u32" where
  "FindHighestSacked b =
     fst (fold (\<lambda>item (ret, begin). (if ti_sacked item then (Some (ti_node item), begin) else ret, begin + item_size item)) (tx_sentList b)
       ((None, 0), tx_firstByteSeq b))"

section \<open>Selective acknowledgements\<close>

text \<open>The downward loop of \<^verbatim>\<open>UpdateLostCount\<close>: the items from the highest one to the second, with \<open>sacked\<close> and \<^verbatim>\<open>m_lostOut\<close>.\<close>

fun lost_loop :: "u32 \<Rightarrow> TcpTxItem list \<Rightarrow> u32 \<Rightarrow> u32 \<Rightarrow> TcpTxItem list \<times> u32 \<times> u32" where
  "lost_loop thresh [] sacked lostOut = ([], sacked, lostOut)"
| "lost_loop thresh (item # rest) sacked lostOut =
     (let sacked = (if ti_sacked item then sacked + 1 else sacked);
          lose = (sacked \<ge> thresh \<and> \<not> ti_sacked item \<and> \<not> ti_lost item);
          (rest, n, l) = lost_loop thresh rest sacked (if lose then lostOut + item_size item else lostOut)
      in ((if lose then item\<lparr>ti_lost := True\<rparr> else item) # rest, n, l))"

text \<open>The items up to a node, and those behind it.\<close>

fun split_node :: "nat \<Rightarrow> TcpTxItem list \<Rightarrow> (TcpTxItem list \<times> TcpTxItem list) option" where
  "split_node n [] = None"
| "split_node n (t # ts) = (if ti_node t = n then Some ([t], ts) else map_option (\<lambda>(us, vs). (t # us, vs)) (split_node n ts))"

definition UpdateLostCount :: "TcpTxBuffer \<Rightarrow> TcpTxBuffer option" where
  "UpdateLostCount b = do {
     (upto, behind) \<leftarrow> (case fst (tx_highestSack b) of
        None \<Rightarrow> if tx_sentList b = [] then Some ([], []) else None
      | Some n \<Rightarrow> split_node n (tx_sentList b));
     let (items, sacked, lostOut) = lost_loop (tx_dupAckThresh b) (rev (tl upto)) 0 (tx_lostOut b);
     let sentList = take 1 upto @ rev items @ behind;
     if sacked \<ge> tx_dupAckThresh b then
       (case sentList of
          [] \<Rightarrow> None
        | h # rest \<Rightarrow>
            Some (if \<not> ti_lost h then b\<lparr>tx_sentList := h\<lparr>ti_lost := True\<rparr> # rest, tx_lostOut := lostOut + item_size h\<rparr>
                  else b\<lparr>tx_sentList := sentList, tx_lostOut := lostOut\<rparr>))
     else Some (b\<lparr>tx_sentList := sentList, tx_lostOut := lostOut\<rparr>) }"

text \<open>
  The loop of \<^verbatim>\<open>Update\<close> for one block, which starts at the first item: counts and \<^verbatim>\<open>m_highestSack\<close> are passed along.
  \<open>newly\<close> are the items \<^verbatim>\<open>sackedCb\<close> is called with.
\<close>

record sack_counts =
  sc_lostOut :: u32
  sc_sackedOut :: u32
  sc_bytesSacked :: u32
  sc_highest :: "nat option \<times> u32"
  sc_newly :: "TcpTxItem list"

fun update_block :: "u32 \<times> u32 \<Rightarrow> u32 \<Rightarrow> TcpTxItem list \<Rightarrow> sack_counts \<Rightarrow> (TcpTxItem list \<times> sack_counts) option" where
  "update_block block begin [] c = Some ([], c)"
| "update_block block begin (item # rest) c =
     (let pktSize = item_size item
      in if seq_ge begin (fst block) \<and> seq_le (begin + pktSize) (snd block) then
           if ti_sacked item then
             if ti_lost item then None
             else map_option (\<lambda>(rest, c). (item # rest, c)) (update_block block (begin + pktSize) rest c)
           else
             let item' = item\<lparr>ti_lost := False, ti_sacked := True\<rparr>;
                 c = c\<lparr>sc_lostOut := (if ti_lost item then sc_lostOut c - pktSize else sc_lostOut c),
                       sc_sackedOut := sc_sackedOut c + pktSize, sc_bytesSacked := sc_bytesSacked c + pktSize,
                       sc_highest := (if fst (sc_highest c) = None \<or> seq_le (snd (sc_highest c)) (begin + pktSize)
                                      then (Some (ti_node item), begin) else sc_highest c),
                       sc_newly := sc_newly c @ [item']\<rparr>
             in map_option (\<lambda>(rest, c). (item' # rest, c)) (update_block block (begin + pktSize) rest c)
         else if seq_gt (begin + pktSize) (snd block) then Some (item # rest, c)
         else map_option (\<lambda>(rest, c). (item # rest, c)) (update_block block (begin + pktSize) rest c))"

text \<open>The loop over the blocks; the flag says that a block outside the sent list ended it.\<close>

fun update_blocks :: "u32 \<Rightarrow> u32 \<Rightarrow> (u32 \<times> u32) list \<Rightarrow> TcpTxItem list \<Rightarrow> sack_counts \<Rightarrow> (bool \<times> TcpTxItem list \<times> sack_counts) option" where
  "update_blocks first sentSize [] items c = Some (False, items, c)"
| "update_blocks first sentSize (block # blocks) items c =
     (if seq_lt (first + sentSize) (fst block) then Some (True, items, c)
      else do {
        (items, c) \<leftarrow> update_block block first items c;
        update_blocks first sentSize blocks items c })"

definition Update :: "(u32 \<times> u32) list \<Rightarrow> TcpTxBuffer \<Rightarrow> (u32 \<times> TcpTxItem list \<times> TcpTxBuffer) option" where
  "Update blocks b = do {
     (outside, items, c) \<leftarrow> update_blocks (tx_firstByteSeq b) (tx_sentSize b) blocks (tx_sentList b)
       \<lparr>sc_lostOut = tx_lostOut b, sc_sackedOut = tx_sackedOut b, sc_bytesSacked = 0, sc_highest = tx_highestSack b, sc_newly = []\<rparr>;
     let b = b\<lparr>tx_sentList := items, tx_lostOut := sc_lostOut c, tx_sackedOut := sc_sackedOut c, tx_highestSack := sc_highest c\<rparr>;
     if outside then Some (sc_bytesSacked c, sc_newly c, b)
     else do {
       b \<leftarrow> (if sc_bytesSacked c > 0 then if fst (tx_highestSack b) = None then None else UpdateLostCount b else Some b);
       if tx_sentList b = [] \<or> ti_sacked (hd (tx_sentList b)) \<or> \<not> tx_sentSize b \<ge> tx_sackedOut b + tx_lostOut b then None
       else Some (sc_bytesSacked c, sc_newly c, b) } }"

fun is_lost_loop :: "u32 \<Rightarrow> u32 \<Rightarrow> TcpTxItem list \<Rightarrow> bool" where
  "is_lost_loop seq begin [] = False"
| "is_lost_loop seq begin (it # rest) =
     (if seq_ge begin seq \<and> ti_lost it then True
      else if seq_ge begin seq \<and> ti_sacked it then False
      else is_lost_loop seq (begin + item_size it) rest)"

definition IsLost :: "u32 \<Rightarrow> TcpTxBuffer \<Rightarrow> bool" where
  "IsLost seq b \<longleftrightarrow> \<not> seq_ge seq (snd (tx_highestSack b)) \<and> is_lost_loop seq (tx_firstByteSeq b) (tx_sentList b)"

section \<open>What to send next\<close>

text \<open>The loop of \<^verbatim>\<open>NextSeg\<close>: \<open>Inl\<close> the sequence number it returns with, \<open>Inr\<close> the one kept for rule 3.\<close>

fun next_seg_loop :: "bool \<Rightarrow> u32 \<Rightarrow> u32 option \<Rightarrow> TcpTxItem list \<Rightarrow> u32 + u32 option" where
  "next_seg_loop isRecovery begin rule3 [] = Inr rule3"
| "next_seg_loop isRecovery begin rule3 (item # rest) =
     (if \<not> ti_retrans item \<and> \<not> ti_sacked item \<and> ti_lost item then Inl begin
      else next_seg_loop isRecovery (begin + item_size item)
        (if \<not> ti_retrans item \<and> \<not> ti_sacked item \<and> (rule3 = None \<or> rule3 = Some 0) \<and> isRecovery then Some begin else rule3) rest)"

definition NextSeg :: "bool \<Rightarrow> u32 \<Rightarrow> TcpTxBuffer \<Rightarrow> (u32 \<times> u32) option" where
  "NextSeg isRecovery rWnd b =
     (case next_seg_loop isRecovery (tx_firstByteSeq b) None (tx_sentList b) of
        Inl seq \<Rightarrow> Some (seq, seq + tx_segmentSize b)
      | Inr rule3 \<Rightarrow>
          if SizeFromSequence (tx_firstByteSeq b + tx_sentSize b) b > 0 then
            if tx_sentSize b \<le> rWnd
            then let seq = tx_firstByteSeq b + tx_sentSize b in Some (seq, seq + min (tx_segmentSize b) (rWnd - tx_sentSize b))
            else None
          else map_option (\<lambda>seq. (seq, seq + tx_segmentSize b)) rule3)"

definition BytesInFlight :: "TcpTxBuffer \<Rightarrow> u32 option" where
  "BytesInFlight b =
     (if \<not> tx_sackedOut b + tx_lostOut b \<le> tx_sentSize b then None
      else Some (tx_sentSize b - (tx_sackedOut b + tx_lostOut b) + tx_retrans b))"

section \<open>Timeouts\<close>

definition ResetSentList :: "TcpTxBuffer \<Rightarrow> TcpTxBuffer" where
  "ResetSentList b = b\<lparr>tx_appList := map (\<lambda>item. item\<lparr>ti_retrans := False, ti_sacked := False, ti_lost := False\<rparr>) (tx_sentList b) @ tx_appList b,
     tx_sentList := [], tx_sentSize := 0, tx_lostOut := 0, tx_retrans := 0, tx_sackedOut := 0, tx_highestSack := (None, 0)\<rparr>"

definition ResetLastSegmentSent :: "TcpTxBuffer \<Rightarrow> TcpTxBuffer" where
  "ResetLastSegmentSent b =
     (if tx_sentList b = [] then b
      else let item = last (tx_sentList b)
           in b\<lparr>tx_sentList := butlast (tx_sentList b), tx_sentSize := tx_sentSize b - item_size item,
                tx_retrans := (if ti_retrans item then tx_retrans b - item_size item else tx_retrans b),
                tx_appList := item # tx_appList b\<rparr>)"

text \<open>The loop of \<^verbatim>\<open>SetSentListLost\<close>, with \<^verbatim>\<open>m_lostOut\<close>.\<close>

fun lose_all :: "bool \<Rightarrow> TcpTxItem list \<Rightarrow> u32 \<Rightarrow> TcpTxItem list \<times> u32" where
  "lose_all resetSack [] lostOut = ([], lostOut)"
| "lose_all resetSack (it # rest) lostOut =
     (let (it, lostOut) =
        (if resetSack then (it\<lparr>ti_sacked := False, ti_lost := True\<rparr>, lostOut)
         else if ti_lost it then (it, lostOut + item_size it)
         else if \<not> ti_sacked it then (it\<lparr>ti_lost := True\<rparr>, lostOut + item_size it)
         else (it, lostOut));
        (rest, lostOut) = lose_all resetSack rest lostOut
      in (it\<lparr>ti_retrans := False\<rparr> # rest, lostOut))"

definition SetSentListLost :: "bool \<Rightarrow> TcpTxBuffer \<Rightarrow> TcpTxBuffer option" where
  "SetSentListLost resetSack b =
     (let b = (if resetSack
               then b\<lparr>tx_retrans := 0, tx_sackedOut := 0, tx_lostOut := tx_sentSize b, tx_highestSack := (None, 0)\<rparr>
               else b\<lparr>tx_retrans := 0, tx_lostOut := 0\<rparr>);
          (items, lostOut) = lose_all resetSack (tx_sentList b) (tx_lostOut b);
          b = b\<lparr>tx_sentList := items, tx_lostOut := lostOut\<rparr>
      in if \<not> tx_sentSize b \<ge> tx_sackedOut b + tx_lostOut b then None else Some b)"

definition IsHeadRetransmitted :: "TcpTxBuffer \<Rightarrow> bool" where
  "IsHeadRetransmitted b \<longleftrightarrow> tx_sentSize b \<noteq> 0 \<and> ti_retrans (hd (tx_sentList b))"

definition DeleteRetransmittedFlagFromHead :: "TcpTxBuffer \<Rightarrow> TcpTxBuffer" where
  "DeleteRetransmittedFlagFromHead b =
     (case tx_sentList b of
        h # rest \<Rightarrow>
          if tx_sentSize b \<noteq> 0 \<and> ti_retrans h
          then b\<lparr>tx_sentList := h\<lparr>ti_retrans := False\<rparr> # rest, tx_retrans := tx_retrans b - item_size h\<rparr> else b
      | [] \<Rightarrow> b)"

end
