(* ===== verification/Tcp_Tx_Items.thy ===== *)
theory Tcp_Tx_Items
  imports Tcp_Tx_Buffer
begin

text \<open>
  Items of the send buffer as bytes with marks: splitting and merging items keeps every byte with its marks, the numbers
  counted, and the items that are selectively acknowledged.
\<close>

section \<open>Items as bytes\<close>

definition item_bytes :: "TcpTxItem list \<Rightarrow> u8 list" where
  "item_bytes ts = concat (map ti_packet ts)"

definition marks :: "TcpTxItem \<Rightarrow> (u8 \<times> bool \<times> bool) list" where
  "marks t = map (\<lambda>c. (c, ti_sacked t, ti_lost t)) (ti_packet t)"

definition mview :: "TcpTxItem list \<Rightarrow> (u8 \<times> bool \<times> bool) list" where
  "mview ts = concat (map marks ts)"

definition marked :: "(TcpTxItem \<Rightarrow> bool) \<Rightarrow> TcpTxItem list \<Rightarrow> nat" where
  "marked p ts = length (item_bytes (filter p ts))"

lemma item_bytes_simps [simp]: "item_bytes [] = []" "item_bytes (t # ts) = ti_packet t @ item_bytes ts" "item_bytes (us @ vs) = item_bytes us @ item_bytes vs"
  by (simp_all add: item_bytes_def)

lemma mview_simps [simp]: "mview [] = []" "mview (t # ts) = marks t @ mview ts" "mview (us @ vs) = mview us @ mview vs"
  by (simp_all add: mview_def)

lemma marked_simps [simp]: "marked p [] = 0" "marked p (t # ts) = (if p t then length (ti_packet t) else 0) + marked p ts"
  "marked p (us @ vs) = marked p us + marked p vs"
  by (simp_all add: marked_def)

lemma marks_length [simp]: "length (marks t) = length (ti_packet t)"
  by (simp add: marks_def)

lemma mview_length [simp]: "length (mview ts) = length (item_bytes ts)"
  by (induction ts) simp_all

lemma mview_bytes: "map fst (mview ts) = item_bytes ts"
  by (induction ts) (simp_all add: marks_def comp_def)

lemma marked_size_eq: "marked_size p ts = of_nat (marked p ts)"
  by (induction ts) (simp_all add: marked_size_def item_size_def pkt_size_def)

lemma marked_mview:
  "marked ti_sacked ts = length (filter (\<lambda>m. fst (snd m)) (mview ts))" "marked ti_lost ts = length (filter (\<lambda>m. snd (snd m)) (mview ts))"
  by (induction ts) (simp_all add: marks_def comp_def filter_map)

lemma marked_le: "marked p ts \<le> length (item_bytes ts)"
  by (induction ts) simp_all

lemma marked_disjoint: "\<forall>t\<in>set ts. \<not> (p t \<and> q t) \<Longrightarrow> marked p ts + marked q ts \<le> length (item_bytes ts)"
  by (induction ts) auto

definition full_items :: "TcpTxItem list \<Rightarrow> bool" where
  "full_items ts \<longleftrightarrow> (\<forall>t\<in>set ts. ti_packet t \<noteq> [])"

lemma full_items_simps [simp]: "full_items []" "full_items (t # ts) \<longleftrightarrow> ti_packet t \<noteq> [] \<and> full_items ts"
  "full_items (us @ vs) \<longleftrightarrow> full_items us \<and> full_items vs"
  by (auto simp: full_items_def)

text \<open>The marks of an item can be read off its first byte.\<close>

lemma mview_inside:
  assumes "length (item_bytes us) \<le> k" and "k < length (item_bytes us) + length (ti_packet t)"
  shows "snd (mview (us @ t # vs) ! k) = (ti_sacked t, ti_lost t)"
proof -
  have "k - length (item_bytes us) < length (ti_packet t)" using assms by linarith
  then show ?thesis using assms(1) by (simp add: nth_append marks_def)
qed

text \<open>Sequence numbers of consecutive items.\<close>

fun placed :: "u32 \<Rightarrow> nat \<Rightarrow> TcpTxItem list \<Rightarrow> bool" where
  "placed iss y [] \<longleftrightarrow> True"
| "placed iss y (t # ts) \<longleftrightarrow> ti_startSeq t = seq_of iss y \<and> placed iss (y + length (ti_packet t)) ts"

lemma placed_append: "placed iss y (us @ vs) \<longleftrightarrow> placed iss y us \<and> placed iss (y + length (item_bytes us)) vs"
  by (induction us arbitrary: y) (auto simp: add.assoc)

section \<open>Rearranged lists\<close>

text \<open>\<open>r\<close> is \<^verbatim>\<open>m_retrans\<close>, \<open>k\<close> the next node; \<open>s\<close> says that acknowledged items were not touched.\<close>

definition rearranged :: "bool \<Rightarrow> TcpTxItem list \<times> u32 \<times> nat \<Rightarrow> TcpTxItem list \<times> u32 \<times> nat \<Rightarrow> bool" where
  "rearranged s = (\<lambda>(L, r, k) (L', r', k'). mview L' = mview L \<and> (full_items L \<longrightarrow> full_items L') \<and> (\<forall>iss y. placed iss y L \<longrightarrow> placed iss y L') \<and>
     r' - marked_size ti_retrans L' = r - marked_size ti_retrans L \<and> (s \<longrightarrow> filter ti_sacked L' = filter ti_sacked L) \<and>
     ((\<exists>t\<in>set L'. ti_retrans t) \<longrightarrow> (\<exists>t\<in>set L. ti_retrans t)) \<and>
     k \<le> k' \<and> (distinct (map ti_node L) \<and> (\<forall>t\<in>set L. ti_node t < k) \<longrightarrow> distinct (map ti_node L') \<and> (\<forall>t\<in>set L'. ti_node t < k')))"

lemma rearranged_refl: "rearranged s (L, r, k) (L, r, k)"
  by (simp add: rearranged_def)

lemma rearranged_trans: "rearranged s (L, r, k) (L1, r1, k1) \<Longrightarrow> rearranged s (L1, r1, k1) (L2, r2, k2) \<Longrightarrow> rearranged s (L, r, k) (L2, r2, k2)"
  by (auto simp: rearranged_def)

lemma rearranged_weaken: "rearranged s X Y \<Longrightarrow> (s' \<longrightarrow> s) \<Longrightarrow> rearranged s' X Y"
  by (auto simp: rearranged_def)

lemma split_rearranged:
  assumes "SplitItems (TcpTxItem_new k) t n = (t1, t2)" and "0 < unat n" and "unat n < length (ti_packet t)"
  shows "rearranged (\<not> ti_sacked t) (us @ t # vs, r, k) (us @ t1 # t2 # vs, r, k + 1)"
    and "ti_packet t1 = take (unat n) (ti_packet t)" "ti_packet t2 = drop (unat n) (ti_packet t)"
    and "ti_sacked t1 = ti_sacked t" "ti_sacked t2 = ti_sacked t" "ti_lost t1 = ti_lost t" "ti_lost t2 = ti_lost t"
proof -
  show e: "ti_packet t1 = take (unat n) (ti_packet t)" "ti_packet t2 = drop (unat n) (ti_packet t)"
    "ti_sacked t1 = ti_sacked t" "ti_sacked t2 = ti_sacked t" "ti_lost t1 = ti_lost t" "ti_lost t2 = ti_lost t"
    using assms(1) by (auto simp: SplitItems_def)
  have f: "ti_retrans t1 = ti_retrans t" "ti_retrans t2 = ti_retrans t" "ti_node t1 = k" "ti_node t2 = ti_node t"
    "ti_startSeq t1 = ti_startSeq t" "ti_startSeq t2 = ti_startSeq t + n"
    using assms(1) by (auto simp: SplitItems_def TcpTxItem_new_def)
  have v: "marks t1 @ marks t2 = marks t" unfolding marks_def e map_append [symmetric] append_take_drop_id ..
  have len: "length (ti_packet t1) = unat n" "length (ti_packet t2) = length (ti_packet t) - unat n" using assms(3) e by simp_all
  have "marked_size ti_retrans (us @ t1 # t2 # vs) = marked_size ti_retrans (us @ t # vs)"
    using f len assms(3) by (simp add: marked_size_eq)
  moreover have "mview (us @ t1 # t2 # vs) = mview (us @ t # vs)" using v by (simp flip: append_assoc)
  moreover have "ti_packet t1 \<noteq> []" "ti_packet t2 \<noteq> []" using assms(2,3) e by auto
  moreover have "placed iss y (us @ t1 # t2 # vs)" if "placed iss y (us @ t # vs)" for iss y
    using that f len assms(3) seq_of_add [of iss "y + length (item_bytes us)" "unat n"] by (auto simp: placed_append add.assoc)
  moreover have "filter ti_sacked (us @ t1 # t2 # vs) = filter ti_sacked (us @ t # vs)" if "\<not> ti_sacked t" using that e by simp
  moreover have "distinct (map ti_node (us @ t1 # t2 # vs)) \<and> (\<forall>t\<in>set (us @ t1 # t2 # vs). ti_node t < k + 1)"
    if d: "distinct (map ti_node (us @ t # vs)) \<and> (\<forall>t\<in>set (us @ t # vs). ti_node t < k)"
  proof -
    have n: "k \<notin> ti_node ` set (us @ t # vs)" using d by blast
    have "map ti_node (us @ t1 # t2 # vs) = map ti_node us @ k # map ti_node (t # vs)" using f(3,4) by simp
    then have "distinct (map ti_node (us @ t1 # t2 # vs))" using d n by (auto simp del: image_iff)
    moreover have "\<forall>u\<in>set (us @ t1 # t2 # vs). ti_node u < k + 1"
    proof
      fix u assume "u \<in> set (us @ t1 # t2 # vs)"
      then have "u \<in> set (us @ t # vs) \<or> u = t1 \<or> u = t2" by auto
      then have "ti_node u \<in> ti_node ` set (us @ t # vs) \<or> ti_node u = k" using f(3,4) by auto
      then show "ti_node u < k + 1" using d by force
    qed
    ultimately show ?thesis by blast
  qed
  ultimately show "rearranged (\<not> ti_sacked t) (us @ t # vs, r, k) (us @ t1 # t2 # vs, r, k + 1)"
    unfolding rearranged_def prod.case using f(1,2) by (intro conjI impI) simp_all
qed

lemma merge_rearranged:
  assumes "MergeItems t1 t2 r = Some (t, r')"
  shows "rearranged (\<not> ti_sacked t1) (us @ t1 # t2 # vs, r, k) (us @ t # vs, r', k)"
    and "ti_packet t = ti_packet t1 @ ti_packet t2" "ti_sacked t = ti_sacked t1" "ti_lost t = ti_lost t1"
    and "ti_sacked t2 = ti_sacked t1" "ti_lost t2 = ti_lost t1"
proof -
  show e: "ti_packet t = ti_packet t1 @ ti_packet t2" "ti_sacked t = ti_sacked t1" "ti_lost t = ti_lost t1"
    "ti_sacked t2 = ti_sacked t1" "ti_lost t2 = ti_lost t1"
    using assms by (auto simp: MergeItems_def Let_def split: if_splits)
  have f: "ti_node t = ti_node t1" "ti_startSeq t = ti_startSeq t1" "ti_retrans t \<longleftrightarrow> ti_retrans t1 \<and> ti_retrans t2"
    using assms by (auto simp: MergeItems_def Let_def split: if_splits)
  have r: "r' = r - (if ti_retrans t1 \<and> \<not> ti_retrans t2 then item_size t1 else if ti_retrans t2 \<and> \<not> ti_retrans t1 then item_size t2 else 0)"
    using assms by (auto simp: MergeItems_def Let_def split: if_splits)
  have "r' - marked_size ti_retrans (us @ t # vs) = r - marked_size ti_retrans (us @ t1 # t2 # vs)"
    using f(3) e(1) unfolding r by (simp add: marked_size_eq item_size_def pkt_size_def)
  moreover have "marks t = marks t1 @ marks t2" by (simp add: marks_def e)
  moreover have "placed iss y (us @ t # vs)" if "placed iss y (us @ t1 # t2 # vs)" for iss y
    using that f e by (auto simp: placed_append add.assoc)
  moreover have "distinct (map ti_node (us @ t # vs)) \<and> (\<forall>t\<in>set (us @ t # vs). ti_node t < k)"
    if "distinct (map ti_node (us @ t1 # t2 # vs)) \<and> (\<forall>t\<in>set (us @ t1 # t2 # vs). ti_node t < k)"
    using that f(1) by auto
  ultimately show "rearranged (\<not> ti_sacked t1) (us @ t1 # t2 # vs, r, k) (us @ t # vs, r', k)"
    unfolding rearranged_def prod.case using e f(3) by (intro conjI impI) auto
qed

lemma MergeItems_returns: "ti_sacked t1 = ti_sacked t2 \<Longrightarrow> ti_lost t1 = ti_lost t2 \<Longrightarrow> \<exists>t r'. MergeItems t1 t2 r = Some (t, r')"
  by (simp add: MergeItems_def Let_def split: prod.split)

section \<open>Fetching a packet\<close>

text \<open>
  What a call of \<^verbatim>\<open>GetPacketFromList\<close> may give: the list \<open>L\<close> rearranged around an item that begins at the position \<open>a\<close> and has
  \<open>n\<close> bytes, or fewer at the end of the list.
\<close>

definition fetched :: "nat \<Rightarrow> nat \<Rightarrow> nat \<Rightarrow> TcpTxItem list \<Rightarrow> TcpTxBuffer \<Rightarrow> TcpTxItem list \<times> TcpTxItem \<times> TcpTxItem list \<times> TcpTxBuffer \<Rightarrow> bool" where
  "fetched y a n L b = (\<lambda>(before, item, behind, b').
     rearranged (\<not> ti_sacked item) (L, tx_retrans b, tx_nodes b) (before @ item # behind, tx_retrans b', tx_nodes b') \<and>
     b' = b\<lparr>tx_retrans := tx_retrans b', tx_nodes := tx_nodes b'\<rparr> \<and> y + length (item_bytes before) = a \<and>
     length (ti_packet item) \<le> n \<and> (length (ti_packet item) = n \<or> behind = []))"

lemma rearranged_mview: "rearranged s (L, r, k) (L', r', k') \<Longrightarrow> mview L' = mview L"
  by (simp add: rearranged_def)

lemma rearranged_full: "rearranged s (L, r, k) (L', r', k') \<Longrightarrow> full_items L \<Longrightarrow> full_items L'"
  by (simp add: rearranged_def)

lemma rearranged_bytes: "rearranged s (L, r, k) (L', r', k') \<Longrightarrow> item_bytes L' = item_bytes L"
  by (metis mview_bytes rearranged_mview)

text \<open>The item has the marks of what was at its place.\<close>

lemma fetched_marks:
  assumes "fetched y a n L b (before, item, behind, b')" and "full_items L" and "L = us @ t # vs"
    and "y + length (item_bytes us) \<le> a" and "a < y + length (item_bytes us) + length (ti_packet t)"
  shows "ti_sacked item = ti_sacked t \<and> ti_lost item = ti_lost t"
proof -
  have r: "rearranged (\<not> ti_sacked item) (L, tx_retrans b, tx_nodes b) (before @ item # behind, tx_retrans b', tx_nodes b')"
    and p: "y + length (item_bytes before) = a" using assms(1) by (simp_all add: fetched_def)
  have i: "ti_packet item \<noteq> []" using rearranged_full [OF r assms(2)] by simp
  have "snd (mview (before @ item # behind) ! (a - y)) = (ti_sacked item, ti_lost item)"
    using i p by (intro mview_inside) auto
  moreover have "snd (mview L ! (a - y)) = (ti_sacked t, ti_lost t)" unfolding assms(3) by (intro mview_inside) (use assms(4,5) in auto)
  ultimately show ?thesis using rearranged_mview [OF r] by simp
qed

text \<open>A call after a change of the list that leaves acknowledged items alone.\<close>

lemma fetched_after:
  assumes "rearranged (\<not> ti_sacked t) (L, tx_retrans b, tx_nodes b) (L1, r1, k1)" and "full_items L"
    and "fetched y a n L1 (b\<lparr>tx_retrans := r1, tx_nodes := k1\<rparr>) (before, item, behind, b')"
    and "L1 = us @ t1 # vs" and "ti_sacked t1 = ti_sacked t"
    and "y + length (item_bytes us) \<le> a" and "a < y + length (item_bytes us) + length (ti_packet t1)"
  shows "fetched y a n L b (before, item, behind, b')"
proof -
  have "ti_sacked item = ti_sacked t"
    using fetched_marks [OF assms(3) rearranged_full [OF assms(1,2)] assms(4,6,7)] assms(5) by simp
  then have "rearranged (\<not> ti_sacked item) (L, tx_retrans b, tx_nodes b) (L1, r1, k1)" using assms(1) by simp
  from rearranged_trans [OF this] assms(3) show ?thesis by (auto simp: fetched_def)
qed

definition fetch_ok :: "u32 \<Rightarrow> u32 \<Rightarrow> u32 \<Rightarrow> TcpTxItem list \<Rightarrow> u32 \<Rightarrow> TcpTxItem list \<Rightarrow> TcpTxBuffer \<Rightarrow>
    TcpTxItem list \<times> TcpTxItem \<times> TcpTxItem list \<times> TcpTxBuffer \<Rightarrow> bool" where
  "fetch_ok start nb seq passed bg list b r \<longleftrightarrow> (\<forall>iss y n a.
     start = seq_of iss y \<and> nb = of_nat n \<and> seq = seq_of iss a \<and> bg = seq_of iss (y + length (item_bytes passed)) \<and>
     full_items (passed @ list) \<and> length (item_bytes (passed @ list)) < 2 ^ 30 \<and>
     y + length (item_bytes passed) \<le> a \<and> a < y + 2 ^ 30 \<and> 0 < n \<and> n < 2 ^ 30 \<longrightarrow> fetched y a n (passed @ list) b r)"

lemma fetch_okD:
  assumes "fetch_ok start nb seq [] start L b r" and "start = seq_of iss y" and "nb = of_nat n" and "seq = seq_of iss a"
    and "full_items L" and "length (item_bytes L) < 2 ^ 30" and "y \<le> a" and "a < y + 2 ^ 30" and "0 < n" and "n < 2 ^ 30"
  shows "fetched y a n L b r"
  using assms(1) [unfolded fetch_ok_def, rule_format, of iss y n a] assms(2-) by simp

lemma fetch_step:
  assumes IH: "\<And>passed bg list b r. rec sent start nb seq passed bg list b = Some r \<Longrightarrow> fetch_ok start nb seq passed bg list b r"
    and body: "(case list of
        [] \<Rightarrow> None
      | currentItem # rest \<Rightarrow>
          if sent \<and> \<not> seq_ge (ti_startSeq currentItem) (tx_firstByteSeq b) then None
          else if seq_lt seq (bg + item_size currentItem) then
            if seq = bg then
              if seq_le (seq + nb) (bg + item_size currentItem) then
                if nb = item_size currentItem then Some (passed, currentItem, rest, b)
                else if nb < item_size currentItem then
                  let (firstPart, currentItem) = SplitItems (TcpTxItem_new (tx_nodes b)) currentItem nb
                  in Some (passed, firstPart, currentItem # rest, b\<lparr>tx_nodes := tx_nodes b + 1\<rparr>)
                else None
              else
                (case rest of
                   [] \<Rightarrow> Some (passed, currentItem, [], b)
                 | next # rest \<Rightarrow> do {
                     (currentItem, retrans) \<leftarrow> MergeItems currentItem next (tx_retrans b);
                     rec sent start nb seq [] start (passed @ currentItem # rest) (b\<lparr>tx_retrans := retrans\<rparr>) })
            else if seq_gt seq bg then
              let (firstPart, currentItem) = SplitItems (TcpTxItem_new (tx_nodes b)) currentItem (seq_minus seq bg)
              in rec sent start nb seq [] start (passed @ firstPart # currentItem # rest) (b\<lparr>tx_nodes := tx_nodes b + 1\<rparr>)
            else None
          else rec sent start nb seq (passed @ [currentItem]) (bg + item_size currentItem) rest b) = Some r"
  shows "fetch_ok start nb seq passed bg list b r"
  unfolding fetch_ok_def
proof (intro allI impI, elim conjE)
  fix iss y n a
  assume eqs: "start = seq_of iss y" "nb = of_nat n" "seq = seq_of iss a" "bg = seq_of iss (y + length (item_bytes passed))"
    and fl: "full_items (passed @ list)" "length (item_bytes (passed @ list)) < 2 ^ 30"
    and rng: "y + length (item_bytes passed) \<le> a" "a < y + 2 ^ 30" "0 < n" "n < 2 ^ 30"
  obtain cur rest where list: "list = cur # rest" using body by (cases list) auto
  define p where "p = y + length (item_bytes passed)"
  define l where "l = length (ti_packet cur)"
  have l: "0 < l" "p + l + length (item_bytes rest) < y + 2 ^ 30" "item_size cur = of_nat l"
    using fl list by (auto simp: l_def p_def item_size_def pkt_size_def)
  have bg: "bg = seq_of iss p" "bg + item_size cur = seq_of iss (p + l)" using eqs by (simp_all add: p_def l(3) seq_of_add)
  have nb: "seq + nb = seq_of iss (a + n)" using eqs by (simp add: seq_of_add)
  have pa: "y \<le> p" "p \<le> a" using rng by (simp_all add: p_def)
  have "seq_le (seq + nb) (bg + item_size cur) \<longleftrightarrow> a + n \<le> p + l" unfolding nb bg(2) using rng l pa by (simp add: seq_compare)
  moreover have "seq_lt seq (bg + item_size cur) \<longleftrightarrow> a < p + l" unfolding bg(2) eqs(3) using rng l pa by (simp add: seq_compare)
  moreover have "seq = bg \<longleftrightarrow> a = p" "seq_gt seq bg \<longleftrightarrow> p < a" unfolding bg(1) eqs(3) using rng l pa by (simp_all add: seq_compare)
  ultimately have cmp: "seq_lt seq (bg + item_size cur) \<longleftrightarrow> a < p + l" "seq = bg \<longleftrightarrow> a = p" "seq_gt seq bg \<longleftrightarrow> p < a"
    "seq_le (seq + nb) (bg + item_size cur) \<longleftrightarrow> a + n \<le> p + l" by blast+
  have un: "unat nb = n" "unat (item_size cur) = l" using rng l pa unfolding eqs(2) l(3) by (simp_all add: unat_of_nat_u32)
  have nl: "nb = item_size cur \<longleftrightarrow> n = l" "nb < item_size cur \<longleftrightarrow> n < l"
    using un by (auto simp: word_less_nat_alt word_unat_eq_iff)
  let ?b1 = "b\<lparr>tx_nodes := tx_nodes b + 1\<rparr>"
  note B = body [unfolded list list.case cmp nl]
  have B1: "\<not> (sent \<and> \<not> seq_ge (ti_startSeq cur) (tx_firstByteSeq b))" using B by (auto split: if_splits)
  note B = B [unfolded if_not_P [OF B1]]
  consider (found) "a = p" "n = l" | (cut) "a = p" "n < l" | (all) "a = p" "l < n" "rest = []"
    | (merge) nxt rest' where "a = p" "l < n" "rest = nxt # rest'" | (inside) "p < a" "a < p + l" | (later) "p + l \<le> a"
    using le_imp_less_or_eq [OF pa(2)] le_less_linear [of "p + l" a] less_linear [of n l] by (cases rest) blast+
  then show "fetched y a n (passed @ list) b r"
  proof cases
    case found
    then have "r = (passed, cur, rest, b)" using B l by simp
    then show ?thesis using found by (simp add: fetched_def list rearranged_refl p_def l_def)
  next
    case cut
    obtain t1 t2 where sp: "SplitItems (TcpTxItem_new (tx_nodes b)) cur nb = (t1, t2)" by fastforce
    then have r: "r = (passed, t1, t2 # rest, ?b1)" using B l cut by simp
    have n: "0 < unat nb" "unat nb < length (ti_packet cur)" using un rng cut by (simp_all add: l_def)
    note S = split_rearranged [OF sp n]
    show ?thesis using S(1) [of passed rest] S(2,4) cut n un(1) by (simp add: fetched_def r list p_def)
  next
    case all
    then have "r = (passed, cur, [], b)" using B l by simp
    then show ?thesis using all by (simp add: fetched_def list rearranged_refl p_def l_def)
  next
    case merge
    then have "do { (currentItem, retrans) \<leftarrow> MergeItems cur nxt (tx_retrans b);
      rec sent start nb seq [] start (passed @ currentItem # rest') (b\<lparr>tx_retrans := retrans\<rparr>) } = Some r" using B l by simp
    then obtain t r1 where M: "MergeItems cur nxt (tx_retrans b) = Some (t, r1)"
      and R: "rec sent start nb seq [] start (passed @ t # rest') (b\<lparr>tx_retrans := r1\<rparr>) = Some r"
      by (auto split: bind_splits)
    note S = merge_rearranged [OF M]
    define L1 where "L1 = passed @ t # rest'"
    have rr: "rearranged (\<not> ti_sacked cur) (passed @ list, tx_retrans b, tx_nodes b) (L1, r1, tx_nodes b)"
      using S(1) by (simp add: list merge(3) L1_def)
    have "fetched y a n L1 (b\<lparr>tx_retrans := r1\<rparr>) r"
      by (rule fetch_okD [OF IH [OF R, folded L1_def] eqs(1,2,3) rearranged_full [OF rr fl(1)]])
        (use rng pa rearranged_bytes [OF rr] fl(2) in simp_all)
    then show ?thesis using fetched_after [OF rr fl(1), of y a n] S(2,3) merge(1) l(1)
      by (cases r) (auto simp: L1_def p_def l_def)
  next
    case inside
    define d where "d = seq_minus seq bg"
    have ud: "unat d = a - p" unfolding d_def seq_minus_eq bg eqs(3) by (rule seq_of_diff) (use inside l rng pa in auto)
    obtain t1 t2 where sp: "SplitItems (TcpTxItem_new (tx_nodes b)) cur d = (t1, t2)" by fastforce
    have R: "rec sent start nb seq [] start (passed @ t1 # t2 # rest) ?b1 = Some r" using B inside sp by (simp add: d_def)
    have n: "0 < unat d" "unat d < length (ti_packet cur)" using ud inside by (simp_all add: l_def)
    note S = split_rearranged [OF sp n]
    define L1 where "L1 = (passed @ [t1]) @ t2 # rest"
    have rr: "rearranged (\<not> ti_sacked cur) (passed @ list, tx_retrans b, tx_nodes b) (L1, tx_retrans b, tx_nodes b + 1)"
      using S(1) [of passed rest] by (simp add: list L1_def)
    have L1: "passed @ t1 # t2 # rest = L1" by (simp add: L1_def)
    have "fetched y a n L1 ?b1 r"
      by (rule fetch_okD [OF IH [OF R, unfolded L1] eqs(1,2,3) rearranged_full [OF rr fl(1)]])
        (use rng pa rearranged_bytes [OF rr] fl(2) in simp_all)
    moreover have "y + length (item_bytes (passed @ [t1])) = a" "ti_packet t2 \<noteq> []" using S(2,3) n ud pa inside by (auto simp: p_def l_def)
    ultimately show ?thesis using fetched_after [OF rr fl(1), of y a n _ _ _ _ "passed @ [t1]" t2 rest] S(5)
      by (cases r) (auto simp: L1_def)
  next
    case later
    then have R: "rec sent start nb seq (passed @ [cur]) (bg + item_size cur) rest b = Some r" using B by simp
    have "fetched y a n ((passed @ [cur]) @ rest) b r"
      using IH [OF R] unfolding fetch_ok_def using eqs bg rng pa later fl by (simp add: list p_def l_def add.assoc)
    then show ?thesis by (simp add: list)
  qed
qed

lemma GetPacketFromList_fetched:
  assumes "GetPacketFromList sent start nb seq passed bg list b = Some r"
  shows "fetch_ok start nb seq passed bg list b r"
proof (rule GetPacketFromList.raw_induct [where P = "\<lambda>sent start nb seq passed bg list b r. fetch_ok start nb seq passed bg list b r", OF _ assms],
    goal_cases)
  case (1 rec sent start nb seq passed bg list b r)
  then show ?case by (rule fetch_step)
qed

section \<open>When it returns\<close>

lemma GetPacketFromList_skip:
  assumes "sent \<longrightarrow> (\<forall>t\<in>set us. seq_ge (ti_startSeq t) (tx_firstByteSeq b))" and "p + length (item_bytes us) \<le> a" and "a < p + 2 ^ 30"
  shows "GetPacketFromList sent start nb (seq_of iss a) passed (seq_of iss p) (us @ list) b =
    GetPacketFromList sent start nb (seq_of iss a) (passed @ us) (seq_of iss (p + length (item_bytes us))) list b"
  using assms
proof (induction us arbitrary: passed p)
  case (Cons u us)
  have e: "seq_of iss p + item_size u = seq_of iss (p + length (ti_packet u))" by (simp add: item_size_def pkt_size_def seq_of_add)
  have "\<not> seq_lt (seq_of iss a) (seq_of iss (p + length (ti_packet u)))" using Cons.prems by (simp add: seq_compare)
  then have "GetPacketFromList sent start nb (seq_of iss a) passed (seq_of iss p) ((u # us) @ list) b =
    GetPacketFromList sent start nb (seq_of iss a) (passed @ [u]) (seq_of iss (p + length (ti_packet u))) (us @ list) b"
    using Cons.prems(1) by (subst GetPacketFromList.simps) (auto simp: e)
  also have "\<dots> = GetPacketFromList sent start nb (seq_of iss a) ((passed @ [u]) @ us) (seq_of iss (p + length (ti_packet u) + length (item_bytes us))) list b"
    using Cons.prems by (intro Cons.IH) auto
  finally show ?case by (simp add: add.assoc)
qed simp

text \<open>The items from \<open>a\<close> on are merged as long as they have the same marks.\<close>

lemma GetPacketFromList_returns:
  assumes "full_items (us @ run @ vs)" and "run \<noteq> []" and "\<forall>t\<in>set run. ti_sacked t = sk \<and> ti_lost t = lo"
    and "a = y + length (item_bytes us)" and "length (item_bytes (us @ run @ vs)) < 2 ^ 30" and "0 < n" and "n < 2 ^ 30"
    and "n \<le> length (item_bytes run) \<or> vs = []" and "sent \<longrightarrow> (\<forall>t\<in>set (us @ run). seq_ge (ti_startSeq t) (tx_firstByteSeq b))"
  shows "GetPacketFromList sent (seq_of iss y) (of_nat n) (seq_of iss a) [] (seq_of iss y) (us @ run @ vs) b \<noteq> None"
  using assms
proof (induction "length run" arbitrary: run b)
  case (Suc k)
  obtain cur rest where run: "run = cur # rest" using Suc.prems(2) by (cases run) auto
  define l where "l = length (ti_packet cur)"
  have ls: "item_size cur = of_nat l" by (simp add: l_def item_size_def pkt_size_def)
  have l: "0 < l" "length (item_bytes us) + l < 2 ^ 30" using Suc.prems(1,5) run by (auto simp: l_def)
  have skip: "GetPacketFromList sent (seq_of iss y) (of_nat n) (seq_of iss a) [] (seq_of iss y) (us @ run @ vs) b =
    GetPacketFromList sent (seq_of iss y) (of_nat n) (seq_of iss a) us (seq_of iss a) (cur # rest @ vs) b"
    using GetPacketFromList_skip [of sent us b y a "seq_of iss y" "of_nat n" iss "[]" "run @ vs"] Suc.prems(4,5,9) l run by auto
  have cmp: "seq_lt (seq_of iss a) (seq_of iss a + item_size cur)" "seq_le (seq_of iss a + of_nat n) (seq_of iss a + item_size cur) \<longleftrightarrow> n \<le> l"
    unfolding ls seq_of_add using l Suc.prems(6,7) by (simp_all add: seq_compare)
  have un: "unat (of_nat n :: u32) = n" "unat (item_size cur) = l" using Suc.prems(7) l unfolding ls by (simp_all add: unat_of_nat_u32)
  have nl: "of_nat n = item_size cur \<longleftrightarrow> n = l" "of_nat n < item_size cur \<longleftrightarrow> n < l"
    using un by (auto simp: word_less_nat_alt word_unat_eq_iff)
  have ge: "\<not> (sent \<and> \<not> seq_ge (ti_startSeq cur) (tx_firstByteSeq b))" using Suc.prems(9) run by auto
  note unfold = GetPacketFromList.simps [of sent "seq_of iss y" "of_nat n" "seq_of iss a" us "seq_of iss a" "cur # rest @ vs" b,
    unfolded list.case if_not_P [OF ge] if_P [OF cmp(1)] if_P [OF refl] cmp(2) nl]
  show ?case
  proof (cases "n \<le> l")
    case True
    then show ?thesis unfolding skip unfold by (auto simp: Let_def split: prod.split)
  next
    case False
    show ?thesis
    proof (cases rest)
      case Nil
      then have "vs = []" using Suc.prems(8) False run by (auto simp: l_def)
      then show ?thesis using False Nil unfolding skip unfold by simp
    next
      case (Cons nxt rest')
      then have "ti_sacked cur = ti_sacked nxt" "ti_lost cur = ti_lost nxt" using Suc.prems(3) run by auto
      then obtain t r where M: "MergeItems cur nxt (tx_retrans b) = Some (t, r)" using MergeItems_returns by blast
      note S = merge_rearranged [OF M]
      have st: "ti_startSeq t = ti_startSeq cur" using M by (auto simp: MergeItems_def Let_def split: if_splits)
      have "GetPacketFromList sent (seq_of iss y) (of_nat n) (seq_of iss a) [] (seq_of iss y) (us @ (t # rest') @ vs) (b\<lparr>tx_retrans := r\<rparr>) \<noteq> None"
      proof (rule Suc.hyps(1))
        show "k = length (t # rest')" using Suc.hyps(2) run Cons by simp
        show "\<forall>u\<in>set (t # rest'). ti_sacked u = sk \<and> ti_lost u = lo" using Suc.prems(3) run Cons S(3,4) by auto
        show "sent \<longrightarrow> (\<forall>u\<in>set (us @ t # rest'). seq_ge (ti_startSeq u) (tx_firstByteSeq (b\<lparr>tx_retrans := r\<rparr>)))"
          using Suc.prems(9) run Cons st by auto
      qed (use Suc.prems run Cons S(2) in auto)
      then show ?thesis using False M Cons unfolding skip unfold by simp
    qed
  qed
qed simp

end
