(* ===== verification/Tcp_Tx_Inv.thy ===== *)
theory Tcp_Tx_Inv
  imports Tcp_Tx_Items
begin

text \<open>
  The invariant of the send buffer, with the first byte at position \<open>x\<close> of the stream, and the operations that move data:
  adding, sending, sending again, discarding.
\<close>

definition contents_of :: "TcpTxBuffer \<Rightarrow> u8 list" where
  "contents_of b = item_bytes (tx_sentList b @ tx_appList b)"

definition highest_ok :: "nat option \<times> u32 \<Rightarrow> TcpTxItem list \<Rightarrow> bool" where
  "highest_ok h ts \<longleftrightarrow> (case fst h of None \<Rightarrow> True | Some n \<Rightarrow> \<exists>t\<in>set ts. ti_node t = n \<and> ti_sacked t \<and> ti_startSeq t = snd h)"

definition counts_ok :: "TcpTxBuffer \<Rightarrow> bool" where
  "counts_ok b \<longleftrightarrow> ConsistencyCheck b \<and> (\<forall>t\<in>set (tx_sentList b). \<not> (ti_sacked t \<and> ti_lost t)) \<and>
     distinct (map ti_node (tx_sentList b)) \<and> (\<forall>t\<in>set (tx_sentList b). ti_node t < tx_nodes b)"

definition board_ok :: "TcpTxBuffer \<Rightarrow> bool" where
  "board_ok b \<longleftrightarrow> counts_ok b \<and> (tx_sentList b \<noteq> [] \<longrightarrow> \<not> ti_sacked (hd (tx_sentList b))) \<and> highest_ok (tx_highestSack b) (tx_sentList b)"

definition sizes_ok :: "u32 \<Rightarrow> nat \<Rightarrow> TcpTxBuffer \<Rightarrow> bool" where
  "sizes_ok iss x b \<longleftrightarrow> tx_firstByteSeq b = seq_of iss x \<and> full_items (tx_sentList b @ tx_appList b) \<and> placed iss x (tx_sentList b) \<and>
     length (contents_of b) \<le> unat (tx_maxBuffer b) \<and> unat (tx_maxBuffer b) < 2 ^ 30 \<and>
     tx_sentSize b = of_nat (length (item_bytes (tx_sentList b))) \<and> tx_size b = of_nat (length (contents_of b)) \<and>
     (\<forall>t\<in>set (tx_appList b). \<not> ti_sacked t \<and> \<not> ti_lost t \<and> \<not> ti_retrans t)"

definition tx_ok :: "u32 \<Rightarrow> nat \<Rightarrow> TcpTxBuffer \<Rightarrow> bool" where
  "tx_ok iss x b \<longleftrightarrow> sizes_ok iss x b \<and> board_ok b"

lemma sizes_okD:
  assumes "sizes_ok iss x b"
  shows "tx_firstByteSeq b = seq_of iss x" and "full_items (tx_sentList b)" and "full_items (tx_appList b)" and "placed iss x (tx_sentList b)"
    and "length (item_bytes (tx_sentList b)) + length (item_bytes (tx_appList b)) < 2 ^ 30"
    and "tx_sentSize b = of_nat (length (item_bytes (tx_sentList b)))"
    and "tx_size b = of_nat (length (item_bytes (tx_sentList b)) + length (item_bytes (tx_appList b)))"
    and "\<And>t. t \<in> set (tx_appList b) \<Longrightarrow> \<not> ti_sacked t \<and> \<not> ti_lost t \<and> \<not> ti_retrans t"
    and "length (item_bytes (tx_sentList b)) + length (item_bytes (tx_appList b)) \<le> unat (tx_maxBuffer b)" "unat (tx_maxBuffer b) < 2 ^ 30"
  using assms by (auto simp: sizes_ok_def contents_of_def)

text \<open>Bytes counted as acknowledged and as lost are different bytes: the assertions on their sum hold.\<close>

lemma counts_le:
  assumes s: "sizes_ok iss x b" and "counts_ok b"
  shows "tx_sackedOut b + tx_lostOut b \<le> tx_sentSize b"
proof -
  have b: "ConsistencyCheck b" "\<forall>t\<in>set (tx_sentList b). \<not> (ti_sacked t \<and> ti_lost t)" using assms(2) by (simp_all add: counts_ok_def)
  let ?n = "length (item_bytes (tx_sentList b))" and ?m = "marked ti_sacked (tx_sentList b) + marked ti_lost (tx_sentList b)"
  have "tx_sackedOut b + tx_lostOut b = of_nat ?m" using b(1) by (simp add: ConsistencyCheck_def marked_size_eq)
  moreover have "?m \<le> ?n" by (rule marked_disjoint [OF b(2)])
  moreover have "(of_nat ?m :: u32) \<le> of_nat ?n"
    using \<open>?m \<le> ?n\<close> sizes_okD(5) [OF s] unfolding word_le_nat_alt by (subst (1 2) unat_of_nat_u32) simp_all
  ultimately show ?thesis using sizes_okD(6) [OF s] by simp
qed

section \<open>Adding data\<close>

lemma Tx_Add_ok:
  assumes "tx_ok iss x b" and "length p < 2 ^ 32"
  shows "fst (Tx_Add p b) \<longleftrightarrow> length (contents_of b) + length p \<le> unat (tx_maxBuffer b)"
    and "tx_ok iss x (snd (Tx_Add p b)) \<and> contents_of (snd (Tx_Add p b)) = contents_of b @ (if fst (Tx_Add p b) then p else [])"
proof -
  have s: "sizes_ok iss x b" and bo: "board_ok b" using assms(1) by (simp_all add: tx_ok_def)
  have le: "length (contents_of b) \<le> unat (tx_maxBuffer b)" "unat (tx_maxBuffer b) < 2 ^ 30" using s by (simp_all add: sizes_ok_def)
  have uz: "unat (tx_size b) = length (contents_of b)" using s le by (simp add: sizes_ok_def unat_of_nat_u32)
  have up: "unat (pkt_size p) = length p" using assms(2) by (simp add: pkt_size_def unat_of_nat_u32)
  have "unat (Tx_Available b) = unat (tx_maxBuffer b) - length (contents_of b)"
    unfolding Tx_Available_def using le uz by (subst unat_sub) (simp_all add: word_le_nat_alt)
  then have av: "pkt_size p \<le> Tx_Available b \<longleftrightarrow> length (contents_of b) + length p \<le> unat (tx_maxBuffer b)"
    using up le by (simp add: word_le_nat_alt) linarith
  show c: "fst (Tx_Add p b) \<longleftrightarrow> length (contents_of b) + length p \<le> unat (tx_maxBuffer b)" using av by (simp add: Tx_Add_def)
  have pz: "pkt_size p > 0 \<longleftrightarrow> p \<noteq> []" using up by (auto simp: word_less_nat_alt)
  show "tx_ok iss x (snd (Tx_Add p b)) \<and> contents_of (snd (Tx_Add p b)) = contents_of b @ (if fst (Tx_Add p b) then p else [])"
  proof (cases "fst (Tx_Add p b) \<and> p \<noteq> []")
    case True
    then have a: "pkt_size p \<le> Tx_Available b" "length (contents_of b) + length p \<le> unat (tx_maxBuffer b)" using c av by simp_all
    let ?b = "snd (Tx_Add p b)"
    have e: "tx_sentList ?b = tx_sentList b" "tx_appList ?b = tx_appList b @ [(TcpTxItem_new (tx_nodes b))\<lparr>ti_packet := p\<rparr>]"
      "tx_size ?b = tx_size b + pkt_size p" "tx_nodes ?b = tx_nodes b + 1" "tx_sackedOut ?b = tx_sackedOut b" "tx_lostOut ?b = tx_lostOut b"
      "tx_retrans ?b = tx_retrans b" "tx_highestSack ?b = tx_highestSack b" "tx_firstByteSeq ?b = tx_firstByteSeq b"
      "tx_maxBuffer ?b = tx_maxBuffer b" "tx_sentSize ?b = tx_sentSize b"
      using True a pz by (simp_all add: Tx_Add_def)
    have ct: "contents_of ?b = contents_of b @ p" by (simp add: contents_of_def e)
    have "sizes_ok iss x ?b" using s True a unfolding sizes_ok_def ct e by (auto simp: pkt_size_def TcpTxItem_new_def)
    moreover have "board_ok ?b" using bo by (auto simp: board_ok_def counts_ok_def ConsistencyCheck_def e)
    ultimately show ?thesis using ct True by (simp add: tx_ok_def)
  next
    case False
    then have "snd (Tx_Add p b) = b" using pz by (auto simp: Tx_Add_def)
    then show ?thesis using False assms(1) by auto
  qed
qed

section \<open>Changes of the sent list\<close>

text \<open>Rearranging it without touching acknowledged items.\<close>

lemma rearranged_ok:
  assumes "tx_ok iss x b" and "rearranged True (tx_sentList b, tx_retrans b, tx_nodes b) (L, r, k)"
  shows "tx_ok iss x (b\<lparr>tx_sentList := L, tx_retrans := r, tx_nodes := k\<rparr>)"
    and "contents_of (b\<lparr>tx_sentList := L, tx_retrans := r, tx_nodes := k\<rparr>) = contents_of b"
proof -
  let ?b = "b\<lparr>tx_sentList := L, tx_retrans := r, tx_nodes := k\<rparr>"
  let ?S = "tx_sentList b"
  note R = assms(2) [unfolded rearranged_def prod.case]
  have s: "sizes_ok iss x b" and bo: "board_ok b" using assms(1) by (simp_all add: tx_ok_def)
  have bs: "item_bytes L = item_bytes ?S" by (rule rearranged_bytes [OF assms(2)])
  show c: "contents_of ?b = contents_of b" using bs by (simp add: contents_of_def)
  have f: "full_items L" using R sizes_okD(2) [OF s] by blast
  have sz: "sizes_ok iss x ?b" using s R f bs unfolding sizes_ok_def c by simp
  have v: "mview L = mview ?S" and fs: "filter ti_sacked L = filter ti_sacked ?S" using R by blast+
  have cc: "ConsistencyCheck ?b" using bo R v by (simp add: board_ok_def counts_ok_def ConsistencyCheck_def marked_size_eq marked_mview)
  have nb: "\<not> (ti_sacked t \<and> ti_lost t)" if t: "t \<in> set L" for t
  proof -
    obtain us vs where L: "L = us @ t # vs" using t by (meson split_list)
    have "ti_packet t \<noteq> []" using f L by simp
    then obtain c cs where m: "marks t = (c, ti_sacked t, ti_lost t) # cs" by (cases "ti_packet t") (auto simp: marks_def)
    then have "(c, ti_sacked t, ti_lost t) \<in> set (mview L)" by (simp add: L)
    then obtain u where "u \<in> set ?S" "(c, ti_sacked t, ti_lost t) \<in> set (marks u)" unfolding v by (auto simp: mview_def)
    then show ?thesis using bo by (auto simp: board_ok_def counts_ok_def marks_def)
  qed
  have hd: "\<not> ti_sacked (hd L)" if ne: "L \<noteq> []"
  proof -
    obtain t ts where L: "L = t # ts" using ne by (cases L) auto
    have n: "ti_packet t \<noteq> []" using f L by simp
    then have "?S \<noteq> []" using bs L by auto
    then obtain u us where S: "?S = u # us" by (cases ?S) auto
    have "snd (mview ([] @ t # ts) ! 0) = (ti_sacked t, ti_lost t)" using n by (intro mview_inside) auto
    moreover have "snd (mview ([] @ u # us) ! 0) = (ti_sacked u, ti_lost u)"
      using sizes_okD(2) [OF s] S by (intro mview_inside) auto
    ultimately have "ti_sacked t = ti_sacked u" using v L S by simp
    then show ?thesis using bo L S by (simp add: board_ok_def)
  qed
  have hi: "highest_ok (tx_highestSack b) L"
  proof (cases "fst (tx_highestSack b)")
    case (Some n)
    then obtain t where t: "t \<in> set ?S" "ti_node t = n" "ti_sacked t" "ti_startSeq t = snd (tx_highestSack b)"
      using bo by (auto simp: board_ok_def highest_ok_def)
    then have "t \<in> set (filter ti_sacked L)" unfolding fs by simp
    then show ?thesis using t Some by (auto simp: highest_ok_def)
  qed (simp add: highest_ok_def)
  have "board_ok ?b" using bo cc nb hd hi R by (auto simp: board_ok_def counts_ok_def)
  then show "tx_ok iss x ?b" using sz by (simp add: tx_ok_def)
qed

text \<open>Changing one item's flag of retransmission or its time.\<close>

lemma marked_size_split: "marked_size p (us @ t # vs) = marked_size p us + (if p t then item_size t else 0) + marked_size p vs"
  by (simp add: marked_size_eq item_size_def pkt_size_def)

lemma retrans_flag_ok:
  assumes "tx_ok iss x b" and "tx_sentList b = us @ t # vs"
    and "ti_packet t' = ti_packet t" "ti_startSeq t' = ti_startSeq t" "ti_node t' = ti_node t" "ti_sacked t' = ti_sacked t" "ti_lost t' = ti_lost t"
    and "r + (if ti_retrans t then item_size t else 0) = tx_retrans b + (if ti_retrans t' then item_size t else 0)"
  shows "tx_ok iss x (b\<lparr>tx_sentList := us @ t' # vs, tx_retrans := r\<rparr>)"
    and "contents_of (b\<lparr>tx_sentList := us @ t' # vs, tx_retrans := r\<rparr>) = contents_of b"
proof -
  let ?b = "b\<lparr>tx_sentList := us @ t' # vs, tx_retrans := r\<rparr>"
  have s: "sizes_ok iss x b" and bo: "board_ok b" using assms(1) by (simp_all add: tx_ok_def)
  show c: "contents_of ?b = contents_of b" by (simp add: contents_of_def assms)
  have z: "item_size t' = item_size t" by (simp add: item_size_def assms)
  have "sizes_ok iss x ?b" using s assms unfolding sizes_ok_def c by (auto simp: placed_append)
  moreover have "ConsistencyCheck ?b"
  proof -
    have "r + (if ti_retrans t then item_size t else 0) =
      (marked_size ti_retrans us + marked_size ti_retrans vs) + (if ti_retrans t' then item_size t else 0) + (if ti_retrans t then item_size t else 0)"
      using assms(8) bo by (simp add: board_ok_def counts_ok_def ConsistencyCheck_def assms(2) marked_size_split ac_simps)
    then have "marked_size ti_retrans (us @ t' # vs) = r" unfolding add_right_cancel by (simp add: marked_size_split z ac_simps)
    then show ?thesis using bo by (auto simp: board_ok_def counts_ok_def ConsistencyCheck_def assms(2,6,7) marked_size_split z)
  qed
  moreover have "highest_ok (tx_highestSack b) (us @ t' # vs)"
    using bo assms(2-7) by (auto simp: board_ok_def highest_ok_def split: option.splits)
  moreover have "us @ t' # vs \<noteq> [] \<longrightarrow> \<not> ti_sacked (hd (us @ t' # vs))" using bo assms(2,6) by (cases us) (auto simp: board_ok_def)
  ultimately show "tx_ok iss x ?b" using bo assms(2-7) by (auto simp: tx_ok_def board_ok_def counts_ok_def)
qed

section \<open>Sending again\<close>

lemma merge_size_bounds:
  assumes "full_items L" and "length (item_bytes L) < 2 ^ 30" and "0 < s"
  shows "0 < merge_size seq s L \<and> merge_size seq s L \<le> s"
  using assms
proof (induction L)
  case (Cons t ts)
  define m where "m = length (ti_packet t)"
  have t: "0 < m" "m < 2 ^ 30" "item_size t = of_nat m" using Cons.prems by (simp_all add: m_def item_size_def pkt_size_def)
  then have z: "0 < item_size t" by (simp add: word_less_nat_alt unat_of_nat_u32)
  show ?case
  proof (cases ts)
    case Nil
    then show ?thesis using z Cons.prems(3) by simp
  next
    case (Cons u us)
    have "item_size u = of_nat (length (ti_packet u))" by (simp add: item_size_def pkt_size_def)
    then have "item_size t + item_size u = of_nat (m + length (ti_packet u))" using t by simp
    moreover have "m + length (ti_packet u) < 2 ^ 30" using Cons.prems(2) Cons by (simp add: m_def)
    ultimately have "0 < item_size t + item_size u" using t by (simp add: word_less_nat_alt unat_of_nat_u32 del: of_nat_add)
    then show ?thesis using z Cons Cons.IH Cons.prems by simp
  qed
qed simp

text \<open>What a call that gives an item has done.\<close>

definition copied :: "u32 \<Rightarrow> nat \<Rightarrow> nat \<Rightarrow> nat \<Rightarrow> TcpTxBuffer \<Rightarrow> TcpTxItem \<Rightarrow> TcpTxBuffer \<Rightarrow> bool" where
  "copied iss x a n b item b' \<longleftrightarrow> tx_ok iss x b' \<and> contents_of b' = contents_of b \<and> item \<in> set (tx_sentList b') \<and>
     ti_startSeq item = seq_of iss a \<and> \<not> ti_sacked item \<and> 0 < length (ti_packet item) \<and> length (ti_packet item) \<le> n \<and>
     ti_packet item = take (length (ti_packet item)) (drop (a - x) (contents_of b)) \<and>
     tx_maxBuffer b' = tx_maxBuffer b \<and> tx_sackEnabled b' = tx_sackEnabled b \<and> tx_dupAckThresh b' = tx_dupAckThresh b \<and>
     filter ti_sacked (tx_sentList b') = filter ti_sacked (tx_sentList b) \<and>
     (\<exists>k. length (item_bytes (tx_sentList b')) = length (item_bytes (tx_sentList b)) + k \<and> (a < x + length (item_bytes (tx_sentList b)) \<longrightarrow> k = 0) \<and>
       (a = x + length (item_bytes (tx_sentList b)) \<longrightarrow> k = length (ti_packet item)))"

lemma packet_at:
  assumes "item_bytes (us @ t # vs) = xs" and "length (item_bytes us) = k"
  shows "ti_packet t = take (length (ti_packet t)) (drop k xs)"
  using assms by auto

lemma transmitted_ok:
  assumes ok: "tx_ok iss x b" and an: "x \<le> a" "a + n \<le> x + length (item_bytes (tx_sentList b))" "0 < n"
    and G: "GetTransmittedSegment (of_nat n) (seq_of iss a) b = Some (before, item, behind, b1)" and us: "\<not> ti_sacked item"
  shows "copied iss x a n b (item\<lparr>ti_lastSent := now\<rparr>) (b1\<lparr>tx_sentList := before @ item\<lparr>ti_lastSent := now\<rparr> # behind\<rparr>)"
proof -
  let ?S = "tx_sentList b"
  have s: "sizes_ok iss x b" using ok by (simp add: tx_ok_def)
  note sD = sizes_okD [OF s]
  have n: "n < 2 ^ 30" using an sD(5) by simp
  define m where "m = merge_size (seq_of iss a) (of_nat n) ?S"
  have "(0 :: u32) < of_nat n" using an(3) n by (simp add: word_less_nat_alt unat_of_nat_u32)
  from merge_size_bounds [OF sD(2) _ this] sD(5) have "0 < m" "m \<le> of_nat n" by (simp_all add: m_def)
  then have m: "0 < unat m" "unat m \<le> n" using n by (auto simp: word_less_nat_alt word_le_nat_alt unat_of_nat_u32)
  obtain item0 b0 where F: "GetPacketFromList True (seq_of iss x) m (seq_of iss a) [] (seq_of iss x) ?S b = Some (before, item0, behind, b0)"
    and i: "item = item0\<lparr>ti_retrans := True\<rparr>"
    and b1: "b1 = b0\<lparr>tx_retrans := (if ti_retrans item0 then tx_retrans b0 else tx_retrans b0 + item_size item0), tx_sentList := before @ item # behind\<rparr>"
    using G unfolding GetTransmittedSegment_def m_def [symmetric] sD(1) by (auto simp: Let_def split: if_splits bind_splits)
  have "fetched x a (unat m) ?S b (before, item0, behind, b0)"
    by (rule fetch_okD [OF GetPacketFromList_fetched [OF F] refl _ refl sD(2)]) (use an m n sD(5) in auto)
  then have R: "rearranged True (?S, tx_retrans b, tx_nodes b) (before @ item0 # behind, tx_retrans b0, tx_nodes b0)"
    and be: "b0 = b\<lparr>tx_retrans := tx_retrans b0, tx_nodes := tx_nodes b0\<rparr>" and la: "x + length (item_bytes before) = a" "length (ti_packet item0) \<le> unat m"
    using us i by (simp_all add: fetched_def)
  define c where "c = b\<lparr>tx_sentList := before @ item0 # behind, tx_retrans := tx_retrans b0, tx_nodes := tx_nodes b0\<rparr>"
  have c: "tx_ok iss x c" "contents_of c = contents_of b" using rearranged_ok [OF ok R] by (simp_all add: c_def)
  let ?it = "item\<lparr>ti_lastSent := now\<rparr>"
  let ?r = "if ti_retrans item0 then tx_retrans b0 else tx_retrans b0 + item_size item0"
  have e: "b1\<lparr>tx_sentList := before @ ?it # behind\<rparr> = c\<lparr>tx_sentList := before @ ?it # behind, tx_retrans := ?r\<rparr>"
    unfolding b1 by (subst be) (simp add: c_def)
  have d: "tx_ok iss x (c\<lparr>tx_sentList := before @ ?it # behind, tx_retrans := ?r\<rparr>)"
    "contents_of (c\<lparr>tx_sentList := before @ ?it # behind, tx_retrans := ?r\<rparr>) = contents_of c"
    by (rule retrans_flag_ok [OF c(1), of before item0 behind]; simp add: c_def i)+
  have "sizes_ok iss x c" using c(1) by (simp add: tx_ok_def)
  from sizes_okD(2,4) [OF this] have p: "ti_packet item0 \<noteq> []" "ti_startSeq item0 = seq_of iss a" using la by (simp_all add: c_def placed_append)
  have bs: "item_bytes (before @ item0 # behind) = item_bytes ?S" by (rule rearranged_bytes [OF R])
  have "item_bytes (before @ item0 # (behind @ tx_appList b)) = contents_of b" using bs by (simp add: contents_of_def)
  from packet_at [OF this, of "a - x"] la have pk: "ti_packet item0 = take (length (ti_packet item0)) (drop (a - x) (contents_of b))" by simp
  have "length (item_bytes (before @ ?it # behind)) = length (item_bytes ?S)" using arg_cong [OF bs, of length] by (simp add: i)
  moreover have "ti_packet ?it = ti_packet item0" by (simp add: i)
  moreover have "filter ti_sacked (before @ ?it # behind) = filter ti_sacked ?S" using R us by (simp add: rearranged_def i)
  ultimately show ?thesis unfolding copied_def e using d c(2) p pk us la(2) m(2) an by (simp add: i) (simp add: c_def)
qed

section \<open>Sending for the first time\<close>

definition plain :: "TcpTxItem \<Rightarrow> bool" where
  "plain t \<longleftrightarrow> \<not> ti_sacked t \<and> \<not> ti_lost t \<and> \<not> ti_retrans t"

lemma rearranged_plain:
  assumes "rearranged s (L, r, k) (L', r', k')" and "full_items L" and "\<forall>t\<in>set L. plain t"
  shows "\<forall>t\<in>set L'. plain t" and "r' = r"
proof -
  note R = assms(1) [unfolded rearranged_def prod.case]
  have rt: "\<forall>t\<in>set L'. \<not> ti_retrans t" using R assms(3) by (auto simp: plain_def)
  show "\<forall>t\<in>set L'. plain t"
  proof
    fix t assume t: "t \<in> set L'"
    then have "ti_packet t \<noteq> []" using rearranged_full [OF assms(1,2)] by (auto simp: full_items_def)
    then obtain c cs where "marks t = (c, ti_sacked t, ti_lost t) # cs" by (cases "ti_packet t") (auto simp: marks_def)
    then have "(c, ti_sacked t, ti_lost t) \<in> set (mview L')" using t by (auto simp: mview_def intro!: bexI [of _ t])
    then obtain u where "u \<in> set L" "(c, ti_sacked t, ti_lost t) \<in> set (marks u)" unfolding rearranged_mview [OF assms(1)] by (auto simp: mview_def)
    then show "plain t" using assms(3) rt t by (auto simp: plain_def marks_def)
  qed
  have "filter ti_retrans L = []" "filter ti_retrans L' = []" using assms(3) rt by (auto simp: plain_def filter_empty_conv)
  then show "r' = r" using R by (simp add: marked_size_def)
qed

definition appended :: "u32 \<Rightarrow> nat \<Rightarrow> nat \<Rightarrow> TcpTxBuffer \<Rightarrow> TcpTxItem \<Rightarrow> TcpTxBuffer \<Rightarrow> bool" where
  "appended iss x n b item b' \<longleftrightarrow> sizes_ok iss x b' \<and> counts_ok b' \<and> contents_of b' = contents_of b \<and> tx_sentList b' = tx_sentList b @ [item] \<and>
     plain item \<and> ti_startSeq item = seq_of iss (x + length (item_bytes (tx_sentList b))) \<and> length (ti_packet item) = n \<and>
     ti_packet item = take n (item_bytes (tx_appList b)) \<and> item_bytes (tx_appList b') = drop n (item_bytes (tx_appList b)) \<and>
     tx_highestSack b' = tx_highestSack b \<and> tx_maxBuffer b' = tx_maxBuffer b \<and> tx_sackEnabled b' = tx_sackEnabled b \<and>
     tx_dupAckThresh b' = tx_dupAckThresh b"

lemma new_segment_appended:
  assumes s: "sizes_ok iss x b" and bo: "counts_ok b"
    and an: "a = x + length (item_bytes (tx_sentList b))" "a + n \<le> x + length (contents_of b)" "0 < n"
  shows "\<exists>item b1. GetNewSegment (of_nat n) b = Some (item, b1) \<and> \<not> ti_retrans item \<and> tx_firstByteSeq b1 = tx_firstByteSeq b \<and>
    ti_startSeq item = seq_of iss a \<and> length (ti_packet item) = n \<and> tx_sentList b1 = tx_sentList b @ [item] \<and>
    appended iss x n b (item\<lparr>ti_lastSent := now\<rparr>) (b1\<lparr>tx_sentList := butlast (tx_sentList b1) @ [item\<lparr>ti_lastSent := now\<rparr>]\<rparr>)"
proof -
  let ?S = "tx_sentList b" and ?A = "tx_appList b"
  note sD = sizes_okD [OF s]
  have n: "n < 2 ^ 30" "n \<le> length (item_bytes ?A)" using an sD(5) by (simp_all add: contents_of_def)
  have start: "tx_firstByteSeq b + tx_sentSize b = seq_of iss a" unfolding sD(1,6) an(1) by (rule seq_of_add)
  have pl: "\<forall>t\<in>set ?A. plain t" using sD(8) by (auto simp: plain_def)
  have "?A \<noteq> []" using n(2) an(3) by auto
  then have "GetPacketFromList False (seq_of iss a) (of_nat n) (seq_of iss a) [] (seq_of iss a) ([] @ ?A @ []) b \<noteq> None"
    by (intro GetPacketFromList_returns [where sk = False and lo = False]) (use sD(3,5) pl n an(3) in \<open>auto simp: plain_def\<close>)
  then obtain before item0 behind b0 where F: "GetPacketFromList False (seq_of iss a) (of_nat n) (seq_of iss a) [] (seq_of iss a) ?A b = Some (before, item0, behind, b0)"
    by auto
  have fe: "fetched a a n ?A b (before, item0, behind, b0)"
    by (rule fetch_okD [OF GetPacketFromList_fetched [OF F] refl refl refl sD(3)]) (use n an(3) sD(5) in auto)
  then have R: "rearranged (\<not> ti_sacked item0) (?A, tx_retrans b, tx_nodes b) (before @ item0 # behind, tx_retrans b0, tx_nodes b0)"
    and be: "b0 = b\<lparr>tx_retrans := tx_retrans b0, tx_nodes := tx_nodes b0\<rparr>" and la: "item_bytes before = []" "length (ti_packet item0) \<le> n"
      "length (ti_packet item0) = n \<or> behind = []"
    by (simp_all add: fetched_def)
  have fu: "full_items (before @ item0 # behind)" by (rule rearranged_full [OF R sD(3)])
  have bf: "before = []" using la(1) fu by (cases before) auto
  note P = rearranged_plain [OF R sD(3) pl]
  have bs: "ti_packet item0 @ item_bytes behind = item_bytes ?A" using rearranged_bytes [OF R] by (simp add: bf)
  have ln: "length (ti_packet item0) = n" using la(2,3) arg_cong [OF bs, of length] n(2) by auto
  define item where "item = item0\<lparr>ti_startSeq := seq_of iss a, ti_node := tx_nodes b0\<rparr>"
  define b1 where "b1 = b0\<lparr>tx_appList := behind, tx_sentList := ?S @ [item], tx_sentSize := tx_sentSize b + item_size item, tx_nodes := tx_nodes b0 + 1\<rparr>"
  have b0: "tx_sentList b0 = ?S" "tx_sentSize b0 = tx_sentSize b" using arg_cong [OF be, of tx_sentList] arg_cong [OF be, of tx_sentSize] by simp_all
  have G: "GetNewSegment (of_nat n) b = Some (item, b1)" unfolding GetNewSegment_def start
    using F by (simp add: Let_def item_def b1_def bf b0)
  define it where "it = item\<lparr>ti_lastSent := now\<rparr>"
  define b2 where "b2 = b1\<lparr>tx_sentList := butlast (tx_sentList b1) @ [it]\<rparr>"
  have e: "tx_sentList b2 = ?S @ [it]" "tx_appList b2 = behind" "tx_sentSize b2 = tx_sentSize b + item_size it" "tx_nodes b2 = tx_nodes b0 + 1"
    "tx_firstByteSeq b2 = tx_firstByteSeq b" "tx_maxBuffer b2 = tx_maxBuffer b" "tx_size b2 = tx_size b" "tx_retrans b2 = tx_retrans b"
    "tx_sackedOut b2 = tx_sackedOut b" "tx_lostOut b2 = tx_lostOut b" "tx_highestSack b2 = tx_highestSack b" "tx_sackEnabled b2 = tx_sackEnabled b"
    "tx_dupAckThresh b2 = tx_dupAckThresh b" "tx_firstByteSeq b1 = tx_firstByteSeq b"
    unfolding b2_def b1_def by (subst be; simp add: it_def item_size_def P(2))+
  have it: "ti_packet it = ti_packet item0" "ti_startSeq it = seq_of iss a" "ti_node it = tx_nodes b0" "plain it"
    using P(1) by (simp_all add: it_def item_def plain_def)
  have co: "contents_of b2 = contents_of b" using bs by (simp add: contents_of_def e it)
  have k: "tx_nodes b \<le> tx_nodes b0" using R by (simp add: rearranged_def)
  have z: "item_size it = of_nat n" by (simp add: item_size_def pkt_size_def it ln)
  have "sizes_ok iss x b2" unfolding sizes_ok_def co e
    using s sD(1,6) fu it P(1) bf ln z an(1) by (auto simp: sizes_ok_def placed_append plain_def)
  moreover have "ConsistencyCheck b2" using bo it(4) by (auto simp: counts_ok_def ConsistencyCheck_def e plain_def marked_size_def)
  moreover have "distinct (map ti_node (?S @ [it])) \<and> (\<forall>t\<in>set (?S @ [it]). ti_node t < tx_nodes b0 + 1)" using bo it(3) k by (fastforce simp: counts_ok_def)
  ultimately have "sizes_ok iss x b2 \<and> counts_ok b2" using bo it(4) by (auto simp: counts_ok_def e plain_def)
  moreover have "ti_packet it = take n (item_bytes ?A)" "item_bytes behind = drop n (item_bytes ?A)" using bs it(1) ln by (simp_all flip: bs)
  ultimately have "appended iss x n b it b2" unfolding appended_def using co it ln an by (simp add: e)
  then show ?thesis using G P(1) ln e(14) by (intro exI [of _ item] exI [of _ b1]) (simp add: it_def b2_def item_def plain_def b1_def)
qed

lemma new_segment_ok:
  assumes ok: "tx_ok iss x b" and an: "a = x + length (item_bytes (tx_sentList b))" "a + n \<le> x + length (contents_of b)" "0 < n"
  shows "\<exists>item b1. GetNewSegment (of_nat n) b = Some (item, b1) \<and> \<not> ti_retrans item \<and> tx_firstByteSeq b1 = tx_firstByteSeq b \<and>
    ti_startSeq item = seq_of iss a \<and> length (ti_packet item) = n \<and>
    copied iss x a n b (item\<lparr>ti_lastSent := now\<rparr>) (b1\<lparr>tx_sentList := butlast (tx_sentList b1) @ [item\<lparr>ti_lastSent := now\<rparr>]\<rparr>)"
proof -
  let ?S = "tx_sentList b"
  have s: "sizes_ok iss x b" and bo: "board_ok b" using ok by (simp_all add: tx_ok_def)
  have "counts_ok b" using bo by (simp add: board_ok_def)
  from new_segment_appended [OF s this an, of now] obtain item b1 where
    G: "GetNewSegment (of_nat n) b = Some (item, b1)" "\<not> ti_retrans item" "tx_firstByteSeq b1 = tx_firstByteSeq b" "ti_startSeq item = seq_of iss a"
       "length (ti_packet item) = n"
    and A: "appended iss x n b (item\<lparr>ti_lastSent := now\<rparr>) (b1\<lparr>tx_sentList := butlast (tx_sentList b1) @ [item\<lparr>ti_lastSent := now\<rparr>]\<rparr>)" by blast
  define it where "it = item\<lparr>ti_lastSent := now\<rparr>"
  define b2 where "b2 = b1\<lparr>tx_sentList := butlast (tx_sentList b1) @ [it]\<rparr>"
  note A = A [folded it_def, folded b2_def, unfolded appended_def]
  have "highest_ok (tx_highestSack b2) (?S @ [it])" using bo A by (auto simp: board_ok_def highest_ok_def split: option.splits)
  moreover have "\<not> ti_sacked (hd (?S @ [it]))" using bo A by (cases ?S) (auto simp: board_ok_def plain_def)
  ultimately have ok2: "tx_ok iss x b2" using bo A by (simp add: tx_ok_def board_ok_def)
  have d: "drop (a - x) (contents_of b) = item_bytes (tx_appList b)" using an(1) by (simp add: contents_of_def)
  have ln: "length (ti_packet it) = n" and pk: "ti_packet it = take n (item_bytes (tx_appList b))" using A by blast+
  have "ti_packet it = take (length (ti_packet it)) (drop (a - x) (contents_of b))" unfolding d ln by (rule pk)
  moreover have "length (item_bytes (tx_sentList b2)) = length (item_bytes ?S) + n" using A ln by (simp del: item_bytes_simps(2) add: item_bytes_def)
  ultimately have "copied iss x a n b it b2" unfolding copied_def using ok2 A an ln by (intro conjI) (simp_all add: plain_def)
  then show ?thesis using G by (auto simp: it_def b2_def)
qed

end
