(* ===== verification/Tcp_Tx_Copy.thy ===== *)
theory Tcp_Tx_Copy
  imports Tcp_Tx_Inv
begin

text \<open>\<^verbatim>\<open>CopyFromSequence\<close>: what it gives, when it returns, and where it follows a null pointer.\<close>

definition copy_size :: "nat \<Rightarrow> nat \<Rightarrow> u32 \<Rightarrow> TcpTxBuffer \<Rightarrow> nat" where
  "copy_size x a nb b = min (unat nb) (x + length (contents_of b) - a)"

definition sent_end :: "nat \<Rightarrow> TcpTxBuffer \<Rightarrow> nat" where
  "sent_end x b = x + length (item_bytes (tx_sentList b))"

lemma seq_of_no_wrap:
  assumes "unat (seq_of iss a) + k < 2 ^ 32"
  shows "unat (seq_of iss (a + k)) = unat (seq_of iss a) + k"
proof -
  have "seq_of iss (a + k) = of_nat (unat (seq_of iss a) + k)" by (simp add: seq_of_add [symmetric])
  moreover have "unat (seq_of iss a) + k < 4294967296" using assms by simp
  ultimately show ?thesis by (simp only: unat_of_nat_u32)
qed

text \<open>The call in terms of positions.\<close>

lemma CopyFromSequence_eq:
  assumes s: "sizes_ok iss x b" and a: "x \<le> a" "a < x + 2 ^ 30" and n: "n = copy_size x a nb b"
  shows "CopyFromSequence now nb (seq_of iss a) b =
    (if n = 0 then Some (None, b)
     else if a + n \<le> sent_end x b then do {
       (before, outItem, behind, b) \<leftarrow> GetTransmittedSegment (of_nat n) (seq_of iss a) b;
       if ti_sacked outItem then None
       else do {
         let outItem = outItem\<lparr>ti_lastSent := now\<rparr>;
         if \<not> seq_ge (ti_startSeq outItem) (tx_firstByteSeq b) then None
         else Some (Some outItem, b\<lparr>tx_sentList := before @ outItem # behind\<rparr>) } }
     else if sent_end x b \<le> a then
       if sent_end x b \<noteq> a then None
       else do {
         (outItem, b) \<leftarrow> GetNewSegment (of_nat n) b;
         if ti_retrans outItem then None
         else do {
           let outItem = outItem\<lparr>ti_lastSent := now\<rparr>;
           if \<not> seq_ge (ti_startSeq outItem) (tx_firstByteSeq b) then None
           else Some (Some outItem, b\<lparr>tx_sentList := butlast (tx_sentList b) @ [outItem]\<rparr>) } }
     else if seq_of iss (sent_end x b) > seq_of iss a \<and> seq_of iss (sent_end x b) < seq_of iss (a + n) then
       CopyFromSequence now (of_nat (sent_end x b - a)) (seq_of iss a) b
     else None)"
proof -
  note sD = sizes_okD [OF s]
  have lc: "length (contents_of b) = length (item_bytes (tx_sentList b)) + length (item_bytes (tx_appList b))" by (simp add: contents_of_def)
  define N where "N = x + length (contents_of b) - a"
  have N: "N < 2 ^ 30" using a sD(5) lc by (simp add: N_def)
  have tail: "TailSequence b = seq_of iss (x + length (contents_of b))" unfolding TailSequence_def sD(1,7) lc by (rule seq_of_add)
  have "SizeFromSequence (seq_of iss a) b = of_nat N"
  proof (cases "a \<le> x + length (contents_of b)")
    case True
    then have "seq_ge (TailSequence b) (seq_of iss a)" unfolding tail using a sD(5) lc by (simp add: seq_compare)
    moreover have "seq_of iss (x + length (contents_of b)) - seq_of iss a = of_nat N" using True by (simp add: seq_of_def N_def of_nat_diff)
    ultimately show ?thesis by (simp add: SizeFromSequence_def Let_def seq_minus_eq tail)
  next
    case False
    then have "\<not> seq_ge (TailSequence b) (seq_of iss a)" unfolding tail using a sD(5) lc by (simp add: seq_compare)
    then show ?thesis using False by (simp add: SizeFromSequence_def Let_def N_def)
  qed
  moreover have un: "unat (of_nat N :: u32) = N" using N by (simp add: unat_of_nat_u32)
  ultimately have m: "min nb (SizeFromSequence (seq_of iss a) b) = of_nat n"
    unfolding n copy_size_def N_def [symmetric] by (cases "nb \<le> of_nat N") (auto simp: min_def word_le_nat_alt)
  have nl: "n < 2 ^ 30" "n \<le> N" using N by (simp_all add: n copy_size_def N_def)
  have z: "(of_nat n :: u32) = 0 \<longleftrightarrow> n = 0" using nl by (simp add: word_unat_eq_iff unat_of_nat_u32)
  have E: "tx_firstByteSeq b + tx_sentSize b = seq_of iss (sent_end x b)" unfolding sD(1,6) sent_end_def by (rule seq_of_add)
  have el: "sent_end x b < x + 2 ^ 30" "x \<le> sent_end x b" using sD(5) by (simp_all add: sent_end_def)
  have c: "\<not> seq_gt (tx_firstByteSeq b) (seq_of iss a)" "seq_ge (seq_of iss (sent_end x b)) (seq_of iss (a + n)) \<longleftrightarrow> a + n \<le> sent_end x b"
    "seq_le (seq_of iss (sent_end x b)) (seq_of iss a) \<longleftrightarrow> sent_end x b \<le> a" "seq_of iss (sent_end x b) \<noteq> seq_of iss a \<longleftrightarrow> sent_end x b \<noteq> a"
    using a el nl by (simp_all add: seq_compare sD(1))
  have d: "seq_of iss (sent_end x b) - seq_of iss a = of_nat (sent_end x b - a)" if "a < sent_end x b"
    using that by (simp add: seq_of_def of_nat_diff)
  show ?thesis
    unfolding CopyFromSequence.simps [of now nb] m Let_def z E seq_of_add c(2,3,4) if_not_P [OF c(1)]
    using d by (simp add: not_le)
qed

lemma copied_mono: "copied iss x a n b item b' \<Longrightarrow> n \<le> n' \<Longrightarrow> copied iss x a n' b item b'"
  by (auto simp: copied_def)

lemma CopyFromSequence_copied:
  assumes ok: "tx_ok iss x b" and a: "x \<le> a" "a < x + 2 ^ 30" and C: "CopyFromSequence now nb (seq_of iss a) b = Some (r, b')"
  shows "case r of None \<Rightarrow> b' = b \<and> copy_size x a nb b = 0 | Some item \<Rightarrow> copied iss x a (copy_size x a nb b) b item b'"
proof -
  have s: "sizes_ok iss x b" using ok by (simp add: tx_ok_def)
  have again: "\<exists>item. r = Some item \<and> copied iss x a n b item b'"
    if n: "n = copy_size x a nb b" "0 < n" "a + n \<le> sent_end x b" and C: "CopyFromSequence now nb (seq_of iss a) b = Some (r, b')" for n nb
  proof -
    obtain before item behind b1 where G: "GetTransmittedSegment (of_nat n) (seq_of iss a) b = Some (before, item, behind, b1)"
      "\<not> ti_sacked item" "r = Some (item\<lparr>ti_lastSent := now\<rparr>)" "b' = b1\<lparr>tx_sentList := before @ item\<lparr>ti_lastSent := now\<rparr> # behind\<rparr>"
      using C n CopyFromSequence_eq [OF s a n(1), of now] by (auto simp: Let_def split: bind_splits if_splits)
    then show ?thesis using transmitted_ok [OF ok a(1) n(3) [unfolded sent_end_def] n(2) G(1,2)] by simp
  qed
  define n where "n = copy_size x a nb b"
  note eq = CopyFromSequence_eq [OF s a n_def, of now]
  have le: "a + n \<le> x + length (contents_of b)" if "0 < n" using that by (auto simp: n_def copy_size_def)
  consider "n = 0" | "0 < n" "a + n \<le> sent_end x b" | "0 < n" "sent_end x b = a" | "a < sent_end x b" "sent_end x b < a + n"
    using C eq by (fastforce split: if_splits)
  then show ?thesis
  proof cases
    case 1
    then show ?thesis using C eq n_def by auto
  next
    case 2
    from again [OF n_def this C] show ?thesis by (auto simp: n_def [symmetric])
  next
    case 3
    from new_segment_ok [OF ok _ le [OF 3(1)] 3(1), of now] 3(2) obtain item b1 where
      G: "GetNewSegment (of_nat n) b = Some (item, b1)" "\<not> ti_retrans item"
         "copied iss x a n b (item\<lparr>ti_lastSent := now\<rparr>) (b1\<lparr>tx_sentList := butlast (tx_sentList b1) @ [item\<lparr>ti_lastSent := now\<rparr>]\<rparr>)"
      by (auto simp: sent_end_def)
    have "r = Some (item\<lparr>ti_lastSent := now\<rparr>) \<and> b' = b1\<lparr>tx_sentList := butlast (tx_sentList b1) @ [item\<lparr>ti_lastSent := now\<rparr>]\<rparr>"
      using C eq G(1,2) 3 by (auto simp: Let_def split: if_splits)
    then show ?thesis using G(3) by (simp add: n_def [symmetric])
  next
    case 4
    have C2: "CopyFromSequence now (of_nat (sent_end x b - a)) (seq_of iss a) b = Some (r, b')" using C eq 4 by (auto split: if_splits)
    have s: "sizes_ok iss x b" using ok by (simp add: tx_ok_def)
    have "sent_end x b < x + 2 ^ 30" using sizes_okD(5) [OF s] by (simp add: sent_end_def)
    then have u: "unat (of_nat (sent_end x b - a) :: u32) = sent_end x b - a" using a by (simp add: unat_of_nat_u32)
    have "sent_end x b \<le> x + length (contents_of b)" by (simp add: sent_end_def contents_of_def)
    then have "copy_size x a (of_nat (sent_end x b - a)) b = sent_end x b - a" by (simp add: copy_size_def u)
    from again [OF this [symmetric] _ _ C2] 4 obtain item where "r = Some item" "copied iss x a (sent_end x b - a) b item b'" by auto
    then show ?thesis using copied_mono 4 by (simp add: n_def [symmetric])
  qed
qed

section \<open>When it returns\<close>

lemma copy_new_returns:
  assumes ok: "tx_ok iss x b" and a: "a = sent_end x b" and n: "0 < copy_size x a nb b"
  shows "\<exists>item b'. CopyFromSequence now nb (seq_of iss a) b = Some (Some item, b') \<and> length (ti_packet item) = copy_size x a nb b"
proof -
  have s: "sizes_ok iss x b" using ok by (simp add: tx_ok_def)
  have r: "x \<le> a" "a < x + 2 ^ 30" using a sizes_okD(5) [OF s] by (simp_all add: sent_end_def)
  define m where "m = copy_size x a nb b"
  have "a + m \<le> x + length (contents_of b)" using n by (auto simp: m_def copy_size_def)
  from new_segment_ok [OF ok _ this, of now] n a obtain item b1 where
    G: "GetNewSegment (of_nat m) b = Some (item, b1)" "\<not> ti_retrans item" "tx_firstByteSeq b1 = tx_firstByteSeq b"
       "ti_startSeq item = seq_of iss a" "length (ti_packet item) = m" by (auto simp: sent_end_def m_def)
  have "seq_ge (seq_of iss a) (seq_of iss x)" using r by (simp add: seq_compare)
  then show ?thesis using CopyFromSequence_eq [OF s r refl, of now nb] G n a sizes_okD(1) [OF s] by (simp add: m_def Let_def)
qed

text \<open>How much a call for an item that was sent gives: the next item is taken along if it may be merged.\<close>

definition again_size :: "TcpTxItem \<Rightarrow> TcpTxItem list \<Rightarrow> nat \<Rightarrow> nat" where
  "again_size t vs n = (case vs of
     u # _ \<Rightarrow> if \<not> ti_sacked u \<and> ti_lost t = ti_lost u then min n (length (ti_packet t) + length (ti_packet u)) else min n (length (ti_packet t))
   | [] \<Rightarrow> min n (length (ti_packet t)))"

lemma merge_size_at:
  assumes "placed iss x (us @ t # vs)" and "full_items (us @ t # vs)" and "length (item_bytes (us @ t # vs)) < 2 ^ 30"
    and "n < 2 ^ 30"
  shows "merge_size (seq_of iss (x + length (item_bytes us))) (of_nat n) (us @ t # vs) = of_nat (again_size t vs n)"
  using assms
proof (induction us arbitrary: x)
  case Nil
  have m: "min (of_nat n) (of_nat k :: u32) = of_nat (min n k)" if "k < 2 ^ 30" for k
    using that assms(4) by (auto simp: min_def word_le_nat_alt unat_of_nat_u32)
  have z: "item_size t = of_nat (length (ti_packet t))" for t by (simp add: item_size_def pkt_size_def)
  show ?case
  proof (cases vs)
    case (Cons u ws)
    have "item_size t + item_size u = of_nat (length (ti_packet t) + length (ti_packet u))" by (simp add: z)
    then show ?thesis using Cons Nil by (simp add: again_size_def m z del: of_nat_add)
  qed (use Nil in \<open>simp add: again_size_def m z\<close>)
next
  case (Cons u us)
  have "0 < length (ti_packet u)" "length (ti_packet u) + length (item_bytes us) < 2 ^ 30" using Cons.prems by simp_all
  then have "seq_of iss x \<noteq> seq_of iss (x + (length (ti_packet u) + length (item_bytes us)))" by (subst seq_compare) auto
  then show ?case using Cons.prems Cons.IH [of "x + length (ti_packet u)"] by (simp add: add.assoc)
qed

lemma copy_again_returns:
  assumes ok: "tx_ok iss x b" and S: "tx_sentList b = us @ t # vs" and t: "\<not> ti_sacked t" and a: "a = x + length (item_bytes us)"
    and n: "0 < copy_size x a nb b" and w: "unat (seq_of iss a) + copy_size x a nb b < 2 ^ 32 \<or> a + copy_size x a nb b \<le> sent_end x b"
  shows "\<exists>item b'. CopyFromSequence now nb (seq_of iss a) b = Some (Some item, b') \<and>
    length (ti_packet item) = again_size t vs (min (copy_size x a nb b) (sent_end x b - a))"
proof -
  have s: "sizes_ok iss x b" using ok by (simp add: tx_ok_def)
  note sD = sizes_okD [OF s]
  have r: "x \<le> a" "a < x + 2 ^ 30" using a sD(5) S by simp_all
  have ae: "a < sent_end x b" "sent_end x b < x + 2 ^ 30" using sD(2,5) by (simp_all add: sent_end_def S a)
  have again: "\<exists>item b'. CopyFromSequence now nb (seq_of iss a) b = Some (Some item, b') \<and> length (ti_packet item) = again_size t vs n"
    if n: "n = copy_size x a nb b" "0 < n" "a + n \<le> sent_end x b" for n nb
  proof -
    have n30: "n < 2 ^ 30" using n ae r by simp
    have p: "placed iss x (us @ t # vs)" "full_items (us @ t # vs)" "length (item_bytes (us @ t # vs)) < 2 ^ 30" using sD S by simp_all
    define m where "m = again_size t vs n"
    note ms = merge_size_at [OF p n30, folded a m_def]
    have m: "0 < m" "m \<le> n" using n p(2) by (auto simp: m_def again_size_def split: list.split)
    define run where "run = (case vs of u # _ \<Rightarrow> if \<not> ti_sacked u \<and> ti_lost t = ti_lost u then [t, u] else [t] | [] \<Rightarrow> [t])"
    have "\<exists>rest. t # vs = run @ rest" by (cases vs) (auto simp: run_def)
    then obtain rest where rest: "t # vs = run @ rest" by blast
    have rs: "set run \<subseteq> insert t (set vs)" using arg_cong [OF rest, of set] by auto
    have rn: "run \<noteq> []" "\<forall>u\<in>set run. ti_sacked u = False \<and> ti_lost u = ti_lost t" "m \<le> length (item_bytes run)"
      using t by (auto simp: run_def m_def again_size_def split: list.splits)
    have ge: "seq_ge (ti_startSeq u) (tx_firstByteSeq b)" if u: "u \<in> set (tx_sentList b)" for u
    proof -
      obtain as bs where sp: "tx_sentList b = as @ u # bs" using split_list [OF u] by blast
      then have "ti_startSeq u = seq_of iss (x + length (item_bytes as))" using sD(4) by (simp add: placed_append)
      then show ?thesis using sD(1,5) sp by (simp add: seq_compare)
    qed
    have "GetPacketFromList True (seq_of iss x) (of_nat m) (seq_of iss a) [] (seq_of iss x) (us @ run @ rest) b \<noteq> None"
      by (rule GetPacketFromList_returns [where sk = False and lo = "ti_lost t"])
        (use p rn a m n30 ge S rs in \<open>auto simp: rest [symmetric]\<close>)
    then obtain before item behind b0 where
      F: "GetPacketFromList True (seq_of iss x) (of_nat m) (seq_of iss a) [] (seq_of iss x) (tx_sentList b) b = Some (before, item, behind, b0)"
      unfolding rest [symmetric] S [symmetric] by auto
    have fe: "fetched x a m (tx_sentList b) b (before, item, behind, b0)"
      by (rule fetch_okD [OF GetPacketFromList_fetched [OF F] refl refl refl sD(2)]) (use r m n30 sD(5) in auto)
    have un: "unat (of_nat n :: u32) = n" using n30 by (simp add: unat_of_nat_u32)
    have "(of_nat n :: u32) \<le> tx_sentSize b"
      using n(3) ae r sD(5) unfolding sD(6) word_le_nat_alt un by (subst unat_of_nat_u32) (simp_all add: sent_end_def)
    moreover have "seq_ge (seq_of iss a) (tx_firstByteSeq b)" unfolding sD(1) using r by (simp add: seq_compare)
    ultimately obtain item' b1 where G: "GetTransmittedSegment (of_nat n) (seq_of iss a) b = Some (before, item', behind, b1)"
      "ti_packet item' = ti_packet item" "ti_sacked item' = ti_sacked item" "ti_startSeq item' = ti_startSeq item" "tx_firstByteSeq b1 = tx_firstByteSeq b0"
      using F ms S unfolding GetTransmittedSegment_def Let_def sD(1) by auto
    have si: "\<not> ti_sacked item" using fetched_marks [OF fe sD(2), of us t vs] S t a p(2) by simp
    have R: "rearranged True (tx_sentList b, tx_retrans b, tx_nodes b) (before @ item # behind, tx_retrans b0, tx_nodes b0)"
      and fb: "tx_firstByteSeq b0 = tx_firstByteSeq b" and le: "length (ti_packet item) \<le> m" "length (ti_packet item) = m \<or> behind = []" "x + length (item_bytes before) = a"
      using fe si by (auto simp: fetched_def dest: arg_cong [where f = tx_firstByteSeq])
    have bl: "length (item_bytes before) + length (ti_packet item) + length (item_bytes behind) = length (item_bytes (tx_sentList b))"
      using arg_cong [OF rearranged_bytes [OF R], of length] by simp
    have "length (ti_packet item) = m" using le bl m n(3) by (auto simp: sent_end_def)
    moreover have "ti_startSeq item = seq_of iss a" using R sD(4) le(3) unfolding rearranged_def by (auto simp: placed_append)
    moreover have "seq_ge (seq_of iss a) (seq_of iss x)" using r by (simp add: seq_compare)
    ultimately show ?thesis using CopyFromSequence_eq [OF s r n(1), of now] n G si fb sD(1) by (simp add: m_def Let_def)
  qed
  define k where "k = copy_size x a nb b"
  show ?thesis
  proof (cases "a + k \<le> sent_end x b")
    case True
    then have "min k (sent_end x b - a) = k" by simp
    then show ?thesis using again [OF k_def _ True] n by (simp add: k_def)
  next
    case False
    have u: "unat (of_nat (sent_end x b - a) :: u32) = sent_end x b - a" by (rule unat_of_nat_u32) (use ae r in auto)
    have "sent_end x b \<le> x + length (contents_of b)" by (simp add: sent_end_def contents_of_def)
    then have c: "sent_end x b - a = copy_size x a (of_nat (sent_end x b - a)) b" by (simp add: copy_size_def u)
    have wk: "unat (seq_of iss a) + k < 2 ^ 32" using w False by (simp add: k_def)
    have "unat (seq_of iss (a + (sent_end x b - a))) = unat (seq_of iss a) + (sent_end x b - a)" by (rule seq_of_no_wrap) (use wk False in simp)
    moreover have "a + (sent_end x b - a) = sent_end x b" using ae(1) by simp
    ultimately have "unat (seq_of iss (sent_end x b)) = unat (seq_of iss a) + (sent_end x b - a)" by (simp only:)
    moreover have "unat (seq_of iss (a + k)) = unat (seq_of iss a) + k" by (rule seq_of_no_wrap [OF wk])
    moreover have "0 < sent_end x b - a" "sent_end x b - a < k" using ae(1) False by linarith+
    ultimately have "seq_of iss (sent_end x b) > seq_of iss a \<and> seq_of iss (sent_end x b) < seq_of iss (a + k)"
      unfolding word_less_nat_alt by linarith
    then have "CopyFromSequence now nb (seq_of iss a) b = CopyFromSequence now (of_nat (sent_end x b - a)) (seq_of iss a) b"
      using CopyFromSequence_eq [OF s r k_def, of now] False n ae by (simp add: k_def)
    moreover have "min k (sent_end x b - a) = sent_end x b - a" using False by simp
    ultimately show ?thesis using again [OF c] ae by (simp add: k_def)
  qed
qed

text \<open>A request across the end of what was sent, where the sequence numbers wrap around: a null pointer is followed.\<close>

lemma copy_wrap_fails:
  assumes ok: "tx_ok iss x b" and a: "x \<le> a" "a < sent_end x b" and n: "sent_end x b < a + copy_size x a nb b"
    and w: "seq_of iss (a + copy_size x a nb b) < seq_of iss a"
  shows "CopyFromSequence now nb (seq_of iss a) b = None"
proof -
  have s: "sizes_ok iss x b" using ok by (simp add: tx_ok_def)
  have r: "a < x + 2 ^ 30" using a sizes_okD(5) [OF s] by (simp add: sent_end_def)
  have "\<not> (seq_of iss (sent_end x b) > seq_of iss a \<and> seq_of iss (sent_end x b) < seq_of iss (a + copy_size x a nb b))" using w by auto
  then show ?thesis using CopyFromSequence_eq [OF s a(1) r refl, of now nb] n a by auto
qed

end
