(* ===== verification/Tcp_Tx_Board.thy ===== *)
theory Tcp_Tx_Board
  imports Tcp_Tx_Copy
begin

text \<open>The operations that mark items: losses, selective acknowledgements, timeouts.\<close>

section \<open>Changing marks\<close>

definition same_items :: "TcpTxItem list \<Rightarrow> TcpTxItem list \<Rightarrow> bool" where
  "same_items = list_all2 (\<lambda>t t'. ti_packet t' = ti_packet t \<and> ti_startSeq t' = ti_startSeq t \<and> ti_node t' = ti_node t)"

lemma same_items_refl [simp]: "same_items L L"
  by (simp add: same_items_def list.rel_refl)

lemma same_items_Cons [simp]:
  "same_items (t # ts) (u # us) \<longleftrightarrow> ti_packet u = ti_packet t \<and> ti_startSeq u = ti_startSeq t \<and> ti_node u = ti_node t \<and> same_items ts us"
  by (simp add: same_items_def)

lemma same_items_append: "same_items us us' \<Longrightarrow> same_items vs vs' \<Longrightarrow> same_items (us @ vs) (us' @ vs')"
  unfolding same_items_def by (rule list_all2_appendI)

lemma same_items_rev: "same_items us vs \<Longrightarrow> same_items (rev us) (rev vs)"
  by (simp add: same_items_def)

lemma same_items_trans: "same_items us vs \<Longrightarrow> same_items vs ws \<Longrightarrow> same_items us ws"
  by (auto simp: same_items_def list_all2_conv_all_nth)

lemma same_items_map: "(\<And>t. ti_packet (f t) = ti_packet t \<and> ti_startSeq (f t) = ti_startSeq t \<and> ti_node (f t) = ti_node t) \<Longrightarrow> same_items L (map f L)"
  by (induction L) (simp_all add: same_items_def)

lemma same_items_kept:
  assumes "same_items L L'"
  shows "item_bytes L' = item_bytes L" and "full_items L' = full_items L" and "placed iss x L' = placed iss x L" and "map ti_node L' = map ti_node L"
    and "L' = [] \<longleftrightarrow> L = []"
proof -
  have "item_bytes L' = item_bytes L \<and> full_items L' = full_items L \<and> (\<forall>x. placed iss x L' = placed iss x L) \<and> map ti_node L' = map ti_node L \<and> (L' = [] \<longleftrightarrow> L = [])"
    using assms unfolding same_items_def by (induction rule: list_all2_induct) auto
  then show "item_bytes L' = item_bytes L" and "full_items L' = full_items L" and "placed iss x L' = placed iss x L" and "map ti_node L' = map ti_node L"
    and "L' = [] \<longleftrightarrow> L = []" by blast+
qed

lemma sizes_marks:
  assumes "sizes_ok iss x b" and "same_items (tx_sentList b) (tx_sentList b')"
    and "tx_appList b' = tx_appList b" "tx_firstByteSeq b' = tx_firstByteSeq b" "tx_maxBuffer b' = tx_maxBuffer b" "tx_sentSize b' = tx_sentSize b"
      "tx_size b' = tx_size b"
  shows "sizes_ok iss x b'" and "contents_of b' = contents_of b"
proof -
  note K = same_items_kept [OF assms(2)]
  show c: "contents_of b' = contents_of b" using K(1) assms(3) by (simp add: contents_of_def)
  show "sizes_ok iss x b'" using assms(1,3-) unfolding sizes_ok_def c by (simp add: K)
qed

text \<open>What every operation on marks keeps.\<close>

definition unsacked_head :: "TcpTxBuffer \<Rightarrow> bool" where
  "unsacked_head b \<longleftrightarrow> (tx_sentList b \<noteq> [] \<longrightarrow> \<not> ti_sacked (hd (tx_sentList b)))"

definition marks_step :: "u32 \<Rightarrow> nat \<Rightarrow> TcpTxBuffer \<Rightarrow> TcpTxBuffer \<Rightarrow> bool" where
  "marks_step iss x b b' \<longleftrightarrow> sizes_ok iss x b' \<and> counts_ok b' \<and> unsacked_head b' \<and> contents_of b' = contents_of b \<and>
     same_items (tx_sentList b) (tx_sentList b') \<and> tx_maxBuffer b' = tx_maxBuffer b \<and> tx_sackEnabled b' = tx_sackEnabled b \<and>
     tx_dupAckThresh b' = tx_dupAckThresh b \<and>
     (highest_ok (tx_highestSack b') (tx_sentList b') \<or>
      tx_highestSack b' = tx_highestSack b \<and> (\<forall>h. highest_ok h (tx_sentList b) \<longrightarrow> highest_ok h (tx_sentList b')))"

lemma marks_step_ok:
  assumes "tx_ok iss x b" and "marks_step iss x b b'"
  shows "tx_ok iss x b' \<and> contents_of b' = contents_of b"
proof -
  have "highest_ok (tx_highestSack b) (tx_sentList b)" using assms(1) by (simp add: tx_ok_def board_ok_def)
  then have "highest_ok (tx_highestSack b') (tx_sentList b')" using assms(2) unfolding marks_step_def by metis
  then show ?thesis using assms(2) by (simp add: tx_ok_def board_ok_def marks_step_def unsacked_head_def)
qed

lemma marks_step_trans:
  assumes "marks_step iss x b b1" and "marks_step iss x b1 b2"
  shows "marks_step iss x b b2"
proof -
  have "same_items (tx_sentList b) (tx_sentList b2)" using assms by (auto simp: marks_step_def intro: same_items_trans)
  moreover have "highest_ok (tx_highestSack b2) (tx_sentList b2) \<or>
    tx_highestSack b2 = tx_highestSack b \<and> (\<forall>h. highest_ok h (tx_sentList b) \<longrightarrow> highest_ok h (tx_sentList b2))"
    using assms unfolding marks_step_def by metis
  ultimately show ?thesis using assms by (simp add: marks_step_def)
qed

lemma marks_stepI:
  assumes "sizes_ok iss x b" and "counts_ok b" and "same_items (tx_sentList b) (tx_sentList b')"
    and "tx_appList b' = tx_appList b" "tx_firstByteSeq b' = tx_firstByteSeq b" "tx_maxBuffer b' = tx_maxBuffer b" "tx_sentSize b' = tx_sentSize b"
      "tx_size b' = tx_size b" "tx_nodes b' = tx_nodes b" "tx_sackEnabled b' = tx_sackEnabled b" "tx_dupAckThresh b' = tx_dupAckThresh b"
    and "ConsistencyCheck b'" and "\<forall>t\<in>set (tx_sentList b'). \<not> (ti_sacked t \<and> ti_lost t)" and "unsacked_head b'"
    and "highest_ok (tx_highestSack b') (tx_sentList b') \<or>
      tx_highestSack b' = tx_highestSack b \<and> (\<forall>h. highest_ok h (tx_sentList b) \<longrightarrow> highest_ok h (tx_sentList b'))"
  shows "marks_step iss x b b'"
proof -
  have "map ti_node (tx_sentList b') = map ti_node (tx_sentList b)" by (rule same_items_kept(4) [OF assms(3)])
  moreover have "\<forall>n\<in>set (map ti_node (tx_sentList b)). n < tx_nodes b" using assms(2) by (simp add: counts_ok_def)
  ultimately have "distinct (map ti_node (tx_sentList b')) \<and> (\<forall>n\<in>set (map ti_node (tx_sentList b')). n < tx_nodes b')"
    using assms(2,9) by (simp add: counts_ok_def)
  then have "counts_ok b'" using assms(12,13) by (simp add: counts_ok_def)
  then show ?thesis using sizes_marks [OF assms(1,3-8)] assms(3,6,10,11,14,15) by (simp add: marks_step_def)
qed

lemma marked_size_simps [simp]: "marked_size p [] = 0" "marked_size p (t # ts) = (if p t then item_size t else 0) + marked_size p ts"
  "marked_size p (us @ vs) = marked_size p us + marked_size p vs" "marked_size p (rev us) = marked_size p us"
  by (simp_all add: marked_size_def rev_filter [symmetric] rev_map [symmetric] sum_list_rev)

lemma item_size_cong: "ti_packet t = ti_packet u \<Longrightarrow> item_size t = item_size u"
  by (simp add: item_size_def)

text \<open>The highest acknowledged item is not the head.\<close>

lemma highest_tl: "highest_ok h (t # ts) \<Longrightarrow> \<not> ti_sacked t \<Longrightarrow> highest_ok h ts"
  by (auto simp: highest_ok_def split: option.splits)

lemma highest_Cons: "highest_ok h ts \<Longrightarrow> highest_ok h (t # ts)"
  by (auto simp: highest_ok_def split: option.splits)

section \<open>The head\<close>

lemma MarkHeadAsLost_step:
  assumes "sizes_ok iss x b" and "counts_ok b" and "unsacked_head b"
  shows "marks_step iss x b (MarkHeadAsLost b)"
proof (cases "tx_sentList b")
  case Nil
  then have "MarkHeadAsLost b = b" by (simp add: MarkHeadAsLost_def)
  then show ?thesis using assms by (simp add: marks_step_def)
next
  case (Cons h rest)
  let ?h = "h\<lparr>ti_sacked := False, ti_retrans := False, ti_lost := True\<rparr>"
  have h: "\<not> ti_sacked h" using assms(3) Cons by (simp add: unsacked_head_def)
  have z: "item_size ?h = item_size h" by (rule item_size_cong) simp
  define b' where "b' = MarkHeadAsLost b"
  have e: "tx_sentList b' = ?h # rest" "tx_appList b' = tx_appList b" "tx_firstByteSeq b' = tx_firstByteSeq b" "tx_maxBuffer b' = tx_maxBuffer b"
    "tx_sentSize b' = tx_sentSize b" "tx_size b' = tx_size b" "tx_nodes b' = tx_nodes b" "tx_highestSack b' = tx_highestSack b"
    "tx_sackedOut b' = tx_sackedOut b" "tx_retrans b' = (if ti_retrans h then tx_retrans b - item_size h else tx_retrans b)"
    "tx_lostOut b' = (if \<not> ti_lost h then tx_lostOut b + item_size h else tx_lostOut b)" "tx_sackEnabled b' = tx_sackEnabled b"
    "tx_dupAckThresh b' = tx_dupAckThresh b"
    using Cons h by (simp_all add: b'_def MarkHeadAsLost_def Let_def)
  have hi: "\<forall>g. highest_ok g (h # rest) \<longrightarrow> highest_ok g (?h # rest)"
    using h by (intro allI impI) (rule highest_Cons, rule highest_tl)
  have "ConsistencyCheck b'"
  proof -
    have c: "marked_size ti_sacked rest = tx_sackedOut b" "(if ti_lost h then item_size h else 0) + marked_size ti_lost rest = tx_lostOut b"
      "(if ti_retrans h then item_size h else 0) + marked_size ti_retrans rest = tx_retrans b"
      using assms(2) h by (simp_all add: counts_ok_def ConsistencyCheck_def Cons)
    show ?thesis unfolding ConsistencyCheck_def e using z by (simp flip: c)
  qed
  moreover have "\<forall>t\<in>set (?h # rest). \<not> (ti_sacked t \<and> ti_lost t)" using assms(2) Cons by (auto simp: counts_ok_def)
  ultimately have "marks_step iss x b b'"
    using hi by (intro marks_stepI [OF assms(1,2)]) (simp_all add: e Cons unsacked_head_def)
  then show ?thesis by (simp add: b'_def)
qed

lemma DeleteRetransmittedFlagFromHead_ok:
  assumes "tx_ok iss x b"
  shows "tx_ok iss x (DeleteRetransmittedFlagFromHead b) \<and> contents_of (DeleteRetransmittedFlagFromHead b) = contents_of b"
proof (cases "tx_sentList b")
  case (Cons h rest)
  show ?thesis
  proof (cases "tx_sentSize b \<noteq> 0 \<and> ti_retrans h")
    case True
    have e: "DeleteRetransmittedFlagFromHead b = b\<lparr>tx_sentList := [] @ h\<lparr>ti_retrans := False\<rparr> # rest, tx_retrans := tx_retrans b - item_size h\<rparr>"
      using True Cons by (simp add: DeleteRetransmittedFlagFromHead_def)
    show ?thesis unfolding e by (intro conjI retrans_flag_ok [OF assms, of "[]" h rest]; simp add: Cons True)
  qed (use assms Cons in \<open>auto simp: DeleteRetransmittedFlagFromHead_def\<close>)
qed (use assms in \<open>simp add: DeleteRetransmittedFlagFromHead_def\<close>)

section \<open>Duplicate acknowledgements without SACK\<close>

lemma split_unsacked_eq: "split_unsacked L = Some (us, it, vs) \<Longrightarrow> L = us @ it # vs \<and> \<not> ti_sacked it \<and> (\<forall>t\<in>set us. ti_sacked t)"
  by (induction L arbitrary: us) (auto split: if_splits)

text \<open>The item that a duplicate acknowledgement stands for must not be marked as lost.\<close>

definition reno_ok :: "TcpTxBuffer \<Rightarrow> bool" where
  "reno_ok b \<longleftrightarrow> tx_sentList b \<noteq> [] \<and> (tx_sackEnabled b \<longrightarrow> 1 < length (tx_sentList b)) \<and>
     (\<forall>us it vs. split_unsacked (tl (tx_sentList b)) = Some (us, it, vs) \<longrightarrow> \<not> ti_lost it)"

lemma AddRenoSack_step:
  assumes "sizes_ok iss x b" and "counts_ok b" and "unsacked_head b" and "reno_ok b"
  shows "\<exists>b'. AddRenoSack b = Some b' \<and> marks_step iss x b b'"
proof -
  obtain h rest where S: "tx_sentList b = h # rest" using assms(4) by (cases "tx_sentList b") (auto simp: reno_ok_def)
  have h: "\<not> ti_sacked h" using assms(3) S by (simp add: unsacked_head_def)
  show ?thesis
  proof (cases "split_unsacked rest")
    case None
    then have "AddRenoSack b = Some (b\<lparr>tx_renoSack := True\<rparr>)" using assms(4) S by (simp add: AddRenoSack_def reno_ok_def)
    moreover have "marks_step iss x b (b\<lparr>tx_renoSack := True\<rparr>)"
      using assms by (intro marks_stepI) (auto simp: counts_ok_def ConsistencyCheck_def unsacked_head_def)
    ultimately show ?thesis by blast
  next
    case (Some r)
    obtain us it vs where r: "r = (us, it, vs)" by (cases r)
    have sp: "rest = us @ it # vs" "\<not> ti_sacked it" using split_unsacked_eq [of rest us it vs] Some r by simp_all
    have nl: "\<not> ti_lost it" using assms(4) S Some r by (simp add: reno_ok_def)
    define b' where "b' = b\<lparr>tx_renoSack := True, tx_sentList := h # us @ it\<lparr>ti_sacked := True\<rparr> # vs,
      tx_sackedOut := tx_sackedOut b + item_size it, tx_highestSack := (Some (ti_node it), ti_startSeq it)\<rparr>"
    have A: "AddRenoSack b = Some b'" using assms(4) S Some r by (simp add: AddRenoSack_def reno_ok_def b'_def Let_def)
    have z: "item_size (it\<lparr>ti_sacked := True\<rparr>) = item_size it" by (rule item_size_cong) simp
    have "marks_step iss x b b'"
    proof (rule marks_stepI [OF assms(1,2)])
      show "same_items (tx_sentList b) (tx_sentList b')" by (simp add: b'_def S sp same_items_append)
      show "ConsistencyCheck b'"
      proof -
        have c: "tx_sackedOut b = marked_size ti_sacked us + marked_size ti_sacked vs"
          "tx_lostOut b = (if ti_lost h then item_size h else 0) + (marked_size ti_lost us + marked_size ti_lost vs)"
          "tx_retrans b = (if ti_retrans h then item_size h else 0) + (marked_size ti_retrans us + ((if ti_retrans it then item_size it else 0) + marked_size ti_retrans vs))"
          using assms(2) sp(2) nl h by (auto simp: counts_ok_def ConsistencyCheck_def S sp(1))
        show ?thesis unfolding ConsistencyCheck_def using nl h by (simp add: b'_def z c)
      qed
      show "\<forall>t\<in>set (tx_sentList b'). \<not> (ti_sacked t \<and> ti_lost t)" using assms(2) nl by (auto simp: counts_ok_def b'_def S sp(1))
      show "unsacked_head b'" using h by (simp add: unsacked_head_def b'_def)
      have "highest_ok (tx_highestSack b') (tx_sentList b')" by (simp add: highest_ok_def b'_def)
      then show "highest_ok (tx_highestSack b') (tx_sentList b') \<or>
        tx_highestSack b' = tx_highestSack b \<and> (\<forall>h. highest_ok h (tx_sentList b) \<longrightarrow> highest_ok h (tx_sentList b'))" by blast
    qed (simp_all add: b'_def)
    then show ?thesis using A by blast
  qed
qed

lemma ResetRenoSack_step:
  assumes "sizes_ok iss x b" and "counts_ok b"
  shows "marks_step iss x b (ResetRenoSack b)"
proof (rule marks_stepI [OF assms])
  let ?f = "\<lambda>it. it\<lparr>ti_sacked := False\<rparr>"
  show "same_items (tx_sentList b) (tx_sentList (ResetRenoSack b))" by (simp add: ResetRenoSack_def same_items_map)
  have z: "item_size (?f t) = item_size t" for t by (rule item_size_cong) simp
  have "marked_size ti_sacked (map ?f L) = 0 \<and> marked_size ti_lost (map ?f L) = marked_size ti_lost L \<and>
    marked_size ti_retrans (map ?f L) = marked_size ti_retrans L" for L by (induction L) (auto simp: z)
  then show "ConsistencyCheck (ResetRenoSack b)" using assms(2) by (simp add: counts_ok_def ConsistencyCheck_def ResetRenoSack_def)
  show "unsacked_head (ResetRenoSack b)" by (cases "tx_sentList b") (simp_all add: unsacked_head_def ResetRenoSack_def)
qed (auto simp: ResetRenoSack_def highest_ok_def)

section \<open>Timeouts\<close>

lemma lose_all_eq: "lose_all r L lostOut =
  (map (\<lambda>t. t\<lparr>ti_sacked := ti_sacked t \<and> \<not> r, ti_lost := r \<or> ti_lost t \<or> \<not> ti_sacked t, ti_retrans := False\<rparr>) L,
   lostOut + (if r then 0 else marked_size (\<lambda>t. ti_lost t \<or> \<not> ti_sacked t) L))"
  by (induction L arbitrary: lostOut) (auto simp: Let_def split: prod.split)

lemma SetSentListLost_step:
  assumes "sizes_ok iss x b" and "counts_ok b" and "unsacked_head b"
  shows "\<exists>b'. SetSentListLost r b = Some b' \<and> marks_step iss x b b'"
proof -
  let ?f = "\<lambda>t. t\<lparr>ti_sacked := ti_sacked t \<and> \<not> r, ti_lost := r \<or> ti_lost t \<or> \<not> ti_sacked t, ti_retrans := False\<rparr>"
  let ?S = "tx_sentList b"
  have z: "item_size (?f t) = item_size t" for t by (rule item_size_cong) simp
  define b' where "b' = b\<lparr>tx_sentList := map ?f ?S, tx_retrans := 0, tx_sackedOut := (if r then 0 else tx_sackedOut b),
     tx_highestSack := (if r then (None, 0) else tx_highestSack b),
     tx_lostOut := (if r then tx_sentSize b else marked_size (\<lambda>t. ti_lost t \<or> \<not> ti_sacked t) ?S)\<rparr>"
  have m: "marked_size ti_sacked (map ?f L) = (if r then 0 else marked_size ti_sacked L) \<and>
    marked_size ti_lost (map ?f L) = (if r then of_nat (length (item_bytes L)) else marked_size (\<lambda>t. ti_lost t \<or> \<not> ti_sacked t) L) \<and>
    marked_size ti_retrans (map ?f L) = 0" for L by (induction L) (auto simp: z item_size_def pkt_size_def)
  have step: "marks_step iss x b b'"
  proof (rule marks_stepI [OF assms(1,2)])
    show "same_items ?S (tx_sentList b')" by (simp add: b'_def same_items_map)
    show "ConsistencyCheck b'" using assms(2) m sizes_okD(6) [OF assms(1)] by (simp add: counts_ok_def ConsistencyCheck_def b'_def)
    show "\<forall>t\<in>set (tx_sentList b'). \<not> (ti_sacked t \<and> ti_lost t)" using assms(2) by (auto simp: counts_ok_def b'_def)
    show "unsacked_head b'" using assms(3) by (cases ?S) (auto simp: unsacked_head_def b'_def)
    have "highest_ok h (map ?f ?S)" if "\<not> r" "highest_ok h ?S" for h using that by (auto simp: highest_ok_def split: option.splits)
    then show "highest_ok (tx_highestSack b') (tx_sentList b') \<or>
      tx_highestSack b' = tx_highestSack b \<and> (\<forall>h. highest_ok h ?S \<longrightarrow> highest_ok h (tx_sentList b'))"
      by (cases r) (auto simp: b'_def highest_ok_def)
  qed (simp_all add: b'_def)
  have s': "sizes_ok iss x b'" "counts_ok b'" using step by (simp_all add: marks_step_def)
  have "tx_sackedOut b' + tx_lostOut b' \<le> tx_sentSize b'" by (rule counts_le [OF s'])
  then have "SetSentListLost r b = Some b'" by (simp add: SetSentListLost_def Let_def lose_all_eq b'_def split: if_splits)
  then show ?thesis using step by blast
qed

end
