(* ===== verification/Tcp_Tx_Sack.thy ===== *)
theory Tcp_Tx_Sack
  imports Tcp_Tx_Board
begin

text \<open>\<^verbatim>\<open>Update\<close> and \<^verbatim>\<open>UpdateLostCount\<close>: which items a selective acknowledgement marks as received, and which as lost.\<close>

section \<open>Marking losses\<close>

text \<open>An item is lost when at least \<open>k\<close> items behind it are acknowledged.\<close>

fun lose_below :: "nat \<Rightarrow> TcpTxItem list \<Rightarrow> TcpTxItem list" where
  "lose_below k [] = []"
| "lose_below k (t # ts) =
     (if k \<le> length (filter ti_sacked ts) \<and> \<not> ti_sacked t then t\<lparr>ti_lost := True\<rparr> else t) # lose_below k ts"

lemma lose_below_same: "same_items L (lose_below k L)"
  by (induction L) (auto simp: same_items_def)

lemma lose_below_sacked: "map ti_sacked (lose_below k L) = map ti_sacked L" "map ti_retrans (lose_below k L) = map ti_retrans L"
  by (induction L) auto

lemma lose_below_size: "item_size (t\<lparr>ti_lost := True\<rparr>) = item_size t"
  by (rule item_size_cong) simp

lemma lose_below_marked:
  "marked_size ti_sacked (lose_below k L) = marked_size ti_sacked L" "marked_size ti_retrans (lose_below k L) = marked_size ti_retrans L"
  by (induction L) (auto simp: lose_below_size)

lemma lose_below_disjoint: "\<forall>t\<in>set L. \<not> (ti_sacked t \<and> ti_lost t) \<Longrightarrow> \<forall>t\<in>set (lose_below k L). \<not> (ti_sacked t \<and> ti_lost t)"
  by (induction L) auto

lemma lose_below_highest: "highest_ok h (lose_below k L @ vs) \<longleftrightarrow> highest_ok h (L @ vs)"
proof -
  have "(\<exists>t\<in>set (lose_below k L). ti_node t = n \<and> ti_sacked t \<and> ti_startSeq t = s) \<longleftrightarrow> (\<exists>t\<in>set L. ti_node t = n \<and> ti_sacked t \<and> ti_startSeq t = s)" for n s
    by (induction L) auto
  then show ?thesis by (auto simp: highest_ok_def bex_Un split: option.splits)
qed

lemma lost_loop_append: "lost_loop k (us @ vs) n l =
  (let (us', n', l') = lost_loop k us n l; (vs', n'', l'') = lost_loop k vs n' l' in (us' @ vs', n'', l''))"
  by (induction us arbitrary: n l) (auto simp: Let_def split: prod.split)

lemma lost_loop_eq:
  assumes "length L < 2 ^ 32"
  shows "lost_loop thresh (rev L) 0 l = (rev (lose_below (unat thresh) L), of_nat (length (filter ti_sacked L)),
    l + (marked_size ti_lost (lose_below (unat thresh) L) - marked_size ti_lost L))"
  using assms
proof (induction L)
  case (Cons t ts)
  have c: "thresh \<le> of_nat (length (filter ti_sacked ts)) \<longleftrightarrow> unat thresh \<le> length (filter ti_sacked ts)"
    unfolding word_le_nat_alt using Cons.prems by (subst unat_of_nat_u32) (auto intro: le_less_trans [OF length_filter_le])
  show ?case using Cons.prems
    by (simp add: lost_loop_append Cons.IH Let_def c lose_below_size ac_simps algebra_simps)
qed simp

lemma split_node_eq:
  assumes "distinct (map ti_node (us @ h # vs))"
  shows "split_node (ti_node h) (us @ h # vs) = Some (us @ [h], vs)"
  using assms by (induction us) auto

lemma UpdateLostCount_eq:
  assumes "sizes_ok iss x b" and "counts_ok b" and "unsacked_head b"
    and S: "tx_sentList b = us @ h # vs" and h: "ti_sacked h" "fst (tx_highestSack b) = Some (ti_node h)"
  shows "UpdateLostCount b = Some (b\<lparr>tx_sentList := lose_below (unat (tx_dupAckThresh b)) (us @ [h]) @ vs,
    tx_lostOut := marked_size ti_lost (lose_below (unat (tx_dupAckThresh b)) (us @ [h]) @ vs)\<rparr>)"
proof -
  let ?k = "unat (tx_dupAckThresh b)"
  have "us \<noteq> []" using assms(3) S h(1) by (auto simp: unsacked_head_def)
  then obtain g ws where us: "us = g # ws" by (cases us) auto
  have g: "\<not> ti_sacked g" using assms(3) S us by (simp add: unsacked_head_def)
  have "distinct (map ti_node (us @ h # vs))" using assms(2) S by (simp add: counts_ok_def)
  from split_node_eq [OF this] have sp: "split_node (ti_node h) (tx_sentList b) = Some (us @ [h], vs)" by (simp add: S)
  have len: "length (ws @ [h]) < 2 ^ 32"
  proof -
    have "length L \<le> length (item_bytes L)" if "full_items L" for L using that
    proof (induction L)
      case (Cons t ts)
      then have "0 < length (ti_packet t)" by simp
      then show ?case using Cons by (simp del: length_greater_0_conv)
    qed simp
    from this [OF sizes_okD(2) [OF assms(1)]] show ?thesis using sizes_okD(5) [OF assms(1)] S us by simp
  qed
  let ?n = "length (filter ti_sacked (ws @ [h]))"
  have c: "tx_dupAckThresh b \<le> of_nat ?n \<longleftrightarrow> ?k \<le> ?n"
    unfolding word_le_nat_alt using len length_filter_le [of ti_sacked "ws @ [h]"] by (subst unat_of_nat_u32) auto
  note L = lost_loop_eq [OF len, of "tx_dupAckThresh b" "tx_lostOut b"]
  have lo: "tx_lostOut b = (if ti_lost g then item_size g else 0) + (marked_size ti_lost (ws @ [h]) + marked_size ti_lost vs)"
    using assms(2) S us by (auto simp: counts_ok_def ConsistencyCheck_def add.assoc)
  define W where "W = lose_below ?k (ws @ [h])"
  have e: "lose_below ?k (us @ [h]) = (if ?k \<le> ?n then g\<lparr>ti_lost := True\<rparr> else g) # W" using g us by (simp add: W_def)
  have rt: "rev (tl (us @ [h])) = rev (ws @ [h])" "take 1 (us @ [h]) = [g]" using us by simp_all
  show ?thesis
    unfolding UpdateLostCount_def h(2) option.case sp bind.bind_lunit prod.case rt L Let_def e W_def [symmetric] rev_rev_ident
    using lo c
    by (cases "?k \<le> ?n"; cases "ti_lost g") (simp_all add: lose_below_size)
qed

lemma UpdateLostCount_step:
  assumes "sizes_ok iss x b" and "counts_ok b" and "unsacked_head b" and "highest_ok (tx_highestSack b) (tx_sentList b)"
    and "fst (tx_highestSack b) \<noteq> None"
  shows "\<exists>b'. UpdateLostCount b = Some b' \<and> marks_step iss x b b'"
proof -
  obtain h where h: "h \<in> set (tx_sentList b)" "ti_sacked h" "fst (tx_highestSack b) = Some (ti_node h)"
    using assms(4,5) by (auto simp: highest_ok_def split: option.splits)
  then obtain us vs where S: "tx_sentList b = us @ h # vs" by (meson split_list)
  let ?L = "lose_below (unat (tx_dupAckThresh b)) (us @ [h])"
  define b' where "b' = b\<lparr>tx_sentList := ?L @ vs, tx_lostOut := marked_size ti_lost (?L @ vs)\<rparr>"
  have S': "tx_sentList b = (us @ [h]) @ vs" by (simp add: S)
  have "marks_step iss x b b'"
  proof (rule marks_stepI [OF assms(1,2)])
    show "same_items (tx_sentList b) (tx_sentList b')" unfolding S' by (simp add: b'_def same_items_append [OF lose_below_same same_items_refl] del: append_assoc)
    show "ConsistencyCheck b'" using assms(2) unfolding counts_ok_def ConsistencyCheck_def S'
      by (simp add: b'_def lose_below_marked del: append_assoc lose_below.simps)
    show "\<forall>t\<in>set (tx_sentList b'). \<not> (ti_sacked t \<and> ti_lost t)"
      using assms(2) lose_below_disjoint [of "us @ [h]"] unfolding counts_ok_def S' by (auto simp: b'_def)
    show "unsacked_head b'"
    proof (cases us)
      case Nil
      then show ?thesis using assms(3) S h(2) by (simp add: unsacked_head_def)
    next
      case (Cons g ws)
      then show ?thesis using assms(3) S by (simp add: unsacked_head_def b'_def)
    qed
    have "highest_ok (tx_highestSack b') (tx_sentList b')" using assms(4) S' by (simp add: b'_def lose_below_highest del: append_assoc)
    then show "highest_ok (tx_highestSack b') (tx_sentList b') \<or>
      tx_highestSack b' = tx_highestSack b \<and> (\<forall>h. highest_ok h (tx_sentList b) \<longrightarrow> highest_ok h (tx_sentList b'))" by blast
  qed (simp_all add: b'_def)
  then show ?thesis using UpdateLostCount_eq [OF assms(1-3) S h(2,3)] by (auto simp: b'_def)
qed

section \<open>Marking acknowledged items\<close>

text \<open>Items that lie in the positions from \<open>p\<close> to \<open>q\<close>.\<close>

fun sack_items :: "nat \<Rightarrow> nat \<Rightarrow> nat \<Rightarrow> TcpTxItem list \<Rightarrow> TcpTxItem list" where
  "sack_items p q y [] = []"
| "sack_items p q y (t # ts) =
     (if p \<le> y \<and> y + length (ti_packet t) \<le> q \<and> \<not> ti_sacked t then t\<lparr>ti_lost := False, ti_sacked := True\<rparr> else t) #
     sack_items p q (y + length (ti_packet t)) ts"

lemma sack_items_same: "same_items L (sack_items p q y L)"
  by (induction L arbitrary: y) auto

lemma sack_items_beyond: "full_items L \<Longrightarrow> q < y + length (ti_packet t) \<Longrightarrow> sack_items p q y (t # L) = t # L"
proof (induction L arbitrary: y t)
  case (Cons u us)
  have "sack_items p q (y + length (ti_packet t)) (u # us) = u # us" by (rule Cons.IH) (use Cons.prems in auto)
  then show ?case using Cons.prems(2) by simp
qed simp

lemma sack_items_disjoint: "\<forall>t\<in>set L. \<not> (ti_sacked t \<and> ti_lost t) \<Longrightarrow> \<forall>t\<in>set (sack_items p q y L). \<not> (ti_sacked t \<and> ti_lost t)"
  by (induction L arbitrary: y) auto

lemma sack_items_highest: "highest_ok h L \<Longrightarrow> highest_ok h (sack_items p q y L)"
proof -
  have "(\<exists>t\<in>set L. ti_node t = n \<and> ti_sacked t \<and> ti_startSeq t = s) \<longrightarrow> (\<exists>t\<in>set (sack_items p q y L). ti_node t = n \<and> ti_sacked t \<and> ti_startSeq t = s)"
    for n s by (induction L arbitrary: y) auto
  then show "highest_ok h L \<Longrightarrow> highest_ok h (sack_items p q y L)" by (auto simp: highest_ok_def split: option.splits)
qed

lemma sack_items_retrans: "marked_size ti_retrans (sack_items p q y L) = marked_size ti_retrans L"
proof -
  have "item_size (t\<lparr>ti_lost := False, ti_sacked := True\<rparr>) = item_size t" for t by (rule item_size_cong) simp
  then show ?thesis by (induction L arbitrary: y) auto
qed

lemma sack_items_head: "x < p \<or> q \<le> x \<Longrightarrow> full_items L \<Longrightarrow> L \<noteq> [] \<Longrightarrow> hd (sack_items p q x L) = hd L"
proof (cases L)
  case (Cons t ts)
  assume "x < p \<or> q \<le> x" "full_items L"
  then have "\<not> (p \<le> x \<and> x + length (ti_packet t) \<le> q)" using Cons by (cases "ti_packet t") auto
  then show ?thesis using Cons by auto
qed simp

text \<open>Blocks that a receiver of the stream sends: not of the first byte it lacks, and not behind what was sent.\<close>

definition block_ok :: "u32 \<Rightarrow> nat \<Rightarrow> nat \<Rightarrow> u32 \<times> u32 \<Rightarrow> nat \<times> nat \<Rightarrow> bool" where
  "block_ok iss x e = (\<lambda>block (p, q). block = (seq_of iss p, seq_of iss q) \<and> p < q \<and> x < p + 2 ^ 30 \<and> q < x + 2 ^ 30 \<and> p \<le> e \<and> (x < p \<or> q \<le> x))"

text \<open>The counts that go with marks.\<close>

definition counts_follow :: "TcpTxItem list \<Rightarrow> sack_counts \<Rightarrow> TcpTxItem list \<Rightarrow> sack_counts \<Rightarrow> bool" where
  "counts_follow L c L' c' \<longleftrightarrow>
     sc_lostOut c' + marked_size ti_lost L = sc_lostOut c + marked_size ti_lost L' \<and>
     sc_sackedOut c' + marked_size ti_sacked L = sc_sackedOut c + marked_size ti_sacked L' \<and>
     sc_bytesSacked c' + marked_size ti_sacked L = sc_bytesSacked c + marked_size ti_sacked L' \<and>
     (sc_highest c' = sc_highest c \<or> fst (sc_highest c') \<noteq> None \<and> highest_ok (sc_highest c') L') \<and>
     (fst (sc_highest c') = None \<longrightarrow> sc_bytesSacked c' = sc_bytesSacked c)"

lemma counts_follow_refl: "counts_follow L c L c"
  by (simp add: counts_follow_def)

lemma counts_follow_Cons: "counts_follow L c L' c' \<Longrightarrow> counts_follow (t # L) c (t # L') c'"
  using highest_Cons by (simp add: counts_follow_def) (metis add.assoc add.commute)

lemma update_block_eq:
  assumes "placed iss y L" and "full_items L" and "\<forall>t\<in>set L. \<not> (ti_sacked t \<and> ti_lost t)"
    and "y + length (item_bytes L) < w + 2 ^ 30" and "w \<le> y" and "w < p + 2 ^ 30" and "p < w + 2 ^ 30" and "w < q + 2 ^ 30" and "q < w + 2 ^ 30"
  shows "\<exists>c'. update_block (seq_of iss p, seq_of iss q) (seq_of iss y) L c = Some (sack_items p q y L, c') \<and> counts_follow L c (sack_items p q y L) c'"
  using assms
proof (induction L arbitrary: y c)
  case Nil
  then show ?case by (simp add: counts_follow_refl)
next
  case (Cons t ts)
  define l where "l = length (ti_packet t)"
  have e: "seq_of iss y + item_size t = seq_of iss (y + l)" by (simp add: item_size_def pkt_size_def seq_of_add l_def)
  have b: "y + l < w + 2 ^ 30" using Cons.prems(4) by (simp add: l_def)
  have cmp: "seq_ge (seq_of iss y) (seq_of iss p) \<longleftrightarrow> p \<le> y" "seq_le (seq_of iss (y + l)) (seq_of iss q) \<longleftrightarrow> y + l \<le> q"
    "seq_gt (seq_of iss (y + l)) (seq_of iss q) \<longleftrightarrow> q < y + l"
    using Cons.prems(5-9) b by (simp_all add: seq_compare)
  have IH: "\<exists>c'. update_block (seq_of iss p, seq_of iss q) (seq_of iss (y + l)) ts c = Some (sack_items p q (y + l) ts, c') \<and>
    counts_follow ts c (sack_items p q (y + l) ts) c'" for c
    by (rule Cons.IH) (use Cons.prems in \<open>auto simp: l_def\<close>)
  have st: "ti_startSeq t = seq_of iss y" using Cons.prems(1) by simp
  note U = update_block.simps(2) [of "(seq_of iss p, seq_of iss q)" "seq_of iss y" t ts c, unfolded Let_def fst_conv snd_conv e cmp]
  consider (mark) "p \<le> y" "y + l \<le> q" "\<not> ti_sacked t" | (marked) "p \<le> y" "y + l \<le> q" "ti_sacked t"
    | (beyond) "q < y + l" | (before) "y < p" "y + l \<le> q" by linarith
  then show ?case
  proof cases
    case mark
    let ?t = "t\<lparr>ti_lost := False, ti_sacked := True\<rparr>"
    have z: "item_size ?t = item_size t" by (rule item_size_cong) simp
    define c1 where "c1 = c\<lparr>sc_lostOut := (if ti_lost t then sc_lostOut c - item_size t else sc_lostOut c),
      sc_sackedOut := sc_sackedOut c + item_size t, sc_bytesSacked := sc_bytesSacked c + item_size t,
      sc_highest := (if fst (sc_highest c) = None \<or> seq_le (snd (sc_highest c)) (seq_of iss (y + l)) then (Some (ti_node t), seq_of iss y) else sc_highest c),
      sc_newly := sc_newly c @ [?t]\<rparr>"
    from IH [of c1] obtain c' where R: "update_block (seq_of iss p, seq_of iss q) (seq_of iss (y + l)) ts c1 = Some (sack_items p q (y + l) ts, c')"
      "counts_follow ts c1 (sack_items p q (y + l) ts) c'" by blast
    have s: "sack_items p q y (t # ts) = ?t # sack_items p q (y + l) ts" using mark by (simp add: l_def)
    have "update_block (seq_of iss p, seq_of iss q) (seq_of iss y) (t # ts) c = Some (sack_items p q y (t # ts), c')"
      unfolding U s using mark R(1) by (simp add: c1_def)
    moreover have "counts_follow (t # ts) c (sack_items p q y (t # ts)) c'"
    proof -
      have h: "highest_ok (Some (ti_node t), seq_of iss y) (?t # sack_items p q (y + l) ts)" by (simp add: highest_ok_def st)
      have r: "sc_lostOut c' + marked_size ti_lost ts = sc_lostOut c1 + marked_size ti_lost (sack_items p q (y + l) ts)"
        "sc_sackedOut c' + marked_size ti_sacked ts = sc_sackedOut c1 + marked_size ti_sacked (sack_items p q (y + l) ts)"
        "sc_bytesSacked c' + marked_size ti_sacked ts = sc_bytesSacked c1 + marked_size ti_sacked (sack_items p q (y + l) ts)"
        "sc_highest c' = sc_highest c1 \<or> fst (sc_highest c') \<noteq> None \<and> highest_ok (sc_highest c') (sack_items p q (y + l) ts)"
        using R(2) by (simp_all add: counts_follow_def)
      have "sc_lostOut c' + ((if ti_lost t then item_size t else 0) + marked_size ti_lost ts) = sc_lostOut c + marked_size ti_lost (sack_items p q (y + l) ts)"
        using r(1) by (simp add: c1_def algebra_simps)
      moreover have "sc_sackedOut c' + marked_size ti_sacked ts = sc_sackedOut c + (item_size t + marked_size ti_sacked (sack_items p q (y + l) ts))"
        "sc_bytesSacked c' + marked_size ti_sacked ts = sc_bytesSacked c + (item_size t + marked_size ti_sacked (sack_items p q (y + l) ts))"
        using r(2,3) by (simp_all add: c1_def add.assoc)
      moreover have "sc_highest c' = sc_highest c \<or> fst (sc_highest c') \<noteq> None \<and> highest_ok (sc_highest c') (?t # sack_items p q (y + l) ts)"
        and "fst (sc_highest c') \<noteq> None"
        using r(4) h highest_Cons [of "sc_highest c'" "sack_items p q (y + l) ts" ?t] by (auto simp: c1_def)
      ultimately show ?thesis unfolding counts_follow_def s using mark(3) by (auto simp: z)
    qed
    ultimately show ?thesis by blast
  next
    case marked
    have "\<not> ti_lost t" using Cons.prems(3) marked by simp
    moreover obtain c' where "update_block (seq_of iss p, seq_of iss q) (seq_of iss (y + l)) ts c = Some (sack_items p q (y + l) ts, c')"
      "counts_follow ts c (sack_items p q (y + l) ts) c'" using IH by blast
    ultimately show ?thesis unfolding U using marked counts_follow_Cons by (auto simp: l_def)
  next
    case beyond
    then have "sack_items p q y (t # ts) = t # ts" using Cons.prems(2) by (intro sack_items_beyond) (auto simp: l_def)
    then show ?thesis unfolding U using beyond counts_follow_refl by auto
  next
    case before
    obtain c' where "update_block (seq_of iss p, seq_of iss q) (seq_of iss (y + l)) ts c = Some (sack_items p q (y + l) ts, c')"
      "counts_follow ts c (sack_items p q (y + l) ts) c'" using IH by blast
    then show ?thesis unfolding U using before counts_follow_Cons by (auto simp: l_def)
  qed
qed

section \<open>\<^verbatim>\<open>Update\<close>\<close>

fun sack_all :: "(nat \<times> nat) list \<Rightarrow> nat \<Rightarrow> TcpTxItem list \<Rightarrow> TcpTxItem list" where
  "sack_all [] x L = L"
| "sack_all ((p, q) # blocks) x L = sack_all blocks x (sack_items p q x L)"

lemma counts_follow_trans:
  assumes "counts_follow L c L1 c1" and "counts_follow L1 c1 L2 c2" and "\<And>h. highest_ok h L1 \<Longrightarrow> highest_ok h L2"
  shows "counts_follow L c L2 c2"
proof -
  have add: "d + u = a + w" if "b + u = a + v" "d + v = b + w" for a b d u v w :: u32
  proof -
    have "b = a + v - u" "d = b + w - v" using that by (simp_all only: eq_diff_eq)
    then show ?thesis by simp
  qed
  have "sc_highest c2 = sc_highest c \<or> fst (sc_highest c2) \<noteq> None \<and> highest_ok (sc_highest c2) L2"
    using assms unfolding counts_follow_def by metis
  moreover have "fst (sc_highest c2) = None \<longrightarrow> sc_bytesSacked c2 = sc_bytesSacked c"
    using assms(1,2) unfolding counts_follow_def by metis
  ultimately show ?thesis using assms(1,2) add unfolding counts_follow_def by blast
qed

lemma update_blocks_eq:
  assumes "list_all2 (block_ok iss x e) blocks ranges" and "placed iss x L" and "full_items L" and "\<forall>t\<in>set L. \<not> (ti_sacked t \<and> ti_lost t)"
    and "length (item_bytes L) < 2 ^ 30" and "sentSize = of_nat (e - x)" and "x \<le> e" and "e < x + 2 ^ 30"
  shows "\<exists>c'. update_blocks (seq_of iss x) sentSize blocks L c = Some (False, sack_all ranges x L, c') \<and> counts_follow L c (sack_all ranges x L) c' \<and>
    same_items L (sack_all ranges x L) \<and> (\<forall>t\<in>set (sack_all ranges x L). \<not> (ti_sacked t \<and> ti_lost t)) \<and>
    (\<forall>h. highest_ok h L \<longrightarrow> highest_ok h (sack_all ranges x L)) \<and> marked_size ti_retrans (sack_all ranges x L) = marked_size ti_retrans L \<and>
    (L \<noteq> [] \<longrightarrow> hd (sack_all ranges x L) = hd L)"
  using assms(1-5)
proof (induction arbitrary: L c rule: list_all2_induct)
  case Nil
  then show ?case by (simp add: counts_follow_refl)
next
  case (Cons block blocks range ranges)
  obtain p q where r: "range = (p, q)" by (cases range)
  have b: "block = (seq_of iss p, seq_of iss q)" "p < q" "x < p + 2 ^ 30" "q < x + 2 ^ 30" "p \<le> e" "x < p \<or> q \<le> x"
    using Cons.hyps(1) r by (simp_all add: block_ok_def)
  have E: "seq_of iss x + sentSize = seq_of iss e" unfolding assms(6) seq_of_add using assms(7) by simp
  have n: "\<not> seq_lt (seq_of iss x + sentSize) (fst block)" unfolding E b(1) fst_conv using b assms(7,8) by (simp add: seq_compare)
  let ?L = "sack_items p q x L"
  note same = sack_items_same [of L p q x]
  note K = same_items_kept [OF same]
  obtain c1 where U: "update_block block (seq_of iss x) L c = Some (?L, c1)" "counts_follow L c ?L c1"
    using update_block_eq [of iss x L x p q c] Cons.prems b unfolding b(1) by auto
  have "\<forall>t\<in>set ?L. \<not> (ti_sacked t \<and> ti_lost t)" by (rule sack_items_disjoint [OF Cons.prems(3)])
  from Cons.IH [OF _ _ this, of c1] Cons.prems(1,2,4) obtain c' where
    V: "update_blocks (seq_of iss x) sentSize blocks ?L c1 = Some (False, sack_all ranges x ?L, c')" "counts_follow ?L c1 (sack_all ranges x ?L) c'"
      "same_items ?L (sack_all ranges x ?L)" "\<forall>t\<in>set (sack_all ranges x ?L). \<not> (ti_sacked t \<and> ti_lost t)"
      "\<And>h. highest_ok h ?L \<Longrightarrow> highest_ok h (sack_all ranges x ?L)" "marked_size ti_retrans (sack_all ranges x ?L) = marked_size ti_retrans ?L"
      "?L \<noteq> [] \<longrightarrow> hd (sack_all ranges x ?L) = hd ?L"
    unfolding K by blast
  have "update_blocks (seq_of iss x) sentSize (block # blocks) L c = Some (False, sack_all ranges x ?L, c')" using n U(1) V(1) by simp
  moreover have "counts_follow L c (sack_all ranges x ?L) c'" by (rule counts_follow_trans [OF U(2) V(2,5)])
  moreover have "same_items L (sack_all ranges x ?L)" by (rule same_items_trans [OF same V(3)])
  moreover have "L \<noteq> [] \<longrightarrow> hd (sack_all ranges x ?L) = hd L" using V(7) K(5) sack_items_head [OF b(6) Cons.prems(2)] by simp
  ultimately show ?case using V(4,5,6) sack_items_highest sack_items_retrans by (simp add: r)
qed

lemma Update_ok:
  assumes ok: "tx_ok iss x b" and ne: "tx_sentList b \<noteq> []" and bl: "list_all2 (block_ok iss x (sent_end x b)) blocks ranges"
  shows "\<exists>n newly b1 b'. Update blocks b = Some (n, newly, b') \<and> marks_step iss x b b1 \<and> marks_step iss x b b' \<and>
    tx_sentList b1 = sack_all ranges x (tx_sentList b) \<and> tx_sackedOut b1 = tx_sackedOut b + n \<and>
    (if n = 0 then b' = b1 else UpdateLostCount b1 = Some b')"
proof -
  let ?S = "tx_sentList b"
  have s: "sizes_ok iss x b" and bo: "board_ok b" using ok by (simp_all add: tx_ok_def)
  have co: "counts_ok b" and uh: "unsacked_head b" using bo by (simp_all add: board_ok_def unsacked_head_def)
  note sD = sizes_okD [OF s]
  define c where "c = \<lparr>sc_lostOut = tx_lostOut b, sc_sackedOut = tx_sackedOut b, sc_bytesSacked = 0, sc_highest = tx_highestSack b, sc_newly = []\<rparr>"
  define L where "L = sack_all ranges x ?S"
  have "\<forall>t\<in>set ?S. \<not> (ti_sacked t \<and> ti_lost t)" using co by (simp add: counts_ok_def)
  moreover have "tx_sentSize b = of_nat (sent_end x b - x)" "x \<le> sent_end x b" "sent_end x b < x + 2 ^ 30" using sD(5,6) by (simp_all add: sent_end_def)
  ultimately obtain c' where U: "update_blocks (tx_firstByteSeq b) (tx_sentSize b) blocks ?S c = Some (False, L, c')" and F: "counts_follow ?S c L c'"
    and same: "same_items ?S L" and dis: "\<forall>t\<in>set L. \<not> (ti_sacked t \<and> ti_lost t)" and hi: "\<And>h. highest_ok h ?S \<Longrightarrow> highest_ok h L"
    and re: "marked_size ti_retrans L = marked_size ti_retrans ?S" and hd: "hd L = hd ?S"
    using update_blocks_eq [OF bl sD(4,2), of "tx_sentSize b" c] sD(5) ne unfolding L_def sD(1) by auto
  define b1 where "b1 = b\<lparr>tx_sentList := L, tx_lostOut := sc_lostOut c', tx_sackedOut := sc_sackedOut c', tx_highestSack := sc_highest c'\<rparr>"
  have nL: "L \<noteq> []" using same_items_kept(5) [OF same] ne by simp
  have old: "highest_ok (tx_highestSack b) L" using bo by (intro hi) (simp add: board_ok_def)
  have new: "highest_ok (sc_highest c') L" using F old by (auto simp: counts_follow_def c_def)
  have eqs: "sc_lostOut c' = marked_size ti_lost L" "sc_sackedOut c' = marked_size ti_sacked L" "tx_sackedOut b + sc_bytesSacked c' = sc_sackedOut c'"
  proof -
    have b: "tx_lostOut b = marked_size ti_lost ?S" "tx_sackedOut b = marked_size ti_sacked ?S" using co by (simp_all add: counts_ok_def ConsistencyCheck_def)
    have "sc_lostOut c' + marked_size ti_lost ?S = marked_size ti_lost ?S + marked_size ti_lost L"
      "sc_sackedOut c' + marked_size ti_sacked ?S = marked_size ti_sacked ?S + marked_size ti_sacked L"
      "sc_bytesSacked c' + marked_size ti_sacked ?S = marked_size ti_sacked L"
      using F b by (simp_all add: counts_follow_def c_def)
    then show "sc_lostOut c' = marked_size ti_lost L" "sc_sackedOut c' = marked_size ti_sacked L" "tx_sackedOut b + sc_bytesSacked c' = sc_sackedOut c'"
      using b by (simp_all add: add.commute)
  qed
  have step: "marks_step iss x b b1"
  proof (rule marks_stepI [OF s co])
    show "ConsistencyCheck b1" using co eqs re by (simp add: counts_ok_def ConsistencyCheck_def b1_def)
    show "unsacked_head b1" using uh ne hd by (simp add: unsacked_head_def b1_def)
    show "highest_ok (tx_highestSack b1) (tx_sentList b1) \<or>
      tx_highestSack b1 = tx_highestSack b \<and> (\<forall>h. highest_ok h (tx_sentList b) \<longrightarrow> highest_ok h (tx_sentList b1))" using new by (simp add: b1_def)
  qed (simp_all add: b1_def same dis)
  define n where "n = sc_bytesSacked c'"
  have n: "tx_sackedOut b1 = tx_sackedOut b + n" using eqs(3) by (simp add: b1_def n_def)
  have s1: "sizes_ok iss x b1" "counts_ok b1" "unsacked_head b1" using step by (simp_all add: marks_step_def)
  have fin: "tx_sentList b' \<noteq> [] \<and> \<not> ti_sacked (hd (tx_sentList b')) \<and> tx_sackedOut b' + tx_lostOut b' \<le> tx_sentSize b'"
    if m: "marks_step iss x b b'" for b'
  proof -
    have s': "sizes_ok iss x b'" "counts_ok b'" "unsacked_head b'" "same_items ?S (tx_sentList b')" using m by (simp_all add: marks_step_def)
    then show ?thesis using counts_le [OF s'(1,2)] same_items_kept(5) [OF s'(4)] ne by (simp add: unsacked_head_def)
  qed
  show ?thesis
  proof (cases "n = 0")
    case True
    then have "Update blocks b = Some (0, sc_newly c', b1)" using U fin [OF step] by (simp add: Update_def c_def b1_def n_def Let_def)
    then show ?thesis using step n True by (intro exI [of _ 0] exI [of _ "sc_newly c'"] exI [of _ b1]) (simp add: b1_def L_def)
  next
    case False
    have "fst (tx_highestSack b1) \<noteq> None"
    proof
      assume N: "fst (tx_highestSack b1) = None"
      have "sc_bytesSacked c' = 0" using F N by (simp add: counts_follow_def b1_def c_def)
      then show False using False by (simp add: n_def)
    qed
    from UpdateLostCount_step [OF s1 _ this] new obtain b' where V: "UpdateLostCount b1 = Some b'" "marks_step iss x b1 b'" by (auto simp: b1_def)
    have m: "marks_step iss x b b'" by (rule marks_step_trans [OF step V(2)])
    have "Update blocks b = Some (n, sc_newly c', b')" using U V(1) fin [OF m] False \<open>fst (tx_highestSack b1) \<noteq> None\<close>
      by (simp add: Update_def c_def [symmetric] b1_def [symmetric] n_def Let_def word_gt_0)
    then show ?thesis using step n False V m by (intro exI [of _ n] exI [of _ "sc_newly c'"] exI [of _ b1] exI [of _ b']) (simp add: b1_def L_def)
  qed
qed

lemma Update_exact:
  assumes ok: "tx_ok iss x b" and ne: "tx_sentList b \<noteq> []" and bl: "list_all2 (block_ok iss x (sent_end x b)) blocks ranges"
  shows "\<exists>n newly b'. Update blocks b = Some (n, newly, b') \<and> marks_step iss x b b' \<and> tx_sackedOut b' = tx_sackedOut b + n \<and>
    (if n = 0 then tx_sentList b' = sack_all ranges x (tx_sentList b)
     else \<exists>us h vs. sack_all ranges x (tx_sentList b) = us @ h # vs \<and> ti_sacked h \<and> fst (tx_highestSack b') = Some (ti_node h) \<and>
       tx_sentList b' = lose_below (unat (tx_dupAckThresh b)) (us @ [h]) @ vs)"
proof -
  from Update_ok [OF ok ne bl] obtain n newly b1 b' where
    U: "Update blocks b = Some (n, newly, b')" "marks_step iss x b b1" "marks_step iss x b b'" "tx_sentList b1 = sack_all ranges x (tx_sentList b)"
      "tx_sackedOut b1 = tx_sackedOut b + n" "if n = 0 then b' = b1 else UpdateLostCount b1 = Some b'" by blast
  show ?thesis
  proof (cases "n = 0")
    case True
    then show ?thesis using U by auto
  next
    case False
    have s1: "sizes_ok iss x b1" "counts_ok b1" "unsacked_head b1" "tx_dupAckThresh b1 = tx_dupAckThresh b" using U(2) by (simp_all add: marks_step_def)
    have "tx_ok iss x b1" using marks_step_ok [OF ok U(2)] by simp
    then have hi: "highest_ok (tx_highestSack b1) (tx_sentList b1)" by (simp add: tx_ok_def board_ok_def)
    have "fst (tx_highestSack b1) \<noteq> None"
    proof
      assume "fst (tx_highestSack b1) = None"
      moreover have "same_items (tx_sentList b) (tx_sentList b1)" using U(2) by (simp add: marks_step_def)
      then have "tx_sentList b1 \<noteq> []" using ne same_items_kept(5) by blast
      ultimately show False using U(6) False by (simp add: UpdateLostCount_def)
    qed
    then obtain h where h: "h \<in> set (tx_sentList b1)" "ti_sacked h" "fst (tx_highestSack b1) = Some (ti_node h)"
      using hi by (auto simp: highest_ok_def split: option.splits)
    then obtain us vs where S: "tx_sentList b1 = us @ h # vs" by (meson split_list)
    note E = UpdateLostCount_eq [OF s1(1-3) S h(2,3), unfolded s1(4)]
    have "tx_sentList b' = lose_below (unat (tx_dupAckThresh b)) (us @ [h]) @ vs" "tx_highestSack b' = tx_highestSack b1"
      and "tx_sackedOut b' = tx_sackedOut b1"
      using U(6) False E by auto
    then have "\<exists>us h vs. sack_all ranges x (tx_sentList b) = us @ h # vs \<and> ti_sacked h \<and> fst (tx_highestSack b') = Some (ti_node h) \<and>
       tx_sentList b' = lose_below (unat (tx_dupAckThresh b)) (us @ [h]) @ vs" using U(4) S h(2,3) by metis
    then show ?thesis using U(1,3,5) False \<open>tx_sackedOut b' = tx_sackedOut b1\<close> by (intro exI [of _ n] exI [of _ newly] exI [of _ b']) simp
  qed
qed

lemma lose_below_append_sacked: "map ti_sacked (lose_below k us @ vs) = map ti_sacked (us @ vs)"
  by (simp add: lose_below_sacked)

lemma Update_marks:
  assumes "tx_ok iss x b" and "tx_sentList b \<noteq> []" and "list_all2 (block_ok iss x (sent_end x b)) blocks ranges" and "Update blocks b = Some (n, newly, b')"
  shows "marks_step iss x b b'" and "map ti_sacked (tx_sentList b') = map ti_sacked (sack_all ranges x (tx_sentList b))"
proof -
  from Update_exact [OF assms(1-3)] assms(4) have m: "marks_step iss x b b'" and
    "if n = 0 then tx_sentList b' = sack_all ranges x (tx_sentList b)
     else \<exists>us h vs. sack_all ranges x (tx_sentList b) = us @ h # vs \<and> ti_sacked h \<and> fst (tx_highestSack b') = Some (ti_node h) \<and>
       tx_sentList b' = lose_below (unat (tx_dupAckThresh b)) (us @ [h]) @ vs" by auto
  then show "marks_step iss x b b'" and "map ti_sacked (tx_sentList b') = map ti_sacked (sack_all ranges x (tx_sentList b))"
    using lose_below_append_sacked by (auto split: if_splits)
qed

end
