(* ===== verification/Tcp_Tx_Discard.thy ===== *)
theory Tcp_Tx_Discard
  imports Tcp_Tx_Sack
begin

text \<open>\<^verbatim>\<open>DiscardUpTo\<close>: what was acknowledged leaves the buffer, and with it what was counted for it.\<close>

section \<open>The counts of what leaves\<close>

lemma unat_counts:
  assumes "sizes_ok iss x b" and "counts_ok b"
  shows "unat (tx_sackedOut b) = marked ti_sacked (tx_sentList b)" and "unat (tx_lostOut b) = marked ti_lost (tx_sentList b)"
    and "unat (tx_retrans b) = marked ti_retrans (tx_sentList b)"
proof -
  have "marked p (tx_sentList b) < 2 ^ 32" for p using marked_le [of p "tx_sentList b"] sizes_okD(5) [OF assms(1)] by simp
  then have "unat (of_nat (marked p (tx_sentList b)) :: u32) = marked p (tx_sentList b)" for p by (intro unat_of_nat_u32) simp
  moreover have "tx_sackedOut b = of_nat (marked ti_sacked (tx_sentList b))" "tx_lostOut b = of_nat (marked ti_lost (tx_sentList b))"
    "tx_retrans b = of_nat (marked ti_retrans (tx_sentList b))" using assms(2) by (simp_all add: counts_ok_def ConsistencyCheck_def marked_size_eq)
  ultimately show "unat (tx_sackedOut b) = marked ti_sacked (tx_sentList b)" and "unat (tx_lostOut b) = marked ti_lost (tx_sentList b)"
    and "unat (tx_retrans b) = marked ti_retrans (tx_sentList b)" by simp_all
qed

lemma RemoveFromCounts_ok:
  assumes "sizes_ok iss x b" and "counts_ok b" and S: "tx_sentList b = h # rest" and n: "n \<le> length (ti_packet h)"
    and c: "tx_sackedOut c = tx_sackedOut b" "tx_lostOut c = tx_lostOut b" "tx_retrans c = tx_retrans b"
    and t: "ti_sacked t = ti_sacked h" "ti_lost t = ti_lost h" "ti_retrans t = ti_retrans h"
  shows "RemoveFromCounts t (of_nat n) c = Some (c\<lparr>tx_sackedOut := of_nat ((if ti_sacked h then length (ti_packet h) - n else 0) + marked ti_sacked rest),
    tx_retrans := of_nat ((if ti_retrans h then length (ti_packet h) - n else 0) + marked ti_retrans rest),
    tx_lostOut := of_nat ((if ti_lost h then length (ti_packet h) - n else 0) + marked ti_lost rest)\<rparr>)"
proof -
  note U = unat_counts [OF assms(1,2), unfolded S]
  have "n < 2 ^ 32" using n sizes_okD(5) [OF assms(1)] S by simp
  then have un: "unat (of_nat n :: u32) = n" by (simp add: unat_of_nat_u32)
  have ge: "of_nat n \<le> tx_sackedOut b" if "ti_sacked h" using that U(1) n by (simp add: word_le_nat_alt un)
  have gl: "of_nat n \<le> tx_lostOut b" if "ti_lost h" using that U(2) n by (simp add: word_le_nat_alt un)
  have gr: "of_nat n \<le> tx_retrans b" if "ti_retrans h" using that U(3) n by (simp add: word_le_nat_alt un)
  have w: "tx_sackedOut b = of_nat ((if ti_sacked h then length (ti_packet h) else 0) + marked ti_sacked rest)"
    "tx_lostOut b = of_nat ((if ti_lost h then length (ti_packet h) else 0) + marked ti_lost rest)"
    "tx_retrans b = of_nat ((if ti_retrans h then length (ti_packet h) else 0) + marked ti_retrans rest)"
    using assms(2) S by (simp_all add: counts_ok_def ConsistencyCheck_def marked_size_eq)
  have d: "of_nat (length (ti_packet h) + m) - of_nat n = (of_nat (length (ti_packet h) - n + m) :: u32)" for m
    using n by (simp add: of_nat_diff)
  show ?thesis unfolding RemoveFromCounts_def c t using ge gl gr
    by (simp add: w d del: of_nat_add)
qed

section \<open>The loop\<close>

definition discarding :: "u32 \<Rightarrow> nat \<Rightarrow> nat \<Rightarrow> TcpTxBuffer \<Rightarrow> bool" where
  "discarding iss w x b \<longleftrightarrow> sizes_ok iss x b \<and> counts_ok b \<and> w \<le> x \<and>
     (highest_ok (tx_highestSack b) (tx_sentList b) \<or> (\<exists>y. snd (tx_highestSack b) = seq_of iss y \<and> w \<le> y \<and> y < x))"

definition same_settings :: "TcpTxBuffer \<Rightarrow> TcpTxBuffer \<Rightarrow> bool" where
  "same_settings b b' \<longleftrightarrow> tx_maxBuffer b' = tx_maxBuffer b \<and> tx_sackEnabled b' = tx_sackEnabled b \<and> tx_dupAckThresh b' = tx_dupAckThresh b"

lemma same_settings_trans: "same_settings b b1 \<Longrightarrow> same_settings b1 b2 \<Longrightarrow> same_settings b b2"
  by (simp add: same_settings_def)

text \<open>The first item loses \<open>n\<close> bytes, all of them or fewer.\<close>

definition shorten :: "nat \<Rightarrow> TcpTxItem \<Rightarrow> TcpTxItem" where
  "shorten n t = t\<lparr>ti_packet := drop n (ti_packet t), ti_startSeq := ti_startSeq t + of_nat n\<rparr>"

definition remaining :: "nat \<Rightarrow> TcpTxItem \<Rightarrow> TcpTxItem list \<Rightarrow> TcpTxItem list" where
  "remaining n h rest = (if n < length (ti_packet h) then shorten n h # rest else rest)"

lemma discarding_step:
  assumes D: "discarding iss w x b" and S: "tx_sentList b = h # rest" and n: "0 < n" "n \<le> length (ti_packet h)"
    and e: "tx_sentList c = remaining n h rest" "tx_appList c = tx_appList b" "tx_maxBuffer c = tx_maxBuffer b" "tx_sentSize c = tx_sentSize b - of_nat n"
      "tx_size c = tx_size b - of_nat n" "tx_firstByteSeq c = tx_firstByteSeq b + of_nat n" "tx_nodes c = tx_nodes b" "tx_highestSack c = tx_highestSack b"
    and k: "tx_sackedOut c = of_nat ((if ti_sacked h then length (ti_packet h) - n else 0) + marked ti_sacked rest)"
      "tx_retrans c = of_nat ((if ti_retrans h then length (ti_packet h) - n else 0) + marked ti_retrans rest)"
      "tx_lostOut c = of_nat ((if ti_lost h then length (ti_packet h) - n else 0) + marked ti_lost rest)"
  shows "discarding iss w (x + n) c" and "contents_of c = drop n (contents_of b)"
proof -
  have s: "sizes_ok iss x b" and co: "counts_ok b" using D by (simp_all add: discarding_def)
  note sD = sizes_okD [OF s]
  let ?l = "length (ti_packet h)"
  have bs: "item_bytes (remaining n h rest) = drop n (item_bytes (h # rest))" using n by (simp add: remaining_def shorten_def)
  have st: "ti_startSeq h = seq_of iss x" "placed iss (x + ?l) rest" using sD(4) S by simp_all
  show ct: "contents_of c = drop n (contents_of b)" using n by (simp add: contents_of_def e bs S)
  have dl: "of_nat (m + k) - of_nat n = (of_nat (m + k - n) :: u32)" if "n \<le> m" for m k using that by (simp add: of_nat_diff)
  have len: "tx_sentSize c = of_nat (length (item_bytes (tx_sentList c)))" "tx_size c = of_nat (length (contents_of c))"
    unfolding e(1,4,5) bs ct sD(6,7) using n S by (simp_all add: contents_of_def of_nat_diff)
  have pl: "placed iss (x + n) (remaining n h rest)" using st n by (auto simp: remaining_def shorten_def seq_of_add)
  have sz: "sizes_ok iss (x + n) c" unfolding sizes_ok_def len using s S n pl
    by (auto simp: sizes_ok_def e ct seq_of_add remaining_def shorten_def)
  have cc: "ConsistencyCheck c" unfolding ConsistencyCheck_def marked_size_eq k e(1)
    using n by (auto simp: remaining_def shorten_def)
  have co': "counts_ok c" using co cc by (auto simp: counts_ok_def e S remaining_def shorten_def)
  have "highest_ok (tx_highestSack c) (tx_sentList c) \<or> (\<exists>y. snd (tx_highestSack c) = seq_of iss y \<and> w \<le> y \<and> y < x + n)"
  proof (cases "highest_ok (tx_highestSack b) (h # rest)")
    case True
    show ?thesis
    proof (cases "highest_ok (tx_highestSack b) rest")
      case True
      then show ?thesis using highest_Cons by (simp add: e remaining_def)
    next
      case False
      then have "snd (tx_highestSack b) = seq_of iss x" using True st(1) by (auto simp: highest_ok_def split: option.splits)
      then show ?thesis using D n by (auto simp: discarding_def e)
    qed
  next
    case False
    then show ?thesis using D n by (auto simp: discarding_def e S)
  qed
  then show "discarding iss w (x + n) c" using sz co' D by (simp add: discarding_def)
qed

text \<open>What is left of the sent list.\<close>

fun drop_items :: "nat \<Rightarrow> TcpTxItem list \<Rightarrow> TcpTxItem list" where
  "drop_items n [] = []"
| "drop_items n (t # ts) = (if n < length (ti_packet t) then shorten n t # ts else drop_items (n - length (ti_packet t)) ts)"

lemma drop_items_bytes: "item_bytes (drop_items n L) = drop n (item_bytes L)"
  by (induction L arbitrary: n) (auto simp: shorten_def)

lemma discard_loop_stops: "tx_size b = 0 \<or> k = 0 \<Longrightarrow> discard_loop now k deleted b = Some (deleted, b)"
  by (subst discard_loop.simps) auto

lemma discard_loop_item:
  assumes D: "discarding iss w x b" and S: "tx_sentList b = h # rest" and k: "0 < k" "k < 2 ^ 32" and n: "n = min k (length (ti_packet h))"
  shows "\<exists>c. discard_loop now (of_nat k) deleted b =
      (if length (ti_packet h) \<le> k then discard_loop now (of_nat (k - length (ti_packet h))) (deleted @ [h]) c else Some (deleted, c)) \<and>
    discarding iss w (x + n) c \<and> contents_of c = drop n (contents_of b) \<and> same_settings b c \<and> tx_sentList c = remaining n h rest"
proof -
  let ?l = "length (ti_packet h)"
  have s: "sizes_ok iss x b" and co: "counts_ok b" using D by (simp_all add: discarding_def)
  note sD = sizes_okD [OF s]
  have l: "0 < ?l" "?l < 2 ^ 30" using sD(2,5) S by simp_all
  have ul: "unat (of_nat ?l :: u32) = ?l" "unat (of_nat k :: u32) = k" using l k by (simp_all add: unat_of_nat_u32)
  have cmp: "of_nat ?l \<le> (of_nat k :: u32) \<longleftrightarrow> ?l \<le> k" by (simp add: word_le_nat_alt ul)
  have pos: "(of_nat k :: u32) > 0" using k ul(2) by (simp add: word_less_nat_alt)
  have "tx_size b > 0" unfolding sD(7) word_less_nat_alt by (subst unat_of_nat_u32) (use l sD(5) S in simp_all)
  note pos = this pos
  have st: "ti_startSeq h = tx_firstByteSeq b" using sD(1,4) S by simp
  have z: "item_size h = of_nat ?l" by (simp add: item_size_def pkt_size_def)
  note L = discard_loop.simps [of now "of_nat k" deleted b]
  show ?thesis
  proof (cases "?l \<le> k")
    case True
    then have n: "n = ?l" using n by simp
    define c0 where "c0 = b\<lparr>tx_size := tx_size b - of_nat ?l, tx_sentSize := tx_sentSize b - of_nat ?l, tx_firstByteSeq := tx_firstByteSeq b + of_nat ?l\<rparr>"
    define c where "c = c0\<lparr>tx_sackedOut := of_nat (marked ti_sacked rest), tx_retrans := of_nat (marked ti_retrans rest),
      tx_lostOut := of_nat (marked ti_lost rest), tx_sentList := rest\<rparr>"
    from RemoveFromCounts_ok [OF s co S order_refl, of c0 h]
    have R: "RemoveFromCounts h (of_nat ?l) c0 = Some (c0\<lparr>tx_sackedOut := of_nat (marked ti_sacked rest), tx_retrans := of_nat (marked ti_retrans rest),
      tx_lostOut := of_nat (marked ti_lost rest)\<rparr>)" by (simp add: c0_def)
    have "discard_loop now (of_nat k) deleted b = discard_loop now (of_nat (k - ?l)) (deleted @ [h]) c"
      using pos st True cmp R S unfolding L by (simp add: z Let_def c0_def c_def of_nat_diff)
    moreover have "discarding iss w (x + n) c \<and> contents_of c = drop n (contents_of b)"
      by (intro conjI discarding_step [OF D S]; use l in \<open>simp add: n c_def c0_def remaining_def\<close>)
    ultimately show ?thesis using True n by (intro exI [of _ c]) (simp add: c_def c0_def same_settings_def remaining_def)
  next
    case False
    then have n: "n = k" "k < ?l" using n by simp_all
    have "unat (of_nat ?l - of_nat k :: u32) = ?l - k"
      by (subst unat_sub) (use n ul in \<open>simp_all add: word_le_nat_alt\<close>)
    then have t: "h\<lparr>ti_packet := take (unat (of_nat ?l - of_nat k :: u32)) (drop (unat (of_nat k :: u32)) (ti_packet h)), ti_startSeq := tx_firstByteSeq b + of_nat k\<rparr> = shorten k h"
      using ul st by (simp add: shorten_def)
    define c0 where "c0 = b\<lparr>tx_size := tx_size b - of_nat k, tx_sentSize := tx_sentSize b - of_nat k, tx_firstByteSeq := tx_firstByteSeq b + of_nat k,
      tx_sentList := shorten k h # rest\<rparr>"
    define c where "c = c0\<lparr>tx_sackedOut := of_nat ((if ti_sacked h then ?l - k else 0) + marked ti_sacked rest),
      tx_retrans := of_nat ((if ti_retrans h then ?l - k else 0) + marked ti_retrans rest),
      tx_lostOut := of_nat ((if ti_lost h then ?l - k else 0) + marked ti_lost rest)\<rparr>"
    have R: "RemoveFromCounts (shorten k h) (of_nat k) c0 = Some c" unfolding c_def
      by (rule RemoveFromCounts_ok [OF s co S]) (use n in \<open>simp_all add: c0_def shorten_def\<close>)
    have "discard_loop now (of_nat k) deleted b = Some (deleted, c)"
      using pos st False cmp R S unfolding L by (simp add: z Let_def t c0_def)
    moreover have "discarding iss w (x + n) c \<and> contents_of c = drop n (contents_of b)"
      by (intro conjI discarding_step [OF D S]; simp add: n k less_imp_le [OF n(2)] c_def c0_def remaining_def)
    ultimately show ?thesis using False n by (intro exI [of _ c]) (simp add: c_def c0_def same_settings_def remaining_def)
  qed
qed

text \<open>Data that is acknowledged before it was sent is moved to the sent list first.\<close>

lemma discard_loop_unsent:
  assumes D: "discarding iss w x b" and S: "tx_sentList b = []" and k: "0 < k" "k < 2 ^ 32" and n: "n = min k (length (contents_of b))" "0 < n"
  shows "\<exists>c it. discard_loop now (of_nat k) deleted b = discard_loop now (of_nat k) deleted c \<and> discarding iss w x c \<and>
    contents_of c = contents_of b \<and> same_settings b c \<and> tx_sentList c = [it] \<and> length (ti_packet it) = n"
proof -
  have s: "sizes_ok iss x b" and co: "counts_ok b" using D by (simp_all add: discarding_def)
  note sD = sizes_okD [OF s]
  have lc: "length (contents_of b) < 2 ^ 30" using sD(5) by (simp add: contents_of_def)
  have uk: "unat (of_nat k :: u32) = k" using k by (simp add: unat_of_nat_u32)
  have pos: "tx_size b > 0" "(of_nat k :: u32) > 0"
    using n k uk lc s by (auto simp: word_less_nat_alt sizes_ok_def unat_of_nat_u32)
  have cs: "n = copy_size x x (of_nat k) b" using n by (simp add: copy_size_def uk)
  have e: "sent_end x b = x" "tx_firstByteSeq b = seq_of iss x" using S sD(1) by (simp_all add: sent_end_def)
  from new_segment_appended [OF s co, of x n now] obtain item b1 where
    G: "GetNewSegment (of_nat n) b = Some (item, b1)" "\<not> ti_retrans item" "tx_firstByteSeq b1 = tx_firstByteSeq b" "ti_startSeq item = seq_of iss x"
      "tx_sentList b1 = [item]"
    and A: "appended iss x n b (item\<lparr>ti_lastSent := now\<rparr>) (b1\<lparr>tx_sentList := butlast (tx_sentList b1) @ [item\<lparr>ti_lastSent := now\<rparr>]\<rparr>)"
    using S n by auto
  define c where "c = b1\<lparr>tx_sentList := [item\<lparr>ti_lastSent := now\<rparr>]\<rparr>"
  have A: "appended iss x n b (item\<lparr>ti_lastSent := now\<rparr>) c" using A G(5) by (simp add: c_def)
  have ge: "seq_ge (seq_of iss x) (seq_of iss x)" by (simp add: seq_compare)
  have C: "CopyFromSequence now (of_nat k) (tx_firstByteSeq b) b = Some (Some (item\<lparr>ti_lastSent := now\<rparr>), c)"
    unfolding e(2) using CopyFromSequence_eq [OF s order_refl _ cs, of now] n(2) e G ge by (simp add: Let_def c_def)
  have c: "sizes_ok iss x c" "counts_ok c" "contents_of c = contents_of b" "tx_sentList c = [item\<lparr>ti_lastSent := now\<rparr>]"
    "tx_highestSack c = tx_highestSack b" "same_settings b c"
    using A S by (simp_all add: appended_def same_settings_def)
  have len: "length (ti_packet (item\<lparr>ti_lastSent := now\<rparr>)) = n" using A unfolding appended_def by blast
  have "tx_size c > 0" using c(1,3) pos(1) s by (simp add: sizes_ok_def)
  then have "discard_loop now (of_nat k) deleted b = discard_loop now (of_nat k) deleted c"
    using pos C S c(4) by (subst (1 2) discard_loop.simps) simp
  moreover have "highest_ok (tx_highestSack b) [] \<Longrightarrow> highest_ok (tx_highestSack b) L" for L by (auto simp: highest_ok_def split: option.splits)
  then have "discarding iss w x c" using D S c by (auto simp: discarding_def)
  ultimately show ?thesis using c len by blast
qed

lemma discard_loop_ok:
  assumes "discarding iss w x b" and "k < 2 ^ 32"
  shows "\<exists>dl b'. discard_loop now (of_nat k) deleted b = Some (dl, b') \<and> discarding iss w (x + min k (length (contents_of b))) b' \<and>
    contents_of b' = drop k (contents_of b) \<and> same_settings b b' \<and> tx_sentList b' = drop_items k (tx_sentList b)"
  using assms
proof (induction "tx_sentList b" arbitrary: b x k deleted)
  case Nil
  let ?n = "min k (length (contents_of b))"
  have s: "sizes_ok iss x b" using Nil.prems(1) by (simp add: discarding_def)
  show ?case
  proof (cases "?n = 0")
    case True
    then have "tx_size b = 0 \<or> (of_nat k :: u32) = 0" using s by (auto simp: sizes_ok_def min_def split: if_splits)
    from discard_loop_stops [OF this] show ?thesis using True Nil by (auto simp: same_settings_def min_def split: if_splits)
  next
    case False
    then have "0 < k" "0 < ?n" by auto
    from discard_loop_unsent [OF Nil.prems(1) Nil.hyps [symmetric] this(1) Nil.prems(2) refl this(2), of now deleted] obtain c it where
      C: "discard_loop now (of_nat k) deleted b = discard_loop now (of_nat k) deleted c" "discarding iss w x c"
      "contents_of c = contents_of b" "same_settings b c" "tx_sentList c = [it]" "length (ti_packet it) = ?n" by blast
    have m: "min k (length (ti_packet it)) = ?n" using C(6) by simp
    from discard_loop_item [OF C(2,5) \<open>0 < k\<close> Nil.prems(2) m [symmetric], of now deleted] C(6) obtain d where
      E: "discard_loop now (of_nat k) deleted c = discard_loop now (of_nat (k - ?n)) (deleted @ [it]) d" "discarding iss w (x + ?n) d"
        "contents_of d = drop ?n (contents_of b)" "same_settings c d" "tx_sentList d = []" by (auto simp: remaining_def C(3))
    have "tx_size d = 0 \<or> (of_nat (k - ?n) :: u32) = 0" using E(2,3) by (auto simp: discarding_def sizes_ok_def min_def)
    from discard_loop_stops [OF this] have "discard_loop now (of_nat k) deleted b = Some (deleted @ [it], d)" unfolding C(1) E(1) .
    moreover have "contents_of d = drop k (contents_of b)" unfolding E(3) by (auto simp: min_def)
    ultimately show ?thesis using E(2,5) same_settings_trans [OF C(4) E(4)] Nil.hyps [symmetric] by auto
  qed
next
  case (Cons h rest)
  let ?l = "length (ti_packet h)"
  note S = Cons.hyps(2) [symmetric]
  have lc: "?l \<le> length (contents_of b)" by (simp add: contents_of_def S)
  show ?case
  proof (cases "k = 0")
    case True
    have "0 < ?l" using Cons.prems(1) S by (auto simp: discarding_def sizes_ok_def)
    then show ?thesis using Cons.prems True S discard_loop_stops [of b "of_nat k"] by (auto simp: same_settings_def shorten_def)
  next
    case False
    then have k: "0 < k" by simp
    from discard_loop_item [OF Cons.prems(1) S k Cons.prems(2) refl, of now deleted] obtain c where
      C: "discard_loop now (of_nat k) deleted b =
        (if ?l \<le> k then discard_loop now (of_nat (k - ?l)) (deleted @ [h]) c else Some (deleted, c))"
        "discarding iss w (x + min k ?l) c" "contents_of c = drop (min k ?l) (contents_of b)" "same_settings b c"
        "tx_sentList c = remaining (min k ?l) h rest" by blast
    show ?thesis
    proof (cases "?l \<le> k")
      case True
      then have c: "tx_sentList c = rest" "discarding iss w (x + ?l) c" "contents_of c = drop ?l (contents_of b)" using C by (simp_all add: remaining_def)
      have "k - ?l < 2 ^ 32" using Cons.prems(2) by linarith
      from Cons.hyps(1) [OF c(1) [symmetric] c(2) this, of "deleted @ [h]"] obtain dl b' where
        R: "discard_loop now (of_nat (k - ?l)) (deleted @ [h]) c = Some (dl, b')"
          "discarding iss w (x + ?l + min (k - ?l) (length (contents_of c))) b'" "contents_of b' = drop (k - ?l) (contents_of c)" "same_settings c b'"
          "tx_sentList b' = drop_items (k - ?l) rest" unfolding c(1) by blast
      have "?l + min (k - ?l) (length (contents_of c)) = min k (length (contents_of b))" using True lc by (auto simp: c(3) min_def)
      then show ?thesis using R True C(1) same_settings_trans [OF C(4) R(4)] S by (auto simp: c(3) add.assoc)
    next
      case False
      then have "min k ?l = k" "min k (length (contents_of b)) = k" using lc by simp_all
      then show ?thesis using C False S by (simp add: remaining_def)
    qed
  qed
qed

section \<open>\<^verbatim>\<open>DiscardUpTo\<close>\<close>

text \<open>
  When an acknowledgement of \<open>k\<close> bytes uncovers an item that is marked as acknowledged (which only happens where the mark was
  a guess), the mark moves to the next unmarked item, which has to be there and not be lost.
\<close>

definition ack_ok :: "nat \<Rightarrow> TcpTxBuffer \<Rightarrow> bool" where
  "ack_ok k b \<longleftrightarrow> (case drop_items k (tx_sentList b) of [] \<Rightarrow> True
     | h # rest \<Rightarrow> ti_sacked h \<longrightarrow> (tx_sackEnabled b \<longrightarrow> rest \<noteq> []) \<and>
         (\<forall>us it vs. split_unsacked rest = Some (us, it, vs) \<longrightarrow> \<not> ti_lost it))"

lemma highest_reset_ok:
  assumes "sizes_ok iss z b" and "counts_ok b" and "unsacked_head b"
    and "highest_ok (tx_highestSack b) (tx_sentList b) \<or> (\<exists>y. snd (tx_highestSack b) = seq_of iss y \<and> y \<le> z \<and> z < y + 2 ^ 31)"
  shows "tx_ok iss z (if seq_le (snd (tx_highestSack b)) (tx_firstByteSeq b) then b\<lparr>tx_highestSack := (None, 0)\<rparr> else b)"
proof (cases "seq_le (snd (tx_highestSack b)) (tx_firstByteSeq b)")
  case True
  then show ?thesis using assms(1-3)
    by (simp add: tx_ok_def board_ok_def sizes_ok_def contents_of_def counts_ok_def ConsistencyCheck_def unsacked_head_def highest_ok_def)
next
  case False
  have "seq_le (seq_of iss y) (seq_of iss z)" if "y \<le> z" "z < y + 2 ^ 31" for y using that by (simp add: seq_compare)
  then have "highest_ok (tx_highestSack b) (tx_sentList b)" using False assms(4) sizes_okD(1) [OF assms(1)] by auto
  then show ?thesis using False assms(1-3) by (simp add: tx_ok_def board_ok_def unsacked_head_def)
qed

text \<open>The head that is uncovered loses its mark.\<close>

lemma uncovered_step:
  assumes s: "sizes_ok iss z b" and co: "counts_ok b" and S: "tx_sentList b = h # rest" and h: "ti_sacked h"
    and ok: "tx_sackEnabled b \<longrightarrow> rest \<noteq> []" "\<forall>us it vs. split_unsacked rest = Some (us, it, vs) \<longrightarrow> \<not> ti_lost it"
  defines "c \<equiv> b\<lparr>tx_sentList := h\<lparr>ti_sacked := False\<rparr> # rest, tx_sackedOut := tx_sackedOut b - item_size h\<rparr>"
  shows "\<exists>d. AddRenoSack c = Some d \<and> marks_step iss z c (MarkHeadAsLost d)"
proof -
  have z: "item_size (h\<lparr>ti_sacked := False\<rparr>) = item_size h" by (rule item_size_cong) simp
  have e: "tx_sentList c = h\<lparr>ti_sacked := False\<rparr> # rest" by (simp add: c_def)
  have sc: "sizes_ok iss z c" by (rule sizes_marks(1) [OF s]) (simp_all add: c_def S)
  have "tx_sackedOut b = item_size h + marked_size ti_sacked rest" using co h by (simp add: counts_ok_def ConsistencyCheck_def S)
  then have "ConsistencyCheck c" using co h by (auto simp: counts_ok_def ConsistencyCheck_def c_def S z)
  then have cc: "counts_ok c" using co S by (simp add: counts_ok_def c_def)
  have uc: "unsacked_head c" by (simp add: unsacked_head_def e)
  have "reno_ok c" using ok by (cases rest) (auto simp: reno_ok_def c_def)
  from AddRenoSack_step [OF sc cc uc this] obtain d where d: "AddRenoSack c = Some d" "marks_step iss z c d" by blast
  then have "marks_step iss z d (MarkHeadAsLost d)" by (intro MarkHeadAsLost_step) (simp_all add: marks_step_def)
  then show ?thesis using d marks_step_trans by blast
qed

lemma DiscardUpTo_old:
  assumes "sizes_ok iss x b" and "z \<le> x" and "x < z + 2 ^ 31"
  shows "DiscardUpTo now (seq_of iss z) b = Some ([], b)"
proof -
  have "seq_ge (tx_firstByteSeq b) (seq_of iss z)" using assms sizes_okD(1) [OF assms(1)] by (simp add: seq_compare)
  then show ?thesis by (simp add: DiscardUpTo_def)
qed

lemma DiscardUpTo_ok:
  assumes ok: "tx_ok iss x b" and k: "k \<le> Suc (length (contents_of b))" and a: "ack_ok k b"
  shows "\<exists>dl b'. DiscardUpTo now (seq_of iss (x + k)) b = Some (dl, b') \<and> tx_ok iss (x + k) b' \<and> contents_of b' = drop k (contents_of b) \<and>
    same_settings b b' \<and> map ti_packet (tx_sentList b') = map ti_packet (drop_items k (tx_sentList b)) \<and>
    (\<forall>h rest. drop_items k (tx_sentList b) = h # rest \<and> \<not> ti_sacked h \<longrightarrow> tx_sentList b' = drop_items k (tx_sentList b))"
proof -
  let ?L = "drop_items k (tx_sentList b)" and ?z = "x + k"
  have s: "sizes_ok iss x b" and bo: "board_ok b" using ok by (simp_all add: tx_ok_def)
  have lc: "length (contents_of b) < 2 ^ 30" using sizes_okD(5) [OF s] by (simp add: contents_of_def)
  have k30: "k \<le> 2 ^ 30" using k lc by linarith
  show ?thesis
  proof (cases "k = 0")
    case True
    have d: "drop_items 0 L = L" if "full_items L" for L using that by (cases L) (simp_all add: shorten_def)
    show ?thesis using True DiscardUpTo_old [OF s order_refl, of now] ok d [OF sizes_okD(2) [OF s]]
      by (cases "tx_sentList b") (simp_all add: same_settings_def del: drop_items.simps)
  next
    case False
    have D: "discarding iss x x b" using s bo by (simp add: discarding_def board_ok_def)
    have k32: "k < 2 ^ 32" using k30 by simp
    from discard_loop_ok [OF D k32, of now "[]"] obtain dl b1 where
      L: "discard_loop now (of_nat k) [] b = Some (dl, b1)" "discarding iss x (x + min k (length (contents_of b))) b1"
        "contents_of b1 = drop k (contents_of b)" "same_settings b b1" "tx_sentList b1 = ?L" by blast
    have first: "\<not> seq_ge (tx_firstByteSeq b) (seq_of iss ?z)" using False k30 sizes_okD(1) [OF s] by (simp add: seq_compare)
    have mi: "seq_minus (seq_of iss ?z) (tx_firstByteSeq b) = of_nat k" using sizes_okD(1) [OF s] by (simp add: seq_minus_eq seq_of_def)
    define b2 where "b2 = (if tx_size b1 = 0 then b1\<lparr>tx_firstByteSeq := seq_of iss ?z\<rparr> else b1)"
    have s1: "sizes_ok iss (x + min k (length (contents_of b))) b1" "counts_ok b1" using L(2) by (simp_all add: discarding_def)
    have c1: "length (contents_of b1) < 2 ^ 30" using lc L(3) by simp
    have z1: "tx_size b1 = 0 \<longleftrightarrow> contents_of b1 = []"
      using s1(1) c1 by (auto simp: sizes_ok_def word_unat_eq_iff unat_of_nat_u32)
    have e2: "tx_sentList b2 = ?L" "contents_of b2 = drop k (contents_of b)" "same_settings b b2" "counts_ok b2" "tx_highestSack b2 = tx_highestSack b1"
      "tx_sackEnabled b2 = tx_sackEnabled b"
      using L s1(2) by (simp_all add: b2_def same_settings_def contents_of_def counts_ok_def ConsistencyCheck_def)
    have s2: "sizes_ok iss ?z b2"
    proof (cases "contents_of b1 = []")
      case True
      then have "item_bytes (tx_sentList b1) = []" by (simp add: contents_of_def)
      then have "tx_sentList b1 = []" using sizes_okD(2) [OF s1(1)] by (cases "tx_sentList b1") auto
      then show ?thesis using True s1(1) z1 by (simp add: b2_def sizes_ok_def contents_of_def)
    next
      case False
      then have "min k (length (contents_of b)) = k" using L(3) by auto
      then show ?thesis using s1(1) z1 False by (simp add: b2_def)
    qed
    have hi2: "highest_ok (tx_highestSack b2) ?L \<or> (\<exists>y. snd (tx_highestSack b2) = seq_of iss y \<and> y \<le> ?z \<and> ?z < y + 2 ^ 31)"
    proof (cases "highest_ok (tx_highestSack b1) ?L")
      case False
      then obtain y where "snd (tx_highestSack b1) = seq_of iss y" "x \<le> y" "y < x + min k (length (contents_of b))"
        using L(2) unfolding discarding_def L(5) by blast
      then show ?thesis using k30 e2(5) by (intro disjI2 exI [of _ y]) auto
    qed (simp add: e2)
    define up where "up = (case tx_sentList b2 of [] \<Rightarrow> Some b2
              | h # rest \<Rightarrow> do {
                  c \<leftarrow> (if ti_sacked h then
                          if ti_lost h then None
                          else map_option MarkHeadAsLost
                            (AddRenoSack (b2\<lparr>tx_sentList := h\<lparr>ti_sacked := False\<rparr> # rest, tx_sackedOut := tx_sackedOut b2 - item_size h\<rparr>))
                        else Some b2);
                  if ti_startSeq h = seq_of iss ?z then Some c else None })"
    have "\<exists>b3. up = Some b3 \<and> sizes_ok iss ?z b3 \<and> counts_ok b3 \<and> unsacked_head b3 \<and> contents_of b3 = contents_of b2 \<and>
      same_settings b2 b3 \<and> map ti_packet (tx_sentList b3) = map ti_packet ?L \<and>
      (\<forall>h rest. ?L = h # rest \<and> \<not> ti_sacked h \<longrightarrow> tx_sentList b3 = ?L) \<and>
      (highest_ok (tx_highestSack b3) (tx_sentList b3) \<or> (\<exists>y. snd (tx_highestSack b3) = seq_of iss y \<and> y \<le> ?z \<and> ?z < y + 2 ^ 31))"
    proof (cases "\<exists>h rest. ?L = h # rest \<and> ti_sacked h")
      case False
      then have "up = Some b2" using sizes_okD(4) [OF s2] by (auto simp: up_def e2 split: list.split)
      moreover have "unsacked_head b2" using False by (cases ?L) (auto simp: unsacked_head_def e2)
      ultimately show ?thesis using s2 e2 hi2 by (simp add: same_settings_def)
    next
      case True
      then obtain h rest where S: "?L = h # rest" "ti_sacked h" by blast
      have S2: "tx_sentList b2 = h # rest" using e2(1) S(1) by simp
      have st: "ti_startSeq h = seq_of iss ?z" using sizes_okD(4) [OF s2] S2 by simp
      have nl: "\<not> ti_lost h" using e2(4) S2 S(2) by (auto simp: counts_ok_def)
      define c where "c = b2\<lparr>tx_sentList := h\<lparr>ti_sacked := False\<rparr> # rest, tx_sackedOut := tx_sackedOut b2 - item_size h\<rparr>"
      have "tx_sackEnabled b2 \<longrightarrow> rest \<noteq> []" "\<forall>us it vs. split_unsacked rest = Some (us, it, vs) \<longrightarrow> \<not> ti_lost it"
        using a S e2(6) by (auto simp: ack_ok_def)
      from uncovered_step [OF s2 e2(4) S2 S(2) this, folded c_def] obtain d where
        d: "AddRenoSack c = Some d" "marks_step iss ?z c (MarkHeadAsLost d)" by blast
      let ?d = "MarkHeadAsLost d"
      have u: "up = Some ?d" using S2 S(2) nl st d(1) by (simp add: up_def c_def)
      have m: "sizes_ok iss ?z ?d" "counts_ok ?d" "unsacked_head ?d" "contents_of ?d = contents_of c" "same_items (tx_sentList c) (tx_sentList ?d)"
        "highest_ok (tx_highestSack ?d) (tx_sentList ?d) \<or>
         tx_highestSack ?d = tx_highestSack c \<and> (\<forall>h. highest_ok h (tx_sentList c) \<longrightarrow> highest_ok h (tx_sentList ?d))"
        using d(2) unfolding marks_step_def by blast+
      have mp: "map ti_packet (tx_sentList ?d) = map ti_packet ?L"
      proof -
        have "map ti_packet U = map ti_packet T" if "same_items T U" for T U
          using that unfolding same_items_def by (induction rule: list_all2_induct) simp_all
        from this [OF m(5)] show ?thesis by (simp add: c_def S)
      qed
      have "contents_of c = contents_of b2" by (simp add: c_def contents_of_def S2)
      moreover have "same_settings b2 ?d" using d(2) by (simp add: marks_step_def same_settings_def c_def)
      moreover have "highest_ok (tx_highestSack ?d) (tx_sentList ?d) \<or> (\<exists>y. snd (tx_highestSack ?d) = seq_of iss y \<and> y \<le> ?z \<and> ?z < y + 2 ^ 31)"
        using m(6)
      proof (elim disjE conjE)
        assume hd: "tx_highestSack ?d = tx_highestSack c" and kept: "\<forall>h. highest_ok h (tx_sentList c) \<longrightarrow> highest_ok h (tx_sentList ?d)"
        have same: "tx_highestSack ?d = tx_highestSack b2" using hd by (simp add: c_def)
        show ?thesis
        proof (cases "highest_ok (tx_highestSack b2) (tx_sentList c)")
          case True
          then show ?thesis using kept same by metis
        next
          case False
          then have "highest_ok (tx_highestSack b2) ?L \<Longrightarrow> snd (tx_highestSack b2) = seq_of iss ?z"
            using st by (auto simp: highest_ok_def S c_def split: option.splits)
          then show ?thesis using hi2 same by force
        qed
      qed blast
      ultimately show ?thesis using u m mp S(2) by (simp add: S(1))
    qed
    then obtain b3 where b3: "up = Some b3" "sizes_ok iss ?z b3" "counts_ok b3" "unsacked_head b3" "contents_of b3 = contents_of b2"
      "same_settings b2 b3" "map ti_packet (tx_sentList b3) = map ti_packet ?L"
      "\<forall>h rest. ?L = h # rest \<and> \<not> ti_sacked h \<longrightarrow> tx_sentList b3 = ?L"
      "highest_ok (tx_highestSack b3) (tx_sentList b3) \<or> (\<exists>y. snd (tx_highestSack b3) = seq_of iss y \<and> y \<le> ?z \<and> ?z < y + 2 ^ 31)" by blast
    define b4 where "b4 = (if seq_le (snd (tx_highestSack b3)) (tx_firstByteSeq b3) then b3\<lparr>tx_highestSack := (None, 0)\<rparr> else b3)"
    have ok4: "tx_ok iss ?z b4" unfolding b4_def by (rule highest_reset_ok [OF b3(2-4,9)])
    have e4: "tx_firstByteSeq b4 = seq_of iss ?z" "tx_sackedOut b4 + tx_lostOut b4 \<le> tx_sentSize b4" "tx_sentList b4 = tx_sentList b3"
      "contents_of b4 = contents_of b3" "same_settings b3 b4"
      using sizes_okD(1) [OF b3(2)] counts_le [OF b3(2,3)] by (simp_all add: b4_def contents_of_def same_settings_def)
    have ge: "seq_ge (seq_of iss ?z) (seq_of iss ?z)" by (simp add: seq_compare)
    have "DiscardUpTo now (seq_of iss ?z) b = Some (dl, b4)"
      unfolding DiscardUpTo_def if_not_P [OF first] mi L(1) bind.bind_lunit prod.case Let_def b2_def [symmetric] up_def [symmetric] b3(1)
        b4_def [symmetric] using e4 ge by simp
    then show ?thesis using ok4 e4 b3(5-8) e2(2) same_settings_trans [OF same_settings_trans [OF e2(3) b3(6)] e4(5)] by simp
  qed
qed

section \<open>Taking everything back\<close>

lemma ResetSentList_ok:
  assumes "tx_ok iss x b"
  shows "tx_ok iss x (ResetSentList b) \<and> contents_of (ResetSentList b) = contents_of b \<and> same_settings b (ResetSentList b)"
proof -
  let ?f = "\<lambda>item. item\<lparr>ti_retrans := False, ti_sacked := False, ti_lost := False\<rparr>"
  have bs: "item_bytes (map ?f L) = item_bytes L" "full_items (map ?f L) = full_items L" for L by (induction L) simp_all
  have s: "sizes_ok iss x b" using assms by (simp add: tx_ok_def)
  have c: "contents_of (ResetSentList b) = contents_of b" by (simp add: contents_of_def ResetSentList_def bs)
  have "sizes_ok iss x (ResetSentList b)" using s unfolding sizes_ok_def c by (auto simp: ResetSentList_def bs)
  then show ?thesis using c
    by (simp add: tx_ok_def board_ok_def counts_ok_def ConsistencyCheck_def ResetSentList_def highest_ok_def same_settings_def)
qed

text \<open>The last segment goes back as it is: it must carry no mark of loss or acknowledgement, and not be the highest one acknowledged.\<close>

lemma ResetLastSegmentSent_ok:
  assumes ok: "tx_ok iss x b" and pl: "tx_sentList b \<noteq> [] \<longrightarrow> plain (last (tx_sentList b))"
  shows "tx_ok iss x (ResetLastSegmentSent b) \<and> contents_of (ResetLastSegmentSent b) = contents_of b \<and> same_settings b (ResetLastSegmentSent b)"
proof (cases "tx_sentList b = []")
  case True
  then show ?thesis using ok by (simp add: ResetLastSegmentSent_def same_settings_def)
next
  case False
  then obtain us t where S: "tx_sentList b = us @ [t]" by (cases "tx_sentList b" rule: rev_cases) auto
  have t: "\<not> ti_sacked t" "\<not> ti_lost t" "\<not> ti_retrans t" using pl S by (simp_all add: plain_def)
  have s: "sizes_ok iss x b" and bo: "board_ok b" using ok by (simp_all add: tx_ok_def)
  define b' where "b' = ResetLastSegmentSent b"
  have e: "tx_sentList b' = us" "tx_appList b' = t # tx_appList b" "tx_sentSize b' = tx_sentSize b - item_size t" "tx_retrans b' = tx_retrans b"
    "tx_firstByteSeq b' = tx_firstByteSeq b" "tx_maxBuffer b' = tx_maxBuffer b" "tx_size b' = tx_size b" "tx_sackedOut b' = tx_sackedOut b"
    "tx_lostOut b' = tx_lostOut b" "tx_highestSack b' = tx_highestSack b" "tx_nodes b' = tx_nodes b" "same_settings b b'"
    using S t by (simp_all add: b'_def ResetLastSegmentSent_def Let_def same_settings_def)
  have c: "contents_of b' = contents_of b" by (simp add: contents_of_def e S)
  have "sizes_ok iss x b'" using s t unfolding sizes_ok_def c e by (auto simp: S placed_append item_size_def pkt_size_def)
  moreover have "highest_ok (tx_highestSack b) us" using bo t by (auto simp: board_ok_def highest_ok_def S split: option.splits)
  then have "board_ok b'" using bo t by (cases us) (auto simp: board_ok_def counts_ok_def ConsistencyCheck_def e S)
  ultimately show ?thesis using c e(12) by (simp add: tx_ok_def flip: b'_def)
qed

end
