(* ===== verification/Tcp_Tx_History.thy ===== *)
theory Tcp_Tx_History
  imports Tcp_Tx_Discard
begin

text \<open>
  The send buffer over a whole connection: any sequence of its operations, as the socket calls them.  The abstract state is the
  data \<open>W\<close> accepted from the application and the number \<open>x\<close> of bytes acknowledged (one more than there are when the FIN is).
\<close>

inductive tx_history :: "u32 \<Rightarrow> u8 list \<Rightarrow> nat \<Rightarrow> TcpTxBuffer \<Rightarrow> bool"
  for iss where
  tx_start: "SetHeadSequence iss (TcpTxBuffer_new n) = Some b \<Longrightarrow> tx_history iss [] 0 b"
| tx_max: "tx_history iss W x b \<Longrightarrow> length W \<le> x + unat m \<Longrightarrow> unat m < 2 ^ 30 \<Longrightarrow> tx_history iss W x (Tx_SetMaxBufferSize m b)"
| tx_sack_enabled: "tx_history iss W x b \<Longrightarrow> tx_history iss W x (SetSackEnabled e b)"
| tx_threshold: "tx_history iss W x b \<Longrightarrow> tx_history iss W x (SetDupAckThresh n b)"
| tx_segment: "tx_history iss W x b \<Longrightarrow> tx_history iss W x (SetSegmentSize n b)"
| tx_add: "tx_history iss W x b \<Longrightarrow> x \<le> length W \<Longrightarrow> length p < 2 ^ 32 \<Longrightarrow> Tx_Add p b = (r, b') \<Longrightarrow>
    tx_history iss (if r then W @ p else W) x b'"
| tx_copy: "tx_history iss W x b \<Longrightarrow> x \<le> a \<Longrightarrow> a < x + 2 ^ 30 \<Longrightarrow> CopyFromSequence now nb (seq_of iss a) b = Some (r, b') \<Longrightarrow>
    tx_history iss W x b'"
| tx_discard: "tx_history iss W x b \<Longrightarrow> z \<le> Suc (length W) \<Longrightarrow> x < z + 2 ^ 31 \<Longrightarrow> ack_ok (z - x) b \<Longrightarrow>
    DiscardUpTo now (seq_of iss z) b = Some (deleted, b') \<Longrightarrow> tx_history iss W (max x z) b'"
| tx_update: "tx_history iss W x b \<Longrightarrow> tx_sentList b \<noteq> [] \<Longrightarrow> list_all2 (block_ok iss x (sent_end x b)) blocks ranges \<Longrightarrow>
    Update blocks b = Some (n, newly, b') \<Longrightarrow> tx_history iss W x b'"
| tx_mark_head: "tx_history iss W x b \<Longrightarrow> tx_history iss W x (MarkHeadAsLost b)"
| tx_timeout: "tx_history iss W x b \<Longrightarrow> SetSentListLost r b = Some b' \<Longrightarrow> tx_history iss W x b'"
| tx_reno: "tx_history iss W x b \<Longrightarrow> reno_ok b \<Longrightarrow> AddRenoSack b = Some b' \<Longrightarrow> tx_history iss W x b'"
| tx_reset_reno: "tx_history iss W x b \<Longrightarrow> tx_history iss W x (ResetRenoSack b)"
| tx_unmark_head: "tx_history iss W x b \<Longrightarrow> tx_history iss W x (DeleteRetransmittedFlagFromHead b)"
| tx_reset: "tx_history iss W x b \<Longrightarrow> tx_history iss W x (ResetSentList b)"
| tx_reset_last: "tx_history iss W x b \<Longrightarrow> tx_sentList b \<noteq> [] \<longrightarrow> plain (last (tx_sentList b)) \<Longrightarrow>
    tx_history iss W x (ResetLastSegmentSent b)"

definition tx_holds :: "u32 \<Rightarrow> u8 list \<Rightarrow> nat \<Rightarrow> TcpTxBuffer \<Rightarrow> bool" where
  "tx_holds iss W x b \<longleftrightarrow> tx_ok iss x b \<and> contents_of b = drop x W \<and> x \<le> Suc (length W)"

lemma tx_holds_kept:
  "tx_holds iss W x b \<Longrightarrow> tx_ok iss x b' \<and> contents_of b' = contents_of b \<Longrightarrow> tx_holds iss W x b'"
  by (simp add: tx_holds_def)

lemma tx_holds_marks: "tx_holds iss W x b \<Longrightarrow> marks_step iss x b b' \<Longrightarrow> tx_holds iss W x b'"
  using marks_step_ok [of iss x b b'] tx_holds_kept [of iss W x b b'] by (auto simp: tx_holds_def)

lemma tx_holdsD:
  assumes "tx_holds iss W x b"
  shows "tx_ok iss x b" and "sizes_ok iss x b" and "board_ok b" and "counts_ok b" and "unsacked_head b"
    and "contents_of b = drop x W" and "x \<le> Suc (length W)"
  using assms by (simp_all add: tx_holds_def tx_ok_def board_ok_def unsacked_head_def)

lemma tx_holds_settings:
  assumes h: "tx_holds iss W x b"
    and "tx_appList b' = tx_appList b" "tx_sentList b' = tx_sentList b" "tx_size b' = tx_size b" "tx_sentSize b' = tx_sentSize b"
      "tx_firstByteSeq b' = tx_firstByteSeq b" "tx_highestSack b' = tx_highestSack b" "tx_lostOut b' = tx_lostOut b"
      "tx_sackedOut b' = tx_sackedOut b" "tx_retrans b' = tx_retrans b" "tx_nodes b' = tx_nodes b"
    and "length (contents_of b) \<le> unat (tx_maxBuffer b')" "unat (tx_maxBuffer b') < 2 ^ 30"
  shows "tx_holds iss W x b'"
proof (rule tx_holds_kept [OF h])
  have c: "contents_of b' = contents_of b" by (simp add: contents_of_def assms)
  have "sizes_ok iss x b'" using tx_holdsD(2) [OF h] assms(2-) unfolding sizes_ok_def c by simp
  moreover have "board_ok b'" using tx_holdsD(3) [OF h] assms(2-11) by (simp add: board_ok_def counts_ok_def ConsistencyCheck_def)
  ultimately show "tx_ok iss x b' \<and> contents_of b' = contents_of b" using c by (simp add: tx_ok_def)
qed

lemma tx_holds_discard:
  assumes h: "tx_holds iss W x b" and z: "z \<le> Suc (length W)" "x < z + 2 ^ 31" and a: "ack_ok (z - x) b"
  shows "\<exists>dl b'. DiscardUpTo now (seq_of iss z) b = Some (dl, b') \<and> tx_holds iss W (max x z) b' \<and> same_settings b b' \<and>
    (x \<le> z \<longrightarrow> map ti_packet (tx_sentList b') = map ti_packet (drop_items (z - x) (tx_sentList b))) \<and> (z \<le> x \<longrightarrow> b' = b) \<and>
    (\<forall>h rest. drop_items (z - x) (tx_sentList b) = h # rest \<and> \<not> ti_sacked h \<and> x \<le> z \<longrightarrow> tx_sentList b' = drop_items (z - x) (tx_sentList b))"
proof -
  note D = tx_holdsD [OF h]
  show ?thesis
  proof (cases "z \<le> x")
    case True
    have "drop_items 0 L = L" if "full_items L" for L using that by (cases L) (simp_all add: shorten_def)
    moreover have "full_items (tx_sentList b)" by (rule sizes_okD(2) [OF D(2)])
    ultimately have "drop_items (z - x) (tx_sentList b) = tx_sentList b" using True by simp
    then show ?thesis using DiscardUpTo_old [OF D(2) True z(2), of now] h True
      by (auto simp: max_def same_settings_def simp del: drop_items.simps)
  next
    case False
    have "z - x \<le> Suc (length (contents_of b))" using z(1) D(6) False by simp
    from DiscardUpTo_ok [OF D(1) this a, of now] False obtain dl b' where
      R: "DiscardUpTo now (seq_of iss z) b = Some (dl, b')" "tx_ok iss z b'" "contents_of b' = drop (z - x) (contents_of b)" "same_settings b b'"
        "map ti_packet (tx_sentList b') = map ti_packet (drop_items (z - x) (tx_sentList b))"
        "\<forall>h rest. drop_items (z - x) (tx_sentList b) = h # rest \<and> \<not> ti_sacked h \<longrightarrow> tx_sentList b' = drop_items (z - x) (tx_sentList b)" by auto
    then show ?thesis using False z(1) D(6) by (auto simp: tx_holds_def max_def)
  qed
qed

lemma tx_history_inv: "tx_history iss W x b \<Longrightarrow> tx_holds iss W x b"
proof (induction rule: tx_history.induct)
  case (tx_start n b)
  then have b: "b = (TcpTxBuffer_new n)\<lparr>tx_firstByteSeq := iss, tx_highestSack := (None, 0)\<rparr>"
    by (simp add: SetHeadSequence_def TcpTxBuffer_new_def)
  show ?case unfolding b
    by (simp add: tx_holds_def tx_ok_def sizes_ok_def board_ok_def counts_ok_def ConsistencyCheck_def highest_ok_def contents_of_def
      TcpTxBuffer_new_def seq_of_def)
next
  case (tx_max W x b m)
  have "length (contents_of b) \<le> unat m" using tx_holdsD(6) [OF tx_max.IH] tx_max.hyps(2) by simp
  then show ?case by (intro tx_holds_settings [OF tx_max.IH]) (use tx_max.hyps(3) in \<open>simp_all add: Tx_SetMaxBufferSize_def\<close>)
next
  case (tx_add W x b p r b')
  note D = tx_holdsD [OF tx_add.IH]
  have "tx_ok iss x b' \<and> contents_of b' = contents_of b @ (if r then p else [])"
    using Tx_Add_ok(2) [OF D(1) tx_add.hyps(3)] tx_add.hyps(4) by simp
  then show ?case using D(6) tx_add.hyps(2) by (simp add: tx_holds_def)
next
  case (tx_copy W x b a now nb r b')
  have "tx_ok iss x b' \<and> contents_of b' = contents_of b"
    using CopyFromSequence_copied [OF tx_holdsD(1) [OF tx_copy.IH] tx_copy.hyps(2-4)] tx_holdsD(1) [OF tx_copy.IH]
    by (cases r) (simp_all add: copied_def)
  then show ?case by (rule tx_holds_kept [OF tx_copy.IH])
next
  case (tx_discard W x b z now deleted b')
  show ?case using tx_holds_discard [OF tx_discard.IH tx_discard.hyps(2-4), of now] tx_discard.hyps(5) by auto
next
  case (tx_update W x b blocks ranges n newly b')
  show ?case using Update_ok [OF tx_holdsD(1) [OF tx_update.IH] tx_update.hyps(2,3)] tx_update.hyps(4) tx_holds_marks [OF tx_update.IH] by auto
next
  case (tx_mark_head W x b)
  show ?case by (rule tx_holds_marks [OF tx_mark_head.IH MarkHeadAsLost_step]) (use tx_holdsD [OF tx_mark_head.IH] in blast)+
next
  case (tx_timeout W x b r b')
  show ?case using SetSentListLost_step [OF tx_holdsD(2,4,5) [OF tx_timeout.IH], of r] tx_timeout.hyps(2) tx_holds_marks [OF tx_timeout.IH] by auto
next
  case (tx_reno W x b b')
  show ?case using AddRenoSack_step [OF tx_holdsD(2,4,5) [OF tx_reno.IH] tx_reno.hyps(2)] tx_reno.hyps(3) tx_holds_marks [OF tx_reno.IH] by auto
next
  case (tx_reset_reno W x b)
  show ?case by (rule tx_holds_marks [OF tx_reset_reno.IH ResetRenoSack_step]) (use tx_holdsD [OF tx_reset_reno.IH] in blast)+
next
  case (tx_unmark_head W x b)
  show ?case by (rule tx_holds_kept [OF tx_unmark_head.IH DeleteRetransmittedFlagFromHead_ok [OF tx_holdsD(1) [OF tx_unmark_head.IH]]])
next
  case (tx_reset W x b)
  show ?case by (rule tx_holds_kept [OF tx_reset.IH]) (use ResetSentList_ok [OF tx_holdsD(1) [OF tx_reset.IH]] in blast)
next
  case (tx_reset_last W x b)
  show ?case by (rule tx_holds_kept [OF tx_reset_last.IH])
    (use ResetLastSegmentSent_ok [OF tx_holdsD(1) [OF tx_reset_last.IH] tx_reset_last.hyps(2)] in blast)
next
  case (tx_sack_enabled W x b e)
  show ?case by (rule tx_holds_settings [OF tx_sack_enabled.IH]) (use tx_holdsD(2) [OF tx_sack_enabled.IH] in \<open>simp_all add: SetSackEnabled_def sizes_ok_def\<close>)
next
  case (tx_threshold W x b n)
  show ?case by (rule tx_holds_settings [OF tx_threshold.IH]) (use tx_holdsD(2) [OF tx_threshold.IH] in \<open>simp_all add: SetDupAckThresh_def sizes_ok_def\<close>)
next
  case (tx_segment W x b n)
  show ?case by (rule tx_holds_settings [OF tx_segment.IH]) (use tx_holdsD(2) [OF tx_segment.IH] in \<open>simp_all add: SetSegmentSize_def sizes_ok_def\<close>)
qed

end
