(* ===== verification/Tcp_Tx_Claims.thy ===== *)
theory Tcp_Tx_Claims
  imports Tcp_Tx_History
begin

text \<open>The properties of the send buffer.\<close>

section \<open>The next segment\<close>

text \<open>The rules of RFC 6675 on positions of the stream.\<close>

fun open_positions :: "(TcpTxItem \<Rightarrow> bool) \<Rightarrow> nat \<Rightarrow> TcpTxItem list \<Rightarrow> nat list" where
  "open_positions q y [] = []"
| "open_positions q y (t # ts) = (if q t then y # open_positions q (y + length (ti_packet t)) ts else open_positions q (y + length (ti_packet t)) ts)"

definition waiting :: "TcpTxItem \<Rightarrow> bool" where
  "waiting t \<longleftrightarrow> \<not> ti_retrans t \<and> \<not> ti_sacked t"

text \<open>Sequence number 0 counts as not set.\<close>

definition rule3_position :: "u32 \<Rightarrow> nat list \<Rightarrow> nat option" where
  "rule3_position iss ps = (case ps of [] \<Rightarrow> None | [p] \<Rightarrow> Some p | p # q # _ \<Rightarrow> Some (if seq_of iss p = 0 then q else p))"

fun keep_first :: "u32 option \<Rightarrow> u32 list \<Rightarrow> u32 option" where
  "keep_first r [] = r"
| "keep_first r (s # ss) = keep_first (if r = None \<or> r = Some 0 then Some s else r) ss"

lemma keep_first_Some: "s \<noteq> 0 \<Longrightarrow> keep_first (Some s) ss = Some s"
  by (induction ss) simp_all

lemma open_positions_split:
  "p \<in> set (open_positions q y L) \<Longrightarrow> \<exists>us t vs. L = us @ t # vs \<and> q t \<and> p = y + length (item_bytes us)"
proof (induction L arbitrary: y)
  case (Cons t ts)
  show ?case
  proof (cases "p = y \<and> q t")
    case True
    then show ?thesis by (intro exI [of _ "[]"] exI [of _ t] exI [of _ ts]) simp
  next
    case False
    then have "p \<in> set (open_positions q (y + length (ti_packet t)) ts)" using Cons.prems by (auto split: if_splits)
    then obtain us u vs where "ts = us @ u # vs" "q u" "p = y + length (ti_packet t) + length (item_bytes us)" using Cons.IH by blast
    then show ?thesis by (intro exI [of _ "t # us"] exI [of _ u] exI [of _ vs]) simp
  qed
qed simp

lemma open_positions_sorted:
  "full_items L \<Longrightarrow> sorted_wrt (<) (open_positions q y L) \<and> (\<forall>p\<in>set (open_positions q y L). y \<le> p \<and> p < y + length (item_bytes L))"
proof (induction L arbitrary: y)
  case (Cons t ts)
  let ?l = "length (ti_packet t)" and ?P = "open_positions q (y + length (ti_packet t)) ts"
  have l: "0 < ?l" and ft: "full_items ts" using Cons.prems by simp_all
  have IH: "sorted_wrt (<) ?P" "\<And>p. p \<in> set ?P \<Longrightarrow> y + ?l \<le> p \<and> p < y + ?l + length (item_bytes ts)" using Cons.IH [OF ft] by blast+
  have "y < p" "y \<le> p" "p < y + (?l + length (item_bytes ts))" if "p \<in> set ?P" for p using IH(2) [OF that] l by linarith+
  then show ?case using IH(1) l by (cases "q t") (simp_all del: length_greater_0_conv)
qed simp

lemma next_seg_loop_eq: "next_seg_loop r (seq_of iss y) rule3 L =
  (case open_positions (\<lambda>t. waiting t \<and> ti_lost t) y L of
     p # _ \<Rightarrow> Inl (seq_of iss p)
   | [] \<Rightarrow> Inr (if r then keep_first rule3 (map (seq_of iss) (open_positions waiting y L)) else rule3))"
proof (induction L arbitrary: y rule3)
  case (Cons t ts)
  have e: "seq_of iss y + item_size t = seq_of iss (y + length (ti_packet t))" by (simp add: item_size_def pkt_size_def seq_of_add)
  show ?case
  proof (cases "waiting t \<and> ti_lost t")
    case True
    then show ?thesis by (simp add: waiting_def)
  next
    case False
    then have "next_seg_loop r (seq_of iss y) rule3 (t # ts) =
      next_seg_loop r (seq_of iss (y + length (ti_packet t))) (if waiting t \<and> (rule3 = None \<or> rule3 = Some 0) \<and> r then Some (seq_of iss y) else rule3) ts"
      by (auto simp: waiting_def e)
    then show ?thesis using False by (simp only: Cons.IH) (auto simp: waiting_def split: list.split)
  qed
qed simp

lemma keep_first_rule3:
  assumes "sorted_wrt (<) ps" and "\<forall>p\<in>set ps. y \<le> p \<and> p < y + 2 ^ 30"
  shows "keep_first None (map (seq_of iss) ps) = map_option (seq_of iss) (rule3_position iss ps)"
proof (cases ps)
  case (Cons p qs)
  show ?thesis
  proof (cases qs)
    case Nil
    then show ?thesis by (simp add: Cons rule3_position_def)
  next
    case C: (Cons q rs)
    have "seq_of iss q \<noteq> seq_of iss p" using assms by (simp add: Cons C seq_compare)
    then show ?thesis by (simp add: Cons C rule3_position_def keep_first_Some)
  qed
qed (simp add: rule3_position_def)

lemma SizeFromSequence_end:
  assumes "sizes_ok iss x b"
  shows "0 < SizeFromSequence (seq_of iss (sent_end x b)) b \<longleftrightarrow> tx_appList b \<noteq> []"
    and "tx_firstByteSeq b + tx_sentSize b = seq_of iss (sent_end x b)"
proof -
  note sD = sizes_okD [OF assms]
  show E: "tx_firstByteSeq b + tx_sentSize b = seq_of iss (sent_end x b)" unfolding sD(1,6) sent_end_def by (rule seq_of_add)
  let ?n = "length (item_bytes (tx_appList b))"
  have T: "TailSequence b = seq_of iss (sent_end x b + ?n)" unfolding TailSequence_def sD(1,7) sent_end_def seq_of_add by (simp add: add.assoc)
  have "seq_ge (TailSequence b) (seq_of iss (sent_end x b))" unfolding T using sD(5) by (simp add: seq_compare)
  moreover have "seq_of iss (sent_end x b + ?n) - seq_of iss (sent_end x b) = of_nat ?n" by (simp add: seq_of_def)
  ultimately have "SizeFromSequence (seq_of iss (sent_end x b)) b = of_nat ?n" by (simp add: SizeFromSequence_def seq_minus_eq T)
  moreover have "?n = 0 \<longleftrightarrow> tx_appList b = []" using sD(3) by (cases "tx_appList b") auto
  ultimately show "0 < SizeFromSequence (seq_of iss (sent_end x b)) b \<longleftrightarrow> tx_appList b \<noteq> []"
    using sD(5) by (simp add: word_gt_0 word_unat_eq_iff unat_of_nat_u32)
qed

lemma NextSeg_eq:
  assumes s: "sizes_ok iss x b"
  shows "NextSeg isRecovery rWnd b =
    (case open_positions (\<lambda>t. waiting t \<and> ti_lost t) x (tx_sentList b) of
       p # _ \<Rightarrow> Some (seq_of iss p, seq_of iss p + tx_segmentSize b)
     | [] \<Rightarrow>
         if tx_appList b \<noteq> [] then
           if sent_end x b - x \<le> unat rWnd
           then Some (seq_of iss (sent_end x b), seq_of iss (sent_end x b) + min (tx_segmentSize b) (rWnd - tx_sentSize b)) else None
         else if isRecovery
         then map_option (\<lambda>p. (seq_of iss p, seq_of iss p + tx_segmentSize b)) (rule3_position iss (open_positions waiting x (tx_sentList b)))
         else None)"
proof -
  note sD = sizes_okD [OF s] and E = SizeFromSequence_end [OF s]
  have "tx_sentSize b \<le> rWnd \<longleftrightarrow> sent_end x b - x \<le> unat rWnd"
    unfolding sD(6) word_le_nat_alt using sD(5) by (subst unat_of_nat_u32) (simp_all add: sent_end_def)
  moreover have "keep_first None (map (seq_of iss) (open_positions waiting x (tx_sentList b))) =
    map_option (seq_of iss) (rule3_position iss (open_positions waiting x (tx_sentList b)))"
    by (rule keep_first_rule3 [where y = x]) (use open_positions_sorted [OF sD(2), of waiting x] sD(5) in fastforce)+
  ultimately show ?thesis unfolding NextSeg_def E(2) unfolding E(1) sD(1) next_seg_loop_eq
    by (simp add: option.map_comp comp_def Let_def split: list.split)
qed

section \<open>Properties\<close>


text \<open>
  C26: What \<^verbatim>\<open>CopyFromSequence\<close> hands out for a sequence number are exactly the bytes of the stream that start there, however the
  items were split and merged: at least one and at most as many as asked for, an item that is not marked as acknowledged, and no
  item only when there is no data or none was asked for.
\<close>

theorem tx_segments_of_stream:
  assumes "tx_history iss W x b" and "x \<le> a" and "a < x + 2 ^ 30" and "CopyFromSequence now nb (seq_of iss a) b = Some (r, b')"
  shows "case r of
      None \<Rightarrow> nb = 0 \<or> length W \<le> a
    | Some item \<Rightarrow> ti_startSeq item = seq_of iss a \<and> ti_packet item \<noteq> [] \<and> length (ti_packet item) \<le> unat nb \<and>
        ti_packet item = take (length (ti_packet item)) (drop a W) \<and> item \<in> set (tx_sentList b') \<and> \<not> ti_sacked item"
proof -
  note D = tx_holdsD [OF tx_history_inv [OF assms(1)]]
  have le: "x + (length W - x) - a \<le> length W - a" using assms(2) by linarith
  show ?thesis using CopyFromSequence_copied [OF D(1) assms(2-4)] D(6) assms(2)
    by (cases r) (auto simp: copied_def copy_size_def min_def unat_eq_0 split: if_splits)
qed



text \<open>
  C31: A request that begins with an item already sent, runs into data not sent yet, and whose end wraps around the 32-bit sequence
  numbers, makes \<^verbatim>\<open>CopyFromSequence\<close> follow a null pointer: it compares the numbers as plain integers there.
\<close>

theorem tx_copy_wrap_fails:
  assumes "tx_history iss W x b" and "x \<le> a" and "a < sent_end x b" and "sent_end x b < a + n" and "n = min (unat nb) (length W - a)"
    and "seq_of iss (a + n) < seq_of iss a"
  shows "CopyFromSequence now nb (seq_of iss a) b = None"
proof -
  note D = tx_holdsD [OF tx_history_inv [OF assms(1)]]
  have "length (contents_of b) = length W - x" using D(6) by simp
  then have "x + length (contents_of b) - a = length W - a \<or> x + length (contents_of b) \<le> a \<and> length W \<le> a" using assms(2) by linarith
  then have "copy_size x a nb b = n" using assms(5) by (auto simp: copy_size_def)
  then show ?thesis using assms(4,6) by (intro copy_wrap_fails [OF D(1) assms(2,3)]) simp_all
qed



section \<open>A connection\<close>

text \<open>Three segments across the end of the sequence numbers; the third is selectively acknowledged, with a threshold of one.\<close>

definition sample_tx :: TcpTxBuffer where
  "sample_tx = (TcpTxBuffer_new 0)\<lparr>tx_firstByteSeq := 0xFFFFFFFC, tx_highestSack := (None, 0), tx_dupAckThresh := 1, tx_segmentSize := 2,
     tx_appList := [(TcpTxItem_new 1)\<lparr>ti_packet := [1, 2, 3, 4, 5, 6]\<rparr>], tx_size := 6, tx_nodes := 2\<rparr>"

definition sample_item :: "nat \<Rightarrow> u32 \<Rightarrow> u8 list \<Rightarrow> TcpTxItem" where
  "sample_item n seq p = (TcpTxItem_new n)\<lparr>ti_startSeq := seq, ti_packet := p, ti_lastSent := 0\<rparr>"

definition sample_tx1 :: TcpTxBuffer where
  "sample_tx1 = sample_tx\<lparr>tx_appList := [(TcpTxItem_new 1)\<lparr>ti_startSeq := 2, ti_packet := [3, 4, 5, 6]\<rparr>],
     tx_sentList := [sample_item 3 0xFFFFFFFC [1, 2]], tx_sentSize := 2, tx_nodes := 4\<rparr>"

definition sample_tx2 :: TcpTxBuffer where
  "sample_tx2 = sample_tx\<lparr>tx_appList := [(TcpTxItem_new 1)\<lparr>ti_startSeq := 4, ti_packet := [5, 6]\<rparr>],
     tx_sentList := [sample_item 3 0xFFFFFFFC [1, 2], sample_item 5 0xFFFFFFFE [3, 4]], tx_sentSize := 4, tx_nodes := 6\<rparr>"

definition sample_tx3 :: TcpTxBuffer where
  "sample_tx3 = sample_tx\<lparr>tx_appList := [],
     tx_sentList := [sample_item 3 0xFFFFFFFC [1, 2], sample_item 5 0xFFFFFFFE [3, 4], sample_item 6 0 [5, 6]], tx_sentSize := 6, tx_nodes := 7\<rparr>"

definition sample_tx4 :: TcpTxBuffer where
  "sample_tx4 = sample_tx3\<lparr>tx_sentList := [(sample_item 3 0xFFFFFFFC [1, 2])\<lparr>ti_lost := True\<rparr>, (sample_item 5 0xFFFFFFFE [3, 4])\<lparr>ti_lost := True\<rparr>,
       (sample_item 6 0 [5, 6])\<lparr>ti_sacked := True\<rparr>],
     tx_highestSack := (Some 6, 0), tx_lostOut := 4, tx_sackedOut := 2\<rparr>"

lemmas tx_eval = sample_tx_def sample_item_def sample_tx1_def sample_tx2_def sample_tx3_def sample_tx4_def TcpTxBuffer_new_def TcpTxItem_new_def Time_Max_def
  pkt_size_def item_size_def SplitItems_def GetNewSegment_def GetTransmittedSegment_def SizeFromSequence_def TailSequence_def
  seq_lt_def seq_gt_def seq_ge_def seq_le_def halfMaxValue_def seq_minus_def seq_of_def Let_def

lemma sample_copies:
  "CopyFromSequence 0 2 (seq_of 0xFFFFFFFC 0) sample_tx = Some (Some (sample_item 3 0xFFFFFFFC [1, 2]), sample_tx1)"
  "CopyFromSequence 0 2 (seq_of 0xFFFFFFFC 2) sample_tx1 = Some (Some (sample_item 5 0xFFFFFFFE [3, 4]), sample_tx2)"
  "CopyFromSequence 0 2 (seq_of 0xFFFFFFFC 4) sample_tx2 = Some (Some (sample_item 6 0 [5, 6]), sample_tx3)"
  by (simp_all add: tx_eval CopyFromSequence.simps [of 0] GetPacketFromList.simps [of False])

lemma sample_update: "Update [(0, 2)] sample_tx3 = Some (2, [(sample_item 6 0 [5, 6])\<lparr>ti_sacked := True\<rparr>], sample_tx4)"
  by (simp add: tx_eval Update_def UpdateLostCount_def)

lemma sample_block: "list_all2 (block_ok 0xFFFFFFFC 0 (sent_end 0 sample_tx3)) [(0, 2)] [(4, 6)]"
  by (simp add: block_ok_def tx_eval sent_end_def)

lemma sample_start: "tx_history 0xFFFFFFFC [1, 2, 3, 4, 5, 6] 0 sample_tx"
proof -
  let ?b = "(TcpTxBuffer_new 0)\<lparr>tx_firstByteSeq := 0xFFFFFFFC, tx_highestSack := (None, 0)\<rparr>"
  have "tx_history 0xFFFFFFFC [] 0 ?b" by (rule tx_start) (simp add: SetHeadSequence_def TcpTxBuffer_new_def)
  then have "tx_history 0xFFFFFFFC [] 0 (SetSegmentSize 2 (SetDupAckThresh 1 ?b))" by (intro tx_segment tx_threshold)
  moreover have "Tx_Add [1, 2, 3, 4, 5, 6] (SetSegmentSize 2 (SetDupAckThresh 1 ?b)) = (True, sample_tx)"
    by (simp add: Tx_Add_def Tx_Available_def SetSegmentSize_def SetDupAckThresh_def tx_eval)
  ultimately have "tx_history 0xFFFFFFFC (if True then [] @ [1, 2, 3, 4, 5, 6] else []) 0 sample_tx" by (intro tx_add) simp_all
  then show ?thesis by simp
qed

lemma sample_sent:
  "tx_history 0xFFFFFFFC [1, 2, 3, 4, 5, 6] 0 sample_tx2" "tx_history 0xFFFFFFFC [1, 2, 3, 4, 5, 6] 0 sample_tx3"
proof -
  have "tx_history 0xFFFFFFFC [1, 2, 3, 4, 5, 6] 0 sample_tx1" by (rule tx_copy [OF sample_start _ _ sample_copies(1)]) simp_all
  then show h: "tx_history 0xFFFFFFFC [1, 2, 3, 4, 5, 6] 0 sample_tx2" by (rule tx_copy [OF _ _ _ sample_copies(2)]) simp_all
  show "tx_history 0xFFFFFFFC [1, 2, 3, 4, 5, 6] 0 sample_tx3" by (rule tx_copy [OF h _ _ sample_copies(3)]) simp_all
qed

lemma sample_sacked: "tx_history 0xFFFFFFFC [1, 2, 3, 4, 5, 6] 0 sample_tx4"
  by (rule tx_update [OF sample_sent(2) _ sample_block sample_update]) (simp add: tx_eval)


theorem tx_segments_of_stream_witness:
  "ti_packet (sample_item 5 0xFFFFFFFE [3, 4]) = take 2 (drop 2 [1, 2, 3, 4, 5, 6]) \<and> sample_item 5 0xFFFFFFFE [3, 4] \<in> set (tx_sentList sample_tx2)"
proof -
  have "tx_history 0xFFFFFFFC [1, 2, 3, 4, 5, 6] 0 sample_tx1" by (rule tx_copy [OF sample_start _ _ sample_copies(1)]) simp_all
  from tx_segments_of_stream [OF this _ _ sample_copies(2)] show ?thesis by (simp add: sample_item_def)
qed


lemma sample_next: "NextSeg False 100 sample_tx4 = Some (0xFFFFFFFC, 0xFFFFFFFE)"
  by (simp add: tx_eval NextSeg_def)


theorem tx_copy_wrap_fails_witness: "CopyFromSequence 0 4 0xFFFFFFFE sample_tx2 = None"
proof -
  have "sent_end 0 sample_tx2 = 4" by (simp add: sent_end_def tx_eval)
  then have "CopyFromSequence 0 4 (seq_of 0xFFFFFFFC 2) sample_tx2 = None"
    by (intro tx_copy_wrap_fails [OF sample_sent(1), of 2 4]) (simp_all add: seq_of_def)
  then show ?thesis by (simp add: seq_of_def)
qed



end
