(* ===== verification/Tcp_Rx_Overlap.thy ===== *)
theory Tcp_Rx_Overlap
  imports Tcp_Rx_Buffer
begin

text \<open>
  The loop of \<^verbatim>\<open>TcpRxBuffer::Add\<close> on positions of the stream in place of sequence numbers: what it keeps, what it
  removes, and that head and tail end up around the bytes that are missing.
\<close>

section \<open>Entries\<close>

type_synonym entries = "(nat \<times> u8 list) list"

fun chain :: "nat \<Rightarrow> entries \<Rightarrow> bool" where
  "chain lo [] \<longleftrightarrow> True"
| "chain lo ((x, p) # E) \<longleftrightarrow> lo \<le> x \<and> p \<noteq> [] \<and> chain (x + length p) E"

definition cov :: "entries \<Rightarrow> nat set" where
  "cov E = (\<Union>(x, p)\<in>set E. {x..<x + length p})"

definition stored :: "entries \<Rightarrow> nat" where
  "stored E = sum_list (map (\<lambda>e. length (snd e)) E)"

definition conv :: "u32 \<Rightarrow> entries \<Rightarrow> (u32 \<times> u8 list) list" where
  "conv iss E = map (\<lambda>(x, p). (seq_of iss x, p)) E"

lemma entries_simps [simp]:
  "cov [] = {}" "cov ((x, p) # E) = {x..<x + length p} \<union> cov E" "cov (E @ E') = cov E \<union> cov E'"
  "stored [] = 0" "stored ((x, p) # E) = length p + stored E" "stored (E @ E') = stored E + stored E'"
  "conv iss [] = []" "conv iss ((x, p) # E) = (seq_of iss x, p) # conv iss E" "conv iss (E @ E') = conv iss E @ conv iss E'"
  by (auto simp: cov_def stored_def conv_def)

lemma chain_mono: "chain lo E \<Longrightarrow> lo' \<le> lo \<Longrightarrow> chain lo' E"
  by (cases E) auto

lemma chain_cov: "chain lo E \<Longrightarrow> y \<in> cov E \<Longrightarrow> lo \<le> y"
proof (induction lo E rule: chain.induct)
  case (2 lo x p E)
  then show ?case by (cases "y \<in> cov E") auto
qed simp

lemma chain_below: "chain lo E \<Longrightarrow> (x, p) \<in> set E \<Longrightarrow> lo \<le> x \<and> p \<noteq> []"
proof (induction lo E rule: chain.induct)
  case (2 lo y q E)
  then show ?case by fastforce
qed simp

lemma chain_card: "chain lo E \<Longrightarrow> card (cov E) = stored E"
proof (induction lo E rule: chain.induct)
  case (2 lo x p E)
  have "{x..<x + length p} \<inter> cov E = {}" using chain_cov [of "x + length p" E] 2 by fastforce
  moreover have "finite (cov E)" by (auto simp: cov_def)
  ultimately show ?case using 2 by (simp add: card_Un_disjoint)
qed simp

section \<open>The loop\<close>

fun overlap :: "nat \<Rightarrow> nat \<Rightarrow> entries \<Rightarrow> nat \<times> nat \<times> entries" where
  "overlap h t [] = (h, t, [])"
| "overlap h t ((x, p) # E) =
     (if t < x then (h, t, (x, p) # E)
      else if h < x + length p
           then if h < x \<and> x + length p < t then overlap h t E
                else let (h', t', E') = overlap (if x \<le> h then x + length p else h) (if t \<le> x + length p then x else t) E
                     in (h', t', (x, p) # E')
           else let (h', t', E') = overlap h t E in (h', t', (x, p) # E'))"

text \<open>The positions that are compared lie in less than half of the circle from \<open>w\<close> on.\<close>

definition within :: "nat \<Rightarrow> nat \<Rightarrow> bool" where
  "within w x \<longleftrightarrow> w \<le> x \<and> x < w + 2 ^ 31"

lemma within_compare:
  assumes "within w x" and "within w y"
  shows "seq_gt (seq_of iss x) (seq_of iss y) \<longleftrightarrow> y < x" "seq_le (seq_of iss x) (seq_of iss y) \<longleftrightarrow> x \<le> y"
    "seq_ge (seq_of iss x) (seq_of iss y) \<longleftrightarrow> y \<le> x" "seq_lt (seq_of iss x) (seq_of iss y) \<longleftrightarrow> x < y"
    "seq_of iss x = seq_of iss y \<longleftrightarrow> x = y"
  using assms seq_compare [of x y iss] by (auto simp: within_def)

definition all_within :: "nat \<Rightarrow> entries \<Rightarrow> bool" where
  "all_within w E \<longleftrightarrow> (\<forall>(x, p)\<in>set E. within w x \<and> within w (x + length p))"

lemma all_within_Cons [simp]: "all_within w ((x, p) # E) \<longleftrightarrow> within w x \<and> within w (x + length p) \<and> all_within w E"
  by (auto simp: all_within_def)

lemma size_of: "seq_of iss x + pkt_size p = seq_of iss (x + length p)"
  by (simp add: pkt_size_def seq_of_add)

lemma remove_overlap_eq:
  assumes "within w h" and "within w t" and "all_within w E"
  shows "case overlap h t E of (h', t', E') \<Rightarrow>
    within w h' \<and> within w t' \<and> all_within w E' \<and>
    (\<exists>n'. remove_overlap (seq_of iss h) (seq_of iss t) n (conv iss E) = (seq_of iss h', seq_of iss t', n', conv iss E') \<and>
       n' + of_nat (stored E) = n + of_nat (stored E'))"
  using assms
proof (induction h t E arbitrary: n rule: overlap.induct)
  case (1 h t)
  then show ?case by (simp add: all_within_def)
next
  case (2 h t x p E)
  then have w: "within w x" "within w (x + length p)" "within w h" "within w t" "all_within w E" by simp_all
  note C = within_compare [OF w(1) w(4)] within_compare [OF w(2) w(3)] within_compare [OF w(1) w(3)] within_compare [OF w(2) w(4)]
  show ?case
  proof (cases "t < x")
    case True
    then show ?thesis using w by (simp add: C)
  next
    case tx: False
    show ?thesis
    proof (cases "h < x + length p")
      case hl: True
      show ?thesis
      proof (cases "h < x \<and> x + length p < t")
        case True
        obtain h' t' E' where o: "overlap h t E = (h', t', E')" by (cases "overlap h t E") auto
        from "2.IH"(1) [OF tx hl True w(3,4,5), of "n - pkt_size p"] o obtain n' where
          "remove_overlap (seq_of iss h) (seq_of iss t) (n - pkt_size p) (conv iss E) = (seq_of iss h', seq_of iss t', n', conv iss E')"
          "n' + of_nat (stored E) = n - pkt_size p + of_nat (stored E')" "within w h'" "within w t'" "all_within w E'" by auto
        moreover from this have "n' + of_nat (length p + stored E) = n + of_nat (stored E')"
          by (simp add: pkt_size_def algebra_simps)
        ultimately show ?thesis using tx hl True o by (simp add: C size_of Let_def del: of_nat_add)
      next
        case False
        define h1 t1 where "h1 = (if x \<le> h then x + length p else h)" and "t1 = (if t \<le> x + length p then x else t)"
        note d = h1_def [symmetric] t1_def [symmetric]
        have wh: "within w h1" "within w t1" using w by (simp_all add: h1_def t1_def)
        obtain h' t' E' where o: "overlap h1 t1 E = (h', t', E')" by (cases "overlap h1 t1 E") auto
        from "2.IH"(2) [OF tx hl False, unfolded d, OF wh w(5), of n] o obtain n' where
          r: "remove_overlap (seq_of iss h1) (seq_of iss t1) n (conv iss E) = (seq_of iss h', seq_of iss t', n', conv iss E')"
          "n' + of_nat (stored E) = n + of_nat (stored E')" "within w h'" "within w t'" "all_within w E'" by auto
        have nc: "(h < x \<and> x + length p < t) = False" using False by blast
        have e: "(if x \<le> h then seq_of iss (x + length p) else seq_of iss h) = seq_of iss h1"
          "(if t \<le> x + length p then seq_of iss x else seq_of iss t) = seq_of iss t1"
          by (simp_all add: h1_def t1_def)
        have s: "n' + of_nat (length p + stored E) = n + of_nat (length p + stored E')" using r(2) by (simp add: algebra_simps)
        have "overlap h t ((x, p) # E) = (h', t', (x, p) # E')"
          by (simp add: if_not_P [OF tx] if_P [OF hl] if_not_P [OF False] d o)
        moreover have "remove_overlap (seq_of iss h) (seq_of iss t) n (conv iss ((x, p) # E)) =
            (seq_of iss h', seq_of iss t', n', conv iss ((x, p) # E'))"
          using tx hl r(1) by (simp add: C size_of Let_def e nc)
        ultimately show ?thesis using r s w by (simp del: of_nat_add)
      qed
    next
      case hl: False
      obtain h' t' E' where o: "overlap h t E = (h', t', E')" by (cases "overlap h t E") auto
      from "2.IH"(3) [OF tx hl w(3,4,5), of n] o obtain n' where
        "remove_overlap (seq_of iss h) (seq_of iss t) n (conv iss E) = (seq_of iss h', seq_of iss t', n', conv iss E')"
        "n' + of_nat (stored E) = n + of_nat (stored E')" "within w h'" "within w t'" "all_within w E'" by auto
      moreover from this have "n' + of_nat (length p + stored E) = n + of_nat (length p + stored E')" by (simp add: algebra_simps)
      ultimately show ?thesis using tx hl o w by (simp add: C size_of Let_def del: of_nat_add)
    qed
  qed
qed

section \<open>What the loop leaves\<close>

lemma overlap_bounds: "overlap h t E = (h', t', E') \<Longrightarrow> chain lo E \<Longrightarrow> h \<le> h' \<and> t' \<le> t \<and> chain lo E' \<and> set E' \<subseteq> set E"
proof (induction h t E arbitrary: h' t' E' lo rule: overlap.induct)
  case (2 h t x p E)
  have c: "lo \<le> x" "p \<noteq> []" "chain (x + length p) E" "chain lo E" using "2.prems" chain_mono by auto
  let ?h = "if x \<le> h then x + length p else h" and ?t = "if t \<le> x + length p then x else t"
  show ?case
  proof (cases "t < x")
    case True
    then show ?thesis using "2.prems" by auto
  next
    case tx: False
    show ?thesis
    proof (cases "h < x + length p")
      case hl: True
      show ?thesis
      proof (cases "h < x \<and> x + length p < t")
        case True
        then show ?thesis using "2.IH"(1) [OF tx hl True _ c(4)] "2.prems"(1) tx hl by auto
      next
        case False
        obtain h1 t1 E1 where o: "overlap ?h ?t E = (h1, t1, E1)" by (metis prod_cases3)
        then have "h' = h1" "t' = t1" "E' = (x, p) # E1" using "2.prems"(1) tx hl False by simp_all
        moreover have "h \<le> ?h" "?t \<le> t" using hl tx by auto
        ultimately show ?thesis using "2.IH"(2) [OF tx hl False o c(3)] c by (auto split: if_splits)
      qed
    next
      case hl: False
      obtain h1 t1 E1 where o: "overlap h t E = (h1, t1, E1)" by (metis prod_cases3)
      then have "h' = h1" "t' = t1" "E' = (x, p) # E1" using "2.prems"(1) tx hl by simp_all
      then show ?thesis using "2.IH"(3) [OF tx hl o c(3)] c by auto
    qed
  qed
qed simp

lemma overlap_ahead: "overlap h t E = (h', t', E') \<Longrightarrow> chain lo E \<Longrightarrow> h < lo \<Longrightarrow> h < t \<Longrightarrow> h' = h \<and> h < t'"
proof (induction h t E arbitrary: h' t' E' lo rule: overlap.induct)
  case (2 h t x p E)
  have c: "chain (x + length p) E" "h < x + length p" "h < x" using "2.prems" by auto
  obtain h1 t1 E1 where o: "overlap h (if t \<le> x + length p then x else t) E = (h1, t1, E1)" by (metis prod_cases3)
  show ?case
  proof (cases "t < x")
    case True
    then show ?thesis using "2.prems" by simp
  next
    case tx: False
    show ?thesis
    proof (cases "x + length p < t")
      case True
      then show ?thesis using "2.IH"(1) [OF tx c(2) _ _ c(1,2)] "2.prems" tx c by simp
    next
      case False
      then have "h1 = h \<and> h < t1" using "2.IH"(2) [OF tx c(2) _ _ c(1), of h1 t1 E1] c o by simp
      then show ?thesis using "2.prems"(1) tx c False o by simp
    qed
  qed
qed simp

text \<open>
  Kept and new bytes are together what was there and what came; they do not overlap; and nothing is removed unless something is
  stored, whose first byte was missing.
\<close>

lemma overlap_cov:
  assumes "overlap h t E = (h', t', E')" and "chain lo E"
  shows "cov E' \<union> {h'..<t'} = cov E \<union> {h..<t} \<and> cov E' \<inter> {h'..<t'} = {} \<and> (t' \<le> h' \<longrightarrow> E' = E) \<and> (h' < t' \<longrightarrow> h' \<notin> cov E)"
  using assms
proof (induction h t E arbitrary: h' t' E' lo rule: overlap.induct)
  case (1 h t)
  then show ?case by simp
next
  case (2 h t x p E)
  have c: "chain (x + length p) E" "p \<noteq> []" using "2.prems" by auto
  have ge: "x + length p \<le> y" if "y \<in> cov E" for y using chain_cov [OF c(1) that] .
  show ?case
  proof (cases "t < x")
    case True
    have "x \<le> y" if "y \<in> cov ((x, p) # E)" for y using ge that by fastforce
    then show ?thesis using "2.prems"(1) True by fastforce
  next
    case tx: False
    show ?thesis
    proof (cases "h < x + length p")
      case hl: False
      obtain h1 t1 E1 where o: "overlap h t E = (h1, t1, E1)" by (metis prod_cases3)
      note i = "2.IH"(3) [OF tx hl o c(1)] overlap_bounds [OF o c(1)]
      have e: "h' = h1" "t' = t1" "E' = (x, p) # E1" using "2.prems"(1) tx hl o by simp_all
      have "{x..<x + length p} \<inter> {h1..<t1} = {}" using i hl by auto
      then show ?thesis using i e hl by auto
    next
      case hl: True
      show ?thesis
      proof (cases "h < x \<and> x + length p < t")
        case True
        then have o: "overlap h t E = (h', t', E')" using "2.prems"(1) tx hl by simp
        note i = "2.IH"(1) [OF tx hl True o c(1)] overlap_ahead [OF o c(1) hl]
        have "{x..<x + length p} \<subseteq> {h..<t}" using True by auto
        then show ?thesis using i True by auto
      next
        case False
        let ?h = "if x \<le> h then x + length p else h" and ?t = "if t \<le> x + length p then x else t"
        obtain h1 t1 E1 where o: "overlap ?h ?t E = (h1, t1, E1)" by (metis prod_cases3)
        note i = "2.IH"(2) [OF tx hl False o c(1)] overlap_bounds [OF o c(1)]
        have e: "h' = h1" "t' = t1" "E' = (x, p) # E1" using "2.prems"(1) tx hl False o by simp_all
        have s: "{x..<x + length p} \<union> {?h..<?t} = {x..<x + length p} \<union> {h..<t}" using False hl tx by (auto split: if_splits)
        have d: "{x..<x + length p} \<inter> {h1..<t1} = {}"
        proof (cases "x \<le> h")
          case True
          then show ?thesis using i(2) by auto
        next
          case nx: False
          then have "t1 \<le> x" using i(2) False by (auto split: if_splits)
          then show ?thesis by auto
        qed
        have "cov E' \<union> {h'..<t'} = {x..<x + length p} \<union> (cov E \<union> {?h..<?t})" using i(1) e by (simp add: Un_assoc)
        also have "\<dots> = cov E \<union> ({x..<x + length p} \<union> {?h..<?t})" by blast
        also have "\<dots> = cov ((x, p) # E) \<union> {h..<t}" unfolding s by simp blast
        finally have u: "cov E' \<union> {h'..<t'} = cov ((x, p) # E) \<union> {h..<t}" .
        have "cov E' \<inter> {h'..<t'} = {}" using i(1) d e by (simp add: Int_Un_distrib2)
        moreover have "t' \<le> h' \<longrightarrow> E' = (x, p) # E" using i(1) e by simp
        moreover have "h' < t' \<longrightarrow> h' \<notin> cov ((x, p) # E)"
        proof
          assume lt: "h' < t'"
          then have "h' \<notin> {x..<x + length p}" using d e by auto
          then show "h' \<notin> cov ((x, p) # E)" using i(1) lt e by simp
        qed
        ultimately show ?thesis using u by blast
      qed
    qed
  qed
qed

section \<open>Positions of the stream\<close>

text \<open>
  \<^verbatim>\<open>TcpRxBuffer\<close> against the stream the peer sends: the relation between a buffer and the part of the stream that has come, and
  the steps of \<^verbatim>\<open>Add\<close> on positions (insertion into the map, the advance of the next sequence number, the blocks).
\<close>

section \<open>Insertion and advance on positions\<close>

fun put_entry :: "nat \<Rightarrow> u8 list \<Rightarrow> entries \<Rightarrow> entries" where
  "put_entry h q [] = [(h, q)]"
| "put_entry h q ((y, p) # E) = (if h < y then (h, q) # (y, p) # E else (y, p) # put_entry h q E)"

fun reach :: "nat \<Rightarrow> entries \<Rightarrow> nat" where
  "reach n [] = n"
| "reach n ((y, p) # E) = (if y < n then reach n E else if n < y then n else reach (y + length p) E)"

lemma insert_data_eq:
  assumes "within w h" and "all_within w E" and "h \<notin> fst ` set E"
  shows "insert_data (seq_of iss h) q (conv iss E) = conv iss (put_entry h q E)"
  using assms
proof (induction E)
  case (Cons e E)
  obtain y p where e: "e = (y, p)" by (cases e) auto
  with Cons.prems have "within w y" "h \<noteq> y" by auto
  then show ?case using Cons e by (simp add: within_compare [OF \<open>within w h\<close>])
qed simp

lemma cov_put [simp]: "cov (put_entry h q E) = {h..<h + length q} \<union> cov E"
  by (induction h q E rule: put_entry.induct) auto

lemma stored_put [simp]: "stored (put_entry h q E) = length q + stored E"
  by (induction h q E rule: put_entry.induct) auto

lemma set_put [simp]: "set (put_entry h q E) = insert (h, q) (set E)"
  by (induction h q E rule: put_entry.induct) auto

lemma chain_put:
  assumes "chain lo E" and "lo \<le> h" and "q \<noteq> []" and "{h..<h + length q} \<inter> cov E = {}"
  shows "chain lo (put_entry h q E)"
  using assms
proof (induction lo E rule: chain.induct)
  case (2 lo y p E)
  then have c: "lo \<le> y" "p \<noteq> []" "chain (y + length p) E" by simp_all
  have d: "{h..<h + length q} \<inter> {y..<y + length p} = {}" "{h..<h + length q} \<inter> cov E = {}"
    using 2(5) by (simp_all add: Int_Un_distrib)
  have ne: "h \<in> {h..<h + length q}" "y \<in> {y..<y + length p}" using c \<open>q \<noteq> []\<close> by auto
  show ?case
  proof (cases "h < y")
    case True
    then have "h + length q \<le> y" using d(1) ne by (meson atLeastLessThan_iff disjoint_iff leI less_imp_le)
    then show ?thesis using True c 2(3,4) by simp
  next
    case False
    then have "y + length p \<le> h" using d(1) ne by (meson atLeastLessThan_iff disjoint_iff leI)
    then show ?thesis using "2.IH" [OF c(3) _ \<open>q \<noteq> []\<close> d(2)] False c by simp
  qed
qed simp

lemma reach_bounds:
  assumes "chain lo E" and "\<forall>(y, p)\<in>set E. y < n \<longrightarrow> y + length p \<le> n"
  shows "n \<le> reach n E \<and> {n..<reach n E} \<subseteq> cov E \<and> reach n E \<notin> cov E \<and> (reach n E = n \<or> reach n E \<in> (\<lambda>(y, p). y + length p) ` set E)"
  using assms
proof (induction n E arbitrary: lo rule: reach.induct)
  case (2 n y p E)
  have c: "p \<noteq> []" "chain (y + length p) E" using "2.prems"(1) by simp_all
  have ge: "y + length p \<le> z" if "z \<in> cov E" for z using chain_cov [OF c(2) that] .
  show ?case
  proof (cases "y < n")
    case True
    then have i: "n \<le> reach n E \<and> {n..<reach n E} \<subseteq> cov E \<and> reach n E \<notin> cov E \<and> (reach n E = n \<or> reach n E \<in> (\<lambda>(y, p). y + length p) ` set E)"
      using "2.IH"(1) [OF True c(2)] "2.prems"(2) by simp
    moreover have "y + length p \<le> n" using "2.prems"(2) True by simp
    ultimately show ?thesis using True by auto
  next
    case yn: False
    show ?thesis
    proof (cases "n < y")
      case True
      then show ?thesis using ge by fastforce
    next
      case False
      with yn have "y = n" by simp
      have "y + length p \<le> z" if "(z, q) \<in> set E" for z q using chain_below [OF c(2) that] by simp
      then have "\<forall>(z, q)\<in>set E. z < y + length p \<longrightarrow> z + length q \<le> y + length p" by fastforce
      note i = "2.IH"(2) [OF yn False c(2) this]
      have "{n..<reach (y + length p) E} = {y..<y + length p} \<union> {y + length p..<reach (y + length p) E}"
        using i \<open>y = n\<close> by auto
      then show ?thesis using i \<open>y = n\<close> by auto
    qed
  qed
qed simp

section \<open>Blocks\<close>

definition sack_ok :: "u32 \<Rightarrow> nat set \<Rightarrow> SackBlock list \<Rightarrow> bool" where
  "sack_ok iss C bl \<longleftrightarrow> (\<forall>b\<in>set bl. \<exists>p q. b = (seq_of iss p, seq_of iss q) \<and> p < q \<and> {p..<q} \<subseteq> C)"

lemma sack_ok_simps [simp]:
  "sack_ok iss C []" "sack_ok iss C (bl @ bl') \<longleftrightarrow> sack_ok iss C bl \<and> sack_ok iss C bl'"
  "sack_ok iss C (b # bl) \<longleftrightarrow> (\<exists>p q. b = (seq_of iss p, seq_of iss q) \<and> p < q \<and> {p..<q} \<subseteq> C) \<and> sack_ok iss C bl"
  by (auto simp: sack_ok_def)

lemma sack_ok_subset: "sack_ok iss C bl \<Longrightarrow> set bl' \<subseteq> set bl \<Longrightarrow> sack_ok iss C bl'"
  unfolding sack_ok_def by blast

lemma sack_ok_mono: "sack_ok iss C bl \<Longrightarrow> C \<subseteq> C' \<Longrightarrow> sack_ok iss C' bl"
  unfolding sack_ok_def by blast

text \<open>The blocks of bytes in the buffer lie in one window.\<close>

definition window :: "nat \<Rightarrow> nat set" where
  "window x = {x..<x + 2 ^ 30}"

lemma block_within:
  assumes "{p..<q} \<subseteq> window x" and "p < q"
  shows "within (x - 2 ^ 29) p" "within (x - 2 ^ 29) q"
proof -
  from assms have "p \<in> window x" "q - 1 \<in> window x" by auto
  then show "within (x - 2 ^ 29) p" "within (x - 2 ^ 29) q" using assms(2) by (auto simp: window_def within_def)
qed

lemma clear_ok:
  assumes "sack_ok iss C bl" and "C \<subseteq> window x" and "within (x - 2 ^ 29) n"
  shows "\<exists>bl'. ClearSackList (seq_of iss n) bl = Some bl' \<and> set bl' \<subseteq> set bl \<and> length bl' \<le> length bl \<and>
    (\<forall>b\<in>set bl'. seq_gt (snd b) (seq_of iss n))"
proof -
  have "seq_lt (fst b) (snd b)" if "b \<in> set bl" for b
  proof -
    from assms(1) that obtain p q where b: "b = (seq_of iss p, seq_of iss q)" "p < q" "{p..<q} \<subseteq> C"
      unfolding sack_ok_def by blast
    then have "{p..<q} \<subseteq> window x" using assms(2) by blast
    from block_within [OF this b(2)] b show ?thesis by (simp add: within_compare)
  qed
  then show ?thesis by (auto simp: ClearSackList_def list_all_iff seq_le_def)
qed

definition merge_ok :: "u32 \<Rightarrow> nat set \<Rightarrow> nat \<Rightarrow> nat \<Rightarrow> u32 set \<Rightarrow> nat \<Rightarrow> SackBlock list option \<Rightarrow> bool" where
  "merge_ok iss C h t V k r \<longleftrightarrow> (\<exists>bl h' t'. r = Some ((seq_of iss h', seq_of iss t') # bl) \<and>
     sack_ok iss C ((seq_of iss h', seq_of iss t') # bl) \<and> h' \<le> h \<and> t \<le> t' \<and> {h'..<t'} \<subseteq> C \<and>
     insert (seq_of iss t') (snd ` set bl) \<subseteq> V \<and> length bl \<le> k)"

lemma merge_ok_mono:
  assumes "merge_ok iss C h1 t1 V1 k1 r" and "h1 \<le> h" and "t \<le> t1" and "V1 \<subseteq> V" and "k1 \<le> k"
  shows "merge_ok iss C h t V k r"
proof -
  from assms(1) obtain bl h' t' where r: "r = Some ((seq_of iss h', seq_of iss t') # bl)"
    "sack_ok iss C ((seq_of iss h', seq_of iss t') # bl)" and b: "h' \<le> h1" "t1 \<le> t'" "{h'..<t'} \<subseteq> C"
    "insert (seq_of iss t') (snd ` set bl) \<subseteq> V1" "length bl \<le> k1"
    unfolding merge_ok_def by blast
  from b assms have "h' \<le> h" "t \<le> t'" "insert (seq_of iss t') (snd ` set bl) \<subseteq> V" "length bl \<le> k" by auto
  with r b(3) show ?thesis unfolding merge_ok_def by blast
qed

lemma sack_merge_ok:
  assumes "sack_ok iss C (f # ps @ rs)" and "C \<subseteq> window x"
    and "f = (seq_of iss h, seq_of iss t)" and "h < t" and "{h..<t} \<subseteq> C"
  shows "merge_ok iss C h t (snd ` set (f # ps @ rs)) (length ps + length rs) (sack_merge f ps rs)"
  using assms
proof (induction f ps rs arbitrary: h t rule: sack_merge.induct)
  case (1 f ps)
  then show ?case unfolding merge_ok_def by (intro exI [of _ ps] exI [of _ h] exI [of _ t]) auto
next
  case (2 f ps c rs)
  obtain p q where c: "c = (seq_of iss p, seq_of iss q)" "p < q" "{p..<q} \<subseteq> C" using "2.prems"(1) by auto
  have "{p..<q} \<subseteq> window x" "{h..<t} \<subseteq> window x" using c "2.prems" by auto
  note w = block_within [OF this(1) c(2)] block_within [OF this(2) \<open>h < t\<close>]
  have sub: "sack_ok iss C (ps @ rs)" using "2.prems"(1) by simp
  show ?case
  proof (cases "fst f = snd c")
    case True
    then have "h = q" using w c "2.prems"(3) by (simp add: within_compare)
    then have lt: "seq_lt (fst c) (snd f)" and r1: "p < t"
      using w c "2.prems"(3,4) by (simp_all add: within_compare)
    have "{p..<t} = {p..<q} \<union> {q..<t}" using c(2) \<open>h = q\<close> "2.prems"(4) by auto
    then have r: "p < t" "{p..<t} \<subseteq> C" using r1 c(3) \<open>h = q\<close> "2.prems"(5) by auto
    have ok: "sack_ok iss C ((fst c, snd f) # [] @ ps @ rs)" using sub r c "2.prems"(3) by auto
    have f: "(fst c, snd f) = (seq_of iss p, seq_of iss t)" using c "2.prems"(3) by simp
    have "merge_ok iss C h t (snd ` set (f # ps @ c # rs)) (length ps + length (c # rs)) (sack_merge (fst c, snd f) [] (ps @ rs))"
      by (rule merge_ok_mono [OF "2.IH"(1) [OF True _ ok "2.prems"(2) f r]]) (use lt \<open>h = q\<close> c(2) in auto)
    then show ?thesis using True lt by simp
  next
    case nl: False
    show ?thesis
    proof (cases "snd f = fst c")
      case True
      then have "t = p" using w c "2.prems"(3) by (simp add: within_compare)
      then have lt: "seq_lt (fst f) (snd c)" and r1: "h < q"
        using w c "2.prems"(3,4) by (simp_all add: within_compare)
      have "{h..<q} = {h..<t} \<union> {t..<q}" using c(2) \<open>t = p\<close> "2.prems"(4) by auto
      then have r: "h < q" "{h..<q} \<subseteq> C" using r1 c(3) \<open>t = p\<close> "2.prems"(5) by auto
      have ok: "sack_ok iss C ((fst f, snd c) # [] @ ps @ rs)" using sub r c "2.prems"(3) by auto
      have f: "(fst f, snd c) = (seq_of iss h, seq_of iss q)" using c "2.prems"(3) by simp
      have "merge_ok iss C h t (snd ` set (f # ps @ c # rs)) (length ps + length (c # rs)) (sack_merge (fst f, snd c) [] (ps @ rs))"
        by (rule merge_ok_mono [OF "2.IH"(2) [OF nl True _ ok "2.prems"(2) f r]]) (use lt \<open>t = p\<close> c(2) in auto)
      then show ?thesis using nl True lt by simp
    next
      case nr: False
      have "sack_ok iss C (f # (ps @ [c]) @ rs)" using "2.prems"(1) by simp
      from "2.IH"(3) [OF nl nr this "2.prems"(2-5)] show ?thesis using nl nr by auto
    qed
  qed
qed

end
