(* ===== verification/Tcp_Rx_Add.thy ===== *)
theory Tcp_Rx_Add
  imports Tcp_Rx_Overlap
begin

text \<open>
  The invariant that ties a \<^verbatim>\<open>TcpRxBuffer\<close> to the stream \<open>S\<close> of the peer, and \<^verbatim>\<open>Add\<close> under it.  Positions count the bytes of
  the stream from 0; \<open>iss\<close> is the sequence number of position 0.  \<open>x\<close> bytes have been taken out of the buffer, \<open>n\<close> is
  the first byte missing, \<open>E\<close> the map's entries and \<open>F\<close> the position of the FIN, if it has come.
\<close>

lemma reach_ge: "n \<le> reach n E"
  by (induction n E rule: reach.induct) auto

lemma advance_ok:
  assumes "all_within (x - 2 ^ 29) E" and "within (x - 2 ^ 29) n" and "sack_ok iss C bl" and "C \<subseteq> window x"
    and "\<forall>b\<in>set bl. seq_gt (snd b) (seq_of iss n)" and "\<forall>e\<in>set E. snd e \<noteq> []"
  shows "\<exists>a' bl'. advance (seq_of iss n) a bl (conv iss E) = Some (seq_of iss (reach n E), a', bl') \<and>
    a' + of_nat n = a + of_nat (reach n E) \<and> set bl' \<subseteq> set bl \<and> length bl' \<le> length bl \<and>
    (\<forall>b\<in>set bl'. seq_gt (snd b) (seq_of iss (reach n E))) \<and> (reach n E = n \<longrightarrow> bl' = bl)"
  using assms
proof (induction n E arbitrary: a bl rule: reach.induct)
  case (2 n y p E)
  then have w: "within (x - 2 ^ 29) y" "within (x - 2 ^ 29) (y + length p)" "within (x - 2 ^ 29) n" "all_within (x - 2 ^ 29) E"
    by simp_all
  note C = within_compare [OF w(1) w(3)]
  show ?case
  proof (cases "y < n")
    case True
    then show ?thesis using "2.IH"(1) [OF True w(4,3) "2.prems"(3-5)] "2.prems"(6) by (simp add: C)
  next
    case yn: False
    show ?thesis
    proof (cases "n < y")
      case True
      then show ?thesis using yn "2.prems"(5) by (simp add: C)
    next
      case False
      with yn have e: "y = n" by simp
      obtain bl1 where cl: "ClearSackList (seq_of iss (y + length p)) bl = Some bl1" "set bl1 \<subseteq> set bl" "length bl1 \<le> length bl"
        "\<forall>b\<in>set bl1. seq_gt (snd b) (seq_of iss (y + length p))"
        using clear_ok [OF "2.prems"(3,4) w(2)] by blast
      have ne: "\<forall>e\<in>set E. snd e \<noteq> []" using "2.prems"(6) by simp
      have gt: "n < reach (y + length p) E" using reach_ge [of "y + length p" E] e "2.prems"(6) by (cases p) auto
      have ok: "sack_ok iss C bl1" using sack_ok_subset [OF "2.prems"(3) cl(2)] .
      from "2.IH"(2) [OF yn False w(4,2) ok "2.prems"(4) cl(4) ne, of "a + pkt_size p"] obtain a' bl' where
        r: "advance (seq_of iss (y + length p)) (a + pkt_size p) bl1 (conv iss E) = Some (seq_of iss (reach (y + length p) E), a', bl')"
        "a' + of_nat (y + length p) = a + pkt_size p + of_nat (reach (y + length p) E)" "set bl' \<subseteq> set bl1" "length bl' \<le> length bl1"
        "\<forall>b\<in>set bl'. seq_gt (snd b) (seq_of iss (reach (y + length p) E))" by blast
      have "a' + of_nat n = a + of_nat (reach (y + length p) E)" using r(2) e by (simp add: pkt_size_def algebra_simps)
      moreover have "advance (seq_of iss n) a bl (conv iss ((y, p) # E)) = Some (seq_of iss (reach (y + length p) E), a', bl')"
        using r(1) cl(1) yn False C by (simp add: size_of)
      ultimately show ?thesis using yn False r(3,4,5) cl(2,3) gt by auto
    qed
  qed
qed simp

section \<open>The invariant\<close>

definition next_pos :: "nat option \<Rightarrow> nat \<Rightarrow> nat" where
  "next_pos F n = (if F = Some n then n + 1 else n)"

definition bytes_ok :: "(nat \<Rightarrow> u8) \<Rightarrow> entries \<Rightarrow> bool" where
  "bytes_ok S E \<longleftrightarrow> (\<forall>(y, p)\<in>set E. p = map S [y..<y + length p])"

definition fin_ok :: "nat option \<Rightarrow> nat \<Rightarrow> nat \<Rightarrow> entries \<Rightarrow> bool" where
  "fin_ok F x n E \<longleftrightarrow> (case F of None \<Rightarrow> True | Some f \<Rightarrow> cov E \<subseteq> {..<f} \<and> n \<le> f \<and> f \<le> x + 2 ^ 30)"

definition blocks_ok :: "u32 \<Rightarrow> nat \<Rightarrow> nat set \<Rightarrow> SackBlock list \<Rightarrow> bool" where
  "blocks_ok iss n C bl \<longleftrightarrow> sack_ok iss C bl \<and> (\<forall>b\<in>set bl. seq_gt (snd b) (seq_of iss n)) \<and> length bl \<le> 4"

definition layout_ok :: "nat \<Rightarrow> nat \<Rightarrow> entries \<Rightarrow> bool" where
  "layout_ok x n E \<longleftrightarrow> chain x E \<and> cov E \<subseteq> window x \<and> x \<le> n \<and> {x..<n} \<subseteq> cov E \<and> n \<notin> cov E"

definition rx_ok :: "(nat \<Rightarrow> u8) \<Rightarrow> u32 \<Rightarrow> nat option \<Rightarrow> nat \<Rightarrow> nat \<Rightarrow> entries \<Rightarrow> TcpRxBuffer \<Rightarrow> bool" where
  "rx_ok S iss F x n E b \<longleftrightarrow>
     rx_data b = conv iss E \<and> layout_ok x n E \<and> bytes_ok S E \<and> fin_ok F x n E \<and>
     rx_nextRxSeq b = seq_of iss (next_pos F n) \<and> rx_gotFin b = (F \<noteq> None) \<and> (\<forall>f. F = Some f \<longrightarrow> rx_finSeq b = seq_of iss f) \<and>
     rx_size b = of_nat (stored E) \<and> rx_availBytes b = of_nat (n - x) \<and> blocks_ok iss n (cov E) (rx_sackList b)"

lemma in_cov_window: "layout_ok x n E \<Longrightarrow> (y, p) \<in> set E \<Longrightarrow> x \<le> y \<and> p \<noteq> [] \<and> y + length p \<le> x + 2 ^ 30"
proof -
  assume l: "layout_ok x n E" and i: "(y, p) \<in> set E"
  then have b: "x \<le> y" "p \<noteq> []" using chain_below unfolding layout_ok_def by blast+
  then have "y + length p - 1 \<in> {y..<y + length p}" by (cases p) auto
  then have "y + length p - 1 \<in> cov E" using i unfolding cov_def by blast
  then have "y + length p - 1 \<in> window x" using l by (auto simp: layout_ok_def)
  then show ?thesis using b by (cases "length p") (auto simp: window_def)
qed

lemma layout_all_within: "layout_ok x n E \<Longrightarrow> all_within (x - 2 ^ 29) E"
  using in_cov_window unfolding all_within_def within_def by fastforce

lemma layout_next: "layout_ok x n E \<Longrightarrow> n \<le> x + 2 ^ 30"
proof -
  assume l: "layout_ok x n E"
  show ?thesis
  proof (cases "x = n")
    case False
    with l have "n - 1 \<in> {x..<n}" by (auto simp: layout_ok_def)
    with l have "n - 1 \<in> window x" by (auto simp: layout_ok_def)
    then show ?thesis by (auto simp: window_def)
  qed simp
qed

text \<open>What has been received: what was taken out and what is stored.\<close>

definition received :: "nat \<Rightarrow> entries \<Rightarrow> nat set" where
  "received x E = {..<x} \<union> cov E"

lemma received_below: "layout_ok x n E \<Longrightarrow> {..<n} \<subseteq> received x E \<and> n \<notin> received x E"
proof -
  assume l: "layout_ok x n E"
  have "{..<n} \<subseteq> {..<x} \<union> {x..<n}" by auto
  then show ?thesis using l by (auto simp: layout_ok_def received_def)
qed

lemma stored_bound: "layout_ok x n E \<Longrightarrow> stored E \<le> 2 ^ 30"
proof -
  assume l: "layout_ok x n E"
  then have "card (cov E) \<le> card (window x)" by (intro card_mono) (auto simp: layout_ok_def window_def)
  then show ?thesis using l chain_card [of x E] by (simp add: layout_ok_def window_def)
qed

section \<open>The steps of Add\<close>

definition limit :: "entries \<Rightarrow> nat \<Rightarrow> nat \<Rightarrow> nat \<Rightarrow> nat" where
  "limit E m a l = (case E of [] \<Rightarrow> a + l | (y, _) # _ \<Rightarrow> min (a + l) (y + m))"

definition trim_head :: "nat \<Rightarrow> entries \<Rightarrow> nat \<Rightarrow> nat \<Rightarrow> nat \<Rightarrow> nat" where
  "trim_head nx E m a l = (if E = [] then max a nx else min (max a nx) (limit E m a l))"

definition seg_ok :: "nat option \<Rightarrow> nat \<Rightarrow> nat \<Rightarrow> nat \<Rightarrow> nat \<Rightarrow> bool" where
  "seg_ok F x m a l \<longleftrightarrow> x \<le> a + 2 ^ 29 \<and> a + l < x + 2 ^ 30 \<and> m \<le> 2 ^ 29 \<and> (\<forall>f. F = Some f \<longrightarrow> a + l \<le> f)"

lemma trim_window_eq:
  assumes "rx_ok S iss F x n E b" and "seg_ok F x m a l" and "m = unat (rx_maxBuffer b)"
  defines "h \<equiv> trim_head (next_pos F n) E m a l" and "t \<equiv> limit E m a l"
  shows "trim_window b (seq_of iss a) (seq_of iss (a + l)) = (seq_of iss h, seq_of iss t)"
    and "within (x - 2 ^ 29) h" and "within (x - 2 ^ 29) t"
proof -
  have l: "layout_ok x n E" using assms(1) by (simp add: rx_ok_def)
  have nx: "x \<le> next_pos F n" "next_pos F n \<le> x + 2 ^ 30 + 1"
    using l layout_next [OF l] by (auto simp: next_pos_def layout_ok_def)
  have w: "within (x - 2 ^ 29) a" "within (x - 2 ^ 29) (a + l)" "within (x - 2 ^ 29) (next_pos F n)"
    using assms(2) nx by (auto simp: seg_ok_def within_def)
  note C = within_compare [OF w(1) w(3)] within_compare [OF w(2) w(3)]
  have d: "rx_data b = conv iss E" "rx_nextRxSeq b = seq_of iss (next_pos F n)" using assms(1) by (simp_all add: rx_ok_def)
  have "trim_window b (seq_of iss a) (seq_of iss (a + l)) = (seq_of iss h, seq_of iss t) \<and> within (x - 2 ^ 29) h \<and> within (x - 2 ^ 29) t"
  proof (cases E)
    case Nil
    then show ?thesis using w by (simp add: trim_window_def d C h_def t_def trim_head_def limit_def max_def)
  next
    case (Cons e E1)
    obtain y p where e: "e = (y, p)" by (cases e)
    then have y: "x \<le> y" "y + length p \<le> x + 2 ^ 30" "p \<noteq> []" using in_cov_window [OF l, of y p] Cons by simp_all
    then have "y < x + 2 ^ 30" by (cases p) auto
    then have wm: "within (x - 2 ^ 29) (y + m)" using y assms(2) by (auto simp: seg_ok_def within_def)
    have key: "seq_of iss y + rx_maxBuffer b = seq_of iss (y + m)" by (simp add: assms(3) seq_of_def add.assoc)
    define t1 where "t1 = min (a + l) (y + m)"
    define h1 where "h1 = max a (next_pos F n)"
    have w1: "within (x - 2 ^ 29) t1" "within (x - 2 ^ 29) h1" using w wm by (simp_all add: t1_def h1_def min_def max_def)
    have r1: "(if seq_lt (seq_of iss a) (seq_of iss (next_pos F n)) then seq_of iss (next_pos F n) else seq_of iss a) = seq_of iss h1"
      by (simp add: C h1_def max_def)
    have r2: "(if seq_lt (seq_of iss (y + m)) (seq_of iss (a + l)) then seq_of iss (y + m) else seq_of iss (a + l)) = seq_of iss t1"
      by (simp add: within_compare [OF wm w(2)] t1_def min_def)
    have r3: "(if seq_lt (seq_of iss t1) (seq_of iss h1) then seq_of iss t1 else seq_of iss h1) = seq_of iss (min h1 t1)"
      by (simp add: within_compare [OF w1] min_def)
    have ht: "h = min h1 t1" "t = t1" using Cons e by (simp_all add: h_def t_def trim_head_def limit_def h1_def t1_def)
    have "trim_window b (seq_of iss a) (seq_of iss (a + l)) = (seq_of iss (min h1 t1), seq_of iss t1)"
      by (simp only: trim_window_def Let_def d Cons e entries_simps list.case prod.case key r1 r2 r3)
    then show ?thesis using ht w1 by (simp add: min_def)
  qed
  then show "trim_window b (seq_of iss a) (seq_of iss (a + l)) = (seq_of iss h, seq_of iss t)"
    and "within (x - 2 ^ 29) h" and "within (x - 2 ^ 29) t" by blast+
qed

lemma trim_facts:
  assumes "layout_ok x n E" and "fin_ok F x n E" and "seg_ok F x m a l"
  defines "h \<equiv> trim_head (next_pos F n) E m a l" and "t \<equiv> limit E m a l"
  shows "t \<le> a + l" and "h < t \<Longrightarrow> a \<le> h \<and> n \<le> h" and "h < t \<Longrightarrow> F \<noteq> Some n"
    and "received x E \<union> {h..<t} = received x E \<union> {a..<t}"
proof -
  show "t \<le> a + l" by (simp add: t_def limit_def split: list.split)
  have f: "F = Some n \<Longrightarrow> a + l \<le> n" using assms(3) by (simp add: seg_ok_def)
  have t: "t \<le> a + l" by (simp add: t_def limit_def split: list.split)
  have h: "h = max a (next_pos F n) \<or> h = t \<and> t \<le> max a (next_pos F n)"
    by (auto simp: h_def trim_head_def t_def min_def)
  then show "h < t \<Longrightarrow> a \<le> h \<and> n \<le> h" and "h < t \<Longrightarrow> F \<noteq> Some n" using f t by (auto simp: next_pos_def split: if_splits)
  have "{..<n} \<subseteq> received x E" using received_below [OF assms(1)] by simp
  moreover have "{a..<t} \<subseteq> {..<n} \<union> {h..<t}" and "{h..<t} \<subseteq> {a..<t}" using h f t by (auto simp: next_pos_def split: if_splits)
  ultimately show "received x E \<union> {h..<t} = received x E \<union> {a..<t}" by blast
qed

text \<open>A new entry in a gap keeps the layout; the next byte missing is then the end of the run that begins at the old one.\<close>

lemma layout_put:
  assumes "layout_ok x n E" and "set E' \<subseteq> set E" and "chain x E'" and "cov E' \<union> {h..<t} = cov E \<union> {h0..<t0}"
    and "cov E' \<inter> {h..<t} = {}" and "n \<le> h" and "h < t" and "{h0..<t0} \<subseteq> window x" and "length q = t - h"
  defines "E2 \<equiv> put_entry h q E'"
  shows "layout_ok x (reach n E2) E2" and "cov E2 = cov E \<union> {h0..<t0}"
proof -
  have q: "q \<noteq> []" "h + length q = t" using assms(7,9) by auto
  show c: "cov E2 = cov E \<union> {h0..<t0}" using assms(4) by (auto simp: E2_def q)
  have ch: "chain x E2" unfolding E2_def
    by (rule chain_put [OF assms(3) _ q(1)]) (use assms(1,5,6) in \<open>auto simp: q layout_ok_def\<close>)
  have "y + length p \<le> n" if "(y, p) \<in> set E2" "y < n" for y p
  proof -
    have e: "(y, p) \<in> set E" using that assms(2,6) by (auto simp: E2_def)
    have "n \<notin> cov E" using assms(1) by (simp add: layout_ok_def)
    then have "n \<notin> {y..<y + length p}" using e unfolding cov_def by blast
    then show ?thesis using that(2) by simp
  qed
  then have r: "n \<le> reach n E2 \<and> {n..<reach n E2} \<subseteq> cov E2 \<and> reach n E2 \<notin> cov E2" using reach_bounds [OF ch] by blast
  have "{x..<reach n E2} \<subseteq> {x..<n} \<union> {n..<reach n E2}" by auto
  also have "\<dots> \<subseteq> cov E2" using r assms(1) by (auto simp: c layout_ok_def)
  finally have "{x..<reach n E2} \<subseteq> cov E2" .
  moreover have "cov E2 \<subseteq> window x" using assms(1,8) by (auto simp: c layout_ok_def)
  moreover have "x \<le> reach n E2" using r assms(1) by (simp add: layout_ok_def)
  ultimately show "layout_ok x (reach n E2) E2" using ch r by (simp add: layout_ok_def)
qed

lemma fin_ok_cov: "layout_ok x n E \<Longrightarrow> F = Some f \<Longrightarrow> cov E \<subseteq> {..<f} \<Longrightarrow> x \<le> f \<Longrightarrow> f \<le> x + 2 ^ 30 \<Longrightarrow> fin_ok F x n E"
proof -
  assume l: "layout_ok x n E" "cov E \<subseteq> {..<f}" "x \<le> f" "f \<le> x + 2 ^ 30" and F: "F = Some f"
  have "n \<le> f"
  proof (rule ccontr)
    assume "\<not> n \<le> f"
    then have "f \<in> {x..<n}" using l(3) by simp
    then show False using l(1,2) unfolding layout_ok_def by blast
  qed
  then show ?thesis using F l by (simp add: fin_ok_def)
qed

section \<open>The blocks after a segment\<close>

lemma update_sack_ok:
  assumes "blocks_ok iss n C bl" and "C \<subseteq> C2" and "C2 \<subseteq> window x" and "n < h" and "h < t" and "{h..<t} \<subseteq> C2" and "within (x - 2 ^ 29) n"
  shows "\<exists>bl'. UpdateSackList (seq_of iss n) (seq_of iss h) (seq_of iss t) bl = Some bl' \<and> blocks_ok iss n C2 bl' \<and>
    (\<exists>p q. hd bl' = (seq_of iss p, seq_of iss q) \<and> p \<le> h \<and> t \<le> q \<and> {p..<q} \<subseteq> C2)"
proof -
  have "{h..<t} \<subseteq> window x" using assms by blast
  note w = block_within [OF this assms(5)]
  have g: "seq_gt (seq_of iss h) (seq_of iss n)" "seq_gt (seq_of iss t) (seq_of iss n)"
    using assms(4,5,7) w by (simp_all add: within_compare)
  have o: "sack_ok iss C bl" "\<forall>b\<in>set bl. seq_gt (snd b) (seq_of iss n)" "length bl \<le> 4" using assms(1) by (simp_all add: blocks_ok_def)
  have "sack_ok iss C2 ((seq_of iss h, seq_of iss t) # [] @ bl)" using sack_ok_mono [OF o(1) assms(2)] assms(5,6) by auto
  from sack_merge_ok [OF this assms(3) refl assms(5,6)]
  obtain bl1 p q where m: "sack_merge (seq_of iss h, seq_of iss t) [] bl = Some ((seq_of iss p, seq_of iss q) # bl1)"
    "sack_ok iss C2 ((seq_of iss p, seq_of iss q) # bl1)" "p \<le> h" "t \<le> q" "{p..<q} \<subseteq> C2"
    "insert (seq_of iss q) (snd ` set bl1) \<subseteq> snd ` set ((seq_of iss h, seq_of iss t) # [] @ bl)" "length bl1 \<le> length bl"
    unfolding merge_ok_def by (auto simp del: sack_ok_simps)
  define bl' where "bl' = (let bs = (seq_of iss p, seq_of iss q) # bl1 in if 4 < length bs then butlast bs else bs)"
  have sub: "set bl' \<subseteq> set ((seq_of iss p, seq_of iss q) # bl1)" unfolding bl'_def Let_def by (auto split: if_splits dest: in_set_butlastD)
  have above: "seq_gt v (seq_of iss n)" if "v \<in> insert (seq_of iss q) (snd ` set bl1)" for v using m(6) that o(2) g(2) by fastforce
  have "seq_gt (snd b) (seq_of iss n)" if "b \<in> set bl'" for b
  proof -
    from that sub have "snd b \<in> insert (seq_of iss q) (snd ` set bl1)" by fastforce
    then show ?thesis by (rule above)
  qed
  moreover have "length bl' \<le> 4" using m(7) o(3) by (simp add: bl'_def Let_def)
  moreover have "hd bl' = (seq_of iss p, seq_of iss q)" by (cases bl1) (auto simp: bl'_def Let_def)
  moreover have "UpdateSackList (seq_of iss n) (seq_of iss h) (seq_of iss t) bl = Some bl'"
    using g(1) m(1) by (simp add: UpdateSackList_def bl'_def Let_def)
  moreover have "sack_ok iss C2 bl'" using sack_ok_subset [OF m(2) sub] .
  ultimately show ?thesis using m(3,4,5) by (intro exI [of _ bl'] conjI exI [of _ p] exI [of _ q]) (auto simp: blocks_ok_def)
qed

section \<open>Add\<close>

definition add_ok :: "(nat \<Rightarrow> u8) \<Rightarrow> u32 \<Rightarrow> nat option \<Rightarrow> nat \<Rightarrow> nat \<Rightarrow> entries \<Rightarrow> nat set \<Rightarrow> TcpRxBuffer \<Rightarrow> (bool \<times> TcpRxBuffer) option \<Rightarrow> bool" where
  "add_ok S iss F x n E new b r \<longleftrightarrow>
     (\<exists>n' E' b'. r = Some (\<not> new \<subseteq> received x E, b') \<and> rx_ok S iss F x n' E' b' \<and> received x E' = received x E \<union> new \<and>
        rx_maxBuffer b' = rx_maxBuffer b \<and>
        (\<not> new \<subseteq> received x E \<and> n' = n \<longrightarrow>
           (\<exists>p q. hd (rx_sackList b') = (seq_of iss p, seq_of iss q) \<and> new - received x E \<subseteq> {p..<q} \<and> {p..<q} \<subseteq> cov E')))"

lemma slice_stream: "a \<le> h \<Longrightarrow> h + k \<le> a + l \<Longrightarrow> take k (drop (h - a) (map S [a..<a + l])) = map S [h..<h + k]"
  by (simp add: take_map drop_map)

lemma add_stores:
  assumes rx: "rx_ok S iss F x n E b" and seg: "seg_ok F x (unat (rx_maxBuffer b)) a l" and t: "t \<le> a + l"
    and ht: "h < t" "a \<le> h" "n \<le> h" "F \<noteq> Some n" and w: "within (x - 2 ^ 29) h" "within (x - 2 ^ 29) t" "all_within (x - 2 ^ 29) E'"
    and E': "set E' \<subseteq> set E" "chain x E'" "cov E' \<union> {h..<t} = cov E \<union> {h0..<t0}" "cov E' \<inter> {h..<t} = {}"
    and h0: "{h0..<t0} \<subseteq> window x" "t0 \<le> a + l" and k: "k + of_nat (stored E) = rx_size b + of_nat (stored E')"
  defines "q \<equiv> map S [h..<t]" and "E2 \<equiv> put_entry h (map S [h..<t]) E'"
  shows "\<exists>bl next avail bl'. 
    (if seq_gt (seq_of iss h) (rx_nextRxSeq b) then UpdateSackList (rx_nextRxSeq b) (seq_of iss h) (seq_of iss t) (rx_sackList b)
       else Some (rx_sackList b)) = Some bl \<and>
    advance (rx_nextRxSeq b) (rx_availBytes b) bl (insert_data (seq_of iss h) q (conv iss E')) = Some (next, avail, bl') \<and>
    rx_ok S iss F x (reach n E2) E2 (b\<lparr>rx_data := insert_data (seq_of iss h) q (conv iss E'), rx_size := k + pkt_size q,
      rx_sackList := bl', rx_nextRxSeq := (if rx_gotFin b \<and> next = rx_finSeq b then next + 1 else next), rx_availBytes := avail\<rparr>) \<and>
    cov E2 = cov E \<union> {h0..<t0} \<and>
    (reach n E2 = n \<longrightarrow> (\<exists>p q. hd bl' = (seq_of iss p, seq_of iss q) \<and> {h..<t} \<subseteq> {p..<q} \<and> {p..<q} \<subseteq> cov E2))"
proof -
  have l: "layout_ok x n E" and byt: "bytes_ok S E" and fin: "fin_ok F x n E" and sk: "blocks_ok iss n (cov E) (rx_sackList b)"
    using rx by (simp_all add: rx_ok_def)
  have lq: "length q = t - h" by (simp add: q_def)
  note L = layout_put [OF l E' ht(3,1) h0(1) lq]
  have E2: "E2 = put_entry h q E'" by (simp add: E2_def q_def)
  have l2: "layout_ok x (reach n E2) E2" and c2: "cov E2 = cov E \<union> {h0..<t0}" using L by (simp_all add: E2)
  have C2: "cov E2 \<subseteq> window x" using l2 by (simp add: layout_ok_def)
  have wn: "within (x - 2 ^ 29) n" using l layout_next [OF l] by (auto simp: layout_ok_def within_def)
  have nx: "rx_nextRxSeq b = seq_of iss n" using rx ht(4) by (simp add: rx_ok_def next_pos_def)
  have "h \<notin> fst ` set E'"
  proof
    assume "h \<in> fst ` set E'"
    then obtain p where hp: "(h, p) \<in> set E'" by auto
    then have "p \<noteq> []" using chain_below [OF E'(2)] by simp
    then have "h \<in> {h..<h + length p}" by simp
    then have "h \<in> cov E'" using hp unfolding cov_def by blast
    then show False using E'(4) ht(1) by auto
  qed
  then have ins: "insert_data (seq_of iss h) q (conv iss E') = conv iss E2" unfolding E2 using w by (intro insert_data_eq) auto
  have ht2: "{h..<t} \<subseteq> cov E2" using E'(3) c2 by blast
  obtain bl where bl: "(if seq_gt (seq_of iss h) (seq_of iss n) then UpdateSackList (seq_of iss n) (seq_of iss h) (seq_of iss t) (rx_sackList b)
       else Some (rx_sackList b)) = Some bl" "blocks_ok iss n (cov E2) bl"
    "n < h \<longrightarrow> (\<exists>p q. hd bl = (seq_of iss p, seq_of iss q) \<and> p \<le> h \<and> t \<le> q \<and> {p..<q} \<subseteq> cov E2)"
  proof (cases "n < h")
    case True
    then have "seq_gt (seq_of iss h) (seq_of iss n)" using w(1) wn by (simp add: within_compare)
    then show ?thesis using that update_sack_ok [OF sk _ C2 True ht(1) ht2 wn] c2 True by auto
  next
    case False
    then have "\<not> seq_gt (seq_of iss h) (seq_of iss n)" using w(1) wn by (simp add: within_compare)
    moreover have "blocks_ok iss n (cov E2) (rx_sackList b)" using sk sack_ok_mono [of iss "cov E" _ "cov E2"] c2 by (simp add: blocks_ok_def)
    ultimately show ?thesis using that [of "rx_sackList b"] False by simp
  qed
  have ne: "\<forall>e\<in>set E2. snd e \<noteq> []" using l2 chain_below [of x E2] by (fastforce simp: layout_ok_def)
  have so: "sack_ok iss (cov E2) bl" "\<forall>b\<in>set bl. seq_gt (snd b) (seq_of iss n)" "length bl \<le> 4" using bl(2) by (simp_all add: blocks_ok_def)
  obtain avail bl' where ad: "advance (seq_of iss n) (rx_availBytes b) bl (conv iss E2) = Some (seq_of iss (reach n E2), avail, bl')"
    "avail + of_nat n = rx_availBytes b + of_nat (reach n E2)" "set bl' \<subseteq> set bl" "length bl' \<le> length bl"
    "\<forall>b\<in>set bl'. seq_gt (snd b) (seq_of iss (reach n E2))" "reach n E2 = n \<longrightarrow> bl' = bl"
    using advance_ok [OF layout_all_within [OF l2] wn so(1) C2 so(2) ne] by blast
  have "blocks_ok iss (reach n E2) (cov E2) bl'" using sack_ok_subset [OF so(1) ad(3)] ad(4,5) so(3) by (simp add: blocks_ok_def)
  moreover have "bytes_ok S E2" using byt E'(1) ht(1) by (auto simp: bytes_ok_def E2 q_def)
  moreover have fin2: "fin_ok F x (reach n E2) E2"
  proof (cases F)
    case (Some f)
    have "cov E2 \<subseteq> {..<f}" using fin seg h0(2) Some by (auto simp: c2 fin_ok_def seg_ok_def)
    moreover have "x \<le> f" "f \<le> x + 2 ^ 30" using fin l Some by (simp_all add: fin_ok_def layout_ok_def)
    ultimately show ?thesis using fin_ok_cov [OF l2 Some] by simp
  qed (simp add: fin_ok_def)
  moreover have "avail = of_nat (reach n E2 - x)"
  proof -
    have "x \<le> n" "x \<le> reach n E2" using l l2 by (simp_all add: layout_ok_def)
    then have "avail + of_nat n = of_nat (reach n E2 - x) + of_nat n" using ad(2) rx by (simp add: rx_ok_def of_nat_diff)
    then show ?thesis by simp
  qed
  moreover have "k + pkt_size q = of_nat (stored E2)"
  proof -
    have "k = of_nat (stored E')" using k rx by (simp add: rx_ok_def)
    then show ?thesis by (simp add: E2 pkt_size_def)
  qed
  moreover have "(if rx_gotFin b \<and> seq_of iss (reach n E2) = rx_finSeq b then seq_of iss (reach n E2) + 1 else seq_of iss (reach n E2)) =
      seq_of iss (next_pos F (reach n E2))"
  proof (cases F)
    case None
    then show ?thesis using rx by (simp add: rx_ok_def next_pos_def)
  next
    case (Some f)
    have "within (x - 2 ^ 29) (reach n E2)" using l2 layout_next [OF l2] by (auto simp: layout_ok_def within_def)
    moreover have "rx_finSeq b = seq_of iss f" "rx_gotFin b" using rx Some by (simp_all add: rx_ok_def)
    moreover have "within (x - 2 ^ 29) f" using fin l Some by (auto simp: fin_ok_def layout_ok_def within_def)
    ultimately show ?thesis using Some seq_of_add [of iss "reach n E2" 1] by (auto simp: within_compare(5) next_pos_def)
  qed
  moreover have nh: "reach n E2 = n \<longrightarrow> n < h"
  proof
    assume "reach n E2 = n"
    then have "n \<notin> {h..<t}" using l2 ht2 by (auto simp: layout_ok_def)
    then show "n < h" using ht by auto
  qed
  ultimately have "rx_ok S iss F x (reach n E2) E2 (b\<lparr>rx_data := insert_data (seq_of iss h) q (conv iss E'), rx_size := k + pkt_size q,
      rx_sackList := bl', rx_nextRxSeq := (if rx_gotFin b \<and> seq_of iss (reach n E2) = rx_finSeq b then seq_of iss (reach n E2) + 1
         else seq_of iss (reach n E2)), rx_availBytes := avail\<rparr>)"
    using rx l2 ins by (simp add: rx_ok_def)
  moreover have "reach n E2 = n \<longrightarrow> (\<exists>p q. hd bl' = (seq_of iss p, seq_of iss q) \<and> {h..<t} \<subseteq> {p..<q} \<and> {p..<q} \<subseteq> cov E2)"
    using nh bl(3) ad(6) by fastforce
  ultimately show ?thesis using bl(1) ad(1) c2 unfolding nx ins by blast
qed

lemma within_diff:
  assumes "within w x" and "within w y" and "x \<le> y"
  shows "unat (seq_minus (seq_of iss y) (seq_of iss x)) = y - x"
proof -
  have "y - x < 2 ^ 32" using assms by (auto simp: within_def)
  then show ?thesis using seq_of_diff [OF assms(3)] by (simp add: seq_minus_eq)
qed

lemma Add_ok:
  assumes rx: "rx_ok S iss F x n E b" and seg: "seg_ok F x m a l" and m: "m = unat (rx_maxBuffer b)"
  shows "add_ok S iss F x n E {a..<limit E m a l} b (TcpRxBuffer_Add (map S [a..<a + l]) (seq_of iss a) b)"
proof -
  define h0 where "h0 = trim_head (next_pos F n) E m a l"
  define t0 where "t0 = limit E m a l"
  have l: "layout_ok x n E" and fin: "fin_ok F x n E" and d: "rx_data b = conv iss E" using rx by (simp_all add: rx_ok_def)
  note T = trim_window_eq [OF rx seg m, folded h0_def t0_def] and K = trim_facts [OF l fin seg, folded h0_def t0_def]
  obtain h t E' where ov: "overlap h0 t0 E = (h, t, E')" by (cases "overlap h0 t0 E") auto
  have ch: "chain x E" using l by (simp add: layout_ok_def)
  note B = overlap_bounds [OF ov ch] and V = overlap_cov [OF ov ch]
  from remove_overlap_eq [OF T(2,3) layout_all_within [OF l], of iss "rx_size b"] ov obtain k where
    r: "remove_overlap (seq_of iss h0) (seq_of iss t0) (rx_size b) (conv iss E) = (seq_of iss h, seq_of iss t, k, conv iss E')"
    and k: "k + of_nat (stored E) = rx_size b + of_nat (stored E')"
    and w: "within (x - 2 ^ 29) h" "within (x - 2 ^ 29) t" "all_within (x - 2 ^ 29) E'" by auto
  have start: "trim_window b (seq_of iss a) (seq_of iss a + pkt_size (map S [a..<a + l])) = (seq_of iss h0, seq_of iss t0)"
    using T(1) by (simp add: pkt_size_def seq_of_add)
  have ge: "seq_ge (seq_of iss h) (seq_of iss t) \<longleftrightarrow> t \<le> h" using w by (simp add: within_compare)
  have sub: "cov E' \<subseteq> cov E" using B unfolding cov_def by blast
  show ?thesis
  proof (cases "t \<le> h")
    case True
    then have e: "E' = E" "k = rx_size b" using V k by simp_all
    have "{h0..<t0} \<subseteq> cov E" using V True e by auto
    then have rec: "{a..<t0} \<subseteq> received x E" using K(4) by (auto simp: received_def)
    have "TcpRxBuffer_Add (map S [a..<a + l]) (seq_of iss a) b = Some (False, b)"
      using True e r by (simp add: TcpRxBuffer_Add_def start d ge)
    moreover have "received x E \<union> {a..<t0} = received x E" using rec by blast
    ultimately show ?thesis unfolding add_ok_def t0_def [symmetric] using rx rec
      by (intro exI [of _ n] exI [of _ E] exI [of _ b]) simp
  next
    case False
    then have ht: "h < t" and lt: "h0 < t0" using B by simp_all
    have a: "a \<le> h" "n \<le> h" "F \<noteq> Some n" "t \<le> a + l" using K(1) K(2,3) [OF lt] B by auto
    have win: "{h0..<t0} \<subseteq> window x" using K(1) K(2) [OF lt] seg l by (auto simp: window_def seg_ok_def layout_ok_def)
    have "within (x - 2 ^ 29) a" using seg by (auto simp: seg_ok_def within_def)
    note D = within_diff [OF this w(1) a(1)] within_diff [OF w(1,2) less_imp_le [OF ht]]
    have frag: "take (t - h) (drop (h - a) (map S [a..<a + l])) = map S [h..<t]"
      using slice_stream [OF a(1), of "t - h" l S] a(4) ht by simp
    have "h \<notin> cov E'" using V ht by auto
    have fresh: "seq_of iss h \<notin> fst ` set (conv iss E')"
    proof
      assume "seq_of iss h \<in> fst ` set (conv iss E')"
      then obtain y p where y: "(y, p) \<in> set E'" "seq_of iss y = seq_of iss h" by (auto simp: conv_def)
      then have "within (x - 2 ^ 29) y" using w(3) by (auto simp: all_within_def)
      then have "y = h" using within_compare(5) [OF _ w(1)] y(2) by blast
      moreover have "p \<noteq> []" using y B chain_below by blast
      then have "y \<in> {y..<y + length p}" by simp
      then have "y \<in> cov E'" using y(1) unfolding cov_def by blast
      ultimately show False using \<open>h \<notin> cov E'\<close> by simp
    qed
    define E2 where "E2 = put_entry h (map S [h..<t]) E'"
    from add_stores [OF rx seg [unfolded m] a(4) ht a(1-3) w _ _ _ _ win K(1) k] B V obtain bl nx avail bl' where
      u: "(if seq_gt (seq_of iss h) (rx_nextRxSeq b) then UpdateSackList (rx_nextRxSeq b) (seq_of iss h) (seq_of iss t) (rx_sackList b)
         else Some (rx_sackList b)) = Some bl"
      and ad: "advance (rx_nextRxSeq b) (rx_availBytes b) bl (insert_data (seq_of iss h) (map S [h..<t]) (conv iss E')) = Some (nx, avail, bl')"
      and R: "rx_ok S iss F x (reach n E2) E2 (b\<lparr>rx_data := insert_data (seq_of iss h) (map S [h..<t]) (conv iss E'),
        rx_size := k + pkt_size (map S [h..<t]), rx_sackList := bl',
        rx_nextRxSeq := (if rx_gotFin b \<and> nx = rx_finSeq b then nx + 1 else nx), rx_availBytes := avail\<rparr>)"
      and c2: "cov E2 = cov E \<union> {h0..<t0}"
      and hd: "reach n E2 = n \<longrightarrow> (\<exists>p q. hd bl' = (seq_of iss p, seq_of iss q) \<and> {h..<t} \<subseteq> {p..<q} \<and> {p..<q} \<subseteq> cov E2)"
      unfolding E2_def by blast
    define b' where "b' = b\<lparr>rx_data := insert_data (seq_of iss h) (map S [h..<t]) (conv iss E'),
        rx_size := k + pkt_size (map S [h..<t]), rx_sackList := bl',
        rx_nextRxSeq := (if rx_gotFin b \<and> nx = rx_finSeq b then nx + 1 else nx), rx_availBytes := avail\<rparr>"
    have fits: "\<not> length (map S [a..<a + l]) < h - a + (t - h)" using ht a(1,4) by simp
    have nge: "\<not> seq_ge (seq_of iss h) (seq_of iss t)" using ge ht by simp
    have code: "TcpRxBuffer_Add (map S [a..<a + l]) (seq_of iss a) b = Some (True, b')"
      unfolding TcpRxBuffer_Add_def Let_def start prod.case d r D frag if_not_P [OF fits] if_not_P [OF nge]
      using fresh by (simp add: u ad b'_def split del: if_split cong: if_cong)
    have rc: "received x E2 = received x E \<union> {a..<t0}" using K(4) c2 by (auto simp: received_def)
    have "h \<notin> received x E" using V ht a(2) l by (auto simp: received_def layout_ok_def)
    moreover have "h \<in> {a..<t0}" using a B ht by auto
    ultimately have new: "\<not> {a..<t0} \<subseteq> received x E" by blast
    have fresh_in: "{a..<t0} - received x E \<subseteq> {h..<t}"
    proof
      fix y assume y: "y \<in> {a..<t0} - received x E"
      then have "y \<in> {h0..<t0}" using K(4) by blast
      then have "y \<in> cov E' \<union> {h..<t}" using V by blast
      then show "y \<in> {h..<t}" using y sub by (auto simp: received_def)
    qed
    have first: "\<exists>p q. hd (rx_sackList b') = (seq_of iss p, seq_of iss q) \<and> {a..<t0} - received x E \<subseteq> {p..<q} \<and> {p..<q} \<subseteq> cov E2"
      if same: "reach n E2 = n"
    proof -
      obtain p q where pq: "hd bl' = (seq_of iss p, seq_of iss q)" "{h..<t} \<subseteq> {p..<q}" "{p..<q} \<subseteq> cov E2" using hd same by blast
      have "{a..<t0} - received x E \<subseteq> {p..<q}" using fresh_in pq(2) by (rule subset_trans)
      moreover have "rx_sackList b' = bl'" by (simp add: b'_def)
      ultimately show ?thesis using pq(1,3) by metis
    qed
    show ?thesis unfolding add_ok_def t0_def [symmetric]
    proof (rule exI [of _ "reach n E2"], rule exI [of _ E2], rule exI [of _ b'], intro conjI impI)
      show "TcpRxBuffer_Add (map S [a..<a + l]) (seq_of iss a) b = Some (\<not> {a..<t0} \<subseteq> received x E, b')" using code new by simp
      show "rx_ok S iss F x (reach n E2) E2 b'" unfolding b'_def by (rule R)
      show "received x E2 = received x E \<union> {a..<t0}" by (rule rc)
      show "rx_maxBuffer b' = rx_maxBuffer b" by (simp add: b'_def)
      show "\<exists>p q. hd (rx_sackList b') = (seq_of iss p, seq_of iss q) \<and> {a..<t0} - received x E \<subseteq> {p..<q} \<and> {p..<q} \<subseteq> cov E2"
        if c: "\<not> {a..<t0} \<subseteq> received x E \<and> reach n E2 = n"
        by (rule first [OF conjunct2 [OF c]])
    qed
  qed
qed

section \<open>Extraction\<close>

text \<open>
  \<^verbatim>\<open>Extract\<close> and \<^verbatim>\<open>SetFinSequence\<close> under the invariant of the receive buffer.
\<close>

lemma chain_first: "chain x E \<Longrightarrow> x \<in> cov E \<Longrightarrow> \<exists>p E1. E = (x, p) # E1 \<and> p \<noteq> [] \<and> chain (x + length p) E1"
proof (cases E)
  case (Cons e E1)
  assume c: "chain x E" and i: "x \<in> cov E"
  obtain y p where e: "e = (y, p)" by (cases e)
  have "y = x" using c i Cons e chain_cov [of "y + length p" E1 x] by auto
  then show ?thesis using c Cons e by simp
qed simp

lemma filter_conv:
  assumes "within w y" and "all_within w E" and "y \<notin> fst ` set E"
  shows "filter (\<lambda>e. fst e \<noteq> seq_of iss y) (conv iss E) = conv iss E"
  using assms
proof (induction E)
  case (Cons e E)
  obtain z p where e: "e = (z, p)" by (cases e)
  then have "within w z" "z \<noteq> y" using Cons.prems by auto
  then show ?case using Cons e by (simp add: within_compare(5) [OF _ assms(1)])
qed simp

lemma of_nat_le32: "(j :: nat) < 2 ^ 32 \<Longrightarrow> k < 2 ^ 32 \<Longrightarrow> ((of_nat j :: u32) \<le> of_nat k) = (j \<le> k)"
  by (simp add: word_le_nat_alt unat_of_nat_u32)

definition taken_ok :: "(nat \<Rightarrow> u8) \<Rightarrow> u32 \<Rightarrow> nat \<Rightarrow> nat \<Rightarrow> entries \<Rightarrow> u8 list \<Rightarrow> u32 \<Rightarrow> u32 \<Rightarrow>
    (u8 list \<times> u32 \<times> u32 \<times> (u32 \<times> u8 list) list) option \<Rightarrow> bool" where
  "taken_ok S iss x k E out sz av r \<longleftrightarrow>
     (\<exists>E' sz'. r = Some (out @ map S [x..<x + k], sz', av - of_nat k, conv iss E') \<and> sz' + of_nat (stored E) = sz + of_nat (stored E') \<and>
        chain (x + k) E' \<and> bytes_ok S E' \<and> cov E' = cov E - {x..<x + k})"

lemma extract_loop_ok:
  assumes "chain x E" and "{x..<x + k} \<subseteq> cov E" and "bytes_ok S E" and "all_within w E" and "within w nx" and "x + k \<le> nx" and "k < 2 ^ 31"
  shows "taken_ok S iss x k E out sz av (extract_loop (of_nat k) (seq_of iss nx) out sz av (conv iss E))"
  using assms
proof (induction E arbitrary: x k out sz av)
  case Nil
  then have "k = 0" by auto
  then show ?case by (auto simp: taken_ok_def bytes_ok_def intro!: exI [of _ "[]"])
next
  case (Cons e E1)
  show ?case
  proof (cases "k = 0")
    case True
    then show ?thesis using Cons.prems(1,3) by (auto simp: taken_ok_def intro!: exI [of _ "e # E1"])
  next
    case False
    then have "x \<in> cov (e # E1)" using Cons.prems(2) by auto
    then obtain p where e: "e = (x, p)" and p: "p \<noteq> []" and ch: "chain (x + length p) E1"
      using chain_first [OF Cons.prems(1)] by auto
    have b: "p = map S [x..<x + length p]" "bytes_ok S E1" using Cons.prems(3) e by (auto simp: bytes_ok_def)
    have w: "within w x" "within w (x + length p)" "all_within w E1" using Cons.prems(4) e by simp_all
    have ge: "x + length p \<le> y" if "y \<in> cov E1" for y using chain_cov [OF ch that] .
    have ge': "x \<le> y" if "y \<in> cov E1" for y using ge [OF that] by simp
    have lp: "length p < 2 ^ 32" using w(1,2) by (auto simp: within_def)
    have cmp: "(pkt_size p \<le> of_nat k) = (length p \<le> k)" unfolding pkt_size_def
      by (rule of_nat_le32 [OF lp]) (use Cons.prems(7) in simp)
    have nz: "(of_nat k :: u32) \<noteq> 0" using False Cons.prems(7) by (simp add: unat_eq_zero [symmetric] unat_of_nat_u32 del: unat_eq_zero)
    have le: "seq_le (seq_of iss x) (seq_of iss nx)" using w(1) Cons.prems(5,6) by (simp add: within_compare)
    show ?thesis
    proof (cases "length p \<le> k")
      case True
      have s: "{x + length p..<x + length p + (k - length p)} \<subseteq> cov E1"
      proof
        fix y assume y: "y \<in> {x + length p..<x + length p + (k - length p)}"
        then have "y \<in> {x..<x + k}" using True by auto
        then have "y \<in> cov (e # E1)" using Cons.prems(2) by blast
        then show "y \<in> cov E1" using y e by auto
      qed
      have "taken_ok S iss (x + length p) (k - length p) E1 (out @ p) (sz - pkt_size p) (av - pkt_size p)
          (extract_loop (of_nat (k - length p)) (seq_of iss nx) (out @ p) (sz - pkt_size p) (av - pkt_size p) (conv iss E1))"
        by (rule Cons.IH [OF ch s b(2) w(3) Cons.prems(5)]) (use Cons.prems(6,7) True in auto)
      then obtain E' sz' where r: "extract_loop (of_nat (k - length p)) (seq_of iss nx) (out @ p) (sz - pkt_size p) (av - pkt_size p) (conv iss E1)
          = Some ((out @ p) @ map S [x + length p..<x + length p + (k - length p)], sz', av - pkt_size p - of_nat (k - length p), conv iss E')"
        and q: "sz' + of_nat (stored E1) = sz - pkt_size p + of_nat (stored E')" "chain (x + length p + (k - length p)) E'" "bytes_ok S E'"
          "cov E' = cov E1 - {x + length p..<x + length p + (k - length p)}" unfolding taken_ok_def by blast
      have k: "x + length p + (k - length p) = x + k" using True by simp
      have kw: "(of_nat (k - length p) :: u32) = of_nat k - pkt_size p" using True by (simp add: pkt_size_def of_nat_diff)
      have "p @ map S [x + length p..<x + k] = map S [x..<x + k]"
        using True b(1) by (metis k le_add1 map_append upt_add_eq_append)
      moreover have "cov E' = cov (e # E1) - {x..<x + k}" using q(4) ge ge' True e k by auto
      moreover have "sz' + of_nat (length p + stored E1) = sz + of_nat (stored E')" using q(1) by (simp add: pkt_size_def algebra_simps)
      ultimately show ?thesis unfolding taken_ok_def using r q(2,3) True cmp nz le e
        by (intro exI [of _ E'] exI [of _ sz']) (simp add: k kw del: of_nat_add)
    next
      case part: False
      have uk: "unat (of_nat k :: u32) = k" using Cons.prems(7) by (simp add: unat_of_nat_u32)
      define E' where "E' = (x + k, drop k p) # E1"
      have ch': "chain (x + k) E'" using ch part by (simp add: E'_def)
      have keys: "x + k \<notin> fst ` set (e # E1)" "x \<notin> fst ` set E'" using False e part by (auto simp: E'_def dest!: chain_below [OF ch])
      have wk: "within w (x + k)" using w(1,2) part by (auto simp: within_def)
      have "put_entry (x + k) (drop k p) (e # E1) = (x, p) # E'"
      proof (cases E1)
        case (Cons e2 E2)
        then have "x + k < fst e2" using ch part by (cases e2) auto
        then show ?thesis using Cons e by (cases e2) (simp add: E'_def)
      qed (simp add: e E'_def)
      then have ins: "insert_data (seq_of iss x + of_nat k) (drop k p) (conv iss (e # E1)) = (seq_of iss x, p) # conv iss E'"
        using insert_data_eq [OF wk Cons.prems(4) keys(1), of iss] by (simp add: seq_of_add)
      have aw: "all_within w E'" using w wk part by (simp add: E'_def)
      have fil: "filter (\<lambda>e. fst e \<noteq> seq_of iss x) ((seq_of iss x, p) # conv iss E') = conv iss E'"
        using filter_conv [OF w(1) aw keys(2)] by simp
      have "extract_loop (of_nat k) (seq_of iss nx) out sz av (conv iss (e # E1)) =
          Some (out @ take k p, sz - of_nat k, av - of_nat k, conv iss E')"
        using nz le cmp part e ins fil uk by simp
      moreover have "take k p = map S [x..<x + k]"
        by (subst b(1)) (use part in \<open>simp add: take_map\<close>)
      moreover have "drop k p = map S [x + k..<x + k + length (drop k p)]"
        by (subst b(1)) (use part in \<open>simp add: drop_map\<close>)
      then have "bytes_ok S E'" using b(2) by (simp add: bytes_ok_def E'_def)
      moreover have "cov E' = cov (e # E1) - {x..<x + k}" using ge part e by (force simp: E'_def)
      moreover have "sz - of_nat k + of_nat (stored (e # E1)) = sz + of_nat (stored E')"
        using part e by (simp add: E'_def of_nat_diff)
      ultimately show ?thesis unfolding taken_ok_def using ch' by (intro exI [of _ E'] exI [of _ "sz - of_nat k"]) simp
    qed
  qed
qed

lemma blocks_ok_shrink:
  assumes "blocks_ok iss n C bl" and "C \<subseteq> window x" and "n \<notin> C" and "within (x - 2 ^ 29) n" and "C' = C - {x..<y}" and "y \<le> n"
  shows "blocks_ok iss n C' bl"
proof -
  have "\<exists>p q. b = (seq_of iss p, seq_of iss q) \<and> p < q \<and> {p..<q} \<subseteq> C'" if b: "b \<in> set bl" for b
  proof -
    from assms(1) b obtain p q where pq: "b = (seq_of iss p, seq_of iss q)" "p < q" "{p..<q} \<subseteq> C"
      unfolding blocks_ok_def sack_ok_def by blast
    then have "{p..<q} \<subseteq> window x" using assms(2) by blast
    note w = block_within [OF this pq(2)]
    have "n < q" using assms(1,4) b pq(1) w(2) by (auto simp: blocks_ok_def within_compare)
    moreover have "n \<notin> {p..<q}" using pq(3) assms(3) by blast
    ultimately have "{p..<q} \<inter> {x..<y} = {}" using assms(6) by auto
    then show ?thesis using pq assms(5) by blast
  qed
  then show ?thesis using assms(1) by (simp add: blocks_ok_def sack_ok_def)
qed

lemma Extract_ok:
  fixes m :: u32
  assumes rx: "rx_ok S iss F x n E b"
  defines "k \<equiv> min (unat m) (n - x)"
  shows "\<exists>E' b'. TcpRxBuffer_Extract m b = Some (if k = 0 then None else Some (map S [x..<x + k]), b') \<and>
    rx_ok S iss F (x + k) n E' b' \<and> received (x + k) E' = received x E \<and> rx_maxBuffer b' = rx_maxBuffer b"
proof -
  have l: "layout_ok x n E" and by0: "bytes_ok S E" and fin: "fin_ok F x n E" and d: "rx_data b = conv iss E"
    and sk: "blocks_ok iss n (cov E) (rx_sackList b)" and av: "rx_availBytes b = of_nat (n - x)" using rx by (simp_all add: rx_ok_def)
  have b: "x \<le> n" "n \<le> x + 2 ^ 30" using l layout_next [OF l] by (simp_all add: layout_ok_def)
  then have kb: "k \<le> n - x" "k < 2 ^ 31" by (auto simp: k_def)
  have mk: "min m (rx_availBytes b) = of_nat k"
  proof -
    have "unat (of_nat (n - x) :: u32) = n - x" by (rule unat_of_nat_u32) (use b in simp)
    then show ?thesis unfolding av k_def by (auto simp: min_def word_le_nat_alt)
  qed
  show ?thesis
  proof (cases "k = 0")
    case True
    then show ?thesis using rx mk by (simp add: TcpRxBuffer_Extract_def) blast
  next
    case False
    have nz: "(of_nat k :: u32) \<noteq> 0" using False kb by (simp add: unat_eq_zero [symmetric] unat_of_nat_u32 del: unat_eq_zero)
    have wn: "within (x - 2 ^ 29) n" and wx: "within (x - 2 ^ 29) (next_pos F n)" using b by (auto simp: within_def next_pos_def)
    have sub: "{x..<x + k} \<subseteq> cov E" using l kb by (force simp: layout_ok_def)
    have "x + k \<le> n" using kb b by linarith
    then have le: "x + k \<le> next_pos F n" by (simp add: next_pos_def)
    have "chain x E" using l by (simp add: layout_ok_def)
    from extract_loop_ok [OF this sub by0 layout_all_within [OF l] wx le kb(2), of iss "[]" "rx_size b" "rx_availBytes b"]
    obtain E' sz' where r: "extract_loop (of_nat k) (seq_of iss (next_pos F n)) [] (rx_size b) (rx_availBytes b) (conv iss E) =
        Some (map S [x..<x + k], sz', rx_availBytes b - of_nat k, conv iss E')"
      and q: "sz' + of_nat (stored E) = rx_size b + of_nat (stored E')" "chain (x + k) E'" "bytes_ok S E'" "cov E' = cov E - {x..<x + k}"
      unfolding taken_ok_def by auto
    define b' where "b' = b\<lparr>rx_size := sz', rx_availBytes := rx_availBytes b - of_nat k, rx_data := conv iss E'\<rparr>"
    have "layout_ok (x + k) n E'" using l q(2,4) kb by (auto simp: layout_ok_def window_def)
    moreover have "fin_ok F (x + k) n E'" using fin q(4) kb by (auto simp: fin_ok_def split: option.splits)
    moreover have "blocks_ok iss n (cov E') (rx_sackList b)"
      by (rule blocks_ok_shrink [OF sk _ _ wn q(4)]) (use l kb b in \<open>auto simp: layout_ok_def\<close>)
    moreover have "sz' = of_nat (stored E')" using q(1) rx by (simp add: rx_ok_def)
    moreover have "rx_availBytes b - of_nat k = of_nat (n - (x + k))" using of_nat_diff [OF kb(1), where 'a = "32 word"] by (simp add: av)
    ultimately have "rx_ok S iss F (x + k) n E' b'" using rx q(3) by (simp add: rx_ok_def b'_def)
    moreover have nx: "rx_nextRxSeq b = seq_of iss (next_pos F n)" using rx by (simp add: rx_ok_def)
    have "TcpRxBuffer_Extract m b = Some (Some (map S [x..<x + k]), b')"
      unfolding TcpRxBuffer_Extract_def Let_def mk d nx if_not_P [OF nz] r using False by (simp add: b'_def)
    moreover have "received (x + k) E' = received x E"
    proof -
      have "{..<x + k} = {..<x} \<union> {x..<x + k}" by auto
      then show ?thesis using q(4) sub by (auto simp: received_def)
    qed
    ultimately show ?thesis using False by (intro exI [of _ E'] exI [of _ b']) (simp add: b'_def)
  qed
qed

lemma SetFin_ok:
  assumes rx: "rx_ok S iss F x n E b" and "F = None \<or> F = Some f" and "cov E \<subseteq> {..<f}" and "x \<le> f" and "f \<le> x + 2 ^ 30"
  shows "rx_ok S iss (Some f) x n E (SetFinSequence (seq_of iss f) b)"
proof -
  have l: "layout_ok x n E" using rx by (simp add: rx_ok_def)
  have fin: "fin_ok (Some f) x n E" by (rule fin_ok_cov [OF l refl assms(3-5)])
  have n: "x \<le> n" "n \<le> f" using l fin by (simp_all add: layout_ok_def fin_ok_def)
  then have w: "within (x - 2 ^ 29) (next_pos F n)" "within (x - 2 ^ 29) f" using assms(5) by (auto simp: within_def next_pos_def)
  have nx: "rx_nextRxSeq b = seq_of iss (next_pos F n)" using rx by (simp add: rx_ok_def)
  have "(if seq_of iss (next_pos F n) = seq_of iss f then seq_of iss (next_pos F n) + 1 else seq_of iss (next_pos F n)) = seq_of iss (next_pos (Some f) n)"
  proof -
    have "within (x - 2 ^ 29) n" using n assms(5) by (auto simp: within_def)
    then have "seq_of iss n = seq_of iss f \<longleftrightarrow> n = f" using w(2) by (simp add: within_compare)
    then show ?thesis using assms(2) n seq_of_add [of iss f 1] within_compare(5) [OF w] by (auto simp: next_pos_def)
  qed
  then have "rx_nextRxSeq (SetFinSequence (seq_of iss f) b) = seq_of iss (next_pos (Some f) n)"
    by (auto simp: SetFinSequence_def Let_def nx split: if_splits)
  then show ?thesis using rx fin by (simp add: rx_ok_def SetFinSequence_def Let_def)
qed

end
