(* ===== verification/Tcp_Rx_History.thy ===== *)
theory Tcp_Rx_History
  imports Tcp_Rx_Add
begin

text \<open>
  The receive buffer over a whole connection: segments of the peer's stream \<open>S\<close> in any order, repeated and overlapping,
  the FIN, and extractions, in any interleaving.  The abstract state is the set \<open>R\<close> of positions received and the
  bytes \<open>out\<close> handed to the application.
\<close>

definition accepted :: "u32 \<Rightarrow> nat set \<Rightarrow> nat \<Rightarrow> nat \<Rightarrow> nat \<Rightarrow> nat set" where
  "accepted m R x a l = (if R \<subseteq> {..<x} then {a..<a + l} else {a..<min (a + l) (Min (R - {..<x}) + unat m)})"

definition segment_fits :: "nat option \<Rightarrow> nat \<Rightarrow> nat \<Rightarrow> nat \<Rightarrow> bool" where
  "segment_fits F x a l \<longleftrightarrow> x \<le> a + 2 ^ 29 \<and> a + l < x + 2 ^ 30 \<and> (\<forall>f. F = Some f \<longrightarrow> a + l \<le> f)"

inductive rx_history :: "(nat \<Rightarrow> u8) \<Rightarrow> u32 \<Rightarrow> u32 \<Rightarrow> nat option \<Rightarrow> nat set \<Rightarrow> u8 list \<Rightarrow> TcpRxBuffer \<Rightarrow> bool"
  for S iss m where
  history_start: "unat m \<le> 2 ^ 29 \<Longrightarrow>
    rx_history S iss m None {} [] (SetNextRxSequence iss (SetMaxBufferSize m (TcpRxBuffer_new n)))"
| history_segment: "rx_history S iss m F R out b \<Longrightarrow> segment_fits F (length out) a l \<Longrightarrow>
    TcpRxBuffer_Add (map S [a..<a + l]) (seq_of iss a) b = Some (res, b') \<Longrightarrow>
    rx_history S iss m F (R \<union> accepted m R (length out) a l) out b'"
| history_fin: "rx_history S iss m F R out b \<Longrightarrow> F = None \<or> F = Some f \<Longrightarrow> R \<subseteq> {..<f} \<Longrightarrow> f \<le> length out + 2 ^ 30 \<Longrightarrow>
    rx_history S iss m (Some f) R out (SetFinSequence (seq_of iss f) b)"
| history_extract: "rx_history S iss m F R out b \<Longrightarrow> TcpRxBuffer_Extract k b = Some (r, b') \<Longrightarrow>
    rx_history S iss m F R (out @ (case r of None \<Rightarrow> [] | Some p \<Rightarrow> p)) b'"

lemma accepted_eq:
  assumes "layout_ok x n E"
  shows "accepted m (received x E) x a l = {a..<limit E (unat m) a l}"
proof (cases E)
  case Nil
  then show ?thesis by (simp add: accepted_def received_def limit_def)
next
  case (Cons e E1)
  obtain y p where e: "e = (y, p)" by (cases e)
  have y: "x \<le> y" "p \<noteq> []" "chain y E" using assms Cons e by (auto simp: layout_ok_def)
  have i: "y \<in> cov E" using y(2) Cons e by simp
  have c: "cov E \<subseteq> {x..}" using assms by (auto simp: layout_ok_def window_def)
  have diff: "received x E - {..<x} = cov E" using c by (auto simp: received_def)
  have "finite (cov E)" by (auto simp: cov_def)
  then have "Min (cov E) = y" using i chain_cov [OF y(3)] by (intro Min_eqI) auto
  moreover have "\<not> received x E \<subseteq> {..<x}" using i y(1) by (auto simp: received_def)
  ultimately show ?thesis unfolding accepted_def diff limit_def using Cons e by simp
qed

lemma stream_append:
  assumes "out = map S [0..<length out]"
  shows "out @ map S [length out..<length out + j] = map S [0..<length out + j]"
  by (subst (1) assms) (simp add: upt_add_eq_append [of 0 "length out" j])

lemma rx_history_inv:
  assumes "rx_history S iss m F R out b"
  shows "\<exists>n E. rx_ok S iss F (length out) n E b \<and> R = received (length out) E \<and> out = map S [0..<length out] \<and>
    rx_maxBuffer b = m \<and> unat m \<le> 2 ^ 29"
  using assms
proof induction
  case (history_start n)
  have "rx_ok S iss None 0 0 [] (SetNextRxSequence iss (SetMaxBufferSize m (TcpRxBuffer_new n)))"
    by (simp add: rx_ok_def SetNextRxSequence_def SetMaxBufferSize_def TcpRxBuffer_new_def layout_ok_def bytes_ok_def fin_ok_def
        next_pos_def seq_of_def blocks_ok_def)
  then show ?case using history_start
    by (intro exI [of _ 0] exI [of _ "[]"]) (simp add: received_def SetNextRxSequence_def SetMaxBufferSize_def)
next
  case (history_segment F R out b a l res b')
  then obtain n E where h: "rx_ok S iss F (length out) n E b" "R = received (length out) E" "out = map S [0..<length out]"
    "rx_maxBuffer b = m" "unat m \<le> 2 ^ 29" by blast
  have "seg_ok F (length out) (unat m) a l" using history_segment.hyps(2) h(5) by (auto simp: seg_ok_def segment_fits_def)
  from Add_ok [OF h(1) this] h(4) obtain n' E' where "rx_ok S iss F (length out) n' E' b'"
    "received (length out) E' = R \<union> {a..<limit E (unat m) a l}" "rx_maxBuffer b' = m"
    using history_segment.hyps(3) h(2) by (auto simp: add_ok_def)
  moreover have "layout_ok (length out) n E" using h(1) by (simp add: rx_ok_def)
  ultimately show ?case using h(2,3,5) accepted_eq by metis
next
  case (history_fin F R out b f)
  then obtain n E where h: "rx_ok S iss F (length out) n E b" "R = received (length out) E" "out = map S [0..<length out]"
    "rx_maxBuffer b = m" "unat m \<le> 2 ^ 29" by blast
  have "cov E \<subseteq> {..<f}" "{..<length out} \<subseteq> {..<f}" using history_fin.hyps(3) h(2) by (auto simp: received_def)
  then have "rx_ok S iss (Some f) (length out) n E (SetFinSequence (seq_of iss f) b)"
    using SetFin_ok [OF h(1) history_fin.hyps(2)] history_fin.hyps(4) by simp
  moreover have "rx_maxBuffer (SetFinSequence (seq_of iss f) b) = m" using h(4) by (simp add: SetFinSequence_def Let_def)
  ultimately show ?case using h by blast
next
  case (history_extract F R out b k r b')
  then obtain n E where h: "rx_ok S iss F (length out) n E b" "R = received (length out) E" "out = map S [0..<length out]"
    "rx_maxBuffer b = m" "unat m \<le> 2 ^ 29" by blast
  define j where "j = min (unat k) (n - length out)"
  from Extract_ok [OF h(1), of k, folded j_def] obtain E' where e: "r = (if j = 0 then None else Some (map S [length out..<length out + j]))"
    "rx_ok S iss F (length out + j) n E' b'" "received (length out + j) E' = R" "rx_maxBuffer b' = m"
    using history_extract.hyps(2) h(2,4) by auto
  let ?o = "out @ (case r of None \<Rightarrow> [] | Some p \<Rightarrow> p)"
  have lo: "length ?o = length out + j" using e(1) by simp
  have "?o = out @ map S [length out..<length out + j]" using e(1) by simp
  also have "\<dots> = map S [0..<length out + j]" by (rule stream_append [OF h(3)])
  finally have fo: "?o = map S [0..<length ?o]" unfolding lo .
  show ?case
  proof (rule exI [of _ n], rule exI [of _ E'], intro conjI)
    show "rx_ok S iss F (length ?o) n E' b'" unfolding lo by (rule e(2))
    show "R = received (length ?o) E'" unfolding lo by (rule e(3) [symmetric])
  qed (rule fo e(4) h(5))+
qed

section \<open>What a connection receives\<close>

definition missing :: "nat set \<Rightarrow> nat" where
  "missing R = (LEAST y. y \<notin> R)"

lemma missing_eq: "layout_ok x n E \<Longrightarrow> missing (received x E) = n"
  unfolding missing_def by (rule Least_equality) (use received_below in \<open>blast, metis lessThan_iff not_le subsetD\<close>)

definition delivers :: "u8 list option \<Rightarrow> u8 list" where
  "delivers r = (case r of None \<Rightarrow> [] | Some p \<Rightarrow> p)"

lemma rx_history_facts:
  assumes "rx_history S iss m F R out b"
  shows "out = map S [0..<length out] \<and> length out \<le> missing R \<and> {..<missing R} \<subseteq> R \<and>
    rx_nextRxSeq b = seq_of iss (if F = Some (missing R) then missing R + 1 else missing R) \<and>
    rx_availBytes b = of_nat (missing R - length out) \<and> rx_size b = of_nat (card (R - {..<length out})) \<and>
    (Finished b \<longleftrightarrow> F = Some (missing R)) \<and>
    length (rx_sackList b) \<le> 4 \<and>
    (\<forall>block\<in>set (rx_sackList b). \<exists>p q. block = (seq_of iss p, seq_of iss q) \<and> missing R < p \<and> p < q \<and> {p..<q} \<subseteq> R)"
proof -
  obtain n E where rx: "rx_ok S iss F (length out) n E b" and R: "R = received (length out) E" and out: "out = map S [0..<length out]"
    using rx_history_inv [OF assms] by blast
  have l: "layout_ok (length out) n E" and fin: "fin_ok F (length out) n E" and sk: "blocks_ok iss n (cov E) (rx_sackList b)"
    using rx by (simp_all add: rx_ok_def)
  have mi: "missing R = n" unfolding R by (rule missing_eq [OF l])
  have diff: "R - {..<length out} = cov E" using l by (auto simp: R received_def layout_ok_def window_def)
  have card: "card (cov E) = stored E" using l chain_card by (auto simp: layout_ok_def)
  have wn: "within (length out - 2 ^ 29) n" "within (length out - 2 ^ 29) (next_pos F n)"
    using l layout_next [OF l] by (auto simp: layout_ok_def within_def next_pos_def)
  have fi: "Finished b \<longleftrightarrow> F = Some n"
  proof (cases F)
    case (Some f)
    then have "within (length out - 2 ^ 29) f" using fin l by (auto simp: fin_ok_def layout_ok_def within_def)
    moreover have "n \<le> f" using fin Some by (simp add: fin_ok_def)
    ultimately show ?thesis using rx Some wn(2) by (auto simp: Finished_def rx_ok_def within_compare next_pos_def)
  qed (use rx in \<open>simp add: Finished_def rx_ok_def\<close>)
  have bl: "\<exists>p q. block = (seq_of iss p, seq_of iss q) \<and> n < p \<and> p < q \<and> {p..<q} \<subseteq> R" if i: "block \<in> set (rx_sackList b)" for block
  proof -
    obtain p q where pq: "block = (seq_of iss p, seq_of iss q)" "p < q" "{p..<q} \<subseteq> cov E"
      using sk i unfolding blocks_ok_def sack_ok_def by blast
    then have "{p..<q} \<subseteq> window (length out)" using l unfolding layout_ok_def by blast
    then have "within (length out - 2 ^ 29) q" using block_within(2) [OF _ pq(2)] by blast
    then have "n < q" using sk i pq(1) wn(1) by (auto simp: blocks_ok_def within_compare)
    moreover have "n \<notin> {p..<q}" using pq(3) l unfolding layout_ok_def by blast
    ultimately show ?thesis using pq R by (intro exI [of _ p] exI [of _ q]) (auto simp: received_def)
  qed
  have "length (rx_sackList b) \<le> 4" using sk by (simp add: blocks_ok_def)
  moreover have "rx_nextRxSeq b = seq_of iss (if F = Some n then n + 1 else n)" using rx by (simp add: rx_ok_def next_pos_def)
  moreover have "{..<n} \<subseteq> R" using received_below [OF l] R by simp
  moreover have "length out \<le> n" using l by (simp add: layout_ok_def)
  moreover have "rx_availBytes b = of_nat (n - length out)" "rx_size b = of_nat (stored E)" using rx by (simp_all add: rx_ok_def)
  ultimately show ?thesis unfolding mi diff card using out fi bl by blast
qed

text \<open>
  C24: Whatever order the segments of a stream arrive in, repeated or overlapping, what the application has taken out is the stream
  from its first byte on without gap or duplicate; the next sequence number is that of the first byte missing (one more behind
  the FIN); the bytes available are those up to it, the occupancy is what was received and not taken; the FIN counts as reached
  exactly when everything before it was received; and at most four blocks are reported, each of bytes that were received.
\<close>

theorem tcp_stream_reassembled:
  assumes "rx_history S iss m F R out b"
  shows "out = map S [0..<length out] \<and> length out \<le> missing R \<and> {..<missing R} \<subseteq> R \<and>
    rx_nextRxSeq b = seq_of iss (if F = Some (missing R) then missing R + 1 else missing R) \<and>
    rx_availBytes b = of_nat (missing R - length out) \<and> rx_size b = of_nat (card (R - {..<length out})) \<and>
    (Finished b \<longleftrightarrow> F = Some (missing R)) \<and>
    length (rx_sackList b) \<le> 4 \<and>
    (\<forall>block\<in>set (rx_sackList b). \<exists>p q. block = (seq_of iss p, seq_of iss q) \<and> missing R < p \<and> p < q \<and> {p..<q} \<subseteq> R)"
  by (rule rx_history_facts [OF assms])

text \<open>
  Adding a segment of the stream never fails an assertion; it reports whether the segment brought a byte that was not there
  and fits; and when it did without moving the next sequence number, the first block reported covers the new bytes (RFC 2018,
  rule (a)).
\<close>

theorem tcp_segment_accepted:
  assumes "rx_history S iss m F R out b" and "segment_fits F (length out) a l"
  shows "\<exists>b'. TcpRxBuffer_Add (map S [a..<a + l]) (seq_of iss a) b = Some (\<not> accepted m R (length out) a l \<subseteq> R, b') \<and>
    (\<not> accepted m R (length out) a l \<subseteq> R \<and> missing (R \<union> accepted m R (length out) a l) = missing R \<longrightarrow>
      (\<exists>p q. hd (rx_sackList b') = (seq_of iss p, seq_of iss q) \<and> accepted m R (length out) a l - R \<subseteq> {p..<q} \<and>
        {p..<q} \<subseteq> R \<union> accepted m R (length out) a l))"
proof -
  obtain n E where rx: "rx_ok S iss F (length out) n E b" and R: "R = received (length out) E" and m: "rx_maxBuffer b = m" "unat m \<le> 2 ^ 29"
    using rx_history_inv [OF assms(1)] by blast
  have l: "layout_ok (length out) n E" using rx by (simp add: rx_ok_def)
  have seg: "seg_ok F (length out) (unat m) a l" using assms(2) m(2) by (auto simp: seg_ok_def segment_fits_def)
  have new: "accepted m R (length out) a l = {a..<limit E (unat m) a l}" unfolding R by (rule accepted_eq [OF l])
  have "add_ok S iss F (length out) n E {a..<limit E (unat m) a l} b (TcpRxBuffer_Add (map S [a..<a + l]) (seq_of iss a) b)"
    using Add_ok [OF rx seg] m(1) by simp
  then obtain n' E' b' where A:
    "TcpRxBuffer_Add (map S [a..<a + l]) (seq_of iss a) b = Some (\<not> {a..<limit E (unat m) a l} \<subseteq> R, b')"
    "rx_ok S iss F (length out) n' E' b'" "received (length out) E' = R \<union> {a..<limit E (unat m) a l}"
    "\<not> {a..<limit E (unat m) a l} \<subseteq> R \<and> n' = n \<longrightarrow> (\<exists>p q. hd (rx_sackList b') = (seq_of iss p, seq_of iss q) \<and>
       {a..<limit E (unat m) a l} - R \<subseteq> {p..<q} \<and> {p..<q} \<subseteq> cov E')"
    unfolding add_ok_def R [symmetric] by blast
  have "layout_ok (length out) n' E'" using A(2) by (simp add: rx_ok_def)
  then have "missing (R \<union> {a..<limit E (unat m) a l}) = n'" unfolding A(3) [symmetric] by (rule missing_eq)
  moreover have "missing R = n" unfolding R by (rule missing_eq [OF l])
  moreover have "cov E' \<subseteq> R \<union> {a..<limit E (unat m) a l}" unfolding A(3) [symmetric] by (simp add: received_def)
  ultimately show ?thesis unfolding new using A(1,4) by (intro exI [of _ b'] conjI impI) (simp, meson subset_trans)
qed

text \<open>
  Taking data out never fails an assertion, and hands over all that was asked for of the bytes up to the first one missing:
  a request that is large enough gets everything that has been received in order.
\<close>

theorem tcp_extract_in_order:
  fixes k :: u32
  assumes "rx_history S iss m F R out b"
  shows "\<exists>r b'. TcpRxBuffer_Extract k b = Some (r, b') \<and> (r = None \<longleftrightarrow> k = 0 \<or> missing R = length out) \<and>
    out @ delivers r = map S [0..<min (length out + unat k) (missing R)]"
proof -
  obtain n E where rx: "rx_ok S iss F (length out) n E b" and R: "R = received (length out) E" and out: "out = map S [0..<length out]"
    using rx_history_inv [OF assms] by blast
  have l: "layout_ok (length out) n E" using rx by (simp add: rx_ok_def)
  have mi: "missing R = n" unfolding R by (rule missing_eq [OF l])
  have le: "length out \<le> n" using l by (simp add: layout_ok_def)
  define j where "j = min (unat k) (n - length out)"
  from Extract_ok [OF rx, of k, folded j_def] obtain b' where
    e: "TcpRxBuffer_Extract k b = Some (if j = 0 then None else Some (map S [length out..<length out + j]), b')" by blast
  define r where "r = (if j = 0 then None else Some (map S [length out..<length out + j]))"
  have "delivers r = map S [length out..<length out + j]" by (simp add: r_def delivers_def)
  moreover have "out @ map S [length out..<length out + j] = map S [0..<length out + j]"
    by (rule stream_append [OF out])
  moreover have "length out + j = min (length out + unat k) n" using le by (auto simp: j_def min_def)
  moreover have jz: "j = 0 \<longleftrightarrow> k = 0 \<or> n = length out" using le by (auto simp: j_def min_def unat_eq_0)
  ultimately have "out @ delivers r = map S [0..<min (length out + unat k) n]" by simp
  moreover have "r = None \<longleftrightarrow> k = 0 \<or> n = length out" using jz by (simp add: r_def)
  ultimately show ?thesis using e unfolding mi r_def [symmetric] by blast
qed

section \<open>A connection\<close>

text \<open>Sequence numbers that wrap, a segment out of order, then one that fills the gap and overlaps it.\<close>

definition byte_stream :: "nat \<Rightarrow> u8" where
  "byte_stream i = of_nat i"

definition sample_rx :: "TcpRxBuffer" where
  "sample_rx = SetNextRxSequence 0xFFFFFFFE (SetMaxBufferSize 100 (TcpRxBuffer_new 0))"

lemmas rx_eval = TcpRxBuffer_Add_def sample_rx_def SetNextRxSequence_def SetMaxBufferSize_def TcpRxBuffer_new_def byte_stream_def
  pkt_size_def trim_window_def seq_of_def seq_lt_def seq_gt_def seq_ge_def seq_le_def halfMaxValue_def seq_minus_def
  UpdateSackList_def ClearSackList_def SetFinSequence_def TcpRxBuffer_Extract_def upt_rec Let_def

definition rx_gap :: "TcpRxBuffer" where
  "rx_gap = sample_rx\<lparr>rx_size := 3, rx_data := [(2, [4, 5, 6])], rx_sackList := [(2, 5)]\<rparr>"

lemma sample_first: "TcpRxBuffer_Add (map byte_stream [4..<4 + 3]) (seq_of 0xFFFFFFFE 4) sample_rx = Some (True, rx_gap)"
  by (simp add: rx_eval rx_gap_def)

definition rx_full :: "TcpRxBuffer" where
  "rx_full = rx_gap\<lparr>rx_size := 7, rx_data := [(0xFFFFFFFE, [0, 1, 2, 3]), (2, [4, 5, 6])], rx_sackList := [],
     rx_nextRxSeq := 5, rx_availBytes := 7\<rparr>"

lemma sample_second: "TcpRxBuffer_Add (map byte_stream [0..<0 + 5]) (seq_of 0xFFFFFFFE 0) rx_gap = Some (True, rx_full)"
  by (simp add: rx_eval rx_gap_def rx_full_def)

definition rx_finished :: "TcpRxBuffer" where
  "rx_finished = rx_full\<lparr>rx_gotFin := True, rx_finSeq := 5, rx_nextRxSeq := 6\<rparr>"

lemma sample_fin: "SetFinSequence (seq_of 0xFFFFFFFE 7) rx_full = rx_finished"
  by (simp add: rx_eval rx_full_def rx_gap_def rx_finished_def)

definition rx_rest :: "TcpRxBuffer" where
  "rx_rest = rx_finished\<lparr>rx_size := 1, rx_data := [(4, [6])], rx_availBytes := 1\<rparr>"

lemma sample_extract: "TcpRxBuffer_Extract 6 rx_finished = Some (Some [0, 1, 2, 3, 4, 5], rx_rest)"
  by (simp add: rx_eval rx_full_def rx_gap_def rx_finished_def rx_rest_def)

lemma sample_gap: "rx_history byte_stream 0xFFFFFFFE 100 None {4..<7} [] rx_gap"
proof -
  have "rx_history byte_stream 0xFFFFFFFE 100 None {} [] sample_rx" unfolding sample_rx_def by (rule history_start) simp
  from history_segment [OF this _ sample_first] show ?thesis by (simp add: segment_fits_def accepted_def)
qed

lemma sample_finished: "rx_history byte_stream 0xFFFFFFFE 100 (Some 7) {0..<7} [] rx_finished"
proof -
  have "{4..<7} \<union> {0..<5} = {0..<7 :: nat}" by auto
  moreover have "Min {4..<7 :: nat} = 4" by (rule Min_eqI) auto
  ultimately have "rx_history byte_stream 0xFFFFFFFE 100 None {0..<7} [] rx_full"
    using history_segment [OF sample_gap _ sample_second] by (simp add: segment_fits_def accepted_def lessThan_0)
  from history_fin [OF this, of 7] show ?thesis by (simp add: sample_fin atLeast0LessThan)
qed

lemma sample_history: "rx_history byte_stream 0xFFFFFFFE 100 (Some 7) {0..<7} [0, 1, 2, 3, 4, 5] rx_rest"
  using history_extract [OF sample_finished sample_extract] by simp

lemma missing_seven: "missing {0..<7} = 7"
  unfolding missing_def by (rule Least_equality) auto

theorem tcp_stream_reassembled_witness:
  "[0, 1, 2, 3, 4, 5] = map byte_stream [0..<length [0, 1, 2, 3, 4, 5 :: u8]] \<and> Finished rx_rest \<and> rx_nextRxSeq rx_rest = seq_of 0xFFFFFFFE 8"
proof -
  note t = tcp_stream_reassembled [OF sample_history, unfolded missing_seven]
  show ?thesis using conjunct1 [OF t] conjunct2 [OF t] by simp
qed

theorem tcp_segment_accepted_witness:
  "\<exists>b'. TcpRxBuffer_Add (map byte_stream [0..<0 + 5]) (seq_of 0xFFFFFFFE 0) rx_gap = Some (True, b')"
proof -
  have "Min {4..<7 :: nat} = 4" by (rule Min_eqI) auto
  then have a: "accepted 100 {4..<7} (length []) 0 5 = {0..<5}" by (simp add: accepted_def lessThan_0)
  have "segment_fits None (length []) 0 5" by (simp add: segment_fits_def)
  from tcp_segment_accepted [OF sample_gap this] have
    "\<exists>b'. TcpRxBuffer_Add (map byte_stream [0..<0 + 5]) (seq_of 0xFFFFFFFE 0) rx_gap = Some (\<not> {0..<5} \<subseteq> {4..<7 :: nat}, b')"
    unfolding a by blast
  moreover have "\<not> {0..<5} \<subseteq> {4..<7 :: nat}" by auto
  ultimately show ?thesis by simp
qed

theorem tcp_extract_in_order_witness:
  "\<exists>r b'. TcpRxBuffer_Extract 6 rx_finished = Some (r, b') \<and> r \<noteq> None \<and> delivers r = map byte_stream [0..<6]"
  using tcp_extract_in_order [OF sample_finished, of 6] by (simp add: missing_seven)

text \<open>
  A segment that swallows a stored one leaves the block of the swallowed bytes in the list, although the new block covers it:
  only end points are compared.
\<close>

lemma swallowed_block_stays:
  "(case TcpRxBuffer_Add (replicate 10 0) 10 (TcpRxBuffer_new 0) of None \<Rightarrow> None
    | Some (_, b) \<Rightarrow> map_option (\<lambda>(_, b). rx_sackList b) (TcpRxBuffer_Add (replicate 25 0) 5 b)) = Some [(5, 30), (10, 20)]"
  by (simp add: rx_eval)

end
