(* ===== verification/Tcp_Connection.thy ===== *)
theory Tcp_Connection
  imports Tcp_Rx_History Tcp_Tx_History
begin

text \<open>
  The two ends of a TCP connection: the send buffer of one socket, the receive buffer of the other, and between them a network that may
  lose, repeat, delay and reorder segments and acknowledgements.  The data is a stream \<open>S\<close>, position \<open>a\<close> of which has the sequence
  number \<open>seq_of iss a\<close>.  A segment or an acknowledgement that is \<open>2\<^sup>2\<^sup>9\<close> bytes old is no longer on its way.

  In the network are the items that \<^verbatim>\<open>CopyFromSequence\<close> handed out, each with its position, and the acknowledgements: what
  \<^verbatim>\<open>NextRxSequence\<close> and \<^verbatim>\<open>GetSackList\<close> gave, with the position it stands for.  The positions are for the statements only: the
  operations are given the numbers in the packets.
\<close>

record connection =
  cn_written :: nat
  cn_acked :: nat
  cn_tx :: TcpTxBuffer
  cn_segments :: "(nat \<times> TcpTxItem) set"
  cn_received :: "nat set"
  cn_out :: "u8 list"
  cn_rx :: TcpRxBuffer
  cn_acks :: "(nat \<times> u32 \<times> (u32 \<times> u32) list) set"

definition in_time :: "connection \<Rightarrow> nat \<Rightarrow> nat \<Rightarrow> bool" where
  "in_time c a l \<longleftrightarrow> segment_fits None (length (cn_out c)) a l"

inductive conn_step :: "(nat \<Rightarrow> u8) \<Rightarrow> u32 \<Rightarrow> u32 \<Rightarrow> connection \<Rightarrow> connection \<Rightarrow> bool"
  for S iss m where
  step_write: "length p < 2 ^ 32 \<Longrightarrow> p = map S [cn_written c..<cn_written c + length p] \<Longrightarrow> Tx_Add p (cn_tx c) = (r, b) \<Longrightarrow>
    conn_step S iss m c (c\<lparr>cn_tx := b, cn_written := (if r then cn_written c + length p else cn_written c)\<rparr>)"
| step_send: "cn_acked c \<le> a \<Longrightarrow> a < cn_acked c + 2 ^ 30 \<Longrightarrow> CopyFromSequence now nb (seq_of iss a) (cn_tx c) = Some (Some item, b) \<Longrightarrow>
    conn_step S iss m c (c\<lparr>cn_tx := b, cn_segments := insert (a, item) (cn_segments c)\<rparr>)"
| step_deliver: "(a, item) \<in> cn_segments c \<Longrightarrow> in_time c a (length (ti_packet item)) \<Longrightarrow>
    TcpRxBuffer_Add (ti_packet item) (ti_startSeq item) (cn_rx c) = Some (new, b) \<Longrightarrow>
    conn_step S iss m c (c\<lparr>cn_rx := b,
      cn_received := cn_received c \<union> accepted m (cn_received c) (length (cn_out c)) a (length (ti_packet item))\<rparr>)"
| step_read: "TcpRxBuffer_Extract k (cn_rx c) = Some (r, b) \<Longrightarrow> conn_step S iss m c (c\<lparr>cn_rx := b, cn_out := cn_out c @ delivers r\<rparr>)"
| step_acknowledge: "conn_step S iss m c
    (c\<lparr>cn_acks := insert (missing (cn_received c), rx_nextRxSeq (cn_rx c), rx_sackList (cn_rx c)) (cn_acks c)\<rparr>)"
| step_sacked: "(z, ack, blocks) \<in> cn_acks c \<Longrightarrow> cn_acked c < z + 2 ^ 29 \<Longrightarrow> tx_sentList (cn_tx c) \<noteq> [] \<Longrightarrow>
    Update blocks (cn_tx c) = Some (n, newly, b) \<Longrightarrow> conn_step S iss m c (c\<lparr>cn_tx := b\<rparr>)"
| step_acked: "(z, ack, blocks) \<in> cn_acks c \<Longrightarrow> cn_acked c < z + 2 ^ 29 \<Longrightarrow> DiscardUpTo now ack (cn_tx c) = Some (deleted, b) \<Longrightarrow>
    conn_step S iss m c (c\<lparr>cn_tx := b, cn_acked := max (cn_acked c) z\<rparr>)"
| step_timeout: "SetSentListLost r (cn_tx c) = Some b \<Longrightarrow> conn_step S iss m c (c\<lparr>cn_tx := b\<rparr>)"
| step_mark_head: "conn_step S iss m c (c\<lparr>cn_tx := MarkHeadAsLost (cn_tx c)\<rparr>)"
| step_unmark_head: "conn_step S iss m c (c\<lparr>cn_tx := DeleteRetransmittedFlagFromHead (cn_tx c)\<rparr>)"
| step_buffer_size: "cn_written c \<le> cn_acked c + unat k \<Longrightarrow> unat k < 2 ^ 30 \<Longrightarrow> conn_step S iss m c (c\<lparr>cn_tx := Tx_SetMaxBufferSize k (cn_tx c)\<rparr>)"
| step_settings: "b = SetDupAckThresh n (cn_tx c) \<or> b = SetSegmentSize n (cn_tx c) \<Longrightarrow> conn_step S iss m c (c\<lparr>cn_tx := b\<rparr>)"

definition conn_start :: "u32 \<Rightarrow> u32 \<Rightarrow> connection \<Rightarrow> bool" where
  "conn_start iss m c \<longleftrightarrow> unat m \<le> 2 ^ 29 \<and> cn_written c = 0 \<and> cn_acked c = 0 \<and> (\<exists>n. SetHeadSequence iss (TcpTxBuffer_new n) = Some (cn_tx c)) \<and>
     cn_segments c = {} \<and> cn_received c = {} \<and> cn_out c = [] \<and> (\<exists>n. cn_rx c = SetNextRxSequence iss (SetMaxBufferSize m (TcpRxBuffer_new n))) \<and>
     cn_acks c = {}"

inductive tcp_connection :: "(nat \<Rightarrow> u8) \<Rightarrow> u32 \<Rightarrow> u32 \<Rightarrow> connection \<Rightarrow> bool"
  for S iss m where
  connection_start: "conn_start iss m c \<Longrightarrow> tcp_connection S iss m c"
| connection_step: "tcp_connection S iss m c \<Longrightarrow> conn_step S iss m c c' \<Longrightarrow> tcp_connection S iss m c'"

section \<open>The invariant\<close>

text \<open>
  \<open>B\<close> are the positions reported in SACK blocks so far.  No acknowledgement number lies in it, whenever it was sent: a later one is
  behind what is missing, an earlier one was missing after the block was reported or is in front of the block.
\<close>

fun sacked_within :: "nat set \<Rightarrow> nat \<Rightarrow> TcpTxItem list \<Rightarrow> bool" where
  "sacked_within B x [] \<longleftrightarrow> True"
| "sacked_within B x (t # ts) \<longleftrightarrow> (ti_sacked t \<longrightarrow> {x..<x + length (ti_packet t)} \<subseteq> B) \<and> sacked_within B (x + length (ti_packet t)) ts"

definition ack_within :: "u32 \<Rightarrow> nat set \<Rightarrow> nat \<times> u32 \<times> (u32 \<times> u32) list \<Rightarrow> bool" where
  "ack_within iss B = (\<lambda>(z, ack, blocks). ack = seq_of iss z \<and> z \<notin> B \<and>
     (\<forall>block\<in>set blocks. \<exists>p q. block = (seq_of iss p, seq_of iss q) \<and> z < p \<and> p < q \<and> {p..<q} \<subseteq> B))"

definition conn_inv :: "(nat \<Rightarrow> u8) \<Rightarrow> u32 \<Rightarrow> u32 \<Rightarrow> nat set \<Rightarrow> connection \<Rightarrow> bool" where
  "conn_inv S iss m B c \<longleftrightarrow>
     tx_holds iss (map S [0..<cn_written c]) (cn_acked c) (cn_tx c) \<and> rx_history S iss m None (cn_received c) (cn_out c) (cn_rx c) \<and>
     cn_received c \<subseteq> {..<sent_end (cn_acked c) (cn_tx c)} \<and>
     (\<forall>(a, item)\<in>cn_segments c. ti_startSeq item = seq_of iss a \<and> ti_packet item = map S [a..<a + length (ti_packet item)] \<and>
        a + length (ti_packet item) \<le> sent_end (cn_acked c) (cn_tx c)) \<and>
     B \<subseteq> cn_received c \<and> (\<forall>ack\<in>cn_acks c. ack_within iss B ack \<and> fst ack \<le> missing (cn_received c)) \<and>
     cn_acked c \<notin> B \<and> cn_acked c \<le> cn_written c \<and> cn_acked c \<le> missing (cn_received c) \<and> sacked_within B (cn_acked c) (tx_sentList (cn_tx c))"

lemma missing_finite:
  assumes "R \<subseteq> {..<n :: nat}"
  shows "missing R \<notin> R" and "missing R \<le> n" and "{..<missing R} \<subseteq> R"
proof -
  have "n \<notin> R" using assms by auto
  then show "missing R \<notin> R" "missing R \<le> n" unfolding missing_def by (rule LeastI, rule Least_le)
  show "{..<missing R} \<subseteq> R" unfolding missing_def using not_less_Least by blast
qed

lemma missing_mono: "R \<subseteq> R' \<Longrightarrow> R' \<subseteq> {..<n :: nat} \<Longrightarrow> missing R \<le> missing R'"
  using missing_finite [of R' n] missing_finite(3) [of R n] by (meson linorder_not_less lessThan_iff subset_iff)

section \<open>Marks of the sender are reports of the receiver\<close>

lemma sacked_within_mono: "sacked_within B x L \<Longrightarrow> B \<subseteq> B' \<Longrightarrow> sacked_within B' x L"
  by (induction L arbitrary: x) auto

lemma sacked_within_fewer:
  "list_all2 (\<lambda>t t'. ti_packet t' = ti_packet t \<and> (ti_sacked t' \<longrightarrow> ti_sacked t)) L L' \<Longrightarrow> sacked_within B x L \<Longrightarrow> sacked_within B x L'"
  by (induction arbitrary: x rule: list_all2_induct) auto

lemma sacked_within_drop: "sacked_within B x L \<Longrightarrow> sacked_within B (x + k) (drop_items k L)"
proof (induction L arbitrary: x k)
  case (Cons t ts)
  show ?case
  proof (cases "k < length (ti_packet t)")
    case True
    then have "{x + k..<x + length (ti_packet t)} \<subseteq> {x..<x + length (ti_packet t)}" by auto
    then show ?thesis using True Cons.prems by (auto simp: shorten_def)
  next
    case False
    then show ?thesis using Cons.IH [of "x + length (ti_packet t)" "k - length (ti_packet t)"] Cons.prems by simp
  qed
qed simp

lemma sacked_within_items:
  "sacked_within B y L \<Longrightarrow> {p..<q} \<subseteq> B \<Longrightarrow> sacked_within B y (sack_items p q y L)"
proof (induction L arbitrary: y)
  case (Cons t ts)
  have "{y..<y + length (ti_packet t)} \<subseteq> {p..<q}" if "p \<le> y" "y + length (ti_packet t) \<le> q" using that by auto
  then show ?case using Cons by (auto dest: subset_trans)
qed simp

lemma sacked_within_all:
  "sacked_within B x L \<Longrightarrow> \<forall>(p, q)\<in>set ranges. {p..<q} \<subseteq> B \<Longrightarrow> sacked_within B x (sack_all ranges x L)"
  by (induction ranges x L rule: sack_all.induct) (auto intro: sacked_within_items)

lemma sacked_within_iff:
  assumes "placed iss y L" and "w \<le> y" and "y + length (item_bytes L) < w + 2 ^ 30" and "full_items L"
  shows "sacked_within B y L \<longleftrightarrow> (\<forall>t\<in>set (filter ti_sacked L). \<forall>v. w \<le> v \<and> v < w + 2 ^ 30 \<and> ti_startSeq t = seq_of iss v \<longrightarrow>
    {v..<v + length (ti_packet t)} \<subseteq> B)"
  using assms
proof (induction L arbitrary: y)
  case (Cons t ts)
  have "seq_of iss y = seq_of iss v \<longleftrightarrow> y = v" if "w \<le> v" "v < w + 2 ^ 30" for v
    using that Cons.prems by (simp add: seq_compare)
  moreover have "y < w + 2 ^ 30" using Cons.prems by simp
  ultimately have "(ti_sacked t \<longrightarrow> {y..<y + length (ti_packet t)} \<subseteq> B) \<longleftrightarrow>
    (ti_sacked t \<longrightarrow> (\<forall>v. w \<le> v \<and> v < w + 2 ^ 30 \<and> ti_startSeq t = seq_of iss v \<longrightarrow> {v..<v + length (ti_packet t)} \<subseteq> B))"
    using Cons.prems(1,2) by auto
  moreover have "sacked_within B (y + length (ti_packet t)) ts \<longleftrightarrow> (\<forall>t\<in>set (filter ti_sacked ts). \<forall>v. w \<le> v \<and> v < w + 2 ^ 30 \<and> ti_startSeq t = seq_of iss v \<longrightarrow>
    {v..<v + length (ti_packet t)} \<subseteq> B)" by (rule Cons.IH) (use Cons.prems in auto)
  ultimately show ?case by auto
qed simp

lemma sacked_within_same_sacked:
  assumes "sizes_ok iss x b" and "sizes_ok iss x b'" and "filter ti_sacked (tx_sentList b') = filter ti_sacked (tx_sentList b)"
    and "sacked_within B x (tx_sentList b)"
  shows "sacked_within B x (tx_sentList b')"
proof -
  note D = sizes_okD [OF assms(1)] and D' = sizes_okD [OF assms(2)]
  have "x + length (item_bytes (tx_sentList b)) < x + 2 ^ 30" "x + length (item_bytes (tx_sentList b')) < x + 2 ^ 30" using D(5) D'(5) by simp_all
  from sacked_within_iff [OF D(4) order_refl this(1) D(2)] sacked_within_iff [OF D'(4) order_refl this(2) D'(2)] show ?thesis
    using assms(3,4) by simp
qed

lemma SetSentListLost_fewer:
  assumes "SetSentListLost r b = Some b'"
  shows "list_all2 (\<lambda>t t'. ti_packet t' = ti_packet t \<and> (ti_sacked t' \<longrightarrow> ti_sacked t)) (tx_sentList b) (tx_sentList b')"
proof -
  have e: "tx_sentList b' = map (\<lambda>t. t\<lparr>ti_sacked := ti_sacked t \<and> \<not> r, ti_lost := r \<or> ti_lost t \<or> \<not> ti_sacked t, ti_retrans := False\<rparr>) (tx_sentList b)"
    using assms by (auto simp: SetSentListLost_def lose_all_eq Let_def split: if_splits)
  show ?thesis unfolding e by (simp add: list.rel_map list.rel_refl)
qed

lemma heads_fewer:
  "list_all2 (\<lambda>t t'. ti_packet t' = ti_packet t \<and> (ti_sacked t' \<longrightarrow> ti_sacked t)) (tx_sentList b) (tx_sentList (MarkHeadAsLost b))"
  "list_all2 (\<lambda>t t'. ti_packet t' = ti_packet t \<and> (ti_sacked t' \<longrightarrow> ti_sacked t)) (tx_sentList b) (tx_sentList (DeleteRetransmittedFlagFromHead b))"
  by (auto simp: MarkHeadAsLost_def DeleteRetransmittedFlagFromHead_def Let_def list.rel_refl split: list.split)

section \<open>Acknowledgements the sender can use\<close>

lemma list_all2_choose: "\<forall>x\<in>set xs. \<exists>y. P x y \<Longrightarrow> \<exists>ys. list_all2 P xs ys"
  by (induction xs) (auto simp: list_all2_Cons1)

lemma conn_invD:
  assumes "conn_inv S iss m B c"
  shows "tx_holds iss (map S [0..<cn_written c]) (cn_acked c) (cn_tx c)" and "rx_history S iss m None (cn_received c) (cn_out c) (cn_rx c)"
    and "cn_received c \<subseteq> {..<sent_end (cn_acked c) (cn_tx c)}" and "B \<subseteq> cn_received c" and "cn_acked c \<notin> B"
    and "cn_acked c \<le> missing (cn_received c)" and "sacked_within B (cn_acked c) (tx_sentList (cn_tx c))"
    and "\<And>ack. ack \<in> cn_acks c \<Longrightarrow> ack_within iss B ack \<and> fst ack \<le> missing (cn_received c)"
    and "\<And>a item. (a, item) \<in> cn_segments c \<Longrightarrow> ti_startSeq item = seq_of iss a \<and> ti_packet item = map S [a..<a + length (ti_packet item)] \<and>
        a + length (ti_packet item) \<le> sent_end (cn_acked c) (cn_tx c)"
  using assms by (auto simp: conn_inv_def)

lemma conn_ends:
  assumes "conn_inv S iss m B c"
  shows "missing (cn_received c) \<le> sent_end (cn_acked c) (cn_tx c)" and "sent_end (cn_acked c) (cn_tx c) \<le> cn_written c"
    and "sent_end (cn_acked c) (cn_tx c) < cn_acked c + 2 ^ 30"
proof -
  note D = conn_invD [OF assms]
  note T = tx_holdsD [OF D(1)]
  show m: "missing (cn_received c) \<le> sent_end (cn_acked c) (cn_tx c)" by (rule missing_finite(2) [OF D(3)])
  show "sent_end (cn_acked c) (cn_tx c) < cn_acked c + 2 ^ 30" using sizes_okD(5) [OF T(2)] by (simp add: sent_end_def)
  have "length (contents_of (cn_tx c)) = cn_written c - cn_acked c" using T(6) by simp
  then have "length (item_bytes (tx_sentList (cn_tx c))) \<le> cn_written c - cn_acked c" by (simp add: contents_of_def)
  moreover have "cn_acked c \<le> cn_written c" using assms by (simp add: conn_inv_def)
  ultimately show "sent_end (cn_acked c) (cn_tx c) \<le> cn_written c" unfolding sent_end_def by linarith
qed

lemma conn_block_ok:
  assumes I: "conn_inv S iss m B c" and ack: "(z, ack, blocks) \<in> cn_acks c" and t: "cn_acked c < z + 2 ^ 29"
  shows "\<exists>ranges. list_all2 (block_ok iss (cn_acked c) (sent_end (cn_acked c) (cn_tx c))) blocks ranges \<and> (\<forall>(p, q)\<in>set ranges. {p..<q} \<subseteq> B)"
proof -
  note D = conn_invD [OF I] and E = conn_ends [OF I]
  let ?x = "cn_acked c" and ?e = "sent_end (cn_acked c) (cn_tx c)"
  have "\<exists>range. block_ok iss ?x ?e block range \<and> (\<forall>(p, q)\<in>{range}. {p..<q} \<subseteq> B)" if i: "block \<in> set blocks" for block
  proof -
    obtain p q where b: "block = (seq_of iss p, seq_of iss q)" "z < p" "p < q" "{p..<q} \<subseteq> B"
      using D(8) [OF ack] i unfolding ack_within_def by fastforce
    have "q - 1 \<in> B" using b(3,4) by auto
    then have "q - 1 < ?e" using D(3,4) by auto
    moreover have "?x < p \<or> q \<le> ?x" using D(5) b(4) by (meson atLeastLessThan_iff linorder_not_less subsetD)
    ultimately have "block_ok iss ?x ?e block (p, q)" using b(1-3) t E(3) by (auto simp: block_ok_def)
    then show ?thesis using b(4) by blast
  qed
  then have "\<forall>block\<in>set blocks. \<exists>range. block_ok iss ?x ?e block range \<and> (\<forall>(p, q)\<in>{range}. {p..<q} \<subseteq> B)" by blast
  from list_all2_choose [OF this] obtain ranges where R: "list_all2 (\<lambda>block range. block_ok iss ?x ?e block range \<and> (\<forall>(p, q)\<in>{range}. {p..<q} \<subseteq> B)) blocks ranges" by blast
  then have "list_all2 (block_ok iss ?x ?e) blocks ranges" by (rule list_all2_mono) simp
  moreover have "\<forall>(p, q)\<in>set ranges. {p..<q} \<subseteq> B" using R by (fastforce simp: list_all2_conv_all_nth in_set_conv_nth)
  ultimately show ?thesis by blast
qed

text \<open>The byte an acknowledgement asks for was never reported: the item it is in has no mark.\<close>

lemma conn_ack_ok:
  assumes I: "conn_inv S iss m B c" and ack: "(z, ack, blocks) \<in> cn_acks c" and z: "cn_acked c \<le> z"
  shows "\<And>h rest. drop_items (z - cn_acked c) (tx_sentList (cn_tx c)) = h # rest \<Longrightarrow> \<not> ti_sacked h" and "ack_ok (z - cn_acked c) (cn_tx c)"
proof -
  note D = conn_invD [OF I]
  show h: "\<not> ti_sacked h" if S: "drop_items (z - cn_acked c) (tx_sentList (cn_tx c)) = h # rest" for h rest
  proof
    assume "ti_sacked h"
    have "sacked_within B (cn_acked c + (z - cn_acked c)) (h # rest)" using sacked_within_drop [OF D(7), of "z - cn_acked c"] S by simp
    then have "{z..<z + length (ti_packet h)} \<subseteq> B" using z \<open>ti_sacked h\<close> by simp
    moreover have "full_items (drop_items k L)" if "full_items L" for k L using that by (induction L arbitrary: k) (auto simp: shorten_def)
    then have "full_items (h # rest)" using sizes_okD(2) [OF tx_holdsD(2) [OF D(1)]] S by metis
    then have "0 < length (ti_packet h)" by simp
    then have "z \<in> {z..<z + length (ti_packet h)}" by simp
    ultimately have "z \<in> B" by blast
    then show False using D(8) [OF ack] by (simp add: ack_within_def)
  qed
  show "ack_ok (z - cn_acked c) (cn_tx c)" using h unfolding ack_ok_def by (auto split: list.split)
qed

lemma conn_discard:
  assumes I: "conn_inv S iss m B c" and ack: "(z, ack, blocks) \<in> cn_acks c" and t: "cn_acked c < z + 2 ^ 29"
  shows "\<exists>deleted b. DiscardUpTo now ack (cn_tx c) = Some (deleted, b) \<and> tx_holds iss (map S [0..<cn_written c]) (max (cn_acked c) z) b \<and>
    sent_end (max (cn_acked c) z) b = sent_end (cn_acked c) (cn_tx c) \<and> sacked_within B (max (cn_acked c) z) (tx_sentList b)"
proof -
  let ?x = "cn_acked c" and ?b = "cn_tx c"
  note D = conn_invD [OF I] and E = conn_ends [OF I]
  have a: "ack = seq_of iss z" and z: "z \<le> missing (cn_received c)" using D(8) [OF ack] by (simp_all add: ack_within_def)
  have w: "z \<le> Suc (length (map S [0..<cn_written c]))" using z E(1,2) by simp
  have ok: "ack_ok (z - ?x) ?b"
  proof (cases "?x \<le> z")
    case False
    have "drop_items 0 L = L" if "full_items L" for L using that by (cases L) (simp_all add: shorten_def)
    then have "drop_items (z - ?x) (tx_sentList ?b) = tx_sentList ?b" using False sizes_okD(2) [OF tx_holdsD(2) [OF D(1)]] by simp
    then show ?thesis using tx_holdsD(5) [OF D(1)] by (auto simp: ack_ok_def unsacked_head_def split: list.split)
  qed (rule conn_ack_ok(2) [OF I ack])
  have "?x < z + 2 ^ 31" using t by simp
  from tx_holds_discard [OF D(1) w this ok, of now] obtain dl b where
    R: "DiscardUpTo now (seq_of iss z) ?b = Some (dl, b)" "tx_holds iss (map S [0..<cn_written c]) (max ?x z) b"
      "?x \<le> z \<longrightarrow> map ti_packet (tx_sentList b) = map ti_packet (drop_items (z - ?x) (tx_sentList ?b))" "z \<le> ?x \<longrightarrow> b = ?b"
      "\<forall>h rest. drop_items (z - ?x) (tx_sentList ?b) = h # rest \<and> \<not> ti_sacked h \<and> ?x \<le> z \<longrightarrow> tx_sentList b = drop_items (z - ?x) (tx_sentList ?b)" by blast
  have "sent_end (max ?x z) b = sent_end ?x ?b \<and> sacked_within B (max ?x z) (tx_sentList b)"
  proof (cases "?x \<le> z")
    case False
    then show ?thesis using R(4) D(7) by (simp add: max_def)
  next
    case True
    have "item_bytes (tx_sentList b) = drop (z - ?x) (item_bytes (tx_sentList ?b))"
      using R(3) True drop_items_bytes [of "z - ?x" "tx_sentList ?b"] by (simp add: item_bytes_def)
    then have "sent_end z b = sent_end ?x ?b" using True z E(1) by (simp add: sent_end_def)
    moreover have "tx_sentList b = drop_items (z - ?x) (tx_sentList ?b)"
    proof (cases "drop_items (z - ?x) (tx_sentList ?b)")
      case Nil
      then show ?thesis using R(3) True by simp
    next
      case (Cons h rest)
      then show ?thesis using R(5) True conn_ack_ok(1) [OF I ack True Cons] by simp
    qed
    then have "sacked_within B z (tx_sentList b)" using sacked_within_drop [OF D(7), of "z - ?x"] True by simp
    ultimately show ?thesis using True by (simp add: max_def)
  qed
  then show ?thesis using R(1,2) unfolding a by blast
qed

section \<open>Every step keeps the invariant\<close>

text \<open>Steps of the sender that move no data.\<close>

lemma conn_inv_marks:
  assumes I: "conn_inv S iss m B c" and "tx_holds iss (map S [0..<cn_written c]) (cn_acked c) b"
    and "item_bytes (tx_sentList b) = item_bytes (tx_sentList (cn_tx c))" and "sacked_within B (cn_acked c) (tx_sentList b)"
  shows "conn_inv S iss m B (c\<lparr>cn_tx := b\<rparr>)"
  using assms by (simp add: conn_inv_def sent_end_def)

lemma fewer_bytes:
  "list_all2 (\<lambda>t t'. ti_packet t' = ti_packet t \<and> (ti_sacked t' \<longrightarrow> ti_sacked t)) L L' \<Longrightarrow> item_bytes L' = item_bytes L"
  by (induction rule: list_all2_induct) simp_all

lemma conn_inv_fewer:
  assumes I: "conn_inv S iss m B c" and "tx_ok iss (cn_acked c) b \<and> contents_of b = contents_of (cn_tx c)"
    and f: "list_all2 (\<lambda>t t'. ti_packet t' = ti_packet t \<and> (ti_sacked t' \<longrightarrow> ti_sacked t)) (tx_sentList (cn_tx c)) (tx_sentList b)"
  shows "conn_inv S iss m B (c\<lparr>cn_tx := b\<rparr>)"
  by (rule conn_inv_marks [OF I tx_holds_kept [OF conn_invD(1) [OF I] assms(2)] fewer_bytes [OF f] sacked_within_fewer [OF f conn_invD(7) [OF I]]])

lemma list_all2_sacked:
  "same_items L M \<Longrightarrow> same_items L L' \<Longrightarrow> map ti_sacked L' = map ti_sacked M \<Longrightarrow>
    list_all2 (\<lambda>t t'. ti_packet t' = ti_packet t \<and> (ti_sacked t' \<longrightarrow> ti_sacked t)) M L'"
  unfolding same_items_def list_all2_conv_all_nth by (metis nth_map length_map)

lemma sack_all_same: "same_items L (sack_all ranges x L)"
  by (induction ranges x L rule: sack_all.induct) (auto intro: same_items_trans [OF sack_items_same])

lemma conn_inv_step:
  assumes "conn_step S iss m c c'" and I: "conn_inv S iss m B c"
  shows "\<exists>B'. conn_inv S iss m B' c'"
  using assms(1)
proof cases
  case (step_write p r b)
  note D = conn_invD [OF I]
  have le: "cn_acked c \<le> cn_written c" using I by (simp add: conn_inv_def)
  have "tx_ok iss (cn_acked c) b \<and> contents_of b = contents_of (cn_tx c) @ (if r then p else [])"
    using Tx_Add_ok(2) [OF tx_holdsD(1) [OF D(1)] step_write(2)] step_write(4) by simp
  moreover have "map S [cn_acked c..<cn_written c] @ p = map S [cn_acked c..<cn_written c + length p]"
    using step_write(3) upt_add_eq_append [OF le] by (metis map_append)
  ultimately have "tx_holds iss (map S [0..<(if r then cn_written c + length p else cn_written c)]) (cn_acked c) b"
    using tx_holdsD(6) [OF D(1)] le by (auto simp: tx_holds_def drop_map)
  moreover have "tx_sentList b = tx_sentList (cn_tx c)" using step_write(4) by (auto simp: Tx_Add_def split: if_splits)
  ultimately have "conn_inv S iss m B c'" using I unfolding step_write(1) by (auto simp: conn_inv_def sent_end_def)
  then show ?thesis by blast
next
  case (step_send a now nb item b)
  note D = conn_invD [OF I]
  let ?x = "cn_acked c"
  have C: "copied iss ?x a (copy_size ?x a nb (cn_tx c)) (cn_tx c) item b"
    using CopyFromSequence_copied [OF tx_holdsD(1) [OF D(1)] step_send(2-4)] by simp
  have ok: "tx_ok iss ?x b" "contents_of b = contents_of (cn_tx c)" using C by (simp_all add: copied_def)
  have s: "sizes_ok iss ?x b" using ok by (simp add: tx_ok_def)
  have e: "sent_end ?x (cn_tx c) \<le> sent_end ?x b" using C by (auto simp: copied_def sent_end_def)
  have T: "tx_holds iss (map S [0..<cn_written c]) ?x b" by (rule tx_holds_kept [OF D(1)]) (simp add: ok)
  have w: "sacked_within B ?x (tx_sentList b)"
    by (rule sacked_within_same_sacked [OF tx_holdsD(2) [OF D(1)] s _ D(7)]) (use C in \<open>simp add: copied_def\<close>)
  have "item \<in> set (tx_sentList b)" using C by (simp add: copied_def)
  then obtain us vs where S: "tx_sentList b = us @ item # vs" by (meson split_list)
  have "ti_startSeq item = seq_of iss (?x + length (item_bytes us))" using sizes_okD(4) [OF s] by (simp add: S placed_append)
  moreover have st: "ti_startSeq item = seq_of iss a" using C by (simp add: copied_def)
  ultimately have "?x + length (item_bytes us) = a" using step_send(2,3) sizes_okD(5) [OF s] by (simp add: S seq_compare)
  then have en: "a + length (ti_packet item) \<le> sent_end ?x b" by (simp add: sent_end_def S)
  have "ti_packet item = take (length (ti_packet item)) (drop (a - ?x) (contents_of (cn_tx c)))" using C by (simp add: copied_def)
  then have "ti_packet item = take (length (ti_packet item)) (drop a (map S [0..<cn_written c]))" using tx_holdsD(6) [OF D(1)] step_send(2) by simp
  moreover have "sent_end ?x b \<le> cn_written c"
  proof -
    have "length (item_bytes (tx_sentList b)) \<le> length (contents_of b)" by (simp add: contents_of_def)
    also have "\<dots> = cn_written c - ?x" using ok(2) tx_holdsD(6) [OF D(1)] by simp
    finally show ?thesis using I unfolding sent_end_def conn_inv_def by linarith
  qed
  then have "take (length (ti_packet item)) (drop a (map S [0..<cn_written c])) = map S [a..<a + length (ti_packet item)]"
    using en by (simp add: drop_map take_map)
  ultimately have pk: "ti_packet item = map S [a..<a + length (ti_packet item)]" by simp
  have "conn_inv S iss m B c'" unfolding conn_inv_def step_send(1)
    using I e en pk st T w by (auto simp: conn_inv_def intro: order_trans)
  then show ?thesis by blast
next
  case (step_deliver a item new b)
  note D = conn_invD [OF I]
  let ?l = "length (ti_packet item)"
  let ?R = "cn_received c \<union> accepted m (cn_received c) (length (cn_out c)) a ?l"
  note G = D(9) [OF step_deliver(2)]
  have "TcpRxBuffer_Add (map S [a..<a + ?l]) (seq_of iss a) (cn_rx c) = Some (new, b)" using step_deliver(4) G by simp
  from history_segment [OF D(2) step_deliver(3) [unfolded in_time_def] this]
  have h: "rx_history S iss m None ?R (cn_out c) b" .
  have "accepted m (cn_received c) (length (cn_out c)) a ?l \<subseteq> {a..<a + ?l}" by (auto simp: accepted_def)
  also have "\<dots> \<subseteq> {..<sent_end (cn_acked c) (cn_tx c)}" using G by auto
  finally have R: "?R \<subseteq> {..<sent_end (cn_acked c) (cn_tx c)}" using D(3) by simp
  have "missing (cn_received c) \<le> missing ?R" by (rule missing_mono [OF _ R]) simp
  then have "conn_inv S iss m B c'" unfolding step_deliver(1) conn_inv_def using I h R by (auto simp: conn_inv_def intro: order_trans)
  then show ?thesis by blast
next
  case (step_read k r b)
  have "rx_history S iss m None (cn_received c) (cn_out c @ delivers r) b"
    using history_extract [OF conn_invD(2) [OF I] step_read(2)] by (simp add: delivers_def)
  then have "conn_inv S iss m B c'" using I unfolding step_read(1) by (simp add: conn_inv_def)
  then show ?thesis by blast
next
  case step_acknowledge
  note D = conn_invD [OF I]
  let ?R = "cn_received c"
  let ?z = "missing ?R" and ?B = "B \<union> (?R \<inter> {missing ?R<..})"
  note F = rx_history_facts [OF D(2)]
  have z: "?z \<notin> ?R" by (rule missing_finite(1) [OF D(3)])
  have "\<exists>p q. block = (seq_of iss p, seq_of iss q) \<and> ?z < p \<and> p < q \<and> {p..<q} \<subseteq> ?B" if i: "block \<in> set (rx_sackList (cn_rx c))" for block
  proof -
    obtain p q where b: "block = (seq_of iss p, seq_of iss q)" "?z < p" "p < q" "{p..<q} \<subseteq> ?R" using F i by blast
    then have "{p..<q} \<subseteq> ?B" by auto
    then show ?thesis using b by blast
  qed
  then have new: "ack_within iss ?B (?z, rx_nextRxSeq (cn_rx c), rx_sackList (cn_rx c))" using F z D(4) by (auto simp: ack_within_def)
  have old: "ack_within iss ?B ack" if "ack \<in> cn_acks c" for ack
  proof -
    obtain y k bl where a: "ack = (y, k, bl)" by (cases ack)
    have w: "ack_within iss B (y, k, bl)" "y \<le> ?z" using D(8) [OF that] a by simp_all
    then have "y \<notin> ?B" by (auto simp: ack_within_def)
    moreover have "\<exists>p q. block = (seq_of iss p, seq_of iss q) \<and> y < p \<and> p < q \<and> {p..<q} \<subseteq> ?B" if "block \<in> set bl" for block
      using w(1) that unfolding ack_within_def by blast
    ultimately show ?thesis using w(1) by (simp add: a ack_within_def)
  qed
  have x: "cn_acked c \<notin> ?B" using D(5,6) by auto
  have "sacked_within ?B (cn_acked c) (tx_sentList (cn_tx c))" by (rule sacked_within_mono [OF D(7)]) simp
  then have "conn_inv S iss m ?B c'" using I new old x unfolding step_acknowledge by (auto simp: conn_inv_def)
  then show ?thesis by blast
next
  case (step_sacked z ack blocks n newly b)
  note D = conn_invD [OF I]
  note ok = tx_holdsD(1) [OF D(1)]
  from conn_block_ok [OF I step_sacked(2,3)] obtain ranges where
    R: "list_all2 (block_ok iss (cn_acked c) (sent_end (cn_acked c) (cn_tx c))) blocks ranges" "\<forall>(p, q)\<in>set ranges. {p..<q} \<subseteq> B" by blast
  note U = Update_marks [OF ok step_sacked(4) R(1) step_sacked(5)]
  have same: "same_items (tx_sentList (cn_tx c)) (tx_sentList b)" using U(1) by (simp add: marks_step_def)
  have "sacked_within B (cn_acked c) (sack_all ranges (cn_acked c) (tx_sentList (cn_tx c)))" by (rule sacked_within_all [OF D(7) R(2)])
  then have "sacked_within B (cn_acked c) (tx_sentList b)" by (rule sacked_within_fewer [OF list_all2_sacked [OF sack_all_same same U(2)]])
  then have "conn_inv S iss m B c'" unfolding step_sacked(1)
    by (intro conn_inv_marks [OF I tx_holds_marks [OF D(1) U(1)] same_items_kept(1) [OF same]])
  then show ?thesis by blast
next
  case (step_acked z ack blocks now deleted b)
  note D = conn_invD [OF I] and E = conn_ends [OF I]
  have z: "z \<notin> B" "z \<le> missing (cn_received c)" using D(8) [OF step_acked(2)] by (simp_all add: ack_within_def)
  have b: "tx_holds iss (map S [0..<cn_written c]) (max (cn_acked c) z) b" "sent_end (max (cn_acked c) z) b = sent_end (cn_acked c) (cn_tx c)"
    "sacked_within B (max (cn_acked c) z) (tx_sentList b)"
    using conn_discard [OF I step_acked(2,3), of now] step_acked(4) by simp_all
  have "max (cn_acked c) z \<notin> B" "max (cn_acked c) z \<le> missing (cn_received c)" "max (cn_acked c) z \<le> cn_written c"
    using z D(5,6) E(1,2) by (simp_all add: max_def)
  then have "conn_inv S iss m B c'" using I b unfolding step_acked(1) by (simp add: conn_inv_def)
  then show ?thesis by blast
next
  case (step_timeout r b)
  have "marks_step iss (cn_acked c) (cn_tx c) b"
    using SetSentListLost_step [OF tx_holdsD(2,4,5) [OF conn_invD(1) [OF I]], of r] step_timeout(2) by auto
  from marks_step_ok [OF tx_holdsD(1) [OF conn_invD(1) [OF I]] this]
  show ?thesis unfolding step_timeout(1) using conn_inv_fewer [OF I _ SetSentListLost_fewer [OF step_timeout(2)]] by blast
next
  case step_mark_head
  have "marks_step iss (cn_acked c) (cn_tx c) (MarkHeadAsLost (cn_tx c))"
    by (rule MarkHeadAsLost_step) (use tx_holdsD [OF conn_invD(1) [OF I]] in blast)+
  from marks_step_ok [OF tx_holdsD(1) [OF conn_invD(1) [OF I]] this]
  show ?thesis unfolding step_mark_head using conn_inv_fewer [OF I _ heads_fewer(1)] by blast
next
  case step_unmark_head
  show ?thesis unfolding step_unmark_head
    using conn_inv_fewer [OF I DeleteRetransmittedFlagFromHead_ok [OF tx_holdsD(1) [OF conn_invD(1) [OF I]]] heads_fewer(2)] by blast
next
  case (step_buffer_size k)
  note D = conn_invD [OF I]
  have "tx_holds iss (map S [0..<cn_written c]) (cn_acked c) (Tx_SetMaxBufferSize k (cn_tx c))"
    by (rule tx_holds_settings [OF D(1)]) (use step_buffer_size(2,3) tx_holdsD(6) [OF D(1)] in \<open>simp_all add: Tx_SetMaxBufferSize_def\<close>)
  then have "conn_inv S iss m B c'" unfolding step_buffer_size(1)
    by (rule conn_inv_marks [OF I]) (simp_all add: Tx_SetMaxBufferSize_def D(7))
  then show ?thesis by blast
next
  case (step_settings b n)
  note D = conn_invD [OF I]
  have e: "tx_sentList b = tx_sentList (cn_tx c)" using step_settings(2) by (auto simp: SetDupAckThresh_def SetSegmentSize_def)
  have "tx_holds iss (map S [0..<cn_written c]) (cn_acked c) b"
    by (rule tx_holds_settings [OF D(1)])
      (use step_settings(2) tx_holdsD(2) [OF D(1)] in \<open>auto simp: SetDupAckThresh_def SetSegmentSize_def sizes_ok_def\<close>)
  then have "conn_inv S iss m B c'" unfolding step_settings(1) by (rule conn_inv_marks [OF I]) (simp_all add: e D(7))
  then show ?thesis by blast
qed

lemma conn_start_inv:
  assumes "conn_start iss m c"
  shows "conn_inv S iss m {} c"
proof -
  obtain n k where n: "SetHeadSequence iss (TcpTxBuffer_new n) = Some (cn_tx c)" "cn_rx c = SetNextRxSequence iss (SetMaxBufferSize m (TcpRxBuffer_new k))"
    using assms by (auto simp: conn_start_def)
  have "tx_holds iss [] 0 (cn_tx c)" by (rule tx_history_inv [OF tx_start [OF n(1)]])
  moreover have "rx_history S iss m None {} [] (cn_rx c)" unfolding n(2) by (rule history_start) (use assms in \<open>simp add: conn_start_def\<close>)
  moreover have "cn_tx c = (TcpTxBuffer_new n)\<lparr>tx_firstByteSeq := iss, tx_highestSack := (None, 0)\<rparr>"
    using n(1) by (simp add: SetHeadSequence_def TcpTxBuffer_new_def)
  then have "tx_sentList (cn_tx c) = []" by (simp add: TcpTxBuffer_new_def)
  ultimately show ?thesis using assms by (simp add: conn_inv_def conn_start_def)
qed

lemma tcp_connection_inv: "tcp_connection S iss m c \<Longrightarrow> \<exists>B. conn_inv S iss m B c"
proof (induction rule: tcp_connection.induct)
  case (connection_step c c')
  then show ?case using conn_inv_step by blast
qed (use conn_start_inv in blast)

end
