(* ===== verification/Tcp_Connection_Claims.thy ===== *)
theory Tcp_Connection_Claims
  imports Tcp_Connection
begin

text \<open>What the two ends of a connection achieve together.\<close>

section \<open>Ways on\<close>

lemma rx_missing_bound:
  assumes "rx_history S iss m F R out b"
  shows "missing R \<le> length out + 2 ^ 30"
proof -
  obtain n E where rx: "rx_ok S iss F (length out) n E b" and R: "R = received (length out) E" using rx_history_inv [OF assms] by blast
  have l: "layout_ok (length out) n E" using rx by (simp add: rx_ok_def)
  have "{length out..<n} \<subseteq> cov E" "cov E \<subseteq> {length out..<length out + 2 ^ 30}" using l by (simp_all add: layout_ok_def window_def)
  then have "{length out..<n} \<subseteq> {length out..<length out + 2 ^ 30}" by (rule subset_trans)
  then have "n \<le> length out + 2 ^ 30" using atLeastLessThan_subset_iff [of "length out" n "length out" "length out + 2 ^ 30"] by auto
  then show ?thesis unfolding R missing_eq [OF l] .
qed

lemma conn_read_all:
  assumes I: "conn_inv S iss m B c"
  shows "\<exists>b. conn_step S iss m c (c\<lparr>cn_rx := b, cn_out := map S [0..<missing (cn_received c)]\<rparr>)"
proof -
  note D = conn_invD [OF I]
  define k :: u32 where "k = of_nat (missing (cn_received c) - length (cn_out c))"
  have "missing (cn_received c) - length (cn_out c) \<le> 2 ^ 30" using rx_missing_bound [OF D(2)] by linarith
  then have uk: "unat k = missing (cn_received c) - length (cn_out c)" unfolding k_def by (intro unat_of_nat_u32) simp
  have le: "length (cn_out c) \<le> missing (cn_received c)" using rx_history_facts [OF D(2)] by blast
  from tcp_extract_in_order [OF D(2), of k] obtain r b where
    "TcpRxBuffer_Extract k (cn_rx c) = Some (r, b)" "cn_out c @ delivers r = map S [0..<missing (cn_received c)]"
    using uk le by auto
  then show ?thesis using step_read [of k c r b] by metis
qed

lemma conn_ack_all:
  assumes I: "conn_inv S iss m B c" and x: "cn_acked c < missing (cn_received c)"
  shows "\<exists>c'. (conn_step S iss m)\<^sup>*\<^sup>* c c' \<and> cn_acked c' = missing (cn_received c) \<and> cn_written c' = cn_written c \<and>
    cn_received c' = cn_received c \<and> cn_out c' = cn_out c"
proof -
  let ?z = "missing (cn_received c)"
  define c1 where "c1 = c\<lparr>cn_acks := insert (?z, rx_nextRxSeq (cn_rx c), rx_sackList (cn_rx c)) (cn_acks c)\<rparr>"
  have s1: "conn_step S iss m c c1" unfolding c1_def by (rule step_acknowledge)
  from conn_inv_step [OF this I] obtain B' where I1: "conn_inv S iss m B' c1" by blast
  have a: "(?z, rx_nextRxSeq (cn_rx c), rx_sackList (cn_rx c)) \<in> cn_acks c1" "cn_acked c1 < ?z + 2 ^ 29" using x by (simp_all add: c1_def)
  obtain dl b where "DiscardUpTo 0 (rx_nextRxSeq (cn_rx c)) (cn_tx c1) = Some (dl, b)" using conn_discard [OF I1 a, of 0] by blast
  from step_acked [OF a this] have "conn_step S iss m c1 (c1\<lparr>cn_tx := b, cn_acked := max (cn_acked c1) ?z\<rparr>)" .
  with s1 have "(conn_step S iss m)\<^sup>*\<^sup>* c (c1\<lparr>cn_tx := b, cn_acked := max (cn_acked c1) ?z\<rparr>)" by (meson r_into_rtranclp rtranclp_trans)
  then show ?thesis using x by (intro exI [of _ "c1\<lparr>cn_tx := b, cn_acked := max (cn_acked c1) ?z\<rparr>"]) (simp add: c1_def)
qed

text \<open>The byte the receiver lacks, when it is the first one not acknowledged: it can be sent, also again.\<close>

lemma conn_copy_head:
  assumes T: "tx_holds iss (map S [0..<w]) x b" and x: "x < w"
  shows "\<exists>item b'. CopyFromSequence 0 1 (seq_of iss x) b = Some (Some item, b') \<and> length (ti_packet item) = 1"
proof -
  note D = tx_holdsD [OF T]
  have l: "length (contents_of b) = w - x" using D(6) by simp
  have cs: "copy_size x x 1 b = 1" using x l by (simp add: copy_size_def)
  show ?thesis
  proof (cases "tx_sentList b")
    case Nil
    then have "x = sent_end x b" by (simp add: sent_end_def)
    from copy_new_returns [OF D(1) this, of 1 0] show ?thesis using cs by auto
  next
    case (Cons t vs)
    have t: "\<not> ti_sacked t" using D(5) Cons by (simp add: unsacked_head_def)
    have "0 < length (ti_packet t)" using sizes_okD(2) [OF D(2)] Cons by simp
    then have e: "x + 1 \<le> sent_end x b" unfolding sent_end_def Cons by (simp del: length_greater_0_conv)
    have S: "tx_sentList b = [] @ t # vs" by (simp add: Cons)
    from copy_again_returns [OF D(1) S t, of x 1 0] cs e obtain item b' where
      C: "CopyFromSequence 0 1 (seq_of iss x) b = Some (Some item, b')" by auto
    from CopyFromSequence_copied [OF D(1) order_refl _ C] have "0 < length (ti_packet item) \<and> length (ti_packet item) \<le> 1"
      by (simp add: copied_def cs)
    then show ?thesis using C by (intro exI [of _ item] exI [of _ b']) linarith
  qed
qed

lemma conn_send_missing:
  assumes I: "conn_inv S iss m B c" and x: "cn_acked c = missing (cn_received c)" "cn_acked c < cn_written c" and o: "length (cn_out c) = cn_acked c"
    and m: "0 < m"
  shows "\<exists>c'. (conn_step S iss m)\<^sup>*\<^sup>* c c' \<and> cn_acked c < missing (cn_received c') \<and> cn_acked c' = cn_acked c \<and> cn_written c' = cn_written c"
proof -
  note D = conn_invD [OF I]
  let ?x = "cn_acked c"
  from conn_copy_head [OF D(1) x(2)] obtain item b where
    C: "CopyFromSequence 0 1 (seq_of iss ?x) (cn_tx c) = Some (Some item, b)" "length (ti_packet item) = 1" by blast
  define c1 where "c1 = c\<lparr>cn_tx := b, cn_segments := insert (?x, item) (cn_segments c)\<rparr>"
  have s1: "conn_step S iss m c c1" unfolding c1_def by (rule step_send [OF order_refl _ C(1)]) simp
  from conn_inv_step [OF s1 I] obtain B' where I1: "conn_inv S iss m B' c1" by blast
  have i: "(?x, item) \<in> cn_segments c1" by (simp add: c1_def)
  have G: "ti_startSeq item = seq_of iss ?x" "ti_packet item = map S [?x..<?x + 1]" using conn_invD(9) [OF I1 i] C(2) by simp_all
  have f: "segment_fits None (length (cn_out c)) ?x 1" by (simp add: segment_fits_def o)
  from tcp_segment_accepted [OF D(2) f] obtain new r where
    A: "TcpRxBuffer_Add (map S [?x..<?x + 1]) (seq_of iss ?x) (cn_rx c) = Some (new, r)" by blast
  let ?R = "cn_received c \<union> accepted m (cn_received c) (length (cn_out c)) ?x 1"
  define c2 where "c2 = c1\<lparr>cn_rx := r, cn_received := ?R\<rparr>"
  have s2: "conn_step S iss m c1 c2" using step_deliver [OF i _, of new r S iss m] f A G C(2) by (simp add: in_time_def c1_def c2_def)
  from conn_inv_step [OF s2 I1] obtain B2 where I2: "conn_inv S iss m B2 c2" by blast
  have um: "0 < unat m" using m by (simp add: word_gt_0 unat_gt_0)
  have "?x \<in> accepted m (cn_received c) (length (cn_out c)) ?x 1"
  proof (cases "cn_received c \<subseteq> {..<length (cn_out c)}")
    case False
    have fin: "finite (cn_received c - {..<length (cn_out c)})" using D(3) by (meson finite_Diff finite_lessThan finite_subset)
    moreover have "cn_received c - {..<length (cn_out c)} \<noteq> {}" using False by blast
    ultimately have "Min (cn_received c - {..<length (cn_out c)}) \<in> cn_received c - {..<length (cn_out c)}" by (rule Min_in)
    then have "?x \<le> Min (cn_received c - {..<length (cn_out c)})" by (simp add: o)
    then show ?thesis unfolding accepted_def if_not_P [OF False] using um by simp
  next
    case True
    show ?thesis unfolding accepted_def if_P [OF True] by simp
  qed
  moreover have "{..<?x} \<subseteq> cn_received c" using missing_finite(3) [OF D(3)] unfolding x(1) .
  ultimately have "insert ?x {..<?x} \<subseteq> ?R" by blast
  moreover have "{..?x} = insert ?x {..<?x}" by auto
  ultimately have "{..?x} \<subseteq> ?R" by (simp only:)
  moreover have "missing ?R \<notin> ?R" using missing_finite(1) [OF conn_invD(3) [OF I2]] by (simp add: c2_def)
  ultimately have "?x < missing ?R" by (meson atMost_iff linorder_not_less subsetD)
  moreover have "(conn_step S iss m)\<^sup>*\<^sup>* c c2" using s1 s2 by (meson r_into_rtranclp rtranclp_trans)
  ultimately show ?thesis by (intro exI [of _ c2]) (simp add: c2_def c1_def)
qed

lemma conn_inv_steps: "(conn_step S iss m)\<^sup>*\<^sup>* c c' \<Longrightarrow> conn_inv S iss m B c \<Longrightarrow> \<exists>B'. conn_inv S iss m B' c'"
proof (induction rule: rtranclp_induct)
  case (step y z)
  then show ?case using conn_inv_step by blast
qed blast

lemma conn_advance:
  assumes I: "conn_inv S iss m B c" and x: "cn_acked c < cn_written c" and m: "0 < m"
  shows "\<exists>c' B'. (conn_step S iss m)\<^sup>*\<^sup>* c c' \<and> conn_inv S iss m B' c' \<and> cn_acked c < cn_acked c' \<and> cn_written c' = cn_written c"
proof -
  from conn_read_all [OF I] obtain r where s1: "conn_step S iss m c (c\<lparr>cn_rx := r, cn_out := map S [0..<missing (cn_received c)]\<rparr>)" by blast
  define c1 where "c1 = c\<lparr>cn_rx := r, cn_out := map S [0..<missing (cn_received c)]\<rparr>"
  have s1: "(conn_step S iss m)\<^sup>*\<^sup>* c c1" using s1 by (simp add: c1_def r_into_rtranclp)
  from conn_inv_steps [OF this I] obtain B1 where I1: "conn_inv S iss m B1 c1" by blast
  have e: "cn_acked c1 = cn_acked c" "cn_written c1 = cn_written c" "cn_received c1 = cn_received c" "length (cn_out c1) = missing (cn_received c)"
    by (simp_all add: c1_def)
  have "\<exists>c2. (conn_step S iss m)\<^sup>*\<^sup>* c1 c2 \<and> cn_acked c < missing (cn_received c2) \<and> cn_acked c2 = cn_acked c \<and> cn_written c2 = cn_written c"
  proof (cases "cn_acked c = missing (cn_received c)")
    case True
    then show ?thesis using conn_send_missing [OF I1 _ _ _ m] x e by simp
  next
    case False
    then have "cn_acked c < missing (cn_received c)" using conn_invD(6) [OF I] by simp
    then show ?thesis using e by (intro exI [of _ c1]) simp
  qed
  then obtain c2 where c2: "(conn_step S iss m)\<^sup>*\<^sup>* c1 c2" "cn_acked c < missing (cn_received c2)" "cn_acked c2 = cn_acked c" "cn_written c2 = cn_written c" by blast
  from conn_inv_steps [OF c2(1) I1] obtain B2 where I2: "conn_inv S iss m B2 c2" by blast
  from conn_ack_all [OF I2] c2 obtain c3 where
    c3: "(conn_step S iss m)\<^sup>*\<^sup>* c2 c3" "cn_acked c3 = missing (cn_received c2)" "cn_written c3 = cn_written c" by auto
  from conn_inv_steps [OF c3(1) I2] obtain B3 where "conn_inv S iss m B3 c3" by blast
  moreover have "(conn_step S iss m)\<^sup>*\<^sup>* c c3" using s1 c2(1) c3(1) by (meson rtranclp_trans)
  ultimately show ?thesis using c2(2) c3 by auto
qed

lemma conn_finish:
  assumes "conn_inv S iss m B c" and "0 < m"
  shows "\<exists>c' B'. (conn_step S iss m)\<^sup>*\<^sup>* c c' \<and> conn_inv S iss m B' c' \<and> cn_acked c' = cn_written c \<and> cn_written c' = cn_written c"
  using assms
proof (induction "cn_written c - cn_acked c" arbitrary: c B rule: less_induct)
  case less
  have le: "cn_acked c \<le> cn_written c" using less.prems(1) by (simp add: conn_inv_def)
  show ?case
  proof (cases "cn_acked c = cn_written c")
    case True
    then show ?thesis using less.prems(1) by blast
  next
    case False
    then have "cn_acked c < cn_written c" using le by simp
    from conn_advance [OF less.prems(1) this less.prems(2)] obtain c1 B1 where
      c1: "(conn_step S iss m)\<^sup>*\<^sup>* c c1" "conn_inv S iss m B1 c1" "cn_acked c < cn_acked c1" "cn_written c1 = cn_written c" by blast
    have "cn_written c1 - cn_acked c1 < cn_written c - cn_acked c" using c1(3,4) \<open>cn_acked c < cn_written c\<close> by simp
    from less.hyps [OF this c1(2) less.prems(2)] obtain c' B' where
      "(conn_step S iss m)\<^sup>*\<^sup>* c1 c'" "conn_inv S iss m B' c'" "cn_acked c' = cn_written c" "cn_written c' = cn_written c" unfolding c1(4) by blast
    then show ?thesis using c1(1) by (meson rtranclp_trans)
  qed
qed

section \<open>Properties\<close>

text \<open>
  C7: Whatever the network loses, repeats, delays or reorders: what the receiving application has read is what the sending one wrote, from the
  first byte on; nothing is acknowledged to the sender that was not received, and the send buffer still holds every byte from the first one
  not acknowledged to the last one written.
\<close>

theorem tcp_connection_delivers:
  assumes "tcp_connection S iss m c"
  shows "cn_out c = map S [0..<length (cn_out c)] \<and> length (cn_out c) \<le> cn_written c \<and> {..<cn_acked c} \<subseteq> cn_received c \<and>
    cn_received c \<subseteq> {..<cn_written c} \<and>
    item_bytes (tx_sentList (cn_tx c) @ tx_appList (cn_tx c)) = map S [cn_acked c..<cn_written c] \<and>
    tx_firstByteSeq (cn_tx c) = seq_of iss (cn_acked c)"
proof -
  obtain B where I: "conn_inv S iss m B c" using tcp_connection_inv [OF assms] by blast
  note D = conn_invD [OF I] and E = conn_ends [OF I]
  have F: "cn_out c = map S [0..<length (cn_out c)]" "length (cn_out c) \<le> missing (cn_received c)" using rx_history_facts [OF D(2)] by blast+
  moreover have "{..<cn_acked c} \<subseteq> cn_received c" using missing_finite(3) [OF D(3)] D(6) by auto
  moreover have "cn_received c \<subseteq> {..<cn_written c}" using D(3) E(2) by auto
  moreover have "item_bytes (tx_sentList (cn_tx c) @ tx_appList (cn_tx c)) = map S [cn_acked c..<cn_written c]"
    using tx_holdsD(6) [OF D(1)] by (simp add: contents_of_def drop_map)
  ultimately show ?thesis using sizes_okD(1) [OF tx_holdsD(2) [OF D(1)]] E by simp
qed


text \<open>
  C9: A connection never gets stuck: from whatever state the network has brought it to, with segments and acknowledgements lost, items marked
  as lost, acknowledged or sent again, there are steps after which all data written was read at the other end and is acknowledged.
\<close>

theorem tcp_connection_completes:
  assumes "tcp_connection S iss m c" and "0 < m"
  shows "\<exists>c'. (conn_step S iss m)\<^sup>*\<^sup>* c c' \<and> cn_written c' = cn_written c \<and> cn_out c' = map S [0..<cn_written c] \<and> cn_acked c' = cn_written c"
proof -
  obtain B where I: "conn_inv S iss m B c" using tcp_connection_inv [OF assms(1)] by blast
  from conn_finish [OF this assms(2)] obtain c1 B1 where
    c1: "(conn_step S iss m)\<^sup>*\<^sup>* c c1" "conn_inv S iss m B1 c1" "cn_acked c1 = cn_written c" "cn_written c1 = cn_written c" by blast
  have "missing (cn_received c1) = cn_written c" using conn_ends(1,2) [OF c1(2)] conn_invD(6) [OF c1(2)] c1(3,4) by simp
  then obtain b where "conn_step S iss m c1 (c1\<lparr>cn_rx := b, cn_out := map S [0..<cn_written c]\<rparr>)" using conn_read_all [OF c1(2)] by auto
  then have "(conn_step S iss m)\<^sup>*\<^sup>* c (c1\<lparr>cn_rx := b, cn_out := map S [0..<cn_written c]\<rparr>)" using c1(1) by (rule rtranclp.rtrancl_into_rtrancl [rotated])
  then show ?thesis using c1(3,4) by (intro exI [of _ "c1\<lparr>cn_rx := b, cn_out := map S [0..<cn_written c]\<rparr>"]) simp
qed

section \<open>A short connection\<close>

text \<open>Three bytes are written, two of them sent across the end of the sequence numbers, received, read and acknowledged.\<close>

definition conn_written :: connection where
  "conn_written = \<lparr>cn_written = 3, cn_acked = 0, cn_tx = (TcpTxBuffer_new 0)\<lparr>tx_firstByteSeq := 0xFFFFFFFE, tx_highestSack := (None, 0),
     tx_appList := [(TcpTxItem_new 1)\<lparr>ti_packet := [0, 1, 2]\<rparr>], tx_size := 3, tx_nodes := 2\<rparr>,
     cn_segments = {}, cn_received = {}, cn_out = [], cn_rx = sample_rx, cn_acks = {}\<rparr>"

definition sent_pair :: TcpTxItem where
  "sent_pair = (TcpTxItem_new 3)\<lparr>ti_startSeq := 0xFFFFFFFE, ti_packet := [0, 1], ti_lastSent := 0\<rparr>"

definition conn_sent :: connection where
  "conn_sent = conn_written\<lparr>cn_tx := (cn_tx conn_written)\<lparr>tx_appList := [(TcpTxItem_new 1)\<lparr>ti_startSeq := 2, ti_packet := [2]\<rparr>],
     tx_sentList := [sent_pair], tx_sentSize := 2, tx_nodes := 4\<rparr>, cn_segments := {(0, sent_pair)}\<rparr>"

definition conn_delivered :: connection where
  "conn_delivered = conn_sent\<lparr>cn_rx := sample_rx\<lparr>rx_size := 2, rx_data := [(0xFFFFFFFE, [0, 1])], rx_nextRxSeq := 0, rx_availBytes := 2\<rparr>, cn_received := {0..<2}\<rparr>"

definition conn_read :: connection where
  "conn_read = conn_delivered\<lparr>cn_rx := sample_rx\<lparr>rx_nextRxSeq := 0\<rparr>, cn_out := [0, 1]\<rparr>"

definition conn_acknowledged :: connection where
  "conn_acknowledged = conn_read\<lparr>cn_acks := {(2, 0, [])}\<rparr>"

lemmas conn_eval = conn_written_def sent_pair_def conn_sent_def conn_delivered_def conn_read_def conn_acknowledged_def
  TcpTxBuffer_new_def TcpTxItem_new_def Time_Max_def item_size_def SplitItems_def GetNewSegment_def SizeFromSequence_def TailSequence_def

lemma conn_written_reached: "tcp_connection byte_stream 0xFFFFFFFE 100 conn_written"
proof -
  let ?b = "(TcpTxBuffer_new 0)\<lparr>tx_firstByteSeq := 0xFFFFFFFE, tx_highestSack := (None, 0)\<rparr>"
  let ?c = "conn_written\<lparr>cn_written := 0, cn_tx := ?b\<rparr>"
  have h: "SetHeadSequence 0xFFFFFFFE (TcpTxBuffer_new 0) = Some ?b" by (simp add: SetHeadSequence_def TcpTxBuffer_new_def)
  have "conn_start 0xFFFFFFFE 100 ?c" unfolding conn_start_def using h by (auto simp: conn_written_def sample_rx_def)
  then have "tcp_connection byte_stream 0xFFFFFFFE 100 ?c" by (rule connection_start)
  moreover have "Tx_Add [0, 1, 2] (cn_tx ?c) = (True, cn_tx conn_written)"
    by (simp add: Tx_Add_def Tx_Available_def conn_eval pkt_size_def)
  then have "conn_step byte_stream 0xFFFFFFFE 100 ?c
    (?c\<lparr>cn_tx := cn_tx conn_written, cn_written := (if True then cn_written ?c + length [0, 1, 2 :: u8] else cn_written ?c)\<rparr>)"
    by (intro step_write) (simp_all add: byte_stream_def upt_rec)
  ultimately have "tcp_connection byte_stream 0xFFFFFFFE 100
    (?c\<lparr>cn_tx := cn_tx conn_written, cn_written := (if True then cn_written ?c + length [0, 1, 2 :: u8] else cn_written ?c)\<rparr>)"
    by (rule connection_step)
  then show ?thesis by (simp add: conn_written_def numeral_3_eq_3)
qed

lemma conn_sent_reached: "tcp_connection byte_stream 0xFFFFFFFE 100 conn_sent"
proof -
  have "CopyFromSequence 0 2 (seq_of 0xFFFFFFFE 0) (cn_tx conn_written) = Some (Some sent_pair, cn_tx conn_sent)"
    by (simp add: conn_eval rx_eval CopyFromSequence.simps [of 0] GetPacketFromList.simps [of False])
  then have "conn_step byte_stream 0xFFFFFFFE 100 conn_written
    (conn_written\<lparr>cn_tx := cn_tx conn_sent, cn_segments := insert (0, sent_pair) (cn_segments conn_written)\<rparr>)"
    by (intro step_send [where now = 0 and nb = 2]) (simp_all add: conn_written_def)
  then show ?thesis using connection_step [OF conn_written_reached] by (simp add: conn_sent_def conn_written_def)
qed

lemma conn_delivered_reached: "tcp_connection byte_stream 0xFFFFFFFE 100 conn_delivered"
proof -
  have "TcpRxBuffer_Add (ti_packet sent_pair) (ti_startSeq sent_pair) (cn_rx conn_sent) = Some (True, cn_rx conn_delivered)"
    by (simp add: conn_eval rx_eval)
  then have "conn_step byte_stream 0xFFFFFFFE 100 conn_sent (conn_sent\<lparr>cn_rx := cn_rx conn_delivered,
      cn_received := cn_received conn_sent \<union> accepted 100 (cn_received conn_sent) (length (cn_out conn_sent)) 0 (length (ti_packet sent_pair))\<rparr>)"
    by (intro step_deliver) (simp_all add: conn_sent_def conn_written_def in_time_def segment_fits_def sent_pair_def)
  then show ?thesis using connection_step [OF conn_sent_reached]
    by (simp add: conn_delivered_def conn_sent_def conn_written_def accepted_def sent_pair_def lessThan_0 numeral_2_eq_2)
qed

lemma conn_read_reached: "tcp_connection byte_stream 0xFFFFFFFE 100 conn_read"
proof -
  have "TcpRxBuffer_Extract 5 (cn_rx conn_delivered) = Some (Some [0, 1], cn_rx conn_read)"
    by (simp add: conn_eval rx_eval)
  from step_read [OF this] connection_step [OF conn_delivered_reached] show ?thesis
    by (fastforce simp: conn_read_def conn_delivered_def conn_sent_def conn_written_def delivers_def)
qed

lemma conn_acknowledged_reached: "tcp_connection byte_stream 0xFFFFFFFE 100 conn_acknowledged"
proof -
  have "missing {0..<2} = 2" unfolding missing_def by (rule Least_equality) auto
  then show ?thesis using connection_step [OF conn_read_reached step_acknowledge]
    by (simp add: conn_acknowledged_def conn_read_def conn_delivered_def conn_sent_def conn_written_def sample_rx_def SetNextRxSequence_def
      SetMaxBufferSize_def TcpRxBuffer_new_def)
qed

theorem tcp_connection_delivers_witness:
  "cn_out conn_read = map byte_stream [0..<2] \<and> item_bytes (tx_sentList (cn_tx conn_read) @ tx_appList (cn_tx conn_read)) = map byte_stream [0..<3]"
  using tcp_connection_delivers [OF conn_read_reached]
  by (simp add: conn_read_def conn_delivered_def conn_sent_def conn_written_def numeral_2_eq_2)


theorem tcp_connection_completes_witness:
  "\<exists>c'. (conn_step byte_stream 0xFFFFFFFE 100)\<^sup>*\<^sup>* conn_sent c' \<and> cn_out c' = map byte_stream [0..<3] \<and> cn_acked c' = 3"
proof -
  have "cn_written conn_sent = 3" by (simp add: conn_sent_def conn_written_def)
  then show ?thesis using tcp_connection_completes [OF conn_sent_reached, simplified] by auto
qed

end
