(* ===== verification/Ipv4_Address.thy ===== *)
theory Ipv4_Address
  imports Prelude
begin

text \<open>
  \<^verbatim>\<open>Ipv4Address\<close> and \<^verbatim>\<open>Ipv4Mask\<close> (\<^verbatim>\<open>network/utils/ipv4-address.cc\<close>): an address and a mask are the 32 bits they hold,
  which is all that the comparisons look at.  A character string is the list of its bytes without the terminating zero;
  \<open>None\<close> is an assertion that fails or a read outside the string.
\<close>

definition ASCII_DOT :: u8 where
  "ASCII_DOT = 0x2e"

definition ASCII_ZERO :: u8 where
  "ASCII_ZERO = 0x30"

definition ASCII_SLASH :: u8 where
  "ASCII_SLASH = 0x2f"

definition UNINITIALIZED :: u32 where
  "UNINITIALIZED = 0x66666666"

section \<open>Reading an address\<close>

text \<open>The inner loop of \<^verbatim>\<open>AsciiToIpv4Host\<close>: the byte, and the string from the dot on.\<close>

fun ascii_byte :: "u8 \<Rightarrow> u8 list \<Rightarrow> u8 \<times> u8 list" where
  "ascii_byte byte [] = (byte, [])"
| "ascii_byte byte (c # cs) = (if c = ASCII_DOT then (byte, c # cs) else ascii_byte (byte * 10 + (c - ASCII_ZERO)) cs)"

lemma ascii_byte_length: "length (snd (ascii_byte b s)) \<le> length s"
  by (induction b s rule: ascii_byte.induct) auto

function ascii_loop :: "u32 \<Rightarrow> u8 \<Rightarrow> u8 list \<Rightarrow> (u32 \<times> u8) option" where
  "ascii_loop host numberOfDots ptr =
     (case ascii_byte 0 ptr of
        (byte, ptr) \<Rightarrow>
          let host = push_bit 8 host OR ucast byte
          in case ptr of
               [] \<Rightarrow> Some (host, numberOfDots)
             | _ # ptr \<Rightarrow> if ptr \<noteq> [] \<and> hd ptr = ASCII_DOT then None else ascii_loop host (numberOfDots + 1) ptr)"
  by pat_completeness auto
termination
proof (relation "measure (\<lambda>(h, n, s). length s)", goal_cases)
  case (2 host numberOfDots ptr)
  then show ?case using ascii_byte_length [of 0 ptr] by (simp add: prod_eq_iff split: prod.splits) (metis Suc_le_lessD length_Cons snd_conv)
qed simp

declare ascii_loop.simps [simp del]

definition AsciiToIpv4Host :: "u8 list \<Rightarrow> u32 option" where
  "AsciiToIpv4Host address =
     (if address = [] then None
      else if hd address = ASCII_DOT then None
      else case ascii_loop 0 0 address of
             None \<Rightarrow> None
           | Some (host, numberOfDots) \<Rightarrow> if last address = ASCII_DOT \<or> numberOfDots \<noteq> 3 then None else Some host)"

section \<open>Masks\<close>

definition Ipv4Mask_new :: u32 where
  "Ipv4Mask_new = 0x66666666"

text \<open>\<^verbatim>\<open>plen\<close>: what \<^verbatim>\<open>atoi\<close> makes of the characters behind the slash.\<close>

definition Ipv4Mask_of_string :: "(u8 list \<Rightarrow> nat) \<Rightarrow> u8 list \<Rightarrow> u32 option" where
  "Ipv4Mask_of_string atoi str =
     (if str \<noteq> [] \<and> hd str = ASCII_SLASH then
        (let plen = atoi (tl str)
         in if \<not> plen \<le> 32 then None else Some (if 0 < plen then push_bit (32 - plen) 0xffffffff else 0))
      else AsciiToIpv4Host str)"

definition Ipv4Mask_IsMatch :: "u32 \<Rightarrow> u32 \<Rightarrow> u32 \<Rightarrow> bool" where
  "Ipv4Mask_IsMatch m_mask a b \<longleftrightarrow> a AND m_mask = b AND m_mask"

definition Ipv4Mask_GetInverse :: "u32 \<Rightarrow> u32" where
  "Ipv4Mask_GetInverse m_mask = NOT m_mask"

definition Ipv4Mask_GetZero :: u32 where
  "Ipv4Mask_GetZero = 0"

definition Ipv4Mask_GetOnes :: u32 where
  "Ipv4Mask_GetOnes = 0xffffffff"

text \<open>The loop \<^verbatim>\<open>while (mask != 0)\<close> shifts a bit out each time; 32 rounds are enough.\<close>

fun prefix_loop :: "nat \<Rightarrow> u32 \<Rightarrow> nat \<Rightarrow> nat option" where
  "prefix_loop 0 msk tmp = (if msk = 0 then Some tmp else None)"
| "prefix_loop (Suc fuel) msk tmp = (if msk = 0 then Some tmp else prefix_loop fuel (push_bit 1 msk) (tmp + 1))"

definition Ipv4Mask_GetPrefixLength :: "u32 \<Rightarrow> nat" where
  "Ipv4Mask_GetPrefixLength m_mask = the (prefix_loop 32 m_mask 0)"

section \<open>Addresses\<close>

definition Ipv4Address_CombineMask :: "u32 \<Rightarrow> u32 \<Rightarrow> u32" where
  "Ipv4Address_CombineMask m_address msk = m_address AND msk"

definition Ipv4Address_GetSubnetDirectedBroadcast :: "u32 \<Rightarrow> u32 \<Rightarrow> u32 option" where
  "Ipv4Address_GetSubnetDirectedBroadcast m_address msk =
     (if msk = Ipv4Mask_GetOnes then None else Some (m_address OR Ipv4Mask_GetInverse msk))"

definition Ipv4Address_IsSubnetDirectedBroadcast :: "u32 \<Rightarrow> u32 \<Rightarrow> bool" where
  "Ipv4Address_IsSubnetDirectedBroadcast m_address msk \<longleftrightarrow>
     (if msk = Ipv4Mask_GetOnes then False else m_address OR Ipv4Mask_GetInverse msk = m_address)"

definition Ipv4Address_IsAny :: "u32 \<Rightarrow> bool" where
  "Ipv4Address_IsAny m_address \<longleftrightarrow> m_address = 0x00000000"

definition Ipv4Address_IsLocalhost :: "u32 \<Rightarrow> bool" where
  "Ipv4Address_IsLocalhost m_address \<longleftrightarrow> m_address = 0x7f000001"

definition Ipv4Address_IsBroadcast :: "u32 \<Rightarrow> bool" where
  "Ipv4Address_IsBroadcast m_address \<longleftrightarrow> m_address = 0xffffffff"

definition Ipv4Address_IsMulticast :: "u32 \<Rightarrow> bool" where
  "Ipv4Address_IsMulticast m_address \<longleftrightarrow> m_address \<ge> 0xe0000000 \<and> m_address \<le> 0xefffffff"

definition Ipv4Address_IsLocalMulticast :: "u32 \<Rightarrow> bool" where
  "Ipv4Address_IsLocalMulticast m_address \<longleftrightarrow> m_address AND 0xffffff00 = 0xe0000000"

definition Ipv4Address_Serialize :: "u32 \<Rightarrow> u8 list" where
  "Ipv4Address_Serialize m_address =
     [ucast (drop_bit 24 m_address AND 0xff), ucast (drop_bit 16 m_address AND 0xff),
      ucast (drop_bit 8 m_address AND 0xff), ucast (drop_bit 0 m_address AND 0xff)]"

definition Ipv4Address_Deserialize :: "u8 list \<Rightarrow> u32" where
  "Ipv4Address_Deserialize buf =
     (let m_address = 0 OR ucast (buf ! 0);
          m_address = push_bit 8 m_address OR ucast (buf ! 1);
          m_address = push_bit 8 m_address OR ucast (buf ! 2)
      in push_bit 8 m_address OR ucast (buf ! 3))"

text \<open>An unsigned number put on an output stream.\<close>

fun put_decimal :: "nat \<Rightarrow> u8 list" where
  "put_decimal n = (if n < 10 then [ASCII_ZERO + of_nat n] else put_decimal (n div 10) @ [ASCII_ZERO + of_nat (n mod 10)])"

declare put_decimal.simps [simp del]

definition Ipv4Address_Print :: "u32 \<Rightarrow> u8 list" where
  "Ipv4Address_Print m_address =
     put_decimal (unat (drop_bit 24 m_address AND 0xff)) @ [ASCII_DOT] @
     put_decimal (unat (drop_bit 16 m_address AND 0xff)) @ [ASCII_DOT] @
     put_decimal (unat (drop_bit 8 m_address AND 0xff)) @ [ASCII_DOT] @
     put_decimal (unat (drop_bit 0 m_address AND 0xff))"

section \<open>What is printed is read back\<close>

lemma digit_byte: "d < 10 \<Longrightarrow> ASCII_ZERO + of_nat d \<noteq> ASCII_DOT"
proof -
  assume "d < 10"
  then have "d \<in> {0,1,2,3,4,5,6,7,8,9}" by auto
  then show ?thesis by (auto simp: ASCII_ZERO_def ASCII_DOT_def)
qed

lemma ascii_decimal: "ascii_byte 0 (put_decimal n @ cs) = ascii_byte (of_nat n) cs"
proof (induction n arbitrary: cs rule: put_decimal.induct)
  case (1 n)
  show ?case
  proof (cases "n < 10")
    case True
    then show ?thesis by (subst put_decimal.simps) (simp add: digit_byte)
  next
    case False
    have e: "(of_nat (n div 10) :: u8) * 10 + of_nat (n mod 10) = of_nat n"
    proof -
      have "(of_nat (n div 10 * 10 + n mod 10) :: u8) = of_nat n" by (simp only: div_mult_mod_eq)
      then show ?thesis by (simp only: of_nat_add of_nat_mult of_nat_numeral)
    qed
    have "ascii_byte 0 (put_decimal n @ cs) = ascii_byte (of_nat (n div 10)) ((ASCII_ZERO + of_nat (n mod 10)) # cs)"
      by (subst put_decimal.simps) (use False "1" in simp)
    also have "\<dots> = ascii_byte (of_nat n) cs" by (simp add: digit_byte e)
    finally show ?thesis .
  qed
qed

lemma put_decimal_ends: "put_decimal n \<noteq> [] \<and> hd (put_decimal n) \<noteq> ASCII_DOT \<and> last (put_decimal n) \<noteq> ASCII_DOT"
proof (induction n rule: put_decimal.induct)
  case (1 n)
  then show ?case by (subst (1 2 3) put_decimal.simps) (auto simp: digit_byte)
qed

lemma ascii_loop_dot:
  "ascii_loop host k (put_decimal n @ ASCII_DOT # put_decimal m @ cs) =
    ascii_loop (push_bit 8 host OR ucast (of_nat n :: u8)) (k + 1) (put_decimal m @ cs)"
  using put_decimal_ends [of m] by (subst ascii_loop.simps) (simp add: ascii_decimal Let_def)

lemma ascii_loop_end: "ascii_loop host k (put_decimal n) = Some (push_bit 8 host OR ucast (of_nat n :: u8), k)"
  using ascii_decimal [of n "[]"] by (subst ascii_loop.simps) (simp add: Let_def)

lemma ff_mask: "(0xff :: u32) = mask 8"
  by (simp add: mask_eq_exp_minus_1)

lemma byte_again: "(ucast (of_nat (unat (w AND 0xff)) :: u8) :: u32) = w AND 0xff"
  for w :: u32
  unfolding ff_mask by (rule bit_word_eqI) (auto simp: bit_simps)

lemma address_four_bytes:
  fixes a :: u32
  shows "push_bit 8 (push_bit 8 (push_bit 8 (drop_bit 24 a AND 0xff) OR (drop_bit 16 a AND 0xff)) OR (drop_bit 8 a AND 0xff)) OR (a AND 0xff) = a"
  unfolding ff_mask
proof (rule bit_word_eqI)
  fix n assume "n < LENGTH(32)"
  moreover have "n < 8 \<or> 8 \<le> n \<and> n < 16 \<or> 16 \<le> n \<and> n < 24 \<or> 24 \<le> n" by arith
  ultimately show "bit (push_bit 8 (push_bit 8 (push_bit 8 (drop_bit 24 a AND mask 8) OR (drop_bit 16 a AND mask 8)) OR
      (drop_bit 8 a AND mask 8)) OR (a AND mask 8)) n = bit a n"
    by (elim disjE) (auto simp: bit_simps)
qed

text \<open>
  What \<^verbatim>\<open>Print\<close> writes for an IPv4 address, \<^verbatim>\<open>AsciiToIpv4Host\<close> reads back as the same address.
\<close>

theorem ipv4_print_parse: "AsciiToIpv4Host (Ipv4Address_Print a) = Some a"
proof -
  let ?p = "\<lambda>i. put_decimal (unat (drop_bit i a AND 0xff))"
  note e = put_decimal_ends [of "unat (drop_bit 24 a AND 0xff)"] put_decimal_ends [of "unat (drop_bit 0 a AND 0xff)"]
  have "ascii_loop 0 0 (Ipv4Address_Print a) =
      Some (push_bit 8 (push_bit 8 (push_bit 8 (push_bit 8 0 OR (drop_bit 24 a AND 0xff)) OR (drop_bit 16 a AND 0xff)) OR
        (drop_bit 8 a AND 0xff)) OR (drop_bit 0 a AND 0xff), 0 + 1 + 1 + 1)"
    unfolding Ipv4Address_Print_def append_Cons append_Nil
    by (simp only: ascii_loop_dot ascii_loop_dot [where cs = "[]", simplified] ascii_loop_end byte_again)
  also have "\<dots> = Some (a, 3)" using address_four_bytes [of a] by simp
  finally have "ascii_loop 0 0 (Ipv4Address_Print a) = Some (a, 3)" .
  moreover have "Ipv4Address_Print a \<noteq> []" "hd (Ipv4Address_Print a) \<noteq> ASCII_DOT" "last (Ipv4Address_Print a) \<noteq> ASCII_DOT"
    using e by (simp_all add: Ipv4Address_Print_def)
  ultimately show ?thesis by (simp add: AsciiToIpv4Host_def)
qed

section \<open>Contiguous masks\<close>

definition prefix_mask :: "nat \<Rightarrow> u32" where
  "prefix_mask k = push_bit (32 - k) (mask k)"

lemma prefix_loop_enough:
  assumes "\<forall>i<32. bit w i \<longrightarrow> 32 - fuel \<le> i" and "fuel \<le> 32"
  shows "\<exists>t. prefix_loop fuel w tmp = Some t"
  using assms
proof (induction fuel w tmp rule: prefix_loop.induct)
  case (1 w tmp)
  then have "w = 0" by (intro bit_word_eqI) auto
  then show ?case by simp
next
  case (2 fuel w tmp)
  show ?case
  proof (cases "w = 0")
    case False
    have "32 - fuel \<le> i" if i: "i < 32" "bit (push_bit 1 w) i" for i
    proof -
      have "0 < i" "bit w (i - 1)" using i unfolding bit_push_bit_iff by auto
      then have "32 - Suc fuel \<le> i - 1" using "2.prems"(1) i(1) by simp
      then show ?thesis using \<open>0 < i\<close> by arith
    qed
    then show ?thesis using "2.IH" [OF False] "2.prems"(2) False by simp
  qed simp
qed

lemma GetPrefixLength_total: "prefix_loop 32 w 0 = Some (Ipv4Mask_GetPrefixLength w)"
  using prefix_loop_enough [of w 32 0] by (auto simp: Ipv4Mask_GetPrefixLength_def)

lemma prefix_loop_top: "32 - k \<le> n \<Longrightarrow> n \<le> 32 \<Longrightarrow> k \<le> fuel \<Longrightarrow> prefix_loop fuel (push_bit n (mask 32)) tmp = Some (tmp + (32 - n))"
proof (induction k arbitrary: n fuel tmp)
  case 0
  then have "n = 32" by simp
  have "push_bit 32 (mask 32) = (0 :: u32)" by (rule bit_word_eqI) (auto simp: bit_simps)
  then show ?case using \<open>n = 32\<close> by (cases fuel) auto
next
  case (Suc k)
  show ?case
  proof (cases "n = 32")
    case True
    have "push_bit 32 (mask 32) = (0 :: u32)" by (rule bit_word_eqI) (auto simp: bit_simps)
    then show ?thesis using True by (cases fuel) auto
  next
    case False
    obtain f where f: "fuel = Suc f" using Suc.prems by (cases fuel) auto
    have "bit (push_bit n (mask 32) :: u32) n" using False Suc.prems by (auto simp: bit_simps)
    then have nz: "(push_bit n (mask 32) :: u32) \<noteq> 0" by auto
    have "prefix_loop f (push_bit (Suc n) (mask 32)) (tmp + 1) = Some (tmp + 1 + (32 - Suc n))"
      using Suc.IH [of "Suc n" f "tmp + 1"] Suc.prems False f by simp
    then show ?thesis using nz f False Suc.prems by (simp add: push_bit_push_bit)
  qed
qed

lemma prefix_mask_eq: "k \<le> 32 \<Longrightarrow> prefix_mask k = push_bit (32 - k) (mask 32)"
  unfolding prefix_mask_def by (rule bit_word_eqI) (auto simp: bit_simps)

lemma GetPrefixLength_prefix: "k \<le> 32 \<Longrightarrow> Ipv4Mask_GetPrefixLength (prefix_mask k) = k"
  using prefix_loop_top [of 32 "32 - k" 32 0] by (simp add: Ipv4Mask_GetPrefixLength_def prefix_mask_eq)

lemma slash_mask: "k \<le> 32 \<Longrightarrow> Ipv4Mask_of_string (\<lambda>_. k) [ASCII_SLASH] = Some (prefix_mask k)"
proof -
  assume k: "k \<le> 32"
  have "(0xffffffff :: u32) = mask 32" by (simp add: mask_eq_exp_minus_1)
  then show ?thesis using k by (auto simp: Ipv4Mask_of_string_def prefix_mask_eq)
qed

end
