(* ===== verification/Ipv4_Static_Routing.thy ===== *)
theory Ipv4_Static_Routing
  imports Ipv4_Address
begin

text \<open>
  \<^verbatim>\<open>Ipv4StaticRouting\<close> of ns-3 (\<^verbatim>\<open>internet/model/ipv4-static-routing.cc\<close>) with its table entries and routes: the protocol the
  GPU's \<^verbatim>\<open>CudaIpv4StaticRouting\<close> was made after.

  The interface \<^verbatim>\<open>Ipv4\<close> the table calls is the record \<open>Ipv4\<close> of what its functions return at the time of the call;
  \<open>m_ipv4_set\<close> says whether the pointer to it has been set.  \<open>None\<close> is an assertion that fails, or the use of a null pointer.
\<close>

record Ipv4 =
  i4_GetNInterfaces :: u32
  i4_IsUp :: "u32 \<Rightarrow> bool"
  i4_IsForwarding :: "u32 \<Rightarrow> bool"
  i4_GetAddresses :: "u32 \<Rightarrow> (u32 \<times> u32) list"
  i4_GetNetDevice :: "u32 \<Rightarrow> ptr"
  i4_GetInterfaceForDevice :: "ptr \<Rightarrow> u32 option"
  i4_SourceAddressSelection :: "u32 \<Rightarrow> u32 \<Rightarrow> u32"
  i4_IsDestinationAddress :: "u32 \<Rightarrow> u32 \<Rightarrow> bool"

definition IF_ANY :: u32 where
  "IF_ANY = 0xffffffff"

section \<open>Entries and routes\<close>

record Ipv4RoutingTableEntry =
  te_dest :: u32
  te_destNetworkMask :: u32
  te_gateway :: u32
  te_interface :: u32

definition CreateNetworkRouteTo :: "u32 \<Rightarrow> u32 \<Rightarrow> u32 \<Rightarrow> u32 \<Rightarrow> Ipv4RoutingTableEntry" where
  "CreateNetworkRouteTo network networkMask nextHop iface =
     \<lparr>te_dest = network, te_destNetworkMask = networkMask, te_gateway = nextHop, te_interface = iface\<rparr>"

definition CreateNetworkRouteTo_direct :: "u32 \<Rightarrow> u32 \<Rightarrow> u32 \<Rightarrow> Ipv4RoutingTableEntry" where
  "CreateNetworkRouteTo_direct network networkMask iface =
     \<lparr>te_dest = network, te_destNetworkMask = networkMask, te_gateway = 0, te_interface = iface\<rparr>"

definition CreateHostRouteTo :: "u32 \<Rightarrow> u32 \<Rightarrow> u32 \<Rightarrow> Ipv4RoutingTableEntry" where
  "CreateHostRouteTo dest nextHop iface =
     \<lparr>te_dest = dest, te_destNetworkMask = Ipv4Mask_GetOnes, te_gateway = nextHop, te_interface = iface\<rparr>"

definition CreateDefaultRoute :: "u32 \<Rightarrow> u32 \<Rightarrow> Ipv4RoutingTableEntry" where
  "CreateDefaultRoute nextHop iface =
     \<lparr>te_dest = 0, te_destNetworkMask = Ipv4Mask_GetZero, te_gateway = nextHop, te_interface = iface\<rparr>"

text \<open>The constructor leaves the interface uninitialised.\<close>

definition TableEntry_new :: "u32 \<Rightarrow> Ipv4RoutingTableEntry" where
  "TableEntry_new uninit =
     \<lparr>te_dest = UNINITIALIZED, te_destNetworkMask = Ipv4Mask_new, te_gateway = UNINITIALIZED, te_interface = uninit\<rparr>"

definition TableEntry_IsHost :: "Ipv4RoutingTableEntry \<Rightarrow> bool" where
  "TableEntry_IsHost e \<longleftrightarrow> te_destNetworkMask e = Ipv4Mask_GetOnes"

definition TableEntry_IsNetwork :: "Ipv4RoutingTableEntry \<Rightarrow> bool" where
  "TableEntry_IsNetwork e \<longleftrightarrow> \<not> TableEntry_IsHost e"

definition TableEntry_IsDefault :: "Ipv4RoutingTableEntry \<Rightarrow> bool" where
  "TableEntry_IsDefault e \<longleftrightarrow> te_dest e = 0"

definition TableEntry_IsGateway :: "Ipv4RoutingTableEntry \<Rightarrow> bool" where
  "TableEntry_IsGateway e \<longleftrightarrow> te_gateway e \<noteq> 0"

record Ipv4MulticastRoutingTableEntry =
  mt_origin :: u32
  mt_group :: u32
  mt_inputInterface :: u32
  mt_outputInterfaces :: "u32 list"

record Ipv4Route =
  ro_dest :: u32
  ro_source :: u32
  ro_gateway :: u32
  ro_outputDevice :: ptr

record Ipv4MulticastRoute =
  mr_group :: u32
  mr_origin :: u32
  mr_parent :: u32
  mr_ttls :: "u32 \<rightharpoonup> u32"

definition MAX_TTL :: u32 where
  "MAX_TTL = 255"

definition SetOutputTtl :: "u32 \<Rightarrow> u32 \<Rightarrow> Ipv4MulticastRoute \<Rightarrow> Ipv4MulticastRoute" where
  "SetOutputTtl oif ttl r =
     (if ttl \<ge> MAX_TTL then r\<lparr>mr_ttls := (mr_ttls r)(oif := None)\<rparr> else r\<lparr>mr_ttls := (mr_ttls r)(oif \<mapsto> ttl)\<rparr>)"

section \<open>The table\<close>

record Ipv4StaticRouting =
  m_networkRoutes :: "(Ipv4RoutingTableEntry \<times> u32) list"
  m_multicastRoutes :: "Ipv4MulticastRoutingTableEntry list"
  m_ipv4_set :: bool

definition Ipv4StaticRouting_new :: Ipv4StaticRouting where
  "Ipv4StaticRouting_new = \<lparr>m_networkRoutes = [], m_multicastRoutes = [], m_ipv4_set = False\<rparr>"

text \<open>\<^verbatim>\<open>LookupRoute\<close>: the route is in the table already.\<close>

definition has_route :: "Ipv4RoutingTableEntry \<Rightarrow> u32 \<Rightarrow> Ipv4StaticRouting \<Rightarrow> bool" where
  "has_route route metric s \<longleftrightarrow>
     list_ex (\<lambda>(rtentry, m). te_dest rtentry = te_dest route \<and> te_destNetworkMask rtentry = te_destNetworkMask route \<and>
       te_gateway rtentry = te_gateway route \<and> te_interface rtentry = te_interface route \<and> m = metric) (m_networkRoutes s)"

definition add_unless_there :: "Ipv4RoutingTableEntry \<Rightarrow> u32 \<Rightarrow> Ipv4StaticRouting \<Rightarrow> Ipv4StaticRouting" where
  "add_unless_there route metric s =
     (if \<not> has_route route metric s then s\<lparr>m_networkRoutes := m_networkRoutes s @ [(route, metric)]\<rparr> else s)"

definition AddNetworkRouteTo :: "u32 \<Rightarrow> u32 \<Rightarrow> u32 \<Rightarrow> u32 \<Rightarrow> u32 \<Rightarrow> Ipv4StaticRouting \<Rightarrow> Ipv4StaticRouting" where
  "AddNetworkRouteTo network networkMask nextHop iface metric =
     add_unless_there (CreateNetworkRouteTo network networkMask nextHop iface) metric"

definition AddNetworkRouteTo_direct :: "u32 \<Rightarrow> u32 \<Rightarrow> u32 \<Rightarrow> u32 \<Rightarrow> Ipv4StaticRouting \<Rightarrow> Ipv4StaticRouting" where
  "AddNetworkRouteTo_direct network networkMask iface metric =
     add_unless_there (CreateNetworkRouteTo_direct network networkMask iface) metric"

definition AddHostRouteTo :: "u32 \<Rightarrow> u32 \<Rightarrow> u32 \<Rightarrow> u32 \<Rightarrow> Ipv4StaticRouting \<Rightarrow> Ipv4StaticRouting" where
  "AddHostRouteTo dest nextHop iface metric = AddNetworkRouteTo dest Ipv4Mask_GetOnes nextHop iface metric"

definition AddHostRouteTo_direct :: "u32 \<Rightarrow> u32 \<Rightarrow> u32 \<Rightarrow> Ipv4StaticRouting \<Rightarrow> Ipv4StaticRouting" where
  "AddHostRouteTo_direct dest iface metric = AddNetworkRouteTo_direct dest Ipv4Mask_GetOnes iface metric"

definition SetDefaultRoute :: "u32 \<Rightarrow> u32 \<Rightarrow> u32 \<Rightarrow> Ipv4StaticRouting \<Rightarrow> Ipv4StaticRouting" where
  "SetDefaultRoute nextHop iface metric = AddNetworkRouteTo 0 Ipv4Mask_GetZero nextHop iface metric"

definition AddMulticastRoute :: "u32 \<Rightarrow> u32 \<Rightarrow> u32 \<Rightarrow> u32 list \<Rightarrow> Ipv4StaticRouting \<Rightarrow> Ipv4StaticRouting" where
  "AddMulticastRoute origin grp inputInterface outputInterfaces s =
     s\<lparr>m_multicastRoutes := m_multicastRoutes s @ [\<lparr>mt_origin = origin, mt_group = grp, mt_inputInterface = inputInterface,
        mt_outputInterfaces = outputInterfaces\<rparr>]\<rparr>"

definition SetDefaultMulticastRoute :: "u32 \<Rightarrow> Ipv4StaticRouting \<Rightarrow> Ipv4StaticRouting" where
  "SetDefaultMulticastRoute outputInterface s =
     (let route = CreateNetworkRouteTo_direct 0xe0000000 0xf0000000 outputInterface
      in s\<lparr>m_networkRoutes := m_networkRoutes s @ [(route, 0)]\<rparr>)"

definition GetNMulticastRoutes :: "Ipv4StaticRouting \<Rightarrow> nat" where
  "GetNMulticastRoutes s = length (m_multicastRoutes s)"

definition GetMulticastRoute :: "nat \<Rightarrow> Ipv4StaticRouting \<Rightarrow> Ipv4MulticastRoutingTableEntry option" where
  "GetMulticastRoute index s = (if index < length (m_multicastRoutes s) then Some (m_multicastRoutes s ! index) else None)"

fun remove_first :: "('a \<Rightarrow> bool) \<Rightarrow> 'a list \<Rightarrow> 'a list option" where
  "remove_first P [] = None"
| "remove_first P (x # xs) = (if P x then Some xs else map_option ((#) x) (remove_first P xs))"

definition RemoveMulticastRoute :: "u32 \<Rightarrow> u32 \<Rightarrow> u32 \<Rightarrow> Ipv4StaticRouting \<Rightarrow> bool \<times> Ipv4StaticRouting" where
  "RemoveMulticastRoute origin grp inputInterface s =
     (case remove_first (\<lambda>route. origin = mt_origin route \<and> grp = mt_group route \<and> inputInterface = mt_inputInterface route)
             (m_multicastRoutes s) of
        Some routes \<Rightarrow> (True, s\<lparr>m_multicastRoutes := routes\<rparr>)
      | None \<Rightarrow> (False, s))"

definition RemoveMulticastRoute_index :: "nat \<Rightarrow> Ipv4StaticRouting \<Rightarrow> Ipv4StaticRouting" where
  "RemoveMulticastRoute_index index s =
     s\<lparr>m_multicastRoutes := take index (m_multicastRoutes s) @ drop (index + 1) (m_multicastRoutes s)\<rparr>"

definition GetNRoutes :: "Ipv4StaticRouting \<Rightarrow> nat" where
  "GetNRoutes s = length (m_networkRoutes s)"

definition GetRoute :: "nat \<Rightarrow> Ipv4StaticRouting \<Rightarrow> Ipv4RoutingTableEntry option" where
  "GetRoute index s = (if index < length (m_networkRoutes s) then Some (fst (m_networkRoutes s ! index)) else None)"

definition GetMetric :: "nat \<Rightarrow> Ipv4StaticRouting \<Rightarrow> u32 option" where
  "GetMetric index s = (if index < length (m_networkRoutes s) then Some (snd (m_networkRoutes s ! index)) else None)"

definition RemoveRoute_index :: "nat \<Rightarrow> Ipv4StaticRouting \<Rightarrow> Ipv4StaticRouting option" where
  "RemoveRoute_index index s =
     (if index < length (m_networkRoutes s)
      then Some (s\<lparr>m_networkRoutes := take index (m_networkRoutes s) @ drop (index + 1) (m_networkRoutes s)\<rparr>) else None)"

text \<open>The loop of \<^verbatim>\<open>GetDefaultRoute\<close>.\<close>

fun default_loop :: "Ipv4RoutingTableEntry option \<Rightarrow> u32 \<Rightarrow> (Ipv4RoutingTableEntry \<times> u32) list \<Rightarrow> Ipv4RoutingTableEntry option" where
  "default_loop result shortest_metric [] = result"
| "default_loop result shortest_metric ((j, metric) # routes) =
     (let masklen = Ipv4Mask_GetPrefixLength (te_destNetworkMask j)
      in if masklen \<noteq> 0 then default_loop result shortest_metric routes
         else if metric > shortest_metric then default_loop result shortest_metric routes
         else default_loop (Some j) metric routes)"

definition GetDefaultRoute :: "u32 \<Rightarrow> Ipv4StaticRouting \<Rightarrow> Ipv4RoutingTableEntry" where
  "GetDefaultRoute uninit s =
     (case default_loop None 0xffffffff (m_networkRoutes s) of Some j \<Rightarrow> j | None \<Rightarrow> TableEntry_new uninit)"

section \<open>Looking up a route\<close>

definition route_of :: "Ipv4 \<Rightarrow> Ipv4RoutingTableEntry \<Rightarrow> Ipv4Route" where
  "route_of ipv4 route =
     (let interfaceIdx = te_interface route
      in \<lparr>ro_dest = te_dest route, ro_source = i4_SourceAddressSelection ipv4 interfaceIdx (te_dest route),
          ro_gateway = te_gateway route, ro_outputDevice = i4_GetNetDevice ipv4 interfaceIdx\<rparr>)"

fun lookup_loop :: "Ipv4 \<Rightarrow> u32 \<Rightarrow> ptr \<Rightarrow> Ipv4Route option \<Rightarrow> nat \<Rightarrow> u32 \<Rightarrow> (Ipv4RoutingTableEntry \<times> u32) list \<Rightarrow> Ipv4Route option" where
  "lookup_loop ipv4 dest oif rtentry longest_mask shortest_metric [] = rtentry"
| "lookup_loop ipv4 dest oif rtentry longest_mask shortest_metric ((j, metric) # routes) =
     (let m = te_destNetworkMask j; masklen = Ipv4Mask_GetPrefixLength m; entry = te_dest j
      in if \<not> Ipv4Mask_IsMatch m dest entry then lookup_loop ipv4 dest oif rtentry longest_mask shortest_metric routes
         else if oif \<noteq> nullptr \<and> oif \<noteq> i4_GetNetDevice ipv4 (te_interface j)
              then lookup_loop ipv4 dest oif rtentry longest_mask shortest_metric routes
         else if masklen < longest_mask then lookup_loop ipv4 dest oif rtentry longest_mask shortest_metric routes
         else let shortest_metric = (if masklen > longest_mask then 0xffffffff else shortest_metric);
                  longest_mask = masklen
              in if metric > shortest_metric then lookup_loop ipv4 dest oif rtentry longest_mask shortest_metric routes
                 else let rtentry = Some (route_of ipv4 j)
                      in if masklen = 32 then rtentry else lookup_loop ipv4 dest oif rtentry longest_mask metric routes)"

definition LookupStatic :: "Ipv4 \<Rightarrow> u32 \<Rightarrow> ptr \<Rightarrow> Ipv4StaticRouting \<Rightarrow> Ipv4Route option option" where
  "LookupStatic ipv4 dest oif s =
     (if Ipv4Address_IsLocalMulticast dest then
        (if oif = nullptr then None
         else case i4_GetInterfaceForDevice ipv4 oif of
                None \<Rightarrow> None
              | Some i \<Rightarrow>
                  (case i4_GetAddresses ipv4 i of
                     [] \<Rightarrow> None
                   | (local, _) # _ \<Rightarrow> Some (Some \<lparr>ro_dest = dest, ro_source = local, ro_gateway = 0, ro_outputDevice = oif\<rparr>)))
      else Some (lookup_loop ipv4 dest oif None 0 0xffffffff (m_networkRoutes s)))"

definition multicast_route_of :: "Ipv4MulticastRoutingTableEntry \<Rightarrow> Ipv4MulticastRoute" where
  "multicast_route_of route =
     fold (\<lambda>oif r. if oif \<noteq> 0 then SetOutputTtl oif (MAX_TTL - 1) r else r) (mt_outputInterfaces route)
       \<lparr>mr_group = mt_group route, mr_origin = mt_origin route, mr_parent = mt_inputInterface route, mr_ttls = Map.empty\<rparr>"

definition LookupStatic_multicast :: "u32 \<Rightarrow> u32 \<Rightarrow> u32 \<Rightarrow> Ipv4StaticRouting \<Rightarrow> Ipv4MulticastRoute option" where
  "LookupStatic_multicast origin grp iface s =
     map_option multicast_route_of
       (find (\<lambda>route. grp = mt_group route \<and> (iface = IF_ANY \<or> iface = mt_inputInterface route)) (m_multicastRoutes s))"

datatype SocketErrno = ERROR_NOTERROR | ERROR_NOROUTETOHOST

definition RouteOutput :: "Ipv4 \<Rightarrow> u32 \<Rightarrow> ptr \<Rightarrow> Ipv4StaticRouting \<Rightarrow> (Ipv4Route option \<times> SocketErrno) option" where
  "RouteOutput ipv4 destination oif s =
     map_option (\<lambda>rtentry. (rtentry, if rtentry \<noteq> None then ERROR_NOTERROR else ERROR_NOROUTETOHOST))
       (LookupStatic ipv4 destination oif s)"

text \<open>What \<^verbatim>\<open>RouteInput\<close> calls: one of its four callbacks, or none.\<close>

datatype routing_call = unicast_forward Ipv4Route | multicast_forward Ipv4MulticastRoute | local_deliver u32 | routing_error SocketErrno

definition RouteInput ::
  "Ipv4 \<Rightarrow> u32 \<Rightarrow> u32 \<Rightarrow> ptr \<Rightarrow> bool \<Rightarrow> Ipv4StaticRouting \<Rightarrow> (bool \<times> routing_call option) option" where
  "RouteInput ipv4 source destination idev lcb_IsNull s =
     (if \<not> m_ipv4_set s then None
      else case i4_GetInterfaceForDevice ipv4 idev of
             None \<Rightarrow> None
           | Some iif \<Rightarrow>
               if Ipv4Address_IsMulticast destination then
                 (case LookupStatic_multicast source destination iif s of
                    Some mrtentry \<Rightarrow> Some (True, Some (multicast_forward mrtentry))
                  | None \<Rightarrow> Some (False, None))
               else if i4_IsDestinationAddress ipv4 destination iif then
                 (if \<not> lcb_IsNull then Some (True, Some (local_deliver iif)) else Some (False, None))
               else if \<not> i4_IsForwarding ipv4 iif then Some (True, Some (routing_error ERROR_NOROUTETOHOST))
               else map_option (\<lambda>rtentry. case rtentry of Some r \<Rightarrow> (True, Some (unicast_forward r)) | None \<Rightarrow> (False, None))
                      (LookupStatic ipv4 destination nullptr s))"

section \<open>Interfaces and addresses that change\<close>

definition NotifyInterfaceUp :: "Ipv4 \<Rightarrow> u32 \<Rightarrow> Ipv4StaticRouting \<Rightarrow> Ipv4StaticRouting" where
  "NotifyInterfaceUp ipv4 i s =
     fold (\<lambda>(local, m) s. if local \<noteq> UNINITIALIZED \<and> m \<noteq> Ipv4Mask_new \<and> m \<noteq> Ipv4Mask_GetOnes
             then AddNetworkRouteTo_direct (Ipv4Address_CombineMask local m) m i 0 s else s)
       (i4_GetAddresses ipv4 i) s"

definition NotifyInterfaceDown :: "u32 \<Rightarrow> Ipv4StaticRouting \<Rightarrow> Ipv4StaticRouting" where
  "NotifyInterfaceDown i s = s\<lparr>m_networkRoutes := filter (\<lambda>(j, _). te_interface j \<noteq> i) (m_networkRoutes s)\<rparr>"

definition NotifyAddAddress :: "Ipv4 \<Rightarrow> u32 \<Rightarrow> u32 \<Rightarrow> u32 \<Rightarrow> Ipv4StaticRouting \<Rightarrow> Ipv4StaticRouting" where
  "NotifyAddAddress ipv4 iface local m s =
     (if \<not> i4_IsUp ipv4 iface then s
      else if local \<noteq> UNINITIALIZED \<and> m \<noteq> Ipv4Mask_new
           then AddNetworkRouteTo_direct (Ipv4Address_CombineMask local m) m iface 0 s else s)"

definition NotifyRemoveAddress :: "Ipv4 \<Rightarrow> u32 \<Rightarrow> u32 \<Rightarrow> u32 \<Rightarrow> Ipv4StaticRouting \<Rightarrow> Ipv4StaticRouting" where
  "NotifyRemoveAddress ipv4 iface local m s =
     (if \<not> i4_IsUp ipv4 iface then s
      else s\<lparr>m_networkRoutes := filter (\<lambda>(j, _). \<not> (te_interface j = iface \<and> TableEntry_IsNetwork j \<and>
             te_dest j = Ipv4Address_CombineMask local m \<and> te_destNetworkMask j = m)) (m_networkRoutes s)\<rparr>)"

definition SetIpv4 :: "Ipv4 \<Rightarrow> Ipv4StaticRouting \<Rightarrow> Ipv4StaticRouting option" where
  "SetIpv4 ipv4 s =
     (if m_ipv4_set s then None
      else Some (fold (\<lambda>i s. if i4_IsUp ipv4 (of_nat i) then NotifyInterfaceUp ipv4 (of_nat i) s else NotifyInterfaceDown (of_nat i) s)
             [0..<unat (i4_GetNInterfaces ipv4)] (s\<lparr>m_ipv4_set := True\<rparr>)))"

end
