(* ===== verification/Ipv4_Static_Lookup.thy ===== *)
theory Ipv4_Static_Lookup
  imports Ipv4_Static_Routing Gpu_Routing
begin

text \<open>
  \<^verbatim>\<open>LookupStatic\<close> against a reference definition, and against \<^verbatim>\<open>CudaIpv4StaticRouting::LookupRoute\<close>, its counterpart on the GPU.
\<close>

section \<open>The route of choice\<close>

type_synonym routes = "(Ipv4RoutingTableEntry \<times> u32) list"

definition masklen :: "Ipv4RoutingTableEntry \<times> u32 \<Rightarrow> nat" where
  "masklen c = Ipv4Mask_GetPrefixLength (te_destNetworkMask (fst c))"

definition candidates :: "Ipv4 \<Rightarrow> u32 \<Rightarrow> ptr \<Rightarrow> routes \<Rightarrow> routes" where
  "candidates ipv4 dest oif = filter (\<lambda>(j, _). dest AND te_destNetworkMask j = te_dest j AND te_destNetworkMask j \<and>
     (oif = nullptr \<or> oif = i4_GetNetDevice ipv4 (te_interface j)))"

text \<open>Longer prefix, or the same prefix and a metric that is not larger.\<close>

definition beats :: "Ipv4RoutingTableEntry \<times> u32 \<Rightarrow> Ipv4RoutingTableEntry \<times> u32 \<Rightarrow> bool" where
  "beats c c' \<longleftrightarrow> masklen c' < masklen c \<or> masklen c' = masklen c \<and> snd c \<le> snd c'"

text \<open>The first host route if there is one, otherwise the last of the routes that no other beats.\<close>

definition best_route :: "routes \<Rightarrow> (Ipv4RoutingTableEntry \<times> u32) option" where
  "best_route cs =
     (if \<exists>c\<in>set cs. masklen c = 32 then find (\<lambda>c. masklen c = 32) cs
      else if cs = [] then None else Some (last (filter (\<lambda>c. \<forall>c'\<in>set cs. beats c c') cs)))"

lemma beats_refl [simp]: "beats c c"
  by (simp add: beats_def)

lemma beats_trans: "beats a b \<Longrightarrow> beats b c \<Longrightarrow> beats a c"
  by (auto simp: beats_def)

lemma beats_total: "\<not> beats a b \<Longrightarrow> beats b a"
  by (auto simp: beats_def)

fun pick :: "(Ipv4RoutingTableEntry \<times> u32) option \<Rightarrow> routes \<Rightarrow> (Ipv4RoutingTableEntry \<times> u32) option" where
  "pick cur [] = cur"
| "pick cur (c # cs) =
     (if cur = None \<or> beats c (the cur) then (if masklen c = 32 then Some c else pick (Some c) cs) else pick cur cs)"

lemma prefix_loop_le: "prefix_loop fuel w tmp = Some t \<Longrightarrow> t \<le> tmp + fuel"
  by (induction fuel w tmp rule: prefix_loop.induct) (auto split: if_splits)

lemma masklen_le: "masklen c \<le> 32"
  using prefix_loop_le [OF GetPrefixLength_total] by (simp add: masklen_def)

lemma word_le_top: "(m :: u32) \<le> 0xffffffff"
  using unsigned_less [of m, where 'a = nat] by (simp add: word_le_nat_alt)

lemma best_drop_worse:
  assumes "\<not> beats d c" and "masklen c \<noteq> 32"
  shows "best_route (c # d # cs) = best_route (c # cs)"
proof -
  have d32: "masklen d \<noteq> 32" using assms masklen_le [of c] by (auto simp: beats_def)
  have cd: "beats c d" using assms(1) by (rule beats_total)
  have "(\<forall>c'\<in>set (c # d # cs). beats x c') \<longleftrightarrow> (\<forall>c'\<in>set (c # cs). beats x c')" for x
    using beats_trans [OF _ cd, of x] by auto
  then have "filter (\<lambda>x. \<forall>c'\<in>set (c # d # cs). beats x c') (c # d # cs) = filter (\<lambda>x. \<forall>c'\<in>set (c # cs). beats x c') (c # cs)"
    using assms(1) by auto
  then show ?thesis using d32 assms(2) unfolding best_route_def by auto
qed

lemma best_drop_beaten:
  assumes "beats d c" and "masklen c \<noteq> 32" and "masklen d \<noteq> 32"
  shows "best_route (c # d # cs) = best_route (d # cs)"
proof -
  have e: "(\<forall>c'\<in>set (c # d # cs). beats x c') \<longleftrightarrow> (\<forall>c'\<in>set (d # cs). beats x c')" for x
    using beats_trans [OF _ assms(1), of x] by auto
  define P where "P = (\<lambda>x. \<forall>c'\<in>set (d # cs). beats x c')"
  have "P c \<Longrightarrow> P d" using beats_trans [OF assms(1)] unfolding P_def by blast
  then have "P c \<Longrightarrow> filter P (d # cs) \<noteq> []" by simp
  then have "last (filter P (c # d # cs)) = last (filter P (d # cs))" by (simp only: filter.simps(2) [of P c "d # cs"]) auto
  then have l: "last (filter (\<lambda>x. \<forall>c'\<in>set (d # cs). beats x c') (c # d # cs)) =
      last (filter (\<lambda>x. \<forall>c'\<in>set (d # cs). beats x c') (d # cs))" unfolding P_def .
  show ?thesis using assms(2,3) unfolding best_route_def e l by auto
qed

lemma pick_best:
  assumes "masklen c \<noteq> 32"
  shows "pick (Some c) cs = best_route (c # cs)"
  using assms
proof (induction cs arbitrary: c)
  case Nil
  then show ?case by (simp add: best_route_def)
next
  case (Cons d cs)
  show ?case
  proof (cases "beats d c")
    case False
    then show ?thesis using Cons best_drop_worse by simp
  next
    case True
    show ?thesis
    proof (cases "masklen d = 32")
      case host: True
      then show ?thesis using True Cons.prems by (simp add: best_route_def)
    next
      case False
      then show ?thesis using True Cons best_drop_beaten by simp
    qed
  qed
qed

lemma pick_best_None: "pick None cs = best_route cs"
proof (cases cs)
  case (Cons c cs')
  then show ?thesis using pick_best by (cases "masklen c = 32") (simp_all add: best_route_def)
qed (simp add: best_route_def)

lemma lookup_loop_pick:
  fixes ipv4 cur
  defines "longest \<equiv> (\<lambda>cur. case cur of None \<Rightarrow> 0 | Some c \<Rightarrow> masklen c)"
    and "shortest \<equiv> (\<lambda>cur. case cur of None \<Rightarrow> 0xffffffff | Some c \<Rightarrow> snd c)"
  shows "lookup_loop ipv4 d oif (map_option (\<lambda>c. route_of ipv4 (fst c)) cur) (longest cur) (shortest cur) rs =
    map_option (\<lambda>c. route_of ipv4 (fst c)) (pick cur (candidates ipv4 d oif rs))"
proof (induction rs arbitrary: cur)
  case Nil
  then show ?case by (simp add: candidates_def)
next
  case (Cons r rs)
  obtain j metric where r: "r = (j, metric)" by (cases r)
  let ?match = "d AND te_destNetworkMask j = te_dest j AND te_destNetworkMask j \<and> (oif = nullptr \<or> oif = i4_GetNetDevice ipv4 (te_interface j))"
  have len: "Ipv4Mask_GetPrefixLength (te_destNetworkMask j) = masklen r" using r by (simp add: masklen_def)
  show ?case
  proof (cases ?match)
    case False
    then show ?thesis using Cons r by (auto simp: candidates_def Ipv4Mask_IsMatch_def Let_def)
  next
    case True
    then have c: "candidates ipv4 d oif (r # rs) = r # candidates ipv4 d oif rs" using r by (simp add: candidates_def)
    have b: "(cur = None \<or> beats r (the cur)) \<longleftrightarrow>
        \<not> masklen r < longest cur \<and> \<not> metric > (if masklen r > longest cur then 0xffffffff else shortest cur)"
      using r word_le_top [of metric] by (cases cur) (auto simp: beats_def longest_def shortest_def not_less)
    have m: "\<not> \<not> Ipv4Mask_IsMatch (te_destNetworkMask j) d (te_dest j)"
      and o: "\<not> (oif \<noteq> nullptr \<and> oif \<noteq> i4_GetNetDevice ipv4 (te_interface j))" using True by (auto simp: Ipv4Mask_IsMatch_def)
    have step: "lookup_loop ipv4 d oif rt (longest cur) (shortest cur) (r # rs) =
        (if cur = None \<or> beats r (the cur)
         then if masklen r = 32 then Some (route_of ipv4 j)
              else lookup_loop ipv4 d oif (Some (route_of ipv4 j)) (masklen r) metric rs
         else lookup_loop ipv4 d oif rt (longest cur) (shortest cur) rs)" for rt
    proof (cases "masklen r < longest cur")
      case True
      then have nw: "\<not> (cur = None \<or> beats r (the cur))" using b by blast
      show ?thesis unfolding r lookup_loop.simps Let_def if_not_P [OF m] if_not_P [OF o] if_not_P [OF nw [unfolded r]]
        using r len True by simp
    next
      case False
      show ?thesis
      proof (cases "metric > (if masklen r > longest cur then 0xffffffff else shortest cur)")
        case skip: True
        then have nw: "\<not> (cur = None \<or> beats r (the cur))" using b by blast
        have "masklen r = longest cur" using skip False word_le_top [of metric] by (auto split: if_splits)
        then show ?thesis unfolding r lookup_loop.simps Let_def if_not_P [OF m] if_not_P [OF o] if_not_P [OF nw [unfolded r]]
          using r len skip by simp
      next
        case take: False
        then have w: "cur = None \<or> beats r (the cur)" using b False by blast
        show ?thesis unfolding r lookup_loop.simps Let_def if_not_P [OF m] if_not_P [OF o] if_P [OF w [unfolded r]]
          using r len False take by simp
      qed
    qed
    show ?thesis
    proof (cases "cur = None \<or> beats r (the cur)")
      case win: True
      have "lookup_loop ipv4 d oif (Some (route_of ipv4 j)) (masklen r) metric rs =
        map_option (\<lambda>c. route_of ipv4 (fst c)) (pick (Some r) (candidates ipv4 d oif rs))"
        using Cons [of "Some r"] r by (simp add: longest_def shortest_def)
      then show ?thesis using win r unfolding c step by simp
    next
      case lose: False
      show ?thesis unfolding c step pick.simps if_not_P [OF lose] by (rule Cons)
    qed
  qed
qed

lemma lookup_loop_best:
  "lookup_loop ipv4 d oif None 0 0xffffffff rs = map_option (\<lambda>c. route_of ipv4 (fst c)) (best_route (candidates ipv4 d oif rs))"
  using lookup_loop_pick [of ipv4 d oif None rs] by (simp add: pick_best_None)

section \<open>Properties of the choice\<close>

lemma best_route_None: "best_route cs = None \<longleftrightarrow> cs = []"
  by (auto simp: best_route_def find_None_iff)

lemma best_exists: "cs \<noteq> [] \<Longrightarrow> \<exists>c\<in>set cs. \<forall>c'\<in>set cs. beats c c'"
proof (induction cs)
  case (Cons a cs)
  show ?case
  proof (cases "cs = []")
    case False
    then obtain c where c: "c \<in> set cs" "\<forall>c'\<in>set cs. beats c c'" using Cons by blast
    then show ?thesis using beats_total [of a c] beats_trans [of a c] by (cases "beats a c") auto
  qed simp
qed simp

lemma best_route_Some:
  assumes "best_route cs = Some c"
  shows "c \<in> set cs" and "\<And>c'. c' \<in> set cs \<Longrightarrow> masklen c' \<le> masklen c"
    and "\<And>c'. c' \<in> set cs \<Longrightarrow> masklen c < 32 \<Longrightarrow> masklen c' = masklen c \<Longrightarrow> snd c \<le> snd c'"
proof -
  have "c \<in> set cs \<and> (masklen c = 32 \<or> (\<forall>c'\<in>set cs. beats c c'))"
  proof (cases "\<exists>c\<in>set cs. masklen c = 32")
    case True
    then show ?thesis using assms by (auto simp: best_route_def find_Some_iff)
  next
    case False
    then have ne: "cs \<noteq> []" and l: "c = last (filter (\<lambda>c. \<forall>c'\<in>set cs. beats c c') cs)"
      using assms by (auto simp: best_route_def split: if_splits)
    have "filter (\<lambda>c. \<forall>c'\<in>set cs. beats c c') cs \<noteq> []" using best_exists [OF ne] by (auto simp: filter_empty_conv)
    then have "c \<in> set (filter (\<lambda>c. \<forall>c'\<in>set cs. beats c c') cs)" unfolding l by (rule last_in_set)
    then show ?thesis by simp
  qed
  then show "c \<in> set cs" and "\<And>c'. c' \<in> set cs \<Longrightarrow> masklen c' \<le> masklen c"
    and "\<And>c'. c' \<in> set cs \<Longrightarrow> masklen c < 32 \<Longrightarrow> masklen c' = masklen c \<Longrightarrow> snd c \<le> snd c'"
    using masklen_le by (auto simp: beats_def)
qed

section \<open>The same routes on both sides\<close>

record route_config =
  rc_network :: u32
  rc_length :: nat
  rc_interface :: u32
  rc_gateway :: u32
  rc_metric :: u32
  rc_priority :: u32

definition rc_mask :: "route_config \<Rightarrow> u32" where
  "rc_mask r = prefix_mask (rc_length r)"

definition rc_key :: "route_config \<Rightarrow> u32 \<times> u32" where
  "rc_key r = (rc_network r AND rc_mask r, rc_mask r)"

definition gpu_routes :: "nat \<Rightarrow> route_config list \<Rightarrow> CudaIpv4StaticRouting" where
  "gpu_routes capacity rs = foldl (\<lambda>t r. snd (AddRoute (rc_network r) (rc_mask r) (rc_interface r) (rc_priority r) t))
     (StaticRouting_new capacity) rs"

definition cpu_routes :: "route_config list \<Rightarrow> Ipv4StaticRouting" where
  "cpu_routes rs = foldl (\<lambda>s r. AddNetworkRouteTo (rc_network r) (rc_mask r) (rc_gateway r) (rc_interface r) (rc_metric r) s)
     Ipv4StaticRouting_new rs"

definition config_ok :: "nat \<Rightarrow> route_config list \<Rightarrow> bool" where
  "config_ok capacity rs \<longleftrightarrow> length rs \<le> capacity \<and> distinct (map rc_key rs) \<and> (\<forall>r\<in>set rs. rc_length r \<le> 32)"

lemma rt_inv_new: "rt_inv (StaticRouting_new capacity) \<and> rt_map (StaticRouting_new capacity) = Map.empty"
  by (simp add: rt_inv_def StaticRouting_new_def live_def rt_map_def)

lemma AddRoute_fresh_size:
  assumes "rt_inv t" and "rt_map t (n AND m, m) = None" and "rt_size t < rt_capacity t"
  shows "rt_size (snd (AddRoute n m i p t)) = Suc (rt_size t) \<and> rt_capacity (snd (AddRoute n m i p t)) = rt_capacity t"
proof -
  have "first_index (\<lambda>i. r_network (rt_routes t ! i) = n AND m \<and> r_netmask (rt_routes t ! i) = m) (rt_size t) = None"
  proof (rule ccontr)
    assume "first_index (\<lambda>i. r_network (rt_routes t ! i) = n AND m \<and> r_netmask (rt_routes t ! i) = m) (rt_size t) \<noteq> None"
    then obtain j where "first_index (\<lambda>i. r_network (rt_routes t ! i) = n AND m \<and> r_netmask (rt_routes t ! i) = m) (rt_size t) = Some j"
      by auto
    from rt_search(1) [OF assms(1) this] have j: "j < length (live t)" "(n AND m, m) = route_key (live t ! j)" by simp_all
    have "(n AND m, m) \<in> set (map route_key (live t))" unfolding j(2) set_map by (intro imageI nth_mem j(1))
    then show False using assms(2) unfolding rt_map_None by blast
  qed
  then show ?thesis using assms(3) by (simp add: AddRoute_def applyNetmask_def Let_def)
qed

lemma gpu_routes_map:
  assumes "config_ok capacity rs"
  shows "rt_inv (gpu_routes capacity rs) \<and> rt_size (gpu_routes capacity rs) = length rs \<and> rt_capacity (gpu_routes capacity rs) = capacity \<and>
    (\<forall>k v. rt_map (gpu_routes capacity rs) k = Some v \<longleftrightarrow> (\<exists>r\<in>set rs. k = rc_key r \<and> v = (rc_interface r, rc_priority r)))"
  using assms
proof (induction rs rule: rev_induct)
  case Nil
  then show ?case using rt_inv_new [of capacity] by (simp add: gpu_routes_def) (simp add: StaticRouting_new_def)
next
  case (snoc r rs)
  then have ok: "config_ok capacity rs" and new: "rc_key r \<notin> rc_key ` set rs" and sz: "length rs < capacity" by (auto simp: config_ok_def)
  let ?t = "gpu_routes capacity rs"
  have i: "rt_inv ?t" "rt_size ?t = length rs" "rt_capacity ?t = capacity"
    and m: "\<And>k v. rt_map ?t k = Some v \<longleftrightarrow> (\<exists>r\<in>set rs. k = rc_key r \<and> v = (rc_interface r, rc_priority r))"
    using snoc.IH [OF ok] by blast+
  have g: "gpu_routes capacity (rs @ [r]) = snd (AddRoute (rc_network r) (rc_mask r) (rc_interface r) (rc_priority r) ?t)"
    by (simp add: gpu_routes_def)
  have none: "rt_map ?t (rc_network r AND rc_mask r, rc_mask r) = None"
  proof (rule ccontr)
    assume "rt_map ?t (rc_network r AND rc_mask r, rc_mask r) \<noteq> None"
    then obtain v where "rt_map ?t (rc_key r) = Some v" by (auto simp: rc_key_def)
    then show False using m new by blast
  qed
  have lt: "rt_size ?t < rt_capacity ?t" using i sz by simp
  note A = AddRoute_spec [OF i(1), of "rc_network r" "rc_mask r" "rc_interface r" "rc_priority r"]
  have "rt_map (gpu_routes capacity (rs @ [r])) = (rt_map ?t)(rc_key r \<mapsto> (rc_interface r, rc_priority r))"
    unfolding g using A(1,2) lt by (simp add: rc_key_def)
  then have "rt_map (gpu_routes capacity (rs @ [r])) k = Some v \<longleftrightarrow>
      (\<exists>r\<in>set (rs @ [r]). k = rc_key r \<and> v = (rc_interface r, rc_priority r))" for k v
    using m [of k v] new by auto
  moreover have "rt_inv (gpu_routes capacity (rs @ [r]))" unfolding g by (rule A(3))
  ultimately show ?case using AddRoute_fresh_size [OF i(1) none lt] i unfolding g by simp
qed

definition rc_entry :: "route_config \<Rightarrow> Ipv4RoutingTableEntry \<times> u32" where
  "rc_entry r = (CreateNetworkRouteTo (rc_network r) (rc_mask r) (rc_gateway r) (rc_interface r), rc_metric r)"

lemma cpu_routes_list:
  assumes "distinct (map rc_key rs)"
  shows "m_networkRoutes (cpu_routes rs) = map rc_entry rs"
  using assms
proof (induction rs rule: rev_induct)
  case Nil
  then show ?case by (simp add: cpu_routes_def Ipv4StaticRouting_new_def)
next
  case (snoc r rs)
  then have l: "m_networkRoutes (cpu_routes rs) = map rc_entry rs" and new: "rc_key r \<notin> rc_key ` set rs" by auto
  have "\<not> has_route (fst (rc_entry r)) (rc_metric r) (cpu_routes rs)"
  proof
    assume "has_route (fst (rc_entry r)) (rc_metric r) (cpu_routes rs)"
    then obtain r' where r': "r' \<in> set rs" "rc_network r' = rc_network r" "rc_mask r' = rc_mask r"
      by (auto simp: has_route_def l list_ex_iff rc_entry_def CreateNetworkRouteTo_def)
    then have "rc_key r' = rc_key r" by (simp add: rc_key_def)
    then show False using new r'(1) by (metis imageI)
  qed
  then show ?case using l by (simp add: cpu_routes_def AddNetworkRouteTo_def add_unless_there_def rc_entry_def)
qed

section \<open>Prefix lengths\<close>

lemma prefix_mask_bit: "k \<le> 32 \<Longrightarrow> bit (prefix_mask k) i \<longleftrightarrow> i < 32 \<and> 32 - k \<le> i"
  unfolding prefix_mask_def by (auto simp: bit_simps)

lemma bit_test: "drop_bit i w AND 1 \<noteq> 0 \<longleftrightarrow> bit w i" for w :: u32
  by (simp add: bit_iff_odd_drop_bit odd_iff_mod_2_eq_one and_one_eq)

lemma leading_ones: "k \<le> 32 \<Longrightarrow> i \<le> 32 \<Longrightarrow> getPrefixLength_loop i (prefix_mask k) cnt = cnt + (if 32 - k \<le> i then i - (32 - k) else 0)"
proof (induction i arbitrary: cnt)
  case (Suc i)
  then have t: "drop_bit i (prefix_mask k) AND 1 \<noteq> 0 \<longleftrightarrow> 32 - k \<le> i" by (simp add: bit_test prefix_mask_bit)
  show ?case unfolding getPrefixLength_loop.simps t using Suc by (auto simp: Suc_diff_le)
qed simp

lemma getPrefixLength_prefix: "k \<le> 32 \<Longrightarrow> getPrefixLength (prefix_mask k) = k"
  by (simp add: getPrefixLength_def leading_ones)

lemma prefix_mask_inj: "j \<le> 32 \<Longrightarrow> k \<le> 32 \<Longrightarrow> prefix_mask j = prefix_mask k \<Longrightarrow> j = k"
  using getPrefixLength_prefix by metis

section \<open>Both find the same route\<close>

definition rc_matches :: "u32 \<Rightarrow> route_config \<Rightarrow> bool" where
  "rc_matches d r \<longleftrightarrow> d AND rc_mask r = rc_network r AND rc_mask r"

definition longest_match :: "u32 \<Rightarrow> route_config list \<Rightarrow> route_config \<Rightarrow> bool" where
  "longest_match d rs r \<longleftrightarrow> r \<in> set rs \<and> rc_matches d r \<and> (\<forall>r'\<in>set rs. rc_matches d r' \<longrightarrow> rc_length r' \<le> rc_length r)"

lemma longest_match_unique:
  assumes "config_ok capacity rs" and "longest_match d rs r" and "longest_match d rs r'"
  shows "r = r'"
proof -
  have "rc_length r = rc_length r'" using assms(2,3) by (auto simp: longest_match_def intro: le_antisym)
  then have "rc_key r = rc_key r'" using assms(2,3) by (auto simp: longest_match_def rc_matches_def rc_key_def rc_mask_def)
  then show ?thesis using assms by (auto simp: config_ok_def longest_match_def distinct_map inj_on_def)
qed

lemma gpu_lookup:
  assumes "config_ok capacity rs"
  shows "(LookupRoute d (gpu_routes capacity rs) = None \<longleftrightarrow> (\<forall>r\<in>set rs. \<not> rc_matches d r)) \<and>
    (\<forall>i. LookupRoute d (gpu_routes capacity rs) = Some i \<longrightarrow> (\<exists>r. longest_match d rs r \<and> rc_interface r = i))"
proof -
  let ?t = "gpu_routes capacity rs"
  have inv: "rt_inv ?t" and m: "\<And>k v. rt_map ?t k = Some v \<longleftrightarrow> (\<exists>r\<in>set rs. k = rc_key r \<and> v = (rc_interface r, rc_priority r))"
    using gpu_routes_map [OF assms] by blast+
  have le: "rc_length r \<le> 32" if "r \<in> set rs" for r using assms that by (simp add: config_ok_def)
  have key: "(d AND m, m) = rc_key r \<longleftrightarrow> m = rc_mask r \<and> rc_matches d r" for m r by (auto simp: rc_key_def rc_matches_def)
  have "LookupRoute d ?t = None \<longleftrightarrow> (\<forall>m. rt_map ?t (d AND m, m) = None)" using LookupRoute_map(1) [OF inv, of d] by simp
  also have "\<dots> \<longleftrightarrow> (\<forall>r\<in>set rs. \<not> rc_matches d r)"
  proof -
    have "rt_map ?t (d AND m, m) = None \<longleftrightarrow> (\<forall>r\<in>set rs. \<not> (m = rc_mask r \<and> rc_matches d r))" for m
      using m [of "(d AND m, m)"] unfolding key by (cases "rt_map ?t (d AND m, m)") auto
    then show ?thesis by blast
  qed
  finally have n: "LookupRoute d ?t = None \<longleftrightarrow> (\<forall>r\<in>set rs. \<not> rc_matches d r)" .
  have "\<exists>r. longest_match d rs r \<and> rc_interface r = i" if L: "LookupRoute d ?t = Some i" for i
  proof -
    obtain ma p where a: "rt_map ?t (d AND ma, ma) = Some (i, p)"
      and b: "\<And>m' dev' p'. rt_map ?t (d AND m', m') = Some (dev', p') \<Longrightarrow> getPrefixLength m' \<le> getPrefixLength ma"
      using LookupRoute_map(2) [OF inv L] by (metis less_imp_le order_refl)
    then obtain r where r: "r \<in> set rs" "ma = rc_mask r" "rc_matches d r" "rc_interface r = i"
      unfolding m key by auto
    have "rc_length r' \<le> rc_length r" if r': "r' \<in> set rs" "rc_matches d r'" for r'
    proof -
      have "rt_map ?t (d AND rc_mask r', rc_mask r') = Some (rc_interface r', rc_priority r')" unfolding m key using r' by blast
      from b [OF this] show ?thesis using r(1,2) r'(1) le by (simp add: rc_mask_def getPrefixLength_prefix)
    qed
    then show ?thesis using r by (auto simp: longest_match_def)
  qed
  with n show ?thesis by blast
qed

lemma cpu_lookup:
  assumes "config_ok capacity rs"
  shows "case best_route (candidates ipv4 d nullptr (map rc_entry rs)) of
      None \<Rightarrow> \<forall>r\<in>set rs. \<not> rc_matches d r
    | Some c \<Rightarrow> \<exists>r. longest_match d rs r \<and> c = rc_entry r"
proof -
  let ?c = "candidates ipv4 d nullptr (map rc_entry rs)"
  have set: "set ?c = rc_entry ` {r \<in> set rs. rc_matches d r}"
    by (auto simp: candidates_def rc_entry_def CreateNetworkRouteTo_def rc_matches_def)
  have len: "masklen (rc_entry r) = rc_length r" if "r \<in> set rs" for r
    using assms that by (simp add: masklen_def rc_entry_def CreateNetworkRouteTo_def rc_mask_def config_ok_def GetPrefixLength_prefix)
  show ?thesis
  proof (cases "best_route ?c")
    case None
    then have "?c = []" by (simp only: best_route_None)
    then show ?thesis using set None by auto
  next
    case (Some c)
    then obtain r where r: "r \<in> set rs" "rc_matches d r" "c = rc_entry r" using best_route_Some(1) [OF Some] set by auto
    have "rc_length r' \<le> rc_length r" if "r' \<in> set rs" "rc_matches d r'" for r'
      using best_route_Some(2) [OF Some, of "rc_entry r'"] set that len r by auto
    then show ?thesis using r Some by (auto simp: longest_match_def)
  qed
qed

end
