(* ===== verification/Ipv4_Claims.thy ===== *)
theory Ipv4_Claims
  imports Ipv4_Static_Lookup
begin

text \<open>
  The properties of IPv4 addresses and of ns-3's static routing.
\<close>

text \<open>
  \<^verbatim>\<open>LookupStatic\<close> finds a route exactly when one matches the destination (and leaves by the device asked for).  It is one
  of longest prefix, and of the smallest metric among those, unless it is a host route: then the first in the table is taken,
  whatever its metric.
\<close>

theorem static_lookup_choice:
  assumes "\<not> Ipv4Address_IsLocalMulticast d"
  shows "\<exists>found. LookupStatic ipv4 d oif s = Some found \<and>
    (found = None \<longleftrightarrow> candidates ipv4 d oif (m_networkRoutes s) = []) \<and>
    (\<forall>r. found = Some r \<longrightarrow>
       (\<exists>c\<in>set (candidates ipv4 d oif (m_networkRoutes s)). r = route_of ipv4 (fst c) \<and>
         (\<forall>c'\<in>set (candidates ipv4 d oif (m_networkRoutes s)). masklen c' \<le> masklen c \<and>
            (masklen c' = masklen c \<and> masklen c < 32 \<longrightarrow> snd c \<le> snd c')) \<and>
         (masklen c = 32 \<longrightarrow> find (\<lambda>c. masklen c = 32) (candidates ipv4 d oif (m_networkRoutes s)) = Some c)))"
proof -
  let ?cs = "candidates ipv4 d oif (m_networkRoutes s)"
  have l: "LookupStatic ipv4 d oif s = Some (map_option (\<lambda>c. route_of ipv4 (fst c)) (best_route ?cs))"
    using assms by (simp add: LookupStatic_def lookup_loop_best)
  have "\<exists>c\<in>set ?cs. r = route_of ipv4 (fst c) \<and>
      (\<forall>c'\<in>set ?cs. masklen c' \<le> masklen c \<and> (masklen c' = masklen c \<and> masklen c < 32 \<longrightarrow> snd c \<le> snd c')) \<and>
      (masklen c = 32 \<longrightarrow> find (\<lambda>c. masklen c = 32) ?cs = Some c)"
    if found: "map_option (\<lambda>c. route_of ipv4 (fst c)) (best_route ?cs) = Some r" for r
  proof -
    from found obtain c where c: "best_route ?cs = Some c" "r = route_of ipv4 (fst c)" by auto
    have "masklen c = 32 \<Longrightarrow> find (\<lambda>c. masklen c = 32) ?cs = Some c"
      using c(1) best_route_Some(1) [OF c(1)] by (auto simp: best_route_def split: if_splits)
    then show ?thesis using best_route_Some [OF c(1)] c(2) by blast
  qed
  then show ?thesis unfolding l using best_route_None [of ?cs]
    by (intro exI [of _ "map_option (\<lambda>c. route_of ipv4 (fst c)) (best_route ?cs)"] conjI allI impI) auto
qed

text \<open>A default route, a network, and two host routes of which the second has the smaller metric.\<close>

definition sample_ipv4 :: Ipv4 where
  "sample_ipv4 = \<lparr>i4_GetNInterfaces = 4, i4_IsUp = (\<lambda>_. True), i4_IsForwarding = (\<lambda>_. True), i4_GetAddresses = (\<lambda>_. []),
     i4_GetNetDevice = (\<lambda>i. 0x1000 + ucast i), i4_GetInterfaceForDevice = (\<lambda>_. None), i4_SourceAddressSelection = (\<lambda>i d. 0x0A000001),
     i4_IsDestinationAddress = (\<lambda>_ _. False)\<rparr>"

definition sample_static :: Ipv4StaticRouting where
  "sample_static = AddHostRouteTo_direct 0x0A010203 3 1 (AddHostRouteTo_direct 0x0A010203 2 5
     (AddNetworkRouteTo 0x0A010000 0xFFFF0000 0x0A000002 1 0 (SetDefaultRoute 0x0A000003 0 0 Ipv4StaticRouting_new)))"

lemma sample_candidates: "candidates sample_ipv4 0x0A010203 nullptr (m_networkRoutes sample_static) =
    [(CreateNetworkRouteTo 0 0 0x0A000003 0, 0), (CreateNetworkRouteTo 0x0A010000 0xFFFF0000 0x0A000002 1, 0),
     (CreateNetworkRouteTo_direct 0x0A010203 0xFFFFFFFF 2, 5), (CreateNetworkRouteTo_direct 0x0A010203 0xFFFFFFFF 3, 1)]"
  by (simp add: sample_static_def AddHostRouteTo_direct_def AddNetworkRouteTo_direct_def AddNetworkRouteTo_def SetDefaultRoute_def
      add_unless_there_def has_route_def CreateNetworkRouteTo_def CreateNetworkRouteTo_direct_def Ipv4StaticRouting_new_def
      candidates_def Ipv4Mask_GetOnes_def Ipv4Mask_GetZero_def)

lemma ones_length: "Ipv4Mask_GetPrefixLength 0xFFFFFFFF = 32"
proof -
  have "prefix_mask 32 = 0xFFFFFFFF" unfolding prefix_mask_def by (simp add: mask_eq_exp_minus_1)
  then show ?thesis using GetPrefixLength_prefix [of 32] by simp
qed

lemma sample_lengths:
  "Ipv4Mask_GetPrefixLength 0 = 0" "Ipv4Mask_GetPrefixLength 0xFFFF0000 = 16"
proof -
  have "prefix_mask 0 = 0" "prefix_mask 16 = 0xFFFF0000" unfolding prefix_mask_def by (simp_all add: mask_eq_exp_minus_1)
  then show "Ipv4Mask_GetPrefixLength 0 = 0" "Ipv4Mask_GetPrefixLength 0xFFFF0000 = 16"
    using GetPrefixLength_prefix [of 0] GetPrefixLength_prefix [of 16] by simp_all
qed

theorem static_lookup_choice_witness:
  "\<exists>r. LookupStatic sample_ipv4 0x0A010203 nullptr sample_static = Some (Some r) \<and> ro_outputDevice r = 0x1002"
proof -
  have "\<not> Ipv4Address_IsLocalMulticast 0x0A010203" by (simp add: Ipv4Address_IsLocalMulticast_def)
  note L = static_lookup_choice [OF this, of sample_ipv4 nullptr sample_static, unfolded sample_candidates]
  then obtain r c where r: "LookupStatic sample_ipv4 0x0A010203 nullptr sample_static = Some (Some r)" "r = route_of sample_ipv4 (fst c)"
    and len: "\<forall>c'\<in>set [(CreateNetworkRouteTo 0 0 0x0A000003 0, 0), (CreateNetworkRouteTo 0x0A010000 0xFFFF0000 0x0A000002 1, 0),
     (CreateNetworkRouteTo_direct 0x0A010203 0xFFFFFFFF 2, 5), (CreateNetworkRouteTo_direct 0x0A010203 0xFFFFFFFF 3, 1)]. masklen c' \<le> masklen c"
    and first: "masklen c = 32 \<longrightarrow> find (\<lambda>c. masklen c = 32) [(CreateNetworkRouteTo 0 0 0x0A000003 0, 0),
     (CreateNetworkRouteTo 0x0A010000 0xFFFF0000 0x0A000002 1, 0), (CreateNetworkRouteTo_direct 0x0A010203 0xFFFFFFFF 2, 5),
     (CreateNetworkRouteTo_direct 0x0A010203 0xFFFFFFFF 3, 1)] = Some c"
    by (metis (no_types, lifting) list.discI not_None_eq)
  have "masklen c = 32" using len masklen_le [of c]
    by (simp add: masklen_def CreateNetworkRouteTo_direct_def ones_length)
  then have "c = (CreateNetworkRouteTo_direct 0x0A010203 0xFFFFFFFF 2, 5)" using first
    by (simp add: masklen_def CreateNetworkRouteTo_def CreateNetworkRouteTo_direct_def ones_length sample_lengths)
  then show ?thesis using r by (simp add: route_of_def CreateNetworkRouteTo_direct_def sample_ipv4_def)
qed


definition sample_config :: "route_config list" where
  "sample_config = [\<lparr>rc_network = 0x0A010000, rc_length = 16, rc_interface = 1, rc_gateway = 0, rc_metric = 7, rc_priority = 9\<rparr>,
     \<lparr>rc_network = 0, rc_length = 0, rc_interface = 0, rc_gateway = 0, rc_metric = 0, rc_priority = 1\<rparr>]"


text \<open>
  Removing an address undoes what adding it did to the table, for an address of a network the interface had no route to;
  but the route of an address with the mask 255.255.255.255, which adding it makes too, is left behind.
\<close>

theorem address_route_undone:
  assumes "i4_IsUp ipv4 i" and "local \<noteq> UNINITIALIZED" and "m \<noteq> Ipv4Mask_new"
    and "\<forall>(j, _)\<in>set (m_networkRoutes s). \<not> (te_interface j = i \<and> te_dest j = local AND m \<and> te_destNetworkMask j = m)"
  shows "NotifyRemoveAddress ipv4 i local m (NotifyAddAddress ipv4 i local m s) =
    (if m = Ipv4Mask_GetOnes
     then s\<lparr>m_networkRoutes := m_networkRoutes s @ [(CreateNetworkRouteTo_direct local m i, 0)]\<rparr> else s)"
proof -
  let ?e = "CreateNetworkRouteTo_direct (local AND m) m i"
  have "\<not> has_route ?e 0 s" using assms(4) by (auto simp: has_route_def list_ex_iff CreateNetworkRouteTo_direct_def)
  then have add: "NotifyAddAddress ipv4 i local m s = s\<lparr>m_networkRoutes := m_networkRoutes s @ [(?e, 0)]\<rparr>"
    using assms(1-3) by (simp add: NotifyAddAddress_def AddNetworkRouteTo_direct_def add_unless_there_def Ipv4Address_CombineMask_def)
  let ?P = "\<lambda>(j, _ :: u32). \<not> (te_interface j = i \<and> TableEntry_IsNetwork j \<and> te_dest j = local AND m \<and> te_destNetworkMask j = m)"
  have "filter ?P (m_networkRoutes s) = m_networkRoutes s" using assms(4) by (intro filter_True) auto
  moreover have "?P (?e, 0) \<longleftrightarrow> m = Ipv4Mask_GetOnes"
    by (simp add: CreateNetworkRouteTo_direct_def TableEntry_IsNetwork_def TableEntry_IsHost_def)
  moreover have ones: "Ipv4Mask_GetOnes = - 1" by (simp add: Ipv4Mask_GetOnes_def)
  have "local AND Ipv4Mask_GetOnes = local" unfolding ones by (rule and.right_neutral)
  then have "m = Ipv4Mask_GetOnes \<Longrightarrow> local AND m = local" by simp
  ultimately show ?thesis using assms(1) unfolding add
    by (auto simp: NotifyRemoveAddress_def Ipv4Address_CombineMask_def)
qed

theorem address_route_undone_witness:
  "NotifyRemoveAddress sample_ipv4 1 0x0A000001 0xFFFFFF00 (NotifyAddAddress sample_ipv4 1 0x0A000001 0xFFFFFF00 Ipv4StaticRouting_new) =
    Ipv4StaticRouting_new"
  using address_route_undone [of sample_ipv4 1 "0x0A000001" "0xFFFFFF00" Ipv4StaticRouting_new]
  by (simp add: sample_ipv4_def UNINITIALIZED_def Ipv4Mask_new_def Ipv4StaticRouting_new_def Ipv4Mask_GetOnes_def)

end
