(* ===== verification/Ipv4_Fragments.thy ===== *)
theory Ipv4_Fragments
  imports Ipv4_Header "HOL-Library.Monad_Syntax"
begin

text \<open>
  Fragmentation, reassembly and its timeouts in \<^verbatim>\<open>Ipv4L3Protocol\<close> (\<^verbatim>\<open>internet/model/ipv4-l3-protocol.cc\<close>).  A packet is its
  bytes.  \<open>None\<close> is an assertion or abort that fails, a null pointer, or a loop that does not end.
\<close>

section \<open>Packets\<close>

text \<open>\<^verbatim>\<open>Packet::CreateFragment\<close>: the bytes before \<open>start\<close> and the last \<^verbatim>\<open>GetSize() - (start + length)\<close> taken off, in 32 bits.\<close>

definition packet_fragment :: "u8 list \<Rightarrow> u32 \<Rightarrow> u32 \<Rightarrow> u8 list option" where
  "packet_fragment p start len =
     (let m_size = of_nat (length p); rest = drop (unat start) p
      in if \<not> m_size \<ge> start + len then None
         else Some (take (length rest - unat (m_size - (start + len))) rest))"

definition payload_size :: "u8 list \<Rightarrow> u32" where
  "payload_size p = of_nat (length p)"

section \<open>Fragmentation\<close>

text \<open>One round of the loop: the size of the fragment, whether more follow, and the header.\<close>

definition fragment_header :: "bool \<Rightarrow> Ipv4Header \<Rightarrow> u8 list \<Rightarrow> u32 \<Rightarrow> u16 \<Rightarrow> (bool \<times> u32 \<times> Ipv4Header) option" where
  "fragment_header ChecksumEnabled ipv4Header p fragmentSize offset =
     (let originalOffset = ip_fragmentOffset ipv4Header;
          isLastFragment = IsLastFragment ipv4Header;
          (moreFragment, currentFragmentablePartSize, fragmentHeader) =
            (if payload_size p > ucast offset + fragmentSize then (True, fragmentSize, SetMoreFragments ipv4Header)
             else (False, payload_size p - ucast offset,
               if \<not> isLastFragment then SetMoreFragments ipv4Header else SetLastFragment ipv4Header))
      in do {
        fragmentHeader \<leftarrow> SetFragmentOffset (offset + originalOffset) fragmentHeader;
        let fragmentHeader = fragmentHeader\<lparr>ip_payloadSize := ucast currentFragmentablePartSize\<rparr>;
        let fragmentHeader = (if ChecksumEnabled then fragmentHeader\<lparr>ip_calcChecksum := True\<rparr> else fragmentHeader);
        Some (moreFragment, currentFragmentablePartSize, fragmentHeader) })"

partial_function (option) fragment_loop ::
  "bool \<Rightarrow> Ipv4Header \<Rightarrow> u8 list \<Rightarrow> u32 \<Rightarrow> u16 \<Rightarrow> (u8 list \<times> Ipv4Header) list option" where
  "fragment_loop ChecksumEnabled ipv4Header p fragmentSize offset = do {
     (moreFragment, currentFragmentablePartSize, fragmentHeader) \<leftarrow> fragment_header ChecksumEnabled ipv4Header p fragmentSize offset;
     fragment \<leftarrow> packet_fragment p (ucast offset) currentFragmentablePartSize;
     listFragments \<leftarrow> (if moreFragment
       then fragment_loop ChecksumEnabled ipv4Header p fragmentSize (offset + ucast currentFragmentablePartSize) else Some []);
     Some ((fragment, fragmentHeader) # listFragments) }"

definition DoFragmentation :: "bool \<Rightarrow> u8 list \<Rightarrow> Ipv4Header \<Rightarrow> u32 \<Rightarrow> (u8 list \<times> Ipv4Header) list option" where
  "DoFragmentation ChecksumEnabled p ipv4Header outIfaceMtu =
     (if Ipv4Header_GetSerializedSize ipv4Header \<noteq> 5 * 4 then None
      else let fragmentSize = (outIfaceMtu - of_nat (Ipv4Header_GetSerializedSize ipv4Header)) AND NOT 0x7
           in fragment_loop ChecksumEnabled ipv4Header p fragmentSize 0)"

text \<open>\<^verbatim>\<open>SendRealOut\<close>, from the choice of the next hop on: the packets given to the interface.\<close>

definition SendRealOut ::
  "bool \<Rightarrow> u32 \<Rightarrow> bool \<Rightarrow> u32 option \<Rightarrow> u8 list \<Rightarrow> Ipv4Header \<Rightarrow> ((u8 list \<times> Ipv4Header \<times> u32) list) option" where
  "SendRealOut ChecksumEnabled mtu IsUp gateway packet ipHeader =
     (case gateway of
        None \<Rightarrow> Some []
      | Some gw \<Rightarrow>
          let target = (if gw = 0 then ip_destination ipHeader else gw)
          in if \<not> IsUp then Some []
             else if payload_size packet + of_nat (Ipv4Header_GetSerializedSize ipHeader) > mtu
                  then map_option (map (\<lambda>(f, h). (f, h, target))) (DoFragmentation ChecksumEnabled packet ipHeader mtu)
                  else Some [(packet, ipHeader, target)])"

section \<open>The fragments of one packet\<close>

record Fragments =
  fr_moreFragment :: bool
  fr_fragments :: "(u8 list \<times> u16) list"
  fr_timeoutIter :: nat

definition Fragments_new :: Fragments where
  "Fragments_new = \<lparr>fr_moreFragment = False, fr_fragments = [], fr_timeoutIter = 0\<rparr>"

definition AddFragment :: "u8 list \<Rightarrow> u16 \<Rightarrow> bool \<Rightarrow> Fragments \<Rightarrow> Fragments" where
  "AddFragment fragment fragmentOffset moreFragment f =
     (let before = takeWhile (\<lambda>it. \<not> snd it > fragmentOffset) (fr_fragments f);
          behind = dropWhile (\<lambda>it. \<not> snd it > fragmentOffset) (fr_fragments f);
          f = (if behind = [] then f\<lparr>fr_moreFragment := moreFragment\<rparr> else f)
      in f\<lparr>fr_fragments := before @ (fragment, fragmentOffset) # behind\<rparr>)"

fun no_gap :: "u16 \<Rightarrow> (u8 list \<times> u16) list \<Rightarrow> bool" where
  "no_gap lastEndOffset [] = True"
| "no_gap lastEndOffset ((p, offset) # fragments) =
     (if lastEndOffset < offset then False
      else let fragmentEnd = ucast (payload_size p + ucast offset)
           in no_gap (max lastEndOffset fragmentEnd) fragments)"

definition IsEntire :: "Fragments \<Rightarrow> bool" where
  "IsEntire f \<longleftrightarrow> (let ret = \<not> fr_moreFragment f \<and> length (fr_fragments f) > 0 in if ret then no_gap 0 (fr_fragments f) else ret)"

fun join_fragments :: "u8 list \<Rightarrow> u16 \<Rightarrow> (u8 list \<times> u16) list \<Rightarrow> u8 list option" where
  "join_fragments p lastEndOffset [] = Some p"
| "join_fragments p lastEndOffset ((q, offset) # fragments) = do {
     p \<leftarrow> (if lastEndOffset > offset then
             (let newStart = ucast lastEndOffset - ucast offset
              in if payload_size q > newStart then
                   (let newSize = payload_size q - newStart in map_option ((@) p) (packet_fragment q newStart newSize))
                 else Some p)
           else Some (p @ q));
     join_fragments p (ucast (payload_size p)) fragments }"

definition GetPacket :: "Fragments \<Rightarrow> u8 list option" where
  "GetPacket f =
     (case fr_fragments f of
        [] \<Rightarrow> None
      | (p, _) # fragments \<Rightarrow> join_fragments p (ucast (payload_size p)) fragments)"

fun join_partial :: "u8 list \<Rightarrow> u16 \<Rightarrow> (u8 list \<times> u16) list \<Rightarrow> u8 list option" where
  "join_partial p lastEndOffset [] = Some p"
| "join_partial p lastEndOffset ((q, offset) # fragments) = do {
     p \<leftarrow> (if lastEndOffset > offset then
             (let newStart = ucast lastEndOffset - ucast offset; newSize = payload_size q - newStart
              in map_option ((@) p) (packet_fragment q newStart newSize))
           else if lastEndOffset = offset then Some (p @ q) else Some p);
     join_partial p (ucast (payload_size p)) fragments }"

definition GetPartialPacket :: "Fragments \<Rightarrow> u8 list option" where
  "GetPartialPacket f =
     (case fr_fragments f of
        [] \<Rightarrow> None
      | (_, offset) # _ \<Rightarrow> if offset > 0 then Some [] else join_partial [] 0 (fr_fragments f))"

section \<open>All packets being put together\<close>

type_synonym FragmentKey = "u64 \<times> u32"

text \<open>
  An entry of \<^verbatim>\<open>m_timeoutEventList\<close> carries the identity of its list node, which is what the iterators kept by the fragments
  point to.  \<open>l3_pending\<close> holds the times of the events scheduled for \<^verbatim>\<open>HandleTimeout\<close>; \<open>l3_icmp\<close> the time-exceeded
  messages sent.
\<close>

record timeout_entry =
  to_node :: nat
  to_time :: nat
  to_key :: FragmentKey
  to_header :: Ipv4Header
  to_iif :: u32

record Ipv4Reassembly =
  l3_fragments :: "FragmentKey \<rightharpoonup> Fragments"
  l3_timeoutEventList :: "timeout_entry list"
  l3_fragmentExpirationTimeout :: nat
  l3_pending :: "nat list"
  l3_next_node :: nat
  l3_icmp :: "(Ipv4Header \<times> u8 list) list"

definition Ipv4Reassembly_new :: "nat \<Rightarrow> Ipv4Reassembly" where
  "Ipv4Reassembly_new timeout = \<lparr>l3_fragments = Map.empty, l3_timeoutEventList = [], l3_fragmentExpirationTimeout = timeout,
     l3_pending = [], l3_next_node = 0, l3_icmp = []\<rparr>"

definition SetTimeout :: "nat \<Rightarrow> FragmentKey \<Rightarrow> Ipv4Header \<Rightarrow> u32 \<Rightarrow> Ipv4Reassembly \<Rightarrow> nat \<times> Ipv4Reassembly" where
  "SetTimeout Now key ipHeader iif s =
     (let now = Now + l3_fragmentExpirationTimeout s;
          s = (if l3_timeoutEventList s = [] then s\<lparr>l3_pending := l3_pending s @ [Now + l3_fragmentExpirationTimeout s]\<rparr> else s);
          node = l3_next_node s
      in (node, s\<lparr>l3_next_node := node + 1, l3_timeoutEventList := l3_timeoutEventList s @
            [\<lparr>to_node = node, to_time = now, to_key = key, to_header = ipHeader, to_iif = iif\<rparr>]\<rparr>))"

definition fragment_key :: "Ipv4Header \<Rightarrow> FragmentKey" where
  "fragment_key h =
     (push_bit 32 (ucast (ip_source h)) OR ucast (ip_destination h),
      push_bit 16 (ucast (ip_identification h)) OR ucast (ip_protocol h))"

definition ProcessFragment ::
  "nat \<Rightarrow> u8 list \<Rightarrow> Ipv4Header \<Rightarrow> u32 \<Rightarrow> Ipv4Reassembly \<Rightarrow> (bool \<times> u8 list \<times> Ipv4Reassembly) option" where
  "ProcessFragment Now packet ipHeader iif s =
     (let key = fragment_key ipHeader;
          (fragments, s) = (case l3_fragments s key of
             None \<Rightarrow> (let (iter, s) = SetTimeout Now key ipHeader iif s in (Fragments_new\<lparr>fr_timeoutIter := iter\<rparr>, s))
           | Some fragments \<Rightarrow> (fragments, s));
          fragments = AddFragment packet (ip_fragmentOffset ipHeader) (\<not> IsLastFragment ipHeader) fragments
      in if IsEntire fragments then do {
           packet \<leftarrow> GetPacket fragments;
           Some (True, packet, s\<lparr>l3_timeoutEventList := filter (\<lambda>e. to_node e \<noteq> fr_timeoutIter fragments) (l3_timeoutEventList s),
             l3_fragments := (l3_fragments s)(key := None)\<rparr>) }
         else Some (False, packet, s\<lparr>l3_fragments := (l3_fragments s)(key \<mapsto> fragments)\<rparr>))"

definition HandleFragmentsTimeout :: "FragmentKey \<Rightarrow> Ipv4Header \<Rightarrow> u32 \<Rightarrow> Ipv4Reassembly \<Rightarrow> Ipv4Reassembly option" where
  "HandleFragmentsTimeout key ipHeader iif s =
     (case l3_fragments s key of
        None \<Rightarrow> None
      | Some fragments \<Rightarrow> do {
          packet \<leftarrow> GetPartialPacket fragments;
          let s = (if payload_size packet > 8 then s\<lparr>l3_icmp := l3_icmp s @ [(ipHeader, packet)]\<rparr> else s);
          Some (s\<lparr>l3_fragments := (l3_fragments s)(key := None)\<rparr>) })"

function timeout_loop :: "nat \<Rightarrow> timeout_entry list \<Rightarrow> Ipv4Reassembly \<Rightarrow> Ipv4Reassembly option" where
  "timeout_loop now [] s = Some (s\<lparr>l3_timeoutEventList := []\<rparr>)"
| "timeout_loop now (e # es) s =
     (if to_time e = now
      then (case HandleFragmentsTimeout (to_key e) (to_header e) (to_iif e) s of None \<Rightarrow> None | Some s \<Rightarrow> timeout_loop now es s)
      else Some (s\<lparr>l3_timeoutEventList := e # es\<rparr>))"
  by pat_completeness auto
termination
  by (relation "measure (\<lambda>(_, es, _). length es)") auto

definition HandleTimeout :: "nat \<Rightarrow> Ipv4Reassembly \<Rightarrow> Ipv4Reassembly option" where
  "HandleTimeout Now s = do {
     let now = Now;
     s \<leftarrow> timeout_loop now (l3_timeoutEventList s) s;
     case l3_timeoutEventList s of
       [] \<Rightarrow> Some s
     | e # _ \<Rightarrow> (let difference = to_time e - now in Some (s\<lparr>l3_pending := l3_pending s @ [Now + difference]\<rparr>)) }"

text \<open>\<^verbatim>\<open>LocalDeliver\<close> up to the call of the transport protocol: the packet and header it is given, if any.\<close>

definition LocalDeliver ::
  "nat \<Rightarrow> u8 list \<Rightarrow> Ipv4Header \<Rightarrow> u32 \<Rightarrow> Ipv4Reassembly \<Rightarrow> ((u8 list \<times> Ipv4Header) option \<times> Ipv4Reassembly) option" where
  "LocalDeliver Now packet ip iif s =
     (if \<not> IsLastFragment ip \<or> ip_fragmentOffset ip \<noteq> 0 then do {
        (isPacketComplete, p, s) \<leftarrow> ProcessFragment Now packet ip iif s;
        if \<not> isPacketComplete then Some (None, s)
        else do {
          ipHeader \<leftarrow> SetFragmentOffset 0 ip;
          Some (Some (p, ipHeader\<lparr>ip_payloadSize := ucast (payload_size p)\<rparr>), s) } }
      else Some (Some (packet, ip), s))"

section \<open>Fragmentation against a reference definition\<close>

text \<open>
  \<^verbatim>\<open>DoFragmentation\<close> against a reference definition: the packet cut into pieces of the largest multiple of eight bytes
  that fits.
\<close>

section \<open>Packets and words\<close>

lemma packet_fragment_eq:
  assumes "x + len \<le> length p" and "length p < 2 ^ 32"
  shows "packet_fragment p (of_nat x) (of_nat len) = Some (take len (drop x p))"
proof -
  have u: "unat (of_nat x :: u32) = x" "unat (of_nat (x + len) :: u32) = x + len" "unat (of_nat (length p) :: u32) = length p"
    using assms by (intro unat_of_nat_u32; simp)+
  have s: "(of_nat x :: u32) + of_nat len = of_nat (x + len)" by simp
  have "\<not> \<not> (of_nat (length p) :: u32) \<ge> of_nat x + of_nat len" unfolding s word_le_nat_alt u using assms by simp
  moreover have "unat (of_nat (length p) - (of_nat x + of_nat len) :: u32) = length p - (x + len)"
  proof -
    have "(of_nat (length p) - (of_nat x + of_nat len) :: u32) = of_nat (length p - (x + len))"
      using assms(1) by (simp add: of_nat_diff)
    moreover have "unat (of_nat (length p - (x + len)) :: u32) = length p - (x + len)" by (rule unat_of_nat_u32) (use assms in simp)
    ultimately show ?thesis by simp
  qed
  ultimately show ?thesis unfolding packet_fragment_def Let_def u using assms(1)
    by (simp del: of_nat_add)
qed

lemma cast16: "(ucast (of_nat n :: u32) :: u16) = of_nat n"
  by (rule bit_word_eqI) (auto simp: bit_simps)

lemma low_bits: "(w :: u16) AND 0x7 = 0 \<longleftrightarrow> unat w mod 8 = 0"
proof -
  have m: "(0x7 :: u16) = mask 3" by (simp add: mask_eq_exp_minus_1)
  have "unat (take_bit 3 w) = unat w mod 8" by (simp add: take_bit_eq_mod unat_mod)
  moreover have "w AND mask 3 = take_bit 3 w" by (simp add: take_bit_eq_mask)
  ultimately show ?thesis unfolding m using unat_eq_0 [of "take_bit 3 w"] by metis
qed

lemma round_down: "unat ((w :: u32) AND NOT 0x7) = unat w div 8 * 8"
proof -
  have m: "(0x7 :: u32) = mask 3" by (simp add: mask_eq_exp_minus_1)
  have "w AND NOT (mask 3) = push_bit 3 (drop_bit 3 w)" by (rule bit_word_eqI) (auto simp: bit_simps)
  moreover have "unat (push_bit 3 (drop_bit 3 w)) = unat w div 8 * 8"
  proof -
    have lt: "unat w div 8 * 8 < 2 ^ 32" using unsigned_less [of w, where 'a = nat] by (simp add: order_le_less_trans [OF div_times_less_eq_dividend])
    have d: "unat (drop_bit 3 w) = unat w div 8" by (simp add: drop_bit_eq_div unat_div)
    have "push_bit 3 (drop_bit 3 w) = of_nat (unat (drop_bit 3 w) * 8)" by (simp add: push_bit_eq_mult)
    also have "unat \<dots> = unat w div 8 * 8" unfolding d by (rule unat_of_nat_u32) (use lt in simp)
    finally show ?thesis .
  qed
  ultimately show ?thesis unfolding m by simp
qed

section \<open>The reference\<close>

function pieces :: "nat \<Rightarrow> u8 list \<Rightarrow> u8 list list" where
  "pieces k p = (if 0 < k \<and> k < length p then take k p # pieces k (drop k p) else [p])"
  by pat_completeness auto
termination
  by (relation "measure (\<lambda>(k, p). length p)") auto

declare pieces.simps [simp del]

definition header_at :: "bool \<Rightarrow> Ipv4Header \<Rightarrow> nat \<Rightarrow> nat \<Rightarrow> bool \<Rightarrow> Ipv4Header" where
  "header_at ck h x len mf =
     (let h = (if mf \<or> \<not> IsLastFragment h then SetMoreFragments h else SetLastFragment h);
          h = h\<lparr>ip_fragmentOffset := of_nat x, ip_payloadSize := of_nat len\<rparr>
      in if ck then h\<lparr>ip_calcChecksum := True\<rparr> else h)"

fun with_headers :: "bool \<Rightarrow> Ipv4Header \<Rightarrow> nat \<Rightarrow> u8 list list \<Rightarrow> (u8 list \<times> Ipv4Header) list" where
  "with_headers ck h x [] = []"
| "with_headers ck h x (q # qs) = (q, header_at ck h x (length q) (qs \<noteq> [])) # with_headers ck h (x + length q) qs"

lemma pieces_ne [simp]: "pieces k p \<noteq> []"
  by (subst pieces.simps) simp

lemma concat_pieces [simp]: "concat (pieces k p) = p"
  by (induction k p rule: pieces.induct) (subst pieces.simps, auto)

lemma pieces_length: "0 < k \<Longrightarrow> q \<in> set (pieces k p) \<Longrightarrow> length q \<le> k"
proof (induction k p rule: pieces.induct)
  case (1 k p)
  show ?case
  proof (cases "k < length p")
    case True
    then have "pieces k p = take k p # pieces k (drop k p)" using 1 by (subst pieces.simps) simp
    then show ?thesis using 1 True by auto
  next
    case False
    then have "pieces k p = [p]" by (subst pieces.simps) simp
    then show ?thesis using 1 False by simp
  qed
qed

section \<open>The loop\<close>

lemma header_step:
  assumes "ip_fragmentOffset h = of_nat y" and "8 dvd y" and "8 dvd x" and "x \<le> length p" and "y + length p < 2 ^ 16" and "x + k < 2 ^ 32"
  shows "fragment_header ck h p (of_nat k) (of_nat x) =
    Some (x + k < length p, of_nat (if x + k < length p then k else length p - x),
      header_at ck h (y + x) (if x + k < length p then k else length p - x) (x + k < length p))"
proof -
  have xs: "x < 2 ^ 16" "length p < 2 ^ 32" using assms(4,5) by simp_all
  have ux: "(ucast (of_nat x :: u16) :: u32) = of_nat x"
  proof -
    have "unat (of_nat x :: u16) = x" using xs by (simp add: unat_of_nat take_bit_eq_mod)
    then show ?thesis by (metis of_nat_unat)
  qed
  have cond: "payload_size p > ucast (of_nat x :: u16) + of_nat k \<longleftrightarrow> x + k < length p"
  proof -
    have "unat (of_nat (length p) :: u32) = length p" by (rule unat_of_nat_u32) (use xs in simp)
    moreover have "unat (of_nat (x + k) :: u32) = x + k" by (rule unat_of_nat_u32) (use assms in simp)
    ultimately show ?thesis unfolding payload_size_def ux word_less_nat_alt by simp
  qed
  have off: "of_nat x + ip_fragmentOffset h = (of_nat (y + x) :: u16)" using assms(1) by (simp add: add.commute)
  have al: "(of_nat (y + x) :: u16) AND 0x7 = 0"
  proof -
    have "unat (of_nat (y + x) :: u16) = y + x" using assms(4,5) by (simp add: unat_of_nat take_bit_eq_mod del: of_nat_add)
    then show ?thesis unfolding low_bits using assms(2,3) by (simp add: mod_eq_0_iff_dvd dvd_add)
  qed
  have len: "payload_size p - ucast (of_nat x :: u16) = of_nat (length p - x)"
    using assms(4) by (simp add: payload_size_def ux of_nat_diff)
  show ?thesis unfolding fragment_header_def Let_def cond len
    by (simp add: SetFragmentOffset_def off al header_at_def Let_def cast16 del: of_nat_add)
qed

lemma fragment_loop_eq:
  assumes "ip_fragmentOffset h = of_nat y" and "8 dvd y" and "8 dvd k" and "0 < k" and "y + length p < 2 ^ 16" and "k < 2 ^ 32"
    and "8 dvd x" and "x \<le> length p" and "x = 0 \<or> x + k < 2 ^ 32"
  shows "fragment_loop ck h p (of_nat k) (of_nat x) = Some (with_headers ck h (y + x) (pieces k (drop x p)))"
  using assms(7-9)
proof (induction "length p - x" arbitrary: x rule: less_induct)
  case less
  have b: "x + k < 2 ^ 32" using less.prems(3) assms(6) by auto
  note H = header_step [OF assms(1,2) less.prems(1,2) assms(5) b, of ck]
  have ux: "(ucast (of_nat x :: u16) :: u32) = of_nat x"
  proof -
    have "unat (of_nat x :: u16) = x" using less.prems(2) assms(5) by (simp add: unat_of_nat take_bit_eq_mod)
    then show ?thesis by (metis of_nat_unat)
  qed
  show ?case
  proof (cases "x + k < length p")
    case True
    have F: "packet_fragment p (of_nat x) (of_nat k) = Some (take k (drop x p))"
      by (rule packet_fragment_eq) (use True assms(5) in simp_all)
    have cast: "(of_nat x :: u16) + ucast (of_nat k :: u32) = of_nat (x + k)" by (simp add: cast16)
    have rest: "fragment_loop ck h p (of_nat k) (of_nat (x + k)) = Some (with_headers ck h (y + (x + k)) (pieces k (drop (x + k) p)))"
      by (rule less.hyps) (use True less.prems assms in \<open>auto intro: dvd_add\<close>)
    have "pieces k (drop x p) = take k (drop x p) # pieces k (drop (x + k) p)"
    proof -
      have "k < length (drop x p)" using True by simp
      then show ?thesis by (subst pieces.simps) (use assms(4) in \<open>simp add: add.commute\<close>)
    qed
    moreover have "length (take k (drop x p)) = k" using True by simp
    ultimately show ?thesis
      by (subst fragment_loop.simps) (use True in \<open>simp add: H ux F cast rest add.assoc del: of_nat_add\<close>)
  next
    case False
    have F: "packet_fragment p (of_nat x) (of_nat (length p - x)) = Some (drop x p)"
      using packet_fragment_eq [of x "length p - x" p] less.prems(2) assms(5) by simp
    have "\<not> k < length (drop x p)" using False by simp
    then have "pieces k (drop x p) = [drop x p]" by (subst pieces.simps) simp
    then show ?thesis by (subst fragment_loop.simps) (use False in \<open>simp add: H ux F del: of_nat_diff\<close>)
  qed
qed

definition fragment_room :: "u32 \<Rightarrow> nat" where
  "fragment_room mtu = (unat mtu - 20) div 8 * 8"

lemma DoFragmentation_eq:
  assumes "ip_headerSize h = 20" and "unat (ip_fragmentOffset h) + length p < 2 ^ 16" and "8 dvd unat (ip_fragmentOffset h)" and "28 \<le> mtu"
  shows "DoFragmentation ck p h mtu = Some (with_headers ck h (unat (ip_fragmentOffset h)) (pieces (fragment_room mtu) p))"
proof -
  have m: "28 \<le> unat mtu" using assms(4) by (simp add: word_le_nat_alt)
  have "unat (mtu - 20) = unat mtu - 20" using m by (simp add: unat_sub word_le_nat_alt)
  then have "unat ((mtu - 20) AND NOT 0x7) = fragment_room mtu" unfolding round_down fragment_room_def by simp
  then have e: "(mtu - 20) AND NOT 0x7 = of_nat (fragment_room mtu)" by (metis of_nat_unat ucast_id)
  have k: "0 < fragment_room mtu" "8 dvd fragment_room mtu" "fragment_room mtu < 2 ^ 32"
    using m unsigned_less [of mtu, where 'a = nat] by (auto simp: fragment_room_def)
  have "fragment_loop ck h p (of_nat (fragment_room mtu)) (of_nat 0) =
      Some (with_headers ck h (unat (ip_fragmentOffset h) + 0) (pieces (fragment_room mtu) (drop 0 p)))"
    by (rule fragment_loop_eq) (use assms(2,3) k in simp_all)
  then have l: "fragment_loop ck h p (of_nat (fragment_room mtu)) 0 =
      Some (with_headers ck h (unat (ip_fragmentOffset h)) (pieces (fragment_room mtu) p))" by simp
  have "Ipv4Header_GetSerializedSize h = 20" using assms(1) by (simp add: Ipv4Header_GetSerializedSize_def)
  then show ?thesis unfolding DoFragmentation_def Let_def using l e by (simp only: of_nat_numeral) simp
qed

text \<open>With room for no byte at all the loop makes no progress.\<close>

lemma fragment_loop_stuck:
  assumes "fragment_loop ck h p 0 0 = Some fs" and "p \<noteq> []" and "length p < 2 ^ 16"
  shows False
proof -
  have nz: "payload_size p > 0"
  proof -
    have "unat (of_nat (length p) :: u32) = length p" by (rule unat_of_nat_u32) (use assms(3) in simp)
    then show ?thesis using assms(2) by (simp add: payload_size_def word_less_nat_alt)
  qed
  have "\<not> (p = p \<and> (0 :: u32) = 0 \<and> (0 :: u16) = 0)"
  proof (rule fragment_loop.raw_induct [where P = "\<lambda>ck' h' p' k x fs. \<not> (p' = p \<and> k = 0 \<and> x = 0)", OF _ assms(1)])
    fix loop :: "bool \<Rightarrow> Ipv4Header \<Rightarrow> u8 list \<Rightarrow> u32 \<Rightarrow> u16 \<Rightarrow> (u8 list \<times> Ipv4Header) list option" and ck' h' p' k x fs
    assume IH: "\<And>ck' h' p' k x fs. loop ck' h' p' k x = Some fs \<Longrightarrow> \<not> (p' = p \<and> k = 0 \<and> x = 0)"
      and eq: "fragment_header ck' h' p' k x \<bind> (\<lambda>(mf, len, hd').
         packet_fragment p' (ucast x) len \<bind> (\<lambda>f. (if mf then loop ck' h' p' k (x + ucast len) else Some []) \<bind>
           (\<lambda>l. Some ((f, hd') # l)))) = Some fs"
    show "\<not> (p' = p \<and> k = 0 \<and> x = 0)"
    proof
      assume e: "p' = p \<and> k = 0 \<and> x = 0"
      from eq obtain mf len hd' l where f: "fragment_header ck' h' p' k x = Some (mf, len, hd')"
        and r: "(if mf then loop ck' h' p' k (x + ucast len) else Some []) = Some l"
        by (auto split: bind_splits)
      have "mf \<and> len = 0" using f e nz by (auto simp: fragment_header_def Let_def split: bind_splits)
      then have "loop ck' h' p' k x = Some l" using r e by simp
      then show False using IH e by blast
    qed
  qed
  then show False by simp
qed

end
