(* ===== verification/Ipv4_Reassembly.thy ===== *)
theory Ipv4_Reassembly
  imports Ipv4_Fragments
begin

text \<open>
  Reassembly: what \<^verbatim>\<open>Fragments\<close> holds when pieces of one packet have arrived, in any order and repeatedly, and that it is
  complete exactly when no piece is missing.  The pieces are \<open>qs\<close>; piece \<open>i\<close> begins at \<open>start_of qs i\<close>.
\<close>

definition start_of :: "u8 list list \<Rightarrow> nat \<Rightarrow> nat" where
  "start_of qs i = length (concat (take i qs))"

definition cut_ok :: "u8 list list \<Rightarrow> bool" where
  "cut_ok qs \<longleftrightarrow> qs \<noteq> [] \<and> (\<forall>q\<in>set qs. q \<noteq> []) \<and> length (concat qs) < 2 ^ 16"

definition piece :: "u8 list list \<Rightarrow> nat \<Rightarrow> u8 list \<times> u16" where
  "piece qs i = (qs ! i, of_nat (start_of qs i))"

lemma start_of_Suc: "i < length qs \<Longrightarrow> start_of qs (Suc i) = start_of qs i + length (qs ! i)"
  by (simp add: start_of_def take_Suc_conv_app_nth)

lemma start_of_0 [simp]: "start_of qs 0 = 0"
  by (simp add: start_of_def)

lemma start_of_mono: "i \<le> j \<Longrightarrow> start_of qs i \<le> start_of qs j"
proof -
  assume "i \<le> j"
  then have "take j qs = take i qs @ take (j - i) (drop i qs)" by (metis le_add_diff_inverse take_add)
  then show ?thesis by (simp add: start_of_def)
qed

lemma start_of_bound: "cut_ok qs \<Longrightarrow> start_of qs i < 2 ^ 16"
proof -
  assume c: "cut_ok qs"
  have "length (concat qs) = length (concat (take i qs)) + length (concat (drop i qs))"
    by (metis append_take_drop_id concat_append length_append)
  then show ?thesis using c by (simp add: start_of_def cut_ok_def)
qed

lemma start_of_less: "cut_ok qs \<Longrightarrow> i < j \<Longrightarrow> i < length qs \<Longrightarrow> start_of qs i < start_of qs j"
proof -
  assume c: "cut_ok qs" and "i < j" and i: "i < length qs"
  then have "start_of qs (Suc i) \<le> start_of qs j" by (intro start_of_mono) simp
  moreover have "length (qs ! i) > 0" using c i by (auto simp: cut_ok_def)
  ultimately show ?thesis using start_of_Suc [OF i] by linarith
qed

lemma word16_less: "x < 2 ^ 16 \<Longrightarrow> y < 2 ^ 16 \<Longrightarrow> (of_nat x :: u16) < of_nat y \<longleftrightarrow> x < y"
  by (simp add: word_less_nat_alt unat_of_nat take_bit_eq_mod)

lemma widen: "x < 2 ^ 16 \<Longrightarrow> (ucast (of_nat x :: u16) :: u32) = of_nat x"
proof -
  assume "x < 2 ^ 16"
  then have "unat (of_nat x :: u16) = x" by (simp add: unat_of_nat take_bit_eq_mod)
  then show ?thesis by (metis of_nat_unat)
qed

lemma piece_later: "cut_ok qs \<Longrightarrow> i < length qs \<Longrightarrow> j < length qs \<Longrightarrow> snd (piece qs j) > snd (piece qs i) \<longleftrightarrow> i < j"
  using start_of_bound [of qs i] start_of_bound [of qs j] start_of_less [of qs i j] start_of_mono [of j i qs]
  by (cases "i < j") (auto simp: piece_def word16_less not_less)

section \<open>The fragments of a packet\<close>

definition holds :: "u8 list list \<Rightarrow> nat list \<Rightarrow> Fragments \<Rightarrow> bool" where
  "holds qs js f \<longleftrightarrow> fr_fragments f = map (piece qs) js \<and> sorted js \<and> set js \<subseteq> {..<length qs} \<and>
     (js \<noteq> [] \<longrightarrow> (fr_moreFragment f \<longleftrightarrow> last js \<noteq> length qs - 1))"

definition put_index :: "nat \<Rightarrow> nat list \<Rightarrow> nat list" where
  "put_index i js = takeWhile (\<lambda>j. j \<le> i) js @ i # dropWhile (\<lambda>j. j \<le> i) js"

lemma set_put_index [simp]: "set (put_index i js) = insert i (set js)"
proof -
  have "set js = set (takeWhile (\<lambda>j. j \<le> i) js) \<union> set (dropWhile (\<lambda>j. j \<le> i) js)"
    by (metis set_append takeWhile_dropWhile_id)
  then show ?thesis by (auto simp: put_index_def)
qed

lemma sorted_put_index: "sorted js \<Longrightarrow> sorted (put_index i js)"
proof -
  assume s: "sorted js"
  then have "sorted (takeWhile (\<lambda>j. j \<le> i) js)" "sorted (dropWhile (\<lambda>j. j \<le> i) js)"
    by (simp_all add: sorted_takeWhile sorted_dropWhile)
  moreover have "\<forall>j\<in>set (dropWhile (\<lambda>j. j \<le> i) js). i \<le> j"
  proof (cases "dropWhile (\<lambda>j. j \<le> i) js")
    case (Cons a as)
    then have "i < a" by (metis dropWhile_eq_Cons_conv not_le)
    moreover have "sorted (a # as)" using \<open>sorted (dropWhile _ js)\<close> unfolding Cons .
    ultimately show ?thesis unfolding Cons by auto
  next
    case Nil
    show ?thesis unfolding Nil by simp
  qed
  ultimately show ?thesis by (fastforce simp: put_index_def sorted_append dest: set_takeWhileD)
qed

lemma AddFragment_holds:
  assumes "cut_ok qs" and "holds qs js f" and "i < length qs"
  shows "holds qs (put_index i js) (AddFragment (fst (piece qs i)) (snd (piece qs i)) (i \<noteq> length qs - 1) f)"
proof -
  have fr: "fr_fragments f = map (piece qs) js" and js: "sorted js" "set js \<subseteq> {..<length qs}" using assms(2) by (simp_all add: holds_def)
  have test: "j \<in> set js \<Longrightarrow> \<not> snd (piece qs j) > snd (piece qs i) \<longleftrightarrow> j \<le> i" for j
    using js(2) piece_later [OF assms(1,3), of j] by auto
  have t: "takeWhile (\<lambda>it. \<not> snd it > snd (piece qs i)) (fr_fragments f) = map (piece qs) (takeWhile (\<lambda>j. j \<le> i) js)"
    unfolding fr takeWhile_map comp_def using test by (intro arg_cong [where f = "map (piece qs)"] takeWhile_cong) auto
  have d: "dropWhile (\<lambda>it. \<not> snd it > snd (piece qs i)) (fr_fragments f) = map (piece qs) (dropWhile (\<lambda>j. j \<le> i) js)"
    unfolding fr dropWhile_map comp_def using test by (intro arg_cong [where f = "map (piece qs)"] dropWhile_cong) auto
  have l: "last (put_index i js) = (if dropWhile (\<lambda>j. j \<le> i) js = [] then i else last js)"
  proof -
    have "last (t @ i # d) = (if d = [] then i else last (t @ d))" for t d :: "nat list" by simp
    from this [of "takeWhile (\<lambda>j. j \<le> i) js" "dropWhile (\<lambda>j. j \<le> i) js"] show ?thesis
      unfolding put_index_def takeWhile_dropWhile_id .
  qed
  define T D where "T = takeWhile (\<lambda>j. j \<le> i) js" and "D = dropWhile (\<lambda>j. j \<le> i) js"
  note TD = T_def [symmetric] D_def [symmetric]
  have add: "AddFragment (fst (piece qs i)) (snd (piece qs i)) (i \<noteq> length qs - 1) f =
      (if D = [] then f\<lparr>fr_moreFragment := i \<noteq> length qs - 1\<rparr> else f)\<lparr>fr_fragments := map (piece qs) (T @ i # D)\<rparr>"
    unfolding AddFragment_def Let_def t d TD by simp
  have p: "put_index i js = T @ i # D" by (simp add: put_index_def T_def D_def)
  have lp: "last (T @ i # D) = (if D = [] then i else last js)" using l unfolding p TD .
  have "D \<noteq> [] \<Longrightarrow> js \<noteq> []" by (auto simp: D_def)
  then have m: "js \<noteq> [] \<longrightarrow> (fr_moreFragment f \<longleftrightarrow> last js \<noteq> length qs - 1)" "D \<noteq> [] \<Longrightarrow> js \<noteq> []"
    using assms(2) by (simp_all add: holds_def)
  have "sorted (T @ i # D)" using sorted_put_index [OF js(1), of i] unfolding p .
  moreover have "set (T @ i # D) \<subseteq> {..<length qs}" using set_put_index [of i js] js(2) assms(3) unfolding p by auto
  ultimately show ?thesis unfolding p add holds_def lp using m by auto
qed

text \<open>Offsets and sizes of pieces as the code computes them.\<close>

lemma piece_end:
  assumes "cut_ok qs" and "j < length qs"
  shows "(ucast (payload_size (qs ! j) + ucast (of_nat (start_of qs j) :: u16)) :: u16) = of_nat (start_of qs (Suc j))"
  using start_of_bound [OF assms(1), of j] start_of_Suc [OF assms(2)]
  by (simp add: payload_size_def widen cast16 add.commute flip: of_nat_add)

lemma start_16: "cut_ok qs \<Longrightarrow> (of_nat (start_of qs i) :: u16) < of_nat (start_of qs j) \<longleftrightarrow> start_of qs i < start_of qs j"
  by (intro word16_less start_of_bound)

lemma start_max: "cut_ok qs \<Longrightarrow> max (of_nat (start_of qs i) :: u16) (of_nat (start_of qs j)) = of_nat (start_of qs (max i j))"
proof -
  assume c: "cut_ok qs"
  have "(of_nat (start_of qs i) :: u16) \<le> of_nat (start_of qs j) \<longleftrightarrow> start_of qs i \<le> start_of qs j"
    using start_16 [OF c, of j i] by (simp only: not_less [symmetric])
  then show ?thesis using start_of_mono [of i j qs] start_of_mono [of j i qs] by (cases "i \<le> j") (auto simp: max_def)
qed

lemma no_gap_iff:
  assumes "cut_ok qs" and "sorted js" and "set js \<subseteq> {..<length qs}" and "\<forall>j\<in>set js. c \<le> Suc j" and "c \<le> length qs"
  shows "no_gap (of_nat (start_of qs c)) (map (piece qs) js) \<longleftrightarrow> (\<forall>i. c \<le> i \<and> (\<exists>j\<in>set js. i \<le> j) \<longrightarrow> i \<in> set js)"
  using assms(2-5)
proof (induction js arbitrary: c)
  case (Cons j js)
  have j: "j < length qs" "c \<le> Suc j" using Cons.prems by auto
  show ?case
  proof (cases "c < j")
    case True
    then have "start_of qs c < start_of qs j" using start_of_less [OF assms(1) True] j by simp
    then have "\<not> no_gap (of_nat (start_of qs c)) (map (piece qs) (j # js))" by (simp add: piece_def start_16 [OF assms(1)])
    moreover have "c \<notin> set (j # js)" using True Cons.prems(1) by auto
    then have "\<not> (\<forall>i. c \<le> i \<and> (\<exists>k\<in>set (j # js). i \<le> k) \<longrightarrow> i \<in> set (j # js))" using True by (meson less_imp_le list.set_intros(1) order_refl)
    ultimately show ?thesis by blast
  next
    case False
    then have "\<not> start_of qs c < start_of qs j" using start_of_mono [of j c qs] by (simp add: not_less)
    then have "no_gap (of_nat (start_of qs c)) (map (piece qs) (j # js)) \<longleftrightarrow>
        no_gap (of_nat (start_of qs (max c (Suc j)))) (map (piece qs) js)"
      by (simp add: piece_def start_16 [OF assms(1)] piece_end [OF assms(1) j(1)] start_max [OF assms(1)] Let_def)
    also have "\<dots> \<longleftrightarrow> (\<forall>i. max c (Suc j) \<le> i \<and> (\<exists>k\<in>set js. i \<le> k) \<longrightarrow> i \<in> set js)"
      using Cons.prems j by (intro Cons.IH) auto
    also have "\<dots> \<longleftrightarrow> (\<forall>i. c \<le> i \<and> (\<exists>k\<in>set (j # js). i \<le> k) \<longrightarrow> i \<in> set (j # js))"
    proof (intro iffI allI impI)
      fix i assume h: "\<forall>i. max c (Suc j) \<le> i \<and> (\<exists>k\<in>set js. i \<le> k) \<longrightarrow> i \<in> set js" and i: "c \<le> i \<and> (\<exists>k\<in>set (j # js). i \<le> k)"
      show "i \<in> set (j # js)"
      proof (cases "i \<le> j")
        case True
        then show ?thesis using i False by auto
      next
        case gt: False
        then have "max c (Suc j) \<le> i \<and> (\<exists>k\<in>set js. i \<le> k)" using i by auto
        then show ?thesis using h by auto
      qed
    next
      fix i assume h: "\<forall>i. c \<le> i \<and> (\<exists>k\<in>set (j # js). i \<le> k) \<longrightarrow> i \<in> set (j # js)" and i: "max c (Suc j) \<le> i \<and> (\<exists>k\<in>set js. i \<le> k)"
      then have "i \<in> set (j # js)" "i \<noteq> j" by auto
      then show "i \<in> set js" by simp
    qed
    finally show ?thesis .
  qed
qed simp

lemma IsEntire_iff:
  assumes "cut_ok qs" and "holds qs js f" and "js \<noteq> []"
  shows "IsEntire f \<longleftrightarrow> set js = {..<length qs}"
proof -
  have fr: "fr_fragments f = map (piece qs) js" and js: "sorted js" "set js \<subseteq> {..<length qs}"
    and mf: "fr_moreFragment f \<longleftrightarrow> last js \<noteq> length qs - 1" using assms(2,3) by (simp_all add: holds_def)
  have n: "length qs > 0" using assms(1) by (simp add: cut_ok_def)
  have "no_gap (of_nat (start_of qs 0)) (map (piece qs) js) \<longleftrightarrow> (\<forall>i. 0 \<le> i \<and> (\<exists>j\<in>set js. i \<le> j) \<longrightarrow> i \<in> set js)"
    by (rule no_gap_iff [OF assms(1) js]) simp_all
  then have e: "IsEntire f \<longleftrightarrow> last js = length qs - 1 \<and> (\<forall>i. (\<exists>j\<in>set js. i \<le> j) \<longrightarrow> i \<in> set js)"
    using assms(3) by (auto simp: IsEntire_def fr mf Let_def)
  show ?thesis
  proof
    assume "IsEntire f"
    then have l: "last js = length qs - 1" and d: "\<forall>i. (\<exists>j\<in>set js. i \<le> j) \<longrightarrow> i \<in> set js" unfolding e by blast+
    have "length qs - 1 \<in> set js" using l last_in_set [OF assms(3)] by simp
    then have "x < length qs \<Longrightarrow> \<exists>j\<in>set js. x \<le> j" for x by (intro bexI [of _ "length qs - 1"]) auto
    then have "{..<length qs} \<subseteq> set js" using d by auto
    then show "set js = {..<length qs}" using js(2) by blast
  next
    assume all: "set js = {..<length qs}"
    have s: "sorted (butlast js @ [last js])" using js(1) assms(3) by simp
    have "j \<in> set (butlast js @ [last js]) \<Longrightarrow> j \<le> last js" for j using s unfolding sorted_append by auto
    then have "j \<in> set js \<Longrightarrow> j \<le> last js" for j using assms(3) by simp
    then have "length qs - 1 \<le> last js" using all n by simp
    moreover have "last js < length qs" using last_in_set [OF assms(3)] all by auto
    ultimately have l: "last js = length qs - 1" by simp
    have "j \<in> set js \<Longrightarrow> i \<le> j \<Longrightarrow> i \<in> set js" for i j unfolding all by simp
    then show "IsEntire f" unfolding e using l by blast
  qed
qed

section \<open>Putting the pieces together\<close>

lemma join_pieces:
  assumes "cut_ok qs" and "set js \<subseteq> {..<length qs}" and "no_gap (of_nat (start_of qs c)) (map (piece qs) js)"
  shows "join_fragments (concat (take c qs)) (of_nat (start_of qs c)) (map (piece qs) js) =
    Some (concat (take (fold max (map Suc js) c) qs))"
  using assms(2,3)
proof (induction js arbitrary: c)
  case (Cons j js)
  have j: "j < length qs" using Cons.prems(1) by simp
  have pj: "piece qs j = (qs ! j, of_nat (start_of qs j))" by (simp add: piece_def)
  have "\<not> start_of qs c < start_of qs j" and rest: "no_gap (of_nat (start_of qs (max c (Suc j)))) (map (piece qs) js)"
    using Cons.prems(2) unfolding list.map pj
    by (auto simp: start_16 [OF assms(1)] piece_end [OF assms(1) j] start_max [OF assms(1)] Let_def split: if_splits)
  then have jc: "j \<le> c" using start_of_less [OF assms(1), of c j] j by (meson not_le order_less_trans)
  note IH = Cons.IH [OF _ rest]
  have len: "ucast (payload_size (concat (take m qs))) = (of_nat (start_of qs m) :: u16)" for m
    by (simp add: payload_size_def cast16 start_of_def)
  show ?case
  proof (cases "j = c")
    case True
    have "concat (take c qs) @ qs ! j = concat (take (Suc c) qs)" using True j by (simp add: take_Suc_conv_app_nth)
    then show ?thesis using IH Cons.prems(1) True by (simp add: piece_def max_def len del: take_Suc)
  next
    case False
    then have lt: "start_of qs j < start_of qs c" and le: "start_of qs (Suc j) \<le> start_of qs c" and m: "max c (Suc j) = c"
      using jc start_of_less [OF assms(1), of j c] start_of_mono [of "Suc j" c qs] j by auto
    have "(of_nat (start_of qs c) :: u32) - of_nat (start_of qs j) = of_nat (start_of qs c - start_of qs j)"
      using lt by (simp add: of_nat_diff)
    moreover have "length (qs ! j) \<le> start_of qs c - start_of qs j" using le start_of_Suc [OF j] by simp
    moreover have "(of_nat a :: u32) < of_nat b \<longleftrightarrow> a < b" if "a < 2 ^ 16" "b < 2 ^ 16" for a b
      using that by (simp add: word_less_nat_alt unat_of_nat take_bit_eq_mod)
    ultimately have "\<not> payload_size (qs ! j) > ucast (of_nat (start_of qs c) :: u16) - ucast (of_nat (start_of qs j) :: u16)"
      using start_of_bound [OF assms(1), of c] start_of_bound [OF assms(1), of j]
      by (simp add: payload_size_def widen not_less del: of_nat_diff)
    then show ?thesis using IH Cons.prems(1) m lt by (simp add: piece_def start_16 [OF assms(1)] len max.commute)
  qed
qed simp

lemma GetPacket_entire:
  assumes "cut_ok qs" and "holds qs js f" and "set js = {..<length qs}"
  shows "GetPacket f = Some (concat qs)"
proof -
  have fr: "fr_fragments f = map (piece qs) js" and s: "sorted js" using assms(2) by (simp_all add: holds_def)
  have n: "0 < length qs" using assms(1) by (simp add: cut_ok_def)
  have ng: "no_gap (of_nat (start_of qs 0)) (map (piece qs) js)"
  proof -
    have "i \<le> k \<Longrightarrow> k \<in> set js \<Longrightarrow> i \<in> set js" for i k using assms(3) by simp
    then show ?thesis using assms(3) by (subst no_gap_iff [OF assms(1) s]) blast+
  qed
  have "js \<noteq> []" using n assms(3) by fastforce
  then obtain j js' where js: "js = j # js'" by (cases js) simp_all
  have j0: "j = 0" 
  proof -
    have "0 \<in> set (j # js')" using n assms(3) js by simp
    then show ?thesis using s unfolding js by auto
  qed
  have "start_of qs (Suc 0) = length (qs ! 0)" using start_of_Suc [OF n] by simp
  then have "no_gap (of_nat (start_of qs (Suc 0))) (map (piece qs) js')"
    using ng n piece_end [OF assms(1) n] by (simp add: js j0 piece_def Let_def)
  then have "join_fragments (concat (take (Suc 0) qs)) (of_nat (start_of qs (Suc 0))) (map (piece qs) js') =
      Some (concat (take (fold max (map Suc js') (Suc 0)) qs))"
    by (intro join_pieces [OF assms(1)]) (use assms(3) js in auto)
  moreover have "concat (take (Suc 0) qs) = qs ! 0" using n by (cases qs) auto
  moreover have "fold max (map Suc js') (Suc 0) = length qs"
  proof -
    have "fold max (map Suc js') (Suc 0) = Max (set (Suc 0 # map Suc js'))" by (simp only: Max.set_eq_fold)
    also have "set (Suc 0 # map Suc js') = set (map Suc js)" by (simp add: js j0)
    also have "set (map Suc js) = {1..length qs}" by (simp only: set_map assms(3) image_Suc_lessThan)
    also have "Max {1..length qs} = length qs" using n by (intro Max_eqI) (auto simp: Suc_le_eq)
    finally show ?thesis .
  qed
  ultimately show ?thesis by (simp add: GetPacket_def fr js j0 piece_def start_of_def payload_size_def cast16)
qed

section \<open>Fragments of fragments\<close>

text \<open>
  Fragments under way: what a packet becomes when routers cut it, and cut its fragments again, each with its own MTU; and
  what \<^verbatim>\<open>ProcessFragment\<close> makes of fragments that arrive in any order.
\<close>

section \<open>Cutting along a path\<close>

inductive fragmented :: "u8 list \<Rightarrow> Ipv4Header \<Rightarrow> (u8 list \<times> Ipv4Header) list \<Rightarrow> bool" for p h where
  fragmented_start: "fragmented p h [(p, h)]"
| fragmented_cut: "fragmented p h (fs @ (q, g) # es) \<Longrightarrow> 28 \<le> mtu \<Longrightarrow> DoFragmentation ck q g mtu = Some gs \<Longrightarrow>
    fragmented p h (fs @ gs @ es)"

text \<open>What holds of consecutive fragments of a packet, the first of which begins at byte \<open>x\<close>; \<open>l\<close> when they end the packet.\<close>

fun cut_at :: "FragmentKey \<Rightarrow> bool \<Rightarrow> nat \<Rightarrow> (u8 list \<times> Ipv4Header) list \<Rightarrow> bool" where
  "cut_at key l x [] = True"
| "cut_at key l x ((q, h) # fs) \<longleftrightarrow>
     q \<noteq> [] \<and> fragment_key h = key \<and> ip_headerSize h = 20 \<and> ip_fragmentOffset h = of_nat x \<and> 8 dvd x \<and>
     (IsLastFragment h \<longleftrightarrow> fs = [] \<and> l) \<and> cut_at key l (x + length q) fs"

lemma more_fragments_bit: "MORE_FRAGMENTS \<noteq> 0" "(f AND NOT MORE_FRAGMENTS) AND MORE_FRAGMENTS = 0"
proof -
  show "MORE_FRAGMENTS \<noteq> 0" by (simp add: MORE_FRAGMENTS_def)
  show "(f AND NOT MORE_FRAGMENTS) AND MORE_FRAGMENTS = 0" by (rule bit_word_eqI) (simp add: bit_simps)
qed

lemma header_at_facts [simp]:
  "fragment_key (header_at ck h x len mf) = fragment_key h"
  "ip_headerSize (header_at ck h x len mf) = ip_headerSize h"
  "ip_fragmentOffset (header_at ck h x len mf) = of_nat x"
  "IsLastFragment (header_at ck h x len mf) \<longleftrightarrow> \<not> mf \<and> IsLastFragment h"
  by (auto simp: header_at_def Let_def fragment_key_def SetMoreFragments_def SetLastFragment_def IsLastFragment_def more_fragments_bit)

lemma cut_at_append:
  "cut_at key l x (fs @ es) \<longleftrightarrow> cut_at key (l \<and> es = []) x fs \<and> cut_at key l (x + length (concat (map fst fs))) es"
  by (induction fs arbitrary: x) (auto simp: add.assoc)

lemma with_headers_nil [simp]: "with_headers ck h x qs = [] \<longleftrightarrow> qs = []"
  by (cases qs) simp_all

lemma with_headers_fst [simp]: "map fst (with_headers ck h x qs) = qs"
  by (induction qs arbitrary: x) simp_all

lemma pieces_cut_at:
  "p \<noteq> [] \<Longrightarrow> 8 dvd k \<Longrightarrow> 8 dvd x \<Longrightarrow> ip_headerSize h = 20 \<Longrightarrow>
   cut_at (fragment_key h) (IsLastFragment h) x (with_headers ck h x (pieces k p))"
proof (induction k p arbitrary: x rule: pieces.induct)
  case (1 k p)
  show ?case
  proof (cases "0 < k \<and> k < length p")
    case True
    then have "pieces k p = take k p # pieces k (drop k p)" by (subst pieces.simps) simp
    moreover have "cut_at (fragment_key h) (IsLastFragment h) (x + k) (with_headers ck h (x + k) (pieces k (drop k p)))"
      using 1 True by (intro "1.IH") (auto intro: dvd_add)
    ultimately show ?thesis using 1 True by (simp add: min_def)
  next
    case False
    then have "pieces k p = [p]" by (subst pieces.simps) auto
    then show ?thesis using 1 by simp
  qed
qed

lemma fragmented_cut_at:
  assumes "fragmented p h fs" and "p \<noteq> []" and "length p < 2 ^ 16" and "ip_headerSize h = 20" and "ip_fragmentOffset h = 0"
    and "IsLastFragment h"
  shows "cut_at (fragment_key h) True 0 fs \<and> concat (map fst fs) = p \<and> fs \<noteq> []"
  using assms(1)
proof induction
  case fragmented_start
  show ?case using assms by simp
next
  case (fragmented_cut fs q g es mtu ck gs)
  define y where "y = length (concat (map fst fs))"
  have c: "cut_at (fragment_key h) (es = []) y [(q, g)]" "cut_at (fragment_key h) False 0 fs"
    "cut_at (fragment_key h) True (y + length q) es" and p: "concat (map fst fs) @ q @ concat (map fst es) = p"
    using fragmented_cut.IH by (simp_all add: cut_at_append y_def)
  have len: "y + length q < 2 ^ 16"
  proof -
    have "length p = y + length q + length (concat (map fst es))" unfolding p [symmetric] y_def by simp
    then show ?thesis using assms(3) by simp
  qed
  then have u: "unat (ip_fragmentOffset g) = y" using c(1) by (simp add: unat_of_nat take_bit_eq_mod)
  have "gs = with_headers ck g y (pieces (fragment_room mtu) q)"
    using DoFragmentation_eq [of g q mtu ck] fragmented_cut.hyps c(1) len u by simp
  moreover have "cut_at (fragment_key h) (es = []) y (with_headers ck g y (pieces (fragment_room mtu) q))"
    using pieces_cut_at [of q "fragment_room mtu" y g ck] c(1) by (simp add: fragment_room_def)
  ultimately show ?case using c(2,3) p by (simp add: cut_at_append y_def flip: y_def)
qed

lemma cut_at_nth:
  assumes "cut_at key l x fs" and "i < length fs"
  shows "fst (fs ! i) \<noteq> [] \<and> fragment_key (snd (fs ! i)) = key \<and>
    ip_fragmentOffset (snd (fs ! i)) = of_nat (x + start_of (map fst fs) i) \<and> (IsLastFragment (snd (fs ! i)) \<longleftrightarrow> i = length fs - 1 \<and> l)"
  using assms
proof (induction fs arbitrary: x i)
  case (Cons f fs)
  obtain q h where f: "f = (q, h)" by (cases f)
  show ?case
  proof (cases i)
    case 0
    then show ?thesis using Cons.prems f by auto
  next
    case (Suc k)
    have "start_of (map fst (f # fs)) (Suc k) = length q + start_of (map fst fs) k" by (simp add: start_of_def f)
    then show ?thesis using Cons.IH [of "x + length q" k] Cons.prems Suc f by (auto simp: add.assoc)
  qed
qed simp

text \<open>The bytes of the fragments are a cut of the packet, and a fragment comes in at its piece.\<close>

lemma cut_at_pieces:
  assumes "cut_at key True 0 fs" and "concat (map fst fs) = p" and "length p < 2 ^ 16" and "fs \<noteq> []"
  shows "cut_ok (map fst fs)" and "i < length fs \<Longrightarrow> (fst (fs ! i), ip_fragmentOffset (snd (fs ! i))) = piece (map fst fs) i"
    and "i < length fs \<Longrightarrow> \<not> IsLastFragment (snd (fs ! i)) \<longleftrightarrow> i \<noteq> length (map fst fs) - 1"
proof -
  note c = cut_at_nth [OF assms(1)]
  have "q \<noteq> []" if q: "q \<in> set (map fst fs)" for q
  proof -
    obtain i where "i < length fs" "q = fst (fs ! i)" using q by (auto simp: in_set_conv_nth)
    then show ?thesis using c by simp
  qed
  then show "cut_ok (map fst fs)" using assms(2-4) by (auto simp: cut_ok_def)
  show "i < length fs \<Longrightarrow> (fst (fs ! i), ip_fragmentOffset (snd (fs ! i))) = piece (map fst fs) i"
    "i < length fs \<Longrightarrow> \<not> IsLastFragment (snd (fs ! i)) \<longleftrightarrow> i \<noteq> length (map fst fs) - 1"
    using c by (simp_all add: piece_def)
qed

lemma cut_at_index:
  assumes "cut_at key True 0 fs" and "concat (map fst fs) = p" and "length p < 2 ^ 16" and "i < length fs" and "j < length fs" and "fs ! i = fs ! j"
  shows "i = j"
proof -
  have "fs \<noteq> []" using assms(4) by auto
  note c = cut_at_pieces [OF assms(1-3) this]
  have "piece (map fst fs) i = piece (map fst fs) j" using c(2) [OF assms(4)] c(2) [OF assms(5)] assms(6) by simp
  then show ?thesis using piece_later [OF c(1), of i j] piece_later [OF c(1), of j i] assms(4,5)
    by (metis length_map linorder_neqE_nat less_irrefl)
qed

section \<open>Fragments that arrive\<close>

lemma join_fragments_total: "\<exists>r. join_fragments p e fs = Some r"
proof (induction fs arbitrary: p e)
  case (Cons f fs)
  obtain q x where "f = (q, x)" by (cases f)
  moreover obtain y where "packet_fragment q (ucast e - ucast x) (payload_size q - (ucast e - ucast x)) = Some y"
    by (simp add: packet_fragment_def payload_size_def Let_def)
  ultimately show ?case using Cons.IH by (simp add: Let_def)
qed simp

lemma ProcessFragment_total: "\<exists>b q s'. ProcessFragment t p h i s = Some (b, q, s') \<and>
    (\<forall>k. k \<noteq> fragment_key h \<longrightarrow> l3_fragments s' k = l3_fragments s k)"
proof -
  obtain f s1 where f: "(case l3_fragments s (fragment_key h) of
             None \<Rightarrow> (let (iter, s) = SetTimeout t (fragment_key h) h i s in (Fragments_new\<lparr>fr_timeoutIter := iter\<rparr>, s))
           | Some fragments \<Rightarrow> (fragments, s)) = (f, s1)" by (metis surj_pair)
  then have s1: "l3_fragments s1 = l3_fragments s" by (auto simp: SetTimeout_def Let_def split: option.splits)
  have "\<exists>r. GetPacket (AddFragment q x m f) = Some r" for q x m
    using join_fragments_total by (auto simp: GetPacket_def AddFragment_def Let_def split: list.splits)
  then obtain r where "GetPacket (AddFragment p (ip_fragmentOffset h) (\<not> IsLastFragment h) f) = Some r" by blast
  then show ?thesis unfolding ProcessFragment_def Let_def [of "fragment_key h"] f by (simp add: Let_def s1) blast
qed

definition tracks :: "u8 list list \<Rightarrow> FragmentKey \<Rightarrow> nat list \<Rightarrow> Ipv4Reassembly \<Rightarrow> bool" where
  "tracks qs key js s \<longleftrightarrow>
     (case l3_fragments s key of None \<Rightarrow> js = [] | Some f \<Rightarrow> js \<noteq> [] \<and> holds qs js f)"

lemma ProcessFragment_piece:
  assumes "cut_ok qs" and "tracks qs key js s" and "i < length qs" and "fragment_key g = key"
    and "(q, ip_fragmentOffset g) = piece qs i" and "\<not> IsLastFragment g \<longleftrightarrow> i \<noteq> length qs - 1"
  shows "set (put_index i js) = {..<length qs} \<Longrightarrow>
      \<exists>s'. ProcessFragment t q g c s = Some (True, concat qs, s') \<and> l3_fragments s' key = None"
    and "set (put_index i js) \<noteq> {..<length qs} \<Longrightarrow>
      \<exists>s'. ProcessFragment t q g c s = Some (False, q, s') \<and> tracks qs key (put_index i js) s'"
proof -
  obtain f s1 where f: "(case l3_fragments s key of
             None \<Rightarrow> (let (iter, s) = SetTimeout t key g c s in (Fragments_new\<lparr>fr_timeoutIter := iter\<rparr>, s))
           | Some fragments \<Rightarrow> (fragments, s)) = (f, s1)" by (metis surj_pair)
  then have h: "holds qs js f" using assms(2)
    by (auto simp: tracks_def holds_def Fragments_new_def Let_def split: option.splits prod.splits)
  define f' where "f' = AddFragment q (ip_fragmentOffset g) (\<not> IsLastFragment g) f"
  have qs: "q = fst (piece qs i)" "ip_fragmentOffset g = snd (piece qs i)" by (simp_all flip: assms(5))
  have h': "holds qs (put_index i js) f'" using AddFragment_holds [OF assms(1) h assms(3)] unfolding f'_def assms(6) qs .
  have ne: "put_index i js \<noteq> []" by (simp add: put_index_def)
  have e: "IsEntire f' \<longleftrightarrow> set (put_index i js) = {..<length qs}" by (rule IsEntire_iff [OF assms(1) h' ne])
  have p: "ProcessFragment t q g c s = (if IsEntire f' then do {
           packet \<leftarrow> GetPacket f';
           Some (True, packet, s1\<lparr>l3_timeoutEventList := filter (\<lambda>e. to_node e \<noteq> fr_timeoutIter f') (l3_timeoutEventList s1),
             l3_fragments := (l3_fragments s1)(key := None)\<rparr>) }
         else Some (False, q, s1\<lparr>l3_fragments := (l3_fragments s1)(key \<mapsto> f')\<rparr>))"
    unfolding ProcessFragment_def assms(4) Let_def [of key] f by (simp add: Let_def f'_def)
  show "\<exists>s'. ProcessFragment t q g c s = Some (True, concat qs, s') \<and> l3_fragments s' key = None"
    if "set (put_index i js) = {..<length qs}"
    unfolding p using that e GetPacket_entire [OF assms(1) h'] by (simp add: exI)
  show "\<exists>s'. ProcessFragment t q g c s = Some (False, q, s') \<and> tracks qs key (put_index i js) s'"
    if "set (put_index i js) \<noteq> {..<length qs}"
    unfolding p using that e h' ne by (simp add: tracks_def)
qed

end
