(* ===== verification/Ipv4_Reassembly_Timeout.thy ===== *)
theory Ipv4_Reassembly_Timeout
  imports Ipv4_Reassembly
begin

text \<open>
  The timers of reassembly: fragments that arrive, the clock that moves to the next event at most, and \<^verbatim>\<open>HandleTimeout\<close> run
  as its events come up.  No incomplete packet outlives the expiration timeout.
\<close>

section \<open>Timers and fragments belong together\<close>

definition timers :: "timeout_entry list \<Rightarrow> Ipv4Reassembly \<Rightarrow> bool" where
  "timers L s \<longleftrightarrow> sorted (map to_time L) \<and> distinct (map to_node L) \<and> distinct (map to_key L) \<and>
     (\<forall>e\<in>set L. to_node e < l3_next_node s) \<and> dom (l3_fragments s) \<subseteq> to_key ` set L \<and>
     (\<forall>e\<in>set L. \<exists>f. l3_fragments s (to_key e) = Some f \<and> fr_timeoutIter f = to_node e \<and> fr_fragments f \<noteq> [])"

definition due :: "nat \<Rightarrow> Ipv4Reassembly \<Rightarrow> bool" where
  "due Now s \<longleftrightarrow> (\<forall>e\<in>set (l3_timeoutEventList s). Now \<le> to_time e \<and> to_time e \<le> Now + l3_fragmentExpirationTimeout s) \<and>
     (\<forall>t\<in>set (l3_pending s). Now \<le> t) \<and>
     (l3_timeoutEventList s \<noteq> [] \<longrightarrow> (\<exists>t\<in>set (l3_pending s). t \<le> to_time (hd (l3_timeoutEventList s))))"

inductive l3_reach :: "nat \<Rightarrow> nat \<times> Ipv4Reassembly \<Rightarrow> bool" for timeout where
  l3_init: "l3_reach timeout (0, Ipv4Reassembly_new timeout)"
| l3_tick: "l3_reach timeout (Now, s) \<Longrightarrow> Now \<le> t \<Longrightarrow> \<forall>e\<in>set (l3_pending s). t \<le> e \<Longrightarrow> l3_reach timeout (t, s)"
| l3_fragment: "l3_reach timeout (Now, s) \<Longrightarrow> ProcessFragment Now p h i s = Some (b, q, s') \<Longrightarrow> l3_reach timeout (Now, s')"
| l3_fire: "l3_reach timeout (Now, s) \<Longrightarrow> Now \<in> set (l3_pending s) \<Longrightarrow>
    HandleTimeout Now (s\<lparr>l3_pending := remove1 Now (l3_pending s)\<rparr>) = Some s' \<Longrightarrow> l3_reach timeout (Now, s')"

lemma join_partial_total: "\<exists>r. join_partial p e fs = Some r"
proof (induction fs arbitrary: p e)
  case (Cons f fs)
  obtain q x where "f = (q, x)" by (cases f)
  moreover obtain y where "packet_fragment q (ucast e - ucast x) (payload_size q - (ucast e - ucast x)) = Some y"
    by (simp add: packet_fragment_def payload_size_def Let_def)
  ultimately show ?case using Cons.IH by (simp add: Let_def)
qed simp

lemma HandleFragmentsTimeout_some:
  assumes "l3_fragments s key = Some f" and "fr_fragments f \<noteq> []"
  shows "\<exists>s'. HandleFragmentsTimeout key h i s = Some s' \<and> l3_fragments s' = (l3_fragments s)(key := None) \<and>
    l3_pending s' = l3_pending s \<and> l3_next_node s' = l3_next_node s \<and> l3_fragmentExpirationTimeout s' = l3_fragmentExpirationTimeout s"
proof -
  obtain r where "join_partial [] 0 (fr_fragments f) = Some r" using join_partial_total by blast
  then have "\<exists>r. GetPartialPacket f = Some r"
    using assms(2) by (cases "fr_fragments f") (auto simp: GetPartialPacket_def simp del: join_partial.simps)
  then obtain r where "GetPartialPacket f = Some r" by blast
  then show ?thesis using assms(1) by (simp add: HandleFragmentsTimeout_def Let_def)
qed

lemma timeout_loop_timers:
  assumes "timers L s"
  shows "\<exists>s'. timeout_loop now L s = Some s' \<and> l3_timeoutEventList s' = dropWhile (\<lambda>e. to_time e = now) L \<and>
    timers (dropWhile (\<lambda>e. to_time e = now) L) s' \<and> l3_pending s' = l3_pending s \<and>
    l3_fragmentExpirationTimeout s' = l3_fragmentExpirationTimeout s \<and> dom (l3_fragments s') \<subseteq> dom (l3_fragments s)"
  using assms
proof (induction L arbitrary: s)
  case Nil
  then show ?case by (simp add: timers_def)
next
  case (Cons e L)
  obtain f where f: "l3_fragments s (to_key e) = Some f" "fr_fragments f \<noteq> []" using Cons.prems by (auto simp: timers_def)
  from HandleFragmentsTimeout_some [OF f] obtain s1 where s1: "HandleFragmentsTimeout (to_key e) (to_header e) (to_iif e) s = Some s1"
    "l3_fragments s1 = (l3_fragments s)(to_key e := None)" "l3_pending s1 = l3_pending s" "l3_next_node s1 = l3_next_node s"
    "l3_fragmentExpirationTimeout s1 = l3_fragmentExpirationTimeout s" by metis
  have "timers L s1"
  proof -
    have "to_key x \<noteq> to_key e" if "x \<in> set L" for x using Cons.prems that by (auto simp: timers_def) (metis imageI)
    then show ?thesis using Cons.prems s1(2,4) by (auto simp: timers_def)
  qed
  from Cons.IH [OF this] obtain s' where s': "timeout_loop now L s1 = Some s'" "l3_timeoutEventList s' = dropWhile (\<lambda>e. to_time e = now) L"
    "timers (dropWhile (\<lambda>e. to_time e = now) L) s'" "l3_pending s' = l3_pending s1"
    "l3_fragmentExpirationTimeout s' = l3_fragmentExpirationTimeout s1" "dom (l3_fragments s') \<subseteq> dom (l3_fragments s1)" by blast
  have "dom (l3_fragments s1) \<subseteq> dom (l3_fragments s)" using s1(2) by auto
  then have "dom (l3_fragments s') \<subseteq> dom (l3_fragments s)" using s'(6) by (rule subset_trans [rotated])
  then show ?case using s1 s' Cons.prems by (auto simp: timers_def)
qed

lemma HandleTimeout_inv:
  assumes "timers (l3_timeoutEventList s) s" and "due Now s"
  shows "\<exists>s'. HandleTimeout Now (s\<lparr>l3_pending := remove1 Now (l3_pending s)\<rparr>) = Some s' \<and>
    timers (l3_timeoutEventList s') s' \<and> due Now s' \<and> l3_fragmentExpirationTimeout s' = l3_fragmentExpirationTimeout s \<and>
    dom (l3_fragments s') \<subseteq> dom (l3_fragments s) \<and> (\<forall>e\<in>set (l3_timeoutEventList s'). Now < to_time e)"
proof -
  define L where "L = l3_timeoutEventList s"
  define D where "D = dropWhile (\<lambda>e. to_time e = Now) L"
  have "timers L (s\<lparr>l3_pending := remove1 Now (l3_pending s)\<rparr>)" using assms(1) by (simp add: L_def timers_def)
  from timeout_loop_timers [OF this, of Now] obtain s1 where
    s1: "timeout_loop Now L (s\<lparr>l3_pending := remove1 Now (l3_pending s)\<rparr>) = Some s1" "l3_timeoutEventList s1 = D" "timers D s1"
      "l3_pending s1 = remove1 Now (l3_pending s)" "l3_fragmentExpirationTimeout s1 = l3_fragmentExpirationTimeout s"
      "dom (l3_fragments s1) \<subseteq> dom (l3_fragments s)"
    by (auto simp: D_def)
  have DL: "set D \<subseteq> set L" by (auto simp: D_def dest: set_dropWhileD)
  have p: "\<forall>t\<in>set (remove1 Now (l3_pending s)). Now \<le> t" using assms(2) by (auto simp: due_def dest: in_set_remove1 notin_set_remove1)
  have b: "\<forall>e\<in>set D. Now \<le> to_time e \<and> to_time e \<le> Now + l3_fragmentExpirationTimeout s" using assms(2) DL by (auto simp: due_def L_def)
  show ?thesis
  proof (cases D)
    case Nil
    then show ?thesis using s1 p by (auto simp: HandleTimeout_def L_def [symmetric] due_def)
  next
    case (Cons e es)
    have "to_time e \<noteq> Now" using Cons unfolding D_def by (auto simp: dropWhile_eq_Cons_conv)
    moreover have "Now \<le> to_time e" using b Cons by simp
    moreover have "x \<in> set D \<Longrightarrow> to_time e \<le> to_time x" for x using s1(3) Cons by (auto simp: timers_def)
    ultimately have later: "\<forall>x\<in>set D. Now < to_time x" by fastforce
    define s2 where "s2 = s1\<lparr>l3_pending := l3_pending s1 @ [Now + (to_time e - Now)]\<rparr>"
    have "HandleTimeout Now (s\<lparr>l3_pending := remove1 Now (l3_pending s)\<rparr>) = Some s2"
      using s1 Cons by (simp add: HandleTimeout_def L_def [symmetric] s2_def Let_def)
    moreover have "timers (l3_timeoutEventList s2) s2" using s1(2,3) by (simp add: s2_def timers_def)
    moreover have "due Now s2" using s1 p b Cons by (auto simp: due_def s2_def)
    ultimately show ?thesis using s1(2,5,6) later by (simp add: s2_def)
  qed
qed

lemma SetTimeout_timers:
  assumes "timers (l3_timeoutEventList s) s" and "due Now s" and "l3_fragments s key = None" and "SetTimeout Now key h i s = (n, s1)"
    and "fr_timeoutIter f = n" and "fr_fragments f \<noteq> []"
  shows "timers (l3_timeoutEventList s1) (s1\<lparr>l3_fragments := (l3_fragments s1)(key \<mapsto> f)\<rparr>)" and "due Now s1"
    and "l3_fragments s1 = l3_fragments s" and "l3_fragmentExpirationTimeout s1 = l3_fragmentExpirationTimeout s"
proof -
  define L where "L = l3_timeoutEventList s"
  define e where "e = \<lparr>to_node = n, to_time = Now + l3_fragmentExpirationTimeout s, to_key = key, to_header = h, to_iif = i\<rparr>"
  have n: "n = l3_next_node s" and L1: "l3_timeoutEventList s1 = L @ [e]" and nn: "l3_next_node s1 = n + 1"
    and p: "l3_pending s1 = l3_pending s @ (if L = [] then [Now + l3_fragmentExpirationTimeout s] else [])"
    and F: "l3_fragments s1 = l3_fragments s" and T: "l3_fragmentExpirationTimeout s1 = l3_fragmentExpirationTimeout s"
    using assms(4) by (auto simp: SetTimeout_def Let_def L_def e_def)
  have t: "timers L s" using assms(1) by (simp add: L_def)
  have kL: "to_key x \<noteq> key" "to_node x < n" "to_time x \<le> to_time e" if "x \<in> set L" for x
    using t that assms(2,3) n by (auto simp: timers_def due_def L_def e_def)
  have "sorted (map to_time (L @ [e]))" using t kL by (simp add: timers_def sorted_append)
  moreover have "distinct (map to_node (L @ [e]))" using t kL(2) by (fastforce simp: timers_def e_def)
  moreover have "distinct (map to_key (L @ [e]))" using t kL(1) by (fastforce simp: timers_def e_def)
  moreover have "dom ((l3_fragments s)(key \<mapsto> f)) \<subseteq> to_key ` set (L @ [e])" using t by (auto simp: timers_def e_def)
  moreover have "\<forall>x\<in>set (L @ [e]). to_node x < n + 1" using kL(2) by (auto simp: e_def less_Suc_eq)
  moreover have "\<forall>x\<in>set (L @ [e]). \<exists>g. ((l3_fragments s)(key \<mapsto> f)) (to_key x) = Some g \<and> fr_timeoutIter g = to_node x \<and> fr_fragments g \<noteq> []"
    using t kL(1) assms(5,6) by (auto simp: timers_def e_def)
  ultimately show "timers (l3_timeoutEventList s1) (s1\<lparr>l3_fragments := (l3_fragments s1)(key \<mapsto> f)\<rparr>)"
    unfolding timers_def L1 by (simp add: F nn)
  show "due Now s1" using assms(2) unfolding due_def L1 T p
    by (cases L) (auto simp: L_def [symmetric] e_def)
  show "l3_fragments s1 = l3_fragments s" "l3_fragmentExpirationTimeout s1 = l3_fragmentExpirationTimeout s" by (fact F, fact T)
qed

lemma timers_update:
  assumes "timers L s" and "l3_fragments s key = Some f" and "fr_timeoutIter f' = fr_timeoutIter f" and "fr_fragments f' \<noteq> []"
  shows "timers L (s\<lparr>l3_fragments := (l3_fragments s)(key \<mapsto> f')\<rparr>)"
proof -
  have "key \<in> to_key ` set L" using assms(1,2) by (auto simp: timers_def)
  then show ?thesis using assms by (auto simp: timers_def)
qed

lemma timers_erase:
  assumes "timers L s" and "l3_fragments s key = Some f"
  shows "timers (filter (\<lambda>e. to_node e \<noteq> fr_timeoutIter f) L) (s\<lparr>l3_fragments := (l3_fragments s)(key := None)\<rparr>)"
proof -
  have "to_node e = fr_timeoutIter f \<longleftrightarrow> to_key e = key" if e: "e \<in> set L" for e
  proof
    show "to_node e = fr_timeoutIter f" if "to_key e = key" using assms e that by (auto simp: timers_def)
  next
    assume n: "to_node e = fr_timeoutIter f"
    obtain x where x: "x \<in> set L" "to_key x = key" using assms by (auto simp: timers_def)
    then have "to_node x = to_node e" using assms n by (auto simp: timers_def)
    moreover have "inj_on to_node (set L)" using assms(1) by (simp add: timers_def distinct_map)
    ultimately have "x = e" using x(1) e by (meson inj_onD)
    then show "to_key e = key" using x(2) by simp
  qed
  then have "filter (\<lambda>e. to_node e \<noteq> fr_timeoutIter f) L = filter (\<lambda>e. to_key e \<noteq> key) L" by (auto intro: filter_cong)
  moreover have "timers (filter (\<lambda>e. to_key e \<noteq> key) L) (s\<lparr>l3_fragments := (l3_fragments s)(key := None)\<rparr>)"
    using assms(1) by (auto simp: timers_def sorted_filter distinct_map_filter)
  ultimately show ?thesis by simp
qed

lemma due_filter:
  assumes "due Now s" and "sorted (map to_time (l3_timeoutEventList s))"
  shows "due Now (s\<lparr>l3_timeoutEventList := filter P (l3_timeoutEventList s)\<rparr>)"
proof -
  have h: "x \<in> set (l3_timeoutEventList s) \<Longrightarrow> to_time (hd (l3_timeoutEventList s)) \<le> to_time x" for x
    using assms(2) by (cases "l3_timeoutEventList s") auto
  show ?thesis
  proof (cases "filter P (l3_timeoutEventList s)")
    case (Cons e es)
    then have "e \<in> set (filter P (l3_timeoutEventList s))" by simp
    then have e: "e \<in> set (l3_timeoutEventList s)" by simp
    then obtain t where "t \<in> set (l3_pending s)" "t \<le> to_time (hd (l3_timeoutEventList s))" using assms(1) by (auto simp: due_def)
    moreover have "to_time (hd (l3_timeoutEventList s)) \<le> to_time e" by (rule h [OF e])
    ultimately have "\<exists>t\<in>set (l3_pending s). t \<le> to_time (hd (filter P (l3_timeoutEventList s)))" unfolding Cons list.sel by (meson order_trans)
    then show ?thesis using assms(1) by (simp add: due_def)
  qed (use assms(1) in \<open>simp add: due_def\<close>)
qed

lemma ProcessFragment_timers:
  assumes "timers (l3_timeoutEventList s) s" and "due Now s" and "ProcessFragment Now p h i s = Some (b, q, s')"
  shows "timers (l3_timeoutEventList s') s' \<and> due Now s' \<and> l3_fragmentExpirationTimeout s' = l3_fragmentExpirationTimeout s"
proof -
  define key where "key = fragment_key h"
  obtain f s1 where f: "(case l3_fragments s key of
             None \<Rightarrow> (let (iter, s) = SetTimeout Now key h i s in (Fragments_new\<lparr>fr_timeoutIter := iter\<rparr>, s))
           | Some fragments \<Rightarrow> (fragments, s)) = (f, s1)" by (metis surj_pair)
  define f' where "f' = AddFragment p (ip_fragmentOffset h) (\<not> IsLastFragment h) f"
  define s2 where "s2 = s1\<lparr>l3_fragments := (l3_fragments s1)(key \<mapsto> f')\<rparr>"
  have f': "fr_fragments f' \<noteq> []" "fr_timeoutIter f' = fr_timeoutIter f" by (simp_all add: f'_def AddFragment_def Let_def)
  have "timers (l3_timeoutEventList s1) s2 \<and> due Now s1 \<and> l3_fragmentExpirationTimeout s1 = l3_fragmentExpirationTimeout s"
  proof (cases "l3_fragments s key")
    case None
    then obtain n where S: "SetTimeout Now key h i s = (n, s1)" "f = Fragments_new\<lparr>fr_timeoutIter := n\<rparr>" using f by (auto split: prod.splits)
    show ?thesis using SetTimeout_timers [OF assms(1,2) None S(1) _ f'(1)] f'(2) S(2) by (simp add: s2_def)
  next
    case (Some g)
    then have "f = g" "s1 = s" using f by simp_all
    then show ?thesis using timers_update [OF assms(1) Some _ f'(1)] f'(2) assms(2) by (simp add: s2_def)
  qed
  then have st: "timers (l3_timeoutEventList s1) s2" "due Now s1" "l3_fragmentExpirationTimeout s1 = l3_fragmentExpirationTimeout s" by simp_all
  have t: "timers (l3_timeoutEventList s2) s2" using st(1) by (simp add: s2_def)
  have d: "due Now s2" using st(2) by (simp add: s2_def due_def)
  have T: "l3_fragmentExpirationTimeout s2 = l3_fragmentExpirationTimeout s" using st(3) by (simp add: s2_def)
  have P: "ProcessFragment Now p h i s = (if IsEntire f' then do {
           packet \<leftarrow> GetPacket f';
           Some (True, packet, s1\<lparr>l3_timeoutEventList := filter (\<lambda>e. to_node e \<noteq> fr_timeoutIter f') (l3_timeoutEventList s1),
             l3_fragments := (l3_fragments s1)(key := None)\<rparr>) }
         else Some (False, p, s2))"
    unfolding ProcessFragment_def key_def [symmetric] Let_def [of key] f by (simp add: Let_def f'_def s2_def)
  define s3 where "s3 = s1\<lparr>l3_timeoutEventList := filter (\<lambda>e. to_node e \<noteq> fr_timeoutIter f') (l3_timeoutEventList s1),
     l3_fragments := (l3_fragments s1)(key := None)\<rparr>"
  have "l3_fragments s2 key = Some f'" by (simp add: s2_def)
  from timers_erase [OF t this] have t3: "timers (l3_timeoutEventList s3) s3" by (simp add: s2_def s3_def timers_def)
  have "sorted (map to_time (l3_timeoutEventList s2))" using t by (simp add: timers_def)
  from due_filter [OF d this, of "\<lambda>e. to_node e \<noteq> fr_timeoutIter f'"] have d3: "due Now s3" by (simp add: s2_def s3_def due_def)
  have T3: "l3_fragmentExpirationTimeout s3 = l3_fragmentExpirationTimeout s" using T by (simp add: s2_def s3_def)
  show ?thesis
  proof (cases "IsEntire f'")
    case True
    then have "s' = s3" using assms(3) P by (auto simp: s3_def split: bind_splits)
    then show ?thesis using t3 d3 T3 by simp
  next
    case False
    then have "s' = s2" using assms(3) P by simp
    then show ?thesis using t d T by simp
  qed
qed

lemma l3_reach_inv:
  assumes "l3_reach timeout c"
  shows "timers (l3_timeoutEventList (snd c)) (snd c) \<and> due (fst c) (snd c) \<and> l3_fragmentExpirationTimeout (snd c) = timeout"
  using assms
proof induction
  case l3_init
  show ?case by (simp add: Ipv4Reassembly_new_def timers_def due_def)
next
  case (l3_tick Now s t)
  have s: "sorted (map to_time (l3_timeoutEventList s))" using l3_tick by (simp add: timers_def)
  have "due t s"
  proof (cases "l3_timeoutEventList s")
    case (Cons e es)
    then obtain t0 where "t0 \<in> set (l3_pending s)" "t0 \<le> to_time e" using l3_tick by (auto simp: due_def)
    moreover have "x \<in> set (l3_timeoutEventList s) \<Longrightarrow> to_time e \<le> to_time x" for x using s Cons by auto
    moreover have "t \<le> t0" using l3_tick.hyps(3) \<open>t0 \<in> set (l3_pending s)\<close> by blast
    moreover have "x \<in> set (l3_timeoutEventList s) \<Longrightarrow> to_time x \<le> t + l3_fragmentExpirationTimeout s" for x
      using l3_tick.IH l3_tick.hyps(2) by (fastforce simp: due_def)
    ultimately show ?thesis using l3_tick.hyps(3) Cons unfolding due_def by (metis list.sel(1) order_trans)
  next
    case Nil
    then show ?thesis using l3_tick.hyps(3) by (simp add: due_def)
  qed
  then show ?case using l3_tick by simp
next
  case (l3_fragment Now s p h i b q s')
  then show ?case using ProcessFragment_timers [of s Now p h i b q s'] by simp
next
  case (l3_fire Now s s')
  then show ?case using HandleTimeout_inv [of s Now] by auto
qed

end
