(* ===== verification/Ipv4_Fragment_Claims.thy ===== *)
theory Ipv4_Fragment_Claims
  imports Ipv4_Reassembly_Timeout
begin

text \<open>
  End to end: a packet that routers cut, and cut again, comes out of \<^verbatim>\<open>LocalDeliver\<close> once, whole, when its last missing
  fragment arrives; and when \<^verbatim>\<open>DoFragmentation\<close> returns.
\<close>

lemma pieces_inner: "q \<in> set (butlast (pieces k p)) \<Longrightarrow> length q = k"
proof (induction k p rule: pieces.induct)
  case (1 k p)
  then show ?case by (subst (asm) (2) pieces.simps) (auto split: if_splits)
qed

lemma pieces_no_empty: "p \<noteq> [] \<Longrightarrow> q \<in> set (pieces k p) \<Longrightarrow> q \<noteq> []"
proof (induction k p rule: pieces.induct)
  case (1 k p)
  then show ?case by (subst (asm) (2) pieces.simps) (auto split: if_splits)
qed

type_synonym arrival = "nat \<times> u8 list \<times> Ipv4Header \<times> u32"

text \<open>Packets that reach \<^verbatim>\<open>LocalDeliver\<close> one after the other, and what each of them hands to its transport protocol.\<close>

fun arrive :: "arrival list \<Rightarrow> Ipv4Reassembly \<Rightarrow> ((FragmentKey \<times> u8 list option) list \<times> Ipv4Reassembly) option" where
  "arrive [] s = Some ([], s)"
| "arrive ((t, q, g, c) # as) s = do {
     (r, s) \<leftarrow> LocalDeliver t q g c s;
     (rs, s) \<leftarrow> arrive as s;
     Some ((fragment_key g, map_option fst r) # rs, s) }"

definition bytes_and_header :: "arrival \<Rightarrow> u8 list \<times> Ipv4Header" where
  "bytes_and_header a = (fst (snd a), fst (snd (snd a)))"

lemma LocalDeliver_total:
  "\<exists>r s'. LocalDeliver t p h i s = Some (r, s') \<and> (\<forall>k. k \<noteq> fragment_key h \<longrightarrow> l3_fragments s' k = l3_fragments s k)"
proof -
  obtain b q s' where P: "ProcessFragment t p h i s = Some (b, q, s')" "\<forall>k. k \<noteq> fragment_key h \<longrightarrow> l3_fragments s' k = l3_fragments s k"
    using ProcessFragment_total by blast
  show ?thesis
  proof (cases "\<not> IsLastFragment h \<or> ip_fragmentOffset h \<noteq> 0")
    case True
    then show ?thesis using P by (cases b) (simp_all add: LocalDeliver_def SetFragmentOffset_def)
  qed (simp add: LocalDeliver_def)
qed

lemma tracks_other:
  "tracks qs key js s \<Longrightarrow> key \<noteq> fragment_key h \<Longrightarrow> LocalDeliver t p h i s = Some (r, s') \<Longrightarrow> tracks qs key js s'"
  using LocalDeliver_total [of t p h i s] by (simp add: tracks_def del: split_paired_All)

lemma LocalDeliver_fragment:
  assumes "\<not> IsLastFragment g \<or> ip_fragmentOffset g \<noteq> 0"
  shows "ProcessFragment t q g c s = Some (False, q', s') \<Longrightarrow> LocalDeliver t q g c s = Some (None, s')"
    and "ProcessFragment t q g c s = Some (True, p, s') \<Longrightarrow>
      \<exists>hd'. LocalDeliver t q g c s = Some (Some (p, hd'), s') \<and> fragment_key hd' = fragment_key g \<and> ip_fragmentOffset hd' = 0 \<and>
        ip_payloadSize hd' = of_nat (length p)"
  using assms by (simp_all add: LocalDeliver_def SetFragmentOffset_def fragment_key_def payload_size_def cast16)

text \<open>A fragment of a packet in at least two pieces.\<close>

lemma fragment_is_partial:
  assumes "cut_at key True 0 fs" and "concat (map fst fs) = p" and "length p < 2 ^ 16" and "length fs > 1" and "i < length fs"
  shows "\<not> IsLastFragment (snd (fs ! i)) \<or> ip_fragmentOffset (snd (fs ! i)) \<noteq> 0"
proof (rule disjCI, rule ccontr)
  have ne: "fs \<noteq> []" using assms(4) by auto
  note c = cut_at_pieces [OF assms(1-3) ne] and n = cut_at_nth [OF assms(1,5)]
  assume "\<not> ip_fragmentOffset (snd (fs ! i)) \<noteq> 0" and "\<not> \<not> IsLastFragment (snd (fs ! i))"
  then have z: "(of_nat (start_of (map fst fs) i) :: u16) = of_nat (start_of (map fst fs) 0)" and i: "i = length fs - 1" using n by simp_all
  have "start_of (map fst fs) 0 < start_of (map fst fs) i" using start_of_less [OF c(1), of 0 i] assms(4) ne i by simp
  then show False using start_16 [OF c(1), of 0 i] z by simp
qed

lemma arrive_incomplete:
  assumes "cut_at key True 0 fs" and "concat (map fst fs) = p" and "length p < 2 ^ 16" and "length fs > 1"
    and "tracks (map fst fs) key js s" and "\<forall>a\<in>set as. fragment_key (snd (bytes_and_header a)) = key \<longrightarrow> bytes_and_header a \<in> set fs"
    and "m < length fs" and "m \<notin> set js" and "fs ! m \<notin> bytes_and_header ` set as"
  shows "\<exists>rs s' js'. arrive as s = Some (rs, s') \<and> (\<forall>r. (key, r) \<in> set rs \<longrightarrow> r = None) \<and> tracks (map fst fs) key js' s' \<and>
     set js' = set js \<union> {i. i < length fs \<and> fs ! i \<in> bytes_and_header ` set as}"
  using assms(5-9)
proof (induction as arbitrary: s js)
  case Nil
  then show ?case by auto
next
  case (Cons a as)
  obtain t q g c where a: "a = (t, q, g, c)" by (cases a)
  have ne: "fs \<noteq> []" using assms(4) by auto
  note cp = cut_at_pieces [OF assms(1-3) ne]
  show ?case
  proof (cases "fragment_key g = key")
    case False
    obtain r s1 where L: "LocalDeliver t q g c s = Some (r, s1)" using LocalDeliver_total by blast
    have "tracks (map fst fs) key js s1" using tracks_other [OF Cons.prems(1) _ L] False by simp
    then obtain rs s' js' where R: "arrive as s1 = Some (rs, s')" "\<forall>r. (key, r) \<in> set rs \<longrightarrow> r = None" "tracks (map fst fs) key js' s'"
       "set js' = set js \<union> {i. i < length fs \<and> fs ! i \<in> bytes_and_header ` set as}" using Cons.IH [of js s1] Cons.prems by auto
    have "bytes_and_header a \<notin> set fs"
      using False cut_at_nth [OF assms(1)] by (auto simp: a bytes_and_header_def in_set_conv_nth) (metis snd_conv)
    then have "{i. i < length fs \<and> fs ! i \<in> bytes_and_header ` set (a # as)} = {i. i < length fs \<and> fs ! i \<in> bytes_and_header ` set as}"
      by (auto simp: in_set_conv_nth)
    then show ?thesis using R L False a by auto
  next
    case True
    then have "bytes_and_header a \<in> set fs" using Cons.prems(2) by (simp add: a bytes_and_header_def)
    then obtain i where i: "i < length fs" "fs ! i = (q, g)" by (auto simp: in_set_conv_nth a bytes_and_header_def)
    have own: "{k. k < length fs \<and> fs ! k \<in> bytes_and_header ` set (a # as)} = insert i {k. k < length fs \<and> fs ! k \<in> bytes_and_header ` set as}"
    proof -
      have "fs ! k = (q, g) \<longleftrightarrow> k = i" if "k < length fs" for k using cut_at_index [OF assms(1-3) that i(1)] i(2) by auto
      then show ?thesis using i by (auto simp: a bytes_and_header_def)
    qed
    have mi: "m \<noteq> i" using Cons.prems(5) i(2) by (auto simp: a bytes_and_header_def)
    then have "m \<notin> set (put_index i js)" using Cons.prems(4) by simp
    then have "set (put_index i js) \<noteq> {..<length (map fst fs)}" using Cons.prems(3) by auto
    then obtain s1 where P: "ProcessFragment t q g c s = Some (False, q, s1)" "tracks (map fst fs) key (put_index i js) s1"
      using ProcessFragment_piece(2) [OF cp(1) Cons.prems(1) _ True, of i q t c] cp(2,3) [OF i(1)] i by auto
    have L: "LocalDeliver t q g c s = Some (None, s1)"
      using LocalDeliver_fragment(1) [OF _ P(1)] fragment_is_partial [OF assms(1-4) i(1)] i(2) by simp
    obtain rs s' js' where R: "arrive as s1 = Some (rs, s')" "\<forall>r. (key, r) \<in> set rs \<longrightarrow> r = None" "tracks (map fst fs) key js' s'"
       "set js' = set (put_index i js) \<union> {i. i < length fs \<and> fs ! i \<in> bytes_and_header ` set as}"
      using Cons.IH [OF P(2)] Cons.prems \<open>m \<notin> set (put_index i js)\<close> by auto
    show ?thesis unfolding own using R L True a by auto
  qed
qed

text \<open>
  C35: fragments make the packet they were cut from.  A packet is cut by routers, and its fragments again, any number of
  times and for any MTUs of at least 28 bytes.  Its fragments may reach \<^verbatim>\<open>LocalDeliver\<close> in any order, be duplicated, and
  alternate with fragments and packets of others.  Until its last missing fragment nothing of this packet is delivered;
  that fragment delivers the whole packet, under a header that says so, and leaves no state behind.
\<close>

theorem fragments_reassemble:
  assumes "p \<noteq> []" and "length p < 2 ^ 16" and "ip_headerSize h = 20" and "ip_fragmentOffset h = 0" and "IsLastFragment h"
    and "fragmented p h fs" and "length fs > 1" and "l3_fragments s (fragment_key h) = None"
    and "\<forall>a\<in>set as. fragment_key (snd (bytes_and_header a)) = fragment_key h \<longrightarrow> bytes_and_header a \<in> set fs"
    and "set fs - {(q, g)} \<subseteq> bytes_and_header ` set as" and "(q, g) \<in> set fs" and "(q, g) \<notin> bytes_and_header ` set as"
  shows "\<exists>rs s' hd' s''. arrive as s = Some (rs, s') \<and> (\<forall>r. (fragment_key h, r) \<in> set rs \<longrightarrow> r = None) \<and>
    LocalDeliver t q g c s' = Some (Some (p, hd'), s'') \<and>
    fragment_key hd' = fragment_key h \<and> ip_fragmentOffset hd' = 0 \<and> ip_payloadSize hd' = of_nat (length p) \<and>
    l3_fragments s'' (fragment_key h) = None"
proof -
  have c: "cut_at (fragment_key h) True 0 fs" "concat (map fst fs) = p" and ne: "fs \<noteq> []"
    using fragmented_cut_at [OF assms(6,1-5)] by simp_all
  note cp = cut_at_pieces [OF c assms(2) ne]
  obtain m where m: "m < length fs" "fs ! m = (q, g)" using assms(11) by (auto simp: in_set_conv_nth)
  have "tracks (map fst fs) (fragment_key h) [] s" using assms(8) by (simp add: tracks_def)
  from arrive_incomplete [OF c assms(2,7) this assms(9) m(1)] m(2) assms(12)
  obtain rs s' js where A: "arrive as s = Some (rs, s')" "\<forall>r. (fragment_key h, r) \<in> set rs \<longrightarrow> r = None"
    and T: "tracks (map fst fs) (fragment_key h) js s'" and js: "set js = {i. i < length fs \<and> fs ! i \<in> bytes_and_header ` set as}" by auto
  have all: "set (put_index m js) = {..<length (map fst fs)}"
  proof -
    have "fs ! i \<in> bytes_and_header ` set as" if i: "i < length fs" "i \<noteq> m" for i
    proof -
      have "fs ! i \<noteq> (q, g)" using cut_at_index [OF c assms(2) i(1) m(1)] i(2) m(2) by auto
      then have "fs ! i \<in> set fs - {(q, g)}" using i(1) by simp
      then show ?thesis using assms(10) by blast
    qed
    then show ?thesis unfolding set_put_index js using m(1) by auto
  qed
  have k: "fragment_key g = fragment_key h" using cut_at_nth [OF c(1) m(1)] m(2) by simp
  obtain s'' where P: "ProcessFragment t q g c s' = Some (True, p, s'')" "l3_fragments s'' (fragment_key h) = None"
    using ProcessFragment_piece(1) [OF cp(1) T _ k _ _ all, of q t c] cp(2,3) [OF m(1)] m c(2) by auto
  have "\<not> IsLastFragment g \<or> ip_fragmentOffset g \<noteq> 0" using fragment_is_partial [OF c assms(2,7) m(1)] m(2) by simp
  from LocalDeliver_fragment(2) [OF this P(1)] show ?thesis using A P(2) k by auto
qed


text \<open>
  C37: what the interface is given.  Every fragment fits the MTU with its header, all but the last carry a multiple of
  eight bytes, none is empty, and together they are the packet.
\<close>

theorem fragments_fit:
  assumes "p \<noteq> []" and "unat (ip_fragmentOffset h) + length p < 2 ^ 16" and "8 dvd unat (ip_fragmentOffset h)" and "ip_headerSize h = 20"
    and "28 \<le> mtu"
  shows "\<exists>fs. DoFragmentation ck p h mtu = Some fs \<and> concat (map fst fs) = p \<and>
    (\<forall>f\<in>set fs. fst f \<noteq> [] \<and> 20 + length (fst f) \<le> unat mtu) \<and> (\<forall>f\<in>set (butlast fs). 8 dvd length (fst f))"
proof -
  define k where "k = fragment_room mtu"
  have m: "28 \<le> unat mtu" using assms(5) by (simp add: word_le_nat_alt)
  have k: "0 < k" "8 dvd k" "20 + k \<le> unat mtu" using m by (auto simp: k_def fragment_room_def)
  define fs where "fs = with_headers ck h (unat (ip_fragmentOffset h)) (pieces k p)"
  have "DoFragmentation ck p h mtu = Some fs" unfolding fs_def k_def by (rule DoFragmentation_eq [OF assms(4,2,3,5)])
  moreover have q: "map fst fs = pieces k p" by (simp add: fs_def)
  moreover have "f \<in> set fs \<Longrightarrow> fst f \<in> set (pieces k p)" for f using q by (metis image_eqI set_map)
  moreover have "f \<in> set (butlast fs) \<Longrightarrow> fst f \<in> set (butlast (pieces k p))" for f using q by (metis image_eqI map_butlast set_map)
  ultimately show ?thesis using pieces_length [OF k(1), of _ p] pieces_inner [of _ k p] pieces_no_empty [OF assms(1), of _ k] k
    by (intro exI [of _ fs] conjI ballI) (fastforce | force)+
qed

text \<open>
  C38: reassembly is bounded in time and its timers never fail.  In every reachable state each incomplete packet has one
  timer, which is neither overdue nor further away than the expiration timeout, an event no later than that timer is
  scheduled, and an event that comes up runs through and leaves only timers that are still to come.
\<close>

theorem fragments_expire:
  assumes "l3_reach timeout (Now, s)"
  shows "(\<forall>key\<in>dom (l3_fragments s). \<exists>!e. e \<in> set (l3_timeoutEventList s) \<and> to_key e = key) \<and>
    (\<forall>e\<in>set (l3_timeoutEventList s). Now \<le> to_time e \<and> to_time e \<le> Now + timeout \<and>
       (\<exists>t\<in>set (l3_pending s). Now \<le> t \<and> t \<le> to_time e)) \<and>
    (\<exists>s'. HandleTimeout Now (s\<lparr>l3_pending := remove1 Now (l3_pending s)\<rparr>) = Some s' \<and>
       dom (l3_fragments s') \<subseteq> dom (l3_fragments s) \<and> (\<forall>e\<in>set (l3_timeoutEventList s'). Now < to_time e))"
proof -
  from l3_reach_inv [OF assms] have t: "timers (l3_timeoutEventList s) s" and d: "due Now s" and T: "l3_fragmentExpirationTimeout s = timeout"
    by simp_all
  define L where "L = l3_timeoutEventList s"
  have key: "\<forall>key\<in>dom (l3_fragments s). \<exists>!e. e \<in> set L \<and> to_key e = key"
  proof
    fix key assume "key \<in> dom (l3_fragments s)"
    then obtain e where e: "e \<in> set L" "to_key e = key" using t by (auto simp: timers_def L_def)
    have "inj_on to_key (set L)" using t by (simp add: timers_def distinct_map L_def)
    then show "\<exists>!e. e \<in> set L \<and> to_key e = key" using e by (intro ex1I [of _ e]) (auto dest: inj_onD)
  qed
  have pend: "\<forall>e\<in>set L. Now \<le> to_time e \<and> to_time e \<le> Now + timeout \<and> (\<exists>t\<in>set (l3_pending s). Now \<le> t \<and> t \<le> to_time e)"
  proof
    fix e assume e: "e \<in> set L"
    then have "L \<noteq> []" by auto
    then obtain p where p: "p \<in> set (l3_pending s)" "Now \<le> p" "p \<le> to_time (hd L)" using d by (auto simp: due_def L_def)
    have "to_time (hd L) \<le> to_time e" using t e by (cases L) (auto simp: timers_def L_def [symmetric])
    then show "Now \<le> to_time e \<and> to_time e \<le> Now + timeout \<and> (\<exists>t\<in>set (l3_pending s). Now \<le> t \<and> t \<le> to_time e)"
      using p d e T by (auto simp: due_def L_def intro: order_trans)
  qed
  show ?thesis using key pend HandleTimeout_inv [OF t d] unfolding L_def by blast
qed

section \<open>The properties at work\<close>

definition sample_header :: Ipv4Header where
  "sample_header = Ipv4Header_new\<lparr>ip_identification := 7, ip_protocol := 17\<rparr>"

definition sample_packet :: "u8 list" where
  "sample_packet = [1, 2, 3, 4, 5, 6, 7, 8, 9]"

definition sample_fragments :: "(u8 list \<times> Ipv4Header) list" where
  "sample_fragments = with_headers False sample_header 0 [[1, 2, 3, 4, 5, 6, 7, 8], [9]]"

lemma sample_pieces: "pieces (fragment_room 28) sample_packet = [[1, 2, 3, 4, 5, 6, 7, 8], [9]]"
  by (simp add: sample_packet_def fragment_room_def pieces.simps)

lemma sample_cut: "fragmented sample_packet sample_header sample_fragments"
proof -
  have "DoFragmentation False sample_packet sample_header 28 = Some sample_fragments"
    unfolding sample_fragments_def sample_pieces [symmetric]
    by (subst DoFragmentation_eq) (simp_all add: sample_header_def Ipv4Header_new_def sample_packet_def)
  from fragmented_cut [of sample_packet sample_header "[]" sample_packet sample_header "[]", OF _ _ this] show ?thesis
    by (simp add: fragmented_start)
qed

abbreviation sample_first :: "u8 list \<times> Ipv4Header" where
  "sample_first \<equiv> ([1, 2, 3, 4, 5, 6, 7, 8], header_at False sample_header 0 8 True)"

abbreviation sample_last :: "u8 list \<times> Ipv4Header" where
  "sample_last \<equiv> ([9], header_at False sample_header 8 1 False)"

lemma sample_fragments_eq: "sample_fragments = [sample_first, sample_last]"
  by (simp add: sample_fragments_def eval_nat_numeral)

lemma sample_header_facts: "ip_headerSize sample_header = 20" "ip_fragmentOffset sample_header = 0" "IsLastFragment sample_header"
  by (simp_all add: sample_header_def Ipv4Header_new_def IsLastFragment_def)

lemma fragments_reassemble_witness:
  "\<exists>rs s' hd' s''. arrive [(0, fst sample_last, snd sample_last, 0), (1, fst sample_last, snd sample_last, 0)] (Ipv4Reassembly_new 30) = Some (rs, s') \<and>
    (\<forall>r. (fragment_key sample_header, r) \<in> set rs \<longrightarrow> r = None) \<and>
    LocalDeliver 2 (fst sample_first) (snd sample_first) 0 s' = Some (Some (sample_packet, hd'), s'') \<and>
    fragment_key hd' = fragment_key sample_header \<and> ip_fragmentOffset hd' = 0 \<and> ip_payloadSize hd' = of_nat (length sample_packet) \<and>
    l3_fragments s'' (fragment_key sample_header) = None"
  by (rule fragments_reassemble [OF _ _ sample_header_facts sample_cut])
    (simp_all add: sample_packet_def sample_fragments_eq Ipv4Reassembly_new_def bytes_and_header_def)


lemma fragments_fit_witness:
  "\<exists>fs. DoFragmentation True sample_packet sample_header 28 = Some fs \<and> concat (map fst fs) = sample_packet \<and>
    (\<forall>f\<in>set fs. fst f \<noteq> [] \<and> 20 + length (fst f) \<le> unat (28 :: u32)) \<and> (\<forall>f\<in>set (butlast fs). 8 dvd length (fst f))"
  by (rule fragments_fit) (simp_all add: sample_header_facts sample_packet_def)

lemma fragments_expire_witness:
  "\<exists>s. l3_reach 30 (0, s) \<and> fragment_key sample_header \<in> dom (l3_fragments s) \<and>
    (\<exists>!e. e \<in> set (l3_timeoutEventList s) \<and> to_key e = fragment_key sample_header)"
proof -
  have c: "cut_at (fragment_key sample_header) True 0 sample_fragments" "concat (map fst sample_fragments) = sample_packet" "sample_fragments \<noteq> []"
    using fragmented_cut_at [OF sample_cut _ _ sample_header_facts] by (simp_all add: sample_packet_def)
  have "length sample_packet < 2 ^ 16" by (simp add: sample_packet_def)
  note p = cut_at_pieces [OF c(1,2) this c(3)]
  have "tracks (map fst sample_fragments) (fragment_key sample_header) [] (Ipv4Reassembly_new 30)"
    by (simp add: tracks_def Ipv4Reassembly_new_def)
  moreover have "set (put_index 0 []) \<noteq> {..<length (map fst sample_fragments)}"
  proof -
    have "Suc 0 \<in> {..<length (map fst sample_fragments)}" by (simp add: sample_fragments_eq)
    moreover have "Suc 0 \<notin> set (put_index 0 [])" by simp
    ultimately show ?thesis by blast
  qed
  ultimately obtain s' where P: "ProcessFragment 0 (fst sample_first) (snd sample_first) 0 (Ipv4Reassembly_new 30) = Some (False, fst sample_first, s')"
    "tracks (map fst sample_fragments) (fragment_key sample_header) (put_index 0 []) s'"
    using ProcessFragment_piece(2) [OF p(1), of "fragment_key sample_header" "[]" "Ipv4Reassembly_new 30" 0 "snd sample_first" "fst sample_first" 0 0]
      p(2) [of 0] p(3) [of 0] by (auto simp: sample_fragments_eq)
  have r: "l3_reach 30 (0, s')" by (rule l3_fragment [OF l3_init P(1)])
  have "fragment_key sample_header \<in> dom (l3_fragments s')" using P(2) by (auto simp: tracks_def put_index_def split: option.splits)
  then show ?thesis using fragments_expire [OF r] r by blast
qed

end
