(* ===== verification/Arp_Cache.thy ===== *)
theory Arp_Cache
  imports Ipv4_Header Ip_Headers Ipv4_Address "HOL-Library.Monad_Syntax"
begin

text \<open>
  Address resolution of ns-3: \<^verbatim>\<open>arp-cache.cc\<close>, \<^verbatim>\<open>arp-l3-protocol.cc\<close>, and what calls it in \<^verbatim>\<open>ipv4-interface.cc\<close>.  The cache
  is a list sorted by address, as a \<^verbatim>\<open>std::map\<close> is traversed; an entry is pointed to by its address.  Times are \<open>nat\<close> and
  do not exceed \<^verbatim>\<open>Time::Max\<close>.  \<open>None\<close> is an assertion that fails or the fatal error of \<^verbatim>\<open>Lookup\<close>.
\<close>

section \<open>Interface addresses\<close>

datatype InterfaceAddressScope_e = HOST | LINK | GLOBAL

fun scope_rank :: "InterfaceAddressScope_e \<Rightarrow> nat" where
  "scope_rank HOST = 0"
| "scope_rank LINK = 1"
| "scope_rank GLOBAL = 2"

instantiation InterfaceAddressScope_e :: linorder
begin

definition less_eq_InterfaceAddressScope_e :: "InterfaceAddressScope_e \<Rightarrow> InterfaceAddressScope_e \<Rightarrow> bool" where
  "less_eq_InterfaceAddressScope_e a b \<longleftrightarrow> scope_rank a \<le> scope_rank b"

definition less_InterfaceAddressScope_e :: "InterfaceAddressScope_e \<Rightarrow> InterfaceAddressScope_e \<Rightarrow> bool" where
  "less_InterfaceAddressScope_e a b \<longleftrightarrow> scope_rank a < scope_rank b"

instance
proof
  fix a b :: InterfaceAddressScope_e
  show "a \<le> b \<Longrightarrow> b \<le> a \<Longrightarrow> a = b" by (cases a; cases b) (simp_all add: less_eq_InterfaceAddressScope_e_def)
qed (auto simp: less_eq_InterfaceAddressScope_e_def less_InterfaceAddressScope_e_def)

end

record Ipv4InterfaceAddress =
  ia_local :: Ipv4Address
  ia_mask :: u32
  ia_broadcast :: Ipv4Address
  ia_scope :: InterfaceAddressScope_e
  ia_secondary :: bool

definition Ipv4InterfaceAddress_of :: "Ipv4Address \<Rightarrow> u32 \<Rightarrow> Ipv4InterfaceAddress" where
  "Ipv4InterfaceAddress_of local msk =
     \<lparr>ia_local = local, ia_mask = msk, ia_broadcast = local OR NOT msk,
      ia_scope = (if Ipv4Address_IsLocalhost local then HOST else GLOBAL), ia_secondary = False\<rparr>"

definition IsInSameSubnet :: "Ipv4InterfaceAddress \<Rightarrow> Ipv4Address \<Rightarrow> bool" where
  "IsInSameSubnet a b \<longleftrightarrow>
     Ipv4Address_CombineMask (ia_local a) (ia_mask a) = Ipv4Address_CombineMask b (ia_mask a)"

text \<open>\<^verbatim>\<open>SelectSourceAddress\<close>: \<open>device\<close> holds the addresses of the interface of the device, if one is given; \<open>ifs\<close> those of all.\<close>

fun select_on_device :: "Ipv4Address \<Rightarrow> InterfaceAddressScope_e \<Rightarrow> Ipv4Address option \<Rightarrow> Ipv4InterfaceAddress list \<Rightarrow> Ipv4Address option" where
  "select_on_device dst scope addr [] = addr"
| "select_on_device dst scope addr (iaddr # iaddrs) =
     (if ia_secondary iaddr then select_on_device dst scope addr iaddrs
      else if ia_scope iaddr > scope then select_on_device dst scope addr iaddrs
      else if Ipv4Address_CombineMask dst (ia_mask iaddr) = Ipv4Address_CombineMask (ia_local iaddr) (ia_mask iaddr)
           then Some (ia_local iaddr)
      else select_on_device dst scope (if addr = None then Some (ia_local iaddr) else addr) iaddrs)"

definition SelectSourceAddress ::
  "Ipv4InterfaceAddress list option \<Rightarrow> Ipv4InterfaceAddress list list \<Rightarrow> Ipv4Address \<Rightarrow> InterfaceAddressScope_e \<Rightarrow> Ipv4Address" where
  "SelectSourceAddress device ifs dst scope =
     (case (case device of None \<Rightarrow> None | Some iaddrs \<Rightarrow> select_on_device dst scope None iaddrs) of
        Some addr \<Rightarrow> addr
      | None \<Rightarrow> (case find (\<lambda>iaddr. \<not> ia_secondary iaddr \<and> ia_scope iaddr \<noteq> LINK \<and> ia_scope iaddr \<le> scope) (concat ifs) of
          Some iaddr \<Rightarrow> ia_local iaddr
        | None \<Rightarrow> 0))"

section \<open>Entries\<close>

type_synonym Datagram = "u8 list \<times> Ipv4Header"

datatype ArpCacheEntryState_e = ALIVE | WAIT_REPLY | DEAD | PERMANENT | STATIC_AUTOGENERATED

record CacheEntry =
  ce_state :: ArpCacheEntryState_e
  ce_lastSeen :: nat
  ce_macAddress :: Address
  ce_ipv4Address :: Ipv4Address
  ce_pending :: "Datagram list"
  ce_retries :: u32

record ArpCache =
  ac_entries :: "(Ipv4Address \<times> CacheEntry) list"
  ac_waitReplyTimer :: "nat option"
  ac_aliveTimeout :: nat
  ac_deadTimeout :: nat
  ac_waitReplyTimeout :: nat
  ac_maxRetries :: u32
  ac_pendingQueueSize :: u32

definition TIME_MAX :: nat where
  "TIME_MAX = 2 ^ 63 - 1"

definition Entry_new :: CacheEntry where
  "Entry_new = \<lparr>ce_state = ALIVE, ce_lastSeen = 0, ce_macAddress = \<lparr>a_type = 0, a_data = []\<rparr>, ce_ipv4Address = 0x66666666,
     ce_pending = [], ce_retries = 0\<rparr>"

definition UpdateSeen :: "nat \<Rightarrow> CacheEntry \<Rightarrow> CacheEntry" where
  "UpdateSeen Now e = e\<lparr>ce_lastSeen := Now\<rparr>"

definition ClearRetries :: "CacheEntry \<Rightarrow> CacheEntry" where
  "ClearRetries e = e\<lparr>ce_retries := 0\<rparr>"

definition IncrementRetries :: "nat \<Rightarrow> CacheEntry \<Rightarrow> CacheEntry" where
  "IncrementRetries Now e = UpdateSeen Now (e\<lparr>ce_retries := ce_retries e + 1\<rparr>)"

definition MarkDead :: "nat \<Rightarrow> CacheEntry \<Rightarrow> CacheEntry option" where
  "MarkDead Now e =
     (if \<not> (ce_state e = ALIVE \<or> ce_state e = WAIT_REPLY \<or> ce_state e = DEAD) then None
      else Some (UpdateSeen Now (ClearRetries (e\<lparr>ce_state := DEAD\<rparr>))))"

definition MarkAlive :: "nat \<Rightarrow> Address \<Rightarrow> CacheEntry \<Rightarrow> CacheEntry option" where
  "MarkAlive Now macAddress e =
     (if ce_state e \<noteq> WAIT_REPLY then None
      else Some (UpdateSeen Now (ClearRetries (e\<lparr>ce_macAddress := macAddress, ce_state := ALIVE\<rparr>))))"

definition MarkPermanent :: "nat \<Rightarrow> CacheEntry \<Rightarrow> CacheEntry option" where
  "MarkPermanent Now e =
     (if IsInvalid (ce_macAddress e) then None else Some (UpdateSeen Now (ClearRetries (e\<lparr>ce_state := PERMANENT\<rparr>))))"

definition MarkAutoGenerated :: "nat \<Rightarrow> CacheEntry \<Rightarrow> CacheEntry option" where
  "MarkAutoGenerated Now e =
     (if IsInvalid (ce_macAddress e) then None
      else Some (UpdateSeen Now (ClearRetries (e\<lparr>ce_state := STATIC_AUTOGENERATED\<rparr>))))"

definition UpdateWaitReply :: "u32 \<Rightarrow> Datagram \<Rightarrow> CacheEntry \<Rightarrow> (bool \<times> CacheEntry) option" where
  "UpdateWaitReply pendingQueueSize waiting e =
     (if ce_state e \<noteq> WAIT_REPLY then None
      else if length (ce_pending e) \<ge> unat pendingQueueSize then Some (False, e)
      else Some (True, e\<lparr>ce_pending := ce_pending e @ [waiting]\<rparr>))"

text \<open>\<^verbatim>\<open>MarkWaitReply\<close> but for the start of the timer.\<close>

definition Entry_MarkWaitReply :: "nat \<Rightarrow> Datagram \<Rightarrow> CacheEntry \<Rightarrow> CacheEntry option" where
  "Entry_MarkWaitReply Now waiting e =
     (if \<not> (ce_state e = ALIVE \<or> ce_state e = DEAD) \<or> ce_pending e \<noteq> [] then None
      else Some (UpdateSeen Now (e\<lparr>ce_state := WAIT_REPLY, ce_pending := ce_pending e @ [waiting]\<rparr>)))"

definition DequeuePending :: "CacheEntry \<Rightarrow> Datagram option \<times> CacheEntry" where
  "DequeuePending e = (case ce_pending e of [] \<Rightarrow> (None, e) | p # ps \<Rightarrow> (Some p, e\<lparr>ce_pending := ps\<rparr>))"

definition GetTimeout :: "ArpCache \<Rightarrow> CacheEntry \<Rightarrow> nat" where
  "GetTimeout c e =
     (case ce_state e of
        WAIT_REPLY \<Rightarrow> ac_waitReplyTimeout c
      | DEAD \<Rightarrow> ac_deadTimeout c
      | ALIVE \<Rightarrow> ac_aliveTimeout c
      | PERMANENT \<Rightarrow> TIME_MAX
      | STATIC_AUTOGENERATED \<Rightarrow> TIME_MAX)"

definition Entry_IsExpired :: "nat \<Rightarrow> ArpCache \<Rightarrow> CacheEntry \<Rightarrow> bool" where
  "Entry_IsExpired Now c e \<longleftrightarrow> Now - ce_lastSeen e > GetTimeout c e"

section \<open>The cache\<close>

definition ArpCache_init :: "nat \<Rightarrow> nat \<Rightarrow> nat \<Rightarrow> u32 \<Rightarrow> u32 \<Rightarrow> ArpCache" where
  "ArpCache_init aliveTimeout deadTimeout waitReplyTimeout maxRetries pendingQueueSize =
     \<lparr>ac_entries = [], ac_waitReplyTimer = None, ac_aliveTimeout = aliveTimeout, ac_deadTimeout = deadTimeout,
      ac_waitReplyTimeout = waitReplyTimeout, ac_maxRetries = maxRetries, ac_pendingQueueSize = pendingQueueSize\<rparr>"

definition ArpCache_Lookup :: "Ipv4Address \<Rightarrow> ArpCache \<Rightarrow> CacheEntry option" where
  "ArpCache_Lookup to c = map_of (ac_entries c) to"

text \<open>A write through the pointer to an entry of the cache.\<close>

definition write_entry :: "Ipv4Address \<Rightarrow> CacheEntry \<Rightarrow> ArpCache \<Rightarrow> ArpCache" where
  "write_entry to e c = c\<lparr>ac_entries := map (\<lambda>(k, x). (k, if k = to then e else x)) (ac_entries c)\<rparr>"

definition ArpCache_Add :: "Ipv4Address \<Rightarrow> ArpCache \<Rightarrow> ArpCache option" where
  "ArpCache_Add to c =
     (if map_of (ac_entries c) to \<noteq> None then None
      else Some (c\<lparr>ac_entries := insort_key fst (to, Entry_new\<lparr>ce_ipv4Address := to\<rparr>) (ac_entries c)\<rparr>))"

definition ArpCache_Remove :: "Ipv4Address \<Rightarrow> ArpCache \<Rightarrow> ArpCache" where
  "ArpCache_Remove to c = c\<lparr>ac_entries := filter (\<lambda>(k, e). k \<noteq> to) (ac_entries c)\<rparr>"

definition RemoveAutoGeneratedEntries :: "ArpCache \<Rightarrow> ArpCache" where
  "RemoveAutoGeneratedEntries c = c\<lparr>ac_entries := filter (\<lambda>(k, e). ce_state e \<noteq> STATIC_AUTOGENERATED) (ac_entries c)\<rparr>"

definition LookupInverse :: "Address \<Rightarrow> ArpCache \<Rightarrow> CacheEntry list" where
  "LookupInverse to c = filter (\<lambda>e. Address_eq (ce_macAddress e) to) (map snd (ac_entries c))"

definition ArpCache_Flush :: "ArpCache \<Rightarrow> ArpCache" where
  "ArpCache_Flush c = c\<lparr>ac_entries := [], ac_waitReplyTimer := None\<rparr>"

definition SetWaitReplyTimeout :: "nat \<Rightarrow> ArpCache \<Rightarrow> ArpCache" where
  "SetWaitReplyTimeout waitReplyTimeout c = c\<lparr>ac_waitReplyTimeout := waitReplyTimeout\<rparr>"

definition StartWaitReplyTimer :: "nat \<Rightarrow> ArpCache \<Rightarrow> ArpCache" where
  "StartWaitReplyTimer Now c =
     (if ac_waitReplyTimer c = None then c\<lparr>ac_waitReplyTimer := Some (Now + ac_waitReplyTimeout c)\<rparr> else c)"

definition MarkWaitReply :: "nat \<Rightarrow> Ipv4Address \<Rightarrow> Datagram \<Rightarrow> ArpCache \<Rightarrow> ArpCache option" where
  "MarkWaitReply Now to waiting c = do {
     entry \<leftarrow> ArpCache_Lookup to c;
     entry \<leftarrow> Entry_MarkWaitReply Now waiting entry;
     Some (StartWaitReplyTimer Now (write_entry to entry c)) }"

section \<open>Interfaces and what leaves them\<close>

record Ipv4Interface =
  if_ifup :: bool
  if_loopback :: bool
  if_ifaddrs :: "Ipv4InterfaceAddress list"
  if_NeedsArp :: bool
  if_address :: Address
  if_broadcast :: Address
  if_IsMulticast :: bool
  if_GetMulticast :: "Ipv4Address \<Rightarrow> Address"
  if_all :: "Ipv4InterfaceAddress list list"

text \<open>
  Calls out of the module: packets given to the loopback device, to this host, or to traffic control with a hardware
  address; ARP headers given to traffic control; packets reported as dropped by the cache and by the protocol; a received
  ARP packet reported as dropped; a request put into the schedule.
\<close>

datatype ArpOutput =
    LoopbackSend Datagram
  | LocalReceive Datagram
  | TcSend Datagram Address
  | TcSendArp Address ArpHeader
  | CacheDrop Datagram
  | ProtocolDrop Datagram
  | ReceivedDrop ArpHeader
  | ScheduleRequest nat Ipv4Address

definition arp_header_new :: ArpHeader where
  "arp_header_new = \<lparr>arp_type = 0, arp_macSource = \<lparr>a_type = 0, a_data = []\<rparr>, arp_macDest = \<lparr>a_type = 0, a_data = []\<rparr>,
     arp_ipv4Source = 0x66666666, arp_ipv4Dest = 0x66666666\<rparr>"

definition SendArpRequest :: "Ipv4Interface \<Rightarrow> Ipv4Address \<Rightarrow> ArpOutput" where
  "SendArpRequest iface to =
     (let source = SelectSourceAddress (Some (if_ifaddrs iface)) (if_all iface) to GLOBAL;
          arp = SetRequest (if_address iface) source (if_broadcast iface) to arp_header_new
      in TcSendArp (if_broadcast iface) arp)"

definition SendArpReply :: "Ipv4Interface \<Rightarrow> Ipv4Address \<Rightarrow> Ipv4Address \<Rightarrow> Address \<Rightarrow> ArpOutput" where
  "SendArpReply iface myIp toIp toMac = TcSendArp toMac (SetReply (if_address iface) myIp toMac toIp arp_header_new)"

text \<open>The loop of \<^verbatim>\<open>HandleWaitReplyTimeout\<close>: the entries, the calls, and whether the timer is needed again.\<close>

fun wait_reply_loop ::
  "nat \<Rightarrow> Ipv4Interface \<Rightarrow> u32 \<Rightarrow> (Ipv4Address \<times> CacheEntry) list \<Rightarrow> ((Ipv4Address \<times> CacheEntry) list \<times> ArpOutput list \<times> bool) option" where
  "wait_reply_loop Now iface maxRetries [] = Some ([], [], False)"
| "wait_reply_loop Now iface maxRetries ((k, entry) # entries) = do {
     (entry, out, restart) \<leftarrow>
       (if ce_state entry = WAIT_REPLY then
          (if ce_retries entry < maxRetries
           then Some (IncrementRetries Now entry, [SendArpRequest iface (ce_ipv4Address entry)], True)
           else do {
             entry \<leftarrow> MarkDead Now entry;
             let entry = ClearRetries entry;
             Some (entry\<lparr>ce_pending := []\<rparr>, map CacheDrop (ce_pending entry), False) })
        else Some (entry, [], False));
     (entries, outs, restarts) \<leftarrow> wait_reply_loop Now iface maxRetries entries;
     Some ((k, entry) # entries, out @ outs, restart \<or> restarts) }"

definition HandleWaitReplyTimeout :: "nat \<Rightarrow> Ipv4Interface \<Rightarrow> ArpCache \<Rightarrow> (ArpCache \<times> ArpOutput list) option" where
  "HandleWaitReplyTimeout Now iface c = do {
     (entries, out, restartWaitReplyTimer) \<leftarrow> wait_reply_loop Now iface (ac_maxRetries c) (ac_entries c);
     Some (c\<lparr>ac_entries := entries,
       ac_waitReplyTimer := (if restartWaitReplyTimer then Some (Now + ac_waitReplyTimeout c) else None)\<rparr>, out) }"

section \<open>The protocol\<close>

text \<open>\<open>jitter\<close> is the value drawn from \<^verbatim>\<open>m_requestJitter\<close>.  The result is the hardware address, if \<^verbatim>\<open>Lookup\<close> returns true.\<close>

definition ArpL3_Lookup ::
  "nat \<Rightarrow> nat \<Rightarrow> Datagram \<Rightarrow> Ipv4Address \<Rightarrow> ArpCache \<Rightarrow> (Address option \<times> ArpCache \<times> ArpOutput list) option" where
  "ArpL3_Lookup Now jitter packet destination cache =
     (case ArpCache_Lookup destination cache of
        Some entry \<Rightarrow>
          (if Entry_IsExpired Now cache entry then
             (if ce_state entry = DEAD \<or> ce_state entry = ALIVE then do {
                cache \<leftarrow> MarkWaitReply Now destination packet cache;
                Some (None, cache, [ScheduleRequest (Now + jitter) destination]) }
              else None)
           else case ce_state entry of
             DEAD \<Rightarrow> Some (None, cache, [ProtocolDrop packet])
           | ALIVE \<Rightarrow> Some (Some (ce_macAddress entry), cache, [])
           | WAIT_REPLY \<Rightarrow> do {
               (added, entry) \<leftarrow> UpdateWaitReply (ac_pendingQueueSize cache) packet entry;
               Some (None, write_entry destination entry cache, if added then [] else [ProtocolDrop packet]) }
           | PERMANENT \<Rightarrow> Some (Some (ce_macAddress entry), cache, [])
           | STATIC_AUTOGENERATED \<Rightarrow> Some (Some (ce_macAddress entry), cache, []))
      | None \<Rightarrow> do {
          cache \<leftarrow> ArpCache_Add destination cache;
          cache \<leftarrow> MarkWaitReply Now destination packet cache;
          Some (None, cache, [ScheduleRequest (Now + jitter) destination]) })"

text \<open>\<^verbatim>\<open>Ipv4Interface::Send\<close>.\<close>

definition Ipv4Interface_Send ::
  "nat \<Rightarrow> nat \<Rightarrow> Ipv4Interface \<Rightarrow> Datagram \<Rightarrow> Ipv4Address \<Rightarrow> ArpCache \<Rightarrow> (ArpCache \<times> ArpOutput list) option" where
  "Ipv4Interface_Send Now jitter iface p dest cache =
     (if \<not> if_ifup iface then Some (cache, [])
      else if if_loopback iface then Some (cache, [LoopbackSend p])
      else if dest \<in> ia_local ` set (if_ifaddrs iface) then Some (cache, [LocalReceive p])
      else if if_NeedsArp iface then
        (if Ipv4Address_IsBroadcast dest then Some (cache, [TcSend p (if_broadcast iface)])
         else if Ipv4Address_IsMulticast dest then
           (if \<not> if_IsMulticast iface then None else Some (cache, [TcSend p (if_GetMulticast iface dest)]))
         else if \<exists>i\<in>set (if_ifaddrs iface). Ipv4Address_IsSubnetDirectedBroadcast dest (ia_mask i)
              then Some (cache, [TcSend p (if_broadcast iface)])
         else do {
           (found, cache, out) \<leftarrow> ArpL3_Lookup Now jitter p dest cache;
           Some (cache, out @ (case found of Some hardwareDestination \<Rightarrow> [TcSend p hardwareDestination] | None \<Rightarrow> [])) })
      else Some (cache, [TcSend p (if_broadcast iface)]))"

text \<open>The loop of \<^verbatim>\<open>Receive\<close> that sends the packets that waited; it goes on while the entry has one.\<close>

partial_function (option) send_pending ::
  "nat \<Rightarrow> nat \<Rightarrow> Ipv4Interface \<Rightarrow> Ipv4Address \<Rightarrow> ArpCache \<Rightarrow> (ArpCache \<times> ArpOutput list) option" where
  "send_pending Now jitter iface source cache = do {
     entry \<leftarrow> ArpCache_Lookup source cache;
     (case DequeuePending entry of
        (None, entry) \<Rightarrow> Some (cache, [])
      | (Some pending, entry) \<Rightarrow> do {
          (cache, out) \<leftarrow> Ipv4Interface_Send Now jitter iface pending source (write_entry source entry cache);
          (cache, outs) \<leftarrow> send_pending Now jitter iface source cache;
          Some (cache, out @ outs) }) }"

fun arp_receive_loop ::
  "nat \<Rightarrow> nat \<Rightarrow> Ipv4Interface \<Rightarrow> ArpHeader \<Rightarrow> Ipv4InterfaceAddress list \<Rightarrow> ArpCache \<Rightarrow> (ArpCache \<times> ArpOutput list) option" where
  "arp_receive_loop Now jitter iface arp [] cache = Some (cache, [])"
| "arp_receive_loop Now jitter iface arp (a # as) cache =
     (if IsRequest arp \<and> arp_ipv4Dest arp = ia_local a
      then Some (cache, [SendArpReply iface (arp_ipv4Dest arp) (arp_ipv4Source arp) (arp_macSource arp)])
      else if IsReply arp \<and> arp_ipv4Dest arp = ia_local a \<and> Address_eq (arp_macDest arp) (if_address iface)
      then (case ArpCache_Lookup (arp_ipv4Source arp) cache of
          None \<Rightarrow> Some (cache, [ReceivedDrop arp])
        | Some entry \<Rightarrow>
            (if ce_state entry = WAIT_REPLY then do {
               entry \<leftarrow> MarkAlive Now (arp_macSource arp) entry;
               send_pending Now jitter iface (arp_ipv4Source arp) (write_entry (arp_ipv4Source arp) entry cache) }
             else Some (cache, [ReceivedDrop arp])))
      else arp_receive_loop Now jitter iface arp as cache)"

definition ArpL3_Receive ::
  "nat \<Rightarrow> nat \<Rightarrow> Ipv4Interface \<Rightarrow> u8 list \<Rightarrow> ArpCache \<Rightarrow> (ArpCache \<times> ArpOutput list) option" where
  "ArpL3_Receive Now jitter iface p cache = do {
     (arp, size', packet) \<leftarrow> RemoveHeader ArpHeader_Deserialize arp_header_new \<lparr>m_buffer = p\<rparr>;
     if size' = 0 then Some (cache, []) else arp_receive_loop Now jitter iface arp (if_ifaddrs iface) cache }"

text \<open>\<^verbatim>\<open>NeighborCacheHelper::AddEntry\<close>\<close>

definition NeighborCache_AddEntry :: "nat \<Rightarrow> Ipv4Address \<Rightarrow> Address \<Rightarrow> ArpCache \<Rightarrow> ArpCache option" where
  "NeighborCache_AddEntry Now ipv4Address macAddress arpCache = do {
     arpCache \<leftarrow> (if ArpCache_Lookup ipv4Address arpCache = None then ArpCache_Add ipv4Address arpCache else Some arpCache);
     entry \<leftarrow> ArpCache_Lookup ipv4Address arpCache;
     entry \<leftarrow> MarkAutoGenerated Now (entry\<lparr>ce_macAddress := macAddress\<rparr>);
     Some (write_entry ipv4Address entry arpCache) }"

text \<open>\<^verbatim>\<open>FindCache\<close>, over the caches in the order they were created in, each with its device.\<close>

definition FindCache :: "ptr \<Rightarrow> (ptr \<times> ArpCache) list \<Rightarrow> ArpCache option" where
  "FindCache device caches = map_of caches device"

end
