(* ===== verification/Arp_Inv.thy ===== *)
theory Arp_Inv
  imports Arp_Cache "HOL-Library.Multiset" "HOL-Library.Sublist"
begin

text \<open>
  Address resolution as a whole: the invariant of the cache that every operation keeps, and each operation's effect on the
  packets that wait.
\<close>

section \<open>What was sent and what was dropped\<close>

fun sent_of :: "ArpOutput list \<Rightarrow> Datagram list" where
  "sent_of [] = []"
| "sent_of (LoopbackSend p # out) = p # sent_of out"
| "sent_of (LocalReceive p # out) = p # sent_of out"
| "sent_of (TcSend p _ # out) = p # sent_of out"
| "sent_of (_ # out) = sent_of out"

fun dropped_of :: "ArpOutput list \<Rightarrow> Datagram list" where
  "dropped_of [] = []"
| "dropped_of (CacheDrop p # out) = p # dropped_of out"
| "dropped_of (ProtocolDrop p # out) = p # dropped_of out"
| "dropped_of (_ # out) = dropped_of out"

lemma sent_of_append [simp]: "sent_of (a @ b) = sent_of a @ sent_of b"
  by (induction a rule: sent_of.induct) simp_all

lemma dropped_of_append [simp]: "dropped_of (a @ b) = dropped_of a @ dropped_of b"
  by (induction a rule: dropped_of.induct) simp_all

lemma cache_drops [simp]: "sent_of (map CacheDrop ps) = []" "dropped_of (map CacheDrop ps) = ps"
  by (induction ps) simp_all

definition waiting :: "ArpCache \<Rightarrow> Datagram list" where
  "waiting c = concat (map (ce_pending \<circ> snd) (ac_entries c))"

definition waiting_for :: "Ipv4Address \<Rightarrow> ArpCache \<Rightarrow> Datagram list" where
  "waiting_for to c = (case ArpCache_Lookup to c of Some e \<Rightarrow> (if ce_state e = WAIT_REPLY then ce_pending e else []) | None \<Rightarrow> [])"

section \<open>The invariant\<close>

text \<open>The destinations for which \<^verbatim>\<open>Ipv4Interface::Send\<close> asks the cache.\<close>

definition resolved :: "Ipv4Interface \<Rightarrow> Ipv4Address \<Rightarrow> bool" where
  "resolved iface dest \<longleftrightarrow> if_ifup iface \<and> \<not> if_loopback iface \<and> dest \<notin> ia_local ` set (if_ifaddrs iface) \<and> if_NeedsArp iface \<and>
     \<not> Ipv4Address_IsBroadcast dest \<and> \<not> Ipv4Address_IsMulticast dest \<and>
     \<not> (\<exists>i\<in>set (if_ifaddrs iface). Ipv4Address_IsSubnetDirectedBroadcast dest (ia_mask i))"

definition entry_ok :: "Ipv4Interface \<Rightarrow> nat \<Rightarrow> ArpCache \<Rightarrow> Ipv4Address \<Rightarrow> CacheEntry \<Rightarrow> bool" where
  "entry_ok iface Now c k e \<longleftrightarrow> ce_ipv4Address e = k \<and> ce_lastSeen e \<le> Now \<and> ce_retries e \<le> ac_maxRetries c \<and>
     (ce_state e = ALIVE \<or> ce_state e = DEAD \<longrightarrow> ce_pending e = []) \<and>
     (ce_state e = WAIT_REPLY \<longrightarrow> resolved iface k \<and>
       (\<exists>t. ac_waitReplyTimer c = Some t \<and> t \<le> ce_lastSeen e + ac_waitReplyTimeout c))"

definition arp_inv :: "Ipv4Interface \<Rightarrow> nat \<Rightarrow> ArpCache \<Rightarrow> bool" where
  "arp_inv iface Now c \<longleftrightarrow> Now \<le> TIME_MAX \<and> distinct (map fst (ac_entries c)) \<and>
     (\<forall>(k, e)\<in>set (ac_entries c). entry_ok iface Now c k e) \<and> (\<forall>t. ac_waitReplyTimer c = Some t \<longrightarrow> Now \<le> t \<and> t \<le> Now + ac_waitReplyTimeout c)"

lemma arp_inv_entry:
  "arp_inv iface Now c \<Longrightarrow> ArpCache_Lookup to c = Some e \<Longrightarrow> entry_ok iface Now c to e"
  by (auto simp: arp_inv_def ArpCache_Lookup_def dest!: map_of_SomeD)

text \<open>An entry that waits for a reply never expires.\<close>

lemma waiting_not_expired:
  assumes "arp_inv iface Now c" and "ArpCache_Lookup to c = Some e" and "Entry_IsExpired Now c e"
  shows "ce_state e = DEAD \<or> ce_state e = ALIVE"
proof (rule ccontr)
  assume "\<not> (ce_state e = DEAD \<or> ce_state e = ALIVE)"
  then consider "ce_state e = WAIT_REPLY" | "ce_state e = PERMANENT \<or> ce_state e = STATIC_AUTOGENERATED" by (cases "ce_state e") auto
  then show False
  proof cases
    case 1
    then obtain t where "ac_waitReplyTimer c = Some t" "t \<le> ce_lastSeen e + ac_waitReplyTimeout c"
      using arp_inv_entry [OF assms(1,2)] by (auto simp: entry_ok_def)
    then have "Now \<le> ce_lastSeen e + ac_waitReplyTimeout c" using assms(1) by (auto simp: arp_inv_def)
    then show False using assms(3) 1 by (simp add: Entry_IsExpired_def GetTimeout_def)
  next
    case 2
    then show False using assms(1,3) by (auto simp: arp_inv_def Entry_IsExpired_def GetTimeout_def)
  qed
qed

section \<open>Writes to the cache\<close>

lemma write_entry_fields [simp]:
  "ac_waitReplyTimer (write_entry to e c) = ac_waitReplyTimer c" "ac_waitReplyTimeout (write_entry to e c) = ac_waitReplyTimeout c"
  "ac_maxRetries (write_entry to e c) = ac_maxRetries c" "map fst (ac_entries (write_entry to e c)) = map fst (ac_entries c)"
  "ac_aliveTimeout (write_entry to e c) = ac_aliveTimeout c" "ac_deadTimeout (write_entry to e c) = ac_deadTimeout c"
  by (simp_all add: write_entry_def comp_def case_prod_beta)

lemma write_entry_twice [simp]: "write_entry to e (write_entry to f c) = write_entry to e c"
  by (simp add: write_entry_def comp_def case_prod_beta)

lemma Lookup_write_entry:
  "ArpCache_Lookup k (write_entry to e c) =
     (if k = to then map_option (\<lambda>_. e) (ArpCache_Lookup k c) else ArpCache_Lookup k c)"
proof -
  have "map_of (map (\<lambda>(k, x). (k, if k = to then e else x)) xs) k =
      (if k = to then map_option (\<lambda>_. e) (map_of xs k) else map_of xs k)" for xs :: "(Ipv4Address \<times> CacheEntry) list"
    by (induction xs) auto
  then show ?thesis by (simp add: ArpCache_Lookup_def write_entry_def)
qed

lemma mset_waiting_write:
  assumes "distinct (map fst (ac_entries c))" and "ArpCache_Lookup to c = Some e"
  shows "mset (waiting (write_entry to e' c)) + mset (ce_pending e) = mset (waiting c) + mset (ce_pending e')"
proof -
  have "mset (concat (map (ce_pending \<circ> snd) (map (\<lambda>(k, x). (k, if k = to then e' else x)) xs))) + mset (ce_pending e) =
      mset (concat (map (ce_pending \<circ> snd) xs)) + mset (ce_pending e')"
    if "distinct (map fst xs)" "map_of xs to = Some e" for xs :: "(Ipv4Address \<times> CacheEntry) list"
    using that
  proof (induction xs)
    case (Cons x xs)
    obtain k f where x: "x = (k, f)" by (cases x)
    show ?case
    proof (cases "k = to")
      case True
      then have "to \<notin> fst ` set xs" "f = e" using Cons.prems x by auto
      then have "map (\<lambda>(k, x). (k, if k = to then e' else x)) xs = xs" by (intro map_idI) (auto simp: image_iff)
      then show ?thesis using x True \<open>f = e\<close> by simp
    next
      case False
      then show ?thesis using Cons x by (simp add: ac_simps)
    qed
  qed simp
  then show ?thesis using assms by (simp add: waiting_def write_entry_def ArpCache_Lookup_def)
qed

lemma write_entry_inv:
  assumes "arp_inv iface Now c" and "entry_ok iface Now c to e"
  shows "arp_inv iface Now (write_entry to e c)"
proof -
  have "entry_ok iface Now (write_entry to e c) = entry_ok iface Now c" by (intro ext) (simp add: entry_ok_def)
  then show ?thesis using assms unfolding arp_inv_def write_entry_fields
    by (auto simp: write_entry_def split: if_splits)
qed

lemma Add_inv:
  assumes "arp_inv iface Now c" and "ArpCache_Lookup to c = None"
  shows "\<exists>c'. ArpCache_Add to c = Some c' \<and> arp_inv iface Now c' \<and>
    ArpCache_Lookup to c' = Some (Entry_new\<lparr>ce_ipv4Address := to\<rparr>) \<and> mset (waiting c') = mset (waiting c) \<and>
    (\<forall>k. k \<noteq> to \<longrightarrow> ArpCache_Lookup k c' = ArpCache_Lookup k c) \<and> ac_maxRetries c' = ac_maxRetries c"
proof -
  define e where "e = Entry_new\<lparr>ce_ipv4Address := to\<rparr>"
  define c' where "c' = c\<lparr>ac_entries := insort_key fst (to, e) (ac_entries c)\<rparr>"
  have n: "to \<notin> fst ` set (ac_entries c)" using assms(2) by (simp add: ArpCache_Lookup_def map_of_eq_None_iff)
  have ok: "entry_ok iface Now c' = entry_ok iface Now c" by (intro ext) (simp add: entry_ok_def c'_def)
  have m: "map_of (insort_key fst (to, e) xs) k = (if k = to then Some e else map_of xs k)"
    if "to \<notin> fst ` set xs" for xs :: "(Ipv4Address \<times> CacheEntry) list" and k
    using that by (induction xs) auto
  have p: "mset (concat (map (ce_pending \<circ> snd) (insort_key fst (to, e) xs))) = mset (concat (map (ce_pending \<circ> snd) xs))"
    for xs :: "(Ipv4Address \<times> CacheEntry) list"
    by (induction xs) (auto simp: e_def Entry_new_def)
  have "distinct (map fst (insort_key fst (to, e) xs)) \<longleftrightarrow> distinct (map fst xs)"
    if "to \<notin> fst ` set xs" for xs :: "(Ipv4Address \<times> CacheEntry) list"
    using that by (induction xs) (auto simp: set_insort_key)
  moreover have "entry_ok iface Now c to e" by (simp add: entry_ok_def e_def Entry_new_def)
  ultimately have "arp_inv iface Now c'" using assms(1) n unfolding arp_inv_def ok by (auto simp: c'_def set_insort_key)
  moreover have "ArpCache_Add to c = Some c'" using assms(2) by (simp add: ArpCache_Add_def ArpCache_Lookup_def c'_def e_def)
  ultimately show ?thesis using m [OF n] p [of "ac_entries c"] by (simp add: c'_def ArpCache_Lookup_def waiting_def e_def)
qed

section \<open>Sending\<close>

lemma waiting_for_write:
  "waiting_for k (write_entry to e c) =
     (if k = to \<and> ArpCache_Lookup to c \<noteq> None then (if ce_state e = WAIT_REPLY then ce_pending e else []) else waiting_for k c)"
  by (auto simp: waiting_for_def Lookup_write_entry split: option.splits)

lemma StartWaitReplyTimer_waiting [simp]:
  "waiting (StartWaitReplyTimer Now c) = waiting c" "waiting_for k (StartWaitReplyTimer Now c) = waiting_for k c"
  by (simp_all add: StartWaitReplyTimer_def waiting_def waiting_for_def ArpCache_Lookup_def)

lemma MarkWaitReply_inv:
  assumes "arp_inv iface Now c" and "ArpCache_Lookup to c = Some e" and "ce_state e = ALIVE \<or> ce_state e = DEAD" and "resolved iface to"
  shows "\<exists>c'. MarkWaitReply Now to p c = Some c' \<and> arp_inv iface Now c' \<and> mset (waiting c') = mset (waiting c) + {#p#} \<and>
    waiting_for to c' = [p] \<and> (\<forall>k. k \<noteq> to \<longrightarrow> waiting_for k c' = waiting_for k c)"
proof -
  have e: "ce_pending e = []" "ce_ipv4Address e = to" "ce_lastSeen e \<le> Now" "ce_retries e \<le> ac_maxRetries c"
    using arp_inv_entry [OF assms(1,2)] assms(3) by (auto simp: entry_ok_def)
  define e' where "e' = UpdateSeen Now (e\<lparr>ce_state := WAIT_REPLY, ce_pending := [p]\<rparr>)"
  define c1 where "c1 = write_entry to e' c"
  define c' where "c' = StartWaitReplyTimer Now c1"
  have M: "MarkWaitReply Now to p c = Some c'"
    using assms(2,3) e(1) by (auto simp: MarkWaitReply_def Entry_MarkWaitReply_def c'_def c1_def e'_def)
  have timer: "\<exists>t. ac_waitReplyTimer c' = Some t \<and> Now \<le> t \<and> t \<le> Now + ac_waitReplyTimeout c \<and>
      (ac_waitReplyTimer c \<noteq> None \<longrightarrow> ac_waitReplyTimer c = Some t)"
    using assms(1) by (cases "ac_waitReplyTimer c") (auto simp: c'_def c1_def StartWaitReplyTimer_def arp_inv_def)
  have fields: "ac_waitReplyTimeout c' = ac_waitReplyTimeout c" "ac_maxRetries c' = ac_maxRetries c" "ac_entries c' = ac_entries c1"
    by (simp_all add: c'_def c1_def StartWaitReplyTimer_def)
  have keep: "entry_ok iface Now c k x \<Longrightarrow> entry_ok iface Now c' k x" for k x
    using timer fields by (auto simp: entry_ok_def)
  have new: "entry_ok iface Now c' to e'"
    using e(2,4) timer fields assms(4) by (auto simp: entry_ok_def e'_def UpdateSeen_def)
  have "arp_inv iface Now c'"
    using assms(1) keep new timer unfolding arp_inv_def fields by (auto simp: c1_def write_entry_def comp_def case_prod_beta split: if_splits)
  moreover have "mset (waiting c') = mset (waiting c) + {#p#}"
    using mset_waiting_write [of c to e e'] assms(1,2) e(1) by (simp add: c'_def c1_def arp_inv_def e'_def UpdateSeen_def)
  moreover have "waiting_for to c' = [p]" "\<forall>k. k \<noteq> to \<longrightarrow> waiting_for k c' = waiting_for k c"
    using assms(2) by (simp_all add: c'_def c1_def waiting_for_write e'_def UpdateSeen_def)
  ultimately show ?thesis using M by blast
qed

text \<open>What happens to a packet given to the cache, or to the interface, for a destination.\<close>

definition handled :: "Ipv4Address \<Rightarrow> Datagram \<Rightarrow> ArpCache \<Rightarrow> ArpCache \<Rightarrow> Datagram list \<Rightarrow> Datagram list \<Rightarrow> bool" where
  "handled dest p c c' sent dropped \<longleftrightarrow>
     mset (waiting c') + mset dropped + mset sent = mset (waiting c) + {#p#} \<and>
     (\<forall>k. k \<noteq> dest \<longrightarrow> waiting_for k c' = waiting_for k c) \<and>
     (sent = [p] \<and> waiting_for dest c = [] \<and> waiting_for dest c' = [] \<or>
      sent = [] \<and> (waiting_for dest c' = waiting_for dest c \<or> waiting_for dest c' = waiting_for dest c @ [p]))"

lemma ArpL3_Lookup_inv:
  assumes "arp_inv iface Now c" and "resolved iface dest"
  shows "\<exists>r c' out. ArpL3_Lookup Now jitter p dest c = Some (r, c', out) \<and> arp_inv iface Now c' \<and> sent_of out = [] \<and>
    handled dest p c c' (case r of Some _ \<Rightarrow> [p] | None \<Rightarrow> []) (dropped_of out)"
proof (cases "ArpCache_Lookup dest c")
  case None
  from Add_inv [OF assms(1) None] obtain c1 where c1: "ArpCache_Add dest c = Some c1" "arp_inv iface Now c1"
    "ArpCache_Lookup dest c1 = Some (Entry_new\<lparr>ce_ipv4Address := dest\<rparr>)" "mset (waiting c1) = mset (waiting c)"
    "\<forall>k. k \<noteq> dest \<longrightarrow> ArpCache_Lookup k c1 = ArpCache_Lookup k c" by blast
  have "ce_state (Entry_new\<lparr>ce_ipv4Address := dest\<rparr>) = ALIVE \<or> ce_state (Entry_new\<lparr>ce_ipv4Address := dest\<rparr>) = DEAD"
    by (simp add: Entry_new_def)
  from MarkWaitReply_inv [OF c1(2,3) this assms(2), of p] obtain c' where c': "MarkWaitReply Now dest p c1 = Some c'"
    "arp_inv iface Now c'" "mset (waiting c') = mset (waiting c1) + {#p#}" "waiting_for dest c' = [p]"
    "\<forall>k. k \<noteq> dest \<longrightarrow> waiting_for k c' = waiting_for k c1" by blast
  have "waiting_for dest c = []" "\<forall>k. k \<noteq> dest \<longrightarrow> waiting_for k c1 = waiting_for k c"
    using None c1(5) by (simp_all add: waiting_for_def)
  then show ?thesis using None c1(1,4) c' by (auto simp: ArpL3_Lookup_def handled_def)
next
  case (Some e)
  have ok: "entry_ok iface Now c dest e" by (rule arp_inv_entry [OF assms(1) Some])
  have d: "distinct (map fst (ac_entries c))" using assms(1) by (simp add: arp_inv_def)
  show ?thesis
  proof (cases "Entry_IsExpired Now c e")
    case True
    from waiting_not_expired [OF assms(1) Some True] have st: "ce_state e = ALIVE \<or> ce_state e = DEAD" by auto
    from MarkWaitReply_inv [OF assms(1) Some st assms(2), of p] obtain c' where c': "MarkWaitReply Now dest p c = Some c'"
      "arp_inv iface Now c'" "mset (waiting c') = mset (waiting c) + {#p#}" "waiting_for dest c' = [p]"
      "\<forall>k. k \<noteq> dest \<longrightarrow> waiting_for k c' = waiting_for k c" by blast
    have "waiting_for dest c = []" using Some st by (auto simp: waiting_for_def)
    then show ?thesis using Some True st c' by (auto simp: ArpL3_Lookup_def handled_def)
  next
    case False
    show ?thesis
    proof (cases "ce_state e = WAIT_REPLY")
      case wait: True
      define f where "f = e\<lparr>ce_pending := ce_pending e @ [p]\<rparr>"
      have "entry_ok iface Now c dest f" using ok wait by (simp add: entry_ok_def f_def)
      from write_entry_inv [OF assms(1) this] have i: "arp_inv iface Now (write_entry dest f c)" .
      have i0: "arp_inv iface Now (write_entry dest e c)" by (rule write_entry_inv [OF assms(1) ok])
      have "mset (waiting (write_entry dest f c)) = mset (waiting c) + {#p#}"
        using mset_waiting_write [OF d Some, of f] by (simp add: f_def)
      moreover have "mset (waiting (write_entry dest e c)) = mset (waiting c)" using mset_waiting_write [OF d Some, of e] by simp
      moreover have "waiting_for dest c = ce_pending e" using Some wait by (simp add: waiting_for_def)
      ultimately show ?thesis using Some False wait i i0
        by (auto simp: ArpL3_Lookup_def UpdateWaitReply_def handled_def waiting_for_write f_def)
    next
      case other: False
      then have "waiting_for dest c = []" using Some by (simp add: waiting_for_def)
      then show ?thesis using Some False other assms(1) by (cases "ce_state e") (auto simp: ArpL3_Lookup_def handled_def)
    qed
  qed
qed

lemma Interface_Send_inv:
  assumes "arp_inv iface Now c" and "if_ifup iface" and "Ipv4Address_IsMulticast dest \<longrightarrow> if_IsMulticast iface"
  shows "\<exists>c' out. Ipv4Interface_Send Now jitter iface p dest c = Some (c', out) \<and> arp_inv iface Now c' \<and>
    handled dest p c c' (sent_of out) (dropped_of out)"
proof (cases "resolved iface dest")
  case True
  from ArpL3_Lookup_inv [OF assms(1) True, of jitter p] obtain r c' out where L: "ArpL3_Lookup Now jitter p dest c = Some (r, c', out)"
    "arp_inv iface Now c'" "sent_of out = []" "handled dest p c c' (case r of Some _ \<Rightarrow> [p] | None \<Rightarrow> []) (dropped_of out)" by blast
  have "Ipv4Interface_Send Now jitter iface p dest c =
      Some (c', out @ (case r of Some hw \<Rightarrow> [TcSend p hw] | None \<Rightarrow> []))"
    using True L(1) by (simp add: Ipv4Interface_Send_def resolved_def)
  then show ?thesis using L(2-4) by (cases r) auto
next
  case False
  have "waiting_for dest c = []"
    using arp_inv_entry [OF assms(1), of dest] False by (auto simp: waiting_for_def entry_ok_def split: option.splits)
  then have h: "handled dest p c c [p] []" by (simp add: handled_def)
  have "\<exists>o1. Ipv4Interface_Send Now jitter iface p dest c = Some (c, [o1]) \<and> sent_of [o1] = [p] \<and> dropped_of [o1] = []"
    using False assms(2,3) by (auto simp: Ipv4Interface_Send_def resolved_def)
  then show ?thesis using h assms(1) by auto
qed

section \<open>Replies, timeouts and static entries\<close>

lemma Interface_Send_alive:
  assumes "ArpCache_Lookup k c = Some e" and "ce_state e = ALIVE" and "ce_lastSeen e = Now" and "resolved iface k"
  shows "Ipv4Interface_Send Now jitter iface p k c = Some (c, [TcSend p (ce_macAddress e)])"
  using assms by (simp add: Ipv4Interface_Send_def resolved_def ArpL3_Lookup_def Entry_IsExpired_def)

lemma write_entry_same:
  assumes "distinct (map fst (ac_entries c))" and "ArpCache_Lookup k c = Some e"
  shows "write_entry k e c = c"
proof -
  have "x \<in> set (ac_entries c) \<Longrightarrow> (\<lambda>(k', x). (k', if k' = k then e else x)) x = x" for x
    using assms by (cases x) (auto simp: ArpCache_Lookup_def dest!: map_of_SomeD dest: eq_key_imp_eq_value)
  then show ?thesis by (simp add: write_entry_def map_idI)
qed

lemma send_pending_alive:
  assumes "ArpCache_Lookup k c = Some e" and "ce_state e = ALIVE" and "ce_lastSeen e = Now" and "distinct (map fst (ac_entries c))"
    and "resolved iface k"
  shows "send_pending Now jitter iface k c =
    Some (write_entry k (e\<lparr>ce_pending := []\<rparr>) c, map (\<lambda>p. TcSend p (ce_macAddress e)) (ce_pending e))"
  using assms
proof (induction "ce_pending e" arbitrary: c e)
  case Nil
  have "e\<lparr>ce_pending := []\<rparr> = e" using Nil(1) by simp
  then have "write_entry k (e\<lparr>ce_pending := []\<rparr>) c = c" using write_entry_same [of c k e] Nil by (simp only:)
  then show ?case using Nil(1) Nil.prems(1) by (subst send_pending.simps) (simp add: DequeuePending_def flip: Nil(1))
next
  case (Cons p ps)
  define f where "f = e\<lparr>ce_pending := ps\<rparr>"
  define c1 where "c1 = write_entry k f c"
  have f: "ArpCache_Lookup k c1 = Some f" "ce_state f = ALIVE" "ce_lastSeen f = Now" "ps = ce_pending f"
    "distinct (map fst (ac_entries c1))"
    using Cons.prems by (simp_all add: c1_def Lookup_write_entry f_def del: map_map)
  have "send_pending Now jitter iface k c1 =
      Some (write_entry k (f\<lparr>ce_pending := []\<rparr>) c1, map (\<lambda>p. TcSend p (ce_macAddress f)) (ce_pending f))"
    by (rule Cons.hyps(1) [OF f(4,1,2,3,5) assms(5)])
  then have rec: "send_pending Now jitter iface k c1 = Some (write_entry k (e\<lparr>ce_pending := []\<rparr>) c, map (\<lambda>p. TcSend p (ce_macAddress e)) ps)"
    by (simp add: c1_def f_def)
  have D: "DequeuePending e = (Some p, f)" by (simp add: DequeuePending_def f_def flip: Cons.hyps(2))
  have "ce_macAddress f = ce_macAddress e" by (simp add: f_def)
  then have S: "Ipv4Interface_Send Now jitter iface p k (write_entry k f c) = Some (c1, [TcSend p (ce_macAddress e)])"
    using Interface_Send_alive [OF f(1-3) assms(5), of jitter p] by (simp add: c1_def)
  have "ce_pending e = p # ps" using Cons.hyps(2) by simp
  then show ?case by (subst send_pending.simps) (simp add: Cons.prems(1) D S rec)
qed

lemma arp_receive_inv:
  assumes "arp_inv iface Now c"
  shows "\<exists>c' out. arp_receive_loop Now jitter iface arp as c = Some (c', out) \<and> arp_inv iface Now c' \<and> dropped_of out = [] \<and>
    mset (waiting c') + mset (sent_of out) = mset (waiting c) \<and> (\<forall>k. k \<noteq> arp_ipv4Source arp \<longrightarrow> waiting_for k c' = waiting_for k c) \<and>
    sent_of out @ waiting_for (arp_ipv4Source arp) c' = waiting_for (arp_ipv4Source arp) c"
proof (induction as)
  case Nil
  then show ?case using assms by simp
next
  case (Cons a as)
  define k where "k = arp_ipv4Source arp"
  consider (request) "IsRequest arp \<and> arp_ipv4Dest arp = ia_local a"
    | (reply) "\<not> (IsRequest arp \<and> arp_ipv4Dest arp = ia_local a)"
        "IsReply arp \<and> arp_ipv4Dest arp = ia_local a \<and> Address_eq (arp_macDest arp) (if_address iface)"
    | (other) "\<not> (IsRequest arp \<and> arp_ipv4Dest arp = ia_local a)"
        "\<not> (IsReply arp \<and> arp_ipv4Dest arp = ia_local a \<and> Address_eq (arp_macDest arp) (if_address iface))" by blast
  then show ?case
  proof cases
    case request
    then show ?thesis using assms by (simp add: SendArpReply_def)
  next
    case other
    then show ?thesis using Cons.IH by auto
  next
    case reply
    show ?thesis
    proof (cases "\<exists>e. ArpCache_Lookup k c = Some e \<and> ce_state e = WAIT_REPLY")
      case False
      then have "arp_receive_loop Now jitter iface arp (a # as) c = Some (c, [ReceivedDrop arp])"
        using reply by (auto simp: k_def split: option.splits)
      then show ?thesis using assms by simp
    next
      case True
      then obtain e where e: "ArpCache_Lookup k c = Some e" "ce_state e = WAIT_REPLY" by blast
      have ok: "entry_ok iface Now c k e" by (rule arp_inv_entry [OF assms e(1)])
      define f where "f = UpdateSeen Now (ClearRetries (e\<lparr>ce_macAddress := arp_macSource arp, ce_state := ALIVE\<rparr>))"
      define g where "g = f\<lparr>ce_pending := []\<rparr>"
      have d: "distinct (map fst (ac_entries c))" using assms by (simp add: arp_inv_def)
      have f: "ArpCache_Lookup k (write_entry k f c) = Some f" "ce_state f = ALIVE" "ce_lastSeen f = Now" "ce_pending f = ce_pending e"
        using e(1) by (simp_all add: Lookup_write_entry f_def UpdateSeen_def ClearRetries_def)
      have "distinct (map fst (ac_entries (write_entry k f c)))" using d by simp
      moreover have "resolved iface k" using ok e(2) by (simp add: entry_ok_def)
      ultimately have S: "send_pending Now jitter iface k (write_entry k f c) =
          Some (write_entry k g c, map (\<lambda>p. TcSend p (ce_macAddress f)) (ce_pending e))"
        using send_pending_alive [OF f(1-3)] f(4) by (simp add: g_def)
      have R: "arp_receive_loop Now jitter iface arp (a # as) c =
          Some (write_entry k g c, map (\<lambda>p. TcSend p (ce_macAddress f)) (ce_pending e))"
        using reply e S by (simp add: k_def MarkAlive_def f_def)
      have "entry_ok iface Now c k g" using ok by (simp add: entry_ok_def g_def f_def UpdateSeen_def ClearRetries_def)
      then have i: "arp_inv iface Now (write_entry k g c)" by (rule write_entry_inv [OF assms])
      have s: "sent_of (map (\<lambda>p. TcSend p hw) ps) = ps" "dropped_of (map (\<lambda>p. TcSend p hw) ps) = []" for hw ps by (induction ps) simp_all
      have g: "ce_state g = ALIVE" "ce_pending g = []" using f(2) by (simp_all add: g_def)
      have "mset (waiting (write_entry k g c)) + mset (ce_pending e) = mset (waiting c)"
        using mset_waiting_write [OF d e(1), of g] g by simp
      moreover have "waiting_for k (write_entry k g c) = []" "waiting_for k c = ce_pending e"
        "\<And>k'. k' \<noteq> k \<Longrightarrow> waiting_for k' (write_entry k g c) = waiting_for k' c"
        using e g by (simp_all add: waiting_for_write) (simp add: waiting_for_def)
      ultimately show ?thesis using R i s by (simp add: k_def)
    qed
  qed
qed

text \<open>One entry under \<^verbatim>\<open>HandleWaitReplyTimeout\<close>.\<close>

definition timeout_entry_of :: "nat \<Rightarrow> u32 \<Rightarrow> CacheEntry \<Rightarrow> CacheEntry" where
  "timeout_entry_of Now m e =
     (if ce_state e \<noteq> WAIT_REPLY then e
      else if ce_retries e < m then e\<lparr>ce_retries := ce_retries e + 1, ce_lastSeen := Now\<rparr>
      else e\<lparr>ce_state := DEAD, ce_retries := 0, ce_lastSeen := Now, ce_pending := []\<rparr>)"

lemma wait_reply_loop_eq:
  "\<exists>out. wait_reply_loop Now iface m es =
     Some (map (\<lambda>(k, e). (k, timeout_entry_of Now m e)) es, out, \<exists>(k, e)\<in>set es. ce_state e = WAIT_REPLY \<and> ce_retries e < m) \<and>
     sent_of out = [] \<and> mset (concat (map (ce_pending \<circ> (\<lambda>(k, e). timeout_entry_of Now m e)) es)) + mset (dropped_of out) =
       mset (concat (map (ce_pending \<circ> snd) es))"
proof (induction es)
  case (Cons x es)
  obtain k e where x: "x = (k, e)" by (cases x)
  then show ?case using Cons.IH
    by (cases "ce_state e = WAIT_REPLY"; cases "ce_retries e < m")
      (auto simp: timeout_entry_of_def IncrementRetries_def MarkDead_def UpdateSeen_def ClearRetries_def SendArpRequest_def Let_def)
qed simp

lemma map_of_timeout:
  "map_of (map (\<lambda>(k, e). (k, f e)) es) k = map_option f (map_of es k)"
  by (induction es) auto

lemma HandleWaitReplyTimeout_inv:
  assumes "arp_inv iface Now c" and "ac_waitReplyTimer c = Some Now"
  shows "\<exists>c' out. HandleWaitReplyTimeout Now iface c = Some (c', out) \<and> arp_inv iface Now c' \<and> sent_of out = [] \<and>
    mset (waiting c') + mset (dropped_of out) = mset (waiting c) \<and>
    (\<forall>k. ArpCache_Lookup k c' = map_option (timeout_entry_of Now (ac_maxRetries c)) (ArpCache_Lookup k c)) \<and>
    ac_maxRetries c' = ac_maxRetries c \<and> ac_waitReplyTimeout c' = ac_waitReplyTimeout c \<and>
    (ac_waitReplyTimer c' = None \<longleftrightarrow> (\<forall>(k, e)\<in>set (ac_entries c'). ce_state e \<noteq> WAIT_REPLY)) \<and>
    (\<forall>t. ac_waitReplyTimer c' = Some t \<longrightarrow> t = Now + ac_waitReplyTimeout c) \<and>
    ac_entries c' = map (\<lambda>(k, e). (k, timeout_entry_of Now (ac_maxRetries c) e)) (ac_entries c)"
proof -
  define m where "m = ac_maxRetries c"
  define es where "es = map (\<lambda>(k, e). (k, timeout_entry_of Now m e)) (ac_entries c)"
  define r where "r = (\<exists>(k, e)\<in>set (ac_entries c). ce_state e = WAIT_REPLY \<and> ce_retries e < m)"
  obtain out where L: "wait_reply_loop Now iface m (ac_entries c) = Some (es, out, r)" and so: "sent_of out = []"
    and ms: "mset (concat (map (ce_pending \<circ> (\<lambda>(k, e). timeout_entry_of Now m e)) (ac_entries c))) + mset (dropped_of out) =
       mset (waiting c)"
    using wait_reply_loop_eq [of Now iface m "ac_entries c"] by (auto simp: es_def r_def waiting_def)
  define c' where "c' = c\<lparr>ac_entries := es, ac_waitReplyTimer := (if r then Some (Now + ac_waitReplyTimeout c) else None)\<rparr>"
  have H: "HandleWaitReplyTimeout Now iface c = Some (c', out)" using L by (simp add: HandleWaitReplyTimeout_def m_def [symmetric] c'_def)
  have w: "ce_state (timeout_entry_of Now m e) = WAIT_REPLY \<longleftrightarrow> ce_state e = WAIT_REPLY \<and> ce_retries e < m" for e
    by (auto simp: timeout_entry_of_def)
  have ok: "entry_ok iface Now c' k (timeout_entry_of Now m e)" if ke: "(k, e) \<in> set (ac_entries c)" for k e
  proof -
    have e: "entry_ok iface Now c k e" using assms(1) ke by (auto simp: arp_inv_def)
    have le: "ce_retries e < m \<Longrightarrow> ce_retries e + 1 \<le> m" by (rule inc_le)
    have "ce_state e = WAIT_REPLY \<and> ce_retries e < m \<Longrightarrow> r" using ke by (auto simp: r_def)
    then show ?thesis using e le by (auto simp: entry_ok_def timeout_entry_of_def c'_def m_def)
  qed
  have "map fst es = map fst (ac_entries c)" by (simp add: es_def comp_def case_prod_beta)
  moreover have "\<forall>(k, e)\<in>set es. entry_ok iface Now c' k e" using ok by (auto simp: es_def)
  moreover have "ac_entries c' = es" "ac_waitReplyTimeout c' = ac_waitReplyTimeout c" by (simp_all add: c'_def)
  moreover have "ac_waitReplyTimer c' = Some t \<Longrightarrow> t = Now + ac_waitReplyTimeout c" for t by (auto simp: c'_def split: if_splits)
  ultimately have "arp_inv iface Now c'" using assms(1) by (auto simp: arp_inv_def)
  moreover have "mset (waiting c') + mset (dropped_of out) = mset (waiting c)"
    using ms by (simp add: waiting_def c'_def es_def comp_def case_prod_beta)
  moreover have "ac_waitReplyTimer c' = None \<longleftrightarrow> (\<forall>(k, e)\<in>set (ac_entries c'). ce_state e \<noteq> WAIT_REPLY)"
  proof -
    have "(\<forall>(k, e)\<in>set es. ce_state e \<noteq> WAIT_REPLY) \<longleftrightarrow> (\<forall>(k, e)\<in>set (ac_entries c). ce_state (timeout_entry_of Now m e) \<noteq> WAIT_REPLY)"
      by (auto simp: es_def)
    then show ?thesis unfolding w by (auto simp: c'_def r_def)
  qed
  ultimately show ?thesis using H so map_of_timeout [of "timeout_entry_of Now m" "ac_entries c"]
    by (simp add: c'_def ArpCache_Lookup_def es_def m_def)
qed

lemma AddEntry_inv:
  assumes "arp_inv iface Now c" and "\<not> IsInvalid mac"
  shows "\<exists>c'. NeighborCache_AddEntry Now to mac c = Some c' \<and> arp_inv iface Now c' \<and> mset (waiting c') = mset (waiting c) \<and>
    waiting_for to c' = [] \<and> (\<forall>k. k \<noteq> to \<longrightarrow> waiting_for k c' = waiting_for k c)"
proof -
  obtain c1 e where c1: "(if ArpCache_Lookup to c = None then ArpCache_Add to c else Some c) = Some c1" "arp_inv iface Now c1"
    "ArpCache_Lookup to c1 = Some e" "mset (waiting c1) = mset (waiting c)" "\<forall>k. k \<noteq> to \<longrightarrow> waiting_for k c1 = waiting_for k c"
  proof (cases "ArpCache_Lookup to c")
    case None
    from Add_inv [OF assms(1) None] obtain c1 where "ArpCache_Add to c = Some c1" "arp_inv iface Now c1"
      "ArpCache_Lookup to c1 = Some (Entry_new\<lparr>ce_ipv4Address := to\<rparr>)" "mset (waiting c1) = mset (waiting c)"
      "\<forall>k. k \<noteq> to \<longrightarrow> ArpCache_Lookup k c1 = ArpCache_Lookup k c" by blast
    then show ?thesis using None that by (simp add: waiting_for_def)
  next
    case (Some e)
    then show ?thesis using assms(1) that by simp
  qed
  define f where "f = UpdateSeen Now (ClearRetries (e\<lparr>ce_macAddress := mac, ce_state := STATIC_AUTOGENERATED\<rparr>))"
  have f: "ce_state f = STATIC_AUTOGENERATED" "ce_pending f = ce_pending e" by (simp_all add: f_def UpdateSeen_def ClearRetries_def)
  have "entry_ok iface Now c1 to f" using arp_inv_entry [OF c1(2,3)] by (simp add: entry_ok_def f_def UpdateSeen_def ClearRetries_def)
  from write_entry_inv [OF c1(2) this] have "arp_inv iface Now (write_entry to f c1)" .
  moreover have "mset (waiting (write_entry to f c1)) = mset (waiting c)"
    using mset_waiting_write [OF _ c1(3), of f] c1(2,4) f by (simp add: arp_inv_def)
  moreover have "NeighborCache_AddEntry Now to mac c = Some (write_entry to f c1)"
    using c1(1,3) assms(2) by (simp add: NeighborCache_AddEntry_def MarkAutoGenerated_def f_def)
  ultimately show ?thesis using c1(3,5) f by (simp add: waiting_for_write)
qed

section \<open>Entries taken out\<close>

lemma mset_waiting_filter:
  "mset (waiting (c\<lparr>ac_entries := filter P (ac_entries c)\<rparr>)) + mset (waiting (c\<lparr>ac_entries := filter (\<lambda>x. \<not> P x) (ac_entries c)\<rparr>)) =
   mset (waiting c)"
proof -
  have "mset (concat (map f (filter P xs))) + mset (concat (map f (filter (\<lambda>x. \<not> P x) xs))) = mset (concat (map f xs))"
    for f :: "Ipv4Address \<times> CacheEntry \<Rightarrow> Datagram list" and xs
    by (induction xs) (auto simp: ac_simps)
  then show ?thesis by (simp add: waiting_def)
qed

lemma filter_inv:
  assumes "arp_inv iface Now c"
  shows "arp_inv iface Now (c\<lparr>ac_entries := filter P (ac_entries c)\<rparr>)"
    and "waiting_for k (c\<lparr>ac_entries := filter P (ac_entries c)\<rparr>) = waiting_for k c \<or>
      waiting_for k (c\<lparr>ac_entries := filter P (ac_entries c)\<rparr>) = []"
proof -
  have d: "distinct (map fst (ac_entries c))" using assms by (simp add: arp_inv_def)
  have "entry_ok iface Now (c\<lparr>ac_entries := es\<rparr>) = entry_ok iface Now c" for es by (intro ext) (simp add: entry_ok_def)
  then show "arp_inv iface Now (c\<lparr>ac_entries := filter P (ac_entries c)\<rparr>)"
    using assms by (auto simp: arp_inv_def distinct_map_filter)
  have "map_of (filter P (ac_entries c)) k = map_of (ac_entries c) k \<or> map_of (filter P (ac_entries c)) k = None"
  proof (cases "map_of (filter P (ac_entries c)) k")
    case (Some e)
    then have "(k, e) \<in> set (ac_entries c)" by (auto dest!: map_of_SomeD)
    then show ?thesis using Some d by simp
  qed simp
  then show "waiting_for k (c\<lparr>ac_entries := filter P (ac_entries c)\<rparr>) = waiting_for k c \<or>
      waiting_for k (c\<lparr>ac_entries := filter P (ac_entries c)\<rparr>) = []"
    by (auto simp: waiting_for_def ArpCache_Lookup_def)
qed

end
