(* ===== verification/Arp_Claims.thy ===== *)
theory Arp_Claims
  imports Arp_Inv
begin

text \<open>
  Runs of address resolution on one interface: packets to send, ARP packets that arrive, timeouts, entries made and removed
  by hand, in any order.  The state records the packets given, sent, dropped, and removed together with their entry.
\<close>

record arp_run =
  ru_now :: nat
  ru_cache :: ArpCache
  ru_given :: "(Ipv4Address \<times> Datagram) list"
  ru_sent :: "(Ipv4Address \<times> Datagram) list"
  ru_dropped :: "Datagram list"
  ru_removed :: "Datagram list"

datatype arp_event =
    Clock nat
  | SendPacket nat Datagram Ipv4Address
  | ReceiveArp nat ArpHeader
  | WaitReplyTimeout
  | AddNeighbor Ipv4Address Address
  | RemoveNeighbor Ipv4Address
  | RemoveGenerated
  | FlushCache

text \<open>The entries that are gone take their packets with them.\<close>

definition take_out :: "(Ipv4Address \<times> CacheEntry \<Rightarrow> bool) \<Rightarrow> ArpCache \<Rightarrow> arp_run \<Rightarrow> arp_run" where
  "take_out P c r = r\<lparr>ru_cache := c, ru_removed := ru_removed r @
     waiting ((ru_cache r)\<lparr>ac_entries := filter (\<lambda>x. \<not> P x) (ac_entries (ru_cache r))\<rparr>)\<rparr>"

definition log_output :: "Ipv4Address \<Rightarrow> ArpCache \<times> ArpOutput list \<Rightarrow> arp_run \<Rightarrow> arp_run" where
  "log_output k res r = r\<lparr>ru_cache := fst res, ru_sent := ru_sent r @ map (Pair k) (sent_of (snd res)),
     ru_dropped := ru_dropped r @ dropped_of (snd res)\<rparr>"

fun arp_step :: "Ipv4Interface \<Rightarrow> arp_event \<Rightarrow> arp_run \<Rightarrow> arp_run option" where
  "arp_step iface (Clock t) r = Some (r\<lparr>ru_now := t\<rparr>)"
| "arp_step iface (SendPacket jitter p dest) r =
     map_option (\<lambda>res. log_output dest res (r\<lparr>ru_given := ru_given r @ [(dest, p)]\<rparr>))
       (Ipv4Interface_Send (ru_now r) jitter iface p dest (ru_cache r))"
| "arp_step iface (ReceiveArp jitter arp) r =
     map_option (\<lambda>res. log_output (arp_ipv4Source arp) res r)
       (arp_receive_loop (ru_now r) jitter iface arp (if_ifaddrs iface) (ru_cache r))"
| "arp_step iface WaitReplyTimeout r =
     map_option (\<lambda>res. log_output 0 res r) (HandleWaitReplyTimeout (ru_now r) iface (ru_cache r))"
| "arp_step iface (AddNeighbor to mac) r =
     map_option (\<lambda>c. r\<lparr>ru_cache := c\<rparr>) (NeighborCache_AddEntry (ru_now r) to mac (ru_cache r))"
| "arp_step iface (RemoveNeighbor to) r = Some (take_out (\<lambda>(k, e). k \<noteq> to) (ArpCache_Remove to (ru_cache r)) r)"
| "arp_step iface RemoveGenerated r =
     Some (take_out (\<lambda>(k, e). ce_state e \<noteq> STATIC_AUTOGENERATED) (RemoveAutoGeneratedEntries (ru_cache r)) r)"
| "arp_step iface FlushCache r = Some (take_out (\<lambda>_. False) (ArpCache_Flush (ru_cache r)) r)"

text \<open>What can happen: the clock goes no further than the timer, which runs when its time has come.\<close>

fun arp_enabled :: "Ipv4Interface \<Rightarrow> arp_event \<Rightarrow> arp_run \<Rightarrow> bool" where
  "arp_enabled iface (Clock t) r \<longleftrightarrow> ru_now r \<le> t \<and> t \<le> TIME_MAX \<and>
     (case ac_waitReplyTimer (ru_cache r) of None \<Rightarrow> True | Some t' \<Rightarrow> t \<le> t')"
| "arp_enabled iface (SendPacket jitter p dest) r \<longleftrightarrow> (Ipv4Address_IsMulticast dest \<longrightarrow> if_IsMulticast iface)"
| "arp_enabled iface WaitReplyTimeout r \<longleftrightarrow> ac_waitReplyTimer (ru_cache r) = Some (ru_now r)"
| "arp_enabled iface (AddNeighbor to mac) r \<longleftrightarrow> \<not> IsInvalid mac"
| "arp_enabled iface _ r \<longleftrightarrow> True"

definition arp_start :: "nat \<Rightarrow> nat \<Rightarrow> nat \<Rightarrow> u32 \<Rightarrow> u32 \<Rightarrow> arp_run" where
  "arp_start aliveTimeout deadTimeout waitReplyTimeout maxRetries pendingQueueSize =
     \<lparr>ru_now = 0, ru_cache = ArpCache_init aliveTimeout deadTimeout waitReplyTimeout maxRetries pendingQueueSize,
      ru_given = [], ru_sent = [], ru_dropped = [], ru_removed = []\<rparr>"

inductive arp_reach :: "Ipv4Interface \<Rightarrow> arp_run \<Rightarrow> bool" for iface where
  arp_init: "arp_reach iface (arp_start a d w m q)"
| arp_event: "arp_reach iface r \<Longrightarrow> arp_enabled iface e r \<Longrightarrow> arp_step iface e r = Some r' \<Longrightarrow> arp_reach iface r'"

definition to_dest :: "Ipv4Address \<Rightarrow> (Ipv4Address \<times> Datagram) list \<Rightarrow> Datagram list" where
  "to_dest k l = map snd (filter (\<lambda>x. fst x = k) l)"

lemma to_dest_simps [simp]:
  "to_dest k [] = []" "to_dest k (a @ b) = to_dest k a @ to_dest k b"
  "to_dest k (map (Pair k') ps) = (if k = k' then ps else [])" "to_dest k [(k', p)] = (if k = k' then [p] else [])"
  by (induction ps) (auto simp: to_dest_def)

text \<open>Every packet is in one place, and those sent to a destination and waiting for it are in the order they were given.\<close>

definition accounted :: "arp_run \<Rightarrow> bool" where
  "accounted r \<longleftrightarrow>
     mset (map snd (ru_given r)) = mset (map snd (ru_sent r)) + mset (ru_dropped r) + mset (waiting (ru_cache r)) + mset (ru_removed r)"

definition in_order :: "arp_run \<Rightarrow> bool" where
  "in_order r \<longleftrightarrow> (\<forall>k. subseq (to_dest k (ru_sent r) @ waiting_for k (ru_cache r)) (to_dest k (ru_given r)))"

definition run_inv :: "Ipv4Interface \<Rightarrow> arp_run \<Rightarrow> bool" where
  "run_inv iface r \<longleftrightarrow> arp_inv iface (ru_now r) (ru_cache r) \<and> accounted r \<and> in_order r"

lemma entries_only:
  "ac_entries c = ac_entries c' \<Longrightarrow> waiting c = waiting c'" "ac_entries c = ac_entries c' \<Longrightarrow> waiting_for k c = waiting_for k c'"
  by (simp_all add: waiting_def waiting_for_def ArpCache_Lookup_def)

lemma run_inv_take_out:
  assumes "run_inv iface r" and "ac_entries c = filter P (ac_entries (ru_cache r))" and "arp_inv iface (ru_now r) c"
  shows "run_inv iface (take_out P c r)"
proof -
  define d where "d = (ru_cache r)\<lparr>ac_entries := filter P (ac_entries (ru_cache r))\<rparr>"
  have cd: "ac_entries c = ac_entries d" using assms(2) by (simp add: d_def)
  have i: "arp_inv iface (ru_now r) (ru_cache r)" using assms(1) by (simp add: run_inv_def)
  have f: "waiting_for k c = waiting_for k (ru_cache r) \<or> waiting_for k c = []" for k
    using filter_inv(2) [OF i, where P = P and k = k, folded d_def] entries_only(2) [OF cd] by simp
  have "mset (waiting c) + mset (waiting ((ru_cache r)\<lparr>ac_entries := filter (\<lambda>x. \<not> P x) (ac_entries (ru_cache r))\<rparr>)) = mset (waiting (ru_cache r))"
    using mset_waiting_filter [where c = "ru_cache r" and P = P, folded d_def] entries_only(1) [OF cd] by simp
  then have "accounted (take_out P c r)"
    using assms(1) by (simp add: run_inv_def accounted_def take_out_def ac_simps)
  moreover have "in_order (take_out P c r)" unfolding in_order_def
  proof
    fix k
    have s: "subseq (to_dest k (ru_sent r) @ waiting_for k (ru_cache r)) (to_dest k (ru_given r))"
      using assms(1) by (simp add: run_inv_def in_order_def)
    moreover have "subseq (to_dest k (ru_sent r)) (to_dest k (ru_sent r) @ waiting_for k (ru_cache r))"
      by (rule list_emb_prefix) simp
    ultimately have "subseq (to_dest k (ru_sent r)) (to_dest k (ru_given r))" by (meson subseq_order.trans)
    then show "subseq (to_dest k (ru_sent (take_out P c r)) @ waiting_for k (ru_cache (take_out P c r))) (to_dest k (ru_given (take_out P c r)))"
      using s f [of k] by (auto simp: take_out_def)
  qed
  ultimately show ?thesis using assms(3) by (simp add: run_inv_def take_out_def)
qed

lemma clock_inv: "arp_inv iface Now c \<Longrightarrow> Now \<le> t \<Longrightarrow> t \<le> TIME_MAX \<Longrightarrow> (\<forall>x. ac_waitReplyTimer c = Some x \<longrightarrow> t \<le> x) \<Longrightarrow> arp_inv iface t c"
  by (fastforce simp: arp_inv_def entry_ok_def)

lemma subseq_prefix_dropped: "subseq (a @ b) c \<Longrightarrow> subseq a c"
  using subseq_order.trans [OF list_emb_prefix [OF subseq_order.order_refl]] by blast

text \<open>A step that can happen goes through and keeps the invariant.\<close>

lemma arp_step_inv:
  assumes "run_inv iface r" and "if_ifup iface" and "arp_enabled iface e r"
  shows "\<exists>r'. arp_step iface e r = Some r' \<and> run_inv iface r'"
proof -
  define c where "c = ru_cache r"
  have i: "arp_inv iface (ru_now r) c" and a: "accounted r" and o1: "in_order r" using assms(1) by (simp_all add: run_inv_def c_def)
  have ord: "subseq (to_dest k (ru_sent r) @ waiting_for k c) (to_dest k (ru_given r))" for k using o1 by (simp add: in_order_def c_def)
  show ?thesis
  proof (cases e)
    case (Clock t)
    then have "arp_inv iface t c" using clock_inv [OF i] assms(3) by (simp add: c_def split: option.splits)
    then show ?thesis using Clock a o1 by (simp add: run_inv_def accounted_def in_order_def c_def)
  next
    case (SendPacket jitter p dest)
    from Interface_Send_inv [OF i assms(2)] SendPacket assms(3) obtain c' out where
      S: "Ipv4Interface_Send (ru_now r) jitter iface p dest c = Some (c', out)" "arp_inv iface (ru_now r) c'"
        and h: "handled dest p c c' (sent_of out) (dropped_of out)" by fastforce
    define r' where "r' = log_output dest (c', out) (r\<lparr>ru_given := ru_given r @ [(dest, p)]\<rparr>)"
    have "accounted r'" using a h by (simp add: accounted_def r'_def log_output_def handled_def c_def [symmetric] comp_def ac_simps)
    moreover have "in_order r'" unfolding in_order_def
    proof
      fix k
      consider "k \<noteq> dest" | "k = dest" "sent_of out = [p]" "waiting_for dest c = []" "waiting_for dest c' = []"
        | "k = dest" "sent_of out = []" "waiting_for dest c' = waiting_for dest c"
        | "k = dest" "sent_of out = []" "waiting_for dest c' = waiting_for dest c @ [p]" using h unfolding handled_def by blast
      then show "subseq (to_dest k (ru_sent r') @ waiting_for k (ru_cache r')) (to_dest k (ru_given r'))"
      proof cases
        case 1
        then have "waiting_for k c' = waiting_for k c" using h by (simp add: handled_def)
        then show ?thesis using ord [of k] 1 by (simp add: r'_def log_output_def)
      next
        case 2
        then show ?thesis using ord [of k] by (simp add: r'_def log_output_def list_emb_append_mono)
      next
        case 3
        then show ?thesis using list_emb_prefix [OF ord [of k], of "[p]"] by (simp add: r'_def log_output_def)
      next
        case 4
        then show ?thesis using list_emb_append_mono [OF ord [of k], of "[p]" "[p]"] by (simp add: r'_def log_output_def)
      qed
    qed
    ultimately have "run_inv iface r'" using S(2) by (simp add: run_inv_def r'_def log_output_def)
    then show ?thesis using S(1) SendPacket by (simp add: c_def r'_def)
  next
    case (ReceiveArp jitter arp)
    from arp_receive_inv [OF i] obtain c' out where
      R: "arp_receive_loop (ru_now r) jitter iface arp (if_ifaddrs iface) c = Some (c', out)" "arp_inv iface (ru_now r) c'"
        "dropped_of out = []" "mset (waiting c') + mset (sent_of out) = mset (waiting c)"
        "\<forall>k. k \<noteq> arp_ipv4Source arp \<longrightarrow> waiting_for k c' = waiting_for k c"
        "sent_of out @ waiting_for (arp_ipv4Source arp) c' = waiting_for (arp_ipv4Source arp) c" by blast
    define r' where "r' = log_output (arp_ipv4Source arp) (c', out) r"
    have "accounted r'" using a R(3,4) by (simp add: accounted_def r'_def log_output_def c_def [symmetric] comp_def ac_simps flip: R(4))
    moreover have "in_order r'" using ord R(5,6) by (auto simp: in_order_def r'_def log_output_def)
    ultimately have "run_inv iface r'" using R(2) by (simp add: run_inv_def r'_def log_output_def)
    then show ?thesis using R(1) ReceiveArp by (simp add: c_def r'_def)
  next
    case WaitReplyTimeout
    then have t: "ac_waitReplyTimer c = Some (ru_now r)" using assms(3) by (simp add: c_def)
    from HandleWaitReplyTimeout_inv [OF i t] obtain c' out where
      H: "HandleWaitReplyTimeout (ru_now r) iface c = Some (c', out)" "arp_inv iface (ru_now r) c'" "sent_of out = []"
        "mset (waiting c') + mset (dropped_of out) = mset (waiting c)"
        "\<forall>k. ArpCache_Lookup k c' = map_option (timeout_entry_of (ru_now r) (ac_maxRetries c)) (ArpCache_Lookup k c)" by blast
    define r' where "r' = log_output 0 (c', out) r"
    have w: "waiting_for k c' = waiting_for k c \<or> waiting_for k c' = []" for k
      using H(5) by (auto simp: waiting_for_def timeout_entry_of_def split: option.splits)
    have "accounted r'" using a H(3,4) by (simp add: accounted_def r'_def log_output_def c_def [symmetric] ac_simps flip: H(4))
    moreover have "subseq (to_dest k (ru_sent r) @ waiting_for k c') (to_dest k (ru_given r))" for k
      using w [of k] ord [of k] subseq_prefix_dropped by auto
    then have "in_order r'" using H(3) by (simp add: in_order_def r'_def log_output_def)
    ultimately have "run_inv iface r'" using H(2) by (simp add: run_inv_def r'_def log_output_def)
    then show ?thesis using H(1) WaitReplyTimeout by (simp add: c_def r'_def)
  next
    case (AddNeighbor to mac)
    then have "\<not> IsInvalid mac" using assms(3) by simp
    from AddEntry_inv [OF i this, of to] obtain c' where A: "NeighborCache_AddEntry (ru_now r) to mac c = Some c'"
      "arp_inv iface (ru_now r) c'" "mset (waiting c') = mset (waiting c)" "waiting_for to c' = []"
      "\<forall>k. k \<noteq> to \<longrightarrow> waiting_for k c' = waiting_for k c" by blast
    have "subseq (to_dest k (ru_sent r) @ waiting_for k c') (to_dest k (ru_given r))" for k
      using ord [of k] subseq_prefix_dropped A(4,5) by (cases "k = to") auto
    then have "run_inv iface (r\<lparr>ru_cache := c'\<rparr>)" using a A(2,3) by (simp add: run_inv_def accounted_def in_order_def c_def)
    then show ?thesis using A(1) AddNeighbor by (simp add: c_def)
  next
    case (RemoveNeighbor to)
    have "arp_inv iface (ru_now r) (ArpCache_Remove to c)" unfolding ArpCache_Remove_def by (rule filter_inv(1) [OF i])
    then have "run_inv iface (take_out (\<lambda>(k, e). k \<noteq> to) (ArpCache_Remove to c) r)"
      by (intro run_inv_take_out [OF assms(1)]) (simp_all add: ArpCache_Remove_def c_def)
    then show ?thesis using RemoveNeighbor by (simp add: c_def)
  next
    case RemoveGenerated
    have "arp_inv iface (ru_now r) (RemoveAutoGeneratedEntries c)" unfolding RemoveAutoGeneratedEntries_def by (rule filter_inv(1) [OF i])
    then have "run_inv iface (take_out (\<lambda>(k, e). ce_state e \<noteq> STATIC_AUTOGENERATED) (RemoveAutoGeneratedEntries c) r)"
      by (intro run_inv_take_out [OF assms(1)]) (simp_all add: RemoveAutoGeneratedEntries_def c_def)
    then show ?thesis using RemoveGenerated by (simp add: c_def)
  next
    case FlushCache
    have "arp_inv iface (ru_now r) (ArpCache_Flush c)" using i by (simp add: arp_inv_def ArpCache_Flush_def)
    then have "run_inv iface (take_out (\<lambda>_. False) (ArpCache_Flush c) r)"
      by (intro run_inv_take_out [OF assms(1)]) (simp_all add: ArpCache_Flush_def c_def)
    then show ?thesis using FlushCache by (simp add: c_def)
  qed
qed

lemma arp_reach_inv: "arp_reach iface r \<Longrightarrow> if_ifup iface \<Longrightarrow> run_inv iface r"
proof (induction rule: arp_reach.induct)
  case (arp_init a d w m q)
  show ?case by (simp add: run_inv_def arp_inv_def accounted_def in_order_def arp_start_def ArpCache_init_def waiting_def waiting_for_def ArpCache_Lookup_def)
next
  case (arp_event r e r')
  then show ?case using arp_step_inv [of iface r e] by auto
qed

section \<open>Retransmission ends\<close>

text \<open>The timer runs out \<open>n\<close> times with nothing in between, or until it is off.\<close>

fun timeouts :: "Ipv4Interface \<Rightarrow> nat \<Rightarrow> arp_run \<Rightarrow> arp_run option" where
  "timeouts iface 0 r = Some r"
| "timeouts iface (Suc n) r =
     (case ac_waitReplyTimer (ru_cache r) of
        None \<Rightarrow> Some r
      | Some t \<Rightarrow> do { r \<leftarrow> arp_step iface (Clock t) r; r \<leftarrow> arp_step iface WaitReplyTimeout r; timeouts iface n r })"

lemma timeout_step:
  assumes "run_inv iface r" and "if_ifup iface" and "ac_waitReplyTimer (ru_cache r) = Some t" and "t \<le> TIME_MAX"
  shows "\<exists>r1. arp_step iface (Clock t) r = Some (r\<lparr>ru_now := t\<rparr>) \<and> arp_step iface WaitReplyTimeout (r\<lparr>ru_now := t\<rparr>) = Some r1 \<and>
    run_inv iface r1 \<and> ru_now r1 = t \<and> t \<le> ru_now r + ac_waitReplyTimeout (ru_cache r) \<and>
    ac_maxRetries (ru_cache r1) = ac_maxRetries (ru_cache r) \<and> ac_waitReplyTimeout (ru_cache r1) = ac_waitReplyTimeout (ru_cache r) \<and>
    (ac_waitReplyTimer (ru_cache r1) = None \<longleftrightarrow> (\<forall>(k, e)\<in>set (ac_entries (ru_cache r1)). ce_state e \<noteq> WAIT_REPLY)) \<and>
    ac_entries (ru_cache r1) = map (\<lambda>(k, e). (k, timeout_entry_of t (ac_maxRetries (ru_cache r)) e)) (ac_entries (ru_cache r))"
proof -
  define c where "c = ru_cache r"
  have i: "arp_inv iface (ru_now r) c" using assms(1) by (simp add: run_inv_def c_def)
  have t: "ru_now r \<le> t" "t \<le> ru_now r + ac_waitReplyTimeout c" using i assms(3) by (auto simp: arp_inv_def c_def)
  have en: "arp_enabled iface (Clock t) r" using t(1) assms(3,4) by simp
  have C: "arp_step iface (Clock t) r = Some (r\<lparr>ru_now := t\<rparr>)" by simp
  have r1: "run_inv iface (r\<lparr>ru_now := t\<rparr>)" using arp_step_inv [OF assms(1,2) en] C by simp
  have i1: "arp_inv iface t c" using r1 by (simp add: run_inv_def c_def)
  have en2: "arp_enabled iface WaitReplyTimeout (r\<lparr>ru_now := t\<rparr>)" using assms(3) by simp
  from arp_step_inv [OF r1 assms(2) en2] obtain r2 where r2: "arp_step iface WaitReplyTimeout (r\<lparr>ru_now := t\<rparr>) = Some r2" "run_inv iface r2" by blast
  have "ac_waitReplyTimer c = Some t" using assms(3) by (simp add: c_def)
  from HandleWaitReplyTimeout_inv [OF i1 this] obtain c' out where H: "HandleWaitReplyTimeout t iface c = Some (c', out)"
    "ac_maxRetries c' = ac_maxRetries c" "ac_waitReplyTimeout c' = ac_waitReplyTimeout c"
    "ac_waitReplyTimer c' = None \<longleftrightarrow> (\<forall>(k, e)\<in>set (ac_entries c'). ce_state e \<noteq> WAIT_REPLY)"
    "ac_entries c' = map (\<lambda>(k, e). (k, timeout_entry_of t (ac_maxRetries c) e)) (ac_entries c)"
    by (elim exE conjE) (rule that; assumption)
  have "r2 = log_output 0 (c', out) (r\<lparr>ru_now := t\<rparr>)" using r2(1) H(1) by (simp add: c_def)
  then have c': "c' = ru_cache r2" and now: "ru_now r2 = t" by (simp_all add: log_output_def)
  show ?thesis
    by (intro exI [of _ r2] conjI) (fact C r2 now H(2-5) [unfolded c' c_def] t(2) [unfolded c_def])+
qed

lemma timeouts_end:
  assumes "run_inv iface r" and "if_ifup iface" and "ru_now r + n * ac_waitReplyTimeout (ru_cache r) \<le> TIME_MAX"
    and "\<forall>(k, e)\<in>set (ac_entries (ru_cache r)). ce_state e = WAIT_REPLY \<longrightarrow> unat (ac_maxRetries (ru_cache r)) < unat (ce_retries e) + n"
    and "n = 0 \<longrightarrow> ac_waitReplyTimer (ru_cache r) = None"
  shows "\<exists>r'. timeouts iface n r = Some r' \<and> run_inv iface r' \<and> ac_waitReplyTimer (ru_cache r') = None \<and>
    ru_now r' \<le> ru_now r + n * ac_waitReplyTimeout (ru_cache r)"
  using assms(1,3-5)
proof (induction n arbitrary: r)
  case 0
  then show ?case by simp
next
  case (Suc n)
  show ?case
  proof (cases "ac_waitReplyTimer (ru_cache r)")
    case None
    then show ?thesis using Suc.prems(1) by simp
  next
    case (Some t)
    let ?m = "ac_maxRetries (ru_cache r)"
    have "t \<le> ru_now r + ac_waitReplyTimeout (ru_cache r)" using Suc.prems(1) Some by (auto simp: run_inv_def arp_inv_def)
    then have "t \<le> TIME_MAX" using Suc.prems(2) by simp
    from timeout_step [OF Suc.prems(1) assms(2) Some this] obtain r1 where
      s: "arp_step iface (Clock t) r = Some (r\<lparr>ru_now := t\<rparr>)" "arp_step iface WaitReplyTimeout (r\<lparr>ru_now := t\<rparr>) = Some r1"
        and i1: "run_inv iface r1" and now: "ru_now r1 = t" "t \<le> ru_now r + ac_waitReplyTimeout (ru_cache r)"
        and f: "ac_maxRetries (ru_cache r1) = ?m" "ac_waitReplyTimeout (ru_cache r1) = ac_waitReplyTimeout (ru_cache r)"
        and off: "ac_waitReplyTimer (ru_cache r1) = None \<longleftrightarrow> (\<forall>(k, e)\<in>set (ac_entries (ru_cache r1)). ce_state e \<noteq> WAIT_REPLY)"
        and es: "ac_entries (ru_cache r1) = map (\<lambda>(k, e). (k, timeout_entry_of t ?m e)) (ac_entries (ru_cache r))"
      by (elim exE conjE) (rule that; assumption)
    have more_retries: "unat ?m < unat (ce_retries e') + n"
      if e': "(k, e') \<in> set (ac_entries (ru_cache r1))" "ce_state e' = WAIT_REPLY" for k e'
    proof -
      obtain e where e: "(k, e) \<in> set (ac_entries (ru_cache r))" "e' = timeout_entry_of t ?m e" using e'(1) es by auto
      then have w: "ce_state e = WAIT_REPLY" "ce_retries e < ?m" using e'(2) by (auto simp: timeout_entry_of_def split: if_splits)
      then have "ce_retries e' = ce_retries e + 1" using e(2) by (simp add: timeout_entry_of_def)
      moreover have "unat (ce_retries e + 1) = unat (ce_retries e) + 1"
      proof -
        have "unat (ce_retries e) < unat ?m" "unat ?m < 2 ^ 32" 
          using w(2) unsigned_less [of ?m, where 'a = nat] by (simp_all add: word_less_nat_alt)
        then have "unat (ce_retries e) + 1 < 2 ^ 32" by linarith
        then show ?thesis by (simp add: unat_word_ariths(1))
      qed
      moreover have "unat ?m < unat (ce_retries e) + Suc n" using Suc.prems(3) e(1) w(1) by auto
      ultimately show ?thesis by simp
    qed
    have le: "unat (ce_retries e') \<le> unat ?m" if "(k, e') \<in> set (ac_entries (ru_cache r1))" for k e'
      using i1 that f(1) by (auto simp: run_inv_def arp_inv_def entry_ok_def word_le_nat_alt)
    have "n = 0 \<Longrightarrow> ac_waitReplyTimer (ru_cache r1) = None" unfolding off using more_retries le by fastforce
    then have "\<exists>r'. timeouts iface n r1 = Some r' \<and> run_inv iface r' \<and> ac_waitReplyTimer (ru_cache r') = None \<and>
        ru_now r' \<le> ru_now r1 + n * ac_waitReplyTimeout (ru_cache r1)"
      using Suc.IH [OF i1] more_retries f now Suc.prems(2) by fastforce
    then show ?thesis using s Some now f by auto
  qed
qed

section \<open>Properties\<close>



text \<open>
  C34: waiting ends.  Left alone, the timer runs out at most once more than there are retries; then it is off, no entry waits
  for a reply, and the time this takes is bounded accordingly.
\<close>

theorem arp_resolution_ends:
  assumes "arp_reach iface r" and "if_ifup iface"
    and "ru_now r + (unat (ac_maxRetries (ru_cache r)) + 1) * ac_waitReplyTimeout (ru_cache r) \<le> TIME_MAX"
  shows "\<exists>r'. timeouts iface (unat (ac_maxRetries (ru_cache r)) + 1) r = Some r' \<and> ac_waitReplyTimer (ru_cache r') = None \<and>
    (\<forall>(k, e)\<in>set (ac_entries (ru_cache r')). ce_state e \<noteq> WAIT_REPLY) \<and>
    ru_now r' \<le> ru_now r + (unat (ac_maxRetries (ru_cache r)) + 1) * ac_waitReplyTimeout (ru_cache r)"
proof -
  from timeouts_end [OF arp_reach_inv [OF assms(1,2)] assms(2,3)] obtain r' where
    r': "timeouts iface (unat (ac_maxRetries (ru_cache r)) + 1) r = Some r'" "run_inv iface r'" "ac_waitReplyTimer (ru_cache r') = None"
      "ru_now r' \<le> ru_now r + (unat (ac_maxRetries (ru_cache r)) + 1) * ac_waitReplyTimeout (ru_cache r)" by auto
  then have "\<forall>(k, e)\<in>set (ac_entries (ru_cache r')). ce_state e \<noteq> WAIT_REPLY" by (auto simp: run_inv_def arp_inv_def entry_ok_def)
  then show ?thesis using r' by blast
qed

text \<open>
  The timer that is running does not follow a smaller \<^verbatim>\<open>WaitReplyTimeout\<close>: the entries that wait then expire before it runs out,
  and \<^verbatim>\<open>Lookup\<close> reaches its fatal error.
\<close>

lemma lowered_timeout_is_fatal:
  assumes "ArpCache_Lookup dest c = Some e" and "ce_state e = WAIT_REPLY" and "ce_lastSeen e + w < Now"
  shows "ArpL3_Lookup Now jitter p dest (SetWaitReplyTimeout w c) = None"
proof -
  have "w < Now - ce_lastSeen e" using assms(3) by simp
  then show ?thesis using assms(1,2)
    by (simp add: ArpL3_Lookup_def SetWaitReplyTimeout_def ArpCache_Lookup_def Entry_IsExpired_def GetTimeout_def)
qed

text \<open>An entry that waits and is then made by the helper keeps its packets, and no reply takes them out.\<close>

lemma generated_entry_strands_packets:
  assumes "ArpCache_Lookup to c = Some e" and "ce_state e = WAIT_REPLY" and "\<not> IsInvalid mac"
  shows "\<exists>c' f. NeighborCache_AddEntry Now to mac c = Some c' \<and> ArpCache_Lookup to c' = Some f \<and> ce_pending f = ce_pending e \<and>
    ArpL3_Lookup Now jitter p to c' = Some (Some mac, c', [])"
  using assms
  by (simp add: NeighborCache_AddEntry_def MarkAutoGenerated_def UpdateSeen_def ClearRetries_def Lookup_write_entry ArpL3_Lookup_def
    Entry_IsExpired_def)

section \<open>A run\<close>

definition sample_iface :: Ipv4Interface where
  "sample_iface = \<lparr>if_ifup = True, if_loopback = False, if_ifaddrs = [Ipv4InterfaceAddress_of 0x0a000001 0xffffff00],
     if_NeedsArp = True, if_address = \<lparr>a_type = 1, a_data = [1, 2, 3, 4, 5, 6]\<rparr>,
     if_broadcast = \<lparr>a_type = 1, a_data = [255, 255, 255, 255, 255, 255]\<rparr>, if_IsMulticast = False,
     if_GetMulticast = (\<lambda>_. \<lparr>a_type = 0, a_data = []\<rparr>), if_all = [[Ipv4InterfaceAddress_of 0x0a000001 0xffffff00]]\<rparr>"

definition sample_start :: arp_run where
  "sample_start = arp_start 120 100 1 3 3"

definition sample_datagram :: Datagram where
  "sample_datagram = ([1], Ipv4Header_new)"

definition sample_waiting :: arp_run where
  "sample_waiting = the (arp_step sample_iface (SendPacket 0 sample_datagram 0x0a000002) sample_start)"

lemma sample_up: "if_ifup sample_iface"
  by (simp add: sample_iface_def)

lemma sample_step: "arp_step sample_iface (SendPacket 0 sample_datagram 0x0a000002) sample_start = Some sample_waiting"
proof -
  have r: "arp_reach sample_iface sample_start" unfolding sample_start_def by (rule arp_init)
  have "arp_enabled sample_iface (SendPacket 0 sample_datagram 0x0a000002) sample_start" by (simp add: Ipv4Address_IsMulticast_def)
  from arp_step_inv [OF arp_reach_inv [OF r sample_up] sample_up this] show ?thesis by (auto simp: sample_waiting_def)
qed

lemma sample_reach: "arp_reach sample_iface sample_waiting"
proof (rule arp_event [OF _ _ sample_step])
  show "arp_reach sample_iface sample_start" unfolding sample_start_def by (rule arp_init)
qed (simp add: Ipv4Address_IsMulticast_def)

lemma sample_facts:
  "ru_now sample_waiting = 0" "ac_waitReplyTimer (ru_cache sample_waiting) = Some 1"
  "ac_maxRetries (ru_cache sample_waiting) = 3" "ac_waitReplyTimeout (ru_cache sample_waiting) = 1"
  "waiting (ru_cache sample_waiting) = [sample_datagram]"
  by (simp_all add: sample_waiting_def sample_start_def arp_start_def ArpCache_init_def Ipv4Interface_Send_def sample_iface_def
      Ipv4InterfaceAddress_of_def Ipv4Address_IsBroadcast_def Ipv4Address_IsMulticast_def Ipv4Address_IsSubnetDirectedBroadcast_def
      Ipv4Mask_GetOnes_def Ipv4Mask_GetInverse_def ArpL3_Lookup_def ArpCache_Lookup_def ArpCache_Add_def Entry_new_def MarkWaitReply_def
      Entry_MarkWaitReply_def UpdateSeen_def StartWaitReplyTimer_def write_entry_def log_output_def waiting_def)



lemma arp_resolution_ends_witness:
  "\<exists>r'. timeouts sample_iface 4 sample_waiting = Some r' \<and> ac_waitReplyTimer (ru_cache r') = None \<and>
    (\<forall>(k, e)\<in>set (ac_entries (ru_cache r')). ce_state e \<noteq> WAIT_REPLY) \<and> ru_now r' \<le> 4"
  using arp_resolution_ends [OF sample_reach sample_up] sample_facts by (simp add: TIME_MAX_def)

end
