(* ===== verification/Packet_Tag_List.thy ===== *)
theory Packet_Tag_List
  imports Prelude "HOL-Library.Monad_Syntax"
begin

text \<open>
  The tags of packets (\<^verbatim>\<open>network/model/packet-tag-list.cc\<close> and \<^verbatim>\<open>.h\<close>): lists of nodes that share their tails, counted by
  incoming links and copied before they are changed.  A cell holds a pointer: \<^verbatim>\<open>m_next\<close> of a list object, or \<^verbatim>\<open>next\<close> of a node.
  A pointer to a pointer, like \<^verbatim>\<open>prevNext\<close>, is a cell.  A tag is its type and the bytes it serialises to.  \<open>None\<close> is an access
  through a null or dangling pointer, an assertion that fails, or a loop that does not end.  A count of pointers does not wrap.
\<close>

datatype tag_cell = Head nat | NextOf nat

record TagData =
  td_count :: nat
  td_tid :: u32
  td_data :: "u8 list"

record TagStore =
  ts_ptr :: "tag_cell \<rightharpoonup> nat option"
  ts_node :: "nat \<rightharpoonup> TagData"
  ts_limit :: nat

type_synonym Tag = "u32 \<times> u8 list"

definition TagStore_new :: TagStore where
  "TagStore_new = \<lparr>ts_ptr = Map.empty, ts_node = Map.empty, ts_limit = 0\<rparr>"

section \<open>Memory\<close>

definition write_ptr :: "tag_cell \<Rightarrow> nat option \<Rightarrow> TagStore \<Rightarrow> TagStore option" where
  "write_ptr x p s = (if ts_ptr s x = None then None else Some (s\<lparr>ts_ptr := (ts_ptr s)(x \<mapsto> p)\<rparr>))"

definition set_count :: "(nat \<Rightarrow> nat) \<Rightarrow> nat \<Rightarrow> TagStore \<Rightarrow> TagStore option" where
  "set_count f a s = (case ts_node s a of None \<Rightarrow> None | Some d \<Rightarrow> Some (s\<lparr>ts_node := (ts_node s)(a \<mapsto> d\<lparr>td_count := f (td_count d)\<rparr>)\<rparr>))"

definition incoming :: "nat option \<Rightarrow> TagStore \<Rightarrow> TagStore option" where
  "incoming p s = (case p of None \<Rightarrow> Some s | Some a \<Rightarrow> set_count (\<lambda>n. n + 1) a s)"

definition free_node :: "nat \<Rightarrow> TagStore \<Rightarrow> TagStore option" where
  "free_node a s = (if ts_node s a = None then None else Some (s\<lparr>ts_node := (ts_node s)(a := None), ts_ptr := (ts_ptr s)(NextOf a := None)\<rparr>))"

text \<open>\<^verbatim>\<open>CreateTagData\<close>, and the assignments to the members of the new node.\<close>

definition CreateTagData :: "u32 \<Rightarrow> u8 list \<Rightarrow> nat option \<Rightarrow> TagStore \<Rightarrow> (nat \<times> TagStore) option" where
  "CreateTagData tid bytes next s =
     (if length bytes \<ge> 2 ^ 32 - 1 then None
      else let a = ts_limit s
           in Some (a, s\<lparr>ts_node := (ts_node s)(a \<mapsto> \<lparr>td_count = 1, td_tid = tid, td_data = bytes\<rparr>),
                ts_ptr := (ts_ptr s)(NextOf a \<mapsto> next), ts_limit := a + 1\<rparr>))"

section \<open>Objects\<close>

definition PacketTagList_new :: "nat \<Rightarrow> TagStore \<Rightarrow> TagStore" where
  "PacketTagList_new x s = s\<lparr>ts_ptr := (ts_ptr s)(Head x \<mapsto> None)\<rparr>"

definition PacketTagList_copy :: "nat \<Rightarrow> nat \<Rightarrow> TagStore \<Rightarrow> TagStore option" where
  "PacketTagList_copy x y s = do {
     m_next \<leftarrow> ts_ptr s (Head y);
     incoming m_next (s\<lparr>ts_ptr := (ts_ptr s)(Head x \<mapsto> m_next)\<rparr>) }"

partial_function (option) remove_all_loop :: "nat option \<Rightarrow> nat option \<Rightarrow> TagStore \<Rightarrow> (nat option \<times> TagStore) option" where
  "remove_all_loop prev cur s =
     (case cur of
        None \<Rightarrow> Some (prev, s)
      | Some c \<Rightarrow> do {
          s \<leftarrow> set_count (\<lambda>n. n - 1) c s;
          d \<leftarrow> ts_node s c;
          if td_count d > 0 then Some (prev, s)
          else do {
            s \<leftarrow> (case prev of Some p \<Rightarrow> free_node p s | None \<Rightarrow> Some s);
            next \<leftarrow> ts_ptr s (NextOf c);
            remove_all_loop (Some c) next s } })"

definition RemoveAll :: "nat \<Rightarrow> TagStore \<Rightarrow> TagStore option" where
  "RemoveAll x s = do {
     m_next \<leftarrow> ts_ptr s (Head x);
     (prev, s) \<leftarrow> remove_all_loop None m_next s;
     s \<leftarrow> (case prev of Some p \<Rightarrow> free_node p s | None \<Rightarrow> Some s);
     write_ptr (Head x) None s }"

definition PacketTagList_assign :: "nat \<Rightarrow> nat \<Rightarrow> TagStore \<Rightarrow> TagStore option" where
  "PacketTagList_assign x y s = do {
     m_next \<leftarrow> ts_ptr s (Head x);
     o_next \<leftarrow> ts_ptr s (Head y);
     if m_next = o_next then Some s
     else do {
       s \<leftarrow> RemoveAll x s;
       o_next \<leftarrow> ts_ptr s (Head y);
       s \<leftarrow> write_ptr (Head x) o_next s;
       incoming o_next s } }"

definition PacketTagList_destroy :: "nat \<Rightarrow> TagStore \<Rightarrow> TagStore option" where
  "PacketTagList_destroy x s = do { s \<leftarrow> RemoveAll x s; Some (s\<lparr>ts_ptr := (ts_ptr s)(Head x := None)\<rparr>) }"

section \<open>Reading and adding\<close>

partial_function (option) find_tid :: "u32 \<Rightarrow> nat option \<Rightarrow> TagStore \<Rightarrow> nat option option" where
  "find_tid tid cur s =
     (case cur of
        None \<Rightarrow> Some None
      | Some c \<Rightarrow> do {
          d \<leftarrow> ts_node s c;
          if td_tid d = tid then Some (Some c) else do { next \<leftarrow> ts_ptr s (NextOf c); find_tid tid next s } })"

definition Tag_Peek :: "u32 \<Rightarrow> nat \<Rightarrow> TagStore \<Rightarrow> u8 list option option" where
  "Tag_Peek tid x s = do {
     m_next \<leftarrow> ts_ptr s (Head x);
     r \<leftarrow> find_tid tid m_next s;
     (case r of None \<Rightarrow> Some None | Some c \<Rightarrow> map_option (\<lambda>d. Some (td_data d)) (ts_node s c)) }"

definition Tag_Add :: "Tag \<Rightarrow> nat \<Rightarrow> TagStore \<Rightarrow> TagStore option" where
  "Tag_Add tag x s = do {
     m_next \<leftarrow> ts_ptr s (Head x);
     r \<leftarrow> find_tid (fst tag) m_next s;
     if r \<noteq> None then None
     else do {
       (head, s) \<leftarrow> CreateTagData (fst tag) (snd tag) m_next s;
       write_ptr (Head x) (Some head) s } }"

section \<open>Copy on write\<close>

text \<open>Where the first loop of \<^verbatim>\<open>COWTraverse\<close> stops.\<close>

datatype cow_stop = ListEnd | FoundBeforeMerge nat tag_cell | Merge nat tag_cell

partial_function (option) cow_find :: "u32 \<Rightarrow> nat option \<Rightarrow> tag_cell \<Rightarrow> TagStore \<Rightarrow> cow_stop option" where
  "cow_find tid cur prevNext s =
     (case cur of
        None \<Rightarrow> Some ListEnd
      | Some c \<Rightarrow> do {
          d \<leftarrow> ts_node s c;
          if td_count d > 1 then Some (Merge c prevNext)
          else if td_tid d = tid then Some (FoundBeforeMerge c prevNext)
          else do { next \<leftarrow> ts_ptr s (NextOf c); cow_find tid next (NextOf c) s } })"

text \<open>The loop that copies nodes until the type is found.\<close>

partial_function (option) cow_copy :: "u32 \<Rightarrow> nat \<Rightarrow> tag_cell \<Rightarrow> TagStore \<Rightarrow> (nat \<times> tag_cell \<times> TagStore) option" where
  "cow_copy tid cur prevNext s = do {
     d \<leftarrow> ts_node s cur;
     if td_tid d = tid then Some (cur, prevNext, s)
     else if \<not> td_count d > 1 then None
     else do {
       s \<leftarrow> set_count (\<lambda>n. n - 1) cur s;
       next \<leftarrow> ts_ptr s (NextOf cur);
       (copy, s) \<leftarrow> CreateTagData (td_tid d) (td_data d) next s;
       n \<leftarrow> next;
       s \<leftarrow> set_count (\<lambda>n. n + 1) n s;
       s \<leftarrow> write_ptr prevNext (Some copy) s;
       cow_copy tid n (NextOf copy) s } }"

text \<open>The writers: what they found in the node, and the store.\<close>

type_synonym cow_writer = "bool \<Rightarrow> nat \<Rightarrow> tag_cell \<Rightarrow> TagStore \<Rightarrow> (u8 list \<times> TagStore) option"

definition RemoveWriter :: cow_writer where
  "RemoveWriter preMerge cur prevNext s = do {
     d \<leftarrow> ts_node s cur;
     next \<leftarrow> ts_ptr s (NextOf cur);
     s \<leftarrow> write_ptr prevNext next s;
     if preMerge then do { s \<leftarrow> free_node cur s; Some (td_data d, s) }
     else do {
       s \<leftarrow> set_count (\<lambda>n. n - 1) cur s;
       s \<leftarrow> incoming next s;
       Some (td_data d, s) } }"

text \<open>Rewriting in place has as many bytes as the node; what the tag does not write stays.\<close>

definition ReplaceWriter :: "Tag \<Rightarrow> cow_writer" where
  "ReplaceWriter tag preMerge cur prevNext s = do {
     d \<leftarrow> ts_node s cur;
     if preMerge then
       (if length (snd tag) > length (td_data d) then None
        else Some (snd tag, s\<lparr>ts_node := (ts_node s)(cur \<mapsto> d\<lparr>td_data := snd tag @ drop (length (snd tag)) (td_data d)\<rparr>)\<rparr>))
     else do {
       s \<leftarrow> set_count (\<lambda>n. n - 1) cur s;
       next \<leftarrow> ts_ptr s (NextOf cur);
       (copy, s) \<leftarrow> CreateTagData (fst tag) (snd tag) next s;
       s \<leftarrow> incoming next s;
       s \<leftarrow> write_ptr prevNext (Some copy) s;
       Some (snd tag, s) } }"

definition COWTraverse :: "u32 \<Rightarrow> cow_writer \<Rightarrow> nat \<Rightarrow> TagStore \<Rightarrow> (u8 list option \<times> TagStore) option" where
  "COWTraverse tid Writer x s = do {
     m_next \<leftarrow> ts_ptr s (Head x);
     stop \<leftarrow> cow_find tid m_next (Head x) s;
     (case stop of
        ListEnd \<Rightarrow> Some (None, s)
      | FoundBeforeMerge cur prevNext \<Rightarrow> map_option (\<lambda>(r, s). (Some r, s)) (Writer True cur prevNext s)
      | Merge cur prevNext \<Rightarrow> do {
          it \<leftarrow> find_tid tid (Some cur) s;
          if it = None then Some (None, s)
          else do {
            (cur, prevNext, s) \<leftarrow> cow_copy tid cur prevNext s;
            d \<leftarrow> ts_node s cur;
            if \<not> td_count d > 1 then None
            else map_option (\<lambda>(r, s). (Some r, s)) (Writer False cur prevNext s) } }) }"

definition Tag_Remove :: "u32 \<Rightarrow> nat \<Rightarrow> TagStore \<Rightarrow> (u8 list option \<times> TagStore) option" where
  "Tag_Remove tid x s = COWTraverse tid RemoveWriter x s"

definition Tag_Replace :: "Tag \<Rightarrow> nat \<Rightarrow> TagStore \<Rightarrow> (bool \<times> TagStore) option" where
  "Tag_Replace tag x s = do {
     (found, s) \<leftarrow> COWTraverse (fst tag) (ReplaceWriter tag) x s;
     if found = None then do { s \<leftarrow> Tag_Add tag x s; Some (False, s) } else Some (True, s) }"

end
