(* ===== verification/Packet_Tag_Inv.thy ===== *)
theory Packet_Tag_Inv
  imports Packet_Tag_List
begin

text \<open>
  The heap of tag lists: the nodes each object reaches, the invariant that counts are the numbers of incoming links, which nodes
  only one object reaches, and what each change of a pointer does to them.
\<close>

section \<open>Paths\<close>

fun cpath :: "TagStore \<Rightarrow> tag_cell \<Rightarrow> nat list \<Rightarrow> bool" where
  "cpath s x [] \<longleftrightarrow> ts_ptr s x = Some None"
| "cpath s x (a # ns) \<longleftrightarrow> ts_ptr s x = Some (Some a) \<and> a \<in> dom (ts_node s) \<and> cpath s (NextOf a) ns"

fun linked :: "TagStore \<Rightarrow> tag_cell \<Rightarrow> nat list \<Rightarrow> bool" where
  "linked s x [] \<longleftrightarrow> True"
| "linked s x (a # ns) \<longleftrightarrow> ts_ptr s x = Some (Some a) \<and> a \<in> dom (ts_node s) \<and> linked s (NextOf a) ns"

fun last_cell :: "tag_cell \<Rightarrow> nat list \<Rightarrow> tag_cell" where
  "last_cell x [] = x"
| "last_cell x (a # ns) = last_cell (NextOf a) ns"

lemma cpath_append: "cpath s x (us @ vs) \<longleftrightarrow> linked s x us \<and> cpath s (last_cell x us) vs"
  by (induction us arbitrary: x) auto

lemma last_cell_snoc [simp]: "last_cell x (us @ [a]) = NextOf a"
  by (induction us arbitrary: x) auto

lemma last_cell_cases: "last_cell x us = x \<and> us = [] \<or> (\<exists>a\<in>set us. last_cell x us = NextOf a)"
  by (cases us rule: rev_cases) auto

lemma linked_snoc: "linked s x (us @ [a]) \<longleftrightarrow> linked s x us \<and> ts_ptr s (last_cell x us) = Some (Some a) \<and> a \<in> dom (ts_node s)"
  by (induction us arbitrary: x) auto

lemma cpath_nodes: "cpath s x ns \<Longrightarrow> set ns \<subseteq> dom (ts_node s)"
  by (induction ns arbitrary: x) auto

lemma cpath_unique: "cpath s x ns \<Longrightarrow> cpath s x ms \<Longrightarrow> ns = ms"
proof (induction ns arbitrary: x ms)
  case Nil
  then show ?case by (cases ms) auto
next
  case (Cons a ns)
  then show ?case by (cases ms) auto
qed

lemma cpath_suffix: "cpath s x (us @ a # vs) \<Longrightarrow> cpath s (NextOf a) vs"
  by (simp add: cpath_append)

lemma cpath_distinct: "cpath s x ns \<Longrightarrow> distinct ns"
proof (induction ns arbitrary: x)
  case (Cons a ns)
  have "a \<notin> set ns"
  proof
    assume "a \<in> set ns"
    then obtain us vs where ns: "ns = us @ a # vs" by (meson split_list)
    have "cpath s (NextOf a) ns" "cpath s (NextOf a) vs" using Cons.prems cpath_suffix [of s x "a # us" a vs] ns by simp_all
    from cpath_unique [OF this] ns show False by simp
  qed
  then show ?case using Cons by auto
qed simp

text \<open>What a path depends on.\<close>

lemma cpath_frame:
  assumes "cpath s x ns" and "ts_ptr s' x = ts_ptr s x" and "\<And>a. a \<in> set ns \<Longrightarrow> ts_ptr s' (NextOf a) = ts_ptr s (NextOf a)"
    and "set ns \<subseteq> dom (ts_node s')"
  shows "cpath s' x ns"
  using assms by (induction ns arbitrary: x) auto

lemma linked_frame:
  assumes "linked s x us" and "ts_ptr s' x = ts_ptr s x" and "\<And>a. a \<in> set (butlast us) \<Longrightarrow> ts_ptr s' (NextOf a) = ts_ptr s (NextOf a)"
    and "set us \<subseteq> dom (ts_node s')" and "us \<noteq> []"
  shows "linked s' x us"
  using assms
proof (induction us arbitrary: x)
  case (Cons a us)
  then show ?case by (cases us) auto
qed simp

section \<open>The invariant\<close>

definition refs :: "TagStore \<Rightarrow> nat \<Rightarrow> nat" where
  "refs s a = card {x. ts_ptr s x = Some (Some a)}"

text \<open>\<open>f\<close> gives the nodes each object reaches.\<close>

definition tag_inv :: "TagStore \<Rightarrow> (nat \<rightharpoonup> nat list) \<Rightarrow> bool" where
  "tag_inv s f \<longleftrightarrow> finite (dom (ts_ptr s)) \<and>
     (\<forall>x. ts_ptr s (Head x) \<noteq> None \<longleftrightarrow> x \<in> dom f) \<and> (\<forall>a. ts_ptr s (NextOf a) \<noteq> None \<longleftrightarrow> a \<in> dom (ts_node s)) \<and>
     (\<forall>x ns. f x = Some ns \<longrightarrow> cpath s (Head x) ns) \<and>
     (\<forall>a\<in>dom (ts_node s). \<exists>x ns. f x = Some ns \<and> a \<in> set ns) \<and>
     (\<forall>a d. ts_node s a = Some d \<longrightarrow> td_count d = refs s a \<and> a < ts_limit s)"

lemma tag_invD:
  assumes "tag_inv s f"
  shows "finite (dom (ts_ptr s))" and "\<And>x. ts_ptr s (Head x) \<noteq> None \<longleftrightarrow> x \<in> dom f" and "\<And>a. ts_ptr s (NextOf a) \<noteq> None \<longleftrightarrow> a \<in> dom (ts_node s)"
    and "\<And>x ns. f x = Some ns \<Longrightarrow> cpath s (Head x) ns" and "\<And>a. a \<in> dom (ts_node s) \<Longrightarrow> \<exists>x ns. f x = Some ns \<and> a \<in> set ns"
    and "\<And>a d. ts_node s a = Some d \<Longrightarrow> td_count d = refs s a" and "\<And>a. a \<in> dom (ts_node s) \<Longrightarrow> a < ts_limit s"
  using assms by (auto simp: tag_inv_def)

text \<open>The cell that points to a node of a path.\<close>

lemma linked_cell: "linked s x us \<Longrightarrow> a \<in> set us \<Longrightarrow> \<exists>vs ws. us = vs @ a # ws \<and> ts_ptr s (last_cell x vs) = Some (Some a)"
proof (induction us arbitrary: x)
  case (Cons b us)
  show ?case
  proof (cases "a = b")
    case True
    then have "b # us = [] @ a # us \<and> ts_ptr s (last_cell x []) = Some (Some a)" using Cons.prems by simp
    then show ?thesis by blast
  next
    case False
    then obtain vs ws where "us = vs @ a # ws" "ts_ptr s (last_cell (NextOf b) vs) = Some (Some a)"
      using Cons.IH [of "NextOf b"] Cons.prems by auto
    then have "b # us = (b # vs) @ a # ws \<and> ts_ptr s (last_cell x (b # vs)) = Some (Some a)" by simp
    then show ?thesis by blast
  qed
qed simp

lemma cpath_cell: "cpath s x ns \<Longrightarrow> a \<in> set ns \<Longrightarrow> \<exists>vs ws. ns = vs @ a # ws \<and> ts_ptr s (last_cell x vs) = Some (Some a)"
  using linked_cell [of s x ns a] cpath_append [of s x ns "[]"] by simp

lemma finite_refs: "finite (dom (ts_ptr s)) \<Longrightarrow> finite {x. ts_ptr s x = Some (Some a)}"
  by (rule finite_subset [of _ "dom (ts_ptr s)"]) auto

lemma refs_pos: "finite (dom (ts_ptr s)) \<Longrightarrow> ts_ptr s x = Some (Some a) \<Longrightarrow> 0 < refs s a"
  using finite_refs [of s a] by (auto simp: refs_def card_gt_0_iff)

lemma refs_one: "refs s a = 1 \<Longrightarrow> ts_ptr s x = Some (Some a) \<Longrightarrow> ts_ptr s y = Some (Some a) \<Longrightarrow> x = y"
proof -
  assume r: "refs s a = 1" and xy: "ts_ptr s x = Some (Some a)" "ts_ptr s y = Some (Some a)"
  obtain z where "{x. ts_ptr s x = Some (Some a)} = {z}" using r by (auto simp: refs_def card_1_singleton_iff)
  then have "x \<in> {z}" "y \<in> {z}" using xy by blast+
  then show "x = y" by simp
qed

text \<open>A node that one object reaches over nodes with one incoming link each is reached by no other object.\<close>

lemma exclusive_prefix:
  assumes "tag_inv s f" and "f x = Some (us @ vs)" and "\<forall>a\<in>set us. refs s a = 1" and "y \<noteq> x" and "f y = Some ms"
  shows "set us \<inter> set ms = {}"
  using assms(2,3)
proof (induction us arbitrary: vs rule: rev_induct)
  case (snoc a us)
  have IH: "set us \<inter> set ms = {}" using snoc.IH [of "a # vs"] snoc.prems by simp
  have x: "ts_ptr s (last_cell (Head x) us) = Some (Some a)"
    using tag_invD(4) [OF assms(1) snoc.prems(1)] by (simp add: cpath_append)
  have "a \<notin> set ms"
  proof
    assume "a \<in> set ms"
    from cpath_cell [OF tag_invD(4) [OF assms(1,5)] this] obtain vs' ws' where
      y: "ms = vs' @ a # ws'" "ts_ptr s (last_cell (Head y) vs') = Some (Some a)" by blast
    have "last_cell (Head x) us = last_cell (Head y) vs'" using refs_one [OF _ x y(2)] snoc.prems(2) by simp
    then show False using last_cell_cases [of "Head x" us] last_cell_cases [of "Head y" vs'] IH assms(4) y(1) by auto
  qed
  then show ?case using IH by simp
qed simp

text \<open>A node with several incoming links is reached by another object, and so are all behind it.\<close>

lemma link_on_path:
  assumes "tag_inv s f" and "ts_ptr s z = Some (Some a)"
  shows "\<exists>y ms vs ws. f y = Some ms \<and> ms = vs @ a # ws \<and> z = last_cell (Head y) vs"
proof (cases z)
  case (Head y)
  then obtain ms where ms: "f y = Some ms" using tag_invD(2) [OF assms(1), of y] assms(2) by auto
  then have "cpath s z ms" using tag_invD(4) [OF assms(1)] Head by simp
  then obtain ws where "ms = a # ws" using assms(2) by (cases ms) auto
  then have "ms = [] @ a # ws \<and> z = last_cell (Head y) []" using Head by simp
  then show ?thesis using ms by blast
next
  case (NextOf b)
  then have "b \<in> dom (ts_node s)" using tag_invD(3) [OF assms(1), of b] assms(2) by simp
  then obtain y ms where ms: "f y = Some ms" "b \<in> set ms" using tag_invD(5) [OF assms(1)] by blast
  then obtain vs ws where sp: "ms = vs @ b # ws" by (meson split_list)
  have "cpath s (NextOf b) ws" using tag_invD(4) [OF assms(1) ms(1)] sp cpath_suffix by simp
  then obtain ws' where "ws = a # ws'" using assms(2) NextOf by (cases ws) auto
  then have "ms = (vs @ [b]) @ a # ws' \<and> z = last_cell (Head y) (vs @ [b])" using sp NextOf by simp
  then show ?thesis using ms(1) by blast
qed

lemma shared_node:
  assumes "tag_inv s f" and "f x = Some (us @ a # vs)" and "1 < refs s a"
  shows "\<exists>y ms. y \<noteq> x \<and> f y = Some ms \<and> insert a (set vs) \<subseteq> set ms"
proof -
  have p: "cpath s (Head x) (us @ a # vs)" by (rule tag_invD(4) [OF assms(1,2)])
  define w where "w = last_cell (Head x) us"
  have w: "ts_ptr s w = Some (Some a)" using p by (simp add: cpath_append w_def)
  have "{z. ts_ptr s z = Some (Some a)} \<noteq> {w}" using assms(3) by (auto simp: refs_def)
  then obtain z where z: "ts_ptr s z = Some (Some a)" "z \<noteq> w" using w by blast
  from link_on_path [OF assms(1) z(1)] obtain y ms vs' ws where y: "f y = Some ms" "ms = vs' @ a # ws" "z = last_cell (Head y) vs'" by blast
  have py: "cpath s (Head y) ms" by (rule tag_invD(4) [OF assms(1) y(1)])
  have "y \<noteq> x"
  proof
    assume "y = x"
    then have eq: "vs' @ a # ws = us @ a # vs" using y assms(2) by simp
    moreover have "distinct (us @ a # vs)" by (rule cpath_distinct [OF p])
    ultimately have "vs' = us" by (metis append_Cons_eq_iff distinct_append not_distinct_conv_prefix distinct.simps(2) disjoint_iff list.set_intros(1))
    then show False using z(2) y(3) \<open>y = x\<close> by (simp add: w_def)
  qed
  moreover have "ws = vs" using cpath_unique [of s "NextOf a" ws vs] cpath_suffix p py y(2) by blast
  ultimately show ?thesis using y by auto
qed

section \<open>Changing a pointer\<close>

lemma refs_set:
  assumes "finite (dom (ts_ptr s))" and "ts_ptr s x = Some p" and "ts_ptr s' = (ts_ptr s)(x \<mapsto> q)"
  shows "refs s' a + (if p = Some a then 1 else 0) = refs s a + (if q = Some a then 1 else 0)"
proof -
  define S where "S = {y. y \<noteq> x \<and> ts_ptr s y = Some (Some a)}"
  have f: "finite S" unfolding S_def by (rule finite_subset [OF _ finite_refs [OF assms(1), of a]]) auto
  have "x \<notin> S" by (simp add: S_def)
  have "{y. ts_ptr s y = Some (Some a)} = (if p = Some a then insert x S else S)" using assms(2) by (auto simp: S_def)
  moreover have "{y. ts_ptr s' y = Some (Some a)} = (if q = Some a then insert x S else S)" using assms(3) by (auto simp: S_def)
  ultimately show ?thesis using f \<open>x \<notin> S\<close> by (simp add: refs_def)
qed

lemma refs_new:
  assumes "finite (dom (ts_ptr s))" and "ts_ptr s x = None" and "ts_ptr s' = (ts_ptr s)(x \<mapsto> q)"
  shows "refs s' a = refs s a + (if q = Some a then 1 else 0)"
proof -
  define S where "S = {y. ts_ptr s y = Some (Some a)}"
  have f: "finite S" unfolding S_def by (rule finite_refs [OF assms(1)])
  have "x \<notin> S" using assms(2) by (simp add: S_def)
  moreover have "{y. ts_ptr s' y = Some (Some a)} = (if q = Some a then insert x S else S)" using assms(2,3) by (auto simp: S_def)
  ultimately show ?thesis using f by (simp add: refs_def S_def [symmetric])
qed

lemma refs_gone:
  assumes "finite (dom (ts_ptr s))" and "ts_ptr s x = Some p" and "ts_ptr s' = (ts_ptr s)(x := None)"
  shows "refs s' a + (if p = Some a then 1 else 0) = refs s a"
proof -
  have "ts_ptr s' x = None" "ts_ptr s = (ts_ptr s')(x \<mapsto> p)" using assms by auto
  moreover have "finite (dom (ts_ptr s'))" using assms(1,3) by simp
  ultimately show ?thesis using refs_new [of s' x s p a] by simp
qed

section \<open>Operations on nodes\<close>

text \<open>Each operation on the heap of tag lists: it succeeds, keeps the invariant, and changes the tags of one object only.\<close>

definition tag_of :: "TagStore \<Rightarrow> nat \<Rightarrow> Tag" where
  "tag_of s a = (td_tid (the (ts_node s a)), td_data (the (ts_node s a)))"

text \<open>The nodes that were there have the same tags.\<close>

definition same_tags :: "TagStore \<Rightarrow> TagStore \<Rightarrow> bool" where
  "same_tags s s' \<longleftrightarrow> (\<forall>a\<in>dom (ts_node s). tag_of s' a = tag_of s a)"

lemma ptr_target: "tag_inv s f \<Longrightarrow> ts_ptr s x = Some (Some a) \<Longrightarrow> a \<in> dom (ts_node s)"
proof -
  assume i: "tag_inv s f" and "ts_ptr s x = Some (Some a)"
  from link_on_path [OF this] obtain y ms vs ws where "f y = Some ms" "ms = vs @ a # ws" by blast
  then show ?thesis using cpath_nodes [OF tag_invD(4) [OF i]] by fastforce
qed

lemma refs_absent: "tag_inv s f \<Longrightarrow> a \<notin> dom (ts_node s) \<Longrightarrow> refs s a = 0"
proof -
  assume i: "tag_inv s f" and a: "a \<notin> dom (ts_node s)"
  have "{x. ts_ptr s x = Some (Some a)} = {}" using ptr_target [OF i] a by blast
  then show ?thesis by (simp add: refs_def)
qed

lemma fresh_node: "tag_inv s f \<Longrightarrow> ts_limit s \<notin> dom (ts_node s) \<and> ts_ptr s (NextOf (ts_limit s)) = None \<and> refs s (ts_limit s) = 0"
proof -
  assume i: "tag_inv s f"
  then have n: "ts_limit s \<notin> dom (ts_node s)" using tag_invD(7) by blast
  then show ?thesis using tag_invD(3) [OF i] refs_absent [OF i n] by blast
qed

lemma node_refs_pos: "tag_inv s f \<Longrightarrow> a \<in> dom (ts_node s) \<Longrightarrow> 0 < refs s a"
proof -
  assume i: "tag_inv s f" and a: "a \<in> dom (ts_node s)"
  then obtain x ns where "f x = Some ns" "a \<in> set ns" using tag_invD(5) by blast
  from cpath_cell [OF tag_invD(4) [OF i this(1)] this(2)] obtain z where "ts_ptr s z = Some (Some a)" by blast
  then show ?thesis by (rule refs_pos [OF tag_invD(1) [OF i]])
qed

section \<open>A node put in the place of another\<close>

text \<open>\<open>copy_node\<close> is what \<^verbatim>\<open>COWTraverse\<close> and \<^verbatim>\<open>ReplaceWriter\<close> do with a shared node.\<close>

lemma copy_node:
  assumes "tag_inv s f" and "f x = Some (us @ cur # vs)" and "\<forall>a\<in>set us. refs s a = 1" and "1 < refs s cur"
    and "length bytes < 2 ^ 32 - 1"
  shows "\<exists>s1 next s2 s3 s'. set_count (\<lambda>n. n - 1) cur s = Some s1 \<and> ts_ptr s1 (NextOf cur) = Some next \<and>
    next = (case vs of [] \<Rightarrow> None | b # _ \<Rightarrow> Some b) \<and>
    CreateTagData tid bytes next s1 = Some (ts_limit s, s2) \<and> incoming next s2 = Some s3 \<and>
    write_ptr (last_cell (Head x) us) (Some (ts_limit s)) s3 = Some s' \<and>
    tag_inv s' (f(x \<mapsto> us @ ts_limit s # vs)) \<and> same_tags s s' \<and> tag_of s' (ts_limit s) = (tid, bytes) \<and>
    refs s' (ts_limit s) = 1 \<and> (\<forall>a\<in>set us. refs s' a = 1) \<and> (\<forall>b ws. vs = b # ws \<longrightarrow> 1 < refs s' b) \<and>
    dom (ts_node s') = insert (ts_limit s) (dom (ts_node s))"
proof -
  define c where "c = ts_limit s"
  define pc where "pc = last_cell (Head x) us"
  define q where "q = (case vs of [] \<Rightarrow> None | b # _ \<Rightarrow> Some b)"
  have p: "cpath s (Head x) (us @ cur # vs)" by (rule tag_invD(4) [OF assms(1,2)])
  have pl: "linked s (Head x) us" and ppc: "ts_ptr s pc = Some (Some cur)" and pn: "cpath s (NextOf cur) vs" and cn: "cur \<in> dom (ts_node s)"
    using p by (simp_all add: cpath_append pc_def)
  have nq: "ts_ptr s (NextOf cur) = Some q" using pn by (cases vs) (simp_all add: q_def)
  have dist: "distinct (us @ cur # vs)" by (rule cpath_distinct [OF p])
  have cf: "c \<notin> dom (ts_node s)" "ts_ptr s (NextOf c) = None" "refs s c = 0" using fresh_node [OF assms(1)] by (simp_all add: c_def)
  have cc: "c \<noteq> cur" using cf(1) cn by auto
  have qn: "q = Some b \<Longrightarrow> b \<in> dom (ts_node s) \<and> b \<noteq> cur \<and> b \<noteq> c" for b
    using ptr_target [OF assms(1), of "NextOf cur" b] nq cf(1) dist by (cases vs) (auto simp: q_def)
  obtain d where d: "ts_node s cur = Some d" using cn by blast
  define s1 where "s1 = s\<lparr>ts_node := (ts_node s)(cur \<mapsto> d\<lparr>td_count := td_count d - 1\<rparr>)\<rparr>"
  define s2 where "s2 = s1\<lparr>ts_node := (ts_node s1)(c \<mapsto> \<lparr>td_count = 1, td_tid = tid, td_data = bytes\<rparr>), ts_ptr := (ts_ptr s)(NextOf c \<mapsto> q), ts_limit := c + 1\<rparr>"
  define bump where "bump = (\<lambda>a e. if q = Some a then e\<lparr>td_count := td_count e + 1\<rparr> else (e :: TagData))"
  define s3 where "s3 = s2\<lparr>ts_node := (\<lambda>a. map_option (bump a) (ts_node s2 a))\<rparr>"
  define s' where "s' = s3\<lparr>ts_ptr := (ts_ptr s2)(pc \<mapsto> Some c)\<rparr>"
  have S1: "set_count (\<lambda>n. n - 1) cur s = Some s1" by (simp add: set_count_def d s1_def)
  have P1: "ts_ptr s1 (NextOf cur) = Some q" using nq by (simp add: s1_def)
  have S2: "CreateTagData tid bytes q s1 = Some (c, s2)" using assms(5) by (simp add: CreateTagData_def s2_def s1_def c_def Let_def)
  have S3: "incoming q s2 = Some s3"
  proof (cases q)
    case None
    then have "bump = (\<lambda>a e. e)" by (simp add: bump_def)
    then show ?thesis using None by (simp add: incoming_def s3_def map_option.id [unfolded id_def])
  next
    case (Some b)
    then obtain e where e: "ts_node s2 b = Some e" using qn [OF Some] by (auto simp: s2_def s1_def)
    have "(ts_node s2)(b \<mapsto> e\<lparr>td_count := td_count e + 1\<rparr>) = (\<lambda>a. map_option (bump a) (ts_node s2 a))"
      using e Some by (auto simp: bump_def map_option.id [unfolded id_def])
    then show ?thesis using Some e by (simp add: incoming_def set_count_def s3_def)
  qed
  have pcc: "pc \<noteq> NextOf c" using ppc cf(2) by auto
  have S4: "write_ptr pc (Some c) s3 = Some s'" using ppc pcc by (simp add: write_ptr_def s3_def s2_def s'_def)
  have nodes: "dom (ts_node s') = insert c (dom (ts_node s))" using d by (auto simp: s'_def s3_def s2_def s1_def split: if_splits)
  have ptrs: "ts_ptr s' = (ts_ptr s)(NextOf c \<mapsto> q, pc \<mapsto> Some c)" by (simp add: s'_def s2_def)
  have pcx: "pc = Head x \<or> (\<exists>a\<in>set us. pc = NextOf a)" using last_cell_cases [of "Head x" us] by (auto simp: pc_def)
  have other: "set us \<inter> set ms = {}" "c \<notin> set ms" "cpath s (Head y) ms" if "y \<noteq> x" "f y = Some ms" for y ms
    using exclusive_prefix [OF assms(1,2,3) that] tag_invD(4) [OF assms(1) that(2)] cpath_nodes cf(1) by blast+
  have frame: "cpath s' (Head y) ms" if y: "y \<noteq> x" "f y = Some ms" for y ms
  proof (rule cpath_frame [OF other(3) [OF y]])
    show "ts_ptr s' (Head y) = ts_ptr s (Head y)" using pcx y(1) by (auto simp: ptrs)
    show "a \<in> set ms \<Longrightarrow> ts_ptr s' (NextOf a) = ts_ptr s (NextOf a)" for a using pcx other(1,2) [OF y] by (auto simp: ptrs)
    show "set ms \<subseteq> dom (ts_node s')" using cpath_nodes [OF other(3) [OF y]] nodes by auto
  qed
  have cs: "c \<notin> set (us @ cur # vs)" using cpath_nodes [OF p] cf(1) by blast
  have "linked s' (Head x) us"
  proof (cases us rule: rev_cases)
    case Nil
    then show ?thesis by simp
  next
    case (snoc ws a)
    show ?thesis
    proof (rule linked_frame [OF pl])
      show "ts_ptr s' (Head x) = ts_ptr s (Head x)" using snoc by (simp add: ptrs pc_def)
      show "a' \<in> set (butlast us) \<Longrightarrow> ts_ptr s' (NextOf a') = ts_ptr s (NextOf a')" for a'
        using snoc dist cs by (auto simp: ptrs pc_def)
      show "set us \<subseteq> dom (ts_node s')" using cpath_nodes [OF p] nodes by auto
    qed (use snoc in simp)
  qed
  moreover have "cpath s' (NextOf c) vs"
  proof -
    have "ts_ptr s' (NextOf c) = Some q" using pcc by (simp add: ptrs)
    moreover have "cpath s' (NextOf b) ws" if "vs = b # ws" for b ws
    proof (rule cpath_frame [of s])
      show "cpath s (NextOf b) ws" using pn that by simp
      have "NextOf a \<noteq> pc" if "a \<in> set vs" for a using pcx dist that by auto
      then show "ts_ptr s' (NextOf b) = ts_ptr s (NextOf b)" "\<And>a. a \<in> set ws \<Longrightarrow> ts_ptr s' (NextOf a) = ts_ptr s (NextOf a)"
        using cs that by (auto simp: ptrs)
      show "set ws \<subseteq> dom (ts_node s')" using cpath_nodes [OF pn] nodes that by auto
    qed
    ultimately show ?thesis using qn nodes by (cases vs) (auto simp: q_def)
  qed
  ultimately have mine: "cpath s' (Head x) (us @ c # vs)" using nodes by (simp add: cpath_append ptrs pc_def)
  define t where "t = s\<lparr>ts_ptr := (ts_ptr s)(NextOf c \<mapsto> q)\<rparr>"
  have rt: "refs t a = refs s a + (if q = Some a then 1 else 0)" for a
    using refs_new [OF tag_invD(1) [OF assms(1)] cf(2), of t q] by (simp add: t_def)
  have "finite (dom (ts_ptr t))" using tag_invD(1) [OF assms(1)] by (simp add: t_def)
  moreover have "ts_ptr t pc = Some (Some cur)" using ppc pcc by (simp add: t_def)
  moreover have "ts_ptr s' = (ts_ptr t)(pc \<mapsto> Some c)" by (simp add: ptrs t_def)
  ultimately have r: "refs s' a + (if cur = a then 1 else 0) = refs s a + (if q = Some a then 1 else 0) + (if c = a then 1 else 0)" for a
    using refs_set [of t pc "Some cur" s' "Some c" a] rt by simp
  have rc: "refs s' c = 1" using r [of c] cf(3) cc qn by (cases "q = Some c") auto
  have "tag_inv s' (f(x \<mapsto> us @ c # vs))" unfolding tag_inv_def
  proof (intro conjI allI impI ballI)
    show "finite (dom (ts_ptr s'))" using tag_invD(1) [OF assms(1)] by (simp add: ptrs)
    show "ts_ptr s' (Head y) \<noteq> None \<longleftrightarrow> y \<in> dom (f(x \<mapsto> us @ c # vs))" for y
      using tag_invD(2) [OF assms(1), of y] pcx assms(2) by (auto simp: ptrs)
    show "ts_ptr s' (NextOf a) \<noteq> None \<longleftrightarrow> a \<in> dom (ts_node s')" for a
      using tag_invD(3) [OF assms(1), of a] pcx cpath_nodes [OF p] unfolding nodes by (auto simp: ptrs)
    show "cpath s' (Head y) ns" if "(f(x \<mapsto> us @ c # vs)) y = Some ns" for y ns
      using that mine frame by (cases "y = x") auto
    show "\<exists>y ns. (f(x \<mapsto> us @ c # vs)) y = Some ns \<and> a \<in> set ns" if a: "a \<in> dom (ts_node s')" for a
    proof (cases "a \<in> set (us @ c # vs)")
      case True
      then show ?thesis by (intro exI [of _ x]) simp
    next
      case False
      then have "a \<in> dom (ts_node s)" using a nodes by auto
      then obtain y ns where y: "f y = Some ns" "a \<in> set ns" using tag_invD(5) [OF assms(1)] by blast
      show ?thesis
      proof (cases "y = x")
        case True
        then have "a = cur" using y assms(2) False by auto
        then show ?thesis using shared_node [OF assms(1,2,4)] by auto
      qed (use y in auto)
    qed
    show "td_count e = refs s' a" "a < ts_limit s'" if e: "ts_node s' a = Some e" for a e
    proof -
      have "a \<in> dom (ts_node s')" using e by blast
      then have "a = c \<or> a < ts_limit s" using nodes tag_invD(7) [OF assms(1), of a] by auto
      moreover have "ts_limit s' = c + 1" by (simp add: s'_def s3_def s2_def)
      ultimately show "a < ts_limit s'" by (auto simp: c_def)
      show "td_count e = refs s' a"
      proof (cases "a = c")
        case True
        then show ?thesis using e rc qn by (auto simp: s'_def s3_def s2_def bump_def)
      next
        case False
        then obtain e0 where e0: "ts_node s a = Some e0" "td_count e = td_count e0 - (if a = cur then 1 else 0) + (if q = Some a then 1 else 0)"
          using e d by (cases "a = cur") (auto simp: s'_def s3_def s2_def s1_def bump_def)
        then show ?thesis using tag_invD(6) [OF assms(1) e0(1)] r [of a] False assms(4) by (auto split: if_splits)
      qed
    qed
  qed
  moreover have "same_tags s s'" unfolding same_tags_def
  proof
    fix a assume "a \<in> dom (ts_node s)"
    then obtain e where e: "ts_node s a = Some e" by blast
    then have "a \<noteq> c" using cf(1) by auto
    then show "tag_of s' a = tag_of s a" using e d by (cases "a = cur") (auto simp: tag_of_def s'_def s3_def s2_def s1_def bump_def)
  qed
  moreover have "tag_of s' c = (tid, bytes)" by (auto simp: tag_of_def s'_def s3_def s2_def bump_def)
  moreover have "refs s' a = 1" if "a \<in> set us" for a
  proof -
    have "cur \<noteq> a" "c \<noteq> a" "q \<noteq> Some a" using that dist cs by (cases vs; auto simp: q_def)+
    then show ?thesis using r [of a] assms(3) that by simp
  qed
  moreover have "1 < refs s' b" if "vs = b # ws" for b ws
  proof -
    have "0 < refs s b" using node_refs_pos [OF assms(1)] qn that by (simp add: q_def)
    moreover have "cur \<noteq> b" "c \<noteq> b" "q = Some b" using that dist cs by (auto simp: q_def)
    ultimately show ?thesis using r [of b] by simp
  qed
  ultimately show ?thesis using S1 P1 S2 S3 S4 rc nodes unfolding c_def pc_def q_def by blast
qed

section \<open>Nodes taken out\<close>

text \<open>Unlinking a node, shared or not: the pointer to it is redirected behind it.\<close>

lemma unlink_paths:
  assumes "tag_inv s f" and "f x = Some (us @ cur # vs)" and "\<forall>a\<in>set us. refs s a = 1"
    and "ts_ptr s' (last_cell (Head x) us) = ts_ptr s (NextOf cur)"
    and "\<And>y. y \<noteq> last_cell (Head x) us \<Longrightarrow> y \<noteq> NextOf cur \<Longrightarrow> ts_ptr s' y = ts_ptr s y"
    and "ts_ptr s' (NextOf cur) = ts_ptr s (NextOf cur) \<or> refs s cur = 1"
    and "dom (ts_node s') = dom (ts_node s) \<or> refs s cur = 1 \<and> dom (ts_node s') = dom (ts_node s) - {cur}"
  shows "cpath s' (Head x) (us @ vs)" and "y \<noteq> x \<Longrightarrow> f y = Some ms \<Longrightarrow> cpath s' (Head y) ms"
proof -
  have p: "cpath s (Head x) (us @ cur # vs)" by (rule tag_invD(4) [OF assms(1,2)])
  have dist: "distinct (us @ cur # vs)" by (rule cpath_distinct [OF p])
  have pcx: "last_cell (Head x) us = Head x \<and> us = [] \<or> (\<exists>a\<in>set us. last_cell (Head x) us = NextOf a)" by (rule last_cell_cases)
  have pn: "cpath s (NextOf cur) vs" using p by (simp add: cpath_append)
  have "linked s' (Head x) us"
  proof (cases us rule: rev_cases)
    case (snoc ws a)
    show ?thesis
    proof (rule linked_frame)
      show "linked s (Head x) us" using p by (simp add: cpath_append)
      show "ts_ptr s' (Head x) = ts_ptr s (Head x)" using snoc assms(5) by simp
      show "a' \<in> set (butlast us) \<Longrightarrow> ts_ptr s' (NextOf a') = ts_ptr s (NextOf a')" for a'
        using snoc dist by (intro assms(5)) auto
      show "set us \<subseteq> dom (ts_node s')" using assms(7) cpath_nodes [OF p] dist by auto
    qed (use snoc in simp)
  qed simp
  moreover have "cpath s' (last_cell (Head x) us) vs"
  proof (cases vs)
    case Nil
    then show ?thesis using pn assms(4) by simp
  next
    case (Cons b ws)
    have eq: "ts_ptr s' (NextOf a) = ts_ptr s (NextOf a)" if "a \<in> set vs" for a
      using dist pcx that by (intro assms(5)) auto
    have "cpath s' (NextOf b) ws"
    proof (rule cpath_frame)
      show "cpath s (NextOf b) ws" using pn Cons by simp
      show "set ws \<subseteq> dom (ts_node s')" using cpath_nodes [OF pn] assms(7) dist Cons by auto
    qed (use eq Cons in simp_all)
    moreover have "b \<in> dom (ts_node s')" using cpath_nodes [OF pn] assms(7) dist Cons by auto
    ultimately show ?thesis using pn assms(4) Cons by simp
  qed
  ultimately show "cpath s' (Head x) (us @ vs)" by (simp add: cpath_append)
  assume y: "y \<noteq> x" "f y = Some ms"
  have yp: "cpath s (Head y) ms" by (rule tag_invD(4) [OF assms(1) y(2)])
  have dis: "set us \<inter> set ms = {}" by (rule exclusive_prefix [OF assms(1-3) y])
  have cur: "cur \<notin> set ms" if "refs s cur = 1"
    using exclusive_prefix [OF assms(1), of x "us @ [cur]" vs y ms] assms(2,3) y that by simp
  have sub: "set ms \<subseteq> dom (ts_node s')" using cpath_nodes [OF yp] assms(7) cur by auto
  have next_same: "ts_ptr s' (NextOf a) = ts_ptr s (NextOf a)" if a: "a \<in> set ms" for a
  proof (cases "a = cur")
    case True
    then show ?thesis using assms(6) cur a by blast
  next
    case False
    have "NextOf a \<noteq> last_cell (Head x) us" using pcx dis a by auto
    then show ?thesis using False by (intro assms(5)) simp_all
  qed
  have "Head y \<noteq> last_cell (Head x) us" using pcx y(1) by auto
  then have "ts_ptr s' (Head y) = ts_ptr s (Head y)" by (intro assms(5)) simp_all
  from cpath_frame [OF yp this next_same sub] show "cpath s' (Head y) ms" .
qed

lemma RemoveWriter_before_merge:
  assumes "tag_inv s f" and "f x = Some (us @ cur # vs)" and "\<forall>a\<in>set us. refs s a = 1" and "refs s cur = 1"
  shows "\<exists>s'. RemoveWriter True cur (last_cell (Head x) us) s = Some (snd (tag_of s cur), s') \<and>
    tag_inv s' (f(x \<mapsto> us @ vs)) \<and> (\<forall>a. a \<noteq> cur \<longrightarrow> ts_node s' a = ts_node s a)"
proof -
  define pc where "pc = last_cell (Head x) us"
  have p: "cpath s (Head x) (us @ cur # vs)" by (rule tag_invD(4) [OF assms(1,2)])
  have ppc: "ts_ptr s pc = Some (Some cur)" and pn: "cpath s (NextOf cur) vs" and cn: "cur \<in> dom (ts_node s)"
    using p by (simp_all add: cpath_append pc_def)
  obtain d q where d: "ts_node s cur = Some d" and q: "ts_ptr s (NextOf cur) = Some q" using cn tag_invD(3) [OF assms(1), of cur] by auto
  have dist: "distinct (us @ cur # vs)" by (rule cpath_distinct [OF p])
  have pcx: "pc = Head x \<and> us = [] \<or> (\<exists>a\<in>set us. pc = NextOf a)" unfolding pc_def by (rule last_cell_cases)
  have pcc: "pc \<noteq> NextOf cur" using pcx dist by auto
  have qc: "q \<noteq> Some cur" using pn q dist by (cases vs) auto
  define s' where "s' = s\<lparr>ts_node := (ts_node s)(cur := None), ts_ptr := (ts_ptr s)(pc \<mapsto> q, NextOf cur := None)\<rparr>"
  have W: "RemoveWriter True cur pc s = Some (snd (tag_of s cur), s')"
    by (simp add: RemoveWriter_def d q write_ptr_def ppc free_node_def tag_of_def s'_def)
  define t where "t = s\<lparr>ts_ptr := (ts_ptr s)(pc \<mapsto> q)\<rparr>"
  have t: "refs t a + (if Some cur = Some a then 1 else 0) = refs s a + (if q = Some a then 1 else 0)" for a
    by (rule refs_set [OF tag_invD(1) [OF assms(1)] ppc]) (simp add: t_def)
  have r': "refs s' a + (if q = Some a then 1 else 0) = refs t a" for a
    by (rule refs_gone [of t "NextOf cur"]) (use tag_invD(1) [OF assms(1)] q pcc in \<open>simp_all add: t_def s'_def\<close>)
  have r: "a \<noteq> cur \<Longrightarrow> refs s' a = refs s a" for a using t [of a] r' [of a] by simp
  have paths: "cpath s' (Head x) (us @ vs)" "y \<noteq> x \<Longrightarrow> f y = Some ms \<Longrightarrow> cpath s' (Head y) ms" for y ms
    by (rule unlink_paths [OF assms(1-3)]; use pcc q assms(4) in \<open>auto simp: s'_def pc_def\<close>)+
  have "tag_inv s' (f(x \<mapsto> us @ vs))" unfolding tag_inv_def
  proof (intro conjI allI impI ballI)
    show "finite (dom (ts_ptr s'))" using tag_invD(1) [OF assms(1)] by (simp add: s'_def)
    show "ts_ptr s' (Head y) \<noteq> None \<longleftrightarrow> y \<in> dom (f(x \<mapsto> us @ vs))" for y
      using tag_invD(2) [OF assms(1), of y] pcx assms(2) by (auto simp: s'_def)
    show "ts_ptr s' (NextOf a) \<noteq> None \<longleftrightarrow> a \<in> dom (ts_node s')" for a
      using tag_invD(3) [OF assms(1), of a] pcx cpath_nodes [OF p] by (auto simp: s'_def)
    show "cpath s' (Head y) ns" if "(f(x \<mapsto> us @ vs)) y = Some ns" for y ns using that paths by (cases "y = x") auto
    show "\<exists>y ns. (f(x \<mapsto> us @ vs)) y = Some ns \<and> a \<in> set ns" if a: "a \<in> dom (ts_node s')" for a
    proof -
      have "a \<noteq> cur" "a \<in> dom (ts_node s)" using a by (auto simp: s'_def)
      then obtain y ns where y: "f y = Some ns" "a \<in> set ns" using tag_invD(5) [OF assms(1)] by blast
      show ?thesis
      proof (cases "y = x")
        case True
        then have "a \<in> set (us @ vs)" using y assms(2) \<open>a \<noteq> cur\<close> by auto
        then show ?thesis by (intro exI [of _ x]) simp
      qed (use y in auto)
    qed
    show "td_count e = refs s' a" "a < ts_limit s'" if e: "ts_node s' a = Some e" for a e
      using e r [of a] tag_invD(6,7) [OF assms(1), of a] by (auto simp: s'_def split: if_splits)
  qed
  then show ?thesis using W by (auto simp: pc_def s'_def)
qed

lemma RemoveWriter_at_merge:
  assumes "tag_inv s f" and "f x = Some (us @ cur # vs)" and "\<forall>a\<in>set us. refs s a = 1" and "1 < refs s cur"
  shows "\<exists>s'. RemoveWriter False cur (last_cell (Head x) us) s = Some (snd (tag_of s cur), s') \<and>
    tag_inv s' (f(x \<mapsto> us @ vs)) \<and> same_tags s s'"
proof -
  define pc where "pc = last_cell (Head x) us"
  have p: "cpath s (Head x) (us @ cur # vs)" by (rule tag_invD(4) [OF assms(1,2)])
  have ppc: "ts_ptr s pc = Some (Some cur)" and pn: "cpath s (NextOf cur) vs" and cn: "cur \<in> dom (ts_node s)"
    using p by (simp_all add: cpath_append pc_def)
  obtain d q where d: "ts_node s cur = Some d" and q: "ts_ptr s (NextOf cur) = Some q" using cn tag_invD(3) [OF assms(1), of cur] by auto
  have dist: "distinct (us @ cur # vs)" by (rule cpath_distinct [OF p])
  have pcx: "pc = Head x \<and> us = [] \<or> (\<exists>a\<in>set us. pc = NextOf a)" unfolding pc_def by (rule last_cell_cases)
  have pcc: "pc \<noteq> NextOf cur" using pcx dist by auto
  have qc: "q \<noteq> Some cur" using pn q dist by (cases vs) auto
  define count where "count = (\<lambda>a e. e\<lparr>td_count := td_count e - (if a = cur then 1 else 0) + (if q = Some a then 1 else 0)\<rparr> :: TagData)"
  define s' where "s' = s\<lparr>ts_node := (\<lambda>a. map_option (count a) (ts_node s a)), ts_ptr := (ts_ptr s)(pc \<mapsto> q)\<rparr>"
  have W: "RemoveWriter False cur pc s = Some (snd (tag_of s cur), s')"
  proof (cases q)
    case None
    have "(ts_node s)(cur \<mapsto> d\<lparr>td_count := td_count d - 1\<rparr>) = (\<lambda>a. map_option (count a) (ts_node s a))"
      using d None by (auto simp: count_def map_option.id [unfolded id_def])
    then show ?thesis using None d q ppc by (simp add: RemoveWriter_def write_ptr_def set_count_def incoming_def tag_of_def s'_def)
  next
    case (Some b)
    then obtain e where e: "ts_node s b = Some e" "b \<noteq> cur" using ptr_target [OF assms(1), of "NextOf cur" b] q qc by auto
    have "(ts_node s)(cur \<mapsto> d\<lparr>td_count := td_count d - 1\<rparr>, b \<mapsto> e\<lparr>td_count := td_count e + 1\<rparr>) = (\<lambda>a. map_option (count a) (ts_node s a))"
      using d e Some by (auto simp: count_def map_option.id [unfolded id_def])
    then show ?thesis using Some e d q ppc by (simp add: RemoveWriter_def write_ptr_def set_count_def incoming_def tag_of_def s'_def)
  qed
  have nodes: "dom (ts_node s') = dom (ts_node s)" by (auto simp: s'_def)
  have r: "refs s' a + (if Some cur = Some a then 1 else 0) = refs s a + (if q = Some a then 1 else 0)" for a
    by (rule refs_set [OF tag_invD(1) [OF assms(1)] ppc]) (simp add: s'_def)
  have paths: "cpath s' (Head x) (us @ vs)" "y \<noteq> x \<Longrightarrow> f y = Some ms \<Longrightarrow> cpath s' (Head y) ms" for y ms
    by (rule unlink_paths [OF assms(1-3)]; use pcc q nodes in \<open>auto simp: s'_def pc_def\<close>)+
  have "tag_inv s' (f(x \<mapsto> us @ vs))" unfolding tag_inv_def
  proof (intro conjI allI impI ballI)
    show "finite (dom (ts_ptr s'))" using tag_invD(1) [OF assms(1)] by (simp add: s'_def)
    show "ts_ptr s' (Head y) \<noteq> None \<longleftrightarrow> y \<in> dom (f(x \<mapsto> us @ vs))" for y
      using tag_invD(2) [OF assms(1), of y] pcx assms(2) by (auto simp: s'_def)
    show "ts_ptr s' (NextOf a) \<noteq> None \<longleftrightarrow> a \<in> dom (ts_node s')" for a
      using tag_invD(3) [OF assms(1), of a] pcx cpath_nodes [OF p] unfolding nodes by (auto simp: s'_def)
    show "cpath s' (Head y) ns" if "(f(x \<mapsto> us @ vs)) y = Some ns" for y ns using that paths by (cases "y = x") auto
    show "\<exists>y ns. (f(x \<mapsto> us @ vs)) y = Some ns \<and> a \<in> set ns" if a: "a \<in> dom (ts_node s')" for a
    proof -
      obtain y ns where y: "f y = Some ns" "a \<in> set ns" using tag_invD(5) [OF assms(1)] a nodes by blast
      show ?thesis
      proof (cases "y = x")
        case True
        then consider "a \<in> set (us @ vs)" | "a = cur" using y assms(2) by auto
        then show ?thesis
        proof cases
          case 1
          then show ?thesis by (intro exI [of _ x]) simp
        next
          case 2
          then show ?thesis using shared_node [OF assms(1,2,4)] by auto
        qed
      qed (use y in auto)
    qed
    show "td_count e = refs s' a" "a < ts_limit s'" if e: "ts_node s' a = Some e" for a e
    proof -
      obtain e0 where e0: "ts_node s a = Some e0" "e = count a e0" using e by (auto simp: s'_def)
      then show "td_count e = refs s' a"
        using r [of a] tag_invD(6) [OF assms(1) e0(1)] assms(4) by (cases "a = cur") (auto simp: count_def)
      show "a < ts_limit s'" using tag_invD(7) [OF assms(1), of a] e0(1) by (auto simp: s'_def)
    qed
  qed
  moreover have "same_tags s s'" by (auto simp: same_tags_def tag_of_def s'_def count_def)
  ultimately show ?thesis using W by (auto simp: pc_def)
qed

end
