(* ===== verification/Packet_Tag_Cow.thy ===== *)
theory Packet_Tag_Cow
  imports Packet_Tag_Inv
begin

text \<open>The loops over tag lists, and \<^verbatim>\<open>Peek\<close>, \<^verbatim>\<open>Add\<close>, \<^verbatim>\<open>Remove\<close> and \<^verbatim>\<open>Replace\<close> on the tags of an object.\<close>

definition tags :: "TagStore \<Rightarrow> nat list \<Rightarrow> Tag list" where
  "tags s ns = map (tag_of s) ns"

lemma same_tags_tags: "same_tags s s' \<Longrightarrow> set ns \<subseteq> dom (ts_node s) \<Longrightarrow> tags s' ns = tags s ns"
  by (auto simp: same_tags_def tags_def subset_iff)

lemma same_tags_trans: "same_tags s s' \<Longrightarrow> same_tags s' s'' \<Longrightarrow> dom (ts_node s) \<subseteq> dom (ts_node s') \<Longrightarrow> same_tags s s''"
  by (auto simp: same_tags_def subset_iff)

section \<open>The loops\<close>

lemma find_tid_eq:
  "cpath s z ns \<Longrightarrow> ts_ptr s z = Some p \<Longrightarrow> find_tid tid p s = Some (find (\<lambda>a. fst (tag_of s a) = tid) ns)"
proof (induction ns arbitrary: z p)
  case Nil
  then show ?case by (subst find_tid.simps) simp
next
  case (Cons a ns)
  obtain d where d: "ts_node s a = Some d" using Cons.prems by auto
  obtain q where q: "ts_ptr s (NextOf a) = Some q" using Cons.prems(1) by (cases ns) auto
  have "find_tid tid q s = Some (find (\<lambda>a. fst (tag_of s a) = tid) ns)" by (rule Cons.IH [OF _ q]) (use Cons.prems(1) in simp)
  then show ?case using Cons.prems d q by (subst find_tid.simps) (simp add: tag_of_def)
qed

definition before_stop :: "TagStore \<Rightarrow> u32 \<Rightarrow> nat list \<Rightarrow> nat list" where
  "before_stop s tid ns = takeWhile (\<lambda>a. refs s a = 1 \<and> fst (tag_of s a) \<noteq> tid) ns"

lemma cow_find_eq:
  assumes "tag_inv s f" and "cpath s z ns" and "ts_ptr s z = Some p"
  shows "cow_find tid p z s = Some (case dropWhile (\<lambda>a. refs s a = 1 \<and> fst (tag_of s a) \<noteq> tid) ns of
     [] \<Rightarrow> ListEnd
   | c # _ \<Rightarrow> (if refs s c > 1 then Merge else FoundBeforeMerge) c (last_cell z (before_stop s tid ns)))"
  using assms(2,3)
proof (induction ns arbitrary: z p)
  case Nil
  then show ?case by (subst cow_find.simps) simp
next
  case (Cons a ns)
  obtain d where d: "ts_node s a = Some d" using Cons.prems by auto
  have r: "td_count d = refs s a" "0 < refs s a" using tag_invD(6) [OF assms(1) d] node_refs_pos [OF assms(1), of a] d by auto
  obtain q where q: "ts_ptr s (NextOf a) = Some q" using Cons.prems(1) by (cases ns) auto
  have IH: "cow_find tid q (NextOf a) s = Some (case dropWhile (\<lambda>a. refs s a = 1 \<and> fst (tag_of s a) \<noteq> tid) ns of
     [] \<Rightarrow> ListEnd
   | c # _ \<Rightarrow> (if refs s c > 1 then Merge else FoundBeforeMerge) c (last_cell (NextOf a) (before_stop s tid ns)))"
    using Cons.IH [OF _ q] Cons.prems(1) by simp
  have t: "fst (tag_of s a) = td_tid d" by (simp add: tag_of_def d)
  have p: "p = Some a" using Cons.prems by simp
  show ?case
  proof (cases "refs s a = 1 \<and> fst (tag_of s a) \<noteq> tid")
    case True
    then have "before_stop s tid (a # ns) = a # before_stop s tid ns" by (simp add: before_stop_def)
    moreover define D where "D = dropWhile (\<lambda>a. refs s a = 1 \<and> fst (tag_of s a) \<noteq> tid) ns"
    moreover have "dropWhile (\<lambda>a. refs s a = 1 \<and> fst (tag_of s a) \<noteq> tid) (a # ns) = D" using True by (simp add: D_def)
    moreover have "cow_find tid p z s = cow_find tid q (NextOf a) s" using True d q r t p by (subst cow_find.simps) simp
    ultimately show ?thesis using IH by (cases D) (simp_all only: last_cell.simps list.case)
  next
    case False
    then show ?thesis using d r t p by (subst cow_find.simps) (auto simp: before_stop_def)
  qed
qed

lemma cow_copy_eq:
  assumes "tag_inv s f" and "f x = Some (us @ cur # vs)" and "\<forall>a\<in>set us. refs s a = 1" and "1 < refs s cur"
    and "tid \<in> fst ` set (tags s (cur # vs))" and "tid \<notin> fst ` set (tags s us)" and "\<forall>t\<in>set (tags s (cur # vs)). length (snd t) < 2 ^ 32 - 1"
  shows "\<exists>us' cur' vs' s'. cow_copy tid cur (last_cell (Head x) us) s = Some (cur', last_cell (Head x) us', s') \<and>
    tag_inv s' (f(x \<mapsto> us' @ cur' # vs')) \<and> (\<forall>a\<in>set us'. refs s' a = 1) \<and> 1 < refs s' cur' \<and> fst (tag_of s' cur') = tid \<and>
    tid \<notin> fst ` set (tags s' us') \<and> tags s' (us' @ cur' # vs') = tags s (us @ cur # vs) \<and> same_tags s s' \<and>
    dom (ts_node s) \<subseteq> dom (ts_node s')"
  using assms
proof (induction vs arbitrary: s f us cur)
  case Nil
  have p: "cpath s (Head x) (us @ [cur])" using tag_invD(4) [OF Nil.prems(1,2)] .
  then obtain d where d: "ts_node s cur = Some d" using cpath_nodes by fastforce
  then have "td_tid d = tid" using Nil.prems(5) by (simp add: tags_def tag_of_def)
  then have "cow_copy tid cur (last_cell (Head x) us) s = Some (cur, last_cell (Head x) us, s)"
    using d by (subst cow_copy.simps) simp
  moreover have "f(x \<mapsto> us @ [cur]) = f" using Nil.prems(2) by (simp add: fun_upd_idem)
  moreover have "fst (tag_of s cur) = tid" using \<open>td_tid d = tid\<close> d by (simp add: tag_of_def)
  ultimately show ?case using Nil.prems
    by (intro exI [of _ us] exI [of _ cur] exI [of _ "[] :: nat list"] exI [of _ s]) (simp add: same_tags_def)
next
  case (Cons b ws)
  have p: "cpath s (Head x) (us @ cur # b # ws)" using tag_invD(4) [OF Cons.prems(1,2)] .
  then obtain d where d: "ts_node s cur = Some d" using cpath_nodes by fastforce
  have t: "tag_of s cur = (td_tid d, td_data d)" using d by (simp add: tag_of_def)
  have cnt: "1 < td_count d" using tag_invD(6) [OF Cons.prems(1) d] Cons.prems(4) by simp
  show ?case
  proof (cases "td_tid d = tid")
    case True
    then have "cow_copy tid cur (last_cell (Head x) us) s = Some (cur, last_cell (Head x) us, s)"
      using d by (subst cow_copy.simps) simp
    moreover have "f(x \<mapsto> us @ cur # b # ws) = f" using Cons.prems(2) by (simp add: fun_upd_idem)
    ultimately show ?thesis using Cons.prems True t
      by (intro exI [of _ us] exI [of _ cur] exI [of _ "b # ws"] exI [of _ s]) (simp add: same_tags_def)
  next
    case False
    have len: "length (td_data d) < 2 ^ 32 - 1" using Cons.prems(7) t by (simp add: tags_def)
    define c where "c = ts_limit s"
    from copy_node [OF Cons.prems(1-4) len, of "td_tid d"] obtain s1 s2 s3 s' where
      ops: "set_count (\<lambda>n. n - 1) cur s = Some s1" "ts_ptr s1 (NextOf cur) = Some (Some b)"
        "CreateTagData (td_tid d) (td_data d) (Some b) s1 = Some (c, s2)" "incoming (Some b) s2 = Some s3"
        "write_ptr (last_cell (Head x) us) (Some c) s3 = Some s'"
      and inv: "tag_inv s' (f(x \<mapsto> us @ c # b # ws))" and st: "same_tags s s'" and tc: "tag_of s' c = (td_tid d, td_data d)"
      and rc: "refs s' c = 1" and ru: "\<forall>a\<in>set us. refs s' a = 1" and rb: "1 < refs s' b" and dm: "dom (ts_node s') = insert c (dom (ts_node s))"
      unfolding c_def by auto
    have step: "cow_copy tid cur (last_cell (Head x) us) s = cow_copy tid b (last_cell (Head x) (us @ [c])) s'"
      using d False cnt ops by (subst cow_copy.simps) (simp add: incoming_def)
    define f' where "f' = f(x \<mapsto> (us @ [c]) @ b # ws)"
    have eqt: "tags s' ns = tags s ns" if "set ns \<subseteq> set (us @ cur # b # ws)" for ns
      using same_tags_tags [OF st] cpath_nodes [OF p] that by blast
    have ub: "tags s' us = tags s us" "tags s' (b # ws) = tags s (b # ws)" by (rule eqt; auto)+
    have "\<exists>us' cur' vs' s''. cow_copy tid b (last_cell (Head x) (us @ [c])) s' = Some (cur', last_cell (Head x) us', s'') \<and>
      tag_inv s'' (f'(x \<mapsto> us' @ cur' # vs')) \<and> (\<forall>a\<in>set us'. refs s'' a = 1) \<and> 1 < refs s'' cur' \<and> fst (tag_of s'' cur') = tid \<and>
      tid \<notin> fst ` set (tags s'' us') \<and> tags s'' (us' @ cur' # vs') = tags s' ((us @ [c]) @ b # ws) \<and> same_tags s' s'' \<and>
      dom (ts_node s') \<subseteq> dom (ts_node s'')"
    proof (rule Cons.IH)
      show "tag_inv s' f'" using inv by (simp add: f'_def)
      show "f' x = Some ((us @ [c]) @ b # ws)" by (simp add: f'_def)
      show "\<forall>a\<in>set (us @ [c]). refs s' a = 1" "1 < refs s' b" using ru rc rb by simp_all
      show "tid \<in> fst ` set (tags s' (b # ws))" unfolding ub(2) using Cons.prems(5) False t by (auto simp: tags_def)
      show "tid \<notin> fst ` set (tags s' (us @ [c]))" using Cons.prems(6) ub(1) tc False by (auto simp: tags_def)
      show "\<forall>t\<in>set (tags s' (b # ws)). length (snd t) < 2 ^ 32 - 1" unfolding ub(2) using Cons.prems(7) by (simp add: tags_def)
    qed
    moreover have "tags s' ((us @ [c]) @ b # ws) = tags s (us @ cur # b # ws)" using ub tc t by (simp add: tags_def)
    moreover have "f'(x \<mapsto> ns) = f(x \<mapsto> ns)" for ns by (simp add: f'_def)
    ultimately show ?thesis using step st dm same_tags_trans [OF st] by (smt (verit) subset_insertI subset_trans)
  qed
qed

section \<open>Traversal\<close>

definition tag_ok :: "TagStore \<Rightarrow> (nat \<rightharpoonup> nat list) \<Rightarrow> bool" where
  "tag_ok s f \<longleftrightarrow> tag_inv s f \<and>
     (\<forall>x ns. f x = Some ns \<longrightarrow> distinct (map fst (tags s ns)) \<and> (\<forall>t\<in>set (tags s ns). length (snd t) < 2 ^ 32 - 1))"

lemma tag_okD: "tag_ok s f \<Longrightarrow> f x = Some ns \<Longrightarrow> tag_inv s f \<and> cpath s (Head x) ns \<and> distinct (map fst (tags s ns)) \<and>
    (\<forall>t\<in>set (tags s ns). length (snd t) < 2 ^ 32 - 1)"
  by (auto simp: tag_ok_def tag_inv_def)

definition others_same :: "TagStore \<Rightarrow> TagStore \<Rightarrow> nat \<Rightarrow> (nat \<rightharpoonup> nat list) \<Rightarrow> bool" where
  "others_same s s' x f \<longleftrightarrow> (\<forall>y ms. y \<noteq> x \<and> f y = Some ms \<longrightarrow> tags s' ms = tags s ms)"

lemma same_tags_others: "same_tags s s' \<Longrightarrow> tag_inv s f \<Longrightarrow> others_same s s' x f"
  using same_tags_tags cpath_nodes tag_invD(4) unfolding others_same_def by blast

lemma tag_ok_upd:
  assumes "tag_ok s f" and "tag_inv s' (f(x \<mapsto> ns))" and "others_same s s' x f"
    and "distinct (map fst (tags s' ns))" and "\<forall>t\<in>set (tags s' ns). length (snd t) < 2 ^ 32 - 1"
  shows "tag_ok s' (f(x \<mapsto> ns))"
  using assms unfolding tag_ok_def others_same_def by (auto split: if_splits)

lemma COWTraverse_cases:
  assumes "tag_ok s f" and "f x = Some ns"
  obtains (absent) "tid \<notin> fst ` set (tags s ns)" "COWTraverse tid W x s = Some (None, s)"
  | (mine) us cur vs where "ns = us @ cur # vs" "\<forall>a\<in>set us. refs s a = 1" "refs s cur = 1" "fst (tag_of s cur) = tid"
      "COWTraverse tid W x s = map_option (\<lambda>(r, s). (Some r, s)) (W True cur (last_cell (Head x) us) s)"
  | (shared) us cur vs s1 where "tag_inv s1 (f(x \<mapsto> us @ cur # vs))" "\<forall>a\<in>set us. refs s1 a = 1" "1 < refs s1 cur"
      "fst (tag_of s1 cur) = tid" "tags s1 (us @ cur # vs) = tags s ns" "same_tags s s1" "dom (ts_node s) \<subseteq> dom (ts_node s1)"
      "COWTraverse tid W x s = map_option (\<lambda>(r, s). (Some r, s)) (W False cur (last_cell (Head x) us) s1)"
proof -
  note ok = tag_okD [OF assms]
  have i: "tag_inv s f" and p: "cpath s (Head x) ns" using ok by simp_all
  obtain q where q: "ts_ptr s (Head x) = Some q" using p by (cases ns) auto
  define us where "us = before_stop s tid ns"
  define D where "D = dropWhile (\<lambda>a. refs s a = 1 \<and> fst (tag_of s a) \<noteq> tid) ns"
  have ns: "ns = us @ D" by (simp add: us_def D_def before_stop_def)
  have us: "\<forall>a\<in>set us. refs s a = 1 \<and> fst (tag_of s a) \<noteq> tid" by (auto simp: us_def before_stop_def dest: set_takeWhileD)
  then have ut: "tid \<notin> fst ` set (tags s us)" by (auto simp: tags_def)
  have find: "cow_find tid q (Head x) s = Some (case D of [] \<Rightarrow> ListEnd
     | c # _ \<Rightarrow> (if refs s c > 1 then Merge else FoundBeforeMerge) c (last_cell (Head x) us))"
    unfolding us_def D_def by (rule cow_find_eq [OF i p q])
  show thesis
  proof (cases D)
    case Nil
    then have "COWTraverse tid W x s = Some (None, s)" using find q by (simp add: COWTraverse_def)
    then show thesis using absent ut ns Nil by simp
  next
    case (Cons c vs)
    have c: "\<not> (refs s c = 1 \<and> fst (tag_of s c) \<noteq> tid)" using Cons unfolding D_def by (simp add: dropWhile_eq_Cons_conv)
    show thesis
    proof (cases "1 < refs s c")
      case False
      have "0 < refs s c" using node_refs_pos [OF i] cpath_nodes [OF p] ns Cons by auto
      then have "refs s c = 1" "fst (tag_of s c) = tid" using False c by auto
      moreover have "COWTraverse tid W x s = map_option (\<lambda>(r, s). (Some r, s)) (W True c (last_cell (Head x) us) s)"
        using find q Cons False by (simp add: COWTraverse_def)
      ultimately show thesis using mine ns Cons us by blast
    next
      case True
      have pc: "cpath s (last_cell (Head x) us) (c # vs)" using p ns Cons by (simp add: cpath_append)
      then have ft: "find_tid tid (Some c) s = Some (find (\<lambda>a. fst (tag_of s a) = tid) (c # vs))" by (intro find_tid_eq) auto
      show thesis
      proof (cases "tid \<in> fst ` set (tags s (c # vs))")
        case no: False
        then have "find (\<lambda>a. fst (tag_of s a) = tid) (c # vs) = None" by (auto simp: find_None_iff tags_def)
        then have "COWTraverse tid W x s = Some (None, s)" using find q Cons True ft by (simp add: COWTraverse_def)
        then show thesis using absent no ut ns Cons by (auto simp: tags_def)
      next
        case yes: True
        then have "\<exists>a\<in>set (c # vs). fst (tag_of s a) = tid" unfolding tags_def by (metis imageE list.set_map)
        then have fn: "find (\<lambda>a. fst (tag_of s a) = tid) (c # vs) \<noteq> None" unfolding find_None_iff by blast
        have fx: "f x = Some (us @ c # vs)" using assms(2) ns Cons by simp
        have sz: "\<forall>t\<in>set (tags s (c # vs)). length (snd t) < 2 ^ 32 - 1" using ok ns Cons by (simp add: tags_def)
        have u1: "\<forall>a\<in>set us. refs s a = 1" using us by simp
        from cow_copy_eq [OF i fx u1 True yes ut sz] obtain us' cur' vs' s1 where
          C: "cow_copy tid c (last_cell (Head x) us) s = Some (cur', last_cell (Head x) us', s1)"
             "tag_inv s1 (f(x \<mapsto> us' @ cur' # vs'))" "\<forall>a\<in>set us'. refs s1 a = 1" "1 < refs s1 cur'" "fst (tag_of s1 cur') = tid"
             "tags s1 (us' @ cur' # vs') = tags s (us @ c # vs)" "same_tags s s1" "dom (ts_node s) \<subseteq> dom (ts_node s1)" by blast
        have "cur' \<in> dom (ts_node s1)" using cpath_nodes [OF tag_invD(4) [OF C(2), of x]] by simp
        then obtain d where "ts_node s1 cur' = Some d" by blast
        moreover from this have "td_count d > 1" using tag_invD(6) [OF C(2)] C(4) by simp
        ultimately have "COWTraverse tid W x s = map_option (\<lambda>(r, s). (Some r, s)) (W False cur' (last_cell (Head x) us') s1)"
          using find q Cons True ft fn C(1) by (auto simp: COWTraverse_def)
        then show thesis using shared [of s1 us' cur' vs'] C ns Cons by simp
      qed
    qed
  qed
qed

section \<open>Operations\<close>

lemma distinct_split:
  assumes "distinct (map fst (as @ (tid, b) # bs))"
  shows "filter (\<lambda>t. fst t \<noteq> tid) (as @ (tid, b) # bs) = as @ bs" and "map_of (as @ (tid, b) # bs) tid = Some b"
    and "map (\<lambda>t. if fst t = tid then (tid, b') else t) (as @ (tid, b) # bs) = as @ (tid, b') # bs"
proof -
  have n: "tid \<notin> fst ` set as" "tid \<notin> fst ` set bs" using assms by auto
  then have "\<forall>t\<in>set as. fst t \<noteq> tid" "\<forall>t\<in>set bs. fst t \<noteq> tid" by auto
  then show "filter (\<lambda>t. fst t \<noteq> tid) (as @ (tid, b) # bs) = as @ bs"
    "map (\<lambda>t. if fst t = tid then (tid, b') else t) (as @ (tid, b) # bs) = as @ (tid, b') # bs"
    by (simp_all add: map_idI)
  show "map_of (as @ (tid, b) # bs) tid = Some b" using n(1) by (simp add: map_add_def map_of_eq_None_iff [THEN iffD2])
qed

lemma absent_split: "tid \<notin> fst ` set as \<Longrightarrow> filter (\<lambda>t. fst t \<noteq> tid) as = as \<and> map_of as tid = None \<and>
    map (\<lambda>t. if fst t = tid then (tid, b) else t) as = as"
proof -
  assume n: "tid \<notin> fst ` set as"
  then have "\<forall>t\<in>set as. fst t \<noteq> tid" by auto
  then show ?thesis using n by (simp add: filter_id_conv map_of_eq_None_iff map_idI)
qed

lemma Tag_Remove_ok:
  assumes "tag_ok s f" and "f x = Some ns"
  shows "\<exists>s' ns'. Tag_Remove tid x s = Some (map_of (tags s ns) tid, s') \<and> tag_ok s' (f(x \<mapsto> ns')) \<and>
    tags s' ns' = filter (\<lambda>t. fst t \<noteq> tid) (tags s ns) \<and> others_same s s' x f"
  using assms
proof (rule COWTraverse_cases [where W = RemoveWriter and tid = tid])
  assume "tid \<notin> fst ` set (tags s ns)" "COWTraverse tid RemoveWriter x s = Some (None, s)"
  moreover have "f(x \<mapsto> ns) = f" using assms(2) by (simp add: fun_upd_idem)
  ultimately show ?thesis using assms(1) absent_split [of tid "tags s ns"]
    by (intro exI [of _ s] exI [of _ ns]) (simp add: Tag_Remove_def others_same_def)
next
  fix us cur vs
  assume ns: "ns = us @ cur # vs" and r: "\<forall>a\<in>set us. refs s a = 1" "refs s cur = 1" and t: "fst (tag_of s cur) = tid"
    and C: "COWTraverse tid RemoveWriter x s = map_option (\<lambda>(r, s). (Some r, s)) (RemoveWriter True cur (last_cell (Head x) us) s)"
  note ok = tag_okD [OF assms]
  then have i: "tag_inv s f" and p: "cpath s (Head x) ns" by simp_all
  have fx: "f x = Some (us @ cur # vs)" using assms(2) ns by simp
  from RemoveWriter_before_merge [OF i fx r] obtain s' where
    R: "RemoveWriter True cur (last_cell (Head x) us) s = Some (snd (tag_of s cur), s')" "tag_inv s' (f(x \<mapsto> us @ vs))"
       "\<forall>a. a \<noteq> cur \<longrightarrow> ts_node s' a = ts_node s a" by blast
  obtain b where cb: "tag_of s cur = (tid, b)" using t by (cases "tag_of s cur") auto
  have tn: "tags s ns = tags s us @ (tid, b) # tags s vs" using ns cb by (simp add: tags_def)
  have eq: "tags s' ms = tags s ms" if "cur \<notin> set ms" for ms using R(3) that by (auto simp: tags_def tag_of_def)
  have "cur \<notin> set (us @ vs)" using cpath_distinct [OF p] ns by auto
  then have "tags s' (us @ vs) = tags s (us @ vs)" by (rule eq)
  then have tv: "tags s' (us @ vs) = tags s us @ tags s vs" by (simp add: tags_def)
  have os: "others_same s s' x f" unfolding others_same_def
  proof (intro allI impI)
    fix y ms assume y: "y \<noteq> x \<and> f y = Some ms"
    then have "set (us @ [cur]) \<inter> set ms = {}" using exclusive_prefix [OF i, of x "us @ [cur]" vs y ms] fx r by simp
    then show "tags s' ms = tags s ms" by (intro eq) auto
  qed
  have d: "distinct (map fst (tags s us @ (tid, b) # tags s vs))" using ok tn by simp
  note sp = distinct_split [OF d]
  have "tag_ok s' (f(x \<mapsto> us @ vs))"
    by (rule tag_ok_upd [OF assms(1) R(2) os]) (use ok tn tv d in auto)
  then show ?thesis using C R(1) cb sp(1,2) tv os
    by (intro exI [of _ s'] exI [of _ "us @ vs"]) (simp only: Tag_Remove_def tn, simp)
next
  fix us cur vs s1
  assume i1: "tag_inv s1 (f(x \<mapsto> us @ cur # vs))" and r: "\<forall>a\<in>set us. refs s1 a = 1" "1 < refs s1 cur" and t: "fst (tag_of s1 cur) = tid"
    and t1: "tags s1 (us @ cur # vs) = tags s ns" and st1: "same_tags s s1" and dm: "dom (ts_node s) \<subseteq> dom (ts_node s1)"
    and C: "COWTraverse tid RemoveWriter x s = map_option (\<lambda>(r, s). (Some r, s)) (RemoveWriter False cur (last_cell (Head x) us) s1)"
  note ok = tag_okD [OF assms]
  from RemoveWriter_at_merge [OF i1 _ r, where x = x and vs = vs] obtain s' where R: "RemoveWriter False cur (last_cell (Head x) us) s1 = Some (snd (tag_of s1 cur), s')"
      "tag_inv s' (f(x \<mapsto> us @ vs))" "same_tags s1 s'" by auto
  obtain b where cb: "tag_of s1 cur = (tid, b)" using t by (cases "tag_of s1 cur") auto
  have tn: "tags s ns = tags s1 us @ (tid, b) # tags s1 vs" using t1 cb by (simp add: tags_def)
  have pn: "set (us @ cur # vs) \<subseteq> dom (ts_node s1)" using cpath_nodes [OF tag_invD(4) [OF i1, of x]] by simp
  have tv: "tags s' (us @ vs) = tags s1 us @ tags s1 vs" using same_tags_tags [OF R(3), of "us @ vs"] pn by (simp add: tags_def)
  have os: "others_same s s' x f" using same_tags_others [OF same_tags_trans [OF st1 R(3) dm]] ok by blast
  have d: "distinct (map fst (tags s1 us @ (tid, b) # tags s1 vs))" using ok tn by simp
  note sp = distinct_split [OF d]
  have "tag_ok s' (f(x \<mapsto> us @ vs))"
    by (rule tag_ok_upd [OF assms(1) R(2) os]) (use ok tn tv d in auto)
  then show ?thesis using C R(1) cb sp(1,2) tv os
    by (intro exI [of _ s'] exI [of _ "us @ vs"]) (simp only: Tag_Remove_def tn, simp)
qed

lemma Tag_Peek_ok:
  assumes "tag_ok s f" and "f x = Some ns"
  shows "Tag_Peek tid x s = Some (map_of (tags s ns) tid)"
proof -
  have p: "cpath s (Head x) ns" using tag_okD [OF assms] by simp
  obtain q where q: "ts_ptr s (Head x) = Some q" using p by (cases ns) auto
  have dom: "set ns \<subseteq> dom (ts_node s)" by (rule cpath_nodes [OF p])
  then have "(case find (\<lambda>a. fst (tag_of s a) = tid) ns of None \<Rightarrow> Some None | Some c \<Rightarrow> map_option (\<lambda>d. Some (td_data d)) (ts_node s c)) =
      Some (map_of (tags s ns) tid)"
    by (induction ns) (auto simp: tags_def tag_of_def)
  then show ?thesis using q find_tid_eq [OF p q, of tid] by (simp add: Tag_Peek_def)
qed

lemma Tag_Add_ok:
  assumes "tag_ok s f" and "f x = Some ns" and "fst tag \<notin> fst ` set (tags s ns)" and "length (snd tag) < 2 ^ 32 - 1"
  shows "\<exists>s' ns'. Tag_Add tag x s = Some s' \<and> tag_ok s' (f(x \<mapsto> ns')) \<and> tags s' ns' = tag # tags s ns \<and> others_same s s' x f"
proof -
  define c where "c = ts_limit s"
  have i: "tag_inv s f" and p: "cpath s (Head x) ns" using tag_okD [OF assms(1,2)] by simp_all
  obtain q where q: "ts_ptr s (Head x) = Some q" using p by (cases ns) auto
  have cf: "c \<notin> dom (ts_node s)" "ts_ptr s (NextOf c) = None" "refs s c = 0" using fresh_node [OF i] by (simp_all add: c_def)
  have "fst (tag_of s a) \<noteq> fst tag" if "a \<in> set ns" for a
  proof -
    have "tag_of s a \<in> set (tags s ns)" using that by (simp add: tags_def)
    then show ?thesis using assms(3) by (metis image_eqI)
  qed
  then have "find (\<lambda>a. fst (tag_of s a) = fst tag) ns = None" by (auto simp: find_None_iff)
  then have F: "find_tid (fst tag) q s = Some None" using find_tid_eq [OF p q] by simp
  define s1 where "s1 = s\<lparr>ts_ptr := (ts_ptr s)(NextOf c \<mapsto> q)\<rparr>"
  define s' where "s' = s\<lparr>ts_node := (ts_node s)(c \<mapsto> \<lparr>td_count = 1, td_tid = fst tag, td_data = snd tag\<rparr>),
      ts_ptr := (ts_ptr s)(NextOf c \<mapsto> q, Head x \<mapsto> Some c), ts_limit := c + 1\<rparr>"
  have A: "Tag_Add tag x s = Some s'"
    using assms(4) q F by (simp add: Tag_Add_def CreateTagData_def write_ptr_def c_def s'_def Let_def)
  have r1: "refs s1 a = refs s a + (if q = Some a then 1 else 0)" for a
    by (rule refs_new [OF tag_invD(1) [OF i] cf(2)]) (simp add: s1_def)
  have r2: "refs s' a + (if q = Some a then 1 else 0) = refs s1 a + (if Some c = Some a then 1 else 0)" for a
    by (rule refs_set [of s1 "Head x"]) (use tag_invD(1) [OF i] q in \<open>simp_all add: s1_def s'_def\<close>)
  have r: "refs s' a = refs s a + (if a = c then 1 else 0)" for a using r1 [of a] r2 [of a] by (auto split: if_splits)
  have same: "cpath s' z ms" if "cpath s z ms" "z \<noteq> Head x" "z \<noteq> NextOf c" for z ms
    using that(1) by (rule cpath_frame) (use that cpath_nodes [OF that(1)] cf(1) in \<open>auto simp: s'_def\<close>)
  have "cpath s' (NextOf c) ns"
  proof (cases ns)
    case Nil
    then show ?thesis using p q by (simp add: s'_def)
  next
    case (Cons a ms)
    then have pa: "cpath s (NextOf a) ms" "a \<in> dom (ts_node s)" "q = Some a" using p q by simp_all
    have "cpath s' (NextOf a) ms" by (rule same [OF pa(1)]) (use pa(2) cf(1) in auto)
    then show ?thesis using Cons pa by (simp add: s'_def)
  qed
  then have mine: "cpath s' (Head x) (c # ns)" by (simp add: s'_def)
  have inv: "tag_inv s' (f(x \<mapsto> c # ns))" unfolding tag_inv_def
  proof (intro conjI allI impI ballI)
    show "finite (dom (ts_ptr s'))" using tag_invD(1) [OF i] by (simp add: s'_def)
    show "ts_ptr s' (Head y) \<noteq> None \<longleftrightarrow> y \<in> dom (f(x \<mapsto> c # ns))" for y using tag_invD(2) [OF i, of y] by (auto simp: s'_def)
    show "ts_ptr s' (NextOf a) \<noteq> None \<longleftrightarrow> a \<in> dom (ts_node s')" for a using tag_invD(3) [OF i, of a] by (auto simp: s'_def)
    show "cpath s' (Head y) ms" if "(f(x \<mapsto> c # ns)) y = Some ms" for y ms
      using that mine same [OF tag_invD(4) [OF i, of y ms]] by (cases "y = x") auto
    show "\<exists>y ms. (f(x \<mapsto> c # ns)) y = Some ms \<and> a \<in> set ms" if a: "a \<in> dom (ts_node s')" for a
    proof (cases "a = c")
      case True
      then show ?thesis by (intro exI [of _ x]) simp
    next
      case False
      then have "a \<in> dom (ts_node s)" using a by (simp add: s'_def)
      then obtain y ms where y: "f y = Some ms" "a \<in> set ms" using tag_invD(5) [OF i] by blast
      then show ?thesis using assms(2) by (cases "y = x") auto
    qed
    show "td_count e = refs s' a" "a < ts_limit s'" if e: "ts_node s' a = Some e" for a e
      using e r [of a] cf(3) tag_invD(6,7) [OF i, of a] by (auto simp: s'_def c_def split: if_splits) (fastforce dest: tag_invD(7) [OF i])
  qed
  have st: "same_tags s s'" using cf(1) by (auto simp: same_tags_def tag_of_def s'_def)
  have t: "tags s' (c # ns) = tag # tags s ns"
    using same_tags_tags [OF st cpath_nodes [OF p]] by (simp add: tags_def tag_of_def s'_def)
  have os: "others_same s s' x f" by (rule same_tags_others [OF st i])
  have "tag_ok s' (f(x \<mapsto> c # ns))"
    by (rule tag_ok_upd [OF assms(1) inv os]) (use tag_okD [OF assms(1,2)] t assms(3,4) in auto)
  then show ?thesis using A t os by blast
qed

lemma ReplaceWriter_before_merge:
  assumes "tag_inv s f" and "cur \<in> dom (ts_node s)" and "length (snd tag) = length (snd (tag_of s cur))" and "fst tag = fst (tag_of s cur)"
  shows "\<exists>s'. ReplaceWriter tag True cur pc s = Some (snd tag, s') \<and> tag_inv s' f \<and> tag_of s' cur = tag \<and>
    (\<forall>a. a \<noteq> cur \<longrightarrow> tag_of s' a = tag_of s a)"
proof -
  obtain d where d: "ts_node s cur = Some d" using assms(2) by blast
  define s' where "s' = s\<lparr>ts_node := (ts_node s)(cur \<mapsto> d\<lparr>td_data := snd tag\<rparr>)\<rparr>"
  have W: "ReplaceWriter tag True cur pc s = Some (snd tag, s')" using d assms(3) by (simp add: ReplaceWriter_def s'_def tag_of_def)
  have n: "dom (ts_node s') = dom (ts_node s)" using d by (auto simp: s'_def)
  have cp: "cpath s' z ms = cpath s z ms" for z ms by (induction ms arbitrary: z) (simp_all add: n, simp_all add: s'_def)
  have "refs s' = refs s" by (intro ext) (simp add: refs_def s'_def)
  then have "tag_inv s' f" using assms(1) d unfolding tag_inv_def n cp by (auto simp: s'_def)
  moreover have "tag_of s' cur = tag" using assms(4) d by (simp add: tag_of_def s'_def prod_eq_iff)
  ultimately show ?thesis using W by (auto simp: tag_of_def s'_def)
qed

text \<open>A tag replaced by one of the same type and size, or added when there is none of its type.\<close>

definition replaced :: "Tag \<Rightarrow> Tag list \<Rightarrow> Tag list" where
  "replaced tag ts = (if fst tag \<in> fst ` set ts then map (\<lambda>t. if fst t = fst tag then tag else t) ts else tag # ts)"

lemma Tag_Replace_ok:
  assumes "tag_ok s f" and "f x = Some ns" and "length (snd tag) < 2 ^ 32 - 1"
    and "\<forall>t\<in>set (tags s ns). fst t = fst tag \<longrightarrow> length (snd t) = length (snd tag)"
  shows "\<exists>s' ns'. Tag_Replace tag x s = Some (fst tag \<in> fst ` set (tags s ns), s') \<and> tag_ok s' (f(x \<mapsto> ns')) \<and>
    tags s' ns' = replaced tag (tags s ns) \<and> others_same s s' x f"
  using assms(1,2)
proof (rule COWTraverse_cases [where W = "ReplaceWriter tag" and tid = "fst tag"])
  assume a: "fst tag \<notin> fst ` set (tags s ns)" and C: "COWTraverse (fst tag) (ReplaceWriter tag) x s = Some (None, s)"
  from Tag_Add_ok [OF assms(1,2) a assms(3)] obtain s' ns' where "Tag_Add tag x s = Some s'" "tag_ok s' (f(x \<mapsto> ns'))"
    "tags s' ns' = tag # tags s ns" "others_same s s' x f" by blast
  then show ?thesis using a C by (intro exI [of _ s'] exI [of _ ns']) (simp add: Tag_Replace_def replaced_def)
next
  fix us cur vs
  assume ns: "ns = us @ cur # vs" and r: "\<forall>a\<in>set us. refs s a = 1" "refs s cur = 1" and t: "fst (tag_of s cur) = fst tag"
    and C: "COWTraverse (fst tag) (ReplaceWriter tag) x s = map_option (\<lambda>(r, s). (Some r, s)) (ReplaceWriter tag True cur (last_cell (Head x) us) s)"
  note ok = tag_okD [OF assms(1,2)]
  then have i: "tag_inv s f" and p: "cpath s (Head x) ns" by simp_all
  have cn: "cur \<in> dom (ts_node s)" using cpath_nodes [OF p] ns by auto
  have len: "length (snd tag) = length (snd (tag_of s cur))" using assms(4) ns t by (simp add: tags_def)
  from ReplaceWriter_before_merge [OF i cn len t [symmetric]] obtain s' where
    R: "ReplaceWriter tag True cur (last_cell (Head x) us) s = Some (snd tag, s')" "tag_inv s' f" "tag_of s' cur = tag"
       "\<forall>a. a \<noteq> cur \<longrightarrow> tag_of s' a = tag_of s a" by blast
  obtain b where cb: "tag_of s cur = (fst tag, b)" using t by (cases "tag_of s cur") auto
  have tn: "tags s ns = tags s us @ (fst tag, b) # tags s vs" using ns cb by (simp add: tags_def)
  have "cur \<notin> set us" "cur \<notin> set vs" using cpath_distinct [OF p] ns by auto
  then have tu: "tags s' us = tags s us" "tags s' vs = tags s vs" using R(4) by (auto simp: tags_def)
  have tv: "tags s' ns = tags s us @ tag # tags s vs" using tu R(3) ns by (simp add: tags_def)
  have os: "others_same s s' x f" unfolding others_same_def
  proof (intro allI impI)
    fix y ms assume y: "y \<noteq> x \<and> f y = Some ms"
    then have "set (us @ [cur]) \<inter> set ms = {}" using exclusive_prefix [OF i, of x "us @ [cur]" vs y ms] assms(2) ns r by simp
    then show "tags s' ms = tags s ms" using R(4) by (auto simp: tags_def)
  qed
  have d: "distinct (map fst (tags s us @ (fst tag, b) # tags s vs))" using ok tn by simp
  have fx: "f(x \<mapsto> ns) = f" using assms(2) by (simp add: fun_upd_idem)
  have inv: "tag_inv s' (f(x \<mapsto> ns))" using R(2) fx by simp
  have sz: "\<forall>t\<in>set (tags s' ns). length (snd t) < 2 ^ 32 - 1" using ok tn tv assms(3) by auto
  have "tag_ok s' (f(x \<mapsto> ns))" by (rule tag_ok_upd [OF assms(1) inv os _ sz]) (use tv d in auto)
  moreover have "replaced tag (tags s ns) = tags s us @ tag # tags s vs"
    using distinct_split(3) [OF d, of "snd tag", unfolded prod.collapse] by (simp add: replaced_def tn)
  moreover have "Tag_Replace tag x s = Some (fst tag \<in> fst ` set (tags s ns), s')" using C R(1) tn by (simp add: Tag_Replace_def)
  ultimately show ?thesis using tv os by metis
next
  fix us cur vs s1
  assume i1: "tag_inv s1 (f(x \<mapsto> us @ cur # vs))" and r: "\<forall>a\<in>set us. refs s1 a = 1" "1 < refs s1 cur" and t: "fst (tag_of s1 cur) = fst tag"
    and t1: "tags s1 (us @ cur # vs) = tags s ns" and st1: "same_tags s s1" and dm: "dom (ts_node s) \<subseteq> dom (ts_node s1)"
    and C: "COWTraverse (fst tag) (ReplaceWriter tag) x s = map_option (\<lambda>(r, s). (Some r, s)) (ReplaceWriter tag False cur (last_cell (Head x) us) s1)"
  note ok = tag_okD [OF assms(1,2)]
  have fx: "(f(x \<mapsto> us @ cur # vs)) x = Some (us @ cur # vs)" by simp
  let ?c = "ts_limit s1"
  from copy_node [OF i1 fx r assms(3), of "fst tag"] obtain s2 q s3 s4 s' where
    ops: "set_count (\<lambda>n. n - 1) cur s1 = Some s2" "ts_ptr s2 (NextOf cur) = Some q" "CreateTagData (fst tag) (snd tag) q s2 = Some (?c, s3)"
      "incoming q s3 = Some s4" "write_ptr (last_cell (Head x) us) (Some ?c) s4 = Some s'"
    and inv0: "tag_inv s' ((f(x \<mapsto> us @ cur # vs))(x \<mapsto> us @ ?c # vs))" and st: "same_tags s1 s'" and tc: "tag_of s' ?c = (fst tag, snd tag)"
    by (elim exE conjE) (rule that; assumption)
  have inv: "tag_inv s' (f(x \<mapsto> us @ ?c # vs))" using inv0 by simp
  have pn: "set (us @ cur # vs) \<subseteq> dom (ts_node s1)" using cpath_nodes [OF tag_invD(4) [OF i1, of x]] by simp
  obtain d where "ts_node s1 cur = Some d" using pn by auto
  then have R: "ReplaceWriter tag False cur (last_cell (Head x) us) s1 = Some (snd tag, s')" using ops by (simp add: ReplaceWriter_def)
  obtain b where cb: "tag_of s1 cur = (fst tag, b)" using t by (cases "tag_of s1 cur") auto
  have tn: "tags s ns = tags s1 us @ (fst tag, b) # tags s1 vs" using t1 cb by (simp add: tags_def)
  have tv: "tags s' (us @ ?c # vs) = tags s1 us @ tag # tags s1 vs"
    using same_tags_tags [OF st, of us] same_tags_tags [OF st, of vs] pn tc by (simp add: tags_def)
  have os: "others_same s s' x f" using same_tags_others [OF same_tags_trans [OF st1 st dm]] ok by blast
  have dd: "distinct (map fst (tags s1 us @ (fst tag, b) # tags s1 vs))" using ok tn by simp
  have sz: "\<forall>t\<in>set (tags s' (us @ ?c # vs)). length (snd t) < 2 ^ 32 - 1" using ok tn tv assms(3) by auto
  have "tag_ok s' (f(x \<mapsto> us @ ?c # vs))" by (rule tag_ok_upd [OF assms(1) inv os _ sz]) (use tv dd in auto)
  moreover have "replaced tag (tags s ns) = tags s1 us @ tag # tags s1 vs"
    using distinct_split(3) [OF dd, of "snd tag", unfolded prod.collapse] by (simp add: replaced_def tn)
  moreover have "Tag_Replace tag x s = Some (fst tag \<in> fst ` set (tags s ns), s')" using C R tn by (simp add: Tag_Replace_def)
  ultimately show ?thesis using tv os by metis
qed

end
