(* ===== verification/Packet_Tag_Free.thy ===== *)
theory Packet_Tag_Free
  imports Packet_Tag_Cow
begin

text \<open>
  \<^verbatim>\<open>RemoveAll\<close>: nodes are freed one behind the other until one has another incoming link.  During the loop the heap \<open>s\<close> is
  seen as a heap \<open>t\<close> without the head that goes away and without the node to be freed next.
\<close>

definition view :: "nat \<Rightarrow> nat option \<Rightarrow> TagStore \<Rightarrow> TagStore \<Rightarrow> bool" where
  "view x prev s t \<longleftrightarrow> ts_limit s = ts_limit t \<and> (\<exists>h. ts_ptr t (Head x) = None \<and>
     (case prev of
        None \<Rightarrow> ts_node s = ts_node t \<and> ts_ptr s = (ts_ptr t)(Head x \<mapsto> h)
      | Some p \<Rightarrow> p \<notin> dom (ts_node t) \<and> ts_ptr t (NextOf p) = None \<and> (\<exists>d q. ts_node s = (ts_node t)(p \<mapsto> d) \<and> ts_ptr s = (ts_ptr t)(Head x \<mapsto> h, NextOf p \<mapsto> q))))"

definition dying :: "TagStore \<Rightarrow> (nat \<rightharpoonup> nat list) \<Rightarrow> nat list \<Rightarrow> bool" where
  "dying t g rest \<longleftrightarrow> finite (dom (ts_ptr t)) \<and>
     (\<forall>x. ts_ptr t (Head x) \<noteq> None \<longleftrightarrow> x \<in> dom g) \<and> (\<forall>a. ts_ptr t (NextOf a) \<noteq> None \<longleftrightarrow> a \<in> dom (ts_node t)) \<and>
     (\<forall>x ns. g x = Some ns \<longrightarrow> cpath t (Head x) ns) \<and>
     (\<forall>a\<in>dom (ts_node t). (\<exists>x ns. g x = Some ns \<and> a \<in> set ns) \<or> a \<in> set rest) \<and>
     (\<forall>a d. ts_node t a = Some d \<longrightarrow> td_count d = refs t a + (if rest \<noteq> [] \<and> a = hd rest then 1 else 0) \<and> a < ts_limit t) \<and>
     (case rest of [] \<Rightarrow> True | a # r \<Rightarrow> a \<in> dom (ts_node t) \<and> cpath t (NextOf a) r)"

lemma dying_nil: "dying t g [] \<longleftrightarrow> tag_inv t g"
  by (auto simp: dying_def tag_inv_def)

lemma view_free:
  "view x prev s t \<Longrightarrow> \<exists>s'. (case prev of Some p \<Rightarrow> free_node p s | None \<Rightarrow> Some s) = Some s' \<and> view x None s' t"
proof (cases prev)
  case (Some p)
  assume v: "view x prev s t"
  then obtain h d q where v': "ts_limit s = ts_limit t" "ts_ptr t (Head x) = None" "p \<notin> dom (ts_node t)" "ts_ptr t (NextOf p) = None"
    "ts_node s = (ts_node t)(p \<mapsto> d)" "ts_ptr s = (ts_ptr t)(Head x \<mapsto> h, NextOf p \<mapsto> q)" using Some by (auto simp: view_def)
  define s' where "s' = s\<lparr>ts_node := (ts_node s)(p := None), ts_ptr := (ts_ptr s)(NextOf p := None)\<rparr>"
  have "free_node p s = Some s'" by (simp add: free_node_def v'(5) s'_def)
  moreover have "(ts_node t)(p := None) = ts_node t" using v'(3) by auto
  moreover have "((ts_ptr t)(Head x \<mapsto> h, NextOf p \<mapsto> q))(NextOf p := None) = (ts_ptr t)(Head x \<mapsto> h)" using v'(4) by auto
  ultimately show ?thesis using Some v' by (auto simp: view_def s'_def)
qed simp

text \<open>A node with a link that is not the one going away is still reached, and so is what follows.\<close>

lemma still_reached:
  assumes "dying t g (a # r)" and "0 < refs t a"
  shows "\<exists>y ns. g y = Some ns \<and> insert a (set r) \<subseteq> set ns"
proof -
  have fin: "finite (dom (ts_ptr t))" and heads: "\<And>x. ts_ptr t (Head x) \<noteq> None \<longleftrightarrow> x \<in> dom g"
    and nexts: "\<And>a. ts_ptr t (NextOf a) \<noteq> None \<longleftrightarrow> a \<in> dom (ts_node t)" and paths: "\<And>x ns. g x = Some ns \<Longrightarrow> cpath t (Head x) ns"
    and cover: "\<And>b. b \<in> dom (ts_node t) \<Longrightarrow> (\<exists>x ns. g x = Some ns \<and> b \<in> set ns) \<or> b \<in> set (a # r)" and pr: "cpath t (NextOf a) r"
    using assms(1) unfolding dying_def by auto
  have "{z. ts_ptr t z = Some (Some a)} \<noteq> {}"
  proof
    assume "{z. ts_ptr t z = Some (Some a)} = {}"
    then show False using assms(2) unfolding refs_def by (simp only: card.empty)
  qed
  then obtain z where z: "ts_ptr t z = Some (Some a)" by blast
  have "\<exists>y us ws. g y = Some (us @ a # ws)"
  proof (cases z)
    case (Head y)
    then obtain ns where ns: "g y = Some ns" using heads [of y] z by auto
    then obtain ws where "ns = [] @ a # ws" using paths [OF ns] z Head by (cases ns) auto
    then show ?thesis using ns by blast
  next
    case (NextOf b)
    have nb: "b \<in> dom (ts_node t)" using nexts [of b] z NextOf by simp
    have "b \<notin> set (a # r)"
    proof
      assume "b \<in> set (a # r)"
      then obtain us vs where sp: "a # r = us @ b # vs" by (meson split_list)
      have "cpath t (NextOf b) vs"
      proof (cases us)
        case Nil
        then show ?thesis using sp pr by simp
      next
        case (Cons c us')
        then show ?thesis using sp pr cpath_suffix [of t "NextOf a" us' b vs] by simp
      qed
      then obtain vs' where "vs = a # vs'" using z NextOf by (cases vs) auto
      then have "r \<noteq> []" "a \<in> set r" using sp by (cases us; auto)+
      then obtain us2 vs2 where r: "r = us2 @ a # vs2" by (meson split_list)
      then have "cpath t (NextOf a) vs2" using pr cpath_suffix by blast
      from cpath_unique [OF pr this] r show False by simp
    qed
    then obtain y ns where y: "g y = Some ns" "b \<in> set ns" using cover [OF nb] by blast
    then obtain us vs where ns: "ns = us @ b # vs" by (meson split_list)
    have "cpath t (NextOf b) vs" using paths [OF y(1)] ns cpath_suffix by blast
    then obtain vs' where "vs = a # vs'" using z NextOf by (cases vs) auto
    then have "g y = Some ((us @ [b]) @ a # vs')" using y(1) ns by simp
    then show ?thesis by blast
  qed
  then obtain y us ws where y: "g y = Some (us @ a # ws)" by blast
  have "cpath t (NextOf a) ws" using paths [OF y] cpath_suffix by blast
  from cpath_unique [OF this pr] y show ?thesis by (intro exI [of _ y]) auto
qed

lemma remove_all_loop_ok:
  assumes "dying t g rest" and "view x prev s t" and "ts_limit s = l"
  shows "\<exists>prev' s' t'. remove_all_loop prev (case rest of [] \<Rightarrow> None | a # _ \<Rightarrow> Some a) s = Some (prev', s') \<and>
    tag_inv t' g \<and> view x prev' s' t' \<and> (\<forall>y ns a. g y = Some ns \<and> a \<in> set ns \<longrightarrow> tag_of t' a = tag_of t a)"
  using assms(1,2)
proof (induction rest arbitrary: s t prev)
  case Nil
  then show ?case by (intro exI [of _ prev] exI [of _ s] exI [of _ t]) (subst remove_all_loop.simps, simp add: dying_nil)
next
  case (Cons a r)
  have an: "a \<in> dom (ts_node t)" and pr: "cpath t (NextOf a) r" and fin: "finite (dom (ts_ptr t))"
    and heads: "\<And>x. ts_ptr t (Head x) \<noteq> None \<longleftrightarrow> x \<in> dom g" and nexts: "\<And>a. ts_ptr t (NextOf a) \<noteq> None \<longleftrightarrow> a \<in> dom (ts_node t)"
    and paths: "\<And>x ns. g x = Some ns \<Longrightarrow> cpath t (Head x) ns"
    and cover: "\<And>b. b \<in> dom (ts_node t) \<Longrightarrow> (\<exists>x ns. g x = Some ns \<and> b \<in> set ns) \<or> b \<in> set (a # r)"
    and cnt: "\<And>b d. ts_node t b = Some d \<Longrightarrow> td_count d = refs t b + (if b = a then 1 else 0) \<and> b < ts_limit t"
    using Cons.prems(1) unfolding dying_def by auto
  obtain d where d: "ts_node t a = Some d" using an by blast
  have dc: "td_count d = refs t a + 1" using cnt [OF d] by simp
  obtain h where hx: "ts_ptr t (Head x) = None" using Cons.prems(2) by (auto simp: view_def)
  have sa: "ts_node s a = Some d"
  proof (cases prev)
    case (Some p)
    then obtain d0 where "ts_node s = (ts_node t)(p \<mapsto> d0)" "p \<notin> dom (ts_node t)" using Cons.prems(2) by (auto simp: view_def)
    moreover from this(2) have "a \<noteq> p" using d by auto
    ultimately show ?thesis using d by simp
  qed (use Cons.prems(2) d in \<open>simp add: view_def\<close>)
  define d' where "d' = d\<lparr>td_count := refs t a\<rparr>"
  define s1 where "s1 = s\<lparr>ts_node := (ts_node s)(a \<mapsto> d')\<rparr>"
  define t1 where "t1 = t\<lparr>ts_node := (ts_node t)(a \<mapsto> d')\<rparr>"
  have S1: "set_count (\<lambda>n. n - 1) a s = Some s1" using sa dc by (simp add: set_count_def s1_def d'_def)
  have v1: "view x prev s1 t1"
  proof (cases prev)
    case (Some p)
    then obtain h e q where v: "ts_limit s = ts_limit t" "p \<notin> dom (ts_node t)" "ts_ptr t (NextOf p) = None"
      "ts_node s = (ts_node t)(p \<mapsto> e)" "ts_ptr s = (ts_ptr t)(Head x \<mapsto> h, NextOf p \<mapsto> q)" using Cons.prems(2) by (auto simp: view_def)
    have "a \<noteq> p" using an v(2) by auto
    then have "ts_node s1 = (ts_node t1)(p \<mapsto> e)" using v(4) by (auto simp: s1_def t1_def)
    then show ?thesis using Some v hx an by (auto simp: view_def s1_def t1_def)
  qed (use Cons.prems(2) in \<open>auto simp: view_def s1_def t1_def\<close>)
  show ?case
  proof (cases "0 < refs t a")
    case True
    from still_reached [OF Cons.prems(1) True] obtain y ns where y: "g y = Some ns" "insert a (set r) \<subseteq> set ns" by blast
    have n1: "dom (ts_node t1) = dom (ts_node t)" using an by (auto simp: t1_def)
    have c1: "cpath t1 z ms = cpath t z ms" for z ms by (induction ms arbitrary: z) (simp_all add: n1, simp_all add: t1_def)
    have "refs t1 = refs t" by (intro ext) (simp add: refs_def t1_def)
    moreover have "\<exists>x ns. g x = Some ns \<and> b \<in> set ns" if "b \<in> dom (ts_node t)" for b using cover [OF that] y by auto
    moreover have "td_count e = refs t b \<and> b < ts_limit t" if "ts_node t1 b = Some e" for b e
      using that cnt d by (cases "b = a") (auto simp: t1_def d'_def)
    ultimately have "tag_inv t1 g" unfolding tag_inv_def n1 c1 using fin heads nexts paths by (simp add: t1_def)
    moreover have "remove_all_loop prev (Some a) s = Some (prev, s1)"
      using S1 True by (subst remove_all_loop.simps) (simp add: s1_def d'_def)
    moreover have "tag_of t1 b = tag_of t b" for b using d by (simp add: tag_of_def t1_def d'_def)
    ultimately show ?thesis using v1 by (intro exI [of _ prev] exI [of _ s1] exI [of _ t1]) simp
  next
    case False
    from view_free [OF v1] obtain s2 where s2: "(case prev of Some p \<Rightarrow> free_node p s1 | None \<Rightarrow> Some s1) = Some s2" "view x None s2 t1" by blast
    then obtain h where h: "ts_node s2 = ts_node t1" "ts_ptr s2 = (ts_ptr t1)(Head x \<mapsto> h)" "ts_limit s2 = ts_limit t1" by (auto simp: view_def)
    obtain q where q: "ts_ptr t (NextOf a) = Some q" using pr by (cases r) auto
    have qr: "q = (case r of [] \<Rightarrow> None | b # _ \<Rightarrow> Some b)" using pr q by (cases r) auto
    define t2 where "t2 = t\<lparr>ts_node := (ts_node t)(a := None), ts_ptr := (ts_ptr t)(NextOf a := None)\<rparr>"
    have r2: "refs t2 b + (if q = Some b then 1 else 0) = refs t b" for b
      by (rule refs_gone [OF fin q]) (simp add: t2_def)
    have noa: "a \<notin> set ns" if "g y = Some ns" for y ns
    proof
      assume "a \<in> set ns"
      from cpath_cell [OF paths [OF that] this] obtain z where "ts_ptr t z = Some (Some a)" by blast
      from refs_pos [OF fin this] False show False by simp
    qed
    have ar: "a \<notin> set r"
    proof
      assume "a \<in> set r"
      from cpath_cell [OF pr this] obtain z where "ts_ptr t z = Some (Some a)" by blast
      from refs_pos [OF fin this] False show False by simp
    qed
    have same: "cpath t2 z ms" if "cpath t z ms" "a \<notin> set ms" "z \<noteq> NextOf a" for z ms
      using that(1) by (rule cpath_frame) (use that cpath_nodes [OF that(1)] in \<open>auto simp: t2_def\<close>)
    have "dying t2 g r" unfolding dying_def
    proof (intro conjI allI impI ballI)
      show "finite (dom (ts_ptr t2))" using fin by (simp add: t2_def)
      show "ts_ptr t2 (Head y) \<noteq> None \<longleftrightarrow> y \<in> dom g" for y using heads [of y] by (simp add: t2_def)
      show "ts_ptr t2 (NextOf b) \<noteq> None \<longleftrightarrow> b \<in> dom (ts_node t2)" for b using nexts [of b] by (auto simp: t2_def)
      show "cpath t2 (Head y) ns" if "g y = Some ns" for y ns by (rule same [OF paths [OF that] noa [OF that]]) simp
      show "(\<exists>y ns. g y = Some ns \<and> b \<in> set ns) \<or> b \<in> set r" if "b \<in> dom (ts_node t2)" for b
        using cover [of b] that by (auto simp: t2_def split: if_splits)
      show "td_count e = refs t2 b + (if r \<noteq> [] \<and> b = hd r then 1 else 0)" "b < ts_limit t2" if e: "ts_node t2 b = Some e" for b e
      proof -
        have b: "b \<noteq> a" "ts_node t b = Some e" using e by (auto simp: t2_def split: if_splits)
        have "q = Some b \<longleftrightarrow> r \<noteq> [] \<and> b = hd r" using qr by (cases r) auto
        then show "td_count e = refs t2 b + (if r \<noteq> [] \<and> b = hd r then 1 else 0)" "b < ts_limit t2"
          using cnt [OF b(2)] b(1) r2 [of b] by (simp_all add: t2_def)
      qed
      show "case r of [] \<Rightarrow> True | b # r' \<Rightarrow> b \<in> dom (ts_node t2) \<and> cpath t2 (NextOf b) r'"
      proof (cases r)
        case (Cons b r')
        then have "b \<in> dom (ts_node t)" "cpath t (NextOf b) r'" using pr by simp_all
        moreover have "b \<noteq> a" "a \<notin> set r'" using ar Cons by auto
        ultimately show ?thesis using Cons same [of "NextOf b" r'] by (simp add: t2_def)
      qed simp
    qed
    moreover have "view x (Some a) s2 t2"
    proof -
      have "ts_node s2 = (ts_node t2)(a \<mapsto> d')" using h by (simp add: t1_def t2_def)
      moreover have "ts_ptr s2 = (ts_ptr t2)(Head x \<mapsto> h, NextOf a \<mapsto> q)" using h q by (auto simp: t1_def t2_def)
      ultimately show ?thesis using hx h(3) by (auto simp: view_def t2_def t1_def)
    qed
    ultimately obtain prev' s' t' where IH: "remove_all_loop (Some a) (case r of [] \<Rightarrow> None | b # _ \<Rightarrow> Some b) s2 = Some (prev', s')"
      "tag_inv t' g" "view x prev' s' t'" "\<forall>y ns b. g y = Some ns \<and> b \<in> set ns \<longrightarrow> tag_of t' b = tag_of t2 b" using Cons.IH by blast
    have "remove_all_loop prev (Some a) s = remove_all_loop (Some a) q s2"
    proof -
      have "ts_node s1 a = Some d'" by (simp add: s1_def)
      moreover have "ts_ptr s2 (NextOf a) = Some q" using h q by (simp add: t1_def)
      ultimately show ?thesis using S1 False s2(1) by (subst remove_all_loop.simps) (simp add: d'_def)
    qed
    moreover have "tag_of t2 b = tag_of t b" if "g y = Some ns" "b \<in> set ns" for y ns b
      using noa [OF that(1)] that(2) by (auto simp: tag_of_def t2_def)
    ultimately show ?thesis using IH qr by (intro exI [of _ prev'] exI [of _ s'] exI [of _ t']) auto
  qed
qed

lemma RemoveAll_ok:
  assumes "tag_ok s f" and "f x = Some ns"
  shows "\<exists>s'. RemoveAll x s = Some s' \<and> tag_ok s' (f(x \<mapsto> [])) \<and> others_same s s' x f"
proof -
  define g where "g = f(x := None)"
  define t where "t = s\<lparr>ts_ptr := (ts_ptr s)(Head x := None)\<rparr>"
  have i: "tag_inv s f" and p: "cpath s (Head x) ns" using tag_okD [OF assms] by simp_all
  obtain q where q: "ts_ptr s (Head x) = Some q" using p by (cases ns) auto
  have qn: "q = (case ns of [] \<Rightarrow> None | a # _ \<Rightarrow> Some a)" using p q by (cases ns) auto
  have rt: "refs t a + (if q = Some a then 1 else 0) = refs s a" for a
    by (rule refs_gone [OF tag_invD(1) [OF i] q]) (simp add: t_def)
  have same: "cpath t z ms" if "cpath s z ms" "z \<noteq> Head x" for z ms
    using that(1) by (rule cpath_frame) (use that cpath_nodes [OF that(1)] in \<open>auto simp: t_def\<close>)
  have "dying t g ns" unfolding dying_def
  proof (intro conjI allI impI ballI)
    show "finite (dom (ts_ptr t))" using tag_invD(1) [OF i] by (simp add: t_def)
    show "ts_ptr t (Head y) \<noteq> None \<longleftrightarrow> y \<in> dom g" for y using tag_invD(2) [OF i, of y] by (auto simp: t_def g_def)
    show "ts_ptr t (NextOf a) \<noteq> None \<longleftrightarrow> a \<in> dom (ts_node t)" for a using tag_invD(3) [OF i, of a] by (simp add: t_def)
    show "cpath t (Head y) ms" if "g y = Some ms" for y ms
      using that by (intro same tag_invD(4) [OF i]) (auto simp: g_def split: if_splits)
    show "(\<exists>y ms. g y = Some ms \<and> a \<in> set ms) \<or> a \<in> set ns" if "a \<in> dom (ts_node t)" for a
    proof -
      have "a \<in> dom (ts_node s)" using that by (simp add: t_def)
      then obtain y ms where "f y = Some ms" "a \<in> set ms" using tag_invD(5) [OF i] by blast
      then show ?thesis using assms(2) by (cases "y = x") (auto simp: g_def)
    qed
    show "td_count d = refs t a + (if ns \<noteq> [] \<and> a = hd ns then 1 else 0)" "a < ts_limit t" if d: "ts_node t a = Some d" for a d
    proof -
      have "q = Some a \<longleftrightarrow> ns \<noteq> [] \<and> a = hd ns" using qn by (cases ns) auto
      then show "td_count d = refs t a + (if ns \<noteq> [] \<and> a = hd ns then 1 else 0)" "a < ts_limit t"
        using d tag_invD(6,7) [OF i, of a] rt [of a] by (auto simp: t_def)
    qed
    show "case ns of [] \<Rightarrow> True | a # r \<Rightarrow> a \<in> dom (ts_node t) \<and> cpath t (NextOf a) r"
      using p same by (cases ns) (auto simp: t_def)
  qed
  moreover have "view x None s t"
  proof -
    have "ts_ptr s = (ts_ptr t)(Head x \<mapsto> q)" using q by (auto simp: t_def)
    then show ?thesis by (auto simp: view_def t_def)
  qed
  ultimately obtain prev' s1 t1 where L: "remove_all_loop None q s = Some (prev', s1)" "tag_inv t1 g" "view x prev' s1 t1"
    "\<forall>y ms a. g y = Some ms \<and> a \<in> set ms \<longrightarrow> tag_of t1 a = tag_of t a"
    using remove_all_loop_ok [of t g ns x None s "ts_limit s"] qn by blast
  from view_free [OF L(3)] obtain s2 where F: "(case prev' of Some p \<Rightarrow> free_node p s1 | None \<Rightarrow> Some s1) = Some s2" "view x None s2 t1" by blast
  then obtain h where h: "ts_node s2 = ts_node t1" "ts_ptr s2 = (ts_ptr t1)(Head x \<mapsto> h)" "ts_limit s2 = ts_limit t1" "ts_ptr t1 (Head x) = None"
    by (auto simp: view_def)
  define s' where "s' = s2\<lparr>ts_ptr := (ts_ptr s2)(Head x \<mapsto> None)\<rparr>"
  have R: "RemoveAll x s = Some s'" using q L(1) F(1) h(2) by (simp add: RemoveAll_def write_ptr_def s'_def)
  have sp: "ts_ptr s' = (ts_ptr t1)(Head x \<mapsto> None)" and sn: "ts_node s' = ts_node t1" and sl: "ts_limit s' = ts_limit t1"
    using h by (simp_all add: s'_def)
  have rs: "refs s' a = refs t1 a" for a
    using refs_new [OF tag_invD(1) [OF L(2)] h(4), of s' None a] sp by simp
  have same1: "cpath s' z ms" if "cpath t1 z ms" "z \<noteq> Head x" for z ms
    using that(1) by (rule cpath_frame) (use that cpath_nodes [OF that(1)] in \<open>auto simp: sp sn\<close>)
  have gf: "f(x \<mapsto> []) = g(x \<mapsto> [])" by (simp add: g_def)
  have inv: "tag_inv s' (f(x \<mapsto> []))" unfolding tag_inv_def gf
  proof (intro conjI allI impI ballI)
    show "finite (dom (ts_ptr s'))" using tag_invD(1) [OF L(2)] by (simp add: sp)
    show "ts_ptr s' (Head y) \<noteq> None \<longleftrightarrow> y \<in> dom (g(x \<mapsto> []))" for y using tag_invD(2) [OF L(2), of y] by (auto simp: sp)
    show "ts_ptr s' (NextOf a) \<noteq> None \<longleftrightarrow> a \<in> dom (ts_node s')" for a using tag_invD(3) [OF L(2), of a] by (simp add: sp sn)
    show "cpath s' (Head y) ms" if "(g(x \<mapsto> [])) y = Some ms" for y ms
      using that same1 [OF tag_invD(4) [OF L(2), of y ms]] by (cases "y = x") (auto simp: sp)
    show "\<exists>y ms. (g(x \<mapsto> [])) y = Some ms \<and> a \<in> set ms" if "a \<in> dom (ts_node s')" for a
    proof -
      have "a \<in> dom (ts_node t1)" using that unfolding sn .
      from tag_invD(5) [OF L(2) this] obtain y ms where y: "g y = Some ms" "a \<in> set ms" by blast
      then have "y \<noteq> x" by (auto simp: g_def)
      then show ?thesis using y by auto
    qed
    show "td_count d = refs s' a" "a < ts_limit s'" if "ts_node s' a = Some d" for a d
      using tag_invD(6,7) [OF L(2), of a] that by (auto simp: sn rs sl)
  qed
  have os: "others_same s s' x f" unfolding others_same_def
  proof (intro allI impI)
    fix y ms assume y: "y \<noteq> x \<and> f y = Some ms"
    then have gy: "g y = Some ms" by (simp add: g_def)
    have "tag_of t1 a = tag_of t a" if "a \<in> set ms" for a using L(4) gy that by blast
    moreover have "tag_of s' a = tag_of t1 a" "tag_of t a = tag_of s a" for a by (simp_all add: tag_of_def sn t_def)
    ultimately show "tags s' ms = tags s ms" by (simp add: tags_def)
  qed
  have "tag_ok s' (f(x \<mapsto> []))" by (rule tag_ok_upd [OF assms(1) inv os]) (simp_all add: tags_def)
  then show ?thesis using R os by blast
qed

section \<open>Construction, copies, assignment and destruction\<close>

text \<open>List objects that come and go: construction, copies, assignment and destruction.\<close>

lemma PacketTagList_new_ok:
  assumes "tag_ok s f" and "f x = None"
  shows "tag_ok (PacketTagList_new x s) (f(x \<mapsto> [])) \<and> others_same s (PacketTagList_new x s) x f"
proof -
  let ?s = "PacketTagList_new x s"
  have i: "tag_inv s f" using assms(1) by (simp add: tag_ok_def)
  have sp: "ts_ptr ?s = (ts_ptr s)(Head x \<mapsto> None)" and sn: "ts_node ?s = ts_node s" and sl: "ts_limit ?s = ts_limit s"
    by (simp_all add: PacketTagList_new_def)
  have hx: "ts_ptr s (Head x) = None" using tag_invD(2) [OF i, of x] assms(2) by auto
  have rs: "refs ?s a = refs s a" for a using refs_new [OF tag_invD(1) [OF i] hx sp] by simp
  have inv: "tag_inv ?s (f(x \<mapsto> []))" unfolding tag_inv_def
  proof (intro conjI allI impI ballI)
    show "finite (dom (ts_ptr ?s))" using tag_invD(1) [OF i] by (simp add: sp)
    show "ts_ptr ?s (Head y) \<noteq> None \<longleftrightarrow> y \<in> dom (f(x \<mapsto> []))" for y using tag_invD(2) [OF i, of y] by (auto simp: sp)
    show "ts_ptr ?s (NextOf a) \<noteq> None \<longleftrightarrow> a \<in> dom (ts_node ?s)" for a using tag_invD(3) [OF i, of a] by (simp add: sp sn)
    show "cpath ?s (Head y) ms" if "(f(x \<mapsto> [])) y = Some ms" for y ms
    proof (cases "y = x")
      case False
      then have p: "cpath s (Head y) ms" using that tag_invD(4) [OF i] by simp
      show ?thesis using False cpath_nodes [OF p] by (intro cpath_frame [OF p]) (auto simp: sp sn)
    qed (use that in \<open>simp add: sp\<close>)
    show "\<exists>y ms. (f(x \<mapsto> [])) y = Some ms \<and> a \<in> set ms" if "a \<in> dom (ts_node ?s)" for a
    proof -
      have "a \<in> dom (ts_node s)" using that unfolding sn .
      from tag_invD(5) [OF i this] obtain y ms where "f y = Some ms" "a \<in> set ms" by blast
      moreover from this(1) have "y \<noteq> x" using assms(2) by auto
      ultimately show ?thesis by auto
    qed
    show "td_count d = refs ?s a" "a < ts_limit ?s" if "ts_node ?s a = Some d" for a d
      using that tag_invD(6,7) [OF i, of a] by (auto simp: sn rs sl)
  qed
  have "others_same s ?s x f" by (simp add: others_same_def tags_def tag_of_def sn)
  moreover from this have "tag_ok ?s (f(x \<mapsto> []))" by (intro tag_ok_upd [OF assms(1) inv]) (simp_all add: tags_def)
  ultimately show ?thesis by blast
qed

text \<open>An empty or new object made to point where another points.\<close>

lemma share_ok:
  assumes "tag_ok s f" and "f y = Some ns" and "f x = None \<or> f x = Some []" and "ts_ptr s (Head y) = Some q"
  shows "\<exists>s'. incoming q (s\<lparr>ts_ptr := (ts_ptr s)(Head x \<mapsto> q)\<rparr>) = Some s' \<and> tag_ok s' (f(x \<mapsto> ns)) \<and> tags s' ns = tags s ns \<and> others_same s s' x f"
proof -
  note ok = tag_okD [OF assms(1,2)]
  have i: "tag_inv s f" and p: "cpath s (Head y) ns" using ok by simp_all
  define s0 where "s0 = s\<lparr>ts_ptr := (ts_ptr s)(Head x \<mapsto> q)\<rparr>"
  define bump where "bump = (\<lambda>a e. if q = Some a then e\<lparr>td_count := td_count e + 1\<rparr> else (e :: TagData))"
  define s' where "s' = s0\<lparr>ts_node := (\<lambda>a. map_option (bump a) (ts_node s a))\<rparr>"
  have S: "incoming q s0 = Some s'"
  proof (cases q)
    case None
    then have "bump = (\<lambda>a e. e)" by (simp add: bump_def)
    then show ?thesis using None by (simp add: incoming_def s'_def s0_def map_option.id [unfolded id_def])
  next
    case (Some b)
    then obtain e where e: "ts_node s b = Some e" using ptr_target [OF i] assms(4) by blast
    have "(ts_node s)(b \<mapsto> e\<lparr>td_count := td_count e + 1\<rparr>) = (\<lambda>a. map_option (bump a) (ts_node s a))"
      using e Some by (auto simp: bump_def map_option.id [unfolded id_def])
    then show ?thesis using Some e by (simp add: incoming_def set_count_def s'_def s0_def)
  qed
  have sp: "ts_ptr s' = (ts_ptr s)(Head x \<mapsto> q)" and sl: "ts_limit s' = ts_limit s" by (simp_all add: s'_def s0_def)
  have sn: "dom (ts_node s') = dom (ts_node s)" by (auto simp: s'_def)
  have tg: "tag_of s' a = tag_of s a" if "a \<in> dom (ts_node s)" for a using that by (auto simp: tag_of_def s'_def bump_def)
  have rs: "refs s' a = refs s a + (if q = Some a then 1 else 0)" for a
  proof (cases "f x = None")
    case True
    then have "ts_ptr s (Head x) = None" using tag_invD(2) [OF i, of x] by auto
    then show ?thesis using refs_new [OF tag_invD(1) [OF i] _ sp] by simp
  next
    case False
    then have "f x = Some []" using assms(3) by auto
    then have "ts_ptr s (Head x) = Some None" using tag_invD(4) [OF i, of x "[]"] by simp
    then show ?thesis using refs_set [OF tag_invD(1) [OF i] _ sp, of None a] by simp
  qed
  have same: "cpath s' z ms" if "cpath s z ms" "z \<noteq> Head x" for z ms
    using that(1) by (rule cpath_frame) (use that cpath_nodes [OF that(1)] sn in \<open>auto simp: sp\<close>)
  have inv: "tag_inv s' (f(x \<mapsto> ns))" unfolding tag_inv_def
  proof (intro conjI allI impI ballI)
    show "finite (dom (ts_ptr s'))" using tag_invD(1) [OF i] by (simp add: sp)
    show "ts_ptr s' (Head z) \<noteq> None \<longleftrightarrow> z \<in> dom (f(x \<mapsto> ns))" for z using tag_invD(2) [OF i, of z] by (auto simp: sp)
    show "ts_ptr s' (NextOf a) \<noteq> None \<longleftrightarrow> a \<in> dom (ts_node s')" for a using tag_invD(3) [OF i, of a] by (simp add: sp sn)
    show "cpath s' (Head z) ms" if z: "(f(x \<mapsto> ns)) z = Some ms" for z ms
    proof (cases "z = x")
      case True
      then have "ms = ns" using z by simp
      then show ?thesis using True p assms(4) same [of "NextOf (hd ns)" "tl ns"] sn by (cases ns) (auto simp: sp)
    qed (use z same tag_invD(4) [OF i, of z ms] in auto)
    show "\<exists>z ms. (f(x \<mapsto> ns)) z = Some ms \<and> a \<in> set ms" if "a \<in> dom (ts_node s')" for a
    proof -
      have "a \<in> dom (ts_node s)" using that unfolding sn .
      from tag_invD(5) [OF i this] obtain z ms where "f z = Some ms" "a \<in> set ms" by blast
      moreover from this have "z \<noteq> x" using assms(3) by auto
      ultimately show ?thesis by auto
    qed
    show "td_count d = refs s' a" "a < ts_limit s'" if "ts_node s' a = Some d" for a d
    proof -
      obtain e where e: "ts_node s a = Some e" "d = bump a e" using \<open>ts_node s' a = Some d\<close> by (auto simp: s'_def)
      then show "td_count d = refs s' a" using tag_invD(6) [OF i e(1)] unfolding rs by (simp add: bump_def)
      show "a < ts_limit s'" using tag_invD(7) [OF i, of a] e(1) unfolding sl by blast
    qed
  qed
  have st: "same_tags s s'" using tg by (simp add: same_tags_def)
  have tn: "tags s' ns = tags s ns" by (rule same_tags_tags [OF st cpath_nodes [OF p]])
  have os: "others_same s s' x f" by (rule same_tags_others [OF st i])
  have "tag_ok s' (f(x \<mapsto> ns))" by (rule tag_ok_upd [OF assms(1) inv os]) (use tn ok in simp_all)
  then show ?thesis using S tn os unfolding s0_def by blast
qed

lemma head_ptr: "tag_ok s f \<Longrightarrow> f x = Some ns \<Longrightarrow> ts_ptr s (Head x) = Some (case ns of [] \<Rightarrow> None | a # _ \<Rightarrow> Some a)"
  using tag_okD [of s f x ns] by (cases ns) auto

lemma PacketTagList_copy_ok:
  assumes "tag_ok s f" and "f y = Some ns" and "f x = None"
  shows "\<exists>s'. PacketTagList_copy x y s = Some s' \<and> tag_ok s' (f(x \<mapsto> ns)) \<and> tags s' ns = tags s ns \<and> others_same s s' x f"
  using share_ok [OF assms(1,2) disjI1 [OF assms(3)] head_ptr [OF assms(1,2)]] head_ptr [OF assms(1,2)]
  by (simp add: PacketTagList_copy_def)

lemma PacketTagList_assign_ok:
  assumes "tag_ok s f" and "f x = Some ms" and "f y = Some ns"
  shows "\<exists>s'. PacketTagList_assign x y s = Some s' \<and> tag_ok s' (f(x \<mapsto> ns)) \<and> tags s' ns = tags s ns \<and> others_same s s' x f"
proof -
  note hx = head_ptr [OF assms(1,2)] and hy = head_ptr [OF assms(1,3)]
  show ?thesis
  proof (cases "ts_ptr s (Head x) = ts_ptr s (Head y)")
    case True
    have "cpath s (Head x) ns" using tag_okD [OF assms(1,3)] hx hy True by (cases ns) auto
    then have "ms = ns" using tag_okD [OF assms(1,2)] cpath_unique by blast
    then have "f(x \<mapsto> ns) = f" using assms(2) by (simp add: fun_upd_idem)
    moreover have "PacketTagList_assign x y s = Some s" using True hy by (simp add: PacketTagList_assign_def)
    ultimately show ?thesis using assms(1) by (simp add: others_same_def)
  next
    case False
    then have xy: "y \<noteq> x" by blast
    from RemoveAll_ok [OF assms(1,2)] obtain s1 where
      R: "RemoveAll x s = Some s1" "tag_ok s1 (f(x \<mapsto> []))" "others_same s s1 x f" by blast
    have fy: "(f(x \<mapsto> [])) y = Some ns" using assms(3) xy by simp
    have fx: "(f(x \<mapsto> [])) x = Some []" by simp
    let ?q = "case ns of [] \<Rightarrow> None | a # _ \<Rightarrow> Some a"
    have h1: "ts_ptr s1 (Head y) = Some ?q" "ts_ptr s1 (Head x) = Some None" using head_ptr [OF R(2) fy] head_ptr [OF R(2) fx] by simp_all
    from share_ok [OF R(2) fy disjI2 [OF fx] h1(1)] obtain s' where
      S: "incoming ?q (s1\<lparr>ts_ptr := (ts_ptr s1)(Head x \<mapsto> ?q)\<rparr>) = Some s'" "tag_ok s' (f(x \<mapsto> ns))" "tags s' ns = tags s1 ns"
         "others_same s1 s' x (f(x \<mapsto> []))" unfolding fun_upd_upd by (elim exE conjE) (rule that; assumption)
    have "PacketTagList_assign x y s = Some s'"
      using False hx hy R(1) h1 S(1) by (simp add: PacketTagList_assign_def write_ptr_def)
    moreover have "tags s1 ns = tags s ns" using R(3) xy assms(3) by (simp add: others_same_def)
    moreover have "others_same s s' x f" unfolding others_same_def
    proof (intro allI impI)
      fix z zs assume z: "z \<noteq> x \<and> f z = Some zs"
      then have "(f(x \<mapsto> [])) z = Some zs" by simp
      with z S(4) have "tags s' zs = tags s1 zs" unfolding others_same_def by blast
      also have "\<dots> = tags s zs" using R(3) z unfolding others_same_def by blast
      finally show "tags s' zs = tags s zs" .
    qed
    ultimately show ?thesis using S by simp
  qed
qed

lemma PacketTagList_destroy_ok:
  assumes "tag_ok s f" and "f x = Some ns"
  shows "\<exists>s'. PacketTagList_destroy x s = Some s' \<and> tag_ok s' (f(x := None)) \<and> others_same s s' x f"
proof -
  from RemoveAll_ok [OF assms] obtain s1 where R: "RemoveAll x s = Some s1" "tag_ok s1 (f(x \<mapsto> []))" "others_same s s1 x f" by blast
  define s' where "s' = s1\<lparr>ts_ptr := (ts_ptr s1)(Head x := None)\<rparr>"
  have sp: "ts_ptr s' = (ts_ptr s1)(Head x := None)" and sn: "ts_node s' = ts_node s1" and sl: "ts_limit s' = ts_limit s1"
    by (simp_all add: s'_def)
  have i: "tag_inv s1 (f(x \<mapsto> []))" using R(2) by (simp add: tag_ok_def)
  have hx: "ts_ptr s1 (Head x) = Some None" using head_ptr [OF R(2), of x "[]"] by simp
  have rs: "refs s' a = refs s1 a" for a using refs_gone [OF tag_invD(1) [OF i] hx sp, of a] by simp
  have "tag_inv s' (f(x := None))" unfolding tag_inv_def
  proof (intro conjI allI impI ballI)
    show "finite (dom (ts_ptr s'))" using tag_invD(1) [OF i] by (simp add: sp)
    show "ts_ptr s' (Head z) \<noteq> None \<longleftrightarrow> z \<in> dom (f(x := None))" for z using tag_invD(2) [OF i, of z] by (auto simp: sp)
    show "ts_ptr s' (NextOf a) \<noteq> None \<longleftrightarrow> a \<in> dom (ts_node s')" for a using tag_invD(3) [OF i, of a] by (simp add: sp sn)
    show "cpath s' (Head z) ms" if z: "(f(x := None)) z = Some ms" for z ms
    proof -
      have zx: "z \<noteq> x" "(f(x \<mapsto> [])) z = Some ms" using z by (auto split: if_splits)
      from tag_invD(4) [OF i this(2)] have p: "cpath s1 (Head z) ms" .
      show ?thesis using zx(1) cpath_nodes [OF p] by (intro cpath_frame [OF p]) (auto simp: sp sn)
    qed
    show "\<exists>z ms. (f(x := None)) z = Some ms \<and> a \<in> set ms" if "a \<in> dom (ts_node s')" for a
    proof -
      have "a \<in> dom (ts_node s1)" using that unfolding sn .
      from tag_invD(5) [OF i this] obtain z ms where z: "(f(x \<mapsto> [])) z = Some ms" "a \<in> set ms" by blast
      then have "z \<noteq> x" by auto
      then show ?thesis using z by auto
    qed
    show "td_count d = refs s' a" "a < ts_limit s'" if "ts_node s' a = Some d" for a d
      using that tag_invD(6,7) [OF i, of a] by (auto simp: sn rs sl)
  qed
  moreover have tg: "tags s' ms = tags s1 ms" for ms by (simp add: tags_def tag_of_def sn)
  moreover have "distinct (map fst (tags s1 ms)) \<and> (\<forall>t\<in>set (tags s1 ms). length (snd t) < 2 ^ 32 - 1)" if "(f(x := None)) y = Some ms" for y ms
  proof -
    have "(f(x \<mapsto> [])) y = Some ms" using that by (auto split: if_splits)
    from tag_okD [OF R(2) this] show ?thesis by blast
  qed
  ultimately have "tag_ok s' (f(x := None))" by (simp add: tag_ok_def)
  moreover have "others_same s s' x f" using R(3) tg by (simp add: others_same_def)
  ultimately show ?thesis using R(1) by (auto simp: PacketTagList_destroy_def s'_def)
qed

end
