(* ===== verification/Packet_Tag_Claims.thy ===== *)
theory Packet_Tag_Claims
  imports Packet_Tag_Free
begin

text \<open>Sequences of operations on tag lists against lists that are never shared.\<close>

section \<open>Operations\<close>

datatype tag_op =
    NewTags nat | CopyTags nat nat | AssignTags nat nat | DestroyTags nat | ClearTags nat
  | AddTag nat Tag | RemoveTag nat u32 | ReplaceTag nat Tag | PeekTag nat u32

datatype tag_result = Void | Bytes "u8 list option" | Flag bool

fun tag_step :: "tag_op \<Rightarrow> TagStore \<Rightarrow> (tag_result \<times> TagStore) option" where
  "tag_step (NewTags x) s = Some (Void, PacketTagList_new x s)"
| "tag_step (CopyTags x y) s = map_option (Pair Void) (PacketTagList_copy x y s)"
| "tag_step (AssignTags x y) s = map_option (Pair Void) (PacketTagList_assign x y s)"
| "tag_step (DestroyTags x) s = map_option (Pair Void) (PacketTagList_destroy x s)"
| "tag_step (ClearTags x) s = map_option (Pair Void) (RemoveAll x s)"
| "tag_step (AddTag x t) s = map_option (Pair Void) (Tag_Add t x s)"
| "tag_step (RemoveTag x tid) s = map_option (map_prod Bytes id) (Tag_Remove tid x s)"
| "tag_step (ReplaceTag x t) s = map_option (map_prod Flag id) (Tag_Replace t x s)"
| "tag_step (PeekTag x tid) s = map_option (\<lambda>r. (Bytes r, s)) (Tag_Peek tid x s)"

text \<open>
  What they promise, for a map from objects to lists of tags; \<open>None\<close> where an operation must not be called: on an object that
  is not there, \<^verbatim>\<open>Add\<close> of a type that is there, \<^verbatim>\<open>Replace\<close> by another size.
\<close>

fun tag_spec :: "tag_op \<Rightarrow> (nat \<rightharpoonup> Tag list) \<Rightarrow> (tag_result \<times> (nat \<rightharpoonup> Tag list)) option" where
  "tag_spec (NewTags x) m = (if m x = None then Some (Void, m(x \<mapsto> [])) else None)"
| "tag_spec (CopyTags x y) m = (case m y of None \<Rightarrow> None | Some ts \<Rightarrow> if m x = None then Some (Void, m(x \<mapsto> ts)) else None)"
| "tag_spec (AssignTags x y) m = (case m y of None \<Rightarrow> None | Some ts \<Rightarrow> if m x = None then None else Some (Void, m(x \<mapsto> ts)))"
| "tag_spec (DestroyTags x) m = (if m x = None then None else Some (Void, m(x := None)))"
| "tag_spec (ClearTags x) m = (if m x = None then None else Some (Void, m(x \<mapsto> [])))"
| "tag_spec (AddTag x t) m = (case m x of None \<Rightarrow> None
    | Some ts \<Rightarrow> if fst t \<in> fst ` set ts \<or> length (snd t) \<ge> 2 ^ 32 - 1 then None else Some (Void, m(x \<mapsto> t # ts)))"
| "tag_spec (RemoveTag x tid) m = (case m x of None \<Rightarrow> None
    | Some ts \<Rightarrow> Some (Bytes (map_of ts tid), m(x \<mapsto> [t \<leftarrow> ts. fst t \<noteq> tid])))"
| "tag_spec (ReplaceTag x t) m = (case m x of None \<Rightarrow> None
    | Some ts \<Rightarrow> if length (snd t) < 2 ^ 32 - 1 \<and> (\<forall>t'\<in>set ts. fst t' = fst t \<longrightarrow> length (snd t') = length (snd t))
        then Some (Flag (fst t \<in> fst ` set ts), m(x \<mapsto> replaced t ts)) else None)"
| "tag_spec (PeekTag x tid) m = (case m x of None \<Rightarrow> None | Some ts \<Rightarrow> Some (Bytes (map_of ts tid), m))"

fun run_ops :: "('a \<Rightarrow> 's \<Rightarrow> ('r \<times> 's) option) \<Rightarrow> 'a list \<Rightarrow> 's \<Rightarrow> ('r list \<times> 's) option" where
  "run_ops step [] s = Some ([], s)"
| "run_ops step (e # es) s = do { (r, s) \<leftarrow> step e s; (rs, s) \<leftarrow> run_ops step es s; Some (r # rs, s) }"

text \<open>Object \<open>x\<close> holds the tags \<open>ts\<close>.\<close>

definition holds_tags :: "TagStore \<Rightarrow> nat \<Rightarrow> Tag list \<Rightarrow> bool" where
  "holds_tags s x ts \<longleftrightarrow> (\<exists>ns. cpath s (Head x) ns \<and> tags s ns = ts)"

section \<open>The simulation\<close>

definition contents :: "TagStore \<Rightarrow> (nat \<rightharpoonup> nat list) \<Rightarrow> (nat \<rightharpoonup> Tag list)" where
  "contents s f = (\<lambda>x. map_option (tags s) (f x))"

lemma contents_upd:
  "others_same s s' x f \<Longrightarrow> contents s' (f(x \<mapsto> ns)) = (contents s f)(x \<mapsto> tags s' ns)"
  "others_same s s' x f \<Longrightarrow> contents s' (f(x := None)) = (contents s f)(x := None)"
  by (auto simp: contents_def others_same_def fun_eq_iff map_option_case split: option.split)

lemma tag_step_simulates:
  assumes "tag_ok s f" and "tag_spec e (contents s f) = Some (r, m)"
  shows "\<exists>s' f'. tag_step e s = Some (r, s') \<and> tag_ok s' f' \<and> contents s' f' = m"
proof (cases e)
  case (NewTags x)
  then have x: "f x = None" "r = Void" "m = (contents s f)(x \<mapsto> [])" using assms(2) by (auto simp: contents_def split: if_splits)
  note n = PacketTagList_new_ok [OF assms(1) x(1)]
  then have "contents (PacketTagList_new x s) (f(x \<mapsto> [])) = m" using contents_upd(1) [of s "PacketTagList_new x s" x f "[]"] x(3) by (simp add: tags_def)
  then show ?thesis using n x(2) NewTags by auto
next
  case (CopyTags x y)
  then obtain ns where "f y = Some ns" "f x = None" "r = Void" "m = (contents s f)(x \<mapsto> tags s ns)"
    using assms(2) by (auto simp: contents_def split: option.splits if_splits)
  with PacketTagList_copy_ok [OF assms(1) this(1,2)] show ?thesis using contents_upd(1) CopyTags by fastforce
next
  case (AssignTags x y)
  then obtain ms ns where "f x = Some ms" "f y = Some ns" "r = Void" "m = (contents s f)(x \<mapsto> tags s ns)"
    using assms(2) by (auto simp: contents_def split: option.splits if_splits)
  with PacketTagList_assign_ok [OF assms(1) this(1,2)] show ?thesis using contents_upd(1) AssignTags by fastforce
next
  case (DestroyTags x)
  then obtain ns where "f x = Some ns" "r = Void" "m = (contents s f)(x := None)"
    using assms(2) by (auto simp: contents_def split: if_splits)
  with PacketTagList_destroy_ok [OF assms(1) this(1)] show ?thesis using contents_upd(2) DestroyTags by fastforce
next
  case (ClearTags x)
  then obtain ns where "f x = Some ns" "r = Void" "m = (contents s f)(x \<mapsto> [])"
    using assms(2) by (auto simp: contents_def split: if_splits)
  with RemoveAll_ok [OF assms(1) this(1)] show ?thesis using contents_upd(1) ClearTags by (fastforce simp: tags_def)
next
  case (AddTag x t)
  then obtain ns where "f x = Some ns" "fst t \<notin> fst ` set (tags s ns)" "length (snd t) < 2 ^ 32 - 1" "r = Void"
    "m = (contents s f)(x \<mapsto> t # tags s ns)"
    using assms(2) by (auto simp: contents_def split: option.splits if_splits)
  with Tag_Add_ok [OF assms(1) this(1,2,3)] show ?thesis using contents_upd(1) AddTag by fastforce
next
  case (RemoveTag x tid)
  then obtain ns where "f x = Some ns" "r = Bytes (map_of (tags s ns) tid)" "m = (contents s f)(x \<mapsto> [t \<leftarrow> tags s ns. fst t \<noteq> tid])"
    using assms(2) by (auto simp: contents_def split: option.splits)
  with Tag_Remove_ok [OF assms(1) this(1), of tid] show ?thesis using contents_upd(1) RemoveTag by fastforce
next
  case (ReplaceTag x t)
  then obtain ns where "f x = Some ns" "length (snd t) < 2 ^ 32 - 1"
    "\<forall>t'\<in>set (tags s ns). fst t' = fst t \<longrightarrow> length (snd t') = length (snd t)"
    "r = Flag (fst t \<in> fst ` set (tags s ns))" "m = (contents s f)(x \<mapsto> replaced t (tags s ns))"
    using assms(2) by (auto simp: contents_def split: option.splits if_splits)
  with Tag_Replace_ok [OF assms(1) this(1,2,3)] show ?thesis using contents_upd(1) ReplaceTag by fastforce
next
  case (PeekTag x tid)
  then obtain ns where "f x = Some ns" "r = Bytes (map_of (tags s ns) tid)" "m = contents s f"
    using assms(2) by (auto simp: contents_def split: option.splits)
  with Tag_Peek_ok [OF assms(1) this(1)] show ?thesis using assms(1) PeekTag by auto
qed

lemma run_simulates:
  assumes "tag_ok s f" and "run_ops tag_spec es (contents s f) = Some (rs, m)"
  shows "\<exists>s' f'. run_ops tag_step es s = Some (rs, s') \<and> tag_ok s' f' \<and> contents s' f' = m"
  using assms
proof (induction es arbitrary: s f rs)
  case (Cons e es)
  obtain r m1 where e: "tag_spec e (contents s f) = Some (r, m1)" using Cons.prems(2) by (cases "tag_spec e (contents s f)") auto
  from tag_step_simulates [OF Cons.prems(1) e] obtain s1 f1 where s1: "tag_step e s = Some (r, s1)" "tag_ok s1 f1" "contents s1 f1 = m1" by blast
  obtain rs' where "run_ops tag_spec es (contents s1 f1) = Some (rs', m)" "rs = r # rs'"
    using Cons.prems(2) e s1(3) by (cases "run_ops tag_spec es m1") auto
  with Cons.IH [OF s1(2) this(1)] s1(1) show ?case by auto
qed auto

lemma new_store_ok: "tag_ok TagStore_new Map.empty \<and> contents TagStore_new Map.empty = Map.empty"
  by (simp add: tag_ok_def tag_inv_def TagStore_new_def contents_def)

section \<open>Properties\<close>

text \<open>
  C22: Every sequence of operations on tag lists that keeps their preconditions succeeds, with the results and the tags that lists
  never shared would have: copies share nodes, but no change to one object is seen in another.
\<close>

theorem tag_lists_refine:
  assumes "run_ops tag_spec es Map.empty = Some (rs, m)"
  shows "\<exists>s. run_ops tag_step es TagStore_new = Some (rs, s) \<and>
    (\<forall>x. case m x of None \<Rightarrow> ts_ptr s (Head x) = None | Some ts \<Rightarrow> holds_tags s x ts)"
proof -
  have start: "tag_ok TagStore_new Map.empty" "run_ops tag_spec es (contents TagStore_new Map.empty) = Some (rs, m)"
    using new_store_ok assms by simp_all
  from run_simulates [OF start] obtain s f where s: "run_ops tag_step es TagStore_new = Some (rs, s)" "tag_ok s f" "contents s f = m" by blast
  have "case m x of None \<Rightarrow> ts_ptr s (Head x) = None | Some ts \<Rightarrow> holds_tags s x ts" for x
  proof (cases "f x")
    case None
    have i: "tag_inv s f" using s(2) by (simp add: tag_ok_def)
    have "ts_ptr s (Head x) = None" using tag_invD(2) [OF i, of x] None by (auto simp: domIff)
    then show ?thesis using None unfolding s(3) [symmetric] contents_def by simp
  next
    case (Some ns)
    then show ?thesis using tag_okD [OF s(2) Some] unfolding s(3) [symmetric] contents_def by (auto simp: holds_tags_def)
  qed
  then show ?thesis using s(1) by blast
qed

definition tag_example :: "tag_op list" where
  "tag_example = [NewTags 0, AddTag 0 (1, [7]), AddTag 0 (2, [8, 9]), CopyTags 1 0, RemoveTag 1 1, ReplaceTag 0 (2, [5, 6]), PeekTag 1 2]"

definition tag_example_results :: "tag_result list" where
  "tag_example_results = [Void, Void, Void, Void, Bytes (Some [7]), Flag True, Bytes (Some [8, 9])]"

lemma tag_example_spec:
  "run_ops tag_spec tag_example Map.empty = Some (tag_example_results, [0 \<mapsto> [(2, [5, 6]), (1, [7])], 1 \<mapsto> [(2, [8, 9])]])"
  by (simp add: tag_example_def tag_example_results_def replaced_def fun_upd_twist)

theorem tag_lists_refine_witness:
  "\<exists>s. run_ops tag_step tag_example TagStore_new = Some (tag_example_results, s) \<and>
    holds_tags s 0 [(2, [5, 6]), (1, [7])] \<and> holds_tags s 1 [(2, [8, 9])] \<and> ts_ptr s (Head 2) = None"
proof -
  from tag_lists_refine [OF tag_example_spec] obtain s where
    s: "run_ops tag_step tag_example TagStore_new = Some (tag_example_results, s)"
      "\<And>x. case [0 \<mapsto> [(2, [5, 6]), (1, [7])], Suc 0 \<mapsto> [(2, [8, 9])]] x of None \<Rightarrow> ts_ptr s (Head x) = None | Some ts \<Rightarrow> holds_tags s x ts"
    by auto
  show ?thesis using s(1) s(2) [of 0] s(2) [of 1] s(2) [of 2] by auto
qed

text \<open>
  C23: However lists were copied, changed and destroyed, each node counts the pointers to it and has at least one, and none is left
  when all objects are gone: nothing leaks and nothing is freed that is still pointed to.
\<close>

theorem tag_nodes_counted:
  assumes "run_ops tag_spec es Map.empty = Some (rs, m)"
  shows "\<exists>s. run_ops tag_step es TagStore_new = Some (rs, s) \<and> (\<forall>a d. ts_node s a = Some d \<longrightarrow> td_count d = refs s a \<and> 0 < refs s a) \<and>
    (\<forall>x a. ts_ptr s x = Some (Some a) \<longrightarrow> ts_node s a \<noteq> None) \<and> (m = Map.empty \<longrightarrow> ts_node s = Map.empty \<and> ts_ptr s = Map.empty)"
proof -
  have start: "tag_ok TagStore_new Map.empty" "run_ops tag_spec es (contents TagStore_new Map.empty) = Some (rs, m)"
    using new_store_ok assms by simp_all
  from run_simulates [OF start] obtain s f where s: "run_ops tag_step es TagStore_new = Some (rs, s)" "tag_ok s f" "contents s f = m" by blast
  have i: "tag_inv s f" using s(2) by (simp add: tag_ok_def)
  have "ts_node s = Map.empty \<and> ts_ptr s = Map.empty" if "m = Map.empty"
  proof -
    have f: "f x = None" for x using that s(3) by (auto simp: contents_def fun_eq_iff)
    have "a \<notin> dom (ts_node s)" for a using tag_invD(5) [OF i, of a] f by auto
    then have n: "ts_node s = Map.empty" by (auto simp: dom_def)
    have "ts_ptr s x = None" for x using tag_invD(2,3) [OF i] n f by (cases x) (auto simp: domIff)
    then show ?thesis using n by auto
  qed
  moreover have "td_count d = refs s a \<and> 0 < refs s a" if "ts_node s a = Some d" for a d
    using tag_invD(6) [OF i that] node_refs_pos [OF i, of a] that by auto
  moreover have "ts_node s a \<noteq> None" if "ts_ptr s x = Some (Some a)" for x a using ptr_target [OF i that] by auto
  ultimately show ?thesis using s(1) by blast
qed

lemma tag_example_gone: "run_ops tag_spec (tag_example @ [DestroyTags 0, DestroyTags 1]) Map.empty = Some (tag_example_results @ [Void, Void], Map.empty)"
  by (simp add: tag_example_def tag_example_results_def replaced_def fun_upd_twist)

theorem tag_nodes_counted_witness:
  "\<exists>s. run_ops tag_step (tag_example @ [DestroyTags 0, DestroyTags 1]) TagStore_new = Some (tag_example_results @ [Void, Void], s) \<and>
    ts_node s = Map.empty"
  using tag_nodes_counted [OF tag_example_gone] by blast

text \<open>Replacing a tag in place by a larger one of its type writes beyond the node.\<close>

lemma replace_larger_fails:
  assumes "length b < length b'" and "length b < 2 ^ 32 - 1"
  shows "run_ops tag_step [NewTags x, AddTag x (tid, b), ReplaceTag x (tid, b')] TagStore_new = None"
  using assms
  by (simp add: PacketTagList_new_def Tag_Add_def TagStore_new_def CreateTagData_def write_ptr_def Tag_Replace_def COWTraverse_def
      find_tid.simps cow_find.simps ReplaceWriter_def Let_def)

end
