(* ===== verification/Spec2Isabelle.thy ===== *)
theory Spec2Isabelle
  imports Prelude Elp_Claims Header_Claims Buffer_Claims Gpu_Claims Gpu_Stack_Claims Gpu_System P2p_Claims Tcp_Tx_Claims Tcp_Connection_Claims Ipv4_Claims Ipv4_Fragment_Claims Arp_Claims Packet_Tag_Claims
begin

text \<open>
  A model of the parts of CUDA ns-3 that carry its own logic: the discrete-event simulator that runs handlers on the
  GPU, the network stack those handlers are made of (both in \<^verbatim>\<open>contrib/cuda\<close>), and the bytes below the CPU stack of
  ns-3: the packet buffer, the headers written to it, and the links that carry the packets (\<^verbatim>\<open>src/network\<close>,
  \<^verbatim>\<open>src/internet\<close>, \<^verbatim>\<open>src/point-to-point\<close>, and the bridged point-to-point device of \<^verbatim>\<open>contrib/cuda\<close>).

  How the parts work together.  \<^verbatim>\<open>CudaELPSimulator\<close> keeps host events in an ns-3 scheduler.  Its main loop moves each
  event that is safe (earlier than time stamp plus lookahead of everything in flight) into one of two buffers of safe
  events; a kernel on the GPU runs the handlers of the buffer it owns and leaves the events they insert in one of two
  buffers of next events, which the host collects.  The handlers are the three kinds of \<^verbatim>\<open>cuda_ProcessOneEvent\<close>: a
  client sends, a device completes a transmission, a device receives.  They go down from \<^verbatim>\<open>CudaUdpClient\<close> through
  socket, UDP, IPv4 and \<^verbatim>\<open>CudaNetDevice\<close> to \<^verbatim>\<open>CudaP2PChannel\<close>, which inserts the arrival, and up again to
  \<^verbatim>\<open>CudaUdpServer\<close> or through \<^verbatim>\<open>CudaBridgeNetDevice\<close> to another device.  The CPU stack of ns-3 shares with it
  the headers and the buffer.

  Theories and sources.

  \<^item> \<open>Prelude\<close>: words as machine integers, maps, lists, and the collections of simplification rules.
  \<^item> \<open>Elp_Types\<close>, \<open>Elp_Kernel\<close>: \<^verbatim>\<open>cuda-elp-simulator.h\<close> and \<^verbatim>\<open>.cu\<close>.  The record
    \<open>elp\<close> has the members of the class; scheduling calls, the ping-pong buffers, \<open>runsk_iter\<close> (one iteration
    of \<^verbatim>\<open>ELP_RunSK\<close>) and \<open>kernel_step\<close> (one move of a thread of \<^verbatim>\<open>SingleBufKernel\<close>) follow the code.
    \<open>Elp_Safety\<close> and \<open>Elp_Reach\<close> hold the reachable states of host and kernel interleaved and their invariant,
    \<open>Elp_Drain\<close> the collection of device events, \<open>Elp_Props\<close> progress, wrap-around of identifiers and the
    d_insert loop, \<open>Elp_Claims\<close> the properties.
  \<^item> \<open>Gpu_Tables\<close>: routes, ARP cache, learned addresses, lookahead table; \<open>Gpu_Routing\<close> their
    invariants and what they stand for.  \<open>Gpu_Ring\<close>: the rings of \<^verbatim>\<open>CudaNetDevice\<close> and \<^verbatim>\<open>Cuda_PairList\<close> as
    instances of the locale \<open>fifo\<close> of \<open>Queue_Spec\<close>, and the first one access by access.  \<open>Gpu_Packet\<close>: \<^verbatim>\<open>CudaPacket\<close>
    over buffers of bytes.  \<open>Gpu_Float\<close>: the times, computed in \<^verbatim>\<open>float\<close> and \<^verbatim>\<open>double\<close>, with rounding.
  \<^item> \<open>Gpu_State\<close>, \<open>Gpu_Device\<close>, \<open>Gpu_Stack\<close>: the objects of the stack as one record \<open>gpu\<close> (a map from addresses
    for each class, as the code links them by pointers) and their operations up to \<open>handle_event\<close>.
    \<open>Gpu_Path\<close> a packet from client to server;
    \<open>Gpu_Faults\<close> the packets that do not arrive as they should; \<open>Gpu_Calls\<close> what the handlers insert, and
    that they are device code the theorems of the simulator apply to.  \<open>Gpu_Claims\<close> and \<open>Gpu_Stack_Claims\<close> the
    properties.  \<open>Gpu_System\<close>: simulator and stack run together.
  \<^item> \<open>Buffer_Iterator\<close>, \<open>Buffer_Store\<close>: \<^verbatim>\<open>buffer.cc\<close> and \<^verbatim>\<open>buffer.h\<close>, objects over a store of
    reference-counted blocks with a virtual zero area.  \<open>Buffer_Heap\<close> the invariant, \<open>Buffer_Refine\<close>,
    \<open>Buffer_Grow\<close>, \<open>Buffer_Copy\<close>, \<open>Buffer_Serial\<close> each operation against the bytes an
    object stands for, \<open>Buffer_Steps\<close> its reachable states, \<open>Buffer_Claims\<close> the properties.
  \<^item> \<open>Packet_Tag_List\<close>: \<^verbatim>\<open>packet-tag-list.cc\<close>, lists of tags that share nodes and are copied before they change.
    \<open>Packet_Tag_Inv\<close> the paths of pointers and the invariant, \<open>Packet_Tag_Cow\<close> and \<open>Packet_Tag_Free\<close>
    each operation on the tags an object holds, \<open>Packet_Tag_Claims\<close> the properties.
  \<^item> \<open>Ip_Checksum\<close>, \<open>Net_Address\<close>, \<open>Header_Codec\<close>: the checksum, \<^verbatim>\<open>Address\<close>, and headers added to and taken off the
    bytes of a packet.  \<open>Link_Headers\<close>, \<open>Ip_Headers\<close>, \<open>Ipv4_Header\<close>, \<open>Tcp_Header\<close>: one \<^verbatim>\<open>Serialize\<close> and
    \<^verbatim>\<open>Deserialize\<close> each with the round trip; \<open>Header_Claims\<close> the properties.
  \<^item> \<open>Drop_Tail\<close>: \<^verbatim>\<open>Queue\<close> and \<^verbatim>\<open>DropTailQueue\<close>, an instance of \<open>bounded_queue\<close>.  \<open>Crc32\<close>: the table-driven check sequence and the trailer it is sent in.  \<open>P2p_Device\<close>: devices and channels of
    \<^verbatim>\<open>bridged-p2p-net-device.cc\<close>, \<^verbatim>\<open>bridged-p2p-channel.cc\<close> and of ns-3's point-to-point module, the classes told
    apart by a field, and what they put on the wire.  \<open>P2p_Link\<close> the invariant of the transmitters and its preservation, \<open>P2p_System\<close> the reachable states, totality and the draining of the queues, \<open>P2p_Claims\<close> the
    properties.
  \<^item> \<open>Ipv4_Address\<close>: addresses and masks, their text.  \<open>Ipv4_Static_Routing\<close>: ns-3's \<^verbatim>\<open>Ipv4StaticRouting\<close>;
    \<open>Ipv4_Static_Lookup\<close> its choice of a route and the comparison with the GPU's table, \<open>Ipv4_Claims\<close> the properties.
  \<^item> \<open>Ipv4_Fragments\<close>: fragmentation, reassembly and its timers in \<^verbatim>\<open>ipv4-l3-protocol.cc\<close>, with the
    cutting compared to a reference definition.  \<open>Ipv4_Reassembly\<close> compares the fragments held with the pieces of a packet and
    has packets cut repeatedly and the arrival of one piece, \<open>Ipv4_Reassembly_Timeout\<close> the timers,
    \<open>Ipv4_Fragment_Claims\<close> the properties.
  \<^item> \<open>Arp_Cache\<close>: \<^verbatim>\<open>arp-cache.cc\<close>, \<^verbatim>\<open>arp-l3-protocol.cc\<close> and sending through \<^verbatim>\<open>ipv4-interface.cc\<close>.  \<open>Arp_Inv\<close> the invariant
    of the cache and the effect of each operation on waiting packets, \<open>Arp_Claims\<close> runs of it and the properties.
  \<^item> \<open>Sequence_Number\<close>: comparison around the circle.  \<open>Tcp_Rx_Buffer\<close>: the receive buffer of a TCP socket
    (\<^verbatim>\<open>tcp-rx-buffer.cc\<close>); \<open>Tcp_Rx_Overlap\<close> and \<open>Tcp_Rx_Add\<close> its operations on
    positions of the stream; \<open>Tcp_Rx_History\<close> a connection and the properties.
  \<^item> \<open>Tcp_Tx_Buffer\<close>: the send buffer of a TCP socket and its scoreboard (\<^verbatim>\<open>tcp-tx-buffer.cc\<close>); \<open>Tcp_Tx_Items\<close>
    splitting and merging of items; \<open>Tcp_Tx_Inv\<close> the invariant; \<open>Tcp_Tx_Copy\<close> taking out segments; \<open>Tcp_Tx_Board\<close> and
    \<open>Tcp_Tx_Sack\<close> marks, selective acknowledgements and losses; \<open>Tcp_Tx_Discard\<close> what is acknowledged leaves;
    \<open>Tcp_Tx_History\<close> any sequence of the operations, \<open>Tcp_Tx_Claims\<close> the properties.
  \<^item> \<open>Tcp_Connection\<close>: both buffers and a network between them that loses, repeats, delays and reorders; its invariant
    ties the marks of the sender to the reports of the receiver.  \<open>Tcp_Connection_Claims\<close>: delivery, no failure, completion.

  Conventions.  A w-bit integer of the code is a \<open>w word\<close>; Iterator cursors and counts that cannot wrap are
  \<open>nat\<close>.  A pointer is a 64-bit word with \<open>nullptr = 0\<close>.  \<open>None\<close> is undefined behaviour (an access outside an
  object, a null pointer, an object of the wrong class), an assertion that fails or a loop that does not end; a
  theorem whose conclusion is \<open>Some\<close> says that none of these happens.  Where a loop takes fuel, the fuel is the
  length of the input plus one, which the loop cannot exceed unless it makes no progress; \<open>tcp_zero_length_option_hangs\<close>
  is about every fuel.  Loops along pointers are partial functions.  A thread spinning on a compare-and-exchange is a step that may be
  repeated (\<open>Elp_Kernel\<close>, \<open>Gpu_Ring\<close>); elsewhere one thread runs an operation to its end.

  Bounds.  Comparisons of 32-bit sequence numbers are an order only within half the circle: the send buffer holds less than
  \<open>2\<^sup>3\<^sup>0\<close> bytes, the receive buffer at most \<open>2\<^sup>2\<^sup>9\<close> (the defaults of the code are 128 KiB), and packets that are
  \<open>2\<^sup>2\<^sup>9\<close> bytes behind are no longer in the network.

  Parameters.  The scheduler and the event implementations of ns-3 core (outside this repository) are arguments
  with the documented behaviour as hypotheses (\<open>sched_laws\<close>, satisfied by an ordered list); user code run by an
  event is an argument; fresh memory, the bytes in it, and values the code leaves uninitialised or does not
  return are arguments or fields of \<open>gpu_env\<close> and \<open>p2p_env\<close>.  The links take the scheduler as a function that keeps events
  in time order (\<open>in_time_order\<close>, satisfied by \<open>insert_at\<close>), and the receive error model as a function.

  Properties.  For the simulator: conservative dispatch, no lost or overwritten event, progress, and the two ways
  it stops.  For the stack: a packet is delivered with its payload, devices and rings keep order, routes are a map
  with longest-prefix lookup, the handlers meet the simulator's contract; and the inputs for which these fail:
  payloads below 20 and above 2004 bytes, racing use of the ring, flooding, and forwarding of short frames, which
  undercuts the lookahead.  For the links: order, no loss, delivery, no failed assertion, round trip of frames and
  detection of damaged ones.  For routing on the CPU: the choice of a route, and agreement of the
  GPU's table with it.  For fragments: they give the packet back whatever happens to them on the way, they fit, and they
  expire in time.  For ARP: no failure, no packet lost or
  overtaken, and an end to waiting.  For TCP: segments in any order give the stream; the scoreboard of the
  sender counts what it marks, follows the rules for what to send next, and together with the receiver delivers everything over any
  network, always with a way on to the end; and a request across the end of the sequence numbers, which fails.
  For the buffer: counted blocks, and each operation on bytes, with the overflow of joined zero areas.  For tags: lists that share nodes behave like lists that do not, and
  nothing leaks.  For headers: round trips, checksums, and inputs that are not handled.

  Not modelled.  CUDA allocation and streams; \<^verbatim>\<open>ELP_Run\<close> with its persistent kernel, \<^verbatim>\<open>Run\<close> and \<^verbatim>\<open>Destroy\<close>; code that
  is compiled out (\<^verbatim>\<open>CHECKSUM_CHECK\<close>) or that nothing calls (the older \<^verbatim>\<open>Send\<close> functions, host-side kernels,
  test functions); object construction, attributes and tracing; printing; byte tags and metadata of packets; and
  the parts of ns-3 the GPU path does not use (TCP sockets but for their receive and send buffers, IPv6, ICMP, global routing, packetbb).
\<close>

end
